(* ===== verification/C_Prelude.thy ===== *)
theory C_Prelude
  imports Main "HOL-Library.Word"
begin

text \<open>
  Shared material of the development: the machine integers of the C sources, the result type that
  stands for \<open>exit\<close>, undefined behaviour and exhausted fuel, byte memories with
  \<open>memcpy\<close>-like slices and splices, the little-endian encodings of the host, and the
  generic lemmas the component theories use.
\<close>

unbundle bit_operations_syntax

named_theorems mem_simps \<open>reading back from an updated byte memory\<close>
named_theorems res_simps \<open>case analysis of composed results\<close>

section \<open>Machine integers\<close>

type_synonym u8 = "8 word"
type_synonym u16 = "16 word"
type_synonym u32 = "32 word"
type_synonym u64 = "64 word"
type_synonym bytes = "8 word list"

section \<open>Results\<close>

text \<open>
  \<open>C_Exit m\<close>: the code prints \<open>m\<close> and calls \<open>exit(EXIT_FAILURE)\<close>.
  \<open>C_Fault\<close>: the code reads or writes outside the object it addresses.
  \<open>C_Fuel\<close>: the model's bound on a loop or recursion is used up.
\<close>

datatype c_error = C_Exit string | C_Fault | C_Fuel

type_synonym 'a cres = "c_error + 'a"

definition rbind :: "'e + 'a \<Rightarrow> ('a \<Rightarrow> 'e + 'b) \<Rightarrow> 'e + 'b" where
  "rbind m f = (case m of Inl e \<Rightarrow> Inl e | Inr x \<Rightarrow> f x)"

section \<open>Byte memories\<close>

definition mem_slice :: "nat \<Rightarrow> nat \<Rightarrow> 'a list \<Rightarrow> 'a list" where
  "mem_slice off n m = take n (drop off m)"

definition mem_splice :: "nat \<Rightarrow> 'a list \<Rightarrow> 'a list \<Rightarrow> 'a list" where
  "mem_splice off bs m = take off m @ bs @ drop (off + length bs) m"

text \<open>The bounds-checked accesses: a range outside the object is a fault.\<close>

definition mem_load :: "'a list \<Rightarrow> nat \<Rightarrow> nat \<Rightarrow> 'a list cres" where
  "mem_load m off n = (if off + n \<le> length m then Inr (mem_slice off n m) else Inl C_Fault)"

definition mem_store :: "'a list \<Rightarrow> nat \<Rightarrow> 'a list \<Rightarrow> 'a list cres" where
  "mem_store m off bs =
     (if off + length bs \<le> length m then Inr (mem_splice off bs m) else Inl C_Fault)"

text \<open>The host is little-endian: the least significant byte is stored first.\<close>

definition le16 :: "u16 \<Rightarrow> bytes" where
  "le16 v = [ucast v, ucast (drop_bit 8 v)]"

definition le32 :: "u32 \<Rightarrow> bytes" where
  "le32 v = [ucast v, ucast (drop_bit 8 v), ucast (drop_bit 16 v), ucast (drop_bit 24 v)]"

definition of_le16 :: "bytes \<Rightarrow> u16" where
  "of_le16 bs = ucast (bs ! 0) OR push_bit 8 (ucast (bs ! 1))"

definition of_le32 :: "bytes \<Rightarrow> u32" where
  "of_le32 bs = ucast (bs ! 0) OR push_bit 8 (ucast (bs ! 1)) OR
     push_bit 16 (ucast (bs ! 2)) OR push_bit 24 (ucast (bs ! 3))"

definition mem_load8 :: "bytes \<Rightarrow> nat \<Rightarrow> u8 cres" where
  "mem_load8 m off = (if off < length m then Inr (m ! off) else Inl C_Fault)"

definition mem_load32 :: "bytes \<Rightarrow> nat \<Rightarrow> u32 cres" where
  "mem_load32 m off = rbind (mem_load m off 4) (\<lambda>bs. Inr (of_le32 bs))"

definition mem_store8 :: "bytes \<Rightarrow> nat \<Rightarrow> u8 \<Rightarrow> bytes cres" where
  "mem_store8 m off v = mem_store m off [v]"

definition mem_store32 :: "bytes \<Rightarrow> nat \<Rightarrow> u32 \<Rightarrow> bytes cres" where
  "mem_store32 m off v = mem_store m off (le32 v)"

section \<open>Arrays and \<open>int\<close> arithmetic\<close>

definition aget :: "'a list \<Rightarrow> int \<Rightarrow> 'a cres" where
  "aget xs i = (if 0 \<le> i \<and> nat i < length xs then Inr (xs ! nat i) else Inl C_Fault)"

definition aset :: "'a list \<Rightarrow> int \<Rightarrow> 'a \<Rightarrow> 'a list cres" where
  "aset xs i v = (if 0 \<le> i \<and> nat i < length xs then Inr (xs[nat i := v]) else Inl C_Fault)"

text \<open>The result of an \<open>int\<close> operation: signed overflow is undefined.\<close>

definition c_int :: "int \<Rightarrow> int cres" where
  "c_int x = (if - (2 ^ 31) \<le> x \<and> x < 2 ^ 31 then Inr x else Inl C_Fault)"

section \<open>Lemmas on results\<close>

lemma rbind_Inr [simp]: "rbind (Inr x) f = f x"
  by (simp add: rbind_def)

lemma rbind_Inl [simp]: "rbind (Inl e) f = Inl e"
  by (simp add: rbind_def)

lemma rbind_eq_Inr [res_simps]: "rbind m f = Inr y \<longleftrightarrow> (\<exists>x. m = Inr x \<and> f x = Inr y)"
  by (cases m) simp_all

lemma rbind_eq_Inl [res_simps]:
  "rbind m f = Inl e \<longleftrightarrow> m = Inl e \<or> (\<exists>x. m = Inr x \<and> f x = Inl e)"
  by (cases m) simp_all

lemma rbind_assoc: "rbind (rbind m f) g = rbind m (\<lambda>x. rbind (f x) g)"
  by (cases m) simp_all

lemma rbind_cong [fundef_cong]:
  "m = m' \<Longrightarrow> (\<And>x. m' = Inr x \<Longrightarrow> f x = f' x) \<Longrightarrow> rbind m f = rbind m' f'"
  by (cases m') simp_all

text \<open>What holds of the result when there is one, with one rule for each way to build it.\<close>

definition post :: "'a cres \<Rightarrow> ('a \<Rightarrow> bool) \<Rightarrow> bool" where
  "post m Q \<longleftrightarrow> (\<forall>x. m = Inr x \<longrightarrow> Q x)"

named_theorems post_rules \<open>rules for the results of the operations\<close>

lemma post_Inr [post_rules]: "Q x \<Longrightarrow> post (Inr x) Q"
  by (simp add: post_def)

lemma post_Inl [post_rules]: "post (Inl e) Q"
  by (simp add: post_def)

lemma post_rbind [post_rules]: "post m (\<lambda>x. post (f x) Q) \<Longrightarrow> post (rbind m f) Q"
  by (auto simp: post_def rbind_eq_Inr)

lemma post_if [post_rules]: "(b \<Longrightarrow> post m Q) \<Longrightarrow> (\<not> b \<Longrightarrow> post n Q) \<Longrightarrow> post (if b then m else n) Q"
  by simp

lemma post_case_option [post_rules]:
  "(x = None \<Longrightarrow> post m Q) \<Longrightarrow> (\<And>y. x = Some y \<Longrightarrow> post (f y) Q) \<Longrightarrow>
   post (case x of None \<Rightarrow> m | Some y \<Rightarrow> f y) Q"
  by (cases x) simp_all

lemma post_case_prod [post_rules]:
  "(\<And>a b. x = (a, b) \<Longrightarrow> post (f a b) Q) \<Longrightarrow> post (case x of (a, b) \<Rightarrow> f a b) Q"
  by (cases x) simp

lemma post_Let [post_rules]: "post (f x) Q \<Longrightarrow> post (let y = x in f y) Q"
  by simp

lemma postD: "post m Q \<Longrightarrow> m = Inr x \<Longrightarrow> Q x"
  by (simp add: post_def)

lemma post_weaken: "post m P \<Longrightarrow> (\<And>x. P x \<Longrightarrow> Q x) \<Longrightarrow> post m Q"
  by (auto simp: post_def)

lemma post_any: "(\<And>x. Q x) \<Longrightarrow> post m Q"
  by (simp add: post_def)

lemma post_self: "(\<And>x. m = Inr x \<Longrightarrow> Q x) \<Longrightarrow> post m Q"
  by (simp add: post_def)

text \<open>The same with the claim that there is a result.\<close>

definition runs :: "'a cres \<Rightarrow> ('a \<Rightarrow> bool) \<Rightarrow> bool" where
  "runs m Q \<longleftrightarrow> (\<exists>x. m = Inr x \<and> Q x)"

named_theorems runs_rules \<open>rules for operations that return\<close>

lemma runs_Inr [runs_rules]: "Q x \<Longrightarrow> runs (Inr x) Q"
  by (simp add: runs_def)

lemma runs_rbind [runs_rules]: "runs m (\<lambda>x. runs (f x) Q) \<Longrightarrow> runs (rbind m f) Q"
  by (auto simp: runs_def)

lemma runs_if [runs_rules]: "(b \<Longrightarrow> runs m Q) \<Longrightarrow> (\<not> b \<Longrightarrow> runs n Q) \<Longrightarrow> runs (if b then m else n) Q"
  by simp

lemma runs_Let [runs_rules]: "runs (f x) Q \<Longrightarrow> runs (let y = x in f y) Q"
  by simp

lemma runs_weaken: "runs m P \<Longrightarrow> (\<And>x. P x \<Longrightarrow> Q x) \<Longrightarrow> runs m Q"
  by (auto simp: runs_def)

section \<open>Lemmas on byte memories\<close>

lemma length_mem_slice [simp]: "off + n \<le> length m \<Longrightarrow> length (mem_slice off n m) = n"
  by (simp add: mem_slice_def)

lemma length_mem_splice [simp]:
  "off + length bs \<le> length m \<Longrightarrow> length (mem_splice off bs m) = length m"
  by (simp add: mem_splice_def)

lemma nth_mem_slice: "i < n \<Longrightarrow> off + n \<le> length m \<Longrightarrow> mem_slice off n m ! i = m ! (off + i)"
  by (simp add: mem_slice_def)

lemma nth_mem_splice:
  assumes "off + length bs \<le> length m" and "i < length m"
  shows "mem_splice off bs m ! i =
    (if off \<le> i \<and> i < off + length bs then bs ! (i - off) else m ! i)"
  using assms by (auto simp: mem_splice_def nth_append)

lemma mem_slice_eqI:
  assumes "off + n \<le> length m" and "off' + n \<le> length m'"
    and "\<And>i. i < n \<Longrightarrow> m ! (off + i) = m' ! (off' + i)"
  shows "mem_slice off n m = mem_slice off' n m'"
  using assms by (auto intro!: nth_equalityI simp: nth_mem_slice)

lemma mem_slice_splice_same [mem_simps]:
  "off + length bs \<le> length m \<Longrightarrow> n = length bs \<Longrightarrow> mem_slice off n (mem_splice off bs m) = bs"
  by (auto intro!: nth_equalityI simp: nth_mem_slice nth_mem_splice)

lemma mem_slice_splice_disjoint [mem_simps]:
  assumes "off + length bs \<le> length m" and "off' + n \<le> length m"
    and "off' + n \<le> off \<or> off + length bs \<le> off'"
  shows "mem_slice off' n (mem_splice off bs m) = mem_slice off' n m"
  using assms by (auto intro!: mem_slice_eqI simp: nth_mem_splice)

lemma mem_splice_slice_id:
  "off + n \<le> length m \<Longrightarrow> mem_splice off (mem_slice off n m) m = m"
  by (rule nth_equalityI) (auto simp: nth_mem_splice nth_mem_slice)

lemma mem_load_Inr [simp]: "off + n \<le> length m \<Longrightarrow> mem_load m off n = Inr (mem_slice off n m)"
  by (simp add: mem_load_def)

lemma mem_store_Inr [simp]:
  "off + length bs \<le> length m \<Longrightarrow> mem_store m off bs = Inr (mem_splice off bs m)"
  by (simp add: mem_store_def)

lemma mem_load_iff [res_simps]:
  "mem_load m off n = Inr bs \<longleftrightarrow> off + n \<le> length m \<and> bs = mem_slice off n m"
  by (auto simp: mem_load_def)

lemma mem_store_iff [res_simps]:
  "mem_store m off bs = Inr m' \<longleftrightarrow> off + length bs \<le> length m \<and> m' = mem_splice off bs m"
  by (auto simp: mem_store_def)

section \<open>Little-endian encodings\<close>

lemma length_le16 [simp]: "length (le16 v) = 2"
  by (simp add: le16_def)

lemma length_le32 [simp]: "length (le32 v) = 4"
  by (simp add: le32_def)

lemma of_le16_le16 [simp]: "of_le16 (le16 v) = v"
  by (rule bit_word_eqI) (auto simp: of_le16_def le16_def bit_simps)

lemma of_le32_le32 [simp]: "of_le32 (le32 v) = v"
proof (rule bit_word_eqI)
  fix n :: nat
  assume "n < LENGTH(32)"
  then consider "n < 8" | "8 \<le> n" "n < 16" | "16 \<le> n" "n < 24" | "24 \<le> n" "n < 32"
    by fastforce
  then show "bit (of_le32 (le32 v)) n \<longleftrightarrow> bit v n"
    by cases (auto simp: of_le32_def le32_def bit_simps)
qed

lemma splice_le32_read:
  "off + 4 \<le> length m \<Longrightarrow> of_le32 (mem_slice off 4 (mem_splice off (le32 w) m)) = w"
  using mem_slice_splice_same [of off "le32 w" m] by simp

lemma le32_of_le32: "length bs = 4 \<Longrightarrow> le32 (of_le32 bs) = bs"
proof -
  assume "length bs = 4"
  then obtain a b c d where bs: "bs = [a, b, c, d]"
    by (auto simp: numeral_eq_Suc length_Suc_conv)
  have "ucast (of_le32 bs) = a" "ucast (drop_bit 8 (of_le32 bs)) = b"
    "ucast (drop_bit 16 (of_le32 bs)) = c" "ucast (drop_bit 24 (of_le32 bs)) = d"
    by (auto intro!: bit_word_eqI simp: bs of_le32_def bit_simps) (auto dest!: bit_imp_le_length)
  then show ?thesis by (simp add: le32_def bs)
qed

lemma mem_load8_Inr [simp]: "off < length m \<Longrightarrow> mem_load8 m off = Inr (m ! off)"
  by (simp add: mem_load8_def)

lemma mem_load8_iff [res_simps]: "mem_load8 m off = Inr v \<longleftrightarrow> off < length m \<and> v = m ! off"
  by (auto simp: mem_load8_def)

lemma mem_load32_Inr [simp]:
  "off + 4 \<le> length m \<Longrightarrow> mem_load32 m off = Inr (of_le32 (mem_slice off 4 m))"
  by (simp add: mem_load32_def)

lemma mem_load32_iff [res_simps]:
  "mem_load32 m off = Inr v \<longleftrightarrow> off + 4 \<le> length m \<and> v = of_le32 (mem_slice off 4 m)"
  by (auto simp: mem_load32_def res_simps)

lemma mem_store8_Inr [simp]:
  "off < length m \<Longrightarrow> mem_store8 m off v = Inr (mem_splice off [v] m)"
  by (simp add: mem_store8_def)

lemma mem_store32_Inr [simp]:
  "off + 4 \<le> length m \<Longrightarrow> mem_store32 m off v = Inr (mem_splice off (le32 v) m)"
  by (simp add: mem_store32_def)

lemma mem_store8_iff [res_simps]:
  "mem_store8 m off v = Inr m' \<longleftrightarrow> off < length m \<and> m' = mem_splice off [v] m"
  by (auto simp: mem_store8_def res_simps)

lemma mem_store32_iff [res_simps]:
  "mem_store32 m off v = Inr m' \<longleftrightarrow> off + 4 \<le> length m \<and> m' = mem_splice off (le32 v) m"
  by (auto simp: mem_store32_def res_simps)

section \<open>Midpoints and indices\<close>

text \<open>The midpoint of two 32-bit indices, as the binary searches compute it.\<close>

lemma unat_midpoint:
  fixes lo hi :: u32
  assumes "unat lo + unat hi < 2 ^ 32"
  shows "unat ((lo + hi) div 2) = (unat lo + unat hi) div 2"
  using assms by (simp add: unat_div unat_word_ariths)

lemma unat_Suc_index:
  fixes i :: u32
  assumes "unat i + 1 < 2 ^ 32"
  shows "unat (i + 1) = unat i + 1"
  using assms by (simp add: unat_word_ariths)

section \<open>Signed readings\<close>

lemma sint_word_of_nat: "n < 2 ^ 31 \<Longrightarrow> sint (word_of_int (int n) :: u32) = int n"
  by (simp only: sint_sbintrunc') (simp add: signed_take_bit_int_eq_self)

lemma sint_small: "unat (w :: u32) < 2 ^ 31 \<Longrightarrow> sint w = int (unat w)"
  using sint_word_of_nat [of "unat w"] by simp

end
