(* ===== verification/Db_Row.thy ===== *)
theory Db_Row
  imports C_Prelude
begin

text \<open>
  simpledb rows (\<open>row.h\<close>, \<open>row.c\<close>): the \<open>Row\<close> struct with its padding, \<open>row_init\<close> with
  the part of the C library it calls (\<open>atoi\<close>, \<open>strlen\<close>, \<open>strcpy\<close>), and the
  serialisation into a page buffer. A C string is a \<open>string\<close> without its terminating NUL.
\<close>

section \<open>Definitions\<close>

subsection \<open>Constants and the struct\<close>

definition COLUMN_USERNAME_SIZE :: nat where "COLUMN_USERNAME_SIZE = 32"
definition COLUMN_EMAIL_SIZE :: nat where "COLUMN_EMAIL_SIZE = 32"
definition ID_SIZE :: nat where "ID_SIZE = 4"
definition USERNAME_SIZE :: nat where "USERNAME_SIZE = COLUMN_USERNAME_SIZE + 1"
definition EMAIL_SIZE :: nat where "EMAIL_SIZE = COLUMN_EMAIL_SIZE + 1"
definition ID_OFFSET :: nat where "ID_OFFSET = 0"
definition USERNAME_OFFSET :: nat where "USERNAME_OFFSET = ID_OFFSET + ID_SIZE"
definition EMAIL_OFFSET :: nat where "EMAIL_OFFSET = USERNAME_OFFSET + USERNAME_SIZE"
definition ROW_SIZE :: nat where "ROW_SIZE = ID_SIZE + USERNAME_SIZE + EMAIL_SIZE"

lemmas row_layout = COLUMN_USERNAME_SIZE_def COLUMN_EMAIL_SIZE_def ID_SIZE_def USERNAME_SIZE_def
  EMAIL_SIZE_def ID_OFFSET_def USERNAME_OFFSET_def EMAIL_OFFSET_def ROW_SIZE_def

text \<open>
  The struct has 4 + 33 + 33 = 70 bytes of members and is aligned to 4, so that two bytes of
  padding end it. Their contents are unspecified, but the code copies the first one, so the
  record keeps them.
\<close>

record Row =
  row_id :: u32
  username :: bytes
  email :: bytes
  padding :: bytes

datatype Row_Init_Result =
  ROW_INIT_SUCCESS | ROW_NEGATIVE_ID | ROW_STRING_NULL | ROW_STRING_TOO_LONG

definition row_ok :: "Row \<Rightarrow> bool" where
  "row_ok r \<longleftrightarrow> length (username r) = USERNAME_SIZE \<and> length (email r) = EMAIL_SIZE \<and>
     length (padding r) = 2"

text \<open>The object representation of the struct, and the struct of an object representation.\<close>

definition row_img :: "Row \<Rightarrow> bytes" where
  "row_img r = le32 (row_id r) @ username r @ email r @ padding r"

definition img_row :: "bytes \<Rightarrow> Row" where
  "img_row m = \<lparr>row_id = of_le32 (mem_slice ID_OFFSET ID_SIZE m),
     username = mem_slice USERNAME_OFFSET USERNAME_SIZE m,
     email = mem_slice EMAIL_OFFSET EMAIL_SIZE m,
     padding = mem_slice ROW_SIZE 2 m\<rparr>"

subsection \<open>The C library\<close>

definition str_bytes :: "string \<Rightarrow> bytes" where
  "str_bytes s = map of_char s"

text \<open>The bytes of a character array up to its first NUL, as \<open>%s\<close> prints them.\<close>

definition bytes_str :: "bytes \<Rightarrow> string" where
  "bytes_str bs = map (\<lambda>b. char_of (uint b)) (takeWhile (\<lambda>b. b \<noteq> 0) bs)"

definition isspace :: "char \<Rightarrow> bool" where
  "isspace c \<longleftrightarrow> c = CHR '' '' \<or> c = CHR 0x09 \<or> c = CHR 0x0A \<or> c = CHR 0x0B \<or> c = CHR 0x0C
     \<or> c = CHR 0x0D"

definition digit_val :: "char \<Rightarrow> int option" where
  "digit_val c = (let n = (of_char c :: int) in if 48 \<le> n \<and> n \<le> 57 then Some (n - 48) else None)"

fun digits_val :: "int \<Rightarrow> string \<Rightarrow> int" where
  "digits_val acc [] = acc"
| "digits_val acc (c # s) =
     (case digit_val c of None \<Rightarrow> acc | Some d \<Rightarrow> digits_val (acc * 10 + d) s)"

text \<open>
  \<open>atoi(s)\<close> is \<open>(int) strtol(s, NULL, 10)\<close>: leading white space, an optional sign, decimal digits;
  the 64-bit \<open>long\<close> saturates and the conversion to \<open>int\<close> keeps the low 32 bits.
\<close>

definition strtol10 :: "string \<Rightarrow> int" where
  "strtol10 s =
     (let t = dropWhile isspace s;
          v = (case t of [] \<Rightarrow> 0
               | c # u \<Rightarrow> if c = CHR ''-'' then - digits_val 0 u
                          else if c = CHR ''+'' then digits_val 0 u
                          else digits_val 0 t)
      in max (- (2 ^ 63)) (min (2 ^ 63 - 1) v))"

definition atoi :: "string \<Rightarrow> int" where
  "atoi s = sint (word_of_int (strtol10 s) :: u32)"

text \<open>\<open>strcpy(dst, s)\<close> writes the string and its NUL and keeps the rest of the array.\<close>

definition strcpy :: "bytes \<Rightarrow> string \<Rightarrow> bytes cres" where
  "strcpy dst s = mem_store dst 0 (str_bytes s @ [0])"

subsection \<open>Operations\<close>

text \<open>
  \<open>row_init(id, username, email, row)\<close>. A NULL pointer is \<open>None\<close>; the result carries the row the
  pointer leads to afterwards.
\<close>

definition row_init ::
    "string option \<Rightarrow> string option \<Rightarrow> string option \<Rightarrow> Row option \<Rightarrow>
     (Row_Init_Result \<times> Row option) cres" where
  "row_init ids un em row =
     (case (ids, un, em) of
        (Some i, Some u, Some e) \<Rightarrow>
          (let id_int = atoi i in
           if id_int < 0 then Inr (ROW_NEGATIVE_ID, row)
           else if length u > COLUMN_USERNAME_SIZE then Inr (ROW_STRING_TOO_LONG, row)
           else if length e > COLUMN_EMAIL_SIZE then Inr (ROW_STRING_TOO_LONG, row)
           else (case row of
                   None \<Rightarrow> Inr (ROW_INIT_SUCCESS, None)
                 | Some r \<Rightarrow>
                     rbind (strcpy (username r) u) (\<lambda>ub.
                     rbind (strcpy (email r) e) (\<lambda>eb.
                     Inr (ROW_INIT_SUCCESS,
                       Some (r\<lparr>row_id := word_of_int id_int, username := ub, email := eb\<rparr>))))))
      | _ \<Rightarrow> Inr (ROW_STRING_NULL, row))"

definition row_get_key :: "Row \<Rightarrow> u32" where
  "row_get_key r = row_id r"

text \<open>
  \<open>row_write_to_buffer(srcRow, destBuffer)\<close>, with the buffer at offset \<open>base\<close> of memory \<open>m\<close>. The
  second and third \<open>memcpy\<close> copy one byte more than the member holds.
\<close>

definition row_write_to_buffer :: "Row \<Rightarrow> bytes \<Rightarrow> nat \<Rightarrow> bytes cres" where
  "row_write_to_buffer r m base =
     rbind (mem_load (row_img r) ID_OFFSET ID_SIZE) (\<lambda>b1.
     rbind (mem_store m (base + ID_OFFSET) b1) (\<lambda>m1.
     rbind (mem_load (row_img r) USERNAME_OFFSET (USERNAME_SIZE + 1)) (\<lambda>b2.
     rbind (mem_store m1 (base + USERNAME_OFFSET) b2) (\<lambda>m2.
     rbind (mem_load (row_img r) EMAIL_OFFSET (EMAIL_SIZE + 1)) (\<lambda>b3.
     mem_store m2 (base + EMAIL_OFFSET) b3)))))"

text \<open>\<open>row_read_from_buffer(srcBuffer, destRow)\<close>: the same three copies, the other way.\<close>

definition row_read_from_buffer :: "bytes \<Rightarrow> nat \<Rightarrow> Row \<Rightarrow> Row cres" where
  "row_read_from_buffer m base r =
     rbind (mem_load m (base + ID_OFFSET) ID_SIZE) (\<lambda>b1.
     rbind (mem_store (row_img r) ID_OFFSET b1) (\<lambda>i1.
     rbind (mem_load m (base + USERNAME_OFFSET) (USERNAME_SIZE + 1)) (\<lambda>b2.
     rbind (mem_store i1 USERNAME_OFFSET b2) (\<lambda>i2.
     rbind (mem_load m (base + EMAIL_OFFSET) (EMAIL_SIZE + 1)) (\<lambda>b3.
     rbind (mem_store i2 EMAIL_OFFSET b3) (\<lambda>i3.
     Inr (img_row i3)))))))"

text \<open>\<open>row_print\<close>: \<open>"(%d, %s, %s)\n"\<close>; \<open>%d\<close> reads the unsigned id as an \<open>int\<close>.\<close>

fun show_nat :: "nat \<Rightarrow> string" where
  "show_nat n =
     (if n < 10 then [char_of (48 + n)] else show_nat (n div 10) @ [char_of (48 + n mod 10)])"

declare show_nat.simps [simp del]

definition show_int :: "int \<Rightarrow> string" where
  "show_int i = (if i < 0 then ''-'' @ show_nat (nat (- i)) else show_nat (nat i))"

definition show_d :: "u32 \<Rightarrow> string" where
  "show_d w = show_int (sint w)"

definition row_print :: "Row \<Rightarrow> string" where
  "row_print r = ''('' @ show_d (row_id r) @ '', '' @ bytes_str (username r) @ '', '' @
     bytes_str (email r) @ '')'' @ [CHR 0x0A]"

section \<open>Lemmas\<close>

lemma ROW_SIZE_eq: "ROW_SIZE = 70"
  by (simp add: row_layout)

lemma length_row_img [simp]: "row_ok r \<Longrightarrow> length (row_img r) = 72"
  by (simp add: row_ok_def row_img_def row_layout)

lemma row_img_inverse: "row_ok r \<Longrightarrow> img_row (row_img r) = r"
  by (cases r) (simp add: row_ok_def row_img_def img_row_def row_layout mem_slice_def)

text \<open>The three copies together write the first 71 bytes of the struct.\<close>

lemma row_write_eq:
  assumes "row_ok r" and "base + 71 \<le> length m"
  shows "row_write_to_buffer r m base = Inr (mem_splice base (take 71 (row_img r)) m)"
proof -
  let ?i = "row_img r"
  have len: "length ?i = 72" using assms(1) by simp
  let ?m1 = "mem_splice base (mem_slice 0 4 ?i) m"
  let ?m2 = "mem_splice (base + 4) (mem_slice 4 34 ?i) ?m1"
  let ?m3 = "mem_splice (base + 37) (mem_slice 37 34 ?i) ?m2"
  have "row_write_to_buffer r m base = Inr ?m3"
    using assms len by (simp add: row_write_to_buffer_def row_layout)
  moreover have "?m3 = mem_splice base (take 71 ?i) m"
  proof (rule nth_equalityI)
    show "length ?m3 = length (mem_splice base (take 71 ?i) m)"
      using assms(2) len by simp
    fix i assume "i < length ?m3"
    then show "?m3 ! i = mem_splice base (take 71 ?i) m ! i"
      using assms(2) len by (cases "i = base + 37") (auto simp: nth_mem_splice nth_mem_slice)
  qed
  ultimately show ?thesis by simp
qed

lemma row_read_eq:
  assumes "row_ok r" and "base + 71 \<le> length m"
  shows "row_read_from_buffer m base r = Inr (img_row (mem_slice base 71 m @ drop 71 (row_img r)))"
proof -
  let ?i = "row_img r"
  have len: "length ?i = 72" using assms(1) by simp
  let ?i1 = "mem_splice 0 (mem_slice base 4 m) ?i"
  let ?i2 = "mem_splice 4 (mem_slice (base + 4) 34 m) ?i1"
  let ?i3 = "mem_splice 37 (mem_slice (base + 37) 34 m) ?i2"
  have "row_read_from_buffer m base r = Inr (img_row ?i3)"
    using assms len by (simp add: row_read_from_buffer_def row_layout)
  moreover have "?i3 = mem_slice base 71 m @ drop 71 ?i"
  proof (rule nth_equalityI)
    show "length ?i3 = length (mem_slice base 71 m @ drop 71 ?i)"
      using assms(2) len by simp
    fix i assume "i < length ?i3"
    then show "?i3 ! i = (mem_slice base 71 m @ drop 71 ?i) ! i"
      using assms(2) len
      by (cases "i = 71") (auto simp: nth_mem_splice nth_mem_slice nth_append)
  qed
  ultimately show ?thesis by simp
qed

lemma row_ok_img_row: "length m = 72 \<Longrightarrow> row_ok (img_row m)"
  by (simp add: row_ok_def img_row_def row_layout)

lemma row_write_overrun:
  assumes "row_ok r" and "base + 71 \<le> length m"
  shows "\<exists>m'. row_write_to_buffer r m base = Inr m' \<and> length m' = length m \<and>
    m' ! (base + ROW_SIZE) = padding r ! 0 \<and>
    (\<forall>i < length m. i < base \<or> base + ROW_SIZE < i \<longrightarrow> m' ! i = m ! i)"
proof -
  have len: "length (row_img r) = 72" using assms(1) by simp
  have "row_img r ! 70 = padding r ! 0"
    using assms(1) by (simp add: row_ok_def row_img_def row_layout nth_append)
  then show ?thesis
    using row_write_eq [OF assms] assms(2) len
    by (auto simp: ROW_SIZE_eq nth_mem_splice)
qed

lemma row_write_then_read:
  assumes "row_ok r" and "row_ok r0" and "base + 71 \<le> length m"
  shows "rbind (row_write_to_buffer r m base) (\<lambda>m. row_read_from_buffer m base r0) =
    Inr (r\<lparr>padding := [padding r ! 0, padding r0 ! 1]\<rparr>)"
proof -
  have len: "length (row_img r) = 72" "length (row_img r0) = 72" using assms by simp_all
  have sl: "mem_slice base 71 (mem_splice base (take 71 (row_img r)) m) = take 71 (row_img r)"
    using assms(3) len mem_slice_splice_same [of base "take 71 (row_img r)" m] by simp
  obtain a b c d where r: "r = \<lparr>row_id = a, username = b, email = c, padding = d\<rparr>" by (cases r)
  obtain d0 d1 where d: "d = [d0, d1]"
    using assms(1) by (auto simp: r row_ok_def row_layout length_Suc_conv numeral_2_eq_2)
  have "drop 71 (row_img r0) = [padding r0 ! 1]"
    using assms(2) by (cases r0)
      (auto simp: row_ok_def row_img_def row_layout length_Suc_conv numeral_2_eq_2)
  moreover have "take 71 (row_img r) @ [x] = row_img (r\<lparr>padding := [padding r ! 0, x]\<rparr>)" for x
    using assms(1) by (simp add: r d row_ok_def row_img_def row_layout)
  moreover have "row_ok (r\<lparr>padding := [padding r ! 0, padding r0 ! 1]\<rparr>)"
    using assms(1) by (simp add: row_ok_def row_layout)
  ultimately show ?thesis
    using row_write_eq [OF assms(1,3)] row_read_eq [OF assms(2)] assms(3) len sl
    by (simp add: row_img_inverse)
qed

end
