(* ===== verification/Db_Pager.thy ===== *)
theory Db_Pager
  imports Db_Row
begin

text \<open>
  simpledb's pager (\<open>config.h\<close>, \<open>pager.h\<close>, \<open>pager.c\<close>): the page cache over one database file.
  The \<open>Pager\<close> struct is a record; beside its members it carries the world the functions act on:
  the file behind the descriptor, what the blocks returned by \<open>malloc\<close> hold, and the console.
\<close>

section \<open>Definitions\<close>

definition PAGE_SIZE :: nat where "PAGE_SIZE = 4096"
definition TABLE_MAX_PAGES :: nat where "TABLE_MAX_PAGES = 100"

lemmas pager_layout = PAGE_SIZE_def TABLE_MAX_PAGES_def

text \<open>
  A regular file: its bytes, and whether the system calls on its descriptor succeed, with the
  \<open>errno\<close> they leave otherwise.
\<close>

record db_file =
  file_bytes :: bytes
  seek_ok :: bool
  read_ok :: bool
  write_ok :: bool
  close_ok :: bool
  errno :: int

text \<open>
  \<open>fresh n\<close> is what the block that \<open>malloc(PAGE_SIZE)\<close> returns for page \<open>n\<close> contains: a page is
  allocated at most once between \<open>pager_open\<close> and \<open>db_close\<close>, so one block for each page number
  covers every behaviour of the allocator.
\<close>

record Pager =
  file_descriptor :: db_file
  file_length :: u32
  num_pages :: u32
  pages :: "bytes option list"
  fresh :: "nat \<Rightarrow> bytes"
  console :: string

definition nl :: string where "nl = [CHR 0x0A]"

definition printf :: "string \<Rightarrow> Pager \<Rightarrow> Pager" where
  "printf s p = p\<lparr>console := console p @ s\<rparr>"

text \<open>
  \<open>pager_open(filename)\<close>: \<open>fo\<close> is the file \<open>open\<close> gives (\<open>None\<close> when it returns -1), \<open>malloc_ok\<close>
  whether the allocation of the struct succeeds. The loop at the end sets every page to NULL.
\<close>

definition pager_open ::
    "string \<Rightarrow> db_file option \<Rightarrow> bool \<Rightarrow> (nat \<Rightarrow> bytes) \<Rightarrow> string \<Rightarrow> Pager cres" where
  "pager_open filename fo malloc_ok fr con =
     (case fo of
        None \<Rightarrow> Inl (C_Exit (''Error: Unable to open file '' @ filename @ nl))
      | Some fl \<Rightarrow>
          let len = length (file_bytes fl) in
          if \<not> malloc_ok then Inl (C_Exit (''Error: Unable to malloc pager.'' @ nl))
          else if len mod PAGE_SIZE \<noteq> 0 then
            Inl (C_Exit (''Error: Db file is not a whole number of pages. Corrupt file.'' @ nl))
          else Inr \<lparr>file_descriptor = fl, file_length = word_of_nat len,
                 num_pages = word_of_nat (len div PAGE_SIZE),
                 pages = replicate TABLE_MAX_PAGES None, fresh = fr, console = con\<rparr>)"

text \<open>\<open>write\<close> at an offset of a regular file: a gap before the offset reads as zeros.\<close>

definition file_write :: "nat \<Rightarrow> bytes \<Rightarrow> bytes \<Rightarrow> bytes" where
  "file_write off bs f =
     take off (f @ replicate (off - length f) 0) @ bs @ drop (off + length bs) f"

definition pager_flush :: "Pager \<Rightarrow> u32 \<Rightarrow> Pager cres" where
  "pager_flush p n =
     (if unat n \<ge> length (pages p) then Inl C_Fault
      else case pages p ! unat n of
        None \<Rightarrow> Inl (C_Exit (''Error: Tried to flush null page'' @ nl))
      | Some pg \<Rightarrow>
          if \<not> seek_ok (file_descriptor p) then
            Inl (C_Exit (''Error: error seeking: '' @ show_int (errno (file_descriptor p)) @ nl))
          else if \<not> write_ok (file_descriptor p) then
            Inl (C_Exit (''Error: error writing: '' @ show_int (errno (file_descriptor p)) @ nl))
          else Inr (p\<lparr>file_descriptor := (file_descriptor p)\<lparr>file_bytes :=
                  file_write (unat (n * word_of_nat PAGE_SIZE)) pg (file_bytes (file_descriptor p))\<rparr>\<rparr>))"

text \<open>
  \<open>read\<close> into a block: the bytes the file has at the offset, at most a page of them, overwrite the
  start of the block and the rest of it keeps its contents.
\<close>

definition file_read :: "nat \<Rightarrow> bytes \<Rightarrow> bytes \<Rightarrow> bytes" where
  "file_read off f block =
     (let got = take PAGE_SIZE (drop off f) in got @ drop (length got) block)"

text \<open>
  The cache miss of \<open>pager_get_page\<close>. The result of the seek is not checked: a failed one leaves the
  file position where it was, which the model takes to be the end of the file.
\<close>

definition pager_load_page :: "Pager \<Rightarrow> u32 \<Rightarrow> Pager cres" where
  "pager_load_page p n =
     (let page = fresh p (unat n);
          whole = file_length p div word_of_nat PAGE_SIZE;
          odd_end = (file_length p mod word_of_nat PAGE_SIZE \<noteq> 0);
          np = (if odd_end then whole + 1 else whole);
          p1 = (if odd_end then printf (''Error: Corrupt file.'' @ nl) p else p)
      in rbind
           (if n \<le> np then
              (if \<not> read_ok (file_descriptor p1) then
                 Inl (C_Exit (''Error: error reading file: '' @ show_int (errno (file_descriptor p1)) @ nl))
               else Inr (if seek_ok (file_descriptor p1)
                         then file_read (unat (n * word_of_nat PAGE_SIZE)) (file_bytes (file_descriptor p1)) page
                         else page))
            else Inr page)
           (\<lambda>page.
              let p2 = p1\<lparr>pages := (pages p1)[unat n := Some page]\<rparr>
              in Inr (if n \<ge> num_pages p2 then p2\<lparr>num_pages := n + 1\<rparr> else p2)))"

definition pager_get_page :: "Pager \<Rightarrow> u32 \<Rightarrow> (bytes \<times> Pager) cres" where
  "pager_get_page p n =
     (if unat n \<ge> TABLE_MAX_PAGES then
        Inl (C_Exit (''Error: Tried to fetch page number out of bounds. '' @ show_d n @ '' > '' @
          show_d (word_of_nat TABLE_MAX_PAGES) @ nl))
      else rbind (if pages p ! unat n = None then pager_load_page p n else Inr p)
             (\<lambda>p'. Inr (the (pages p' ! unat n), p')))"

definition pager_get_unused_page_num :: "Pager \<Rightarrow> u32" where
  "pager_get_unused_page_num p = num_pages p"

subsection \<open>Invariant\<close>

text \<open>
  The cache has one slot for each page, every block is a page long, a cached page is counted by
  \<open>num_pages\<close>, and the file is a whole number of pages whose length fits the 32-bit member.
\<close>

definition pager_ok :: "Pager \<Rightarrow> bool" where
  "pager_ok p \<longleftrightarrow> length (pages p) = TABLE_MAX_PAGES \<and>
     (\<forall>i < TABLE_MAX_PAGES. \<forall>pg. pages p ! i = Some pg \<longrightarrow>
        length pg = PAGE_SIZE \<and> i < unat (num_pages p)) \<and>
     (\<forall>i. length (fresh p i) = PAGE_SIZE) \<and>
     length (file_bytes (file_descriptor p)) mod PAGE_SIZE = 0 \<and>
     unat (file_length p) mod PAGE_SIZE = 0"

subsection \<open>Abstract view\<close>

text \<open>
  The page a table sees at a number, cached or not, and the pager once that page is cached.
\<close>

definition disk_page :: "Pager \<Rightarrow> u32 \<Rightarrow> bytes" where
  "disk_page p n =
     (if n \<le> file_length p div word_of_nat PAGE_SIZE \<and> seek_ok (file_descriptor p)
      then file_read (unat (n * word_of_nat PAGE_SIZE)) (file_bytes (file_descriptor p))
             (fresh p (unat n))
      else fresh p (unat n))"

definition page_view :: "Pager \<Rightarrow> u32 \<Rightarrow> bytes" where
  "page_view p n = (case pages p ! unat n of Some pg \<Rightarrow> pg | None \<Rightarrow> disk_page p n)"

definition pager_cached :: "Pager \<Rightarrow> u32 \<Rightarrow> Pager" where
  "pager_cached p n = (case pages p ! unat n of
       Some pg \<Rightarrow> p
     | None \<Rightarrow> p\<lparr>pages := (pages p)[unat n := Some (disk_page p n)],
                 num_pages := max (num_pages p) (n + 1)\<rparr>)"

section \<open>Lemmas\<close>

lemma length_file_read: "length block = PAGE_SIZE \<Longrightarrow> length (file_read off f block) = PAGE_SIZE"
  by (simp add: file_read_def Let_def)

lemma length_file_write: "length (file_write off bs f) = max (length f) (off + length bs)"
  by (auto simp: file_write_def max_def)

lemma file_read_write_same:
  assumes "length bs = PAGE_SIZE"
  shows "file_read off (file_write off bs f) block = bs @ drop PAGE_SIZE block"
  using assms by (simp add: file_read_def file_write_def Let_def)

lemma nth_file_write:
  assumes "off \<le> length f" and "i < max (length f) (off + length bs)"
  shows "file_write off bs f ! i =
    (if off \<le> i \<and> i < off + length bs then bs ! (i - off) else f ! i)"
  using assms by (simp add: file_write_def nth_append) linarith

lemma take_drop_file_write_other:
  assumes "off + length bs \<le> o' \<or> o' + n \<le> off" and "o' + n \<le> length f" and "off \<le> length f"
  shows "take n (drop o' (file_write off bs f)) = take n (drop o' f)"
proof (rule nth_equalityI)
  show "length (take n (drop o' (file_write off bs f))) = length (take n (drop o' f))"
    using assms(2) by (simp add: length_file_write)
  fix i assume "i < length (take n (drop o' (file_write off bs f)))"
  then have i: "i < n" by simp
  have "file_write off bs f ! (o' + i) = f ! (o' + i)"
    using assms i by (subst nth_file_write) auto
  then show "take n (drop o' (file_write off bs f)) ! i = take n (drop o' f) ! i"
    using assms i by (simp add: length_file_write)
qed

lemma printf_simps [simp]:
  "file_descriptor (printf s p) = file_descriptor p" "file_length (printf s p) = file_length p"
  "num_pages (printf s p) = num_pages p" "pages (printf s p) = pages p"
  "fresh (printf s p) = fresh p" "console (printf s p) = console p @ s"
  by (simp_all add: printf_def)

lemma pager_ok_printf [simp]: "pager_ok (printf s p) \<longleftrightarrow> pager_ok p"
  by (simp add: pager_ok_def)

lemma whole_pages_mod:
  "unat (w :: u32) mod PAGE_SIZE = 0 \<Longrightarrow> w mod word_of_nat PAGE_SIZE = 0"
  by (rule word_unat_eq_iff [THEN iffD2]) (simp add: unat_mod PAGE_SIZE_def)

lemma pager_get_page_hit:
  "unat n < TABLE_MAX_PAGES \<Longrightarrow> pages p ! unat n = Some pg \<Longrightarrow> pager_get_page p n = Inr (pg, p)"
  by (simp add: pager_get_page_def)

lemma pager_get_page_out_of_bounds:
  "TABLE_MAX_PAGES \<le> unat n \<Longrightarrow> \<exists>m. pager_get_page p n = Inl (C_Exit m)"
  by (simp add: pager_get_page_def)

text \<open>What a load does, for a well-formed pager.\<close>

lemma pager_load_page_eq:
  assumes ok: "pager_ok p" and n: "unat n < TABLE_MAX_PAGES" and rd: "read_ok (file_descriptor p)"
  shows "pager_load_page p n = Inr (p\<lparr>pages := (pages p)[unat n := Some (disk_page p n)],
            num_pages := max (num_pages p) (n + 1)\<rparr>)"
proof -
  have fl: "file_length p mod word_of_nat PAGE_SIZE = 0"
    using ok by (simp add: pager_ok_def whole_pages_mod)
  have S: "unat (n + 1) = unat n + 1"
    using n by (intro unat_Suc_index) (simp add: TABLE_MAX_PAGES_def)
  have "num_pages p \<le> n \<Longrightarrow> max (num_pages p) (n + 1) = n + 1"
    by (rule max_absorb2) (simp add: word_le_nat_alt S)
  moreover have "\<not> num_pages p \<le> n \<Longrightarrow> max (num_pages p) (n + 1) = num_pages p"
    by (rule max_absorb1) (simp add: word_le_nat_alt S)
  ultimately have "num_pages p \<le> n \<Longrightarrow> max (num_pages p) (n + 1) = n + 1"
    "\<not> num_pages p \<le> n \<Longrightarrow> max (num_pages p) (n + 1) = num_pages p"
    by blast+
  then show ?thesis
    using rd by (cases "num_pages p \<le> n") (simp_all add: pager_load_page_def Let_def fl disk_page_def)
qed

lemma pager_get_page_eq:
  assumes ok: "pager_ok p" and n: "unat n < TABLE_MAX_PAGES" and rd: "read_ok (file_descriptor p)"
  shows "pager_get_page p n = Inr (page_view p n, pager_cached p n)"
proof (cases "pages p ! unat n")
  case None
  moreover have "unat n < length (pages p)"
    using ok n by (simp add: pager_ok_def)
  ultimately show ?thesis
    using assms n by (simp add: pager_get_page_def pager_load_page_eq page_view_def pager_cached_def)
next
  case (Some pg)
  with n show ?thesis by (simp add: pager_get_page_def page_view_def pager_cached_def)
qed

lemma length_disk_page: "pager_ok p \<Longrightarrow> length (disk_page p n) = PAGE_SIZE"
  by (simp add: disk_page_def pager_ok_def length_file_read)

lemma length_page_view:
  "pager_ok p \<Longrightarrow> unat n < TABLE_MAX_PAGES \<Longrightarrow> length (page_view p n) = PAGE_SIZE"
  by (auto simp: page_view_def length_disk_page pager_ok_def split: option.splits)

lemma pager_ok_cached:
  assumes ok: "pager_ok p" and n: "unat n < TABLE_MAX_PAGES"
  shows "pager_ok (pager_cached p n)"
proof -
  have "unat (max (num_pages p) (n + 1)) = max (unat (num_pages p)) (unat n + 1)"
    using n unat_Suc_index [of n] by (simp add: max_def word_le_nat_alt TABLE_MAX_PAGES_def)
  then show ?thesis
    using ok n length_disk_page [OF ok]
    by (fastforce simp: pager_ok_def pager_cached_def nth_list_update less_max_iff_disj
        split: option.split)
qed

lemma page_view_cached:
  assumes ok: "pager_ok p" and n: "unat n < TABLE_MAX_PAGES" and m: "unat m < TABLE_MAX_PAGES"
  shows "page_view (pager_cached p n) m = page_view p m"
proof -
  have "disk_page (pager_cached p n) m = disk_page p m"
    by (cases "pages p ! unat n") (simp_all add: disk_page_def pager_cached_def)
  moreover have "length (pages p) = TABLE_MAX_PAGES" using ok by (simp add: pager_ok_def)
  ultimately show ?thesis
    using n m by (cases "n = m")
      (auto simp: page_view_def pager_cached_def nth_list_update dest: word_unat_eq_iff [THEN iffD2]
        split: option.split)
qed

section \<open>The interface the table relies on\<close>

text \<open>
  A page cache gives for each valid number the page the table sees there, and a later request for
  any page sees the same.
\<close>

locale page_cache =
  fixes get :: "'s \<Rightarrow> u32 \<Rightarrow> (bytes \<times> 's) cres"
    and view :: "'s \<Rightarrow> u32 \<Rightarrow> bytes"
    and ok :: "'s \<Rightarrow> bool"
  assumes get_view: "ok s \<Longrightarrow> unat n < TABLE_MAX_PAGES \<Longrightarrow>
      \<exists>s'. get s n = Inr (view s n, s') \<and> ok s' \<and>
        (\<forall>m. unat m < TABLE_MAX_PAGES \<longrightarrow> view s' m = view s m)"
    and view_length: "ok s \<Longrightarrow> unat n < TABLE_MAX_PAGES \<Longrightarrow> length (view s n) = PAGE_SIZE"
begin

lemma get_again:
  assumes "ok s" and "unat n < TABLE_MAX_PAGES" and "unat m < TABLE_MAX_PAGES"
    and "get s n = Inr (pg, s')"
  shows "\<exists>s''. get s' m = Inr (view s m, s'')"
  using assms get_view by (metis Inr_inject Pair_inject)

lemma get_length: "ok s \<Longrightarrow> unat n < TABLE_MAX_PAGES \<Longrightarrow> get s n = Inr (pg, s') \<Longrightarrow> length pg = PAGE_SIZE"
  using get_view view_length by fastforce

end

definition pager_live :: "Pager \<Rightarrow> bool" where
  "pager_live p \<longleftrightarrow> pager_ok p \<and> read_ok (file_descriptor p)"

lemma pager_cached_frame [simp]:
  "file_descriptor (pager_cached p n) = file_descriptor p"
  "file_length (pager_cached p n) = file_length p"
  "fresh (pager_cached p n) = fresh p" "console (pager_cached p n) = console p"
  by (simp_all add: pager_cached_def split: option.split)

lemma pager_live_cached: "pager_live p \<Longrightarrow> unat n < TABLE_MAX_PAGES \<Longrightarrow> pager_live (pager_cached p n)"
  by (simp add: pager_live_def pager_ok_cached)

interpretation cache: page_cache pager_get_page page_view pager_live
  by unfold_locales
    (auto simp: pager_live_def pager_get_page_eq pager_ok_cached page_view_cached length_page_view)

end
