(* ===== verification/Db_Node.thy ===== *)
theory Db_Node
  imports Db_Pager
begin

text \<open>
  simpledb's nodes (\<open>node.h\<close>, \<open>node.c\<close>): the byte layout of B-tree nodes inside a page. A pointer
  into a node is modelled as its offset from the start of the page, so an accessor of the source
  that returns a pointer is a function that returns an offset. Offset arithmetic is done in
  \<open>size_t\<close> and in \<open>char *\<close>, where a 32-bit cell number cannot overflow it, except in
  \<open>internal_node_key\<close>, whose addition is on \<open>uint32_t *\<close> and so counts words of four bytes.
\<close>

section \<open>Layout\<close>

definition NODE_INTERNAL :: u8 where "NODE_INTERNAL = 0"
definition NODE_LEAF :: u8 where "NODE_LEAF = 1"

definition NODE_TYPE_OFFSET :: nat where "NODE_TYPE_OFFSET = 0"
definition NODE_TYPE_SIZE :: nat where "NODE_TYPE_SIZE = 1"
definition IS_ROOT_OFFSET :: nat where "IS_ROOT_OFFSET = NODE_TYPE_OFFSET + NODE_TYPE_SIZE"
definition IS_ROOT_SIZE :: nat where "IS_ROOT_SIZE = 1"
definition PARENT_POINTER_OFFSET :: nat where
  "PARENT_POINTER_OFFSET = IS_ROOT_OFFSET + IS_ROOT_SIZE"
definition PARENT_POINTER_SIZE :: nat where "PARENT_POINTER_SIZE = 4"
definition COMMON_NODE_HEADER_SIZE :: nat where
  "COMMON_NODE_HEADER_SIZE = NODE_TYPE_SIZE + IS_ROOT_SIZE + PARENT_POINTER_SIZE"

definition LEAF_NODE_NUM_CELLS_OFFSET :: nat where
  "LEAF_NODE_NUM_CELLS_OFFSET = COMMON_NODE_HEADER_SIZE"
definition LEAF_NODE_NUM_CELLS_SIZE :: nat where "LEAF_NODE_NUM_CELLS_SIZE = 4"
definition LEAF_NODE_NEXT_LEAF_OFFSET :: nat where
  "LEAF_NODE_NEXT_LEAF_OFFSET = LEAF_NODE_NUM_CELLS_OFFSET + LEAF_NODE_NUM_CELLS_SIZE"
definition LEAF_NODE_NEXT_LEAF_SIZE :: nat where "LEAF_NODE_NEXT_LEAF_SIZE = 4"
definition LEAF_NODE_HEADER_SIZE :: nat where
  "LEAF_NODE_HEADER_SIZE =
     COMMON_NODE_HEADER_SIZE + LEAF_NODE_NUM_CELLS_SIZE + LEAF_NODE_NEXT_LEAF_SIZE"
definition LEAF_NODE_KEY_OFFSET :: nat where "LEAF_NODE_KEY_OFFSET = 0"
definition LEAF_NODE_KEY_SIZE :: nat where "LEAF_NODE_KEY_SIZE = 4"
definition LEAF_NODE_VALUE_OFFSET :: nat where
  "LEAF_NODE_VALUE_OFFSET = LEAF_NODE_KEY_OFFSET + LEAF_NODE_KEY_SIZE"
definition LEAF_NODE_VALUE_SIZE :: nat where "LEAF_NODE_VALUE_SIZE = ROW_SIZE"
definition LEAF_NODE_CELL_SIZE :: nat where
  "LEAF_NODE_CELL_SIZE = LEAF_NODE_KEY_SIZE + LEAF_NODE_VALUE_SIZE"
definition LEAF_NODE_SPACE_FOR_CELLS :: nat where
  "LEAF_NODE_SPACE_FOR_CELLS = PAGE_SIZE - LEAF_NODE_HEADER_SIZE"
definition LEAF_NODE_MAX_CELLS :: nat where
  "LEAF_NODE_MAX_CELLS = LEAF_NODE_SPACE_FOR_CELLS div LEAF_NODE_CELL_SIZE"
definition LEAF_NODE_RIGHT_SPLIT_COUNT :: nat where
  "LEAF_NODE_RIGHT_SPLIT_COUNT = (LEAF_NODE_MAX_CELLS + 1) div 2"
definition LEAF_NODE_LEFT_SPLIT_COUNT :: nat where
  "LEAF_NODE_LEFT_SPLIT_COUNT = (LEAF_NODE_MAX_CELLS + 1) - LEAF_NODE_RIGHT_SPLIT_COUNT"

definition INTERNAL_NODE_NUM_KEYS_OFFSET :: nat where
  "INTERNAL_NODE_NUM_KEYS_OFFSET = COMMON_NODE_HEADER_SIZE"
definition INTERNAL_NODE_NUM_KEYS_SIZE :: nat where "INTERNAL_NODE_NUM_KEYS_SIZE = 4"
definition INTERNAL_NODE_RIGHT_CHILD_OFFSET :: nat where
  "INTERNAL_NODE_RIGHT_CHILD_OFFSET =
     INTERNAL_NODE_NUM_KEYS_OFFSET + INTERNAL_NODE_NUM_KEYS_SIZE"
definition INTERNAL_NODE_RIGHT_CHILD_SIZE :: nat where "INTERNAL_NODE_RIGHT_CHILD_SIZE = 4"
definition INTERNAL_NODE_HEADER_SIZE :: nat where
  "INTERNAL_NODE_HEADER_SIZE =
     COMMON_NODE_HEADER_SIZE + INTERNAL_NODE_NUM_KEYS_SIZE + INTERNAL_NODE_RIGHT_CHILD_SIZE"
definition INTERNAL_NODE_CHILD_SIZE :: nat where "INTERNAL_NODE_CHILD_SIZE = 4"
definition INTERNAL_NODE_KEY_SIZE :: nat where "INTERNAL_NODE_KEY_SIZE = 4"
definition INTERNAL_NODE_CELL_SIZE :: nat where
  "INTERNAL_NODE_CELL_SIZE = INTERNAL_NODE_CHILD_SIZE + INTERNAL_NODE_KEY_SIZE"
definition INTERNAL_NODE_MAX_CELLS :: nat where "INTERNAL_NODE_MAX_CELLS = 3"

lemmas node_layout = NODE_TYPE_OFFSET_def NODE_TYPE_SIZE_def IS_ROOT_OFFSET_def IS_ROOT_SIZE_def
  PARENT_POINTER_OFFSET_def PARENT_POINTER_SIZE_def COMMON_NODE_HEADER_SIZE_def
  LEAF_NODE_NUM_CELLS_OFFSET_def LEAF_NODE_NUM_CELLS_SIZE_def LEAF_NODE_NEXT_LEAF_OFFSET_def
  LEAF_NODE_NEXT_LEAF_SIZE_def LEAF_NODE_HEADER_SIZE_def LEAF_NODE_KEY_OFFSET_def
  LEAF_NODE_KEY_SIZE_def LEAF_NODE_VALUE_OFFSET_def LEAF_NODE_VALUE_SIZE_def
  LEAF_NODE_CELL_SIZE_def LEAF_NODE_SPACE_FOR_CELLS_def LEAF_NODE_MAX_CELLS_def
  LEAF_NODE_RIGHT_SPLIT_COUNT_def LEAF_NODE_LEFT_SPLIT_COUNT_def
  INTERNAL_NODE_NUM_KEYS_OFFSET_def INTERNAL_NODE_NUM_KEYS_SIZE_def
  INTERNAL_NODE_RIGHT_CHILD_OFFSET_def INTERNAL_NODE_RIGHT_CHILD_SIZE_def
  INTERNAL_NODE_HEADER_SIZE_def INTERNAL_NODE_CHILD_SIZE_def INTERNAL_NODE_KEY_SIZE_def
  INTERNAL_NODE_CELL_SIZE_def INTERNAL_NODE_MAX_CELLS_def row_layout pager_layout

section \<open>Operations\<close>

subsection \<open>Common\<close>

definition get_node_type :: "bytes \<Rightarrow> u8 cres" where
  "get_node_type node = mem_load8 node NODE_TYPE_OFFSET"

definition set_node_type :: "u8 \<Rightarrow> bytes \<Rightarrow> bytes cres" where
  "set_node_type ty node = mem_store8 node NODE_TYPE_OFFSET ty"

definition is_node_root :: "bytes \<Rightarrow> bool cres" where
  "is_node_root node = rbind (mem_load8 node IS_ROOT_OFFSET) (\<lambda>v. Inr (v \<noteq> 0))"

definition set_node_root :: "bool \<Rightarrow> bytes \<Rightarrow> bytes cres" where
  "set_node_root is_root node = mem_store8 node IS_ROOT_OFFSET (if is_root then 1 else 0)"

definition node_parent :: nat where
  "node_parent = PARENT_POINTER_OFFSET"

subsection \<open>Leaf nodes\<close>

definition leaf_node_num_cells :: nat where
  "leaf_node_num_cells = LEAF_NODE_NUM_CELLS_OFFSET"

definition leaf_node_cell :: "u32 \<Rightarrow> nat" where
  "leaf_node_cell cell_num = LEAF_NODE_HEADER_SIZE + unat cell_num * LEAF_NODE_CELL_SIZE"

definition leaf_node_key :: "u32 \<Rightarrow> nat" where
  "leaf_node_key cell_num = leaf_node_cell cell_num"

definition leaf_node_value :: "u32 \<Rightarrow> nat" where
  "leaf_node_value cell_num = leaf_node_cell cell_num + LEAF_NODE_KEY_SIZE"

definition leaf_node_next_leaf :: nat where
  "leaf_node_next_leaf = LEAF_NODE_NEXT_LEAF_OFFSET"

definition initialize_leaf_node :: "bytes \<Rightarrow> bytes cres" where
  "initialize_leaf_node node =
     rbind (set_node_type NODE_LEAF node) (\<lambda>node.
     rbind (set_node_root False node) (\<lambda>node.
     rbind (mem_store32 node leaf_node_num_cells 0) (\<lambda>node.
     mem_store32 node leaf_node_next_leaf 0)))"

subsection \<open>Internal nodes\<close>

definition internal_node_num_keys :: nat where
  "internal_node_num_keys = INTERNAL_NODE_NUM_KEYS_OFFSET"

definition internal_node_right_child :: nat where
  "internal_node_right_child = INTERNAL_NODE_RIGHT_CHILD_OFFSET"

definition internal_node_cell :: "u32 \<Rightarrow> nat" where
  "internal_node_cell cell_num =
     INTERNAL_NODE_HEADER_SIZE + unat cell_num * INTERNAL_NODE_CELL_SIZE"

definition internal_node_child :: "bytes \<Rightarrow> u32 \<Rightarrow> nat cres" where
  "internal_node_child node child_num =
     rbind (mem_load32 node internal_node_num_keys) (\<lambda>num_keys.
       if child_num > num_keys then
         Inl (C_Exit (''Error: Tried to access child_num '' @ show_d child_num @ '' > num_keys '' @
           show_d num_keys @ nl))
       else if child_num = num_keys then Inr internal_node_right_child
       else Inr (internal_node_cell child_num))"

text \<open>
  \<open>internal_node_cell(node, key_num) + INTERNAL_NODE_CHILD_SIZE\<close> adds four to a \<open>uint32_t *\<close>: four
  words, that is sixteen bytes.
\<close>

definition internal_node_key :: "u32 \<Rightarrow> nat" where
  "internal_node_key key_num = internal_node_cell key_num + 4 * INTERNAL_NODE_CHILD_SIZE"

definition initialize_internal_node :: "bytes \<Rightarrow> bytes cres" where
  "initialize_internal_node node =
     rbind (set_node_type NODE_INTERNAL node) (\<lambda>node.
     rbind (set_node_root False node) (\<lambda>node.
     mem_store32 node internal_node_num_keys 0))"

text \<open>\<open>get_node_max_key\<close>: the subtraction is on \<open>uint32_t\<close>, so an empty node reads cell 0xffffffff.\<close>

definition get_node_max_key :: "bytes \<Rightarrow> u32 cres" where
  "get_node_max_key node =
     rbind (get_node_type node) (\<lambda>ty.
       if ty = NODE_INTERNAL then
         rbind (mem_load32 node internal_node_num_keys) (\<lambda>n.
           mem_load32 node (internal_node_key (n - 1)))
       else if ty = NODE_LEAF then
         rbind (mem_load32 node leaf_node_num_cells) (\<lambda>n.
           mem_load32 node (leaf_node_key (n - 1)))
       else Inr 0)"

section \<open>Abstract view of a leaf\<close>

text \<open>A leaf holds a list of cells, each a key and the bytes of a serialised row.\<close>

definition leaf_count :: "bytes \<Rightarrow> nat" where
  "leaf_count node = unat (of_le32 (mem_slice 6 4 node))"

definition cell_at :: "bytes \<Rightarrow> nat \<Rightarrow> bytes" where
  "cell_at node i = mem_slice (14 + i * 74) 74 node"

definition key_at :: "bytes \<Rightarrow> nat \<Rightarrow> u32" where
  "key_at node i = of_le32 (mem_slice (14 + i * 74) 4 node)"

definition value_at :: "bytes \<Rightarrow> nat \<Rightarrow> bytes" where
  "value_at node i = mem_slice (14 + i * 74 + 4) 70 node"

definition leaf_cells :: "bytes \<Rightarrow> (u32 \<times> bytes) list" where
  "leaf_cells node = map (\<lambda>i. (key_at node i, value_at node i)) [0..<leaf_count node]"

definition leaf_keys :: "bytes \<Rightarrow> u32 list" where
  "leaf_keys node = map (key_at node) [0..<leaf_count node]"

text \<open>A well-formed leaf page: its type byte, at most 55 cells, strictly increasing keys.\<close>

definition leaf_ok :: "bytes \<Rightarrow> bool" where
  "leaf_ok node \<longleftrightarrow> length node = 4096 \<and> node ! 0 = NODE_LEAF \<and> leaf_count node \<le> 55 \<and>
     sorted_wrt (<) (leaf_keys node)"

section \<open>Lemmas\<close>

lemma leaf_node_offsets:
  "leaf_node_num_cells = 6" "leaf_node_next_leaf = 10" "node_parent = 2"
  "leaf_node_cell c = 14 + unat c * 74" "leaf_node_key c = 14 + unat c * 74"
  "leaf_node_value c = 14 + unat c * 74 + 4"
  by (simp_all add: leaf_node_num_cells_def leaf_node_next_leaf_def node_parent_def
      leaf_node_cell_def leaf_node_key_def leaf_node_value_def node_layout)

lemma internal_node_offsets:
  "internal_node_num_keys = 6" "internal_node_right_child = 10"
  "internal_node_cell c = 14 + unat c * 8" "internal_node_key c = 30 + unat c * 8"
  by (simp_all add: internal_node_num_keys_def internal_node_right_child_def
      internal_node_cell_def internal_node_key_def node_layout)

lemma leaf_constants:
  "LEAF_NODE_MAX_CELLS = 55" "LEAF_NODE_CELL_SIZE = 74" "LEAF_NODE_LEFT_SPLIT_COUNT = 28"
  "LEAF_NODE_RIGHT_SPLIT_COUNT = 28" "LEAF_NODE_SPACE_FOR_CELLS = 4082"
  by (simp_all add: node_layout)

lemmas node_offsets = leaf_node_offsets internal_node_offsets leaf_constants

lemma leaf_count_load:
  "length node = 4096 \<Longrightarrow> mem_load32 node leaf_node_num_cells = Inr (of_le32 (mem_slice 6 4 node))"
  by (simp add: node_offsets)

lemma key_at_load:
  "length node = 4096 \<Longrightarrow> unat c \<le> 55 \<Longrightarrow>
   mem_load32 node (leaf_node_key c) = Inr (key_at node (unat c))"
  by (simp add: node_offsets key_at_def)

lemma length_leaf_cells [simp]: "length (leaf_cells node) = leaf_count node"
  by (simp add: leaf_cells_def)

lemma map_fst_leaf_cells: "map fst (leaf_cells node) = leaf_keys node"
  by (simp add: leaf_cells_def leaf_keys_def o_def)

lemma nth_leaf_cells:
  "i < leaf_count node \<Longrightarrow> leaf_cells node ! i = (key_at node i, value_at node i)"
  by (simp add: leaf_cells_def)

lemma nth_leaf_keys: "i < leaf_count node \<Longrightarrow> leaf_keys node ! i = key_at node i"
  by (simp add: leaf_keys_def)

lemma length_leaf_keys [simp]: "length (leaf_keys node) = leaf_count node"
  by (simp add: leaf_keys_def)

text \<open>Key and value are the two parts of the cell.\<close>

lemma key_at_cell: "length node = 4096 \<Longrightarrow> i \<le> 54 \<Longrightarrow> key_at node i = of_le32 (take 4 (cell_at node i))"
  by (simp add: key_at_def cell_at_def mem_slice_def)

lemma value_at_cell: "length node = 4096 \<Longrightarrow> i \<le> 54 \<Longrightarrow> value_at node i = drop 4 (cell_at node i)"
  by (simp add: value_at_def cell_at_def mem_slice_def drop_take ac_simps)

lemma key_at_mono:
  assumes "leaf_ok node" and "i < j" and "j < leaf_count node"
  shows "key_at node i < key_at node j"
proof -
  have "leaf_keys node ! i < leaf_keys node ! j"
    using assms by (intro sorted_wrt_nth_less [of "(<)"]) (auto simp: leaf_ok_def)
  then show ?thesis using assms by (simp add: nth_leaf_keys)
qed

lemma initialize_leaf_node_Inr:
  assumes "length node = 4096"
  obtains node' where "initialize_leaf_node node = Inr node'" "length node' = 4096"
    "node' ! 0 = NODE_LEAF" "node' ! 1 = 0" "leaf_count node' = 0" "mem_slice 10 4 node' = le32 0"
proof -
  let ?n1 = "mem_splice 0 [NODE_LEAF] node"
  let ?n2 = "mem_splice 1 [0] ?n1"
  let ?n3 = "mem_splice 6 (le32 0) ?n2"
  let ?n4 = "mem_splice 10 (le32 0) ?n3"
  have "initialize_leaf_node node = Inr ?n4"
    using assms by (simp add: initialize_leaf_node_def set_node_type_def set_node_root_def
        node_offsets node_layout)
  moreover have "leaf_count ?n4 = 0"
    using assms by (simp add: leaf_count_def mem_simps)
  ultimately show ?thesis
    using assms that by (simp add: nth_mem_splice mem_simps)
qed

lemma internal_child_key_overlap:
  assumes "length node = 4096" and "mem_load32 node internal_node_num_keys = Inr n"
    and "unat c + 2 < unat n" and "unat n \<le> 500"
  shows "\<exists>off node'. internal_node_child node (c + 2) = Inr off \<and>
    mem_store32 node off v = Inr node' \<and> mem_load32 node' (internal_node_key c) = Inr v"
proof -
  have u: "unat (c + 2) = unat c + 2"
    using assms(3,4) by (subst unat_add_lem [THEN iffD1]) simp_all
  then have "c + 2 < n" using assms(3) by (simp add: word_less_nat_alt)
  then have "\<not> n < c + 2" "c + 2 \<noteq> n" by (rule less_not_sym) (use \<open>c + 2 < n\<close> in blast)
  then have "internal_node_child node (c + 2) = Inr (30 + 8 * unat c)"
    using assms u by (simp add: internal_node_child_def internal_node_offsets)
  then show ?thesis using assms(1,3,4) by (simp add: internal_node_offsets mult.commute splice_le32_read)
qed

end
