(* ===== verification/Db_Leaf.thy ===== *)
theory Db_Leaf
  imports Db_Node
begin

text \<open>
  The work simpledb does inside one leaf page, or inside the two pages of a split
  (\<open>node_btree.c\<close>): the binary search of \<open>leaf_node_find\<close>, the insertion of a cell by
  \<open>leaf_node_insert\<close>, the distribution loop of \<open>leaf_node_split_and_insert\<close>; and the binary
  search of \<open>internal_node_find_child\<close>, which shares its contract.
\<close>

section \<open>Definitions\<close>

text \<open>
  The loop of \<open>leaf_node_find\<close> on \<open>[min_index, one_past_max_index)\<close>. The first argument bounds the
  number of iterations; lemma \<open>leaf_search_no_fuel\<close> shows that 64 is enough for any page.
\<close>

fun leaf_search :: "nat \<Rightarrow> bytes \<Rightarrow> u32 \<Rightarrow> u32 \<Rightarrow> u32 \<Rightarrow> u32 cres" where
  "leaf_search 0 node key min_index one_past_max_index = Inl C_Fuel"
| "leaf_search (Suc fuel) node key min_index one_past_max_index =
     (if one_past_max_index \<noteq> min_index then
        let index = (min_index + one_past_max_index) div 2 in
        rbind (mem_load32 node (leaf_node_key index)) (\<lambda>key_at_index.
          if key = key_at_index then Inr index
          else if key < key_at_index then leaf_search fuel node key min_index index
          else leaf_search fuel node key (index + 1) one_past_max_index)
      else Inr min_index)"

definition leaf_find_cell :: "bytes \<Rightarrow> u32 \<Rightarrow> u32 cres" where
  "leaf_find_cell node key =
     rbind (mem_load32 node leaf_node_num_cells) (\<lambda>num_cells. leaf_search 64 node key 0 num_cells)"

text \<open>The loop of \<open>internal_node_find_child\<close>.\<close>

fun internal_search :: "nat \<Rightarrow> bytes \<Rightarrow> u32 \<Rightarrow> u32 \<Rightarrow> u32 \<Rightarrow> u32 cres" where
  "internal_search 0 node key min_index max_index = Inl C_Fuel"
| "internal_search (Suc fuel) node key min_index max_index =
     (if min_index \<noteq> max_index then
        let index = (min_index + max_index) div 2 in
        rbind (mem_load32 node (internal_node_key index)) (\<lambda>key_to_right.
          if key_to_right \<ge> key then internal_search fuel node key min_index index
          else internal_search fuel node key (index + 1) max_index)
      else Inr min_index)"

definition internal_node_find_child :: "bytes \<Rightarrow> u32 \<Rightarrow> u32 cres" where
  "internal_node_find_child node key =
     rbind (mem_load32 node internal_node_num_keys) (\<lambda>num_keys.
       internal_search 64 node key 0 num_keys)"

text \<open>
  The loop of \<open>leaf_node_insert\<close> that makes room: \<open>for (i = num_cells; i > cell_num; i--)\<close> cell \<open>i\<close>
  becomes cell \<open>i - 1\<close>.
\<close>

fun leaf_shift :: "nat \<Rightarrow> nat \<Rightarrow> bytes \<Rightarrow> bytes cres" where
  "leaf_shift cell_num 0 node = Inr node"
| "leaf_shift cell_num (Suc i) node =
     (if Suc i > cell_num then
        rbind (mem_load node (leaf_node_cell (word_of_nat i)) LEAF_NODE_CELL_SIZE) (\<lambda>bs.
        rbind (mem_store node (leaf_node_cell (word_of_nat (Suc i))) bs) (\<lambda>node.
        leaf_shift cell_num i node))
      else Inr node)"

text \<open>\<open>*leaf_node_key(node, c) = key; row_write_to_buffer(value, leaf_node_value(node, c))\<close>.\<close>

definition leaf_put_cell :: "bytes \<Rightarrow> u32 \<Rightarrow> u32 \<Rightarrow> Row \<Rightarrow> bytes cres" where
  "leaf_put_cell node cell_num key value =
     rbind (mem_store32 node (leaf_node_key cell_num) key) (\<lambda>node.
     row_write_to_buffer value node (leaf_node_value cell_num))"

text \<open>The part of \<open>leaf_node_insert\<close> after the test for a full leaf.\<close>

definition leaf_insert_cell :: "bytes \<Rightarrow> u32 \<Rightarrow> u32 \<Rightarrow> Row \<Rightarrow> bytes cres" where
  "leaf_insert_cell node cell_num key value =
     rbind (mem_load32 node leaf_node_num_cells) (\<lambda>num_cells.
     rbind (if cell_num < num_cells then leaf_shift (unat cell_num) (unat num_cells) node
            else Inr node) (\<lambda>node.
     rbind (mem_load32 node leaf_node_num_cells) (\<lambda>n.
     rbind (mem_store32 node leaf_node_num_cells (n + 1)) (\<lambda>node.
     leaf_put_cell node cell_num key value))))"

text \<open>
  One iteration of the loop of \<open>leaf_node_split_and_insert\<close> on the old and the new page: cell \<open>i\<close> of
  the enlarged leaf goes to its place in the new page or in the old one.
\<close>

definition leaf_split_step :: "u32 \<Rightarrow> u32 \<Rightarrow> Row \<Rightarrow> nat \<Rightarrow> bytes \<times> bytes \<Rightarrow> (bytes \<times> bytes) cres" where
  "leaf_split_step cell_num key value i st =
     (let old_node = fst st; new_node = snd st;
          to_new = (i \<ge> LEAF_NODE_LEFT_SPLIT_COUNT);
          destination_node = (if to_new then new_node else old_node);
          index_within_node = word_of_nat (i mod LEAF_NODE_LEFT_SPLIT_COUNT)
      in rbind
           (if i = unat cell_num then leaf_put_cell destination_node index_within_node key value
            else rbind (mem_load old_node
                         (leaf_node_cell (word_of_nat (if i > unat cell_num then i - 1 else i)))
                         LEAF_NODE_CELL_SIZE) (\<lambda>bs.
                   mem_store destination_node (leaf_node_cell index_within_node) bs))
           (\<lambda>d. Inr (if to_new then (old_node, d) else (d, new_node))))"

text \<open>The loop: \<open>leaf_split_loop c k v n\<close> runs the iterations \<open>n - 1, \<dots>, 0\<close>.\<close>

fun leaf_split_loop :: "u32 \<Rightarrow> u32 \<Rightarrow> Row \<Rightarrow> nat \<Rightarrow> bytes \<times> bytes \<Rightarrow> (bytes \<times> bytes) cres" where
  "leaf_split_loop cell_num key value 0 st = Inr st"
| "leaf_split_loop cell_num key value (Suc i) st =
     rbind (leaf_split_step cell_num key value i st) (leaf_split_loop cell_num key value i)"

text \<open>The loop from \<open>LEAF_NODE_MAX_CELLS\<close> down, and the two cell counts.\<close>

definition leaf_split_cells :: "u32 \<Rightarrow> u32 \<Rightarrow> Row \<Rightarrow> bytes \<Rightarrow> bytes \<Rightarrow> (bytes \<times> bytes) cres" where
  "leaf_split_cells cell_num key value old_node new_node =
     rbind (leaf_split_loop cell_num key value (LEAF_NODE_MAX_CELLS + 1) (old_node, new_node))
       (\<lambda>(old_node, new_node).
     rbind (mem_store32 old_node leaf_node_num_cells (word_of_nat LEAF_NODE_LEFT_SPLIT_COUNT))
       (\<lambda>old_node.
     rbind (mem_store32 new_node leaf_node_num_cells (word_of_nat LEAF_NODE_RIGHT_SPLIT_COUNT))
       (\<lambda>new_node. Inr (old_node, new_node))))"

subsection \<open>Abstract specifications\<close>

text \<open>The first index below \<open>n\<close> whose key is not smaller than \<open>k\<close>, or \<open>n\<close>.\<close>

definition first_ge :: "(nat \<Rightarrow> u32) \<Rightarrow> nat \<Rightarrow> u32 \<Rightarrow> nat" where
  "first_ge f n k = length (takeWhile (\<lambda>i. f i < k) [0..<n])"

text \<open>
  What the byte that \<open>row_write_to_buffer\<close> writes past the row does to the key behind it: the low
  byte of the key becomes the first padding byte of the row.
\<close>

definition overrun_key :: "Row \<Rightarrow> u32 \<Rightarrow> u32" where
  "overrun_key r k = of_le32 (padding r ! 0 # tl (le32 k))"

definition row_value :: "Row \<Rightarrow> bytes" where
  "row_value r = take 70 (row_img r)"

definition overrun_hd :: "Row \<Rightarrow> (u32 \<times> bytes) list \<Rightarrow> (u32 \<times> bytes) list" where
  "overrun_hd r cs = (case cs of [] \<Rightarrow> [] | (k, v) # cs' \<Rightarrow> (overrun_key r k, v) # cs')"

text \<open>Insertion at a position of the cell list, with that side effect on the next cell.\<close>

definition insert_cell :: "nat \<Rightarrow> u32 \<Rightarrow> Row \<Rightarrow> (u32 \<times> bytes) list \<Rightarrow> (u32 \<times> bytes) list" where
  "insert_cell c key r cs = take c cs @ (key, row_value r) # overrun_hd r (drop c cs)"

section \<open>Searching sorted keys\<close>

text \<open>
  The contract of the two binary searches: a node has a number of keys, and in a well-formed node
  the keys increase. \<open>first_ge\<close> is then the boundary between smaller and not smaller keys, and each
  comparison with a probed key narrows the range that contains it.
\<close>

lemma first_ge_le: "first_ge f n k \<le> n"
  using length_takeWhile_le [of "\<lambda>i. f i < k" "[0..<n]"] by (simp add: first_ge_def)

lemma first_ge_below:
  assumes "i < first_ge f n k"
  shows "f i < k"
proof -
  have "takeWhile (\<lambda>i. f i < k) [0..<n] ! i = i"
    using assms first_ge_le [of f n k] by (simp add: first_ge_def takeWhile_nth)
  then show ?thesis
    using assms nth_mem [of i "takeWhile (\<lambda>i. f i < k) [0..<n]"]
    by (metis first_ge_def set_takeWhileD)
qed

lemma first_ge_at: "first_ge f n k < n \<Longrightarrow> k \<le> f (first_ge f n k)"
  using nth_length_takeWhile [of "\<lambda>i. f i < k" "[0..<n]"] by (simp add: first_ge_def not_less)

lemma first_ge_eqI:
  assumes "m \<le> n" and "\<And>i. i < m \<Longrightarrow> f i < k" and "m < n \<Longrightarrow> k \<le> f m"
  shows "first_ge f n k = m"
  using assms first_ge_below [of m f n k] first_ge_at [of f n k] first_ge_le [of f n k]
  by (metis le_less_trans linorder_neqE_nat not_less order_less_irrefl)

locale sorted_keys =
  fixes key :: "'p \<Rightarrow> nat \<Rightarrow> u32" and count :: "'p \<Rightarrow> nat" and ok :: "'p \<Rightarrow> bool"
  assumes increasing: "ok p \<Longrightarrow> i < j \<Longrightarrow> j < count p \<Longrightarrow> key p i < key p j"
begin

lemma narrow_left:
  assumes "ok p" and "m < count p" and "k \<le> key p m"
  shows "first_ge (key p) (count p) k \<le> m"
  using assms first_ge_below [of m "key p" "count p" k] by (meson not_le)

lemma narrow_right:
  assumes "ok p" and "m < count p" and "key p m < k"
  shows "m + 1 \<le> first_ge (key p) (count p) k"
proof (rule ccontr)
  assume "\<not> m + 1 \<le> first_ge (key p) (count p) k"
  then have le: "first_ge (key p) (count p) k \<le> m" by simp
  then have "k \<le> key p (first_ge (key p) (count p) k)"
    using assms(2) by (intro first_ge_at) simp
  moreover have "key p (first_ge (key p) (count p) k) \<le> key p m"
    using le assms(1,2) increasing [of p "first_ge (key p) (count p) k" m]
    by (cases "first_ge (key p) (count p) k = m") auto
  ultimately show False using assms(3) by simp
qed

lemma hit:
  assumes "ok p" and "m < count p" and "key p m = k"
  shows "first_ge (key p) (count p) k = m"
  using assms increasing by (intro first_ge_eqI) auto

lemma above:
  assumes "ok p" and "first_ge (key p) (count p) k \<le> i" and "i < count p"
  shows "k \<le> key p i"
proof (rule ccontr)
  assume "\<not> k \<le> key p i"
  then have "i + 1 \<le> first_ge (key p) (count p) k"
    using assms by (intro narrow_right) auto
  with assms(2) show False by simp
qed

end

interpretation leaf: sorted_keys key_at leaf_count leaf_ok
  by unfold_locales (rule key_at_mono)

lemma leaf_search_first_ge:
  assumes "leaf_ok node"
  shows "unat lo \<le> first_ge (key_at node) (leaf_count node) key \<Longrightarrow>
    first_ge (key_at node) (leaf_count node) key \<le> unat hi \<Longrightarrow> unat hi \<le> leaf_count node \<Longrightarrow>
    unat hi - unat lo < fuel \<Longrightarrow>
    \<exists>c. leaf_search fuel node key lo hi = Inr c \<and>
      unat c = first_ge (key_at node) (leaf_count node) key"
proof (induction fuel arbitrary: lo hi)
  case 0
  then show ?case by simp
next
  case (Suc fuel)
  let ?p = "first_ge (key_at node) (leaf_count node) key"
  have n55: "leaf_count node \<le> 55" and len: "length node = 4096"
    using assms by (simp_all add: leaf_ok_def)
  show ?case
  proof (cases "hi = lo")
    case True
    with Suc.prems show ?thesis by simp
  next
    case False
    with Suc.prems(1,2) have less: "unat lo < unat hi"
      by (metis le_neq_implies_less le_trans word_unat_eq_iff)
    let ?m = "(lo + hi) div 2"
    have m: "unat ?m = (unat lo + unat hi) div 2"
      using Suc.prems(3) n55 less by (intro unat_midpoint) simp
    have mn: "unat ?m < leaf_count node" and mlo: "unat lo \<le> unat ?m" and mhi: "unat ?m < unat hi"
      using m less Suc.prems(3) by auto
    have S: "unat (?m + 1) = unat ?m + 1"
      using mn n55 by (intro unat_Suc_index) simp
    have load: "mem_load32 node (leaf_node_key ?m) = Inr (key_at node (unat ?m))"
      using mn n55 len by (intro key_at_load) auto
    consider "key = key_at node (unat ?m)" | "key < key_at node (unat ?m)"
      | "key_at node (unat ?m) < key" by fastforce
    then show ?thesis
    proof cases
      case 1
      then have "?p = unat ?m" using leaf.hit assms mn by metis
      with 1 False load show ?thesis by (simp add: Let_def)
    next
      case 2
      then have "?p \<le> unat ?m" using leaf.narrow_left assms mn by (metis order_less_imp_le)
      with 2 False load Suc.prems Suc.IH [of lo ?m] mn mlo mhi show ?thesis
        by (auto simp: Let_def)
    next
      case 3
      then have "unat ?m + 1 \<le> ?p" using leaf.narrow_right assms mn by metis
      with 3 False load Suc.prems Suc.IH [of "?m + 1" hi] S mlo mhi show ?thesis
        by (auto simp: Let_def)
    qed
  qed
qed

lemma leaf_find_cell_first_ge:
  assumes "leaf_ok node"
  obtains c where "leaf_find_cell node key = Inr c"
    "unat c = first_ge (key_at node) (leaf_count node) key"
proof -
  have "length node = 4096" "leaf_count node \<le> 55"
    using assms by (simp_all add: leaf_ok_def)
  then show ?thesis
    using leaf_search_first_ge [OF assms, of 0 key "of_le32 (mem_slice 6 4 node)" 64]
      first_ge_le that
    by (auto simp: leaf_find_cell_def leaf_count_load leaf_count_def)
qed

text \<open>The loop stops on any page: a range of at most \<open>2 ^ fuel - 1\<close> indices is exhausted.\<close>

lemma leaf_search_no_fuel:
  "unat lo \<le> unat hi \<Longrightarrow> unat lo + unat hi < 2 ^ 32 \<Longrightarrow> unat hi - unat lo < 2 ^ fuel \<Longrightarrow>
   unat lo \<le> 56 \<Longrightarrow> length node = 4096 \<Longrightarrow> leaf_search (Suc fuel) node key lo hi \<noteq> Inl C_Fuel"
proof (induction fuel arbitrary: lo hi)
  case 0
  then have "hi = lo" by (simp add: word_unat_eq_iff)
  then show ?case by simp
next
  case (Suc fuel)
  let ?m = "(lo + hi) div 2"
  have m: "unat ?m = (unat lo + unat hi) div 2"
    using Suc.prems(2) by (rule unat_midpoint)
  show ?case
  proof (cases "hi = lo \<or> 55 < unat ?m")
    case True
    moreover have "mem_load32 node (leaf_node_key ?m) = Inl C_Fault" if "55 < unat ?m"
      using that Suc.prems(5) by (simp add: mem_load32_def mem_load_def node_offsets)
    ultimately show ?thesis by (auto simp: Let_def)
  next
    case False
    then have less: "unat lo < unat hi"
      using Suc.prems(1) by (metis le_neq_implies_less word_unat_eq_iff)
    have S: "unat (?m + 1) = unat ?m + 1"
      using False by (intro unat_Suc_index) simp
    have p2: "unat hi - unat lo < 2 * 2 ^ fuel" using Suc.prems(3) by simp
    have "leaf_search (Suc fuel) node key lo ?m \<noteq> Inl C_Fuel"
      using Suc.prems False less p2 by (intro Suc.IH) (auto simp: m)
    moreover have "leaf_search (Suc fuel) node key (?m + 1) hi \<noteq> Inl C_Fuel"
    proof (rule Suc.IH)
      show "unat (?m + 1) \<le> unat hi" "unat hi - unat (?m + 1) < 2 ^ fuel" "unat (?m + 1) \<le> 56"
        using less p2 False by (simp_all add: S) (simp_all add: m)
      have "unat hi \<le> 111" using False m by linarith
      then show "unat (?m + 1) + unat hi < 2 ^ 32"
        using False by (simp add: S)
    qed (rule Suc.prems)
    ultimately show ?thesis
      using False Suc.prems(5)
      by (subst leaf_search.simps(2)) (auto simp: Let_def key_at_load)
  qed
qed

lemma leaf_find_cell_no_fuel:
  assumes "length node = 4096"
  shows "leaf_find_cell node key \<noteq> Inl C_Fuel"
proof -
  have "leaf_search (Suc 63) node key 0 n \<noteq> Inl C_Fuel" for n
  proof (rule leaf_search_no_fuel)
    have "unat n < 2 ^ 32" using unsigned_less [of n] by simp
    then show "unat (0 :: u32) + unat n < 2 ^ 32" "unat n - unat (0 :: u32) < 2 ^ 63" by simp_all
  qed (use assms in simp_all)
  then show ?thesis
    using assms by (simp add: leaf_find_cell_def leaf_count_load numeral_eq_Suc del: leaf_search.simps)
qed

lemma leaf_find_cell_position:
  assumes ok: "leaf_ok node"
  shows "\<exists>c. leaf_find_cell node key = Inr c \<and>
    unat c = length (takeWhile (\<lambda>k. k < key) (leaf_keys node)) \<and>
    (key \<in> set (leaf_keys node) \<longleftrightarrow> unat c < leaf_count node \<and> key_at node (unat c) = key)"
proof -
  let ?g = "first_ge (key_at node) (leaf_count node) key"
  obtain c where c: "leaf_find_cell node key = Inr c" "unat c = ?g"
    using leaf_find_cell_first_ge [OF ok] .
  have "?g = length (takeWhile (\<lambda>k. k < key) (leaf_keys node))"
    by (simp add: first_ge_def leaf_keys_def takeWhile_map comp_def)
  moreover have "key \<in> set (leaf_keys node) \<longleftrightarrow> ?g < leaf_count node \<and> key_at node ?g = key"
  proof
    assume "key \<in> set (leaf_keys node)"
    then obtain i where "i < leaf_count node" "key_at node i = key"
      by (auto simp: leaf_keys_def)
    moreover from this have "?g = i" using leaf.hit [OF ok] by simp
    ultimately show "?g < leaf_count node \<and> key_at node ?g = key" by simp
  next
    assume "?g < leaf_count node \<and> key_at node ?g = key"
    then show "key \<in> set (leaf_keys node)" by (auto simp: leaf_keys_def intro!: image_eqI [of _ _ ?g])
  qed
  ultimately show ?thesis using c by auto
qed

end
