(* ===== verification/Db_Leaf_Insert.thy ===== *)
theory Db_Leaf_Insert
  imports Db_Leaf
begin

text \<open>
  What an insertion and a split do to the cells of a leaf, in terms of the abstract cell lists.
\<close>

section \<open>One cell\<close>

definition split_cell :: "bytes \<Rightarrow> u32 \<times> bytes" where
  "split_cell b = (of_le32 (take 4 b), drop 4 b)"

lemma length_cell_at [simp]: "length node = 4096 \<Longrightarrow> i \<le> 54 \<Longrightarrow> length (cell_at node i) = 74"
  by (simp add: cell_at_def)

lemma nth_leaf_cells_split:
  "length node = 4096 \<Longrightarrow> leaf_count node \<le> 55 \<Longrightarrow> i < leaf_count node \<Longrightarrow>
   leaf_cells node ! i = split_cell (cell_at node i)"
  by (simp add: nth_leaf_cells split_cell_def key_at_cell value_at_cell)

lemma row_img_70: "row_ok r \<Longrightarrow> row_img r ! 70 = padding r ! 0"
  by (simp add: row_img_def row_ok_def row_layout nth_append)

lemma length_row_value [simp]: "row_ok r \<Longrightarrow> length (row_value r) = 70"
  by (simp add: row_value_def)

lemma take71: "row_ok r \<Longrightarrow> take 71 (row_img r) = row_value r @ [padding r ! 0]"
  using take_Suc_conv_app_nth [of 70 "row_img r"] by (simp add: row_value_def row_img_70)

lemma split_cell_row: "split_cell (le32 k @ row_value r) = (k, row_value r)"
  by (simp add: split_cell_def)

lemma split_cell_overrun:
  assumes "length b = 74"
  shows "split_cell (padding r ! 0 # tl b) = (overrun_key r (fst (split_cell b)), snd (split_cell b))"
proof -
  obtain b0 b1 b2 b3 bs where b: "b = b0 # b1 # b2 # b3 # bs"
    using assms by (auto simp: numeral_eq_Suc length_Suc_conv)
  have "le32 (of_le32 [b0, b1, b2, b3]) = [b0, b1, b2, b3]"
    by (rule le32_of_le32) simp
  then show ?thesis by (simp add: split_cell_def b overrun_key_def)
qed

text \<open>Writing whole cells and the cell of a new row.\<close>

lemma cell_at_splice:
  assumes "length node = 4096" and "length bs = 74" and "i \<le> 54" and "j \<le> 54"
  shows "cell_at (mem_splice (14 + i * 74) bs node) j = (if j = i then bs else cell_at node j)"
  using assms by (cases "j < i") (auto simp: cell_at_def mem_simps)

lemma take_14_splice:
  assumes "14 \<le> off" and "off + length bs \<le> length node"
  shows "take 14 (mem_splice off bs node) = take 14 node"
  using assms mem_slice_splice_disjoint [of off bs node 0 14] by (simp add: mem_slice_def)

lemma leaf_put_cell_eq:
  assumes "row_ok r" and "length node = 4096" and "unat c \<le> 54"
  shows "leaf_put_cell node c k r =
    Inr (mem_splice (14 + unat c * 74) (le32 k @ row_value r @ [padding r ! 0]) node)"
proof -
  let ?o = "14 + unat c * 74" and ?b = "row_value r @ [padding r ! 0]"
  let ?n1 = "mem_splice ?o (le32 k) node"
  have "leaf_put_cell node c k r = Inr (mem_splice (?o + 4) ?b ?n1)"
    using assms by (simp add: leaf_put_cell_def node_offsets row_write_eq take71)
  moreover have "mem_splice (?o + 4) ?b ?n1 = mem_splice ?o (le32 k @ ?b) node"
  proof (rule nth_equalityI)
    show "length (mem_splice (?o + 4) ?b ?n1) = length (mem_splice ?o (le32 k @ ?b) node)"
      using assms by simp
    fix i assume "i < length (mem_splice (?o + 4) ?b ?n1)"
    then have "i < 4096" using assms by simp
    then show "mem_splice (?o + 4) ?b ?n1 ! i = mem_splice ?o (le32 k @ ?b) node ! i"
      using assms by (auto simp: nth_mem_splice nth_append [of "le32 k"])
  qed
  ultimately show ?thesis by simp
qed

lemma cell_at_put:
  assumes r: "row_ok r" and len: "length node = 4096" and c: "c \<le> 54" and j: "j \<le> 54"
  shows "cell_at (mem_splice (14 + c * 74) (le32 k @ row_value r @ [padding r ! 0]) node) j =
    (if j = c then le32 k @ row_value r
     else if j = c + 1 then padding r ! 0 # tl (cell_at node j) else cell_at node j)"
proof (rule nth_equalityI)
  let ?m = "mem_splice (14 + c * 74) (le32 k @ row_value r @ [padding r ! 0]) node"
  let ?rhs = "if j = c then le32 k @ row_value r
     else if j = c + 1 then padding r ! 0 # tl (cell_at node j) else cell_at node j"
  have lm: "length ?m = 4096" using r len c by simp
  show "length (cell_at ?m j) = length ?rhs"
    using lm len j r by simp
  fix i assume "i < length (cell_at ?m j)"
  then have i: "i < 74" using lm j by simp
  have n: "cell_at ?m j ! i = ?m ! (14 + j * 74 + i)" "cell_at node j ! i = node ! (14 + j * 74 + i)"
    using lm len j i by (simp_all add: cell_at_def nth_mem_slice)
  have tl: "(padding r ! 0 # tl (cell_at node j)) ! i =
      (if i = 0 then padding r ! 0 else cell_at node j ! i)"
    using len j i by (simp add: nth_Cons nth_tl split: nat.split)
  consider "j = c" | "j = c + 1" "i = 0" | "j = c + 1" "i \<noteq> 0" | "j < c" | "c + 1 < j" by linarith
  then show "cell_at ?m j ! i = ?rhs ! i"
    using r len c j i n tl by cases (auto simp: nth_mem_splice nth_append)
qed

section \<open>Making room\<close>

lemma leaf_shift_cells:
  assumes "length node = 4096" and "i \<le> 54"
  shows "\<exists>node'. leaf_shift c i node = Inr node' \<and> length node' = 4096 \<and>
    take 14 node' = take 14 node \<and>
    (\<forall>j \<le> 54. cell_at node' j = (if c < j \<and> j \<le> i then cell_at node (j - 1) else cell_at node j))"
  using assms
proof (induction i arbitrary: node)
  case 0
  then show ?case by auto
next
  case (Suc i)
  show ?case
  proof (cases "c < Suc i")
    case False
    with Suc.prems show ?thesis by auto
  next
    case True
    let ?n1 = "mem_splice (14 + Suc i * 74) (cell_at node i) node"
    have u: "unat (word_of_nat i :: u32) = i" "unat (word_of_nat (Suc i) :: u32) = Suc i"
      using Suc.prems by (simp_all add: unat_of_nat del: of_nat_Suc)
    have len: "length ?n1 = 4096" using Suc.prems by simp
    have step: "leaf_shift c (Suc i) node = leaf_shift c i ?n1"
      using True Suc.prems u by (simp add: node_offsets cell_at_def)
    from Suc.IH [OF len] Suc.prems obtain node' where node':
      "leaf_shift c i ?n1 = Inr node'" "length node' = 4096" "take 14 node' = take 14 ?n1"
      "\<forall>j \<le> 54. cell_at node' j = (if c < j \<and> j \<le> i then cell_at ?n1 (j - 1) else cell_at ?n1 j)"
      by auto
    have "cell_at node' j = (if c < j \<and> j \<le> Suc i then cell_at node (j - 1) else cell_at node j)"
      if "j \<le> 54" for j
      using node'(4) that Suc.prems True cell_at_splice [of node "cell_at node i" "Suc i"] by auto
    with node' step show ?thesis
      using Suc.prems by (auto simp: take_14_splice)
  qed
qed

section \<open>Insertion into a leaf with room\<close>

text \<open>Headers are equal apart from the cell count.\<close>

definition same_header :: "bytes \<Rightarrow> bytes \<Rightarrow> bool" where
  "same_header a b \<longleftrightarrow> take 6 a = take 6 b \<and> mem_slice 10 4 a = mem_slice 10 4 b"

lemma mem_slice_take: "off + n \<le> k \<Longrightarrow> mem_slice off n (take k m) = mem_slice off n m"
  by (simp add: mem_slice_def drop_take min_def)

lemma header_take_14:
  assumes "take 14 a = take 14 b"
  shows "same_header a b" "mem_slice 6 4 a = mem_slice 6 4 b"
proof -
  have "take 6 (take 14 a) = take 6 (take 14 b)" using assms by simp
  moreover have "mem_slice 10 4 (take 14 a) = mem_slice 10 4 (take 14 b)"
    "mem_slice 6 4 (take 14 a) = mem_slice 6 4 (take 14 b)" using assms by simp_all
  ultimately show "same_header a b" "mem_slice 6 4 a = mem_slice 6 4 b"
    by (simp_all add: same_header_def mem_slice_take)
qed

lemma header_set_count:
  assumes "length node = 4096"
  shows "same_header (mem_splice 6 (le32 n) node) node"
    and "leaf_count (mem_splice 6 (le32 n) node) = unat n"
    and "j \<le> 54 \<Longrightarrow> cell_at (mem_splice 6 (le32 n) node) j = cell_at node j"
proof -
  have "mem_slice 0 6 (mem_splice 6 (le32 n) node) = mem_slice 0 6 node"
    using assms by (simp add: mem_simps)
  then show "same_header (mem_splice 6 (le32 n) node) node"
    using assms by (simp add: same_header_def mem_slice_def) (simp add: mem_slice_def [symmetric] mem_simps)
  show "leaf_count (mem_splice 6 (le32 n) node) = unat n"
    using assms by (simp add: leaf_count_def mem_simps)
  show "j \<le> 54 \<Longrightarrow> cell_at (mem_splice 6 (le32 n) node) j = cell_at node j"
    using assms by (simp add: cell_at_def mem_simps)
qed

lemma same_header_trans: "same_header a b \<Longrightarrow> same_header b c \<Longrightarrow> same_header a c"
  by (simp add: same_header_def)

lemma nth_overrun_hd:
  "i < length cs \<Longrightarrow> overrun_hd r cs ! i =
     (if i = 0 then (overrun_key r (fst (cs ! 0)), snd (cs ! 0)) else cs ! i)"
  by (cases cs) (auto simp: overrun_hd_def nth_Cons split: nat.split prod.split)

lemma length_overrun_hd [simp]: "length (overrun_hd r cs) = length cs"
  by (simp add: overrun_hd_def split: list.split prod.split)

lemma length_insert_cell [simp]: "c \<le> length cs \<Longrightarrow> length (insert_cell c k r cs) = Suc (length cs)"
  by (simp add: insert_cell_def)

lemma nth_insert_cell:
  assumes "c \<le> length cs" and "j \<le> length cs"
  shows "insert_cell c k r cs ! j =
    (if j < c then cs ! j else if j = c then (k, row_value r)
     else if j = c + 1 then (overrun_key r (fst (cs ! c)), snd (cs ! c)) else cs ! (j - 1))"
proof -
  consider "j < c" | "j = c" | "j = c + 1" | "c + 1 < j" by linarith
  then show ?thesis
  proof cases
    case 4
    then have "j - c - 1 = Suc (j - c - 2)" "Suc (j - 2) = j - Suc 0" by simp_all
    with 4 assms show ?thesis
      by (simp add: insert_cell_def nth_append nth_overrun_hd min_def nth_Cons')
  qed (use assms in \<open>auto simp: insert_cell_def nth_append nth_overrun_hd min_def\<close>)
qed

lemma leaf_insert_cell_cells:
  assumes r: "row_ok r" and len: "length node = 4096" and room: "leaf_count node \<le> 54"
    and c: "unat c \<le> leaf_count node"
  obtains node' where "leaf_insert_cell node c k r = Inr node'" "length node' = 4096"
    "same_header node' node" "leaf_count node' = leaf_count node + 1"
    "leaf_cells node' = insert_cell (unat c) k r (leaf_cells node)"
proof -
  let ?n = "of_le32 (mem_slice 6 4 node)"
  have n: "unat ?n = leaf_count node" by (simp add: leaf_count_def)
  have "\<exists>n1. (if c < ?n then leaf_shift (unat c) (unat ?n) node else Inr node) = Inr n1 \<and>
      length n1 = 4096 \<and> take 14 n1 = take 14 node \<and>
      (\<forall>j \<le> leaf_count node. cell_at n1 j =
         (if unat c < j then cell_at node (j - 1) else cell_at node j))"
    using leaf_shift_cells [OF len room, of "unat c"] len room c n
    by (cases "c < ?n") (auto simp: word_less_nat_alt)
  then obtain n1 where n1: "(if c < ?n then leaf_shift (unat c) (unat ?n) node else Inr node) = Inr n1"
    "length n1 = 4096" "take 14 n1 = take 14 node"
    "\<And>j. j \<le> leaf_count node \<Longrightarrow> cell_at n1 j =
       (if unat c < j then cell_at node (j - 1) else cell_at node j)"
    by blast
  let ?n2 = "mem_splice 6 (le32 (?n + 1)) n1"
  let ?n3 = "mem_splice (14 + unat c * 74) (le32 k @ row_value r @ [padding r ! 0]) ?n2"
  have l2: "length ?n2 = 4096" using n1(2) by simp
  have l3: "length ?n3 = 4096" using l2 r c room by simp
  have "mem_slice 6 4 n1 = mem_slice 6 4 node" using n1(3) by (rule header_take_14)
  then have load: "mem_load32 node leaf_node_num_cells = Inr ?n"
    "mem_load32 n1 leaf_node_num_cells = Inr ?n"
    using n1(2) len by (simp_all add: leaf_count_load)
  have store: "mem_store32 n1 leaf_node_num_cells (?n + 1) = Inr ?n2"
    using n1(2) by (simp add: node_offsets)
  have put: "leaf_put_cell ?n2 c k r = Inr ?n3"
    using leaf_put_cell_eq [OF r l2] c room by simp
  have eq: "leaf_insert_cell node c k r = Inr ?n3"
    by (simp only: leaf_insert_cell_def load rbind_Inr n1(1) store put)
  have h32: "take 14 ?n3 = take 14 ?n2"
    using l2 r c room by (intro take_14_splice) auto
  have hdr: "same_header ?n3 node"
    using header_take_14(1) [OF h32] header_set_count(1) [OF n1(2)] header_take_14(1) [OF n1(3)]
    by (blast intro: same_header_trans)
  have cnt: "leaf_count ?n3 = leaf_count node + 1"
  proof -
    have "leaf_count ?n3 = leaf_count ?n2"
      by (simp only: leaf_count_def header_take_14(2) [OF h32])
    also have "\<dots> = unat (?n + 1)" by (rule header_set_count(2) [OF n1(2)])
    also have "\<dots> = unat ?n + 1" by (rule unat_Suc_index) (use n room in simp)
    finally show ?thesis by (simp only: n)
  qed
  have "leaf_cells ?n3 = insert_cell (unat c) k r (leaf_cells node)"
  proof (rule nth_equalityI)
    show "length (leaf_cells ?n3) = length (insert_cell (unat c) k r (leaf_cells node))"
      using cnt c by simp
    fix j assume "j < length (leaf_cells ?n3)"
    then have j: "j \<le> leaf_count node" using cnt by simp
    have c2: "cell_at ?n2 j = cell_at n1 j"
      by (rule header_set_count(3) [OF n1(2)]) (use j room in simp)
    have "cell_at ?n3 j = (if j = unat c then le32 k @ row_value r
       else if j = unat c + 1 then padding r ! 0 # tl (cell_at n1 j) else cell_at n1 j)"
      unfolding c2 [symmetric] by (rule cell_at_put [OF r l2]) (use j c room in simp_all)
    moreover have "leaf_cells ?n3 ! j = split_cell (cell_at ?n3 j)"
      using nth_leaf_cells_split [OF l3, of j] cnt room j by simp
    moreover have "leaf_cells node ! i = split_cell (cell_at node i)" if "i < leaf_count node" for i
      using nth_leaf_cells_split [OF len] room that by simp
    moreover have "length (cell_at node (unat c)) = 74" if "unat c < leaf_count node"
      using that room len by simp
    ultimately show "leaf_cells ?n3 ! j = insert_cell (unat c) k r (leaf_cells node) ! j"
      using c j n1(4) [OF j]
      by (auto simp: nth_insert_cell split_cell_row split_cell_overrun)
  qed
  with that eq l3 hdr cnt show ?thesis by blast
qed

end
