(* ===== verification/Db_Leaf_Split.thy ===== *)
theory Db_Leaf_Split
  imports Db_Leaf_Insert
begin

text \<open>
  The distribution loop of a leaf split: after it, the cells of the two pages together are the old
  cells with the new one inserted.
\<close>

section \<open>Definitions\<close>

text \<open>What cell \<open>i\<close> of the enlarged leaf is, and what remains of it after the row overrun.\<close>

definition split_target :: "nat \<Rightarrow> u32 \<Rightarrow> Row \<Rightarrow> bytes \<Rightarrow> nat \<Rightarrow> bytes" where
  "split_target c k r old i =
     (if i = c then le32 k @ row_value r
      else if i > c then cell_at old (i - 1) else cell_at old i)"

definition split_final :: "nat \<Rightarrow> u32 \<Rightarrow> Row \<Rightarrow> bytes \<Rightarrow> nat \<Rightarrow> bytes" where
  "split_final c k r old i =
     (if i = c + 1 \<and> i \<noteq> 28 then padding r ! 0 # tl (split_target c k r old i)
      else split_target c k r old i)"

definition split_inv ::
    "nat \<Rightarrow> u32 \<Rightarrow> Row \<Rightarrow> bytes \<Rightarrow> bytes \<Rightarrow> nat \<Rightarrow> bytes \<times> bytes \<Rightarrow> bool" where
  "split_inv c k r old new m st \<longleftrightarrow>
     length (fst st) = 4096 \<and> length (snd st) = 4096 \<and>
     take 14 (fst st) = take 14 old \<and> take 14 (snd st) = take 14 new \<and>
     (\<forall>i \<le> 54. i < m \<or> 28 \<le> m \<longrightarrow> cell_at (fst st) i = cell_at old i) \<and>
     (\<forall>i < 28. m \<le> i \<longrightarrow> cell_at (fst st) i =
        (if m \<le> c then split_final c k r old i else split_target c k r old i)) \<and>
     (\<forall>i < 28. m \<le> i + 28 \<longrightarrow> cell_at (snd st) i =
        (if m \<le> c then split_final c k r old (i + 28) else split_target c k r old (i + 28)))"

text \<open>Insertion into the cell list without the side effect on the next cell.\<close>

definition insert_cell_plain :: "nat \<Rightarrow> u32 \<Rightarrow> Row \<Rightarrow> (u32 \<times> bytes) list \<Rightarrow> (u32 \<times> bytes) list" where
  "insert_cell_plain c k r cs = take c cs @ (k, row_value r) # drop c cs"

section \<open>One iteration\<close>

lemma split_step_copy:
  assumes inv: "split_inv c k r old new (Suc i) st" and i: "i \<le> 55" and "c \<le> 55" and "i \<noteq> c"
  shows "\<exists>st'. rbind (mem_load (fst st) (leaf_node_cell (word_of_nat (if i > c then i - 1 else i)))
             LEAF_NODE_CELL_SIZE)
           (\<lambda>bs. rbind (mem_store (if 28 \<le> i then snd st else fst st)
               (leaf_node_cell (word_of_nat (i mod 28))) bs)
             (\<lambda>d. Inr (if 28 \<le> i then (fst st, d) else (d, snd st)))) = Inr st' \<and>
         split_inv c k r old new i st'"
proof -
  let ?src = "if i > c then i - 1 else i"
  have src: "?src \<le> 54" "?src < Suc i" using assms by auto
  have len: "length (fst st) = 4096" "length (snd st) = 4096"
    using inv by (simp_all add: split_inv_def)
  have u: "unat (word_of_nat ?src :: u32) = ?src" "unat (word_of_nat (i mod 28) :: u32) = i mod 28"
    using src i by (simp_all add: unat_of_nat)
  have off: "leaf_node_cell (word_of_nat (i mod 28)) = 14 + i mod 28 * 74"
    by (simp only: node_offsets u)
  have bs: "cell_at (fst st) ?src = split_target c k r old i"
    using inv src \<open>i \<noteq> c\<close> by (auto simp: split_inv_def split_target_def)
  let ?b = "split_target c k r old i"
  have lb: "length ?b = 74" using bs src len by (metis length_cell_at)
  have load: "mem_load (fst st) (leaf_node_cell (word_of_nat ?src)) LEAF_NODE_CELL_SIZE = Inr ?b"
    using bs src len by (simp add: node_offsets u cell_at_def)
  have fin: "split_final c k r old i = ?b \<or> i = c + 1" by (simp add: split_final_def)
  show ?thesis
  proof (cases "28 \<le> i")
    case True
    then have im: "i mod 28 = i - 28" using i by (simp add: mod_if)
    let ?d = "mem_splice (14 + (i - 28) * 74) ?b (snd st)"
    have ld: "length ?d = 4096" using len lb i by simp
    have d: "cell_at ?d j = (if j = i - 28 then ?b else cell_at (snd st) j)" if "j \<le> 54" for j
      using cell_at_splice [OF len(2) lb] that i by simp
    have "split_inv c k r old new i (fst st, ?d)"
      using inv True i ld d \<open>i \<noteq> c\<close> fin lb len
      by (auto simp: split_inv_def take_14_splice split_final_def)
    moreover have "mem_store (snd st) (leaf_node_cell (word_of_nat (i mod 28))) ?b = Inr ?d"
      unfolding off unfolding im using len lb i by simp
    ultimately show ?thesis using True load by (auto simp del: split_paired_Ex)
  next
    case False
    then have im: "i mod 28 = i" by simp
    let ?d = "mem_splice (14 + i * 74) ?b (fst st)"
    have ld: "length ?d = 4096" using len lb False by simp
    have d: "cell_at ?d j = (if j = i then ?b else cell_at (fst st) j)" if "j \<le> 54" for j
      using cell_at_splice [OF len(1) lb] that False by simp
    have "split_inv c k r old new i (?d, snd st)"
      using inv False ld d \<open>i \<noteq> c\<close> fin lb len
      by (auto simp: split_inv_def take_14_splice split_final_def)
    moreover have "mem_store (fst st) (leaf_node_cell (word_of_nat (i mod 28))) ?b = Inr ?d"
      unfolding off unfolding im using len lb False by simp
    ultimately show ?thesis using False load by (auto simp del: split_paired_Ex)
  qed
qed

lemma split_step_put:
  assumes inv: "split_inv c k r old new (Suc c) st" and c: "c \<le> 55" and r: "row_ok r"
  shows "\<exists>st'. rbind (leaf_put_cell (if 28 \<le> c then snd st else fst st) (word_of_nat (c mod 28)) k r)
             (\<lambda>d. Inr (if 28 \<le> c then (fst st, d) else (d, snd st))) = Inr st' \<and>
         split_inv c k r old new c st'"
proof -
  have len: "length (fst st) = 4096" "length (snd st) = 4096"
    using inv by (simp_all add: split_inv_def)
  have u: "unat (word_of_nat (c mod 28) :: u32) = c mod 28"
    by (simp add: unat_of_nat mod_less_divisor [THEN less_trans])
  let ?b = "le32 k @ row_value r @ [padding r ! 0]"
  show ?thesis
  proof (cases "28 \<le> c")
    case True
    then have im: "c mod 28 = c - 28" using c by (simp add: mod_if)
    let ?d = "mem_splice (14 + (c - 28) * 74) ?b (snd st)"
    have ld: "length ?d = 4096" using len r c by simp
    have put: "leaf_put_cell (snd st) (word_of_nat (c mod 28)) k r = Inr ?d"
      using leaf_put_cell_eq [OF r len(2), of "word_of_nat (c mod 28)" k] c u im by simp
    have d: "cell_at ?d j = (if j = c - 28 then le32 k @ row_value r
       else if j = c - 28 + 1 then padding r ! 0 # tl (cell_at (snd st) j) else cell_at (snd st) j)"
      if "j \<le> 54" for j
      using cell_at_put [OF r len(2), of "c - 28" j k] that c by simp
    have tgt: "split_target c k r old c = le32 k @ row_value r" by (simp add: split_target_def)
    have "split_inv c k r old new c (fst st, ?d)"
      using inv True c ld d r len tgt
      by (auto simp: split_inv_def take_14_splice split_final_def)
    then show ?thesis using True put by simp
  next
    case False
    then have im: "c mod 28 = c" by simp
    let ?d = "mem_splice (14 + c * 74) ?b (fst st)"
    have ld: "length ?d = 4096" using len r False by simp
    have put: "leaf_put_cell (fst st) (word_of_nat (c mod 28)) k r = Inr ?d"
      using leaf_put_cell_eq [OF r len(1), of "word_of_nat (c mod 28)" k] False u im by simp
    have d: "cell_at ?d j = (if j = c then le32 k @ row_value r
       else if j = c + 1 then padding r ! 0 # tl (cell_at (fst st) j) else cell_at (fst st) j)"
      if "j \<le> 54" for j
      using cell_at_put [OF r len(1), of c j k] that False by simp
    have tgt: "split_target c k r old c = le32 k @ row_value r" by (simp add: split_target_def)
    have "split_inv c k r old new c (?d, snd st)"
      using inv False ld d r len tgt
      by (auto simp: split_inv_def take_14_splice split_final_def)
    then show ?thesis using False put by simp
  qed
qed

lemma split_step:
  assumes "split_inv (unat c) k r old new (Suc i) st" and "i \<le> 55" and "unat c \<le> 55" and "row_ok r"
  shows "\<exists>st'. leaf_split_step c k r i st = Inr st' \<and> split_inv (unat c) k r old new i st'"
proof (cases "i = unat c")
  case True
  then show ?thesis
    using split_step_put [of "unat c" k r old new st] assms
    by (simp add: leaf_split_step_def Let_def leaf_constants)
next
  case False
  then show ?thesis
    using split_step_copy [of "unat c" k r old new i st] assms
    by (simp add: leaf_split_step_def Let_def leaf_constants rbind_assoc)
qed

lemma split_loop:
  assumes "unat c \<le> 55" and "row_ok r"
  shows "m \<le> 56 \<Longrightarrow> split_inv (unat c) k r old new m st \<Longrightarrow>
    \<exists>st'. leaf_split_loop c k r m st = Inr st' \<and> split_inv (unat c) k r old new 0 st'"
proof (induction m arbitrary: st)
  case 0
  then show ?case by simp
next
  case (Suc m)
  then have "m \<le> 55" by simp
  from split_step [OF Suc.prems(2) this assms] obtain st1
    where "leaf_split_step c k r m st = Inr st1" "split_inv (unat c) k r old new m st1"
    by blast
  with Suc show ?case by simp
qed

section \<open>The whole split\<close>

lemma split_inv_start:
  "length old = 4096 \<Longrightarrow> length new = 4096 \<Longrightarrow> split_inv c k r old new 56 (old, new)"
  by (simp add: split_inv_def)

lemma split_cell_target:
  assumes "row_ok r" and "length old = 4096" and "leaf_count old = 55" and "c \<le> 55" and "i \<le> 55"
  shows "split_cell (split_target c k r old i) =
    (if i < c then leaf_cells old ! i else if i = c then (k, row_value r)
     else leaf_cells old ! (i - 1))"
  using assms nth_leaf_cells_split [of old i] nth_leaf_cells_split [of old "i - 1"]
  by (auto simp: split_target_def split_cell_row)

lemma split_cell_final:
  assumes "row_ok r" and "length old = 4096" and "leaf_count old = 55" and "c \<le> 55" and "i \<le> 55"
  shows "split_cell (split_final c k r old i) =
    (if c = 27 then insert_cell_plain c k r (leaf_cells old)
     else insert_cell c k r (leaf_cells old)) ! i"
proof -
  have c: "c \<le> length (leaf_cells old)" "i \<le> length (leaf_cells old)" using assms by simp_all
  have plain: "insert_cell_plain c k r (leaf_cells old) ! i =
    (if i < c then leaf_cells old ! i else if i = c then (k, row_value r)
     else leaf_cells old ! (i - 1))"
    using c by (auto simp: insert_cell_plain_def nth_append min_def nth_Cons')
  show ?thesis
  proof (cases "i = c + 1 \<and> i \<noteq> 28")
    case True
    then have "split_target c k r old i = cell_at old c" "c \<le> 54"
      using assms by (simp_all add: split_target_def)
    then have "split_cell (split_final c k r old i) =
        (overrun_key r (fst (leaf_cells old ! c)), snd (leaf_cells old ! c))"
      using True assms split_cell_overrun [of "cell_at old c" r] nth_leaf_cells_split [of old c]
      by (simp add: split_final_def)
    moreover have "c \<noteq> 27" using True by simp
    ultimately show ?thesis using True c by (simp add: nth_insert_cell)
  next
    case False
    then have "split_final c k r old i = split_target c k r old i"
      by (cases "i = c + 1") (simp_all add: split_final_def)
    then have fin: "split_cell (split_final c k r old i) =
        (if i < c then leaf_cells old ! i else if i = c then (k, row_value r)
         else leaf_cells old ! (i - 1))"
      using split_cell_target [OF assms, of k] by simp
    show ?thesis
    proof (cases "c = 27")
      case True
      then show ?thesis unfolding fin using plain by simp
    next
      case 27: False
      with False have "i \<noteq> c + 1" by auto
      then show ?thesis unfolding fin using 27 nth_insert_cell [OF c, of k r] by simp
    qed
  qed
qed

lemma leaf_split_cells_cells:
  assumes r: "row_ok r" and lo: "length old = 4096" and ln: "length new = 4096"
    and full: "leaf_count old = 55" and c: "unat c \<le> 55"
  obtains old' new' where "leaf_split_cells c k r old new = Inr (old', new')"
    "length old' = 4096" "length new' = 4096" "same_header old' old" "same_header new' new"
    "leaf_count old' = 28" "leaf_count new' = 28"
    "leaf_cells old' @ leaf_cells new' =
       (if unat c = 27 then insert_cell_plain (unat c) k r (leaf_cells old)
        else insert_cell (unat c) k r (leaf_cells old))"
proof -
  let ?cs = "if unat c = 27 then insert_cell_plain (unat c) k r (leaf_cells old)
        else insert_cell (unat c) k r (leaf_cells old)"
  have "\<exists>st'. leaf_split_loop c k r 56 (old, new) = Inr st' \<and>
      split_inv (unat c) k r old new 0 st'"
    by (rule split_loop [OF c r]) (simp_all add: split_inv_start lo ln)
  then obtain o1 n1 where loop: "leaf_split_loop c k r 56 (old, new) = Inr (o1, n1)"
    and inv: "split_inv (unat c) k r old new 0 (o1, n1)"
    by auto
  have l1: "length o1 = 4096" "length n1 = 4096" using inv by (simp_all add: split_inv_def)
  have "take 14 o1 = take 14 old" "take 14 n1 = take 14 new"
    using inv by (simp_all add: split_inv_def)
  note h = header_take_14(1) [OF this(1)] header_take_14(1) [OF this(2)]
  let ?o = "mem_splice 6 (le32 28) o1" and ?n = "mem_splice 6 (le32 28) n1"
  have l2: "length ?o = 4096" "length ?n = 4096" using l1 by simp_all
  have eq: "leaf_split_cells c k r old new = Inr (?o, ?n)"
    using loop l1 by (simp add: leaf_split_cells_def leaf_constants(1,3,4))
      (simp add: node_offsets)
  have hdr: "same_header ?o old" "same_header ?n new"
    using header_set_count(1) [OF l1(1)] header_set_count(1) [OF l1(2)] h
    by (blast intro: same_header_trans)+
  have cnt: "leaf_count ?o = 28" "leaf_count ?n = 28"
    using header_set_count(2) [OF l1(1)] header_set_count(2) [OF l1(2)] by simp_all
  have "leaf_cells ?o @ leaf_cells ?n = ?cs"
  proof (rule nth_equalityI)
    show "length (leaf_cells ?o @ leaf_cells ?n) = length ?cs"
      using cnt full c by (simp add: insert_cell_plain_def)
    fix i assume "i < length (leaf_cells ?o @ leaf_cells ?n)"
    then have i: "i < 56" using cnt by simp
    have "(leaf_cells ?o @ leaf_cells ?n) ! i = split_cell (split_final (unat c) k r old i)"
    proof (cases "i < 28")
      case True
      then have "leaf_cells ?o ! i = split_cell (cell_at o1 i)"
        using nth_leaf_cells_split [OF l2(1), of i] cnt header_set_count(3) [OF l1(1), of i] by simp
      with True inv cnt show ?thesis by (simp add: split_inv_def nth_append)
    next
      case False
      then have "leaf_cells ?n ! (i - 28) = split_cell (cell_at n1 (i - 28))"
        using nth_leaf_cells_split [OF l2(2), of "i - 28"] cnt
          header_set_count(3) [OF l1(2), of "i - 28"] i by simp
      moreover have "i - 28 < 28" "i - 28 + 28 = i" using False i by simp_all
      ultimately show ?thesis using False inv cnt by (simp add: split_inv_def nth_append)
    qed
    then show "(leaf_cells ?o @ leaf_cells ?n) ! i = ?cs ! i"
      using split_cell_final [OF r lo full c, of i k] i by simp
  qed
  with that eq l2 hdr cnt show ?thesis by blast
qed

end
