(* ===== verification/Db_Btree.thy ===== *)
theory Db_Btree
  imports Db_Leaf_Split
begin

text \<open>
  simpledb's B-tree over the page cache (\<open>table.h\<close>, \<open>node_btree.c\<close>, \<open>table.c\<close>). A \<open>void *\<close> to a
  page that \<open>pager_get_page\<close> returned is modelled as the page's number: reads and writes through it
  go to the cache slot, so that two pointers to one page see the same bytes.
\<close>

section \<open>Definitions\<close>

record Table =
  pager :: Pager
  root_page_num :: u32

text \<open>
  The \<open>Cursor\<close> of \<open>malloc\<close> has an indeterminate \<open>end_of_table\<close> until it is set: \<open>None\<close>. There is one
  table, so the cursor's table pointer is the state the functions pass on.
\<close>

record Cursor =
  page_num :: u32
  cell_num :: u32
  end_of_table :: "bool option"

subsection \<open>Pages through pointers\<close>

definition table_get_page :: "Table \<Rightarrow> u32 \<Rightarrow> Table cres" where
  "table_get_page t n = rbind (pager_get_page (pager t) n) (\<lambda>(pg, p). Inr (t\<lparr>pager := p\<rparr>))"

definition page_at :: "Table \<Rightarrow> u32 \<Rightarrow> bytes cres" where
  "page_at t n =
     (if unat n < length (pages (pager t)) then
        case pages (pager t) ! unat n of None \<Rightarrow> Inl C_Fault | Some pg \<Rightarrow> Inr pg
      else Inl C_Fault)"

definition set_page :: "Table \<Rightarrow> u32 \<Rightarrow> bytes \<Rightarrow> Table" where
  "set_page t n pg = t\<lparr>pager := (pager t)\<lparr>pages := (pages (pager t))[unat n := Some pg]\<rparr>\<rparr>"

definition page_upd :: "Table \<Rightarrow> u32 \<Rightarrow> (bytes \<Rightarrow> bytes cres) \<Rightarrow> Table cres" where
  "page_upd t n f = rbind (page_at t n) (\<lambda>pg. rbind (f pg) (\<lambda>pg'. Inr (set_page t n pg')))"

definition page_read32 :: "Table \<Rightarrow> u32 \<Rightarrow> nat \<Rightarrow> u32 cres" where
  "page_read32 t n off = rbind (page_at t n) (\<lambda>pg. mem_load32 pg off)"

definition page_write32 :: "Table \<Rightarrow> u32 \<Rightarrow> nat \<Rightarrow> u32 \<Rightarrow> Table cres" where
  "page_write32 t n off v = page_upd t n (\<lambda>pg. mem_store32 pg off v)"

text \<open>\<open>*internal_node_child(node, i) = v\<close>: the pointer is computed from the node's key count.\<close>

definition page_write_child :: "Table \<Rightarrow> u32 \<Rightarrow> u32 \<Rightarrow> u32 \<Rightarrow> Table cres" where
  "page_write_child t n i v =
     page_upd t n (\<lambda>pg. rbind (internal_node_child pg i) (\<lambda>off. mem_store32 pg off v))"

definition page_max_key :: "Table \<Rightarrow> u32 \<Rightarrow> u32 cres" where
  "page_max_key t n = rbind (page_at t n) get_node_max_key"

subsection \<open>Splitting\<close>

definition create_new_root :: "Table \<Rightarrow> u32 \<Rightarrow> Table cres" where
  "create_new_root t right_child_page_num =
     (let root = root_page_num t in
     rbind (table_get_page t root) (\<lambda>t.
     rbind (table_get_page t right_child_page_num) (\<lambda>t.
     let left_child_page_num = pager_get_unused_page_num (pager t) in
     rbind (table_get_page t left_child_page_num) (\<lambda>t.
     rbind (page_at t root) (\<lambda>pg.
     rbind (page_upd t left_child_page_num (\<lambda>l. mem_store l 0 (take PAGE_SIZE pg))) (\<lambda>t.
     rbind (page_upd t left_child_page_num (set_node_root False)) (\<lambda>t.
     rbind (page_upd t root initialize_internal_node) (\<lambda>t.
     rbind (page_upd t root (set_node_root True)) (\<lambda>t.
     rbind (page_write32 t root internal_node_num_keys 1) (\<lambda>t.
     rbind (page_write_child t root 0 left_child_page_num) (\<lambda>t.
     rbind (page_max_key t left_child_page_num) (\<lambda>left_child_max_key.
     rbind (page_write32 t root (internal_node_key 0) left_child_max_key) (\<lambda>t.
     rbind (page_write_child t root 1 right_child_page_num) (\<lambda>t.
     rbind (page_write32 t left_child_page_num node_parent root) (\<lambda>t.
     page_write32 t right_child_page_num node_parent root)))))))))))))))"

definition update_internal_node_key :: "u32 \<Rightarrow> u32 \<Rightarrow> bytes \<Rightarrow> bytes cres" where
  "update_internal_node_key old_key new_key node =
     rbind (internal_node_find_child node old_key) (\<lambda>old_child_index.
     mem_store32 node (internal_node_key old_child_index) new_key)"

text \<open>The loop \<open>for (i = original_num_keys; i > index; i--)\<close> of \<open>internal_node_insert\<close>.\<close>

fun internal_shift :: "nat \<Rightarrow> nat \<Rightarrow> bytes \<Rightarrow> bytes cres" where
  "internal_shift index 0 node = Inr node"
| "internal_shift index (Suc i) node =
     (if Suc i > index then
        rbind (mem_load node (internal_node_cell (word_of_nat i)) INTERNAL_NODE_CELL_SIZE) (\<lambda>bs.
        rbind (mem_store node (internal_node_cell (word_of_nat (Suc i))) bs) (\<lambda>node.
        internal_shift index i node))
      else Inr node)"

definition internal_node_insert :: "Table \<Rightarrow> u32 \<Rightarrow> u32 \<Rightarrow> Table cres" where
  "internal_node_insert t parent child_page_num =
     rbind (table_get_page t parent) (\<lambda>t.
     rbind (table_get_page t child_page_num) (\<lambda>t.
     rbind (page_max_key t child_page_num) (\<lambda>child_max_key.
     rbind (page_at t parent) (\<lambda>pg.
     rbind (internal_node_find_child pg child_max_key) (\<lambda>index.
     rbind (page_read32 t parent internal_node_num_keys) (\<lambda>original_num_keys.
     rbind (page_write32 t parent internal_node_num_keys (original_num_keys + 1)) (\<lambda>t.
     if unat original_num_keys \<ge> INTERNAL_NODE_MAX_CELLS then
       Inl (C_Exit (''Need to implement splitting internal node'' @ nl))
     else
       rbind (page_read32 t parent internal_node_right_child) (\<lambda>right_child_page_num.
       rbind (table_get_page t right_child_page_num) (\<lambda>t.
       rbind (page_max_key t right_child_page_num) (\<lambda>right_max.
       if child_max_key > right_max then
         rbind (page_write_child t parent original_num_keys right_child_page_num) (\<lambda>t.
         rbind (page_max_key t right_child_page_num) (\<lambda>right_max.
         rbind (page_write32 t parent (internal_node_key original_num_keys) right_max) (\<lambda>t.
         page_write32 t parent internal_node_right_child child_page_num)))
       else
         rbind (page_upd t parent (internal_shift (unat index) (unat original_num_keys))) (\<lambda>t.
         rbind (page_write_child t parent index child_page_num) (\<lambda>t.
         page_write32 t parent (internal_node_key index) child_max_key))))))))))))"

text \<open>
  \<open>leaf_node_split_and_insert\<close>. The new page's number is \<open>num_pages\<close>, larger than that of every
  cached page, so the old and the new page are different and the distribution loop works on the
  pair of their contents.
\<close>

definition leaf_node_split_and_insert :: "Table \<Rightarrow> Cursor \<Rightarrow> u32 \<Rightarrow> Row \<Rightarrow> Table cres" where
  "leaf_node_split_and_insert t cursor key value =
     (let old = page_num cursor in
     rbind (table_get_page t old) (\<lambda>t.
     rbind (page_max_key t old) (\<lambda>old_max.
     let new_page_num = pager_get_unused_page_num (pager t) in
     rbind (table_get_page t new_page_num) (\<lambda>t.
     rbind (page_upd t new_page_num initialize_leaf_node) (\<lambda>t.
     rbind (page_read32 t old node_parent) (\<lambda>par.
     rbind (page_write32 t new_page_num node_parent par) (\<lambda>t.
     rbind (page_read32 t old leaf_node_next_leaf) (\<lambda>nxt.
     rbind (page_write32 t new_page_num leaf_node_next_leaf nxt) (\<lambda>t.
     rbind (page_write32 t old leaf_node_next_leaf new_page_num) (\<lambda>t.
     rbind (page_at t old) (\<lambda>old_node.
     rbind (page_at t new_page_num) (\<lambda>new_node.
     rbind (leaf_split_cells (cell_num cursor) key value old_node new_node) (\<lambda>(old_node, new_node).
     let t = set_page (set_page t old old_node) new_page_num new_node in
     rbind (is_node_root old_node) (\<lambda>is_root.
     if is_root then create_new_root t new_page_num
     else
       rbind (page_read32 t old node_parent) (\<lambda>parent_page_num.
       rbind (page_max_key t old) (\<lambda>new_max.
       rbind (table_get_page t parent_page_num) (\<lambda>t.
       rbind (page_upd t parent_page_num (update_internal_node_key old_max new_max)) (\<lambda>t.
       internal_node_insert t parent_page_num new_page_num))))))))))))))))))"

definition leaf_node_insert :: "Table \<Rightarrow> Cursor \<Rightarrow> u32 \<Rightarrow> Row \<Rightarrow> Table cres" where
  "leaf_node_insert t cursor key value =
     rbind (table_get_page t (page_num cursor)) (\<lambda>t.
     rbind (page_read32 t (page_num cursor) leaf_node_num_cells) (\<lambda>num_cells.
     if unat num_cells \<ge> LEAF_NODE_MAX_CELLS then leaf_node_split_and_insert t cursor key value
     else page_upd t (page_num cursor) (\<lambda>pg. leaf_insert_cell pg (cell_num cursor) key value)))"

subsection \<open>Finding\<close>

definition leaf_node_find :: "Table \<Rightarrow> u32 \<Rightarrow> u32 \<Rightarrow> (Cursor \<times> Table) cres" where
  "leaf_node_find t n key =
     rbind (table_get_page t n) (\<lambda>t.
     rbind (page_at t n) (\<lambda>node.
     rbind (leaf_find_cell node key) (\<lambda>c.
     Inr (\<lparr>page_num = n, cell_num = c, end_of_table = None\<rparr>, t))))"

text \<open>
  \<open>internal_node_find\<close> recurses into the child. \<open>None\<close> is the NULL the function returns when the
  child is neither a leaf nor an internal node.
\<close>

fun internal_node_find :: "nat \<Rightarrow> Table \<Rightarrow> u32 \<Rightarrow> u32 \<Rightarrow> (Cursor option \<times> Table) cres" where
  "internal_node_find 0 t n key = Inl C_Fuel"
| "internal_node_find (Suc fuel) t n key =
     rbind (table_get_page t n) (\<lambda>t.
     rbind (page_at t n) (\<lambda>node.
     rbind (internal_node_find_child node key) (\<lambda>child_index.
     rbind (internal_node_child node child_index) (\<lambda>off.
     rbind (mem_load32 node off) (\<lambda>child_num.
     rbind (table_get_page t child_num) (\<lambda>t.
     rbind (page_at t child_num) (\<lambda>child.
     rbind (get_node_type child) (\<lambda>ty.
     if ty = NODE_LEAF then
       rbind (leaf_node_find t child_num key) (\<lambda>(cur, t). Inr (Some cur, t))
     else if ty = NODE_INTERNAL then internal_node_find fuel t child_num key
     else Inr (None, t)))))))))"

text \<open>
  A path from the root that visits no page twice has at most \<open>TABLE_MAX_PAGES\<close> pages, so a search
  that uses up the fuel below is one that the code never returns from.
\<close>

definition table_find :: "Table \<Rightarrow> u32 \<Rightarrow> (Cursor option \<times> Table) cres" where
  "table_find t key =
     (let n = root_page_num t in
     rbind (table_get_page t n) (\<lambda>t.
     rbind (page_at t n) (\<lambda>root_node.
     rbind (get_node_type root_node) (\<lambda>ty.
     if ty = NODE_LEAF then rbind (leaf_node_find t n key) (\<lambda>(cur, t). Inr (Some cur, t))
     else internal_node_find (TABLE_MAX_PAGES + 1) t n key))))"

text \<open>\<open>table_start\<close> dereferences the cursor without a test for NULL.\<close>

definition table_start :: "Table \<Rightarrow> (Cursor \<times> Table) cres" where
  "table_start t =
     rbind (table_find t 0) (\<lambda>(cur, t).
     case cur of
       None \<Rightarrow> Inl C_Fault
     | Some cur \<Rightarrow>
         rbind (table_get_page t (page_num cur)) (\<lambda>t.
         rbind (page_read32 t (page_num cur) leaf_node_num_cells) (\<lambda>num_cells.
         Inr (cur\<lparr>end_of_table := Some (num_cells = 0)\<rparr>, t))))"

text \<open>\<open>cursor_value\<close>: the page and the offset of the row.\<close>

definition cursor_value :: "Table \<Rightarrow> Cursor \<Rightarrow> ((bytes \<times> nat) \<times> Table) cres" where
  "cursor_value t cur =
     rbind (table_get_page t (page_num cur)) (\<lambda>t.
     rbind (page_at t (page_num cur)) (\<lambda>pg. Inr ((pg, leaf_node_value (cell_num cur)), t)))"

definition cursor_advance :: "Table \<Rightarrow> Cursor \<Rightarrow> (Cursor \<times> Table) cres" where
  "cursor_advance t cur =
     rbind (table_get_page t (page_num cur)) (\<lambda>t.
     let cur1 = cur\<lparr>cell_num := cell_num cur + 1\<rparr> in
     rbind (page_read32 t (page_num cur1) leaf_node_num_cells) (\<lambda>n.
     if cell_num cur1 \<ge> n then
       rbind (page_read32 t (page_num cur1) leaf_node_next_leaf) (\<lambda>next_page_num.
       if next_page_num = 0 then Inr (cur1\<lparr>end_of_table := Some True\<rparr>, t)
       else Inr (cur1\<lparr>page_num := next_page_num, cell_num := 0\<rparr>, t))
     else Inr (cur1, t)))"

subsection \<open>Opening and closing\<close>

definition db_open ::
    "string \<Rightarrow> db_file option \<Rightarrow> bool \<Rightarrow> (nat \<Rightarrow> bytes) \<Rightarrow> string \<Rightarrow> Table cres" where
  "db_open filename fo malloc_ok fr con =
     rbind (pager_open filename fo malloc_ok fr con) (\<lambda>p.
     let t = \<lparr>pager = p, root_page_num = 0\<rparr> in
     if num_pages p = 0 then
       rbind (table_get_page t 0) (\<lambda>t.
       rbind (page_upd t 0 initialize_leaf_node) (\<lambda>t.
       page_upd t 0 (set_node_root True)))
     else Inr t)"

text \<open>The flush loop of \<open>db_close\<close>, over the page numbers from \<open>i\<close> on.\<close>

fun flush_from :: "nat \<Rightarrow> nat \<Rightarrow> Pager \<Rightarrow> Pager cres" where
  "flush_from i 0 p = Inr p"
| "flush_from i (Suc k) p =
     (if i \<ge> length (pages p) then Inl C_Fault
      else if pages p ! i = None then flush_from (Suc i) k p
      else rbind (pager_flush p (word_of_nat i)) (\<lambda>p.
             flush_from (Suc i) k (p\<lparr>pages := (pages p)[i := None]\<rparr>)))"

text \<open>The result is the file that is left behind, and the console.\<close>

definition db_close :: "Table \<Rightarrow> (db_file \<times> string) cres" where
  "db_close t =
     rbind (flush_from 0 (unat (num_pages (pager t))) (pager t)) (\<lambda>p.
     if close_ok (file_descriptor p) then Inr (file_descriptor p, console p)
     else Inl (C_Exit (''Error closing db file.'' @ nl)))"

end
