(* ===== verification/Db_Statement.thy ===== *)
theory Db_Statement
  imports Db_Btree
begin

text \<open>
  simpledb's front end (\<open>inputs.c\<close>, \<open>statement.c\<close>, \<open>meta.c\<close>, \<open>main.c\<close>): reading a line, parsing and
  executing a statement, the meta commands, and the read-eval-print loop.
\<close>

section \<open>Definitions\<close>

subsection \<open>Input\<close>

text \<open>
  \<open>read_input\<close>: \<open>getline\<close> gives the next line with its newline; the last character is replaced by
  NUL, whatever it is. The buffer is the C string left.
\<close>

record InputBuffer =
  buffer :: string
  input_length :: int

definition read_input :: "string list \<Rightarrow> (InputBuffer \<times> string list) cres" where
  "read_input stdin =
     (case stdin of
        [] \<Rightarrow> Inl (C_Exit (''Error: error reading input.'' @ nl))
      | line # rest \<Rightarrow>
          if line = [] then Inl (C_Exit (''Error: error reading input.'' @ nl))
          else Inr (\<lparr>buffer = takeWhile (\<lambda>c. c \<noteq> CHR 0x00) (butlast line),
                     input_length = int (length line) - 1\<rparr>, rest))"

subsection \<open>Preparing a statement\<close>

datatype PrepareResult =
  PREPARE_SUCCESS | PREPARE_SYNTAX_ERROR | PREPARE_STRING_TOO_LONG | PREPARE_NEGATIVE_ID
  | PREPARE_UNRECOGNIZED

datatype StatementType = STATEMENT_INSERT | STATEMENT_SELECT

record Statement =
  stype :: StatementType
  row_insert :: Row

datatype ExecuteResult = EXECUTE_SUCCESS | EXECUTE_DUPLICATE_KEY | EXECUTE_TABLE_FULL

text \<open>
  \<open>strtok\<close> with the delimiter \<open>" "\<close>: the token, if there is one, and where the next call goes on.
\<close>

definition strtok :: "string \<Rightarrow> string option \<times> string" where
  "strtok s =
     (let t = dropWhile (\<lambda>c. c = CHR '' '') s in
      if t = [] then (None, [])
      else let tok = takeWhile (\<lambda>c. c \<noteq> CHR '' '') t in (Some tok, drop (length tok + 1) t))"

text \<open>The first call writes a NUL behind its token, which cuts the buffer there.\<close>

definition strtok_cut :: "string \<Rightarrow> string" where
  "strtok_cut s =
     (let sp = takeWhile (\<lambda>c. c = CHR '' '') s; t = dropWhile (\<lambda>c. c = CHR '' '') s
      in sp @ takeWhile (\<lambda>c. c \<noteq> CHR '' '') t)"

definition prepare_insert ::
    "InputBuffer \<Rightarrow> Statement \<Rightarrow> (PrepareResult \<times> InputBuffer \<times> Statement) cres" where
  "prepare_insert ib st =
     (let st = st\<lparr>stype := STATEMENT_INSERT\<rparr>;
          (keyword, s1) = strtok (buffer ib);
          (id_string, s2) = strtok s1;
          (username, s3) = strtok s2;
          (email, s4) = strtok s3;
          ib = ib\<lparr>buffer := strtok_cut (buffer ib)\<rparr>
      in rbind (row_init id_string username email (Some (row_insert st))) (\<lambda>(res, row).
           let st = st\<lparr>row_insert := the row\<rparr> in
           case res of
             ROW_INIT_SUCCESS \<Rightarrow> Inr (PREPARE_SUCCESS, ib, st)
           | ROW_NEGATIVE_ID \<Rightarrow> Inr (PREPARE_NEGATIVE_ID, ib, st)
           | ROW_STRING_NULL \<Rightarrow> Inr (PREPARE_SYNTAX_ERROR, ib, st)
           | ROW_STRING_TOO_LONG \<Rightarrow> Inr (PREPARE_STRING_TOO_LONG, ib, st)))"

definition prepare_statement ::
    "InputBuffer \<Rightarrow> Statement \<Rightarrow> (PrepareResult \<times> InputBuffer \<times> Statement) cres" where
  "prepare_statement ib st =
     (if take 6 (buffer ib) = ''insert'' then
        prepare_insert ib (st\<lparr>stype := STATEMENT_INSERT\<rparr>)
      else if buffer ib = ''select'' then
        Inr (PREPARE_SUCCESS, ib, st\<lparr>stype := STATEMENT_SELECT\<rparr>)
      else Inr (PREPARE_UNRECOGNIZED, ib, st))"

subsection \<open>Executing a statement\<close>

definition table_print :: "string \<Rightarrow> Table \<Rightarrow> Table" where
  "table_print s t = t\<lparr>pager := printf s (pager t)\<rparr>"

text \<open>\<open>execute_insert\<close> uses the cursor without a test for NULL.\<close>

definition execute_insert :: "Statement \<Rightarrow> Table \<Rightarrow> (ExecuteResult \<times> Table) cres" where
  "execute_insert st t =
     (let row_to_insert = row_insert st; key_to_insert = row_get_key row_to_insert in
     rbind (table_find t key_to_insert) (\<lambda>(cur, t).
     case cur of
       None \<Rightarrow> Inl C_Fault
     | Some cur \<Rightarrow>
         rbind (table_get_page t (page_num cur)) (\<lambda>t.
         rbind (page_read32 t (page_num cur) leaf_node_num_cells) (\<lambda>num_cells.
         rbind (if cell_num cur < num_cells then
                  rbind (page_read32 t (page_num cur) (leaf_node_key (cell_num cur)))
                    (\<lambda>key_at_index. Inr (key_at_index = key_to_insert))
                else Inr False) (\<lambda>duplicate.
         if duplicate then Inr (EXECUTE_DUPLICATE_KEY, t)
         else rbind (leaf_node_insert t cur key_to_insert row_to_insert) (\<lambda>t.
                Inr (EXECUTE_SUCCESS, t)))))))"

text \<open>
  The loop of \<open>execute_select\<close>. A walk over the leaves that visits no page twice makes at most
  \<open>TABLE_MAX_PAGES * (LEAF_NODE_MAX_CELLS + 1)\<close> iterations, since a row behind the last cell of a
  page is outside the page.
\<close>

fun select_loop :: "nat \<Rightarrow> Row \<Rightarrow> Cursor \<Rightarrow> Table \<Rightarrow> Table cres" where
  "select_loop 0 row cur t = Inl C_Fuel"
| "select_loop (Suc fuel) row cur t =
     (case end_of_table cur of
        None \<Rightarrow> Inl C_Fault
      | Some True \<Rightarrow> Inr t
      | Some False \<Rightarrow>
          rbind (cursor_value t cur) (\<lambda>((pg, off), t).
          rbind (row_read_from_buffer pg off row) (\<lambda>row.
          rbind (cursor_advance (table_print (row_print row) t) cur) (\<lambda>(cur, t).
          select_loop fuel row cur t))))"

definition select_fuel :: nat where
  "select_fuel = TABLE_MAX_PAGES * (LEAF_NODE_MAX_CELLS + 1) + 1"

definition execute_select :: "Row \<Rightarrow> Table \<Rightarrow> (ExecuteResult \<times> Table) cres" where
  "execute_select row t =
     rbind (table_start t) (\<lambda>(cur, t).
     rbind (select_loop select_fuel row cur t) (\<lambda>t. Inr (EXECUTE_SUCCESS, t)))"

definition execute_statement :: "Row \<Rightarrow> Statement \<Rightarrow> Table \<Rightarrow> (ExecuteResult \<times> Table) cres" where
  "execute_statement row st t =
     (case stype st of
        STATEMENT_INSERT \<Rightarrow> execute_insert st t
      | STATEMENT_SELECT \<Rightarrow> execute_select row t)"

subsection \<open>Meta commands\<close>

definition is_meta_command :: "InputBuffer \<Rightarrow> bool" where
  "is_meta_command ib = (case buffer ib of [] \<Rightarrow> False | c # _ \<Rightarrow> c = CHR ''.'')"

definition print_constants :: "Table \<Rightarrow> string" where
  "print_constants t =
     ''ROW_SIZE: '' @ show_nat ROW_SIZE @ nl @
     ''COMMON_NODE_HEADER_SIZE: '' @ show_nat COMMON_NODE_HEADER_SIZE @ nl @
     ''LEAF_NODE_HEADER_SIZE: '' @ show_nat LEAF_NODE_HEADER_SIZE @ nl @
     ''LEAF_NODE_CELL_SIZE: '' @ show_nat LEAF_NODE_CELL_SIZE @ nl @
     ''LEAF_NODE_SPACE_FOR_CELLS: '' @ show_nat LEAF_NODE_SPACE_FOR_CELLS @ nl @
     ''LEAF_NODE_MAX_CELLS: '' @ show_nat LEAF_NODE_MAX_CELLS @ nl @
     ''root_page_num: '' @ show_nat (unat (root_page_num t)) @ nl"

definition indent :: "nat \<Rightarrow> string" where
  "indent level = concat (replicate level ''  '')"

text \<open>The loop over the keys of a leaf in \<open>print_tree\<close>, from key \<open>i\<close> on, \<open>k\<close> keys left.\<close>

fun print_leaf_keys :: "nat \<Rightarrow> nat \<Rightarrow> u32 \<Rightarrow> nat \<Rightarrow> Table \<Rightarrow> Table cres" where
  "print_leaf_keys level i n 0 t = Inr t"
| "print_leaf_keys level i n (Suc k) t =
     rbind (page_read32 t n (leaf_node_key (word_of_nat i))) (\<lambda>key.
     print_leaf_keys level (Suc i) n k
       (table_print (indent (level + 1) @ ''- '' @ show_d key @ nl) t))"

text \<open>
  \<open>print_tree\<close>, and its loop over the cells of an internal node from \<open>i\<close> on. The fuel bounds the
  depth plus the number of cells on the way.
\<close>

function print_tree :: "nat \<Rightarrow> Table \<Rightarrow> u32 \<Rightarrow> nat \<Rightarrow> Table cres"
  and print_children :: "nat \<Rightarrow> Table \<Rightarrow> u32 \<Rightarrow> nat \<Rightarrow> u32 \<Rightarrow> u32 \<Rightarrow> Table cres" where
  "print_tree 0 t n level = Inl C_Fuel"
| "print_tree (Suc fuel) t n level =
     rbind (table_get_page t n) (\<lambda>t.
     rbind (page_at t n) (\<lambda>node.
     rbind (get_node_type node) (\<lambda>ty.
     if ty = NODE_LEAF then
       rbind (mem_load32 node leaf_node_num_cells) (\<lambda>num_keys.
       print_leaf_keys level 0 n (unat num_keys)
         (table_print (indent level @ ''- leaf (size '' @ show_d num_keys @ '')'' @ nl) t))
     else if ty = NODE_INTERNAL then
       rbind (mem_load32 node internal_node_num_keys) (\<lambda>num_keys.
       rbind (print_children fuel
                (table_print (indent level @ ''- internal (size '' @ show_d num_keys @ '')'' @ nl) t)
                n level num_keys 0) (\<lambda>t.
       rbind (page_read32 t n internal_node_right_child) (\<lambda>child.
       print_tree fuel t child (level + 1))))
     else Inr t)))"
| "print_children 0 t n level num_keys i = Inl C_Fuel"
| "print_children (Suc fuel) t n level num_keys i =
     (if i < num_keys then
        rbind (page_at t n) (\<lambda>node.
        rbind (internal_node_child node i) (\<lambda>off.
        rbind (mem_load32 node off) (\<lambda>child.
        rbind (print_tree fuel t child (level + 1)) (\<lambda>t.
        rbind (page_read32 t n (internal_node_key i)) (\<lambda>key.
        print_children fuel (table_print (indent level @ ''- key '' @ show_d key @ nl) t)
          n level num_keys (i + 1))))))
      else Inr t)"
  by pat_completeness auto
termination
  by (relation "measure (\<lambda>x. case x of Inl (f, _) \<Rightarrow> f | Inr (f, _) \<Rightarrow> f)") auto

definition tree_fuel :: nat where
  "tree_fuel = TABLE_MAX_PAGES * TABLE_MAX_PAGES"

text \<open>
  \<open>do_meta_command\<close>: \<open>Inl\<close> of the file and the console when the program exits successfully.
\<close>

datatype MetaCommandResult = META_COMMAND_SUCCESS | META_COMMAND_UNRECOGNIZED

definition do_meta_command ::
    "InputBuffer \<Rightarrow> Table \<Rightarrow> ((db_file \<times> string) + (MetaCommandResult \<times> Table)) cres" where
  "do_meta_command ib t =
     (if buffer ib = ''.exit'' then
        rbind (db_close t) (\<lambda>(f, con). Inr (Inl (f, con @ ''Bye.'' @ nl)))
      else if buffer ib = ''.constants'' then
        Inr (Inr (META_COMMAND_SUCCESS,
          table_print (''Constants:'' @ nl @ print_constants t) t))
      else if buffer ib = ''.btree'' then
        rbind (print_tree tree_fuel (table_print (''Tree:'' @ nl) t) 0 0) (\<lambda>t.
          Inr (Inr (META_COMMAND_SUCCESS, t)))
      else Inr (Inr (META_COMMAND_UNRECOGNIZED, t)))"

subsection \<open>The main loop\<close>

definition prepare_message :: "PrepareResult \<Rightarrow> InputBuffer \<Rightarrow> string" where
  "prepare_message res ib =
     (case res of
        PREPARE_SUCCESS \<Rightarrow> []
      | PREPARE_STRING_TOO_LONG \<Rightarrow> ''Error: String is too long.'' @ nl
      | PREPARE_NEGATIVE_ID \<Rightarrow> ''Error: Id should not be negative.'' @ nl
      | PREPARE_SYNTAX_ERROR \<Rightarrow>
          ''Error: Syntax error in statement '' @ [CHR 0x22] @ buffer ib @ [CHR 0x22] @ ''.'' @ nl
      | PREPARE_UNRECOGNIZED \<Rightarrow>
          ''Error: Unrecognized statement '' @ [CHR 0x22] @ buffer ib @ [CHR 0x22] @ ''.'' @ nl)"

definition execute_message :: "ExecuteResult \<Rightarrow> string" where
  "execute_message res =
     (case res of
        EXECUTE_SUCCESS \<Rightarrow> ''Executed.'' @ nl
      | EXECUTE_DUPLICATE_KEY \<Rightarrow> ''Error: Duplicate key.'' @ nl
      | EXECUTE_TABLE_FULL \<Rightarrow> ''Error: Table full.'' @ nl)"

text \<open>
  One turn of the loop on the line just read: \<open>stack\<close> is what the uninitialised \<open>statement\<close> holds,
  \<open>row\<close> what the uninitialised \<open>row\<close> of \<open>execute_select\<close> holds. \<open>Inl\<close> ends the program.
\<close>

definition repl_turn ::
    "Statement \<Rightarrow> Row \<Rightarrow> InputBuffer \<Rightarrow> Table \<Rightarrow> ((db_file \<times> string) + Table) cres" where
  "repl_turn stack row ib t =
     (if is_meta_command ib then
        rbind (do_meta_command ib t) (\<lambda>r.
          case r of
            Inl done \<Rightarrow> Inr (Inl done)
          | Inr (META_COMMAND_SUCCESS, t) \<Rightarrow> Inr (Inr t)
          | Inr (META_COMMAND_UNRECOGNIZED, t) \<Rightarrow>
              Inr (Inr (table_print (''Error: Unrecognized meta command '' @ [CHR 0x22] @ buffer ib @
                [CHR 0x22] @ ''.'' @ nl) t)))
      else
        rbind (prepare_statement ib stack) (\<lambda>(res, ib, st).
          if res = PREPARE_SUCCESS then
            rbind (execute_statement row st t) (\<lambda>(res, t).
              Inr (Inr (table_print (execute_message res) t)))
          else Inr (Inr (table_print (prepare_message res ib) t))))"

fun repl ::
    "(nat \<Rightarrow> Statement) \<Rightarrow> (nat \<Rightarrow> Row) \<Rightarrow> string list \<Rightarrow> Table \<Rightarrow> (db_file \<times> string) cres" where
  "repl stack row [] t = Inl (C_Exit (''Error: error reading input.'' @ nl))"
| "repl stack row (line # rest) t =
     (let t = table_print ''db> '' t in
     rbind (read_input (line # rest)) (\<lambda>(ib, _).
     rbind (repl_turn (stack (length rest)) (row (length rest)) ib t) (\<lambda>r.
       case r of Inl done \<Rightarrow> Inr done | Inr t \<Rightarrow> repl stack row rest t)))"

definition main ::
    "string list \<Rightarrow> db_file option \<Rightarrow> bool \<Rightarrow> (nat \<Rightarrow> bytes) \<Rightarrow> (nat \<Rightarrow> Statement) \<Rightarrow> (nat \<Rightarrow> Row) \<Rightarrow>
     string list \<Rightarrow> (db_file \<times> string) cres" where
  "main argv fo malloc_ok fr stack row stdin =
     (case argv of
        prog # db_file_name # _ \<Rightarrow>
          rbind (db_open db_file_name fo malloc_ok fr (''Welcome to simple db.'' @ nl))
            (repl stack row stdin)
      | _ \<Rightarrow> Inl (C_Exit (''Error: Must supply a database filename.'' @ nl)))"

end
