(* ===== verification/Db_Table_Ops.thy ===== *)
theory Db_Table_Ops
  imports Db_Statement
begin

text \<open>
  Tables through their pages: the state laws of the page operations, and the behaviour of find,
  insert, split and select on tables whose root is a leaf and on chains of leaves.
\<close>

section \<open>Definitions\<close>

definition table_live :: "Table \<Rightarrow> bool" where
  "table_live t \<longleftrightarrow> pager_live (pager t)"

definition tview :: "Table \<Rightarrow> u32 \<Rightarrow> bytes" where
  "tview t n = page_view (pager t) n"

definition cached :: "Table \<Rightarrow> u32 \<Rightarrow> bool" where
  "cached t n \<longleftrightarrow> pages (pager t) ! unat n \<noteq> None"

definition table_cached :: "Table \<Rightarrow> u32 \<Rightarrow> Table" where
  "table_cached t n = t\<lparr>pager := pager_cached (pager t) n\<rparr>"

abbreviation valid_page :: "u32 \<Rightarrow> bool" where
  "valid_page n \<equiv> unat n < TABLE_MAX_PAGES"

text \<open>Two tables with the same pages: a read-only operation may only load pages into the cache.\<close>

definition same_pages :: "Table \<Rightarrow> Table \<Rightarrow> bool" where
  "same_pages t t' \<longleftrightarrow> table_live t' \<and> root_page_num t' = root_page_num t \<and>
     (\<forall>m. valid_page m \<longrightarrow> tview t' m = tview t m)"

definition tconsole :: "Table \<Rightarrow> string" where
  "tconsole t = console (pager t)"

text \<open>The number of the leaf to the right, and a chain of leaves that ends with 0.\<close>

definition next_leaf :: "bytes \<Rightarrow> u32" where
  "next_leaf pg = of_le32 (mem_slice 10 4 pg)"

fun leaf_chain :: "Table \<Rightarrow> u32 list \<Rightarrow> bool" where
  "leaf_chain t [] \<longleftrightarrow> False"
| "leaf_chain t [n] \<longleftrightarrow> valid_page n \<and> length (tview t n) = 4096 \<and>
     0 < leaf_count (tview t n) \<and> leaf_count (tview t n) \<le> 55 \<and> next_leaf (tview t n) = 0"
| "leaf_chain t (n # m # ns) \<longleftrightarrow> valid_page n \<and> length (tview t n) = 4096 \<and>
     0 < leaf_count (tview t n) \<and> leaf_count (tview t n) \<le> 55 \<and>
     next_leaf (tview t n) = m \<and> m \<noteq> 0 \<and> leaf_chain t (m # ns)"

definition chain_cells :: "Table \<Rightarrow> u32 list \<Rightarrow> (u32 \<times> bytes) list" where
  "chain_cells t ns = concat (map (\<lambda>n. leaf_cells (tview t n)) ns)"

text \<open>What \<open>select\<close> prints for a stored value.\<close>

definition value_print :: "bytes \<Rightarrow> string" where
  "value_print v = row_print (img_row (v @ [0, 0]))"

definition cells_print :: "(u32 \<times> bytes) list \<Rightarrow> string" where
  "cells_print cs = concat (map (\<lambda>c. value_print (snd c)) cs)"

section \<open>State laws\<close>

named_theorems table_simps \<open>pages and cache of updated tables\<close>

lemma table_get_page_eq:
  "table_live t \<Longrightarrow> valid_page n \<Longrightarrow> table_get_page t n = Inr (table_cached t n)"
  by (simp add: table_live_def pager_live_def table_get_page_def pager_get_page_eq table_cached_def)

lemma table_cached_laws [table_simps]:
  assumes "table_live t" and "valid_page n"
  shows "table_live (table_cached t n)" and "cached (table_cached t n) n"
    and "valid_page m \<Longrightarrow> tview (table_cached t n) m = tview t m"
    and "cached t m \<Longrightarrow> cached (table_cached t n) m"
    and "root_page_num (table_cached t n) = root_page_num t"
    and "tconsole (table_cached t n) = tconsole t"
  using assms
  by (auto simp: table_live_def pager_live_def table_cached_def cached_def tview_def tconsole_def
      pager_ok_cached page_view_cached)
    (auto simp: pager_cached_def pager_ok_def nth_list_update split: option.splits if_splits)

lemma table_cached_id: "cached t n \<Longrightarrow> table_cached t n = t"
  by (auto simp: cached_def table_cached_def pager_cached_def)

lemma page_at_eq: "table_live t \<Longrightarrow> valid_page n \<Longrightarrow> cached t n \<Longrightarrow> page_at t n = Inr (tview t n)"
  by (auto simp: table_live_def pager_live_def pager_ok_def page_at_def cached_def tview_def
      page_view_def)

lemma set_page_laws [table_simps]:
  assumes "table_live t" and "valid_page n" and "cached t n" and "length pg = 4096"
  shows "table_live (set_page t n pg)"
    and "valid_page m \<Longrightarrow> tview (set_page t n pg) m = (if m = n then pg else tview t m)"
    and "cached (set_page t n pg) m = cached t m"
    and "root_page_num (set_page t n pg) = root_page_num t"
    and "tconsole (set_page t n pg) = tconsole t"
    and "num_pages (pager (set_page t n pg)) = num_pages (pager t)"
proof -
  have len: "unat n < length (pages (pager t))"
    using assms by (simp add: table_live_def pager_live_def pager_ok_def)
  have eq: "unat n = unat m \<longleftrightarrow> n = m" for m by (simp add: word_unat_eq_iff)
  show "table_live (set_page t n pg)"
    using assms len
    by (auto simp: table_live_def pager_live_def pager_ok_def set_page_def cached_def
        nth_list_update PAGE_SIZE_def)
  show "valid_page m \<Longrightarrow> tview (set_page t n pg) m = (if m = n then pg else tview t m)"
    using len by (auto simp: tview_def page_view_def disk_page_def set_page_def nth_list_update eq
        split: option.split)
  show "cached (set_page t n pg) m = cached t m"
    using assms(3) len by (auto simp: cached_def set_page_def nth_list_update)
  show "root_page_num (set_page t n pg) = root_page_num t"
    "tconsole (set_page t n pg) = tconsole t"
    "num_pages (pager (set_page t n pg)) = num_pages (pager t)"
    by (simp_all add: set_page_def tconsole_def)
qed

lemma table_print_laws [table_simps]:
  "table_live (table_print s t) = table_live t" "tview (table_print s t) m = tview t m"
  "cached (table_print s t) m = cached t m" "root_page_num (table_print s t) = root_page_num t"
  "tconsole (table_print s t) = tconsole t @ s"
  by (simp_all add: table_live_def pager_live_def tview_def cached_def tconsole_def table_print_def
      page_view_def disk_page_def split: option.split)

lemma table_print_append: "table_print b (table_print a t) = table_print (a @ b) t"
  by (simp add: table_print_def printf_def)

lemma cached_print_cached: "cached t n \<Longrightarrow> table_print s (table_cached t n) = table_print s t"
  by (simp add: table_cached_id)

lemma length_tview: "table_live t \<Longrightarrow> valid_page n \<Longrightarrow> length (tview t n) = 4096"
  using cache.view_length by (simp add: table_live_def tview_def PAGE_SIZE_def)

lemma same_pages_refl: "table_live t \<Longrightarrow> same_pages t t"
  by (simp add: same_pages_def)

lemma same_pages_trans: "same_pages t t' \<Longrightarrow> same_pages t' t'' \<Longrightarrow> same_pages t t''"
  by (simp add: same_pages_def)

lemma same_pages_cached: "table_live t \<Longrightarrow> valid_page n \<Longrightarrow> same_pages t (table_cached t n)"
  by (simp add: same_pages_def table_simps)

lemma same_pages_print: "same_pages t t' \<Longrightarrow> same_pages t (table_print s t')"
  by (simp add: same_pages_def table_simps)

lemma page_upd_eq:
  "table_live t \<Longrightarrow> valid_page n \<Longrightarrow> cached t n \<Longrightarrow>
   page_upd t n f = rbind (f (tview t n)) (\<lambda>pg. Inr (set_page t n pg))"
  by (simp add: page_upd_def page_at_eq)

lemma page_read32_eq:
  "table_live t \<Longrightarrow> valid_page n \<Longrightarrow> cached t n \<Longrightarrow> off + 4 \<le> 4096 \<Longrightarrow>
   page_read32 t n off = Inr (of_le32 (mem_slice off 4 (tview t n)))"
  by (simp add: page_read32_def page_at_eq length_tview)

lemma page_read_count:
  assumes "table_live t" and "valid_page n" and "cached t n"
  obtains v where "page_read32 t n leaf_node_num_cells = Inr v" "unat v = leaf_count (tview t n)"
  using assms by (auto simp: node_offsets page_read32_eq leaf_count_def)

text \<open>
  Find, insert and select on tables: a table whose root is a leaf is a sorted list of cells, and
  \<open>select\<close> prints the cells of the chain of leaves it starts on.
\<close>

section \<open>Finding in a root leaf\<close>

definition root_leaf :: "Table \<Rightarrow> bool" where
  "root_leaf t \<longleftrightarrow> table_live t \<and> root_page_num t = 0 \<and> leaf_ok (tview t 0)"

definition root_cells :: "Table \<Rightarrow> (u32 \<times> bytes) list" where
  "root_cells t = leaf_cells (tview t 0)"

definition root_keys :: "Table \<Rightarrow> u32 list" where
  "root_keys t = leaf_keys (tview t 0)"

definition find_pos :: "bytes \<Rightarrow> u32 \<Rightarrow> nat" where
  "find_pos node key = first_ge (key_at node) (leaf_count node) key"

lemma TABLE_MAX_PAGES_pos [simp]: "0 < TABLE_MAX_PAGES"
  by (simp add: TABLE_MAX_PAGES_def)

lemma valid_page_0: "valid_page 0"
  by simp

lemma root_leaf_cached: "root_leaf t \<Longrightarrow> valid_page n \<Longrightarrow> root_leaf (table_cached t n)"
  by (simp add: root_leaf_def table_simps)

lemma get_node_type_leaf: "leaf_ok node \<Longrightarrow> get_node_type node = Inr NODE_LEAF"
  by (simp add: get_node_type_def leaf_ok_def node_layout)

lemma table_find_root_leaf:
  assumes "root_leaf t"
  obtains c where "table_find t key =
      Inr (Some \<lparr>page_num = 0, cell_num = c, end_of_table = None\<rparr>, table_cached t 0)"
    "unat c = find_pos (tview t 0) key"
proof -
  let ?t = "table_cached t 0"
  have live: "table_live t" "root_page_num t = 0" "leaf_ok (tview t 0)"
    using assms by (simp_all add: root_leaf_def)
  note c = table_cached_laws [OF live(1) valid_page_0]
  obtain d where d: "leaf_find_cell (tview t 0) key = Inr d" "unat d = find_pos (tview t 0) key"
    using leaf_find_cell_first_ge [OF live(3)] unfolding find_pos_def by metis
  have at: "page_at ?t 0 = Inr (tview t 0)"
    using page_at_eq [OF c(1) valid_page_0 c(2)] c(3) [OF valid_page_0] by simp
  have "table_find t key =
      Inr (Some \<lparr>page_num = 0, cell_num = d, end_of_table = None\<rparr>, ?t)"
    using live d at c(1,2)
    by (simp add: table_find_def leaf_node_find_def table_get_page_eq table_cached_id
        get_node_type_leaf)
  with d(2) that show ?thesis by blast
qed

lemma find_pos_le: "find_pos node key \<le> leaf_count node"
  by (simp add: find_pos_def first_ge_le)

lemma find_pos_hit:
  assumes "leaf_ok node"
  shows "find_pos node key < leaf_count node \<and> key_at node (find_pos node key) = key \<longleftrightarrow>
    key \<in> set (leaf_keys node)"
proof
  assume "key \<in> set (leaf_keys node)"
  then obtain i where "i < leaf_count node" "key_at node i = key"
    by (auto simp: leaf_keys_def)
  moreover from this have "find_pos node key = i"
    using leaf.hit [OF assms] by (simp add: find_pos_def)
  ultimately show "find_pos node key < leaf_count node \<and> key_at node (find_pos node key) = key"
    by simp
next
  assume "find_pos node key < leaf_count node \<and> key_at node (find_pos node key) = key"
  then show "key \<in> set (leaf_keys node)"
    using nth_mem [of "find_pos node key" "leaf_keys node"] by (simp add: nth_leaf_keys)
qed

section \<open>Inserting into a root leaf\<close>

text \<open>The duplicate test of \<open>execute_insert\<close> on a root leaf is membership of the key.\<close>

lemma execute_insert_root_leaf:
  assumes "root_leaf t" and "st = \<lparr>stype = ty, row_insert = row\<rparr>"
  obtains c where "unat c = find_pos (tview t 0) (row_id row)"
    "execute_insert st t =
      (if row_id row \<in> set (root_keys t) then Inr (EXECUTE_DUPLICATE_KEY, table_cached t 0)
       else rbind (leaf_node_insert (table_cached t 0)
              \<lparr>page_num = 0, cell_num = c, end_of_table = None\<rparr> (row_id row) row)
              (\<lambda>t. Inr (EXECUTE_SUCCESS, t)))"
proof -
  let ?t = "table_cached t 0" and ?node = "tview t 0"
  have live: "table_live t" "leaf_ok ?node" "length ?node = 4096" "leaf_count ?node \<le> 55"
    using assms by (auto simp: root_leaf_def leaf_ok_def)
  note cl = table_cached_laws [OF live(1) valid_page_0]
  obtain c where find: "table_find t (row_id row) =
      Inr (Some \<lparr>page_num = 0, cell_num = c, end_of_table = None\<rparr>, ?t)"
    and c: "unat c = find_pos ?node (row_id row)"
    using table_find_root_leaf [OF assms(1)] by metis
  obtain v where v: "page_read32 ?t 0 leaf_node_num_cells = Inr v" "unat v = leaf_count ?node"
    using page_read_count [OF cl(1) valid_page_0 cl(2)] cl(3) [OF valid_page_0] by metis
  let ?cur = "\<lparr>page_num = 0, cell_num = c, end_of_table = None :: bool option\<rparr>"
  have "page_read32 ?t 0 (leaf_node_key c) = Inr (key_at ?node (unat c))" if "c < v"
    using that v live cl page_at_eq [OF cl(1) valid_page_0 cl(2)] key_at_load [OF live(3), of c]
    by (simp add: page_read32_def word_less_nat_alt)
  then have dup: "(if c < v then
        rbind (page_read32 ?t (page_num ?cur) (leaf_node_key (cell_num ?cur)))
          (\<lambda>k. Inr (k = row_id row))
      else Inr False) = Inr (row_id row \<in> set (root_keys t))"
    using find_pos_hit [OF live(2), of "row_id row"] c v(2)
    by (auto simp: root_keys_def word_less_nat_alt)
  have "execute_insert st t =
      (if row_id row \<in> set (root_keys t) then Inr (EXECUTE_DUPLICATE_KEY, ?t)
       else rbind (leaf_node_insert ?t
              \<lparr>page_num = 0, cell_num = c, end_of_table = None\<rparr> (row_id row) row)
              (\<lambda>t. Inr (EXECUTE_SUCCESS, t)))"
    using find v(1) cl(1,2) assms(2)
    by (simp add: execute_insert_def row_get_key_def table_get_page_eq table_cached_id Let_def dup
        split del: if_split)
  with that c show ?thesis by blast
qed

lemma leaf_node_insert_room:
  assumes live: "table_live t" and n: "valid_page n" and ca: "cached t n" and r: "row_ok r"
    and room: "leaf_count (tview t n) \<le> 54" and c: "unat (cell_num cur) \<le> leaf_count (tview t n)"
    and cur: "page_num cur = n"
  obtains pg where "leaf_node_insert t cur key r = Inr (set_page t n pg)" "length pg = 4096"
    "same_header pg (tview t n)" "leaf_count pg = leaf_count (tview t n) + 1"
    "leaf_cells pg = insert_cell (unat (cell_num cur)) key r (leaf_cells (tview t n))"
proof -
  have len: "length (tview t n) = 4096" using live n by (rule length_tview)
  obtain v where v: "page_read32 t n leaf_node_num_cells = Inr v" "unat v = leaf_count (tview t n)"
    using page_read_count [OF live n ca] .
  obtain pg where pg: "leaf_insert_cell (tview t n) (cell_num cur) key r = Inr pg"
    "length pg = 4096" "same_header pg (tview t n)" "leaf_count pg = leaf_count (tview t n) + 1"
    "leaf_cells pg = insert_cell (unat (cell_num cur)) key r (leaf_cells (tview t n))"
    using leaf_insert_cell_cells [OF r len room c] .
  have "leaf_node_insert t cur key r = Inr (set_page t n pg)"
    using v pg(1) cur room live n ca
    by (simp add: leaf_node_insert_def table_get_page_eq table_cached_id leaf_constants page_upd_eq)
  with pg that show ?thesis by blast
qed

text \<open>Sorted keys stay sorted when the new key goes to its place and the next key survives.\<close>

lemma find_pos_append:
  assumes "leaf_ok node" and "\<forall>k \<in> set (leaf_keys node). k < key"
  shows "find_pos node key = leaf_count node"
  unfolding find_pos_def
  by (rule first_ge_eqI) (use assms in \<open>auto simp: leaf_keys_def\<close>)

lemma insert_cell_append:
  "insert_cell (length cs) k r cs = cs @ [(k, row_value r)]"
  by (simp add: insert_cell_def overrun_hd_def)

lemma leaf_ok_append:
  assumes ok: "leaf_ok node" and len: "length pg = 4096" and hdr: "same_header pg node"
    and cnt: "leaf_count pg \<le> 55" and cells: "leaf_cells pg = leaf_cells node @ [(key, v)]"
    and less: "\<forall>k \<in> set (leaf_keys node). k < key"
  shows "leaf_ok pg"
proof -
  have "take 6 pg = take 6 node"
    using hdr by (simp only: same_header_def)
  then have "pg ! 0 = node ! 0"
    by (metis nth_take zero_less_numeral)
  then have "pg ! 0 = NODE_LEAF" using ok by (simp only: leaf_ok_def)
  moreover have "leaf_keys pg = leaf_keys node @ [key]"
    using cells by (simp flip: map_fst_leaf_cells)
  moreover have "sorted_wrt (<) (leaf_keys node @ [key])"
    using ok less by (simp add: leaf_ok_def sorted_wrt_append)
  ultimately show ?thesis
    using len cnt by (simp add: leaf_ok_def)
qed

section \<open>Selecting\<close>

lemma mem_slice_take_append:
  "off + n \<le> k \<Longrightarrow> k \<le> length m \<Longrightarrow> mem_slice off n (take k m @ xs) = mem_slice off n m"
  by (rule mem_slice_eqI) (auto simp: nth_append)

lemma row_read_value:
  assumes "row_ok row" and "length pg = 4096" and "unat c < 55"
  obtains row' where "row_read_from_buffer pg (leaf_node_value c) row = Inr row'" "row_ok row'"
    "row_print row' = value_print (value_at pg (unat c))"
proof -
  let ?base = "14 + unat c * 74 + 4"
  let ?img = "mem_slice ?base 71 pg @ drop 71 (row_img row)"
  have len: "length ?img = 72" using assms by simp
  have "row_read_from_buffer pg (leaf_node_value c) row = Inr (img_row ?img)"
    using row_read_eq [OF assms(1), of ?base pg] assms by (simp add: node_offsets)
  moreover have "row_print (img_row ?img) = row_print (img_row (value_at pg (unat c) @ [0, 0]))"
  proof -
    have v: "value_at pg (unat c) = take 70 ?img"
      using assms by (simp add: value_at_def mem_slice_def)
    have sl: "mem_slice off n (take 70 ?img @ [0, 0]) = mem_slice off n ?img" if "off + n \<le> 70" for off n
      by (rule mem_slice_take_append) (use that len in simp_all)
    show ?thesis
      unfolding v row_print_def img_row_def row_layout using sl [of 0 4] sl [of 4 33] sl [of 37 33]
      by (simp only: Row.simps add_0 numeral_plus_one arith_simps)
  qed
  ultimately show ?thesis
    using that row_ok_img_row [OF len] by (simp add: value_print_def)
qed

text \<open>One iteration of the loop, inside a leaf or at its last cell.\<close>

lemma cursor_advance_eq:
  assumes live: "table_live t" and n: "valid_page (page_num cur)" and ca: "cached t (page_num cur)"
    and i: "unat (cell_num cur) < leaf_count (tview t (page_num cur))"
    and cnt: "leaf_count (tview t (page_num cur)) \<le> 55"
  shows "cursor_advance t cur =
    (if unat (cell_num cur) + 1 < leaf_count (tview t (page_num cur))
     then Inr (cur\<lparr>cell_num := cell_num cur + 1\<rparr>, t)
     else if next_leaf (tview t (page_num cur)) = 0
     then Inr (cur\<lparr>cell_num := cell_num cur + 1, end_of_table := Some True\<rparr>, t)
     else Inr (cur\<lparr>cell_num := 0, page_num := next_leaf (tview t (page_num cur))\<rparr>, t))"
proof -
  let ?n = "page_num cur"
  obtain v where v: "page_read32 t ?n leaf_node_num_cells = Inr v" "unat v = leaf_count (tview t ?n)"
    using page_read_count [OF live n ca] .
  have nx: "page_read32 t ?n leaf_node_next_leaf = Inr (next_leaf (tview t ?n))"
    using page_read32_eq [OF live n ca, of 10] by (simp add: node_offsets next_leaf_def)
  have "unat (cell_num cur + 1) = unat (cell_num cur) + 1"
    by (rule unat_Suc_index) (use i cnt in simp)
  then have le: "v \<le> cell_num cur + 1 \<longleftrightarrow> \<not> unat (cell_num cur) + 1 < leaf_count (tview t ?n)"
    using v(2) by (simp add: word_le_nat_alt not_less)
  show ?thesis
    using v(1) nx le live n ca
    by (simp add: cursor_advance_def table_get_page_eq table_cached_id)
qed

definition at_cell :: "u32 \<Rightarrow> u32 \<Rightarrow> Cursor" where
  "at_cell n c = \<lparr>page_num = n, cell_num = c, end_of_table = Some False\<rparr>"

definition at_end :: "u32 \<Rightarrow> u32 \<Rightarrow> Cursor" where
  "at_end n c = \<lparr>page_num = n, cell_num = c, end_of_table = Some True\<rparr>"

definition next_cursor :: "bytes \<Rightarrow> u32 \<Rightarrow> u32 \<Rightarrow> Cursor" where
  "next_cursor pg n c =
     (if unat c + 1 < leaf_count pg then at_cell n (c + 1)
      else if next_leaf pg = 0 then at_end n (c + 1) else at_cell (next_leaf pg) 0)"

lemma select_step:
  assumes live: "table_live t" and row: "row_ok row" and n: "valid_page n"
    and i: "unat c < leaf_count (tview t n)" and cnt: "leaf_count (tview t n) \<le> 55"
  obtains row' where "row_ok row'"
    "select_loop (Suc fuel) row (at_cell n c) t =
      select_loop fuel row' (next_cursor (tview t n) n c)
        (table_print (value_print (value_at (tview t n) (unat c))) (table_cached t n))"
proof -
  let ?t = "table_cached t n"
  note cl = table_cached_laws [OF live n]
  have len: "length (tview t n) = 4096" using live n by (rule length_tview)
  obtain row' where row': "row_read_from_buffer (tview t n) (leaf_node_value c) row = Inr row'"
    "row_ok row'" "row_print row' = value_print (value_at (tview t n) (unat c))"
    using row_read_value [OF row len, of c] i cnt by auto
  have val: "cursor_value t (at_cell n c) = Inr ((tview t n, leaf_node_value c), ?t)"
    using live n cl page_at_eq [OF cl(1) n cl(2)]
    by (simp add: cursor_value_def table_get_page_eq at_cell_def)
  have adv: "cursor_advance (table_print (row_print row') ?t) (at_cell n c) =
      Inr (next_cursor (tview t n) n c, table_print (row_print row') ?t)"
    using cursor_advance_eq [of "table_print (row_print row') ?t" "at_cell n c"] cl n i cnt
    by (simp add: table_print_laws next_cursor_def at_cell_def at_end_def)
  have "end_of_table (at_cell n c) = Some False" by (simp add: at_cell_def)
  then have "select_loop (Suc fuel) row (at_cell n c) t =
      select_loop fuel row' (next_cursor (tview t n) n c) (table_print (row_print row') ?t)"
    using val row'(1) adv by simp
  with that row'(2,3) show ?thesis by simp
qed

text \<open>The cells of one leaf from cell \<open>i\<close> on; the loop then ends or goes on at the next leaf.\<close>

definition leaf_exit :: "bytes \<Rightarrow> Cursor \<Rightarrow> bool" where
  "leaf_exit pg cur \<longleftrightarrow>
     (if next_leaf pg = 0 then end_of_table cur = Some True else cur = at_cell (next_leaf pg) 0)"

lemma select_leaf:
  assumes "table_live t" and "row_ok row" and "valid_page n" and "leaf_count (tview t n) \<le> 55"
  shows "i + k = leaf_count (tview t n) \<Longrightarrow> 0 < k \<Longrightarrow>
    \<exists>row' t' cur'. row_ok row' \<and> same_pages t t' \<and>
      tconsole t' = tconsole t @ cells_print (drop i (leaf_cells (tview t n))) \<and>
      (cached t n \<longrightarrow> t' = table_print (cells_print (drop i (leaf_cells (tview t n)))) t) \<and>
      leaf_exit (tview t n) cur' \<and>
      select_loop (fuel + k) row (at_cell n (word_of_nat i)) t = select_loop fuel row' cur' t'"
  using assms
proof (induction k arbitrary: i t row)
  case 0
  then show ?case by simp
next
  case (Suc k)
  let ?s = "value_print (value_at (tview t n) i)"
  let ?t = "table_print ?s (table_cached t n)"
  have u: "unat (word_of_nat i :: u32) = i" using Suc.prems by (simp add: unat_of_nat)
  obtain row' where row': "row_ok row'"
    and step: "select_loop (Suc (fuel + k)) row (at_cell n (word_of_nat i)) t =
      select_loop (fuel + k) row' (next_cursor (tview t n) n (word_of_nat i)) ?t"
    using select_step [of t row n "word_of_nat i" "fuel + k"] Suc.prems u by auto
  have sp: "same_pages t ?t"
    using Suc.prems by (intro same_pages_print same_pages_cached)
  then have live': "table_live ?t" "tview ?t n = tview t n"
    using Suc.prems by (simp_all add: same_pages_def)
  have con: "tconsole ?t = tconsole t @ ?s"
    using Suc.prems by (simp add: table_simps)
  have dr: "drop i (leaf_cells (tview t n)) =
      (key_at (tview t n) i, value_at (tview t n) i) # drop (Suc i) (leaf_cells (tview t n))"
    using Suc.prems by (subst Cons_nth_drop_Suc [symmetric]) (simp_all add: nth_leaf_cells)
  show ?case
  proof (cases "k = 0")
    case True
    then have last: "\<not> unat (word_of_nat i :: u32) + 1 < leaf_count (tview t n)"
      and nil: "drop (Suc i) (leaf_cells (tview t n)) = []"
      using Suc.prems u by simp_all
    have "leaf_exit (tview t n) (next_cursor (tview t n) n (word_of_nat i))"
      using last by (simp add: leaf_exit_def next_cursor_def at_end_def)
    then show ?thesis
      using row' step sp con dr nil True
      by (intro exI [of _ row'] exI [of _ ?t] exI [of _ "next_cursor (tview t n) n (word_of_nat i)"])
        (simp add: cells_print_def table_cached_id)
  next
    case False
    then have "next_cursor (tview t n) n (word_of_nat i) = at_cell n (word_of_nat (Suc i))"
      using Suc.prems u by (simp add: next_cursor_def add.commute)
    with step have step': "select_loop (fuel + Suc k) row (at_cell n (word_of_nat i)) t =
        select_loop (fuel + k) row' (at_cell n (word_of_nat (Suc i))) ?t"
      by simp
    have "Suc i + k = leaf_count (tview ?t n)" "0 < k" "leaf_count (tview ?t n) \<le> 55"
      using Suc.prems False live' by simp_all
    from Suc.IH [OF this(1,2) live'(1) row' Suc.prems(5) this(3)] obtain row2 t2 cur2 where
      "row_ok row2" "same_pages ?t t2"
      "tconsole t2 = tconsole ?t @ cells_print (drop (Suc i) (leaf_cells (tview ?t n)))"
      "cached ?t n \<longrightarrow>
        t2 = table_print (cells_print (drop (Suc i) (leaf_cells (tview ?t n)))) ?t"
      "leaf_exit (tview ?t n) cur2"
      "select_loop (fuel + k) row' (at_cell n (word_of_nat (Suc i))) ?t = select_loop fuel row2 cur2 t2"
      by blast
    moreover have "cached t n \<Longrightarrow> cached ?t n" "cached t n \<Longrightarrow> ?t = table_print ?s t"
      by (simp_all add: table_cached_id table_print_laws)
    ultimately show ?thesis
      using step' sp con dr live'(2) same_pages_trans [OF sp]
      by (intro exI [of _ row2] exI [of _ t2] exI [of _ cur2])
        (auto simp: cells_print_def table_print_append table_cached_id)
  qed
qed

text \<open>Along a chain of leaves the loop prints every cell in order and stops.\<close>

lemma leaf_chain_same_pages: "same_pages t t' \<Longrightarrow> leaf_chain t ns \<Longrightarrow> leaf_chain t' ns"
proof (induction ns rule: induct_list012)
  case (3 n m ns)
  then show ?case by (auto simp: same_pages_def)
qed (auto simp: same_pages_def)

lemma leaf_chain_valid: "leaf_chain t ns \<Longrightarrow> n \<in> set ns \<Longrightarrow> valid_page n"
proof (induction ns rule: induct_list012)
  case (3 a b ns)
  then show ?case by auto
qed auto

lemma chain_cells_same_pages:
  assumes "same_pages t t'" and "leaf_chain t ns"
  shows "chain_cells t' ns = chain_cells t ns"
proof -
  have "map (\<lambda>n. leaf_cells (tview t' n)) ns = map (\<lambda>n. leaf_cells (tview t n)) ns"
    using assms leaf_chain_valid [OF assms(2)] by (auto simp: same_pages_def)
  then show ?thesis by (simp only: chain_cells_def)
qed

lemma cells_print_append: "cells_print (a @ b) = cells_print a @ cells_print b"
  by (simp add: cells_print_def)

lemma select_chain:
  assumes "leaf_chain t ns" and "table_live t" and "row_ok row"
  shows "\<exists>t'. select_loop (Suc fuel + length (chain_cells t ns)) row (at_cell (hd ns) 0) t = Inr t' \<and>
    same_pages t t' \<and> tconsole t' = tconsole t @ cells_print (chain_cells t ns) \<and>
    ((\<forall>n \<in> set ns. cached t n) \<longrightarrow> t' = table_print (cells_print (chain_cells t ns)) t)"
  using assms
proof (induction ns arbitrary: t row rule: induct_list012)
  case 1
  then show ?case by simp
next
  case (2 n)
  then have "0 + leaf_count (tview t n) = leaf_count (tview t n)" "0 < leaf_count (tview t n)"
    "valid_page n" "leaf_count (tview t n) \<le> 55" "next_leaf (tview t n) = 0"
    by simp_all
  with select_leaf [OF 2(2,3) this(3,4,1,2), of "Suc fuel"] obtain row' t' cur' where
    "same_pages t t'" "tconsole t' = tconsole t @ cells_print (leaf_cells (tview t n))"
    "cached t n \<longrightarrow> t' = table_print (cells_print (leaf_cells (tview t n))) t"
    "end_of_table cur' = Some True"
    "select_loop (Suc fuel + leaf_count (tview t n)) row (at_cell n 0) t =
      select_loop (Suc fuel) row' cur' t'"
    by (auto simp: leaf_exit_def)
  then show ?case by (simp add: chain_cells_def)
next
  case (3 n m ns)
  then have n: "0 + leaf_count (tview t n) = leaf_count (tview t n)" "0 < leaf_count (tview t n)"
    "valid_page n" "leaf_count (tview t n) \<le> 55" "next_leaf (tview t n) = m" "m \<noteq> 0"
    and ch: "leaf_chain t (m # ns)"
    by simp_all
  let ?k = "length (chain_cells t (m # ns))"
  from select_leaf [OF 3(4,5) n(3,4,1,2), of "Suc fuel + ?k"] n(5,6) obtain row' t' where
    t': "row_ok row'" "same_pages t t'"
    "tconsole t' = tconsole t @ cells_print (leaf_cells (tview t n))"
    "cached t n \<longrightarrow> t' = table_print (cells_print (leaf_cells (tview t n))) t"
    "select_loop (Suc fuel + ?k + leaf_count (tview t n)) row (at_cell n 0) t =
      select_loop (Suc fuel + ?k) row' (at_cell m 0) t'"
    by (auto simp: leaf_exit_def)
  have cells: "chain_cells t' (m # ns) = chain_cells t (m # ns)"
    using t'(2) ch by (rule chain_cells_same_pages)
  have "table_live t'" using t'(2) by (simp add: same_pages_def)
  from 3(2) [OF leaf_chain_same_pages [OF t'(2) ch] this t'(1)] obtain t2 where t2:
    "select_loop (Suc fuel + ?k) row' (at_cell m 0) t' = Inr t2" "same_pages t' t2"
    "tconsole t2 = tconsole t' @ cells_print (chain_cells t (m # ns))"
    "(\<forall>n \<in> set (m # ns). cached t' n) \<longrightarrow>
      t2 = table_print (cells_print (chain_cells t (m # ns))) t'"
    unfolding cells list.sel by blast
  have only: "(\<forall>j \<in> set (n # m # ns). cached t j) \<longrightarrow>
      t2 = table_print (cells_print (leaf_cells (tview t n)) @ cells_print (chain_cells t (m # ns))) t"
    using t'(4) t2(4) by (simp add: table_print_laws table_print_append)
  have "length (chain_cells t (n # m # ns)) = ?k + leaf_count (tview t n)"
    "cells_print (chain_cells t (n # m # ns)) =
      cells_print (leaf_cells (tview t n)) @ cells_print (chain_cells t (m # ns))"
    by (simp_all add: chain_cells_def cells_print_append)
  then show ?case
    using t2(1-3) only t'(3,5) same_pages_trans [OF t'(2)] by (simp add: add.assoc)
qed

text \<open>The fuel of \<open>execute_select\<close> covers every chain of distinct pages.\<close>

lemma leaf_chain_count: "leaf_chain t ns \<Longrightarrow> length (chain_cells t ns) \<le> 55 * length ns"
proof (induction ns rule: induct_list012)
  case (3 n m ns)
  then have "length (chain_cells t (m # ns)) \<le> 55 * length (m # ns)" by simp
  with 3 show ?case by (simp add: chain_cells_def)
qed (simp_all add: chain_cells_def)

lemma leaf_chain_length:
  assumes "leaf_chain t ns" and "distinct ns"
  shows "length ns \<le> 100"
proof -
  have "set (map unat ns) \<subseteq> {0..<100}"
    using leaf_chain_valid [OF assms(1)] by (auto simp: TABLE_MAX_PAGES_def)
  then have "card (set (map unat ns)) \<le> 100"
    using card_mono [of "{0..<100::nat}"] by simp
  moreover have "distinct (map unat ns)"
    using assms(2) by (simp add: distinct_map inj_on_def word_unat_eq_iff)
  ultimately show ?thesis using distinct_card by fastforce
qed

lemma select_chain_fuel:
  assumes "leaf_chain t ns" and "distinct ns" and "table_live t" and "row_ok row"
  obtains t' where "select_loop select_fuel row (at_cell (hd ns) 0) t = Inr t'" "same_pages t t'"
    "tconsole t' = tconsole t @ cells_print (chain_cells t ns)"
    "(\<forall>n \<in> set ns. cached t n) \<longrightarrow> t' = table_print (cells_print (chain_cells t ns)) t"
proof -
  have "length (chain_cells t ns) \<le> 5500"
    using leaf_chain_count [OF assms(1)] leaf_chain_length [OF assms(1,2)] by simp
  moreover have "select_fuel = 5601" by (simp add: select_fuel_def leaf_constants TABLE_MAX_PAGES_def)
  ultimately have eq: "select_fuel = Suc (5600 - length (chain_cells t ns)) + length (chain_cells t ns)"
    by simp
  show ?thesis
    using select_chain [OF assms(1,3,4), of "5600 - length (chain_cells t ns)", folded eq] that
    by blast
qed

end
