(* ===== verification/Db_Table_Split.thy ===== *)
theory Db_Table_Split
  imports Db_Table_Ops
begin

text \<open>
  Splitting a full root leaf: the root becomes an internal node over two leaves that hold the old
  cells and the new one between them.
\<close>

section \<open>Tables with known pages\<close>

text \<open>
  \<open>tstate t np f C\<close>: the table sees page \<open>f n\<close> at \<open>n\<close>, the pages in \<open>C\<close> are cached, and \<open>np\<close> is the next
  unused page number.
\<close>

definition tstate :: "Table \<Rightarrow> u32 \<Rightarrow> (u32 \<Rightarrow> bytes) \<Rightarrow> u32 set \<Rightarrow> bool" where
  "tstate t np f C \<longleftrightarrow> table_live t \<and> root_page_num t = 0 \<and> num_pages (pager t) = np \<and>
     (\<forall>m. valid_page m \<longrightarrow> tview t m = f m) \<and> (\<forall>m \<in> C. valid_page m \<and> cached t m)"

lemma tstate_get: "tstate t np f C \<Longrightarrow> n \<in> C \<Longrightarrow> table_get_page t n = Inr t"
  by (simp add: tstate_def table_get_page_eq table_cached_id)

lemma tstate_get_new:
  assumes "tstate t np f C" and "valid_page np"
  obtains t' where "table_get_page t np = Inr t'" "tstate t' (np + 1) f (insert np C)"
    "tconsole t' = tconsole t"
proof -
  have live: "table_live t" using assms(1) by (simp add: tstate_def)
  have "pages (pager t) ! unat np = None"
    using assms by (fastforce simp: tstate_def table_live_def pager_live_def pager_ok_def)
  moreover have "unat (np + 1) = unat np + 1"
    using assms(2) by (intro unat_Suc_index) (simp add: TABLE_MAX_PAGES_def)
  then have "max np (np + 1) = np + 1" by (simp add: max_def word_le_nat_alt)
  ultimately have "num_pages (pager (table_cached t np)) = np + 1"
    using assms(1) by (simp add: tstate_def table_cached_def pager_cached_def)
  then have "tstate (table_cached t np) (np + 1) f (insert np C)"
    using assms table_cached_laws [OF live assms(2)] by (simp add: tstate_def)
  then show ?thesis
    using that live assms(2) by (simp add: table_get_page_eq table_simps)
qed

lemma tstate_at: "tstate t np f C \<Longrightarrow> n \<in> C \<Longrightarrow> page_at t n = Inr (f n)"
  by (simp add: tstate_def page_at_eq)

lemma tstate_length: "tstate t np f C \<Longrightarrow> n \<in> C \<Longrightarrow> length (f n) = 4096"
  using length_tview by (fastforce simp: tstate_def)

lemma tstate_read32:
  "tstate t np f C \<Longrightarrow> n \<in> C \<Longrightarrow> off + 4 \<le> 4096 \<Longrightarrow>
   page_read32 t n off = Inr (of_le32 (mem_slice off 4 (f n)))"
  by (simp add: tstate_at tstate_length page_read32_def)

lemma tstate_set:
  assumes "tstate t np f C" and "n \<in> C" and "length pg = 4096"
  shows "tstate (set_page t n pg) np (f(n := pg)) C" and "tconsole (set_page t n pg) = tconsole t"
  using assms set_page_laws [of t n pg] by (auto simp: tstate_def)

lemma tstate_upd:
  assumes "tstate t np f C" and "n \<in> C" and "g (f n) = Inr pg" and "length pg = 4096"
  obtains t' where "page_upd t n g = Inr t'" "tstate t' np (f(n := pg)) C" "tconsole t' = tconsole t"
  using assms tstate_set [OF assms(1,2,4)] that by (simp add: page_upd_def tstate_at)

lemma tstate_write32:
  assumes "tstate t np f C" and "n \<in> C" and "off + 4 \<le> 4096"
  obtains t' where "page_write32 t n off v = Inr t'"
    "tstate t' np (f(n := mem_splice off (le32 v) (f n))) C" "tconsole t' = tconsole t"
  unfolding page_write32_def
  by (rule tstate_upd [OF assms(1,2), of "\<lambda>pg. mem_store32 pg off v" "mem_splice off (le32 v) (f n)"])
    (use assms tstate_length [OF assms(1,2)] in simp_all)

section \<open>The new root\<close>

text \<open>An internal node with one key and two children.\<close>

definition root_over :: "u32 \<Rightarrow> u32 \<Rightarrow> u32 \<Rightarrow> bytes \<Rightarrow> bool" where
  "root_over l k r pg \<longleftrightarrow> length pg = 4096 \<and> pg ! 0 = NODE_INTERNAL \<and> pg ! 1 = 1 \<and>
     mem_slice 6 4 pg = le32 1 \<and> mem_slice 14 4 pg = le32 l \<and> mem_slice 30 4 pg = le32 k \<and>
     mem_slice 10 4 pg = le32 r"

text \<open>The bytes of a page apart from the root flag and the parent pointer.\<close>

definition same_body :: "bytes \<Rightarrow> bytes \<Rightarrow> bool" where
  "same_body a b \<longleftrightarrow> length a = 4096 \<and> length b = 4096 \<and> a ! 0 = b ! 0 \<and> drop 6 a = drop 6 b"

lemma same_body_splice:
  assumes "length pg = 4096" and "1 \<le> off" and "off + length bs \<le> 6"
  shows "same_body (mem_splice off bs pg) pg"
proof -
  have "drop 6 (mem_splice off bs pg) = drop 6 pg"
    by (rule nth_equalityI) (use assms in \<open>simp_all add: nth_mem_splice\<close>)
  then show ?thesis using assms by (simp add: same_body_def nth_mem_splice)
qed

lemma same_body_trans: "same_body a b \<Longrightarrow> same_body b c \<Longrightarrow> same_body a c"
  by (simp add: same_body_def)

lemma same_body_slice: "same_body a b \<Longrightarrow> 6 \<le> off \<Longrightarrow> mem_slice off n a = mem_slice off n b"
proof -
  assume "same_body a b" "6 \<le> off"
  then have "drop (off - 6) (drop 6 a) = drop (off - 6) (drop 6 b)" by (simp only: same_body_def)
  then show ?thesis using \<open>6 \<le> off\<close> by (simp add: mem_slice_def)
qed

lemma same_body_cells:
  assumes "same_body a b"
  shows "leaf_cells a = leaf_cells b" "leaf_count a = leaf_count b" "next_leaf a = next_leaf b"
    "key_at a i = key_at b i"
  using assms
  by (simp_all add: leaf_cells_def leaf_count_def key_at_def value_at_def next_leaf_def
      same_body_slice [OF assms])

lemma get_node_max_key_leaf:
  assumes "length pg = 4096" and "pg ! 0 = NODE_LEAF" and "0 < leaf_count pg" and "leaf_count pg \<le> 55"
  shows "get_node_max_key pg = Inr (key_at pg (leaf_count pg - 1))"
proof -
  let ?n = "of_le32 (mem_slice 6 4 pg)"
  have u: "unat (?n - 1) = leaf_count pg - 1"
    using assms(3) unat_sub [of 1 ?n] by (simp add: leaf_count_def word_le_nat_alt)
  have "mem_load32 pg (leaf_node_key (?n - 1)) = Inr (key_at pg (unat (?n - 1)))"
    by (rule key_at_load) (use assms u in simp_all)
  then show ?thesis
    using assms u by (simp add: get_node_max_key_def get_node_type_def node_layout
        leaf_count_load NODE_LEAF_def NODE_INTERNAL_def)
qed

lemma internal_child_offsets:
  assumes "length pg = 4096" and "mem_slice 6 4 pg = le32 1"
  shows "internal_node_child pg 0 = Inr 14" "internal_node_child pg 1 = Inr 10"
  using assms by (simp_all add: internal_node_child_def internal_node_offsets)

text \<open>
  \<open>create_new_root\<close> when the root page 0 holds the left leaf and page \<open>r\<close> the right one: page \<open>np\<close>
  gets the left leaf and page 0 becomes the internal node over the two.
\<close>

lemma create_new_root_eq:
  assumes st: "tstate t np f C" and C: "0 \<in> C" "r \<in> C" "r \<noteq> 0" and np: "valid_page np"
    and ne: "np \<noteq> 0" "np \<noteq> r"
    and leaf: "f 0 ! 0 = NODE_LEAF" "0 < leaf_count (f 0)" "leaf_count (f 0) \<le> 55"
  obtains t' f' where "create_new_root t r = Inr t'" "tstate t' (np + 1) f' (insert np C)"
    "tconsole t' = tconsole t"
    "root_over np (key_at (f 0) (leaf_count (f 0) - 1)) r (f' 0)"
    "same_body (f' np) (f 0)" "same_body (f' r) (f r)" "mem_slice 2 4 (f' np) = le32 0"
    "mem_slice 2 4 (f' r) = le32 0" "\<forall>m. m \<notin> {0, r, np} \<longrightarrow> f' m = f m"
proof -
  have root: "root_page_num t = 0" using st by (simp add: tstate_def)
  have unused: "pager_get_unused_page_num (pager t) = np"
    using st by (simp add: tstate_def pager_get_unused_page_num_def)
  have len: "length (f 0) = 4096" "length (f r) = 4096"
    using tstate_length [OF st] C by simp_all
  let ?C = "insert np C"
  obtain t1 where t1: "table_get_page t np = Inr t1" "tstate t1 (np + 1) f ?C" "tconsole t1 = tconsole t"
    using tstate_get_new [OF st np] .
  have ln: "length (f np) = 4096" using tstate_length [OF t1(2)] by simp
  \<comment> \<open>the left child\<close>
  obtain t2 where t2: "page_upd t1 np (\<lambda>l. mem_store l 0 (take PAGE_SIZE (f 0))) = Inr t2"
    "tstate t2 (np + 1) (f(np := f 0)) ?C" "tconsole t2 = tconsole t1"
    by (rule tstate_upd [OF t1(2), of np "\<lambda>l. mem_store l 0 (take PAGE_SIZE (f 0))" "f 0"])
      (use len ln in \<open>simp_all add: mem_splice_def PAGE_SIZE_def\<close>)
  let ?l1 = "mem_splice 1 [0] (f 0)"
  obtain t3 where t3: "page_upd t2 np (set_node_root False) = Inr t3"
    "tstate t3 (np + 1) (f(np := ?l1)) ?C" "tconsole t3 = tconsole t2"
    by (rule tstate_upd [OF t2(2), of np "set_node_root False" ?l1])
      (use len in \<open>simp_all add: set_node_root_def node_layout\<close>)
  \<comment> \<open>the root\<close>
  let ?r1 = "mem_splice 6 (le32 0) (mem_splice 1 [0] (mem_splice 0 [NODE_INTERNAL] (f 0)))"
  obtain t4 where t4: "page_upd t3 0 initialize_internal_node = Inr t4"
    "tstate t4 (np + 1) (f(np := ?l1, 0 := ?r1)) ?C" "tconsole t4 = tconsole t3"
    by (rule tstate_upd [OF t3(2), of 0 initialize_internal_node ?r1])
      (use C ne len in \<open>simp_all add: initialize_internal_node_def set_node_type_def
        set_node_root_def internal_node_offsets NODE_TYPE_OFFSET_def IS_ROOT_OFFSET_def
        NODE_TYPE_SIZE_def\<close>)
  let ?r2 = "mem_splice 1 [1] ?r1"
  obtain t5 where t5: "page_upd t4 0 (set_node_root True) = Inr t5"
    "tstate t5 (np + 1) (f(np := ?l1, 0 := ?r2)) ?C" "tconsole t5 = tconsole t4"
    by (rule tstate_upd [OF t4(2), of 0 "set_node_root True" ?r2])
      (use C len in \<open>simp_all add: set_node_root_def IS_ROOT_OFFSET_def NODE_TYPE_OFFSET_def
        NODE_TYPE_SIZE_def\<close>)
  let ?r3 = "mem_splice 6 (le32 1) ?r2"
  obtain t6 where t6: "page_write32 t5 0 internal_node_num_keys 1 = Inr t6"
    "tstate t6 (np + 1) (f(np := ?l1, 0 := ?r3)) ?C" "tconsole t6 = tconsole t5"
    using tstate_write32 [OF t5(2), of 0 6 1] C by (auto simp: internal_node_offsets)
  have l3: "length ?r3 = 4096" "mem_slice 6 4 ?r3 = le32 1" using len by (simp_all add: mem_simps)
  let ?r4 = "mem_splice 14 (le32 np) ?r3"
  obtain t7 where t7: "page_write_child t6 0 0 np = Inr t7"
    "tstate t7 (np + 1) (f(np := ?l1, 0 := ?r4)) ?C" "tconsole t7 = tconsole t6"
    unfolding page_write_child_def
    by (rule tstate_upd [OF t6(2), of 0 "\<lambda>pg. rbind (internal_node_child pg 0)
          (\<lambda>off. mem_store32 pg off np)" ?r4])
      (use C l3 internal_child_offsets [OF l3] in simp_all)
  have body1: "same_body ?l1 (f 0)" using len by (intro same_body_splice) simp_all
  have mk: "page_max_key t7 np = Inr (key_at (f 0) (leaf_count (f 0) - 1))"
  proof -
    have "get_node_max_key ?l1 = Inr (key_at ?l1 (leaf_count ?l1 - 1))"
    proof (rule get_node_max_key_leaf)
      show "0 < leaf_count ?l1" "leaf_count ?l1 \<le> 55"
        unfolding same_body_cells [OF body1] by (rule leaf)+
    qed (use leaf len in \<open>simp_all add: nth_mem_splice\<close>)
    then have "get_node_max_key ?l1 = Inr (key_at (f 0) (leaf_count (f 0) - 1))"
      unfolding same_body_cells [OF body1] .
    moreover have "page_at t7 np = Inr ?l1" using tstate_at [OF t7(2), of np] ne by simp
    ultimately show ?thesis by (simp only: page_max_key_def rbind_Inr)
  qed
  let ?k = "key_at (f 0) (leaf_count (f 0) - 1)"
  let ?r5 = "mem_splice 30 (le32 ?k) ?r4"
  obtain t8 where t8: "page_write32 t7 0 (internal_node_key 0) ?k = Inr t8"
    "tstate t8 (np + 1) (f(np := ?l1, 0 := ?r5)) ?C" "tconsole t8 = tconsole t7"
    using tstate_write32 [OF t7(2), of 0 30 ?k] C by (auto simp: internal_node_offsets)
  have l5: "length ?r5 = 4096" "mem_slice 6 4 ?r5 = le32 1" using len by (simp_all add: mem_simps)
  let ?r6 = "mem_splice 10 (le32 r) ?r5"
  obtain t9 where t9: "page_write_child t8 0 1 r = Inr t9"
    "tstate t9 (np + 1) (f(np := ?l1, 0 := ?r6)) ?C" "tconsole t9 = tconsole t8"
    unfolding page_write_child_def
    by (rule tstate_upd [OF t8(2), of 0 "\<lambda>pg. rbind (internal_node_child pg 1)
          (\<lambda>off. mem_store32 pg off r)" ?r6])
      (use C l5 internal_child_offsets [OF l5] in simp_all)
  \<comment> \<open>the parent pointers\<close>
  let ?l2 = "mem_splice 2 (le32 0) ?l1"
  obtain t10 where t10: "page_write32 t9 np node_parent 0 = Inr t10"
    "tstate t10 (np + 1) (f(np := ?l2, 0 := ?r6)) ?C" "tconsole t10 = tconsole t9"
    using tstate_write32 [OF t9(2), of np 2 0] ne
    by (auto simp: leaf_node_offsets fun_upd_twist)
  let ?n2 = "mem_splice 2 (le32 0) (f r)"
  obtain t11 where t11: "page_write32 t10 r node_parent 0 = Inr t11"
    "tstate t11 (np + 1) (f(np := ?l2, 0 := ?r6, r := ?n2)) ?C" "tconsole t11 = tconsole t10"
    using tstate_write32 [OF t10(2), of r 2 0] C ne by (auto simp: leaf_node_offsets)
  have at0: "page_at t1 0 = Inr (f 0)" using tstate_at [OF t1(2)] C by simp
  have eq: "create_new_root t r = Inr t11"
    by (simp only: create_new_root_def Let_def rbind_Inr root tstate_get [OF st C(1)] tstate_get [OF st C(2)] unused
        t1(1) at0 t2(1) t3(1) t4(1) t5(1) t6(1) t7(1) mk t8(1) t9(1) t10(1) t11(1))
  have over: "root_over np ?k r ?r6"
    using len by (simp add: root_over_def mem_simps nth_mem_splice)
  have "same_body ?l2 (f 0)" "same_body ?n2 (f r)"
    using same_body_trans [OF same_body_splice body1] len by (simp_all add: same_body_splice)
  moreover have "mem_slice 2 4 ?l2 = le32 0" "mem_slice 2 4 ?n2 = le32 0"
    using len by (simp_all add: mem_simps)
  ultimately show ?thesis
    using that [OF eq t11(2)] over C ne t1(3) t2(3) t3(3) t4(3) t5(3) t6(3) t7(3) t8(3) t9(3)
      t10(3) t11(3)
    by (simp add: fun_upd_def)
qed

section \<open>Splitting the root leaf\<close>

lemma same_header_next: "same_header a b \<Longrightarrow> next_leaf a = next_leaf b"
  by (simp add: same_header_def next_leaf_def)

lemma same_header_nth:
  assumes "same_header a b" and "i < 6"
  shows "a ! i = b ! i"
  using assms nth_take [of i 6 a] nth_take [of i 6 b] by (simp add: same_header_def)

text \<open>
  A full root leaf of a table whose next unused page is \<open>np\<close>: the insertion allocates \<open>np\<close> for the
  right leaf and \<open>np + 1\<close> for the left one, links the left leaf to the right one, and spreads the
  cells over the two, 28 each.
\<close>

lemma split_root_leaf:
  assumes st: "tstate t np f C" and C: "0 \<in> C" and np: "unat np + 1 < TABLE_MAX_PAGES" "np \<noteq> 0"
    and ok: "leaf_ok (f 0)" and full: "leaf_count (f 0) = 55" and is_root: "f 0 ! 1 \<noteq> 0"
    and r: "row_ok r" and c: "unat (cell_num cur) \<le> 55" and cur: "page_num cur = 0"
  obtains t' f' where "leaf_node_split_and_insert t cur key r = Inr t'"
    "tstate t' (np + 1 + 1) f' (insert (np + 1) (insert np C))" "tconsole t' = tconsole t"
    "root_over (np + 1) (key_at (f' (np + 1)) 27) np (f' 0)"
    "f' np ! 0 = NODE_LEAF" "leaf_count (f' np) = 28" "next_leaf (f' np) = next_leaf (f 0)"
    "f' (np + 1) ! 0 = NODE_LEAF" "leaf_count (f' (np + 1)) = 28" "next_leaf (f' (np + 1)) = np"
    "leaf_cells (f' (np + 1)) @ leaf_cells (f' np) =
       (if unat (cell_num cur) = 27
        then insert_cell_plain (unat (cell_num cur)) key r (leaf_cells (f 0))
        else insert_cell (unat (cell_num cur)) key r (leaf_cells (f 0)))"
    "\<forall>m. m \<notin> {0, np, np + 1} \<longrightarrow> f' m = f m"
proof -
  have unused: "pager_get_unused_page_num (pager t) = np"
    using st by (simp add: tstate_def pager_get_unused_page_num_def)
  have S: "unat (np + 1) = unat np + 1"
    using np by (intro unat_Suc_index) (simp add: TABLE_MAX_PAGES_def)
  have ne: "np + 1 \<noteq> 0" "np + 1 \<noteq> np" using S by (auto simp: word_unat_eq_iff)
  have len: "length (f 0) = 4096" and ty: "f 0 ! 0 = NODE_LEAF"
    using ok by (simp_all add: leaf_ok_def)
  let ?C = "insert np C"
  have vp: "valid_page np" using np by simp
  obtain k0 where k0: "page_max_key t 0 = Inr k0"
    using tstate_at [OF st C] get_node_max_key_leaf [OF len ty] full by (simp add: page_max_key_def)
  obtain t1 where t1: "table_get_page t np = Inr t1" "tstate t1 (np + 1) f ?C" "tconsole t1 = tconsole t"
    using tstate_get_new [OF st vp] .
  have ln: "length (f np) = 4096" using tstate_length [OF t1(2)] by simp
  obtain n1 where n1: "initialize_leaf_node (f np) = Inr n1" "length n1 = 4096"
    "n1 ! 0 = NODE_LEAF" "n1 ! 1 = 0" "leaf_count n1 = 0" "mem_slice 10 4 n1 = le32 0"
    using initialize_leaf_node_Inr [OF ln] .
  obtain t2 where t2: "page_upd t1 np initialize_leaf_node = Inr t2"
    "tstate t2 (np + 1) (f(np := n1)) ?C" "tconsole t2 = tconsole t1"
    by (rule tstate_upd [OF t1(2), of np initialize_leaf_node n1]) (use n1 in simp_all)
  let ?par = "of_le32 (mem_slice 2 4 (f 0))" and ?nxt = "next_leaf (f 0)"
  have par: "page_read32 t2 0 node_parent = Inr ?par"
    using tstate_read32 [OF t2(2), of 0 2] C np by (simp add: leaf_node_offsets)
  let ?n2 = "mem_splice 2 (le32 ?par) n1"
  obtain t3 where t3: "page_write32 t2 np node_parent ?par = Inr t3"
    "tstate t3 (np + 1) (f(np := ?n2)) ?C" "tconsole t3 = tconsole t2"
    using tstate_write32 [OF t2(2), of np 2 ?par] by (auto simp: leaf_node_offsets)
  have nxt: "page_read32 t3 0 leaf_node_next_leaf = Inr ?nxt"
    using tstate_read32 [OF t3(2), of 0 10] C np by (simp add: leaf_node_offsets next_leaf_def)
  let ?n3 = "mem_splice 10 (le32 ?nxt) ?n2"
  obtain t4 where t4: "page_write32 t3 np leaf_node_next_leaf ?nxt = Inr t4"
    "tstate t4 (np + 1) (f(np := ?n3)) ?C" "tconsole t4 = tconsole t3"
    using tstate_write32 [OF t3(2), of np 10 ?nxt] by (auto simp: leaf_node_offsets)
  let ?o1 = "mem_splice 10 (le32 np) (f 0)"
  obtain t5 where t5: "page_write32 t4 0 leaf_node_next_leaf np = Inr t5"
    "tstate t5 (np + 1) (f(np := ?n3, 0 := ?o1)) ?C" "tconsole t5 = tconsole t4"
    using tstate_write32 [OF t4(2), of 0 10 np] C np by (auto simp: leaf_node_offsets)
  have at5: "page_at t5 0 = Inr ?o1" "page_at t5 np = Inr ?n3"
    using tstate_at [OF t5(2)] C np by simp_all
  have cells1: "leaf_cells ?o1 = leaf_cells (f 0)" "leaf_count ?o1 = 55"
    using len full by (auto simp: leaf_cells_def leaf_count_def key_at_def value_at_def mem_simps)
  have "length ?o1 = 4096" "length ?n3 = 4096" using len n1(2) by simp_all
  from leaf_split_cells_cells [OF r this cells1(2) c, of key] obtain o2 n4 where split:
    "leaf_split_cells (cell_num cur) key r ?o1 ?n3 = Inr (o2, n4)"
    "length o2 = 4096" "length n4 = 4096" "same_header o2 ?o1" "same_header n4 ?n3"
    "leaf_count o2 = 28" "leaf_count n4 = 28"
    "leaf_cells o2 @ leaf_cells n4 = (if unat (cell_num cur) = 27
        then insert_cell_plain (unat (cell_num cur)) key r (leaf_cells (f 0))
        else insert_cell (unat (cell_num cur)) key r (leaf_cells (f 0)))"
    unfolding cells1(1) .
  let ?t6 = "set_page (set_page t5 0 o2) np n4"
  have "tstate (set_page t5 0 o2) (np + 1) (f(np := ?n3, 0 := o2)) ?C"
    "tconsole (set_page t5 0 o2) = tconsole t5"
    using tstate_set [OF t5(2), of 0 o2] C split(2) by simp_all
  then have t6: "tstate ?t6 (np + 1) (f(np := n4, 0 := o2)) ?C" "tconsole ?t6 = tconsole t5"
    using tstate_set [of "set_page t5 0 o2" "np + 1" "f(np := ?n3, 0 := o2)" ?C np n4] split(3) np
    by (simp_all add: fun_upd_twist)
  have hdr: "o2 ! 0 = NODE_LEAF" "o2 ! 1 \<noteq> 0" "n4 ! 0 = NODE_LEAF"
    "next_leaf o2 = np" "next_leaf n4 = ?nxt"
    using same_header_nth [OF split(4)] same_header_nth [OF split(5)]
      same_header_next [OF split(4)] same_header_next [OF split(5)] len n1 ty is_root
    by (simp_all add: nth_mem_splice next_leaf_def mem_simps)
  have root2: "is_node_root o2 = Inr True"
    using hdr(2) split(2) by (simp add: is_node_root_def node_layout)
  let ?f6 = "f(np := n4, 0 := o2)"
  have f6: "?f6 0 = o2" "?f6 np = n4" using np by simp_all
  have vp1: "valid_page (np + 1)" using np S by simp
  have C1: "0 \<in> ?C" "np \<in> ?C" using C by simp_all
  have lf: "?f6 0 ! 0 = NODE_LEAF" "0 < leaf_count (?f6 0)" "leaf_count (?f6 0) \<le> 55"
    unfolding f6 using split(6) hdr(1) by simp_all
  obtain t7 f7 where t7: "create_new_root ?t6 np = Inr t7"
    "tstate t7 (np + 1 + 1) f7 (insert (np + 1) ?C)" "tconsole t7 = tconsole ?t6"
    "root_over (np + 1) (key_at o2 (leaf_count o2 - 1)) np (f7 0)"
    "same_body (f7 (np + 1)) o2" "same_body (f7 np) n4"
    "\<forall>m. m \<notin> {0, np, np + 1} \<longrightarrow> f7 m = ?f6 m"
    using create_new_root_eq [OF t6(1) C1 np(2) vp1 ne lf] unfolding f6 by blast
  have eq: "leaf_node_split_and_insert t cur key r = Inr t7"
    by (simp only: leaf_node_split_and_insert_def Let_def cur rbind_Inr prod.case unused if_True
        tstate_get [OF st C] k0 t1(1) t2(1) par t3(1) nxt t4(1) t5(1) at5 split(1) root2 t7(1))
  note b = same_body_cells [OF t7(5)] and b' = same_body_cells [OF t7(6)]
  show ?thesis
  proof (rule that [OF eq t7(2)])
    show "tconsole t7 = tconsole t"
      using t1(3) t2(3) t3(3) t4(3) t5(3) t6(2) t7(3) by simp
    show "root_over (np + 1) (key_at (f7 (np + 1)) 27) np (f7 0)"
      using t7(4) split(6) by (simp add: b(4))
    show "f7 np ! 0 = NODE_LEAF" "f7 (np + 1) ! 0 = NODE_LEAF"
      using t7(5,6) hdr by (simp_all add: same_body_def)
    show "leaf_count (f7 np) = 28" "leaf_count (f7 (np + 1)) = 28"
      "next_leaf (f7 np) = next_leaf (f 0)" "next_leaf (f7 (np + 1)) = np"
      using split(6,7) hdr by (simp_all add: b b')
    show "leaf_cells (f7 (np + 1)) @ leaf_cells (f7 np) =
      (if unat (cell_num cur) = 27
        then insert_cell_plain (unat (cell_num cur)) key r (leaf_cells (f 0))
        else insert_cell (unat (cell_num cur)) key r (leaf_cells (f 0)))"
      using split(8) by (simp only: b(1) b'(1))
    show "\<forall>m. m \<notin> {0, np, np + 1} \<longrightarrow> f7 m = f m"
      using t7(7) by simp
  qed
qed

end
