(* ===== verification/Db_Runs.thy ===== *)
theory Db_Runs
  imports Db_Table_Split
begin

text \<open>
  Whole sessions: a new database, a run of insertions, and what \<open>select\<close> prints; the persistence of
  the pages over \<open>db_close\<close> and \<open>db_open\<close>.
\<close>

section \<open>Definitions\<close>

definition insert_statement :: "Row \<Rightarrow> Statement" where
  "insert_statement r = \<lparr>stype = STATEMENT_INSERT, row_insert = r\<rparr>"

text \<open>Executing insert statements one after the other, with their results.\<close>

fun run_inserts :: "Row list \<Rightarrow> Table \<Rightarrow> (ExecuteResult list \<times> Table) cres" where
  "run_inserts [] t = Inr ([], t)"
| "run_inserts (r # rs) t =
     rbind (execute_insert (insert_statement r) t) (\<lambda>(res, t).
     rbind (run_inserts rs t) (\<lambda>(ress, t). Inr (res # ress, t)))"

definition empty_file :: db_file where
  "empty_file = \<lparr>file_bytes = [], seek_ok = True, read_ok = True, write_ok = True,
     close_ok = True, errno = 0\<rparr>"

text \<open>The state between insertions of a table that still is one leaf.\<close>

definition tfile :: "Table \<Rightarrow> db_file \<times> u32" where
  "tfile t = (file_descriptor (pager t), file_length (pager t))"

definition one_leaf :: "Table \<Rightarrow> bool" where
  "one_leaf t \<longleftrightarrow> root_leaf t \<and> cached t 0 \<and> num_pages (pager t) = 1 \<and> tview t 0 ! 1 \<noteq> 0 \<and>
     next_leaf (tview t 0) = 0 \<and> tfile t = (empty_file, 0)"

definition row_cell :: "Row \<Rightarrow> u32 \<times> bytes" where
  "row_cell r = (row_id r, row_value r)"

section \<open>A new database\<close>

lemma tfile_set_page [simp]: "tfile (set_page t n pg) = tfile t"
  by (simp add: tfile_def set_page_def)

lemma tfile_cached [simp]: "tfile (table_cached t n) = tfile t"
  by (simp add: tfile_def table_cached_def)

lemma tfile_page_upd: "page_upd t n g = Inr t' \<Longrightarrow> tfile t' = tfile t"
  by (auto simp: page_upd_def rbind_def split: sum.splits)

lemma db_open_new:
  assumes "\<forall>n. length (fr n) = 4096"
  obtains t where "db_open name (Some empty_file) True fr con = Inr t" "one_leaf t"
    "root_cells t = []" "tconsole t = con"
proof -
  let ?p = "\<lparr>file_descriptor = empty_file, file_length = 0, num_pages = 0,
      pages = replicate TABLE_MAX_PAGES None, fresh = fr, console = con\<rparr>"
  let ?t0 = "\<lparr>pager = ?p, root_page_num = 0\<rparr>"
  have open_eq: "pager_open name (Some empty_file) True fr con = Inr ?p"
    by (simp add: pager_open_def empty_file_def Let_def)
  have st: "tstate ?t0 0 (tview ?t0) {}"
    using assms by (simp add: tstate_def table_live_def pager_live_def pager_ok_def empty_file_def
        PAGE_SIZE_def)
  obtain t1 where t1: "table_get_page ?t0 0 = Inr t1" "tstate t1 1 (tview ?t0) {0}"
    "tconsole t1 = tconsole ?t0"
    using tstate_get_new [OF st] by auto
  have len: "length (tview ?t0 0) = 4096" using tstate_length [OF t1(2)] by simp
  obtain n where n: "initialize_leaf_node (tview ?t0 0) = Inr n" "length n = 4096"
    "n ! 0 = NODE_LEAF" "n ! 1 = 0" "leaf_count n = 0" "mem_slice 10 4 n = le32 0"
    using initialize_leaf_node_Inr [OF len] .
  obtain t2 where t2: "page_upd t1 0 initialize_leaf_node = Inr t2"
    "tstate t2 1 ((tview ?t0)(0 := n)) {0}" "tconsole t2 = tconsole t1"
    by (rule tstate_upd [OF t1(2), of 0 initialize_leaf_node n]) (use n in simp_all)
  let ?n = "mem_splice 1 [1] n"
  obtain t3 where t3: "page_upd t2 0 (set_node_root True) = Inr t3"
    "tstate t3 1 ((tview ?t0)(0 := ?n)) {0}" "tconsole t3 = tconsole t2"
    by (rule tstate_upd [OF t2(2), of 0 "set_node_root True" ?n])
      (use n in \<open>simp_all add: set_node_root_def node_layout\<close>)
  have v: "tview t3 0 = ?n" using t3(2) by (simp add: tstate_def)
  have body: "same_body ?n n" using n(2) by (intro same_body_splice) simp_all
  have cnt: "leaf_count ?n = 0" using n(5) by (simp only: same_body_cells [OF body])
  have "leaf_ok ?n"
    using n cnt by (simp add: leaf_ok_def leaf_keys_def nth_mem_splice)
  moreover have "next_leaf ?n = 0"
    unfolding same_body_cells [OF body] using n(6) by (simp add: next_leaf_def)
  moreover have "t1 = table_cached ?t0 0"
    using t1(1) table_get_page_eq [of ?t0 0] st by (simp add: tstate_def)
  then have "tfile t3 = tfile ?t0"
    using tfile_page_upd [OF t3(1)] tfile_page_upd [OF t2(1)] by simp
  then have "tfile t3 = (empty_file, 0)" by (simp add: tfile_def)
  ultimately have "one_leaf t3"
    using t3(2) v n(2) by (simp add: one_leaf_def root_leaf_def tstate_def nth_mem_splice)
  moreover have "root_cells t3 = []" using cnt v by (simp add: root_cells_def leaf_cells_def)
  moreover have "db_open name (Some empty_file) True fr con = Inr t3"
    using t1(1) t2(1) t3(1) by (simp add: db_open_def open_eq Let_def)
  ultimately show ?thesis using that t1(3) t2(3) t3(3) by (simp add: tconsole_def)
qed

section \<open>Insertions in ascending order\<close>

lemma map_fst_row_cells: "map fst (map row_cell rs) = map row_id rs"
  by (simp add: row_cell_def)

lemma root_keys_cells: "root_keys t = map fst (root_cells t)"
  by (simp add: root_keys_def root_cells_def map_fst_leaf_cells)

lemma one_leaf_tstate:
  "one_leaf t \<Longrightarrow> tstate t 1 (tview t) {0}"
  by (simp add: one_leaf_def root_leaf_def tstate_def)

lemma insert_ascending:
  assumes one: "one_leaf t" and cells: "root_cells t = map row_cell rs" and r: "row_ok r"
    and less: "\<forall>x \<in> set rs. row_id x < row_id r" and n: "length rs \<le> 54"
  obtains t' where "execute_insert (insert_statement r) t = Inr (EXECUTE_SUCCESS, t')"
    "one_leaf t'" "root_cells t' = map row_cell (rs @ [r])" "tconsole t' = tconsole t"
proof -
  have rl: "root_leaf t" "cached t 0" and live: "table_live t" and ok: "leaf_ok (tview t 0)"
    using one by (simp_all add: one_leaf_def root_leaf_def)
  have keys: "root_keys t = map row_id rs" using cells by (simp add: root_keys_cells row_cell_def)
  have cnt: "leaf_count (tview t 0) = length rs"
    using cells length_leaf_cells [of "tview t 0"] by (simp add: root_cells_def)
  have less': "\<forall>k \<in> set (leaf_keys (tview t 0)). k < row_id r"
    using keys less by (auto simp: root_keys_def)
  have pos: "find_pos (tview t 0) (row_id r) = length rs"
    using find_pos_append [OF ok less'] cnt by simp
  have fresh: "row_id r \<notin> set (root_keys t)" using keys less by auto
  obtain c where c0: "unat c = find_pos (tview t 0) (row_id r)" and ex0: "execute_insert (insert_statement r) t =
      (if row_id r \<in> set (root_keys t) then Inr (EXECUTE_DUPLICATE_KEY, table_cached t 0)
       else rbind (leaf_node_insert (table_cached t 0)
              \<lparr>page_num = 0, cell_num = c, end_of_table = None\<rparr> (row_id r) r)
              (\<lambda>t. Inr (EXECUTE_SUCCESS, t)))"
    by (rule execute_insert_root_leaf [OF rl(1) insert_statement_def])
  have c: "unat c = length rs" using c0 pos by simp
  have ex: "execute_insert (insert_statement r) t =
      rbind (leaf_node_insert t \<lparr>page_num = 0, cell_num = c, end_of_table = None\<rparr> (row_id r) r)
        (\<lambda>t. Inr (EXECUTE_SUCCESS, t))"
    unfolding ex0 using fresh by (simp only: if_False table_cached_id [OF rl(2)])
  obtain pg where pg: "leaf_node_insert t \<lparr>page_num = 0, cell_num = c, end_of_table = None\<rparr> (row_id r) r =
      Inr (set_page t 0 pg)" "length pg = 4096" "same_header pg (tview t 0)"
    "leaf_count pg = leaf_count (tview t 0) + 1"
    "leaf_cells pg = insert_cell (unat c) (row_id r) r (leaf_cells (tview t 0))"
    by (rule leaf_node_insert_room [OF live valid_page_0 rl(2) r,
          of "\<lparr>page_num = 0, cell_num = c, end_of_table = None\<rparr>" "row_id r"])
      (use cnt n c in simp_all)
  have lc: "leaf_cells pg = leaf_cells (tview t 0) @ [(row_id r, row_value r)]"
    using pg(5) c cnt insert_cell_append [of "leaf_cells (tview t 0)"] by simp
  have "leaf_ok pg"
    by (rule leaf_ok_append [OF ok pg(2,3) _ lc less']) (use pg(4) cnt n in simp)
  then have "one_leaf (set_page t 0 pg)"
    using one rl live pg(2,3) set_page_laws [OF live valid_page_0 rl(2) pg(2)]
      same_header_nth [OF pg(3), of 1] same_header_next [OF pg(3)]
    by (simp add: one_leaf_def root_leaf_def)
  moreover have "root_cells (set_page t 0 pg) = map row_cell (rs @ [r])"
    using lc cells set_page_laws(2) [OF live valid_page_0 rl(2) pg(2)]
    by (simp add: root_cells_def row_cell_def)
  moreover have "tconsole (set_page t 0 pg) = tconsole t"
    using set_page_laws(5) [OF live valid_page_0 rl(2) pg(2)] .
  ultimately show ?thesis using that ex pg(1) by simp
qed

lemma execute_insert_leaf:
  assumes rl: "root_leaf t" "cached t 0" and n: "leaf_count (tview t 0) \<le> 54" and r: "row_ok r"
  shows "\<exists>res t'. execute_insert (insert_statement r) t = Inr (res, t') \<and>
    (if row_id r \<in> set (root_keys t) then res = EXECUTE_DUPLICATE_KEY \<and> t' = t
     else res = EXECUTE_SUCCESS \<and> root_cells t' = insert_cell
       (first_ge (key_at (tview t 0)) (leaf_count (tview t 0)) (row_id r)) (row_id r) r (root_cells t))"
proof -
  have live: "table_live t" using rl(1) by (simp add: root_leaf_def)
  obtain c where c: "unat c = find_pos (tview t 0) (row_id r)" and ex: "execute_insert (insert_statement r) t =
      (if row_id r \<in> set (root_keys t) then Inr (EXECUTE_DUPLICATE_KEY, table_cached t 0)
       else rbind (leaf_node_insert (table_cached t 0)
              \<lparr>page_num = 0, cell_num = c, end_of_table = None\<rparr> (row_id r) r)
              (\<lambda>t. Inr (EXECUTE_SUCCESS, t)))"
    by (rule execute_insert_root_leaf [OF rl(1) insert_statement_def])
  let ?cur = "\<lparr>page_num = 0, cell_num = c, end_of_table = None\<rparr>"
  obtain pg where pg: "leaf_node_insert t ?cur (row_id r) r = Inr (set_page t 0 pg)"
    "length pg = 4096" "leaf_cells pg = insert_cell (unat (cell_num ?cur)) (row_id r) r (leaf_cells (tview t 0))"
    by (rule leaf_node_insert_room [OF live valid_page_0 rl(2) r n, of ?cur "row_id r"])
      (use c find_pos_le in simp_all)
  have "root_cells (set_page t 0 pg) = insert_cell (find_pos (tview t 0) (row_id r)) (row_id r) r (root_cells t)"
    using set_page_laws(2) [OF live valid_page_0 rl(2) pg(2) valid_page_0] pg(3) c
    by (simp add: root_cells_def)
  then show ?thesis
    using ex pg(1) rl(2) by (simp add: table_cached_id find_pos_def)
qed

lemma run_inserts_one_leaf:
  assumes "\<forall>r \<in> set rs. row_ok r" and "sorted_wrt (<) (map row_id (ss @ rs))"
    and "length (ss @ rs) \<le> 55" and "one_leaf t" and "root_cells t = map row_cell ss"
  shows "\<exists>t'. run_inserts rs t = Inr (replicate (length rs) EXECUTE_SUCCESS, t') \<and> one_leaf t' \<and>
    root_cells t' = map row_cell (ss @ rs) \<and> tconsole t' = tconsole t"
  using assms
proof (induction rs arbitrary: ss t)
  case Nil
  then show ?case by simp
next
  case (Cons r rs)
  have "\<forall>x \<in> set ss. row_id x < row_id r"
    using Cons.prems(2) by (simp add: sorted_wrt_append)
  then obtain t1 where t1: "execute_insert (insert_statement r) t = Inr (EXECUTE_SUCCESS, t1)"
    "one_leaf t1" "root_cells t1 = map row_cell (ss @ [r])" "tconsole t1 = tconsole t"
    using insert_ascending [OF Cons.prems(4,5)] Cons.prems(1,3) by auto
  with Cons.IH [of "ss @ [r]" t1] Cons.prems show ?case by auto
qed

section \<open>Selecting from a root leaf\<close>

lemma value_print_row: "row_ok r \<Longrightarrow> value_print (row_value r) = row_print r"
proof -
  assume r: "row_ok r"
  have sl: "mem_slice off n (take 70 (row_img r) @ [0, 0]) = mem_slice off n (row_img r)"
    if "off + n \<le> 70" for off n
    by (rule mem_slice_take_append) (use that r in simp_all)
  have "row_print (img_row (row_value r @ [0, 0])) = row_print (img_row (row_img r))"
    unfolding row_value_def row_print_def img_row_def row_layout
    using sl [of 0 4] sl [of 4 33] sl [of 37 33]
    by (simp only: Row.simps add_0 numeral_plus_one arith_simps)
  then show ?thesis using r by (simp add: value_print_def row_img_inverse)
qed

lemma cells_print_rows:
  "\<forall>r \<in> set rs. row_ok r \<Longrightarrow> cells_print (map row_cell rs) = concat (map row_print rs)"
  by (induction rs) (simp_all add: cells_print_def row_cell_def value_print_row)

lemma find_pos_0: "leaf_ok node \<Longrightarrow> find_pos node 0 = 0"
  by (simp add: find_pos_def first_ge_eqI)

lemma execute_select_root_leaf:
  assumes rl: "root_leaf t" and nx: "next_leaf (tview t 0) = 0" and row: "row_ok row"
  obtains t' where "execute_select row t = Inr (EXECUTE_SUCCESS, t')" "same_pages t t'"
    "tconsole t' = tconsole t @ cells_print (root_cells t)"
    "cached t 0 \<longrightarrow> t' = table_print (cells_print (root_cells t)) t"
proof -
  have live: "table_live t" and ok: "leaf_ok (tview t 0)"
    using rl by (simp_all add: root_leaf_def)
  let ?t = "table_cached t 0"
  note cl = table_cached_laws [OF live valid_page_0]
  have sp: "same_pages t ?t" by (rule same_pages_cached [OF live valid_page_0])
  obtain c where find: "table_find t 0 =
      Inr (Some \<lparr>page_num = 0, cell_num = c, end_of_table = None\<rparr>, ?t)" "unat c = 0"
    using table_find_root_leaf [OF rl] find_pos_0 [OF ok] by metis
  then have c: "c = 0" by (simp add: unat_eq_0)
  obtain v where v: "page_read32 ?t 0 leaf_node_num_cells = Inr v"
    "unat v = leaf_count (tview t 0)"
    using page_read_count [OF cl(1) valid_page_0 cl(2)] cl(3) [OF valid_page_0] by metis
  have start: "table_start t =
      Inr (\<lparr>page_num = 0, cell_num = 0, end_of_table = Some (leaf_count (tview t 0) = 0)\<rparr>, ?t)"
    using find c v cl(1,2)
    by (simp add: table_start_def table_get_page_eq table_cached_id unat_eq_0 [symmetric])
  show ?thesis
  proof (cases "leaf_count (tview t 0) = 0")
    case True
    then have "execute_select row t = Inr (EXECUTE_SUCCESS, ?t)"
      using start by (simp add: execute_select_def select_fuel_def)
    moreover have "root_cells t = []" using True by (simp add: root_cells_def leaf_cells_def)
    ultimately show ?thesis
      using that [of ?t] sp cl(6)
      by (simp add: cells_print_def table_cached_id table_print_def printf_def)
  next
    case False
    have v0: "tview ?t 0 = tview t 0" using cl(3) [OF valid_page_0] .
    have ch: "leaf_chain ?t [0]"
      using False ok nx v0 by (simp add: leaf_ok_def)
    obtain t' where t': "select_loop select_fuel row (at_cell 0 0) ?t = Inr t'" "same_pages ?t t'"
      "tconsole t' = tconsole ?t @ cells_print (chain_cells ?t [0])"
      "(\<forall>n \<in> set [0]. cached ?t n) \<longrightarrow> t' = table_print (cells_print (chain_cells ?t [0])) ?t"
      using select_chain_fuel [OF ch _ cl(1) row] unfolding list.sel by force
    have "chain_cells ?t [0] = root_cells t"
      using v0 by (simp add: chain_cells_def root_cells_def)
    moreover have "execute_select row t = Inr (EXECUTE_SUCCESS, t')"
      using start False t'(1) by (simp add: execute_select_def at_cell_def)
    ultimately show ?thesis
      using that [of t'] t' cl(2,6) same_pages_trans [OF sp] cached_print_cached by simp
  qed
qed

text \<open>
  Persistence: the pages a table has when \<open>db_close\<close> flushes them are the pages \<open>db_open\<close> finds.
\<close>

section \<open>Definitions\<close>

text \<open>The bytes of page \<open>j\<close> of a file.\<close>

definition file_page :: "bytes \<Rightarrow> nat \<Rightarrow> bytes" where
  "file_page f j = take 4096 (drop (j * 4096) f)"

text \<open>
  A table that can be closed: the file system works, the file still has the length it was opened
  with and at most the pages the cache has slots for, and every page beyond its end is cached.
\<close>

definition closable :: "Table \<Rightarrow> bool" where
  "closable t \<longleftrightarrow>
     (let p = pager t; fl = file_descriptor p in
      table_live t \<and> root_page_num t = 0 \<and> seek_ok fl \<and> write_ok fl \<and> close_ok fl \<and>
      unat (num_pages p) \<le> TABLE_MAX_PAGES \<and> num_pages p \<noteq> 0 \<and>
      length (file_bytes fl) \<le> unat (num_pages p) * 4096 \<and>
      file_length p = word_of_nat (length (file_bytes fl)) \<and>
      (\<forall>j < unat (num_pages p). pages p ! j = None \<longrightarrow> (j + 1) * 4096 \<le> length (file_bytes fl)))"

section \<open>Files by page\<close>

lemma length_file_page: "(j + 1) * 4096 \<le> length f \<Longrightarrow> length (file_page f j) = 4096"
  by (simp add: file_page_def)

lemma page_offset:
  "j < 100 \<Longrightarrow> unat (word_of_nat j * word_of_nat PAGE_SIZE :: u32) = j * 4096"
  by (simp add: PAGE_SIZE_def unat_word_ariths unat_of_nat)

lemma file_page_write_same:
  assumes "length pg = 4096"
  shows "file_page (file_write (i * 4096) pg f) i = pg"
  using assms by (simp add: file_page_def file_write_def)

lemma file_page_write_other:
  assumes "length pg = 4096" and "j \<noteq> i" and "(j + 1) * 4096 \<le> length f" and "i * 4096 \<le> length f"
  shows "file_page (file_write (i * 4096) pg f) j = file_page f j"
proof -
  consider "j + 1 \<le> i" | "i + 1 \<le> j" using assms(2) by linarith
  then have "i * 4096 + 4096 \<le> j * 4096 \<or> j * 4096 + 4096 \<le> i * 4096"
    by cases (drule mult_le_mono1 [of _ _ 4096], simp)+
  then show ?thesis
    unfolding file_page_def using assms by (intro take_drop_file_write_other) auto
qed

section \<open>The flush loop\<close>

lemma pager_flush_cached:
  assumes "unat n < length (pages p)" and "pages p ! unat n = Some pg"
    and "seek_ok (file_descriptor p)" and "write_ok (file_descriptor p)"
  shows "pager_flush p n = Inr (p\<lparr>file_descriptor := (file_descriptor p)\<lparr>file_bytes :=
     file_write (unat (n * word_of_nat PAGE_SIZE)) pg (file_bytes (file_descriptor p))\<rparr>\<rparr>)"
  using assms by (simp add: pager_flush_def)

lemma flush_from_pages:
  assumes "i + k \<le> 100" and "length (pages p) = 100"
    and "\<forall>j pg. j < 100 \<longrightarrow> pages p ! j = Some pg \<longrightarrow> length pg = 4096"
    and "seek_ok (file_descriptor p)" and "write_ok (file_descriptor p)"
    and "close_ok (file_descriptor p)" and "i * 4096 \<le> length (file_bytes (file_descriptor p))"
    and "\<forall>j. i \<le> j \<longrightarrow> j < i + k \<longrightarrow> pages p ! j = None \<longrightarrow>
      (j + 1) * 4096 \<le> length (file_bytes (file_descriptor p))"
  shows "\<exists>p'. flush_from i k p = Inr p' \<and> console p' = console p \<and>
    close_ok (file_descriptor p') \<and> read_ok (file_descriptor p') = read_ok (file_descriptor p) \<and>
    seek_ok (file_descriptor p') \<and>
    length (file_bytes (file_descriptor p')) =
      max (length (file_bytes (file_descriptor p))) ((i + k) * 4096) \<and>
    (\<forall>j < i + k. file_page (file_bytes (file_descriptor p')) j =
      (if i \<le> j \<and> pages p ! j \<noteq> None then the (pages p ! j)
       else file_page (file_bytes (file_descriptor p)) j))"
  using assms
proof (induction k arbitrary: i p)
  case 0
  then show ?case by simp
next
  case (Suc k)
  let ?f = "file_bytes (file_descriptor p)"
  have i: "i < 100" "i < length (pages p)" using Suc.prems(1,2) by simp_all
  show ?case
  proof (cases "pages p ! i")
    case None
    have pre: "(i + 1) * 4096 \<le> length ?f" using Suc.prems(8) None by simp
    obtain p' where p': "flush_from (Suc i) k p = Inr p'" "console p' = console p"
      "close_ok (file_descriptor p')" "read_ok (file_descriptor p') = read_ok (file_descriptor p)"
      "seek_ok (file_descriptor p')"
      "length (file_bytes (file_descriptor p')) = max (length ?f) ((Suc i + k) * 4096)"
      "\<forall>j < Suc i + k. file_page (file_bytes (file_descriptor p')) j =
        (if Suc i \<le> j \<and> pages p ! j \<noteq> None then the (pages p ! j) else file_page ?f j)"
      using Suc.IH [of "Suc i" p] Suc.prems pre by auto
    have "flush_from i (Suc k) p = Inr p'" using p'(1) None i by simp
    moreover have "file_page (file_bytes (file_descriptor p')) j =
        (if i \<le> j \<and> pages p ! j \<noteq> None then the (pages p ! j) else file_page ?f j)"
      if "j < i + Suc k" for j
      using p'(7) that None by (cases "j = i") auto
    ultimately show ?thesis using p' by auto
  next
    case (Some pg)
    have len: "length pg = 4096" using Suc.prems(3) Some i(1) by blast
    have un: "unat (word_of_nat i :: u32) = i" using i(1) by (simp add: unat_of_nat)
    let ?g = "file_write (i * 4096) pg ?f"
    let ?w = "p\<lparr>file_descriptor := (file_descriptor p)\<lparr>file_bytes := ?g\<rparr>\<rparr>"
    let ?q = "?w\<lparr>pages := (pages ?w)[i := None]\<rparr>"
    have fl: "pager_flush p (word_of_nat i) = Inr ?w"
      using pager_flush_cached [of "word_of_nat i" p pg] Suc.prems(4,5) Some i un
        page_offset [OF i(1)] by simp
    have lg: "length ?g = max (length ?f) ((i + 1) * 4096)"
      using len by (simp add: length_file_write)
    obtain p' where p': "flush_from (Suc i) k ?q = Inr p'" "console p' = console p"
      "close_ok (file_descriptor p')" "read_ok (file_descriptor p') = read_ok (file_descriptor p)"
      "seek_ok (file_descriptor p')"
      "length (file_bytes (file_descriptor p')) = max (length ?g) ((Suc i + k) * 4096)"
      "\<forall>j < Suc i + k. file_page (file_bytes (file_descriptor p')) j =
        (if Suc i \<le> j \<and> pages ?q ! j \<noteq> None then the (pages ?q ! j) else file_page ?g j)"
    proof -
      have "\<exists>p'. flush_from (Suc i) k ?q = Inr p' \<and> console p' = console ?q \<and>
        close_ok (file_descriptor p') \<and> read_ok (file_descriptor p') = read_ok (file_descriptor ?q) \<and>
        seek_ok (file_descriptor p') \<and>
        length (file_bytes (file_descriptor p')) =
          max (length (file_bytes (file_descriptor ?q))) ((Suc i + k) * 4096) \<and>
        (\<forall>j < Suc i + k. file_page (file_bytes (file_descriptor p')) j =
          (if Suc i \<le> j \<and> pages ?q ! j \<noteq> None then the (pages ?q ! j)
           else file_page (file_bytes (file_descriptor ?q)) j))"
      proof (rule Suc.IH)
        show "\<forall>j pg. j < 100 \<longrightarrow> pages ?q ! j = Some pg \<longrightarrow> length pg = 4096"
          using Suc.prems(3) i(2) by (auto simp: nth_list_update split: if_splits)
        show "\<forall>j. Suc i \<le> j \<longrightarrow> j < Suc i + k \<longrightarrow> pages ?q ! j = None \<longrightarrow>
            (j + 1) * 4096 \<le> length (file_bytes (file_descriptor ?q))"
          using Suc.prems(8) lg i(2) by (auto simp: nth_list_update le_max_iff_disj)
      qed (use Suc.prems lg in simp_all)
      then show thesis by (elim exE conjE) (rule that, simp_all cong: if_cong)
    qed
    have pgj: "file_page (file_bytes (file_descriptor p')) j =
        (if i \<le> j \<and> pages p ! j \<noteq> None then the (pages p ! j) else file_page ?f j)"
      if j: "j < i + Suc k" for j
    proof -
      have base: "file_page (file_bytes (file_descriptor p')) j =
        (if Suc i \<le> j \<and> pages ?q ! j \<noteq> None then the (pages ?q ! j) else file_page ?g j)"
        using p'(7) j by simp
      show ?thesis
      proof (cases "j = i")
        case True
        then show ?thesis using base Some len i by (simp add: file_page_write_same)
      next
        case False
        show ?thesis
        proof (cases "Suc i \<le> j \<and> pages p ! j \<noteq> None")
          case True
          then show ?thesis using base by simp
        next
          case no: False
          have "(j + 1) * 4096 \<le> length ?f"
          proof (cases "Suc i \<le> j")
            case True
            then have "pages p ! j = None" "i \<le> j" using no by auto
            then show ?thesis using Suc.prems(8) j by blast
          next
            case nl: False
            then have "(j + 1) * 4096 \<le> i * 4096" using False by simp
            then show ?thesis using Suc.prems(7) by (rule le_trans)
          qed
          then have "file_page ?g j = file_page ?f j"
            using len False Suc.prems(7) by (intro file_page_write_other) simp_all
          then show ?thesis using base no False by auto
        qed
      qed
    qed
    have "flush_from i (Suc k) p = Inr p'" using p'(1) fl Some i by simp
    then show ?thesis using p' pgj lg by auto
  qed
qed

section \<open>Close and open again\<close>

lemma disk_page_file_page:
  assumes "file_length p = word_of_nat (length (file_bytes (file_descriptor p)))"
    and "seek_ok (file_descriptor p)" and "length (file_bytes (file_descriptor p)) \<le> 409600"
    and "(unat n + 1) * 4096 \<le> length (file_bytes (file_descriptor p))"
    and "length (fresh p (unat n)) = 4096"
  shows "disk_page p n = file_page (file_bytes (file_descriptor p)) (unat n)"
proof -
  let ?f = "file_bytes (file_descriptor p)"
  have n: "unat n < 100" using assms(3,4) by simp
  have len: "unat (file_length p) = length ?f" using assms by (simp add: unat_of_nat)
  have "unat n \<le> unat (file_length p div word_of_nat PAGE_SIZE)"
    using assms(4) len by (simp add: unat_div PAGE_SIZE_def)
  moreover have off: "unat (n * word_of_nat PAGE_SIZE) = unat n * 4096"
    using page_offset [OF n] by simp
  ultimately show ?thesis
    using assms(2,4,5) by (simp add: disk_page_def word_le_nat_alt file_read_def file_page_def Let_def
        PAGE_SIZE_def)
qed

lemma close_open:
  assumes t: "closable t" and fr: "\<forall>n. length (fr n) = 4096"
  obtains fl t' where "db_close t = Inr (fl, tconsole t)" "db_open name (Some fl) True fr con = Inr t'"
    "table_live t'" "root_page_num t' = 0" "tconsole t' = con"
    "num_pages (pager t') = num_pages (pager t)"
    "\<forall>n. n < num_pages (pager t) \<longrightarrow> tview t' n = tview t n"
proof -
  let ?p = "pager t"
  let ?f = "file_bytes (file_descriptor ?p)" and ?np = "unat (num_pages ?p)"
  have c: "table_live t" "seek_ok (file_descriptor ?p)" "write_ok (file_descriptor ?p)"
    "close_ok (file_descriptor ?p)" "?np \<le> 100" "num_pages ?p \<noteq> 0" "length ?f \<le> ?np * 4096"
    "file_length ?p = word_of_nat (length ?f)"
    "\<And>j. j < ?np \<Longrightarrow> pages ?p ! j = None \<Longrightarrow> (j + 1) * 4096 \<le> length ?f"
    using t by (simp_all add: closable_def Let_def TABLE_MAX_PAGES_def)
  have ok: "pager_ok ?p" "read_ok (file_descriptor ?p)"
    using c(1) by (simp_all add: table_live_def pager_live_def)
  have "\<exists>p'. flush_from 0 ?np ?p = Inr p' \<and> console p' = console ?p \<and>
    close_ok (file_descriptor p') \<and> read_ok (file_descriptor p') = read_ok (file_descriptor ?p) \<and>
    seek_ok (file_descriptor p') \<and>
    length (file_bytes (file_descriptor p')) = max (length ?f) ((0 + ?np) * 4096) \<and>
    (\<forall>j < 0 + ?np. file_page (file_bytes (file_descriptor p')) j =
      (if 0 \<le> j \<and> pages ?p ! j \<noteq> None then the (pages ?p ! j) else file_page ?f j))"
  proof (rule flush_from_pages)
    show "length (pages ?p) = 100" "\<forall>j pg. j < 100 \<longrightarrow> pages ?p ! j = Some pg \<longrightarrow> length pg = 4096"
      using ok(1) by (simp_all add: pager_ok_def pager_layout)
    show "\<forall>j\<ge>0. j < 0 + ?np \<longrightarrow> pages ?p ! j = None \<longrightarrow> (j + 1) * 4096 \<le> length ?f"
      using c(9) by simp
  qed (use c in simp_all)
  then obtain p' where p': "flush_from 0 ?np ?p = Inr p'" "console p' = console ?p"
    "close_ok (file_descriptor p')" "read_ok (file_descriptor p')" "seek_ok (file_descriptor p')"
    "length (file_bytes (file_descriptor p')) = ?np * 4096"
    "\<And>j. j < ?np \<Longrightarrow> file_page (file_bytes (file_descriptor p')) j =
      (if pages ?p ! j \<noteq> None then the (pages ?p ! j) else file_page ?f j)"
    using c(7) ok(2) by (auto simp: max_absorb2)
  let ?fl = "file_descriptor p'"
  have close: "db_close t = Inr (?fl, tconsole t)"
    using p'(1,2,3) by (simp add: db_close_def tconsole_def)
  let ?q = "\<lparr>file_descriptor = ?fl, file_length = word_of_nat (?np * 4096), num_pages = num_pages ?p,
      pages = replicate TABLE_MAX_PAGES None, fresh = fr, console = con\<rparr>"
  have "pager_open name (Some ?fl) True fr con = Inr ?q"
    using p'(6) by (simp add: pager_open_def Let_def PAGE_SIZE_def)
  then have opn: "db_open name (Some ?fl) True fr con = Inr \<lparr>pager = ?q, root_page_num = 0\<rparr>"
    using c(6) by (simp add: db_open_def)
  let ?t = "\<lparr>pager = ?q, root_page_num = 0\<rparr>"
  have "unat (word_of_nat (?np * 4096) :: u32) = ?np * 4096"
    using c(5) by (subst unat_of_nat) simp
  then have live: "table_live ?t"
    using fr p' by (simp add: table_live_def pager_live_def pager_ok_def PAGE_SIZE_def)
  have view: "tview ?t n = tview t n" if n: "n < num_pages ?p" for n
  proof -
    have un: "unat n < ?np" using n by (simp add: word_less_nat_alt)
    have l: "(unat n + 1) * 4096 \<le> ?np * 4096" using un by simp
    have "tview ?t n = disk_page ?q n"
      using un c(5) by (simp add: tview_def page_view_def TABLE_MAX_PAGES_def)
    also have "\<dots> = file_page (file_bytes ?fl) (unat n)"
      using disk_page_file_page [of ?q n] p'(5,6) l c(5) fr by simp
    also have "\<dots> = tview t n"
    proof (cases "pages ?p ! unat n")
      case None
      then have "disk_page ?p n = file_page ?f (unat n)"
        using c(2,5,7,8,9) un ok(1)
        by (intro disk_page_file_page) (simp_all add: pager_ok_def PAGE_SIZE_def)
      with None p'(7) [OF un] show ?thesis by (simp add: tview_def page_view_def)
    next
      case (Some pg)
      with p'(7) [OF un] show ?thesis by (simp add: tview_def page_view_def)
    qed
    finally show ?thesis .
  qed
  show ?thesis
    by (rule that [OF close opn live]) (use view in \<open>simp_all add: tconsole_def\<close>)
qed

end
