(* ===== verification/Db_Sessions.thy ===== *)
theory Db_Sessions
  imports Db_Runs
begin

text \<open>
  Sessions that span the components: inserting, closing, opening again and selecting; and selecting
  after the insertion that splits the root.
\<close>

section \<open>Definitions\<close>

text \<open>Insert the rows into a new database, close it, open the file again and select.\<close>

definition insert_session ::
    "string \<Rightarrow> (nat \<Rightarrow> bytes) \<Rightarrow> (nat \<Rightarrow> bytes) \<Rightarrow> Row \<Rightarrow> Row list \<Rightarrow>
     (ExecuteResult list \<times> ExecuteResult \<times> string) cres" where
  "insert_session name fr fr' row rs =
     rbind (db_open name (Some empty_file) True fr []) (\<lambda>t.
     rbind (run_inserts rs t) (\<lambda>(ress, t).
     rbind (db_close t) (\<lambda>(fl, con).
     rbind (db_open name (Some fl) True fr' con) (\<lambda>t.
     rbind (execute_select row t) (\<lambda>(res, t). Inr (ress, res, console (pager t)))))))"

text \<open>Insert the rows into a new database and select.\<close>

definition insert_select ::
    "string \<Rightarrow> (nat \<Rightarrow> bytes) \<Rightarrow> Row \<Rightarrow> Row list \<Rightarrow>
     (ExecuteResult list \<times> ExecuteResult \<times> string) cres" where
  "insert_select name fr row rs =
     rbind (db_open name (Some empty_file) True fr []) (\<lambda>t.
     rbind (run_inserts rs t) (\<lambda>(ress, t).
     rbind (execute_select row t) (\<lambda>(res, t). Inr (ress, res, console (pager t)))))"

text \<open>Rows as the parser makes them, in ascending order of their ids.\<close>

definition ascending_rows :: "Row list \<Rightarrow> bool" where
  "ascending_rows rs \<longleftrightarrow> (\<forall>r \<in> set rs. row_ok r) \<and> sorted_wrt (<) (map row_id rs)"

section \<open>One leaf\<close>

lemma one_leaf_closable: "one_leaf t \<Longrightarrow> closable t"
  by (simp add: one_leaf_def root_leaf_def closable_def Let_def tfile_def empty_file_def
      TABLE_MAX_PAGES_def cached_def)

lemma insert_session_rows:
  assumes fr: "\<forall>n. length (fr n) = 4096" "\<forall>n. length (fr' n) = 4096"
    and rs: "ascending_rows rs" "length rs \<le> 55" and row: "row_ok row"
  shows "insert_session name fr fr' row rs =
    Inr (replicate (length rs) EXECUTE_SUCCESS, EXECUTE_SUCCESS, concat (map row_print rs))"
proof -
  obtain t0 where t0: "db_open name (Some empty_file) True fr [] = Inr t0" "one_leaf t0"
    "root_cells t0 = []" "tconsole t0 = []"
    by (rule db_open_new [OF fr(1)])
  obtain t1 where t1: "run_inserts rs t0 = Inr (replicate (length rs) EXECUTE_SUCCESS, t1)"
    "one_leaf t1" "root_cells t1 = map row_cell rs" "tconsole t1 = []"
    using run_inserts_one_leaf [of rs "[]" t0] rs t0 by (auto simp: ascending_rows_def)
  obtain fl t2 where t2: "db_close t1 = Inr (fl, tconsole t1)"
    "db_open name (Some fl) True fr' [] = Inr t2" "table_live t2" "root_page_num t2 = 0"
    "tconsole t2 = []" "num_pages (pager t2) = num_pages (pager t1)"
    "\<forall>n. n < num_pages (pager t1) \<longrightarrow> tview t2 n = tview t1 n"
    by (rule close_open [OF one_leaf_closable [OF t1(2)] fr(2)])
  have v: "tview t2 0 = tview t1 0" using t2(7) t1(2) by (simp add: one_leaf_def)
  have rl: "root_leaf t2" and nx: "next_leaf (tview t2 0) = 0"
    using t1(2) t2(3,4) v by (simp_all add: one_leaf_def root_leaf_def)
  obtain t3 where t3: "execute_select row t2 = Inr (EXECUTE_SUCCESS, t3)"
    "tconsole t3 = tconsole t2 @ cells_print (root_cells t2)"
    using execute_select_root_leaf [OF rl nx row] by metis
  have "root_cells t2 = map row_cell rs" using t1(3) v by (simp add: root_cells_def)
  then have "console (pager t3) = concat (map row_print rs)"
    using t3(2) t2(5) cells_print_rows [of rs] rs(1) by (simp add: ascending_rows_def tconsole_def)
  then show ?thesis
    using t0(1) t1(1,4) t2(1,2) t3(1) by (simp add: insert_session_def)
qed

lemma insert_select_one_leaf:
  assumes fr: "\<forall>n. length (fr n) = 4096"
    and rs: "ascending_rows rs" "length rs \<le> 55" and row: "row_ok row"
  shows "insert_select name fr row rs =
    Inr (replicate (length rs) EXECUTE_SUCCESS, EXECUTE_SUCCESS, concat (map row_print rs))"
proof -
  obtain t0 where t0: "db_open name (Some empty_file) True fr [] = Inr t0" "one_leaf t0"
    "root_cells t0 = []" "tconsole t0 = []"
    by (rule db_open_new [OF fr(1)])
  obtain t1 where t1: "run_inserts rs t0 = Inr (replicate (length rs) EXECUTE_SUCCESS, t1)"
    "one_leaf t1" "root_cells t1 = map row_cell rs" "tconsole t1 = []"
    using run_inserts_one_leaf [of rs "[]" t0] rs t0 by (auto simp: ascending_rows_def)
  have rl: "root_leaf t1" and nx: "next_leaf (tview t1 0) = 0"
    using t1(2) by (simp_all add: one_leaf_def)
  obtain t3 where t3: "execute_select row t1 = Inr (EXECUTE_SUCCESS, t3)"
    "tconsole t3 = tconsole t1 @ cells_print (root_cells t1)"
    using execute_select_root_leaf [OF rl nx row] by metis
  have "console (pager t3) = concat (map row_print rs)"
    using t3(2) t1(3,4) cells_print_rows [of rs] rs(1) by (simp add: ascending_rows_def tconsole_def)
  then show ?thesis
    using t0(1) t1(1,4) t3(1) by (simp add: insert_select_def)
qed

section \<open>Two leaves\<close>

text \<open>A table whose root is over a left leaf and a right one that hold the cells.\<close>

definition two_leaves :: "Table \<Rightarrow> u32 \<Rightarrow> u32 \<Rightarrow> (u32 \<times> bytes) list \<Rightarrow> bool" where
  "two_leaves t l r cs \<longleftrightarrow> table_live t \<and> root_page_num t = 0 \<and> l \<noteq> r \<and>
     (\<exists>k. root_over l k r (tview t 0)) \<and> leaf_ok (tview t l) \<and>
     leaf_chain t [l, r] \<and> chain_cells t [l, r] = cs"

lemma insert_ascending_split:
  assumes one: "one_leaf t" and cells: "root_cells t = map row_cell rs" and r: "row_ok r"
    and less: "\<forall>x \<in> set rs. row_id x < row_id r" and n: "length rs = 55"
  obtains t' where "execute_insert (insert_statement r) t = Inr (EXECUTE_SUCCESS, t')"
    "two_leaves t' 2 1 (map row_cell (rs @ [r]))" "tconsole t' = tconsole t"
proof -
  have rl: "root_leaf t" "cached t 0" and live: "table_live t" and ok: "leaf_ok (tview t 0)"
    and nx: "next_leaf (tview t 0) = 0"
    using one by (simp_all add: one_leaf_def root_leaf_def)
  have keys: "root_keys t = map row_id rs" using cells by (simp add: root_keys_cells row_cell_def)
  have cnt: "leaf_count (tview t 0) = 55"
    using cells length_leaf_cells [of "tview t 0"] n by (simp add: root_cells_def)
  have less': "\<forall>k \<in> set (leaf_keys (tview t 0)). k < row_id r"
    using keys less by (auto simp: root_keys_def)
  have pos: "find_pos (tview t 0) (row_id r) = 55"
    using find_pos_append [OF ok less'] cnt by simp
  have fresh: "row_id r \<notin> set (root_keys t)" using keys less by auto
  obtain c where c0: "unat c = find_pos (tview t 0) (row_id r)" and ex0: "execute_insert (insert_statement r) t =
      (if row_id r \<in> set (root_keys t) then Inr (EXECUTE_DUPLICATE_KEY, table_cached t 0)
       else rbind (leaf_node_insert (table_cached t 0)
              \<lparr>page_num = 0, cell_num = c, end_of_table = None\<rparr> (row_id r) r)
              (\<lambda>t. Inr (EXECUTE_SUCCESS, t)))"
    by (rule execute_insert_root_leaf [OF rl(1) insert_statement_def])
  have c: "unat c = 55" using c0 pos by simp
  let ?cur = "\<lparr>page_num = 0, cell_num = c, end_of_table = None\<rparr>"
  have ex: "execute_insert (insert_statement r) t =
      rbind (leaf_node_insert t ?cur (row_id r) r) (\<lambda>t. Inr (EXECUTE_SUCCESS, t))"
    unfolding ex0 using fresh by (simp only: if_False table_cached_id [OF rl(2)])
  obtain v where v: "page_read32 t 0 leaf_node_num_cells = Inr v" "unat v = leaf_count (tview t 0)"
    using page_read_count [OF live valid_page_0 rl(2)] .
  have ins: "leaf_node_insert t ?cur (row_id r) r = leaf_node_split_and_insert t ?cur (row_id r) r"
    using v cnt by (simp add: leaf_node_insert_def table_get_page_eq [OF live valid_page_0]
        table_cached_id [OF rl(2)] leaf_constants)
  have st: "tstate t 1 (tview t) {0}" by (rule one_leaf_tstate [OF one])
  obtain t' f' where sp: "leaf_node_split_and_insert t ?cur (row_id r) r = Inr t'"
    "tstate t' (1 + 1 + 1) f' (insert (1 + 1) (insert 1 {0}))" "tconsole t' = tconsole t"
    "root_over (1 + 1) (key_at (f' (1 + 1)) 27) 1 (f' 0)"
    "f' 1 ! 0 = NODE_LEAF" "leaf_count (f' 1) = 28" "next_leaf (f' 1) = next_leaf (tview t 0)"
    "f' (1 + 1) ! 0 = NODE_LEAF" "leaf_count (f' (1 + 1)) = 28" "next_leaf (f' (1 + 1)) = 1"
    "leaf_cells (f' (1 + 1)) @ leaf_cells (f' 1) =
       (if unat (cell_num ?cur) = 27
        then insert_cell_plain (unat (cell_num ?cur)) (row_id r) r (leaf_cells (tview t 0))
        else insert_cell (unat (cell_num ?cur)) (row_id r) r (leaf_cells (tview t 0)))"
    by (rule split_root_leaf [OF st _ _ _ ok cnt _ r, of ?cur "row_id r"])
      (use one c in \<open>simp_all add: one_leaf_def TABLE_MAX_PAGES_def\<close>)
  have two: "(1 + 1 :: u32) = 2" by simp
  note sp = sp [unfolded two]
  have view: "tview t' n = f' n" if "valid_page n" for n using sp(2) that by (simp add: tstate_def)
  have vv: "tview t' 0 = f' 0" "tview t' 1 = f' 1" "tview t' 2 = f' 2"
    by (simp_all add: view TABLE_MAX_PAGES_def)
  have len: "length (f' 1) = 4096" "length (f' 2) = 4096"
    using tstate_length [OF sp(2)] by simp_all
  have cs: "leaf_cells (f' 2) @ leaf_cells (f' 1) = map row_cell (rs @ [r])"
    using sp(11) c cells n insert_cell_append [of "map row_cell rs" "row_id r" r]
    by (simp add: row_cell_def root_cells_def)
  have srt: "sorted_wrt (<) (map row_id rs)"
    using ok keys by (simp add: leaf_ok_def root_keys_def)
  then have "sorted_wrt (<) (map row_id (rs @ [r]))"
    using less by (simp add: sorted_wrt_append)
  then have "sorted_wrt (<) (map fst (leaf_cells (f' 2) @ leaf_cells (f' 1)))"
    unfolding cs map_fst_row_cells .
  then have "sorted_wrt (<) (leaf_keys (f' 2))"
    by (simp add: sorted_wrt_append map_fst_leaf_cells)
  then have lok: "leaf_ok (f' 2)" using len sp(8,9) by (simp add: leaf_ok_def)
  have "two_leaves t' 2 1 (map row_cell (rs @ [r]))"
    using sp(2,4,6,7,9,10) nx lok cs len vv
    by (auto simp: two_leaves_def tstate_def chain_cells_def TABLE_MAX_PAGES_def)
  then show ?thesis using that ex ins sp(1,3) by simp
qed

lemma root_over_find_child_0:
  assumes "root_over l k r pg"
  shows "internal_node_find_child pg 0 = Inr 0"
proof -
  have pg: "length pg = 4096" "mem_slice 6 4 pg = le32 1" "mem_slice 30 4 pg = le32 k"
    using assms by (simp_all add: root_over_def)
  have "mem_load32 pg internal_node_num_keys = Inr 1"
    using pg by (simp add: internal_node_offsets)
  moreover have "mem_load32 pg (internal_node_key 0) = Inr k"
    using pg by (simp add: internal_node_offsets)
  moreover have "(64 :: nat) = Suc (Suc 62)" by simp
  moreover have "((0 :: u32) + 1) div 2 = 0" by simp
  ultimately show ?thesis
    by (simp only: internal_node_find_child_def rbind_Inr internal_search.simps Let_def) simp
qed

lemma table_find_two_leaves:
  assumes tl: "two_leaves t l r cs"
  obtains t' where "same_pages t t'" "tconsole t' = tconsole t" "cached t' l"
    "table_find t 0 = Inr (Some \<lparr>page_num = l, cell_num = 0, end_of_table = None\<rparr>, t')"
proof -
  obtain k where ro: "root_over l k r (tview t 0)" and live: "table_live t"
    and rp: "root_page_num t = 0" and ok: "leaf_ok (tview t l)" and vl: "valid_page l"
    using tl by (auto simp: two_leaves_def)
  let ?t = "table_cached t 0"
  let ?t' = "table_cached ?t l"
  note c0 = table_cached_laws [OF live valid_page_0]
  note cl = table_cached_laws [OF c0(1) vl]
  have v0: "page_at ?t 0 = Inr (tview t 0)"
    using page_at_eq [OF c0(1) valid_page_0 c0(2)] c0(3) [OF valid_page_0] by simp
  have vl': "page_at ?t' l = Inr (tview t l)"
    using page_at_eq [OF cl(1) vl cl(2)] cl(3) [OF vl] c0(3) [OF vl] by simp
  have pg: "length (tview t 0) = 4096" "tview t 0 ! 0 = NODE_INTERNAL"
    "mem_slice 6 4 (tview t 0) = le32 1" "mem_slice 14 4 (tview t 0) = le32 l"
    using ro by (simp_all add: root_over_def)
  have ty: "get_node_type (tview t 0) = Inr NODE_INTERNAL"
    using pg by (simp add: get_node_type_def node_layout)
  obtain d where d: "leaf_find_cell (tview t l) 0 = Inr d" "unat d = find_pos (tview t l) 0"
    using leaf_find_cell_first_ge [OF ok] unfolding find_pos_def by metis
  have d0: "d = 0" using d(2) find_pos_0 [OF ok] by (simp add: unat_eq_0)
  have leaf: "leaf_node_find ?t' l 0 =
      Inr (\<lparr>page_num = l, cell_num = 0, end_of_table = None\<rparr>, ?t')"
    using d(1) d0 vl' by (simp add: leaf_node_find_def table_get_page_eq [OF cl(1) vl]
        table_cached_id [OF cl(2)])
  have "mem_load32 (tview t 0) 14 = Inr l" using pg by simp
  then have "internal_node_find (Suc TABLE_MAX_PAGES) ?t 0 0 =
      Inr (Some \<lparr>page_num = l, cell_num = 0, end_of_table = None\<rparr>, ?t')"
    using leaf vl' v0 root_over_find_child_0 [OF ro] internal_child_offsets(1) [OF pg(1,3)]
      get_node_type_leaf [OF ok]
    by (simp add: table_get_page_eq [OF c0(1) valid_page_0] table_cached_id [OF c0(2)]
        table_get_page_eq [OF c0(1) vl])
  then have "table_find t 0 =
      Inr (Some \<lparr>page_num = l, cell_num = 0, end_of_table = None\<rparr>, ?t')"
    using v0 ty by (simp add: table_find_def rp table_get_page_eq [OF live valid_page_0]
        NODE_LEAF_def NODE_INTERNAL_def)
  moreover have "same_pages t ?t'"
    using same_pages_trans [OF same_pages_cached [OF live valid_page_0]
        same_pages_cached [OF c0(1) vl]] .
  ultimately show ?thesis using that cl(2,6) c0(6) by simp
qed

lemma execute_select_two_leaves:
  assumes tl: "two_leaves t l r cs" and row: "row_ok row"
  obtains t' where "execute_select row t = Inr (EXECUTE_SUCCESS, t')" "same_pages t t'"
    "tconsole t' = tconsole t @ cells_print cs"
proof -
  obtain t1 where t1: "same_pages t t1" "tconsole t1 = tconsole t" "cached t1 l"
    "table_find t 0 = Inr (Some \<lparr>page_num = l, cell_num = 0, end_of_table = None\<rparr>, t1)"
    by (rule table_find_two_leaves [OF tl])
  have ch: "leaf_chain t [l, r]" "chain_cells t [l, r] = cs" and ne: "distinct [l, r]"
    using tl by (simp_all add: two_leaves_def)
  have live: "table_live t1" using t1(1) by (simp add: same_pages_def)
  have vl: "valid_page l" and cnt: "0 < leaf_count (tview t l)" using ch(1) by simp_all
  have v: "tview t1 l = tview t l" using t1(1) vl by (simp add: same_pages_def)
  obtain w where w: "page_read32 t1 l leaf_node_num_cells = Inr w" "unat w = leaf_count (tview t1 l)"
    using page_read_count [OF live vl t1(3)] .
  have "w \<noteq> 0" using w(2) v cnt by auto
  then have start: "table_start t = Inr (at_cell l 0, t1)"
    using t1(3,4) w(1) by (simp add: table_start_def at_cell_def table_get_page_eq [OF live vl]
        table_cached_id)
  obtain t' where t': "select_loop select_fuel row (at_cell (hd [l, r]) 0) t1 = Inr t'"
    "same_pages t1 t'" "tconsole t' = tconsole t1 @ cells_print (chain_cells t1 [l, r])"
    by (rule select_chain_fuel [OF leaf_chain_same_pages [OF t1(1) ch(1)] ne live row])
  have "chain_cells t1 [l, r] = cs" using chain_cells_same_pages [OF t1(1) ch(1)] ch(2) by simp
  then show ?thesis
    using that [of t'] t' start t1(2) same_pages_trans [OF t1(1) t'(2)]
    by (simp add: execute_select_def)
qed

lemma run_inserts_append:
  "run_inserts (rs @ [r]) t = rbind (run_inserts rs t) (\<lambda>(ress, t).
     rbind (execute_insert (insert_statement r) t) (\<lambda>(res, t). Inr (ress @ [res], t)))"
  by (induction rs arbitrary: t) (auto simp: rbind_def split: sum.splits prod.splits)

lemma insert_select_split:
  assumes fr: "\<forall>n. length (fr n) = 4096"
    and rs: "ascending_rows rs" "length rs = 56" and row: "row_ok row"
  shows "insert_select name fr row rs =
    Inr (replicate (length rs) EXECUTE_SUCCESS, EXECUTE_SUCCESS, concat (map row_print rs))"
proof -
  obtain ss r where ss: "rs = ss @ [r]" "length ss = 55"
    using rs(2) by (cases rs rule: rev_cases) auto
  have asc: "ascending_rows ss" "row_ok r" "\<forall>x \<in> set ss. row_id x < row_id r"
    using rs(1) ss(1) by (simp_all add: ascending_rows_def sorted_wrt_append)
  obtain t0 where t0: "db_open name (Some empty_file) True fr [] = Inr t0" "one_leaf t0"
    "root_cells t0 = []" "tconsole t0 = []"
    by (rule db_open_new [OF fr(1)])
  obtain t1 where t1: "run_inserts ss t0 = Inr (replicate (length ss) EXECUTE_SUCCESS, t1)"
    "one_leaf t1" "root_cells t1 = map row_cell ss" "tconsole t1 = []"
    using run_inserts_one_leaf [of ss "[]" t0] asc ss t0 by (auto simp: ascending_rows_def)
  obtain t2 where t2: "execute_insert (insert_statement r) t1 = Inr (EXECUTE_SUCCESS, t2)"
    "two_leaves t2 2 1 (map row_cell (ss @ [r]))" "tconsole t2 = tconsole t1"
    by (rule insert_ascending_split [OF t1(2,3) asc(2,3) ss(2)])
  obtain t3 where t3: "execute_select row t2 = Inr (EXECUTE_SUCCESS, t3)"
    "tconsole t3 = tconsole t2 @ cells_print (map row_cell (ss @ [r]))"
    using execute_select_two_leaves [OF t2(2) row] by metis
  have "console (pager t3) = concat (map row_print rs)"
    using t3(2) t2(3) t1(4) ss(1) cells_print_rows [of rs] rs(1)
    by (simp add: ascending_rows_def tconsole_def)
  moreover have "run_inserts rs t0 = Inr (replicate (length rs) EXECUTE_SUCCESS, t2)"
    unfolding ss(1) by (simp add: run_inserts_append t1(1) t2(1) replicate_append_same)
  ultimately show ?thesis
    using t0(1) t3(1) by (simp add: insert_select_def)
qed

end
