(* ===== verification/Db_Parse.thy ===== *)
theory Db_Parse
  imports Db_Statement
begin

text \<open>
  From text to rows: the decimal numbers that \<open>%d\<close> prints and \<open>atoi\<close> reads, \<open>row_init\<close>, and the
  tokens of an insert statement.
\<close>

section \<open>Strings and numbers\<close>

lemma char_of_word_of_char: "char_of (uint (of_char c :: u8)) = c"
proof -
  have "uint (of_char c :: u8) = (of_char c :: int)"
    by (cases c) (simp add: of_char_Char uint_word_ariths)
  then show ?thesis by simp
qed

lemma of_char_u8_eq_0: "(of_char c :: u8) = 0 \<longleftrightarrow> c = CHR 0x00"
proof
  assume "(of_char c :: u8) = 0"
  then have "char_of (uint (of_char c :: u8)) = char_of (0::int)" by simp
  then show "c = CHR 0x00" unfolding char_of_word_of_char by (simp add: char_of_def)
qed simp

lemma bytes_str_str_bytes:
  "CHR 0x00 \<notin> set s \<Longrightarrow> bytes_str (str_bytes s @ 0 # rest) = s"
  by (induction s) (auto simp: bytes_str_def str_bytes_def of_char_u8_eq_0 char_of_word_of_char)

lemma digits_val_append:
  "(\<forall>c \<in> set s. digit_val c \<noteq> None) \<Longrightarrow> digits_val acc (s @ t) = digits_val (digits_val acc s) t"
  by (induction s arbitrary: acc) (auto split: option.splits)

lemma digit_val_char_of: "d < 10 \<Longrightarrow> digit_val (char_of (48 + d :: nat)) = Some (int d)"
proof -
  assume d: "d < 10"
  have "(of_char (char_of (48 + d)) :: int) = int (of_char (char_of (48 + d) :: char) :: nat)"
    by (simp only: of_nat_of_char)
  also have "\<dots> = 48 + int d" using d by (simp only: of_char_of) simp
  finally show ?thesis using d by (simp add: digit_val_def)
qed

lemma show_nat_digits: "c \<in> set (show_nat n) \<Longrightarrow> digit_val c \<noteq> None"
proof (induction n rule: show_nat.induct)
  case (1 n)
  then show ?case
    by (subst (asm) (2) show_nat.simps) (auto split: if_splits simp: digit_val_char_of)
qed

lemma digits_val_show_nat: "digits_val 0 (show_nat n) = int n"
proof (induction n rule: show_nat.induct)
  case (1 n)
  show ?case
  proof (cases "n < 10")
    case True
    then show ?thesis by (subst show_nat.simps) (simp add: digit_val_char_of)
  next
    case False
    with 1 have "digits_val 0 (show_nat (n div 10)) = int (n div 10)" by simp
    moreover have "\<forall>c \<in> set (show_nat (n div 10)). digit_val c \<noteq> None"
      using show_nat_digits by blast
    moreover have "int (n div 10) * 10 + int (n mod 10) = int n" by presburger
    ultimately show ?thesis using False
      by (subst show_nat.simps) (simp add: digits_val_append digit_val_char_of)
  qed
qed
lemma show_nat_Cons: obtains c s where "show_nat n = c # s" "digit_val c \<noteq> None"
proof (cases "show_nat n")
  case Nil
  then show ?thesis using show_nat.simps [of n] by (simp split: if_splits)
next
  case (Cons c s)
  then show ?thesis using that show_nat_digits [of c n] by simp
qed

lemma not_digit: "digit_val CHR '' '' = None" "digit_val CHR ''-'' = None" "digit_val CHR ''+'' = None"
  "isspace c \<Longrightarrow> digit_val c = None"
  by (auto simp: digit_val_def isspace_def)

lemma strtol10_show_nat: "n < 2 ^ 63 \<Longrightarrow> strtol10 (show_nat n) = int n"
proof -
  assume n: "n < 2 ^ 63"
  obtain c s where cs: "show_nat n = c # s" "digit_val c \<noteq> None" by (rule show_nat_Cons)
  have ne: "\<not> isspace c" "c \<noteq> CHR ''-''" "c \<noteq> CHR ''+''" using cs(2) not_digit by auto
  have "strtol10 (show_nat n) = max (- (2 ^ 63)) (min (2 ^ 63 - 1) (digits_val 0 (show_nat n)))"
    using ne by (simp add: strtol10_def cs(1))
  then show ?thesis using n by (simp add: digits_val_show_nat)
qed

lemma atoi_show_nat: "n < 2 ^ 31 \<Longrightarrow> atoi (show_nat n) = int n"
proof -
  assume n: "n < 2 ^ 31"
  then have "sint (word_of_int (int n) :: u32) = int n"
    by (simp only: sint_sbintrunc') (simp add: signed_take_bit_int_eq_self)
  then show ?thesis using n by (simp add: atoi_def strtol10_show_nat)
qed

section \<open>Rows from strings\<close>

lemma strcpy_str:
  assumes "length s < length dst" and "CHR 0x00 \<notin> set s"
  obtains dst' where "strcpy dst s = Inr dst'" "length dst' = length dst" "bytes_str dst' = s"
proof -
  have "strcpy dst s = Inr (mem_splice 0 (str_bytes s @ [0]) dst)"
    using assms(1) by (simp add: strcpy_def str_bytes_def)
  moreover have "mem_splice 0 (str_bytes s @ [0]) dst = str_bytes s @ 0 # drop (length s + 1) dst"
    by (simp add: mem_splice_def str_bytes_def)
  ultimately show ?thesis
    using that [of "str_bytes s @ 0 # drop (length s + 1) dst"] assms
      bytes_str_str_bytes [OF assms(2)]
    by (simp add: str_bytes_def Suc_diff_Suc)
qed

lemma row_init_success:
  assumes "0 \<le> atoi i" and "length u \<le> 32" and "length e \<le> 32" and "row_ok r"
    and "CHR 0x00 \<notin> set u" and "CHR 0x00 \<notin> set e"
  obtains r' where "row_init (Some i) (Some u) (Some e) (Some r) = Inr (ROW_INIT_SUCCESS, Some r')"
    "row_ok r'" "row_id r' = word_of_int (atoi i)" "bytes_str (username r') = u"
    "bytes_str (email r') = e"
proof -
  have len: "length (username r) = 33" "length (email r) = 33" "length (padding r) = 2"
    using assms(4) by (simp_all add: row_ok_def row_layout)
  obtain ub where ub: "strcpy (username r) u = Inr ub" "length ub = 33" "bytes_str ub = u"
    using strcpy_str [of u "username r"] assms(2,5) len by auto
  obtain eb where eb: "strcpy (email r) e = Inr eb" "length eb = 33" "bytes_str eb = e"
    using strcpy_str [of e "email r"] assms(3,6) len by auto
  show ?thesis
    by (rule that [of "r\<lparr>row_id := word_of_int (atoi i), username := ub, email := eb\<rparr>"])
      (use assms ub eb len in \<open>simp_all add: row_init_def row_ok_def row_layout Let_def\<close>)
qed

lemma row_init_fails:
  assumes "row_ok r" and "CHR 0x00 \<notin> set u" and "CHR 0x00 \<notin> set e"
    and "row_init (Some i) (Some u) (Some e) (Some r) = Inr (res, r')" and "res \<noteq> ROW_INIT_SUCCESS"
  shows "r' = Some r"
proof (cases "0 \<le> atoi i \<and> length u \<le> 32 \<and> length e \<le> 32")
  case True
  then obtain r'' where "row_init (Some i) (Some u) (Some e) (Some r) = Inr (ROW_INIT_SUCCESS, Some r'')"
    using row_init_success [of i u e r] assms by metis
  then show ?thesis using assms(4,5) by simp
next
  case False
  then show ?thesis
    using assms(4) by (auto simp: row_init_def row_layout Let_def split: if_splits)
qed

section \<open>Tokens\<close>

text \<open>A word of a statement: not empty, without blanks and without NUL.\<close>

definition is_word :: "string \<Rightarrow> bool" where
  "is_word s \<longleftrightarrow> s \<noteq> [] \<and> CHR '' '' \<notin> set s \<and> CHR 0x00 \<notin> set s"

lemma strtok_word:
  assumes "is_word w"
  shows "strtok (w @ CHR '' '' # s) = (Some w, s)" and "strtok w = (Some w, [])"
proof -
  obtain a b where w: "w = a # b" "a \<noteq> CHR '' ''" "CHR '' '' \<notin> set b"
    using assms by (cases w) (auto simp: is_word_def)
  have "takeWhile (\<lambda>c. c \<noteq> CHR '' '') (b @ CHR '' '' # s) = b"
    using w(3) by (subst takeWhile_append2) auto
  then show "strtok (w @ CHR '' '' # s) = (Some w, s)"
    using w by (simp add: strtok_def Let_def)
  have "takeWhile (\<lambda>c. c \<noteq> CHR '' '') (b @ []) = b @ takeWhile (\<lambda>c. c \<noteq> CHR '' '') []"
    using w(3) by (intro takeWhile_append2) auto
  then have "takeWhile (\<lambda>c. c \<noteq> CHR '' '') b = b" by (simp del: takeWhile_eq_all_conv)
  then show "strtok w = (Some w, [])" unfolding w(1) using w(2)
    by (simp add: strtok_def Let_def del: takeWhile_eq_all_conv)
qed

lemma prepare_statement_insert:
  assumes i: "is_word i" and u: "is_word u" "length u \<le> 32" and e: "is_word e" "length e \<le> 32"
    and id: "0 \<le> atoi i" and row: "row_ok (row_insert st)"
  obtains r where "prepare_statement
      \<lparr>buffer = ''insert '' @ i @ '' '' @ u @ '' '' @ e, input_length = n\<rparr> st =
      Inr (PREPARE_SUCCESS, \<lparr>buffer = ''insert'', input_length = n\<rparr>,
           \<lparr>stype = STATEMENT_INSERT, row_insert = r\<rparr>)"
    "row_ok r" "row_id r = word_of_int (atoi i)" "bytes_str (username r) = u"
    "bytes_str (email r) = e"
proof -
  let ?b = "''insert '' @ i @ '' '' @ u @ '' '' @ e"
  have kw: "strtok ?b = (Some ''insert'', i @ '' '' @ u @ '' '' @ e)"
    using strtok_word(1) [of "''insert''" "i @ '' '' @ u @ '' '' @ e"] by (simp add: is_word_def)
  have t: "strtok (i @ '' '' @ u @ '' '' @ e) = (Some i, u @ '' '' @ e)"
    "strtok (u @ '' '' @ e) = (Some u, e)" "strtok e = (Some e, [])"
    using strtok_word(1) [OF i] strtok_word(1) [OF u(1)] strtok_word(2) [OF e(1)] by simp_all
  have cut: "strtok_cut ?b = ''insert''" by (simp add: strtok_cut_def Let_def)
  obtain r where r: "row_init (Some i) (Some u) (Some e) (Some (row_insert st)) =
      Inr (ROW_INIT_SUCCESS, Some r)" "row_ok r" "row_id r = word_of_int (atoi i)"
    "bytes_str (username r) = u" "bytes_str (email r) = e"
    using row_init_success [OF id u(2) e(2) row] u(1) e(1) by (auto simp: is_word_def)
  have "prepare_statement \<lparr>buffer = ?b, input_length = n\<rparr> st =
      prepare_insert \<lparr>buffer = ?b, input_length = n\<rparr> (st\<lparr>stype := STATEMENT_INSERT\<rparr>)"
    by (simp add: prepare_statement_def)
  also have "\<dots> = Inr (PREPARE_SUCCESS, \<lparr>buffer = ''insert'', input_length = n\<rparr>,
      st\<lparr>stype := STATEMENT_INSERT, row_insert := r\<rparr>)"
    unfolding prepare_insert_def InputBuffer.simps kw Let_def prod.case t cut using r(1) by simp
  finally show ?thesis using that [of r] r(2-5) by simp
qed

lemma prepare_statement_insert_cases:
  assumes i: "is_word i" and u: "is_word u" and e: "is_word e" and row: "row_ok (row_insert st)"
  shows "\<exists>r ib'. prepare_statement
      \<lparr>buffer = ''insert '' @ i @ '' '' @ u @ '' '' @ e, input_length = n\<rparr> st =
    Inr (if atoi i < 0 then PREPARE_NEGATIVE_ID
         else if 32 < length u \<or> 32 < length e then PREPARE_STRING_TOO_LONG else PREPARE_SUCCESS,
         ib', \<lparr>stype = STATEMENT_INSERT, row_insert = r\<rparr>) \<and> row_ok r \<and>
    (if atoi i < 0 \<or> 32 < length u \<or> 32 < length e then r = row_insert st
     else row_id r = word_of_int (atoi i) \<and> bytes_str (username r) = u \<and> bytes_str (email r) = e)"
proof (cases "atoi i < 0 \<or> 32 < length u \<or> 32 < length e")
  case False
  then show ?thesis
    using prepare_statement_insert [OF i u _ e _ _ row, of n] by (simp add: not_less) metis
next
  case True
  let ?b = "''insert '' @ i @ '' '' @ u @ '' '' @ e"
  have kw: "strtok ?b = (Some ''insert'', i @ '' '' @ u @ '' '' @ e)"
    using strtok_word(1) [of "''insert''" "i @ '' '' @ u @ '' '' @ e"] by (simp add: is_word_def)
  have t: "strtok (i @ '' '' @ u @ '' '' @ e) = (Some i, u @ '' '' @ e)"
    "strtok (u @ '' '' @ e) = (Some u, e)" "strtok e = (Some e, [])"
    using strtok_word(1) [OF i] strtok_word(1) [OF u] strtok_word(2) [OF e] by simp_all
  have "row_init (Some i) (Some u) (Some e) (Some (row_insert st)) =
      Inr (if atoi i < 0 then ROW_NEGATIVE_ID else ROW_STRING_TOO_LONG, Some (row_insert st))"
    using True by (auto simp: row_init_def row_layout Let_def)
  moreover have "prepare_statement \<lparr>buffer = ?b, input_length = n\<rparr> st =
      prepare_insert \<lparr>buffer = ?b, input_length = n\<rparr> (st\<lparr>stype := STATEMENT_INSERT\<rparr>)"
    by (simp add: prepare_statement_def)
  ultimately show ?thesis
    unfolding prepare_insert_def InputBuffer.simps kw Let_def prod.case t
    using True row by (cases st) auto
qed

lemma is_word_show_nat: "is_word (show_nat n)"
proof -
  have "digit_val CHR '' '' = None" "digit_val CHR 0x00 = None" by (simp_all add: digit_val_def)
  then have "CHR '' '' \<notin> set (show_nat n)" "CHR 0x00 \<notin> set (show_nat n)"
    using show_nat_digits [of "CHR '' ''" n] show_nat_digits [of "CHR 0x00" n] by auto
  moreover obtain c s where "show_nat n = c # s" by (rule show_nat_Cons)
  ultimately show ?thesis by (simp add: is_word_def)
qed

lemma show_d_of_nat: "n < 2 ^ 31 \<Longrightarrow> show_d (word_of_int (int n)) = show_nat n"
proof -
  assume n: "n < 2 ^ 31"
  then have "sint (word_of_int (int n) :: u32) = int n"
    by (simp only: sint_sbintrunc') (simp add: signed_take_bit_int_eq_self)
  then show ?thesis by (simp only: show_d_def show_int_def) simp
qed

end
