(* ===== verification/Db_Repl.thy ===== *)
theory Db_Repl
  imports Db_Sessions Db_Parse
begin

text \<open>
  The program from its command line to its output: a run of \<open>insert\<close> lines, \<open>select\<close> and \<open>.exit\<close>.
\<close>

section \<open>Definitions\<close>

type_synonym entry = "nat \<times> string \<times> string"

text \<open>The line a user types for an entry, and the line \<open>select\<close> prints for it.\<close>

definition insert_line :: "entry \<Rightarrow> string" where
  "insert_line e = (case e of (n, u, m) \<Rightarrow>
     ''insert '' @ show_nat n @ '' '' @ u @ '' '' @ m @ nl)"

definition entry_print :: "entry \<Rightarrow> string" where
  "entry_print e = (case e of (n, u, m) \<Rightarrow>
     ''('' @ show_nat n @ '', '' @ u @ '', '' @ m @ '')'' @ nl)"

definition entry_ok :: "entry \<Rightarrow> bool" where
  "entry_ok e \<longleftrightarrow> (case e of (n, u, m) \<Rightarrow>
     n < 2 ^ 31 \<and> is_word u \<and> length u \<le> 32 \<and> is_word m \<and> length m \<le> 32)"

definition row_of_entry :: "entry \<Rightarrow> Row \<Rightarrow> bool" where
  "row_of_entry e r \<longleftrightarrow> row_ok r \<and> row_id r = word_of_nat (fst e) \<and> row_print r = entry_print e"

section \<open>One line\<close>

lemma read_input_line:
  assumes "CHR 0x00 \<notin> set s"
  shows "read_input ((s @ nl) # rest) = Inr (\<lparr>buffer = s, input_length = int (length s)\<rparr>, rest)"
proof -
  have "takeWhile (\<lambda>c. c \<noteq> CHR 0x00) s = s" using assms by (simp add: takeWhile_eq_all_conv) metis
  then show ?thesis by (simp add: read_input_def nl_def del: takeWhile_eq_all_conv)
qed

lemma show_nat_no_nul: "CHR 0x00 \<notin> set (show_nat n)"
  using is_word_show_nat by (simp add: is_word_def)

lemma prepare_entry:
  assumes e: "entry_ok e" and st: "row_ok (row_insert st)"
  obtains r ib' where "row_of_entry e r"
    "prepare_statement \<lparr>buffer = butlast (insert_line e), input_length = n\<rparr> st =
      Inr (PREPARE_SUCCESS, ib', insert_statement r)"
proof -
  obtain k u m where e': "e = (k, u, m)" by (cases e)
  have k: "k < 2 ^ 31" and u: "is_word u" "length u \<le> 32" and m: "is_word m" "length m \<le> 32"
    using e by (simp_all add: entry_ok_def e')
  have a: "atoi (show_nat k) = int k" using atoi_show_nat [OF k] .
  obtain r where r: "prepare_statement
      \<lparr>buffer = ''insert '' @ show_nat k @ '' '' @ u @ '' '' @ m, input_length = n\<rparr> st =
      Inr (PREPARE_SUCCESS, \<lparr>buffer = ''insert'', input_length = n\<rparr>,
           \<lparr>stype = STATEMENT_INSERT, row_insert = r\<rparr>)"
    "row_ok r" "row_id r = word_of_int (atoi (show_nat k))" "bytes_str (username r) = u"
    "bytes_str (email r) = m"
    by (rule prepare_statement_insert [OF is_word_show_nat [of k] u m _ st]) (use a in simp)
  have "row_print r = entry_print e"
    using r(3-5) show_d_of_nat [OF k] by (simp add: row_print_def entry_print_def e' a nl_def)
  moreover have "butlast (insert_line e) = ''insert '' @ show_nat k @ '' '' @ u @ '' '' @ m"
    by (simp add: insert_line_def e' nl_def butlast_append)
  ultimately show ?thesis
    using that r by (simp add: row_of_entry_def e' a insert_statement_def)
qed

lemma one_leaf_print: "one_leaf (table_print s t) \<longleftrightarrow> one_leaf t"
  by (simp add: one_leaf_def root_leaf_def table_print_laws tfile_def)
    (simp add: table_print_def)

lemma root_cells_print: "root_cells (table_print s t) = root_cells t"
  by (simp add: root_cells_def table_print_laws)

definition executed :: string where
  "executed = ''db> Executed.'' @ nl"

lemma repl_insert:
  assumes e: "entry_ok e" and st: "\<forall>n. row_ok (row_insert (stack n))"
    and one: "one_leaf t" and cells: "root_cells t = map row_cell rs" and n: "length rs \<le> 54"
    and less: "\<forall>x \<in> set rs. row_id x < word_of_nat (fst e)"
  obtains r t' where "repl stack row (insert_line e # rest) t = repl stack row rest t'"
    "one_leaf t'" "row_of_entry e r" "root_cells t' = map row_cell (rs @ [r])"
    "tconsole t' = tconsole t @ executed"
proof -
  let ?t = "table_print ''db> '' t" and ?b = "butlast (insert_line e)"
  obtain k u m where e': "e = (k, u, m)" by (cases e)
  have line: "insert_line e = ?b @ nl" by (simp add: insert_line_def e' nl_def butlast_append)
  have "CHR 0x00 \<notin> set ?b"
    using e show_nat_no_nul by (simp add: insert_line_def e' nl_def butlast_append entry_ok_def is_word_def)
  then have read: "read_input (insert_line e # rest) =
      Inr (\<lparr>buffer = ?b, input_length = int (length ?b)\<rparr>, rest)"
    using read_input_line [of ?b rest] line by simp
  obtain r ib' where r: "row_of_entry e r"
    "prepare_statement \<lparr>buffer = ?b, input_length = int (length ?b)\<rparr> (stack (length rest)) =
      Inr (PREPARE_SUCCESS, ib', insert_statement r)"
    using prepare_entry [OF e st [rule_format]] .
  have meta: "\<not> is_meta_command \<lparr>buffer = ?b, input_length = int (length ?b)\<rparr>"
    by (simp add: is_meta_command_def insert_line_def e' nl_def butlast_append)
  have rok: "row_ok r" and lt: "\<forall>x \<in> set rs. row_id x < row_id r"
    using r(1) less by (simp_all add: row_of_entry_def)
  obtain t1 where t1: "execute_insert (insert_statement r) ?t = Inr (EXECUTE_SUCCESS, t1)"
    "one_leaf t1" "root_cells t1 = map row_cell (rs @ [r])" "tconsole t1 = tconsole ?t"
    by (rule insert_ascending [of ?t rs r])
      (use one cells rok lt n in \<open>simp_all add: one_leaf_print root_cells_print\<close>)
  have "repl_turn (stack (length rest)) (row (length rest))
      \<lparr>buffer = ?b, input_length = int (length ?b)\<rparr> ?t =
      Inr (Inr (table_print (execute_message EXECUTE_SUCCESS) t1))"
    using r(2) meta t1(1) by (simp add: repl_turn_def execute_statement_def insert_statement_def)
  then have "repl stack row (insert_line e # rest) t =
      repl stack row rest (table_print (execute_message EXECUTE_SUCCESS) t1)"
    using read by simp
  then show ?thesis
    by (rule that) (use t1 r(1) in \<open>simp_all add: one_leaf_print root_cells_print table_print_laws
        executed_def execute_message_def\<close>)
qed

lemma repl_inserts:
  assumes "\<forall>e \<in> set es. entry_ok e" and "sorted_wrt (<) (map fst es)"
    and "\<forall>n. row_ok (row_insert (stack n))"
    and "one_leaf t" and "root_cells t = map row_cell rs" and "length rs + length es \<le> 55"
    and "\<forall>x \<in> set rs. \<forall>e \<in> set es. row_id x < word_of_nat (fst e)"
  shows "\<exists>t' rs'. repl stack row (map insert_line es @ rest) t = repl stack row rest t' \<and>
    one_leaf t' \<and> root_cells t' = map row_cell (rs @ rs') \<and> list_all2 row_of_entry es rs' \<and>
    tconsole t' = tconsole t @ concat (replicate (length es) executed)"
  using assms
proof (induction es arbitrary: t rs)
  case Nil
  then show ?case by (intro exI [of _ t] exI [of _ "[]"]) simp
next
  case (Cons e es)
  obtain r t1 where t1: "repl stack row (insert_line e # map insert_line es @ rest) t =
      repl stack row (map insert_line es @ rest) t1"
    "one_leaf t1" "row_of_entry e r" "root_cells t1 = map row_cell (rs @ [r])"
    "tconsole t1 = tconsole t @ executed"
    by (rule repl_insert [of e stack t rs row "map insert_line es @ rest"])
      (use Cons.prems in simp_all)
  have "row_id r < word_of_nat (fst x)" if "x \<in> set es" for x
  proof -
    have "fst e < fst x" "fst x < 2 ^ 32"
      using that Cons.prems(1,2) by (auto simp: entry_ok_def)
    then have "(word_of_nat (fst e) :: u32) < word_of_nat (fst x)"
      by (simp add: word_less_nat_alt unat_of_nat)
    then show ?thesis using t1(3) by (simp add: row_of_entry_def)
  qed
  then obtain t' rs' where t': "repl stack row (map insert_line es @ rest) t1 = repl stack row rest t'"
    "one_leaf t'" "root_cells t' = map row_cell ((rs @ [r]) @ rs')" "list_all2 row_of_entry es rs'"
    "tconsole t' = tconsole t1 @ concat (replicate (length es) executed)"
    using Cons.IH [of t1 "rs @ [r]"] Cons.prems t1(2,4) by (auto simp: ball_Un)
  then show ?case
    using t1 by (intro exI [of _ t'] exI [of _ "r # rs'"]) simp
qed

section \<open>The whole program\<close>

lemma repl_select:
  assumes one: "one_leaf t" and cells: "root_cells t = map row_cell rs"
    and ok: "\<forall>r \<in> set rs. row_ok r" and row: "\<forall>n. row_ok (row n)"
  obtains t' where "repl stack row ((''select'' @ nl) # rest) t = repl stack row rest t'" "one_leaf t'"
    "tconsole t' = tconsole t @ ''db> '' @ concat (map row_print rs) @ ''Executed.'' @ nl"
proof -
  let ?t = "table_print ''db> '' t"
  have one': "one_leaf ?t" using one by (simp add: one_leaf_print)
  then have rl: "root_leaf ?t" and nx: "next_leaf (tview ?t 0) = 0" and ca: "cached ?t 0"
    by (simp_all add: one_leaf_def)
  obtain t1 where t1: "execute_select (row (length rest)) ?t = Inr (EXECUTE_SUCCESS, t1)"
    "t1 = table_print (cells_print (root_cells ?t)) ?t"
    using execute_select_root_leaf [OF rl nx, of "row (length rest)"] row ca by metis
  have read: "read_input ((''select'' @ nl) # rest) =
      Inr (\<lparr>buffer = ''select'', input_length = int (length ''select'')\<rparr>, rest)"
    by (rule read_input_line) simp
  have "repl_turn (stack (length rest)) (row (length rest))
      \<lparr>buffer = ''select'', input_length = int (length ''select'')\<rparr> ?t =
      Inr (Inr (table_print (execute_message EXECUTE_SUCCESS) t1))"
    using t1(1) by (simp add: repl_turn_def is_meta_command_def prepare_statement_def
        execute_statement_def)
  then have "repl stack row ((''select'' @ nl) # rest) t =
      repl stack row rest (table_print (execute_message EXECUTE_SUCCESS) t1)"
    using read by simp
  then show ?thesis
    by (rule that) (use one' t1(2) cells cells_print_rows [OF ok] in
        \<open>simp_all add: one_leaf_print root_cells_print table_print_laws execute_message_def\<close>)
qed

lemma repl_exit:
  assumes one: "one_leaf t"
  obtains fl where "repl stack row ((''.exit'' @ nl) # rest) t =
    Inr (fl, tconsole t @ ''db> Bye.'' @ nl)"
proof -
  let ?t = "table_print ''db> '' t"
  have "closable ?t" using one by (intro one_leaf_closable) (simp add: one_leaf_print)
  then obtain fl where fl: "db_close ?t = Inr (fl, tconsole ?t)"
    using close_open [of ?t "\<lambda>_. replicate 4096 0"] by fastforce
  have read: "read_input ((''.exit'' @ nl) # rest) =
      Inr (\<lparr>buffer = ''.exit'', input_length = int (length ''.exit'')\<rparr>, rest)"
    by (rule read_input_line) simp
  have "repl_turn (stack (length rest)) (row (length rest))
      \<lparr>buffer = ''.exit'', input_length = int (length ''.exit'')\<rparr> ?t =
      Inr (Inl (fl, tconsole ?t @ ''Bye.'' @ nl))"
    using fl by (simp add: repl_turn_def is_meta_command_def do_meta_command_def)
  then have "repl stack row ((''.exit'' @ nl) # rest) t = Inr (fl, tconsole ?t @ ''Bye.'' @ nl)"
    using read by simp
  then show ?thesis using that by (simp add: table_print_laws)
qed

lemma main_insert_select_exit:
  assumes es: "\<forall>e \<in> set es. entry_ok e" "sorted_wrt (<) (map fst es)" "length es \<le> 55"
    and fr: "\<forall>n. length (fr n) = 4096"
    and stack: "\<forall>n. row_ok (row_insert (stack n))" "\<forall>n. row_ok (row n)"
  shows "\<exists>fl. main [prog, name] (Some empty_file) True fr stack row
      (map insert_line es @ [''select'' @ nl, ''.exit'' @ nl]) =
    Inr (fl, ''Welcome to simple db.'' @ nl @ concat (replicate (length es) executed) @
      ''db> '' @ concat (map entry_print es) @ ''Executed.'' @ nl @ ''db> Bye.'' @ nl)"
proof -
  let ?w = "''Welcome to simple db.'' @ nl"
  obtain t0 where t0: "db_open name (Some empty_file) True fr ?w = Inr t0" "one_leaf t0"
    "root_cells t0 = []" "tconsole t0 = ?w"
    by (rule db_open_new [OF fr])
  obtain t1 rs where t1: "repl stack row (map insert_line es @ [''select'' @ nl, ''.exit'' @ nl]) t0 =
      repl stack row [''select'' @ nl, ''.exit'' @ nl] t1"
    "one_leaf t1" "root_cells t1 = map row_cell rs" "list_all2 row_of_entry es rs"
    "tconsole t1 = ?w @ concat (replicate (length es) executed)"
    using repl_inserts [OF es(1,2) stack(1) t0(2), of "[]" row "[''select'' @ nl, ''.exit'' @ nl]"]
      es(3) t0(3,4) by auto
  have ok: "\<forall>r \<in> set rs. row_ok r" and pr: "map row_print rs = map entry_print es"
    using t1(4) by (induction rule: list_all2_induct) (simp_all add: row_of_entry_def)
  obtain t2 where t2: "repl stack row ((''select'' @ nl) # [''.exit'' @ nl]) t1 =
      repl stack row [''.exit'' @ nl] t2" "one_leaf t2"
    "tconsole t2 = tconsole t1 @ ''db> '' @ concat (map row_print rs) @ ''Executed.'' @ nl"
    by (rule repl_select [OF t1(2,3) ok stack(2)])
  obtain fl where fl: "repl stack row ((''.exit'' @ nl) # []) t2 =
      Inr (fl, tconsole t2 @ ''db> Bye.'' @ nl)"
    by (rule repl_exit [OF t2(2)])
  have "main [prog, name] (Some empty_file) True fr stack row
      (map insert_line es @ [''select'' @ nl, ''.exit'' @ nl]) =
      Inr (fl, tconsole t2 @ ''db> Bye.'' @ nl)"
    unfolding main_def list.case t0(1) rbind_Inr t1(1) t2(1) fl ..
  moreover have "tconsole t2 @ ''db> Bye.'' @ nl = ?w @ concat (replicate (length es) executed) @
      ''db> '' @ concat (map entry_print es) @ ''Executed.'' @ nl @ ''db> Bye.'' @ nl"
    unfolding t2(3) t1(5) pr by simp
  ultimately show ?thesis by simp
qed

end
