(* ===== verification/Db_Properties.thy ===== *)
theory Db_Properties
  imports Db_Repl
begin

text \<open>The properties of simpledb, each with a concrete instance where it has hypotheses.\<close>

section \<open>Concrete data\<close>

definition zero_row :: Row where
  "zero_row = \<lparr>row_id = 0, username = replicate 33 0, email = replicate 33 0, padding = [0, 0]\<rparr>"

definition zero_blocks :: "nat \<Rightarrow> bytes" where
  "zero_blocks n = replicate 4096 0"

definition empty_leaf :: bytes where
  "empty_leaf = NODE_LEAF # replicate 4095 0"

lemma row_ok_zero [simp]: "row_ok zero_row" "row_ok (zero_row\<lparr>row_id := k\<rparr>)"
  by (simp_all add: row_ok_def zero_row_def row_layout)

lemma zero_blocks_length [simp]: "length (zero_blocks n) = 4096"
  by (simp add: zero_blocks_def)

lemma mem_slice_replicate: "mem_slice off n (replicate k x) = replicate (min n (k - off)) x"
  by (simp add: mem_slice_def)

lemma mem_slice_empty_leaf:
  "1 \<le> off \<Longrightarrow> off + n \<le> 4096 \<Longrightarrow> mem_slice off n empty_leaf = replicate n 0"
  by (rule nth_equalityI)
    (auto simp: mem_slice_def empty_leaf_def nth_Cons' min_def split: if_splits)

lemma empty_leaf_facts [simp]:
  "length empty_leaf = 4096" "leaf_count empty_leaf = 0" "leaf_ok empty_leaf"
proof -
  show l: "length empty_leaf = 4096" by (simp add: empty_leaf_def)
  have "of_le32 (replicate 4 0) = 0" by (simp add: of_le32_def numeral_eq_Suc)
  then show c: "leaf_count empty_leaf = 0" by (simp add: leaf_count_def mem_slice_empty_leaf)
  show "leaf_ok empty_leaf" using l c by (simp add: leaf_ok_def leaf_keys_def) (simp add: empty_leaf_def)
qed

section \<open>The whole program\<close>

text \<open>C1: Started on an empty file with up to 55 insert lines in ascending order of their ids, then
  \<open>select\<close> and \<open>.exit\<close>, the program executes every statement, prints the entries in the order of their
  ids exactly as typed, and exits successfully.\<close>

theorem main_prints_entries:
  assumes "\<forall>e \<in> set es. entry_ok e" and "sorted_wrt (<) (map fst es)" and "length es \<le> 55"
    and "\<forall>n. length (fr n) = 4096" and "\<forall>n. row_ok (row_insert (stack n))" and "\<forall>n. row_ok (row n)"
  shows "\<exists>fl. main [prog, name] (Some empty_file) True fr stack row
      (map insert_line es @ [''select'' @ nl, ''.exit'' @ nl]) =
    Inr (fl, ''Welcome to simple db.'' @ nl @ concat (replicate (length es) executed) @
      ''db> '' @ concat (map entry_print es) @ ''Executed.'' @ nl @ ''db> Bye.'' @ nl)"
  by (rule main_insert_select_exit [OF assms])

lemma main_prints_entries_witness:
  "\<exists>fl. main [''db'', ''my.db''] (Some empty_file) True zero_blocks
      (\<lambda>_. insert_statement zero_row) (\<lambda>_. zero_row)
      [''insert 3 ann a@b'' @ nl, ''insert 20 bob c@d'' @ nl, ''select'' @ nl, ''.exit'' @ nl] =
    Inr (fl, ''Welcome to simple db.'' @ nl @ ''db> Executed.'' @ nl @ ''db> Executed.'' @ nl @
      ''db> (3, ann, a@b)'' @ nl @ ''(20, bob, c@d)'' @ nl @ ''Executed.'' @ nl @ ''db> Bye.'' @ nl)"
proof -
  have rep: "replicate 2 x = [x, x]" for x :: string by (simp add: numeral_2_eq_2)
  have n: "show_nat 3 = ''3''" "show_nat 20 = ''20''"
    by (simp_all add: show_nat.simps char_of_def bit_0)
  show ?thesis
    using main_prints_entries [of "[(3, ''ann'', ''a@b''), (20, ''bob'', ''c@d'')]" zero_blocks
        "\<lambda>_. insert_statement zero_row" "\<lambda>_. zero_row" "''db''" "''my.db''"]
    by (simp add: entry_ok_def is_word_def insert_line_def entry_print_def n insert_statement_def
        executed_def rep)
qed

text \<open>C2: Inserting up to 56 rows in ascending order of their ids into a new database, so up to and
  with the insertion that splits the root leaf, succeeds for every row, and \<open>select\<close> then prints all
  rows in that order.\<close>

theorem insert_then_select:
  assumes "\<forall>n. length (fr n) = 4096" and "ascending_rows rs" and "length rs \<le> 56" and "row_ok row"
  shows "insert_select name fr row rs =
    Inr (replicate (length rs) EXECUTE_SUCCESS, EXECUTE_SUCCESS, concat (map row_print rs))"
proof (cases "length rs = 56")
  case True
  then show ?thesis using insert_select_split [OF assms(1,2) _ assms(4)] by blast
next
  case False
  with assms(3) have "length rs \<le> 55" by simp
  then show ?thesis using insert_select_one_leaf [OF assms(1,2) _ assms(4)] by blast
qed

definition numbered_rows :: "nat \<Rightarrow> Row list" where
  "numbered_rows n = map (\<lambda>i. zero_row\<lparr>row_id := word_of_nat i\<rparr>) [0..<n]"

lemma numbered_rows_ascending: "n \<le> 2 ^ 32 \<Longrightarrow> ascending_rows (numbered_rows n)"
  by (auto simp: ascending_rows_def numbered_rows_def sorted_wrt_iff_nth_less word_less_nat_alt
      unat_of_nat)

lemma length_numbered_rows [simp]: "length (numbered_rows n) = n"
  by (simp add: numbered_rows_def)

lemma insert_then_select_witness:
  "insert_select ''my.db'' zero_blocks zero_row (numbered_rows 56) =
    Inr (replicate 56 EXECUTE_SUCCESS, EXECUTE_SUCCESS, concat (map row_print (numbered_rows 56)))"
  using insert_then_select [of zero_blocks "numbered_rows 56" zero_row "''my.db''"]
  by (simp add: numbered_rows_ascending)

text \<open>C13: The rows survive \<open>db_close\<close> and \<open>db_open\<close>: after up to 55 insertions in ascending order,
  closing the database and opening its file again, whatever the fresh memory holds, \<open>select\<close> prints the
  same rows.\<close>

theorem insert_close_open_select:
  assumes "\<forall>n. length (fr n) = 4096" and "\<forall>n. length (fr' n) = 4096"
    and "ascending_rows rs" and "length rs \<le> 55" and "row_ok row"
  shows "insert_session name fr fr' row rs =
    Inr (replicate (length rs) EXECUTE_SUCCESS, EXECUTE_SUCCESS, concat (map row_print rs))"
  by (rule insert_session_rows [OF assms])

lemma insert_close_open_select_witness:
  "insert_session ''my.db'' zero_blocks (\<lambda>_. replicate 4096 1) zero_row (numbered_rows 55) =
    Inr (replicate 55 EXECUTE_SUCCESS, EXECUTE_SUCCESS, concat (map row_print (numbered_rows 55)))"
  using insert_close_open_select [of zero_blocks "\<lambda>_. replicate 4096 1" "numbered_rows 55" zero_row
      "''my.db''"]
  by (simp add: numbered_rows_ascending)

text \<open>C34: Closing a table whose pages are in the cache or in its file, on a working file system,
  and opening the file again gives a table with the same number of pages and the same contents of
  every page.\<close>

theorem close_open_keeps_pages:
  assumes "closable t" and "\<forall>n. length (fr n) = 4096"
  shows "\<exists>fl t'. db_close t = Inr (fl, tconsole t) \<and> db_open name (Some fl) True fr con = Inr t' \<and>
    root_page_num t' = 0 \<and> num_pages (pager t') = num_pages (pager t) \<and>
    (\<forall>n. n < num_pages (pager t) \<longrightarrow> tview t' n = tview t n)"
  using close_open [OF assms, of name con] by metis

definition one_page_table :: Table where
  "one_page_table = \<lparr>pager = \<lparr>file_descriptor = empty_file, file_length = 0, num_pages = 1,
     pages = Some empty_leaf # replicate 99 None, fresh = zero_blocks, console = []\<rparr>, root_page_num = 0\<rparr>"

lemma one_page_facts:
  "table_live one_page_table" "cached one_page_table 0" "tview one_page_table 0 = empty_leaf"
  "closable one_page_table" "root_leaf one_page_table"
proof -
  show live: "table_live one_page_table"
    by (auto simp: one_page_table_def table_live_def pager_live_def pager_ok_def empty_file_def
        pager_layout nth_Cons')
  show "cached one_page_table 0" and v: "tview one_page_table 0 = empty_leaf"
    by (simp_all add: one_page_table_def cached_def tview_def page_view_def)
  show "closable one_page_table"
    using live by (simp add: closable_def Let_def)
      (simp add: one_page_table_def empty_file_def TABLE_MAX_PAGES_def)
  show "root_leaf one_page_table"
    using live v by (simp add: root_leaf_def) (simp add: one_page_table_def)
qed

lemma close_open_keeps_pages_witness:
  "\<exists>fl t'. db_close one_page_table = Inr (fl, []) \<and>
    db_open ''my.db'' (Some fl) True zero_blocks [] = Inr t' \<and> tview t' 0 = empty_leaf"
proof -
  have "tconsole one_page_table = []" "num_pages (pager one_page_table) = 1"
    by (simp_all add: one_page_table_def tconsole_def)
  then show ?thesis
    using close_open_keeps_pages [of one_page_table zero_blocks "''my.db''" "[]"] one_page_facts
    by fastforce
qed

section \<open>The tree\<close>

text \<open>On a table whose root is a leaf with room, \<open>execute_insert\<close> rejects the id of a stored row
  as a duplicate without changing any page, and otherwise inserts the row before the first cell with a
  larger key; the copy of the row runs over by one byte, which replaces the low byte of the key of the
  next cell.\<close>

theorem execute_insert_leaf_cells:
  assumes "root_leaf t" and "cached t 0" and "leaf_count (tview t 0) \<le> 54" and "row_ok r"
  shows "\<exists>res t'. execute_insert (insert_statement r) t = Inr (res, t') \<and>
    (if row_id r \<in> set (root_keys t) then res = EXECUTE_DUPLICATE_KEY \<and> t' = t
     else res = EXECUTE_SUCCESS \<and> root_cells t' = insert_cell
       (first_ge (key_at (tview t 0)) (leaf_count (tview t 0)) (row_id r)) (row_id r) r (root_cells t))"
  by (rule execute_insert_leaf [OF assms])

lemma execute_insert_leaf_cells_witness:
  "\<exists>t'. execute_insert (insert_statement zero_row) one_page_table = Inr (EXECUTE_SUCCESS, t') \<and>
    root_cells t' = [(0, row_value zero_row)]"
proof -
  have "root_keys one_page_table = []" "root_cells one_page_table = []"
    by (simp_all add: root_keys_def root_cells_def one_page_facts leaf_keys_def leaf_cells_def)
  then show ?thesis
    using execute_insert_leaf_cells [of one_page_table zero_row] one_page_facts
    by (auto simp: insert_cell_def overrun_hd_def first_ge_def) (simp add: zero_row_def)
qed


definition full_leaf :: bytes where
  "full_leaf = mem_splice 6 (le32 55) (replicate 4096 0)"

lemma full_leaf_facts: "length full_leaf = 4096" "leaf_count full_leaf = 55"
  by (simp_all add: full_leaf_def leaf_count_def splice_le32_read)


text \<open>C15: The binary search of \<open>leaf_node_find\<close> returns, on every well-formed leaf, the position of
  the first cell whose key is not smaller than the key looked for, and so the cell of the key when the
  leaf holds it.\<close>

theorem leaf_find_lower_bound:
  assumes "leaf_ok node"
  shows "\<exists>c. leaf_find_cell node key = Inr c \<and>
    unat c = length (takeWhile (\<lambda>k. k < key) (leaf_keys node)) \<and>
    (key \<in> set (leaf_keys node) \<longleftrightarrow> unat c < leaf_count node \<and> key_at node (unat c) = key)"
  by (rule leaf_find_cell_position [OF assms])

lemma leaf_find_lower_bound_witness: "leaf_find_cell empty_leaf 7 = Inr 0"
proof -
  have "leaf_keys empty_leaf = []" by (simp add: leaf_keys_def)
  then show ?thesis using leaf_find_lower_bound [of empty_leaf 7] by (auto simp: unat_eq_0)
qed

text \<open>The search loop ends on every page, well formed or not, also with a corrupt cell count.\<close>

theorem leaf_find_terminates:
  assumes "length node = 4096"
  shows "leaf_find_cell node key \<noteq> Inl C_Fuel"
  by (rule leaf_find_cell_no_fuel [OF assms])

lemma leaf_find_terminates_witness: "leaf_find_cell (replicate 4096 255) 7 \<noteq> Inl C_Fuel"
  using leaf_find_terminates [of "replicate 4096 255" 7] by simp

text \<open>C33: From the first cell of a chain of distinct leaves, the loop of \<open>select\<close> prints the row of
  every cell of the chain in order, ends, and changes no page.\<close>

theorem select_prints_chain:
  assumes "leaf_chain t ns" and "distinct ns" and "table_live t" and "row_ok row"
  shows "\<exists>t'. select_loop select_fuel row (at_cell (hd ns) 0) t = Inr t' \<and> same_pages t t' \<and>
    tconsole t' = tconsole t @ cells_print (chain_cells t ns)"
  using select_chain_fuel [OF assms] by metis

definition full_page_table :: Table where
  "full_page_table = set_page one_page_table 0 full_leaf"

lemma select_prints_chain_witness:
  "\<exists>t'. select_loop select_fuel zero_row (at_cell 0 0) full_page_table = Inr t' \<and>
    tconsole t' = cells_print (leaf_cells full_leaf)"
proof -
  note sp = set_page_laws [OF one_page_facts(1) valid_page_0 one_page_facts(2) full_leaf_facts(1),
      folded full_page_table_def]
  have "next_leaf full_leaf = 0"
    by (simp add: next_leaf_def full_leaf_def mem_slice_splice_disjoint mem_slice_replicate)
      (simp add: of_le32_def numeral_eq_Suc)
  then have ch: "leaf_chain full_page_table [0]"
    using sp(2) [OF valid_page_0] full_leaf_facts by simp
  have "tconsole one_page_table = []" by (simp add: tconsole_def one_page_table_def)
  then show ?thesis
    using select_prints_chain [OF ch _ sp(1), of zero_row] sp(2) [OF valid_page_0] sp(5)
    by (simp add: chain_cells_def) blast
qed

section \<open>Pages and rows\<close>

text \<open>C14: The page cache is transparent: \<open>pager_get_page\<close> returns for every valid number the page the
  table sees there, loading it when needed, and every page looks the same afterwards.\<close>

theorem pager_get_page_transparent:
  assumes "pager_live p" and "unat n < TABLE_MAX_PAGES"
  shows "\<exists>p'. pager_get_page p n = Inr (page_view p n, p') \<and> pager_live p' \<and>
    (\<forall>m. unat m < TABLE_MAX_PAGES \<longrightarrow> page_view p' m = page_view p m)"
  by (rule cache.get_view [OF assms])

lemma pager_get_page_transparent_witness:
  "\<exists>p'. pager_get_page (pager one_page_table) 1 = Inr (zero_blocks 1, p') \<and> page_view p' 0 = empty_leaf"
proof -
  have p: "pager_live (pager one_page_table)" using one_page_facts(1) by (simp add: table_live_def)
  have "page_view (pager one_page_table) 1 = zero_blocks 1"
    "page_view (pager one_page_table) 0 = empty_leaf"
    by (simp_all add: page_view_def one_page_table_def disk_page_def PAGE_SIZE_def file_read_def
        empty_file_def Let_def)
  then show ?thesis
    using pager_get_page_transparent [OF p, of 1] by (auto simp: TABLE_MAX_PAGES_def)
qed

text \<open>A request for a page number that is not below \<open>TABLE_MAX_PAGES\<close> ends the program with a
  message, whatever the state of the pager.\<close>

theorem pager_get_page_bound:
  assumes "100 \<le> unat n"
  shows "\<exists>msg. pager_get_page p n = Inl (C_Exit msg)"
  using pager_get_page_out_of_bounds [of n p] assms by (simp add: TABLE_MAX_PAGES_def)

lemma pager_get_page_bound_witness: "\<exists>msg. pager_get_page (pager one_page_table) 100 = Inl (C_Exit msg)"
  using pager_get_page_bound [of 100 "pager one_page_table"] by simp

text \<open>A row written to a buffer and read back into any row is the row that was written, up to the
  last padding byte of the struct.\<close>

theorem row_write_read:
  assumes "row_ok r" and "row_ok r0" and "base + 71 \<le> length m"
  shows "rbind (row_write_to_buffer r m base) (\<lambda>m. row_read_from_buffer m base r0) =
    Inr (r\<lparr>padding := [padding r ! 0, padding r0 ! 1]\<rparr>)"
  by (rule row_write_then_read [OF assms])

lemma row_write_read_witness:
  "rbind (row_write_to_buffer (zero_row\<lparr>row_id := 5\<rparr>) (replicate 100 3) 20)
     (\<lambda>m. row_read_from_buffer m 20 zero_row) = Inr (zero_row\<lparr>row_id := 5\<rparr>)"
  using row_write_read [of "zero_row\<lparr>row_id := 5\<rparr>" zero_row 20 "replicate 100 3"]
  by simp (simp add: zero_row_def)

text \<open>\<open>row_write_to_buffer\<close> writes one byte more than \<open>ROW_SIZE\<close>: the byte behind the serialised
  row becomes the first padding byte of the struct, and no other byte outside the row changes.\<close>

theorem row_write_overruns:
  assumes "row_ok r" and "base + 71 \<le> length m"
  shows "\<exists>m'. row_write_to_buffer r m base = Inr m' \<and> length m' = length m \<and>
    m' ! (base + ROW_SIZE) = padding r ! 0 \<and>
    (\<forall>i < length m. i < base \<or> base + ROW_SIZE < i \<longrightarrow> m' ! i = m ! i)"
  by (rule row_write_overrun [OF assms])

lemma row_write_overruns_witness:
  "\<exists>m'. row_write_to_buffer zero_row (replicate 100 3) 20 = Inr m' \<and> m' ! 90 = 0"
  using row_write_overruns [of zero_row 20 "replicate 100 3"]
  by (auto simp: ROW_SIZE_eq) (simp add: zero_row_def)

text \<open>In an internal node with enough keys, the slot of child \<open>c + 2\<close> is the slot of key \<open>c\<close>:
  storing the child's page number changes the key.\<close>

theorem internal_child_overwrites_key:
  assumes "length node = 4096" and "mem_load32 node internal_node_num_keys = Inr n"
    and "unat c + 2 < unat n" and "unat n \<le> 500"
  shows "\<exists>off node'. internal_node_child node (c + 2) = Inr off \<and>
    mem_store32 node off v = Inr node' \<and> mem_load32 node' (internal_node_key c) = Inr v"
  by (rule internal_child_key_overlap [OF assms])

lemma internal_child_overwrites_key_witness:
  "\<exists>off node'. internal_node_child (mem_splice 6 (le32 3) (replicate 4096 0)) 2 = Inr off \<and>
    mem_store32 (mem_splice 6 (le32 3) (replicate 4096 0)) off 9 = Inr node' \<and>
    mem_load32 node' (internal_node_key 0) = Inr 9"
  using internal_child_overwrites_key [of "mem_splice 6 (le32 3) (replicate 4096 0)" 3 0 9]
  by (simp add: internal_node_offsets splice_le32_read)

section \<open>Statements\<close>

text \<open>An insert line of three words sets the statement to an insertion and answers with the
  first error in the order negative id, string too long; without an error the row gets the id and the
  two strings, and with one it keeps what it had.\<close>

theorem prepare_insert_line:
  assumes "is_word i" and "is_word u" and "is_word e" and "row_ok (row_insert st)"
  shows "\<exists>r ib'. prepare_statement
      \<lparr>buffer = ''insert '' @ i @ '' '' @ u @ '' '' @ e, input_length = n\<rparr> st =
    Inr (if atoi i < 0 then PREPARE_NEGATIVE_ID
         else if 32 < length u \<or> 32 < length e then PREPARE_STRING_TOO_LONG else PREPARE_SUCCESS,
         ib', \<lparr>stype = STATEMENT_INSERT, row_insert = r\<rparr>) \<and> row_ok r \<and>
    (if atoi i < 0 \<or> 32 < length u \<or> 32 < length e then r = row_insert st
     else row_id r = word_of_int (atoi i) \<and> bytes_str (username r) = u \<and> bytes_str (email r) = e)"
  by (rule prepare_statement_insert_cases [OF assms])

lemma prepare_insert_line_witness:
  "\<exists>r ib'. prepare_statement \<lparr>buffer = ''insert -1 bob c@d'', input_length = 17\<rparr>
      (insert_statement zero_row) = Inr (PREPARE_NEGATIVE_ID, ib', insert_statement zero_row)"
proof -
  have "atoi ''-1'' < 0"
    by (simp add: atoi_def strtol10_def isspace_def digit_val_def Let_def)
  then show ?thesis
    using prepare_insert_line [of "''-1''" "''bob''" "''c@d''" "insert_statement zero_row" 17]
    by (auto simp: is_word_def insert_statement_def)
qed

end
