(* ===== verification/Linked_List.thy ===== *)
theory Linked_List
  imports C_Prelude
begin

text \<open>
  Circular doubly linked lists in an explicit store, the data structure behind \<open>list_head\<close> of tcpip
  and \<open>list_node\<close> of workthread: the two pointer members as maps on addresses, the abstraction to a HOL
  list, and the contract of a queue that the two implementations share.
\<close>

section \<open>Stores and segments\<close>

record lheap =
  nxt :: "nat \<Rightarrow> nat"
  prv :: "nat \<Rightarrow> nat"

abbreviation set_nxt :: "nat \<Rightarrow> nat \<Rightarrow> lheap \<Rightarrow> lheap" where
  "set_nxt a v h \<equiv> h\<lparr>nxt := (nxt h)(a := v)\<rparr>"

abbreviation set_prv :: "nat \<Rightarrow> nat \<Rightarrow> lheap \<Rightarrow> lheap" where
  "set_prv a v h \<equiv> h\<lparr>prv := (prv h)(a := v)\<rparr>"

text \<open>From \<open>a\<close> over the nodes of the list to \<open>b\<close>, in both directions.\<close>

fun seg :: "lheap \<Rightarrow> nat \<Rightarrow> nat list \<Rightarrow> nat \<Rightarrow> bool" where
  "seg h a [] b \<longleftrightarrow> nxt h a = b \<and> prv h b = a"
| "seg h a (x # xs) b \<longleftrightarrow> nxt h a = x \<and> prv h x = a \<and> seg h x xs b"

text \<open>The list with head node \<open>head\<close> and the given items.\<close>

definition dlist :: "lheap \<Rightarrow> nat \<Rightarrow> nat list \<Rightarrow> bool" where
  "dlist h head xs \<longleftrightarrow> distinct (head # xs) \<and> seg h head xs head"

text \<open>The loop over a list: the nodes from \<open>pos\<close> up to the head, for at most the given number.\<close>

fun walk :: "nat \<Rightarrow> (nat \<Rightarrow> nat) \<Rightarrow> nat \<Rightarrow> nat \<Rightarrow> nat list option" where
  "walk 0 f pos head = None"
| "walk (Suc fuel) f pos head =
     (if pos = head then Some [] else map_option (Cons pos) (walk fuel f (f pos) head))"

section \<open>Lemmas\<close>

lemma seg_append: "seg h a (xs @ y # ys) b \<longleftrightarrow> seg h a xs y \<and> seg h y ys b"
  by (induction xs arbitrary: a) auto

lemma seg_cong:
  "(\<And>y. y \<in> set (a # xs) \<Longrightarrow> nxt h' y = nxt h y) \<Longrightarrow> (\<And>y. y \<in> set (xs @ [b]) \<Longrightarrow> prv h' y = prv h y) \<Longrightarrow>
   seg h' a xs b \<longleftrightarrow> seg h a xs b"
  by (induction xs arbitrary: a) simp_all

lemma seg_first: "seg h a xs b \<Longrightarrow> nxt h a = hd (xs @ [b])"
  by (cases xs) simp_all

lemma seg_last: "seg h a xs b \<Longrightarrow> prv h b = last (a # xs)"
  by (induction xs arbitrary: a) auto

lemma seg_rev: "seg h a xs b \<Longrightarrow> seg \<lparr>nxt = prv h, prv = nxt h\<rparr> b (rev xs) a"
proof (induction xs arbitrary: a)
  case (Cons x xs)
  then have "seg \<lparr>nxt = prv h, prv = nxt h\<rparr> b (rev xs) x" "nxt h a = x" "prv h x = a" by simp_all
  then show ?case using seg_append [of _ b "rev xs" x "[]" a] by simp
qed simp

lemma dlist_first: "dlist h head xs \<Longrightarrow> nxt h head = (case xs of [] \<Rightarrow> head | x # _ \<Rightarrow> x)"
  by (cases xs) (simp_all add: dlist_def)

lemma dlist_empty: "dlist h head xs \<Longrightarrow> nxt h head = head \<longleftrightarrow> xs = []"
  by (cases xs) (auto simp: dlist_def)

lemma walk_seg:
  "seg h a xs b \<Longrightarrow> b \<notin> set xs \<Longrightarrow> length xs < fuel \<Longrightarrow> walk fuel (nxt h) (nxt h a) b = Some xs"
proof (induction xs arbitrary: a fuel)
  case Nil
  then show ?case by (cases fuel) simp_all
next
  case (Cons x xs)
  then obtain fuel' where "fuel = Suc fuel'" "length xs < fuel'" by (cases fuel) simp_all
  with Cons show ?case by simp
qed

lemma walk_dlist:
  "dlist h head xs \<Longrightarrow> length xs < fuel \<Longrightarrow> walk fuel (nxt h) (nxt h head) head = Some xs"
  using walk_seg [of h head xs head fuel] by (simp add: dlist_def)

lemma dlist_reverse: "dlist h head xs \<Longrightarrow> dlist \<lparr>nxt = prv h, prv = nxt h\<rparr> head (rev xs)"
  by (simp add: dlist_def seg_rev)

text \<open>Linking a new node before \<open>p\<close>, and unlinking a node.\<close>

lemma seg_link:
  assumes "seg h a us p" and "distinct (a # us)" and "p \<notin> set us" and "new \<notin> set (a # us)" and "new \<noteq> p"
    and h': "nxt h' = (nxt h)(prv h p := new, new := p)" "prv h' = (prv h)(new := prv h p, p := new)"
  shows "seg h' a (us @ [new]) p"
proof (cases us rule: rev_cases)
  case Nil
  then show ?thesis using assms by simp
next
  case (snoc ws q)
  have q: "prv h p = q" using seg_last [OF assms(1)] snoc by simp
  have s: "seg h a ws q" using assms(1) snoc seg_append [of h a ws q "[]" p] by simp
  have "seg h' a ws q \<longleftrightarrow> seg h a ws q"
    by (rule seg_cong) (use assms(2-5) snoc q in \<open>auto simp: h'\<close>)
  then have "seg h' a ws q" using s by simp
  moreover have "seg h' q [new] p" using assms(5) q snoc assms(4) by (auto simp: h')
  ultimately show ?thesis using snoc seg_append [of h' a ws q "[new]" p] by simp
qed

lemma dlist_link:
  assumes d: "dlist h head (us @ vs)" and new: "new \<notin> set (head # us @ vs)"
    and p: "p = (case vs of [] \<Rightarrow> head | v # _ \<Rightarrow> v)"
    and h': "nxt h' = (nxt h)(prv h p := new, new := p)" "prv h' = (prv h)(new := prv h p, p := new)"
  shows "dlist h' head (us @ new # vs)"
proof (cases vs)
  case Nil
  have "seg h' head (us @ [new]) head"
    by (rule seg_link) (use assms Nil in \<open>auto simp: dlist_def\<close>)
  then show ?thesis using d new Nil by (auto simp: dlist_def)
next
  case (Cons v ws)
  have s: "seg h head us v" "seg h v ws head" and dist: "distinct (head # us @ v # ws)"
    using d Cons by (auto simp: dlist_def seg_append)
  have pv: "p = v" using p Cons by simp
  have "seg h' head (us @ [new]) v"
    by (rule seg_link [OF s(1)]) (use dist new Cons pv h' in auto)
  moreover have "prv h v = last (head # us)" by (rule seg_last [OF s(1)])
  then have q: "prv h v \<in> set (head # us)" by (metis last_in_set list.distinct(1))
  have "seg h' v ws head \<longleftrightarrow> seg h v ws head"
    by (rule seg_cong) (use dist new Cons pv q in \<open>auto simp: h'\<close>)
  ultimately have "seg h' head ((us @ [new]) @ v # ws) head"
    using s(2) by (simp only: seg_append)
  then show ?thesis using dist new Cons by (auto simp: dlist_def)
qed

lemma dlist_unlink:
  assumes d: "dlist h head (us @ e # vs)"
    and h': "nxt h' = (nxt h)(prv h e := nxt h e)" "prv h' = (prv h)(nxt h e := prv h e)"
  shows "dlist h' head (us @ vs)"
proof -
  have s: "seg h head us e" "seg h e vs head" and dist: "distinct (head # us @ e # vs)"
    using d by (auto simp: dlist_def seg_append)
  let ?n = "hd (vs @ [head])" and ?p = "last (head # us)"
  have n: "nxt h e = ?n" by (rule seg_first [OF s(2)])
  have p: "prv h e = ?p" by (rule seg_last [OF s(1)])
  have pin: "?p \<in> set (head # us)" by (rule last_in_set) simp
  have joint: "seg h' ?p vs head"
  proof (cases vs)
    case Nil
    then show ?thesis using n p by (simp add: h')
  next
    case (Cons v ws)
    have "seg h' v ws head \<longleftrightarrow> seg h v ws head"
      by (rule seg_cong) (use dist Cons n p pin in \<open>auto simp: h' simp del: last.simps\<close>)
    then show ?thesis using s(2) Cons n p by (simp add: h')
  qed
  have "seg h' head (us @ vs) head"
  proof (cases us rule: rev_cases)
    case Nil
    then show ?thesis using joint by simp
  next
    case (snoc ws q)
    have "seg h head ws q" using s(1) snoc seg_append [of h head ws q "[]" e] by simp
    moreover have "seg h' head ws q \<longleftrightarrow> seg h head ws q"
    proof (rule seg_cong)
      show "nxt h' y = nxt h y" if "y \<in> set (head # ws)" for y
        using that dist snoc p by (auto simp: h')
      have "?n = head \<or> ?n \<in> set vs" by (cases vs) simp_all
      then show "prv h' y = prv h y" if "y \<in> set (ws @ [q])" for y
        using that dist snoc n by (auto simp: h')
    qed
    ultimately show ?thesis using joint snoc seg_append [of h' head ws q vs head] by simp
  qed
  then show ?thesis using dist by (simp add: dlist_def)
qed

section \<open>The queue both programs rely on\<close>

text \<open>
  A queue kept in a store: \<open>items h head\<close> is the sequence held, \<open>enq\<close> appends a node that is not in it,
  \<open>deq\<close> unlinks the first node.
\<close>

locale linked_queue =
  fixes holds :: "'h \<Rightarrow> nat \<Rightarrow> nat list \<Rightarrow> bool"
    and first :: "'h \<Rightarrow> nat \<Rightarrow> nat"
    and enq :: "nat \<Rightarrow> nat \<Rightarrow> 'h \<Rightarrow> 'h"
    and unlink :: "nat \<Rightarrow> 'h \<Rightarrow> 'h"
  assumes enq_holds: "holds h head xs \<Longrightarrow> n \<notin> set (head # xs) \<Longrightarrow> holds (enq n head h) head (xs @ [n])"
    and first_holds: "holds h head (x # xs) \<Longrightarrow> first h head = x"
    and unlink_holds: "holds h head (us @ x # vs) \<Longrightarrow> holds (unlink x h) head (us @ vs)"
begin

lemma enq_all:
  "holds h head xs \<Longrightarrow> distinct (head # xs @ ns) \<Longrightarrow> holds (foldl (\<lambda>h n. enq n head h) h ns) head (xs @ ns)"
proof (induction ns arbitrary: h xs)
  case (Cons n ns)
  then have "holds (enq n head h) head (xs @ [n])" by (intro enq_holds) auto
  from Cons.IH [OF this] Cons.prems(2) show ?case by simp
qed simp

lemma deq: "holds h head (x # xs) \<Longrightarrow> first h head = x \<and> holds (unlink (first h head) h) head xs"
  using first_holds unlink_holds [of h head "[]" x xs] by simp

text \<open>First in, first out.\<close>

lemma fifo:
  assumes "holds h head []" and "distinct (head # n # ns)"
  shows "first (foldl (\<lambda>h n. enq n head h) h (n # ns)) head = n"
    and "holds (unlink n (foldl (\<lambda>h n. enq n head h) h (n # ns))) head ns"
proof -
  have "holds (foldl (\<lambda>h n. enq n head h) h (n # ns)) head (n # ns)"
    using enq_all [OF assms(1), of "n # ns"] assms(2) by simp
  note d = deq [OF this]
  then show f: "first (foldl (\<lambda>h n. enq n head h) h (n # ns)) head = n" by (rule conjunct1)
  show "holds (unlink n (foldl (\<lambda>h n. enq n head h) h (n # ns))) head ns"
    using d unfolding f by (rule conjunct2)
qed

end

end
