(* ===== verification/Net_Utils.thy ===== *)
theory Net_Utils
  imports Linked_List
begin

text \<open>
  tcpip's \<open>utils.h\<close> and \<open>utils.c\<close>: the list operations on the store of \<open>Linked_List\<close>, and the
  Internet checksum.
\<close>

section \<open>Definitions\<close>

subsection \<open>Lists\<close>

definition list_init :: "nat \<Rightarrow> lheap \<Rightarrow> lheap" where
  "list_init head h = set_prv head head (set_nxt head head h)"

definition list_add :: "nat \<Rightarrow> nat \<Rightarrow> lheap \<Rightarrow> lheap" where
  "list_add new head h =
     (let h = set_prv (nxt h head) new h;
          h = set_nxt new (nxt h head) h;
          h = set_prv new head h
      in set_nxt head new h)"

definition list_add_tail :: "nat \<Rightarrow> nat \<Rightarrow> lheap \<Rightarrow> lheap" where
  "list_add_tail new head h =
     (let h = set_nxt (prv h head) new h;
          h = set_prv new (prv h head) h;
          h = set_nxt new head h
      in set_prv head new h)"

definition list_del :: "nat \<Rightarrow> lheap \<Rightarrow> lheap" where
  "list_del elem h =
     (let prev = prv h elem; next = nxt h elem;
          h = set_nxt prev next h
      in set_prv next prev h)"

text \<open>\<open>list_first_entry\<close>, the nodes \<open>list_for_each\<close> visits, and \<open>list_empty\<close>.\<close>

definition list_first :: "lheap \<Rightarrow> nat \<Rightarrow> nat" where
  "list_first h head = nxt h head"

definition list_for_each :: "nat \<Rightarrow> lheap \<Rightarrow> nat \<Rightarrow> nat list option" where
  "list_for_each fuel h head = walk fuel (nxt h) (nxt h head) head"

definition list_empty :: "lheap \<Rightarrow> nat \<Rightarrow> bool" where
  "list_empty h head \<longleftrightarrow> nxt h head = head"

subsection \<open>Checksum\<close>

text \<open>\<open>sum_every_16bits\<close> over the bytes at the address, little-endian words, an odd byte alone.\<close>

fun sum_every_16bits :: "u32 \<Rightarrow> bytes \<Rightarrow> u32" where
  "sum_every_16bits s (a # b # bs) = sum_every_16bits (s + ucast (of_le16 [a, b])) bs"
| "sum_every_16bits s [a] = s + ucast a"
| "sum_every_16bits s [] = s"

lemma unat_low16: "unat (w AND 0xffff :: u32) = unat w mod 65536"
proof -
  have "w AND 0xffff = take_bit 16 w" by (simp add: take_bit_eq_mask mask_eq_exp_minus_1)
  then have "unat (w AND 0xffff) = take_bit 16 (unat w)" by (simp only: unsigned_take_bit_eq)
  then show ?thesis by (simp add: take_bit_eq_mod)
qed

lemma unat_high16: "unat (drop_bit 16 w :: u32) = unat w div 65536"
  by (simp add: drop_bit_eq_div unat_div)

lemma unat_fold_step:
  "unat ((w AND 0xffff) + drop_bit 16 w :: u32) = unat w mod 65536 + unat w div 65536"
proof -
  have "unat w < 2 ^ 32" using unsigned_less [of w] by simp
  then have "unat w mod 65536 + unat w div 65536 < 2 ^ 32" by linarith
  then show ?thesis
    by (subst unat_add_lem [THEN iffD1]) (simp_all add: unat_low16 unat_high16)
qed

function fold_sum :: "u32 \<Rightarrow> u32" where
  "fold_sum s = (if drop_bit 16 s \<noteq> 0 then fold_sum ((s AND 0xffff) + drop_bit 16 s) else s)"
  by pat_completeness auto

termination
proof (relation "measure unat")
  fix w :: u32
  assume "drop_bit 16 w \<noteq> 0"
  then have "unat w div 65536 \<noteq> 0" using unat_high16 [of w] unat_eq_0 [of "drop_bit 16 w"] by metis
  moreover have "unat w = 65536 * (unat w div 65536) + unat w mod 65536" by simp
  ultimately have "unat w mod 65536 + unat w div 65536 < unat w" by linarith
  then show "((w AND 0xffff) + drop_bit 16 w, w) \<in> measure unat" by (simp add: unat_fold_step)
qed simp

declare fold_sum.simps [simp del]

definition checksum :: "bytes \<Rightarrow> u32 \<Rightarrow> u16" where
  "checksum addr start_sum = ucast (NOT (fold_sum (start_sum + sum_every_16bits 0 addr)))"

section \<open>The list operations\<close>

lemma list_init_dlist: "dlist (list_init head h) head []"
  by (simp add: dlist_def list_init_def)

lemma list_add_dlist:
  assumes d: "dlist h head xs" and new: "new \<notin> set (head # xs)"
  shows "dlist (list_add new head h) head (new # xs)"
proof -
  let ?p = "case xs of [] \<Rightarrow> head | v # _ \<Rightarrow> v"
  have n: "nxt h head = ?p" using dlist_first [OF d] .
  have q: "prv h ?p = head" using d by (cases xs) (simp_all add: dlist_def)
  have "dlist (list_add new head h) head ([] @ new # xs)"
  proof (rule dlist_link [where h = h and p = ?p])
    show "nxt (list_add new head h) = (nxt h)(prv h ?p := new, new := ?p)"
      using new q n by (auto simp: list_add_def Let_def fun_eq_iff)
    show "prv (list_add new head h) = (prv h)(new := prv h ?p, ?p := new)"
      using new q n by (auto simp: list_add_def Let_def fun_eq_iff split: list.splits)
  qed (use d new in simp_all)
  then show ?thesis by simp
qed

lemma list_add_tail_dlist:
  assumes d: "dlist h head (us @ vs)" and new: "new \<notin> set (head # us @ vs)"
    and p: "p = (case vs of [] \<Rightarrow> head | v # _ \<Rightarrow> v)"
  shows "dlist (list_add_tail new p h) head (us @ new # vs)"
proof (rule dlist_link [OF d new p])
  have "new \<noteq> p" using new p by (auto split: list.splits)
  then show "nxt (list_add_tail new p h) = (nxt h)(prv h p := new, new := p)"
    "prv (list_add_tail new p h) = (prv h)(new := prv h p, p := new)"
    by (auto simp: list_add_tail_def Let_def fun_eq_iff)
qed

lemma list_del_dlist:
  assumes "dlist h head (us @ e # vs)"
  shows "dlist (list_del e h) head (us @ vs)"
  by (rule dlist_unlink [OF assms]) (simp_all add: list_del_def Let_def)

interpretation net_queue: linked_queue dlist list_first "\<lambda>n head. list_add_tail n head" list_del
proof unfold_locales
  show "dlist (list_add_tail n head h) head (xs @ [n])"
    if "dlist h head xs" "n \<notin> set (head # xs)" for h head xs n
    using list_add_tail_dlist [of h head xs "[]" n head] that by simp
qed (simp_all add: list_first_def dlist_first list_del_dlist)

section \<open>The checksum\<close>

lemma unat16_less: "unat (w :: u16) < 65536"
  using unsigned_less [of w] by simp

lemma unat8_less: "unat (w :: u8) < 256"
  using unsigned_less [of w] by simp

text \<open>The sum of the words as a natural number.\<close>

fun word_sum :: "bytes \<Rightarrow> nat" where
  "word_sum (a # b # bs) = unat (of_le16 [a, b]) + word_sum bs"
| "word_sum [a] = unat a"
| "word_sum [] = 0"

lemma word_sum_bound: "word_sum bs \<le> 65535 * length bs"
proof (induction bs rule: word_sum.induct)
  case (1 a b bs)
  have "unat (of_le16 [a, b]) < 65536" by (rule unat16_less)
  with 1 show ?case by simp
next
  case (2 a)
  show ?case using unat8_less [of a] by simp
qed simp

lemma word_sum_append: "even (length xs) \<Longrightarrow> word_sum (xs @ ys) = word_sum xs + word_sum ys"
  by (induction xs rule: word_sum.induct) simp_all

lemma unat_sum_every_16bits:
  "unat s + word_sum bs < 2 ^ 32 \<Longrightarrow> unat (sum_every_16bits s bs) = unat s + word_sum bs"
proof (induction bs arbitrary: s rule: word_sum.induct)
  case (1 a b bs)
  have u: "unat (ucast (of_le16 [a, b]) :: u32) = unat (of_le16 [a, b])"
    using unat16_less [of "of_le16 [a, b]"] by (simp add: unsigned_ucast_eq take_bit_nat_eq_self)
  have "unat (s + ucast (of_le16 [a, b])) = unat s + unat (of_le16 [a, b])"
    using 1(2) u by (subst unat_add_lem [THEN iffD1]) simp_all
  with 1 show ?case by simp
next
  case (2 a)
  have u: "unat (ucast a :: u32) = unat a"
    using unat8_less [of a] by (simp add: unsigned_ucast_eq take_bit_nat_eq_self)
  then show ?case using 2 by (simp, subst unat_add_lem [THEN iffD1]) simp_all
qed simp

text \<open>Folding computes the sum modulo 65535, with 65535 for the multiples other than zero.\<close>

definition ones_sum :: "nat \<Rightarrow> nat" where
  "ones_sum n = (if n = 0 then 0 else (n - 1) mod 65535 + 1)"

lemma ones_sum_fold: "ones_sum (n mod 65536 + n div 65536) = ones_sum n"
proof (cases "n = 0")
  case False
  let ?m = "n mod 65536 + n div 65536"
  have n: "n = ?m + 65535 * (n div 65536)" by simp
  moreover have "?m \<noteq> 0"
  proof
    assume "?m = 0"
    then have "n div 65536 = 0" "n mod 65536 = 0" by simp_all
    then show False using False div_mult_mod_eq [of n 65536] by simp
  qed
  ultimately have "n - 1 = (?m - 1) + 65535 * (n div 65536)" by linarith
  then have "(n - 1) mod 65535 = (?m - 1) mod 65535" by (metis mod_mult_self2)
  then show ?thesis using False \<open>?m \<noteq> 0\<close> by (simp add: ones_sum_def)
qed (simp add: ones_sum_def)

lemma ones_sum_small: "n < 65536 \<Longrightarrow> ones_sum n = n"
  by (simp add: ones_sum_def)

lemma unat_fold_sum: "unat (fold_sum s) = ones_sum (unat s)"
proof (induction s rule: fold_sum.induct)
  case (1 s)
  show ?case
  proof (cases "drop_bit 16 s = 0")
    case True
    then have "unat s div 65536 = 0" using unat_high16 [of s] by simp
    then have "unat s < 65536" by (simp add: div_eq_0_iff)
    then show ?thesis using True by (simp add: fold_sum.simps [of s] ones_sum_small)
  next
    case False
    then have "fold_sum s = fold_sum ((s AND 0xffff) + drop_bit 16 s)"
      by (simp add: fold_sum.simps [of s])
    with 1 False show ?thesis by (simp add: unat_fold_step ones_sum_fold)
  qed
qed

lemma ones_sum_le: "ones_sum n \<le> 65535"
proof -
  have "(n - 1) mod 65535 < 65535" by simp
  then show ?thesis unfolding ones_sum_def by (cases "n = 0") simp_all
qed

lemma unat_ucast_not16:
  assumes "unat (w :: u32) < 65536"
  shows "unat (ucast (NOT w) :: u16) = 65535 - unat w"
proof -
  have "(ucast (NOT w) :: u16) = NOT (ucast w)"
    by (rule bit_word_eqI) (simp add: bit_simps)
  moreover have "unat (ucast w :: u16) = unat w"
    using assms by (simp add: unsigned_ucast_eq take_bit_nat_eq_self)
  moreover have "NOT c = - 1 - c" "c \<le> - 1" for c :: u16
    by (simp_all add: not_eq_complement word_order.extremum)
  then have "unat (NOT c) = 65535 - unat c" for c :: u16
    using unat_sub [of c "- 1"] by (simp add: unsigned_minus_1_eq_mask mask_eq_exp_minus_1)
  ultimately show ?thesis by simp
qed

lemma unat_checksum:
  assumes "length bs \<le> 65536"
  shows "unat (checksum bs 0) = 65535 - ones_sum (word_sum bs)"
proof -
  have "word_sum bs < 2 ^ 32" using word_sum_bound [of bs] assms by simp
  then have "unat (sum_every_16bits 0 bs) = word_sum bs"
    using unat_sum_every_16bits [of 0 bs] by simp
  then have "unat (fold_sum (sum_every_16bits 0 bs)) = ones_sum (word_sum bs)"
    by (simp add: unat_fold_sum)
  then show ?thesis
    using ones_sum_le [of "word_sum bs"] by (simp add: checksum_def unat_ucast_not16)
qed

lemma word_sum_splice:
  assumes "even off" and "off + 2 \<le> length bs"
  shows "word_sum (mem_splice off (le16 c) bs) + unat (of_le16 (mem_slice off 2 bs)) =
    word_sum bs + unat c"
proof -
  let ?a = "take off bs" and ?b = "drop (off + 2) bs"
  have ev: "even (length ?a)" using assms by simp
  obtain x y where xy: "mem_slice off 2 bs = [x, y]"
    using assms(2) by (cases "mem_slice off 2 bs" rule: word_sum.cases)
      (auto simp: mem_slice_def dest!: arg_cong [of _ _ length])
  have "drop off bs = take 2 (drop off bs) @ ?b"
    using append_take_drop_id [of 2 "drop off bs"] by (simp only: drop_drop add.commute)
  then have "bs = ?a @ [x, y] @ ?b"
    using xy append_take_drop_id [of off bs] unfolding mem_slice_def by metis
  then have "word_sum bs = word_sum ?a + (unat (of_le16 [x, y]) + word_sum ?b)"
    using word_sum_append [OF ev, of "[x, y] @ ?b"] by simp
  moreover obtain u v where uv: "le16 c = [u, v]" by (simp add: le16_def)
  then have "word_sum (mem_splice off (le16 c) bs) = word_sum ?a + (unat (of_le16 [u, v]) + word_sum ?b)"
    using word_sum_append [OF ev, of "[u, v] @ ?b"] by (simp add: mem_splice_def)
  moreover have "of_le16 [u, v] = c" using of_le16_le16 [of c] uv by simp
  ultimately show ?thesis using xy by simp
qed

lemma checksum_zero_iff:
  "length bs \<le> 65536 \<Longrightarrow> checksum bs 0 = 0 \<longleftrightarrow> ones_sum (word_sum bs) = 65535"
proof -
  assume "length bs \<le> 65536"
  from unat_checksum [OF this] ones_sum_le [of "word_sum bs"]
  have "unat (checksum bs 0) = 0 \<longleftrightarrow> ones_sum (word_sum bs) = 65535" by linarith
  then show ?thesis by (simp add: unat_eq_0)
qed

text \<open>Filling in the checksum of a header whose field is zero makes the header verify.\<close>

lemma checksum_fill:
  assumes "even off" and "off + 2 \<le> length bs" and "length bs \<le> 65536"
    and "mem_slice off 2 bs = [0, 0]"
  shows "checksum (mem_splice off (le16 (checksum bs 0)) bs) 0 = 0"
proof -
  let ?c = "checksum bs 0"
  let ?bs = "mem_splice off (le16 ?c) bs"
  have z: "of_le16 [0, 0] = 0" by (simp add: of_le16_def)
  have ws: "word_sum ?bs = word_sum bs + (65535 - ones_sum (word_sum bs))"
    using word_sum_splice [OF assms(1,2), of ?c] unat_checksum [OF assms(3)] assms(4) z by simp
  have "ones_sum (word_sum ?bs) = 65535"
  proof (cases "word_sum bs = 0")
    case True
    then show ?thesis by (simp add: ws ones_sum_def)
  next
    case False
    let ?r = "(word_sum bs - 1) mod 65535" and ?q = "(word_sum bs - 1) div 65535"
    have "word_sum bs = 65535 * ?q + ?r + 1" using False by simp
    moreover have "?r < 65535" by simp
    moreover have "ones_sum (word_sum bs) = ?r + 1" using False by (simp add: ones_sum_def)
    ultimately have "word_sum ?bs = 65535 * ?q + 65535" using ws by linarith
    then show ?thesis by (simp add: ones_sum_def)
  qed
  moreover have "length ?bs \<le> 65536" using assms by (simp add: le16_def)
  ultimately show ?thesis by (simp add: checksum_zero_iff)
qed

end
