(* ===== verification/Net_Core.thy ===== *)
theory Net_Core
  imports Net_Utils Db_Row
begin

text \<open>
  The state of tcpip and its packet buffers: the structs of \<open>skbuff.h\<close>, \<open>netdev.h\<close>, \<open>route.h\<close> and
  \<open>arp.h\<close>, and the operations of \<open>skbuff.c\<close>. Packets and devices live in a store by number, so that a
  dangling pointer is a missing entry. The intrusive lists of the structs are HOL lists here;
  \<open>Net_Utils\<close> shows that the pointer operations implement them.
\<close>

section \<open>Definitions\<close>

subsection \<open>Structs\<close>

record netstats =
  rx_packets :: u32
  tx_packets :: u32
  rx_errors :: u32
  tx_errors :: u32
  rx_bytes :: u32
  tx_bytes :: u32

text \<open>The two static operation tables of the program.\<close>

datatype netdev_ops = loop_ops | veth_ops

record netdev =
  net_mtu :: int
  net_ipaddr :: u32
  net_mask :: u32
  net_hwaddr :: bytes
  net_name :: string
  net_ops :: "netdev_ops option"
  net_stats :: netstats

record rtentry =
  rt_net :: u32
  rt_netmask :: u32
  rt_gw :: u32
  rt_flags :: u32
  rt_metric :: int
  rt_dev :: nat

record pkbuf =
  pk_pro :: u16
  pk_type :: u16
  pk_len :: int
  pk_refcnt :: int
  pk_indev :: "nat option"
  pk_rtdst :: "rtentry option"
  pk_data :: bytes

record arpentry =
  ae_list :: "nat list"
  ae_dev :: "nat option"
  ae_retry :: int
  ae_ttl :: int
  ae_state :: u32
  ae_pro :: u16
  ae_ipaddr :: u32
  ae_hwaddr :: bytes

definition PKT_NONE :: u16 where "PKT_NONE = 0"
definition PKT_LOCALHOST :: u16 where "PKT_LOCALHOST = 1"
definition PKT_OTHERHOST :: u16 where "PKT_OTHERHOST = 2"
definition PKT_MULTICAST :: u16 where "PKT_MULTICAST = 3"
definition PKT_BROADCAST :: u16 where "PKT_BROADCAST = 4"

lemmas PKT_defs = PKT_NONE_def PKT_LOCALHOST_def PKT_OTHERHOST_def PKT_MULTICAST_def PKT_BROADCAST_def

text \<open>
  The globals of the program and its world: \<open>mblock k n\<close> is what the block of \<open>n\<close> bytes that the
  \<open>k\<close>-th packet allocation returns contains, \<open>malloc_ok k\<close> whether that allocation succeeds, \<open>wire\<close> the
  frames written to the tap device and \<open>tap_write_res\<close> what \<open>write\<close> returns for a frame.
\<close>

datatype realloc_result = Realloc_in_place | Realloc_moved | Realloc_failed

record net =
  pkbs :: "nat \<Rightarrow> pkbuf option"
  next_pkb :: nat
  alloc_pkbs :: int
  free_pkbs :: int
  devs :: "nat \<Rightarrow> netdev option"
  next_dev :: nat
  net_devices :: "nat list"
  loop :: "nat option"
  veth :: "nat option"
  arp_cache :: "arpentry list"
  arp_next :: nat
  rt_table :: "rtentry list"
  mblock :: "nat \<Rightarrow> nat \<Rightarrow> bytes"
  malloc_ok :: "nat \<Rightarrow> bool"
  realloc_res :: realloc_result
  calloc_ok :: bool
  tap_alloc_res :: int
  tap_write_res :: "bytes \<Rightarrow> int"
  wire :: "bytes list"

subsection \<open>Access\<close>

definition pkb_get :: "net \<Rightarrow> nat \<Rightarrow> pkbuf cres" where
  "pkb_get s k = (case pkbs s k of None \<Rightarrow> Inl C_Fault | Some p \<Rightarrow> Inr p)"

definition pkb_put :: "nat \<Rightarrow> pkbuf \<Rightarrow> net \<Rightarrow> net" where
  "pkb_put k p s = s\<lparr>pkbs := (pkbs s)(k \<mapsto> p)\<rparr>"

definition dev_get :: "net \<Rightarrow> nat option \<Rightarrow> netdev cres" where
  "dev_get s d = (case d of None \<Rightarrow> Inl C_Fault
     | Some d \<Rightarrow> (case devs s d of None \<Rightarrow> Inl C_Fault | Some dev \<Rightarrow> Inr dev))"

definition dev_put :: "nat \<Rightarrow> netdev \<Rightarrow> net \<Rightarrow> net" where
  "dev_put d dev s = s\<lparr>devs := (devs s)(d \<mapsto> dev)\<rparr>"

text \<open>Reading and writing \<open>pk_data\<close>, within the bytes that were allocated for it.\<close>

definition pk_load :: "nat \<Rightarrow> nat \<Rightarrow> nat \<Rightarrow> net \<Rightarrow> bytes cres" where
  "pk_load k off n s = rbind (pkb_get s k) (\<lambda>p. mem_load (pk_data p) off n)"

definition pk_store :: "nat \<Rightarrow> nat \<Rightarrow> bytes \<Rightarrow> net \<Rightarrow> net cres" where
  "pk_store k off bs s =
     rbind (pkb_get s k) (\<lambda>p.
     rbind (mem_store (pk_data p) off bs) (\<lambda>d. Inr (pkb_put k (p\<lparr>pk_data := d\<rparr>) s)))"

definition pk_load16 :: "nat \<Rightarrow> nat \<Rightarrow> net \<Rightarrow> u16 cres" where
  "pk_load16 k off s = rbind (pk_load k off 2 s) (\<lambda>bs. Inr (of_le16 bs))"

definition pk_load32 :: "nat \<Rightarrow> nat \<Rightarrow> net \<Rightarrow> u32 cres" where
  "pk_load32 k off s = rbind (pk_load k off 4 s) (\<lambda>bs. Inr (of_le32 bs))"

text \<open>\<open>htons\<close> and \<open>ntohs\<close> on the little-endian host.\<close>

definition htons :: "u16 \<Rightarrow> u16" where
  "htons x = push_bit 8 x OR drop_bit 8 x"

subsection \<open>Packet buffers\<close>

definition MAX_PKBS :: int where "MAX_PKBS = 200"

definition pkb_safe :: "net \<Rightarrow> net cres" where
  "pkb_safe s = (if alloc_pkbs s - free_pkbs s > MAX_PKBS then Inl (C_Exit []) else Inr s)"

definition alloc_pkb :: "int \<Rightarrow> net \<Rightarrow> (nat option \<times> net) cres" where
  "alloc_pkb n s =
     (let k = next_pkb s; s = s\<lparr>next_pkb := k + 1\<rparr> in
      if \<not> malloc_ok s k then Inr (None, s)
      else
        let p = \<lparr>pk_pro = 0xffff, pk_type = 0, pk_len = n, pk_refcnt = 1, pk_indev = None,
                 pk_rtdst = None, pk_data = mblock s k (nat n)\<rparr>;
            s = (pkb_put k p s)\<lparr>alloc_pkbs := alloc_pkbs s + 1\<rparr>
        in rbind (pkb_safe s) (\<lambda>s. Inr (Some k, s)))"

text \<open>
  \<open>copy_pkb\<close> allocates and copies \<open>pk_len\<close> bytes from the start of the struct, whose header takes 48 of
  them. A copy that does not hold the whole header is a fault here: its members lie outside it.
\<close>

definition PKBUF_SIZE :: nat where "PKBUF_SIZE = 48"

definition copy_pkb :: "nat \<Rightarrow> net \<Rightarrow> (nat option \<times> net) cres" where
  "copy_pkb k s =
     rbind (pkb_get s k) (\<lambda>p.
     let c = next_pkb s; s = s\<lparr>next_pkb := c + 1\<rparr> in
     if \<not> malloc_ok s c then Inr (None, s)
     else if pk_len p < int PKBUF_SIZE \<or> pk_len p > int (PKBUF_SIZE + length (pk_data p)) then Inl C_Fault
     else
       let q = p\<lparr>pk_refcnt := 1, pk_data := take (nat (pk_len p) - PKBUF_SIZE) (pk_data p)\<rparr>;
           s = (pkb_put c q s)\<lparr>alloc_pkbs := alloc_pkbs s + 1\<rparr>
       in rbind (pkb_safe s) (\<lambda>s. Inr (Some c, s)))"

text \<open>
  \<open>free_pkb\<close> reads the reference count once more behind \<open>free\<close>; the model takes the freed count to
  still read 0, so that the second test fails there.
\<close>

definition free_pkb :: "nat \<Rightarrow> net \<Rightarrow> net cres" where
  "free_pkb k s =
     rbind (pkb_get s k) (\<lambda>p.
     let r = pk_refcnt p - 1 in
     if r = 0 then Inr (s\<lparr>free_pkbs := free_pkbs s + 1, pkbs := (pkbs s)(k := None)\<rparr>)
     else if r < 0 then Inr (pkb_put k (p\<lparr>pk_refcnt := 0\<rparr>) s)
     else Inr (pkb_put k (p\<lparr>pk_refcnt := r\<rparr>) s))"

definition get_pkb :: "nat \<Rightarrow> net \<Rightarrow> net cres" where
  "get_pkb k s =
     rbind (pkb_get s k) (\<lambda>p. Inr (pkb_put k (p\<lparr>pk_refcnt := pk_refcnt p + 1\<rparr>) s))"

text \<open>
  \<open>pkb_trim\<close> drops the pointer \<open>realloc\<close> returns: when the block moves, the caller is left with the
  freed one.
\<close>

definition pkb_trim :: "nat \<Rightarrow> int \<Rightarrow> net \<Rightarrow> net cres" where
  "pkb_trim k len s =
     rbind (pkb_get s k) (\<lambda>p.
     case realloc_res s of
       Realloc_in_place \<Rightarrow> Inr (pkb_put k (p\<lparr>pk_len := len, pk_data := take (nat len) (pk_data p)\<rparr>) s)
     | Realloc_moved \<Rightarrow> Inr (s\<lparr>pkbs := (pkbs s)(k := None)\<rparr>)
     | Realloc_failed \<Rightarrow> Inr (pkb_put k (p\<lparr>pk_len := len\<rparr>) s))"

section \<open>Lemmas\<close>

named_theorems net_simps \<open>reading the state back\<close>

lemma pkb_get_put [net_simps]:
  "pkb_get (pkb_put k p s) j = (if j = k then Inr p else pkb_get s j)"
  by (simp add: pkb_get_def pkb_put_def)

lemma pkb_put_put [net_simps]: "pkb_put k p (pkb_put k q s) = pkb_put k p s"
  by (simp add: pkb_put_def)

lemma pkb_put_frame [net_simps]:
  "devs (pkb_put k p s) = devs s" "arp_cache (pkb_put k p s) = arp_cache s"
  "wire (pkb_put k p s) = wire s" "alloc_pkbs (pkb_put k p s) = alloc_pkbs s"
  "free_pkbs (pkb_put k p s) = free_pkbs s" "tap_write_res (pkb_put k p s) = tap_write_res s"
  "rt_table (pkb_put k p s) = rt_table s" "arp_next (pkb_put k p s) = arp_next s"
  "next_pkb (pkb_put k p s) = next_pkb s" "malloc_ok (pkb_put k p s) = malloc_ok s"
  "dev_get (pkb_put k p s) d = dev_get s d" "realloc_res (pkb_put k p s) = realloc_res s"
  "pkbs (pkb_put k p s) = (pkbs s)(k \<mapsto> p)" "loop (pkb_put k p s) = loop s" "veth (pkb_put k p s) = veth s"
  "mblock (pkb_put k p s) = mblock s"
  by (simp_all add: pkb_put_def dev_get_def split: option.split)

lemma pkb_get_Inr: "pkb_get s k = Inr p \<longleftrightarrow> pkbs s k = Some p"
  by (simp add: pkb_get_def split: option.split)

lemma pkb_get_dev_put [net_simps]: "pkb_get (dev_put d dev s) k = pkb_get s k"
  by (simp add: pkb_get_def dev_put_def)

lemma htons_htons [simp]: "htons (htons x) = x"
proof -
  have "bit (htons (htons x)) n = bit x n" if n: "n < 16" for n
    using n by (auto simp: htons_def bit_simps not_less dest: bit_imp_le_length)
  then show ?thesis by (intro bit_word_eqI) simp
qed

text \<open>
  The accounting of \<open>skbuff.c\<close>: packets are numbered below \<open>next_pkb\<close>, their counts are positive, and
  as many are live as the two counters say.
\<close>

definition live_pkbs :: "net \<Rightarrow> nat set" where
  "live_pkbs s = {k. pkbs s k \<noteq> None}"

definition pkbs_ok :: "net \<Rightarrow> bool" where
  "pkbs_ok s \<longleftrightarrow> (\<forall>k. pkbs s k \<noteq> None \<longrightarrow> k < next_pkb s) \<and>
     (\<forall>k p. pkbs s k = Some p \<longrightarrow> 0 < pk_refcnt p) \<and>
     alloc_pkbs s - free_pkbs s = int (card (live_pkbs s))"

lemma live_finite: "pkbs_ok s \<Longrightarrow> finite (live_pkbs s)"
  by (rule finite_subset [of _ "{..<next_pkb s}"]) (auto simp: pkbs_ok_def live_pkbs_def)

lemma pkbs_ok_put:
  assumes ok: "pkbs_ok s" and k: "pkb_get s k = Inr q" and r: "0 < pk_refcnt p"
  shows "pkbs_ok (pkb_put k p s)"
proof -
  have "live_pkbs (pkb_put k p s) = live_pkbs s"
    using k by (auto simp: live_pkbs_def pkb_put_def pkb_get_def split: option.splits)
  then show ?thesis
    using ok k r by (auto simp: pkbs_ok_def net_simps pkb_get_def split: option.splits)
qed

lemma alloc_pkb_ok:
  assumes ok: "pkbs_ok s" and a: "alloc_pkb n s = Inr (r, s')"
  shows "pkbs_ok s'"
proof (cases "malloc_ok s (next_pkb s)")
  case False
  then have "s' = s\<lparr>next_pkb := next_pkb s + 1\<rparr>" using a by (simp add: alloc_pkb_def Let_def)
  then show ?thesis using ok by (auto simp: pkbs_ok_def live_pkbs_def less_Suc_eq)
next
  case True
  let ?k = "next_pkb s"
  let ?p = "\<lparr>pk_pro = 0xffff, pk_type = 0, pk_len = n, pk_refcnt = 1, pk_indev = None,
      pk_rtdst = None, pk_data = mblock s ?k (nat n)\<rparr>"
  have s': "s' = (pkb_put ?k ?p (s\<lparr>next_pkb := ?k + 1\<rparr>))\<lparr>alloc_pkbs := alloc_pkbs s + 1\<rparr>"
    using a True by (simp add: alloc_pkb_def Let_def pkb_safe_def split: if_splits)
  have "?k \<notin> live_pkbs s" using ok by (auto simp: pkbs_ok_def live_pkbs_def)
  moreover have "live_pkbs s' = insert ?k (live_pkbs s)"
    by (auto simp: s' live_pkbs_def net_simps)
  ultimately have "card (live_pkbs s') = card (live_pkbs s) + 1"
    using live_finite [OF ok] by simp
  then show ?thesis
    using ok by (auto simp: s' pkbs_ok_def net_simps less_Suc_eq split: if_splits)
qed

lemma free_pkb_ok:
  assumes ok: "pkbs_ok s" and f: "free_pkb k s = Inr s'"
  shows "pkbs_ok s'"
proof -
  obtain p where p: "pkb_get s k = Inr p" using f by (auto simp: free_pkb_def res_simps)
  have pos: "0 < pk_refcnt p"
    using ok p by (auto simp: pkbs_ok_def pkb_get_Inr)
  show ?thesis
  proof (cases "pk_refcnt p = 1")
    case False
    then have "s' = pkb_put k (p\<lparr>pk_refcnt := pk_refcnt p - 1\<rparr>) s"
      using f p pos by (simp add: free_pkb_def Let_def)
    then show ?thesis using pkbs_ok_put [OF ok p] pos False by simp
  next
    case True
    then have s': "s' = s\<lparr>free_pkbs := free_pkbs s + 1, pkbs := (pkbs s)(k := None)\<rparr>"
      using f p by (simp add: free_pkb_def Let_def)
    have k: "k \<in> live_pkbs s" using p by (auto simp: live_pkbs_def pkb_get_def split: option.splits)
    have "live_pkbs s' = live_pkbs s - {k}" by (auto simp: s' live_pkbs_def)
    then have "Suc (card (live_pkbs s')) = card (live_pkbs s)"
      using k live_finite [OF ok] by (simp only: card_Suc_Diff1)
    then show ?thesis using ok by (auto simp: s' pkbs_ok_def)
  qed
qed

lemma get_pkb_ok:
  assumes ok: "pkbs_ok s" and g: "get_pkb k s = Inr s'"
  shows "pkbs_ok s'"
proof -
  obtain p where p: "pkb_get s k = Inr p" "s' = pkb_put k (p\<lparr>pk_refcnt := pk_refcnt p + 1\<rparr>) s"
    using g unfolding get_pkb_def rbind_eq_Inr by auto
  then have "0 < pk_refcnt p" using ok by (auto simp: pkbs_ok_def pkb_get_Inr)
  then show ?thesis using pkbs_ok_put [OF ok p(1)] p(2) by simp
qed

lemma pk_store_ok:
  assumes ok: "pkbs_ok s" and g: "pk_store k off bs s = Inr s'"
  shows "pkbs_ok s'"
proof -
  obtain p d where p: "pkb_get s k = Inr p" "s' = pkb_put k (p\<lparr>pk_data := d\<rparr>) s"
    using g unfolding pk_store_def rbind_eq_Inr by auto
  then have "0 < pk_refcnt p" using ok by (auto simp: pkbs_ok_def pkb_get_Inr)
  then show ?thesis using pkbs_ok_put [OF ok p(1)] p(2) by simp
qed

end
