(* ===== verification/Net_Arp.thy ===== *)
theory Net_Arp
  imports Net_Core
begin

text \<open>
  tcpip's ARP cache (\<open>arp.h\<close>, \<open>arp_cache.c\<close>): twenty entries that are free, waiting for an answer or
  resolved, allocated round robin, looked up by protocol and address, and aged by a timer. The two
  operations that send frames take the transmit function as an argument; \<open>Net_Dev\<close> supplies it.
\<close>

section \<open>Definitions\<close>

definition ARP_CACHE_SZ :: nat where "ARP_CACHE_SZ = 20"
definition ARP_TTL_TIMEOUT :: int where "ARP_TTL_TIMEOUT = 600"
definition ARP_TTL_WAITTIME :: int where "ARP_TTL_WAITTIME = 1"
definition ARP_STATE_FREE :: u32 where "ARP_STATE_FREE = 1"
definition ARP_STATE_WAITING :: u32 where "ARP_STATE_WAITING = 2"
definition ARP_STATE_RESOLVED :: u32 where "ARP_STATE_RESOLVED = 3"
definition ARP_REQ_RETRY :: int where "ARP_REQ_RETRY = 4"
definition ETH_P_IP :: u16 where "ETH_P_IP = 0x0800"
definition ETH_P_ARP :: u16 where "ETH_P_ARP = 0x0806"
definition ETH_P_RARP :: u16 where "ETH_P_RARP = 0x8035"
definition ETH_HDR_LEN :: nat where "ETH_HDR_LEN = 14"

lemmas arp_constants = ARP_CACHE_SZ_def ARP_TTL_TIMEOUT_def ARP_TTL_WAITTIME_def ARP_STATE_FREE_def
  ARP_STATE_WAITING_def ARP_STATE_RESOLVED_def ARP_REQ_RETRY_def
lemmas eth_constants = ETH_P_IP_def ETH_P_ARP_def ETH_P_RARP_def ETH_HDR_LEN_def

type_synonym tx = "nat option \<Rightarrow> nat \<Rightarrow> int \<Rightarrow> u16 \<Rightarrow> bytes \<Rightarrow> net \<Rightarrow> (int \<times> net) cres"

definition entry_put :: "nat \<Rightarrow> arpentry \<Rightarrow> net \<Rightarrow> net" where
  "entry_put i ae s = s\<lparr>arp_cache := (arp_cache s)[i := ae]\<rparr>"

subsection \<open>The queue of an entry\<close>

text \<open>The loop takes the first packet off the queue before it sends it; nothing adds packets to a queue
  meanwhile, so one iteration for each packet is enough.\<close>

fun queue_send_loop :: "nat \<Rightarrow> tx \<Rightarrow> nat \<Rightarrow> net \<Rightarrow> net cres" where
  "queue_send_loop 0 tx i s = Inl C_Fuel"
| "queue_send_loop (Suc fuel) tx i s =
     (case ae_list (arp_cache s ! i) of
        [] \<Rightarrow> Inr s
      | k # ks \<Rightarrow>
          let ae = arp_cache s ! i; s = entry_put i (ae\<lparr>ae_list := ks\<rparr>) s in
          rbind (pkb_get s k) (\<lambda>p.
          rbind (tx (ae_dev ae) k (pk_len p - int ETH_HDR_LEN) (pk_pro p) (ae_hwaddr ae) s) (\<lambda>(_, s).
          queue_send_loop fuel tx i s)))"

definition arp_queue_send :: "tx \<Rightarrow> nat \<Rightarrow> net \<Rightarrow> net cres" where
  "arp_queue_send tx i s = queue_send_loop (Suc (length (ae_list (arp_cache s ! i)))) tx i s"

fun queue_drop_loop :: "nat list \<Rightarrow> nat \<Rightarrow> net \<Rightarrow> net cres" where
  "queue_drop_loop [] i s = Inr (entry_put i ((arp_cache s ! i)\<lparr>ae_list := []\<rparr>) s)"
| "queue_drop_loop (k # ks) i s =
     rbind (free_pkb k (entry_put i ((arp_cache s ! i)\<lparr>ae_list := ks\<rparr>) s)) (queue_drop_loop ks i)"

definition arp_queue_drop :: "nat \<Rightarrow> net \<Rightarrow> net cres" where
  "arp_queue_drop i s = queue_drop_loop (ae_list (arp_cache s ! i)) i s"

subsection \<open>Entries\<close>

text \<open>The loop of \<open>arp_entry_alloc\<close>: whether a free entry was found, and the static \<open>next\<close>.\<close>

fun arp_find_free :: "nat \<Rightarrow> arpentry list \<Rightarrow> nat \<Rightarrow> bool \<times> nat" where
  "arp_find_free 0 c n = (False, n)"
| "arp_find_free (Suc k) c n =
     (if ae_state (c ! n) = ARP_STATE_FREE then (True, n)
      else arp_find_free k c ((n + 1) mod ARP_CACHE_SZ))"

definition arp_entry_alloc :: "net \<Rightarrow> nat option \<times> net" where
  "arp_entry_alloc s =
     (let (found, n) = arp_find_free ARP_CACHE_SZ (arp_cache s) (arp_next s) in
      if \<not> found then (None, s\<lparr>arp_next := n\<rparr>)
      else (Some n, (entry_put n ((arp_cache s ! n)\<lparr>ae_dev := None, ae_retry := ARP_REQ_RETRY,
              ae_ttl := ARP_TTL_WAITTIME, ae_state := ARP_STATE_WAITING, ae_pro := ETH_P_IP,
              ae_list := []\<rparr>) s)\<lparr>arp_next := (n + 1) mod ARP_CACHE_SZ\<rparr>))"

definition arp_cache_insert :: "nat \<Rightarrow> u16 \<Rightarrow> u32 \<Rightarrow> bytes \<Rightarrow> net \<Rightarrow> int \<times> net" where
  "arp_cache_insert nd pro ipaddr hwaddr s =
     (case arp_entry_alloc s of
        (None, s) \<Rightarrow> (- 1, s)
      | (Some n, s) \<Rightarrow>
          (0, entry_put n ((arp_cache s ! n)\<lparr>ae_dev := Some nd, ae_pro := pro,
             ae_ttl := ARP_TTL_TIMEOUT, ae_ipaddr := ipaddr, ae_state := ARP_STATE_RESOLVED,
             ae_hwaddr := hwaddr\<rparr>) s))"

definition arp_cache_init :: "net \<Rightarrow> net" where
  "arp_cache_init s = s\<lparr>arp_cache := map (\<lambda>ae. ae\<lparr>ae_state := ARP_STATE_FREE\<rparr>) (arp_cache s)\<rparr>"

text \<open>The scan of \<open>arp_cache_lookup\<close> from index \<open>i\<close> on.\<close>

fun arp_scan :: "nat \<Rightarrow> u16 \<Rightarrow> u32 \<Rightarrow> arpentry list \<Rightarrow> nat option" where
  "arp_scan i pro ip [] = None"
| "arp_scan i pro ip (ae # aes) =
     (if ae_state ae = ARP_STATE_FREE then arp_scan (Suc i) pro ip aes
      else if ae_pro ae = pro \<and> ae_ipaddr ae = ip then Some i
      else arp_scan (Suc i) pro ip aes)"

definition arp_cache_lookup :: "u16 \<Rightarrow> u32 \<Rightarrow> net \<Rightarrow> nat option" where
  "arp_cache_lookup pro ip s = arp_scan 0 pro ip (arp_cache s)"

subsection \<open>Requests and the timer\<close>

definition broadcast_hw :: bytes where
  "broadcast_hw = replicate 6 0xff"

text \<open>\<open>arp_request\<close> allocates room for the two headers only and then fills in the payload behind them.\<close>

definition arp_request :: "tx \<Rightarrow> nat \<Rightarrow> net \<Rightarrow> (int \<times> net) cres" where
  "arp_request tx i s =
     (let ae = arp_cache s ! i in
     rbind (alloc_pkb 22 s) (\<lambda>(pkb, s).
     case pkb of
       None \<Rightarrow> Inl C_Fault
     | Some k \<Rightarrow>
         rbind (pk_store k 14 (le16 (htons 1)) s) (\<lambda>s.
         rbind (pk_store k 16 (le16 (htons ETH_P_IP)) s) (\<lambda>s.
         rbind (pk_store k 18 [6] s) (\<lambda>s.
         rbind (pk_store k 19 [4] s) (\<lambda>s.
         rbind (pk_store k 20 (le16 (htons 1)) s) (\<lambda>s.
         rbind (dev_get s (ae_dev ae)) (\<lambda>dev.
         rbind (pk_store k 28 (le32 (net_ipaddr dev)) s) (\<lambda>s.
         rbind (pk_store k 22 (net_hwaddr dev) s) (\<lambda>s.
         rbind (pk_store k 38 (le32 (ae_ipaddr ae)) s) (\<lambda>s.
         rbind (pk_store k 32 broadcast_hw s) (\<lambda>s.
         tx (ae_dev ae) k 28 ETH_P_ARP broadcast_hw s))))))))))))"

text \<open>One iteration of \<open>arp_timer\<close>, on entry \<open>i\<close>.\<close>

definition arp_timer_entry :: "tx \<Rightarrow> int \<Rightarrow> nat \<Rightarrow> net \<Rightarrow> net cres" where
  "arp_timer_entry tx delta i s =
     (let ae = arp_cache s ! i in
      if ae_state ae = ARP_STATE_FREE then Inr s
      else
        let ae = ae\<lparr>ae_ttl := ae_ttl ae - delta\<rparr>; s = entry_put i ae s in
        if \<not> ae_ttl ae \<le> 0 then Inr s
        else
          let waiting = (ae_state ae = ARP_STATE_WAITING);
              ae = (if waiting then ae\<lparr>ae_retry := ae_retry ae - 1\<rparr> else ae);
              s = entry_put i ae s
          in if (waiting \<and> ae_retry ae < 0) \<or> ae_state ae = ARP_STATE_RESOLVED then
               rbind (if waiting then arp_queue_drop i s else Inr s) (\<lambda>s.
               Inr (entry_put i ((arp_cache s ! i)\<lparr>ae_state := ARP_STATE_FREE\<rparr>) s))
             else
               rbind (arp_request tx i (entry_put i (ae\<lparr>ae_ttl := ARP_TTL_WAITTIME\<rparr>) s))
                 (\<lambda>(_, s). Inr s))"

fun arp_timer_from :: "tx \<Rightarrow> int \<Rightarrow> nat list \<Rightarrow> net \<Rightarrow> net cres" where
  "arp_timer_from tx delta [] s = Inr s"
| "arp_timer_from tx delta (i # is) s =
     rbind (arp_timer_entry tx delta i s) (arp_timer_from tx delta is)"

definition arp_timer :: "tx \<Rightarrow> int \<Rightarrow> net \<Rightarrow> net cres" where
  "arp_timer tx delta s = arp_timer_from tx delta [0..<ARP_CACHE_SZ] s"

subsection \<open>Printing\<close>

definition arpstate :: "arpentry \<Rightarrow> string" where
  "arpstate ae =
     (if ae_state ae = ARP_STATE_FREE then ''Free''
      else if ae_state ae = ARP_STATE_WAITING then ''Waiting''
      else if ae_state ae = ARP_STATE_RESOLVED then ''Resolved'' else [])"

text \<open>\<open>%-ns\<close>, \<open>%02x\<close>, \<open>IPFMT\<close> and \<open>MACFMT\<close>.\<close>

definition pad_right :: "nat \<Rightarrow> string \<Rightarrow> string" where
  "pad_right n s = s @ replicate (n - length s) CHR '' ''"

definition hex_digit :: "nat \<Rightarrow> char" where
  "hex_digit n = ''0123456789abcdef'' ! n"

definition hex2 :: "u8 \<Rightarrow> string" where
  "hex2 b = [hex_digit (unat b div 16), hex_digit (unat b mod 16)]"

definition IP_FMT :: "u32 \<Rightarrow> string" where
  "IP_FMT ip = show_d (ip AND 0xff) @ ''.'' @ show_d (drop_bit 8 ip AND 0xff) @ ''.'' @
     show_d (drop_bit 16 ip AND 0xff) @ ''.'' @ show_d (drop_bit 24 ip AND 0xff)"

definition MAC_FMT :: "bytes \<Rightarrow> string" where
  "MAC_FMT ha = concat (map (\<lambda>i. hex2 (ha ! i) @ '':'') [0..<5]) @ hex2 (ha ! 5)"

definition ipnfmt :: "u32 \<Rightarrow> string" where
  "ipnfmt ip = take 15 (IP_FMT ip)"

definition arp_line :: "arpentry \<Rightarrow> string" where
  "arp_line ae = pad_right 9 (arpstate ae) @
     pad_right 12 (show_int (if ae_ttl ae < 0 then 0 else ae_ttl ae)) @
     MAC_FMT (ae_hwaddr ae) @ '' '' @ ipnfmt (ae_ipaddr ae) @ [CHR 0x0A]"

definition arp_cache_traverse :: "net \<Rightarrow> string" where
  "arp_cache_traverse s =
     (let used = filter (\<lambda>ae. ae_state ae \<noteq> ARP_STATE_FREE) (arp_cache s) in
      (if used = [] then []
       else ''State    Timeout(s)  HWaddress         Address'' @ [CHR 0x0A]) @
      concat (map arp_line used))"

section \<open>Allocation and lookup\<close>

definition cache_ok :: "net \<Rightarrow> bool" where
  "cache_ok s \<longleftrightarrow> length (arp_cache s) = ARP_CACHE_SZ \<and> arp_next s < ARP_CACHE_SZ"

lemma arp_find_free_found:
  "arp_find_free k c n = (True, m) \<Longrightarrow> n < ARP_CACHE_SZ \<Longrightarrow>
   ae_state (c ! m) = ARP_STATE_FREE \<and> m < ARP_CACHE_SZ"
  by (induction k arbitrary: n) (auto simp: ARP_CACHE_SZ_def split: if_splits)

lemma arp_find_free_steps:
  "arp_find_free k c n = (False, m) \<Longrightarrow> n < ARP_CACHE_SZ \<Longrightarrow>
   m = (n + k) mod ARP_CACHE_SZ \<and>
   (\<forall>j < k. ae_state (c ! ((n + j) mod ARP_CACHE_SZ)) \<noteq> ARP_STATE_FREE)"
proof (induction k arbitrary: n)
  case (Suc k)
  then have nf: "ae_state (c ! n) \<noteq> ARP_STATE_FREE"
    and rec: "arp_find_free k c ((n + 1) mod ARP_CACHE_SZ) = (False, m)"
    by (auto split: if_splits)
  have b: "(n + 1) mod ARP_CACHE_SZ < ARP_CACHE_SZ" by (simp add: ARP_CACHE_SZ_def)
  have eq: "((n + 1) mod ARP_CACHE_SZ + j) mod ARP_CACHE_SZ = (n + Suc j) mod ARP_CACHE_SZ" for j
    by (simp add: mod_add_left_eq)
  have "m = (n + Suc k) mod ARP_CACHE_SZ"
    and r: "\<forall>j < k. ae_state (c ! ((n + Suc j) mod ARP_CACHE_SZ)) \<noteq> ARP_STATE_FREE"
    using Suc.IH [OF rec b] unfolding eq by simp_all
  moreover have "ae_state (c ! ((n + j) mod ARP_CACHE_SZ)) \<noteq> ARP_STATE_FREE" if "j < Suc k" for j
    using that nf r Suc.prems(2) by (cases j) auto
  ultimately show ?case by blast
qed simp

lemma arp_find_free_none:
  assumes "arp_find_free ARP_CACHE_SZ c n = (False, m)" and "n < ARP_CACHE_SZ" and "i < ARP_CACHE_SZ"
  shows "ae_state (c ! i) \<noteq> ARP_STATE_FREE" and "m = n"
proof -
  note st = arp_find_free_steps [OF assms(1,2)]
  let ?j = "if n \<le> i then i - n else i + ARP_CACHE_SZ - n"
  have "?j < ARP_CACHE_SZ" "(n + ?j) mod ARP_CACHE_SZ = i"
    using assms(2,3) by auto
  then show "ae_state (c ! i) \<noteq> ARP_STATE_FREE" using st by metis
  show "m = n" using st assms(2) by simp
qed

lemma arp_entry_alloc_some:
  assumes ok: "cache_ok s" and fr: "i < ARP_CACHE_SZ" "ae_state (arp_cache s ! i) = ARP_STATE_FREE"
  obtains n where "n < ARP_CACHE_SZ" "ae_state (arp_cache s ! n) = ARP_STATE_FREE"
    "arp_entry_alloc s = (Some n, (entry_put n ((arp_cache s ! n)\<lparr>ae_dev := None,
       ae_retry := ARP_REQ_RETRY, ae_ttl := ARP_TTL_WAITTIME, ae_state := ARP_STATE_WAITING,
       ae_pro := ETH_P_IP, ae_list := []\<rparr>) s)\<lparr>arp_next := (n + 1) mod ARP_CACHE_SZ\<rparr>)"
proof -
  obtain b m where f: "arp_find_free ARP_CACHE_SZ (arp_cache s) (arp_next s) = (b, m)"
    by (cases "arp_find_free ARP_CACHE_SZ (arp_cache s) (arp_next s)")
  have nx: "arp_next s < ARP_CACHE_SZ" using ok by (simp add: cache_ok_def)
  have b: "b"
  proof (rule ccontr)
    assume "\<not> b"
    then show False using arp_find_free_none(1) [of "arp_cache s" "arp_next s" m i] f nx fr by simp
  qed
  then show ?thesis
    using that [of m] arp_find_free_found [of _ "arp_cache s" "arp_next s" m] f nx
    by (simp add: arp_entry_alloc_def)
qed

lemma arp_entry_alloc_full:
  assumes ok: "cache_ok s" and full: "\<forall>i < ARP_CACHE_SZ. ae_state (arp_cache s ! i) \<noteq> ARP_STATE_FREE"
  shows "arp_entry_alloc s = (None, s)"
proof -
  obtain b m where f: "arp_find_free ARP_CACHE_SZ (arp_cache s) (arp_next s) = (b, m)"
    by (cases "arp_find_free ARP_CACHE_SZ (arp_cache s) (arp_next s)")
  have nx: "arp_next s < ARP_CACHE_SZ" using ok by (simp add: cache_ok_def)
  have b: "\<not> b" using arp_find_free_found [of ARP_CACHE_SZ "arp_cache s" "arp_next s" m] f nx full by auto
  have "m = arp_next s"
    using arp_find_free_none(2) [of "arp_cache s" "arp_next s" m 0] f b nx by (simp add: ARP_CACHE_SZ_def)
  then show ?thesis using f b by (simp add: arp_entry_alloc_def)
qed

text \<open>What the lookup finds: the first entry in use with the key.\<close>

definition entry_matches :: "u16 \<Rightarrow> u32 \<Rightarrow> arpentry \<Rightarrow> bool" where
  "entry_matches pro ip ae \<longleftrightarrow> ae_state ae \<noteq> ARP_STATE_FREE \<and> ae_pro ae = pro \<and> ae_ipaddr ae = ip"

lemma arp_scan_none: "arp_scan i pro ip c = None \<longleftrightarrow> (\<forall>ae \<in> set c. \<not> entry_matches pro ip ae)"
  by (induction c arbitrary: i) (auto simp: entry_matches_def)

lemma arp_scan_some:
  "arp_scan i pro ip c = Some j \<Longrightarrow>
   i \<le> j \<and> j - i < length c \<and> entry_matches pro ip (c ! (j - i)) \<and>
   (\<forall>l < j - i. \<not> entry_matches pro ip (c ! l))"
proof (induction c arbitrary: i)
  case (Cons ae aes)
  show ?case
  proof (cases "entry_matches pro ip ae")
    case True
    then show ?thesis using Cons.prems by (auto simp: entry_matches_def)
  next
    case False
    then have rec: "arp_scan (Suc i) pro ip aes = Some j"
      using Cons.prems by (auto simp: entry_matches_def split: if_splits)
    note ih = Cons.IH [OF rec]
    then have ji: "j - i = Suc (j - Suc i)" by linarith
    show ?thesis
      unfolding ji using ih False by (auto simp: less_Suc_eq_0_disj)
  qed
qed simp

lemma arp_scan_cong:
  "list_all2 (\<lambda>a b. entry_matches pro ip a = entry_matches pro ip b) c c' \<Longrightarrow>
   arp_scan i pro ip c = arp_scan i pro ip c'"
proof (induction arbitrary: i rule: list_all2_induct)
  case (Cons a c b c')
  have "arp_scan i pro ip (x # xs) = (if entry_matches pro ip x then Some i else arp_scan (Suc i) pro ip xs)"
    for x xs by (auto simp: entry_matches_def)
  with Cons show ?case by simp
qed simp

lemma arp_scan_unique:
  assumes "j < length c" and "entry_matches pro ip (c ! j)"
    and "\<forall>l < length c. l \<noteq> j \<longrightarrow> \<not> entry_matches pro ip (c ! l)"
  shows "arp_scan 0 pro ip c = Some j"
proof (cases "arp_scan 0 pro ip c")
  case None
  then show ?thesis using assms(1,2) by (simp add: arp_scan_none)
next
  case (Some m)
  then show ?thesis using arp_scan_some [OF Some] assms(3) by auto
qed

text \<open>
  The contract of an address cache, from the side of its client: an inserted address is found with its
  hardware address, other addresses are found as before.
\<close>

definition arp_hw :: "u16 \<times> u32 \<Rightarrow> net \<Rightarrow> bytes option" where
  "arp_hw key s = (case arp_cache_lookup (fst key) (snd key) s of
     None \<Rightarrow> None | Some i \<Rightarrow> Some (ae_hwaddr (arp_cache s ! i)))"

definition arp_has_room :: "net \<Rightarrow> bool" where
  "arp_has_room s \<longleftrightarrow> (\<exists>i < ARP_CACHE_SZ. ae_state (arp_cache s ! i) = ARP_STATE_FREE)"

lemma arp_cache_insert_entry:
  assumes ok: "cache_ok s" and room: "arp_has_room s"
  obtains n where "n < ARP_CACHE_SZ" "ae_state (arp_cache s ! n) = ARP_STATE_FREE"
    "fst (arp_cache_insert nd pro ip hw s) = 0"
    "arp_cache (snd (arp_cache_insert nd pro ip hw s)) = (arp_cache s)[n :=
       \<lparr>ae_list = [], ae_dev = Some nd, ae_retry = ARP_REQ_RETRY, ae_ttl = ARP_TTL_TIMEOUT,
        ae_state = ARP_STATE_RESOLVED, ae_pro = pro, ae_ipaddr = ip, ae_hwaddr = hw\<rparr>]"
    "arp_next (snd (arp_cache_insert nd pro ip hw s)) = (n + 1) mod ARP_CACHE_SZ"
    "cache_ok (snd (arp_cache_insert nd pro ip hw s))"
proof -
  obtain i where "i < ARP_CACHE_SZ" "ae_state (arp_cache s ! i) = ARP_STATE_FREE"
    using room by (auto simp: arp_has_room_def)
  then obtain n where n: "n < ARP_CACHE_SZ" "ae_state (arp_cache s ! n) = ARP_STATE_FREE"
    "arp_entry_alloc s = (Some n, (entry_put n ((arp_cache s ! n)\<lparr>ae_dev := None,
       ae_retry := ARP_REQ_RETRY, ae_ttl := ARP_TTL_WAITTIME, ae_state := ARP_STATE_WAITING,
       ae_pro := ETH_P_IP, ae_list := []\<rparr>) s)\<lparr>arp_next := (n + 1) mod ARP_CACHE_SZ\<rparr>)"
    by (rule arp_entry_alloc_some [OF ok])
  have len: "n < length (arp_cache s)" using n(1) ok by (simp add: cache_ok_def)
  have full: "ae\<lparr>ae_retry := ARP_REQ_RETRY, ae_list := [], ae_dev := Some nd, ae_pro := pro,
      ae_ttl := ARP_TTL_TIMEOUT, ae_ipaddr := ip, ae_state := ARP_STATE_RESOLVED, ae_hwaddr := hw\<rparr> =
      \<lparr>ae_list = [], ae_dev = Some nd, ae_retry = ARP_REQ_RETRY, ae_ttl = ARP_TTL_TIMEOUT,
       ae_state = ARP_STATE_RESOLVED, ae_pro = pro, ae_ipaddr = ip, ae_hwaddr = hw\<rparr>" for ae
    by (cases ae) simp
  show ?thesis
  proof (rule that [OF n(1,2)])
    show "cache_ok (snd (arp_cache_insert nd pro ip hw s))"
      using ok n(3) by (simp add: arp_cache_insert_def entry_put_def cache_ok_def ARP_CACHE_SZ_def)
  qed (use n(3) len in \<open>simp_all add: arp_cache_insert_def entry_put_def full\<close>)
qed

lemma arp_insert_lookup:
  assumes ok: "cache_ok s" and room: "arp_has_room s" and no: "arp_hw (pro, ip) s = None"
  shows "arp_hw (pro, ip) (snd (arp_cache_insert nd pro ip hw s)) = Some hw"
    and "key \<noteq> (pro, ip) \<Longrightarrow> arp_hw key (snd (arp_cache_insert nd pro ip hw s)) = arp_hw key s"
proof -
  let ?ae = "\<lparr>ae_list = [], ae_dev = Some nd, ae_retry = ARP_REQ_RETRY, ae_ttl = ARP_TTL_TIMEOUT,
        ae_state = ARP_STATE_RESOLVED, ae_pro = pro, ae_ipaddr = ip, ae_hwaddr = hw\<rparr>"
  obtain n where n: "n < ARP_CACHE_SZ" "ae_state (arp_cache s ! n) = ARP_STATE_FREE"
    "arp_cache (snd (arp_cache_insert nd pro ip hw s)) = (arp_cache s)[n := ?ae]"
    by (rule arp_cache_insert_entry [OF ok room])
  let ?c = "arp_cache s" and ?s = "snd (arp_cache_insert nd pro ip hw s)"
  have len: "n < length ?c" using n(1) ok by (simp add: cache_ok_def)
  have none: "\<forall>ae \<in> set ?c. \<not> entry_matches pro ip ae"
    using no by (simp add: arp_hw_def arp_cache_lookup_def arp_scan_none split: option.splits)
  have "arp_scan 0 pro ip (?c[n := ?ae]) = Some n"
    by (rule arp_scan_unique)
      (use len none in \<open>auto simp: entry_matches_def arp_constants nth_list_update\<close>)
  then show "arp_hw (pro, ip) ?s = Some hw"
    using len by (simp add: arp_hw_def arp_cache_lookup_def n(3))
  assume key: "key \<noteq> (pro, ip)"
  have m: "entry_matches (fst key) (snd key) (?c[n := ?ae] ! l) \<longleftrightarrow>
      entry_matches (fst key) (snd key) (?c ! l)" for l
    using len key n(2) by (cases "l = n") (auto simp: entry_matches_def prod_eq_iff)
  have nm: "\<not> entry_matches (fst key) (snd key) (?c ! n)" using n(2) by (simp add: entry_matches_def)
  have scan: "arp_scan 0 (fst key) (snd key) (?c[n := ?ae]) = arp_scan 0 (fst key) (snd key) ?c"
    by (rule arp_scan_cong) (use m in \<open>simp add: list_all2_conv_all_nth\<close>)
  have ne: "j \<noteq> n" if "arp_scan 0 (fst key) (snd key) ?c = Some j" for j
    using arp_scan_some [OF that] nm by auto
  show "arp_hw key ?s = arp_hw key s"
    unfolding arp_hw_def arp_cache_lookup_def n(3) scan using ne
    by (auto split: option.split)
qed

locale address_cache =
  fixes find_hw :: "'k \<Rightarrow> 's \<Rightarrow> 'v option"
    and put :: "'k \<Rightarrow> 'v \<Rightarrow> 's \<Rightarrow> 's"
    and ok :: "'s \<Rightarrow> bool"
    and room :: "'s \<Rightarrow> bool"
  assumes put_found: "ok s \<Longrightarrow> room s \<Longrightarrow> find_hw k s = None \<Longrightarrow> find_hw k (put k v s) = Some v"
    and put_other: "ok s \<Longrightarrow> room s \<Longrightarrow> find_hw k s = None \<Longrightarrow> j \<noteq> k \<Longrightarrow> find_hw j (put k v s) = find_hw j s"
    and put_ok: "ok s \<Longrightarrow> room s \<Longrightarrow> ok (put k v s)"
begin

lemma put_two:
  assumes "ok s" and "room s" and "find_hw k s = None" and "find_hw j s = None" and "j \<noteq> k"
    and "room (put k v s)"
  shows "find_hw k (put j w (put k v s)) = Some v" and "find_hw j (put j w (put k v s)) = Some w"
proof -
  have j: "find_hw j (put k v s) = None" using put_other [OF assms(1,2,3,5)] assms(4) by simp
  note ok' = put_ok [OF assms(1,2)]
  show "find_hw j (put j w (put k v s)) = Some w" by (rule put_found [OF ok' assms(6) j])
  show "find_hw k (put j w (put k v s)) = Some v"
    using put_other [OF ok' assms(6) j] put_found [OF assms(1-3)] assms(5) by simp
qed

end

interpretation arp: address_cache arp_hw "\<lambda>k v s. snd (arp_cache_insert nd (fst k) (snd k) v s)"
  cache_ok arp_has_room for nd
proof unfold_locales
  show "cache_ok (snd (arp_cache_insert nd (fst k) (snd k) v s))"
    if "cache_ok s" "arp_has_room s" for s k v
    by (rule arp_cache_insert_entry [OF that])
  show "arp_hw k (snd (arp_cache_insert nd (fst k) (snd k) v s)) = Some v"
    if "cache_ok s" "arp_has_room s" "arp_hw k s = None" for s k v
    using arp_insert_lookup(1) [of s "fst k" "snd k"] that by simp
  show "arp_hw j (snd (arp_cache_insert nd (fst k) (snd k) v s)) = arp_hw j s"
    if "cache_ok s" "arp_has_room s" "arp_hw k s = None" "j \<noteq> k" for s k v j
    using arp_insert_lookup(2) [of s "fst k" "snd k" j] that by simp
qed

text \<open>In a cache of all zero bytes, as the program starts with, no entry is free.\<close>

definition zero_entry :: arpentry where
  "zero_entry = \<lparr>ae_list = [], ae_dev = None, ae_retry = 0, ae_ttl = 0, ae_state = 0, ae_pro = 0,
     ae_ipaddr = 0, ae_hwaddr = replicate 6 0\<rparr>"

lemma zero_cache_insert:
  assumes "arp_cache s = replicate ARP_CACHE_SZ zero_entry" and "arp_next s < ARP_CACHE_SZ"
  shows "arp_cache_insert nd pro ip hw s = (- 1, s)"
proof -
  have "arp_entry_alloc s = (None, s)"
    by (rule arp_entry_alloc_full) (use assms in \<open>simp_all add: cache_ok_def zero_entry_def arp_constants\<close>)
  then show ?thesis by (simp add: arp_cache_insert_def)
qed

section \<open>The timer\<close>

text \<open>The life of an entry.\<close>

inductive arp_step :: "arpentry \<Rightarrow> arpentry \<Rightarrow> bool" where
  alloc: "ae_state ae = ARP_STATE_FREE \<Longrightarrow> arp_step ae (ae\<lparr>ae_dev := None, ae_retry := ARP_REQ_RETRY,
     ae_ttl := ARP_TTL_WAITTIME, ae_state := ARP_STATE_WAITING, ae_pro := ETH_P_IP, ae_list := []\<rparr>)"
| resolve: "ae_state ae \<noteq> ARP_STATE_FREE \<Longrightarrow> arp_step ae (ae\<lparr>ae_dev := d, ae_pro := pro,
     ae_ttl := ARP_TTL_TIMEOUT, ae_ipaddr := ip, ae_state := ARP_STATE_RESOLVED, ae_hwaddr := hw,
     ae_list := []\<rparr>)"
| age: "ae_state ae \<noteq> ARP_STATE_FREE \<Longrightarrow> delta < ae_ttl ae \<Longrightarrow>
     arp_step ae (ae\<lparr>ae_ttl := ae_ttl ae - delta\<rparr>)"
| expire: "ae_state ae = ARP_STATE_RESOLVED \<Longrightarrow> ae_ttl ae \<le> delta \<Longrightarrow>
     arp_step ae (ae\<lparr>ae_ttl := ae_ttl ae - delta, ae_state := ARP_STATE_FREE\<rparr>)"
| give_up: "ae_state ae = ARP_STATE_WAITING \<Longrightarrow> ae_ttl ae \<le> delta \<Longrightarrow> ae_retry ae \<le> 0 \<Longrightarrow>
     arp_step ae (ae\<lparr>ae_ttl := ae_ttl ae - delta, ae_retry := ae_retry ae - 1, ae_list := [],
       ae_state := ARP_STATE_FREE\<rparr>)"
| retry: "ae_state ae = ARP_STATE_WAITING \<Longrightarrow> ae_ttl ae \<le> delta \<Longrightarrow> 0 < ae_retry ae \<Longrightarrow>
     arp_step ae (ae\<lparr>ae_ttl := ARP_TTL_WAITTIME, ae_retry := ae_retry ae - 1\<rparr>)"

inductive_cases arp_stepE: "arp_step ae ae'"

definition entry_tick :: "int \<Rightarrow> arpentry \<Rightarrow> arpentry" where
  "entry_tick delta ae =
     (if ae_state ae = ARP_STATE_FREE then ae
      else if delta < ae_ttl ae then ae\<lparr>ae_ttl := ae_ttl ae - delta\<rparr>
      else ae\<lparr>ae_ttl := ae_ttl ae - delta, ae_state := ARP_STATE_FREE\<rparr>)"

definition settled :: "arpentry \<Rightarrow> bool" where
  "settled ae \<longleftrightarrow> ae_state ae = ARP_STATE_FREE \<or> ae_state ae = ARP_STATE_RESOLVED"

text \<open>An entry in use keeps one of the two states, and counts its retries down to -1.\<close>

definition entry_ok :: "arpentry \<Rightarrow> bool" where
  "entry_ok ae \<longleftrightarrow> (settled ae \<or> ae_state ae = ARP_STATE_WAITING) \<and>
     (ae_state ae = ARP_STATE_WAITING \<longrightarrow> 0 \<le> ae_retry ae \<and> ae_retry ae \<le> ARP_REQ_RETRY)"

lemma arp_step_ok: "arp_step ae ae' \<Longrightarrow> entry_ok ae \<Longrightarrow> entry_ok ae'"
  by (induction rule: arp_step.induct) (auto simp: entry_ok_def settled_def arp_constants)

lemma entry_tick_step: "settled ae \<Longrightarrow> entry_tick delta ae = ae \<or> arp_step ae (entry_tick delta ae)"
  using arp_step.age [of ae delta] arp_step.expire [of ae delta]
  by (auto simp: settled_def entry_tick_def)

lemma arp_timer_entry_settled:
  assumes "settled (arp_cache s ! i)" and "i < length (arp_cache s)"
  shows "arp_timer_entry tx delta i s = Inr (entry_put i (entry_tick delta (arp_cache s ! i)) s)"
  using assms
  by (auto simp: arp_timer_entry_def entry_tick_def settled_def Let_def entry_put_def arp_constants)

lemma arp_timer_from_settled:
  assumes "\<forall>ae \<in> set (arp_cache s). settled ae" and "n \<le> length (arp_cache s)"
  shows "arp_timer_from tx delta [m..<n] s = Inr (s\<lparr>arp_cache :=
    map (\<lambda>i. if m \<le> i \<and> i < n then entry_tick delta (arp_cache s ! i) else arp_cache s ! i)
      [0..<length (arp_cache s)]\<rparr>)"
  using assms
proof (induction "n - m" arbitrary: m s)
  case 0
  then have "[m..<n] = []" by auto
  moreover have "map (\<lambda>i. if m \<le> i \<and> i < n then entry_tick delta (arp_cache s ! i) else arp_cache s ! i)
      [0..<length (arp_cache s)] = arp_cache s"
    using 0 by (intro nth_equalityI) auto
  ultimately show ?case by (simp only: arp_timer_from.simps) simp
next
  case (Suc k)
  let ?e = "entry_tick delta (arp_cache s ! m)"
  let ?s = "entry_put m ?e s"
  have m: "m < n" "m < length (arp_cache s)" using Suc.hyps(2) Suc.prems(2) by simp_all
  have st: "settled (arp_cache s ! m)" using Suc.prems(1) m(2) by simp
  have up: "[m..<n] = m # [Suc m..<n]" using m(1) by (rule upt_conv_Cons)
  have "settled ?e" using st by (auto simp: settled_def entry_tick_def)
  then have "\<forall>ae \<in> set (arp_cache ?s). settled ae"
    using Suc.prems(1) set_update_subset_insert [of "arp_cache s" m ?e] by (auto simp: entry_put_def)
  from Suc.hyps(1) [OF _ this, of "Suc m"] have ih: "arp_timer_from tx delta [Suc m..<n] ?s =
      Inr (?s\<lparr>arp_cache := map (\<lambda>i. if Suc m \<le> i \<and> i < n then entry_tick delta (arp_cache ?s ! i)
        else arp_cache ?s ! i) [0..<length (arp_cache ?s)]\<rparr>)"
    using Suc.hyps(2) Suc.prems(2) by (simp add: entry_put_def)
  have "map (\<lambda>i. if Suc m \<le> i \<and> i < n then entry_tick delta (arp_cache ?s ! i)
        else arp_cache ?s ! i) [0..<length (arp_cache ?s)] =
      map (\<lambda>i. if m \<le> i \<and> i < n then entry_tick delta (arp_cache s ! i) else arp_cache s ! i)
        [0..<length (arp_cache s)]"
    using m by (intro nth_equalityI) (auto simp: entry_put_def nth_list_update)
  with ih show ?case
    using arp_timer_entry_settled [OF st m(2), of tx delta] up by (simp add: entry_put_def)
qed

lemma arp_timer_settled:
  assumes "\<forall>ae \<in> set (arp_cache s). settled ae" and "length (arp_cache s) = ARP_CACHE_SZ"
  shows "arp_timer tx delta s = Inr (s\<lparr>arp_cache := map (entry_tick delta) (arp_cache s)\<rparr>)"
proof -
  have "map (\<lambda>i. if 0 \<le> i \<and> i < ARP_CACHE_SZ then entry_tick delta (arp_cache s ! i)
        else arp_cache s ! i) [0..<length (arp_cache s)] = map (entry_tick delta) (arp_cache s)"
    using assms(2) by (intro nth_equalityI) auto
  then show ?thesis
    using arp_timer_from_settled [OF assms(1), of ARP_CACHE_SZ tx delta 0] assms(2)
    by (simp add: arp_timer_def)
qed

text \<open>The request writes its payload behind the allocated bytes.\<close>

lemma arp_request_fault:
  assumes mb: "\<forall>k n. length (mblock s k n) = n" and ok: "malloc_ok s (next_pkb s)"
    and few: "alloc_pkbs s - free_pkbs s < MAX_PKBS"
  shows "arp_request tx i s = Inl C_Fault"
proof -
  let ?k = "next_pkb s"
  let ?p = "\<lparr>pk_pro = 0xffff, pk_type = 0, pk_len = 22, pk_refcnt = 1, pk_indev = None,
      pk_rtdst = None, pk_data = mblock s ?k 22\<rparr>"
  let ?s = "(pkb_put ?k ?p (s\<lparr>next_pkb := ?k + 1\<rparr>))\<lparr>alloc_pkbs := alloc_pkbs s + 1\<rparr>"
  have a: "alloc_pkb 22 s = Inr (Some ?k, ?s)"
    using ok few by (simp add: alloc_pkb_def Let_def pkb_safe_def net_simps)
  have g: "pkb_get ?s ?k = Inr ?p" by (simp add: pkb_get_def pkb_put_def)
  have st: "pk_store ?k off bs s' = Inr (pkb_put ?k (p\<lparr>pk_data := mem_splice off bs (pk_data p)\<rparr>) s')"
    if "pkb_get s' ?k = Inr p" "length (pk_data p) = 22" "off + length bs \<le> 22" for s' p off bs
    using that by (simp add: pk_store_def mem_store_def)
  have fl: "pk_store ?k off bs s' = Inl C_Fault"
    if "pkb_get s' ?k = Inr p" "length (pk_data p) = 22" "22 < off + length bs" for s' p off bs
    using that by (simp add: pk_store_def mem_store_def)
  show ?thesis
    using mb g
    by (cases "dev_get ?s (ae_dev (arp_cache s ! i))")
      (auto simp: arp_request_def a Let_def st fl net_simps le16_def le32_def dev_get_def
        split: option.splits)
qed

end
