(* ===== verification/Net_Dev.thy ===== *)
theory Net_Dev
  imports Net_Arp
begin

text \<open>
  tcpip's devices and the path of a frame (\<open>netdev.c\<close>, \<open>loop_if.c\<close>, \<open>tap_if.c\<close>, \<open>arp.c\<close>): receiving,
  ARP, and transmitting. The functions call each other in a circle through the loopback device; each is
  defined over the transmit function it may call, and \<open>net_tx\<close> closes the circle with fuel.
\<close>

section \<open>Definitions\<close>

subsection \<open>Receiving\<close>

definition mac_cmp :: "bytes \<Rightarrow> bytes \<Rightarrow> bool" where
  "mac_cmp a b \<longleftrightarrow> a \<noteq> b"

definition is_eth_multicast :: "bytes \<Rightarrow> bool" where
  "is_eth_multicast hwa \<longleftrightarrow> hwa ! 0 AND 1 \<noteq> 0"

definition is_eth_broadcast :: "bytes \<Rightarrow> bool" where
  "is_eth_broadcast hwa \<longleftrightarrow>
     hwa ! 0 AND hwa ! 1 AND hwa ! 2 AND hwa ! 3 AND hwa ! 4 AND hwa ! 5 = 0xff"

text \<open>\<open>False\<close> is the NULL of a frame that is too small.\<close>

definition eth_init :: "nat \<Rightarrow> nat \<Rightarrow> net \<Rightarrow> (bool \<times> net) cres" where
  "eth_init d k s =
     rbind (pkb_get s k) (\<lambda>p.
     if pk_len p < int ETH_HDR_LEN then Inr (False, s)
     else
       rbind (pk_load k 0 6 s) (\<lambda>dmac.
       rbind (dev_get s (Some d)) (\<lambda>dev.
       let ty = (if is_eth_multicast dmac then
                   (if is_eth_broadcast dmac then PKT_BROADCAST else PKT_MULTICAST)
                 else if \<not> mac_cmp dmac (net_hwaddr dev) then PKT_LOCALHOST
                 else PKT_OTHERHOST)
       in rbind (pk_load16 k 12 s) (\<lambda>ethertype.
          Inr (True, pkb_put k (p\<lparr>pk_type := ty, pk_pro := htons ethertype, pk_indev := Some d\<rparr>) s)))))"

definition MULTICAST :: "u32 \<Rightarrow> bool" where
  "MULTICAST netip \<longleftrightarrow> 0x000000f0 AND netip = 0x000000e0"

text \<open>
  \<open>arp_reply\<close> turns the request in the buffer into the reply, with the header members in host order
  as \<open>arp_in\<close> left them, and sends it.
\<close>

definition arp_reply :: "tx \<Rightarrow> nat \<Rightarrow> nat \<Rightarrow> net \<Rightarrow> net cres" where
  "arp_reply tx d k s =
     rbind (pk_store k 20 (le16 2) s) (\<lambda>s.
     rbind (pk_load k 22 6 s) (\<lambda>smac.
     rbind (pk_store k 32 smac s) (\<lambda>s.
     rbind (pk_load32 k 28 s) (\<lambda>sip.
     rbind (pk_store k 38 (le32 sip) s) (\<lambda>s.
     rbind (dev_get s (Some d)) (\<lambda>dev.
     rbind (pk_store k 22 (net_hwaddr dev) s) (\<lambda>s.
     rbind (pk_store k 28 (le32 (net_ipaddr dev)) s) (\<lambda>s.
     rbind (pk_load16 k 14 s) (\<lambda>hwtype.
     rbind (pk_store k 14 (le16 (htons hwtype)) s) (\<lambda>s.
     rbind (pk_load16 k 16 s) (\<lambda>protype.
     rbind (pk_store k 16 (le16 (htons protype)) s) (\<lambda>s.
     rbind (pk_load16 k 20 s) (\<lambda>opcode.
     rbind (pk_store k 20 (le16 (htons opcode)) s) (\<lambda>s.
     rbind (pk_load k 6 6 s) (\<lambda>dst.
     rbind (tx (Some d) k 28 ETH_P_ARP dst s) (\<lambda>(_, s). Inr s))))))))))))))))"

definition arp_recv :: "tx \<Rightarrow> nat \<Rightarrow> nat \<Rightarrow> net \<Rightarrow> net cres" where
  "arp_recv tx d k s =
     rbind (pk_load32 k 38 s) (\<lambda>dip.
     rbind (dev_get s (Some d)) (\<lambda>dev.
     if MULTICAST dip then free_pkb k s
     else if dip \<noteq> net_ipaddr dev then free_pkb k s
     else
       rbind (pk_load16 k 16 s) (\<lambda>protype.
       rbind (pk_load32 k 28 s) (\<lambda>sip.
       rbind (pk_load k 22 6 s) (\<lambda>smac.
       rbind (pk_load16 k 20 s) (\<lambda>opcode.
       rbind (case arp_cache_lookup protype sip s of
                Some i \<Rightarrow>
                  let s = entry_put i ((arp_cache s ! i)\<lparr>ae_hwaddr := smac\<rparr>) s in
                  rbind (if ae_state (arp_cache s ! i) = ARP_STATE_WAITING then arp_queue_send tx i s
                         else Inr s) (\<lambda>s.
                  Inr (entry_put i ((arp_cache s ! i)\<lparr>ae_state := ARP_STATE_RESOLVED,
                         ae_ttl := ARP_TTL_TIMEOUT\<rparr>) s))
              | None \<Rightarrow>
                  Inr (if opcode = 1 then snd (arp_cache_insert d protype sip smac s) else s)) (\<lambda>s.
       if opcode = 1 then arp_reply tx d k s else free_pkb k s)))))))"

definition arp_in :: "tx \<Rightarrow> nat \<Rightarrow> nat \<Rightarrow> net \<Rightarrow> (int \<times> net) cres" where
  "arp_in tx d k s =
     (let err = (\<lambda>s. rbind (free_pkb k s) (\<lambda>s. Inr (- 1, s))) in
     rbind (pkb_get s k) (\<lambda>p.
     if pk_type p = PKT_OTHERHOST then err s
     else if 0 \<le> pk_len p \<and> pk_len p < 22 then err s
     else
       rbind (pk_load k 22 6 s) (\<lambda>smac.
       rbind (pk_load k 6 6 s) (\<lambda>esmac.
       if mac_cmp smac esmac then err s
       else
         rbind (pk_load16 k 14 s) (\<lambda>hwtype.
         rbind (pk_store k 14 (le16 (htons hwtype)) s) (\<lambda>s.
         rbind (pk_load16 k 16 s) (\<lambda>protype.
         rbind (pk_store k 16 (le16 (htons protype)) s) (\<lambda>s.
         rbind (pk_load16 k 20 s) (\<lambda>opcode.
         rbind (pk_store k 20 (le16 (htons opcode)) s) (\<lambda>s.
         rbind (pk_load k 18 2 s) (\<lambda>sizes.
         if htons hwtype \<noteq> 1 \<or> htons protype \<noteq> ETH_P_IP \<or> sizes \<noteq> [6, 4] then err s
         else if htons opcode \<noteq> 1 \<and> htons opcode \<noteq> 2 then err s
         else rbind (arp_recv tx d k s) (\<lambda>s. Inr (0, s)))))))))))))"

definition net_rx :: "tx \<Rightarrow> nat \<Rightarrow> nat \<Rightarrow> net \<Rightarrow> (int \<times> net) cres" where
  "net_rx tx d k s =
     rbind (eth_init d k s) (\<lambda>(ehdr, s).
     if \<not> ehdr then rbind (free_pkb k s) (\<lambda>s. Inr (- 1, s))
     else
       rbind (pkb_get s k) (\<lambda>p.
       if pk_pro p = ETH_P_RARP then Inr (0, s)
       else if pk_pro p = ETH_P_ARP then rbind (arp_in tx d k s) (\<lambda>(_, s). Inr (0, s))
       else if pk_pro p = ETH_P_IP then Inr (0, s)
       else rbind (free_pkb k s) (\<lambda>s. Inr (0, s))))"

subsection \<open>Transmitting\<close>

definition stats_upd :: "nat \<Rightarrow> (netstats \<Rightarrow> netstats) \<Rightarrow> net \<Rightarrow> net cres" where
  "stats_upd d f s =
     rbind (dev_get s (Some d)) (\<lambda>dev. Inr (dev_put d (dev\<lparr>net_stats := f (net_stats dev)\<rparr>) s))"

definition loop_recv :: "tx \<Rightarrow> nat \<Rightarrow> nat \<Rightarrow> net \<Rightarrow> net cres" where
  "loop_recv tx d k s =
     rbind (pkb_get s k) (\<lambda>p.
     rbind (stats_upd d (\<lambda>st. st\<lparr>rx_packets := rx_packets st + 1,
              rx_bytes := rx_bytes st + word_of_int (pk_len p)\<rparr>) s) (\<lambda>s.
     rbind (net_rx tx d k s) (\<lambda>(_, s). Inr s)))"

definition loop_dev_xmit :: "tx \<Rightarrow> nat \<Rightarrow> nat \<Rightarrow> net \<Rightarrow> (int \<times> net) cres" where
  "loop_dev_xmit tx d k s =
     rbind (get_pkb k s) (\<lambda>s.
     rbind (loop_recv tx d k s) (\<lambda>s.
     rbind (pkb_get s k) (\<lambda>p.
     rbind (stats_upd d (\<lambda>st. st\<lparr>tx_packets := tx_packets st + 1,
              tx_bytes := tx_bytes st + word_of_int (pk_len p)\<rparr>) s) (\<lambda>s.
     Inr (pk_len p, s)))))"

text \<open>\<open>tap_write\<close> hands \<open>pk_len\<close> bytes of the buffer to the device.\<close>

definition tap_write :: "bytes \<Rightarrow> net \<Rightarrow> int \<times> net" where
  "tap_write buf s = (tap_write_res s buf, s\<lparr>wire := wire s @ [buf]\<rparr>)"

definition veth_dev_xmit :: "nat \<Rightarrow> nat \<Rightarrow> net \<Rightarrow> (int \<times> net) cres" where
  "veth_dev_xmit d k s =
     rbind (pkb_get s k) (\<lambda>p.
     rbind (pk_load k 0 (nat (pk_len p)) s) (\<lambda>buf.
     let (write_len, s) = tap_write buf s in
     rbind (stats_upd d (\<lambda>st. if write_len \<noteq> pk_len p then st\<lparr>tx_errors := tx_errors st + 1\<rparr>
              else st\<lparr>tx_packets := tx_packets st + 1, tx_bytes := tx_bytes st + word_of_int write_len\<rparr>) s)
       (\<lambda>s. Inr (write_len, s))))"

fun net_tx :: "nat \<Rightarrow> tx" where
  "net_tx 0 dopt k len proto dst s = Inl C_Fuel"
| "net_tx (Suc fuel) dopt k len proto dst s =
     rbind (pk_store k 12 (le16 (htons proto)) s) (\<lambda>s.
     rbind (pk_store k 0 dst s) (\<lambda>s.
     rbind (dev_get s dopt) (\<lambda>dev.
     rbind (pk_store k 6 (net_hwaddr dev) s) (\<lambda>s.
     rbind (pkb_get s k) (\<lambda>p.
     let s = pkb_put k (p\<lparr>pk_len := len + int ETH_HDR_LEN\<rparr>) s in
     rbind (case net_ops dev of
              None \<Rightarrow> Inr (0, s)
            | Some loop_ops \<Rightarrow> loop_dev_xmit (net_tx fuel) (the dopt) k s
            | Some veth_ops \<Rightarrow> veth_dev_xmit (the dopt) k s) (\<lambda>(ret, s).
     rbind (free_pkb k s) (\<lambda>s. Inr (ret, s))))))))"

subsection \<open>Devices\<close>

definition zero_stats :: netstats where
  "zero_stats = \<lparr>rx_packets = 0, tx_packets = 0, rx_errors = 0, tx_errors = 0, rx_bytes = 0, tx_bytes = 0\<rparr>"

definition loop_dev_init :: "netdev \<Rightarrow> netdev" where
  "loop_dev_init dev = dev\<lparr>net_mtu := 1500, net_ipaddr := 0x0100007F, net_mask := 0x000000FF\<rparr>"

definition VETH_HWADDR :: bytes where
  "VETH_HWADDR = [0x00, 0x34, 0x45, 0x67, 0x89, 0xab]"

definition veth_dev_init :: "int \<Rightarrow> netdev \<Rightarrow> int \<times> netdev" where
  "veth_dev_init err dev =
     (if err \<noteq> 0 then (err, dev)
      else (0, dev\<lparr>net_mtu := 1500, net_ipaddr := 0x0100000a, net_mask := 0x00ffffff,
                 net_hwaddr := VETH_HWADDR\<rparr>))"

definition netdev_alloc :: "string \<Rightarrow> netdev_ops \<Rightarrow> net \<Rightarrow> (nat option \<times> net) cres" where
  "netdev_alloc devstr ops s =
     (if \<not> calloc_ok s then Inr (None, s)
      else if length devstr \<ge> 16 then Inl C_Fault
      else
        let d = next_dev s;
            dev = \<lparr>net_mtu = 0, net_ipaddr = 0, net_mask = 0, net_hwaddr = replicate 6 0,
                   net_name = devstr, net_ops = Some ops, net_stats = zero_stats\<rparr>;
            dev = (case ops of loop_ops \<Rightarrow> loop_dev_init dev
                   | veth_ops \<Rightarrow> snd (veth_dev_init (tap_alloc_res s) dev))
        in Inr (Some d, (dev_put d dev s)\<lparr>next_dev := d + 1, net_devices := net_devices s @ [d]\<rparr>))"

definition netdev_free :: "nat option \<Rightarrow> net \<Rightarrow> net cres" where
  "netdev_free dopt s =
     rbind (dev_get s dopt) (\<lambda>dev.
     Inr (s\<lparr>net_devices := filter (\<lambda>e. e \<noteq> the dopt) (net_devices s),
            devs := (devs s)(the dopt := None)\<rparr>))"

definition netdev_find :: "u32 \<Rightarrow> net \<Rightarrow> nat option" where
  "netdev_find sip s =
     List.find (\<lambda>d. case devs s d of None \<Rightarrow> False | Some dev \<Rightarrow> net_ipaddr dev = sip) (net_devices s)"

definition loop_init :: "net \<Rightarrow> net cres" where
  "loop_init s = rbind (netdev_alloc ''lo'' loop_ops s) (\<lambda>(d, s). Inr (s\<lparr>loop := d\<rparr>))"

definition veth_init :: "net \<Rightarrow> net cres" where
  "veth_init s = rbind (netdev_alloc ''veth'' veth_ops s) (\<lambda>(d, s). Inr (s\<lparr>veth := d\<rparr>))"

definition netdev_init :: "net \<Rightarrow> net cres" where
  "netdev_init s = rbind (loop_init (s\<lparr>net_devices := []\<rparr>)) veth_init"

definition netdev_exit :: "net \<Rightarrow> net cres" where
  "netdev_exit s = rbind (netdev_free (veth s) s) (\<lambda>s. netdev_free (loop s) s)"

text \<open>
  One turn of \<open>recv_interrupt\<close>: \<open>frame\<close> is what \<open>read\<close> gives, at most the size of the buffer;
  \<open>None\<close> is a failed read. The flag says whether the thread goes on.
\<close>

definition recv_turn :: "tx \<Rightarrow> bytes option \<Rightarrow> net \<Rightarrow> (bool \<times> net) cres" where
  "recv_turn tx frame s =
     rbind (dev_get s (veth s)) (\<lambda>dev.
     let d = the (veth s); size = net_mtu dev + int ETH_HDR_LEN in
     rbind (alloc_pkb size s) (\<lambda>(pkb, s).
     case pkb of
       None \<Rightarrow> Inl C_Fault
     | Some k \<Rightarrow>
         let buf = take (nat size) (case frame of None \<Rightarrow> [] | Some b \<Rightarrow> b) in
         if frame = None \<or> buf = [] then
           rbind (stats_upd d (\<lambda>st. st\<lparr>rx_errors := rx_errors st + 1\<rparr>) s) (\<lambda>s.
           rbind (free_pkb k s) (\<lambda>s. Inr (False, s)))
         else
           rbind (pk_store k 0 buf s) (\<lambda>s.
           rbind (stats_upd d (\<lambda>st. st\<lparr>rx_packets := rx_packets st + 1,
                    rx_bytes := rx_bytes st + word_of_nat (length buf)\<rparr>) s) (\<lambda>s.
           rbind (pkb_get s k) (\<lambda>p.
           rbind (net_rx tx d k (pkb_put k (p\<lparr>pk_len := int (length buf)\<rparr>) s)) (\<lambda>(_, s).
           Inr (True, s)))))))"

fun recv_interrupt :: "tx \<Rightarrow> bytes option list \<Rightarrow> net \<Rightarrow> net cres" where
  "recv_interrupt tx [] s = Inr s"
| "recv_interrupt tx (f # fs) s =
     rbind (recv_turn tx f s) (\<lambda>(go, s). if go then recv_interrupt tx fs s else Inr s)"

section \<open>Accounting\<close>

text \<open>A transmit function that keeps the packet accounting.\<close>

definition tx_ok :: "tx \<Rightarrow> bool" where
  "tx_ok tx \<longleftrightarrow> (\<forall>d k len proto dst s. pkbs_ok s \<longrightarrow>
     post (tx d k len proto dst s) (\<lambda>(_, s'). pkbs_ok s'))"

lemma pkbs_ok_cong:
  "pkbs s' = pkbs s \<Longrightarrow> next_pkb s' = next_pkb s \<Longrightarrow> alloc_pkbs s' = alloc_pkbs s \<Longrightarrow>
   free_pkbs s' = free_pkbs s \<Longrightarrow> pkbs_ok s' = pkbs_ok s"
  by (simp add: pkbs_ok_def live_pkbs_def)

lemma pkbs_ok_entry_put [simp]: "pkbs_ok (entry_put i ae s) = pkbs_ok s"
  by (rule pkbs_ok_cong) (simp_all add: entry_put_def)

lemma pkbs_ok_dev_put [simp]: "pkbs_ok (dev_put d dev s) = pkbs_ok s"
  by (rule pkbs_ok_cong) (simp_all add: dev_put_def)

lemma pkbs_ok_wire [simp]: "pkbs_ok (s\<lparr>wire := w\<rparr>) = pkbs_ok s"
  by (rule pkbs_ok_cong) simp_all

lemma pkbs_ok_insert [simp]: "pkbs_ok (snd (arp_cache_insert d pro ip hw s)) = pkbs_ok s"
  by (rule pkbs_ok_cong)
    (auto simp: arp_cache_insert_def arp_entry_alloc_def entry_put_def Let_def split: prod.splits option.splits)

lemma pkb_set_ok:
  "pkbs_ok s \<Longrightarrow> pkb_get s k = Inr p \<Longrightarrow> pk_refcnt q = pk_refcnt p \<Longrightarrow> pkbs_ok (pkb_put k q s)"
  by (rule pkbs_ok_put) (auto simp: pkbs_ok_def pkb_get_Inr)

lemma pkb_len_ok: "pkbs_ok s \<Longrightarrow> pkb_get s k = Inr p \<Longrightarrow> pkbs_ok (pkb_put k (p\<lparr>pk_len := l\<rparr>) s)"
  by (erule pkb_set_ok) simp_all

text \<open>One rule for each operation, over the rest of the computation.\<close>

named_theorems ok_rules \<open>operations that keep the accounting\<close>

lemma ok_pk_store [ok_rules]:
  "pkbs_ok s \<Longrightarrow> (\<And>s'. pkbs_ok s' \<Longrightarrow> Q s') \<Longrightarrow> post (pk_store k off bs s) Q"
  by (rule post_self) (blast dest: pk_store_ok)

lemma ok_free_pkb [ok_rules]: "pkbs_ok s \<Longrightarrow> (\<And>s'. pkbs_ok s' \<Longrightarrow> Q s') \<Longrightarrow> post (free_pkb k s) Q"
  by (rule post_self) (blast dest: free_pkb_ok)

lemma ok_get_pkb [ok_rules]: "pkbs_ok s \<Longrightarrow> (\<And>s'. pkbs_ok s' \<Longrightarrow> Q s') \<Longrightarrow> post (get_pkb k s) Q"
  by (rule post_self) (blast dest: get_pkb_ok)

lemma ok_alloc_pkb [ok_rules]:
  "pkbs_ok s \<Longrightarrow> (\<And>r s'. pkbs_ok s' \<Longrightarrow> Q (r, s')) \<Longrightarrow> post (alloc_pkb n s) Q"
  by (rule post_self) (auto dest: alloc_pkb_ok)

lemma ok_loads [ok_rules]:
  "(\<And>p. pkb_get s k = Inr p \<Longrightarrow> Q1 p) \<Longrightarrow> post (pkb_get s k) Q1"
  "(\<And>x. Q2 x) \<Longrightarrow> post (pk_load k off n s) Q2" "(\<And>x. Q3 x) \<Longrightarrow> post (pk_load16 k off s) Q3"
  "(\<And>x. Q4 x) \<Longrightarrow> post (pk_load32 k off s) Q4" "(\<And>x. Q5 x) \<Longrightarrow> post (dev_get s dopt) Q5"
  by (simp_all add: post_self)

lemma ok_tx:
  assumes "tx_ok tx" and "pkbs_ok s" and Q: "\<And>r s'. pkbs_ok s' \<Longrightarrow> Q (r, s')"
  shows "post (tx d k len proto dst s) Q"
proof (rule post_weaken)
  show "post (tx d k len proto dst s) (\<lambda>(_, s'). pkbs_ok s')" using assms(1,2) by (simp add: tx_ok_def)
qed (use Q in auto)

lemma ok_stats_upd [ok_rules]:
  "pkbs_ok s \<Longrightarrow> (\<And>s'. pkbs_ok s' \<Longrightarrow> Q s') \<Longrightarrow> post (stats_upd d f s) Q"
  unfolding stats_upd_def by (intro post_rules ok_rules) simp

lemma ok_eth_init [ok_rules]:
  assumes ok: "pkbs_ok s" and Q: "\<And>r s'. pkbs_ok s' \<Longrightarrow> Q (r, s')"
  shows "post (eth_init d k s) Q"
  unfolding eth_init_def
  by (intro post_rules ok_rules Q) (use ok in \<open>auto intro: pkb_set_ok\<close>)

lemma ok_queue_send_loop:
  assumes "tx_ok tx"
  shows "pkbs_ok s \<Longrightarrow> post (queue_send_loop n tx i s) pkbs_ok"
proof (induction n arbitrary: s)
  case 0
  then show ?case by (simp add: post_Inl)
next
  case (Suc n)
  then show ?case
    by (auto simp: Let_def intro!: post_rules ok_rules ok_tx [OF assms] split: list.split)
qed

lemma ok_arp_queue_send:
  "tx_ok tx \<Longrightarrow> pkbs_ok s \<Longrightarrow> (\<And>s'. pkbs_ok s' \<Longrightarrow> Q s') \<Longrightarrow> post (arp_queue_send tx i s) Q"
  unfolding arp_queue_send_def by (rule post_weaken [OF ok_queue_send_loop])

lemma ok_arp_reply:
  "tx_ok tx \<Longrightarrow> pkbs_ok s \<Longrightarrow> (\<And>s'. pkbs_ok s' \<Longrightarrow> Q s') \<Longrightarrow> post (arp_reply tx d k s) Q"
  unfolding arp_reply_def by (intro post_rules ok_rules ok_tx) auto

lemma ok_arp_recv:
  assumes tx: "tx_ok tx" and ok: "pkbs_ok s" and Q: "\<And>s'. pkbs_ok s' \<Longrightarrow> Q s'"
  shows "post (arp_recv tx d k s) Q"
  unfolding arp_recv_def
  by (intro post_rules ok_rules ok_arp_reply [OF tx] ok_arp_queue_send [OF tx])
    (use ok Q in \<open>simp_all split: if_splits\<close>)

lemma ok_arp_in:
  assumes tx: "tx_ok tx" and ok: "pkbs_ok s" and Q: "\<And>r s'. pkbs_ok s' \<Longrightarrow> Q (r, s')"
  shows "post (arp_in tx d k s) Q"
  unfolding arp_in_def
  by (intro post_rules ok_rules ok_arp_recv [OF tx]) (use ok Q in simp_all)

lemma ok_net_rx:
  assumes tx: "tx_ok tx" and ok: "pkbs_ok s" and Q: "\<And>r s'. pkbs_ok s' \<Longrightarrow> Q (r, s')"
  shows "post (net_rx tx d k s) Q"
  unfolding net_rx_def
  by (intro post_rules ok_rules ok_arp_in [OF tx]) (use ok Q in simp_all)

lemma ok_loop_dev_xmit:
  assumes tx: "tx_ok tx" and ok: "pkbs_ok s" and Q: "\<And>r s'. pkbs_ok s' \<Longrightarrow> Q (r, s')"
  shows "post (loop_dev_xmit tx d k s) Q"
  unfolding loop_dev_xmit_def loop_recv_def
  by (intro post_rules ok_rules ok_net_rx [OF tx]) (use ok Q in simp_all)

lemma ok_veth_dev_xmit:
  assumes ok: "pkbs_ok s" and Q: "\<And>r s'. pkbs_ok s' \<Longrightarrow> Q (r, s')"
  shows "post (veth_dev_xmit d k s) Q"
  unfolding veth_dev_xmit_def tap_write_def
  by (intro post_rules ok_rules) (use ok Q in simp_all)

lemma net_tx_ok: "tx_ok (net_tx n)"
proof (induction n)
  case 0
  then show ?case by (simp add: tx_ok_def post_Inl)
next
  case (Suc n)
  show ?case
    unfolding tx_ok_def net_tx.simps
    by (auto simp: Let_def split: netdev_ops.split
        intro!: post_rules ok_rules ok_loop_dev_xmit [OF Suc] ok_veth_dev_xmit pkb_len_ok)
qed

end
