(* ===== verification/Net_Reply.thy ===== *)
theory Net_Reply
  imports Net_Dev
begin

text \<open>
  What an ARP request for the address of the tap device does: the answer that goes out, the entry that
  the cache gets, and the buffer that is freed.
\<close>

section \<open>Frames\<close>

text \<open>The bytes of an ARP frame: the Ethernet header, the ARP header and the IPv4 payload.\<close>

definition arp_frame :: "bytes \<Rightarrow> bytes \<Rightarrow> u8 \<Rightarrow> bytes \<Rightarrow> bytes \<Rightarrow> bytes \<Rightarrow> bytes \<Rightarrow> bytes" where
  "arp_frame dmac smac op sha spa tha tpa =
     dmac @ smac @ [0x08, 0x06] @ [0, 1, 0x08, 0, 6, 4, 0, op] @ sha @ spa @ tha @ tpa"

text \<open>The same frame with the three halfwords of the ARP header in host order.\<close>

definition arp_host :: "bytes \<Rightarrow> bytes \<Rightarrow> u8 \<Rightarrow> bytes \<Rightarrow> bytes \<Rightarrow> bytes \<Rightarrow> bytes \<Rightarrow> bytes" where
  "arp_host dmac smac op sha spa tha tpa =
     dmac @ smac @ [0x08, 0x06] @ [1, 0, 0, 0x08, 6, 4, op, 0] @ sha @ spa @ tha @ tpa"

lemmas slices = mem_slice_def mem_splice_def take_append drop_append

section \<open>Loads and stores on a packet just put\<close>

lemma pk_store_put:
  "off + length bs \<le> length D \<Longrightarrow> pk_store k off bs (pkb_put k (p\<lparr>pk_data := D\<rparr>) s) =
   Inr (pkb_put k (p\<lparr>pk_data := mem_splice off bs D\<rparr>) s)"
  by (simp add: pk_store_def net_simps mem_store_def)

lemma pk_load_put:
  "off + n \<le> length D \<Longrightarrow> pk_load k off n (pkb_put k (p\<lparr>pk_data := D\<rparr>) s) = Inr (mem_slice off n D)"
  by (simp add: pk_load_def net_simps mem_load_def)

lemma pk_load16_put:
  "off + 2 \<le> length D \<Longrightarrow> pk_load16 k off (pkb_put k (p\<lparr>pk_data := D\<rparr>) s) =
   Inr (of_le16 (mem_slice off 2 D))"
  by (simp add: pk_load16_def pk_load_put)

lemma pk_load32_put:
  "off + 4 \<le> length D \<Longrightarrow> pk_load32 k off (pkb_put k (p\<lparr>pk_data := D\<rparr>) s) =
   Inr (of_le32 (mem_slice off 4 D))"
  by (simp add: pk_load32_def pk_load_put)

lemmas put_simps = pk_store_put pk_load_put pk_load16_put pk_load32_put

lemma halfwords:
  "htons (of_le16 [0, 1]) = 1" "htons (of_le16 [8, 0]) = 0x0800" "htons (of_le16 [0, 2]) = 2"
  "htons (of_le16 [8, 6]) = 0x0806" "of_le16 [1, 0] = 1" "of_le16 [0, 8] = 0x0800" "of_le16 [2, 0] = 2"
  "le16 (htons 1) = [0, 1]" "le16 (htons 2) = [0, 2]" "le16 (htons 0x0800) = [8, 0]"
  "le16 (htons 0x0806) = [8, 6]" "le16 1 = [1, 0]" "le16 2 = [2, 0]" "le16 0x0800 = [0, 8]"
  by (simp_all add: htons_def of_le16_def le16_def)

section \<open>Transmitting on the tap device\<close>

lemma net_tx_veth:
  assumes dev: "dev_get s (Some d) = Inr dev" "net_ops dev = Some veth_ops" "length (net_hwaddr dev) = 6"
    and p: "pk_refcnt p = 1" and D: "14 \<le> length D" "nat (len + 14) \<le> length D" "length dst = 6"
  obtains r s' where "net_tx (Suc n) (Some d) k len proto dst (pkb_put k (p\<lparr>pk_data := D\<rparr>) s) = Inr (r, s')"
    "wire s' = wire s @ [take (nat (len + 14)) (dst @ net_hwaddr dev @ le16 (htons proto) @ drop 14 D)]"
    "pkbs s' = (pkbs s)(k := None)" "arp_cache s' = arp_cache s" "arp_next s' = arp_next s"
    "free_pkbs s' = free_pkbs s + 1" "alloc_pkbs s' = alloc_pkbs s"
proof -
  let ?h = "le16 (htons proto)"
  have l2: "length ?h = 2" by (simp add: le16_def)
  let ?D = "dst @ net_hwaddr dev @ ?h @ drop 14 D"
  have len: "length ?D = length D" using D dev(3) l2 by simp
  have D1: "mem_splice 6 (net_hwaddr dev) (mem_splice 0 dst (mem_splice 12 ?h D)) = ?D"
    using D dev(3) l2 by (simp add: slices)
  have l: "length (mem_splice 12 ?h D) = length D" "length (mem_splice 0 dst (mem_splice 12 ?h D)) = length D"
    using D l2 by simp_all
  let ?p = "p\<lparr>pk_data := ?D, pk_len := len + 14\<rparr>"
  let ?s = "pkb_put k ?p s"
  let ?buf = "take (nat (len + 14)) ?D"
  let ?st = "net_stats dev"
  let ?w = "tap_write_res s ?buf"
  let ?dev = "dev\<lparr>net_stats := if ?w \<noteq> len + 14 then ?st\<lparr>tx_errors := tx_errors ?st + 1\<rparr>
     else ?st\<lparr>tx_packets := tx_packets ?st + 1, tx_bytes := tx_bytes ?st + word_of_int ?w\<rparr>\<rparr>"
  have ld: "pk_load k 0 (nat (len + 14)) ?s = Inr ?buf"
    using D(2) len by (simp add: pk_load_def net_simps mem_load_def mem_slice_def)
  have dg: "dev_get (?s\<lparr>wire := wire s @ [?buf]\<rparr>) (Some d) = Inr dev"
    using dev(1) by (simp add: dev_get_def net_simps split: option.splits)
  have x: "veth_dev_xmit d k ?s = Inr (?w, dev_put d ?dev (?s\<lparr>wire := wire s @ [?buf]\<rparr>))"
    using ld dg by (simp add: veth_dev_xmit_def net_simps tap_write_def stats_upd_def)
  have st: "net_tx (Suc n) (Some d) k len proto dst (pkb_put k (p\<lparr>pk_data := D\<rparr>) s) =
      rbind (veth_dev_xmit d k ?s) (\<lambda>(ret, s). rbind (free_pkb k s) (\<lambda>s. Inr (ret, s)))"
    using dev D l l2 by (simp add: put_simps net_simps D1 ETH_HDR_LEN_def)
  let ?t = "dev_put d ?dev (?s\<lparr>wire := wire s @ [?buf]\<rparr>)"
  have g: "pkb_get ?t k = Inr ?p" by (simp add: pkb_get_def dev_put_def pkb_put_def)
  have "net_tx (Suc n) (Some d) k len proto dst (pkb_put k (p\<lparr>pk_data := D\<rparr>) s) =
      Inr (?w, ?t\<lparr>free_pkbs := free_pkbs ?t + 1, pkbs := (pkbs ?t)(k := None)\<rparr>)"
    unfolding st x using g p by (simp add: free_pkb_def)
  then show ?thesis by (rule that) (simp_all add: dev_put_def net_simps)
qed

section \<open>The request\<close>

lemma insert_put:
  "snd (arp_cache_insert d pro ip hw (pkb_put k p s)) = pkb_put k p (snd (arp_cache_insert d pro ip hw s))"
  by (auto simp: arp_cache_insert_def arp_entry_alloc_def entry_put_def pkb_put_def Let_def
      split: prod.splits option.splits)

lemma insert_frame:
  "wire (snd (arp_cache_insert d pro ip hw s)) = wire s"
  "pkbs (snd (arp_cache_insert d pro ip hw s)) = pkbs s"
  "devs (snd (arp_cache_insert d pro ip hw s)) = devs s"
  "free_pkbs (snd (arp_cache_insert d pro ip hw s)) = free_pkbs s"
  "alloc_pkbs (snd (arp_cache_insert d pro ip hw s)) = alloc_pkbs s"
  by (auto simp: arp_cache_insert_def arp_entry_alloc_def entry_put_def Let_def
      split: prod.splits option.splits)

lemma arp_in_host:
  assumes p: "pk_type p \<noteq> PKT_OTHERHOST" "42 \<le> pk_len p"
    and len: "length dmac = 6" "length smac = 6" "length spa = 4" "length tha = 6" "length tpa = 4"
    and op: "op = 1 \<or> op = 2"
  shows "arp_in tx d k (pkb_put k (p\<lparr>pk_data := arp_frame dmac smac op smac spa tha tpa @ rest\<rparr>) s) =
    rbind (arp_recv tx d k (pkb_put k (p\<lparr>pk_data := arp_host dmac smac op smac spa tha tpa @ rest\<rparr>) s))
      (\<lambda>s. Inr (0, s))"
proof -
  define f where "f = arp_frame dmac smac op smac spa tha tpa @ rest"
  define f1 where
    "f1 = dmac @ smac @ [0x08, 0x06] @ [1, 0, 0x08, 0, 6, 4, 0, op] @ smac @ spa @ tha @ tpa @ rest"
  define f2 where
    "f2 = dmac @ smac @ [0x08, 0x06] @ [1, 0, 0, 0x08, 6, 4, 0, op] @ smac @ spa @ tha @ tpa @ rest"
  define f3 where "f3 = arp_host dmac smac op smac spa tha tpa @ rest"
  have l: "length f = 42 + length rest" "length f1 = 42 + length rest" "length f2 = 42 + length rest"
    "length f3 = 42 + length rest"
    using len by (simp_all add: arp_frame_def arp_host_def f_def f1_def f2_def f3_def)
  have s1: "mem_slice 22 6 f = smac" "mem_slice 6 6 f = smac" "mem_slice 14 2 f = [0, 1]"
    "mem_splice 14 [1, 0] f = f1"
    using len by (simp_all add: arp_frame_def slices f_def f1_def)
  have s2: "mem_slice 16 2 f1 = [8, 0]" "mem_splice 16 [0, 8] f1 = f2"
    using len by (simp_all add: slices f1_def f2_def)
  have s3: "mem_slice 20 2 f2 = [0, op]" "mem_splice 20 [op, 0] f2 = f3"
    using len by (simp_all add: slices arp_host_def f2_def f3_def)
  have s4: "mem_slice 18 2 f3 = [6, 4]" using len by (simp add: slices arp_host_def f3_def)
  have h: "le16 (htons (of_le16 [0, op])) = [op, 0]" "htons (of_le16 [0, op]) = 1 \<or> htons (of_le16 [0, op]) = 2"
    using op by (auto simp: halfwords)
  have hw: "le16 (htons (of_le16 [0, 1])) = [1, 0]" "le16 (htons (of_le16 [8, 0])) = [0, 8]"
    by (simp_all add: halfwords)
  show ?thesis
    unfolding arp_in_def f_def [symmetric] f3_def [symmetric]
    using p l h by (simp add: net_simps put_simps mac_cmp_def s1 s2 s3 s4 hw halfwords ETH_P_IP_def Let_def)
      blast
qed

text \<open>What the update of the cache leaves alone.\<close>

lemma arp_reply_sends:
  assumes dev: "dev_get s (Some d) = Inr dev" "net_ops dev = Some veth_ops" "length (net_hwaddr dev) = 6"
    and p: "pk_refcnt p = 1"
    and len: "length dmac = 6" "length smac = 6" "length spa = 4" "length tha = 6" "length tpa = 4"
  obtains s' where
    "arp_reply (net_tx (Suc n)) d k
      (pkb_put k (p\<lparr>pk_data := arp_host dmac smac 1 smac spa tha tpa @ rest\<rparr>) s) = Inr s'"
    "wire s' = wire s @ [arp_frame smac (net_hwaddr dev) 2 (net_hwaddr dev) (le32 (net_ipaddr dev)) smac spa]"
    "pkbs s' = (pkbs s)(k := None)" "arp_cache s' = arp_cache s" "free_pkbs s' = free_pkbs s + 1"
    "alloc_pkbs s' = alloc_pkbs s"
proof -
  let ?hw = "net_hwaddr dev" and ?ip = "le32 (net_ipaddr dev)"
  define f where "f = arp_host dmac smac 1 smac spa tha tpa @ rest"
  define f1 where "f1 = (dmac @ smac @ [0x08, 0x06]) @ [1, 0, 0, 8, 6, 4, 2, 0] @ smac @ spa @ tha @ tpa @ rest"
  define f2 where "f2 = (dmac @ smac @ [0x08, 0x06]) @ [1, 0, 0, 8, 6, 4, 2, 0] @ smac @ spa @ smac @ tpa @ rest"
  define f3 where "f3 = (dmac @ smac @ [0x08, 0x06]) @ [1, 0, 0, 8, 6, 4, 2, 0] @ smac @ spa @ smac @ spa @ rest"
  define f4 where "f4 = (dmac @ smac @ [0x08, 0x06]) @ [1, 0, 0, 8, 6, 4, 2, 0] @ ?hw @ spa @ smac @ spa @ rest"
  define f5 where "f5 = (dmac @ smac @ [0x08, 0x06]) @ [1, 0, 0, 8, 6, 4, 2, 0] @ ?hw @ ?ip @ smac @ spa @ rest"
  define f6 where "f6 = (dmac @ smac @ [0x08, 0x06]) @ [0, 1, 0, 8, 6, 4, 2, 0] @ ?hw @ ?ip @ smac @ spa @ rest"
  define f7 where "f7 = (dmac @ smac @ [0x08, 0x06]) @ [0, 1, 8, 0, 6, 4, 2, 0] @ ?hw @ ?ip @ smac @ spa @ rest"
  define f8 where "f8 = (dmac @ smac @ [0x08, 0x06]) @ [0, 1, 8, 0, 6, 4, 0, 2] @ ?hw @ ?ip @ smac @ spa @ rest"
  note f_defs = f_def f1_def f2_def f3_def f4_def f5_def f6_def f7_def f8_def
  have l: "length f = 42 + length rest" "length f1 = 42 + length rest" "length f2 = 42 + length rest"
    "length f3 = 42 + length rest" "length f4 = 42 + length rest" "length f5 = 42 + length rest"
    "length f6 = 42 + length rest" "length f7 = 42 + length rest" "length f8 = 42 + length rest"
    using len dev(3) by (simp_all add: arp_host_def f_defs)
  have e: "mem_splice 20 [2, 0] f = f1" "mem_slice 22 6 f1 = smac" "mem_splice 32 smac f1 = f2"
    "mem_slice 28 4 f2 = spa" "mem_splice 38 spa f2 = f3" "mem_splice 22 ?hw f3 = f4"
    using len dev(3) by (simp_all add: slices arp_host_def f_defs)
  have e': "mem_splice 28 ?ip f4 = f5" "mem_slice 14 2 f5 = [1, 0]" "mem_splice 14 [0, 1] f5 = f6"
    "mem_slice 16 2 f6 = [0, 8]" "mem_splice 16 [8, 0] f6 = f7" "mem_slice 20 2 f7 = [2, 0]"
    "mem_splice 20 [0, 2] f7 = f8" "mem_slice 6 6 f8 = smac"
    using len dev(3) by (simp_all add: slices f_defs)
  have rev: "le32 (of_le32 spa) = spa" using len(3) by (rule le32_of_le32)
  have st: "arp_reply (net_tx (Suc n)) d k (pkb_put k (p\<lparr>pk_data := f\<rparr>) s) =
      rbind (net_tx (Suc n) (Some d) k 28 ETH_P_ARP smac (pkb_put k (p\<lparr>pk_data := f8\<rparr>) s))
        (\<lambda>(_, s). Inr s)"
    unfolding arp_reply_def
    using len dev(3)
    by (simp add: put_simps l dev(1) halfwords e e' rev pkb_put_frame del: net_tx.simps)
  obtain r s' where tx: "net_tx (Suc n) (Some d) k 28 ETH_P_ARP smac (pkb_put k (p\<lparr>pk_data := f8\<rparr>) s) = Inr (r, s')"
    "wire s' = wire s @ [take (nat (28 + 14)) (smac @ ?hw @ le16 (htons ETH_P_ARP) @ drop 14 f8)]"
    "pkbs s' = (pkbs s)(k := None)" "arp_cache s' = arp_cache s" "arp_next s' = arp_next s"
    "free_pkbs s' = free_pkbs s + 1" "alloc_pkbs s' = alloc_pkbs s"
    by (rule net_tx_veth [OF dev p, of f8 28 smac n k ETH_P_ARP]) (use l len in simp_all)
  have "take (nat (28 + 14)) (smac @ ?hw @ le16 (htons ETH_P_ARP) @ drop 14 f8) =
      arp_frame smac ?hw 2 ?hw ?ip smac spa"
    using len dev(3) by (simp add: slices arp_frame_def halfwords ETH_P_ARP_def f8_def)
  then show ?thesis using that [of s'] st tx unfolding f_def by simp
qed

section \<open>The whole path\<close>

text \<open>
  A request for the address of a tap device, received in a buffer \<open>p\<close> of which the code holds the only
  reference, while the cache does not know the sender and has a free entry.
\<close>

lemma eth_init_arp:
  assumes dev: "dev_get s (Some d) = Inr dev"
    and p: "14 \<le> pk_len p" and len: "length dmac = 6" "length smac = 6"
    and dst: "dmac = net_hwaddr dev \<or> is_eth_multicast dmac"
  obtains ty where "eth_init d k (pkb_put k (p\<lparr>pk_data := arp_frame dmac smac op sha spa tha tpa @ rest\<rparr>) s) =
    Inr (True, pkb_put k (p\<lparr>pk_type := ty, pk_pro := ETH_P_ARP, pk_indev := Some d,
      pk_data := arp_frame dmac smac op sha spa tha tpa @ rest\<rparr>) s)" "ty \<noteq> PKT_OTHERHOST"
proof -
  define f where "f = arp_frame dmac smac op sha spa tha tpa @ rest"
  have l: "14 \<le> length f" using len by (simp add: f_def arp_frame_def)
  have sl: "mem_slice 0 6 f = dmac" "mem_slice 12 2 f = [8, 6]"
    using len by (simp_all add: f_def arp_frame_def slices)
  let ?ty = "if is_eth_multicast dmac then
      (if is_eth_broadcast dmac then PKT_BROADCAST else PKT_MULTICAST)
    else if \<not> mac_cmp dmac (net_hwaddr dev) then PKT_LOCALHOST else PKT_OTHERHOST"
  have "eth_init d k (pkb_put k (p\<lparr>pk_data := f\<rparr>) s) =
      Inr (True, pkb_put k (p\<lparr>pk_data := f, pk_type := ?ty, pk_pro := ETH_P_ARP, pk_indev := Some d\<rparr>) s)"
    using p l sl dev
    by (simp add: eth_init_def net_simps put_simps ETH_HDR_LEN_def ETH_P_ARP_def halfwords Let_def
        cong: if_cong)
  moreover have "p\<lparr>pk_data := f, pk_type := t, pk_pro := b, pk_indev := c\<rparr> =
      p\<lparr>pk_type := t, pk_pro := b, pk_indev := c, pk_data := f\<rparr>" for t b c
    by (cases p) simp
  moreover have "?ty \<noteq> PKT_OTHERHOST" using dst by (auto simp: PKT_defs mac_cmp_def)
  ultimately show ?thesis using that [of ?ty] unfolding f_def by simp
qed

lemma arp_request_answered:
  assumes dev: "dev_get s (Some d) = Inr dev" "net_ops dev = Some veth_ops" "length (net_hwaddr dev) = 6"
    and p: "pkb_get s k = Inr p" "pk_refcnt p = 1" "42 \<le> pk_len p"
    and len: "length dmac = 6" "length smac = 6" "length spa = 4" "length tha = 6"
    and frame: "pk_data p = arp_frame dmac smac 1 smac spa tha (le32 (net_ipaddr dev)) @ rest"
    and dst: "dmac = net_hwaddr dev \<or> is_eth_multicast dmac"
    and uni: "\<not> MULTICAST (net_ipaddr dev)"
    and cache: "cache_ok s" "arp_has_room s" "arp_hw (ETH_P_IP, of_le32 spa) s = None"
  obtains s' where "net_rx (net_tx (Suc n)) d k s = Inr (0, s')"
    "wire s' = wire s @ [arp_frame smac (net_hwaddr dev) 2 (net_hwaddr dev) (le32 (net_ipaddr dev)) smac spa]"
    "arp_hw (ETH_P_IP, of_le32 spa) s' = Some smac"
    "\<forall>key. key \<noteq> (ETH_P_IP, of_le32 spa) \<longrightarrow> arp_hw key s' = arp_hw key s"
    "pkbs s' = (pkbs s)(k := None)" "free_pkbs s' = free_pkbs s + 1" "alloc_pkbs s' = alloc_pkbs s"
proof -
  let ?tpa = "le32 (net_ipaddr dev)" and ?ip = "of_le32 spa"
  let ?f = "arp_frame dmac smac 1 smac spa tha ?tpa @ rest"
  have l4: "length ?tpa = 4" by simp
  have s: "s = pkb_put k (p\<lparr>pk_data := ?f\<rparr>) s"
    using p(1) frame by (simp add: pkb_put_def pkb_get_Inr fun_upd_idem)
  obtain ty where eth: "eth_init d k (pkb_put k (p\<lparr>pk_data := ?f\<rparr>) s) = Inr (True, pkb_put k (p\<lparr>pk_type := ty,
      pk_pro := ETH_P_ARP, pk_indev := Some d, pk_data := ?f\<rparr>) s)" "ty \<noteq> PKT_OTHERHOST"
    by (rule eth_init_arp [OF dev(1) _ len(1,2) dst, of p k 1 smac spa tha ?tpa rest]) (use p(3) in simp)
  let ?p = "p\<lparr>pk_type := ty, pk_pro := ETH_P_ARP, pk_indev := Some d\<rparr>"
  define g where "g = arp_host dmac smac 1 smac spa tha ?tpa @ rest"
  have lg: "42 \<le> length g" using len l4 by (simp add: g_def arp_host_def)
  have sl: "mem_slice 38 4 g = ?tpa" "mem_slice 16 2 g = [0, 8]" "mem_slice 28 4 g = spa"
    "mem_slice 22 6 g = smac" "mem_slice 20 2 g = [1, 0]"
    using len by (simp_all add: g_def arp_host_def slices)
  let ?i = "snd (arp_cache_insert d ETH_P_IP ?ip smac s)"
  have look: "arp_cache_lookup ETH_P_IP ?ip (pkb_put k (?p\<lparr>pk_data := g\<rparr>) s) = None"
    using cache(3) by (simp add: arp_hw_def arp_cache_lookup_def net_simps split: option.splits)
  have recv: "arp_recv (net_tx (Suc n)) d k (pkb_put k (?p\<lparr>pk_data := g\<rparr>) s) =
      arp_reply (net_tx (Suc n)) d k (pkb_put k (?p\<lparr>pk_data := g\<rparr>) ?i)"
    unfolding arp_recv_def
    using lg dev(1) uni look
    by (simp add: put_simps sl halfwords net_simps insert_put ETH_P_IP_def [symmetric] del: net_tx.simps)
  have dev': "dev_get ?i (Some d) = Inr dev" using dev(1) by (simp add: dev_get_def insert_frame)
  obtain s' where rep: "arp_reply (net_tx (Suc n)) d k (pkb_put k (?p\<lparr>pk_data := g\<rparr>) ?i) = Inr s'"
    "wire s' = wire ?i @ [arp_frame smac (net_hwaddr dev) 2 (net_hwaddr dev) ?tpa smac spa]"
    "pkbs s' = (pkbs ?i)(k := None)" "arp_cache s' = arp_cache ?i" "free_pkbs s' = free_pkbs ?i + 1"
    "alloc_pkbs s' = alloc_pkbs ?i"
    unfolding g_def
    by (rule arp_reply_sends [OF dev' dev(2,3) _ len l4, of ?p n k rest]) (use p(2) in simp_all)
  have ain: "arp_in (net_tx (Suc n)) d k (pkb_put k (?p\<lparr>pk_data := ?f\<rparr>) s) = Inr (0, s')"
    unfolding arp_in_host [OF _ _ len l4, of ?p 1, simplified, OF eth(2) p(3)] g_def [symmetric]
    using recv rep(1) by simp
  have rx: "net_rx (net_tx (Suc n)) d k s = Inr (0, s')"
    apply (subst s)
    using eth(1) ain by (simp add: net_rx_def net_simps eth_constants del: net_tx.simps)
  note lk = arp_insert_lookup [OF cache, where nd = d and hw = smac]
  have hw: "arp_hw key s' = arp_hw key ?i" for key
    by (simp only: arp_hw_def arp_cache_lookup_def rep(4))
  show ?thesis
    by (rule that [OF rx]) (use rep lk hw in \<open>simp_all add: insert_frame\<close>)
qed

end
