(* ===== verification/Net_Route.thy ===== *)
theory Net_Route
  imports Net_Dev
begin

text \<open>
  tcpip's routing table and its IP input (\<open>route.c\<close>, \<open>ip.h\<close>, \<open>ip.c\<close>): longest-prefix lookup in a list
  kept in descending order of the masks, the checks on a received packet, and forwarding.
\<close>

section \<open>Definitions\<close>

subsection \<open>Routes\<close>

definition RT_NONE :: u32 where "RT_NONE = 0"
definition RT_LOCALHOST :: u32 where "RT_LOCALHOST = 1"
definition RT_DEFAULT :: u32 where "RT_DEFAULT = 2"

definition rt_matches :: "u32 \<Rightarrow> rtentry \<Rightarrow> bool" where
  "rt_matches ipaddr rt \<longleftrightarrow> rt_netmask rt AND ipaddr = rt_netmask rt AND rt_net rt"

definition rt_lookup :: "u32 \<Rightarrow> net \<Rightarrow> rtentry option" where
  "rt_lookup ipaddr s = List.find (rt_matches ipaddr) (rt_table s)"

text \<open>The new entry goes in front of the first one whose mask is not larger, at the end if there is none.\<close>

fun rt_insert :: "rtentry \<Rightarrow> rtentry list \<Rightarrow> rtentry list" where
  "rt_insert rt [] = [rt]"
| "rt_insert rt (rte # rest) =
     (if rt_netmask rt \<ge> rt_netmask rte then rt # rte # rest else rte # rt_insert rt rest)"

definition rt_alloc :: "bool \<Rightarrow> u32 \<Rightarrow> u32 \<Rightarrow> u32 \<Rightarrow> int \<Rightarrow> u32 \<Rightarrow> nat \<Rightarrow> rtentry option" where
  "rt_alloc ok n netmask gw metric flags dev =
     (if ok then Some \<lparr>rt_net = n, rt_netmask = netmask, rt_gw = gw, rt_flags = flags,
                   rt_metric = metric, rt_dev = dev\<rparr>
      else None)"

definition rt_add :: "u32 \<Rightarrow> u32 \<Rightarrow> u32 \<Rightarrow> int \<Rightarrow> u32 \<Rightarrow> nat \<Rightarrow> net \<Rightarrow> net" where
  "rt_add n netmask gw metric flags dev s =
     (case rt_alloc (calloc_ok s) n netmask gw metric flags dev of
        None \<Rightarrow> s
      | Some rt \<Rightarrow> s\<lparr>rt_table := rt_insert rt (rt_table s)\<rparr>)"

definition LOCALNET :: "netdev \<Rightarrow> u32" where
  "LOCALNET dev = net_ipaddr dev AND net_mask dev"

definition FAKE_TAP_ADDR :: u32 where "FAKE_TAP_ADDR = 0x0200000a"

definition rt_init :: "net \<Rightarrow> net cres" where
  "rt_init s =
     rbind (dev_get s (loop s)) (\<lambda>lo.
     rbind (dev_get s (veth s)) (\<lambda>ve.
     Inr (rt_add 0 0 FAKE_TAP_ADDR 0 RT_DEFAULT (the (veth s))
         (rt_add (LOCALNET ve) (net_mask ve) 0 0 RT_NONE (the (veth s))
         (rt_add (net_ipaddr ve) 0xffffffff 0 0 RT_LOCALHOST (the (loop s))
         (rt_add (LOCALNET lo) (net_mask lo) 0 0 RT_LOCALHOST (the (loop s)) s))))))"

subsection \<open>IP headers\<close>

definition swap16 :: "nat \<Rightarrow> nat \<Rightarrow> net \<Rightarrow> net cres" where
  "swap16 k off s = rbind (pk_load16 k off s) (\<lambda>v. pk_store k off (le16 (htons v)) s)"

definition ip_ntoh :: "nat \<Rightarrow> net \<Rightarrow> net cres" where
  "ip_ntoh k s = rbind (swap16 k 16 s) (\<lambda>s. rbind (swap16 k 18 s) (swap16 k 20))"

definition pk_load8 :: "nat \<Rightarrow> nat \<Rightarrow> net \<Rightarrow> u8 cres" where
  "pk_load8 k off s = rbind (pk_load k off 1 s) (\<lambda>bs. Inr (bs ! 0))"

definition ipver :: "u8 \<Rightarrow> u8" where
  "ipver b = drop_bit 4 b"

definition iphlen :: "u8 \<Rightarrow> nat" where
  "iphlen b = 4 * unat (b AND 15)"

subsection \<open>Routing a packet\<close>

definition rt_input :: "nat \<Rightarrow> net \<Rightarrow> (int \<times> net) cres" where
  "rt_input k s =
     rbind (pk_load32 k 30 s) (\<lambda>daddr.
     case rt_lookup daddr s of
       None \<Rightarrow> rbind (ip_ntoh k s) (\<lambda>s. rbind (free_pkb k s) (\<lambda>s. Inr (- 1, s)))
     | Some rt \<Rightarrow>
         rbind (pkb_get s k) (\<lambda>p. Inr (0, pkb_put k (p\<lparr>pk_rtdst := Some rt\<rparr>) s)))"

definition rt_output :: "nat \<Rightarrow> net \<Rightarrow> (int \<times> net) cres" where
  "rt_output k s =
     rbind (pk_load32 k 30 s) (\<lambda>daddr.
     case rt_lookup daddr s of
       None \<Rightarrow> Inr (- 1, s)
     | Some rt \<Rightarrow>
         rbind (pkb_get s k) (\<lambda>p.
         rbind (dev_get s (Some (rt_dev rt))) (\<lambda>dev.
         rbind (pk_store k 26 (le32 (net_ipaddr dev)) (pkb_put k (p\<lparr>pk_rtdst := Some rt\<rparr>) s)) (\<lambda>s.
         Inr (0, s)))))"

definition rt_line :: "net \<Rightarrow> rtentry \<Rightarrow> string" where
  "rt_line s rt =
     (if rt_flags rt AND RT_LOCALHOST \<noteq> 0 then []
      else (if rt_flags rt AND RT_DEFAULT \<noteq> 0 then ''default         '' else IP_FMT (rt_net rt)) @
        (if rt_gw rt = 0 then ''*               '' else IP_FMT (rt_gw rt)) @
        IP_FMT (rt_netmask rt) @ pad_right 7 (show_int (rt_metric rt)) @
        (case devs s (rt_dev rt) of None \<Rightarrow> [] | Some dev \<Rightarrow> net_name dev) @ [CHR 0x0A])"

definition rt_traverse :: "net \<Rightarrow> string" where
  "rt_traverse s =
     (if rt_table s = [] then []
      else ''Destination     Gateway         Genmask         Metric Iface'' @ [CHR 0x0A] @
        concat (map (rt_line s) (rt_table s)))"

subsection \<open>IP input\<close>

text \<open>
  The upper protocols are commented out in the source: their packets are kept, every other is freed.
\<close>

definition ip_recv_local :: "nat \<Rightarrow> net \<Rightarrow> net cres" where
  "ip_recv_local k s =
     rbind (pk_load16 k 20 s) (\<lambda>frag_offset.
     if frag_offset AND (0x1fff OR 0x2000) \<noteq> 0 \<and> frag_offset AND 0x4000 \<noteq> 0 then free_pkb k s
     else
       rbind (pk_load8 k 23 s) (\<lambda>proto.
       if proto = 1 then Inr s
       else if proto = 6 then Inr s
       else if proto = 17 then Inr s
       else free_pkb k s))"

text \<open>
  \<open>ip_forward\<close>: the new checksum is computed over the header with the old one still in it. Behind the
  checks the packet is neither sent nor freed, since the sending is commented out; the test for an ICMP
  redirect looks up a route and has no effect.
\<close>

definition ip_forward :: "nat \<Rightarrow> net \<Rightarrow> net cres" where
  "ip_forward k s =
     rbind (pkb_get s k) (\<lambda>p.
     rbind (pk_load8 k 22 s) (\<lambda>ttl.
     if ttl \<le> 1 then free_pkb k s
     else
       rbind (pk_store k 22 [ttl - 1] s) (\<lambda>s.
       rbind (pk_load8 k 14 s) (\<lambda>b.
       rbind (pk_load k 14 (iphlen b) s) (\<lambda>hdr.
       rbind (pk_store k 24 (le16 (checksum hdr 0)) s) (\<lambda>s.
       case pk_rtdst p of
         None \<Rightarrow> Inl C_Fault
       | Some rt \<Rightarrow>
           rbind (pk_load16 k 16 s) (\<lambda>len.
           rbind (dev_get s (Some (rt_dev rt))) (\<lambda>dev.
           if int (unat (htons len)) > net_mtu dev then
             rbind (pk_load16 k 20 s) (\<lambda>frag_offset.
             if frag_offset AND htons 0x4000 \<noteq> 0 then free_pkb k s else Inr s)
           else Inr s))))))))"

definition ip_recv_route :: "nat \<Rightarrow> net \<Rightarrow> net cres" where
  "ip_recv_route k s =
     rbind (rt_input k s) (\<lambda>(r, s).
     if r < 0 then Inr s
     else
       rbind (pkb_get s k) (\<lambda>p.
       case pk_rtdst p of
         None \<Rightarrow> Inl C_Fault
       | Some rt \<Rightarrow>
           if rt_flags rt AND RT_LOCALHOST \<noteq> 0 then ip_recv_local k s
           else rbind (ip_ntoh k s) (ip_forward k)))"

definition ip_in :: "nat \<Rightarrow> nat \<Rightarrow> net \<Rightarrow> net cres" where
  "ip_in d k s =
     rbind (pkb_get s k) (\<lambda>p.
     if pk_type p = PKT_OTHERHOST then free_pkb k s
     else if pk_len p < 34 then free_pkb k s
     else
       rbind (pk_load8 k 14 s) (\<lambda>b.
       if ipver b \<noteq> 4 then free_pkb k s
       else if iphlen b < 20 then free_pkb k s
       else
         rbind (pk_load k 14 (iphlen b) s) (\<lambda>hdr.
         if checksum hdr 0 \<noteq> 0 then free_pkb k s
         else
           rbind (ip_ntoh k s) (\<lambda>s.
           rbind (pk_load16 k 16 s) (\<lambda>len.
           if unat len < iphlen b \<or> pk_len p < 14 + int (unat len) then free_pkb k s
           else
             rbind (if pk_len p > 14 + int (unat len) then pkb_trim k (14 + int (unat len)) s
                    else Inr s) (ip_recv_route k))))))"

section \<open>The routing table\<close>

definition rt_sorted :: "rtentry list \<Rightarrow> bool" where
  "rt_sorted tbl \<longleftrightarrow> sorted_wrt (\<lambda>a b. rt_netmask b \<le> rt_netmask a) tbl"

lemma set_rt_insert [simp]: "set (rt_insert rt tbl) = insert rt (set tbl)"
  by (induction tbl) auto

lemma rt_sorted_insert: "rt_sorted tbl \<Longrightarrow> rt_sorted (rt_insert rt tbl)"
  by (induction tbl) (auto simp: rt_sorted_def)

lemma find_sorted:
  "rt_sorted tbl \<Longrightarrow> List.find (rt_matches ip) tbl = Some rt \<Longrightarrow>
   rt \<in> set tbl \<and> rt_matches ip rt \<and> (\<forall>r \<in> set tbl. rt_matches ip r \<longrightarrow> rt_netmask r \<le> rt_netmask rt)"
  by (induction tbl) (auto simp: rt_sorted_def split: if_splits)

text \<open>The mask of a prefix length, in network order on the little-endian host.\<close>

definition prefix_mask :: "nat \<Rightarrow> u32" where
  "prefix_mask n = of_le32 (rev (le32 (NOT (mask (32 - n)))))"

lemma prefix_mask_less:
  assumes "m < n" and "n \<le> 32"
  shows "prefix_mask m < prefix_mask n"
proof -
  have step: "prefix_mask i < prefix_mask (Suc i)" if "i < 32" for i
  proof -
    have "list_all (\<lambda>i. prefix_mask i < prefix_mask (Suc i)) [0..<32]"
      by code_simp
    then show ?thesis using that by (simp add: list_all_iff)
  qed
  show ?thesis
    using assms
  proof (induction n)
    case (Suc n)
    then show ?case using step [of n] by (cases "m = n") (auto intro: less_trans)
  qed simp
qed

end
