(* ===== verification/Net_Ip.thy ===== *)
theory Net_Ip
  imports Net_Route
begin

text \<open>IP input and forwarding: no received packet makes it fault, and what forwarding writes.\<close>

section \<open>Input is safe\<close>

text \<open>
  The packet \<open>k\<close> is live with a positive count and has at least \<open>n\<close> bytes, every route has its device,
  and \<open>realloc\<close> leaves blocks where they are.
\<close>

definition ip_state :: "nat \<Rightarrow> nat \<Rightarrow> net \<Rightarrow> bool" where
  "ip_state n k s \<longleftrightarrow> (\<exists>p. pkb_get s k = Inr p \<and> n \<le> length (pk_data p)) \<and>
     (\<forall>rt \<in> set (rt_table s). devs s (rt_dev rt) \<noteq> None) \<and> realloc_res s \<noteq> Realloc_moved"

named_theorems ip_rules \<open>operations on a packet that is there\<close>

lemma runs_pkb_get [ip_rules]:
  "ip_state n k s \<Longrightarrow> (\<And>p. pkb_get s k = Inr p \<Longrightarrow> n \<le> length (pk_data p) \<Longrightarrow> Q p) \<Longrightarrow> runs (pkb_get s k) Q"
  by (auto simp: ip_state_def runs_def)

lemma runs_pk_load [ip_rules]:
  "ip_state n k s \<Longrightarrow> off + m \<le> n \<Longrightarrow> (\<And>bs. length bs = m \<Longrightarrow> Q bs) \<Longrightarrow> runs (pk_load k off m s) Q"
  by (fastforce simp: ip_state_def runs_def pk_load_def mem_load_def)

lemma runs_pk_load16 [ip_rules]:
  "ip_state n k s \<Longrightarrow> off + 2 \<le> n \<Longrightarrow> (\<And>v. Q v) \<Longrightarrow> runs (pk_load16 k off s) Q"
  unfolding pk_load16_def by (rule runs_rbind, erule runs_pk_load) (auto intro: runs_rules)

lemma runs_pk_load32 [ip_rules]:
  "ip_state n k s \<Longrightarrow> off + 4 \<le> n \<Longrightarrow> (\<And>v. Q v) \<Longrightarrow> runs (pk_load32 k off s) Q"
  unfolding pk_load32_def by (rule runs_rbind, erule runs_pk_load) (auto intro: runs_rules)

lemma runs_pk_load8 [ip_rules]:
  "ip_state n k s \<Longrightarrow> off + 1 \<le> n \<Longrightarrow> (\<And>v. Q v) \<Longrightarrow> runs (pk_load8 k off s) Q"
  unfolding pk_load8_def by (rule runs_rbind, erule runs_pk_load) (auto intro: runs_rules)

lemma ip_state_put:
  "ip_state n k s \<Longrightarrow> n \<le> length (pk_data p) \<Longrightarrow> ip_state n k (pkb_put k p s)"
  by (simp add: ip_state_def net_simps)

lemma runs_pk_store [ip_rules]:
  assumes "ip_state n k s" and "off + length bs \<le> n"
    and Q: "\<And>p d. pkb_get s k = Inr p \<Longrightarrow> length d = length (pk_data p) \<Longrightarrow>
      take off d = take off (pk_data p) \<Longrightarrow>
      ip_state n k (pkb_put k (p\<lparr>pk_data := d\<rparr>) s) \<Longrightarrow> Q (pkb_put k (p\<lparr>pk_data := d\<rparr>) s)"
  shows "runs (pk_store k off bs s) Q"
proof -
  obtain p where p: "pkb_get s k = Inr p" "n \<le> length (pk_data p)"
    using assms(1) by (auto simp: ip_state_def)
  let ?d = "mem_splice off bs (pk_data p)"
  have l: "length ?d = length (pk_data p)" using p(2) assms(2) by simp
  have t: "take off ?d = take off (pk_data p)"
    using p(2) assms(2) by (simp add: mem_splice_def)
  have "pk_store k off bs s = Inr (pkb_put k (p\<lparr>pk_data := ?d\<rparr>) s)"
    using p assms(2) by (simp add: pk_store_def mem_store_def)
  moreover have "ip_state n k (pkb_put k (p\<lparr>pk_data := ?d\<rparr>) s)"
    using assms(1) p(2) l by (intro ip_state_put) simp_all
  ultimately show ?thesis using Q [OF p(1) l t] by (auto simp: runs_def)
qed

lemma runs_free_pkb [ip_rules]:
  "ip_state n k s \<Longrightarrow> (\<And>s'. Q s') \<Longrightarrow> runs (free_pkb k s) Q"
  by (auto simp: ip_state_def runs_def free_pkb_def Let_def)

text \<open>Stores and the byte swaps keep the other members of the packet.\<close>

definition same_pkb :: "nat \<Rightarrow> net \<Rightarrow> net \<Rightarrow> bool" where
  "same_pkb k s s' \<longleftrightarrow> (\<forall>p. pkb_get s k = Inr p \<longrightarrow>
     (\<exists>d. length d = length (pk_data p) \<and> take 16 d = take 16 (pk_data p) \<and> s' = pkb_put k (p\<lparr>pk_data := d\<rparr>) s))"

lemma same_pkb_trans: "same_pkb k s s' \<Longrightarrow> same_pkb k s' s'' \<Longrightarrow> same_pkb k s s''"
  by (fastforce simp: same_pkb_def net_simps)

lemma runs_swap16:
  assumes "ip_state n k s" and "off + 2 \<le> n" and "16 \<le> off"
    and Q: "\<And>s'. ip_state n k s' \<Longrightarrow> same_pkb k s s' \<Longrightarrow> Q s'"
  shows "runs (swap16 k off s) Q"
  unfolding swap16_def
proof (rule runs_rbind, rule runs_pk_load16 [OF assms(1,2)], rule runs_pk_store [OF assms(1)])
  fix v :: u16 and p d
  show "off + length (le16 (htons v)) \<le> n" using assms(2) by (simp add: le16_def)
  assume a: "pkb_get s k = Inr p" "length d = length (pk_data p)" "take off d = take off (pk_data p)"
    "ip_state n k (pkb_put k (p\<lparr>pk_data := d\<rparr>) s)"
  have "take 16 (take off d) = take 16 (take off (pk_data p))" using a(3) by simp
  then have "take 16 d = take 16 (pk_data p)" using assms(3) by (simp add: min_def)
  then show "Q (pkb_put k (p\<lparr>pk_data := d\<rparr>) s)"
    using Q [OF a(4)] a(1,2) by (auto simp: same_pkb_def)
qed

lemma runs_ip_ntoh [ip_rules]:
  assumes "ip_state n k s" and n: "34 \<le> n"
    and Q: "\<And>s'. ip_state n k s' \<Longrightarrow> same_pkb k s s' \<Longrightarrow> Q s'"
  shows "runs (ip_ntoh k s) Q"
  unfolding ip_ntoh_def
  apply (rule runs_rbind)
  apply (rule runs_swap16 [OF assms(1)])
  using n apply simp
  apply simp
  apply (rule runs_rbind)
  apply (erule runs_swap16)
  using n apply simp
  apply simp
  apply (erule runs_swap16)
  using n apply simp
  apply simp
  using Q same_pkb_trans by blast

lemma ip_recv_local_runs:
  assumes "ip_state n k s" and "34 \<le> n"
  shows "runs (ip_recv_local k s) (\<lambda>_. True)"
  unfolding ip_recv_local_def
  by (intro runs_rules ip_rules [OF assms(1)] TrueI) (use assms(2) in simp_all)

lemma iphlen_less: "iphlen b \<le> 60"
proof -
  have "unat (b AND 15) \<le> unat (15 :: u8)" by (rule word_le_nat_alt [THEN iffD1, OF word_and_le1])
  then show ?thesis by (simp add: iphlen_def)
qed

lemma ip_forward_runs:
  assumes st: "ip_state n k s" and n: "34 \<le> n" and rt: "pkb_get s k = Inr p" "pk_rtdst p = Some rt"
    "devs s (rt_dev rt) \<noteq> None"
    and hl: "14 + iphlen (pk_data p ! 14) \<le> n"
  shows "runs (ip_forward k s) (\<lambda>_. True)"
proof -
  have len: "n \<le> length (pk_data p)" using st rt(1) by (auto simp: ip_state_def)
  have ld: "pk_load8 k off s = Inr (pk_data p ! off)" if "off + 1 \<le> n" for off
    using that len rt(1) by (simp add: pk_load8_def pk_load_def mem_load_def nth_mem_slice)
  let ?t = "pk_data p ! 22 - 1"
  let ?d = "mem_splice 22 [?t] (pk_data p)"
  let ?s = "pkb_put k (p\<lparr>pk_data := ?d\<rparr>) s"
  have ld_len: "length ?d = length (pk_data p)" using len n by simp
  have st1: "pk_store k 22 [?t] s = Inr ?s"
    using rt(1) len n by (simp add: pk_store_def mem_store_def)
  have is1: "ip_state n k ?s" using st len ld_len by (intro ip_state_put) simp_all
  have b: "pk_load8 k 14 ?s = Inr (pk_data p ! 14)"
    using len n by (simp add: pk_load8_def pk_load_def net_simps mem_load_def nth_mem_slice nth_mem_splice)
  have dv: "devs s' (rt_dev rt) \<noteq> None" if "devs s' = devs s" for s' using rt(3) that by simp
  have rest: "runs (rbind (pk_load k 14 (iphlen (pk_data p ! 14)) ?s) (\<lambda>hdr.
       rbind (pk_store k 24 (le16 (checksum hdr 0)) ?s) (\<lambda>s.
           rbind (pk_load16 k 16 s) (\<lambda>len.
           rbind (dev_get s (Some (rt_dev rt))) (\<lambda>dev.
           if int (unat (htons len)) > net_mtu dev then
             rbind (pk_load16 k 20 s) (\<lambda>frag_offset.
             if frag_offset AND htons 0x4000 \<noteq> 0 then free_pkb k s else Inr s)
           else Inr s))))) (\<lambda>_. True)"
  proof (rule runs_rbind, rule runs_pk_load [OF is1])
    show "14 + iphlen (pk_data p ! 14) \<le> n" using hl by simp
    fix hdr :: bytes
    show "runs (rbind (pk_store k 24 (le16 (checksum hdr 0)) ?s) (\<lambda>s.
           rbind (pk_load16 k 16 s) (\<lambda>len.
           rbind (dev_get s (Some (rt_dev rt))) (\<lambda>dev.
           if int (unat (htons len)) > net_mtu dev then
             rbind (pk_load16 k 20 s) (\<lambda>frag_offset.
             if frag_offset AND htons 0x4000 \<noteq> 0 then free_pkb k s else Inr s)
           else Inr s)))) (\<lambda>_. True)"
    proof (rule runs_rbind, rule runs_pk_store [OF is1])
      show "24 + length (le16 (checksum hdr 0)) \<le> n" using n by (simp add: le16_def)
      fix q d
      let ?s2 = "pkb_put k (q\<lparr>pk_data := d\<rparr>) ?s"
      assume is2: "ip_state n k ?s2"
      have dg: "runs (dev_get ?s2 (Some (rt_dev rt))) R" if "\<And>x. R x" for R
        using rt(3) that by (auto simp: dev_get_def net_simps runs_def split: option.split)
      show "runs (rbind (pk_load16 k 16 ?s2) (\<lambda>len.
           rbind (dev_get ?s2 (Some (rt_dev rt))) (\<lambda>dev.
           if int (unat (htons len)) > net_mtu dev then
             rbind (pk_load16 k 20 ?s2) (\<lambda>frag_offset.
             if frag_offset AND htons 0x4000 \<noteq> 0 then free_pkb k ?s2 else Inr ?s2)
           else Inr ?s2))) (\<lambda>_. True)"
        by (intro runs_rules ip_rules [OF is2] dg TrueI) (use n in simp_all)
    qed
  qed
  show ?thesis
    unfolding ip_forward_def
    using rt ld [of 22] n st1 b rest runs_free_pkb [OF st, of "\<lambda>_. True"]
    by (simp add: runs_def)
qed

lemma ip_recv_route_runs:
  assumes st: "ip_state n k s" and n: "34 \<le> n" and p: "pkb_get s k = Inr p"
    and hl: "14 + iphlen (pk_data p ! 14) \<le> n"
  shows "runs (ip_recv_route k s) (\<lambda>_. True)"
proof -
  obtain daddr where da: "pk_load32 k 30 s = Inr daddr"
    using runs_pk_load32 [OF st, of 30 "\<lambda>_. True"] n by (auto simp: runs_def)
  show ?thesis
  proof (cases "rt_lookup daddr s")
    case None
    obtain s1 where s1: "ip_ntoh k s = Inr s1" "ip_state n k s1"
      using runs_ip_ntoh [OF st n, of "ip_state n k"] by (auto simp: runs_def)
    obtain s2 where "free_pkb k s1 = Inr s2"
      using runs_free_pkb [OF s1(2), of "\<lambda>_. True"] by (auto simp: runs_def)
    then show ?thesis
      using da None s1(1) by (simp add: ip_recv_route_def rt_input_def runs_def)
  next
    case (Some rt)
    let ?p = "p\<lparr>pk_rtdst := Some rt\<rparr>"
    let ?s = "pkb_put k ?p s"
    have "rt \<in> set (rt_table s)"
      using Some by (auto simp: rt_lookup_def find_Some_iff)
    then have dv: "devs s (rt_dev rt) \<noteq> None" using st by (simp add: ip_state_def)
    have len: "n \<le> length (pk_data p)" using st p by (auto simp: ip_state_def)
    have st': "ip_state n k ?s" using st len by (intro ip_state_put) simp_all
    have eq: "ip_recv_route k s =
        (if rt_flags rt AND RT_LOCALHOST \<noteq> 0 then ip_recv_local k ?s
         else rbind (ip_ntoh k ?s) (ip_forward k))"
      using da Some p by (simp add: ip_recv_route_def rt_input_def net_simps)
    have fwd: "runs (rbind (ip_ntoh k ?s) (ip_forward k)) (\<lambda>_. True)"
    proof (rule runs_rbind, rule runs_ip_ntoh [OF st' n])
      fix s' assume s': "ip_state n k s'" "same_pkb k ?s s'"
      obtain d where d: "length d = length (pk_data ?p)" "take 16 d = take 16 (pk_data ?p)"
        "s' = pkb_put k (?p\<lparr>pk_data := d\<rparr>) ?s"
        using s'(2) unfolding same_pkb_def by (auto simp: net_simps)
      have "d ! 14 = pk_data p ! 14"
        using d(2) nth_take [of 14 16 d] nth_take [of 14 16 "pk_data p"] by simp
      then show "runs (ip_forward k s') (\<lambda>_. True)"
        by (intro ip_forward_runs [OF s'(1) n, of "?p\<lparr>pk_data := d\<rparr>" rt])
          (use dv hl in \<open>simp_all add: d(3) net_simps\<close>)
    qed
    show ?thesis unfolding eq using ip_recv_local_runs [OF st' n] fwd by simp
  qed
qed

lemma ip_in_runs:
  assumes st: "ip_state n k s" and n: "74 \<le> n" and p: "pkb_get s k = Inr p"
    and len: "pk_len p \<le> int (length (pk_data p))"
  shows "runs (ip_in d k s) (\<lambda>_. True)"
proof -
  have pn: "n \<le> length (pk_data p)" using st p by (auto simp: ip_state_def)
  have fr: "runs (free_pkb k s') (\<lambda>_. True)" if "ip_state m k s'" for m s'
    by (rule runs_free_pkb [OF that]) simp
  let ?b = "pk_data p ! 14"
  have b: "pk_load8 k 14 s = Inr ?b"
    using p pn n by (simp add: pk_load8_def pk_load_def mem_load_def nth_mem_slice)
  obtain hdr where hdr: "pk_load k 14 (iphlen ?b) s = Inr hdr"
    using runs_pk_load [OF st, of 14 "iphlen ?b" "\<lambda>_. True"] iphlen_less [of ?b] n
    by (auto simp: runs_def)
  obtain s1 where s1: "ip_ntoh k s = Inr s1" "ip_state n k s1" "same_pkb k s s1"
    using runs_ip_ntoh [OF st, of "\<lambda>s1. ip_state n k s1 \<and> same_pkb k s s1"] n by (auto simp: runs_def)
  obtain q where q: "length q = length (pk_data p)" "take 16 q = take 16 (pk_data p)"
    "s1 = pkb_put k (p\<lparr>pk_data := q\<rparr>) s"
    using s1(3) p unfolding same_pkb_def by auto
  have q14: "q ! 14 = ?b"
    using q(2) nth_take [of 14 16 q] nth_take [of 14 16 "pk_data p"] by simp
  obtain l where l: "pk_load16 k 16 s1 = Inr l"
    using runs_pk_load16 [OF s1(2), of 16 "\<lambda>_. True"] n by (auto simp: runs_def)
  have body: "runs (rbind (if pk_len p > 14 + int (unat l) then pkb_trim k (14 + int (unat l)) s1
      else Inr s1) (ip_recv_route k)) (\<lambda>_. True)"
    if h: "20 \<le> iphlen ?b" "iphlen ?b \<le> unat l" "14 + int (unat l) \<le> pk_len p"
  proof (cases "pk_len p > 14 + int (unat l)")
    case False
    have "runs (ip_recv_route k s1) (\<lambda>_. True)"
      by (rule ip_recv_route_runs [OF s1(2), of "p\<lparr>pk_data := q\<rparr>"])
        (use n q14 iphlen_less [of ?b] in \<open>simp_all add: q(3) net_simps\<close>)
    then show ?thesis using False by simp
  next
    case True
    let ?m = "14 + unat l"
    let ?d = "if realloc_res s = Realloc_in_place then take ?m q else q"
    let ?p = "p\<lparr>pk_len := 14 + int (unat l), pk_data := ?d\<rparr>"
    have mq: "?m \<le> length q" using True len q(1) by linarith
    have nm: "nat (14 + uint l) = ?m" using nat_int [of ?m] by simp
    have rr: "realloc_res s \<noteq> Realloc_moved" using st by (simp add: ip_state_def)
    have comm: "p\<lparr>pk_data := x, pk_len := m\<rparr> = p\<lparr>pk_len := m, pk_data := x\<rparr>" for x m
      by (cases p) simp
    have t: "pkb_trim k (14 + int (unat l)) s1 = Inr (pkb_put k ?p s)"
      using rr by (simp add: pkb_trim_def q(3) net_simps nm split: realloc_result.split)
        (simp only: comm simp_thms)
    have is2: "ip_state ?m k (pkb_put k ?p s)"
      using st mq by (auto simp: ip_state_def net_simps)
    have "?d ! 14 = ?b" using q14 h by simp
    then have "runs (ip_recv_route k (pkb_put k ?p s)) (\<lambda>_. True)"
      by (intro ip_recv_route_runs [OF is2, of ?p]) (use h in \<open>simp_all add: net_simps\<close>)
    then show ?thesis using True t by simp
  qed
  have fr0: "\<exists>x. free_pkb k s = Inr x" using fr [OF st] by (simp add: runs_def)
  have fr1: "\<exists>x. free_pkb k s1 = Inr x" using fr [OF s1(2)] by (simp add: runs_def)
  show ?thesis
    using fr0 fr1 b hdr s1(1) l p body
    by (auto simp: ip_in_def runs_def not_less not_le)
qed

section \<open>Forwarding and the checksum\<close>

text \<open>
  A header that verifies, decremented in its time to live: the sum over it is one short, whatever the
  old checksum was, so that the checksum computed over it is 1.
\<close>

lemma word_sum_ttl:
  assumes len: "10 \<le> length hdr" and ttl: "hdr ! 8 = t" "1 \<le> t"
  shows "word_sum (mem_splice 8 [t - 1] hdr) + 1 = word_sum hdr"
proof -
  let ?a = "take 8 hdr" and ?b = "drop 10 hdr"
  have ev: "even (length ?a)" using len by simp
  have h: "hdr = ?a @ [t, hdr ! 9] @ ?b"
  proof -
    have "drop 8 hdr = hdr ! 8 # hdr ! 9 # ?b"
      using len Cons_nth_drop_Suc [of 8 hdr] Cons_nth_drop_Suc [of 9 hdr] by simp
    then show ?thesis using ttl append_take_drop_id [of 8 hdr] by simp
  qed
  have "drop 9 hdr = hdr ! 9 # ?b" using len Cons_nth_drop_Suc [of 9 hdr] by simp
  then have s: "mem_splice 8 [t - 1] hdr = ?a @ [t - 1, hdr ! 9] @ ?b"
    by (simp add: mem_splice_def)
  have u: "unat (t - 1) + 1 = unat t"
    using ttl(2) unat_sub [of 1 t] by (simp add: word_le_nat_alt)
  have w: "unat (of_le16 [x, y]) = unat x + 256 * unat y" for x y :: u8
  proof -
    have "of_le16 [x, y] = ucast x + push_bit 8 (ucast y)"
      unfolding of_le16_def
      by (simp, subst disjunctive_add) (auto simp: bit_simps dest: bit_imp_le_length)
    moreover have "unat (push_bit 8 (ucast y) :: u16) = 256 * unat y"
      using unat8_less [of y]
      by (simp add: push_bit_eq_mult unat_word_ariths unsigned_ucast_eq take_bit_nat_eq_self)
    moreover have "unat (ucast x :: u16) = unat x"
      using unat8_less [of x] by (simp add: unsigned_ucast_eq take_bit_nat_eq_self)
    ultimately show ?thesis
      using unat8_less [of x] unat8_less [of y] by (simp, subst unat_add_lem [THEN iffD1]) simp_all
  qed
  have "word_sum hdr = word_sum ?a + (unat (of_le16 [t, hdr ! 9]) + word_sum ?b)"
    using arg_cong [OF h, of word_sum] word_sum_append [OF ev, of "[t, hdr ! 9] @ ?b"] by simp
  moreover have "word_sum (mem_splice 8 [t - 1] hdr) =
      word_sum ?a + (unat (of_le16 [t - 1, hdr ! 9]) + word_sum ?b)"
    unfolding s using word_sum_append [OF ev, of "[t - 1, hdr ! 9] @ ?b"] by simp
  ultimately show ?thesis using w u by simp
qed

lemma forward_checksum:
  assumes len: "10 \<le> length hdr" "length hdr \<le> 65536" and ttl: "hdr ! 8 = t" "1 \<le> t"
    and valid: "checksum hdr 0 = 0"
  shows "checksum (mem_splice 8 [t - 1] hdr) 0 = 1"
proof -
  let ?w = "word_sum (mem_splice 8 [t - 1] hdr)"
  have w: "?w + 1 = word_sum hdr" by (rule word_sum_ttl [OF len(1) ttl])
  have o: "ones_sum (word_sum hdr) = 65535" using valid len(2) by (simp add: checksum_zero_iff)
  have "ones_sum ?w = 65534"
  proof -
    have "(word_sum hdr - 1) mod 65535 = 65534"
      using o unfolding ones_sum_def by (simp split: if_splits)
    then have "?w mod 65535 = 65534" using w by (metis add_diff_cancel_right')
    then have "?w = 65535 * (?w div 65535) + 65534" by (metis mult_div_mod_eq)
    then obtain q where "?w = 65535 * q + 65534" by blast
    then have "?w \<noteq> 0" "?w - 1 = 65535 * q + 65533" by simp_all
    then have "(?w - 1) mod 65535 = 65533" by simp
    then show ?thesis using \<open>?w \<noteq> 0\<close> by (simp add: ones_sum_def)
  qed
  moreover have "length (mem_splice 8 [t - 1] hdr) = length hdr" using len(1) by simp
  ultimately have "unat (checksum (mem_splice 8 [t - 1] hdr) 0) = 1"
    using unat_checksum [of "mem_splice 8 [t - 1] hdr"] len(2) by simp
  then show ?thesis by (simp add: word_unat_eq_iff)
qed

lemma ip_forward_checksum:
  assumes p: "pkb_get s k = Inr p" and D: "34 \<le> length (pk_data p)"
    and h: "20 \<le> iphlen (pk_data p ! 14)" "14 + iphlen (pk_data p ! 14) \<le> length (pk_data p)"
    and valid: "checksum (mem_slice 14 (iphlen (pk_data p ! 14)) (pk_data p)) 0 = 0"
    and ttl: "1 < pk_data p ! 22"
    and rt: "pk_rtdst p = Some rt" "devs s (rt_dev rt) = Some dev"
    and mtu: "int (unat (htons (of_le16 (mem_slice 16 2 (pk_data p))))) \<le> net_mtu dev"
  shows "\<exists>s' p'. ip_forward k s = Inr s' \<and> pkb_get s' k = Inr p' \<and>
    pk_data p' ! 22 = pk_data p ! 22 - 1 \<and> mem_slice 24 2 (pk_data p') = [1, 0]"
proof -
  let ?D = "pk_data p" and ?b = "pk_data p ! 14" and ?t = "pk_data p ! 22 - 1"
  define D1 where "D1 = mem_splice 22 [?t] ?D"
  have l1: "length D1 = length ?D" using D by (simp add: D1_def)
  define hdr where "hdr = mem_slice 14 (iphlen ?b) ?D"
  have lh: "length hdr = iphlen ?b" using h by (simp add: hdr_def)
  have h8: "hdr ! 8 = ?D ! 22" using h by (simp add: hdr_def nth_mem_slice)
  have sl: "mem_slice 14 (iphlen ?b) D1 = mem_splice 8 [hdr ! 8 - 1] hdr"
  proof (rule nth_equalityI)
    show "length (mem_slice 14 (iphlen ?b) D1) = length (mem_splice 8 [hdr ! 8 - 1] hdr)"
      using h l1 lh by simp
    fix i assume "i < length (mem_slice 14 (iphlen ?b) D1)"
    then have i: "i < iphlen ?b" using h l1 by simp
    then have "hdr ! i = ?D ! (14 + i)" using h by (simp add: hdr_def nth_mem_slice)
    then show "mem_slice 14 (iphlen ?b) D1 ! i = mem_splice 8 [hdr ! 8 - 1] hdr ! i"
      using i h l1 lh h8 by (auto simp: nth_mem_slice nth_mem_splice D1_def)
  qed
  have "1 \<le> hdr ! 8" using ttl h8 by (simp add: word_le_nat_alt word_less_nat_alt)
  then have one: "checksum (mem_slice 14 (iphlen ?b) D1) 0 = 1"
    unfolding sl using h lh iphlen_less [of ?b] valid
    by (intro forward_checksum) (simp_all add: hdr_def)
  define D2 where "D2 = mem_splice 24 [1, 0] D1"
  have c1: "le16 1 = [1, 0]" by (simp add: le16_def)
  have b1: "D1 ! 14 = ?b" using D by (simp add: D1_def nth_mem_splice)
  have D2: "mem_slice 16 2 D2 = mem_slice 16 2 ?D" "D2 ! 22 = ?t" "mem_slice 24 2 D2 = [1, 0]"
    "length D2 = length ?D"
  proof -
    have l: "24 + length ([1, 0] :: bytes) \<le> length D1" using D l1 by simp
    show "length D2 = length ?D" using l l1 by (simp add: D2_def)
    show "mem_slice 24 2 D2 = [1, 0]" using l by (simp add: D2_def mem_slice_splice_same)
    show "D2 ! 22 = ?t" using l D by (simp add: D2_def nth_mem_splice D1_def)
    have "mem_slice 16 2 D2 = mem_slice 16 2 D1"
      unfolding D2_def by (rule mem_slice_splice_disjoint) (use l in simp_all)
    also have "\<dots> = mem_slice 16 2 ?D"
      unfolding D1_def by (rule mem_slice_splice_disjoint) (use D in simp_all)
    finally show "mem_slice 16 2 D2 = mem_slice 16 2 ?D" .
  qed
  let ?s1 = "pkb_put k (p\<lparr>pk_data := D1\<rparr>) s" and ?s2 = "pkb_put k (p\<lparr>pk_data := D2\<rparr>) s"
  have e: "pk_load8 k 22 s = Inr (?D ! 22)" "pk_store k 22 [?t] s = Inr ?s1" "pk_load8 k 14 ?s1 = Inr ?b"
    "pk_load k 14 (iphlen ?b) ?s1 = Inr (mem_slice 14 (iphlen ?b) D1)"
    "pk_store k 24 [1, 0] ?s1 = Inr ?s2" "pk_load16 k 16 ?s2 = Inr (of_le16 (mem_slice 16 2 ?D))"
    "dev_get ?s2 (Some (rt_dev rt)) = Inr dev"
    using p D h l1 b1 D2 rt(2)
    by (simp_all add: pk_load8_def pk_load16_def pk_load_def pk_store_def mem_load_def mem_store_def net_simps
        nth_mem_slice D1_def [symmetric] D2_def [symmetric]) (simp add: dev_get_def net_simps)
  have "\<not> ?D ! 22 \<le> 1" using ttl by simp
  then have "ip_forward k s = Inr ?s2"
    using p e one rt(1) mtu by (simp add: ip_forward_def c1)
  then show ?thesis using D2 by (intro exI [of _ ?s2] exI [of _ "p\<lparr>pk_data := D2\<rparr>"]) (simp add: net_simps)
qed

end
