(* ===== verification/Net_Main.thy ===== *)
theory Net_Main
  imports Net_Reply Net_Ip
begin

text \<open>
  tcpip's \<open>main.c\<close>: starting the devices, the receive thread, and the signal thread that stops the
  others; and what a run of IP frames does to the packet buffers.
\<close>

section \<open>Definitions\<close>

datatype thread = THREAD_RECV_INT | THREAD_TIMER_INT | THREAD_IPC | THREAD_SIGNAL

definition threads :: "thread list" where
  "threads = [THREAD_RECV_INT, THREAD_TIMER_INT, THREAD_IPC, THREAD_SIGNAL]"

definition SIGINT :: int where "SIGINT = 2"
definition SIGQUIT :: int where "SIGQUIT = 3"

text \<open>
  \<open>stop_stack_handler\<close> over the signals \<open>sigwait\<close> delivers: the new value of \<open>running\<close> and the threads
  that get a cancellation request. The loop names \<open>THREAD_IPC\<close> each time.
\<close>

fun stop_stack_handler :: "int list \<Rightarrow> bool \<times> thread list" where
  "stop_stack_handler [] = (True, [])"
| "stop_stack_handler (signo # rest) =
     (if signo = SIGINT \<or> signo = SIGQUIT then
        (False, concat (map (\<lambda>i. if i \<noteq> THREAD_SIGNAL then [THREAD_IPC] else []) threads))
      else stop_stack_handler rest)"

text \<open>\<open>main\<close> over the frames the receive thread reads until it ends.\<close>

definition net_main :: "nat \<Rightarrow> bytes option list \<Rightarrow> net \<Rightarrow> net cres" where
  "net_main fuel frames s =
     rbind (netdev_init s) (\<lambda>s.
     rbind (recv_interrupt (net_tx fuel) frames s) netdev_exit)"

section \<open>Received IP frames are kept\<close>

text \<open>The receive thread at work on the tap device \<open>d\<close>, with an allocator that does not fail.\<close>

definition recv_ready :: "nat \<Rightarrow> net \<Rightarrow> bool" where
  "recv_ready d s \<longleftrightarrow> veth s = Some d \<and> (\<exists>dev. devs s d = Some dev \<and> net_mtu dev = 1500) \<and>
     (\<forall>k n. length (mblock s k n) = n) \<and> (\<forall>k. malloc_ok s k)"

definition ip_frame :: "bytes \<Rightarrow> bool" where
  "ip_frame f \<longleftrightarrow> 14 \<le> length f \<and> length f \<le> 1514 \<and> mem_slice 12 2 f = [8, 0]"

lemma recv_turn_exit:
  assumes "recv_ready d s" and "alloc_pkbs s - free_pkbs s = 200"
  shows "recv_turn tx frame s = Inl (C_Exit [])"
  using assms
  by (auto simp: recv_turn_def recv_ready_def dev_get_def alloc_pkb_def Let_def pkb_safe_def MAX_PKBS_def
      net_simps)

lemma recv_turn_ip:
  assumes r: "recv_ready d s" and few: "alloc_pkbs s - free_pkbs s < 200" and f: "ip_frame f"
  obtains s' where "recv_turn tx (Some f) s = Inr (True, s')" "recv_ready d s'"
    "alloc_pkbs s' = alloc_pkbs s + 1" "free_pkbs s' = free_pkbs s"
proof -
  obtain dev where dev: "veth s = Some d" "devs s d = Some dev" "net_mtu dev = 1500"
    and mb: "\<And>k n. length (mblock s k n) = n" and ma: "\<And>k. malloc_ok s k"
    using r by (auto simp: recv_ready_def)
  let ?k = "next_pkb s" and ?n = "length f"
  let ?p = "\<lparr>pk_pro = 0xffff, pk_type = 0, pk_len = 1514, pk_refcnt = 1, pk_indev = None,
      pk_rtdst = None, pk_data = mblock s ?k 1514\<rparr>"
  let ?s1 = "(pkb_put ?k ?p (s\<lparr>next_pkb := ?k + 1\<rparr>))\<lparr>alloc_pkbs := alloc_pkbs s + 1\<rparr>"
  have al: "alloc_pkb 1514 s = Inr (Some ?k, ?s1)"
    using few ma by (simp add: alloc_pkb_def Let_def pkb_safe_def MAX_PKBS_def net_simps)
  define D where "D = mem_splice 0 f (mblock s ?k 1514)"
  have n: "14 \<le> ?n" "?n \<le> 1514" and ty: "mem_slice 12 2 f = [8, 0]" using f by (simp_all add: ip_frame_def)
  have D: "length D = 1514" using n mb by (simp add: D_def)
  have ne: "f \<noteq> []" using n by auto
  have st: "pk_store ?k 0 f ?s1 = Inr (pkb_put ?k (?p\<lparr>pk_data := D\<rparr>) ?s1)"
    using n mb by (simp add: pk_store_def pkb_get_def pkb_put_def mem_store_def D_def)
  let ?dev = "dev\<lparr>net_stats := (net_stats dev)\<lparr>rx_packets := rx_packets (net_stats dev) + 1,
      rx_bytes := rx_bytes (net_stats dev) + word_of_nat ?n\<rparr>\<rparr>"
  let ?s2 = "pkb_put ?k (?p\<lparr>pk_data := D\<rparr>) ?s1"
  have sa: "stats_upd d (\<lambda>st. st\<lparr>rx_packets := rx_packets st + 1,
      rx_bytes := rx_bytes st + word_of_nat ?n\<rparr>) ?s2 = Inr (dev_put d ?dev ?s2)"
    using dev by (simp add: stats_upd_def dev_get_def net_simps)
  let ?s3 = "pkb_put ?k (?p\<lparr>pk_data := D, pk_len := int ?n\<rparr>) (dev_put d ?dev ?s2)"
  have D12: "mem_slice 12 2 D = [8, 0]"
    using n(1) ty by (simp add: D_def mem_splice_def mem_slice_def)
  have dg: "dev_get ?s3 (Some d) = Inr ?dev" by (simp add: dev_get_def net_simps dev_put_def)
  obtain q where "eth_init d ?k ?s3 = Inr (True, pkb_put ?k q ?s3)" "pk_pro q = ETH_P_IP"
    using n D D12 dg
    by (simp add: eth_init_def ETH_HDR_LEN_def net_simps pk_load_def pk_load16_def mem_load_def Let_def
        halfwords ETH_P_IP_def)
  then have rx: "net_rx tx d ?k ?s3 = Inr (0, pkb_put ?k q ?s3)"
    by (simp add: net_rx_def net_simps eth_constants)
  have "recv_turn tx (Some f) s = Inr (True, pkb_put ?k q ?s3)"
    using dev al st sa rx ne n(2)
    by (simp add: recv_turn_def dev_get_def ETH_HDR_LEN_def Let_def net_simps pkb_get_dev_put)
  then show ?thesis
    by (rule that) (use dev mb ma in \<open>simp_all add: recv_ready_def net_simps dev_put_def\<close>)
qed

text \<open>Every IP frame stays allocated, so the thread exits the program at frame 201.\<close>

lemma recv_ip_frames:
  assumes "recv_ready d s" and "\<forall>f \<in> set fs. ip_frame f"
    and "alloc_pkbs s - free_pkbs s + int (length fs) \<le> 200"
  shows "\<exists>s'. recv_interrupt tx (map Some fs @ rest) s = recv_interrupt tx rest s' \<and> recv_ready d s' \<and>
    alloc_pkbs s' = alloc_pkbs s + int (length fs) \<and> free_pkbs s' = free_pkbs s"
  using assms
proof (induction fs arbitrary: s)
  case Nil
  then show ?case by (intro exI [of _ s]) simp
next
  case (Cons f fs)
  obtain s1 where s1: "recv_turn tx (Some f) s = Inr (True, s1)" "recv_ready d s1"
    "alloc_pkbs s1 = alloc_pkbs s + 1" "free_pkbs s1 = free_pkbs s"
    by (rule recv_turn_ip [of d s f tx]) (use Cons.prems in simp_all)
  from Cons.IH [OF s1(2)] Cons.prems s1(3,4) obtain s2 where
    "recv_interrupt tx (map Some fs @ rest) s1 = recv_interrupt tx rest s2" "recv_ready d s2"
    "alloc_pkbs s2 = alloc_pkbs s1 + int (length fs)" "free_pkbs s2 = free_pkbs s1"
    by auto
  with s1 show ?case by (intro exI [of _ s2]) simp
qed

lemma recv_ip_frames_exit:
  assumes r: "recv_ready d s" and fs: "\<forall>f \<in> set fs. ip_frame f" and n: "length fs = 200"
    and z: "alloc_pkbs s = free_pkbs s"
  shows "recv_interrupt tx (map Some fs @ f # rest) s = Inl (C_Exit [])"
proof -
  obtain s' where "recv_interrupt tx (map Some fs @ f # rest) s = recv_interrupt tx (f # rest) s'"
    "recv_ready d s'" "alloc_pkbs s' = alloc_pkbs s + 200" "free_pkbs s' = free_pkbs s"
    using recv_ip_frames [OF r fs, of tx "f # rest"] n z by auto
  then show ?thesis using recv_turn_exit [of d s' tx f] z by simp
qed

section \<open>The start of the program\<close>

text \<open>The zero bytes the globals start with, and a world in which every allocation succeeds.\<close>

definition boot :: net where
  "boot = \<lparr>pkbs = (\<lambda>_. None), next_pkb = 0, alloc_pkbs = 0, free_pkbs = 0, devs = (\<lambda>_. None),
     next_dev = 0, net_devices = [], loop = None, veth = None,
     arp_cache = replicate ARP_CACHE_SZ zero_entry, arp_next = 0, rt_table = [],
     mblock = (\<lambda>k n. replicate n 0), malloc_ok = (\<lambda>_. True), realloc_res = Realloc_in_place,
     calloc_ok = True, tap_alloc_res = 0, tap_write_res = (\<lambda>b. int (length b)), wire = []\<rparr>"

definition loop_dev :: netdev where
  "loop_dev = \<lparr>net_mtu = 1500, net_ipaddr = 0x0100007F, net_mask = 0x000000FF,
     net_hwaddr = replicate 6 0, net_name = ''lo'', net_ops = Some loop_ops, net_stats = zero_stats\<rparr>"

definition veth_dev :: netdev where
  "veth_dev = \<lparr>net_mtu = 1500, net_ipaddr = 0x0100000a, net_mask = 0x00ffffff,
     net_hwaddr = VETH_HWADDR, net_name = ''veth'', net_ops = Some veth_ops, net_stats = zero_stats\<rparr>"

definition booted :: net where
  "booted = boot\<lparr>devs := [0 \<mapsto> loop_dev, 1 \<mapsto> veth_dev], next_dev := 2, net_devices := [0, 1],
     loop := Some 0, veth := Some 1\<rparr>"

lemma netdev_init_boot: "netdev_init boot = Inr booted"
  by (simp add: netdev_init_def loop_init_def veth_init_def netdev_alloc_def boot_def booted_def
      loop_dev_init_def veth_dev_init_def Let_def loop_dev_def veth_dev_def dev_put_def fun_upd_twist)

lemma booted_ready: "recv_ready 1 booted"
  by (simp add: recv_ready_def booted_def boot_def veth_dev_def)

end
