(* ===== verification/Net_Properties.thy ===== *)
theory Net_Properties
  imports Net_Main
begin

text \<open>The properties of tcpip, each with a concrete instance where it has hypotheses.\<close>

section \<open>Concrete data\<close>

definition room_net :: net where
  "room_net = booted\<lparr>arp_cache := replicate ARP_CACHE_SZ (zero_entry\<lparr>ae_state := ARP_STATE_FREE\<rparr>)\<rparr>"

lemma room_net_facts:
  "cache_ok room_net" "arp_has_room room_net" "arp_hw key room_net = None"
  "dev_get room_net (Some 1) = Inr veth_dev" "rt_table room_net = []"
proof -
  show "cache_ok room_net" by (simp add: room_net_def cache_ok_def booted_def boot_def ARP_CACHE_SZ_def)
  show "arp_has_room room_net"
    by (simp add: room_net_def arp_has_room_def) (auto simp: ARP_CACHE_SZ_def intro!: exI [of _ 0])
  have "arp_scan 0 (fst key) (snd key) (arp_cache room_net) = None"
    by (simp add: arp_scan_none room_net_def entry_matches_def)
  then show "arp_hw key room_net = None" by (simp add: arp_hw_def arp_cache_lookup_def)
  show "dev_get room_net (Some 1) = Inr veth_dev" by (simp add: dev_get_def room_net_def booted_def)
  show "rt_table room_net = []" by (simp add: room_net_def booted_def boot_def)
qed

definition asker :: bytes where "asker = [2, 0, 0, 0, 0, 9]"

definition request_pkb :: pkbuf where
  "request_pkb = \<lparr>pk_pro = 0xffff, pk_type = 0, pk_len = 42, pk_refcnt = 1, pk_indev = None,
     pk_rtdst = None,
     pk_data = arp_frame broadcast_hw asker 1 asker [10, 0, 0, 2] (replicate 6 0) (le32 0x0100000a) @
       replicate 1472 0\<rparr>"


section \<open>Lists and checksums\<close>

text \<open>The pointer operations of \<open>utils.h\<close> implement list operations: \<open>list_add_tail\<close> before a node
  inserts there, \<open>list_add\<close> at the head, \<open>list_del\<close> removes the node, and the loop of \<open>list_for_each\<close>
  visits the items in order.\<close>

theorem list_ops_refine:
  assumes "dlist h head (us @ vs)" and "new \<notin> set (head # us @ vs)"
  shows "dlist (list_add_tail new (case vs of [] \<Rightarrow> head | v # _ \<Rightarrow> v) h) head (us @ new # vs) \<and>
    dlist (list_add new head h) head (new # us @ vs) \<and>
    dlist (list_del new (list_add new head h)) head (us @ vs) \<and>
    list_for_each (Suc (length (us @ vs))) h head = Some (us @ vs)"
proof (intro conjI)
  show "dlist (list_add_tail new (case vs of [] \<Rightarrow> head | v # _ \<Rightarrow> v) h) head (us @ new # vs)"
    by (rule list_add_tail_dlist [OF assms refl])
  show add: "dlist (list_add new head h) head (new # us @ vs)" by (rule list_add_dlist [OF assms])
  show "dlist (list_del new (list_add new head h)) head (us @ vs)"
    using list_del_dlist [of "list_add new head h" head "[]" new "us @ vs"] add by simp
  show "list_for_each (Suc (length (us @ vs))) h head = Some (us @ vs)"
    unfolding list_for_each_def by (rule walk_dlist [OF assms(1)]) simp
qed

lemma list_ops_refine_witness:
  "dlist (list_add_tail 2 0 (list_add_tail 1 0 (list_init 0 \<lparr>nxt = id, prv = id\<rparr>))) 0 [1, 2]"
proof -
  have "dlist (list_add_tail 1 0 (list_init 0 \<lparr>nxt = id, prv = id\<rparr>)) 0 [1]"
    using list_ops_refine [of "list_init 0 \<lparr>nxt = id, prv = id\<rparr>" 0 "[]" "[]" 1] list_init_dlist by simp
  then show ?thesis
    using list_ops_refine [of "list_add_tail 1 0 (list_init 0 \<lparr>nxt = id, prv = id\<rparr>)" 0 "[1]" "[]" 2]
    by simp
qed

text \<open>C40: Storing the checksum of a header whose checksum field is zero into that field gives a header
  whose checksum is zero.\<close>

theorem checksum_verifies:
  assumes "even off" and "off + 2 \<le> length bs" and "length bs \<le> 65536" and "mem_slice off 2 bs = [0, 0]"
  shows "checksum (mem_splice off (le16 (checksum bs 0)) bs) 0 = 0"
  by (rule checksum_fill [OF assms])

lemma checksum_verifies_witness:
  "checksum (mem_splice 10 (le16 (checksum ([0x45] @ replicate 19 0) 0)) ([0x45] @ replicate 19 0)) 0 = 0"
proof (rule checksum_verifies)
  show "mem_slice 10 2 ([0x45 :: u8] @ replicate 19 0) = [0, 0]"
    by (simp add: mem_slice_def numeral_2_eq_2)
qed simp_all

section \<open>Packets\<close>






text \<open>A received IP frame is never freed, so on an allocator that does not fail the receive thread
  exits the program when it reads a frame after 200 of them.\<close>

theorem ip_frames_leak:
  assumes "recv_ready d s" and "\<forall>f \<in> set fs. ip_frame f" and "length fs = 200"
    and "alloc_pkbs s = free_pkbs s"
  shows "recv_interrupt tx (map Some fs @ f # rest) s = Inl (C_Exit [])"
  by (rule recv_ip_frames_exit [OF assms])

lemma ip_frames_leak_witness:
  "recv_interrupt (net_tx 1) (replicate 201 (Some (replicate 12 0 @ [8, 0]))) booted = Inl (C_Exit [])"
proof -
  let ?f = "replicate 12 0 @ [8, 0] :: bytes"
  have "\<forall>f \<in> set (replicate 200 ?f). ip_frame f" by (simp add: ip_frame_def mem_slice_def)
  moreover have "alloc_pkbs booted = free_pkbs booted" by (simp add: booted_def boot_def)
  moreover have "map Some (replicate 200 ?f) @ Some ?f # [] = replicate 201 (Some ?f)"
    using replicate_append_same [of 200 "Some ?f"] by (simp add: map_replicate flip: replicate_Suc)
  ultimately show ?thesis
    using ip_frames_leak [OF booted_ready, of "replicate 200 ?f" "net_tx 1" "Some ?f" "[]"] by simp
qed

section \<open>ARP\<close>



text \<open>An address put into a cache with a free entry is found with its hardware address, and every
  other address is found as before.\<close>

theorem arp_cache_finds_inserted:
  assumes "cache_ok s" and "arp_has_room s" and "arp_hw (pro, ip) s = None"
  shows "arp_hw (pro, ip) (snd (arp_cache_insert nd pro ip hw s)) = Some hw \<and>
    (\<forall>key. key \<noteq> (pro, ip) \<longrightarrow> arp_hw key (snd (arp_cache_insert nd pro ip hw s)) = arp_hw key s) \<and>
    cache_ok (snd (arp_cache_insert nd pro ip hw s))"
  using arp.put_found [of s "(pro, ip)" nd hw] arp.put_other [of s "(pro, ip)" _ nd hw]
    arp.put_ok [of s nd "(pro, ip)" hw] assms by simp

lemma arp_cache_finds_inserted_witness:
  "arp_hw (ETH_P_IP, 7) (snd (arp_cache_insert 1 ETH_P_IP 7 asker room_net)) = Some asker"
  using arp_cache_finds_inserted [OF room_net_facts(1,2), of ETH_P_IP 7 1 asker] room_net_facts(3) by simp

text \<open>The cache is never initialised: its entries start as zero bytes, a state that is not
  \<open>ARP_STATE_FREE\<close>, and every insertion into it fails and changes nothing.\<close>

theorem uninitialised_cache_rejects:
  assumes "arp_cache s = replicate ARP_CACHE_SZ zero_entry" and "arp_next s < ARP_CACHE_SZ"
  shows "arp_cache_insert nd pro ip hw s = (- 1, s)"
  by (rule zero_cache_insert [OF assms])

lemma uninitialised_cache_rejects_witness:
  "netdev_init boot = Inr booted \<and> arp_cache_insert 1 ETH_P_IP 7 asker booted = (- 1, booted)"
  using uninitialised_cache_rejects [of booted 1 ETH_P_IP 7 asker] netdev_init_boot
  by (simp add: booted_def boot_def ARP_CACHE_SZ_def)

text \<open>A tick of the timer on a cache of free and resolved entries ages every resolved entry and
  frees exactly those whose time is up; each change is a step of the entry's state machine.\<close>

theorem arp_timer_ages:
  assumes "\<forall>ae \<in> set (arp_cache s). settled ae" and "length (arp_cache s) = ARP_CACHE_SZ"
  shows "arp_timer tx delta s = Inr (s\<lparr>arp_cache := map (entry_tick delta) (arp_cache s)\<rparr>) \<and>
    (\<forall>ae \<in> set (arp_cache s). entry_tick delta ae = ae \<or> arp_step ae (entry_tick delta ae))"
  using arp_timer_settled [OF assms] entry_tick_step assms(1) by blast

lemma arp_timer_ages_witness: "arp_timer (net_tx 1) 1 room_net = Inr room_net"
proof -
  have "map (entry_tick 1) (arp_cache room_net) = arp_cache room_net"
    by (simp add: room_net_def entry_tick_def)
  moreover have "\<forall>ae \<in> set (arp_cache room_net). settled ae"
    by (simp add: room_net_def settled_def)
  ultimately show ?thesis
    using arp_timer_ages [of room_net "net_tx 1" 1] room_net_facts(1) by (simp add: cache_ok_def)
qed

text \<open>\<open>arp_request\<close> writes behind the bytes it allocates, on every device and for every entry.\<close>

theorem arp_request_overflows:
  assumes "\<forall>k n. length (mblock s k n) = n" and "malloc_ok s (next_pkb s)"
    and "alloc_pkbs s - free_pkbs s < MAX_PKBS"
  shows "arp_request tx i s = Inl C_Fault"
  by (rule arp_request_fault [OF assms])

lemma arp_request_overflows_witness: "arp_request (net_tx 9) 0 booted = Inl C_Fault"
  using arp_request_overflows [of booted "net_tx 9" 0]
  by (simp add: booted_def boot_def MAX_PKBS_def)

section \<open>Routing and IP\<close>

text \<open>C16: Adding routes keeps the table in descending order of the masks, and a lookup in such a table
  finds a route exactly when one matches, and then one with the longest matching prefix.\<close>

theorem route_longest_prefix:
  assumes "rt_sorted (rt_table s)" and "\<forall>r \<in> set (rt_table s). rt_netmask r = prefix_mask (plen r) \<and> plen r \<le> 32"
  shows "rt_sorted (rt_table (rt_add n m gw metric flags dev s)) \<and>
    (rt_lookup ip s = None \<longleftrightarrow> (\<forall>r \<in> set (rt_table s). \<not> rt_matches ip r)) \<and>
    (\<forall>rt. rt_lookup ip s = Some rt \<longrightarrow> rt \<in> set (rt_table s) \<and> rt_matches ip rt \<and>
      (\<forall>r \<in> set (rt_table s). rt_matches ip r \<longrightarrow> plen r \<le> plen rt))"
proof (intro conjI allI impI)
  show "rt_sorted (rt_table (rt_add n m gw metric flags dev s))"
    using assms(1) rt_sorted_insert by (simp add: rt_add_def rt_alloc_def)
  show "rt_lookup ip s = None \<longleftrightarrow> (\<forall>r \<in> set (rt_table s). \<not> rt_matches ip r)"
    by (simp add: rt_lookup_def find_None_iff) blast
  fix rt assume "rt_lookup ip s = Some rt"
  note f = find_sorted [OF assms(1) this [unfolded rt_lookup_def]]
  then show "rt \<in> set (rt_table s)" "rt_matches ip rt" by simp_all
  show "\<forall>r \<in> set (rt_table s). rt_matches ip r \<longrightarrow> plen r \<le> plen rt"
  proof (intro ballI impI)
    fix r assume r: "r \<in> set (rt_table s)" "rt_matches ip r"
    have "\<not> plen rt < plen r"
      using prefix_mask_less [of "plen rt" "plen r"] f r assms(2) by (metis linorder_not_less)
    then show "plen r \<le> plen rt" by simp
  qed
qed

definition default_route :: rtentry where
  "default_route = \<lparr>rt_net = 0, rt_netmask = 0, rt_gw = 0, rt_flags = RT_DEFAULT, rt_metric = 0, rt_dev = 1\<rparr>"

lemma route_longest_prefix_witness:
  "rt_lookup 7 (booted\<lparr>rt_table := [default_route]\<rparr>) = Some default_route"
proof -
  let ?s = "booted\<lparr>rt_table := [default_route]\<rparr>"
  have "prefix_mask 0 = 0" by code_simp
  then have "rt_lookup 7 ?s \<noteq> None"
    using route_longest_prefix [of ?s "\<lambda>_. 0" 0 0 0 0 0 0 7]
    by (auto simp: rt_sorted_def default_route_def rt_matches_def)
  then show ?thesis by (auto simp: rt_lookup_def split: if_splits)
qed



text \<open>Forwarding computes the new header checksum with the old one still in the header: for every
  packet whose header verifies it decrements the time to live and stores the checksum 1, whatever the
  header is.\<close>

theorem forward_stores_one:
  assumes "pkb_get s k = Inr p" and "34 \<le> length (pk_data p)" and "20 \<le> iphlen (pk_data p ! 14)"
    and "14 + iphlen (pk_data p ! 14) \<le> length (pk_data p)"
    and "checksum (mem_slice 14 (iphlen (pk_data p ! 14)) (pk_data p)) 0 = 0" and "1 < pk_data p ! 22"
    and "pk_rtdst p = Some rt" and "devs s (rt_dev rt) = Some dev"
    and "int (unat (htons (of_le16 (mem_slice 16 2 (pk_data p))))) \<le> net_mtu dev"
  shows "\<exists>s' p'. ip_forward k s = Inr s' \<and> pkb_get s' k = Inr p' \<and>
    pk_data p' ! 22 = pk_data p ! 22 - 1 \<and> mem_slice 24 2 (pk_data p') = [1, 0]"
  by (rule ip_forward_checksum [OF assms])

definition ip_bytes :: bytes where
  "ip_bytes = replicate 14 0 @
     [0x45, 0, 0, 20, 0, 1, 0, 0, 64, 17, 0x66, 0xd6, 10, 0, 0, 2, 10, 0, 0, 1]"

definition forward_net :: net where
  "forward_net = pkb_put 0 (request_pkb\<lparr>pk_data := ip_bytes, pk_rtdst := Some default_route\<rparr>) booted"

lemma forward_stores_one_witness:
  "\<exists>s' p'. ip_forward 0 forward_net = Inr s' \<and> pkb_get s' 0 = Inr p' \<and>
    pk_data p' ! 22 = 63 \<and> mem_slice 24 2 (pk_data p') = [1, 0]"
proof -
  let ?p = "request_pkb\<lparr>pk_data := ip_bytes, pk_rtdst := Some default_route\<rparr>"
  have h: "iphlen 0x45 = 20" by (simp add: iphlen_def)
  have b: "length ip_bytes = 34" "ip_bytes ! 14 = 0x45" "ip_bytes ! 22 = 64"
    by (simp_all add: ip_bytes_def nth_append)
  have "mem_slice 14 20 ip_bytes = [0x45, 0, 0, 20, 0, 1, 0, 0, 64, 17, 0x66, 0xd6, 10, 0, 0, 2, 10, 0, 0, 1]"
    by (simp add: ip_bytes_def mem_slice_def)
  moreover have "checksum [0x45, 0, 0, 20, 0, 1, 0, 0, 64, 17, 0x66, 0xd6, 10, 0, 0, 2, 10, 0, 0, 1] 0 = 0"
    by (simp add: checksum_def of_le16_def fold_sum.simps)
  ultimately have "\<exists>s' p'. ip_forward 0 forward_net = Inr s' \<and> pkb_get s' 0 = Inr p' \<and>
      pk_data p' ! 22 = pk_data ?p ! 22 - 1 \<and> mem_slice 24 2 (pk_data p') = [1, 0]"
    by (intro forward_stores_one [of _ _ ?p default_route veth_dev])
      (simp_all add: b h forward_net_def net_simps, simp_all add: booted_def default_route_def veth_dev_def
        ip_bytes_def mem_slice_def of_le16_def htons_def)
  then show ?thesis by (simp add: b)
qed

end
