(* ===== verification/Work_List.thy ===== *)
theory Work_List
  imports Linked_List
begin

text \<open>
  workthread's \<open>list.h\<close> on the store of \<open>Linked_List\<close>: every operation in the order of its assignments.
  \<open>ListAddTail\<close> is also given as the list of its four assignments, for interleavings of threads.
\<close>

section \<open>Definitions\<close>

definition ListInit :: "nat \<Rightarrow> lheap \<Rightarrow> lheap" where
  "ListInit node h = set_prv node node (set_nxt node node h)"

text \<open>Each assignment reads the store of the moment: the function keeps no pointer in a variable.\<close>

definition ListAddTail_steps :: "nat \<Rightarrow> nat \<Rightarrow> (lheap \<Rightarrow> lheap) list" where
  "ListAddTail_steps head item =
     [\<lambda>h. set_nxt item head h,
      \<lambda>h. set_prv item (prv h head) h,
      \<lambda>h. set_nxt (prv h head) item h,
      \<lambda>h. set_prv head item h]"

definition ListAddTail :: "nat \<Rightarrow> nat \<Rightarrow> lheap \<Rightarrow> lheap" where
  "ListAddTail head item h = fold (\<lambda>step. step) (ListAddTail_steps head item) h"

definition ListAddHead :: "nat \<Rightarrow> nat \<Rightarrow> lheap \<Rightarrow> lheap" where
  "ListAddHead head item h =
     (let h = set_nxt item (nxt h head) h;
          h = set_prv item head h;
          h = set_prv (nxt h head) item h
      in set_nxt head item h)"

definition ListAppend :: "nat \<Rightarrow> nat \<Rightarrow> lheap \<Rightarrow> lheap" where
  "ListAppend head1 head2 h =
     (let h = set_nxt (prv h head2) head1 h;
          h = set_prv (nxt h head2) (prv h head1) h;
          h = set_nxt (prv h head1) (nxt h head2) h;
          h = set_prv head1 (prv h head2) h;
          h = set_prv head2 head2 h
      in set_nxt head2 head2 h)"

text \<open>\<open>ListReverse\<close>: the swap of one node, the loop with fuel, and the last swap behind it.\<close>

definition swap_links :: "nat \<Rightarrow> nat \<Rightarrow> lheap \<Rightarrow> lheap" where
  "swap_links pNode pTmp h = (let h = set_nxt pNode (prv h pNode) h in set_prv pNode pTmp h)"

fun ListReverse_loop :: "nat \<Rightarrow> nat \<Rightarrow> nat \<Rightarrow> lheap \<Rightarrow> lheap option" where
  "ListReverse_loop 0 head pNode h = None"
| "ListReverse_loop (Suc fuel) head pNode h =
     (let pTmp = nxt h pNode in
      if pTmp \<noteq> head then ListReverse_loop fuel head pTmp (swap_links pNode pTmp h)
      else Some (swap_links pNode pTmp h))"

definition ListReverse :: "nat \<Rightarrow> nat \<Rightarrow> lheap \<Rightarrow> lheap option" where
  "ListReverse fuel head h = ListReverse_loop fuel head head h"

definition ListRemove :: "nat \<Rightarrow> lheap \<Rightarrow> lheap" where
  "ListRemove item h =
     (let h = set_prv (nxt h item) (prv h item) h
      in set_nxt (prv h item) (nxt h item) h)"

text \<open>The iteration macros, as the nodes their loops visit, and the tests.\<close>

definition ListForEach :: "nat \<Rightarrow> lheap \<Rightarrow> nat \<Rightarrow> nat list option" where
  "ListForEach fuel h list = walk fuel (nxt h) (nxt h list) list"

definition ListForEachReverse :: "nat \<Rightarrow> lheap \<Rightarrow> nat \<Rightarrow> nat list option" where
  "ListForEachReverse fuel h list = walk fuel (prv h) (prv h list) list"

text \<open>\<open>ListForEachSafe\<close> with a loop body \<open>f\<close> that may change the store.\<close>

fun ListForEachSafe_from :: "nat \<Rightarrow> (nat \<Rightarrow> lheap \<Rightarrow> lheap) \<Rightarrow> nat \<Rightarrow> nat \<Rightarrow> nat \<Rightarrow> lheap \<Rightarrow> lheap option" where
  "ListForEachSafe_from 0 f node n list h = None"
| "ListForEachSafe_from (Suc fuel) f node n list h =
     (if node \<noteq> list then
        let h' = f node h in ListForEachSafe_from fuel f n (nxt h' n) list h'
      else Some h)"

definition ListForEachSafe :: "nat \<Rightarrow> (nat \<Rightarrow> lheap \<Rightarrow> lheap) \<Rightarrow> nat \<Rightarrow> lheap \<Rightarrow> lheap option" where
  "ListForEachSafe fuel f list h =
     ListForEachSafe_from fuel f (nxt h list) (nxt h (nxt h list)) list h"

definition ListIsEmpty :: "lheap \<Rightarrow> nat \<Rightarrow> bool" where
  "ListIsEmpty h list \<longleftrightarrow> list = nxt h list"

definition ListHead :: "lheap \<Rightarrow> nat \<Rightarrow> nat" where "ListHead h list = nxt h list"
definition ListTail :: "lheap \<Rightarrow> nat \<Rightarrow> nat" where "ListTail h list = prv h list"

lemmas list_ops_defs = ListInit_def ListAddTail_def ListAddTail_steps_def ListAddHead_def ListRemove_def

section \<open>The operations implement list operations\<close>

lemma ListInit_dlist [simp]: "dlist (ListInit node h) node []"
  by (simp add: ListInit_def dlist_def)

lemma ListInit_other:
  "dlist h head xs \<Longrightarrow> n \<notin> set (head # xs) \<Longrightarrow> dlist (ListInit n h) head xs"
proof -
  assume d: "dlist h head xs" and n: "n \<notin> set (head # xs)"
  have "seg (ListInit n h) head xs head \<longleftrightarrow> seg h head xs head"
    by (rule seg_cong) (use n in \<open>auto simp: ListInit_def\<close>)
  then show "dlist (ListInit n h) head xs" using d by (simp add: dlist_def)
qed

lemma ListAddTail_dlist:
  assumes d: "dlist h head xs" and new: "n \<notin> set (head # xs)"
  shows "dlist (ListAddTail head n h) head (xs @ [n])"
proof -
  have "prv h head \<in> set (head # xs)"
    using d seg_last [of h head xs head] by (auto simp: dlist_def)
  then have "prv h head \<noteq> n" using new by blast
  then have "nxt (ListAddTail head n h) = (nxt h)(prv h head := n, n := head)"
    "prv (ListAddTail head n h) = (prv h)(n := prv h head, head := n)"
    using new by (auto simp: list_ops_defs fun_eq_iff)
  from dlist_link [of h head xs "[]" n head, OF _ _ _ this] show ?thesis using d new by simp
qed

lemma ListAddHead_dlist:
  assumes d: "dlist h head xs" and new: "n \<notin> set (head # xs)"
  shows "dlist (ListAddHead head n h) head (n # xs)"
proof -
  have p: "prv h (nxt h head) = head" using d by (cases xs) (auto simp: dlist_def)
  have f: "nxt h head = (case xs of [] \<Rightarrow> head | v # _ \<Rightarrow> v)" by (rule dlist_first [OF d])
  then have "nxt h head \<noteq> n" using new by (auto split: list.splits)
  then have "nxt (ListAddHead head n h) = (nxt h)(prv h (nxt h head) := n, n := nxt h head)"
    "prv (ListAddHead head n h) = (prv h)(n := prv h (nxt h head), nxt h head := n)"
    using new p by (auto simp: list_ops_defs fun_eq_iff Let_def)
  from dlist_link [of h head "[]" xs n "nxt h head", OF _ _ f this] show ?thesis using d new by simp
qed

lemma ListRemove_dlist:
  assumes d: "dlist h head (us @ e # vs)"
  shows "dlist (ListRemove e h) head (us @ vs)"
proof (rule dlist_unlink [OF d])
  have "nxt h e = hd (vs @ [head])" "distinct (head # us @ e # vs)"
    using d seg_first [of h e vs head] by (auto simp: dlist_def seg_append)
  then have "nxt h e \<noteq> e" by (cases vs) auto
  then show "nxt (ListRemove e h) = (nxt h)(prv h e := nxt h e)"
    "prv (ListRemove e h) = (prv h)(nxt h e := prv h e)"
    by (auto simp: list_ops_defs fun_eq_iff Let_def)
qed

lemma ListForEach_dlist: "dlist h head xs \<Longrightarrow> length xs < fuel \<Longrightarrow> ListForEach fuel h head = Some xs"
  by (simp add: ListForEach_def walk_dlist)

lemma ListForEachReverse_dlist:
  assumes "dlist h head xs" "length xs < fuel"
  shows "ListForEachReverse fuel h head = Some (rev xs)"
  using walk_dlist [OF dlist_reverse [OF assms(1)], of fuel] assms(2)
  by (simp add: ListForEachReverse_def)

interpretation work_queue: linked_queue dlist ListHead "\<lambda>n head. ListAddTail head n" ListRemove
proof unfold_locales
  show "dlist (ListAddTail head n h) head (xs @ [n])"
    if "dlist h head xs" "n \<notin> set (head # xs)" for h head xs n
    by (rule ListAddTail_dlist [OF that])
qed (simp_all add: ListHead_def dlist_first ListRemove_dlist)

text \<open>Reversing: every node of the ring is swapped once.\<close>

fun next_path :: "(nat \<Rightarrow> nat) \<Rightarrow> nat \<Rightarrow> nat list \<Rightarrow> nat \<Rightarrow> bool" where
  "next_path f a [] b \<longleftrightarrow> f a = b"
| "next_path f a (x # xs) b \<longleftrightarrow> f a = x \<and> next_path f x xs b"

lemma next_path_cong: "(\<And>y. y \<in> set (a # xs) \<Longrightarrow> f y = g y) \<Longrightarrow> next_path f a xs b = next_path g a xs b"
  by (induction xs arbitrary: a) auto

lemma seg_next_path: "seg h a xs b \<Longrightarrow> next_path (nxt h) a xs b"
  by (induction xs arbitrary: a) auto

lemma ListReverse_loop_swaps:
  assumes "next_path (nxt h) a xs head" and "distinct (a # xs)" and "head \<notin> set xs" and "length xs < fuel"
  shows "\<exists>h'. ListReverse_loop fuel head a h = Some h' \<and>
    (\<forall>y. nxt h' y = (if y \<in> set (a # xs) then prv h y else nxt h y)) \<and>
    (\<forall>y. prv h' y = (if y \<in> set (a # xs) then nxt h y else prv h y))"
  using assms
proof (induction xs arbitrary: a h fuel)
  case Nil
  then obtain f where "fuel = Suc f" by (cases fuel) auto
  with Nil show ?case by (auto simp: swap_links_def Let_def)
next
  case (Cons x xs)
  then obtain f where f: "fuel = Suc f" "length xs < f" by (cases fuel) auto
  let ?h = "swap_links a x h"
  have n: "nxt h a = x" "x \<noteq> head" using Cons.prems by auto
  have "next_path (nxt ?h) x xs head = next_path (nxt h) x xs head"
    by (rule next_path_cong) (use Cons.prems in \<open>auto simp: swap_links_def Let_def\<close>)
  then have "next_path (nxt ?h) x xs head" using Cons.prems by simp
  from Cons.IH [OF this, of f] Cons.prems f obtain h' where
    h': "ListReverse_loop f head x ?h = Some h'"
      "\<forall>y. nxt h' y = (if y \<in> set (x # xs) then prv ?h y else nxt ?h y)"
      "\<forall>y. prv h' y = (if y \<in> set (x # xs) then nxt ?h y else prv ?h y)"
    by auto
  have "ListReverse_loop fuel head a h = Some h'" using h'(1) n f by simp
  moreover have "a \<notin> set (x # xs)" using Cons.prems by simp
  ultimately show ?case using h'(2,3) n by (auto simp: swap_links_def Let_def)
qed

lemma ListReverse_dlist:
  assumes d: "dlist h head xs" and fuel: "length xs < fuel"
  shows "\<exists>h'. ListReverse fuel head h = Some h' \<and> dlist h' head (rev xs)"
proof -
  have "next_path (nxt h) head xs head" "distinct (head # xs)"
    using d seg_next_path by (auto simp: dlist_def)
  from ListReverse_loop_swaps [OF this, of fuel] fuel d obtain h' where
    h': "ListReverse_loop fuel head head h = Some h'"
      "\<forall>y. nxt h' y = (if y \<in> set (head # xs) then prv h y else nxt h y)"
      "\<forall>y. prv h' y = (if y \<in> set (head # xs) then nxt h y else prv h y)"
    by (auto simp: dlist_def)
  have "seg h' head (rev xs) head = seg \<lparr>nxt = prv h, prv = nxt h\<rparr> head (rev xs) head"
    by (rule seg_cong) (use h' in auto)
  then have "dlist h' head (rev xs)" using dlist_reverse [OF d] by (simp add: dlist_def)
  then show ?thesis using h'(1) by (auto simp: ListReverse_def)
qed

text \<open>Appending a second list that is not empty.\<close>

lemma ListAppend_dlist:
  assumes d1: "dlist h head1 xs" and d2: "dlist h head2 ys" and ys: "ys \<noteq> []"
    and disj: "set (head1 # xs) \<inter> set (head2 # ys) = {}"
  shows "dlist (ListAppend head1 head2 h) head1 (xs @ ys)"
    and "dlist (ListAppend head1 head2 h) head2 []"
proof -
  obtain y zs where y: "ys = y # zs" using ys by (cases ys) auto
  define z where "z = last ys"
  define p where "p = last (head1 # xs)"
  have links: "nxt h head2 = y" "prv h head2 = z" "prv h head1 = p" "prv h y = head2"
    using d1 d2 y seg_last [of h head2 ys head2] seg_last [of h head1 xs head1]
    by (auto simp: dlist_def z_def p_def split: if_splits)
  have z: "z \<in> set ys" using ys by (simp add: z_def)
  have p: "p \<in> set (head1 # xs)" unfolding p_def by (rule last_in_set) simp
  have ne: "z \<noteq> head1" "z \<noteq> head2" "y \<noteq> head1" "y \<noteq> head2" "p \<noteq> head2" "p \<noteq> z" "p \<noteq> y" "head1 \<noteq> head2"
    using disj z p y d2 by (auto simp: dlist_def)
  let ?h = "ListAppend head1 head2 h"
  have nxt': "nxt ?h = (nxt h)(z := head1, p := y, head2 := head2)"
    and prv': "prv ?h = (prv h)(y := p, head1 := z, head2 := head2)"
    using links ne by (auto simp: ListAppend_def Let_def fun_eq_iff)
  show "dlist ?h head2 []" by (simp add: dlist_def nxt' prv')
  have s1: "seg ?h head1 xs y"
  proof (cases xs rule: rev_cases)
    case Nil
    then show ?thesis using ne by (simp add: nxt' prv' p_def)
  next
    case (snoc ws q)
    have pq: "p = q" using snoc by (simp add: p_def)
    have "seg h head1 ws q" using d1 snoc seg_append [of h head1 ws q "[]" head1] by (simp add: dlist_def)
    moreover have "seg ?h head1 ws q \<longleftrightarrow> seg h head1 ws q"
      by (rule seg_cong) (use d1 disj snoc pq z y in \<open>auto simp: nxt' prv' dlist_def\<close>)
    moreover have "seg ?h q [] y" using pq ne by (simp add: nxt' prv')
    ultimately show ?thesis using snoc seg_append [of ?h head1 ws q "[]" y] by simp
  qed
  have s2: "seg ?h y zs head1"
  proof (cases zs rule: rev_cases)
    case Nil
    then show ?thesis using ne y by (simp add: nxt' prv' z_def)
  next
    case (snoc ws q)
    have zq: "z = q" using snoc y by (simp add: z_def)
    have "seg h y ws q" using d2 y snoc seg_append [of h y ws q "[]" head2] by (simp add: dlist_def)
    moreover have "seg ?h y ws q \<longleftrightarrow> seg h y ws q"
      by (rule seg_cong) (use d2 disj snoc zq y p in \<open>auto simp: nxt' prv' dlist_def\<close>)
    moreover have "seg ?h q [] head1" using zq ne by (simp add: nxt' prv')
    ultimately show ?thesis using snoc seg_append [of ?h y ws q "[]" head1] by simp
  qed
  have "seg ?h head1 (xs @ ys) head1"
    using s1 s2 y by (simp add: seg_append)
  then show "dlist ?h head1 (xs @ ys)"
    using d1 d2 disj by (auto simp: dlist_def)
qed

text \<open>Appending an empty list leaves its head node in the ring, although it is reset to be empty.\<close>

lemma ListAppend_empty:
  assumes "dlist h head1 xs" and "nxt h head2 = head2" and "prv h head2 = head2" and "head2 \<notin> set (head1 # xs)"
  shows "prv (ListAppend head1 head2 h) head1 = head2"
    and "\<not> dlist (ListAppend head1 head2 h) head1 ys"
proof -
  let ?h = "ListAppend head1 head2 h"
  have l: "nxt ?h head2 = head2" "prv ?h head1 = head2"
    using assms by (auto simp: ListAppend_def Let_def)
  show "prv ?h head1 = head2" by (rule l(2))
  show "\<not> dlist ?h head1 ys"
  proof
    assume d: "dlist ?h head1 ys"
    then have "last (head1 # ys) = head2" using seg_last l(2) by (auto simp: dlist_def)
    moreover have "nxt ?h (last (head1 # ys)) = head1"
      using d seg_append [of ?h head1 "butlast ys" "last ys" "[]" head1]
      by (cases "ys = []") (auto simp: dlist_def)
    ultimately show False using l(1) assms(4) by auto
  qed
qed

end
