(* ===== verification/Work_Thread.thy ===== *)
theory Work_Thread
  imports Work_List
begin

text \<open>
  workthread's semaphore and workers (\<open>bsem.h\<close>, \<open>workThread.h\<close>, \<open>workThread.c\<close>). A worker is known by
  the address of its struct, which is the address of its list node; the list head is address 0. What
  blocks, sleeps or is delivered later is a step of its own, so that the other threads can run in
  between; the parts between two such points are functions on the whole state.
\<close>

section \<open>Definitions\<close>

subsection \<open>The semaphore\<close>

text \<open>\<open>sleepers\<close> are the threads in \<open>pthread_cond_wait\<close>. The mutex is held for each part below.\<close>

record bsem =
  sem_v :: int
  sleepers :: "nat list"

text \<open>
  Initialising a condition variable that threads sleep on is undefined in POSIX: a fault. \<open>bsem_init\<close>
  accepts every value that is not negative, although its comment names 0 and 1.
\<close>

definition bsem_init :: "int \<Rightarrow> bsem \<Rightarrow> bsem cres" where
  "bsem_init value b =
     (if value < 0 then Inl (C_Exit [])
      else if sleepers b \<noteq> [] then Inl C_Fault
      else Inr \<lparr>sem_v = value, sleepers = []\<rparr>)"

definition bsem_reset :: "bsem \<Rightarrow> bsem cres" where
  "bsem_reset b = bsem_init 0 b"

text \<open>The result names the threads that leave \<open>pthread_cond_wait\<close>.\<close>

definition bsem_post :: "bsem \<Rightarrow> nat list \<times> bsem" where
  "bsem_post b =
     (take 1 (sleepers b), b\<lparr>sem_v := sem_v b + 1, sleepers := drop 1 (sleepers b)\<rparr>)"

definition bsem_post_all :: "bsem \<Rightarrow> nat list \<times> bsem" where
  "bsem_post_all b = (sleepers b, b\<lparr>sem_v := sem_v b + 1, sleepers := []\<rparr>)"

text \<open>
  \<open>bsem_wait\<close> from one test of the loop to the next: either the thread goes to sleep, or it takes a unit
  and returns.
\<close>

definition bsem_wait_test :: "nat \<Rightarrow> bsem \<Rightarrow> bool \<times> bsem" where
  "bsem_wait_test t b =
     (if sem_v b = 0 then (False, b\<lparr>sleepers := sleepers b @ [t]\<rparr>)
      else (True, b\<lparr>sem_v := sem_v b - 1\<rparr>))"

subsection \<open>Workers\<close>

text \<open>
  Where a thread stands in \<open>workerDo\<close>, and whether it is in the signal handler, asleep on the semaphore
  of the worker at the given address or woken and about to test it again.
\<close>

datatype phase = Created | Running | Leaving | Exited
datatype handler = Outside | Asleep nat | Woken nat

record workThread =
  pth :: nat
  threadName :: string
  stBinarySem :: bsem
  at :: phase
  in_handler :: handler
  usr1_pending :: bool

record workManager =
  bInit :: bool
  threadsNum :: int

text \<open>\<open>usr1_set\<close>: whether the process has the handler for SIGUSR1 installed.\<close>

record wstate =
  gManager :: workManager
  links :: lheap
  workers :: "nat \<Rightarrow> workThread option"
  next_addr :: nat
  usr1_set :: bool

definition wk_get :: "wstate \<Rightarrow> nat \<Rightarrow> workThread cres" where
  "wk_get s k = (case workers s k of None \<Rightarrow> Inl C_Fault | Some w \<Rightarrow> Inr w)"

definition wk_put :: "nat \<Rightarrow> workThread \<Rightarrow> wstate \<Rightarrow> wstate" where
  "wk_put k w s = s\<lparr>workers := (workers s)(k \<mapsto> w)\<rparr>"

subsection \<open>The signal handler\<close>

text \<open>The search of \<open>workerHold\<close>; without a match \<open>pWorker\<close> is left at the last worker visited.\<close>

fun hold_search :: "wstate \<Rightarrow> nat \<Rightarrow> nat option \<Rightarrow> nat list \<Rightarrow> nat cres" where
  "hold_search s self seen [] = (case seen of None \<Rightarrow> Inl C_Fault | Some t \<Rightarrow> Inr t)"
| "hold_search s self seen (n # ns) =
     rbind (wk_get s n) (\<lambda>w. if pth w = self then Inr n else hold_search s self (Some n) ns)"

definition hold_target :: "nat \<Rightarrow> wstate \<Rightarrow> nat cres" where
  "hold_target self s =
     (case ListForEach (next_addr s + 1) (links s) 0 of
        None \<Rightarrow> Inl C_Fuel
      | Some ns \<Rightarrow> hold_search s self None ns)"

definition hold_test :: "nat \<Rightarrow> nat \<Rightarrow> wstate \<Rightarrow> wstate cres" where
  "hold_test k t s =
     rbind (wk_get s t) (\<lambda>wt.
     let (go, b) = bsem_wait_test k (stBinarySem wt); s = wk_put t (wt\<lparr>stBinarySem := b\<rparr>) s in
     rbind (wk_get s k) (\<lambda>w.
     Inr (wk_put k (w\<lparr>in_handler := (if go then Outside else Asleep t)\<rparr>) s)))"

text \<open>Delivery to the worker at \<open>k\<close>. Without the handler the default action ends the process.\<close>

definition workerHold :: "nat \<Rightarrow> wstate \<Rightarrow> wstate cres" where
  "workerHold k s =
     (if \<not> usr1_set s then Inl (C_Exit ''User defined signal 1'')
      else
        rbind (wk_get s k) (\<lambda>w.
        let s = wk_put k (w\<lparr>usr1_pending := False\<rparr>) s in
        rbind (hold_target (pth w) s) (\<lambda>t. hold_test k t s)))"

subsection \<open>The thread function and the interface\<close>

text \<open>\<open>workerDo\<close> up to the call of the user's function, and behind it.\<close>

definition workerDo_enter :: "nat \<Rightarrow> wstate \<Rightarrow> wstate cres" where
  "workerDo_enter k s =
     rbind (wk_get s k) (\<lambda>w.
     let s = (if \<not> bInit (gManager s) then
                s\<lparr>links := ListInit 0 (links s), gManager := \<lparr>bInit = True, threadsNum = 0\<rparr>\<rparr> else s);
         s = s\<lparr>links := ListAddTail 0 k (links s),
               gManager := (gManager s)\<lparr>threadsNum := threadsNum (gManager s) + 1\<rparr>, usr1_set := True\<rparr>
     in Inr (wk_put k (w\<lparr>at := Running\<rparr>) s))"

definition workerDo_leave :: "nat \<Rightarrow> wstate \<Rightarrow> wstate cres" where
  "workerDo_leave k s =
     rbind (wk_get s k) (\<lambda>w.
     let s = s\<lparr>links := ListRemove k (links s),
               gManager := (gManager s)\<lparr>threadsNum := threadsNum (gManager s) - 1\<rparr>\<rparr>
     in Inr (wk_put k (w\<lparr>at := Leaving\<rparr>) s))"

text \<open>\<open>malloc_ok\<close>: whether the allocation succeeds. A name of 128 characters or more overruns the array.\<close>

definition workerCreate :: "bool \<Rightarrow> string option \<Rightarrow> wstate \<Rightarrow> (nat option \<times> wstate) cres" where
  "workerCreate malloc_ok workerName s =
     (if \<not> malloc_ok then Inr (None, s)
      else
        let k = next_addr s; name = (case workerName of None \<Rightarrow> [] | Some n \<Rightarrow> n) in
        if length name \<ge> 128 then Inl C_Fault
        else
          rbind (bsem_init 1 \<lparr>sem_v = 0, sleepers = []\<rparr>) (\<lambda>b.
          Inr (Some k, wk_put k \<lparr>pth = k, threadName = name, stBinarySem = b, at = Created,
                 in_handler = Outside, usr1_pending = False\<rparr>
               (s\<lparr>links := ListInit k (links s), next_addr := k + 1\<rparr>))))"

text \<open>\<open>None\<close>: \<open>pthread_join\<close> blocks.\<close>

definition workerDestroy :: "nat option \<Rightarrow> wstate \<Rightarrow> wstate cres option" where
  "workerDestroy worker s =
     (case worker of
        None \<Rightarrow> Some (Inr s)
      | Some k \<Rightarrow> (case workers s k of
            None \<Rightarrow> Some (Inl C_Fault)
          | Some w \<Rightarrow>
              if at w = Exited then Some (Inr (s\<lparr>workers := (workers s)(k := None)\<rparr>)) else None))"

text \<open>A signal to a thread that has ended and is not joined yet has no effect.\<close>

definition workerPause :: "nat option \<Rightarrow> wstate \<Rightarrow> wstate cres" where
  "workerPause worker s =
     (case worker of
        None \<Rightarrow> Inr s
      | Some k \<Rightarrow>
          rbind (wk_get s k) (\<lambda>w.
          rbind (bsem_reset (stBinarySem w)) (\<lambda>b.
          Inr (wk_put k (w\<lparr>stBinarySem := b, usr1_pending := (at w \<noteq> Exited)\<rparr>) s))))"

fun wake :: "nat \<Rightarrow> nat list \<Rightarrow> wstate \<Rightarrow> wstate cres" where
  "wake t [] s = Inr s"
| "wake t (x # xs) s =
     rbind (wk_get s x) (\<lambda>w. wake t xs (wk_put x (w\<lparr>in_handler := Woken t\<rparr>) s))"

definition workerResume :: "nat option \<Rightarrow> wstate \<Rightarrow> wstate cres" where
  "workerResume worker s =
     (case worker of
        None \<Rightarrow> Inr s
      | Some k \<Rightarrow>
          rbind (wk_get s k) (\<lambda>w.
          let (woken, b) = bsem_post (stBinarySem w) in
          wake k woken (wk_put k (w\<lparr>stBinarySem := b\<rparr>) s)))"

subsection \<open>Steps of the whole program\<close>

datatype wevent =
    Create bool "string option" | Enter nat | Deliver nat | Recheck nat | Leave nat | Exit nat
  | Pause "nat option" | Resume "nat option" | Destroy "nat option"

text \<open>\<open>None\<close>: the event cannot happen now. SIGUSR1 is blocked while its handler runs.\<close>

definition thread_may :: "wstate \<Rightarrow> nat \<Rightarrow> (workThread \<Rightarrow> bool) \<Rightarrow> wstate cres \<Rightarrow> wstate cres option" where
  "thread_may s k guard r =
     (case workers s k of Some w \<Rightarrow> (if guard w then Some r else None) | None \<Rightarrow> None)"

fun work_step :: "wevent \<Rightarrow> wstate \<Rightarrow> wstate cres option" where
  "work_step (Create ok nm) s = Some (rbind (workerCreate ok nm s) (\<lambda>(_, s). Inr s))"
| "work_step (Enter k) s =
     thread_may s k (\<lambda>w. at w = Created \<and> in_handler w = Outside) (workerDo_enter k s)"
| "work_step (Deliver k) s =
     thread_may s k (\<lambda>w. at w \<noteq> Exited \<and> in_handler w = Outside \<and> usr1_pending w) (workerHold k s)"
| "work_step (Recheck k) s =
     (case workers s k of
        Some w \<Rightarrow> (case in_handler w of Woken t \<Rightarrow> Some (hold_test k t s) | _ \<Rightarrow> None)
      | None \<Rightarrow> None)"
| "work_step (Leave k) s =
     thread_may s k (\<lambda>w. at w = Running \<and> in_handler w = Outside) (workerDo_leave k s)"
| "work_step (Exit k) s =
     thread_may s k (\<lambda>w. at w = Leaving \<and> in_handler w = Outside)
       (rbind (wk_get s k) (\<lambda>w. Inr (wk_put k (w\<lparr>at := Exited\<rparr>) s)))"
| "work_step (Pause p) s = Some (workerPause p s)"
| "work_step (Resume p) s = Some (workerResume p s)"
| "work_step (Destroy p) s = workerDestroy p s"

inductive work_runs :: "wstate \<Rightarrow> wevent list \<Rightarrow> wstate \<Rightarrow> bool" where
  runs_none: "work_runs s [] s"
| runs_event: "work_step e s = Some (Inr s') \<Longrightarrow> work_runs s' es s'' \<Longrightarrow> work_runs s (e # es) s''"

inductive_cases work_runs_ConsE: "work_runs s (e # es) s'"

text \<open>
  \<open>main.c\<close>: what iteration \<open>i\<close> of the loop of \<open>main\<close> and of \<open>processTask\<close> (whose counter is read after the
  increment) does to the workers, and the calls of \<open>main\<close> in order.
\<close>

definition main_tick :: "nat option \<Rightarrow> nat \<Rightarrow> wevent list" where
  "main_tick pProcessWorker i =
     (if i = 8 then [Pause pProcessWorker] else []) @ (if i = 16 then [Resume pProcessWorker] else [])"

definition processTask_tick :: "nat option \<Rightarrow> nat \<Rightarrow> wevent list" where
  "processTask_tick pInputWorker i =
     (if i = 10 then [Pause pInputWorker] else []) @ (if i = 15 then [Resume pInputWorker] else [])"

definition main_events :: "nat option \<Rightarrow> nat option \<Rightarrow> wevent list" where
  "main_events pProcessWorker pInputWorker =
     concat (map (main_tick pProcessWorker) [1..<51]) @ [Destroy pInputWorker, Destroy pProcessWorker]"

definition work_start :: "lheap \<Rightarrow> wstate" where
  "work_start h = \<lparr>gManager = \<lparr>bInit = False, threadsNum = 0\<rparr>, links = h, workers = \<lambda>_. None,
     next_addr = 1, usr1_set = False\<rparr>"

section \<open>Invariants\<close>

definition registered :: "wstate \<Rightarrow> nat set" where
  "registered s = {k. \<exists>w. workers s k = Some w \<and> at w = Running}"

text \<open>The global list holds the running workers and nothing else; the handler is set with it.\<close>

definition list_ok :: "wstate \<Rightarrow> nat list \<Rightarrow> bool" where
  "list_ok s ns \<longleftrightarrow> (if bInit (gManager s) then dlist (links s) 0 ns else ns = []) \<and>
     threadsNum (gManager s) = int (length ns) \<and> set ns = registered s \<and>
     (bInit (gManager s) \<longrightarrow> usr1_set s)"

text \<open>Who sleeps on a semaphore knows it.\<close>

definition sem_ok :: "wstate \<Rightarrow> bool" where
  "sem_ok s \<longleftrightarrow> (\<forall>t wt. workers s t = Some wt \<longrightarrow>
     0 \<le> sem_v (stBinarySem wt) \<and> distinct (sleepers (stBinarySem wt)) \<and>
     (\<forall>x \<in> set (sleepers (stBinarySem wt)). \<exists>wx. workers s x = Some wx \<and> in_handler wx = Asleep t))"

definition thr_ok :: "wstate \<Rightarrow> bool" where
  "thr_ok s \<longleftrightarrow> 0 < next_addr s \<and> (\<forall>k w. workers s k = Some w \<longrightarrow>
     0 < k \<and> k < next_addr s \<and> pth w = k \<and> (at w = Exited \<longrightarrow> in_handler w = Outside))"

definition work_ok :: "wstate \<Rightarrow> bool" where
  "work_ok s \<longleftrightarrow> sem_ok s \<and> thr_ok s \<and> (\<exists>ns. list_ok s ns)"

lemmas wk_simps = wk_get_def wk_put_def res_simps Let_def

lemma wk_get_Inr: "wk_get s k = Inr w \<longleftrightarrow> workers s k = Some w"
  by (simp add: wk_get_def split: option.splits)

text \<open>What \<open>hold_test\<close> does to the state.\<close>

lemma hold_test_Inr:
  assumes "hold_test k t s = Inr s'"
  obtains wt w where "workers s t = Some wt" "workers s k = Some w"
    "sem_v (stBinarySem wt) = 0 \<Longrightarrow> s' = wk_put k ((the (workers (wk_put t (wt\<lparr>stBinarySem :=
        (stBinarySem wt)\<lparr>sleepers := sleepers (stBinarySem wt) @ [k]\<rparr>\<rparr>) s) k))\<lparr>in_handler := Asleep t\<rparr>)
      (wk_put t (wt\<lparr>stBinarySem := (stBinarySem wt)\<lparr>sleepers := sleepers (stBinarySem wt) @ [k]\<rparr>\<rparr>) s)"
    "sem_v (stBinarySem wt) \<noteq> 0 \<Longrightarrow> s' = wk_put k ((the (workers (wk_put t (wt\<lparr>stBinarySem :=
        (stBinarySem wt)\<lparr>sem_v := sem_v (stBinarySem wt) - 1\<rparr>\<rparr>) s) k))\<lparr>in_handler := Outside\<rparr>)
      (wk_put t (wt\<lparr>stBinarySem := (stBinarySem wt)\<lparr>sem_v := sem_v (stBinarySem wt) - 1\<rparr>\<rparr>) s)"
  using assms
  by (auto simp: hold_test_def bsem_wait_test_def wk_simps split: if_splits option.splits)

end
