(* ===== verification/Work_Safety.thy ===== *)
theory Work_Safety
  imports Work_Thread
begin

text \<open>
  The invariants of workthread's state, preserved by every step of its threads, and what they give for
  pausing and resuming.
\<close>

section \<open>Semaphores\<close>

lemma sem_okD:
  assumes "sem_ok s" and "workers s t = Some wt"
  shows "0 \<le> sem_v (stBinarySem wt)" and "distinct (sleepers (stBinarySem wt))"
    and "x \<in> set (sleepers (stBinarySem wt)) \<Longrightarrow> workers s x = Some wx \<Longrightarrow> in_handler wx = Asleep t"
    and "x \<in> set (sleepers (stBinarySem wt)) \<Longrightarrow> \<exists>wx. workers s x = Some wx"
  using assms by (force simp: sem_ok_def)+

text \<open>
  A change of one worker that keeps its place in the handler and adds nobody to its semaphore, and one
  that moves a worker who sleeps nowhere.
\<close>

lemma sem_ok_put:
  assumes "sem_ok s" and "workers s k = Some w" and "in_handler w' = in_handler w"
    and "workers s' = (workers s)(k \<mapsto> w')" and "0 \<le> sem_v (stBinarySem w')"
    and "set (sleepers (stBinarySem w')) \<subseteq> set (sleepers (stBinarySem w))"
    and "distinct (sleepers (stBinarySem w'))"
  shows "sem_ok s'"
  unfolding sem_ok_def
proof (intro allI impI)
  fix t wt assume t: "workers s' t = Some wt"
  then obtain wt0 where t0: "workers s t = Some wt0"
      "set (sleepers (stBinarySem wt)) \<subseteq> set (sleepers (stBinarySem wt0))"
    using assms by (auto split: if_splits)
  note ok = sem_okD [OF assms(1) t0(1)]
  have "\<exists>wx. workers s' x = Some wx \<and> in_handler wx = Asleep t" if "x \<in> set (sleepers (stBinarySem wt0))" for x
    using ok(3,4) [OF that] assms by (cases "x = k") auto
  moreover have "0 \<le> sem_v (stBinarySem wt) \<and> distinct (sleepers (stBinarySem wt))"
    using t assms(4,5,7) sem_okD(1,2) [OF assms(1)] by (cases "t = k") auto
  ultimately show "0 \<le> sem_v (stBinarySem wt) \<and> distinct (sleepers (stBinarySem wt)) \<and>
      (\<forall>x\<in>set (sleepers (stBinarySem wt)). \<exists>wx. workers s' x = Some wx \<and> in_handler wx = Asleep t)"
    using t0(2) by blast
qed

lemma sem_ok_move:
  assumes "sem_ok s" and "workers s k = Some w" and "workers s' = (workers s)(k \<mapsto> w')"
    and "stBinarySem w' = stBinarySem w"
    and "\<And>u wu. workers s u = Some wu \<Longrightarrow> k \<notin> set (sleepers (stBinarySem wu))"
  shows "sem_ok s'"
  unfolding sem_ok_def
proof (intro allI impI)
  fix t wt assume "workers s' t = Some wt"
  then obtain wt0 where t0: "workers s t = Some wt0" "stBinarySem wt = stBinarySem wt0"
    using assms by (auto split: if_splits)
  note ok = sem_okD [OF assms(1) t0(1)]
  have "\<exists>wx. workers s' x = Some wx \<and> in_handler wx = Asleep t" if "x \<in> set (sleepers (stBinarySem wt0))" for x
    using ok(3,4) [OF that] assms(3) assms(5) [OF t0(1)] that by (cases "x = k") auto
  then show "0 \<le> sem_v (stBinarySem wt) \<and> distinct (sleepers (stBinarySem wt)) \<and>
      (\<forall>x\<in>set (sleepers (stBinarySem wt)). \<exists>wx. workers s' x = Some wx \<and> in_handler wx = Asleep t)"
    using ok(1,2) t0(2) by simp
qed

lemma sem_ok_workers: "sem_ok s \<Longrightarrow> workers s' = workers s \<Longrightarrow> sem_ok s'"
  by (simp add: sem_ok_def)

lemma sem_ok_hold_test:
  assumes h: "hold_test k t s = Inr s'" and ok: "sem_ok s" and k: "workers s k = Some w"
    and awake: "\<And>u. in_handler w \<noteq> Asleep u"
  shows "sem_ok s'"
proof -
  from h obtain wt where t: "workers s t = Some wt" by (rule hold_test_Inr)
  have nk: "k \<notin> set (sleepers (stBinarySem wu))" if "workers s u = Some wu" for u wu
    using sem_okD(3) [OF ok that _ k] awake by blast
  note o = sem_okD [OF ok]
  show ?thesis
    unfolding sem_ok_def
  proof (intro allI impI)
    fix u wu assume u: "workers s' u = Some wu"
    obtain wu0 where u0: "workers s u = Some wu0"
      using h u t k by (auto simp: hold_test_def bsem_wait_test_def wk_simps split: if_splits option.splits)
    have other: "\<exists>wx. workers s' x = Some wx \<and> in_handler wx = Asleep v"
      if "x \<noteq> k" "workers s x = Some wx0" "in_handler wx0 = Asleep v" for x wx0 v
      using h that t k by (auto simp: hold_test_def bsem_wait_test_def wk_simps split: if_splits option.splits)
    have sem: "stBinarySem wu = (if u \<noteq> t then stBinarySem wu0 else snd (bsem_wait_test k (stBinarySem wu0)))"
      using h u u0 t k by (auto simp: hold_test_def bsem_wait_test_def wk_simps split: if_splits option.splits)
    have self: "\<exists>wx. workers s' k = Some wx \<and> in_handler wx = Asleep t" if "sem_v (stBinarySem wt) = 0"
      using h that t k by (auto simp: hold_test_def bsem_wait_test_def wk_simps split: if_splits option.splits)
    have old: "\<exists>wx. workers s' x = Some wx \<and> in_handler wx = Asleep u"
      if "x \<in> set (sleepers (stBinarySem wu0))" for x
      using other o(3,4) [OF u0 that] nk [OF u0] that by metis
    show "0 \<le> sem_v (stBinarySem wu) \<and> distinct (sleepers (stBinarySem wu)) \<and>
        (\<forall>x\<in>set (sleepers (stBinarySem wu)). \<exists>wx. workers s' x = Some wx \<and> in_handler wx = Asleep u)"
    proof (cases "u = t")
      case False
      then show ?thesis using sem o(1,2) [OF u0] old by simp
    next
      case True
      then have "wu0 = wt" using u0 t by simp
      then show ?thesis
        using True sem o(1,2) [OF u0] old self nk [OF u0] by (auto simp: bsem_wait_test_def split: if_splits)
    qed
  qed
qed

lemma sem_ok_pause:
  assumes "workerPause p s = Inr s'" and "sem_ok s"
  shows "sem_ok s'"
proof (cases p)
  case (Some k)
  then obtain w b where "workers s k = Some w" "bsem_reset (stBinarySem w) = Inr b"
      "s' = wk_put k (w\<lparr>stBinarySem := b, usr1_pending := (at w \<noteq> Exited)\<rparr>) s"
    using assms by (auto simp: workerPause_def wk_get_Inr res_simps)
  then show ?thesis
    by (intro sem_ok_put [OF assms(2), of k w "w\<lparr>stBinarySem := b, usr1_pending := (at w \<noteq> Exited)\<rparr>"])
      (auto simp: wk_put_def bsem_reset_def bsem_init_def split: if_splits)
qed (use assms in \<open>simp add: workerPause_def\<close>)

lemma sem_ok_resume:
  assumes r: "workerResume p s = Inr s'" and ok: "sem_ok s"
  shows "sem_ok s'"
proof (cases p)
  case (Some k)
  then obtain w where w: "workers s k = Some w"
    using r by (auto simp: workerResume_def wk_get_Inr res_simps)
  define b where "b = snd (bsem_post (stBinarySem w))"
  define s1 where "s1 = wk_put k (w\<lparr>stBinarySem := b\<rparr>) s"
  note o = sem_okD [OF ok]
  have s': "wake k (take 1 (sleepers (stBinarySem w))) s1 = Inr s'"
    using r Some w by (simp add: workerResume_def bsem_post_def wk_get_Inr res_simps wk_get_def s1_def b_def)
  have s1: "sem_ok s1"
    using o(1,2) [OF w] by (intro sem_ok_put [OF ok w, of "w\<lparr>stBinarySem := b\<rparr>"])
      (auto simp: s1_def wk_put_def b_def bsem_post_def dest: in_set_dropD)
  show ?thesis
  proof (cases "sleepers (stBinarySem w)")
    case Nil
    then show ?thesis using s' s1 by simp
  next
    case (Cons x xs)
    have "x \<in> set (sleepers (stBinarySem w))" using Cons by simp
    then obtain wx where x: "workers s x = Some wx" "in_handler wx = Asleep k"
      using o(3,4) [OF w] by blast
    obtain wx1 where x1: "workers s1 x = Some wx1" "s' = wk_put x (wx1\<lparr>in_handler := Woken k\<rparr>) s1"
      using s' Cons by (auto simp: wk_get_Inr res_simps)
    have "x \<notin> set (sleepers (stBinarySem wu))" if u: "workers s1 u = Some wu" for u wu
    proof
      assume a: "x \<in> set (sleepers (stBinarySem wu))"
      have "u = k"
        using sem_okD(3) [OF s1 u a x1(1)] x x1(1) w by (auto simp: s1_def wk_put_def split: if_splits)
      then show False
        using a u o(2) [OF w] Cons by (auto simp: s1_def wk_put_def b_def bsem_post_def)
    qed
    then show ?thesis
      by (intro sem_ok_move [OF s1 x1(1), of _ "wx1\<lparr>in_handler := Woken k\<rparr>"]) (auto simp: x1(2) wk_put_def)
  qed
qed (use assms in \<open>simp add: workerResume_def\<close>)

lemma not_asleep_nowhere:
  assumes "sem_ok s" and "workers s k = Some w" and "\<And>u. in_handler w \<noteq> Asleep u" and "workers s u = Some wu"
  shows "k \<notin> set (sleepers (stBinarySem wu))"
  using sem_okD(3) [OF assms(1,4) _ assms(2)] assms(3) by blast

lemma sem_ok_hold:
  assumes "workerHold k s = Inr s'" and ok: "sem_ok s" and k: "workers s k = Some w"
    and out: "in_handler w = Outside"
  shows "sem_ok s'"
proof -
  let ?s = "wk_put k (w\<lparr>usr1_pending := False\<rparr>) s"
  obtain t where "hold_test k t ?s = Inr s'"
    using assms(1) k by (auto simp: workerHold_def wk_get_Inr res_simps Let_def split: if_splits)
  moreover have "sem_ok ?s"
    using sem_okD(1,2) [OF ok k]
    by (intro sem_ok_put [OF ok k, of "w\<lparr>usr1_pending := False\<rparr>"]) (simp_all add: wk_put_def)
  ultimately show ?thesis
    by (rule sem_ok_hold_test [where w = "w\<lparr>usr1_pending := False\<rparr>"]) (simp_all add: wk_put_def out)
qed

lemma sem_ok_create:
  assumes "workerCreate ok nm s = Inr (r, s')" and s: "sem_ok s" and t: "thr_ok s"
  shows "sem_ok s'"
proof -
  have new: "x \<noteq> next_addr s" if "workers s x = Some wx" for x wx
    using t that by (auto simp: thr_ok_def)
  show ?thesis
  proof (cases ok)
    case True
    then obtain w where w: "workers s' = (workers s)(next_addr s \<mapsto> w)" "stBinarySem w = \<lparr>sem_v = 1, sleepers = []\<rparr>"
      using assms(1) by (auto simp: workerCreate_def bsem_init_def Let_def wk_put_def split: if_splits)
    show ?thesis
      unfolding sem_ok_def
    proof (intro allI impI)
      fix u wu assume u: "workers s' u = Some wu"
      show "0 \<le> sem_v (stBinarySem wu) \<and> distinct (sleepers (stBinarySem wu)) \<and>
          (\<forall>x\<in>set (sleepers (stBinarySem wu)). \<exists>wx. workers s' x = Some wx \<and> in_handler wx = Asleep u)"
      proof (cases "u = next_addr s")
        case False
        then have u0: "workers s u = Some wu" using u w by simp
        note o = sem_okD [OF s u0]
        have "\<exists>wx. workers s' x = Some wx \<and> in_handler wx = Asleep u" if "x \<in> set (sleepers (stBinarySem wu))" for x
          using o(3,4) [OF that] new w by auto
        then show ?thesis using o(1,2) by simp
      qed (use u w in auto)
    qed
  next
    case False
    then show ?thesis using assms by (simp add: workerCreate_def)
  qed
qed

lemma sem_ok_destroy:
  assumes "workerDestroy p s = Some (Inr s')" and s: "sem_ok s" and t: "thr_ok s"
  shows "sem_ok s'"
proof (cases p)
  case (Some k)
  then obtain w where w: "workers s k = Some w" "at w = Exited" "workers s' = (workers s)(k := None)"
    using assms(1) by (auto simp: workerDestroy_def split: option.splits if_splits)
  have "in_handler w = Outside" using t w by (simp add: thr_ok_def)
  then have nk: "k \<notin> set (sleepers (stBinarySem wu))" if "workers s u = Some wu" for u wu
    using not_asleep_nowhere [OF s w(1) _ that] by simp
  show ?thesis
    unfolding sem_ok_def
  proof (intro allI impI)
    fix u wu assume u: "workers s' u = Some wu"
    then have u0: "workers s u = Some wu" using w by (auto split: if_splits)
    note o = sem_okD [OF s u0]
    have "\<exists>wx. workers s' x = Some wx \<and> in_handler wx = Asleep u" if "x \<in> set (sleepers (stBinarySem wu))" for x
      using o(3,4) [OF that] nk [OF u0] that w by (cases "x = k") auto
    then show "0 \<le> sem_v (stBinarySem wu) \<and> distinct (sleepers (stBinarySem wu)) \<and>
        (\<forall>x\<in>set (sleepers (stBinarySem wu)). \<exists>wx. workers s' x = Some wx \<and> in_handler wx = Asleep u)"
      using o(1,2) by simp
  qed
qed (use assms in \<open>simp add: workerDestroy_def\<close>)

lemma thread_may_Some:
  "thread_may s k g r = Some x \<longleftrightarrow> (\<exists>w. workers s k = Some w \<and> g w \<and> r = x)"
  by (auto simp: thread_may_def split: option.splits if_splits)

text \<open>The threads' own records: \<open>enter\<close>, \<open>leave\<close> and \<open>exit\<close> change only \<open>at\<close>.\<close>

lemma enter_put:
  assumes "workerDo_enter k s = Inr s'" and "workers s k = Some w"
  shows "workers s' = (workers s)(k \<mapsto> w\<lparr>at := Running\<rparr>)" and "next_addr s' = next_addr s"
  using assms by (auto simp: workerDo_enter_def wk_simps)

lemma leave_put:
  assumes "workerDo_leave k s = Inr s'" and "workers s k = Some w"
  shows "workers s' = (workers s)(k \<mapsto> w\<lparr>at := Leaving\<rparr>)" and "next_addr s' = next_addr s"
  using assms by (auto simp: workerDo_leave_def wk_simps)

lemma sem_ok_at:
  assumes "sem_ok s" and "workers s k = Some w" and "workers s' = (workers s)(k \<mapsto> w\<lparr>at := a\<rparr>)"
  shows "sem_ok s'"
  using sem_okD(1,2) [OF assms(1,2)] by (intro sem_ok_put [OF assms(1,2) _ assms(3)]) simp_all

lemma sem_ok_step:
  assumes step: "work_step e s = Some (Inr s')" and s: "sem_ok s" and t: "thr_ok s"
  shows "sem_ok s'"
proof (cases e)
  case (Create ok nm)
  then show ?thesis using step sem_ok_create [OF _ s t] by (auto simp: res_simps)
next
  case (Enter k)
  then show ?thesis using step enter_put(1) sem_ok_at [OF s] by (auto simp: thread_may_Some)
next
  case (Deliver k)
  then show ?thesis using step sem_ok_hold [OF _ s] by (auto simp: thread_may_Some)
next
  case (Recheck k)
  then obtain w u where w: "workers s k = Some w" "in_handler w = Woken u" "hold_test k u s = Inr s'"
    using step by (auto split: option.splits handler.splits)
  show ?thesis by (rule sem_ok_hold_test [OF w(3) s w(1)]) (simp add: w(2))
next
  case (Leave k)
  then show ?thesis using step leave_put(1) sem_ok_at [OF s] by (auto simp: thread_may_Some)
next
  case (Exit k)
  then show ?thesis using step sem_ok_at [OF s, of k _ s' Exited] by (auto simp: thread_may_Some wk_simps)
next
  case (Pause p)
  then show ?thesis using step sem_ok_pause [OF _ s] by simp
next
  case (Resume p)
  then show ?thesis using step sem_ok_resume [OF _ s] by simp
next
  case (Destroy p)
  then show ?thesis using step sem_ok_destroy [OF _ s t] by simp
qed

section \<open>Threads and the list\<close>

text \<open>What the operations on semaphores leave alone.\<close>

definition same_threads :: "wstate \<Rightarrow> wstate \<Rightarrow> bool" where
  "same_threads s s' \<longleftrightarrow> links s' = links s \<and> gManager s' = gManager s \<and> next_addr s' = next_addr s \<and>
     usr1_set s' = usr1_set s \<and>
     (\<forall>k. map_option (\<lambda>w. (pth w, at w)) (workers s' k) = map_option (\<lambda>w. (pth w, at w)) (workers s k))"

lemma same_threads_put:
  "workers s k = Some w \<Longrightarrow> pth w' = pth w \<Longrightarrow> at w' = at w \<Longrightarrow> same_threads s (wk_put k w' s)"
  by (simp add: same_threads_def wk_put_def)

lemma same_threads_trans: "same_threads s s' \<Longrightarrow> same_threads s' s'' \<Longrightarrow> same_threads s s''"
  by (simp add: same_threads_def)

lemma same_threads_hold_test: "hold_test k t s = Inr s' \<Longrightarrow> same_threads s s'"
  by (auto simp: hold_test_def wk_simps same_threads_def split: option.splits prod.splits if_splits)

lemma same_threads_hold: "workerHold k s = Inr s' \<Longrightarrow> same_threads s s'"
proof -
  assume h: "workerHold k s = Inr s'"
  then obtain w t where w: "workers s k = Some w"
      "hold_test k t (wk_put k (w\<lparr>usr1_pending := False\<rparr>) s) = Inr s'"
    by (auto simp: workerHold_def wk_get_Inr res_simps Let_def split: if_splits)
  show ?thesis
    by (rule same_threads_trans [OF same_threads_put same_threads_hold_test [OF w(2)]]) (simp_all add: w(1))
qed

lemma same_threads_pause: "workerPause p s = Inr s' \<Longrightarrow> same_threads s s'"
  by (auto simp: workerPause_def wk_get_Inr res_simps same_threads_def wk_put_def split: option.splits)

lemma same_threads_wake: "wake t xs s = Inr s' \<Longrightarrow> same_threads s s'"
proof (induction xs arbitrary: s)
  case Nil
  then show ?case by (simp add: same_threads_def)
next
  case (Cons x xs)
  then obtain w where w: "workers s x = Some w" "wake t xs (wk_put x (w\<lparr>in_handler := Woken t\<rparr>) s) = Inr s'"
    by (auto simp: wk_get_Inr res_simps)
  show ?case by (rule same_threads_trans [OF same_threads_put Cons.IH [OF w(2)]]) (simp_all add: w(1))
qed

lemma same_threads_resume: "workerResume p s = Inr s' \<Longrightarrow> same_threads s s'"
proof (cases p)
  case (Some k)
  assume "workerResume p s = Inr s'"
  then obtain w b where w: "workers s k = Some w"
      "wake k (fst (bsem_post (stBinarySem w))) (wk_put k (w\<lparr>stBinarySem := b\<rparr>) s) = Inr s'"
    using Some by (auto simp: workerResume_def wk_get_Inr res_simps Let_def bsem_post_def)
  show ?thesis
    by (rule same_threads_trans [OF same_threads_put same_threads_wake [OF w(2)]]) (simp_all add: w(1))
qed (simp add: workerResume_def same_threads_def)

lemma registered_same: "same_threads s s' \<Longrightarrow> registered s' = registered s"
proof -
  assume a: "same_threads s s'"
  have "map_option at (workers s' k) = map_option at (workers s k)" for k
    using a by (cases "workers s k"; cases "workers s' k") (auto simp: same_threads_def dest: spec [of _ k])
  then have "(\<exists>w. workers s' k = Some w \<and> at w = Running) = (\<exists>w. workers s k = Some w \<and> at w = Running)" for k
    by (metis (no_types, lifting) map_option_eq_Some)
  then show ?thesis by (simp add: registered_def)
qed

lemma list_ok_same: "same_threads s s' \<Longrightarrow> list_ok s ns \<Longrightarrow> list_ok s' ns"
  using registered_same by (auto simp: list_ok_def same_threads_def)

lemma thr_ok_same:
  assumes same: "same_threads s s'" and t: "thr_ok s"
    and out: "\<And>k w w'. workers s k = Some w \<Longrightarrow> workers s' k = Some w' \<Longrightarrow> at w = Exited \<Longrightarrow> in_handler w' = Outside"
  shows "thr_ok s'"
  unfolding thr_ok_def
proof (intro conjI [of "0 < next_addr s'"] allI impI)
  show "0 < next_addr s'" using same t by (simp add: same_threads_def thr_ok_def)
  fix k w' assume k': "workers s' k = Some w'"
  then obtain w where k: "workers s k = Some w" "pth w = pth w'" "at w = at w'"
    using same by (cases "workers s k") (auto simp: same_threads_def dest: spec [of _ k])
  then show "0 < k \<and> k < next_addr s' \<and> pth w' = k \<and> (at w' = Exited \<longrightarrow> in_handler w' = Outside)"
    using t same out [OF k(1) k'] by (auto simp: thr_ok_def same_threads_def)
qed

text \<open>Which worker's place in the handler can change.\<close>

lemma hold_test_others:
  "hold_test k t s = Inr s' \<Longrightarrow> j \<noteq> k \<Longrightarrow> map_option in_handler (workers s' j) = map_option in_handler (workers s j)"
  by (auto simp: hold_test_def wk_simps split: option.splits prod.splits if_splits)

lemma hold_others:
  "workerHold k s = Inr s' \<Longrightarrow> j \<noteq> k \<Longrightarrow> map_option in_handler (workers s' j) = map_option in_handler (workers s j)"
  by (auto simp: workerHold_def wk_get_Inr res_simps Let_def wk_put_def split: if_splits
      dest!: hold_test_others [where j = j])

lemma pause_others:
  "workerPause p s = Inr s' \<Longrightarrow> map_option in_handler (workers s' j) = map_option in_handler (workers s j)"
  by (auto simp: workerPause_def wk_get_Inr res_simps wk_put_def split: option.splits)

lemma wake_others:
  "wake t xs s = Inr s' \<Longrightarrow> j \<notin> set xs \<Longrightarrow> map_option in_handler (workers s' j) = map_option in_handler (workers s j)"
  by (induction xs arbitrary: s) (auto simp: wk_get_Inr res_simps wk_put_def)

lemma resume_others:
  assumes "workerResume p s = Inr s'" and "sem_ok s" and "workers s j = Some w"
    and "\<And>k. p = Some k \<Longrightarrow> in_handler w \<noteq> Asleep k"
  shows "map_option in_handler (workers s' j) = map_option in_handler (workers s j)"
proof (cases p)
  case (Some k)
  then obtain wk where k: "workers s k = Some wk"
    using assms by (auto simp: workerResume_def wk_get_Inr res_simps)
  have "j \<notin> set (sleepers (stBinarySem wk))"
    using sem_okD(3) [OF assms(2) k _ assms(3)] assms(4) [OF Some] by blast
  then have "j \<notin> set (take 1 (sleepers (stBinarySem wk)))" by (meson in_set_takeD)
  from wake_others [OF _ this] show ?thesis
    using assms(1) k Some
    by (auto simp: workerResume_def wk_get_def res_simps Let_def bsem_post_def wk_put_def split: if_splits)
qed (use assms in \<open>simp add: workerResume_def\<close>)

lemma thr_ok_step:
  assumes step: "work_step e s = Some (Inr s')" and t: "thr_ok s" and s: "sem_ok s"
  shows "thr_ok s'"
proof -
  have exited: "in_handler w' = Outside"
    if "map_option in_handler (workers s' k) = map_option in_handler (workers s k)" "workers s k = Some w"
      "workers s' k = Some w'" "at w = Exited" for k w w'
    using that t by (auto simp: thr_ok_def)
  show ?thesis
  proof (cases e)
    case (Deliver k)
    then obtain w where w: "workers s k = Some w" "at w \<noteq> Exited" "workerHold k s = Inr s'"
      using step by (auto simp: thread_may_Some)
    show ?thesis
      by (rule thr_ok_same [OF same_threads_hold [OF w(3)] t]) (metis exited hold_others [OF w(3)] w(1,2) option.inject)
  next
    case (Recheck k)
    then obtain w u where w: "workers s k = Some w" "in_handler w = Woken u" "hold_test k u s = Inr s'"
      using step by (auto split: option.splits handler.splits)
    then have "at w \<noteq> Exited" using t by (auto simp: thr_ok_def)
    then show ?thesis
      by (intro thr_ok_same [OF same_threads_hold_test [OF w(3)] t]) (metis exited hold_test_others [OF w(3)] w(1) option.inject)
  next
    case (Pause p)
    then have w: "workerPause p s = Inr s'" using step by simp
    show ?thesis
      by (rule thr_ok_same [OF same_threads_pause [OF w] t]) (metis exited pause_others [OF w])
  next
    case (Resume p)
    then have w: "workerResume p s = Inr s'" using step by simp
    have "in_handler v = Outside" if "workers s k = Some v" "at v = Exited" for k v
      using that t by (auto simp: thr_ok_def)
    then show ?thesis
      by (intro thr_ok_same [OF same_threads_resume [OF w] t])
        (metis exited resume_others [OF w s] handler.distinct(1))
  next
    case (Create ok nm)
    then show ?thesis
      using step t by (auto simp: thr_ok_def workerCreate_def bsem_init_def res_simps Let_def wk_put_def less_Suc_eq split: if_splits)
  next
    case (Destroy p)
    then show ?thesis
      using step t by (auto simp: thr_ok_def workerDestroy_def split: option.splits if_splits)
  qed (use step t in \<open>auto simp: thr_ok_def thread_may_Some enter_put leave_put wk_simps split: if_splits\<close>)
qed

lemma list_ok_step:
  assumes step: "work_step e s = Some (Inr s')" and t: "thr_ok s" and l: "list_ok s ns"
  shows "\<exists>ns. list_ok s' ns"
proof (cases e)
  case (Enter k)
  then obtain w where w: "workers s k = Some w" "at w = Created" "workerDo_enter k s = Inr s'"
    using step by (auto simp: thread_may_Some)
  have k: "0 < k" "k \<notin> set ns" using t w l by (auto simp: thr_ok_def list_ok_def registered_def)
  let ?h = "if bInit (gManager s) then links s else ListInit 0 (links s)"
  have "dlist ?h 0 ns" using l by (auto simp: list_ok_def)
  then have d: "dlist (ListAddTail 0 k ?h) 0 (ns @ [k])" by (rule ListAddTail_dlist) (use k in auto)
  have "registered s' = insert k (registered s)"
    using w(1) enter_put(1) [OF w(3,1)] by (auto simp: registered_def)
  then have "list_ok s' (ns @ [k])"
    using w d l by (auto simp: list_ok_def workerDo_enter_def wk_simps split: if_splits)
  then show ?thesis ..
next
  case (Leave k)
  then obtain w where w: "workers s k = Some w" "at w = Running" "workerDo_leave k s = Inr s'"
    using step by (auto simp: thread_may_Some)
  then have k: "k \<in> set ns" using l by (auto simp: list_ok_def registered_def)
  then obtain us vs where ns: "ns = us @ k # vs" by (auto simp: in_set_conv_decomp)
  have i: "bInit (gManager s)" "dlist (links s) 0 (us @ k # vs)"
    using l k ns by (auto simp: list_ok_def split: if_splits)
  then have d: "dlist (ListRemove k (links s)) 0 (us @ vs)" by (intro ListRemove_dlist)
  have dist: "k \<notin> set (us @ vs)" using i by (auto simp: dlist_def)
  have "registered s' = registered s - {k}"
    using leave_put(1) [OF w(3,1)] by (auto simp: registered_def)
  then have "list_ok s' (us @ vs)"
    using w d l i dist ns by (auto simp: list_ok_def workerDo_leave_def wk_simps)
  then show ?thesis ..
next
  case (Create ok nm)
  have new: "next_addr s \<notin> set (0 # ns)"
    using t l by (auto simp: list_ok_def registered_def thr_ok_def)
  have none: "workers s (next_addr s) = None"
    using t by (cases "workers s (next_addr s)") (auto simp: thr_ok_def)
  show ?thesis
  proof (cases ok)
    case True
    then have c: "links s' = ListInit (next_addr s) (links s)" "gManager s' = gManager s"
        "registered s' = registered s" "usr1_set s' = usr1_set s"
      using step Create none
      by (auto simp: workerCreate_def bsem_init_def res_simps Let_def wk_put_def registered_def split: if_splits)
    have "list_ok s' ns"
      using l new c ListInit_other [of "links s" 0 ns "next_addr s"] by (auto simp: list_ok_def split: if_splits)
    then show ?thesis ..
  next
    case False
    then show ?thesis using step Create l by (auto simp: workerCreate_def res_simps)
  qed
next
  case (Exit k)
  then have "registered s' = registered s" "links s' = links s" "gManager s' = gManager s" "usr1_set s' = usr1_set s"
    using step by (auto simp: thread_may_Some wk_simps registered_def split: if_splits)
  then have "list_ok s' ns" using l by (simp add: list_ok_def)
  then show ?thesis ..
next
  case (Destroy p)
  then have "registered s' = registered s" "links s' = links s" "gManager s' = gManager s" "usr1_set s' = usr1_set s"
    using step by (auto simp: workerDestroy_def registered_def split: option.splits if_splits)
  then have "list_ok s' ns" using l by (simp add: list_ok_def)
  then show ?thesis ..
next
  case (Deliver k)
  then show ?thesis using step list_ok_same [OF same_threads_hold l] by (auto simp: thread_may_Some)
next
  case (Recheck k)
  then show ?thesis using step list_ok_same [OF same_threads_hold_test l]
    by (auto split: option.splits handler.splits)
next
  case (Pause p)
  then show ?thesis using step list_ok_same [OF same_threads_pause l] by auto
next
  case (Resume p)
  then show ?thesis using step list_ok_same [OF same_threads_resume l] by auto
qed

lemma work_ok_step: "work_step e s = Some (Inr s') \<Longrightarrow> work_ok s \<Longrightarrow> work_ok s'"
  using sem_ok_step thr_ok_step list_ok_step by (metis work_ok_def)

lemma work_ok_runs: "work_runs s es s' \<Longrightarrow> work_ok s \<Longrightarrow> work_ok s'"
  by (induction rule: work_runs.induct) (auto dest: work_ok_step)

lemma work_ok_start: "work_ok (work_start h)"
  by (auto simp: work_ok_def work_start_def sem_ok_def thr_ok_def list_ok_def registered_def)

lemma runs_append: "work_runs s es s' \<Longrightarrow> work_runs s' fs s'' \<Longrightarrow> work_runs s (es @ fs) s''"
  by (induction rule: work_runs.induct) (auto intro: work_runs.intros)

section \<open>Holding and releasing\<close>

definition asleep_on :: "wstate \<Rightarrow> nat \<Rightarrow> nat \<Rightarrow> bool" where
  "asleep_on s k t \<longleftrightarrow> (\<exists>w. workers s k = Some w \<and> in_handler w = Asleep t)"

lemma asleep_on_other:
  "asleep_on s k t \<Longrightarrow> map_option in_handler (workers s' k) = map_option in_handler (workers s k) \<Longrightarrow> asleep_on s' k t"
  by (auto simp: asleep_on_def)

text \<open>Only resuming the worker it waits on wakes a sleeper.\<close>

lemma asleep_step:
  assumes step: "work_step e s = Some (Inr s')" and a: "asleep_on s k t" and ok: "work_ok s"
    and e: "e \<noteq> Resume (Some t)"
  shows "asleep_on s' k t"
proof -
  obtain w where w: "workers s k = Some w" "in_handler w = Asleep t" using a by (auto simp: asleep_on_def)
  have thr: "thr_ok s" and sem: "sem_ok s" using ok by (simp_all add: work_ok_def)
  show ?thesis
  proof (cases e)
    case (Deliver j)
    then have "workerHold j s = Inr s'" "j \<noteq> k" using step w by (auto simp: thread_may_Some)
    then show ?thesis using asleep_on_other [OF a hold_others] by auto
  next
    case (Recheck j)
    then have "j \<noteq> k" using step w by auto
    moreover obtain u where "hold_test j u s = Inr s'"
      using step Recheck by (auto split: option.splits handler.splits)
    ultimately have "hold_test j u s = Inr s'" "j \<noteq> k" by simp_all
    then show ?thesis using asleep_on_other [OF a hold_test_others] by auto
  next
    case (Pause p)
    then show ?thesis using step asleep_on_other [OF a pause_others] by auto
  next
    case (Resume p)
    then show ?thesis using step e w asleep_on_other [OF a resume_others [OF _ sem w(1)]] by auto
  next
    case (Create ok nm)
    have "k \<noteq> next_addr s" using thr w by (auto simp: thr_ok_def)
    then show ?thesis
      using step Create a
      by (auto simp: asleep_on_def workerCreate_def bsem_init_def res_simps Let_def wk_put_def split: if_splits)
  next
    case (Destroy p)
    have "at w \<noteq> Exited" using thr w by (auto simp: thr_ok_def)
    then show ?thesis
      using step Destroy w by (auto simp: asleep_on_def workerDestroy_def split: option.splits if_splits)
  next
    case (Enter j)
    then obtain v where v: "workers s j = Some v" "workerDo_enter j s = Inr s'" "in_handler v = Outside"
      using step by (auto simp: thread_may_Some)
    then have "j \<noteq> k" using w by auto
    with v show ?thesis using enter_put(1) w by (auto simp: asleep_on_def)
  next
    case (Leave j)
    then obtain v where v: "workers s j = Some v" "workerDo_leave j s = Inr s'" "in_handler v = Outside"
      using step by (auto simp: thread_may_Some)
    then have "j \<noteq> k" using w by auto
    with v show ?thesis using leave_put(1) w by (auto simp: asleep_on_def)
  next
    case (Exit j)
    then show ?thesis using step w by (auto simp: thread_may_Some asleep_on_def wk_simps)
  qed
qed

lemma asleep_runs:
  "work_runs s es s' \<Longrightarrow> asleep_on s k t \<Longrightarrow> work_ok s \<Longrightarrow> Resume (Some t) \<notin> set es \<Longrightarrow> asleep_on s' k t"
  by (induction rule: work_runs.induct) (auto dest: asleep_step work_ok_step)

text \<open>The search of the handler on the list of a good state.\<close>

lemma hold_search_self:
  assumes "\<forall>n \<in> set ns. \<exists>w. workers s n = Some w \<and> pth w = n"
  shows "hold_search s self seen ns =
    (if self \<in> set ns then Inr self
     else case (if ns = [] then seen else Some (last ns)) of None \<Rightarrow> Inl C_Fault | Some t \<Rightarrow> Inr t)"
  using assms by (induction ns arbitrary: seen) (auto simp: wk_get_def)

lemma hold_target_eq:
  assumes t: "thr_ok s" and l: "list_ok s ns" and b: "bInit (gManager s)"
  shows "hold_target self s = (if self \<in> set ns then Inr self else if ns = [] then Inl C_Fault else Inr (last ns))"
proof -
  have d: "dlist (links s) 0 ns" using l b by (simp add: list_ok_def)
  have in_range: "set ns \<subseteq> {1..<next_addr s}" and reg: "\<forall>n \<in> set ns. \<exists>w. workers s n = Some w \<and> pth w = n"
    using t l by (auto simp: thr_ok_def list_ok_def registered_def Suc_le_eq)
  have "length ns = card (set ns)" using d by (simp add: dlist_def distinct_card)
  also have "\<dots> \<le> card {1..<next_addr s}" by (rule card_mono [OF _ in_range]) simp
  finally have "length ns < next_addr s + 1" by simp
  then show ?thesis
    using ListForEach_dlist [OF d] hold_search_self [OF reg] by (simp add: hold_target_def)
qed

end
