(* ===== verification/Work_Properties.thy ===== *)
theory Work_Properties
  imports Work_Safety
begin

text \<open>The properties of workthread, each with a run where its hypotheses hold.\<close>

section \<open>Lists\<close>

text \<open>The operations of \<open>list.h\<close> implement list operations: insertion at both ends, removal,
  iteration in both directions, reversal, and appending a second list that is not empty, which leaves
  that one empty.\<close>

theorem work_list_ops:
  assumes "dlist h head xs" and "dlist h head2 (y # ys)" and "set (head # xs) \<inter> set (head2 # y # ys) = {}"
    and "item \<notin> set (head # xs)"
  shows "dlist (ListAddTail head item h) head (xs @ [item]) \<and> dlist (ListAddHead head item h) head (item # xs) \<and>
    dlist (ListRemove y h) head2 ys \<and>
    ListForEach (Suc (length xs)) h head = Some xs \<and> ListForEachReverse (Suc (length xs)) h head = Some (rev xs) \<and>
    (\<exists>h'. ListReverse (Suc (length xs)) head h = Some h' \<and> dlist h' head (rev xs)) \<and>
    dlist (ListAppend head head2 h) head (xs @ y # ys) \<and> dlist (ListAppend head head2 h) head2 []"
  using ListAddTail_dlist [OF assms(1,4)] ListAddHead_dlist [OF assms(1,4)]
    ListRemove_dlist [of h head2 "[]" y ys] assms(2)
    ListForEach_dlist [OF assms(1)] ListForEachReverse_dlist [OF assms(1)] ListReverse_dlist [OF assms(1)]
    ListAppend_dlist [OF assms(1,2) _ assms(3)]
  by simp

definition two_lists :: lheap where
  "two_lists = ListAddTail 9 10 (ListAddTail 0 2 (ListAddTail 0 1 \<lparr>nxt = id, prv = id\<rparr>))"

lemma work_list_ops_witness:
  "dlist (ListAppend 0 9 two_lists) 0 [1, 2, 10]"
proof -
  have "dlist two_lists 0 [1, 2]" "dlist two_lists 9 [10]"
    by (simp_all add: two_lists_def list_ops_defs dlist_def)
  then show ?thesis using work_list_ops [of two_lists 0 "[1, 2]" 9 10 "[]" 3] by simp
qed

text \<open>\<open>ListAppend\<close> with an empty second list leaves the head node of that list in the ring of the
  first one, which is no well-formed list any more.\<close>

theorem append_empty_breaks:
  assumes "dlist h head1 xs" and "dlist h head2 []" and "head2 \<notin> set (head1 # xs)"
  shows "prv (ListAppend head1 head2 h) head1 = head2 \<and> \<not> dlist (ListAppend head1 head2 h) head1 ys"
  using ListAppend_empty [OF assms(1) _ _ assms(3)] assms(2) by (simp add: dlist_def)

lemma append_empty_breaks_witness:
  "\<not> dlist (ListAppend 0 9 \<lparr>nxt = id, prv = id\<rparr>) 0 []"
  using append_empty_breaks [of "\<lparr>nxt = id, prv = id\<rparr>" 0 "[]" 9 "[]"] by (simp add: dlist_def)

text \<open>Two threads that add their workers to the global list at the same time can lose one: some
  interleaving of the assignments of two calls of \<open>ListAddTail\<close> leaves a list whose loop finds only the
  second worker.\<close>

theorem add_race_loses_worker:
  assumes "dlist h head []" and "distinct [head, a, b]"
  shows "\<exists>steps \<in> shuffles (ListAddTail_steps head a) (ListAddTail_steps head b).
    ListForEach 3 (fold (\<lambda>step. step) steps h) head = Some [b]"
proof (rule bexI)
  let ?a = "ListAddTail_steps head a" and ?b = "ListAddTail_steps head b"
  let ?steps = "take 3 ?a @ take 3 ?b @ drop 3 ?a @ drop 3 ?b"
  show "ListForEach 3 (fold (\<lambda>step. step) ?steps h) head = Some [b]"
    using assms by (simp add: ListAddTail_steps_def ListForEach_def dlist_def numeral_3_eq_3)
  show "?steps \<in> shuffles ?a ?b"
    by (simp add: ListAddTail_steps_def Cons_in_shuffles_iff)
qed

lemma add_race_loses_worker_witness:
  "\<exists>steps \<in> shuffles (ListAddTail_steps 0 1) (ListAddTail_steps 0 2).
    ListForEach 3 (fold (\<lambda>step. step) steps (ListInit 0 \<lparr>nxt = id, prv = id\<rparr>)) 0 = Some [2]"
  using add_race_loses_worker [of "ListInit 0 \<lparr>nxt = id, prv = id\<rparr>" 0 1 2] by simp

section \<open>Workers\<close>


definition one_worker :: wstate where
  "one_worker = \<lparr>gManager = \<lparr>bInit = True, threadsNum = 1\<rparr>,
     links = ListAddTail 0 1 (ListInit 0 (ListInit 1 \<lparr>nxt = id, prv = id\<rparr>)),
     workers = [1 \<mapsto> \<lparr>pth = 1, threadName = ''w'', stBinarySem = \<lparr>sem_v = 1, sleepers = []\<rparr>, at = Running,
       in_handler = Outside, usr1_pending = False\<rparr>], next_addr = 2, usr1_set = True\<rparr>"

lemma one_worker_runs:
  "work_runs (work_start \<lparr>nxt = id, prv = id\<rparr>) [Create True (Some ''w''), Enter 1] one_worker"
proof -
  let ?w = "\<lparr>pth = 1, threadName = ''w'', stBinarySem = \<lparr>sem_v = 1, sleepers = []\<rparr>, at = Created,
    in_handler = Outside, usr1_pending = False\<rparr>"
  let ?s = "\<lparr>gManager = \<lparr>bInit = False, threadsNum = 0\<rparr>, links = ListInit 1 \<lparr>nxt = id, prv = id\<rparr>,
    workers = [1 \<mapsto> ?w], next_addr = 2, usr1_set = False\<rparr>"
  have "work_step (Create True (Some ''w'')) (work_start \<lparr>nxt = id, prv = id\<rparr>) = Some (Inr ?s)"
    by (simp add: work_start_def workerCreate_def bsem_init_def Let_def wk_put_def)
  moreover have "work_step (Enter 1) ?s = Some (Inr one_worker)"
    by (simp add: thread_may_def workerDo_enter_def wk_get_def wk_put_def one_worker_def)
  ultimately show ?thesis by (blast intro: work_runs.intros)
qed


text \<open>C21: Pausing a worker that is inside the user's function stops it: when the signal is delivered the
  worker goes to sleep on its own semaphore, and no sequence of events without a \<open>workerResume\<close> of it
  wakes it. Resuming it lets it return from the handler. Pausing it once more while it sleeps
  initialises the condition variable it sleeps on.\<close>

theorem pause_holds_until_resume:
  assumes "work_runs (work_start h) es s" and "workers s k = Some w" and "at w = Running"
    and "in_handler w = Outside" and "sleepers (stBinarySem w) = []"
  shows "\<exists>s1 s2. work_step (Pause (Some k)) s = Some (Inr s1) \<and> work_step (Deliver k) s1 = Some (Inr s2) \<and>
    (\<forall>fs s3. work_runs s2 fs s3 \<and> Resume (Some k) \<notin> set fs \<longrightarrow> asleep_on s3 k k) \<and>
    (\<exists>s4 w'. work_runs s2 [Resume (Some k), Recheck k] s4 \<and> workers s4 k = Some w' \<and>
      at w' = Running \<and> in_handler w' = Outside \<and> stBinarySem w' = \<lparr>sem_v = 0, sleepers = []\<rparr>) \<and>
    workerPause (Some k) s2 = Inl C_Fault"
proof -
  define w1 where "w1 = w\<lparr>stBinarySem := \<lparr>sem_v = 0, sleepers = []\<rparr>, usr1_pending := True\<rparr>"
  define s1 where "s1 = wk_put k w1 s"
  define w2 where "w2 = w1\<lparr>usr1_pending := False, stBinarySem := \<lparr>sem_v = 0, sleepers = [k]\<rparr>, in_handler := Asleep k\<rparr>"
  define s2 where "s2 = wk_put k w2 s"
  define w3 where "w3 = w2\<lparr>stBinarySem := \<lparr>sem_v = 1, sleepers = []\<rparr>, in_handler := Woken k\<rparr>"
  define s3 where "s3 = wk_put k w3 s"
  have ok: "work_ok s" by (rule work_ok_runs [OF assms(1) work_ok_start])
  obtain ns where l: "list_ok s ns" and t: "thr_ok s" using ok by (auto simp: work_ok_def)
  have k: "k \<in> set ns" using l assms(2,3) by (auto simp: list_ok_def registered_def)
  have b: "bInit (gManager s)" "usr1_set s" using l k by (auto simp: list_ok_def split: if_splits)
  have pk: "pth w = k" using t assms(2) by (auto simp: thr_ok_def)
  have p: "work_step (Pause (Some k)) s = Some (Inr s1)"
    using assms by (simp add: workerPause_def bsem_reset_def bsem_init_def wk_get_def s1_def w1_def rbind_def)
  let ?s = "wk_put k (w1\<lparr>usr1_pending := False\<rparr>) s1"
  have same: "same_threads s ?s"
    using assms(2) by (auto simp: same_threads_def s1_def w1_def wk_put_def)
  have ok1: "work_ok s1" by (rule work_ok_step [OF p ok])
  have "thr_ok ?s"
    using t assms(2,4) by (auto simp: thr_ok_def s1_def w1_def wk_put_def)
  then have tgt: "hold_target k ?s = Inr k"
    using hold_target_eq [OF _ list_ok_same [OF same l]] b k by (simp add: s1_def wk_put_def)
  have d: "work_step (Deliver k) s1 = Some (Inr s2)"
    using assms b pk tgt
    by (simp add: thread_may_def workerHold_def hold_test_def bsem_wait_test_def wk_get_def rbind_def Let_def
        s1_def s2_def w1_def w2_def wk_put_def)
  have ok2: "work_ok s2" by (rule work_ok_step [OF d ok1])
  have "asleep_on s2 k k" by (simp add: asleep_on_def s2_def w2_def wk_put_def)
  then have stays: "\<forall>fs s3. work_runs s2 fs s3 \<and> Resume (Some k) \<notin> set fs \<longrightarrow> asleep_on s3 k k"
    using asleep_runs ok2 by blast
  have r: "work_step (Resume (Some k)) s2 = Some (Inr s3)"
    by (simp add: workerResume_def bsem_post_def wk_get_def rbind_def s2_def s3_def w2_def w3_def wk_put_def)
  have c: "\<exists>s4. work_step (Recheck k) s3 = Some (Inr s4) \<and>
      workers s4 k = Some (w3\<lparr>stBinarySem := \<lparr>sem_v = 0, sleepers = []\<rparr>, in_handler := Outside\<rparr>)"
    by (simp add: hold_test_def bsem_wait_test_def wk_get_def rbind_def Let_def s3_def w3_def wk_put_def)
  have f: "workerPause (Some k) s2 = Inl C_Fault"
    by (simp add: workerPause_def bsem_reset_def bsem_init_def wk_get_def rbind_def s2_def w2_def wk_put_def)
  have w': "at w3 = Running" using assms(3) by (simp add: w3_def w2_def w1_def)
  from c obtain s4 where s4: "work_step (Recheck k) s3 = Some (Inr s4)"
      "workers s4 k = Some (w3\<lparr>stBinarySem := \<lparr>sem_v = 0, sleepers = []\<rparr>, in_handler := Outside\<rparr>)" by blast
  have "work_runs s2 [Resume (Some k), Recheck k] s4" using r s4(1) by (blast intro: work_runs.intros)
  then show ?thesis using p d stays f s4(2) w' by fastforce
qed

lemma pause_holds_until_resume_witness:
  "\<exists>s1 s2. work_step (Pause (Some 1)) one_worker = Some (Inr s1) \<and> work_step (Deliver 1) s1 = Some (Inr s2)"
  using pause_holds_until_resume [OF one_worker_runs, of 1] by (fastforce simp: one_worker_def)

text \<open>A signal delivered to a thread that is not in the list, one that has not entered it yet or has
  left it already, makes that thread wait on the semaphore of the last worker in the list.\<close>

theorem unlisted_thread_waits_on_other:
  assumes "work_runs (work_start h) es s" and "workers s k = Some w" and "at w \<noteq> Running"
    and "workers s j = Some v" and "at v = Running"
  shows "\<exists>t u. hold_target (pth w) s = Inr t \<and> t \<noteq> k \<and> workers s t = Some u \<and> at u = Running"
proof -
  have ok: "work_ok s" by (rule work_ok_runs [OF assms(1) work_ok_start])
  obtain ns where l: "list_ok s ns" and t: "thr_ok s" using ok by (auto simp: work_ok_def)
  have k: "k \<notin> set ns" "j \<in> set ns" "pth w = k"
    using l t assms by (auto simp: list_ok_def registered_def thr_ok_def)
  have "bInit (gManager s)" using l k by (auto simp: list_ok_def split: if_splits)
  then have "hold_target (pth w) s = Inr (last ns)" using hold_target_eq [OF t l] k by auto
  moreover have "last ns \<in> set ns" using k by (cases ns) auto
  ultimately show ?thesis using k l by (auto simp: list_ok_def registered_def)
qed

lemma unlisted_thread_waits_on_other_witness:
  "\<exists>s t. work_runs (work_start \<lparr>nxt = id, prv = id\<rparr>)
      ([Create True (Some ''w''), Enter 1] @ [Create True None]) s \<and> hold_target 2 s = Inr t"
proof -
  obtain s where s: "work_step (Create True None) one_worker = Some (Inr s)"
      "workers s 2 = Some \<lparr>pth = 2, threadName = [], stBinarySem = \<lparr>sem_v = 1, sleepers = []\<rparr>, at = Created,
        in_handler = Outside, usr1_pending = False\<rparr>" "workers s 1 = workers one_worker 1"
    by (simp add: one_worker_def workerCreate_def bsem_init_def Let_def wk_put_def)
  then have r: "work_runs (work_start \<lparr>nxt = id, prv = id\<rparr>)
      ([Create True (Some ''w''), Enter 1] @ [Create True None]) s"
    by (blast intro: runs_append [OF one_worker_runs] work_runs.intros)
  show ?thesis
    using unlisted_thread_waits_on_other [OF r s(2), of 1] s(3) r by (force simp: one_worker_def)
qed

end
