(* ===== verification/H264_Bits.thy ===== *)
theory H264_Bits
  imports C_Prelude
begin

text \<open>
  H264Analysis's \<open>bs.h\<close>: reading a byte buffer bit by bit, and the Exp-Golomb codes of H.264. The buffer
  of a reader is the list of bytes from \<open>start\<close> to \<open>end\<close>; \<open>bs_p\<close> is the position of \<open>p\<close> in it.
\<close>

unbundle bit_operations_syntax

section \<open>Definitions\<close>

record bs_t =
  bs_buf :: bytes
  bs_p :: nat
  bits_left :: nat

definition bs_init :: "bytes \<Rightarrow> nat \<Rightarrow> bs_t cres" where
  "bs_init buf n = (if n \<le> length buf then Inr \<lparr>bs_buf = take n buf, bs_p = 0, bits_left = 8\<rparr> else Inl C_Fault)"

text \<open>\<open>malloc_ok\<close>: whether the allocation succeeds; \<open>assert\<close> ends the program.\<close>

definition bs_new :: "bool \<Rightarrow> bytes \<Rightarrow> nat \<Rightarrow> bs_t cres" where
  "bs_new malloc_ok buf n = (if malloc_ok then bs_init buf n else Inl (C_Exit ''assert''))"

definition bs_eof :: "bs_t \<Rightarrow> bool" where
  "bs_eof b \<longleftrightarrow> length (bs_buf b) \<le> bs_p b"

definition bs_clone :: "bs_t \<Rightarrow> bs_t" where
  "bs_clone src = \<lparr>bs_buf = drop (bs_p src) (bs_buf src), bs_p = 0, bits_left = bits_left src\<rparr>"

definition bs_peek_u1 :: "bs_t \<Rightarrow> u32" where
  "bs_peek_u1 b =
     (if \<not> bs_eof b then ucast (drop_bit (bits_left b - 1) (bs_buf b ! bs_p b) AND 1) else 0)"

definition bs_read_u1 :: "bs_t \<Rightarrow> u32 \<times> bs_t" where
  "bs_read_u1 b =
     (let b = b\<lparr>bits_left := bits_left b - 1\<rparr>;
          r = (if \<not> bs_eof b then ucast (drop_bit (bits_left b) (bs_buf b ! bs_p b) AND 1) else 0);
          b = (if bits_left b = 0 then b\<lparr>bs_p := bs_p b + 1, bits_left := 8\<rparr> else b)
      in (r, b))"

text \<open>The loop of \<open>bs_read_u\<close> with \<open>k = n - i\<close> iterations left. A shift by 32 bits or more is undefined.\<close>

fun bs_read_u_loop :: "nat \<Rightarrow> u32 \<Rightarrow> bs_t \<Rightarrow> u32 \<times> bs_t" where
  "bs_read_u_loop 0 r b = (r, b)"
| "bs_read_u_loop (Suc k) r b =
     (let (x, b) = bs_read_u1 b in bs_read_u_loop k (r OR push_bit k x) b)"

definition bs_read_u :: "bs_t \<Rightarrow> int \<Rightarrow> (u32 \<times> bs_t) cres" where
  "bs_read_u b n = (if n > 32 then Inl C_Fault else Inr (bs_read_u_loop (nat n) 0 b))"

text \<open>The leading zeros of an Exp-Golomb code.\<close>

function ue_zeros :: "nat \<Rightarrow> bs_t \<Rightarrow> nat \<times> bs_t" where
  "ue_zeros i b =
     (let (x, b) = bs_read_u1 b in
      if x = 0 \<and> i < 32 \<and> \<not> bs_eof b then ue_zeros (i + 1) b else (i, b))"
  by pat_completeness auto
termination by (relation "measure (\<lambda>(i, b). 33 - i)") auto

declare ue_zeros.simps [simp del]

text \<open>\<open>1 << i\<close> is an \<open>int\<close>: from 31 on the shift is undefined.\<close>

definition bs_read_ue :: "bs_t \<Rightarrow> (u32 \<times> bs_t) cres" where
  "bs_read_ue b =
     (let (i, b) = ue_zeros 0 b in
      rbind (bs_read_u b (int i)) (\<lambda>(r, b).
      if i \<ge> 31 then Inl C_Fault else Inr (r + (push_bit i 1 - 1), b)))"

definition bs_read_se :: "bs_t \<Rightarrow> (int \<times> bs_t) cres" where
  "bs_read_se b =
     rbind (bs_read_ue b) (\<lambda>(r, b).
     let r = sint r in
     if r AND 1 \<noteq> 0 then Inr ((r + 1) div 2, b) else Inr (- (r div 2), b))"

definition bs_read_te :: "bs_t \<Rightarrow> int \<Rightarrow> (u32 \<times> bs_t) cres" where
  "bs_read_te b x =
     (if x = 1 then let (r, b) = bs_read_u1 b in Inr (1 - r, b)
      else if x > 1 then bs_read_ue b
      else Inr (0, b))"

section \<open>The bits a reader has left\<close>

definition byte_bits :: "u8 \<Rightarrow> bool list" where
  "byte_bits w = map (\<lambda>i. bit w (7 - i)) [0..<8]"

definition bs_bits :: "bs_t \<Rightarrow> bool list" where
  "bs_bits b = drop (8 - bits_left b) (concat (map byte_bits (drop (bs_p b) (bs_buf b))))"

definition bs_ok :: "bs_t \<Rightarrow> bool" where
  "bs_ok b \<longleftrightarrow> 1 \<le> bits_left b \<and> bits_left b \<le> 8"

lemma length_byte_bits [simp]: "length (byte_bits w) = 8"
  by (simp add: byte_bits_def)

lemma bs_bits_eof: "bs_eof b \<Longrightarrow> bs_bits b = []"
  by (simp add: bs_eof_def bs_bits_def)

lemma and_1_bit: "(w :: u8) AND 1 = of_bool (bit w 0)"
  by (simp add: and_one_eq odd_iff_mod_2_eq_one bit_0)

lemma bs_bits_Cons:
  assumes "\<not> bs_eof b" and "bs_ok b"
  shows "bs_bits b = bit (bs_buf b ! bs_p b) (bits_left b - 1) #
    drop (8 - (bits_left b - 1)) (byte_bits (bs_buf b ! bs_p b)) @
    concat (map byte_bits (drop (Suc (bs_p b)) (bs_buf b)))"
proof -
  let ?w = "bs_buf b ! bs_p b" and ?l = "bits_left b"
  have d: "drop (bs_p b) (bs_buf b) = ?w # drop (Suc (bs_p b)) (bs_buf b)"
    using assms(1) by (simp add: bs_eof_def Cons_nth_drop_Suc)
  have "drop (8 - ?l) (byte_bits ?w) = byte_bits ?w ! (8 - ?l) # drop (Suc (8 - ?l)) (byte_bits ?w)"
    using assms(2) by (simp add: bs_ok_def Cons_nth_drop_Suc)
  moreover have "byte_bits ?w ! (8 - ?l) = bit ?w (?l - 1)"
    using assms(2) by (auto simp: byte_bits_def bs_ok_def intro!: arg_cong [of _ _ "bit ?w"])
  moreover have "Suc (8 - ?l) = 8 - (?l - 1)" using assms(2) by (auto simp: bs_ok_def)
  ultimately have "drop (8 - ?l) (byte_bits ?w) = bit ?w (?l - 1) # drop (8 - (?l - 1)) (byte_bits ?w)"
    by simp
  then show ?thesis using assms(2) by (simp add: bs_bits_def d bs_ok_def)
qed

lemma bs_eof_bits: "bs_ok b \<Longrightarrow> bs_eof b \<longleftrightarrow> bs_bits b = []"
  using bs_bits_eof bs_bits_Cons by (metis list.distinct(1))

text \<open>Reading a bit takes the first one, and 0 behind the end.\<close>

lemma bs_read_u1_bits:
  assumes "bs_ok b"
  shows "bs_ok (snd (bs_read_u1 b))" and "bs_bits (snd (bs_read_u1 b)) = tl (bs_bits b)"
    and "fst (bs_read_u1 b) = (case bs_bits b of [] \<Rightarrow> 0 | x # _ \<Rightarrow> of_bool x)"
    and "bs_buf (snd (bs_read_u1 b)) = bs_buf b"
proof -
  show "bs_ok (snd (bs_read_u1 b))" using assms by (auto simp: bs_read_u1_def Let_def bs_ok_def)
  show "bs_buf (snd (bs_read_u1 b)) = bs_buf b" by (simp add: bs_read_u1_def Let_def)
  let ?b = "b\<lparr>bits_left := bits_left b - 1\<rparr>"
  have e: "bs_eof ?b = bs_eof b" by (simp add: bs_eof_def)
  show "bs_bits (snd (bs_read_u1 b)) = tl (bs_bits b)"
  proof (cases "bs_eof b")
    case True
    then have "bs_eof (snd (bs_read_u1 b))" by (auto simp: bs_read_u1_def Let_def bs_eof_def)
    then show ?thesis using True bs_bits_eof by simp
  next
    case False
    then show ?thesis
      using bs_bits_Cons [OF False assms] assms False
      by (auto simp: bs_read_u1_def Let_def bs_bits_def bs_ok_def bs_eof_def Cons_nth_drop_Suc [symmetric])
  qed
  show "fst (bs_read_u1 b) = (case bs_bits b of [] \<Rightarrow> 0 | x # _ \<Rightarrow> of_bool x)"
  proof (cases "bs_eof b")
    case True
    then show ?thesis using bs_bits_eof e by (simp add: bs_read_u1_def Let_def)
  next
    case False
    then show ?thesis
      using bs_bits_Cons [OF False assms] e
      by (simp add: bs_read_u1_def Let_def and_1_bit bit_drop_bit_eq)
  qed
qed

lemma bs_read_u1_Cons:
  assumes "bs_ok b" and "bs_bits b = x # xs"
  obtains b' where "bs_read_u1 b = (of_bool x, b')" "bs_ok b'" "bs_bits b' = xs"
  using bs_read_u1_bits [OF assms(1)] assms(2) that by (metis list.sel(3) list.simps(5) prod.collapse)

section \<open>Numbers and codes\<close>

fun bits_val :: "bool list \<Rightarrow> nat" where
  "bits_val [] = 0"
| "bits_val (x # xs) = of_bool x * 2 ^ length xs + bits_val xs"

lemma bits_val_less: "bits_val xs < 2 ^ length xs"
  by (induction xs) auto

lemma or_disjoint: "v < 2 ^ k \<Longrightarrow> k < 32 \<Longrightarrow> push_bit k (of_bool x) OR (of_nat v :: u32) = of_bool x * 2 ^ k + of_nat v"
proof -
  assume v: "v < 2 ^ k" and k: "k < 32"
  have "take_bit k v = v" using v by (simp add: take_bit_nat_eq_self)
  then have t: "(of_nat v :: u32) = take_bit k (of_nat v)" by (metis take_bit_of_nat)
  have "push_bit k (of_bool x) + (of_nat v :: u32) = push_bit k (of_bool x) OR of_nat v"
    by (rule disjunctive_add_eq_or, subst t)
      (auto simp: bit_eq_iff bit_and_iff bit_push_bit_iff bit_take_bit_iff)
  then show ?thesis by (simp add: push_bit_eq_mult)
qed

text \<open>Reading a number takes its bits, most significant first.\<close>

lemma bs_read_u_loop_bits:
  assumes "bs_ok b" and "bs_bits b = xs @ rest" and "length xs \<le> 32"
  shows "\<exists>b'. bs_read_u_loop (length xs) r b = (r OR of_nat (bits_val xs), b') \<and> bs_ok b' \<and> bs_bits b' = rest"
  using assms
proof (induction xs arbitrary: r b)
  case (Cons x xs)
  obtain b1 where b1: "bs_read_u1 b = (of_bool x, b1)" "bs_ok b1" "bs_bits b1 = xs @ rest"
    using bs_read_u1_Cons [OF Cons.prems(1), of x "xs @ rest"] Cons.prems(2) by auto
  have "length xs \<le> 32" using Cons.prems(3) by simp
  from Cons.IH [OF b1(2,3) this, of "r OR push_bit (length xs) (of_bool x)"]
  obtain b2 where b2: "bs_read_u_loop (length xs) (r OR push_bit (length xs) (of_bool x)) b1 =
      ((r OR push_bit (length xs) (of_bool x)) OR of_nat (bits_val xs), b2)" "bs_ok b2" "bs_bits b2 = rest"
    by blast
  have "push_bit (length xs) (of_bool x) OR (of_nat (bits_val xs) :: u32) = of_nat (bits_val (x # xs))"
    using or_disjoint [OF bits_val_less, of xs x] Cons.prems(3) by simp
  then show ?case
    using b1(1) b2 by (simp add: or.assoc)
qed simp

lemma bs_read_u_bits:
  assumes "bs_ok b" and "bs_bits b = xs @ rest" and "length xs \<le> 32"
  obtains b' where "bs_read_u b (int (length xs)) = Inr (of_nat (bits_val xs), b')" "bs_ok b'" "bs_bits b' = rest"
  using bs_read_u_loop_bits [OF assms, of 0] assms(3) by (auto simp: bs_read_u_def)

text \<open>The encoder: the binary digits of a positive number, and the codes \<open>ue(v)\<close> and \<open>se(v)\<close>.\<close>

fun nat_bits :: "nat \<Rightarrow> bool list" where
  "nat_bits n = (if n \<le> 1 then [True] else nat_bits (n div 2) @ [odd n])"

declare nat_bits.simps [simp del]

definition ue_bits :: "nat \<Rightarrow> bool list" where
  "ue_bits k = (let xs = nat_bits (k + 1) in replicate (length xs - 1) False @ xs)"

definition se_bits :: "int \<Rightarrow> bool list" where
  "se_bits v = ue_bits (if v > 0 then nat (2 * v - 1) else nat (- 2 * v))"

lemma bits_val_snoc: "bits_val (xs @ [x]) = 2 * bits_val xs + of_bool x"
  by (induction xs) auto

lemma bits_val_nat_bits: "0 < n \<Longrightarrow> bits_val (nat_bits n) = n"
proof (induction n rule: nat_bits.induct)
  case (1 n)
  then show ?case
    by (cases "n \<le> 1") (auto simp: nat_bits.simps [of n] bits_val_snoc)
qed

lemma nat_bits_Cons: "\<exists>ys. nat_bits n = True # ys"
proof (induction n rule: nat_bits.induct)
  case (1 n)
  then show ?case by (cases "n \<le> 1") (auto simp: nat_bits.simps [of n])
qed

lemma ue_bits_split:
  obtains ys where "ue_bits k = replicate (length ys) False @ True # ys" "bits_val ys + 2 ^ length ys = k + 1"
proof -
  obtain ys where ys: "nat_bits (k + 1) = True # ys" using nat_bits_Cons by blast
  then have "bits_val (True # ys) = k + 1" using bits_val_nat_bits [of "k + 1"] by simp
  then show ?thesis using that ys by (simp add: ue_bits_def)
qed

lemma ue_zeros_bits:
  assumes "bs_ok b" and "bs_bits b = replicate n False @ True # rest" and "i + n \<le> 32"
  obtains b' where "ue_zeros i b = (i + n, b')" "bs_ok b'" "bs_bits b' = rest"
  using assms
proof (induction n arbitrary: i b thesis)
  case 0
  obtain b1 where "bs_read_u1 b = (of_bool True, b1)" "bs_ok b1" "bs_bits b1 = rest"
    using bs_read_u1_Cons [OF 0(2), of True rest] 0(3) by auto
  then show ?case using 0(1) by (simp add: ue_zeros.simps [of i b])
next
  case (Suc n)
  obtain b1 where b1: "bs_read_u1 b = (of_bool False, b1)" "bs_ok b1"
      "bs_bits b1 = replicate n False @ True # rest"
    using bs_read_u1_Cons [OF Suc.prems(2), of False "replicate n False @ True # rest"] Suc.prems(3) by auto
  then have "\<not> bs_eof b1" using bs_eof_bits by simp
  moreover obtain b2 where "ue_zeros (i + 1) b1 = (i + 1 + n, b2)" "bs_ok b2" "bs_bits b2 = rest"
    using Suc.IH [OF _ b1(2,3), of "i + 1"] Suc.prems(4) by auto
  ultimately show ?case using Suc.prems(1,4) b1(1) by (simp add: ue_zeros.simps [of i b])
qed

lemma bs_read_ue_bits:
  assumes b: "bs_ok b" and bits: "bs_bits b = ue_bits k @ rest" and k: "k < 2 ^ 31 - 1"
  obtains b' where "bs_read_ue b = Inr (of_nat k, b')" "bs_ok b'" "bs_bits b' = rest"
proof -
  obtain ys where ys: "ue_bits k = replicate (length ys) False @ True # ys" "bits_val ys + 2 ^ length ys = k + 1"
    by (rule ue_bits_split)
  have "(2 :: nat) ^ length ys < 2 ^ 31" using ys(2) k by linarith
  then have l: "length ys < 31" by (rule power_less_imp_less_exp [rotated]) simp
  obtain b1 where b1: "ue_zeros 0 b = (length ys, b1)" "bs_ok b1" "bs_bits b1 = ys @ rest"
    using ue_zeros_bits [OF b, of "length ys" "ys @ rest" 0] bits ys(1) l by auto
  obtain b2 where b2: "bs_read_u b1 (int (length ys)) = Inr (of_nat (bits_val ys), b2)" "bs_ok b2" "bs_bits b2 = rest"
    using bs_read_u_bits [OF b1(2,3)] l by auto
  have "(of_nat (bits_val ys) :: u32) + (push_bit (length ys) 1 - 1) = of_nat (bits_val ys + 2 ^ length ys) - 1"
    by (simp add: push_bit_eq_mult)
  also have "\<dots> = of_nat k" unfolding ys(2) by simp
  finally show ?thesis
    using that b1(1) b2 l by (simp add: bs_read_ue_def rbind_def)
qed

lemma bs_read_se_bits:
  assumes b: "bs_ok b" and bits: "bs_bits b = se_bits v @ rest" and v: "\<bar>v\<bar> < 2 ^ 30"
  obtains b' where "bs_read_se b = Inr (v, b')" "bs_ok b'" "bs_bits b' = rest"
proof -
  define k where "k = (if v > 0 then nat (2 * v - 1) else nat (- 2 * v))"
  have k: "k < 2 ^ 31 - 1" using v by (auto simp: k_def)
  obtain b' where b': "bs_read_ue b = Inr (of_nat k, b')" "bs_ok b'" "bs_bits b' = rest"
    using bs_read_ue_bits [OF b _ k] bits by (auto simp: se_bits_def k_def)
  have s: "sint (of_nat k :: u32) = int k"
    using k by (simp add: signed_of_nat signed_take_bit_int_eq_self)
  have "bs_read_se b = Inr (v, b')"
  proof (cases "v > 0")
    case True
    then have "int k = 2 * v - 1" by (simp add: k_def)
    moreover have "(2 * v - 1) mod 2 = (1 :: int)" by presburger
    ultimately show ?thesis using b'(1) s by (simp add: bs_read_se_def rbind_def Let_def and_one_eq)
  next
    case False
    then have "int k = - 2 * v" by (simp add: k_def)
    then show ?thesis using b'(1) s by (simp add: bs_read_se_def rbind_def Let_def and_one_eq)
  qed
  then show ?thesis using that b' by blast
qed

end
