(* ===== verification/H264_Nalu.thy ===== *)
theory H264_Nalu
  imports H264_Bits
begin

text \<open>
  H264Analysis's \<open>nalu.c\<close>: finding NAL units in the byte stream of the file, removing the emulation
  prevention bytes, the length of the SODB and the test for more data. Dispatch on the unit's type is in
  \<open>H264_Decode\<close>.
\<close>

unbundle bit_operations_syntax

section \<open>Definitions\<close>

definition MAX_NALU_SIZE :: nat where "MAX_NALU_SIZE = 8000000"

record nalu_t =
  forbidden_zero_bit :: int
  nal_ref_idc :: int
  nal_unit_type :: int
  nal_len :: int
  nal_buf :: bytes

definition allocNalu :: "(nat \<Rightarrow> bool) \<Rightarrow> nat \<Rightarrow> nalu_t cres" where
  "allocNalu calloc_ok buff_size =
     (if \<not> calloc_ok 32 then Inl (C_Exit ''AllocNALU: nalu'')
      else if \<not> calloc_ok buff_size then Inl (C_Exit ''AllocNALU: nalu->buf'')
      else Inr \<lparr>forbidden_zero_bit = 0, nal_ref_idc = 0, nal_unit_type = 0, nal_len = 0,
                nal_buf = replicate buff_size 0\<rparr>)"

subsection \<open>Finding a unit\<close>

definition nth_byte :: "bytes \<Rightarrow> nat \<Rightarrow> u8 cres" where
  "nth_byte m i = (if i < length m then Inr (m ! i) else Inl C_Fault)"

definition set_byte :: "bytes \<Rightarrow> nat \<Rightarrow> u8 \<Rightarrow> bytes cres" where
  "set_byte m i x = (if i < length m then Inr (m[i := x]) else Inl C_Fault)"

text \<open>A comparison of consecutive bytes that stops at the first difference.\<close>

fun bytes_at :: "bytes \<Rightarrow> nat \<Rightarrow> bytes \<Rightarrow> bool cres" where
  "bytes_at m i [] = Inr True"
| "bytes_at m i (p # ps) = rbind (nth_byte m i) (\<lambda>x. if x \<noteq> p then Inr False else bytes_at m (i + 1) ps)"

text \<open>The first loop of \<open>find_nal_unit\<close>; \<open>None\<close> when there is no start code. The index is returned too.\<close>

function find_start :: "bytes \<Rightarrow> nat \<Rightarrow> nat \<Rightarrow> (bool \<times> nat) cres" where
  "find_start file_buff buff_size i =
     rbind (bytes_at file_buff i [0, 0, 1]) (\<lambda>three.
     rbind (if three then Inr True else bytes_at file_buff i [0, 0, 0, 1]) (\<lambda>found.
     if found then Inr (True, i)
     else if i + 1 + 3 > buff_size then Inr (False, i + 1)
     else find_start file_buff buff_size (i + 1)))"
  by pat_completeness auto
termination by (relation "measure (\<lambda>(m, n, i). n - i)") auto

declare find_start.simps [simp del]

text \<open>The second loop: copies to \<open>buf\<close> up to the next start code or the end of the file.\<close>

function copy_unit :: "bytes \<Rightarrow> nat \<Rightarrow> nat \<Rightarrow> nat \<Rightarrow> nat \<Rightarrow> bytes \<Rightarrow> (nat \<times> int \<times> bytes) cres" where
  "copy_unit file_buff buff_size start i j buf =
     rbind (bytes_at file_buff i [0, 0, 0]) (\<lambda>zeros.
     rbind (if zeros then Inr True else bytes_at file_buff i [0, 0, 1]) (\<lambda>end.
     if end then Inr (i, int i - int start, buf)
     else
       rbind (nth_byte file_buff i) (\<lambda>x.
       rbind (set_byte buf j x) (\<lambda>buf.
       if i + 1 + 3 \<ge> buff_size then
         rbind (nth_byte file_buff (i + 1)) (\<lambda>a.
         rbind (set_byte buf (j + 1) a) (\<lambda>buf.
         rbind (nth_byte file_buff (i + 2)) (\<lambda>b.
         rbind (set_byte buf (j + 2) b) (\<lambda>buf.
         rbind (nth_byte file_buff (i + 3)) (\<lambda>c.
         rbind (set_byte buf (j + 3) c) (\<lambda>buf.
         rbind (nth_byte file_buff (i + 4)) (\<lambda>d.
         rbind (set_byte buf (j + 4) d) (\<lambda>buf.
         Inr (i + 1, int buff_size - int start, buf)))))))))
       else copy_unit file_buff buff_size start (i + 1) (j + 1) buf))))"
  by pat_completeness auto
termination by (relation "measure (\<lambda>(m, n, s, i, j, b). n - i)") auto

declare copy_unit.simps [simp del]

text \<open>The result is the length and the two positions.\<close>

definition find_nal_unit :: "bytes \<Rightarrow> nalu_t \<Rightarrow> nat \<Rightarrow> nat \<Rightarrow> nat \<Rightarrow> (int \<times> nalu_t \<times> nat \<times> nat) cres" where
  "find_nal_unit file_buff nalu buff_size curr_nal_start curr_find_index =
     rbind (find_start file_buff buff_size curr_find_index) (\<lambda>(found, i).
     if \<not> found then Inr (0, nalu\<lparr>nal_len := 0\<rparr>, curr_nal_start, i)
     else
       rbind (bytes_at file_buff i [0, 0, 1]) (\<lambda>three.
       let i = (if three then i else i + 1) + 3; start = i in
       rbind (copy_unit file_buff buff_size start i 0 (nal_buf nalu)) (\<lambda>(i, len, buf).
       Inr (len, nalu\<lparr>nal_len := len, nal_buf := buf\<rparr>, start, i))))"

subsection \<open>Emulation prevention\<close>

text \<open>The loop of \<open>nal_to_rbsp\<close>, in place, with fuel; the result is \<open>j\<close> and the buffer.\<close>

fun rbsp_loop :: "nat \<Rightarrow> nat \<Rightarrow> nat \<Rightarrow> nat \<Rightarrow> nat \<Rightarrow> bytes \<Rightarrow> (nat \<times> bytes) cres" where
  "rbsp_loop 0 nalu_size i j count buf = Inl C_Fuel"
| "rbsp_loop (Suc fuel) nalu_size i j count buf =
     (if i < nalu_size then
        rbind (nth_byte buf i) (\<lambda>x.
        if count = 2 \<and> x = 3 \<and> i = nalu_size - 1 then Inr (j, buf)
        else
          let i = (if count = 2 \<and> x = 3 then i + 1 else i);
              count = (if count = 2 \<and> x = 3 then 0 else count)
          in
          rbind (nth_byte buf i) (\<lambda>y.
          rbind (set_byte buf j y) (\<lambda>buf.
          rbind (nth_byte buf i) (\<lambda>z.
          rbsp_loop fuel nalu_size (i + 1) (j + 1) (if z = 0 then count + 1 else 0) buf))))
      else Inr (j, buf))"

definition nal_to_rbsp :: "nalu_t \<Rightarrow> (int \<times> nalu_t) cres" where
  "nal_to_rbsp nalu =
     (let n = nat (nal_len nalu) in
      rbind (rbsp_loop (n + 1) n 0 0 0 (nal_buf nalu)) (\<lambda>(j, buf). Inr (int j, nalu\<lparr>nal_buf := buf\<rparr>)))"

subsection \<open>The trailing bits\<close>

definition nal_byte :: "bytes \<Rightarrow> int \<Rightarrow> u8 cres" where
  "nal_byte buf i = (if i < 0 then Inl C_Fault else nth_byte buf (nat i))"

text \<open>The loop of \<open>rbsp_to_sodb\<close> entered with the bit at \<open>bitoffset\<close> known to be 0.\<close>

function sodb_loop :: "bytes \<Rightarrow> int \<Rightarrow> nat \<Rightarrow> int cres" where
  "sodb_loop buf last_byte_pos bitoffset =
     (if bitoffset + 1 \<ge> 8 \<and> last_byte_pos = 1 then Inl (C_Exit '' Panic: All zero data sequence in RBSP'')
      else
        let (last_byte_pos, bitoffset) =
              (if bitoffset + 1 \<ge> 8 then (last_byte_pos - 1, 0) else (last_byte_pos, bitoffset + 1)) in
        if last_byte_pos - 1 < 0 then Inl C_Fault
        else
          rbind (nal_byte buf (last_byte_pos - 1)) (\<lambda>x.
          if x AND push_bit bitoffset 1 = 0 then sodb_loop buf last_byte_pos bitoffset
          else Inr last_byte_pos))"
  by pat_completeness auto
termination
  by (relation "measure (\<lambda>(b, l, k). 9 * nat l + (8 - k))") (auto split: if_splits)

declare sodb_loop.simps [simp del]

definition rbsp_to_sodb :: "nalu_t \<Rightarrow> int cres" where
  "rbsp_to_sodb nalu =
     rbind (nal_byte (nal_buf nalu) (nal_len nalu - 1)) (\<lambda>x.
     if x AND 1 = 0 then sodb_loop (nal_buf nalu) (nal_len nalu - 1) 0
     else Inr (nal_len nalu - 1))"

function more_bits :: "bs_t \<Rightarrow> bool" where
  "more_bits b =
     (if bs_eof b then False
      else let (x, b) = bs_read_u1 b in if x = 1 then True else more_bits b)"
  by pat_completeness auto
termination
  by (relation "measure (\<lambda>b. 9 * (length (bs_buf b) - bs_p b) + bits_left b)")
    (auto simp: bs_read_u1_def Let_def bs_eof_def split: if_splits)

declare more_bits.simps [simp del]

definition more_rbsp_data :: "bs_t \<Rightarrow> bool" where
  "more_rbsp_data b =
     (if bs_eof b then False
      else if bs_peek_u1 b = 0 then True
      else let bs_temp = snd (bs_read_u1 (bs_clone b)) in more_bits bs_temp)"

section \<open>More data\<close>

lemma bs_ok_clone: "bs_ok b \<Longrightarrow> bs_ok (bs_clone b)"
  by (simp add: bs_ok_def bs_clone_def)

lemma bs_bits_clone: "bs_bits (bs_clone b) = bs_bits b"
  by (simp add: bs_bits_def bs_clone_def)

lemma bs_peek_bits: "bs_ok b \<Longrightarrow> bs_peek_u1 b = (case bs_bits b of [] \<Rightarrow> 0 | x # _ \<Rightarrow> of_bool x)"
  using bs_bits_Cons [of b] bs_bits_eof [of b] by (auto simp: bs_peek_u1_def and_1_bit bit_drop_bit_eq)

lemma more_bits_eq: "bs_ok b \<Longrightarrow> more_bits b \<longleftrightarrow> True \<in> set (bs_bits b)"
proof (induction b rule: more_bits.induct)
  case (1 b)
  show ?case
  proof (cases "bs_bits b")
    case Nil
    then show ?thesis using 1(2) bs_eof_bits by (simp add: more_bits.simps [of b])
  next
    case (Cons x xs)
    then have ne: "\<not> bs_eof b" using 1(2) bs_eof_bits by simp
    obtain b' where b': "bs_read_u1 b = (of_bool x, b')" "bs_ok b'" "bs_bits b' = xs"
      using bs_read_u1_Cons [OF 1(2) Cons] by blast
    show ?thesis
      using 1(1) [OF ne b'(1) [symmetric] refl] ne b' Cons by (cases x) (auto simp: more_bits.simps [of b])
  qed
qed

lemma more_rbsp_data_eq:
  assumes "bs_ok b"
  shows "more_rbsp_data b \<longleftrightarrow> bs_bits b \<noteq> [] \<and> (\<forall>n. bs_bits b \<noteq> True # replicate n False)"
proof (cases "bs_bits b")
  case Nil
  then show ?thesis using assms bs_eof_bits by (simp add: more_rbsp_data_def)
next
  case (Cons x xs)
  have ne: "\<not> bs_eof b" using Cons assms bs_eof_bits by simp
  show ?thesis
  proof (cases x)
    case False
    then show ?thesis using Cons ne bs_peek_bits [OF assms] by (simp add: more_rbsp_data_def)
  next
    case True
    have "bs_ok (snd (bs_read_u1 (bs_clone b)))" "bs_bits (snd (bs_read_u1 (bs_clone b))) = xs"
      using bs_read_u1_bits [OF bs_ok_clone [OF assms]] bs_bits_clone Cons by simp_all
    then have "more_rbsp_data b \<longleftrightarrow> True \<in> set xs"
      using ne True Cons bs_peek_bits [OF assms] more_bits_eq by (simp add: more_rbsp_data_def Let_def)
    moreover have "True \<in> set xs \<longleftrightarrow> (\<forall>n. xs \<noteq> replicate n False)"
      by (metis (full_types) in_set_replicate replicate_length_same)
    ultimately show ?thesis using Cons True by simp
  qed
qed

section \<open>Emulation prevention\<close>

text \<open>What removing the bytes 3 means for a list, with the number of zeros before it.\<close>

fun rbsp_bytes :: "nat \<Rightarrow> bytes \<Rightarrow> bytes" where
  "rbsp_bytes c [] = []"
| "rbsp_bytes c [x] = (if c = 2 \<and> x = 3 then [] else [x])"
| "rbsp_bytes c (x # y # xs) =
     (if c = 2 \<and> x = 3 then y # rbsp_bytes (if y = 0 then 1 else 0) xs
      else x # rbsp_bytes (if x = 0 then c + 1 else 0) (y # xs))"

text \<open>The encoder: a byte 3 before every byte up to 3 that follows two zeros, and behind two final zeros.\<close>

fun nal_bytes :: "nat \<Rightarrow> bytes \<Rightarrow> bytes" where
  "nal_bytes c [] = (if c = 2 then [3] else [])"
| "nal_bytes c (x # xs) =
     (if c = 2 \<and> x \<le> 3 then 3 # x # nal_bytes (if x = 0 then 1 else 0) xs
      else x # nal_bytes (if x = 0 then c + 1 else 0) xs)"

lemma rbsp_bytes_Cons:
  "\<not> (c = 2 \<and> x = 3) \<Longrightarrow> rbsp_bytes c (x # xs) = x # rbsp_bytes (if x = 0 then c + 1 else 0) xs"
  by (cases xs) auto

lemma rbsp_bytes_nal_bytes: "c \<le> 2 \<Longrightarrow> rbsp_bytes c (nal_bytes c xs) = xs"
proof (induction xs arbitrary: c)
  case (Cons x xs)
  show ?case
  proof (cases "c = 2 \<and> x \<le> 3")
    case False
    then have "\<not> (c = 2 \<and> x = 3)" by auto
    moreover have "(if x = 0 then c + 1 else 0) \<le> 2" using False Cons.prems by auto
    ultimately show ?thesis using False Cons.IH rbsp_bytes_Cons by (simp del: One_nat_def)
  qed (use Cons.IH in simp)
qed simp

text \<open>The loop in place computes that list.\<close>

lemma rbsp_loop_eq:
  assumes "j \<le> i" and "i \<le> n" and "n \<le> length buf" and "n < fuel + i"
  shows "\<exists>buf'. rbsp_loop fuel n i j c buf = Inr (j + length (rbsp_bytes c (drop i (take n buf))), buf') \<and>
    length buf' = length buf \<and> take (j + length (rbsp_bytes c (drop i (take n buf)))) buf' =
      take j buf @ rbsp_bytes c (drop i (take n buf))"
  using assms
proof (induction fuel arbitrary: i j c buf)
  case (Suc fuel)
  show ?case
  proof (cases "i < n")
    case False
    then show ?thesis using Suc.prems by simp
  next
    case True
    let ?x = "buf ! i" and ?t = "drop (i + 1) (take n buf)"
    have d: "drop i (take n buf) = ?x # ?t"
      using True Suc.prems(3) by (subst Cons_nth_drop_Suc [symmetric]) auto
    have tk: "take (Suc j) (buf[j := y]) = take j buf @ [y]" if "j < n" for y
      using that Suc.prems(3) by (simp add: take_Suc_conv_app_nth)
    show ?thesis
    proof (cases "c = 2 \<and> ?x = 3")
      case False
      let ?c = "if ?x = 0 then c + 1 else 0" and ?b = "buf[j := ?x]"
      have same: "drop (i + 1) (take n ?b) = ?t"
        using Suc.prems(1) by (simp add: drop_update_cancel take_update_swap)
      have "?b ! i = ?x" using True Suc.prems(1,3) by (cases "i = j") auto
      then have step: "rbsp_loop (Suc fuel) n i j c buf = rbsp_loop fuel n (i + 1) (j + 1) ?c ?b"
        using True False Suc.prems(1,3) by (auto simp: nth_byte_def set_byte_def)
      obtain buf' where b: "rbsp_loop fuel n (i + 1) (j + 1) ?c ?b =
            Inr (j + 1 + length (rbsp_bytes ?c ?t), buf')" "length buf' = length ?b"
          "take (j + 1 + length (rbsp_bytes ?c ?t)) buf' = take (j + 1) ?b @ rbsp_bytes ?c ?t"
        using Suc.IH [of "j + 1" "i + 1" ?b ?c] True Suc.prems same by auto
      have "rbsp_bytes c (?x # ?t) = ?x # rbsp_bytes ?c ?t" by (rule rbsp_bytes_Cons [OF False])
      then show ?thesis using b step d tk [of ?x] True Suc.prems(1) by auto
    next
      case three: True
      show ?thesis
      proof (cases "i = n - 1")
        case True
        then have "?t = []" using Suc.prems(3) \<open>i < n\<close> by simp
        then show ?thesis
          using True three \<open>i < n\<close> d Suc.prems by (auto simp: nth_byte_def)
      next
        case False
        let ?y = "buf ! (i + 1)" and ?u = "drop (i + 2) (take n buf)" and ?b = "buf[j := buf ! (i + 1)]"
        let ?c = "if ?y = 0 then 1 else 0 :: nat"
        have i1: "i + 1 < n" using False \<open>i < n\<close> by simp
        have t: "?t = ?y # ?u"
          using i1 Suc.prems(3) by (subst Cons_nth_drop_Suc [symmetric]) auto
        have same: "drop (i + 2) (take n ?b) = ?u"
          using Suc.prems(1) by (simp add: drop_update_cancel take_update_swap)
        have "?b ! (i + 1) = ?y" using Suc.prems(1) by simp
        then have step: "rbsp_loop (Suc fuel) n i j c buf = rbsp_loop fuel n (i + 2) (j + 1) ?c ?b"
          using i1 three False Suc.prems(1,3) by (simp add: nth_byte_def set_byte_def)
        obtain buf' where b: "rbsp_loop fuel n (i + 2) (j + 1) ?c ?b =
              Inr (j + 1 + length (rbsp_bytes ?c ?u), buf')" "length buf' = length ?b"
            "take (j + 1 + length (rbsp_bytes ?c ?u)) buf' = take (j + 1) ?b @ rbsp_bytes ?c ?u"
          using Suc.IH [of "j + 1" "i + 2" ?b ?c] i1 Suc.prems same by auto
        have "rbsp_bytes c (?x # ?t) = ?y # rbsp_bytes ?c ?u" using three t by simp
        then show ?thesis using b step d tk [of ?y] True Suc.prems(1) by auto
      qed
    qed
  qed
qed simp

lemma nal_to_rbsp_eq:
  assumes "0 \<le> nal_len u" and "nal_len u \<le> int (length (nal_buf u))"
  obtains buf' where "nal_to_rbsp u = Inr (int (length (rbsp_bytes 0 (take (nat (nal_len u)) (nal_buf u)))),
      u\<lparr>nal_buf := buf'\<rparr>)"
    "length buf' = length (nal_buf u)"
    "take (length (rbsp_bytes 0 (take (nat (nal_len u)) (nal_buf u)))) buf' =
      rbsp_bytes 0 (take (nat (nal_len u)) (nal_buf u))"
proof -
  let ?xs = "rbsp_bytes 0 (take (nat (nal_len u)) (nal_buf u))"
  have le: "nat (nal_len u) \<le> length (nal_buf u)" using assms by simp
  obtain buf' where b: "rbsp_loop (nat (nal_len u) + 1) (nat (nal_len u)) 0 0 0 (nal_buf u) = Inr (length ?xs, buf')"
      "length buf' = length (nal_buf u)" "take (length ?xs) buf' = ?xs"
    using rbsp_loop_eq [of 0 0 "nat (nal_len u)" "nal_buf u" "nat (nal_len u) + 1" 0] le
    by (auto simp del: rbsp_loop.simps)
  then show ?thesis using that by (simp add: nal_to_rbsp_def Let_def rbind_def del: rbsp_loop.simps)
qed

text \<open>An encoded unit contains no start code.\<close>

definition code_free :: "bytes \<Rightarrow> bool" where
  "code_free xs \<longleftrightarrow> (\<forall>i. i + 2 < length xs \<longrightarrow> \<not> (xs ! i = 0 \<and> xs ! (i + 1) = 0 \<and> xs ! (i + 2) < 3))"

fun code_free_from :: "nat \<Rightarrow> bytes \<Rightarrow> bool" where
  "code_free_from c [] \<longleftrightarrow> True"
| "code_free_from c (x # xs) \<longleftrightarrow> \<not> (2 \<le> c \<and> x < 3) \<and> code_free_from (if x = 0 then c + 1 else 0) xs"

lemma code_free_from_nal_bytes: "c \<le> 2 \<Longrightarrow> code_free_from c (nal_bytes c xs)"
proof (induction xs arbitrary: c)
  case (Cons x xs)
  have le: "x < 3 \<Longrightarrow> x \<le> 3" by auto
  show ?case
  proof (cases "c = 2 \<and> x \<le> 3")
    case True
    then show ?thesis using Cons.IH [of "if x = 0 then 1 else 0"] by auto
  next
    case False
    then have "(if x = 0 then c + 1 else 0) \<le> 2" using Cons.prems by auto
    then show ?thesis using Cons.IH False Cons.prems le by auto
  qed
qed simp

lemma code_free_fromD:
  "code_free_from c xs \<Longrightarrow> i + 2 < length xs \<Longrightarrow> xs ! i = 0 \<Longrightarrow> xs ! (i + 1) = 0 \<Longrightarrow> \<not> xs ! (i + 2) < 3"
proof (induction xs arbitrary: c i)
  case (Cons x xs)
  show ?case
  proof (cases i)
    case 0
    then obtain y z zs where "xs = y # z # zs"
      using Cons.prems(2) by (cases xs; cases "tl xs") auto
    then show ?thesis using Cons.prems 0 by (auto split: if_splits)
  next
    case (Suc k)
    then show ?thesis using Cons.IH [of _ k] Cons.prems by auto
  qed
qed simp

lemma code_free_nal_bytes: "code_free (nal_bytes 0 xs)"
  using code_free_fromD [OF code_free_from_nal_bytes [of 0 xs]] by (simp add: code_free_def)

section \<open>Units in a stream\<close>

lemma bytes_at_eq:
  "i + length ps \<le> length m \<Longrightarrow> bytes_at m i ps = Inr (take (length ps) (drop i m) = ps)"
proof (induction ps arbitrary: i)
  case (Cons p ps)
  have "drop i m = m ! i # drop (i + 1) m"
    using Cons.prems by (simp add: Cons_nth_drop_Suc)
  then show ?case using Cons by (simp add: nth_byte_def)
qed simp

lemma nth_take_3: "take 3 xs = [a, b, c] \<Longrightarrow> xs ! 0 = a \<and> xs ! 1 = b \<and> xs ! 2 = c"
  by (cases xs; cases "tl xs"; cases "tl (tl xs)") (auto simp: numeral_3_eq_3 numeral_2_eq_2)

definition code_at :: "bytes \<Rightarrow> nat \<Rightarrow> bool" where
  "code_at m i \<longleftrightarrow> take 3 (drop i m) = [0, 0, 0] \<or> take 3 (drop i m) = [0, 0, 1]"

lemma copy_unit_eq:
  assumes "n \<le> length m" and "i + length p + 3 < n" and "j + length p \<le> length buf"
    and "take (length p) (drop i m) = p" and "\<And>k. k < length p \<Longrightarrow> \<not> code_at m (i + k)"
    and "code_at m (i + length p)"
  shows "copy_unit m n s i j buf =
    Inr (i + length p, int (i + length p) - int s, take j buf @ p @ drop (j + length p) buf)"
  using assms
proof (induction p arbitrary: i j buf)
  case Nil
  then have "bytes_at m i [0, 0, 0] = Inr (take 3 (drop i m) = [0, 0, 0])"
      "bytes_at m i [0, 0, 1] = Inr (take 3 (drop i m) = [0, 0, 1])"
    by (simp_all add: bytes_at_eq numeral_3_eq_3 del: bytes_at.simps)
  then show ?case
    using Nil.prems(6) by (auto simp: copy_unit.simps [of m n s i] code_at_def simp del: bytes_at.simps)
next
  case (Cons x xs)
  have at: "bytes_at m i [0, 0, 0] = Inr (take 3 (drop i m) = [0, 0, 0])"
      "bytes_at m i [0, 0, 1] = Inr (take 3 (drop i m) = [0, 0, 1])"
    using Cons.prems(1,2) by (simp_all add: bytes_at_eq numeral_3_eq_3 del: bytes_at.simps)
  have no: "take 3 (drop i m) \<noteq> [0, 0, 0]" "take 3 (drop i m) \<noteq> [0, 0, 1]"
    using Cons.prems(5) [of 0] by (simp_all add: code_at_def)
  have d: "drop i m = m ! i # drop (i + 1) m" using Cons.prems(1,2) by (simp add: Cons_nth_drop_Suc)
  then have x: "m ! i = x" "take (length xs) (drop (i + 1) m) = xs" using Cons.prems(4) by simp_all
  let ?b = "buf[j := x]"
  have "copy_unit m n s (i + 1) (j + 1) ?b =
      Inr (i + 1 + length xs, int (i + 1 + length xs) - int s, take (j + 1) ?b @ xs @ drop (j + 1 + length xs) ?b)"
  proof (rule Cons.IH)
    show "\<not> code_at m (i + 1 + k)" if "k < length xs" for k
      using Cons.prems(5) [of "Suc k"] that by simp
    show "code_at m (i + 1 + length xs)" using Cons.prems(6) by simp
  qed (use Cons.prems x in auto)
  moreover have "take (j + 1) ?b = take j buf @ [x]" "drop (j + 1 + length xs) ?b = drop (j + 1 + length xs) buf"
    using Cons.prems(3) by (simp_all add: take_Suc_conv_app_nth)
  ultimately show ?case
    using at no x Cons.prems(1-3)
    by (simp add: copy_unit.simps [of m n s i] nth_byte_def set_byte_def del: bytes_at.simps)
qed

lemma nal_bytes_last: "xs \<noteq> [] \<Longrightarrow> last xs \<noteq> 0 \<Longrightarrow> nal_bytes c xs \<noteq> [] \<and> last (nal_bytes c xs) \<noteq> 0"
proof (induction xs arbitrary: c)
  case (Cons x xs)
  then show ?case by (cases "xs = []") auto
qed simp

lemma code_free_code_at:
  assumes p: "code_free p" "p \<noteq> []" "last p \<noteq> 0" and k: "k < length p" and m: "drop i m = p @ rest"
  shows "\<not> code_at m (i + k)"
proof
  assume c: "code_at m (i + k)"
  have "drop (i + k) m = drop k (drop i m)" by (simp add: add.commute)
  then have d: "drop (i + k) m = drop k p @ rest" using m k by simp
  obtain e where t: "take 3 (drop k p @ rest) = [0, 0, e]" and "e = 0 \<or> e = 1"
    using c unfolding code_at_def d by metis
  then have e: "e < 3" by auto
  have z: "(drop k p @ rest) ! 0 = 0" "(drop k p @ rest) ! 1 = 0" "(drop k p @ rest) ! 2 < 3"
    using nth_take_3 [OF t] e by simp_all
  have l: "p ! (length p - 1) \<noteq> 0" using p by (simp add: last_conv_nth)
  consider "k + 2 < length p" | "k + 2 = length p" | "k + 1 = length p" using k by linarith
  then show False
  proof cases
    case 1
    then have "1 < length (drop k p)" "2 < length (drop k p)" by simp_all
    then have "p ! k = 0" "p ! (k + 1) = 0" "p ! (k + 2) < 3"
      using z k 1 by (simp_all only: nth_append if_True) (simp_all add: nth_append)
    then show False using p(1) 1 by (simp add: code_free_def)
  next
    case 2
    then have "1 < length (drop k p)" by simp
    then have "p ! (k + 1) = 0" using z(2) k by (simp only: nth_append if_True) simp
    moreover have "length p - 1 = k + 1" using 2 by simp
    ultimately show False using l by simp
  next
    case 3
    then have "p ! k = 0" using z k by (simp add: nth_append)
    moreover have "length p - 1 = k" using 3 by simp
    ultimately show False using l by simp
  qed
qed

lemma find_nal_unit_eq:
  assumes m: "m = pre @ [0, 0, 0, 1] @ p @ [0, 0, 0, 1] @ after"
    and p: "code_free p" "p \<noteq> []" "last p \<noteq> 0" and room: "length p \<le> length (nal_buf u)"
  shows "find_nal_unit m u (length m) s (length pre) =
    Inr (int (length p), u\<lparr>nal_len := int (length p), nal_buf := p @ drop (length p) (nal_buf u)\<rparr>,
      length pre + 4, length pre + 4 + length p)"
proof -
  let ?n = "length m" and ?i = "length pre"
  have d: "drop ?i m = [0, 0, 0, 1] @ p @ [0, 0, 0, 1] @ after" using m by simp
  have l: "length m = ?i + 8 + length p + length after" using m by simp
  have three: "bytes_at m ?i [0, 0, 1] = Inr False"
    using l d by (subst bytes_at_eq) (simp_all add: numeral_3_eq_3)
  have four: "bytes_at m ?i [0, 0, 0, 1] = Inr True"
    using l d by (subst bytes_at_eq) (simp_all add: numeral_eq_Suc)
  have start: "find_start m ?n ?i = Inr (True, ?i)"
    using three four by (simp add: find_start.simps [of m ?n ?i] del: bytes_at.simps)
  have d4: "drop (?i + 4) m = p @ [0, 0, 0, 1] @ after" using m by simp
  have copy: "copy_unit m ?n (?i + 4) (?i + 4) 0 (nal_buf u) =
      Inr (?i + 4 + length p, int (?i + 4 + length p) - int (?i + 4), take 0 (nal_buf u) @ p @ drop (0 + length p) (nal_buf u))"
  proof (rule copy_unit_eq)
    show "\<not> code_at m (?i + 4 + k)" if "k < length p" for k
      by (rule code_free_code_at [OF p that d4])
    have "drop (?i + 4 + length p) m = drop (length p) (drop (?i + 4) m)" by (simp add: add.commute)
    then have "drop (?i + 4 + length p) m = [0, 0, 0, 1] @ after" unfolding d4 by simp
    then show "code_at m (?i + 4 + length p)" by (simp add: code_at_def numeral_3_eq_3)
  qed (use l d4 room in simp_all)
  show ?thesis
    using start three copy by (simp add: find_nal_unit_def rbind_def Let_def add.commute del: bytes_at.simps)
qed

end
