(* ===== verification/H264_Parset.thy ===== *)
theory H264_Parset
  imports H264_Nalu "HOL-Library.Signed_Division"
begin

text \<open>
  What the parsers of \<open>parset.c\<close> and \<open>header.c\<close> are written with: the readers
  converted to \<open>int\<close>, and the statements of a parser as functions on the structure
  being filled and the reader. The second part relates statements to the bits they consume.
\<close>

section \<open>Readers\<close>

definition rd_u :: "int \<Rightarrow> bs_t \<Rightarrow> (int \<times> bs_t) cres" where
  "rd_u n b = rbind (bs_read_u b n) (\<lambda>(r, b). Inr (sint r, b))"

definition rd_ue :: "bs_t \<Rightarrow> (int \<times> bs_t) cres" where
  "rd_ue b = rbind (bs_read_ue b) (\<lambda>(r, b). Inr (sint r, b))"

abbreviation rd_se :: "bs_t \<Rightarrow> (int \<times> bs_t) cres" where
  "rd_se \<equiv> bs_read_se"

section \<open>Statements\<close>

type_synonym 's syn = "'s \<times> bs_t \<Rightarrow> ('s \<times> bs_t) cres"

text \<open>\<open>get r f\<close>: read a value and store it in the structure; \<open>get_at\<close> for a store that can leave an array.\<close>

definition get :: "(bs_t \<Rightarrow> (int \<times> bs_t) cres) \<Rightarrow> (int \<Rightarrow> 's \<Rightarrow> 's) \<Rightarrow> 's syn" where
  "get r f = (\<lambda>(s, b). rbind (r b) (\<lambda>(v, b). Inr (f v s, b)))"

definition get_at :: "(bs_t \<Rightarrow> (int \<times> bs_t) cres) \<Rightarrow> (int \<Rightarrow> 's \<Rightarrow> 's cres) \<Rightarrow> 's syn" where
  "get_at r f = (\<lambda>(s, b). rbind (r b) (\<lambda>(v, b). rbind (f v s) (\<lambda>s. Inr (s, b))))"

definition put :: "('s \<Rightarrow> 's) \<Rightarrow> 's syn" where
  "put f = (\<lambda>(s, b). Inr (f s, b))"

definition put_at :: "('s \<Rightarrow> 's cres) \<Rightarrow> 's syn" where
  "put_at f = (\<lambda>(s, b). rbind (f s) (\<lambda>s. Inr (s, b)))"

text \<open>Storing into an element of an array member.\<close>

definition into :: "('s \<Rightarrow> 'a list) \<Rightarrow> (('a list \<Rightarrow> 'a list) \<Rightarrow> 's \<Rightarrow> 's) \<Rightarrow> int \<Rightarrow> 'a \<Rightarrow> 's \<Rightarrow> 's cres" where
  "into member upd i v s = rbind (aset (member s) i v) (\<lambda>a. Inr (upd (\<lambda>_. a) s))"

definition into2 ::
    "('s \<Rightarrow> 'a list list) \<Rightarrow> (('a list list \<Rightarrow> 'a list list) \<Rightarrow> 's \<Rightarrow> 's) \<Rightarrow> int \<Rightarrow> int \<Rightarrow> 'a \<Rightarrow> 's \<Rightarrow> 's cres" where
  "into2 member upd i j v s =
     rbind (aget (member s) i) (\<lambda>row. rbind (aset row j v) (\<lambda>row. into member upd i row s))"

text \<open>A pointer to an array, or NULL.\<close>

definition deref :: "'a option \<Rightarrow> 'a cres" where
  "deref p = (case p of None \<Rightarrow> Inl C_Fault | Some x \<Rightarrow> Inr x)"

text \<open>\<open>on s. st\<close>: a statement that depends on the structure as it is.\<close>

definition on :: "('s \<Rightarrow> 's syn) \<Rightarrow> 's syn" where
  "on f = (\<lambda>(s, b). f s (s, b))"

fun seqs :: "'s syn list \<Rightarrow> 's syn" where
  "seqs [] x = Inr x"
| "seqs (st # sts) x = rbind (st x) (seqs sts)"

definition cond :: "('s \<Rightarrow> bool) \<Rightarrow> 's syn list \<Rightarrow> 's syn list \<Rightarrow> 's syn" where
  "cond P ts es = (\<lambda>(s, b). if P s then seqs ts (s, b) else seqs es (s, b))"

text \<open>\<open>for (i = i0; ...; i++)\<close> with \<open>k\<close> iterations left.\<close>

fun for_to :: "nat \<Rightarrow> int \<Rightarrow> (int \<Rightarrow> 's syn) \<Rightarrow> 's syn" where
  "for_to 0 i body x = Inr x"
| "for_to (Suc k) i body x = rbind (body i x) (for_to k (i + 1) body)"

text \<open>\<open>for (i = 0; i < n; i++)\<close>; no body changes its bound.\<close>

definition for_less :: "('s \<Rightarrow> int) \<Rightarrow> (int \<Rightarrow> 's syn) \<Rightarrow> 's syn" where
  "for_less n body = (\<lambda>(s, b). for_to (nat (n s)) 0 body (s, b))"

text \<open>A statement on a member structure.\<close>

definition sub :: "('s \<Rightarrow> 't) \<Rightarrow> ('t \<Rightarrow> 's \<Rightarrow> 's) \<Rightarrow> 't syn \<Rightarrow> 's syn" where
  "sub member upd st = (\<lambda>(s, b). rbind (st (member s, b)) (\<lambda>(t, b). Inr (upd t s, b)))"

text \<open>
  H264Analysis's \<open>parset.h\<close> and \<open>parset.c\<close>: the sequence and picture parameter sets, their parsers, and the
  two arrays that hold the sets received. The pointers \<open>active_sps\<close> and \<open>active_pps\<close> are indices of the
  arrays. \<open>calloc_ok n\<close> says whether an allocation of \<open>n\<close> bytes succeeds.
\<close>

section \<open>Data\<close>

definition MAX_CPB_CNT :: nat where "MAX_CPB_CNT = 32"

text \<open>\<open>Color_Space_Format\<close> of \<open>frame.h\<close>, by value.\<close>

definition YUV_4_4_4 :: int where "YUV_4_4_4 = 3"
definition COLOR_PLANE_Y :: int where "COLOR_PLANE_Y = 0"

record hrd_parameters_t =
  cpb_cnt_minus1 :: int
  bit_rate_scale :: int
  cpb_size_scale :: int
  bit_rate_value_minus1 :: "int list"
  cpb_size_value_minus1 :: "int list"
  cbr_flag :: "int list"
  initial_cpb_removal_delay_length_minus1 :: int
  cpb_removal_delay_length_minus1 :: int
  dpb_output_delay_length_minus1 :: int
  time_offset_length :: int

record vui_parameters_t =
  aspect_ratio_info_present_flag :: int
  aspect_ratio_idc :: int
  sar_width :: int
  sar_height :: int
  overscan_info_present_flag :: int
  overscan_appropriate_flag :: int
  video_signal_type_present_flag :: int
  video_format :: int
  video_full_range_flag :: int
  colour_description_present_flag :: int
  colour_primaries :: int
  transfer_characteristics :: int
  matrix_coefficients :: int
  chroma_loc_info_present_flag :: int
  chroma_sample_loc_type_top_field :: int
  chroma_sample_loc_type_bottom_field :: int
  timing_info_present_flag :: int
  num_units_in_tick :: int
  time_scale :: int
  fixed_frame_rate_flag :: int
  nal_hrd_parameters_present_flag :: int
  nal_hrd_parameters :: hrd_parameters_t
  vcl_hrd_parameters_present_flag :: int
  vcl_hrd_parameters :: hrd_parameters_t
  low_delay_hrd_flag :: int
  pic_struct_present_flag :: int
  bitstream_restriction_flag :: int
  motion_vectors_over_pic_boundaries_flag :: int
  max_bytes_per_pic_denom :: int
  max_bits_per_mb_denom :: int
  log2_max_mv_length_horizontal :: int
  log2_max_mv_length_vertical :: int
  max_num_reorder_frames :: int
  max_dec_frame_buffering :: int

record sps_t =
  profile_idc :: int
  constraint_set0_flag :: int
  constraint_set1_flag :: int
  constraint_set2_flag :: int
  constraint_set3_flag :: int
  constraint_set4_flag :: int
  constraint_set5_flag :: int
  reserved_zero_2bits :: int
  level_idc :: int
  seq_parameter_set_id :: int
  chroma_format_idc :: int
  separate_colour_plane_flag :: int
  bit_depth_luma_minus8 :: int
  bit_depth_chroma_minus8 :: int
  qpprime_y_zero_transform_bypass_flag :: int
  seq_scaling_matrix_present_flag :: int
  seq_scaling_list_present_flag :: "int list"
  ScalingList4x4 :: "int list list"
  UseDefaultScalingMatrix4x4Flag :: "int list"
  ScalingList8x8 :: "int list list"
  UseDefaultScalingMatrix8x8Flag :: "int list"
  log2_max_frame_num_minus4 :: int
  pic_order_cnt_type :: int
  log2_max_pic_order_cnt_lsb_minus4 :: int
  delta_pic_order_always_zero_flag :: int
  offset_for_non_ref_pic :: int
  offset_for_top_to_bottom_field :: int
  num_ref_frames_in_pic_order_cnt_cycle :: int
  offset_for_ref_frame :: "int list"
  max_num_ref_frames :: int
  gaps_in_frame_num_value_allowed_flag :: int
  pic_width_in_mbs_minus1 :: int
  pic_height_in_map_units_minus1 :: int
  frame_mbs_only_flag :: int
  mb_adaptive_frame_field_flag :: int
  direct_8x8_inference_flag :: int
  frame_cropping_flag :: int
  frame_crop_left_offset :: int
  frame_crop_right_offset :: int
  frame_crop_top_offset :: int
  frame_crop_bottom_offset :: int
  vui_parameters_present_flag :: int
  vui_parameters :: vui_parameters_t

text \<open>\<open>slice_group_id\<close>: the block the pointer owns, in bytes, or NULL.\<close>

record pps_t =
  pic_parameter_set_id :: int
  pps_seq_parameter_set_id :: int
  entropy_coding_mode_flag :: int
  bottom_field_pic_order_in_frame_present_flag :: int
  num_slice_groups_minus1 :: int
  slice_group_map_type :: int
  run_length_minus1 :: "int list"
  top_left :: "int list"
  bottom_right :: "int list"
  slice_group_change_direction_flag :: int
  slice_group_change_rate_minus1 :: int
  pic_size_in_map_units_minus1 :: int
  slice_group_id :: "bytes option"
  num_ref_idx_l0_default_active_minus1 :: int
  num_ref_idx_l1_default_active_minus1 :: int
  weighted_pred_flag :: int
  weighted_bipred_idc :: int
  pic_init_qp_minus26 :: int
  pic_init_qs_minus26 :: int
  chroma_qp_index_offset :: int
  deblocking_filter_control_present_flag :: int
  constrained_intra_pred_flag :: int
  redundant_pic_cnt_present_flag :: int
  transform_8x8_mode_flag :: int
  pic_scaling_matrix_present_flag :: int
  pic_scaling_list_present_flag :: "int list"
  pps_ScalingList4x4 :: "int list list"
  pps_UseDefaultScalingMatrix4x4Flag :: "int list"
  pps_ScalingList8x8 :: "int list list"
  pps_UseDefaultScalingMatrix8x8Flag :: "int list"
  second_chroma_qp_index_offset :: int

record h264_globals =
  Sequence_Parameters_Set_Array :: "sps_t list"
  Picture_Parameters_Set_Array :: "pps_t list"
  active_sps :: "nat option"
  active_pps :: "nat option"

section \<open>Allocation\<close>

text \<open>\<open>calloc\<close> zeroes the structure.\<close>

definition hrd_zero :: hrd_parameters_t where
  "hrd_zero = \<lparr>cpb_cnt_minus1 = 0, bit_rate_scale = 0, cpb_size_scale = 0,
     bit_rate_value_minus1 = replicate MAX_CPB_CNT 0, cpb_size_value_minus1 = replicate MAX_CPB_CNT 0,
     cbr_flag = replicate MAX_CPB_CNT 0, initial_cpb_removal_delay_length_minus1 = 0,
     cpb_removal_delay_length_minus1 = 0, dpb_output_delay_length_minus1 = 0, time_offset_length = 0\<rparr>"

definition vui_zero :: vui_parameters_t where
  "vui_zero = \<lparr>aspect_ratio_info_present_flag = 0, aspect_ratio_idc = 0, sar_width = 0, sar_height = 0,
     overscan_info_present_flag = 0, overscan_appropriate_flag = 0, video_signal_type_present_flag = 0,
     video_format = 0, video_full_range_flag = 0, colour_description_present_flag = 0,
     colour_primaries = 0, transfer_characteristics = 0, matrix_coefficients = 0,
     chroma_loc_info_present_flag = 0, chroma_sample_loc_type_top_field = 0,
     chroma_sample_loc_type_bottom_field = 0, timing_info_present_flag = 0, num_units_in_tick = 0,
     time_scale = 0, fixed_frame_rate_flag = 0, nal_hrd_parameters_present_flag = 0,
     nal_hrd_parameters = hrd_zero, vcl_hrd_parameters_present_flag = 0, vcl_hrd_parameters = hrd_zero,
     low_delay_hrd_flag = 0, pic_struct_present_flag = 0, bitstream_restriction_flag = 0,
     motion_vectors_over_pic_boundaries_flag = 0, max_bytes_per_pic_denom = 0, max_bits_per_mb_denom = 0,
     log2_max_mv_length_horizontal = 0, log2_max_mv_length_vertical = 0, max_num_reorder_frames = 0,
     max_dec_frame_buffering = 0\<rparr>"

definition sps_zero :: sps_t where
  "sps_zero = \<lparr>profile_idc = 0, constraint_set0_flag = 0, constraint_set1_flag = 0, constraint_set2_flag = 0,
     constraint_set3_flag = 0, constraint_set4_flag = 0, constraint_set5_flag = 0, reserved_zero_2bits = 0,
     level_idc = 0, seq_parameter_set_id = 0, chroma_format_idc = 0, separate_colour_plane_flag = 0,
     bit_depth_luma_minus8 = 0, bit_depth_chroma_minus8 = 0, qpprime_y_zero_transform_bypass_flag = 0,
     seq_scaling_matrix_present_flag = 0, seq_scaling_list_present_flag = replicate 12 0,
     ScalingList4x4 = replicate 6 (replicate 16 0), UseDefaultScalingMatrix4x4Flag = replicate 6 0,
     ScalingList8x8 = replicate 6 (replicate 64 0), UseDefaultScalingMatrix8x8Flag = replicate 6 0,
     log2_max_frame_num_minus4 = 0, pic_order_cnt_type = 0, log2_max_pic_order_cnt_lsb_minus4 = 0,
     delta_pic_order_always_zero_flag = 0, offset_for_non_ref_pic = 0, offset_for_top_to_bottom_field = 0,
     num_ref_frames_in_pic_order_cnt_cycle = 0, offset_for_ref_frame = replicate 256 0,
     max_num_ref_frames = 0, gaps_in_frame_num_value_allowed_flag = 0, pic_width_in_mbs_minus1 = 0,
     pic_height_in_map_units_minus1 = 0, frame_mbs_only_flag = 0, mb_adaptive_frame_field_flag = 0,
     direct_8x8_inference_flag = 0, frame_cropping_flag = 0, frame_crop_left_offset = 0,
     frame_crop_right_offset = 0, frame_crop_top_offset = 0, frame_crop_bottom_offset = 0,
     vui_parameters_present_flag = 0, vui_parameters = vui_zero\<rparr>"

definition pps_zero :: pps_t where
  "pps_zero = \<lparr>pic_parameter_set_id = 0, pps_seq_parameter_set_id = 0, entropy_coding_mode_flag = 0,
     bottom_field_pic_order_in_frame_present_flag = 0, num_slice_groups_minus1 = 0,
     slice_group_map_type = 0, run_length_minus1 = replicate 8 0, top_left = replicate 8 0,
     bottom_right = replicate 8 0, slice_group_change_direction_flag = 0,
     slice_group_change_rate_minus1 = 0, pic_size_in_map_units_minus1 = 0, slice_group_id = None,
     num_ref_idx_l0_default_active_minus1 = 0, num_ref_idx_l1_default_active_minus1 = 0,
     weighted_pred_flag = 0, weighted_bipred_idc = 0, pic_init_qp_minus26 = 0, pic_init_qs_minus26 = 0,
     chroma_qp_index_offset = 0, deblocking_filter_control_present_flag = 0,
     constrained_intra_pred_flag = 0, redundant_pic_cnt_present_flag = 0, transform_8x8_mode_flag = 0,
     pic_scaling_matrix_present_flag = 0, pic_scaling_list_present_flag = replicate 12 0,
     pps_ScalingList4x4 = replicate 6 (replicate 16 0), pps_UseDefaultScalingMatrix4x4Flag = replicate 6 0,
     pps_ScalingList8x8 = replicate 6 (replicate 64 0), pps_UseDefaultScalingMatrix8x8Flag = replicate 6 0,
     second_chroma_qp_index_offset = 0\<rparr>"

text \<open>The sizes of the two structures on a host with 4-byte \<open>int\<close> and 8-byte pointers.\<close>

definition sizeof_sps_t :: nat where "sizeof_sps_t = 4136"
definition sizeof_pps_t :: nat where "sizeof_pps_t = 2216"

definition allocSPS :: "(nat \<Rightarrow> bool) \<Rightarrow> sps_t cres" where
  "allocSPS calloc_ok = (if calloc_ok sizeof_sps_t then Inr sps_zero else Inl (C_Exit ''Alloc SPS Error''))"

definition allocPPS :: "(nat \<Rightarrow> bool) \<Rightarrow> pps_t cres" where
  "allocPPS calloc_ok =
     (if calloc_ok sizeof_pps_t then Inr (pps_zero\<lparr>slice_group_id := None\<rparr>) else Inl (C_Exit ''Alloc PPS Error''))"

section \<open>The parsers\<close>

subsection \<open>Scaling lists\<close>

text \<open>
  The loop with \<open>k\<close> entries left, for the array \<open>sl\<close> and the flag \<open>fl[fi]\<close>. \<open>%\<close> truncates, so a large
  negative delta gives a negative scale.
\<close>

fun scaling_loop :: "nat \<Rightarrow> int \<Rightarrow> int \<Rightarrow> int \<Rightarrow> int list \<Rightarrow> int list \<Rightarrow> int \<Rightarrow> bs_t \<Rightarrow> (int list \<times> int list \<times> bs_t) cres" where
  "scaling_loop 0 j lastScale nextScale sl fl fi b = Inr (sl, fl, b)"
| "scaling_loop (Suc k) j lastScale nextScale sl fl fi b =
     rbind
       (if nextScale \<noteq> 0 then
          rbind (bs_read_se b) (\<lambda>(deltaScale, b).
          let nextScale = (lastScale + deltaScale + 256) smod 256 in
          rbind (aset fl fi (of_bool (j = 0 \<and> nextScale = 0))) (\<lambda>fl. Inr (nextScale, fl, b)))
        else Inr (nextScale, fl, b)) (\<lambda>(nextScale, fl, b).
     let v = (if nextScale = 0 then lastScale else nextScale) in
     rbind (aset sl j v) (\<lambda>sl.
     scaling_loop k (j + 1) v nextScale sl fl fi b))"

definition scaling_list :: "int list \<Rightarrow> nat \<Rightarrow> int list \<Rightarrow> int \<Rightarrow> bs_t \<Rightarrow> (int list \<times> int list \<times> bs_t) cres" where
  "scaling_list sl sizeOfScalingList fl fi b = scaling_loop sizeOfScalingList 0 8 8 sl fl fi b"

subsection \<open>The VUI parameters\<close>

definition parse_vui_hrd_parameters :: "hrd_parameters_t syn" where
  "parse_vui_hrd_parameters = seqs [
    get rd_ue (\<lambda>v s. s\<lparr>cpb_cnt_minus1 := v\<rparr>),
    get (rd_u 4) (\<lambda>v s. s\<lparr>bit_rate_scale := v\<rparr>),
    get (rd_u 4) (\<lambda>v s. s\<lparr>cpb_size_scale := v\<rparr>),
    for_less (\<lambda>s. cpb_cnt_minus1 s + 1) (\<lambda>i. seqs [
      get_at rd_ue (into bit_rate_value_minus1 bit_rate_value_minus1_update i),
      get_at rd_ue (into cpb_size_value_minus1 cpb_size_value_minus1_update i),
      get_at (rd_u 1) (into cbr_flag cbr_flag_update i)]),
    get (rd_u 5) (\<lambda>v s. s\<lparr>initial_cpb_removal_delay_length_minus1 := v\<rparr>),
    get (rd_u 5) (\<lambda>v s. s\<lparr>cpb_removal_delay_length_minus1 := v\<rparr>),
    get (rd_u 5) (\<lambda>v s. s\<lparr>dpb_output_delay_length_minus1 := v\<rparr>),
    get (rd_u 5) (\<lambda>v s. s\<lparr>time_offset_length := v\<rparr>)]"

definition parse_vui_parameters :: "vui_parameters_t syn" where
  "parse_vui_parameters = seqs [
    get (rd_u 1) (\<lambda>v s. s\<lparr>aspect_ratio_info_present_flag := v\<rparr>),
    cond (\<lambda>s. aspect_ratio_info_present_flag s \<noteq> 0)
     [get (rd_u 8) (\<lambda>v s. s\<lparr>aspect_ratio_idc := v\<rparr>),
      cond (\<lambda>s. aspect_ratio_idc s = 255)
         [get (rd_u 16) (\<lambda>v s. s\<lparr>sar_width := v\<rparr>),
          get (rd_u 16) (\<lambda>v s. s\<lparr>sar_height := v\<rparr>)]
         []]
     [],
    get (rd_u 1) (\<lambda>v s. s\<lparr>overscan_info_present_flag := v\<rparr>),
    cond (\<lambda>s. overscan_info_present_flag s \<noteq> 0)
     [get (rd_u 1) (\<lambda>v s. s\<lparr>overscan_appropriate_flag := v\<rparr>)]
     [],
    get (rd_u 1) (\<lambda>v s. s\<lparr>video_signal_type_present_flag := v\<rparr>),
    cond (\<lambda>s. video_signal_type_present_flag s \<noteq> 0)
     [get (rd_u 3) (\<lambda>v s. s\<lparr>video_format := v\<rparr>),
      get (rd_u 1) (\<lambda>v s. s\<lparr>video_full_range_flag := v\<rparr>),
      get (rd_u 1) (\<lambda>v s. s\<lparr>colour_description_present_flag := v\<rparr>),
      cond (\<lambda>s. colour_description_present_flag s \<noteq> 0)
         [get (rd_u 8) (\<lambda>v s. s\<lparr>colour_primaries := v\<rparr>),
          get (rd_u 8) (\<lambda>v s. s\<lparr>transfer_characteristics := v\<rparr>),
          get (rd_u 8) (\<lambda>v s. s\<lparr>matrix_coefficients := v\<rparr>)]
         []]
     [],
    get (rd_u 1) (\<lambda>v s. s\<lparr>chroma_loc_info_present_flag := v\<rparr>),
    cond (\<lambda>s. chroma_loc_info_present_flag s \<noteq> 0)
     [get rd_ue (\<lambda>v s. s\<lparr>chroma_sample_loc_type_top_field := v\<rparr>),
      get rd_ue (\<lambda>v s. s\<lparr>chroma_sample_loc_type_bottom_field := v\<rparr>)]
     [],
    get (rd_u 1) (\<lambda>v s. s\<lparr>timing_info_present_flag := v\<rparr>),
    cond (\<lambda>s. timing_info_present_flag s \<noteq> 0)
     [get (rd_u 32) (\<lambda>v s. s\<lparr>num_units_in_tick := v\<rparr>),
      get (rd_u 32) (\<lambda>v s. s\<lparr>time_scale := v\<rparr>),
      get (rd_u 1) (\<lambda>v s. s\<lparr>fixed_frame_rate_flag := v\<rparr>)]
     [],
    get (rd_u 1) (\<lambda>v s. s\<lparr>nal_hrd_parameters_present_flag := v\<rparr>),
    cond (\<lambda>s. nal_hrd_parameters_present_flag s \<noteq> 0)
     [sub nal_hrd_parameters (\<lambda>t s. s\<lparr>nal_hrd_parameters := t\<rparr>) parse_vui_hrd_parameters]
     [],
    get (rd_u 1) (\<lambda>v s. s\<lparr>vcl_hrd_parameters_present_flag := v\<rparr>),
    cond (\<lambda>s. vcl_hrd_parameters_present_flag s \<noteq> 0)
     [sub vcl_hrd_parameters (\<lambda>t s. s\<lparr>vcl_hrd_parameters := t\<rparr>) parse_vui_hrd_parameters]
     [],
    cond (\<lambda>s. nal_hrd_parameters_present_flag s \<noteq> 0 \<or> vcl_hrd_parameters_present_flag s \<noteq> 0)
     [get (rd_u 1) (\<lambda>v s. s\<lparr>low_delay_hrd_flag := v\<rparr>)]
     [],
    get (rd_u 1) (\<lambda>v s. s\<lparr>pic_struct_present_flag := v\<rparr>),
    get (rd_u 1) (\<lambda>v s. s\<lparr>bitstream_restriction_flag := v\<rparr>),
    cond (\<lambda>s. bitstream_restriction_flag s \<noteq> 0)
     [get (rd_u 1) (\<lambda>v s. s\<lparr>motion_vectors_over_pic_boundaries_flag := v\<rparr>),
      get rd_ue (\<lambda>v s. s\<lparr>max_bytes_per_pic_denom := v\<rparr>),
      get rd_ue (\<lambda>v s. s\<lparr>max_bits_per_mb_denom := v\<rparr>),
      get rd_ue (\<lambda>v s. s\<lparr>log2_max_mv_length_horizontal := v\<rparr>),
      get rd_ue (\<lambda>v s. s\<lparr>log2_max_mv_length_vertical := v\<rparr>),
      get rd_ue (\<lambda>v s. s\<lparr>max_num_reorder_frames := v\<rparr>),
      get rd_ue (\<lambda>v s. s\<lparr>max_dec_frame_buffering := v\<rparr>)]
     []]"

subsection \<open>The sequence parameter set\<close>

definition sps_list4x4 :: "int \<Rightarrow> sps_t syn" where
  "sps_list4x4 i = (\<lambda>(s, b).
     rbind (aget (ScalingList4x4 s) i) (\<lambda>row.
     rbind (scaling_list row 16 (UseDefaultScalingMatrix4x4Flag s) i b) (\<lambda>(row, fl, b).
     rbind (aset (ScalingList4x4 s) i row) (\<lambda>rows.
     Inr (s\<lparr>ScalingList4x4 := rows, UseDefaultScalingMatrix4x4Flag := fl\<rparr>, b)))))"

definition sps_list8x8 :: "int \<Rightarrow> sps_t syn" where
  "sps_list8x8 i = (\<lambda>(s, b).
     rbind (aget (ScalingList8x8 s) (i - 6)) (\<lambda>row.
     rbind (scaling_list row 64 (UseDefaultScalingMatrix8x8Flag s) (i - 6) b) (\<lambda>(row, fl, b).
     rbind (aset (ScalingList8x8 s) (i - 6) row) (\<lambda>rows.
     Inr (s\<lparr>ScalingList8x8 := rows, UseDefaultScalingMatrix8x8Flag := fl\<rparr>, b)))))"

definition high_profile :: "int \<Rightarrow> bool" where
  "high_profile p \<longleftrightarrow>
     p = 100 \<or> p = 110 \<or> p = 122 \<or> p = 244 \<or> p = 44 \<or> p = 83 \<or> p = 86 \<or> p = 118 \<or> p = 128 \<or>
     p = 138 \<or> p = 139 \<or> p = 134 \<or> p = 135"

text \<open>The part for the profiles with a chroma format.\<close>

definition parse_sps_chroma :: "sps_t syn" where
  "parse_sps_chroma = seqs [
    get rd_ue (\<lambda>v s. s\<lparr>chroma_format_idc := v\<rparr>),
    cond (\<lambda>s. chroma_format_idc s = YUV_4_4_4)
     [get (rd_u 1) (\<lambda>v s. s\<lparr>separate_colour_plane_flag := v\<rparr>)]
     [],
    get rd_ue (\<lambda>v s. s\<lparr>bit_depth_luma_minus8 := v\<rparr>),
    get rd_ue (\<lambda>v s. s\<lparr>bit_depth_chroma_minus8 := v\<rparr>),
    get (rd_u 1) (\<lambda>v s. s\<lparr>qpprime_y_zero_transform_bypass_flag := v\<rparr>),
    get (rd_u 1) (\<lambda>v s. s\<lparr>seq_scaling_matrix_present_flag := v\<rparr>),
    cond (\<lambda>s. seq_scaling_matrix_present_flag s \<noteq> 0)
     [for_less (\<lambda>s. if chroma_format_idc s \<noteq> YUV_4_4_4 then 8 else 12) (\<lambda>i. seqs [
      get_at (rd_u 1) (into seq_scaling_list_present_flag seq_scaling_list_present_flag_update i),
      on (\<lambda>s. if seq_scaling_list_present_flag s ! nat i \<noteq> 0 then (if i < 6 then sps_list4x4 i else sps_list8x8 i) else seqs [])])]
     []]"

text \<open>The elements of the picture order count.\<close>

definition parse_sps_poc :: "sps_t syn" where
  "parse_sps_poc =
    cond (\<lambda>s. pic_order_cnt_type s = 0)
     [get rd_ue (\<lambda>v s. s\<lparr>log2_max_pic_order_cnt_lsb_minus4 := v\<rparr>)]
     [cond (\<lambda>s. pic_order_cnt_type s = 1)
         [get (rd_u 1) (\<lambda>v s. s\<lparr>delta_pic_order_always_zero_flag := v\<rparr>),
          get rd_se (\<lambda>v s. s\<lparr>offset_for_non_ref_pic := v\<rparr>),
          get rd_se (\<lambda>v s. s\<lparr>offset_for_top_to_bottom_field := v\<rparr>),
          get rd_ue (\<lambda>v s. s\<lparr>num_ref_frames_in_pic_order_cnt_cycle := v\<rparr>),
          for_less num_ref_frames_in_pic_order_cnt_cycle (\<lambda>i. get_at rd_se (into offset_for_ref_frame offset_for_ref_frame_update i))]
         []]"

definition parse_sps_syntax_element :: "sps_t syn" where
  "parse_sps_syntax_element = seqs [
    get (rd_u 8) (\<lambda>v s. s\<lparr>profile_idc := v\<rparr>),
    get (rd_u 1) (\<lambda>v s. s\<lparr>constraint_set0_flag := v\<rparr>),
    get (rd_u 1) (\<lambda>v s. s\<lparr>constraint_set1_flag := v\<rparr>),
    get (rd_u 1) (\<lambda>v s. s\<lparr>constraint_set2_flag := v\<rparr>),
    get (rd_u 1) (\<lambda>v s. s\<lparr>constraint_set3_flag := v\<rparr>),
    get (rd_u 1) (\<lambda>v s. s\<lparr>constraint_set4_flag := v\<rparr>),
    get (rd_u 1) (\<lambda>v s. s\<lparr>constraint_set5_flag := v\<rparr>),
    get (rd_u 2) (\<lambda>v s. s\<lparr>reserved_zero_2bits := v\<rparr>),
    get (rd_u 8) (\<lambda>v s. s\<lparr>level_idc := v\<rparr>),
    get rd_ue (\<lambda>v s. s\<lparr>seq_parameter_set_id := v\<rparr>),
    cond (\<lambda>s. high_profile (profile_idc s))
     [parse_sps_chroma]
     [],
    get rd_ue (\<lambda>v s. s\<lparr>log2_max_frame_num_minus4 := v\<rparr>),
    get rd_ue (\<lambda>v s. s\<lparr>pic_order_cnt_type := v\<rparr>),
    parse_sps_poc,
    get rd_ue (\<lambda>v s. s\<lparr>max_num_ref_frames := v\<rparr>),
    get (rd_u 1) (\<lambda>v s. s\<lparr>gaps_in_frame_num_value_allowed_flag := v\<rparr>),
    get rd_ue (\<lambda>v s. s\<lparr>pic_width_in_mbs_minus1 := v\<rparr>),
    get rd_ue (\<lambda>v s. s\<lparr>pic_height_in_map_units_minus1 := v\<rparr>),
    get (rd_u 1) (\<lambda>v s. s\<lparr>frame_mbs_only_flag := v\<rparr>),
    cond (\<lambda>s. frame_mbs_only_flag s = 0)
     [get (rd_u 1) (\<lambda>v s. s\<lparr>mb_adaptive_frame_field_flag := v\<rparr>)]
     [],
    get (rd_u 1) (\<lambda>v s. s\<lparr>direct_8x8_inference_flag := v\<rparr>),
    get (rd_u 1) (\<lambda>v s. s\<lparr>frame_cropping_flag := v\<rparr>),
    cond (\<lambda>s. frame_cropping_flag s \<noteq> 0)
     [get rd_ue (\<lambda>v s. s\<lparr>frame_crop_left_offset := v\<rparr>),
      get rd_ue (\<lambda>v s. s\<lparr>frame_crop_right_offset := v\<rparr>),
      get rd_ue (\<lambda>v s. s\<lparr>frame_crop_top_offset := v\<rparr>),
      get rd_ue (\<lambda>v s. s\<lparr>frame_crop_bottom_offset := v\<rparr>)]
     [],
    get (rd_u 1) (\<lambda>v s. s\<lparr>vui_parameters_present_flag := v\<rparr>),
    cond (\<lambda>s. vui_parameters_present_flag s \<noteq> 0)
     [sub vui_parameters (\<lambda>t s. s\<lparr>vui_parameters := t\<rparr>) parse_vui_parameters]
     []]"

subsection \<open>The picture parameter set\<close>

definition pps_list4x4 :: "int \<Rightarrow> pps_t syn" where
  "pps_list4x4 i = (\<lambda>(s, b).
     rbind (aget (pps_ScalingList4x4 s) i) (\<lambda>row.
     rbind (scaling_list row 16 (pps_UseDefaultScalingMatrix4x4Flag s) i b) (\<lambda>(row, fl, b).
     rbind (aset (pps_ScalingList4x4 s) i row) (\<lambda>rows.
     Inr (s\<lparr>pps_ScalingList4x4 := rows, pps_UseDefaultScalingMatrix4x4Flag := fl\<rparr>, b)))))"

text \<open>The flag is indexed by \<open>i\<close>, not by \<open>i - 6\<close>.\<close>

definition pps_list8x8 :: "int \<Rightarrow> pps_t syn" where
  "pps_list8x8 i = (\<lambda>(s, b).
     rbind (aget (pps_ScalingList8x8 s) (i - 6)) (\<lambda>row.
     rbind (scaling_list row 64 (pps_UseDefaultScalingMatrix8x8Flag s) i b) (\<lambda>(row, fl, b).
     rbind (aset (pps_ScalingList8x8 s) (i - 6) row) (\<lambda>rows.
     Inr (s\<lparr>pps_ScalingList8x8 := rows, pps_UseDefaultScalingMatrix8x8Flag := fl\<rparr>, b)))))"

text \<open>Map type 6: the block has \<open>n\<close> bytes, and an entry has 4.\<close>

definition slice_group_store :: "int \<Rightarrow> int \<Rightarrow> pps_t \<Rightarrow> pps_t cres" where
  "slice_group_store i v s =
     (case slice_group_id s of
        None \<Rightarrow> Inl C_Fault
      | Some m \<Rightarrow> rbind (mem_store32 m (4 * nat i) (word_of_int v)) (\<lambda>m. Inr (s\<lparr>slice_group_id := Some m\<rparr>)))"

definition parse_slice_group_ids :: "(nat \<Rightarrow> bool) \<Rightarrow> pps_t syn" where
  "parse_slice_group_ids calloc_ok = on (\<lambda>s.
     let bitsNumberOfEachSliceGroupID =
           (if num_slice_groups_minus1 s + 1 > 4 then 3 else if num_slice_groups_minus1 s + 1 > 2 then 2 else 1)
     in seqs [
       get rd_ue (\<lambda>v s. s\<lparr>pic_size_in_map_units_minus1 := v\<rparr>),
       put_at (\<lambda>s. let n = nat (pic_size_in_map_units_minus1 s + 1) in
         if calloc_ok n then Inr (s\<lparr>slice_group_id := Some (replicate n 0)\<rparr>)
         else Inl (C_Exit ''parse_pps_syntax_element slice_group_id Error'')),
       for_less (\<lambda>s. pic_size_in_map_units_minus1 s + 1) (\<lambda>i.
         get_at (rd_u bitsNumberOfEachSliceGroupID) (slice_group_store i))])"

definition parse_slice_groups :: "(nat \<Rightarrow> bool) \<Rightarrow> pps_t syn" where
  "parse_slice_groups calloc_ok = seqs [
    get rd_ue (\<lambda>v s. s\<lparr>slice_group_map_type := v\<rparr>),
    cond (\<lambda>s. slice_group_map_type s = 0)
     [for_less (\<lambda>s. num_slice_groups_minus1 s + 1) (\<lambda>i. get_at rd_ue (into run_length_minus1 run_length_minus1_update i))]
     [cond (\<lambda>s. slice_group_map_type s = 2)
         [for_less num_slice_groups_minus1 (\<lambda>i. seqs [
          get_at rd_ue (into top_left top_left_update i),
          get_at rd_ue (into bottom_right bottom_right_update i)])]
         [cond (\<lambda>s. slice_group_map_type s = 3 \<or> slice_group_map_type s = 4 \<or> slice_group_map_type s = 5)
           [get (rd_u 1) (\<lambda>v s. s\<lparr>slice_group_change_direction_flag := v\<rparr>),
            get rd_ue (\<lambda>v s. s\<lparr>slice_group_change_rate_minus1 := v\<rparr>)]
           [cond (\<lambda>s. slice_group_map_type s = 6)
             [parse_slice_group_ids calloc_ok]
             []]]]]"

definition parse_pps_transform :: "sps_t list \<Rightarrow> pps_t syn" where
  "parse_pps_transform sps_array = seqs [
    get (rd_u 1) (\<lambda>v s. s\<lparr>transform_8x8_mode_flag := v\<rparr>),
    get (rd_u 1) (\<lambda>v s. s\<lparr>pic_scaling_matrix_present_flag := v\<rparr>),
    cond (\<lambda>s. pic_scaling_matrix_present_flag s \<noteq> 0)
     [(\<lambda>(s, b).
        rbind (aget sps_array (pps_seq_parameter_set_id s)) (\<lambda>sps.
        for_less (\<lambda>s. 6 + (if chroma_format_idc sps \<noteq> YUV_4_4_4 then 2 else 6) * transform_8x8_mode_flag s) (\<lambda>i. seqs [
      get_at (rd_u 1) (into pic_scaling_list_present_flag pic_scaling_list_present_flag_update i),
      on (\<lambda>s. if pic_scaling_list_present_flag s ! nat i \<noteq> 0 then (if i < 6 then pps_list4x4 i else pps_list8x8 i) else seqs [])]) (s, b)))]
     [],
    get rd_se (\<lambda>v s. s\<lparr>second_chroma_qp_index_offset := v\<rparr>)]"

definition parse_pps_syntax_element :: "(nat \<Rightarrow> bool) \<Rightarrow> sps_t list \<Rightarrow> pps_t syn" where
  "parse_pps_syntax_element calloc_ok sps_array = seqs [
    get rd_ue (\<lambda>v s. s\<lparr>pic_parameter_set_id := v\<rparr>),
    get rd_ue (\<lambda>v s. s\<lparr>pps_seq_parameter_set_id := v\<rparr>),
    get (rd_u 1) (\<lambda>v s. s\<lparr>entropy_coding_mode_flag := v\<rparr>),
    get (rd_u 1) (\<lambda>v s. s\<lparr>bottom_field_pic_order_in_frame_present_flag := v\<rparr>),
    get rd_ue (\<lambda>v s. s\<lparr>num_slice_groups_minus1 := v\<rparr>),
    cond (\<lambda>s. num_slice_groups_minus1 s > 0)
     [parse_slice_groups calloc_ok]
     [],
    get rd_ue (\<lambda>v s. s\<lparr>num_ref_idx_l0_default_active_minus1 := v\<rparr>),
    get rd_ue (\<lambda>v s. s\<lparr>num_ref_idx_l1_default_active_minus1 := v\<rparr>),
    get (rd_u 1) (\<lambda>v s. s\<lparr>weighted_pred_flag := v\<rparr>),
    get (rd_u 2) (\<lambda>v s. s\<lparr>weighted_bipred_idc := v\<rparr>),
    get rd_se (\<lambda>v s. s\<lparr>pic_init_qp_minus26 := v\<rparr>),
    get rd_se (\<lambda>v s. s\<lparr>pic_init_qs_minus26 := v\<rparr>),
    get rd_se (\<lambda>v s. s\<lparr>chroma_qp_index_offset := v\<rparr>),
    get (rd_u 1) (\<lambda>v s. s\<lparr>deblocking_filter_control_present_flag := v\<rparr>),
    get (rd_u 1) (\<lambda>v s. s\<lparr>constrained_intra_pred_flag := v\<rparr>),
    get (rd_u 1) (\<lambda>v s. s\<lparr>redundant_pic_cnt_present_flag := v\<rparr>),
    (\<lambda>(s, b).
      if more_rbsp_data b then parse_pps_transform sps_array (s, b)
      else Inr (s\<lparr>second_chroma_qp_index_offset := chroma_qp_index_offset s\<rparr>, b))]"

section \<open>The sets received\<close>

text \<open>The ids are not checked: outside the array the copy is out of bounds.\<close>

definition save_sps_as_available :: "sps_t \<Rightarrow> h264_globals \<Rightarrow> h264_globals cres" where
  "save_sps_as_available sps g =
     rbind (aset (Sequence_Parameters_Set_Array g) (seq_parameter_set_id sps) sps) (\<lambda>a.
     Inr (g\<lparr>Sequence_Parameters_Set_Array := a\<rparr>))"

text \<open>
  The old block of the entry is freed, the new one is moved to the entry, and the caller's structure loses
  it, so that \<open>freePPS\<close> does not free it.
\<close>

definition save_pps_as_available :: "pps_t \<Rightarrow> h264_globals \<Rightarrow> (pps_t \<times> h264_globals) cres" where
  "save_pps_as_available pps g =
     rbind (aset (Picture_Parameters_Set_Array g) (pic_parameter_set_id pps) pps) (\<lambda>a.
     Inr (pps\<lparr>slice_group_id := None\<rparr>, g\<lparr>Picture_Parameters_Set_Array := a\<rparr>))"

definition processSPS :: "(nat \<Rightarrow> bool) \<Rightarrow> bs_t \<Rightarrow> h264_globals \<Rightarrow> (bs_t \<times> h264_globals) cres" where
  "processSPS calloc_ok b g =
     rbind (allocSPS calloc_ok) (\<lambda>sps.
     rbind (parse_sps_syntax_element (sps, b)) (\<lambda>(sps, b).
     rbind (save_sps_as_available sps g) (\<lambda>g.
     Inr (b, g))))"

definition processPPS :: "(nat \<Rightarrow> bool) \<Rightarrow> bs_t \<Rightarrow> h264_globals \<Rightarrow> (bs_t \<times> h264_globals) cres" where
  "processPPS calloc_ok b g =
     rbind (allocPPS calloc_ok) (\<lambda>pps.
     rbind (parse_pps_syntax_element calloc_ok (Sequence_Parameters_Set_Array g) (pps, b)) (\<lambda>(pps, b).
     rbind (save_pps_as_available pps g) (\<lambda>(pps, g).
     Inr (b, g))))"

definition activeParameterSet :: "int \<Rightarrow> h264_globals \<Rightarrow> h264_globals cres" where
  "activeParameterSet pps_id g =
     rbind (aget (Picture_Parameters_Set_Array g) pps_id) (\<lambda>pps.
     rbind (aget (Sequence_Parameters_Set_Array g) (pps_seq_parameter_set_id pps)) (\<lambda>sps.
     Inr (g\<lparr>active_pps := Some (nat pps_id), active_sps := Some (nat (pps_seq_parameter_set_id pps))\<rparr>)))"

end
