(* ===== verification/H264_Header.thy ===== *)
theory H264_Header
  imports H264_Parset
begin

text \<open>
  H264Analysis's \<open>header.h\<close> and \<open>header.c\<close>: the slice header, with the reference picture list modification,
  the prediction weight table and the reference picture marking. The pointers of \<open>rplm_t\<close> are the blocks they
  own, or NULL.
\<close>

section \<open>Data\<close>

text \<open>\<open>Slice_Type\<close> of \<open>slice.h\<close>, by value.\<close>

definition Slice_Type_P :: int where "Slice_Type_P = 0"
definition Slice_Type_B :: int where "Slice_Type_B = 1"
definition Slice_Type_I :: int where "Slice_Type_I = 2"
definition Slice_Type_SP :: int where "Slice_Type_SP = 3"
definition Slice_Type_SI :: int where "Slice_Type_SI = 4"

record dec_ref_pic_marking_t =
  no_output_of_prior_pics_flag :: int
  long_term_reference_flag :: int
  adaptive_ref_pic_marking_mode_flag :: int
  memory_management_control_operation :: "int list"
  difference_of_pic_nums_minus1 :: "int list"
  long_term_pic_num :: "int list"
  long_term_frame_idx :: "int list"
  max_long_term_frame_idx_plus1 :: "int list"

record pred_weight_table_t =
  luma_log2_weight_denom :: int
  chroma_log2_weight_denom :: int
  luma_weight_l0_flag :: int
  luma_weight_l0 :: "int list"
  luma_offset_l0 :: "int list"
  chroma_weight_l0_flag :: int
  chroma_weight_l0 :: "int list list"
  chroma_offset_l0 :: "int list list"
  luma_weight_l1_flag :: int
  luma_weight_l1 :: "int list"
  luma_offset_l1 :: "int list"
  chroma_weight_l1_flag :: int
  chroma_weight_l1 :: "int list list"
  chroma_offset_l1 :: "int list list"

record rplm_t =
  ref_pic_list_modification_flag_l0 :: int
  modification_of_pic_nums_idc_lo :: "int list option"
  abs_diff_pic_num_minus1_lo :: "int list option"
  long_term_pic_num_lo :: "int list option"
  ref_pic_list_modification_flag_l1 :: int
  modification_of_pic_nums_idc_l1 :: "int list option"
  abs_diff_pic_num_minus1_l1 :: "int list option"
  long_term_pic_num_l1 :: "int list option"

record slice_header_t =
  first_mb_in_slice :: int
  slice_type :: int
  sh_pic_parameter_set_id :: int
  colour_plane_id :: int
  frame_num :: int
  field_pic_flag :: int
  bottom_field_flag :: int
  idr_pic_id :: int
  pic_order_cnt_lsb :: int
  delta_pic_order_cnt_bottom :: int
  delta_pic_order_cnt :: "int list"
  redundant_pic_cnt :: int
  direct_spatial_mv_pred_flag :: int
  num_ref_idx_active_override_flag :: int
  num_ref_idx_l0_active_minus1 :: int
  num_ref_idx_l1_active_minus1 :: int
  ref_pic_list_modification :: rplm_t
  pred_weight_table :: pred_weight_table_t
  dec_ref_pic_marking :: dec_ref_pic_marking_t
  cabac_init_idc :: int
  slice_qp_delta :: int
  sp_for_switch_flag :: int
  slice_qs_delta :: int
  disable_deblocking_filter_idc :: int
  slice_alpha_c0_offset_div2 :: int
  slice_beta_offset_div2 :: int
  slice_group_change_cycle :: int

record slice_t =
  idr_flag :: int
  slice_nal_ref_idc :: int
  slice_header :: slice_header_t

text \<open>The zeroed structure of \<open>allocSlice\<close> (\<open>slice.c\<close>).\<close>

definition marking_zero :: dec_ref_pic_marking_t where
  "marking_zero = \<lparr>no_output_of_prior_pics_flag = 0, long_term_reference_flag = 0,
     adaptive_ref_pic_marking_mode_flag = 0, memory_management_control_operation = replicate 64 0,
     difference_of_pic_nums_minus1 = replicate 64 0, long_term_pic_num = replicate 64 0,
     long_term_frame_idx = replicate 64 0, max_long_term_frame_idx_plus1 = replicate 64 0\<rparr>"

definition weights_zero :: pred_weight_table_t where
  "weights_zero = \<lparr>luma_log2_weight_denom = 0, chroma_log2_weight_denom = 0,
     luma_weight_l0_flag = 0, luma_weight_l0 = replicate 32 0, luma_offset_l0 = replicate 32 0,
     chroma_weight_l0_flag = 0, chroma_weight_l0 = replicate 32 [0, 0], chroma_offset_l0 = replicate 32 [0, 0],
     luma_weight_l1_flag = 0, luma_weight_l1 = replicate 32 0, luma_offset_l1 = replicate 32 0,
     chroma_weight_l1_flag = 0, chroma_weight_l1 = replicate 32 [0, 0], chroma_offset_l1 = replicate 32 [0, 0]\<rparr>"

definition rplm_zero :: rplm_t where
  "rplm_zero = \<lparr>ref_pic_list_modification_flag_l0 = 0, modification_of_pic_nums_idc_lo = None,
     abs_diff_pic_num_minus1_lo = None, long_term_pic_num_lo = None, ref_pic_list_modification_flag_l1 = 0,
     modification_of_pic_nums_idc_l1 = None, abs_diff_pic_num_minus1_l1 = None, long_term_pic_num_l1 = None\<rparr>"

definition header_zero :: slice_header_t where
  "header_zero = \<lparr>first_mb_in_slice = 0, slice_type = 0, sh_pic_parameter_set_id = 0, colour_plane_id = 0,
     frame_num = 0, field_pic_flag = 0, bottom_field_flag = 0, idr_pic_id = 0, pic_order_cnt_lsb = 0,
     delta_pic_order_cnt_bottom = 0, delta_pic_order_cnt = [0, 0], redundant_pic_cnt = 0,
     direct_spatial_mv_pred_flag = 0, num_ref_idx_active_override_flag = 0, num_ref_idx_l0_active_minus1 = 0,
     num_ref_idx_l1_active_minus1 = 0, ref_pic_list_modification = rplm_zero, pred_weight_table = weights_zero,
     dec_ref_pic_marking = marking_zero, cabac_init_idc = 0, slice_qp_delta = 0, sp_for_switch_flag = 0,
     slice_qs_delta = 0, disable_deblocking_filter_idc = 0, slice_alpha_c0_offset_div2 = 0,
     slice_beta_offset_div2 = 0, slice_group_change_cycle = 0\<rparr>"

definition sizeof_slice_t :: nat where "sizeof_slice_t = 3032"

definition allocSlice :: "(nat \<Rightarrow> bool) \<Rightarrow> slice_t cres" where
  "allocSlice calloc_ok =
     (if calloc_ok sizeof_slice_t
      then Inr \<lparr>idr_flag = 0, slice_nal_ref_idc = 0, slice_header = header_zero\<rparr>
      else Inl (C_Exit ''Alloc PPS Error''))"

section \<open>Logarithm\<close>

text \<open>The loop of \<open>calculateCeilLog2\<close>.\<close>

function ceil_loop :: "u32 \<Rightarrow> u32 \<Rightarrow> u32" where
  "ceil_loop tmpVal ret = (if tmpVal \<noteq> 0 then ceil_loop (drop_bit 1 tmpVal) (ret + 1) else ret)"
  by pat_completeness auto
termination
  by (relation "measure (\<lambda>(t, r). unat t)") (auto simp: drop_bit_eq_div unat_div unat_gt_0)

declare ceil_loop.simps [simp del]

definition calculateCeilLog2 :: "u32 \<Rightarrow> u32" where
  "calculateCeilLog2 inputVal = ceil_loop (inputVal - 1) 0"

section \<open>Reference picture list modification\<close>

text \<open>One list: \<open>size\<close> entries in each of the three arrays.\<close>

definition calloc_lists :: "(nat \<Rightarrow> bool) \<Rightarrow> int \<Rightarrow> string \<Rightarrow> int list cres" where
  "calloc_lists calloc_ok num_minus1 msg =
     rbind (c_int (num_minus1 + 1)) (\<lambda>size.
     if size \<ge> 0 \<and> calloc_ok (4 * nat size) then Inr (replicate (nat size) 0) else Inl (C_Exit msg))"

definition alloc_ref_pic_list_modification_buffer :: "(nat \<Rightarrow> bool) \<Rightarrow> slice_header_t \<Rightarrow> slice_header_t cres" where
  "alloc_ref_pic_list_modification_buffer calloc_ok h =
     rbind
       (if slice_type h \<noteq> Slice_Type_I \<and> slice_type h \<noteq> Slice_Type_SI then
          rbind (calloc_lists calloc_ok (num_ref_idx_l0_active_minus1 h) ''Alloc ref_pic_list_modification_lo Error'')
            (\<lambda>a. Inr (Some a))
        else Inr None) (\<lambda>lo.
     rbind
       (if slice_type h = Slice_Type_B then
          rbind (calloc_lists calloc_ok (num_ref_idx_l1_active_minus1 h) ''Alloc ref_pic_list_modification_l1 Error'')
            (\<lambda>a. Inr (Some a))
        else Inr None) (\<lambda>l1.
     Inr (h\<lparr>ref_pic_list_modification := (ref_pic_list_modification h)\<lparr>
       modification_of_pic_nums_idc_lo := lo, abs_diff_pic_num_minus1_lo := lo, long_term_pic_num_lo := lo,
       modification_of_pic_nums_idc_l1 := l1, abs_diff_pic_num_minus1_l1 := l1, long_term_pic_num_l1 := l1\<rparr>\<rparr>)))"

text \<open>The do loop; the store of an entry fails once \<open>i\<close> leaves the array, so the recursion ends.\<close>

lemma aset_Inr: "aset xs i v = Inr ys \<Longrightarrow> 0 \<le> i \<and> nat i < length xs \<and> ys = xs[nat i := v]"
  by (simp add: aset_def split: if_splits)

function rplm_loop ::
    "int \<Rightarrow> int list \<Rightarrow> int list \<Rightarrow> int list \<Rightarrow> bs_t \<Rightarrow> (int list \<times> int list \<times> int list \<times> bs_t) cres" where
  "rplm_loop i idc diff long b =
     rbind (rd_ue b) (\<lambda>(val, b).
     rbind (aset idc i val) (\<lambda>idc.
     rbind
       (if val = 0 \<or> val = 1 then
          rbind (rd_ue b) (\<lambda>(v, b). rbind (aset diff i v) (\<lambda>diff. Inr (diff, long, b)))
        else if val = 2 then
          rbind (rd_ue b) (\<lambda>(v, b). rbind (aset long i v) (\<lambda>long. Inr (diff, long, b)))
        else Inr (diff, long, b)) (\<lambda>(diff, long, b).
     if val \<noteq> 3 then rplm_loop (i + 1) idc diff long b else Inr (idc, diff, long, b))))"
  by pat_completeness auto
termination
  by (relation "measure (\<lambda>(i, idc, diff, long, b). nat (int (length idc) - i))") (auto dest!: aset_Inr)

declare rplm_loop.simps [simp del]

definition rplm_list_lo :: "rplm_t syn" where
  "rplm_list_lo = (\<lambda>(r, b).
     rbind (deref (modification_of_pic_nums_idc_lo r)) (\<lambda>idc.
     rbind (deref (abs_diff_pic_num_minus1_lo r)) (\<lambda>diff.
     rbind (deref (long_term_pic_num_lo r)) (\<lambda>long.
     rbind (rplm_loop 0 idc diff long b) (\<lambda>(idc, diff, long, b).
     Inr (r\<lparr>modification_of_pic_nums_idc_lo := Some idc, abs_diff_pic_num_minus1_lo := Some diff,
            long_term_pic_num_lo := Some long\<rparr>, b))))))"

definition rplm_list_l1 :: "rplm_t syn" where
  "rplm_list_l1 = (\<lambda>(r, b).
     rbind (deref (modification_of_pic_nums_idc_l1 r)) (\<lambda>idc.
     rbind (deref (abs_diff_pic_num_minus1_l1 r)) (\<lambda>diff.
     rbind (deref (long_term_pic_num_l1 r)) (\<lambda>long.
     rbind (rplm_loop 0 idc diff long b) (\<lambda>(idc, diff, long, b).
     Inr (r\<lparr>modification_of_pic_nums_idc_l1 := Some idc, abs_diff_pic_num_minus1_l1 := Some diff,
            long_term_pic_num_l1 := Some long\<rparr>, b))))))"

definition parse_ref_pic_list_modification :: "(nat \<Rightarrow> bool) \<Rightarrow> slice_header_t syn" where
  "parse_ref_pic_list_modification calloc_ok = seqs [
    put_at (alloc_ref_pic_list_modification_buffer calloc_ok),
    on (\<lambda>h. sub ref_pic_list_modification (\<lambda>r h. h\<lparr>ref_pic_list_modification := r\<rparr>) (seqs [
      cond (\<lambda>s. slice_type h \<noteq> Slice_Type_I \<and> slice_type h \<noteq> Slice_Type_SI)
       [get (rd_u 1) (\<lambda>v s. s\<lparr>ref_pic_list_modification_flag_l0 := v\<rparr>),
        cond (\<lambda>s. ref_pic_list_modification_flag_l0 s \<noteq> 0)
           [rplm_list_lo]
           []]
       [],
      cond (\<lambda>s. slice_type h = Slice_Type_B)
       [get (rd_u 1) (\<lambda>v s. s\<lparr>ref_pic_list_modification_flag_l1 := v\<rparr>),
        cond (\<lambda>s. ref_pic_list_modification_flag_l1 s \<noteq> 0)
           [rplm_list_l1]
           []]
       []]))]"

section \<open>Prediction weights\<close>

text \<open>\<open>1 << d\<close> in \<open>int\<close>.\<close>

definition c_shl1 :: "int \<Rightarrow> int cres" where
  "c_shl1 d = (if 0 \<le> d \<and> d < 31 then Inr (2 ^ nat d) else Inl C_Fault)"

definition weights_l0 :: "int \<Rightarrow> int \<Rightarrow> pred_weight_table_t syn" where
  "weights_l0 chroma_format i = seqs [
    get (rd_u 1) (\<lambda>v s. s\<lparr>luma_weight_l0_flag := v\<rparr>),
    cond (\<lambda>s. luma_weight_l0_flag s \<noteq> 0)
     [get_at rd_se (into luma_weight_l0 luma_weight_l0_update i),
      get_at rd_se (into luma_offset_l0 luma_offset_l0_update i)]
     [put_at (\<lambda>s. rbind (c_shl1 (luma_log2_weight_denom s)) (\<lambda>v. into luma_weight_l0 luma_weight_l0_update i v s)),
      put_at (into luma_offset_l0 luma_offset_l0_update i 0)],
    cond (\<lambda>s. chroma_format \<noteq> 0)
     [get (rd_u 1) (\<lambda>v s. s\<lparr>chroma_weight_l0_flag := v\<rparr>),
      for_less (\<lambda>s. 2) (\<lambda>j.
        cond (\<lambda>s. chroma_weight_l0_flag s \<noteq> 0)
         [get_at rd_se (into2 chroma_weight_l0 chroma_weight_l0_update i j),
          get_at rd_se (into2 chroma_offset_l0 chroma_offset_l0_update i j)]
         [put_at (\<lambda>s. rbind (c_shl1 (chroma_log2_weight_denom s)) (\<lambda>v. into2 chroma_weight_l0 chroma_weight_l0_update i j v s)),
          put_at (into2 chroma_offset_l0 chroma_offset_l0_update i j 0)])]
     []]"

definition weights_l1 :: "int \<Rightarrow> int \<Rightarrow> pred_weight_table_t syn" where
  "weights_l1 chroma_format i = seqs [
    get (rd_u 1) (\<lambda>v s. s\<lparr>luma_weight_l1_flag := v\<rparr>),
    cond (\<lambda>s. luma_weight_l1_flag s \<noteq> 0)
     [get_at rd_se (into luma_weight_l1 luma_weight_l1_update i),
      get_at rd_se (into luma_offset_l1 luma_offset_l1_update i)]
     [put_at (\<lambda>s. rbind (c_shl1 (luma_log2_weight_denom s)) (\<lambda>v. into luma_weight_l1 luma_weight_l1_update i v s)),
      put_at (into luma_offset_l1 luma_offset_l1_update i 0)],
    cond (\<lambda>s. chroma_format \<noteq> 0)
     [get (rd_u 1) (\<lambda>v s. s\<lparr>chroma_weight_l1_flag := v\<rparr>),
      for_less (\<lambda>s. 2) (\<lambda>j.
        cond (\<lambda>s. chroma_weight_l1_flag s \<noteq> 0)
         [get_at rd_se (into2 chroma_weight_l1 chroma_weight_l1_update i j),
          get_at rd_se (into2 chroma_offset_l1 chroma_offset_l1_update i j)]
         [put_at (\<lambda>s. rbind (c_shl1 (chroma_log2_weight_denom s)) (\<lambda>v. into2 chroma_weight_l1 chroma_weight_l1_update i j v s)),
          put_at (into2 chroma_offset_l1 chroma_offset_l1_update i j 0)])]
     []]"

definition parse_pred_weight_table :: "sps_t \<Rightarrow> slice_header_t syn" where
  "parse_pred_weight_table sps = on (\<lambda>h. sub pred_weight_table (\<lambda>t h. h\<lparr>pred_weight_table := t\<rparr>) (seqs [
    get rd_ue (\<lambda>v s. s\<lparr>luma_log2_weight_denom := v\<rparr>),
    cond (\<lambda>s. chroma_format_idc sps \<noteq> 0) [get rd_ue (\<lambda>v s. s\<lparr>chroma_log2_weight_denom := v\<rparr>)] [],
    for_less (\<lambda>s. num_ref_idx_l0_active_minus1 h + 1) (weights_l0 (chroma_format_idc sps)),
    cond (\<lambda>s. slice_type h = Slice_Type_B)
      [for_less (\<lambda>s. num_ref_idx_l1_active_minus1 h + 1) (weights_l1 (chroma_format_idc sps))] []]))"

section \<open>Reference picture marking\<close>

text \<open>The operands of an operation, and the do loop over the operations.\<close>

definition marking_operands :: "int \<Rightarrow> int \<Rightarrow> dec_ref_pic_marking_t syn" where
  "marking_operands val i = seqs [
    cond (\<lambda>s. val = 1 \<or> val = 3)
     [get_at rd_ue (into difference_of_pic_nums_minus1 difference_of_pic_nums_minus1_update i)]
     [],
    cond (\<lambda>s. val = 2)
     [get_at rd_ue (into long_term_pic_num long_term_pic_num_update i)]
     [],
    cond (\<lambda>s. val = 3 \<or> val = 6)
     [get_at rd_ue (into long_term_frame_idx long_term_frame_idx_update i)]
     [],
    cond (\<lambda>s. val = 4)
     [get_at rd_ue (into max_long_term_frame_idx_plus1 max_long_term_frame_idx_plus1_update i)]
     []]"

lemma optional_operand:
  assumes "cond (\<lambda>s. P) [get_at r (into f upd i)] [] (d, b) = Inr (d', b')"
  shows "d' = d \<or> (\<exists>a. d' = upd (\<lambda>_. a) d)"
  using assms by (auto simp: cond_def get_at_def into_def res_simps split: if_splits)

lemma marking_operands_ops:
  assumes "marking_operands val i (d, b) = Inr (d', b')"
  shows "memory_management_control_operation d' = memory_management_control_operation d"
  using assms unfolding marking_operands_def seqs.simps rbind_eq_Inr
  by (auto dest!: optional_operand)

function marking_loop :: "int \<Rightarrow> dec_ref_pic_marking_t \<times> bs_t \<Rightarrow> (dec_ref_pic_marking_t \<times> bs_t) cres" where
  "marking_loop i (d, b) =
     rbind (rd_ue b) (\<lambda>(val, b).
     rbind (into memory_management_control_operation memory_management_control_operation_update i val d) (\<lambda>d.
     rbind (marking_operands val i (d, b)) (\<lambda>(d, b).
     if val \<noteq> 0 then marking_loop (i + 1) (d, b) else Inr (d, b))))"
  by pat_completeness auto
termination
  by (relation "measure (\<lambda>(i, d, b). nat (int (length (memory_management_control_operation d)) - i))")
    (auto simp: into_def res_simps dest!: aset_Inr marking_operands_ops)

declare marking_loop.simps [simp del]

definition parse_dec_ref_pic_marking :: "int \<Rightarrow> slice_header_t syn" where
  "parse_dec_ref_pic_marking idr = sub dec_ref_pic_marking (\<lambda>d h. h\<lparr>dec_ref_pic_marking := d\<rparr>) (seqs [
    cond (\<lambda>s. idr \<noteq> 0)
     [get (rd_u 1) (\<lambda>v s. s\<lparr>no_output_of_prior_pics_flag := v\<rparr>),
      get (rd_u 1) (\<lambda>v s. s\<lparr>long_term_reference_flag := v\<rparr>)]
     [get (rd_u 1) (\<lambda>v s. s\<lparr>adaptive_ref_pic_marking_mode_flag := v\<rparr>),
      cond (\<lambda>s. adaptive_ref_pic_marking_mode_flag s \<noteq> 0)
         [marking_loop 0]
         []]])"

section \<open>The header\<close>

definition parse_first_three_element :: "slice_header_t syn" where
  "parse_first_three_element = seqs [
    get rd_ue (\<lambda>v s. s\<lparr>first_mb_in_slice := v\<rparr>),
    get rd_ue (\<lambda>v s. s\<lparr>slice_type := (if v > 4 then v - 5 else v)\<rparr>),
    get rd_ue (\<lambda>v s. s\<lparr>sh_pic_parameter_set_id := v\<rparr>)]"

text \<open>The number of bits of \<open>slice_group_change_cycle\<close>.\<close>

definition slice_group_cycle_bits :: "sps_t \<Rightarrow> pps_t \<Rightarrow> int cres" where
  "slice_group_cycle_bits sps pps =
     rbind (c_int (pic_width_in_mbs_minus1 sps + 1)) (\<lambda>w.
     rbind (c_int (pic_height_in_map_units_minus1 sps + 1)) (\<lambda>h.
     rbind (c_int (w * h)) (\<lambda>size.
     rbind (c_int (slice_group_change_rate_minus1 pps + 1)) (\<lambda>rate.
     if rate = 0 then Inl C_Fault
     else
       rbind (c_int (size sdiv rate)) (\<lambda>bit_len.
       rbind (if size smod rate \<noteq> 0 then c_int (bit_len + 1) else Inr bit_len) (\<lambda>bit_len.
       rbind (c_int (bit_len + 1)) (\<lambda>n.
       Inr (sint (calculateCeilLog2 (word_of_int n))))))))))"

text \<open>The start of the header, up to the number of reference pictures, and the end of it.\<close>

definition parse_header_order :: "sps_t \<Rightarrow> pps_t \<Rightarrow> int \<Rightarrow> slice_header_t syn" where
  "parse_header_order sps pps idr = seqs [
    cond (\<lambda>s. separate_colour_plane_flag sps = 1)
     [get (rd_u 2) (\<lambda>v s. s\<lparr>colour_plane_id := v\<rparr>)]
     [put (\<lambda>s. s\<lparr>colour_plane_id := COLOR_PLANE_Y\<rparr>)],
    get (rd_u (log2_max_frame_num_minus4 sps + 4)) (\<lambda>v s. s\<lparr>frame_num := v\<rparr>),
    cond (\<lambda>s. frame_mbs_only_flag sps \<noteq> 0)
     [put (\<lambda>s. s\<lparr>field_pic_flag := 0\<rparr>)]
     [get (rd_u 1) (\<lambda>v s. s\<lparr>field_pic_flag := v\<rparr>),
      cond (\<lambda>s. field_pic_flag s \<noteq> 0)
         [get (rd_u 1) (\<lambda>v s. s\<lparr>bottom_field_flag := v\<rparr>)]
         [put (\<lambda>s. s\<lparr>bottom_field_flag := 0\<rparr>)]],
    cond (\<lambda>s. idr \<noteq> 0)
     [get rd_ue (\<lambda>v s. s\<lparr>idr_pic_id := v\<rparr>)]
     [],
    cond (\<lambda>s. pic_order_cnt_type sps = 0)
     [get (rd_u (log2_max_pic_order_cnt_lsb_minus4 sps + 4)) (\<lambda>v s. s\<lparr>pic_order_cnt_lsb := v\<rparr>),
      cond (\<lambda>s. bottom_field_pic_order_in_frame_present_flag pps \<noteq> 0 \<and> field_pic_flag s = 0)
         [get rd_se (\<lambda>v s. s\<lparr>delta_pic_order_cnt_bottom := v\<rparr>)]
         [put (\<lambda>s. s\<lparr>delta_pic_order_cnt_bottom := 0\<rparr>)]]
     [],
    cond (\<lambda>s. pic_order_cnt_type sps = 1 \<and> delta_pic_order_always_zero_flag sps = 0)
     [get_at rd_se (into delta_pic_order_cnt delta_pic_order_cnt_update 0),
      cond (\<lambda>s. bottom_field_pic_order_in_frame_present_flag pps \<noteq> 0 \<and> field_pic_flag s = 0)
         [get_at rd_se (into delta_pic_order_cnt delta_pic_order_cnt_update 1)]
         [put_at (into delta_pic_order_cnt delta_pic_order_cnt_update 1 0)]]
     [cond (\<lambda>s. pic_order_cnt_type sps = 1)
         [put_at (into delta_pic_order_cnt delta_pic_order_cnt_update 0 0),
          put_at (into delta_pic_order_cnt delta_pic_order_cnt_update 1 0)]
         []],
    cond (\<lambda>s. redundant_pic_cnt_present_flag pps \<noteq> 0)
     [get rd_ue (\<lambda>v s. s\<lparr>redundant_pic_cnt := v\<rparr>)]
     [],
    cond (\<lambda>s. slice_type s = Slice_Type_B)
     [get (rd_u 1) (\<lambda>v s. s\<lparr>direct_spatial_mv_pred_flag := v\<rparr>)]
     [],
    cond (\<lambda>s. slice_type s = Slice_Type_P \<or> slice_type s = Slice_Type_SP \<or> slice_type s = Slice_Type_B)
     [get (rd_u 1) (\<lambda>v s. s\<lparr>num_ref_idx_active_override_flag := v\<rparr>),
      cond (\<lambda>s. num_ref_idx_active_override_flag s \<noteq> 0)
         [get rd_ue (\<lambda>v s. s\<lparr>num_ref_idx_l0_active_minus1 := v\<rparr>),
          cond (\<lambda>s. slice_type s = Slice_Type_B)
             [get rd_ue (\<lambda>v s. s\<lparr>num_ref_idx_l1_active_minus1 := v\<rparr>)]
             []]
         []]
     []]"

definition parse_header_tail :: "sps_t \<Rightarrow> pps_t \<Rightarrow> slice_header_t syn" where
  "parse_header_tail sps pps = seqs [
    cond (\<lambda>s. entropy_coding_mode_flag pps \<noteq> 0 \<and> slice_type s \<noteq> Slice_Type_I \<and> slice_type s \<noteq> Slice_Type_SI)
     [get rd_ue (\<lambda>v s. s\<lparr>cabac_init_idc := v\<rparr>)]
     [put (\<lambda>s. s\<lparr>cabac_init_idc := 0\<rparr>)],
    get rd_se (\<lambda>v s. s\<lparr>slice_qp_delta := v\<rparr>),
    cond (\<lambda>s. slice_type s = Slice_Type_SP \<or> slice_type s = Slice_Type_SI)
     [cond (\<lambda>s. slice_type s = Slice_Type_SP)
         [get (rd_u 1) (\<lambda>v s. s\<lparr>sp_for_switch_flag := v\<rparr>)]
         [],
      get rd_se (\<lambda>v s. s\<lparr>slice_qs_delta := v\<rparr>)]
     [],
    cond (\<lambda>s. deblocking_filter_control_present_flag pps \<noteq> 0)
     [get rd_ue (\<lambda>v s. s\<lparr>disable_deblocking_filter_idc := v\<rparr>),
      cond (\<lambda>s. disable_deblocking_filter_idc s \<noteq> 1)
         [get rd_se (\<lambda>v s. s\<lparr>slice_alpha_c0_offset_div2 := v\<rparr>),
          get rd_se (\<lambda>v s. s\<lparr>slice_beta_offset_div2 := v\<rparr>)]
         [put (\<lambda>s. s\<lparr>slice_alpha_c0_offset_div2 := 0\<rparr>),
          put (\<lambda>s. s\<lparr>slice_beta_offset_div2 := 0\<rparr>)]]
     [put (\<lambda>s. s\<lparr>disable_deblocking_filter_idc := 0\<rparr>),
      put (\<lambda>s. s\<lparr>slice_alpha_c0_offset_div2 := 0\<rparr>),
      put (\<lambda>s. s\<lparr>slice_beta_offset_div2 := 0\<rparr>)],
    cond (\<lambda>s. num_slice_groups_minus1 pps > 0 \<and> slice_group_map_type pps \<ge> 3 \<and> slice_group_map_type pps \<le> 5)
     [(\<lambda>x. rbind (slice_group_cycle_bits sps pps) (\<lambda>bit_len.
        get (rd_u bit_len) (\<lambda>v s. s\<lparr>slice_group_change_cycle := v\<rparr>) x))]
     []]"

definition parse_rest_elememt_of_sliceHeader :: "(nat \<Rightarrow> bool) \<Rightarrow> sps_t \<Rightarrow> pps_t \<Rightarrow> int \<Rightarrow> int \<Rightarrow> slice_header_t syn" where
  "parse_rest_elememt_of_sliceHeader calloc_ok sps pps idr ref_idc = seqs [
    parse_header_order sps pps idr,
    parse_ref_pic_list_modification calloc_ok,
    cond (\<lambda>s. (weighted_pred_flag pps \<noteq> 0 \<and> (slice_type s = Slice_Type_P \<or> slice_type s = Slice_Type_SP)) \<or>
        (weighted_bipred_idc pps = 1 \<and> slice_type s = Slice_Type_B))
     [parse_pred_weight_table sps]
     [],
    cond (\<lambda>s. ref_idc \<noteq> 0)
     [parse_dec_ref_pic_marking idr]
     [],
    parse_header_tail sps pps]"

definition processSliceHeader ::
    "(nat \<Rightarrow> bool) \<Rightarrow> bs_t \<Rightarrow> slice_t \<Rightarrow> h264_globals \<Rightarrow> (bs_t \<times> slice_t \<times> h264_globals) cres" where
  "processSliceHeader calloc_ok b currentSlice g =
     rbind (parse_first_three_element (slice_header currentSlice, b)) (\<lambda>(h, b).
     rbind (activeParameterSet (sh_pic_parameter_set_id h) g) (\<lambda>g.
     rbind (rbind (deref (active_sps g)) (\<lambda>i. aget (Sequence_Parameters_Set_Array g) (int i))) (\<lambda>sps.
     rbind (rbind (deref (active_pps g)) (\<lambda>i. aget (Picture_Parameters_Set_Array g) (int i))) (\<lambda>pps.
     rbind (parse_rest_elememt_of_sliceHeader calloc_ok sps pps
       (idr_flag currentSlice) (slice_nal_ref_idc currentSlice) (h, b)) (\<lambda>(h, b).
     Inr (b, currentSlice\<lparr>slice_header := h\<rparr>, g))))))"

end
