(* ===== verification/H264_Decode.thy ===== *)
theory H264_Decode
  imports H264_Header
begin

text \<open>
  The dispatch on a unit's type (\<open>read_nal_unit\<close> of \<open>nalu.c\<close>), \<open>slice.c\<close>, the file buffer of \<open>stream.c\<close>
  and the main loop of \<open>decode.c\<close>. The trace file and the messages on standard output are left out, except
  the line that the main loop prints for each unit, which is a value of the model.
\<close>

section \<open>Definitions\<close>

definition H264_NAL_SLICE :: int where "H264_NAL_SLICE = 1"
definition H264_NAL_DPA :: int where "H264_NAL_DPA = 2"
definition H264_NAL_DPB :: int where "H264_NAL_DPB = 3"
definition H264_NAL_DPC :: int where "H264_NAL_DPC = 4"
definition H264_NAL_IDR_SLICE :: int where "H264_NAL_IDR_SLICE = 5"
definition H264_NAL_SPS :: int where "H264_NAL_SPS = 7"
definition H264_NAL_PPS :: int where "H264_NAL_PPS = 8"

definition processSlice ::
    "(nat \<Rightarrow> bool) \<Rightarrow> bs_t \<Rightarrow> slice_t \<Rightarrow> h264_globals \<Rightarrow> (bs_t \<times> slice_t \<times> h264_globals) cres" where
  "processSlice calloc_ok b currentSlice g = processSliceHeader calloc_ok b currentSlice g"

text \<open>The header byte of a unit.\<close>

definition read_nal_header :: "nalu_t syn" where
  "read_nal_header = seqs [
    get (rd_u 1) (\<lambda>v u. u\<lparr>forbidden_zero_bit := v\<rparr>),
    get (rd_u 2) (\<lambda>v u. u\<lparr>nal_ref_idc := v\<rparr>),
    get (rd_u 5) (\<lambda>v u. u\<lparr>nal_unit_type := v\<rparr>)]"

definition set_sodb_len :: "nalu_t \<Rightarrow> nalu_t cres" where
  "set_sodb_len u = rbind (rbsp_to_sodb u) (\<lambda>n. Inr (u\<lparr>nal_len := n\<rparr>))"

definition sizeof_bs_t :: nat where "sizeof_bs_t = 32"

definition dispatch_nal ::
    "(nat \<Rightarrow> bool) \<Rightarrow> nalu_t \<Rightarrow> bs_t \<Rightarrow> h264_globals \<Rightarrow> (nalu_t \<times> h264_globals) cres" where
  "dispatch_nal calloc_ok u b g =
     (if nal_unit_type u = H264_NAL_SPS then
        rbind (set_sodb_len u) (\<lambda>u. rbind (processSPS calloc_ok b g) (\<lambda>(b, g). Inr (u, g)))
      else if nal_unit_type u = H264_NAL_PPS then
        rbind (set_sodb_len u) (\<lambda>u. rbind (processPPS calloc_ok b g) (\<lambda>(b, g). Inr (u, g)))
      else if nal_unit_type u = H264_NAL_SLICE \<or> nal_unit_type u = H264_NAL_IDR_SLICE then
        rbind (allocSlice calloc_ok) (\<lambda>currentSlice.
        let currentSlice = currentSlice\<lparr>
              idr_flag := of_bool (nal_unit_type u = H264_NAL_IDR_SLICE), slice_nal_ref_idc := nal_ref_idc u\<rparr> in
        rbind (set_sodb_len u) (\<lambda>u.
        rbind (processSlice calloc_ok b currentSlice g) (\<lambda>(b, currentSlice, g). Inr (u, g))))
      else if nal_unit_type u = H264_NAL_DPA \<or> nal_unit_type u = H264_NAL_DPB \<or> nal_unit_type u = H264_NAL_DPC then
        rbind (set_sodb_len u) (\<lambda>u. Inr (u, g))
      else Inr (u, g))"

definition read_nal_unit :: "(nat \<Rightarrow> bool) \<Rightarrow> nalu_t \<Rightarrow> h264_globals \<Rightarrow> (nalu_t \<times> h264_globals) cres" where
  "read_nal_unit calloc_ok nalu g =
     rbind (nal_to_rbsp nalu) (\<lambda>(n, nalu).
     let nalu = nalu\<lparr>nal_len := n\<rparr> in
     rbind (bs_new (calloc_ok sizeof_bs_t) (nal_buf nalu) (nat (nal_len nalu))) (\<lambda>bs.
     rbind (read_nal_header (nalu, bs)) (\<lambda>(nalu, bs).
     dispatch_nal calloc_ok nalu bs g)))"

subsection \<open>The file buffer\<close>

definition MAX_BUFFER_SIZE :: nat where "MAX_BUFFER_SIZE = 50 * 1024 * 1024"

text \<open>
  \<open>file\<close> is the contents of the file, \<open>None\<close> when it cannot be opened; \<open>junk\<close> is what the fresh block
  holds. The result is the size and the buffer, \<open>None\<close> for NULL. A failed \<open>malloc\<close> is not noticed.
\<close>

definition readAnnexbBitStreamFile :: "(nat \<Rightarrow> bool) \<Rightarrow> bytes \<Rightarrow> bytes option \<Rightarrow> (int \<times> bytes option) cres" where
  "readAnnexbBitStreamFile malloc_ok junk file =
     (case file of
        None \<Rightarrow> Inr (- 1, None)
      | Some content \<Rightarrow>
          if \<not> malloc_ok MAX_BUFFER_SIZE then Inl C_Fault
          else
            let file_size = min (length content) MAX_BUFFER_SIZE in
            Inr (int file_size, Some (take file_size content @ drop file_size junk)))"

subsection \<open>The main loop\<close>

text \<open>What the loop prints of a unit: its number, \<open>curr_nal_start\<close>, \<open>curr_find_index\<close> and the difference.\<close>

type_synonym nal_line = "nat \<times> nat \<times> nat \<times> int"

section \<open>The loop advances\<close>

lemma find_start_bounds:
  "find_start m n i = Inr (found, j) \<Longrightarrow> i \<le> j"
proof (induction m n i arbitrary: found j rule: find_start.induct)
  case (1 m n i)
  obtain three found' where t: "bytes_at m i [0, 0, 1] = Inr three"
    "(if three then Inr True else bytes_at m i [0, 0, 0, 1]) = Inr found'"
    "(if found' then Inr (True, i) else if i + 1 + 3 > n then Inr (False, i + 1) else find_start m n (i + 1)) = Inr (found, j)"
    using 1(2) unfolding find_start.simps [of m n i] rbind_eq_Inr by blast
  show ?case
  proof (cases "found' \<or> i + 1 + 3 > n")
    case True
    then show ?thesis using t(3) by (auto split: if_splits)
  next
    case False
    then have "find_start m n (i + 1) = Inr (found, j)" using t(3) by simp
    then show ?thesis using 1(1) [OF t(1) t(2)] False by fastforce
  qed
qed

lemma copy_unit_bounds:
  "copy_unit m n start i j buf = Inr (i', len, buf') \<Longrightarrow> start \<le> i \<Longrightarrow> 0 < len \<Longrightarrow>
   i \<le> i' \<and> start < n \<or> i = i' \<and> len = int i - int start"
proof (induction m n start i j buf arbitrary: i' len buf' rule: copy_unit.induct)
  case (1 m n start i j buf)
  show ?case
  proof (cases "i' = i \<and> len = int i - int start")
    case False
    obtain zeros stop where z: "bytes_at m i [0, 0, 0] = Inr zeros"
      "(if zeros then Inr True else bytes_at m i [0, 0, 1]) = Inr stop"
      using 1(2) unfolding copy_unit.simps [of m n start i j buf] rbind_eq_Inr by blast
    have s: "\<not> stop" using False 1(2) z by (auto simp: copy_unit.simps [of m n start i j buf])
    obtain x buf1 where x: "nth_byte m i = Inr x" "set_byte buf j x = Inr buf1"
      using 1(2) z s unfolding copy_unit.simps [of m n start i j buf] by (auto simp: res_simps)
    show ?thesis
    proof (cases "i + 1 + 3 \<ge> n")
      case True
      then have "i' = i + 1 \<and> len = int n - int start"
        using 1(2) z s x by (auto simp: copy_unit.simps [of m n start i j buf] res_simps)
      then show ?thesis using 1(4) by simp
    next
      case False
      then have r: "copy_unit m n start (i + 1) (j + 1) buf1 = Inr (i', len, buf')"
        using 1(2) z s x by (simp add: copy_unit.simps [of m n start i j buf])
      show ?thesis using 1(1) [OF z s x False r] 1(3,4) False by auto
    qed
  qed simp
qed

lemma find_nal_unit_advances:
  assumes "find_nal_unit m u n s i = Inr (len, u', s', i')" and "0 < len"
  shows "i < i'" and "i < n"
proof -
  obtain found j where f: "find_start m n i = Inr (found, j)"
    using assms(1) unfolding find_nal_unit_def rbind_eq_Inr by auto
  have "found"
  proof (rule ccontr)
    assume "\<not> found"
    then show False using assms f by (simp add: find_nal_unit_def)
  qed
  then obtain three k len' buf' where c:
    "copy_unit m n ((if three then j else j + 1) + 3) ((if three then j else j + 1) + 3) 0 (nal_buf u) = Inr (k, len', buf')"
    and e: "len' = len" "i' = k"
    using assms(1) f by (auto simp: find_nal_unit_def res_simps Let_def)
  show "i < i'" "i < n"
    using copy_unit_bounds [OF c] find_start_bounds [OF f] assms(2) e by (auto split: if_splits)
qed

lemma find_nal_unit_less:
  "find_nal_unit m u n s i = Inr (len, u', s', i') \<Longrightarrow> 0 < len \<Longrightarrow> n - i' < n - i"
  using find_nal_unit_advances by (metis diff_less_mono2)

function decode_loop ::
    "(nat \<Rightarrow> bool) \<Rightarrow> bytes \<Rightarrow> nat \<Rightarrow> nalu_t \<Rightarrow> nat \<Rightarrow> nat \<Rightarrow> nat \<Rightarrow> h264_globals \<Rightarrow> nal_line list \<Rightarrow>
     (nal_line list \<times> h264_globals) cres" where
  "decode_loop calloc_ok file_buff buff_size nalu nalu_i curr_nal_start curr_find_index g out =
     rbind (find_nal_unit file_buff nalu buff_size curr_nal_start curr_find_index)
       (\<lambda>(len, nalu, curr_nal_start, curr_find_index).
     if len > 0 then
       rbind (read_nal_unit calloc_ok nalu g) (\<lambda>(nalu, g).
       decode_loop calloc_ok file_buff buff_size nalu (nalu_i + 1) curr_nal_start curr_find_index g
         (out @ [(nalu_i, curr_nal_start, curr_find_index, int curr_find_index - int curr_nal_start)]))
     else Inr (out, g))"
  by pat_completeness auto
termination
  by (relation "measure (\<lambda>(c, m, n, u, k, s, i, g, out). n - i)")
    (auto intro: find_nal_unit_less)

declare decode_loop.simps [simp del]

definition h264_start :: h264_globals where
  "h264_start = \<lparr>Sequence_Parameters_Set_Array = replicate 32 sps_zero,
     Picture_Parameters_Set_Array = replicate 256 pps_zero, active_sps = None, active_pps = None\<rparr>"

text \<open>
  The program after its check of \<open>argc\<close>. The size -1 of a file that cannot be opened is not checked: the
  search then reads through the NULL pointer.
\<close>

definition decode_main :: "(nat \<Rightarrow> bool) \<Rightarrow> bytes \<Rightarrow> bytes option \<Rightarrow> (nal_line list \<times> h264_globals) cres" where
  "decode_main malloc_ok junk file =
     rbind (readAnnexbBitStreamFile malloc_ok junk file) (\<lambda>(buff_size, file_buff).
     rbind (allocNalu malloc_ok MAX_NALU_SIZE) (\<lambda>nalu.
     rbind (deref file_buff) (\<lambda>file_buff.
     decode_loop malloc_ok file_buff (nat buff_size) nalu 0 0 0 h264_start [])))"

end
