(* ===== verification/H264_State.thy ===== *)
theory H264_State
  imports H264_Decode
begin

text \<open>
  The state of the decoder: whatever the bytes of the file are, the parsers keep the sizes of the arrays of
  the structures, and the arrays of received sets and the active pointers stay well formed.
\<close>

section \<open>Statements that keep a property of the structure\<close>

definition keeps :: "('s \<Rightarrow> bool) \<Rightarrow> 's syn \<Rightarrow> bool" where
  "keeps P st \<longleftrightarrow> (\<forall>s b s' b'. P s \<longrightarrow> st (s, b) = Inr (s', b') \<longrightarrow> P s')"

named_theorems keeps_rules \<open>rules for statements that keep a property\<close>

lemma keepsD: "keeps P st \<Longrightarrow> P s \<Longrightarrow> st (s, b) = Inr (s', b') \<Longrightarrow> P s'"
  unfolding keeps_def by blast

lemma keepsI: "(\<And>s b s' b'. P s \<Longrightarrow> st (s, b) = Inr (s', b') \<Longrightarrow> P s') \<Longrightarrow> keeps P st"
  unfolding keeps_def by blast

lemma keeps_get [keeps_rules]: "(\<And>v s. P s \<Longrightarrow> P (f v s)) \<Longrightarrow> keeps P (get r f)"
  by (rule keepsI) (auto simp: get_def res_simps)

lemma keeps_get_at [keeps_rules]: "(\<And>v s s'. P s \<Longrightarrow> f v s = Inr s' \<Longrightarrow> P s') \<Longrightarrow> keeps P (get_at r f)"
  by (rule keepsI) (auto simp: get_at_def res_simps)

lemma keeps_put [keeps_rules]: "(\<And>s. P s \<Longrightarrow> P (f s)) \<Longrightarrow> keeps P (put f)"
  by (rule keepsI) (auto simp: put_def)

lemma keeps_put_at [keeps_rules]: "(\<And>s s'. P s \<Longrightarrow> f s = Inr s' \<Longrightarrow> P s') \<Longrightarrow> keeps P (put_at f)"
  by (rule keepsI) (auto simp: put_at_def res_simps)

lemma keeps_on [keeps_rules]:
  assumes "\<And>s. P s \<Longrightarrow> keeps P (f s)"
  shows "keeps P (on f)"
proof (rule keepsI)
  fix s b s' b' assume p: "P s" and "on f (s, b) = Inr (s', b')"
  then have "f s (s, b) = Inr (s', b')" by (simp add: on_def)
  with p show "P s'" by (rule keepsD [OF assms [OF p]])
qed

lemma keeps_Nil [keeps_rules]: "keeps P (seqs [])"
  by (rule keepsI) simp

lemma keeps_Cons [keeps_rules]:
  assumes "keeps P st" and "keeps P (seqs sts)"
  shows "keeps P (seqs (st # sts))"
proof (rule keepsI)
  fix s b s' b' assume "P s" "seqs (st # sts) (s, b) = Inr (s', b')"
  moreover then obtain s1 b1 where "st (s, b) = Inr (s1, b1)" "seqs sts (s1, b1) = Inr (s', b')"
    by (auto simp: res_simps)
  ultimately show "P s'" using keepsD [OF assms(1)] keepsD [OF assms(2)] by blast
qed

lemma keeps_cond [keeps_rules]:
  assumes "keeps P (seqs ts)" and "keeps P (seqs es)"
  shows "keeps P (cond c ts es)"
proof (rule keepsI)
  fix s b s' b' assume p: "P s" and "cond c ts es (s, b) = Inr (s', b')"
  then have "seqs ts (s, b) = Inr (s', b') \<or> seqs es (s, b) = Inr (s', b')"
    by (simp add: cond_def split: if_splits)
  then show "P s'" using keepsD [OF assms(1) p] keepsD [OF assms(2) p] by blast
qed

lemma keeps_for_to:
  assumes "\<And>i. keeps P (body i)"
  shows "keeps P (for_to k i body)"
proof (induction k arbitrary: i)
  case 0
  show ?case by (rule keepsI) simp
next
  case (Suc k)
  show ?case
  proof (rule keepsI)
    fix s b s' b' assume "P s" "for_to (Suc k) i body (s, b) = Inr (s', b')"
    moreover then obtain s1 b1 where "body i (s, b) = Inr (s1, b1)" "for_to k (i + 1) body (s1, b1) = Inr (s', b')"
      by (auto simp: res_simps)
    ultimately show "P s'" using keepsD [OF assms] keepsD [OF Suc.IH] by blast
  qed
qed

lemma keeps_for_less [keeps_rules]:
  assumes "\<And>i. keeps P (body i)"
  shows "keeps P (for_less n body)"
proof (rule keepsI)
  fix s b s' b' assume p: "P s" and "for_less n body (s, b) = Inr (s', b')"
  then have "for_to (nat (n s)) 0 body (s, b) = Inr (s', b')" by (simp add: for_less_def)
  with p show "P s'" by (rule keepsD [OF keeps_for_to [of P body, OF assms]])
qed

lemma keeps_sub [keeps_rules]:
  assumes "keeps Q st" and "\<And>s. P s \<Longrightarrow> Q (member s)" and "\<And>s t. P s \<Longrightarrow> Q t \<Longrightarrow> P (upd t s)"
  shows "keeps P (sub member upd st)"
proof (rule keepsI)
  fix s b s' b' assume p: "P s" and "sub member upd st (s, b) = Inr (s', b')"
  then obtain t where "st (member s, b) = Inr (t, b')" "s' = upd t s" by (auto simp: sub_def res_simps)
  then show "P s'" using keepsD [OF assms(1) assms(2) [OF p]] assms(3) [OF p] by blast
qed

lemma keeps_if [keeps_rules]: "keeps P st1 \<Longrightarrow> keeps P st2 \<Longrightarrow> keeps P (if c then st1 else st2)"
  by simp

section \<open>The sizes of the arrays\<close>

definition rows_shape :: "nat \<Rightarrow> int list list \<Rightarrow> bool" where
  "rows_shape n rows \<longleftrightarrow> length rows = 6 \<and> (\<forall>row \<in> set rows. length row = n)"

definition hrd_shape :: "hrd_parameters_t \<Rightarrow> bool" where
  "hrd_shape t \<longleftrightarrow> length (bit_rate_value_minus1 t) = MAX_CPB_CNT \<and>
     length (cpb_size_value_minus1 t) = MAX_CPB_CNT \<and> length (cbr_flag t) = MAX_CPB_CNT"

definition vui_shape :: "vui_parameters_t \<Rightarrow> bool" where
  "vui_shape t \<longleftrightarrow> hrd_shape (nal_hrd_parameters t) \<and> hrd_shape (vcl_hrd_parameters t)"

definition sps_shape :: "sps_t \<Rightarrow> bool" where
  "sps_shape t \<longleftrightarrow> length (seq_scaling_list_present_flag t) = 12 \<and>
     rows_shape 16 (ScalingList4x4 t) \<and> length (UseDefaultScalingMatrix4x4Flag t) = 6 \<and>
     rows_shape 64 (ScalingList8x8 t) \<and> length (UseDefaultScalingMatrix8x8Flag t) = 6 \<and>
     length (offset_for_ref_frame t) = 256 \<and> vui_shape (vui_parameters t)"

definition pps_shape :: "pps_t \<Rightarrow> bool" where
  "pps_shape t \<longleftrightarrow> length (run_length_minus1 t) = 8 \<and> length (top_left t) = 8 \<and> length (bottom_right t) = 8 \<and>
     length (pic_scaling_list_present_flag t) = 12 \<and>
     rows_shape 16 (pps_ScalingList4x4 t) \<and> length (pps_UseDefaultScalingMatrix4x4Flag t) = 6 \<and>
     rows_shape 64 (pps_ScalingList8x8 t) \<and> length (pps_UseDefaultScalingMatrix8x8Flag t) = 6"

lemma aset_length: "aset xs i v = Inr ys \<Longrightarrow> length ys = length xs"
  by (auto simp: aset_def split: if_splits)

lemma scaling_loop_length:
  "scaling_loop k j l n sl fl fi b = Inr (sl', fl', b') \<Longrightarrow> length sl' = length sl \<and> length fl' = length fl"
proof (induction k arbitrary: j l n sl fl b)
  case (Suc k)
  then show ?case by (fastforce simp: res_simps Let_def dest: aset_length split: if_splits)
qed simp

lemma aget_in: "aget xs i = Inr x \<Longrightarrow> x \<in> set xs"
  by (auto simp: aget_def split: if_splits)

lemma rows_shape_aset: "aset rows i row = Inr rows' \<Longrightarrow> rows_shape n rows \<Longrightarrow> length row = n \<Longrightarrow> rows_shape n rows'"
  by (auto simp: aset_def rows_shape_def dest!: set_update_subset_insert [THEN subsetD] split: if_splits)

lemma keeps_hrd: "keeps hrd_shape parse_vui_hrd_parameters"
  unfolding parse_vui_hrd_parameters_def
  by (rule keeps_rules | (auto simp: hrd_shape_def into_def res_simps dest!: aset_length; fail))+

lemma keeps_vui: "keeps vui_shape parse_vui_parameters"
  unfolding parse_vui_parameters_def
  by (rule keeps_hrd keeps_rules | (auto simp: vui_shape_def; fail))+

lemma keeps_sps_list4x4: "keeps sps_shape (sps_list4x4 i)"
  unfolding keeps_def sps_list4x4_def scaling_list_def
  by (auto simp: res_simps sps_shape_def dest!: scaling_loop_length aget_in elim!: rows_shape_aset)
    (auto simp: rows_shape_def)

lemma keeps_sps_list8x8: "keeps sps_shape (sps_list8x8 i)"
  unfolding keeps_def sps_list8x8_def scaling_list_def
  by (auto simp: res_simps sps_shape_def dest!: scaling_loop_length aget_in elim!: rows_shape_aset)
    (auto simp: rows_shape_def)

lemma keeps_pps_list4x4: "keeps pps_shape (pps_list4x4 i)"
  unfolding keeps_def pps_list4x4_def scaling_list_def
  by (auto simp: res_simps pps_shape_def dest!: scaling_loop_length aget_in elim!: rows_shape_aset)
    (auto simp: rows_shape_def)

lemma keeps_pps_list8x8: "keeps pps_shape (pps_list8x8 i)"
  unfolding keeps_def pps_list8x8_def scaling_list_def
  by (auto simp: res_simps pps_shape_def dest!: scaling_loop_length aget_in elim!: rows_shape_aset)
    (auto simp: rows_shape_def)

lemma keeps_poc: "keeps sps_shape parse_sps_poc"
  unfolding parse_sps_poc_def
  by (rule keeps_rules | (auto simp: sps_shape_def into_def res_simps dest!: aset_length; fail))+

lemma keeps_chroma: "keeps sps_shape parse_sps_chroma"
  unfolding parse_sps_chroma_def
  by (rule keeps_sps_list4x4 keeps_sps_list8x8 keeps_rules
    | (auto simp: sps_shape_def into_def res_simps dest!: aset_length; fail))+

lemma keeps_sps: "keeps sps_shape parse_sps_syntax_element"
  unfolding parse_sps_syntax_element_def
  by (rule keeps_vui keeps_poc keeps_chroma keeps_rules | (simp add: sps_shape_def; fail))+

lemma keeps_slice_groups: "keeps pps_shape (parse_slice_groups calloc_ok)"
  unfolding parse_slice_groups_def parse_slice_group_ids_def Let_def
  by (rule keeps_rules
    | (auto simp: pps_shape_def into_def slice_group_store_def res_simps dest!: aset_length split: option.splits if_splits; fail))+

lemma keeps_pps_lists: "keeps pps_shape (for_less n (\<lambda>i. seqs [
      get_at (rd_u 1) (into pic_scaling_list_present_flag pic_scaling_list_present_flag_update i),
      on (\<lambda>s. if pic_scaling_list_present_flag s ! nat i \<noteq> 0 then (if i < 6 then pps_list4x4 i else pps_list8x8 i) else seqs [])]))"
  by (rule keeps_pps_list4x4 keeps_pps_list8x8 keeps_rules
    | (auto simp: pps_shape_def into_def res_simps dest!: aset_length; fail))+

lemma keeps_bound:
  "(\<And>x. keeps P (f x)) \<Longrightarrow> keeps P (\<lambda>(s, b). rbind (r s) (\<lambda>x. f x (s, b)))"
  by (rule keepsI) (auto simp: res_simps dest: keepsD)

lemma keeps_pps_transform: "keeps pps_shape (parse_pps_transform sps_array)"
  unfolding parse_pps_transform_def
  by (rule keeps_bound keeps_pps_lists keeps_rules | (simp add: pps_shape_def; fail))+

lemma keeps_pps: "keeps pps_shape (parse_pps_syntax_element calloc_ok sps_array)"
proof -
  have second: "pps_shape (s\<lparr>second_chroma_qp_index_offset := v\<rparr>) = pps_shape s" for s v
    by (simp add: pps_shape_def)
  have "keeps pps_shape (\<lambda>(s, b). if more_rbsp_data b then parse_pps_transform sps_array (s, b)
      else Inr (s\<lparr>second_chroma_qp_index_offset := chroma_qp_index_offset s\<rparr>, b))"
    by (rule keepsI) (auto split: if_splits dest: keepsD [OF keeps_pps_transform] simp: second)
  then show ?thesis
    unfolding parse_pps_syntax_element_def
    by - (rule keeps_slice_groups keeps_rules | assumption | (simp add: pps_shape_def; fail))+
qed

section \<open>The state\<close>

text \<open>
  The arrays keep their sizes, every received set is stored under its own id, and the active pointers point
  into the arrays.
\<close>

definition globals_ok :: "h264_globals \<Rightarrow> bool" where
  "globals_ok g \<longleftrightarrow>
     length (Sequence_Parameters_Set_Array g) = 32 \<and> length (Picture_Parameters_Set_Array g) = 256 \<and>
     (\<forall>i < 32. let s = Sequence_Parameters_Set_Array g ! i in
        sps_shape s \<and> (s = sps_zero \<or> seq_parameter_set_id s = int i)) \<and>
     (\<forall>i < 256. let p = Picture_Parameters_Set_Array g ! i in
        pps_shape p \<and> (p = pps_zero \<or> pic_parameter_set_id p = int i)) \<and>
     (\<forall>i. active_sps g = Some i \<longrightarrow> i < 32) \<and> (\<forall>i. active_pps g = Some i \<longrightarrow> i < 256)"

lemma shape_zero: "sps_shape sps_zero" "pps_shape pps_zero"
  by (simp_all add: sps_shape_def pps_shape_def rows_shape_def vui_shape_def hrd_shape_def
    sps_zero_def pps_zero_def vui_zero_def hrd_zero_def)

lemma globals_ok_start: "globals_ok h264_start"
  using shape_zero by (simp add: globals_ok_def h264_start_def)

lemma save_sps_ok: "globals_ok g \<Longrightarrow> sps_shape s \<Longrightarrow> save_sps_as_available s g = Inr g' \<Longrightarrow> globals_ok g'"
  by (auto simp: save_sps_as_available_def res_simps globals_ok_def aset_def Let_def nth_list_update split: if_splits)

lemma save_pps_ok: "globals_ok g \<Longrightarrow> pps_shape p \<Longrightarrow> save_pps_as_available p g = Inr (p', g') \<Longrightarrow> globals_ok g'"
  by (auto simp: save_pps_as_available_def res_simps globals_ok_def aset_def Let_def nth_list_update split: if_splits)

lemma processSPS_ok: "globals_ok g \<Longrightarrow> processSPS calloc_ok b g = Inr (b', g') \<Longrightarrow> globals_ok g'"
  by (auto simp: processSPS_def allocSPS_def res_simps split: if_splits
    dest!: keepsD [OF keeps_sps shape_zero(1)] intro: save_sps_ok)

lemma processPPS_ok: "globals_ok g \<Longrightarrow> processPPS calloc_ok b g = Inr (b', g') \<Longrightarrow> globals_ok g'"
proof -
  have z: "pps_shape (pps_zero\<lparr>slice_group_id := None\<rparr>)" using shape_zero by (simp add: pps_shape_def)
  show "globals_ok g \<Longrightarrow> processPPS calloc_ok b g = Inr (b', g') \<Longrightarrow> globals_ok g'"
    by (auto simp: processPPS_def allocPPS_def res_simps split: if_splits
      dest!: keepsD [OF keeps_pps z] intro: save_pps_ok)
qed

lemma activeParameterSet_ok: "globals_ok g \<Longrightarrow> activeParameterSet i g = Inr g' \<Longrightarrow> globals_ok g'"
  by (auto simp: activeParameterSet_def res_simps globals_ok_def aget_def split: if_splits)

lemma processSlice_ok: "globals_ok g \<Longrightarrow> processSlice calloc_ok b s g = Inr (b', s', g') \<Longrightarrow> globals_ok g'"
  unfolding processSlice_def processSliceHeader_def by (auto simp: res_simps intro: activeParameterSet_ok)

lemma dispatch_nal_ok: "globals_ok g \<Longrightarrow> dispatch_nal calloc_ok u b g = Inr (u', g') \<Longrightarrow> globals_ok g'"
  unfolding dispatch_nal_def
  by (auto simp: res_simps Let_def split: if_splits intro: processSPS_ok processPPS_ok processSlice_ok)

lemma read_nal_unit_ok: "globals_ok g \<Longrightarrow> read_nal_unit calloc_ok u g = Inr (u', g') \<Longrightarrow> globals_ok g'"
  unfolding read_nal_unit_def by (auto simp: res_simps Let_def intro: dispatch_nal_ok)

lemma decode_loop_ok:
  "globals_ok g \<Longrightarrow> decode_loop calloc_ok m n u k s i g out = Inr (out', g') \<Longrightarrow> globals_ok g'"
proof (induction calloc_ok m n u k s i g out arbitrary: out' g' rule: decode_loop.induct)
  case (1 calloc_ok m n u k s i g out)
  obtain len u1 s1 i1 where f: "find_nal_unit m u n s i = Inr (len, u1, s1, i1)"
    using 1(3) unfolding decode_loop.simps [of calloc_ok m n u k s i] by (auto simp: res_simps)
  show ?case
  proof (cases "len > 0")
    case False
    then show ?thesis using 1(2,3) f by (simp add: decode_loop.simps [of calloc_ok m n u k s i])
  next
    case True
    then obtain u2 g2 where r: "read_nal_unit calloc_ok u1 g = Inr (u2, g2)"
      "decode_loop calloc_ok m n u2 (k + 1) s1 i1 g2 (out @ [(k, s1, i1, int i1 - int s1)]) = Inr (out', g')"
      using 1(3) f unfolding decode_loop.simps [of calloc_ok m n u k s i] by (auto simp: res_simps)
    show ?thesis
      using 1(1) [OF f refl refl refl True r(1) refl read_nal_unit_ok [OF 1(2) r(1)] r(2)] by blast
  qed
qed

end
