(* ===== verification/H264_Encode.thy ===== *)
theory H264_Encode
  imports H264_Parset
begin

text \<open>
  The sequence parameter set written back as bits: an encoder that follows the syntax tables of the standard,
  rules that say which bits a statement of a parser consumes, and the proof that \<open>parse_sps_syntax_element\<close>
  inverts the encoder.
\<close>

section \<open>Readers and statements on known bits\<close>

fun u_bits :: "nat \<Rightarrow> int \<Rightarrow> bool list" where
  "u_bits 0 v = []"
| "u_bits (Suc n) v = u_bits n (v div 2) @ [odd v]"

abbreviation ue_code :: "int \<Rightarrow> bool list" where
  "ue_code v \<equiv> ue_bits (nat v)"

lemma length_u_bits [simp]: "length (u_bits n v) = n"
  by (induction n arbitrary: v) auto

lemma bits_val_u_bits: "0 \<le> v \<Longrightarrow> v < 2 ^ n \<Longrightarrow> int (bits_val (u_bits n v)) = v"
proof (induction n arbitrary: v)
  case (Suc n)
  then have "int (bits_val (u_bits n (v div 2))) = v div 2" by simp
  then show ?case by (simp add: bits_val_snoc)
qed simp

definition reads :: "(bs_t \<Rightarrow> (int \<times> bs_t) cres) \<Rightarrow> int \<Rightarrow> bool list \<Rightarrow> bool" where
  "reads r v xs \<longleftrightarrow> (\<forall>b rest. bs_ok b \<longrightarrow> bs_bits b = xs @ rest \<longrightarrow>
     (\<exists>b'. r b = Inr (v, b') \<and> bs_ok b' \<and> bs_bits b' = rest))"

definition parses :: "'s syn \<Rightarrow> 's \<Rightarrow> bool list \<Rightarrow> 's \<Rightarrow> bool" where
  "parses st s xs s' \<longleftrightarrow> (\<forall>b rest. bs_ok b \<longrightarrow> bs_bits b = xs @ rest \<longrightarrow>
     (\<exists>b'. st (s, b) = Inr (s', b') \<and> bs_ok b' \<and> bs_bits b' = rest))"

named_theorems parses_rules \<open>rules for the bits that a statement consumes\<close>

lemma sint_of_nat32: "k < 2 ^ 31 \<Longrightarrow> sint (of_nat k :: u32) = int k"
  by (simp add: signed_of_nat signed_take_bit_int_eq_self)

text \<open>The values that a code can carry into an \<open>int\<close>.\<close>

definition u_ok :: "nat \<Rightarrow> int \<Rightarrow> bool" where
  "u_ok k v \<longleftrightarrow> 0 \<le> v \<and> v < 2 ^ k \<and> v < 2 ^ 31"

definition ue_ok :: "int \<Rightarrow> bool" where
  "ue_ok v \<longleftrightarrow> 0 \<le> v \<and> v < 2 ^ 31 - 1"

definition se_ok :: "int \<Rightarrow> bool" where
  "se_ok v \<longleftrightarrow> \<bar>v\<bar> < 2 ^ 30"

lemma reads_u [parses_rules]:
  assumes "u_ok k v" and "n = int k" and "k \<le> 32"
  shows "reads (rd_u n) v (u_bits k v)"
  unfolding reads_def
proof (intro allI impI)
  fix b rest
  assume b: "bs_ok b" "bs_bits b = u_bits k v @ rest"
  obtain b' where b': "bs_read_u b (int (length (u_bits k v))) = Inr (of_nat (bits_val (u_bits k v)), b')"
      "bs_ok b'" "bs_bits b' = rest"
    by (rule bs_read_u_bits [OF b]) (use assms(3) in simp)
  have "int (bits_val (u_bits k v)) = v"
    using assms(1) by (intro bits_val_u_bits) (simp_all add: u_ok_def)
  then have "sint (of_nat (bits_val (u_bits k v)) :: u32) = v"
    using assms(1) [unfolded u_ok_def] sint_of_nat32 [of "bits_val (u_bits k v)"]
    by (metis of_nat_less_iff of_nat_numeral of_nat_power)
  then show "\<exists>b'. rd_u n b = Inr (v, b') \<and> bs_ok b' \<and> bs_bits b' = rest"
    using b' assms(2) by (simp add: rd_u_def)
qed

lemma reads_ue [parses_rules]:
  assumes "ue_ok v"
  shows "reads rd_ue v (ue_code v)"
  unfolding reads_def
proof (intro allI impI)
  fix b rest
  assume b: "bs_ok b" "bs_bits b = ue_code v @ rest"
  obtain b' where b': "bs_read_ue b = Inr (of_nat (nat v), b')" "bs_ok b'" "bs_bits b' = rest"
    by (rule bs_read_ue_bits [OF b]) (use assms in \<open>auto simp: ue_ok_def nat_less_iff\<close>)
  have "sint (of_nat (nat v) :: u32) = v" using assms by (subst sint_of_nat32) (auto simp: ue_ok_def nat_less_iff)
  then show "\<exists>b'. rd_ue b = Inr (v, b') \<and> bs_ok b' \<and> bs_bits b' = rest"
    using b' by (simp add: rd_ue_def)
qed

lemma reads_se [parses_rules]: "se_ok v \<Longrightarrow> reads rd_se v (se_bits v)"
  unfolding reads_def se_ok_def by (metis bs_read_se_bits)

lemma parses_get [parses_rules]: "reads r v xs \<Longrightarrow> parses (get r f) s xs (f v s)"
  unfolding reads_def parses_def get_def by fastforce

lemma parses_get_at [parses_rules]: "reads r v xs \<Longrightarrow> f v s = Inr s' \<Longrightarrow> parses (get_at r f) s xs s'"
  unfolding reads_def parses_def get_at_def by fastforce

lemma parses_Nil [parses_rules]: "s' = s \<Longrightarrow> parses (seqs []) s [] s'"
  by (simp add: parses_def)

lemma parses_Cons [parses_rules]:
  assumes "parses st s xs s1" and "parses (seqs sts) s1 ys s2"
  shows "parses (seqs (st # sts)) s (xs @ ys) s2"
  unfolding parses_def
proof (intro allI impI)
  fix b rest
  assume "bs_ok b" "bs_bits b = (xs @ ys) @ rest"
  then obtain b1 where b1: "st (s, b) = Inr (s1, b1)" "bs_ok b1" "bs_bits b1 = ys @ rest"
    using assms(1) unfolding parses_def by (metis append.assoc)
  then obtain b2 where "seqs sts (s1, b1) = Inr (s2, b2)" "bs_ok b2" "bs_bits b2 = rest"
    using assms(2) unfolding parses_def by blast
  then show "\<exists>b'. seqs (st # sts) (s, b) = Inr (s2, b') \<and> bs_ok b' \<and> bs_bits b' = rest"
    using b1(1) by simp
qed

lemma parses_cond [parses_rules]:
  assumes "c \<longleftrightarrow> P s" and "c \<Longrightarrow> parses (seqs ts) s xs s'" and "\<not> c \<Longrightarrow> parses (seqs es) s ys s'"
  shows "parses (cond P ts es) s (if c then xs else ys) s'"
  using assms unfolding parses_def cond_def by auto

lemma parses_sub [parses_rules]:
  "parses st (member s) xs t \<Longrightarrow> s' = upd t s \<Longrightarrow> parses (sub member upd st) s xs s'"
  unfolding parses_def sub_def by fastforce

lemma parses_on [parses_rules]: "parses (f s) s xs s' \<Longrightarrow> parses (on f) s xs s'"
  unfolding parses_def on_def by simp

text \<open>A loop through the states \<open>S 0\<close> to \<open>S n\<close>.\<close>

lemma parses_for_to:
  "(\<And>j. j < k \<Longrightarrow> parses (body (int (i + j))) (S (i + j)) (enc (i + j)) (S (i + j + 1))) \<Longrightarrow>
   parses (for_to k (int i) body) (S i) (concat (map enc [i..<i + k])) (S (i + k))"
proof (induction k arbitrary: i)
  case 0
  then show ?case by (simp add: parses_def)
next
  case (Suc k)
  have IH: "parses (for_to k (int (i + 1)) body) (S (i + 1)) (concat (map enc [i + 1..<i + 1 + k])) (S (i + 1 + k))"
  proof (rule Suc.IH)
    show "parses (body (int (i + 1 + j))) (S (i + 1 + j)) (enc (i + 1 + j)) (S (i + 1 + j + 1))" if "j < k" for j
      using Suc.prems [of "j + 1"] that by (simp add: ac_simps)
  qed
  have first: "parses (body (int i)) (S i) (enc i) (S (i + 1))" using Suc.prems [of 0] by simp
  have u: "[i..<i + Suc k] = i # [i + 1..<i + 1 + k]" by (simp add: upt_conv_Cons)
  show ?case
    unfolding parses_def
  proof (intro allI impI)
    fix b rest
    assume "bs_ok b" "bs_bits b = concat (map enc [i..<i + Suc k]) @ rest"
    then obtain b1 where b1: "body (int i) (S i, b) = Inr (S (i + 1), b1)" "bs_ok b1"
        "bs_bits b1 = concat (map enc [i + 1..<i + 1 + k]) @ rest"
      using first unfolding parses_def u by (metis append.assoc concat.simps(2) list.simps(9))
    then show "\<exists>b'. for_to (Suc k) (int i) body (S i, b) = Inr (S (i + Suc k), b') \<and> bs_ok b' \<and> bs_bits b' = rest"
      using IH unfolding parses_def by (force simp: ac_simps)
  qed
qed

lemma parses_for_less [parses_rules]:
  assumes "n s = int k" and "s = S 0" and "s' = S k"
    and "\<And>j. j < k \<Longrightarrow> parses (body (int j)) (S j) (enc j) (S (j + 1))"
  shows "parses (for_less n body) s (concat (map enc [0..<k])) s'"
  using parses_for_to [of k body 0 S enc] assms unfolding for_less_def parses_def by simp

text \<open>The array that a loop fills, after \<open>i\<close> iterations.\<close>

definition filled :: "nat \<Rightarrow> 'a list \<Rightarrow> 'a list \<Rightarrow> 'a list" where
  "filled i xs zs = take i xs @ drop i zs"

lemma filled_0 [simp]: "filled 0 xs zs = zs"
  by (simp add: filled_def)

lemma length_filled [simp]: "length xs = length zs \<Longrightarrow> length (filled i xs zs) = length zs"
  by (simp add: filled_def)

lemma aset_filled:
  assumes "i < length zs" and "length xs = length zs" and "v = xs ! i"
  shows "aset (filled i xs zs) (int i) v = Inr (filled (Suc i) xs zs)"
proof -
  have "(filled i xs zs)[i := v] = filled (Suc i) xs zs"
    using assms by (intro nth_equalityI) (auto simp: filled_def nth_append nth_list_update min_def less_Suc_eq)
  then show ?thesis using assms by (simp add: aset_def)
qed

lemma filled_all: "drop n xs = drop n zs \<Longrightarrow> length xs = length zs \<Longrightarrow> filled n xs zs = xs"
  by (simp add: filled_def) (metis append_take_drop_id)

text \<open>
  Scaling lists written back as bits: a list of values from 1 to 255 as differences modulo 256, and the
  default list, of which every entry is 8, by the one difference that gives 0.
\<close>

definition scale_delta :: "int \<Rightarrow> int \<Rightarrow> int" where
  "scale_delta lastScale x = (x - lastScale + 128) mod 256 - 128"

fun delta_bits :: "int \<Rightarrow> int list \<Rightarrow> bool list" where
  "delta_bits lastScale [] = []"
| "delta_bits lastScale (x # xs) = se_bits (scale_delta lastScale x) @ delta_bits x xs"

definition list_bits :: "int \<Rightarrow> int list \<Rightarrow> bool list" where
  "list_bits useDefault xs = (if useDefault = 1 then se_bits (- 8) else delta_bits 8 xs)"

definition scale_ok :: "int \<Rightarrow> bool" where
  "scale_ok x \<longleftrightarrow> 1 \<le> x \<and> x \<le> 255"

definition scaling_ok :: "int \<Rightarrow> int list \<Rightarrow> bool" where
  "scaling_ok useDefault xs \<longleftrightarrow>
     useDefault = 0 \<and> (\<forall>x \<in> set xs. scale_ok x) \<or> useDefault = 1 \<and> xs = replicate (length xs) 8"

lemma scale_delta:
  assumes "scale_ok l" and "scale_ok x"
  shows "se_ok (scale_delta l x)" and "(l + scale_delta l x + 256) smod 256 = x"
proof -
  have "0 \<le> (x - l + 128) mod 256" "(x - l + 128) mod 256 < 256" by simp_all
  then have r: "- 128 \<le> scale_delta l x" "scale_delta l x < 128"
    unfolding scale_delta_def by linarith+
  then show "se_ok (scale_delta l x)" by (simp add: se_ok_def)
  have "(l + 128 + (x - l + 128) mod 256) mod 256 = (l + 128 + (x - l + 128)) mod 256"
    by (rule mod_add_right_eq)
  also have "\<dots> = x mod 256" using mod_add_self2 [of x 256] by simp
  finally have "(l + scale_delta l x + 256) mod 256 = x mod 256"
    unfolding scale_delta_def by (simp add: algebra_simps)
  moreover have "0 < l + scale_delta l x + 256" using r assms by (simp add: scale_ok_def)
  ultimately show "(l + scale_delta l x + 256) smod 256 = x"
    using assms by (simp add: signed_modulo_int_def scale_ok_def)
qed

text \<open>The differences.\<close>

lemma scaling_loop_deltas:
  assumes "\<forall>x \<in> set xs. scale_ok x" and "scale_ok lastScale" and "nextScale \<noteq> 0"
    and "j + length xs \<le> length sl" and "0 \<le> fi" and "nat fi < length fl"
    and "bs_ok b" and "bs_bits b = delta_bits lastScale xs @ rest"
  shows "\<exists>b'. scaling_loop (length xs) (int j) lastScale nextScale sl fl fi b =
      Inr (take j sl @ xs @ drop (j + length xs) sl, if xs = [] then fl else fl[nat fi := 0], b') \<and>
    bs_ok b' \<and> bs_bits b' = rest"
  using assms
proof (induction xs arbitrary: lastScale nextScale j sl fl b)
  case (Cons x xs)
  have x: "scale_ok lastScale" "scale_ok x" using Cons.prems by auto
  then have x0: "x \<noteq> 0" by (simp add: scale_ok_def)
  have "reads rd_se (scale_delta lastScale x) (se_bits (scale_delta lastScale x))"
    by (rule reads_se [OF scale_delta(1) [OF x]])
  moreover have "bs_bits b = se_bits (scale_delta lastScale x) @ (delta_bits x xs @ rest)"
    using Cons.prems(8) by simp
  ultimately obtain b1 where b1: "bs_read_se b = Inr (scale_delta lastScale x, b1)" "bs_ok b1"
      "bs_bits b1 = delta_bits x xs @ rest"
    using Cons.prems(7) unfolding reads_def by blast
  have step: "scaling_loop (length (x # xs)) (int j) lastScale nextScale sl fl fi b =
      scaling_loop (length xs) (int (j + 1)) x x (sl[j := x]) (fl[nat fi := 0]) fi b1"
    using b1(1) Cons.prems(3-6) scale_delta(2) [OF x] x0 by (simp add: aset_def Let_def add.commute)
  have "\<exists>b'. scaling_loop (length xs) (int (j + 1)) x x (sl[j := x]) (fl[nat fi := 0]) fi b1 =
      Inr (take (j + 1) (sl[j := x]) @ xs @ drop (j + 1 + length xs) (sl[j := x]),
        if xs = [] then fl[nat fi := 0] else (fl[nat fi := 0])[nat fi := 0], b') \<and> bs_ok b' \<and> bs_bits b' = rest"
    by (rule Cons.IH) (use Cons.prems b1 x0 in auto)
  moreover have "take (j + 1) (sl[j := x]) = take j sl @ [x]" "drop (j + 1 + length xs) (sl[j := x]) = drop (j + 1 + length xs) sl"
    using Cons.prems(4) by (simp_all add: take_Suc_conv_app_nth)
  ultimately show ?case unfolding step by (cases "xs = []") simp_all
qed simp

text \<open>Once the next scale is 0 the last one is repeated and nothing is read.\<close>

lemma scaling_loop_repeats:
  "j + k \<le> length sl \<Longrightarrow>
   scaling_loop k (int j) lastScale 0 sl fl fi b = Inr (take j sl @ replicate k lastScale @ drop (j + k) sl, fl, b)"
proof (induction k arbitrary: j sl)
  case (Suc k)
  have "scaling_loop k (int (j + 1)) lastScale 0 (sl[j := lastScale]) fl fi b =
      Inr (take (j + 1) (sl[j := lastScale]) @ replicate k lastScale @ drop (j + 1 + k) (sl[j := lastScale]), fl, b)"
    by (rule Suc.IH) (use Suc.prems in simp)
  then show ?case using Suc.prems by (simp add: aset_def Let_def take_Suc_conv_app_nth ac_simps)
qed simp

lemma scaling_list_bits:
  assumes ok: "scaling_ok f xs" and xs: "xs \<noteq> []" "length sl = length xs" and fi: "0 \<le> fi" "nat fi < length fl"
    and b: "bs_ok b" "bs_bits b = list_bits f xs @ rest"
  shows "\<exists>b'. scaling_list sl (length xs) fl fi b = Inr (xs, fl[nat fi := f], b') \<and> bs_ok b' \<and> bs_bits b' = rest"
proof (cases "f = 1")
  case False
  then have f: "f = 0" "\<forall>x \<in> set xs. scale_ok x" using ok by (auto simp: scaling_ok_def)
  then show ?thesis
    using scaling_loop_deltas [of xs 8 8 0 sl fi fl b rest] xs fi b by (auto simp: scaling_list_def list_bits_def scale_ok_def)
next
  case True
  then have r: "xs = replicate (length xs) 8" using ok by (auto simp: scaling_ok_def)
  obtain n where n: "length xs = Suc n" using xs(1) by (cases xs) auto
  have "reads rd_se (- 8) (se_bits (- 8))" by (rule reads_se) (simp add: se_ok_def)
  then obtain b1 where b1: "bs_read_se b = Inr (- 8, b1)" "bs_ok b1" "bs_bits b1 = rest"
    using b True unfolding reads_def list_bits_def by auto
  have "scaling_loop n (int 1) 8 0 (sl[0 := 8]) (fl[nat fi := 1]) fi b1 =
      Inr (take 1 (sl[0 := 8]) @ replicate n 8 @ drop (1 + n) (sl[0 := 8]), fl[nat fi := 1], b1)"
    by (rule scaling_loop_repeats) (use xs n in simp)
  moreover have "take 1 (sl[0 := 8]) @ replicate n 8 @ drop (1 + n) (sl[0 := 8]) = xs"
    using r n xs by (cases sl) auto
  ultimately have "scaling_list sl (length xs) fl fi b = Inr (xs, fl[nat fi := 1], b1)"
    using b1 n xs fi by (simp add: scaling_list_def aset_def Let_def)
  then show ?thesis using b1 True by blast
qed

end
