(* ===== verification/H264_Sps.thy ===== *)
theory H264_Sps
  imports H264_Encode
begin

text \<open>
  The sequence parameter set written back as bits: an encoder that follows the syntax tables of the standard,
  and the proof that \<open>parse_sps_syntax_element\<close> inverts it.
\<close>

section \<open>The HRD parameters\<close>

definition hrd_arrays_ok :: "hrd_parameters_t \<Rightarrow> bool" where
  "hrd_arrays_ok t \<longleftrightarrow>
     (let n = nat (cpb_cnt_minus1 t + 1) in
      n \<le> MAX_CPB_CNT \<and>
      (\<forall>i < n. ue_ok (bit_rate_value_minus1 t ! i) \<and> ue_ok (cpb_size_value_minus1 t ! i) \<and>
         u_ok 1 (cbr_flag t ! i)) \<and>
      (\<forall>xs \<in> {bit_rate_value_minus1 t, cpb_size_value_minus1 t, cbr_flag t}.
         length xs = MAX_CPB_CNT \<and> drop n xs = drop n (replicate MAX_CPB_CNT 0)))"

definition hrd_bits :: "hrd_parameters_t \<Rightarrow> bool list" where
  "hrd_bits t = concat [
     ue_code (cpb_cnt_minus1 t),
     u_bits 4 (bit_rate_scale t),
     u_bits 4 (cpb_size_scale t),
     concat (map (\<lambda>i. concat [ue_code (bit_rate_value_minus1 t ! i), ue_code (cpb_size_value_minus1 t ! i),
       u_bits 1 (cbr_flag t ! i)]) [0..<nat (cpb_cnt_minus1 t + 1)]),
     u_bits 5 (initial_cpb_removal_delay_length_minus1 t),
     u_bits 5 (cpb_removal_delay_length_minus1 t),
     u_bits 5 (dpb_output_delay_length_minus1 t),
     u_bits 5 (time_offset_length t)]"

definition hrd_ok :: "hrd_parameters_t \<Rightarrow> bool" where
  "hrd_ok t \<longleftrightarrow>
     ue_ok (cpb_cnt_minus1 t) \<and> u_ok 4 (bit_rate_scale t) \<and> u_ok 4 (cpb_size_scale t) \<and>
     hrd_arrays_ok t \<and> u_ok 5 (initial_cpb_removal_delay_length_minus1 t) \<and>
     u_ok 5 (cpb_removal_delay_length_minus1 t) \<and> u_ok 5 (dpb_output_delay_length_minus1 t) \<and>
     u_ok 5 (time_offset_length t)"

lemma parses_hrd:
  assumes ok: "hrd_ok t"
  shows "parses parse_vui_hrd_parameters hrd_zero (hrd_bits t) t"
proof -
  let ?n = "nat (cpb_cnt_minus1 t + 1)"
  define S where "S j = hrd_zero\<lparr>cpb_cnt_minus1 := cpb_cnt_minus1 t, bit_rate_scale := bit_rate_scale t,
      cpb_size_scale := cpb_size_scale t,
      bit_rate_value_minus1 := filled j (bit_rate_value_minus1 t) (replicate MAX_CPB_CNT 0),
      cpb_size_value_minus1 := filled j (cpb_size_value_minus1 t) (replicate MAX_CPB_CNT 0),
      cbr_flag := filled j (cbr_flag t) (replicate MAX_CPB_CNT 0)\<rparr>" for j
  have a: "hrd_arrays_ok t" and c: "ue_ok (cpb_cnt_minus1 t)" using ok by (simp_all add: hrd_ok_def)
  have l: "length (bit_rate_value_minus1 t) = MAX_CPB_CNT" "length (cpb_size_value_minus1 t) = MAX_CPB_CNT"
      "length (cbr_flag t) = MAX_CPB_CNT" and n: "?n \<le> MAX_CPB_CNT"
    using a by (simp_all add: hrd_arrays_ok_def Let_def)
  have f: "filled ?n (bit_rate_value_minus1 t) (replicate MAX_CPB_CNT 0) = bit_rate_value_minus1 t"
      "filled ?n (cpb_size_value_minus1 t) (replicate MAX_CPB_CNT 0) = cpb_size_value_minus1 t"
      "filled ?n (cbr_flag t) (replicate MAX_CPB_CNT 0) = cbr_flag t"
    using a by (auto intro!: filled_all simp: hrd_arrays_ok_def Let_def)
  have body: "parses (seqs [
      get_at rd_ue (into bit_rate_value_minus1 bit_rate_value_minus1_update (int j)),
      get_at rd_ue (into cpb_size_value_minus1 cpb_size_value_minus1_update (int j)),
      get_at (rd_u 1) (into cbr_flag cbr_flag_update (int j))]) (S j)
    (concat [ue_code (bit_rate_value_minus1 t ! j), ue_code (cpb_size_value_minus1 t ! j), u_bits 1 (cbr_flag t ! j)])
    (S (j + 1))" if j: "j < ?n" for j
  proof -
    have v: "ue_ok (bit_rate_value_minus1 t ! j)" "ue_ok (cpb_size_value_minus1 t ! j)" "u_ok 1 (cbr_flag t ! j)"
      using a j by (simp_all add: hrd_arrays_ok_def Let_def)
    have st: "aset (filled j xs (replicate MAX_CPB_CNT 0)) (int j) (xs ! j) = Inr (filled (Suc j) xs (replicate MAX_CPB_CNT 0))"
      if "length xs = MAX_CPB_CNT" for xs :: "int list"
      using aset_filled [of j "replicate MAX_CPB_CNT 0" xs] that j n by simp
    show ?thesis
      unfolding concat.simps
      by (rule parses_rules v | (simp add: S_def into_def st l; fail))+
  qed
  have S0: "S 0 = hrd_zero\<lparr>cpb_cnt_minus1 := cpb_cnt_minus1 t, bit_rate_scale := bit_rate_scale t,
    cpb_size_scale := cpb_size_scale t\<rparr>"
    by (simp add: S_def hrd_zero_def)
  have loop: "parses (for_less (\<lambda>s. cpb_cnt_minus1 s + 1) (\<lambda>i. seqs [
      get_at rd_ue (into bit_rate_value_minus1 bit_rate_value_minus1_update i),
      get_at rd_ue (into cpb_size_value_minus1 cpb_size_value_minus1_update i),
      get_at (rd_u 1) (into cbr_flag cbr_flag_update i)])) (S 0)
    (concat (map (\<lambda>i. concat [ue_code (bit_rate_value_minus1 t ! i), ue_code (cpb_size_value_minus1 t ! i),
       u_bits 1 (cbr_flag t ! i)]) [0..<?n])) (S ?n)"
    by (rule parses_for_less [where S = S]) (use body c in \<open>auto simp: S_def ue_ok_def\<close>)
  have v: "u_ok 4 (bit_rate_scale t)" "u_ok 4 (cpb_size_scale t)" "u_ok 5 (initial_cpb_removal_delay_length_minus1 t)"
    "u_ok 5 (cpb_removal_delay_length_minus1 t)" "u_ok 5 (dpb_output_delay_length_minus1 t)" "u_ok 5 (time_offset_length t)"
    using ok by (simp_all add: hrd_ok_def)
  show ?thesis
    unfolding parse_vui_hrd_parameters_def hrd_bits_def concat.simps
    by (rule loop [unfolded S0 concat.simps] c v parses_rules | (simp add: S_def f hrd_zero_def; fail))+
qed

lemma parses_hrd_at: "s = hrd_zero \<Longrightarrow> hrd_ok t \<Longrightarrow> parses parse_vui_hrd_parameters s (hrd_bits t) t"
  using parses_hrd by simp

section \<open>The VUI parameters\<close>

definition vui_bits :: "vui_parameters_t \<Rightarrow> bool list" where
  "vui_bits t = concat [
     u_bits 1 (aspect_ratio_info_present_flag t),
     if aspect_ratio_info_present_flag t \<noteq> 0 then concat [
       u_bits 8 (aspect_ratio_idc t),
       if aspect_ratio_idc t = 255 then concat [
         u_bits 16 (sar_width t),
         u_bits 16 (sar_height t)]
       else concat []]
     else concat [],
     u_bits 1 (overscan_info_present_flag t),
     if overscan_info_present_flag t \<noteq> 0 then concat [
       u_bits 1 (overscan_appropriate_flag t)]
     else concat [],
     u_bits 1 (video_signal_type_present_flag t),
     if video_signal_type_present_flag t \<noteq> 0 then concat [
       u_bits 3 (video_format t),
       u_bits 1 (video_full_range_flag t),
       u_bits 1 (colour_description_present_flag t),
       if colour_description_present_flag t \<noteq> 0 then concat [
         u_bits 8 (colour_primaries t),
         u_bits 8 (transfer_characteristics t),
         u_bits 8 (matrix_coefficients t)]
       else concat []]
     else concat [],
     u_bits 1 (chroma_loc_info_present_flag t),
     if chroma_loc_info_present_flag t \<noteq> 0 then concat [
       ue_code (chroma_sample_loc_type_top_field t),
       ue_code (chroma_sample_loc_type_bottom_field t)]
     else concat [],
     u_bits 1 (timing_info_present_flag t),
     if timing_info_present_flag t \<noteq> 0 then concat [
       u_bits 32 (num_units_in_tick t),
       u_bits 32 (time_scale t),
       u_bits 1 (fixed_frame_rate_flag t)]
     else concat [],
     u_bits 1 (nal_hrd_parameters_present_flag t),
     if nal_hrd_parameters_present_flag t \<noteq> 0 then concat [
       hrd_bits (nal_hrd_parameters t)]
     else concat [],
     u_bits 1 (vcl_hrd_parameters_present_flag t),
     if vcl_hrd_parameters_present_flag t \<noteq> 0 then concat [
       hrd_bits (vcl_hrd_parameters t)]
     else concat [],
     if nal_hrd_parameters_present_flag t \<noteq> 0 \<or> vcl_hrd_parameters_present_flag t \<noteq> 0 then concat [
       u_bits 1 (low_delay_hrd_flag t)]
     else concat [],
     u_bits 1 (pic_struct_present_flag t),
     u_bits 1 (bitstream_restriction_flag t),
     if bitstream_restriction_flag t \<noteq> 0 then concat [
       u_bits 1 (motion_vectors_over_pic_boundaries_flag t),
       ue_code (max_bytes_per_pic_denom t),
       ue_code (max_bits_per_mb_denom t),
       ue_code (log2_max_mv_length_horizontal t),
       ue_code (log2_max_mv_length_vertical t),
       ue_code (max_num_reorder_frames t),
       ue_code (max_dec_frame_buffering t)]
     else concat []]"

definition vui_ok :: "vui_parameters_t \<Rightarrow> bool" where
  "vui_ok t \<longleftrightarrow>
     u_ok 1 (aspect_ratio_info_present_flag t) \<and>
     (if aspect_ratio_info_present_flag t \<noteq> 0 then u_ok 8 (aspect_ratio_idc t) \<and>
        (if aspect_ratio_idc t = 255 then u_ok 16 (sar_width t) \<and> u_ok 16 (sar_height t)
     else sar_width t = 0 \<and> sar_height t = 0)
     else aspect_ratio_idc t = 0 \<and> sar_width t = 0 \<and> sar_height t = 0) \<and>
     u_ok 1 (overscan_info_present_flag t) \<and>
     (if overscan_info_present_flag t \<noteq> 0 then u_ok 1 (overscan_appropriate_flag t)
     else overscan_appropriate_flag t = 0) \<and>
     u_ok 1 (video_signal_type_present_flag t) \<and>
     (if video_signal_type_present_flag t \<noteq> 0 then u_ok 3 (video_format t) \<and>
        u_ok 1 (video_full_range_flag t) \<and> u_ok 1 (colour_description_present_flag t) \<and>
         (if colour_description_present_flag t \<noteq> 0 then u_ok 8 (colour_primaries t) \<and>
          u_ok 8 (transfer_characteristics t) \<and> u_ok 8 (matrix_coefficients t)
     else colour_primaries t = 0 \<and> transfer_characteristics t = 0 \<and> matrix_coefficients t = 0)
     else video_format t = 0 \<and> video_full_range_flag t = 0 \<and>
        colour_description_present_flag t = 0 \<and> colour_primaries t = 0 \<and>
         transfer_characteristics t = 0 \<and> matrix_coefficients t = 0) \<and>
     u_ok 1 (chroma_loc_info_present_flag t) \<and>
     (if chroma_loc_info_present_flag t \<noteq> 0 then ue_ok (chroma_sample_loc_type_top_field t) \<and>
        ue_ok (chroma_sample_loc_type_bottom_field t)
     else chroma_sample_loc_type_top_field t = 0 \<and> chroma_sample_loc_type_bottom_field t = 0) \<and>
     u_ok 1 (timing_info_present_flag t) \<and>
     (if timing_info_present_flag t \<noteq> 0 then u_ok 32 (num_units_in_tick t) \<and>
        u_ok 32 (time_scale t) \<and> u_ok 1 (fixed_frame_rate_flag t)
     else num_units_in_tick t = 0 \<and> time_scale t = 0 \<and> fixed_frame_rate_flag t = 0) \<and>
     u_ok 1 (nal_hrd_parameters_present_flag t) \<and>
     (if nal_hrd_parameters_present_flag t \<noteq> 0 then hrd_ok (nal_hrd_parameters t)
     else nal_hrd_parameters t = hrd_zero) \<and>
     u_ok 1 (vcl_hrd_parameters_present_flag t) \<and>
     (if vcl_hrd_parameters_present_flag t \<noteq> 0 then hrd_ok (vcl_hrd_parameters t)
     else vcl_hrd_parameters t = hrd_zero) \<and>
     (if nal_hrd_parameters_present_flag t \<noteq> 0 \<or> vcl_hrd_parameters_present_flag t \<noteq> 0 then u_ok 1 (low_delay_hrd_flag t)
     else low_delay_hrd_flag t = 0) \<and>
     u_ok 1 (pic_struct_present_flag t) \<and> u_ok 1 (bitstream_restriction_flag t) \<and>
     (if bitstream_restriction_flag t \<noteq> 0 then u_ok 1 (motion_vectors_over_pic_boundaries_flag t) \<and>
        ue_ok (max_bytes_per_pic_denom t) \<and> ue_ok (max_bits_per_mb_denom t) \<and>
         ue_ok (log2_max_mv_length_horizontal t) \<and> ue_ok (log2_max_mv_length_vertical t) \<and>
          ue_ok (max_num_reorder_frames t) \<and> ue_ok (max_dec_frame_buffering t)
     else motion_vectors_over_pic_boundaries_flag t = 0 \<and> max_bytes_per_pic_denom t = 0 \<and>
        max_bits_per_mb_denom t = 0 \<and> log2_max_mv_length_horizontal t = 0 \<and>
         log2_max_mv_length_vertical t = 0 \<and> max_num_reorder_frames t = 0 \<and> max_dec_frame_buffering t = 0)"

lemma parses_vui:
  assumes ok: "vui_ok t"
  shows "parses parse_vui_parameters vui_zero (vui_bits t) t"
proof -
  note ok' = ok [unfolded vui_ok_def]
  show ?thesis
    unfolding parse_vui_parameters_def vui_bits_def concat.simps
    by (rule refl parses_hrd_at parses_rules | (simp add: vui_zero_def; fail) | (insert ok',
      simp add: vui_zero_def; fail))+
qed

section \<open>The picture order count\<close>

definition offsets_ok :: "sps_t \<Rightarrow> bool" where
  "offsets_ok t \<longleftrightarrow>
     (let n = nat (num_ref_frames_in_pic_order_cnt_cycle t); xs = offset_for_ref_frame t in
      n \<le> 256 \<and> length xs = 256 \<and> (\<forall>i < n. se_ok (xs ! i)) \<and>
         drop n xs = drop n (replicate 256 0))"

definition sps_poc_bits :: "sps_t \<Rightarrow> bool list" where
  "sps_poc_bits t =
     (if pic_order_cnt_type t = 0 then concat [
       ue_code (log2_max_pic_order_cnt_lsb_minus4 t)]
     else concat [
       if pic_order_cnt_type t = 1 then concat [
         u_bits 1 (delta_pic_order_always_zero_flag t),
         se_bits (offset_for_non_ref_pic t),
         se_bits (offset_for_top_to_bottom_field t),
         ue_code (num_ref_frames_in_pic_order_cnt_cycle t),
         concat (map (\<lambda>i. se_bits (offset_for_ref_frame t ! i)) [0..<nat (num_ref_frames_in_pic_order_cnt_cycle t)])]
       else concat []])"

definition sps_poc_ok :: "sps_t \<Rightarrow> bool" where
  "sps_poc_ok t \<longleftrightarrow>
     (if pic_order_cnt_type t = 0 then ue_ok (log2_max_pic_order_cnt_lsb_minus4 t) \<and>
        delta_pic_order_always_zero_flag t = 0 \<and> offset_for_non_ref_pic t = 0 \<and>
         offset_for_top_to_bottom_field t = 0 \<and> num_ref_frames_in_pic_order_cnt_cycle t = 0 \<and>
          offset_for_ref_frame t = replicate 256 0
     else (if pic_order_cnt_type t = 1 then u_ok 1 (delta_pic_order_always_zero_flag t) \<and>
        se_ok (offset_for_non_ref_pic t) \<and> se_ok (offset_for_top_to_bottom_field t) \<and>
         ue_ok (num_ref_frames_in_pic_order_cnt_cycle t) \<and> offsets_ok t
     else delta_pic_order_always_zero_flag t = 0 \<and> offset_for_non_ref_pic t = 0 \<and>
        offset_for_top_to_bottom_field t = 0 \<and> num_ref_frames_in_pic_order_cnt_cycle t = 0 \<and>
         offset_for_ref_frame t = replicate 256 0) \<and> log2_max_pic_order_cnt_lsb_minus4 t = 0)"

lemma parses_offsets:
  assumes ok: "offsets_ok t" and n: "ue_ok (num_ref_frames_in_pic_order_cnt_cycle t)"
    and s: "num_ref_frames_in_pic_order_cnt_cycle s = num_ref_frames_in_pic_order_cnt_cycle t"
      "offset_for_ref_frame s = replicate 256 0"
  shows "parses (for_less num_ref_frames_in_pic_order_cnt_cycle (\<lambda>i. get_at rd_se (into offset_for_ref_frame offset_for_ref_frame_update i)))
    s (concat (map (\<lambda>i. se_bits (offset_for_ref_frame t ! i)) [0..<nat (num_ref_frames_in_pic_order_cnt_cycle t)])) (s\<lparr>offset_for_ref_frame := offset_for_ref_frame t\<rparr>)"
proof (rule parses_for_less [where S = "\<lambda>j. s\<lparr>offset_for_ref_frame := filled j (offset_for_ref_frame t) (replicate 256 0)\<rparr>"])
  show "parses (get_at rd_se (into offset_for_ref_frame offset_for_ref_frame_update (int j)))
      (s\<lparr>offset_for_ref_frame := filled j (offset_for_ref_frame t) (replicate 256 0)\<rparr>)
      (se_bits (offset_for_ref_frame t ! j))
      (s\<lparr>offset_for_ref_frame := filled (j + 1) (offset_for_ref_frame t) (replicate 256 0)\<rparr>)"
    if "j < nat (num_ref_frames_in_pic_order_cnt_cycle t)" for j
    using ok that aset_filled [of j "replicate 256 0" "offset_for_ref_frame t"]
    by (intro parses_get_at [OF reads_se]) (auto simp: offsets_ok_def Let_def into_def)
  show "s\<lparr>offset_for_ref_frame := offset_for_ref_frame t\<rparr> =
      s\<lparr>offset_for_ref_frame := filled (nat (num_ref_frames_in_pic_order_cnt_cycle t)) (offset_for_ref_frame t) (replicate 256 0)\<rparr>"
    using ok by (simp add: offsets_ok_def Let_def filled_all)
qed (use n s in \<open>simp_all add: ue_ok_def\<close>)

lemma parses_poc:
  assumes ok: "sps_poc_ok t" and type: "pic_order_cnt_type s = pic_order_cnt_type t"
    and zero: "log2_max_pic_order_cnt_lsb_minus4 s = 0" "delta_pic_order_always_zero_flag s = 0" "offset_for_non_ref_pic s =
      0" "offset_for_top_to_bottom_field s = 0" "num_ref_frames_in_pic_order_cnt_cycle s = 0" "offset_for_ref_frame
      s = replicate 256 0"
  shows "parses parse_sps_poc s (sps_poc_bits t)
    (s\<lparr>log2_max_pic_order_cnt_lsb_minus4 := log2_max_pic_order_cnt_lsb_minus4 t,
      delta_pic_order_always_zero_flag := delta_pic_order_always_zero_flag t, offset_for_non_ref_pic :=
      offset_for_non_ref_pic t, offset_for_top_to_bottom_field := offset_for_top_to_bottom_field t,
      num_ref_frames_in_pic_order_cnt_cycle := num_ref_frames_in_pic_order_cnt_cycle t, offset_for_ref_frame :=
      offset_for_ref_frame t\<rparr>)"
proof -
  note ok' = ok [unfolded sps_poc_ok_def]
  let ?s = "s\<lparr>log2_max_pic_order_cnt_lsb_minus4 := log2_max_pic_order_cnt_lsb_minus4 t,
      delta_pic_order_always_zero_flag := delta_pic_order_always_zero_flag t, offset_for_non_ref_pic :=
      offset_for_non_ref_pic t, offset_for_top_to_bottom_field := offset_for_top_to_bottom_field t,
      num_ref_frames_in_pic_order_cnt_cycle := num_ref_frames_in_pic_order_cnt_cycle t, offset_for_ref_frame :=
      offset_for_ref_frame t\<rparr>"
  have e0: "?s = s\<lparr>log2_max_pic_order_cnt_lsb_minus4 := log2_max_pic_order_cnt_lsb_minus4 t\<rparr>" if "pic_order_cnt_type t = 0"
    by (cases s) (use zero ok' that in simp)
  have e1: "?s = s\<lparr>delta_pic_order_always_zero_flag := delta_pic_order_always_zero_flag t,
    offset_for_non_ref_pic :=
      offset_for_non_ref_pic t, offset_for_top_to_bottom_field := offset_for_top_to_bottom_field t,
      num_ref_frames_in_pic_order_cnt_cycle := num_ref_frames_in_pic_order_cnt_cycle t, offset_for_ref_frame :=
      offset_for_ref_frame t\<rparr>" if "pic_order_cnt_type t = 1"
    by (cases s) (use zero ok' that in simp)
  have e2: "?s = s" if "pic_order_cnt_type t \<noteq> 0" "pic_order_cnt_type t \<noteq> 1"
    by (cases s) (use zero ok' that in simp)
  show ?thesis
    unfolding parse_sps_poc_def sps_poc_bits_def concat.simps
    by (rule e0 e1 e2 parses_offsets parses_rules | (simp add: type zero; fail) | (insert ok', simp; fail))+
qed

section \<open>The scaling lists\<close>

definition sps_list_count :: "sps_t \<Rightarrow> nat" where
  "sps_list_count t = (if chroma_format_idc t \<noteq> YUV_4_4_4 then 8 else 12)"

text \<open>The list and the default flag at position \<open>i\<close>, 4x4 lists first.\<close>

definition sps_list :: "sps_t \<Rightarrow> nat \<Rightarrow> int list" where
  "sps_list t i = (if i < 6 then ScalingList4x4 t ! i else ScalingList8x8 t ! (i - 6))"

definition sps_default :: "sps_t \<Rightarrow> nat \<Rightarrow> int" where
  "sps_default t i = (if i < 6 then UseDefaultScalingMatrix4x4Flag t ! i else UseDefaultScalingMatrix8x8Flag t ! (i - 6))"

definition sps_list_bits :: "sps_t \<Rightarrow> nat \<Rightarrow> bool list" where
  "sps_list_bits t i = list_bits (sps_default t i) (sps_list t i)"

text \<open>Of the 12 lists the first \<open>n\<close> may be present; the others are zero.\<close>

definition sps_lists_ok :: "nat \<Rightarrow> sps_t \<Rightarrow> bool" where
  "sps_lists_ok n t \<longleftrightarrow>
     length (seq_scaling_list_present_flag t) = 12 \<and> length (ScalingList4x4 t) = 6 \<and>
        length (ScalingList8x8 t) = 6 \<and>
     length (UseDefaultScalingMatrix4x4Flag t) = 6 \<and> length (UseDefaultScalingMatrix8x8Flag t) = 6 \<and>
     (\<forall>i < 12. length (sps_list t i) = (if i < 6 then 16 else 64) \<and>
        u_ok 1 (seq_scaling_list_present_flag t ! i) \<and>
        (if seq_scaling_list_present_flag t ! i \<noteq> 0 then i < n \<and> scaling_ok (sps_default t i) (sps_list t i)
         else sps_default t i = 0 \<and> sps_list t i = replicate (length (sps_list t i)) 0))"

text \<open>The structure after \<open>j\<close> of the lists.\<close>

definition sps_with_lists :: "sps_t \<Rightarrow> nat \<Rightarrow> sps_t \<Rightarrow> sps_t" where
  "sps_with_lists t j s = s\<lparr>
     seq_scaling_list_present_flag := filled j (seq_scaling_list_present_flag t) (replicate 12 0),
     ScalingList4x4 := filled j (ScalingList4x4 t) (replicate 6 (replicate 16 0)),
     UseDefaultScalingMatrix4x4Flag := filled j (UseDefaultScalingMatrix4x4Flag t) (replicate 6 0),
     ScalingList8x8 := filled (j - 6) (ScalingList8x8 t) (replicate 6 (replicate 64 0)),
     UseDefaultScalingMatrix8x8Flag := filled (j - 6) (UseDefaultScalingMatrix8x8Flag t) (replicate 6 0)\<rparr>"

lemma filled_eq_upd: "i < length zs \<Longrightarrow> length xs = length zs \<Longrightarrow> filled (Suc i) xs zs = (filled i xs zs)[i := xs ! i]"
  using aset_filled [of i zs xs "xs ! i"] by (simp add: aset_def split: if_splits)

lemma nth_filled: "i < length zs \<Longrightarrow> length xs = length zs \<Longrightarrow> filled j xs zs ! i = (if i < j then xs ! i else zs ! i)"
  by (auto simp: filled_def nth_append min_def)

lemma filled_beyond: "length zs \<le> i \<Longrightarrow> length xs = length zs \<Longrightarrow> filled (Suc i) xs zs = filled i xs zs"
  by (simp add: filled_def)

lemma filled_same: "i < length zs \<Longrightarrow> length xs = length zs \<Longrightarrow> xs ! i = zs ! i \<Longrightarrow> filled (Suc i) xs zs = filled i xs zs"
  by (simp add: filled_eq_upd nth_filled list_update_same_conv)

lemma parses_sps_list4x4:
  assumes ok: "sps_lists_ok n t" and i: "i < 6" "seq_scaling_list_present_flag t ! i \<noteq> 0"
    and s: "s = (sps_with_lists t i s0)\<lparr>seq_scaling_list_present_flag := filled (Suc i) (seq_scaling_list_present_flag t) (replicate 12 0)\<rparr>"
  shows "parses (sps_list4x4 (int i)) s (sps_list_bits t i) (sps_with_lists t (Suc i) s0)"
  unfolding parses_def
proof (intro allI impI)
  fix b rest
  assume b: "bs_ok b" "bs_bits b = sps_list_bits t i @ rest"
  let ?xs = "ScalingList4x4 t ! i" and ?f = "UseDefaultScalingMatrix4x4Flag t ! i"
  let ?fl = "filled i (UseDefaultScalingMatrix4x4Flag t) (replicate 6 0)"
  have l: "length (ScalingList4x4 t) = 6" "length (UseDefaultScalingMatrix4x4Flag t) = 6"
    using ok by (simp_all add: sps_lists_ok_def)
  have x: "scaling_ok ?f ?xs" "length ?xs = 16" "bs_bits b = list_bits ?f ?xs @ rest"
    using ok i b(2) by (auto simp: sps_lists_ok_def sps_list_bits_def sps_list_def sps_default_def split: if_splits)
  have "\<exists>b'. scaling_list (replicate 16 0) (length ?xs) ?fl (int i) b = Inr (?xs,
    ?fl[nat (int i) := ?f], b') \<and>
      bs_ok b' \<and> bs_bits b' = rest"
    by (rule scaling_list_bits [OF x(1) _ _ _ _ b(1) x(3)]) (use x l i in auto)
  then obtain b' where b': "scaling_list (replicate 16 0) 16 ?fl (int i) b = Inr (?xs, ?fl[i := ?f], b')"
      "bs_ok b'" "bs_bits b' = rest"
    using x(2) by auto
  have "aget (ScalingList4x4 s) (int i) = Inr (replicate 16 0)"
    using i l by (simp add: aget_def s sps_with_lists_def nth_filled)
  then have "sps_list4x4 (int i) (s, b) = Inr (sps_with_lists t (Suc i) s0, b')"
    using b' i l by (simp add: sps_list4x4_def s sps_with_lists_def aset_filled filled_eq_upd)
  then show "\<exists>b'. sps_list4x4 (int i) (s, b) = Inr (sps_with_lists t (Suc i) s0, b') \<and>
     bs_ok b' \<and> bs_bits b' = rest"
    using b' by blast
qed

lemma parses_sps_list8x8:
  assumes ok: "sps_lists_ok n t" and i: "6 \<le> i" "i < 12" "seq_scaling_list_present_flag t ! i \<noteq> 0"
    and s: "s = (sps_with_lists t i s0)\<lparr>seq_scaling_list_present_flag := filled (Suc i) (seq_scaling_list_present_flag t) (replicate 12 0)\<rparr>"
  shows "parses (sps_list8x8 (int i)) s (sps_list_bits t i) (sps_with_lists t (Suc i) s0)"
  unfolding parses_def
proof (intro allI impI)
  fix b rest
  assume b: "bs_ok b" "bs_bits b = sps_list_bits t i @ rest"
  define k where "k = i - 6"
  have k: "i = k + 6" "k < 6" "int i - 6 = int k" and k4: "i - 6 = k" and i5: "i - 5 = Suc k"
    using i by (simp_all add: k_def)
  let ?xs = "ScalingList8x8 t ! k" and ?f = "UseDefaultScalingMatrix8x8Flag t ! k"
  let ?fl = "filled k (UseDefaultScalingMatrix8x8Flag t) (replicate 6 0)"
  have l: "length (ScalingList8x8 t) = 6" "length (UseDefaultScalingMatrix8x8Flag t) = 6"
      "length (ScalingList4x4 t) = 6" "length (UseDefaultScalingMatrix4x4Flag t) = 6"
    using ok by (simp_all add: sps_lists_ok_def)
  have x: "scaling_ok ?f ?xs" "length ?xs = 64" "bs_bits b = list_bits ?f ?xs @ rest"
    using ok i b(2) k by (auto simp: sps_lists_ok_def sps_list_bits_def sps_list_def sps_default_def split: if_splits)
  have "\<exists>b'. scaling_list (replicate 64 0) (length ?xs) ?fl (int k) b = Inr (?xs,
    ?fl[nat (int k) := ?f], b') \<and>
      bs_ok b' \<and> bs_bits b' = rest"
    by (rule scaling_list_bits [OF x(1) _ _ _ _ b(1) x(3)]) (use x l k in auto)
  then obtain b' where b': "scaling_list (replicate 64 0) 64 ?fl (int k) b = Inr (?xs, ?fl[k := ?f], b')"
      "bs_ok b'" "bs_bits b' = rest"
    using x(2) by auto
  have "aget (ScalingList8x8 s) (int k) = Inr (replicate 64 0)"
    using k k4 l by (simp add: aget_def s sps_with_lists_def nth_filled)
  then have "sps_list8x8 (int i) (s, b) = Inr (sps_with_lists t (Suc i) s0, b')"
    using b' k(2) l i by (simp add: sps_list8x8_def s sps_with_lists_def k(3) k4 i5 aset_filled filled_eq_upd filled_beyond)
  then show "\<exists>b'. sps_list8x8 (int i) (s, b) = Inr (sps_with_lists t (Suc i) s0, b') \<and>
     bs_ok b' \<and> bs_bits b' = rest"
    using b' by blast
qed

lemma sps_with_lists_absent:
  assumes ok: "sps_lists_ok n t" and i: "i < 12" "seq_scaling_list_present_flag t ! i = 0"
  shows "sps_with_lists t (Suc i) s0 =
    (sps_with_lists t i s0)\<lparr>seq_scaling_list_present_flag := filled (Suc i) (seq_scaling_list_present_flag t) (replicate 12 0)\<rparr>"
proof -
  have l: "length (ScalingList4x4 t) = 6" "length (UseDefaultScalingMatrix4x4Flag t) = 6"
      "length (ScalingList8x8 t) = 6" "length (UseDefaultScalingMatrix8x8Flag t) = 6"
    using ok by (simp_all add: sps_lists_ok_def)
  have z: "sps_default t i = 0" "sps_list t i = replicate (if i < 6 then 16 else 64) 0"
    using ok i by (auto simp: sps_lists_ok_def split: if_splits)
  show ?thesis
  proof (cases "i < 6")
    case True
    then show ?thesis using z l by (simp add: sps_with_lists_def sps_default_def sps_list_def filled_same)
  next
    case False
    then have k: "i = (i - 6) + 6" "i - 6 < 6" using i by simp_all
    have "Suc i - 6 = Suc (i - 6)" using k by simp
    then show ?thesis
      using z l False k by (simp add: sps_with_lists_def sps_default_def sps_list_def filled_same filled_beyond)
  qed
qed

text \<open>Absent lists at the end.\<close>

lemma sps_with_lists_tail:
  assumes ok: "sps_lists_ok n t"
  shows "n \<le> 12 \<Longrightarrow> sps_with_lists t 12 s = sps_with_lists t n s"
proof -
  have step: "sps_with_lists t (Suc i) s = sps_with_lists t i s" if "n \<le> i" "i < 12" for i
  proof -
    have a: "seq_scaling_list_present_flag t ! i = 0" "length (seq_scaling_list_present_flag t) = 12"
      using ok that by (auto simp: sps_lists_ok_def split: if_splits)
    then have "filled (Suc i) (seq_scaling_list_present_flag t) (replicate 12 0) = filled i (seq_scaling_list_present_flag t) (replicate 12 0)"
      using that by (simp add: filled_same)
    then show ?thesis
      unfolding sps_with_lists_absent [OF ok that(2) a(1)] by (simp add: sps_with_lists_def)
  qed
  show "n \<le> 12 \<Longrightarrow> sps_with_lists t 12 s = sps_with_lists t n s"
    by (rule dec_induct [where P = "\<lambda>i. i \<le> 12 \<longrightarrow> sps_with_lists t i s = sps_with_lists t n s", THEN mp])
      (use step in auto)
qed

lemma sps_with_lists_all:
  assumes ok: "sps_lists_ok n t" and "n \<le> 12"
  shows "sps_with_lists t n s = s\<lparr>seq_scaling_list_present_flag := seq_scaling_list_present_flag t,
    ScalingList4x4 := ScalingList4x4 t,
      UseDefaultScalingMatrix4x4Flag := UseDefaultScalingMatrix4x4Flag t, ScalingList8x8 := ScalingList8x8 t,
      UseDefaultScalingMatrix8x8Flag := UseDefaultScalingMatrix8x8Flag t\<rparr>"
  unfolding sps_with_lists_tail [OF assms, symmetric]
  using ok by (simp add: sps_with_lists_def sps_lists_ok_def filled_all)

lemma parses_sps_lists:
  assumes ok: "sps_lists_ok (sps_list_count t) t" and fmt: "chroma_format_idc s = chroma_format_idc t"
    and zero: "s = sps_with_lists t 0 s"
  shows "parses (for_less (\<lambda>s. if chroma_format_idc s \<noteq> YUV_4_4_4 then 8 else 12) (\<lambda>i. seqs [
      get_at (rd_u 1) (into seq_scaling_list_present_flag seq_scaling_list_present_flag_update i),
      on (\<lambda>s. if seq_scaling_list_present_flag s ! nat i \<noteq> 0 then (if i < 6 then sps_list4x4 i else sps_list8x8 i) else seqs [])]))
    s (concat (map (\<lambda>i. concat [u_bits 1 (seq_scaling_list_present_flag t ! i),
         if seq_scaling_list_present_flag t ! i \<noteq> 0 then sps_list_bits t i else []]) [0..<sps_list_count t]))
    (s\<lparr>seq_scaling_list_present_flag := seq_scaling_list_present_flag t, ScalingList4x4 := ScalingList4x4 t,
      UseDefaultScalingMatrix4x4Flag := UseDefaultScalingMatrix4x4Flag t, ScalingList8x8 := ScalingList8x8 t,
      UseDefaultScalingMatrix8x8Flag := UseDefaultScalingMatrix8x8Flag t\<rparr>)"
proof (rule parses_for_less [where S = "\<lambda>j. sps_with_lists t j s"])
  have n: "sps_list_count t \<le> 12" by (simp add: sps_list_count_def)
  show "s\<lparr>seq_scaling_list_present_flag := seq_scaling_list_present_flag t, ScalingList4x4 := ScalingList4x4 t,
      UseDefaultScalingMatrix4x4Flag := UseDefaultScalingMatrix4x4Flag t, ScalingList8x8 := ScalingList8x8 t,
      UseDefaultScalingMatrix8x8Flag := UseDefaultScalingMatrix8x8Flag t\<rparr> = sps_with_lists t (sps_list_count t) s"
    using sps_with_lists_all [OF ok n] by simp
  show "(if chroma_format_idc s \<noteq> YUV_4_4_4 then 8 else 12) = int (sps_list_count t)"
    using fmt by (simp add: sps_list_count_def)
  show "s = sps_with_lists t 0 s" by (rule zero)
  fix j assume j: "j < sps_list_count t"
  then have j12: "j < 12" using n by simp
  let ?fl = "filled (Suc j) (seq_scaling_list_present_flag t) (replicate 12 0)"
  let ?s1 = "(sps_with_lists t j s)\<lparr>seq_scaling_list_present_flag := ?fl\<rparr>"
  have f: "length (seq_scaling_list_present_flag t) = 12" "u_ok 1 (seq_scaling_list_present_flag t ! j)"
    using ok j12 by (simp_all add: sps_lists_ok_def)
  have at: "seq_scaling_list_present_flag ?s1 ! nat (int j) = seq_scaling_list_present_flag t ! j"
    using f j12 by (simp add: nth_filled)
  have first: "parses (get_at (rd_u 1) (into seq_scaling_list_present_flag seq_scaling_list_present_flag_update (int j)))
      (sps_with_lists t j s) (u_bits 1 (seq_scaling_list_present_flag t ! j)) ?s1"
    by (rule parses_get_at [OF reads_u [OF f(2)]])
      (use f(1) j12 in \<open>simp_all add: into_def sps_with_lists_def aset_filled\<close>)
  have second: "parses (on (\<lambda>s. if seq_scaling_list_present_flag s ! nat (int j) \<noteq> 0
        then (if int j < 6 then sps_list4x4 (int j) else sps_list8x8 (int j)) else seqs [])) ?s1
      (if seq_scaling_list_present_flag t ! j \<noteq> 0 then sps_list_bits t j else []) (sps_with_lists t (Suc j) s)"
  proof (rule parses_on, cases "seq_scaling_list_present_flag t ! j = 0")
    case True
    then show "parses (if seq_scaling_list_present_flag ?s1 ! nat (int j) \<noteq> 0
        then (if int j < 6 then sps_list4x4 (int j) else sps_list8x8 (int j)) else seqs []) ?s1
      (if seq_scaling_list_present_flag t ! j \<noteq> 0 then sps_list_bits t j else []) (sps_with_lists t (Suc j) s)"
      unfolding at using sps_with_lists_absent [OF ok j12 True] by (simp add: parses_Nil)
  next
    case False
    then show "parses (if seq_scaling_list_present_flag ?s1 ! nat (int j) \<noteq> 0
        then (if int j < 6 then sps_list4x4 (int j) else sps_list8x8 (int j)) else seqs []) ?s1
      (if seq_scaling_list_present_flag t ! j \<noteq> 0 then sps_list_bits t j else []) (sps_with_lists t (Suc j) s)"
      unfolding at
      using parses_sps_list4x4 [OF ok _ False refl] parses_sps_list8x8 [OF ok _ j12 False refl] by auto
  qed
  show "parses (seqs [
      get_at (rd_u 1) (into seq_scaling_list_present_flag seq_scaling_list_present_flag_update (int j)),
      on (\<lambda>s. if seq_scaling_list_present_flag s ! nat (int j) \<noteq> 0
        then (if int j < 6 then sps_list4x4 (int j) else sps_list8x8 (int j)) else seqs [])]) (sps_with_lists t j s)
    (concat [u_bits 1 (seq_scaling_list_present_flag t ! j),
      if seq_scaling_list_present_flag t ! j \<noteq> 0 then sps_list_bits t j else []]) (sps_with_lists t (j + 1) s)"
    unfolding concat.simps by (rule parses_Cons [OF first] parses_Cons [OF second] parses_Nil | simp)+
qed

section \<open>The chroma format\<close>

definition sps_chroma_bits :: "sps_t \<Rightarrow> bool list" where
  "sps_chroma_bits t = concat [
     ue_code (chroma_format_idc t),
     if chroma_format_idc t = YUV_4_4_4 then concat [
       u_bits 1 (separate_colour_plane_flag t)]
     else concat [],
     ue_code (bit_depth_luma_minus8 t),
     ue_code (bit_depth_chroma_minus8 t),
     u_bits 1 (qpprime_y_zero_transform_bypass_flag t),
     u_bits 1 (seq_scaling_matrix_present_flag t),
     if seq_scaling_matrix_present_flag t \<noteq> 0 then concat [
       concat (map (\<lambda>i. concat [u_bits 1 (seq_scaling_list_present_flag t ! i),
         if seq_scaling_list_present_flag t ! i \<noteq> 0 then sps_list_bits t i else []]) [0..<sps_list_count t])]
     else concat []]"

definition sps_chroma_ok :: "sps_t \<Rightarrow> bool" where
  "sps_chroma_ok t \<longleftrightarrow>
     ue_ok (chroma_format_idc t) \<and>
     (if chroma_format_idc t = YUV_4_4_4 then u_ok 1 (separate_colour_plane_flag t)
     else separate_colour_plane_flag t = 0) \<and>
     ue_ok (bit_depth_luma_minus8 t) \<and> ue_ok (bit_depth_chroma_minus8 t) \<and>
     u_ok 1 (qpprime_y_zero_transform_bypass_flag t) \<and> u_ok 1 (seq_scaling_matrix_present_flag t) \<and>
     (if seq_scaling_matrix_present_flag t \<noteq> 0 then sps_lists_ok (sps_list_count t) t
     else sps_lists_ok 0 t)"

definition sps_chroma_absent :: "sps_t \<Rightarrow> bool" where
  "sps_chroma_absent t \<longleftrightarrow>
     chroma_format_idc t = 0 \<and> separate_colour_plane_flag t = 0 \<and> bit_depth_luma_minus8 t = 0 \<and>
     bit_depth_chroma_minus8 t = 0 \<and> qpprime_y_zero_transform_bypass_flag t = 0 \<and>
     seq_scaling_matrix_present_flag t = 0 \<and> sps_lists_ok 0 t"

lemma sps_lists_zero:
  assumes "sps_lists_ok 0 t"
  shows "seq_scaling_list_present_flag t = replicate 12 0"
    "ScalingList4x4 t = replicate 6 (replicate 16 0)"
    "UseDefaultScalingMatrix4x4Flag t = replicate 6 0"
    "ScalingList8x8 t = replicate 6 (replicate 64 0)"
    "UseDefaultScalingMatrix8x8Flag t = replicate 6 0"
  using sps_with_lists_all [OF assms, of sps_zero] by (auto simp: sps_with_lists_def sps_zero_def)

lemma parses_chroma:
  assumes ok: "sps_chroma_ok t" and zero: "chroma_format_idc s = 0" "separate_colour_plane_flag s = 0" "bit_depth_luma_minus8 s = 0"
      "bit_depth_chroma_minus8 s = 0" "qpprime_y_zero_transform_bypass_flag s = 0" "seq_scaling_matrix_present_flag
      s = 0"
    and lists: "seq_scaling_list_present_flag s = replicate 12 0"
      "ScalingList4x4 s = replicate 6 (replicate 16 0)"
      "UseDefaultScalingMatrix4x4Flag s = replicate 6 0"
      "ScalingList8x8 s = replicate 6 (replicate 64 0)"
      "UseDefaultScalingMatrix8x8Flag s = replicate 6 0"
  shows "parses parse_sps_chroma s (sps_chroma_bits t)
    (s\<lparr>chroma_format_idc := chroma_format_idc t, separate_colour_plane_flag := separate_colour_plane_flag t,
      bit_depth_luma_minus8 := bit_depth_luma_minus8 t, bit_depth_chroma_minus8 := bit_depth_chroma_minus8 t,
      qpprime_y_zero_transform_bypass_flag := qpprime_y_zero_transform_bypass_flag t,
      seq_scaling_matrix_present_flag := seq_scaling_matrix_present_flag t, seq_scaling_list_present_flag :=
      seq_scaling_list_present_flag t, ScalingList4x4 := ScalingList4x4 t, UseDefaultScalingMatrix4x4Flag :=
      UseDefaultScalingMatrix4x4Flag t, ScalingList8x8 := ScalingList8x8 t, UseDefaultScalingMatrix8x8Flag :=
      UseDefaultScalingMatrix8x8Flag t\<rparr>)"
proof -
  note ok' = ok [unfolded sps_chroma_ok_def]
  show ?thesis
    unfolding parse_sps_chroma_def sps_chroma_bits_def concat.simps
    by (rule refl parses_sps_lists [unfolded concat.simps] parses_rules
      | (simp; fail) | (insert ok', simp; fail)
      | (insert ok' zero lists, cases s, simp add: sps_with_lists_def; fail)
      | (insert ok' zero lists, cases s, simp add: sps_lists_zero; fail))+
qed

section \<open>The sequence parameter set\<close>

definition sps_bits :: "sps_t \<Rightarrow> bool list" where
  "sps_bits t = concat [
     u_bits 8 (profile_idc t),
     u_bits 1 (constraint_set0_flag t),
     u_bits 1 (constraint_set1_flag t),
     u_bits 1 (constraint_set2_flag t),
     u_bits 1 (constraint_set3_flag t),
     u_bits 1 (constraint_set4_flag t),
     u_bits 1 (constraint_set5_flag t),
     u_bits 2 (reserved_zero_2bits t),
     u_bits 8 (level_idc t),
     ue_code (seq_parameter_set_id t),
     if high_profile (profile_idc t) then concat [
       sps_chroma_bits t]
     else concat [],
     ue_code (log2_max_frame_num_minus4 t),
     ue_code (pic_order_cnt_type t),
     sps_poc_bits t,
     ue_code (max_num_ref_frames t),
     u_bits 1 (gaps_in_frame_num_value_allowed_flag t),
     ue_code (pic_width_in_mbs_minus1 t),
     ue_code (pic_height_in_map_units_minus1 t),
     u_bits 1 (frame_mbs_only_flag t),
     if frame_mbs_only_flag t = 0 then concat [
       u_bits 1 (mb_adaptive_frame_field_flag t)]
     else concat [],
     u_bits 1 (direct_8x8_inference_flag t),
     u_bits 1 (frame_cropping_flag t),
     if frame_cropping_flag t \<noteq> 0 then concat [
       ue_code (frame_crop_left_offset t),
       ue_code (frame_crop_right_offset t),
       ue_code (frame_crop_top_offset t),
       ue_code (frame_crop_bottom_offset t)]
     else concat [],
     u_bits 1 (vui_parameters_present_flag t),
     if vui_parameters_present_flag t \<noteq> 0 then concat [
       vui_bits (vui_parameters t)]
     else concat []]"

definition sps_ok :: "sps_t \<Rightarrow> bool" where
  "sps_ok t \<longleftrightarrow>
     u_ok 8 (profile_idc t) \<and> u_ok 1 (constraint_set0_flag t) \<and> u_ok 1 (constraint_set1_flag t) \<and>
     u_ok 1 (constraint_set2_flag t) \<and> u_ok 1 (constraint_set3_flag t) \<and> u_ok 1 (constraint_set4_flag t) \<and>
     u_ok 1 (constraint_set5_flag t) \<and> u_ok 2 (reserved_zero_2bits t) \<and> u_ok 8 (level_idc t) \<and>
     ue_ok (seq_parameter_set_id t) \<and>
     (if high_profile (profile_idc t) then sps_chroma_ok t
     else sps_chroma_absent t) \<and>
     ue_ok (log2_max_frame_num_minus4 t) \<and> ue_ok (pic_order_cnt_type t) \<and> sps_poc_ok t \<and>
     ue_ok (max_num_ref_frames t) \<and> u_ok 1 (gaps_in_frame_num_value_allowed_flag t) \<and>
     ue_ok (pic_width_in_mbs_minus1 t) \<and> ue_ok (pic_height_in_map_units_minus1 t) \<and>
     u_ok 1 (frame_mbs_only_flag t) \<and>
     (if frame_mbs_only_flag t = 0 then u_ok 1 (mb_adaptive_frame_field_flag t)
     else mb_adaptive_frame_field_flag t = 0) \<and>
     u_ok 1 (direct_8x8_inference_flag t) \<and> u_ok 1 (frame_cropping_flag t) \<and>
     (if frame_cropping_flag t \<noteq> 0 then ue_ok (frame_crop_left_offset t) \<and>
        ue_ok (frame_crop_right_offset t) \<and> ue_ok (frame_crop_top_offset t) \<and> ue_ok (frame_crop_bottom_offset t)
     else frame_crop_left_offset t = 0 \<and> frame_crop_right_offset t = 0 \<and>
        frame_crop_top_offset t = 0 \<and> frame_crop_bottom_offset t = 0) \<and>
     u_ok 1 (vui_parameters_present_flag t) \<and>
     (if vui_parameters_present_flag t \<noteq> 0 then vui_ok (vui_parameters t)
     else vui_parameters t = vui_zero)"

lemma parses_vui_at: "s = vui_zero \<Longrightarrow> vui_ok t \<Longrightarrow> parses parse_vui_parameters s (vui_bits t) t"
  using parses_vui by simp

lemma parses_sps:
  assumes ok: "sps_ok t"
  shows "parses parse_sps_syntax_element sps_zero (sps_bits t) t"
proof -
  note ok' = ok [unfolded sps_ok_def sps_chroma_absent_def]
  show ?thesis
    unfolding parse_sps_syntax_element_def sps_bits_def concat.simps
    by (rule refl parses_chroma parses_poc parses_vui_at parses_rules
      | (simp; fail) | (simp add: sps_zero_def; fail) | (insert ok', simp; fail)
      | (insert ok', simp add: sps_zero_def sps_lists_zero; fail)
      | (insert ok', cases t, simp add: sps_zero_def; fail))+
qed

end
