(* ===== verification/H264_Properties.thy ===== *)
theory H264_Properties
  imports H264_State H264_Sps
begin

text \<open>
  The properties of the H.264 analyser: the Exp-Golomb codes, units found again in the byte stream, the test
  for more data, the parameter sets and the state of the decoder.
\<close>

unbundle bit_operations_syntax

section \<open>Logarithm\<close>

lemma drop_bit_1_less: "(t :: u32) \<noteq> 0 \<Longrightarrow> unat (drop_bit 1 t) = unat t div 2"
  by (simp add: drop_bit_eq_div unat_div)

lemma ceil_loop_eq:
  "unat t < 2 ^ k \<Longrightarrow> (k = 0 \<or> 2 ^ (k - 1) \<le> unat t) \<Longrightarrow> ceil_loop t r = r + of_nat k"
proof (induction k arbitrary: t r)
  case 0
  then have "t = 0" by (simp add: unat_eq_zero)
  then show ?case by (simp add: ceil_loop.simps)
next
  case (Suc k)
  have t: "t \<noteq> 0" using Suc.prems(2) by (auto simp: not_le)
  have d: "unat (drop_bit 1 t) = unat t div 2" using t by (rule drop_bit_1_less)
  have "ceil_loop (drop_bit 1 t) (r + 1) = r + 1 + of_nat k"
  proof (rule Suc.IH)
    show "unat (drop_bit 1 t) < 2 ^ k" using Suc.prems(1) d by simp
    show "k = 0 \<or> 2 ^ (k - 1) \<le> unat (drop_bit 1 t)"
    proof (cases k)
      case (Suc j)
      then show ?thesis using Suc.prems(2) d by simp
    qed simp
  qed
  then show ?case using t by (simp add: ceil_loop.simps [of t])
qed

text \<open>For n from 1 to 2^32 - 1, \<open>calculateCeilLog2 n\<close> is the least k with n \<le> 2^k.\<close>

theorem ceil_log2_least:
  fixes n :: u32
  assumes "n \<noteq> 0"
  shows "unat (calculateCeilLog2 n) = (LEAST k. unat n \<le> 2 ^ k)"
proof -
  define k where "k = (LEAST k. unat n \<le> 2 ^ k)"
  have n1: "unat (n - 1) = unat n - 1" using assms by (simp add: unat_minus_one)
  have pos: "0 < unat n" using assms by (simp add: unat_gt_0)
  have "unat n < 2 ^ LENGTH(32)" by (rule unsigned_less)
  then have top: "unat n \<le> 2 ^ 32" by simp
  then have k: "unat n \<le> 2 ^ k" "k \<le> 32"
    unfolding k_def by (rule LeastI, rule Least_le)
  have low: "k = 0 \<or> 2 ^ (k - 1) \<le> unat n - 1"
  proof (cases k)
    case (Suc j)
    then have "\<not> unat n \<le> 2 ^ j" using not_less_Least [of j "\<lambda>k. unat n \<le> 2 ^ k"] by (simp add: k_def)
    then show ?thesis using Suc by simp
  qed simp
  have "calculateCeilLog2 n = of_nat k"
    using ceil_loop_eq [of "n - 1" k 0] n1 pos k(1) low by (simp add: calculateCeilLog2_def)
  then show ?thesis using k(2) by (simp add: k_def [symmetric] unat_of_nat)
qed

theorem ceil_log2_least_witness: "unat (calculateCeilLog2 100) = (LEAST k. unat (100 :: u32) \<le> 2 ^ k)"
  by (rule ceil_log2_least) simp

section \<open>Codes and data\<close>

text \<open>
  A reader in front of the code ue(k) and the code se(v) reads k and v, for k below 2^31 - 1 and v of
  magnitude below 2^30, and then stands behind the two codes.
\<close>

theorem exp_golomb_round_trip:
  assumes "bs_ok b" and "bs_bits b = ue_bits k @ se_bits v @ rest" and "k < 2 ^ 31 - 1" and "\<bar>v\<bar> < 2 ^ 30"
  shows "\<exists>b1 b2. bs_read_ue b = Inr (of_nat k, b1) \<and> bs_read_se b1 = Inr (v, b2) \<and> bs_ok b2 \<and> bs_bits b2 = rest"
proof -
  obtain b1 where b1: "bs_read_ue b = Inr (of_nat k, b1)" "bs_ok b1" "bs_bits b1 = se_bits v @ rest"
    by (rule bs_read_ue_bits [OF assms(1,2,3)])
  obtain b2 where "bs_read_se b1 = Inr (v, b2)" "bs_ok b2" "bs_bits b2 = rest"
    by (rule bs_read_se_bits [OF b1(2,3) assms(4)])
  then show ?thesis using b1(1) by blast
qed

theorem exp_golomb_round_trip_witness:
  "\<exists>b1 b2. bs_read_ue \<lparr>bs_buf = [0x2B, 0x80], bs_p = 0, bits_left = 8\<rparr> = Inr (of_nat 4, b1) \<and>
     bs_read_se b1 = Inr (- 1, b2) \<and> bs_ok b2 \<and> bs_bits b2 = [True, False, False, False, False, False, False, False]"
  by (rule exp_golomb_round_trip) (code_simp, code_simp, simp, simp)

text \<open>
  \<open>more_rbsp_data\<close> holds exactly when what is left is neither empty nor a stop bit followed by zeros.
\<close>

theorem more_rbsp_data_trailing:
  assumes "bs_ok b"
  shows "more_rbsp_data b \<longleftrightarrow> bs_bits b \<noteq> [] \<and> (\<forall>n. bs_bits b \<noteq> True # replicate n False)"
  using assms by (rule more_rbsp_data_eq)

theorem more_rbsp_data_trailing_witness:
  "let b = \<lparr>bs_buf = [0xA0], bs_p = 0, bits_left = 8\<rparr>
   in more_rbsp_data b \<longleftrightarrow> bs_bits b \<noteq> [] \<and> (\<forall>n. bs_bits b \<noteq> True # replicate n False)"
  unfolding Let_def by (rule more_rbsp_data_trailing) (simp add: bs_ok_def)

section \<open>Units\<close>

lemma unit_found:
  assumes m: "m = pre @ [0, 0, 0, 1] @ nal_bytes 0 p @ [0, 0, 0, 1] @ after"
    and p: "p \<noteq> []" "last p \<noteq> 0" and room: "length (nal_bytes 0 p) \<le> length (nal_buf u)"
  shows "\<exists>len u1 start i u2. find_nal_unit m u (length m) s (length pre) = Inr (len, u1, start, i) \<and>
    len > 0 \<and> drop i m = [0, 0, 0, 1] @ after \<and> nal_to_rbsp u1 = Inr (int (length p), u2) \<and>
    length p \<le> length (nal_buf u2) \<and> take (length p) (nal_buf u2) = p"
proof -
  let ?e = "nal_bytes 0 p"
  have e: "?e \<noteq> []" "last ?e \<noteq> 0" using nal_bytes_last [OF p] by auto
  define u1 where "u1 = u\<lparr>nal_len := int (length ?e), nal_buf := ?e @ drop (length ?e) (nal_buf u)\<rparr>"
  have f: "find_nal_unit m u (length m) s (length pre) =
      Inr (int (length ?e), u1, length pre + 4, length pre + 4 + length ?e)"
    unfolding u1_def by (rule find_nal_unit_eq [OF m code_free_nal_bytes e room])
  have r: "rbsp_bytes 0 (take (nat (nal_len u1)) (nal_buf u1)) = p"
    by (simp add: u1_def rbsp_bytes_nal_bytes)
  obtain buf' where b: "nal_to_rbsp u1 = Inr (int (length p), u1\<lparr>nal_buf := buf'\<rparr>)" "take (length p) buf' = p"
    using nal_to_rbsp_eq [of u1, unfolded r] room by (auto simp: u1_def)
  have "length p \<le> length buf'" using b(2) by (metis length_take min.absorb_iff2 nat_le_linear take_all)
  moreover have "drop (length pre + 4 + length ?e) m = [0, 0, 0, 1] @ after"
    by (simp add: m add.assoc numeral_eq_Suc)
  ultimately show ?thesis using f e b by (auto simp: Suc_leI)
qed

text \<open>
  C35: In a stream where an encoded unit stands between two start codes, \<open>find_nal_unit\<close> started at the first
  code finds the unit, \<open>nal_to_rbsp\<close> then gives back exactly the payload that was encoded, and the next search
  starts at the second code.
\<close>

theorem nal_unit_round_trip:
  assumes "m = pre @ [0, 0, 0, 1] @ nal_bytes 0 p @ [0, 0, 0, 1] @ after"
    and "p \<noteq> []" and "last p \<noteq> 0" and "length (nal_bytes 0 p) \<le> length (nal_buf u)"
  shows "\<exists>len u1 start i n u2. find_nal_unit m u (length m) s (length pre) = Inr (len, u1, start, i) \<and>
    len > 0 \<and> drop i m = [0, 0, 0, 1] @ after \<and> nal_to_rbsp u1 = Inr (n, u2) \<and> take (nat n) (nal_buf u2) = p"
  using unit_found [OF assms] by fastforce

theorem nal_unit_round_trip_witness:
  "let m = [0, 0, 0, 1] @ nal_bytes 0 [0x67, 0, 0, 1, 0, 0, 3] @ [0, 0, 0, 1] @ [0x68];
       u = \<lparr>forbidden_zero_bit = 0, nal_ref_idc = 0, nal_unit_type = 0, nal_len = 0, nal_buf = replicate 16 0\<rparr>
   in \<exists>len u1 start i n u2. find_nal_unit m u (length m) 0 0 = Inr (len, u1, start, i) \<and>
    len > 0 \<and> drop i m = [0, 0, 0, 1] @ [0x68] \<and> nal_to_rbsp u1 = Inr (n, u2) \<and>
    take (nat n) (nal_buf u2) = [0x67, 0, 0, 1, 0, 0, 3]"
  unfolding Let_def using nal_unit_round_trip [where pre = "[]" and p = "[0x67, 0, 0, 1, 0, 0, 3]" and after = "[0x68]"]
  by simp

section \<open>Parameter sets\<close>

lemma processSPS_stores:
  assumes ok: "sps_ok t" and id: "seq_parameter_set_id t < 32" "length (Sequence_Parameters_Set_Array g) = 32"
    and c: "\<forall>n. calloc_ok n" and b: "bs_ok b" "bs_bits b = sps_bits t @ rest"
  shows "\<exists>b'. processSPS calloc_ok b g =
    Inr (b', g\<lparr>Sequence_Parameters_Set_Array := (Sequence_Parameters_Set_Array g)[nat (seq_parameter_set_id t) := t]\<rparr>)"
proof -
  obtain b' where "parse_sps_syntax_element (sps_zero, b) = Inr (t, b')"
    using parses_sps [OF ok] b unfolding parses_def by blast
  moreover have "0 \<le> seq_parameter_set_id t" using ok by (simp add: sps_ok_def ue_ok_def)
  ultimately show ?thesis
    using c id by (simp add: processSPS_def allocSPS_def save_sps_as_available_def aset_def)
qed

text \<open>The first byte of a unit with an SPS, for the four values of \<open>nal_ref_idc\<close>.\<close>

definition sps_header_bytes :: "u8 list" where
  "sps_header_bytes = [0x07, 0x27, 0x47, 0x67]"

lemma sps_header_bytes:
  assumes "h \<in> set sps_header_bytes"
  shows "h \<noteq> 0" and "j \<le> 2 \<Longrightarrow> h AND push_bit j 1 \<noteq> 0"
    and "\<exists>r. u_ok 2 r \<and> byte_bits h = u_bits 1 0 @ u_bits 2 r @ u_bits 5 7"
proof -
  have "h AND 1 \<noteq> 0 \<and> h AND 2 \<noteq> 0 \<and> h AND 4 \<noteq> 0" using assms by (auto simp: sps_header_bytes_def)
  moreover have "j \<in> {0, 1, 2}" if "j \<le> 2" using that by auto
  ultimately show "j \<le> 2 \<Longrightarrow> h AND push_bit j 1 \<noteq> 0" by auto
  show "h \<noteq> 0" using assms by (auto simp: sps_header_bytes_def)
  have "byte_bits 0x07 = u_bits 1 0 @ u_bits 2 0 @ u_bits 5 7" "byte_bits 0x27 = u_bits 1 0 @ u_bits 2 1 @ u_bits 5 7"
    "byte_bits 0x47 = u_bits 1 0 @ u_bits 2 2 @ u_bits 5 7" "byte_bits 0x67 = u_bits 1 0 @ u_bits 2 3 @ u_bits 5 7"
    by code_simp+
  moreover have "u_ok 2 0" "u_ok 2 1" "u_ok 2 2" "u_ok 2 3" by (simp_all add: u_ok_def)
  ultimately show "\<exists>r. u_ok 2 r \<and> byte_bits h = u_bits 1 0 @ u_bits 2 r @ u_bits 5 7"
    using assms unfolding sps_header_bytes_def by (metis insertE list.set(1) list.set(2) singletonD empty_iff)
qed

text \<open>The search for the last set bit ends at such a byte.\<close>

lemma sodb_loop_returns:
  assumes "1 \<le> l" and "l \<le> int (length buf)" and "l = 1 \<longrightarrow> k \<le> 1" and "k \<le> 7"
    and "buf ! 0 \<in> set sps_header_bytes"
  shows "\<exists>r. sodb_loop buf l k = Inr r"
  using assms
proof (induction buf l k rule: sodb_loop.induct)
  case (1 buf l k)
  show ?case
  proof (cases "k + 1 \<ge> 8")
    case True
    then have l: "2 \<le> l" using 1(2,4) by auto
    then have at: "nal_byte buf (l - 1 - 1) = Inr (buf ! nat (l - 2))"
      using 1(3) by (auto simp: nal_byte_def nth_byte_def intro!: arg_cong [of _ _ "\<lambda>i. buf ! i"])
    have "\<exists>r. sodb_loop buf (l - 1) 0 = Inr r" if "buf ! nat (l - 2) AND push_bit 0 1 = 0"
      using 1(1) [OF _ _ refl, of "l - 1" 0] True l at that 1(3,6) by auto
    then show ?thesis
      using True l at by (auto simp: sodb_loop.simps [of buf l k])
  next
    case False
    have at: "nal_byte buf (l - 1) = Inr (buf ! nat (l - 1))"
      using 1(2,3) by (auto simp: nal_byte_def nth_byte_def)
    have "\<exists>r. sodb_loop buf l (k + 1) = Inr r" if "buf ! nat (l - 1) AND push_bit (k + 1) 1 = 0"
    proof -
      have "l \<noteq> 1" using that 1(4) sps_header_bytes(2) [OF 1(6), of "k + 1"] by auto
      then show ?thesis using 1(1) [OF _ _ refl, of l "k + 1"] False at that 1(2,3,6) by auto
    qed
    then show ?thesis
      using False at 1(2) by (auto simp: sodb_loop.simps [of buf l k])
  qed
qed

lemma rbsp_to_sodb_returns:
  assumes "2 \<le> nal_len u" and "nal_len u \<le> int (length (nal_buf u))" and "nal_buf u ! 0 \<in> set sps_header_bytes"
  shows "\<exists>n. rbsp_to_sodb u = Inr n"
proof -
  have "nal_byte (nal_buf u) (nal_len u - 1) = Inr (nal_buf u ! nat (nal_len u - 1))"
    using assms by (auto simp: nal_byte_def nth_byte_def)
  then show ?thesis
    using sodb_loop_returns [of "nal_len u - 1" "nal_buf u" 0] assms by (auto simp: rbsp_to_sodb_def)
qed

lemma parses_nal_header:
  assumes "u_ok 2 r"
  shows "parses read_nal_header u (u_bits 1 0 @ u_bits 2 r @ u_bits 5 7)
    (u\<lparr>forbidden_zero_bit := 0, nal_ref_idc := r, nal_unit_type := 7\<rparr>)"
proof -
  have "parses read_nal_header u (u_bits 1 0 @ u_bits 2 r @ u_bits 5 7 @ [])
      (u\<lparr>forbidden_zero_bit := 0, nal_ref_idc := r, nal_unit_type := 7\<rparr>)"
    unfolding read_nal_header_def
    by (rule refl assms parses_rules | (simp add: u_ok_def; fail))+
  then show ?thesis by simp
qed

lemma read_sps_unit:
  assumes h: "h \<in> set sps_header_bytes" and bits: "concat (map byte_bits payload) = sps_bits t @ rest" "payload \<noteq> []"
    and ok: "sps_ok t" and id: "seq_parameter_set_id t < 32" "length (Sequence_Parameters_Set_Array g) = 32"
    and c: "\<forall>n. calloc_ok n"
    and u: "nal_to_rbsp u1 = Inr (int (length (h # payload)), u2)" "length (h # payload) \<le> length (nal_buf u2)"
      "take (length (h # payload)) (nal_buf u2) = h # payload"
  shows "\<exists>u3. read_nal_unit calloc_ok u1 g =
    Inr (u3, g\<lparr>Sequence_Parameters_Set_Array := (Sequence_Parameters_Set_Array g)[nat (seq_parameter_set_id t) := t]\<rparr>)"
proof -
  define n where "n = length (h # payload)"
  have n: "2 \<le> n" using bits(2) by (cases payload) (simp_all add: n_def)
  note u' = u [folded n_def]
  have "take n (nal_buf u2) ! 0 = h" using u'(3) by simp
  then have h0: "nal_buf u2 ! 0 = h" using n by simp
  let ?b = "\<lparr>bs_buf = h # payload, bs_p = 0, bits_left = 8\<rparr>"
  have new: "bs_new (calloc_ok sizeof_bs_t) (nal_buf u2) n = Inr ?b"
    using c u' by (simp add: bs_new_def bs_init_def)
  obtain r where r: "u_ok 2 r" "byte_bits h = u_bits 1 0 @ u_bits 2 r @ u_bits 5 7"
    using sps_header_bytes(3) [OF h] by blast
  have "bs_bits ?b = (u_bits 1 0 @ u_bits 2 r @ u_bits 5 7) @ (sps_bits t @ rest)"
    using r(2) bits(1) by (simp add: bs_bits_def)
  moreover have "bs_ok ?b" by (simp add: bs_ok_def)
  ultimately obtain b1 where b1: "read_nal_header (u2\<lparr>nal_len := int n\<rparr>, ?b) =
      Inr ((u2\<lparr>nal_len := int n\<rparr>)\<lparr>forbidden_zero_bit := 0, nal_ref_idc := r, nal_unit_type := 7\<rparr>, b1)"
    "bs_ok b1" "bs_bits b1 = sps_bits t @ rest"
    using parses_nal_header [OF r(1)] unfolding parses_def by blast
  let ?u = "(u2\<lparr>nal_len := int n\<rparr>)\<lparr>forbidden_zero_bit := 0, nal_ref_idc := r, nal_unit_type := 7\<rparr>"
  obtain k where k: "rbsp_to_sodb ?u = Inr k"
    using rbsp_to_sodb_returns [of ?u] n u'(2) h0 h by auto
  obtain b2 where "processSPS calloc_ok b1 g =
      Inr (b2, g\<lparr>Sequence_Parameters_Set_Array := (Sequence_Parameters_Set_Array g)[nat (seq_parameter_set_id t) := t]\<rparr>)"
    using processSPS_stores [OF ok id c b1(2,3)] by blast
  then have "dispatch_nal calloc_ok ?u b1 g =
      Inr (?u\<lparr>nal_len := k\<rparr>, g\<lparr>Sequence_Parameters_Set_Array := (Sequence_Parameters_Set_Array g)[nat (seq_parameter_set_id t) := t]\<rparr>)"
    using k by (simp add: dispatch_nal_def H264_NAL_SPS_def set_sodb_len_def)
  then show ?thesis using u'(1) new b1(1) by (simp add: read_nal_unit_def)
qed

text \<open>
  C22: A sequence parameter set that is encoded after the standard's syntax tables, as a unit between two start
  codes, is found in the stream, and reading the unit stores exactly that set under its id.
\<close>

theorem sps_unit_decoded:
  assumes "m = pre @ [0, 0, 0, 1] @ nal_bytes 0 (h # payload) @ [0, 0, 0, 1] @ after"
    and "h \<in> set sps_header_bytes" and "concat (map byte_bits payload) = sps_bits t @ rest"
    and "payload \<noteq> []" and "last payload \<noteq> 0" and "length (nal_bytes 0 (h # payload)) \<le> length (nal_buf u)"
    and "sps_ok t" and "seq_parameter_set_id t < 32" and "length (Sequence_Parameters_Set_Array g) = 32"
    and "\<forall>n. calloc_ok n"
  shows "\<exists>len u1 start i u2. find_nal_unit m u (length m) s (length pre) = Inr (len, u1, start, i) \<and> len > 0 \<and>
    read_nal_unit calloc_ok u1 g =
      Inr (u2, g\<lparr>Sequence_Parameters_Set_Array := (Sequence_Parameters_Set_Array g)[nat (seq_parameter_set_id t) := t]\<rparr>)"
proof -
  have "h # payload \<noteq> []" "last (h # payload) \<noteq> 0" using assms(4,5) by simp_all
  from unit_found [OF assms(1) this assms(6), of s]
  obtain len u1 start i u2 where f: "find_nal_unit m u (length m) s (length pre) = Inr (len, u1, start, i)" "len > 0"
    and r: "nal_to_rbsp u1 = Inr (int (length (h # payload)), u2)" "length (h # payload) \<le> length (nal_buf u2)"
      "take (length (h # payload)) (nal_buf u2) = h # payload"
    by blast
  from read_sps_unit [OF assms(2,3,4,7,8,9,10) r] f show ?thesis by blast
qed

text \<open>A set of the baseline profile for 352 x 288 pictures.\<close>

definition sps_cif :: sps_t where
  "sps_cif = sps_zero\<lparr>profile_idc := 66, level_idc := 30, seq_parameter_set_id := 1, max_num_ref_frames := 1,
     pic_width_in_mbs_minus1 := 21, pic_height_in_map_units_minus1 := 17, frame_mbs_only_flag := 1\<rparr>"

lemma sps_cif_ok: "sps_ok sps_cif"
  by (simp add: sps_ok_def sps_cif_def sps_zero_def u_ok_def ue_ok_def high_profile_def sps_chroma_absent_def
    sps_lists_ok_def sps_list_def sps_default_def sps_poc_ok_def offsets_ok_def)

theorem sps_unit_decoded_witness:
  "let payload = [0x42, 0x00, 0x1E, 0x5D, 0x02, 0xC1, 0x28, 0x80];
       m = [] @ [0, 0, 0, 1] @ nal_bytes 0 (0x67 # payload) @ [0, 0, 0, 1] @ [0x68];
       u = \<lparr>forbidden_zero_bit = 0, nal_ref_idc = 0, nal_unit_type = 0, nal_len = 0, nal_buf = replicate 16 0\<rparr>
   in \<exists>len u1 start i u2. find_nal_unit m u (length m) 0 (length ([] :: bytes)) = Inr (len, u1, start, i) \<and> len > 0 \<and>
    read_nal_unit (\<lambda>n. True) u1 h264_start =
      Inr (u2, h264_start\<lparr>Sequence_Parameters_Set_Array :=
        (Sequence_Parameters_Set_Array h264_start)[nat (seq_parameter_set_id sps_cif) := sps_cif]\<rparr>)"
  unfolding Let_def
proof (rule sps_unit_decoded [OF refl])
  show "(0x67 :: u8) \<in> set sps_header_bytes" by (simp add: sps_header_bytes_def)
  show "concat (map byte_bits [0x42, 0x00, 0x1E, 0x5D, 0x02, 0xC1, 0x28, 0x80]) =
      sps_bits sps_cif @ [True, False, False, False, False, False, False, False]"
    by code_simp
  show "sps_ok sps_cif" by (rule sps_cif_ok)
qed (simp_all add: sps_cif_def h264_start_def)


section \<open>Overflows\<close>

lemma bit_read_u1: "bit (fst (bs_read_u1 b)) j \<Longrightarrow> j = 0"
  by (auto simp: bs_read_u1_def Let_def bit_simps split: if_splits)

lemma bs_read_u_loop_high: "k \<le> j \<Longrightarrow> bit (fst (bs_read_u_loop k r b)) j = bit r j"
proof (induction k arbitrary: r b)
  case (Suc k)
  have "\<not> bit (push_bit k (fst (bs_read_u1 b))) j"
    using Suc.prems bit_read_u1 [of b "j - k"] by (auto simp: bit_simps)
  then show ?case
    using Suc.IH [of "r OR push_bit k (fst (bs_read_u1 b))" "snd (bs_read_u1 b)"] Suc.prems
    by (simp add: case_prod_beta bit_or_iff)
qed simp

lemma bs_read_u_less:
  assumes "bs_read_u b (int k) = Inr (r, b')"
  shows "unat r < 2 ^ k"
proof -
  have "\<not> bit r j" if "k \<le> j" for j
    using assms bs_read_u_loop_high [of k j 0 b] that by (auto simp: bs_read_u_def split: if_splits)
  then have "bit r j \<Longrightarrow> j < k" for j by (meson not_le)
  then have "take_bit k r = r" by (intro bit_word_eqI) (auto simp: bit_simps)
  then have "take_bit k (unat r) = unat r" by (metis unsigned_take_bit_eq)
  then show ?thesis by (metis take_bit_nat_less_exp)
qed

lemma rd_ue_bounds:
  assumes "rd_ue b = Inr (v, b')"
  shows "0 \<le> v \<and> v < 2 ^ 31 - 1"
proof -
  obtain i b1 where z: "ue_zeros 0 b = (i, b1)" by (cases "ue_zeros 0 b")
  obtain r b2 where r: "bs_read_u b1 (int i) = Inr (r, b2)" "i < 31" "v = sint (r + (push_bit i 1 - 1))"
    using assms z by (auto simp: rd_ue_def bs_read_ue_def res_simps split: if_splits)
  define n where "n = unat r + (2 ^ i - 1)"
  have "unat r < 2 ^ i" by (rule bs_read_u_less [OF r(1)])
  moreover have p: "(2 :: nat) ^ i \<le> 2 ^ 30" using r(2) by (intro power_increasing) auto
  ultimately have n: "n < 2 ^ 31 - 1" by (simp add: n_def)
  have "(of_nat (2 ^ i - 1) :: u32) = 2 ^ i - 1" by (subst of_nat_diff) simp_all
  then have "r + (push_bit i 1 - 1) = (of_nat n :: u32)"
    unfolding n_def of_nat_add by (simp add: push_bit_eq_mult)
  then have "v = int n" using r(3) n by (simp add: sint_of_nat32)
  then show ?thesis using n by simp
qed

text \<open>The first entry of a map of type 6 does not fit if the block has fewer than 4 bytes, and the last never fits.\<close>

lemma slice_group_store_room:
  "slice_group_store i v s = Inr s' \<Longrightarrow> \<exists>m m'. slice_group_id s = Some m \<and> 4 * nat i + 4 \<le> length m \<and>
     slice_group_id s' = Some m' \<and> length m' = length m"
  by (auto simp: slice_group_store_def res_simps mem_store32_def mem_store_def split: option.splits if_splits)

lemma slice_group_loop:
  "for_to k i (\<lambda>i. get_at (rd_u n) (slice_group_store i)) (s, b) = Inr (s', b') \<Longrightarrow> 0 \<le> i \<Longrightarrow> 0 < k \<Longrightarrow>
   \<exists>m. slice_group_id s = Some m \<and> 4 * (nat i + k) \<le> length m"
proof (induction k arbitrary: i s b)
  case (Suc k)
  obtain v s1 b1 where st: "slice_group_store i v s = Inr s1"
    and rest: "for_to k (i + 1) (\<lambda>i. get_at (rd_u n) (slice_group_store i)) (s1, b1) = Inr (s', b')"
    using Suc.prems(1) by (auto simp: res_simps get_at_def)
  obtain m m' where m: "slice_group_id s = Some m" "4 * nat i + 4 \<le> length m" "slice_group_id s1 = Some m'" "length m' = length m"
    using slice_group_store_room [OF st] by blast
  show ?case
  proof (cases "k = 0")
    case True
    then show ?thesis using m by simp
  next
    case False
    then show ?thesis using Suc.IH [OF rest] Suc.prems(2) m by (auto simp: nat_add_distrib)
  qed
qed simp

lemma slice_group_ids_overflow: "parse_slice_group_ids calloc_ok (s, b) \<noteq> Inr (s', b')"
proof
  assume "parse_slice_group_ids calloc_ok (s, b) = Inr (s', b')"
  then obtain n v b1 s1 where v: "rd_ue b = Inr (v, b1)"
    and s1: "s1 = s\<lparr>pic_size_in_map_units_minus1 := v, slice_group_id := Some (replicate (nat (v + 1)) 0)\<rparr>"
    and l: "for_to (nat (v + 1)) 0 (\<lambda>i. get_at (rd_u n) (slice_group_store i)) (s1, b1) = Inr (s', b')"
    by (auto simp: parse_slice_group_ids_def on_def Let_def get_def put_at_def for_less_def res_simps split: if_splits)
  have "0 < nat (v + 1)" using rd_ue_bounds [OF v] by simp
  then show False using slice_group_loop [OF l] by (simp add: s1)
qed

lemma scaling_loop_needs_flag: "scaling_loop k j l 8 sl fl fi b = Inr x \<Longrightarrow> k \<noteq> 0 \<Longrightarrow> nat fi < length fl"
  by (cases k) (auto simp: res_simps Let_def aset_def split: if_splits)

text \<open>
  Parsing a PPS with a slice group map of type 6, or with an 8x8 scaling list, always leaves the arrays: the
  map's block has one byte for each four-byte entry, and the flag of the list is indexed from 6 on.
\<close>

theorem pps_overflows:
  assumes "pps_shape s" and "6 \<le> i"
  shows "parse_slice_group_ids calloc_ok (s, b) \<noteq> Inr x \<and> pps_list8x8 i (s, b) \<noteq> Inr y"
proof
  show "parse_slice_group_ids calloc_ok (s, b) \<noteq> Inr x"
    using slice_group_ids_overflow by (cases x) blast
  show "pps_list8x8 i (s, b) \<noteq> Inr y"
    using assms
    by (cases y) (auto simp: pps_list8x8_def scaling_list_def res_simps pps_shape_def dest!: scaling_loop_needs_flag)
qed

theorem pps_overflows_witness:
  "let b = \<lparr>bs_buf = [0x2B, 0x80], bs_p = 0, bits_left = 8\<rparr> in
   parse_slice_group_ids (\<lambda>n. True) (pps_zero, b) \<noteq> Inr (pps_zero, b) \<and> pps_list8x8 7 (pps_zero, b) \<noteq> Inr (pps_zero, b)"
  unfolding Let_def by (rule pps_overflows) (simp_all add: shape_zero)

end
