(* ===== verification/Sh_Printf.thy ===== *)
theory Sh_Printf
  imports C_Prelude
begin

text \<open>
  The formatted output of the shell, \<open>common/printf.c\<close>, built without \<open>PRINTF_LONG_SUPPORT\<close>. A string is
  the list of its characters without the final NUL; output is the list of the characters given to
  \<open>putf\<close>, in order. The second part shows that the digits written are those of the number.
\<close>

section \<open>Characters\<close>

text \<open>\<open>char\<close> is signed: its value as an \<open>int\<close>.\<close>

definition schar :: "char \<Rightarrow> int" where
  "schar c = (let n = int (of_char c) in if n < 128 then n else n - 256)"

definition char_of_int :: "int \<Rightarrow> char" where
  "char_of_int n = char_of (nat (n mod 256))"

text \<open>The arguments of \<open>shell_printf\<close>, and \<open>va_arg\<close>: an argument of another type, or none, is undefined.\<close>

datatype va_item = VInt u32 | VStr string

fun va_int :: "va_item list \<Rightarrow> (u32 \<times> va_item list) cres" where
  "va_int (VInt n # va) = Inr (n, va)"
| "va_int _ = Inl C_Fault"

fun va_str :: "va_item list \<Rightarrow> (string \<times> va_item list) cres" where
  "va_str (VStr s # va) = Inr (s, va)"
| "va_str _ = Inl C_Fault"

section \<open>Numbers\<close>

text \<open>\<open>while (num/d >= base) d *= base;\<close>\<close>

fun ui2a_scale :: "nat \<Rightarrow> u32 \<Rightarrow> u32 \<Rightarrow> u32 \<Rightarrow> u32 cres" where
  "ui2a_scale 0 num base d = Inl C_Fuel"
| "ui2a_scale (Suc k) num base d =
     (if d = 0 then Inl C_Fault
      else if num div d \<ge> base then ui2a_scale k num base (d * base) else Inr d)"

definition digit_char :: "bool \<Rightarrow> int \<Rightarrow> char" where
  "digit_char uc dgt = char_of_int (dgt +
     (if dgt < 10 then schar (CHR ''0'') else (if uc then schar (CHR ''A'') else schar (CHR ''a'')) - 10))"

text \<open>\<open>while (d != 0) ...\<close>; the result is what \<open>bf\<close> receives before the NUL.\<close>

fun ui2a_digits :: "nat \<Rightarrow> u32 \<Rightarrow> u32 \<Rightarrow> bool \<Rightarrow> int \<Rightarrow> u32 \<Rightarrow> string cres" where
  "ui2a_digits 0 num base uc n d = Inl C_Fuel"
| "ui2a_digits (Suc k) num base uc n d =
     (if d = 0 then Inr []
      else if base = 0 then Inl C_Fault
      else
        let dgt = sint (num div d); num = num mod d; d = d div base in
        if n \<noteq> 0 \<or> dgt > 0 \<or> d = 0
        then rbind (ui2a_digits k num base uc (n + 1) d) (\<lambda>s. Inr (digit_char uc dgt # s))
        else ui2a_digits k num base uc n d)"

definition ui2a :: "u32 \<Rightarrow> u32 \<Rightarrow> bool \<Rightarrow> string cres" where
  "ui2a num base uc = rbind (ui2a_scale 33 num base 1) (ui2a_digits 33 num base uc 0)"

text \<open>\<open>-INT_MIN\<close> overflows.\<close>

definition i2a :: "u32 \<Rightarrow> string cres" where
  "i2a num =
     (if sint num < 0
      then rbind (c_int (- sint num)) (\<lambda>n. rbind (ui2a (word_of_int n) 10 False) (\<lambda>s. Inr (CHR ''-'' # s)))
      else ui2a num 10 False)"

definition a2d :: "char \<Rightarrow> int" where
  "a2d ch =
     (let c = schar ch in
      if c \<ge> schar (CHR ''0'') \<and> c \<le> schar (CHR ''9'') then c - schar (CHR ''0'')
      else if c \<ge> schar (CHR ''a'') \<and> c \<le> schar (CHR ''f'') then c - schar (CHR ''a'') + 10
      else if c \<ge> schar (CHR ''A'') \<and> c \<le> schar (CHR ''F'') then c - schar (CHR ''A'') + 10
      else -1)"

text \<open>\<open>*p++\<close>; the NUL is the last character a caller looks at.\<close>

definition next_char :: "string \<Rightarrow> char \<times> string" where
  "next_char s = (case s of [] \<Rightarrow> (CHR 0x00, []) | c # s \<Rightarrow> (c, s))"

fun a2i_loop :: "char \<Rightarrow> string \<Rightarrow> int \<Rightarrow> int \<Rightarrow> (char \<times> string \<times> int) cres" where
  "a2i_loop ch p base num =
     (let digit = a2d ch in
      if digit \<ge> 0 \<and> \<not> digit > base then
        rbind (c_int (num * base + digit))
          (\<lambda>num. case p of [] \<Rightarrow> Inr (CHR 0x00, [], num) | ch # p \<Rightarrow> a2i_loop ch p base num)
      else Inr (ch, p, num))"

declare a2i_loop.simps [simp del]

definition a2i :: "char \<Rightarrow> string \<Rightarrow> int \<Rightarrow> (char \<times> string \<times> int) cres" where
  "a2i ch src base = a2i_loop ch src base 0"

section \<open>Conversions\<close>

text \<open>\<open>while (*p++ && n > 0) n--;\<close>\<close>

fun putchw_left :: "int \<Rightarrow> string \<Rightarrow> int" where
  "putchw_left n [] = n"
| "putchw_left n (c # p) = (if n > 0 then putchw_left (n - 1) p else n)"

definition putchw :: "int \<Rightarrow> bool \<Rightarrow> string \<Rightarrow> string" where
  "putchw n z bf = replicate (nat (putchw_left n bf)) (if z then CHR ''0'' else CHR '' '') @ bf"

text \<open>\<open>char bf[12]\<close>, the NUL included.\<close>

definition into_bf :: "string cres \<Rightarrow> string cres" where
  "into_bf r = rbind r (\<lambda>s. if length s < 12 then Inr s else Inl C_Fault)"

text \<open>What follows a \<open>%\<close>: the conversion character, zero padding and the width.\<close>

definition format_spec :: "string \<Rightarrow> (char \<times> bool \<times> int \<times> string) cres" where
  "format_spec fmt =
     (let (ch, fmt) = next_char fmt;
          (ch, fmt, lz) = (if ch = CHR ''0'' then let (ch, fmt) = next_char fmt in (ch, fmt, True) else (ch, fmt, False))
      in if schar ch \<ge> schar (CHR ''0'') \<and> schar ch \<le> schar (CHR ''9'')
         then rbind (a2i ch fmt 10) (\<lambda>(ch, fmt, w). Inr (ch, lz, w, fmt))
         else Inr (ch, lz, 0, fmt))"

definition format_conv :: "char \<Rightarrow> bool \<Rightarrow> int \<Rightarrow> va_item list \<Rightarrow> (string \<times> va_item list) cres" where
  "format_conv ch lz w va =
     (if ch = CHR ''u'' then
        rbind (va_int va) (\<lambda>(n, va). rbind (into_bf (ui2a n 10 False)) (\<lambda>bf. Inr (putchw w lz bf, va)))
      else if ch = CHR ''d'' then
        rbind (va_int va) (\<lambda>(n, va). rbind (into_bf (i2a n)) (\<lambda>bf. Inr (putchw w lz bf, va)))
      else if ch = CHR ''x'' \<or> ch = CHR ''X'' then
        rbind (va_int va) (\<lambda>(n, va). rbind (into_bf (ui2a n 16 (ch = CHR ''X''))) (\<lambda>bf. Inr (putchw w lz bf, va)))
      else if ch = CHR ''c'' then
        rbind (va_int va) (\<lambda>(n, va). Inr ([char_of_int (sint n)], va))
      else if ch = CHR ''s'' then
        rbind (va_str va) (\<lambda>(s, va). Inr (putchw w False s, va))
      else if ch = CHR ''%'' then Inr ([ch], va)
      else Inr ([], va))"

lemma a2i_loop_shorter: "a2i_loop ch p base num = Inr (ch', p', num') \<Longrightarrow> length p' \<le> length p"
proof (induction p arbitrary: ch num)
  case Nil
  then show ?case by (subst (asm) a2i_loop.simps) (auto simp: res_simps Let_def split: if_splits)
next
  case (Cons c p)
  then show ?case
    by (subst (asm) a2i_loop.simps) (fastforce simp: res_simps Let_def split: if_splits intro: le_SucI)
qed

lemma format_spec_shorter: "format_spec fmt = Inr (ch, lz, w, fmt') \<Longrightarrow> length fmt' \<le> length fmt"
  unfolding format_spec_def next_char_def a2i_def
  by (auto simp: res_simps Let_def split: list.splits if_splits dest!: a2i_loop_shorter)

function tfp_format :: "string \<Rightarrow> va_item list \<Rightarrow> string cres" where
  "tfp_format [] va = Inr []"
| "tfp_format (ch # fmt) va =
     (if ch \<noteq> CHR ''%'' then rbind (tfp_format fmt va) (\<lambda>s. Inr (ch # s))
      else rbind (format_spec fmt) (\<lambda>(ch, lz, w, fmt).
        if ch = CHR 0x00 then Inr []
        else rbind (format_conv ch lz w va) (\<lambda>(out, va).
          rbind (tfp_format fmt va) (\<lambda>s. Inr (out @ s)))))"
  by pat_completeness auto
termination
  by (relation "measure (length o fst)") (auto dest: format_spec_shorter)

section \<open>Reference definitions\<close>

text \<open>The digits of a number, and its decimal text.\<close>

fun digits :: "nat \<Rightarrow> nat \<Rightarrow> nat list" where
  "digits b n = (if b < 2 \<or> n < b then [n] else digits b (n div b) @ [n mod b])"

declare digits.simps [simp del]

fun of_digits :: "nat \<Rightarrow> nat list \<Rightarrow> nat" where
  "of_digits b ds = foldl (\<lambda>n d. n * b + d) 0 ds"

text \<open>The same from the most significant digit, \<open>k + 1\<close> of them.\<close>

fun digits_from :: "nat \<Rightarrow> nat \<Rightarrow> nat \<Rightarrow> nat list" where
  "digits_from b 0 n = [n]"
| "digits_from b (Suc k) n = n div b ^ Suc k # digits_from b k (n mod b ^ Suc k)"

definition digits_text :: "bool \<Rightarrow> nat \<Rightarrow> nat \<Rightarrow> string" where
  "digits_text uc b n = map (\<lambda>d. digit_char uc (int d)) (digits b n)"

section \<open>The digits written\<close>

lemma digits_from_last: "digits_from b (Suc k) n = digits_from b k (n div b) @ [n mod b]"
proof (induction k arbitrary: n)
  case (Suc k)
  have "(n mod (b * (b * b ^ k))) div b = (n div b) mod (b * b ^ k)"
    by (cases "b = 0") (simp_all add: mod_mult2_eq)
  then show ?case
    using Suc [of "n mod (b * (b * b ^ k))"]
    by (simp add: div_mult2_eq mod_mod_cancel)
qed simp

lemma digits_from_digits:
  assumes "2 \<le> b"
  shows "n < b ^ Suc k \<Longrightarrow> k = 0 \<or> b ^ k \<le> n \<Longrightarrow> digits_from b k n = digits b n"
proof (induction k arbitrary: n)
  case 0
  then show ?case by (subst digits.simps) simp
next
  case (Suc k)
  have le: "b ^ Suc k \<le> n" using Suc.prems by simp
  have "b \<le> b ^ Suc k" using assms by simp
  then have "b \<le> n" using le by linarith
  moreover have "n div b < b ^ Suc k" "b ^ k \<le> n div b"
    using Suc.prems le assms by (simp_all add: less_mult_imp_div_less less_eq_div_iff_mult_less_eq mult.commute)
  ultimately show ?case
    using Suc.IH [of "n div b"] assms by (subst digits.simps) (simp add: digits_from_last del: digits_from.simps)
qed

lemma unat_u32: "unat (n::u32) < 4294967296"
proof -
  have "unat n < 2 ^ LENGTH(32)" by (rule unsigned_less)
  then show ?thesis by simp
qed

lemma ui2a_scale_power:
  assumes b: "2 \<le> unat base"
  shows "unat d = unat base ^ k \<Longrightarrow> k + fuel > 32 \<Longrightarrow> k = 0 \<or> unat base ^ k \<le> unat num \<Longrightarrow>
    \<exists>d' k'. ui2a_scale fuel num base d = Inr d' \<and> unat d' = unat base ^ k' \<and> k' < 32 \<and>
      unat num < unat base ^ Suc k' \<and> (k' = 0 \<or> unat base ^ k' \<le> unat num)"
proof (induction fuel arbitrary: d k)
  case 0
  have "(2::nat) ^ 32 \<le> 2 ^ k" by (rule power_increasing) (use 0 in auto)
  also have "\<dots> \<le> unat base ^ k" using b by (rule power_mono) simp
  also have "\<dots> \<le> unat num" using 0 by simp
  finally show ?case using unat_u32 [of num] by simp
next
  case (Suc fuel)
  have d0: "d \<noteq> 0" using Suc.prems b by (metis not_numeral_le_zero power_not_zero unsigned_0)
  show ?case
  proof (cases "num div d \<ge> base")
    case True
    then have "unat base \<le> unat num div unat d" by (simp add: word_le_nat_alt unat_div)
    then have le: "unat base ^ Suc k \<le> unat num"
      using Suc.prems(1) d0 b by (simp add: less_eq_div_iff_mult_less_eq)
    then have "unat (d * base) = unat base ^ Suc k"
      using Suc.prems(1) unat_u32 [of num] by (simp add: unat_word_ariths mult.commute)
    then show ?thesis
      using Suc.IH [of "d * base" "Suc k"] Suc.prems le d0 True by simp
  next
    case False
    then have "unat num div unat d < unat base" by (simp add: word_le_nat_alt unat_div not_le)
    then have "unat num < unat base ^ Suc k"
      using Suc.prems(1) b by (simp add: div_less_iff_less_mult mult.commute)
    moreover have "k < 32"
    proof (rule ccontr)
      assume "\<not> k < 32"
      then have "(2::nat) ^ 32 \<le> 2 ^ k" by (intro power_increasing) auto
      also have "\<dots> \<le> unat base ^ k" using b by (rule power_mono) simp
      finally show False using Suc.prems(1) unat_u32 [of d] by simp
    qed
    ultimately show ?thesis using Suc.prems d0 False by auto
  qed
qed

lemma ui2a_digits_from:
  assumes b: "2 \<le> unat base" "unat base < 2 ^ 31"
  shows "unat d = unat base ^ k \<Longrightarrow> unat num < unat base ^ Suc k \<Longrightarrow> k + 1 < fuel \<Longrightarrow>
    n > 0 \<or> k = 0 \<or> unat base ^ k \<le> unat num \<Longrightarrow> n \<ge> 0 \<Longrightarrow>
    ui2a_digits fuel num base uc n d =
      Inr (map (\<lambda>d. digit_char uc (int d)) (digits_from (unat base) k (unat num)))"
proof (induction k arbitrary: fuel num d n)
  case 0
  obtain f where f: "fuel = Suc (Suc f)" using 0 by (metis Suc_less_eq2 add_0 less_imp_Suc_add plus_1_eq_Suc)
  have d: "d = 1" using 0 by (simp add: word_unat_eq_iff)
  have "sint num = int (unat num)" using 0 b by (simp add: sint_small)
  moreover have "base \<noteq> 0" using b by auto
  moreover have "(1::u32) div base = 0" using b by (simp add: word_unat_eq_iff unat_div)
  ultimately show ?case by (simp add: f d)
next
  case (Suc k)
  obtain f where f: "fuel = Suc f" using Suc.prems by (cases fuel) auto
  have b0: "base \<noteq> 0" using b by auto
  have d0: "d \<noteq> 0" using Suc.prems b by (metis not_numeral_le_zero power_not_zero unsigned_0)
  have dgt: "unat (num div d) = unat num div unat base ^ Suc k"
    by (simp add: unat_div Suc.prems(1))
  have "unat num div unat base ^ Suc k < unat base"
    using Suc.prems b by (simp add: div_less_iff_less_mult mult.commute)
  then have s: "sint (num div d) = int (unat num div unat base ^ Suc k)"
    using b dgt by (simp add: sint_small)
  have pos: "n \<noteq> 0 \<or> sint (num div d) > 0"
  proof -
    have "0 < n \<or> unat base ^ Suc k \<le> unat num" using Suc.prems by auto
    then show ?thesis unfolding s using b by (auto simp: div_greater_zero_iff)
  qed
  have d1: "unat (d div base) = unat base ^ k"
    using Suc.prems(1) b by (simp add: unat_div)
  have num1: "unat (num mod d) = unat num mod unat base ^ Suc k"
    by (simp add: unat_mod Suc.prems(1))
  have "ui2a_digits f (num mod d) base uc (n + 1) (d div base) =
      Inr (map (\<lambda>d. digit_char uc (int d)) (digits_from (unat base) k (unat (num mod d))))"
    by (rule Suc.IH) (use d1 num1 Suc.prems f b in \<open>auto\<close>)
  then show ?case using pos by (auto simp: f d0 b0 s num1 Let_def)
qed

theorem ui2a_text:
  assumes "2 \<le> unat base" and "unat base < 2 ^ 31"
  shows "ui2a num base uc = Inr (digits_text uc (unat base) (unat num))"
proof -
  obtain d k where d: "ui2a_scale 33 num base 1 = Inr d" "unat d = unat base ^ k" "k < 32"
      "unat num < unat base ^ Suc k" "k = 0 \<or> unat base ^ k \<le> unat num"
    using ui2a_scale_power [OF assms(1), of 1 0 33 num] by auto
  have "ui2a_digits 33 num base uc 0 d =
      Inr (map (\<lambda>d. digit_char uc (int d)) (digits_from (unat base) k (unat num)))"
    by (rule ui2a_digits_from [OF assms]) (use d in auto)
  then show ?thesis
    using d digits_from_digits [OF assms(1) d(4,5)] by (simp add: ui2a_def digits_text_def)
qed

section \<open>Lengths and values\<close>

lemma length_digits: "2 \<le> b \<Longrightarrow> n < b ^ Suc k \<Longrightarrow> length (digits b n) \<le> Suc k"
proof (induction k arbitrary: n)
  case 0
  then show ?case by (subst digits.simps) simp
next
  case (Suc k)
  then have "n div b < b ^ Suc k" by (simp add: less_mult_imp_div_less mult.commute)
  then show ?case using Suc by (subst digits.simps) simp
qed

lemma of_digits_digits: "of_digits b (digits b n) = n"
  by (induction b n rule: digits.induct) (subst digits.simps, simp)

lemma length_decimal: "length (digits_text uc 10 (unat (n::u32))) \<le> 10"
  using length_digits [of 10 "unat n" 9] unat_u32 [of n] by (simp add: digits_text_def)

lemma length_hex: "length (digits_text uc 16 (unat (n::u32))) \<le> 8"
  using length_digits [of 16 "unat n" 7] unat_u32 [of n] by (simp add: digits_text_def)

section \<open>Formats\<close>

definition int_text :: "u32 \<Rightarrow> string" where
  "int_text n = (if sint n < 0 then CHR ''-'' # digits_text False 10 (nat (- sint n))
                 else digits_text False 10 (unat n))"

lemma i2a_text:
  assumes "sint n \<noteq> - (2 ^ 31)"
  shows "i2a n = Inr (int_text n)"
proof (cases "sint n < 0")
  case True
  have "- (2 ^ 31) \<le> sint n" using sint_ge [of n] by simp
  then have r: "0 < - sint n" "- sint n < 2 ^ 31" using True assms by auto
  then have "c_int (- sint n) = Inr (- sint n)" by (simp add: c_int_def)
  moreover have "unat (word_of_int (- sint n) :: u32) = nat (- sint n)"
    using r by (simp add: unsigned_of_int take_bit_int_eq_self del: of_int_minus)
  ultimately show ?thesis
    using True by (simp add: i2a_def int_text_def ui2a_text del: of_int_minus)
qed (simp add: i2a_def int_text_def ui2a_text)

lemma length_int_text:
  assumes "sint n \<noteq> - (2 ^ 31)"
  shows "length (int_text n) < 12"
proof (cases "sint n < 0")
  case True
  have "- (2 ^ 31) \<le> sint n" using sint_ge [of n] by simp
  then have "nat (- sint n) < 10 ^ Suc 9" by simp
  then show ?thesis using length_digits [of 10 "nat (- sint n)" 9] True
    by (simp add: int_text_def digits_text_def)
next
  case False
  then show ?thesis using length_decimal [of False n] by (simp add: int_text_def)
qed

lemma putchw_left: "0 \<le> n \<Longrightarrow> putchw_left n s = int (nat n - length s)"
  by (induction n s rule: putchw_left.induct) (auto simp: nat_diff_distrib')

lemma putchw_text [simp]:
  "0 \<le> n \<Longrightarrow> putchw n z s = replicate (nat n - length s) (if z then CHR ''0'' else CHR '' '') @ s"
  by (simp add: putchw_def putchw_left)

lemma tfp_format_literal:
  "CHR ''%'' \<notin> set s \<Longrightarrow> tfp_format (s @ fmt) va = rbind (tfp_format fmt va) (\<lambda>out. Inr (s @ out))"
proof (induction s)
  case Nil
  then show ?case by (cases "tfp_format fmt va") auto
qed (auto simp: rbind_assoc)

lemma tfp_format_plain: "CHR ''%'' \<notin> set s \<Longrightarrow> tfp_format s va = Inr s"
  using tfp_format_literal [of s "[]" va] by simp

lemma tfp_format_s [simp]:
  "tfp_format (CHR ''%'' # CHR ''s'' # fmt) (VStr x # va) = rbind (tfp_format fmt va) (\<lambda>out. Inr (x @ out))"
  by (simp add: format_spec_def next_char_def schar_def format_conv_def)

lemma tfp_format_d:
  "sint n \<noteq> - (2 ^ 31) \<Longrightarrow> tfp_format (CHR ''%'' # CHR ''d'' # fmt) (VInt n # va) =
     rbind (tfp_format fmt va) (\<lambda>out. Inr (int_text n @ out))"
  by (simp add: format_spec_def next_char_def schar_def format_conv_def i2a_text into_bf_def length_int_text)

section \<open>Widths\<close>

abbreviation dec :: "nat \<Rightarrow> char" where
  "dec d \<equiv> digit_char False (int d)"

lemma of_char_dec: "d < 10 \<Longrightarrow> schar (dec d) = 48 + int d"
  by (simp add: schar_def digit_char_def char_of_int_def)

lemma a2d_dec: "d < 10 \<Longrightarrow> a2d (dec d) = int d"
  by (simp add: a2d_def of_char_dec) (simp add: schar_def)

lemma a2i_loop_digits:
  assumes t: "a2d t < 0 \<or> a2d t > 10"
  shows "\<forall>d \<in> set ds. d < 10 \<Longrightarrow> foldl (\<lambda>n d. n * 10 + d) v ds < 2 ^ 31 \<Longrightarrow>
    map dec ds @ t # rest = c # cs \<Longrightarrow>
    a2i_loop c cs 10 (int v) = Inr (t, rest, int (foldl (\<lambda>n d. n * 10 + d) v ds))"
proof (induction ds arbitrary: v c cs)
  case Nil
  then show ?case using t by (subst a2i_loop.simps) auto
next
  case (Cons d ds)
  have mono: "(u::nat) \<le> foldl (\<lambda>n d. n * 10 + d) u xs" for u xs
  proof (induction xs arbitrary: u)
    case (Cons a xs)
    show ?case using Cons [of "u * 10 + a"] by simp
  qed simp
  have "v * 10 + d < 2 ^ 31"
    using Cons.prems(2) mono [of "v * 10 + d" ds] by simp
  then have ci: "c_int (int v * 10 + int d) = Inr (int (v * 10 + d))" by (simp add: c_int_def)
  obtain c' cs' where cs: "map dec ds @ t # rest = c' # cs'" by (cases ds) auto
  have "a2i_loop c' cs' 10 (int (v * 10 + d)) = Inr (t, rest, int (foldl (\<lambda>n d. n * 10 + d) v (d # ds)))"
    using Cons.IH [OF _ _ cs, of "v * 10 + d"] Cons.prems by simp
  moreover have "c = dec d" "cs = c' # cs'" using Cons.prems(3) cs by auto
  ultimately show ?case
    using Cons.prems(1) ci by (subst a2i_loop.simps) (simp add: a2d_dec)
qed

lemma digits_less: "d \<in> set (digits b n) \<Longrightarrow> 2 \<le> b \<Longrightarrow> d < b"
  by (induction b n rule: digits.induct) (subst (asm) (2) digits.simps, auto split: if_splits)

lemma digits_first: "0 < n \<Longrightarrow> 2 \<le> b \<Longrightarrow> \<exists>d ds. digits b n = d # ds \<and> d \<noteq> 0"
proof (induction b n rule: digits.induct)
  case (1 b n)
  show ?case
  proof (cases "n < b")
    case False
    then show ?thesis using 1 by (subst digits.simps) (auto simp: div_greater_zero_iff)
  qed (use 1 in \<open>subst digits.simps; simp\<close>)
qed

lemma format_spec_width:
  assumes w: "0 < w" "w < 2 ^ 31" and t: "a2d t < 0 \<or> a2d t > 10"
  shows "format_spec (digits_text False 10 w @ t # rest) = Inr (t, False, int w, rest)"
proof -
  obtain d ds where ds: "digits 10 w = d # ds" "d \<noteq> 0" using digits_first [of w 10] w by auto
  have less: "\<forall>d \<in> set (digits 10 w). d < 10" using digits_less [of _ 10 w] by simp
  have "a2i (dec d) (map dec ds @ t # rest) 10 = Inr (t, rest, int w)"
    using a2i_loop_digits [OF t less, of 0 rest "dec d" "map dec ds @ t # rest"] w of_digits_digits [of 10 w]
    by (simp add: a2i_def ds)
  moreover have "d < 10" using less ds by simp
  moreover have "dec d \<noteq> CHR ''0''"
    using of_char_dec [OF \<open>d < 10\<close>] ds by (auto simp: schar_def)
  ultimately show ?thesis
    by (simp add: format_spec_def next_char_def digits_text_def ds of_char_dec) (simp add: schar_def)
qed

text \<open>A width and \<open>%d\<close>, as the conversion of a whole format.\<close>

lemma tfp_format_width_d:
  assumes "0 < w" "w < 2 ^ 31" "sint n \<noteq> - (2 ^ 31)"
  shows "tfp_format (''%'' @ digits_text False 10 w @ ''d'') [VInt n] =
    Inr (replicate (w - length (int_text n)) CHR '' '' @ int_text n)"
proof -
  have "format_spec (digits_text False 10 w @ ''d'') = Inr (CHR ''d'', False, int w, [])"
    using assms by (intro format_spec_width) (simp_all add: a2d_def schar_def)
  then show ?thesis
    using assms by (simp add: format_conv_def i2a_text into_bf_def length_int_text)
qed

end
