(* ===== verification/Sh_Edit.thy ===== *)
theory Sh_Edit
  imports Sh_Printf "HOL-Library.Signed_Division"
begin

text \<open>
  The line editor of the shell: \<open>read_input\<close> and the functions it calls (shell/shell.c), on the terminal of
  common/uart.c. The line is kept in two arrays: what is left of the cursor at the front of one, what is
  right of it at the back of the other.
\<close>

section \<open>Constants and state\<close>

abbreviation NUL :: char where "NUL \<equiv> CHR 0x00"
abbreviation BS :: char where "BS \<equiv> CHR 0x08"
abbreviation CR :: char where "CR \<equiv> CHR 0x0D"
abbreviation LF :: char where "LF \<equiv> CHR 0x0A"
abbreviation crlf :: string where "crlf \<equiv> [CR, LF]"

definition COMMAND_BUF_SIZE :: nat where "COMMAND_BUF_SIZE = 2048"
definition HISTORY_MAXITEMS :: nat where "HISTORY_MAXITEMS = 50"
definition MAX_KEY_WORD_SIZE :: nat where "MAX_KEY_WORD_SIZE = 32"
definition MAX_KEY_WORD_CNT :: nat where "MAX_KEY_WORD_CNT = 1024"

definition KEY_UP :: char where "KEY_UP = CHR 0x41"
definition KEY_DOWN :: char where "KEY_DOWN = CHR 0x42"
definition KEY_RIGHT :: char where "KEY_RIGHT = CHR 0x43"
definition KEY_LEFT :: char where "KEY_LEFT = CHR 0x44"
definition KEY_DEL :: char where "KEY_DEL = CHR 0x33"
definition KEY_BACKSPACE :: char where "KEY_BACKSPACE = CHR 0x7F"

lemmas key_codes = KEY_UP_def KEY_DOWN_def KEY_RIGHT_def KEY_LEFT_def KEY_DEL_def KEY_BACKSPACE_def

record cmd_records_t =
  cmd_idx :: int
  level :: int
  cmd_buf :: "string list"

record shell_keywords_t =
  keywords_cnt :: int
  keywords_buf :: "string list"

text \<open>
  The globals of shell.c, the characters the terminal has still to deliver and those written to it, and
  the state of the file system behind the commands of fs/vfat.c.
\<close>

record 'fs shell =
  shell_should_exit :: int
  cmd_records :: cmd_records_t
  shell_keywords :: shell_keywords_t
  prompt :: string
  getch_in :: string
  console :: string
  fs_state :: 'fs

section \<open>The terminal and the memory functions\<close>

text \<open>At the end of the input \<open>getchar\<close> returns \<open>EOF\<close>, which the callers store in a \<open>char\<close>.\<close>

definition shell_getch :: "'fs shell \<Rightarrow> char \<times> 'fs shell" where
  "shell_getch sh =
     (case getch_in sh of
        [] \<Rightarrow> (CHR 0xFF, sh)
      | c # cs \<Rightarrow> (c, sh\<lparr>getch_in := cs\<rparr>))"

definition shell_putchar :: "char \<Rightarrow> 'fs shell \<Rightarrow> 'fs shell" where
  "shell_putchar ch sh = sh\<lparr>console := console sh @ [ch]\<rparr>"

definition putchars :: "string \<Rightarrow> 'fs shell \<Rightarrow> 'fs shell" where
  "putchars s sh = fold shell_putchar s sh"

definition shell_printf :: "string \<Rightarrow> va_item list \<Rightarrow> 'fs shell \<Rightarrow> 'fs shell cres" where
  "shell_printf fmt va sh = rbind (tfp_format fmt va) (\<lambda>s. Inr (putchars s sh))"

text \<open>A C string in an array; reading on without a NUL leaves the array.\<close>

definition c_str :: "string \<Rightarrow> string cres" where
  "c_str m = (if NUL \<in> set m then Inr (takeWhile (\<lambda>c. c \<noteq> NUL) m) else Inl C_Fault)"

definition sh_strlen :: "string \<Rightarrow> int cres" where
  "sh_strlen str = rbind (c_str str) (\<lambda>s. Inr (int (length s)))"

text \<open>An array as \<open>sh_memset(p, 0, size)\<close> leaves it.\<close>

definition zeros :: "nat \<Rightarrow> string" where
  "zeros n = replicate n NUL"

definition sh_memcpy :: "string \<Rightarrow> string \<Rightarrow> int \<Rightarrow> string cres" where
  "sh_memcpy dst src n = rbind (mem_load src 0 (nat n)) (mem_store dst 0)"

section \<open>The line\<close>

text \<open>\<open>input\<close>, \<open>i\<close>, \<open>expand_buf\<close> and \<open>ie\<close> of \<open>read_input\<close>; the key handlers get them by reference.\<close>

record edit_t =
  line_buf :: string
  line_i :: int
  expand_buf :: string
  line_ie :: int

text \<open>The characters of \<open>for (ii = ie + 1; expand_buf[ii] > 0; ii++)\<close>.\<close>

fun positive_run :: "string \<Rightarrow> string cres" where
  "positive_run [] = Inl C_Fault"
| "positive_run (c # cs) =
     (if schar c > 0 then rbind (positive_run cs) (\<lambda>s. Inr (c # s)) else Inr [])"

definition expanded :: "edit_t \<Rightarrow> string cres" where
  "expanded e = (if 0 \<le> line_ie e + 1 then positive_run (drop (nat (line_ie e + 1)) (expand_buf e))
                 else Inl C_Fault)"

definition key_backspace_process :: "edit_t \<Rightarrow> 'fs shell \<Rightarrow> (edit_t \<times> 'fs shell) cres" where
  "key_backspace_process e sh =
     (if line_i e > 0 then
        let sh = shell_putchar BS sh in
        rbind (aget (expand_buf e) (line_ie e + 1)) (\<lambda>c.
        rbind
          (if schar c > 0 then
             rbind (expanded e) (\<lambda>r.
               let sh = putchars r sh;
                   sh = shell_putchar (CHR '' '') sh;
                   sh = putchars (replicate (length r) BS) sh
               in Inr (shell_putchar BS sh))
           else Inr (shell_putchar BS (shell_putchar (CHR '' '') sh))) (\<lambda>sh.
        rbind (aset (line_buf e) (line_i e) NUL) (\<lambda>b.
        Inr (e\<lparr>line_buf := b, line_i := line_i e - 1\<rparr>, sh))))
      else Inr (e, sh))"

definition key_left_process :: "edit_t \<Rightarrow> 'fs shell \<Rightarrow> (edit_t \<times> 'fs shell) cres" where
  "key_left_process e sh =
     (if line_i e > 0 then
        let sh = shell_putchar BS sh; i = line_i e - 1 in
        rbind (aget (line_buf e) i) (\<lambda>c.
        rbind (aset (expand_buf e) (line_ie e) c) (\<lambda>x.
        rbind (aset (line_buf e) i NUL) (\<lambda>b.
        Inr (e\<lparr>line_buf := b, line_i := i, expand_buf := x, line_ie := line_ie e - 1\<rparr>, sh))))
      else Inr (e, sh))"

definition key_right_process :: "edit_t \<Rightarrow> 'fs shell \<Rightarrow> (edit_t \<times> 'fs shell) cres" where
  "key_right_process e sh =
     rbind (aget (expand_buf e) (line_ie e + 1)) (\<lambda>c.
     if schar c > 0 then
       let sh = shell_putchar c sh in
       rbind (aset (line_buf e) (line_i e) c) (\<lambda>b.
       rbind (aset (expand_buf e) (line_ie e + 1) NUL) (\<lambda>x.
       Inr (e\<lparr>line_buf := b, line_i := line_i e + 1, expand_buf := x, line_ie := line_ie e + 1\<rparr>, sh)))
     else Inr (e, sh))"

definition key_del_process :: "edit_t \<Rightarrow> 'fs shell \<Rightarrow> (edit_t \<times> 'fs shell) cres" where
  "key_del_process e sh =
     rbind (aget (expand_buf e) (line_ie e + 1)) (\<lambda>c.
     if schar c > 0
     then rbind (key_right_process e sh) (\<lambda>(e, sh). key_backspace_process e sh)
     else Inr (e, sh))"

text \<open>C's \<open>%\<close> takes the sign of the dividend.\<close>

definition history_process :: "int \<Rightarrow> edit_t \<Rightarrow> 'fs shell \<Rightarrow> (edit_t \<times> 'fs shell) cres" where
  "history_process offset e sh =
     (let idx = (cmd_idx (cmd_records sh) + offset) smod int HISTORY_MAXITEMS;
          n = nat (line_i e);
          sh = putchars (replicate n BS) sh;
          sh = putchars (replicate n (CHR '' '')) sh
      in
      rbind (expanded e) (\<lambda>r.
        let sh = putchars (replicate (length r) (CHR '' '')) sh;
            sh = putchars (replicate n BS) sh;
            sh = putchars (replicate (length r) BS) sh;
            e = e\<lparr>expand_buf := zeros COMMAND_BUF_SIZE, line_ie := int COMMAND_BUF_SIZE - 2\<rparr>
        in
        rbind (aget (cmd_buf (cmd_records sh)) idx) (\<lambda>row.
        rbind (sh_memcpy (line_buf e) row (int COMMAND_BUF_SIZE)) (\<lambda>b.
        rbind (c_str b) (\<lambda>s.
        Inr (e\<lparr>line_buf := b, line_i := int (length s)\<rparr>, putchars s sh))))))"

section \<open>Completion\<close>

text \<open>
  Whether the loop over \<open>in\<close> reaches its end: each character is compared with the keyword's, which must
  exist.
\<close>

fun keyword_starts :: "string \<Rightarrow> string \<Rightarrow> bool cres" where
  "keyword_starts [] row = Inr True"
| "keyword_starts (c # cs) [] = Inl C_Fault"
| "keyword_starts (c # cs) (d # ds) = (if c \<noteq> d then Inr False else keyword_starts cs ds)"

text \<open>The indices stored in \<open>idxs\<close>, with \<open>k\<close> keywords left from \<open>i\<close>.\<close>

fun find_match_from :: "nat \<Rightarrow> int \<Rightarrow> string \<Rightarrow> string list \<Rightarrow> int list cres" where
  "find_match_from 0 i s kws = Inr []"
| "find_match_from (Suc k) i s kws =
     rbind (aget kws i) (\<lambda>row.
     rbind (keyword_starts s row) (\<lambda>m.
     rbind (find_match_from k (i + 1) s kws) (\<lambda>idxs.
     Inr (if m then i # idxs else idxs))))"

definition find_match :: "string \<Rightarrow> 'fs shell \<Rightarrow> int list cres" where
  "find_match s sh =
     find_match_from (nat (keywords_cnt (shell_keywords sh))) 0 s (keywords_buf (shell_keywords sh))"

text \<open>The loop that copies what follows the last blank to \<open>tmp\<close>, with \<open>k\<close> characters left.\<close>

fun last_word_loop :: "nat \<Rightarrow> int \<Rightarrow> string \<Rightarrow> string \<Rightarrow> int \<Rightarrow> int \<Rightarrow> (string \<times> int \<times> int) cres" where
  "last_word_loop 0 i buf tmp itmp blank_pos = Inr (tmp, itmp, blank_pos)"
| "last_word_loop (Suc k) i buf tmp itmp blank_pos =
     rbind (aget buf i) (\<lambda>c.
     if c = CHR '' '' then last_word_loop k (i + 1) buf tmp 0 i
     else rbind (aset tmp itmp c) (\<lambda>tmp. last_word_loop k (i + 1) buf tmp (itmp + 1) blank_pos))"

text \<open>\<open>shell_printf("%s  ", ...)\<close> for every match.\<close>

fun print_matches :: "int list \<Rightarrow> 'fs shell \<Rightarrow> 'fs shell cres" where
  "print_matches [] sh = Inr sh"
| "print_matches (idx # idxs) sh =
     rbind (aget (keywords_buf (shell_keywords sh)) idx) (\<lambda>row.
     rbind (c_str row) (\<lambda>kw.
     rbind (shell_printf ''%s  '' [VStr kw] sh) (print_matches idxs)))"

text \<open>The loop that appends the rest of the keyword, with \<open>k\<close> characters left.\<close>

fun append_rest :: "string \<Rightarrow> edit_t \<Rightarrow> 'fs shell \<Rightarrow> (edit_t \<times> 'fs shell) cres" where
  "append_rest [] e sh = Inr (e, sh)"
| "append_rest (c # cs) e sh =
     rbind (aset (line_buf e) (line_i e) c) (\<lambda>b.
     append_rest cs (e\<lparr>line_buf := b, line_i := line_i e + 1\<rparr>) (shell_putchar c sh))"

definition auto_complete :: "edit_t \<Rightarrow> 'fs shell \<Rightarrow> (edit_t \<times> 'fs shell) cres" where
  "auto_complete e sh =
     rbind (last_word_loop (nat (line_i e)) 0 (line_buf e) (zeros COMMAND_BUF_SIZE) 0 (-1))
       (\<lambda>(tmp, itmp, blank_pos).
     rbind (aset tmp itmp NUL) (\<lambda>tmp.
     rbind (c_str tmp) (\<lambda>w.
     rbind (find_match w sh) (\<lambda>idxs.
     if length idxs > 1 then
       rbind (shell_printf crlf [] sh) (\<lambda>sh.
       rbind (print_matches idxs sh) (\<lambda>sh.
       rbind (c_str (prompt sh)) (\<lambda>p.
       rbind (c_str (line_buf e)) (\<lambda>b.
       rbind (shell_printf (crlf @ ''%s%s'') [VStr p, VStr b] sh) (\<lambda>sh.
       Inr (e, sh))))))
     else if length idxs = 1 then
       rbind (aget (keywords_buf (shell_keywords sh)) (hd idxs)) (\<lambda>row.
       rbind (c_str row) (\<lambda>kw.
       rbind (append_rest (drop (nat (line_i e - (blank_pos + 1))) kw) e sh) (\<lambda>(e, sh).
       rbind (aset (line_buf e) (line_i e) NUL) (\<lambda>b.
       Inr (e\<lparr>line_buf := b\<rparr>, sh)))))
     else Inr (e, sh)))))"

section \<open>Reading a line\<close>

datatype key_result = Key_Continue | Key_Enter | Key_Full

text \<open>The sequences that start with the escape character.\<close>

definition read_escape :: "int \<Rightarrow> edit_t \<Rightarrow> 'fs shell \<Rightarrow> (int \<times> edit_t \<times> 'fs shell) cres" where
  "read_escape offset e sh =
     (let (c, sh) = shell_getch sh in
      if c = CHR 0x5B then
        let (c, sh) = shell_getch sh in
        if c = KEY_UP then
          let offset = offset - 1;
              offset = (if - offset > level (cmd_records sh) then - level (cmd_records sh) else offset)
          in rbind (history_process offset e sh) (\<lambda>r. Inr (offset, r))
        else if c = KEY_DOWN then
          let offset = offset + 1;
              offset = (if offset \<ge> -1 then -1 else offset)
          in rbind (history_process offset e sh) (\<lambda>r. Inr (offset, r))
        else if c = KEY_LEFT then rbind (key_left_process e sh) (\<lambda>r. Inr (offset, r))
        else if c = KEY_RIGHT then rbind (key_right_process e sh) (\<lambda>r. Inr (offset, r))
        else if c = KEY_DEL then
          let (_, sh) = shell_getch sh in rbind (key_del_process e sh) (\<lambda>r. Inr (offset, r))
        else Inr (offset, e, sh)
      else Inr (offset, e, sh))"

text \<open>An iteration of the loop.\<close>

definition read_key :: "int \<Rightarrow> edit_t \<Rightarrow> 'fs shell \<Rightarrow> (key_result \<times> int \<times> edit_t \<times> 'fs shell) cres" where
  "read_key offset e sh =
     (let (c, sh) = shell_getch sh in
      if c = LF \<or> c = CR then
        Inr (Key_Enter, offset, e, shell_putchar LF (shell_putchar CR sh))
      else if c = KEY_BACKSPACE then
        rbind (key_backspace_process e sh) (\<lambda>r. Inr (Key_Continue, offset, r))
      else if c = CHR 0x1B then
        rbind (read_escape offset e sh) (\<lambda>r. Inr (Key_Continue, r))
      else if c = CHR 0x09 then
        rbind (aset (line_buf e) (line_i e) NUL) (\<lambda>b.
        rbind (auto_complete (e\<lparr>line_buf := b\<rparr>) sh) (\<lambda>r. Inr (Key_Continue, offset, r)))
      else if line_i e \<ge> int COMMAND_BUF_SIZE then
        rbind (shell_printf (''error! input exceed COMMAND_BUF_SIZE(%d)'' @ [LF])
            [VInt (of_nat COMMAND_BUF_SIZE)] sh) (\<lambda>sh.
        Inr (Key_Full, offset, e, sh))
      else
        let sh = shell_putchar c sh in
        rbind (aset (line_buf e) (line_i e) c) (\<lambda>b.
        let e = e\<lparr>line_buf := b, line_i := line_i e + 1\<rparr> in
        rbind (expanded e) (\<lambda>r.
        let sh = putchars r sh;
            sh = putchars (replicate (length r) BS) sh
        in Inr (Key_Continue, offset, e, sh))))"

text \<open>
  Every iteration that goes on has read a character, or the input is at its end and the line has grown:
  the loop ends.
\<close>

lemma putchars_more [simp]: "putchars s sh = sh\<lparr>console := console sh @ s\<rparr>"
  unfolding putchars_def
  by (induction s arbitrary: sh) (simp_all add: shell_putchar_def)

lemma shell_putchar_more [simp]: "shell_putchar c sh = sh\<lparr>console := console sh @ [c]\<rparr>"
  by (simp add: shell_putchar_def)

lemma getch_in_printf: "shell_printf fmt va sh = Inr sh' \<Longrightarrow> getch_in sh' = getch_in sh"
  by (auto simp: shell_printf_def res_simps)

lemma getch_in_matches: "print_matches idxs sh = Inr sh' \<Longrightarrow> getch_in sh' = getch_in sh"
  by (induction idxs arbitrary: sh) (auto simp: res_simps dest!: getch_in_printf)

lemma getch_in_append: "append_rest kw e sh = Inr (e', sh') \<Longrightarrow> getch_in sh' = getch_in sh"
  by (induction kw arbitrary: e sh) (fastforce simp: res_simps)+

lemma getch_in_complete: "auto_complete e sh = Inr (e', sh') \<Longrightarrow> getch_in sh' = getch_in sh"
  unfolding auto_complete_def
  by (auto simp: res_simps split: if_splits dest!: getch_in_printf getch_in_matches getch_in_append)

lemma getch_in_keys:
  "key_backspace_process e sh = Inr (e', sh') \<Longrightarrow> getch_in sh' = getch_in sh"
  "key_left_process e sh = Inr (e', sh') \<Longrightarrow> getch_in sh' = getch_in sh"
  "key_right_process e sh = Inr (e', sh') \<Longrightarrow> getch_in sh' = getch_in sh"
  "history_process offset e sh = Inr (e', sh') \<Longrightarrow> getch_in sh' = getch_in sh"
  unfolding key_backspace_process_def key_left_process_def key_right_process_def history_process_def
  by (auto simp: res_simps Let_def split: if_splits)

lemma getch_in_del: "key_del_process e sh = Inr (e', sh') \<Longrightarrow> getch_in sh' = getch_in sh"
  unfolding key_del_process_def by (auto simp: res_simps split: if_splits dest!: getch_in_keys)

lemma getch_in_getch: "shell_getch sh = (c, sh') \<Longrightarrow> length (getch_in sh') \<le> length (getch_in sh)"
  by (auto simp: shell_getch_def split: list.splits)

lemma getch_in_escape:
  "read_escape offset e sh = Inr (offset', e', sh') \<Longrightarrow> length (getch_in sh') \<le> length (getch_in sh)"
  unfolding read_escape_def
  by (fastforce simp: res_simps Let_def split: if_splits prod.splits dest!: getch_in_keys getch_in_del getch_in_getch)

lemma read_key_progress:
  assumes "read_key offset e sh = Inr (Key_Continue, offset', e', sh')"
  shows "length (getch_in sh') < length (getch_in sh) \<or>
    getch_in sh' = getch_in sh \<and> line_i e < line_i e' \<and> line_i e < 2048"
proof (cases "getch_in sh")
  case Nil
  then show ?thesis using assms
    by (auto simp: read_key_def shell_getch_def res_simps Let_def key_codes COMMAND_BUF_SIZE_def split: if_splits)
next
  case (Cons c cs)
  then show ?thesis using assms
    by (auto simp: read_key_def shell_getch_def res_simps Let_def split: if_splits
        dest!: getch_in_keys getch_in_escape getch_in_complete getch_in_printf)
qed

function sh_read_loop :: "int \<Rightarrow> edit_t \<Rightarrow> 'fs shell \<Rightarrow> (int \<times> edit_t \<times> 'fs shell) cres" where
  "sh_read_loop offset e sh =
     rbind (read_key offset e sh) (\<lambda>(r, offset, e, sh).
       case r of
         Key_Continue \<Rightarrow> sh_read_loop offset e sh
       | Key_Full \<Rightarrow> Inr (-1, e, sh)
       | Key_Enter \<Rightarrow> Inr (0, e, sh))"
  by pat_completeness auto
termination
proof (relation "measures [\<lambda>(offset, e, sh). length (getch_in sh), \<lambda>(offset, e, sh). nat (2048 - line_i e)]", goal_cases)
  case (2 offset e sh)
  then show ?case by (auto dest!: read_key_progress)
qed simp

declare sh_read_loop.simps [simp del]

text \<open>
  After the loop what is right of the cursor is appended; \<open>input\<close> is the caller's array. The result is
  \<open>-1\<close> when the line was too long.
\<close>

fun append_expanded :: "string \<Rightarrow> string \<Rightarrow> int \<Rightarrow> (string \<times> int) cres" where
  "append_expanded [] buf i = Inr (buf, i)"
| "append_expanded (c # cs) buf i = rbind (aset buf i c) (\<lambda>buf. append_expanded cs buf (i + 1))"

definition sh_read_input :: "string \<Rightarrow> 'fs shell \<Rightarrow> (int \<times> string \<times> 'fs shell) cres" where
  "sh_read_input inp sh =
     (let e = \<lparr>line_buf = inp, line_i = 0, expand_buf = zeros COMMAND_BUF_SIZE,
               line_ie = int COMMAND_BUF_SIZE - 2\<rparr> in
      rbind (sh_read_loop 0 e sh) (\<lambda>(rc, e, sh).
      if rc < 0 then Inr (rc, line_buf e, sh)
      else
        rbind (expanded e) (\<lambda>r.
        rbind (append_expanded r (line_buf e) (line_i e)) (\<lambda>(b, i).
        rbind (aset b i NUL) (\<lambda>b. Inr (0, b, sh))))))"

end
