(* ===== verification/Sh_Line.thy ===== *)
theory Sh_Line
  imports Sh_Edit
begin

text \<open>
  The line editor against a text with a cursor: the strings left and right of it. Every key does to the two
  arrays what it does to the text, and what it writes keeps the terminal showing that text with the cursor
  in its place.
\<close>

section \<open>The text\<close>

type_synonym text_cursor = "string \<times> string"

text \<open>The keys, the text and how many commands the history is back.\<close>

datatype edit_key = Key_Char char | Key_Backspace | Key_Left | Key_Right | Key_Del | Key_Up | Key_Down

fun key_bytes :: "edit_key \<Rightarrow> string" where
  "key_bytes (Key_Char c) = [c]"
| "key_bytes Key_Backspace = [CHR 0x7F]"
| "key_bytes Key_Left = [CHR 0x1B, CHR 0x5B, CHR 0x44]"
| "key_bytes Key_Right = [CHR 0x1B, CHR 0x5B, CHR 0x43]"
| "key_bytes Key_Del = [CHR 0x1B, CHR 0x5B, CHR 0x33, CHR 0x7E]"
| "key_bytes Key_Up = [CHR 0x1B, CHR 0x5B, CHR 0x41]"
| "key_bytes Key_Down = [CHR 0x1B, CHR 0x5B, CHR 0x42]"

fun text_left :: "text_cursor \<Rightarrow> text_cursor" where
  "text_left (l, r) = (if l = [] then (l, r) else (butlast l, last l # r))"

fun text_right :: "text_cursor \<Rightarrow> text_cursor" where
  "text_right (l, r) = (if r = [] then (l, r) else (l @ [hd r], tl r))"

fun text_backspace :: "text_cursor \<Rightarrow> text_cursor" where
  "text_backspace (l, r) = (butlast l, r)"

fun text_del :: "text_cursor \<Rightarrow> text_cursor" where
  "text_del (l, r) = (l, tl r)"

fun text_insert :: "char \<Rightarrow> text_cursor \<Rightarrow> text_cursor" where
  "text_insert c (l, r) = (l @ [c], r)"

text \<open>The command \<open>n\<close> lines back, the latest first.\<close>

definition recalled :: "string list \<Rightarrow> nat \<Rightarrow> string" where
  "recalled hist n = (if n = 0 then [] else hist ! (n - 1))"

fun key_spec :: "string list \<Rightarrow> edit_key \<Rightarrow> nat \<times> text_cursor \<Rightarrow> nat \<times> text_cursor" where
  "key_spec hist (Key_Char c) (n, t) = (n, text_insert c t)"
| "key_spec hist Key_Backspace (n, t) = (n, text_backspace t)"
| "key_spec hist Key_Left (n, t) = (n, text_left t)"
| "key_spec hist Key_Right (n, t) = (n, text_right t)"
| "key_spec hist Key_Del (n, t) = (n, text_del t)"
| "key_spec hist Key_Up (n, t) = (let n = min (n + 1) (length hist) in (n, recalled hist n, []))"
| "key_spec hist Key_Down (n, t) = (let n = max 1 (n - 1) in (n, recalled hist n, []))"

definition printable :: "char \<Rightarrow> bool" where
  "printable c \<longleftrightarrow> 32 \<le> (of_char c :: nat) \<and> (of_char c :: nat) < 127"

abbreviation printable_text :: "string \<Rightarrow> bool" where
  "printable_text s \<equiv> list_all printable s"

text \<open>A key the editor takes: the line must fit, and \<open>down\<close> needs a history.\<close>

fun key_ok :: "string list \<Rightarrow> edit_key \<Rightarrow> nat \<times> text_cursor \<Rightarrow> bool" where
  "key_ok hist (Key_Char c) (n, l, r) \<longleftrightarrow> printable c \<and> length l + length r < 2047"
| "key_ok hist Key_Down x \<longleftrightarrow> hist \<noteq> []"
| "key_ok hist k x \<longleftrightarrow> True"

section \<open>The terminal\<close>

text \<open>The characters before and from the cursor on; a backspace only moves it.\<close>

fun screen :: "string \<Rightarrow> text_cursor \<Rightarrow> text_cursor" where
  "screen [] x = x"
| "screen (c # s) (b, a) =
     screen s (if c = BS then (if b = [] then (b, a) else (butlast b, last b # a)) else (b @ [c], tl a))"

lemma screen_append: "screen (s @ t) x = screen t (screen s x)"
  by (induction s x rule: screen.induct) simp_all

lemma screen_text: "BS \<notin> set s \<Longrightarrow> screen s (b, a) = (b @ s, drop (length s) a)"
  by (induction s arbitrary: b a) (auto simp: drop_Suc)

lemma screen_back: "screen (replicate (length s) BS) (b @ s, a) = (b, s @ a)"
  by (induction s arbitrary: a rule: rev_induct) (simp_all add: butlast_append)

lemma screen_back_n: "n = length s \<Longrightarrow> screen (replicate n BS) (b @ s, a) = (b, s @ a)"
  using screen_back by simp

abbreviation blanks :: "nat \<Rightarrow> string" where
  "blanks n \<equiv> replicate n (CHR '' '')"

lemma screen_erase: "screen (blanks m @ replicate m BS) (b, a) = (b, blanks m @ drop m a)"
proof -
  have "BS \<notin> set (blanks m)" by auto
  then show ?thesis
    using screen_back_n [of m "blanks m" b "drop m a"] by (simp add: screen_append screen_text)
qed

section \<open>Simulation\<close>

text \<open>
  A loop that reads one command after the other from its input, each of which follows a specification:
  so does any sequence of them.
\<close>

fun specs :: "('k \<Rightarrow> 'a \<Rightarrow> 'a) \<Rightarrow> 'k list \<Rightarrow> 'a \<Rightarrow> 'a" where
  "specs spec [] a = a"
| "specs spec (k # ks) a = specs spec ks (spec k a)"

fun all_ok :: "('k \<Rightarrow> 'a \<Rightarrow> bool) \<Rightarrow> ('k \<Rightarrow> 'a \<Rightarrow> 'a) \<Rightarrow> 'k list \<Rightarrow> 'a \<Rightarrow> bool" where
  "all_ok good spec [] a = True"
| "all_ok good spec (k # ks) a \<longleftrightarrow> good k a \<and> all_ok good spec ks (spec k a)"

fun iterate :: "nat \<Rightarrow> ('b \<Rightarrow> 'b cres) \<Rightarrow> 'b \<Rightarrow> 'b cres" where
  "iterate 0 step b = Inr b"
| "iterate (Suc n) step b = rbind (step b) (iterate n step)"

locale command_reader =
  fixes step :: "'b \<Rightarrow> 'b cres"
    and input :: "'b \<Rightarrow> string"
    and bytes :: "'k \<Rightarrow> string"
    and spec :: "'k \<Rightarrow> 'a \<Rightarrow> 'a"
    and good :: "'k \<Rightarrow> 'a \<Rightarrow> bool"
    and rel :: "'a \<Rightarrow> 'b \<Rightarrow> bool"
  assumes step_runs: "rel a b \<Longrightarrow> good k a \<Longrightarrow> input b = bytes k @ rest \<Longrightarrow>
    runs (step b) (\<lambda>b'. rel (spec k a) b' \<and> input b' = rest)"
begin

lemma iterate_runs:
  "rel a b \<Longrightarrow> all_ok good spec ks a \<Longrightarrow> input b = concat (map bytes ks) @ rest \<Longrightarrow>
    runs (iterate (length ks) step b) (\<lambda>b'. rel (specs spec ks a) b' \<and> input b' = rest)"
proof (induction ks arbitrary: a b)
  case (Cons k ks)
  have "runs (step b) (\<lambda>b'. rel (spec k a) b' \<and> input b' = concat (map bytes ks) @ rest)"
    using Cons.prems by (intro step_runs) auto
  then obtain b' where "step b = Inr b'" "rel (spec k a) b'" "input b' = concat (map bytes ks) @ rest"
    by (auto simp: runs_def)
  then show ?case using Cons by simp
qed (simp add: runs_def)

end

section \<open>Arrays and text\<close>

definition text_in :: "text_cursor \<Rightarrow> edit_t \<Rightarrow> bool" where
  "text_in t e \<longleftrightarrow> (case t of (l, r) \<Rightarrow>
     length (line_buf e) = 2048 \<and> line_i e = int (length l) \<and> take (length l) (line_buf e) = l \<and>
     length (expand_buf e) = 2048 \<and> line_ie e = 2046 - int (length r) \<and>
     drop (2047 - length r) (expand_buf e) = r @ [NUL] \<and>
     printable_text l \<and> printable_text r \<and> length l + length r \<le> 2047)"

lemma printable_schar: "printable c \<Longrightarrow> schar c > 0"
  by (simp add: printable_def schar_def)

lemma printable_facts:
  assumes "printable c"
  shows "c \<noteq> NUL" "c \<noteq> BS" "c \<noteq> CR" "c \<noteq> LF" "c \<noteq> CHR 0x1B" "c \<noteq> CHR 0x09" "c \<noteq> CHR 0x7F"
  using assms by (auto simp: printable_def)

lemma printable_no_bs: "printable_text s \<Longrightarrow> BS \<notin> set s"
  using printable_facts by (auto simp: list_all_iff)

lemma positive_run_text: "printable_text r \<Longrightarrow> positive_run (r @ NUL # x) = Inr r"
  by (induction r) (simp_all add: printable_schar, simp add: schar_def)

lemma text_in_index: "text_in (l, r) e \<Longrightarrow> line_ie e + 1 = int (2047 - length r)"
  by (auto simp: text_in_def)

lemma expanded_text: "text_in (l, r) e \<Longrightarrow> expanded e = Inr r"
proof -
  assume t: "text_in (l, r) e"
  then have "drop (2047 - length r) (expand_buf e) = r @ [NUL]" "printable_text r"
    by (auto simp: text_in_def)
  then show ?thesis using positive_run_text [of r "[]"]
    by (simp add: expanded_def text_in_index [OF t] del: of_nat_diff)
qed

lemma text_in_next: "text_in (l, r) e \<Longrightarrow> aget (expand_buf e) (line_ie e + 1) = Inr (hd (r @ [NUL]))"
proof -
  assume t: "text_in (l, r) e"
  then have "drop (2047 - length r) (expand_buf e) = r @ [NUL]" and l: "length (expand_buf e) = 2048"
    by (auto simp: text_in_def)
  moreover have "hd (drop (2047 - length r) (expand_buf e)) = expand_buf e ! (2047 - length r)"
    by (rule hd_drop_conv_nth) (simp add: l)
  ultimately show ?thesis by (simp add: text_in_index [OF t] aget_def)
qed

lemma drop_set: "n < length xs \<Longrightarrow> drop n (xs[n := x]) = x # drop (Suc n) xs"
  by (simp add: Cons_nth_drop_Suc [symmetric])

text \<open>
  The arrays hold the text; the globals are as they were but for what was written, and the terminal,
  which showed \<open>p\<close> before, shows the text after it.
\<close>

definition edit_rel :: "string \<Rightarrow> 'fs shell \<Rightarrow> text_cursor \<Rightarrow> edit_t \<times> 'fs shell \<Rightarrow> bool" where
  "edit_rel p sh0 t x \<longleftrightarrow> (case x of (e, sh) \<Rightarrow> text_in t e \<and>
     (\<exists>out k. sh = sh0\<lparr>console := console sh0 @ out\<rparr> \<and>
        screen out (p, []) = (p @ fst t, snd t @ blanks k)))"

lemma edit_relI:
  assumes "edit_rel p sh0 (l, r) (e, sh)" and "text_in (l', r') e'"
    and "\<And>k. \<exists>k'. screen s (p @ l, r @ blanks k) = (p @ l', r' @ blanks k')"
    and "console sh' = console sh @ s" "sh' = sh\<lparr>console := console sh'\<rparr>"
  shows "edit_rel p sh0 (l', r') (e', sh')"
proof -
  obtain out k where o: "sh = sh0\<lparr>console := console sh0 @ out\<rparr>"
      "screen out (p, []) = (p @ l, r @ blanks k)"
    using assms(1) by (auto simp: edit_rel_def)
  obtain k' where "screen (out @ s) (p, []) = (p @ l', r' @ blanks k')"
    using assms(3) [of k] o by (auto simp: screen_append)
  moreover have "sh' = sh0\<lparr>console := console sh0 @ (out @ s)\<rparr>"
    using o assms(4,5) by simp
  ultimately show ?thesis using assms(2) unfolding edit_rel_def by fastforce
qed

lemma edit_rel_text: "edit_rel p sh0 t (e, sh) \<Longrightarrow> text_in t e"
  by (simp add: edit_rel_def)

section \<open>The keys on the arrays\<close>

lemma left_text:
  assumes "text_in (l @ [c], r) e"
  shows "text_in (l, c # r) (e\<lparr>line_buf := (line_buf e)[length l := NUL], line_i := int (length l),
    expand_buf := (expand_buf e)[2046 - length r := c], line_ie := line_ie e - 1\<rparr>)"
proof -
  have "take (length l) (line_buf e) = l"
    using assms by (auto simp: text_in_def take_Suc_conv_app_nth)
  moreover have "drop (2046 - length r) ((expand_buf e)[2046 - length r := c]) = c # r @ [NUL]"
  proof -
    have "2046 - length r < length (expand_buf e)" "Suc (2046 - length r) = 2047 - length r"
      using assms by (auto simp: text_in_def)
    then show ?thesis using assms by (simp add: text_in_def drop_set)
  qed
  ultimately show ?thesis using assms by (auto simp: text_in_def)
qed

lemma right_text:
  assumes "text_in (l, c # r) e"
  shows "text_in (l @ [c], r) (e\<lparr>line_buf := (line_buf e)[length l := c], line_i := int (length l) + 1,
    expand_buf := (expand_buf e)[2046 - length r := NUL], line_ie := line_ie e + 1\<rparr>)"
proof -
  have "take (Suc (length l)) ((line_buf e)[length l := c]) = l @ [c]"
    using assms by (auto simp: text_in_def take_Suc_conv_app_nth)
  moreover have "drop (2047 - length r) (expand_buf e) = r @ [NUL]"
  proof -
    have "Suc (2046 - length r) = 2047 - length r" using assms by (auto simp: text_in_def)
    then have "drop (2047 - length r) (expand_buf e) = tl (drop (2046 - length r) (expand_buf e))"
      by (metis drop_Suc tl_drop)
    then show ?thesis using assms by (simp add: text_in_def)
  qed
  ultimately show ?thesis using assms by (auto simp: text_in_def)
qed

lemma insert_text:
  assumes "text_in (l, r) e" "length l + length r < 2047" "printable c"
  shows "text_in (l @ [c], r) (e\<lparr>line_buf := (line_buf e)[length l := c], line_i := int (length l) + 1\<rparr>)"
  using assms by (auto simp: text_in_def take_Suc_conv_app_nth)

lemma backspace_text:
  assumes "text_in (l @ [c], r) e"
  shows "text_in (l, r) (e\<lparr>line_buf := (line_buf e)[Suc (length l) := NUL], line_i := int (length l)\<rparr>)"
  using assms by (auto simp: text_in_def take_Suc_conv_app_nth)

lemma text_in_last: "text_in (l @ [c], r) e \<Longrightarrow> line_buf e ! length l = c"
  by (auto simp: text_in_def take_Suc_conv_app_nth)

lemma text_inD:
  assumes "text_in (l, r) e"
  shows "line_i e = int (length l)" "length (line_buf e) = 2048" "length (expand_buf e) = 2048"
    "length l + length r \<le> 2047" "printable_text l" "printable_text r" "line_ie e = 2046 - int (length r)"
  using assms by (auto simp: text_in_def)

lemma left_rel:
  assumes rel: "edit_rel p sh0 (l, r) (e, sh)"
  shows "runs (key_left_process e sh) (edit_rel p sh0 (text_left (l, r)))"
proof (cases l rule: rev_cases)
  case Nil
  then show ?thesis
    using rel text_inD [OF edit_rel_text [OF rel]] by (simp add: key_left_process_def runs_def)
next
  case (snoc l' c)
  have t: "text_in (l' @ [c], r) e" using edit_rel_text [OF rel] snoc by simp
  have le: "length l' + length r < 2047" using text_inD [OF t] by simp
  have "nat (2046 - int (length r)) = 2046 - length r" by simp
  then have "key_left_process e sh = Inr (e\<lparr>line_buf := (line_buf e)[length l' := NUL], line_i := int (length l'),
      expand_buf := (expand_buf e)[2046 - length r := c], line_ie := line_ie e - 1\<rparr>,
      sh\<lparr>console := console sh @ [BS]\<rparr>)"
    using text_inD [OF t] le text_in_last [OF t]
    by (simp add: key_left_process_def aget_def aset_def Let_def)
  moreover have "edit_rel p sh0 (l', c # r) (e\<lparr>line_buf := (line_buf e)[length l' := NUL], line_i := int (length l'),
      expand_buf := (expand_buf e)[2046 - length r := c], line_ie := line_ie e - 1\<rparr>,
      sh\<lparr>console := console sh @ [BS]\<rparr>)"
    using snoc by (intro edit_relI [OF rel left_text [OF t], of "[BS]"]) (auto simp: butlast_append)
  ultimately show ?thesis using snoc by (simp add: runs_def)
qed

lemma right_rel:
  assumes rel: "edit_rel p sh0 (l, r) (e, sh)"
  shows "runs (key_right_process e sh) (edit_rel p sh0 (text_right (l, r)))"
proof (cases r)
  case Nil
  then show ?thesis
    using rel text_in_next [OF edit_rel_text [OF rel]] by (simp add: key_right_process_def runs_def schar_def)
next
  case (Cons c r')
  have t: "text_in (l, c # r') e" using edit_rel_text [OF rel] Cons by simp
  have c: "printable c" using text_inD [OF t] by simp
  have le: "length l + length r' < 2047" using text_inD [OF t] by simp
  then have i: "nat (line_ie e + 1) = 2046 - length r'" "line_ie e + 1 \<ge> 0"
    using text_inD [OF t] by simp_all
  have "key_right_process e sh = Inr (e\<lparr>line_buf := (line_buf e)[length l := c], line_i := int (length l) + 1,
      expand_buf := (expand_buf e)[2046 - length r' := NUL], line_ie := line_ie e + 1\<rparr>,
      sh\<lparr>console := console sh @ [c]\<rparr>)"
    using text_inD(1-3) [OF t] le text_in_next [OF t] i printable_schar [OF c]
    by (simp add: key_right_process_def aset_def Let_def)
  moreover have "edit_rel p sh0 (l @ [c], r') (e\<lparr>line_buf := (line_buf e)[length l := c], line_i := int (length l) + 1,
      expand_buf := (expand_buf e)[2046 - length r' := NUL], line_ie := line_ie e + 1\<rparr>,
      sh\<lparr>console := console sh @ [c]\<rparr>)"
    using Cons printable_facts [OF c]
    by (intro edit_relI [OF rel right_text [OF t], of "[c]"]) auto
  ultimately show ?thesis using Cons by (simp add: runs_def)
qed

text \<open>Writing what is right of the cursor and going back leaves the terminal as it is.\<close>

lemma screen_rewrite:
  assumes "printable_text r"
  shows "screen (r @ replicate (length r) BS) (b, r' @ a) =
    (b, r @ drop (length r) (r' @ a))"
  using screen_text [OF printable_no_bs [OF assms], of b "r' @ a"]
  by (simp add: screen_append screen_back_n)

lemma backspace_rel:
  assumes rel: "edit_rel p sh0 (l, r) (e, sh)"
  shows "runs (key_backspace_process e sh) (edit_rel p sh0 (text_backspace (l, r)))"
proof (cases l rule: rev_cases)
  case Nil
  then show ?thesis
    using rel text_inD [OF edit_rel_text [OF rel]] by (simp add: key_backspace_process_def runs_def)
next
  case (snoc l' c)
  have t: "text_in (l' @ [c], r) e" using edit_rel_text [OF rel] snoc by simp
  have le: "length l' + length r < 2047" using text_inD [OF t] by simp
  define s where "s = [BS] @ r @ '' '' @ replicate (length r + 1) BS"
  define e' where "e' = e\<lparr>line_buf := (line_buf e)[Suc (length l') := NUL], line_i := int (length l')\<rparr>"
  have "replicate (Suc (length r)) BS = replicate (length r) BS @ [BS]"
    by (simp add: replicate_append_same)
  then have "key_backspace_process e sh = Inr (e', sh\<lparr>console := console sh @ s\<rparr>)"
    using text_inD [OF t] le text_in_next [OF t] expanded_text [OF t]
    by (cases r) (auto simp: key_backspace_process_def aset_def Let_def s_def e'_def schar_def [of NUL] printable_schar nat_add_distrib)
  moreover have "screen s (p @ l, r @ blanks k) = (p @ l', r @ '' '' @ blanks k)" for k
  proof -
    have "screen s (p @ l, r @ blanks k) = screen ((r @ '' '') @ replicate (length (r @ '' '')) BS) (p @ l', (c # r) @ blanks k)"
      unfolding s_def using snoc by (simp add: butlast_append)
    also have "\<dots> = (p @ l', (r @ '' '') @ blanks k)"
      using text_inD(6) [OF t] by (subst screen_rewrite) (simp_all add: printable_def)
    finally show ?thesis by simp
  qed
  ultimately show ?thesis
    using snoc edit_relI [OF rel backspace_text [OF t], of s "sh\<lparr>console := console sh @ s\<rparr>"]
    by (simp add: runs_def e'_def) (metis replicate_Suc)
qed

lemma del_rel:
  assumes rel: "edit_rel p sh0 (l, r) (e, sh)"
  shows "runs (key_del_process e sh) (edit_rel p sh0 (text_del (l, r)))"
proof (cases r)
  case Nil
  then show ?thesis
    using rel text_in_next [OF edit_rel_text [OF rel]] by (simp add: key_del_process_def runs_def schar_def)
next
  case (Cons c r')
  obtain e1 sh1 where r1: "key_right_process e sh = Inr (e1, sh1)" "edit_rel p sh0 (l @ [c], r') (e1, sh1)"
    using right_rel [OF rel] Cons by (auto simp: runs_def)
  have "schar c > 0"
    using text_inD(6) [OF edit_rel_text [OF rel]] Cons by (simp add: printable_schar)
  then show ?thesis
    using r1 backspace_rel [OF r1(2)] text_in_next [OF edit_rel_text [OF rel]] Cons
    by (simp add: key_del_process_def)
qed

section \<open>The history\<close>

text \<open>The latest commands, before the ring of rows has come round.\<close>

definition history_holds :: "string list \<Rightarrow> cmd_records_t \<Rightarrow> bool" where
  "history_holds hist r \<longleftrightarrow>
     level r = int (length hist) \<and> int (length hist) \<le> cmd_idx r \<and> cmd_idx r < 50 \<and>
     length (cmd_buf r) = 50 \<and> (\<forall>row \<in> set (cmd_buf r). length row = 2048) \<and>
     (\<forall>k < length hist. c_str (cmd_buf r ! nat (cmd_idx r - 1 - int k)) = Inr (hist ! k)) \<and>
     (\<forall>j < 50. cmd_idx r \<le> int j \<longrightarrow> cmd_buf r ! j = zeros 2048) \<and>
     (\<forall>h \<in> set hist. printable_text h \<and> length h \<le> 2047)"

lemma c_str_append: "NUL \<notin> set s \<Longrightarrow> c_str (s @ NUL # x) = Inr s"
  by (simp add: c_str_def takeWhile_append)

lemma c_str_zeros: "0 < n \<Longrightarrow> c_str (zeros n) = Inr []"
  by (cases n) (simp_all add: c_str_def zeros_def)

lemma smod_small: "0 \<le> x \<Longrightarrow> x < 50 \<Longrightarrow> x smod (50::int) = x"
  by (cases "x = 0") (simp_all add: signed_modulo_int_def sgn_if)

lemma history_row:
  assumes h: "history_holds hist r" and n: "n \<le> length hist" "n = 0 \<longrightarrow> hist = []"
  shows "\<exists>row. aget (cmd_buf r) ((cmd_idx r - int n) smod int HISTORY_MAXITEMS) = Inr row \<and>
    length row = 2048 \<and> c_str row = Inr (recalled hist n) \<and>
    printable_text (recalled hist n) \<and> length (recalled hist n) \<le> 2047"
proof -
  let ?i = "cmd_idx r - int n"
  have i: "0 \<le> ?i" "?i < 50" using h n by (auto simp: history_holds_def)
  have row: "aget (cmd_buf r) ?i = Inr (cmd_buf r ! nat ?i)" "length (cmd_buf r ! nat ?i) = 2048"
    using h i by (auto simp: history_holds_def aget_def)
  have "c_str (cmd_buf r ! nat ?i) = Inr (recalled hist n) \<and>
    printable_text (recalled hist n) \<and> length (recalled hist n) \<le> 2047"
  proof (cases n)
    case 0
    then have "nat ?i < 50" "cmd_idx r \<le> int (nat ?i)" using i by auto
    then have "cmd_buf r ! nat ?i = zeros 2048"
      using h unfolding history_holds_def by blast
    then show ?thesis using 0 by (simp add: recalled_def c_str_zeros)
  next
    case (Suc k)
    then have k: "k < length hist" "cmd_idx r - 1 - int k = ?i" using n by auto
    then have "c_str (cmd_buf r ! nat (cmd_idx r - 1 - int k)) = Inr (hist ! k)"
      using h unfolding history_holds_def by blast
    moreover have "hist ! k \<in> set hist" using k by simp
    ultimately show ?thesis
      using h Suc unfolding k(2) by (simp add: history_holds_def recalled_def)
  qed
  then show ?thesis using row i by (simp add: HISTORY_MAXITEMS_def smod_small)
qed

lemma sh_memcpy_all:
  "length dst = n \<Longrightarrow> length src = n \<Longrightarrow> sh_memcpy dst src (int n) = Inr src"
  by (simp add: sh_memcpy_def mem_slice_def mem_splice_def)

lemma take_c_str: "c_str row = Inr s \<Longrightarrow> take (length s) row = s"
  by (auto simp: c_str_def takeWhile_eq_take [symmetric] split: if_splits)

lemma history_rel:
  assumes rel: "edit_rel p sh0 (l, r) (e, sh)" and h: "history_holds hist (cmd_records sh0)"
    and n: "n \<le> length hist" "n = 0 \<longrightarrow> hist = []"
  shows "runs (history_process (- int n) e sh) (edit_rel p sh0 (recalled hist n, []))"
proof -
  have t: "text_in (l, r) e" by (rule edit_rel_text [OF rel])
  let ?s = "recalled hist n"
  obtain row where row: "aget (cmd_buf (cmd_records sh0)) ((cmd_idx (cmd_records sh0) - int n) smod int HISTORY_MAXITEMS) = Inr row"
      "length row = 2048" "c_str row = Inr ?s" "printable_text ?s" "length ?s \<le> 2047"
    using history_row [OF h n] by auto
  have rec: "cmd_records sh = cmd_records sh0" using rel by (auto simp: edit_rel_def)
  define e' where "e' = e\<lparr>expand_buf := zeros COMMAND_BUF_SIZE, line_ie := int COMMAND_BUF_SIZE - 2,
    line_buf := row, line_i := int (length ?s)\<rparr>"
  define out where "out = replicate (length l) BS @ blanks (length l) @ blanks (length r) @
    replicate (length l) BS @ replicate (length r) BS @ ?s"
  have "history_process (- int n) e sh = Inr (e', sh\<lparr>console := console sh @ out\<rparr>)"
    using row expanded_text [OF t] text_inD [OF t] sh_memcpy_all [of "line_buf e" 2048 row] rec
    by (simp add: history_process_def Let_def COMMAND_BUF_SIZE_def e'_def out_def)
  moreover have "text_in (?s, []) e'"
    using row take_c_str [OF row(3)] by (simp add: text_in_def e'_def COMMAND_BUF_SIZE_def zeros_def)
  moreover have "screen out (p @ l, r @ blanks k) = (p @ ?s, [] @ blanks (length l + length r + k - length ?s))" for k
  proof -
    let ?m = "length l + length r"
    have o: "out = replicate (length l) BS @ blanks ?m @ replicate ?m BS @ ?s"
      by (simp add: out_def replicate_add)
    have "screen (blanks ?m @ replicate ?m BS) (p, l @ r @ blanks k) = (p, blanks ?m @ drop ?m (l @ r @ blanks k))"
      by (rule screen_erase)
    then have "screen (blanks ?m @ replicate ?m BS) (p, l @ r @ blanks k) = (p, blanks (?m + k))"
      by (simp add: replicate_add)
    moreover have "screen ?s (p, blanks (?m + k)) = (p @ ?s, blanks (?m + k - length ?s))"
      using screen_text [OF printable_no_bs [OF row(4)], of p] by simp
    ultimately show ?thesis unfolding o by (simp only: screen_append screen_back append_Nil append_assoc [symmetric])
  qed
  ultimately show ?thesis
    using edit_relI [OF rel, of ?s "[]" e' out "sh\<lparr>console := console sh @ out\<rparr>"]
    by (auto simp: runs_def)
qed

section \<open>The keys as the terminal delivers them\<close>

text \<open>An iteration of the loop of \<open>read_input\<close> on the characters of a key.\<close>

definition press :: "edit_key \<Rightarrow> int \<times> edit_t \<times> 'fs shell \<Rightarrow> (int \<times> edit_t \<times> 'fs shell) cres" where
  "press k = (\<lambda>(offset, e, sh).
     rbind (read_key offset e (sh\<lparr>getch_in := key_bytes k @ getch_in sh\<rparr>)) (\<lambda>(r, x).
     if r = Key_Continue then Inr x else Inl C_Fault))"

definition line_rel :: "string list \<Rightarrow> string \<Rightarrow> 'fs shell \<Rightarrow> nat \<times> text_cursor \<Rightarrow> int \<times> edit_t \<times> 'fs shell \<Rightarrow> bool" where
  "line_rel hist p sh0 a x \<longleftrightarrow> (case a of (n, t) \<Rightarrow> case x of (offset, c) \<Rightarrow>
     offset = - int n \<and> n \<le> length hist \<and> history_holds hist (cmd_records sh0) \<and> edit_rel p sh0 t c)"

lemma shell_getch_Cons: "shell_getch (sh\<lparr>getch_in := c # cs\<rparr>) = (c, sh\<lparr>getch_in := cs\<rparr>)"
  by (simp add: shell_getch_def)

lemma getch_in_same: "sh\<lparr>getch_in := getch_in sh\<rparr> = sh"
  by simp

lemmas press_simps = press_def read_key_def read_escape_def shell_getch_Cons getch_in_same Let_def key_codes rbind_assoc

lemma rbind_Inr_id: "rbind m Inr = m"
  by (cases m) simp_all

lemma press_edit:
  "press Key_Backspace (offset, e, sh) = rbind (key_backspace_process e sh) (\<lambda>x. Inr (offset, x))"
  "press Key_Left (offset, e, sh) = rbind (key_left_process e sh) (\<lambda>x. Inr (offset, x))"
  "press Key_Right (offset, e, sh) = rbind (key_right_process e sh) (\<lambda>x. Inr (offset, x))"
  "press Key_Del (offset, e, sh) = rbind (key_del_process e sh) (\<lambda>x. Inr (offset, x))"
  by (simp_all add: press_simps case_prod_unfold)

lemma press_recall:
  "press Key_Up (offset, e, sh) =
     (let m = (if - (offset - 1) > level (cmd_records sh) then - level (cmd_records sh) else offset - 1)
      in rbind (history_process m e sh) (\<lambda>x. Inr (m, x)))"
  "press Key_Down (offset, e, sh) =
     (let m = (if offset + 1 \<ge> -1 then -1 else offset + 1)
      in rbind (history_process m e sh) (\<lambda>x. Inr (m, x)))"
  by (simp_all add: press_simps case_prod_unfold)

lemma runs_press:
  assumes "runs m (edit_rel p sh0 t)" "line_rel hist p sh0 (n, t0) (offset, e, sh)"
    and "press k (offset, e, sh) = rbind m (\<lambda>x. Inr (offset, x))"
  shows "runs (press k (offset, e, sh)) (line_rel hist p sh0 (n, t))"
  using assms by (auto simp: runs_def line_rel_def)

lemma press_char:
  assumes rel: "line_rel hist p sh0 (n, l, r) (offset, e, sh)"
    and c: "printable c" "length l + length r < 2047"
  shows "runs (press (Key_Char c) (offset, e, sh)) (line_rel hist p sh0 (n, l @ [c], r))"
proof -
  have er: "edit_rel p sh0 (l, r) (e, sh)" using rel by (simp add: line_rel_def)
  have t: "text_in (l, r) e" by (rule edit_rel_text [OF er])
  define e' where "e' = e\<lparr>line_buf := (line_buf e)[length l := c], line_i := int (length l) + 1\<rparr>"
  have t': "text_in (l @ [c], r) e'" unfolding e'_def by (rule insert_text [OF t c(2,1)])
  let ?s = "c # r @ replicate (length r) BS"
  have "press (Key_Char c) (offset, e, sh) = Inr (offset, e', sh\<lparr>console := console sh @ ?s\<rparr>)"
    using text_inD [OF t] c printable_facts [OF c(1)] expanded_text [OF t']
    by (simp add: press_simps COMMAND_BUF_SIZE_def aset_def flip: e'_def)
  moreover have "edit_rel p sh0 (l @ [c], r) (e', sh\<lparr>console := console sh @ ?s\<rparr>)"
  proof (rule edit_relI [OF er t', of ?s])
    fix k
    have "drop (length r) (tl (r @ blanks k)) = blanks (k - 1)"
      by (cases r) (auto simp: tl_replicate [symmetric])
    then have "screen ?s (p @ l, r @ blanks k) = (p @ l @ [c], r @ blanks (k - 1))"
      using printable_facts [OF c(1)] screen_rewrite [OF text_inD(6) [OF t], of "p @ l @ [c]" "tl (r @ blanks k)" "[]"]
      by simp
    then show "\<exists>k'. screen ?s (p @ l, r @ blanks k) = (p @ l @ [c], r @ blanks k')" by blast
  qed simp_all
  ultimately show ?thesis using rel by (simp add: runs_def line_rel_def)
qed

lemma press_history:
  assumes rel: "line_rel hist p sh0 (n, t) (offset, e, sh)" and k: "key_ok hist k (n, t)" "k \<in> {Key_Up, Key_Down}"
  shows "runs (press k (offset, e, sh)) (line_rel hist p sh0 (key_spec hist k (n, t)))"
proof -
  obtain l r where t: "t = (l, r)" by (cases t)
  have r: "offset = - int n" "n \<le> length hist" "history_holds hist (cmd_records sh0)" "edit_rel p sh0 (l, r) (e, sh)"
    using rel t by (auto simp: line_rel_def)
  have rec: "cmd_records sh = cmd_records sh0" using r(4) by (auto simp: edit_rel_def)
  define m where "m = (if k = Key_Up then min (n + 1) (length hist) else max 1 (n - 1))"
  have m: "m \<le> length hist" "m = 0 \<longrightarrow> hist = []"
    using k r(2) by (auto simp: m_def min_def Suc_le_eq split: if_splits)
  have "level (cmd_records sh) = int (length hist)" using r(3) rec by (simp add: history_holds_def)
  then have "(if - (offset - 1) > level (cmd_records sh) then - level (cmd_records sh) else offset - 1) = - int m"
    if "k = Key_Up" using that r(1,2) by (simp add: m_def min_def)
  moreover have "(if offset + 1 \<ge> -1 then -1 else offset + 1) = - int m" if "k = Key_Down"
    using that r(1) by (auto simp: m_def max_def)
  ultimately have "press k (offset, e, sh) = rbind (history_process (- int m) e sh) (\<lambda>x. Inr (- int m, x))"
    using k(2) by (auto simp: press_recall Let_def)
  then show ?thesis
    using history_rel [OF r(4,3) m] k(2) r(3) m(1)
    by (auto simp: runs_def line_rel_def t m_def Let_def)
qed

lemma press_runs:
  assumes rel: "line_rel hist p sh0 a x" and k: "key_ok hist k a"
  shows "runs (press k x) (line_rel hist p sh0 (key_spec hist k a))"
proof -
  obtain n l r where a: "a = (n, l, r)" by (cases a)
  obtain offset e sh where x: "x = (offset, e, sh)" by (cases x)
  have er: "edit_rel p sh0 (l, r) (e, sh)" using rel by (simp add: line_rel_def a x)
  note lr = rel [unfolded a x]
  show ?thesis unfolding a x
  proof (cases k)
    case (Key_Char c)
    then show "runs (press k (offset, e, sh)) (line_rel hist p sh0 (key_spec hist k (n, l, r)))"
      using press_char [OF lr] k by (simp add: a)
  next
    case Key_Up
    then show "runs (press k (offset, e, sh)) (line_rel hist p sh0 (key_spec hist k (n, l, r)))"
      by (intro press_history [OF lr]) (use k a in auto)
  next
    case Key_Down
    then show "runs (press k (offset, e, sh)) (line_rel hist p sh0 (key_spec hist k (n, l, r)))"
      by (intro press_history [OF lr]) (use k a in auto)
  qed (simp_all only: key_spec.simps, rule runs_press [OF backspace_rel [OF er] lr press_edit(1)],
      rule runs_press [OF left_rel [OF er] lr press_edit(2)],
      rule runs_press [OF right_rel [OF er] lr press_edit(3)],
      rule runs_press [OF del_rel [OF er] lr press_edit(4)])
qed

text \<open>The loop body on the input as it is, when it goes on.\<close>

definition next_key :: "int \<times> edit_t \<times> 'fs shell \<Rightarrow> (int \<times> edit_t \<times> 'fs shell) cres" where
  "next_key = (\<lambda>(offset, e, sh).
     rbind (read_key offset e sh) (\<lambda>(r, x). if r = Key_Continue then Inr x else Inl C_Fault))"

definition at_line :: "string list \<Rightarrow> string \<Rightarrow> 'fs shell \<Rightarrow> nat \<times> text_cursor \<Rightarrow> int \<times> edit_t \<times> 'fs shell \<Rightarrow> bool" where
  "at_line hist p sh0 a x \<longleftrightarrow> line_rel hist p (sh0\<lparr>getch_in := getch_in (snd (snd x))\<rparr>) a x"

lemma edit_rel_input:
  assumes "edit_rel p (sh0\<lparr>getch_in := Y\<rparr>) t (e, sh)"
  shows "edit_rel p (sh0\<lparr>getch_in := X\<rparr>) t (e, sh\<lparr>getch_in := X\<rparr>)"
proof -
  obtain out k where o: "sh = sh0\<lparr>getch_in := Y, console := console sh0 @ out\<rparr>"
      "screen out (p, []) = (p @ fst t, snd t @ blanks k)" "text_in t e"
    using assms by (auto simp: edit_rel_def)
  then show ?thesis unfolding edit_rel_def by (cases sh0) auto
qed

lemma next_key_runs:
  assumes rel: "at_line hist p sh0 a x" and k: "key_ok hist k a"
    and inp: "getch_in (snd (snd x)) = key_bytes k @ rest"
  shows "runs (next_key x) (\<lambda>y. at_line hist p sh0 (key_spec hist k a) y \<and> getch_in (snd (snd y)) = rest)"
proof -
  obtain offset e sh where x: "x = (offset, e, sh)" by (cases x)
  let ?sh = "sh\<lparr>getch_in := rest\<rparr>"
  have "line_rel hist p (sh0\<lparr>getch_in := rest\<rparr>) a (offset, e, ?sh)"
    using rel edit_rel_input [where X = rest] by (cases a) (fastforce simp: at_line_def x line_rel_def)
  from press_runs [OF this k] obtain y where y: "press k (offset, e, ?sh) = Inr y"
      "line_rel hist p (sh0\<lparr>getch_in := rest\<rparr>) (key_spec hist k a) y"
    by (auto simp: runs_def)
  have "sh\<lparr>getch_in := key_bytes k @ rest\<rparr> = sh" using inp x by simp
  then have "next_key x = press k (offset, e, ?sh)" by (simp add: next_key_def press_def x)
  moreover have "getch_in (snd (snd y)) = rest"
    using y(2) by (auto simp: line_rel_def edit_rel_def split: prod.splits)
  ultimately show ?thesis using y by (simp add: runs_def at_line_def)
qed

interpretation line_keys: command_reader next_key "\<lambda>x. getch_in (snd (snd x))" key_bytes
    "key_spec hist" "key_ok hist" "at_line hist p sh0"
  for hist p sh0
  by unfold_locales (rule next_key_runs)

section \<open>A line\<close>

lemma sh_read_loop_iterate:
  "iterate n next_key (offset, e, sh) = Inr (offset', e', sh') \<Longrightarrow>
    sh_read_loop offset e sh = sh_read_loop offset' e' sh'"
proof (induction n arbitrary: offset e sh)
  case (Suc n)
  obtain o1 e1 sh1 where s: "next_key (offset, e, sh) = Inr (o1, e1, sh1)"
      "iterate n next_key (o1, e1, sh1) = Inr (offset', e', sh')"
    using Suc.prems by (auto simp: res_simps)
  then have "read_key offset e sh = Inr (Key_Continue, o1, e1, sh1)"
    by (auto simp: next_key_def res_simps split: if_splits)
  then show ?case using Suc.IH [OF s(2)] by (subst sh_read_loop.simps) simp
qed simp

lemma append_expanded_text:
  "length l + length r < length buf \<Longrightarrow> take (length l) buf = l \<Longrightarrow>
    \<exists>b. append_expanded r buf (int (length l)) = Inr (b, int (length l + length r)) \<and>
      length b = length buf \<and> take (length l + length r) b = l @ r"
proof (induction r arbitrary: l buf)
  case (Cons c r)
  have "take (length (l @ [c])) (buf[length l := c]) = l @ [c]"
    using Cons.prems by (simp add: take_Suc_conv_app_nth)
  then show ?case
    using Cons.IH [of "l @ [c]" "buf[length l := c]"] Cons.prems
    by (auto simp: aset_def algebra_simps)
qed simp

text \<open>
  The keys and Enter: the text is in the caller's array and on the terminal, and nothing else has changed.
\<close>

lemma read_line:
  assumes ok: "all_ok (key_ok hist) (key_spec hist) ks (0, [], [])"
    and a: "specs (key_spec hist) ks (0, [], []) = (n, l, r)"
    and h: "history_holds hist (cmd_records sh)"
    and inp: "getch_in sh = concat (map key_bytes ks) @ CR # rest" and len: "length buf = 2048"
  shows "\<exists>b out k. sh_read_input buf sh = Inr (0, b, sh\<lparr>getch_in := rest, console := console sh @ out @ crlf\<rparr>) \<and>
    c_str b = Inr (l @ r) \<and> length b = 2048 \<and> printable_text (l @ r) \<and> length (l @ r) \<le> 2047 \<and>
    screen out (p, []) = (p @ l, r @ blanks k)"
proof -
  define e where "e = \<lparr>line_buf = buf, line_i = 0, expand_buf = zeros COMMAND_BUF_SIZE,
               line_ie = int COMMAND_BUF_SIZE - 2\<rparr>"
  have "text_in ([], []) e"
    using len by (simp add: text_in_def e_def zeros_def COMMAND_BUF_SIZE_def)
  then have "at_line hist p sh (0, [], []) (0, e, sh)"
    using h by (auto simp: at_line_def line_rel_def edit_rel_def intro!: exI [of _ "[]"] exI [of _ 0])
  from line_keys.iterate_runs [OF this ok, of "CR # rest"]
  obtain offset e' sh' where it: "iterate (length ks) next_key (0, e, sh) = Inr (offset, e', sh')"
      "at_line hist p sh (n, l, r) (offset, e', sh')" "getch_in sh' = CR # rest"
    using inp a by (auto simp: runs_def)
  then obtain out k where o: "sh' = sh\<lparr>getch_in := CR # rest, console := console sh @ out\<rparr>"
      "screen out (p, []) = (p @ l, r @ blanks k)" and t: "text_in (l, r) e'"
    by (auto simp: at_line_def line_rel_def edit_rel_def)
  have "sh_read_loop 0 e sh = Inr (0, e', sh\<lparr>getch_in := rest, console := console sh @ out @ crlf\<rparr>)"
    unfolding sh_read_loop_iterate [OF it(1)]
    by (subst sh_read_loop.simps) (simp add: read_key_def shell_getch_def o Let_def)
  moreover obtain b where b: "append_expanded r (line_buf e') (line_i e') = Inr (b, int (length l + length r))"
      "length b = 2048" "take (length l + length r) b = l @ r"
    using append_expanded_text [of l r "line_buf e'"] t by (auto simp: text_in_def)
  have lr: "length l + length r < 2048" "printable_text (l @ r)" using text_inD [OF t] by auto
  have str: "c_str (b[length l + length r := NUL]) = Inr (l @ r)"
  proof -
    have "b[length l + length r := NUL] = (l @ r) @ NUL # drop (Suc (length l + length r)) b"
      using b lr by (subst upd_conv_take_nth_drop) auto
    moreover have "NUL \<notin> set (l @ r)" using lr(2) printable_facts(1) by (auto simp: list_all_iff)
    ultimately show ?thesis by (metis c_str_append)
  qed
  ultimately have "sh_read_input buf sh = Inr (0, b[length l + length r := NUL],
      sh\<lparr>getch_in := rest, console := console sh @ out @ crlf\<rparr>)"
    using b lr expanded_text [OF t] by (simp add: sh_read_input_def aset_def nat_add_distrib flip: e_def)
  then show ?thesis using str b lr o(2) by fastforce
qed

end
