(* ===== verification/Sh_Shell.thy ===== *)
theory Sh_Shell
  imports Sh_Edit
begin

text \<open>
  The shell around the line editor: splitting a line into arguments, the table of commands with the
  commands of shell_cmd_tbl.c, the prompt, the keywords of the completion and the main loop (shell.c,
  main.c). The entries of the table that come from fs/vfat.c are a parameter of the table.
\<close>

section \<open>Types\<close>

definition ARG_MAX_COUNT :: nat where "ARG_MAX_COUNT = 10"

datatype cli_status_t = CLI_OK | CLI_CMD_NOT_FOUND | CLI_INVALID_ARGS | CLI_EXE_ERROR

text \<open>A command gets \<open>argv\<close> as the list of its \<open>argc\<close> strings.\<close>

record 'fs cmd_t =
  cmd_name :: string
  cmd_usage :: "('fs shell \<Rightarrow> 'fs shell cres) option"
  cmd_func :: "(string list \<Rightarrow> 'fs shell \<Rightarrow> (cli_status_t \<times> 'fs shell) cres) option"

text \<open>An entry of \<open>argv\<close> is NULL or points to a row of \<open>args\<close>.\<close>

record cmd_parsed_t =
  argc :: int
  argv :: "int option list"
  args :: "string list"

definition cmd_parsed_zero :: cmd_parsed_t where
  "cmd_parsed_zero = \<lparr>argc = 0, argv = replicate ARG_MAX_COUNT None,
     args = replicate ARG_MAX_COUNT (zeros COMMAND_BUF_SIZE)\<rparr>"

definition status_to_str :: "cli_status_t \<Rightarrow> string" where
  "status_to_str st =
     (case st of
        CLI_CMD_NOT_FOUND \<Rightarrow> ''CLI_CMD_NOT_FOUND''
      | CLI_INVALID_ARGS \<Rightarrow> ''CLI_INVALID_ARGS''
      | CLI_EXE_ERROR \<Rightarrow> ''CLI_EXE_ERROR''
      | CLI_OK \<Rightarrow> '''')"

section \<open>Lines\<close>

definition is_blank :: "string \<Rightarrow> bool" where
  "is_blank inp = list_all (\<lambda>c. c = CHR '' '') inp"

definition match_cmd :: "string \<Rightarrow> string \<Rightarrow> bool" where
  "match_cmd a b = (if length a \<noteq> length b then False else list_all (\<lambda>(x, y). x = y) (zip a b))"

text \<open>\<open>output->args[output->argc][oi] = c\<close>\<close>

definition put_arg :: "int \<Rightarrow> char \<Rightarrow> cmd_parsed_t \<Rightarrow> cmd_parsed_t cres" where
  "put_arg oi c cmd =
     rbind (aget (args cmd) (argc cmd)) (\<lambda>row.
     rbind (aset row oi c) (\<lambda>row.
     rbind (aset (args cmd) (argc cmd) row) (\<lambda>as. Inr (cmd\<lparr>args := as\<rparr>))))"

definition end_arg :: "int \<Rightarrow> cmd_parsed_t \<Rightarrow> cmd_parsed_t cres" where
  "end_arg oi cmd = rbind (put_arg oi NUL cmd) (\<lambda>cmd. Inr (cmd\<lparr>argc := argc cmd + 1\<rparr>))"

text \<open>
  The loop over the characters of the line: the last one is that with none after it. \<open>flag\<close> is set
  between quotes, \<open>oi\<close> is the length of the current argument. The result is \<open>-1\<close> on the error returns.
\<close>

fun parse_loop :: "string \<Rightarrow> bool \<Rightarrow> int \<Rightarrow> cmd_parsed_t \<Rightarrow> 'fs shell \<Rightarrow> (int \<times> cmd_parsed_t \<times> 'fs shell) cres" where
  "parse_loop [] flag oi cmd sh = Inr (0, cmd, sh)"
| "parse_loop (c # cs) flag oi cmd sh =
     (if c \<noteq> CHR '' '' \<or> flag then
        if oi \<ge> int COMMAND_BUF_SIZE then
          rbind (shell_printf (''error: args too long!'' @ [LF]) [] sh) (\<lambda>sh. Inr (-1, cmd, sh))
        else if argc cmd \<ge> int ARG_MAX_COUNT then
          rbind (shell_printf (''error: too many args !'' @ [LF]) [] sh) (\<lambda>sh. Inr (-1, cmd, sh))
        else
          let flag = (if c = CHR 0x22 then \<not> flag else flag) in
          rbind (put_arg oi c cmd) (\<lambda>cmd.
          rbind (if cs = [] then end_arg (oi + 1) cmd else Inr cmd) (\<lambda>cmd.
          parse_loop cs flag (oi + 1) cmd sh))
      else if oi \<noteq> 0 then rbind (end_arg oi cmd) (\<lambda>cmd. parse_loop cs flag 0 cmd sh)
      else parse_loop cs flag oi cmd sh)"

text \<open>\<open>for (i = 0; i < argc; i++) argv[i] = args[i]\<close>, with \<open>k\<close> iterations left.\<close>

fun link_args :: "nat \<Rightarrow> int \<Rightarrow> cmd_parsed_t \<Rightarrow> cmd_parsed_t cres" where
  "link_args 0 i cmd = Inr cmd"
| "link_args (Suc k) i cmd =
     rbind (aset (argv cmd) i (Some i)) (\<lambda>v. link_args k (i + 1) (cmd\<lparr>argv := v\<rparr>))"

definition parse_command :: "string \<Rightarrow> cmd_parsed_t \<Rightarrow> 'fs shell \<Rightarrow> (int \<times> cmd_parsed_t \<times> 'fs shell) cres" where
  "parse_command inp cmd sh =
     rbind (parse_loop inp False 0 (cmd\<lparr>argc := 0\<rparr>) sh) (\<lambda>(rc, cmd, sh).
     if rc < 0 then Inr (rc, cmd, sh)
     else
       rbind (link_args (nat (argc cmd)) 0 cmd) (\<lambda>cmd.
       rbind (aset (argv cmd) (argc cmd) None) (\<lambda>v.
       Inr (0, cmd\<lparr>argv := v\<rparr>, sh))))"

text \<open>The string an entry of \<open>argv\<close> points to, and those of the first \<open>k\<close> entries from \<open>i\<close>.\<close>

definition arg_str :: "cmd_parsed_t \<Rightarrow> int \<Rightarrow> string cres" where
  "arg_str cmd i =
     rbind (aget (argv cmd) i) (\<lambda>p.
       case p of
         None \<Rightarrow> Inl C_Fault
       | Some k \<Rightarrow> rbind (aget (args cmd) k) c_str)"

fun arg_strs :: "nat \<Rightarrow> int \<Rightarrow> cmd_parsed_t \<Rightarrow> string list cres" where
  "arg_strs 0 i cmd = Inr []"
| "arg_strs (Suc k) i cmd =
     rbind (arg_str cmd i) (\<lambda>s. rbind (arg_strs k (i + 1) cmd) (\<lambda>ss. Inr (s # ss)))"

section \<open>Commands\<close>

fun execute_from :: "'fs cmd_t list \<Rightarrow> cmd_parsed_t \<Rightarrow> 'fs shell \<Rightarrow> (cli_status_t \<times> 'fs shell) cres" where
  "execute_from [] cmd sh = Inr (CLI_CMD_NOT_FOUND, sh)"
| "execute_from (c # tbl) cmd sh =
     rbind (arg_str cmd 0) (\<lambda>a.
     if match_cmd (cmd_name c) a then
       rbind
         (case cmd_func c of
            None \<Rightarrow> Inr (CLI_OK, sh)
          | Some f \<Rightarrow> rbind (arg_strs (nat (argc cmd)) 0 cmd) (\<lambda>as. f as sh)) (\<lambda>(rc, sh).
       if rc = CLI_INVALID_ARGS then
         case cmd_usage c of
           None \<Rightarrow> Inr (rc, sh)
         | Some u \<Rightarrow> rbind (u sh) (\<lambda>sh. Inr (rc, sh))
       else Inr (rc, sh))
     else execute_from tbl cmd sh)"

definition execute_command :: "'fs cmd_t list \<Rightarrow> cmd_parsed_t \<Rightarrow> 'fs shell \<Rightarrow> (cli_status_t \<times> 'fs shell) cres" where
  "execute_command cmd_tbl cmd sh = execute_from cmd_tbl cmd sh"

text \<open>The commands of shell_cmd_tbl.c; \<open>help\<close> walks over the names and the usages of the table.\<close>

fun help_names :: "string list \<Rightarrow> int \<Rightarrow> 'fs shell \<Rightarrow> 'fs shell cres" where
  "help_names [] i sh = Inr sh"
| "help_names (n # ns) i sh =
     rbind (shell_printf (''%d.%s '' @ crlf) [VInt (word_of_int i), VStr n] sh) (help_names ns (i + 1))"

definition help_usage :: "string list \<Rightarrow> 'fs shell \<Rightarrow> 'fs shell cres" where
  "help_usage names sh =
     rbind (shell_printf (''usage: help <cmd-name>'' @ crlf) [] sh) (\<lambda>sh.
     rbind (shell_printf (''<cmd-name> can be: '' @ crlf) [] sh) (\<lambda>sh.
     help_names names 0 sh))"

fun help_find :: "(string \<times> ('fs shell \<Rightarrow> 'fs shell cres) option) list \<Rightarrow> string \<Rightarrow> 'fs shell \<Rightarrow> (cli_status_t \<times> 'fs shell) cres" where
  "help_find [] a sh =
     rbind (shell_printf (''error! not match any cmd.'' @ crlf) [] sh) (\<lambda>sh. Inr (CLI_INVALID_ARGS, sh))"
| "help_find ((n, u) # us) a sh =
     (if match_cmd n a then
        case u of None \<Rightarrow> Inr (CLI_OK, sh) | Some u \<Rightarrow> rbind (u sh) (\<lambda>sh. Inr (CLI_OK, sh))
      else help_find us a sh)"

definition help_func ::
    "(string \<times> ('fs shell \<Rightarrow> 'fs shell cres) option) list \<Rightarrow> string list \<Rightarrow> 'fs shell \<Rightarrow> (cli_status_t \<times> 'fs shell) cres" where
  "help_func usages as sh =
     (if length as \<noteq> 2 then Inr (CLI_INVALID_ARGS, sh) else help_find usages (as ! 1) sh)"

definition echo_usage :: "'fs shell \<Rightarrow> 'fs shell cres" where
  "echo_usage sh = shell_printf (''usage: echo <string>'' @ crlf) [] sh"

definition echo_func :: "string list \<Rightarrow> 'fs shell \<Rightarrow> (cli_status_t \<times> 'fs shell) cres" where
  "echo_func as sh =
     (if length as \<noteq> 2 then Inr (CLI_INVALID_ARGS, sh)
      else rbind (shell_printf (''%s'' @ crlf) [VStr (as ! 1)] sh) (\<lambda>sh. Inr (CLI_OK, sh)))"

fun string_to_int_loop :: "string \<Rightarrow> int \<Rightarrow> int cres" where
  "string_to_int_loop [] res = Inr res"
| "string_to_int_loop (c # a) res =
     (if schar c > schar (CHR ''0'') \<and> schar c < schar (CHR ''9'')
      then rbind (c_int (res * 10)) (\<lambda>r.
           rbind (c_int (r + (schar c - schar (CHR ''0'')))) (\<lambda>r. string_to_int_loop a r))
      else Inr (-1))"

definition string_to_int :: "string \<Rightarrow> int cres" where
  "string_to_int str = string_to_int_loop str 0"

definition history_usage :: "'fs shell \<Rightarrow> 'fs shell cres" where
  "history_usage sh =
     rbind (shell_printf (''usage: history <cmd-name>'' @ crlf) [] sh) (\<lambda>sh.
     rbind (shell_printf (''<cmd-name> can be: '' @ crlf) [] sh) (\<lambda>sh.
     shell_printf (''1.show'' @ crlf @ ''2.clear'' @ crlf @ ''3.<selected-history-cmd>'' @ crlf) [] sh))"

text \<open>\<open>for (i = 1; i <= level; i++)\<close> of \<open>history show\<close>, with \<open>k\<close> iterations left.\<close>

fun history_show :: "nat \<Rightarrow> int \<Rightarrow> 'fs shell \<Rightarrow> 'fs shell cres" where
  "history_show 0 i sh = Inr sh"
| "history_show (Suc k) i sh =
     (let idx = (cmd_idx (cmd_records sh) - i) smod int HISTORY_MAXITEMS in
      rbind (aget (cmd_buf (cmd_records sh)) idx) (\<lambda>row.
      rbind (c_str row) (\<lambda>s.
      rbind (shell_printf (''%d: %s'' @ crlf) [VInt (word_of_int idx), VStr s] sh) (history_show k (i + 1)))))"

definition history_func :: "string list \<Rightarrow> 'fs shell \<Rightarrow> (cli_status_t \<times> 'fs shell) cres" where
  "history_func as sh =
     (if length as \<noteq> 2 then Inr (CLI_INVALID_ARGS, sh)
      else if match_cmd ''show'' (as ! 1) then
        rbind (history_show (nat (level (cmd_records sh))) 1 sh) (\<lambda>sh. Inr (CLI_OK, sh))
      else if match_cmd ''clear'' (as ! 1) then
        Inr (CLI_OK, sh\<lparr>cmd_records := (cmd_records sh)\<lparr>level := 0\<rparr>\<rparr>)
      else
        rbind (string_to_int (as ! 1)) (\<lambda>v.
        if v \<ge> 0 then
          rbind (aget (cmd_buf (cmd_records sh)) v) (\<lambda>row.
          rbind (c_str row) (\<lambda>s.
          rbind (shell_printf (''%s'' @ crlf) [VStr s] sh) (\<lambda>sh. Inr (CLI_OK, sh))))
        else Inr (CLI_OK, sh)))"

definition exit_usage :: "'fs shell \<Rightarrow> 'fs shell cres" where
  "exit_usage sh = shell_printf (''usage: exit shell'' @ crlf) [] sh"

definition exit_func :: "string list \<Rightarrow> 'fs shell \<Rightarrow> (cli_status_t \<times> 'fs shell) cres" where
  "exit_func as sh =
     rbind (shell_printf (''Bye.'' @ crlf) [] sh) (\<lambda>sh. Inr (CLI_OK, sh\<lparr>shell_should_exit := 1\<rparr>))"

text \<open>\<open>cmd_tbl\<close>: the first four entries, then those of fs/vfat.c. \<open>cmd_tbl_items\<close> is the length.\<close>

definition cmd_tbl :: "'fs cmd_t list \<Rightarrow> 'fs cmd_t list" where
  "cmd_tbl fs_cmds =
     (let names = [''help'', ''echo'', ''history'', ''exit''] @ map cmd_name fs_cmds;
          usages = zip [''help'', ''echo'', ''history'', ''exit'']
              [Some (help_usage names), Some echo_usage, Some history_usage, Some exit_usage] @
            map (\<lambda>c. (cmd_name c, cmd_usage c)) fs_cmds
      in
      [\<lparr>cmd_name = ''help'', cmd_usage = Some (help_usage names), cmd_func = Some (help_func usages)\<rparr>,
       \<lparr>cmd_name = ''echo'', cmd_usage = Some echo_usage, cmd_func = Some echo_func\<rparr>,
       \<lparr>cmd_name = ''history'', cmd_usage = Some history_usage, cmd_func = Some history_func\<rparr>,
       \<lparr>cmd_name = ''exit'', cmd_usage = Some exit_usage, cmd_func = Some exit_func\<rparr>] @ fs_cmds)"

section \<open>Prompt and keywords\<close>

definition shell_set_prompt :: "string option \<Rightarrow> 'fs shell \<Rightarrow> 'fs shell cres" where
  "shell_set_prompt p sh =
     rbind
       (case p of
          None \<Rightarrow> Inr (0, sh)
        | Some s \<Rightarrow>
            rbind
              (if length s > 255 - 3
               then rbind (shell_printf (''prompt is too long!'' @ crlf) [] sh) (\<lambda>sh. Inr (255 - 3, sh))
               else Inr (length s, sh)) (\<lambda>(i, sh).
            rbind (mem_store (prompt sh) 0 (take i s)) (\<lambda>b. Inr (i, sh\<lparr>prompt := b\<rparr>)))) (\<lambda>(i, sh).
     rbind (mem_store (prompt sh) i (''>>'' @ [NUL])) (\<lambda>b. Inr (sh\<lparr>prompt := b\<rparr>)))"

text \<open>The characters of the name are copied without a NUL, into a row of 32.\<close>

definition shell_add_keyword :: "string \<Rightarrow> 'fs shell \<Rightarrow> 'fs shell cres" where
  "shell_add_keyword keyname sh =
     (let kw = shell_keywords sh in
      rbind (aget (keywords_buf kw) (keywords_cnt kw)) (\<lambda>row.
      rbind (mem_store row 0 keyname) (\<lambda>row.
      rbind (aset (keywords_buf kw) (keywords_cnt kw) row) (\<lambda>rows.
      Inr (sh\<lparr>shell_keywords := \<lparr>keywords_cnt = keywords_cnt kw + 1, keywords_buf = rows\<rparr>\<rparr>)))))"

text \<open>The search, with \<open>k\<close> keywords left from \<open>i\<close>, and the loop that moves the rows behind up.\<close>

fun keyword_index :: "nat \<Rightarrow> int \<Rightarrow> string \<Rightarrow> string list \<Rightarrow> (int \<times> bool) cres" where
  "keyword_index 0 i keyname rows = Inr (i, False)"
| "keyword_index (Suc k) i keyname rows =
     rbind (aget rows i) (\<lambda>row.
     rbind (c_str row) (\<lambda>s.
     if match_cmd keyname s then Inr (i, True) else keyword_index k (i + 1) keyname rows))"

fun move_rows :: "nat \<Rightarrow> int \<Rightarrow> string list \<Rightarrow> string list cres" where
  "move_rows 0 i rows = Inr rows"
| "move_rows (Suc k) i rows =
     rbind (aget rows (i + 1)) (\<lambda>src.
     rbind (aget rows i) (\<lambda>dst.
     rbind (sh_memcpy dst src (int MAX_KEY_WORD_SIZE)) (\<lambda>row.
     rbind (aset rows i row) (\<lambda>rows. move_rows k (i + 1) rows))))"

definition shell_remove_keyword :: "string \<Rightarrow> 'fs shell \<Rightarrow> 'fs shell cres" where
  "shell_remove_keyword keyname sh =
     (let kw = shell_keywords sh; n = keywords_cnt kw in
      rbind (keyword_index (nat n) 0 keyname (keywords_buf kw)) (\<lambda>(i, j).
      rbind (move_rows (nat (n - 1 - i)) i (keywords_buf kw)) (\<lambda>rows.
      Inr (sh\<lparr>shell_keywords := \<lparr>keywords_cnt = (if j then n - 1 else n), keywords_buf = rows\<rparr>\<rparr>))))"

section \<open>Start and main loop\<close>

fun add_keywords :: "'fs cmd_t list \<Rightarrow> 'fs shell \<Rightarrow> 'fs shell cres" where
  "add_keywords [] sh = Inr sh"
| "add_keywords (c # cs) sh = rbind (shell_add_keyword (cmd_name c) sh) (add_keywords cs)"

fun print_keywords :: "nat \<Rightarrow> int \<Rightarrow> 'fs shell \<Rightarrow> 'fs shell cres" where
  "print_keywords 0 i sh = Inr sh"
| "print_keywords (Suc k) i sh =
     rbind (aget (keywords_buf (shell_keywords sh)) i) (\<lambda>row.
     rbind (c_str row) (\<lambda>s.
     rbind (shell_printf ''%s '' [VStr s] sh) (print_keywords k (i + 1))))"

definition stars :: string where
  "stars = replicate 68 (CHR ''*'')"

definition shell_init :: "'fs cmd_t list \<Rightarrow> 'fs shell \<Rightarrow> 'fs shell cres" where
  "shell_init tbl sh =
     rbind (shell_printf (stars @ crlf) [] sh) (\<lambda>sh.
     rbind (shell_printf (''** this is a simple cli, type '' @ [CHR 0x27] @ ''help'' @ [CHR 0x27] @
         '' to see what cmds is supported.'' @ crlf) [] sh) (\<lambda>sh.
     rbind (shell_printf (stars @ crlf) [] sh) (\<lambda>sh.
     rbind (add_keywords tbl sh) (\<lambda>sh.
     rbind (shell_printf ''all supported keywords are { '' [] sh) (\<lambda>sh.
     rbind (print_keywords (nat (keywords_cnt (shell_keywords sh))) 0 sh) (\<lambda>sh.
     rbind (shell_printf (''}'' @ crlf) [] sh) (\<lambda>sh.
     shell_printf crlf [] sh)))))))"

text \<open>The command line goes to the history unless its command is \<open>history\<close>.\<close>

definition add_history :: "string \<Rightarrow> 'fs shell \<Rightarrow> 'fs shell cres" where
  "add_history buf sh =
     (let r = cmd_records sh in
      rbind (aget (cmd_buf r) (cmd_idx r)) (\<lambda>row.
      rbind (sh_memcpy row buf (int COMMAND_BUF_SIZE)) (\<lambda>row.
      rbind (aset (cmd_buf r) (cmd_idx r) row) (\<lambda>rows.
      Inr (sh\<lparr>cmd_records :=
        \<lparr>cmd_idx = (cmd_idx r + 1) smod int HISTORY_MAXITEMS,
         level = (if level r < int HISTORY_MAXITEMS then level r + 1 else level r),
         cmd_buf = rows\<rparr>\<rparr>)))))"

definition dashes :: string where
  "dashes = ''---------------------'' @ crlf"

text \<open>A line that was read: parsed, remembered and executed.\<close>

definition run_line :: "'fs cmd_t list \<Rightarrow> string \<Rightarrow> 'fs shell \<Rightarrow> 'fs shell cres" where
  "run_line tbl buf sh =
     rbind (c_str buf) (\<lambda>inp.
     if length inp > 0 \<and> \<not> is_blank inp then
       rbind (parse_command inp cmd_parsed_zero sh) (\<lambda>(rc, cmd, sh).
       if rc \<noteq> 0 then shell_printf (''error! parse_command error'' @ crlf) [] sh
       else
         rbind (arg_str cmd 0) (\<lambda>a.
         rbind (if \<not> match_cmd ''history'' a then add_history buf sh else Inr sh) (\<lambda>sh.
         rbind (execute_command tbl cmd sh) (\<lambda>(rc, sh).
         if rc \<noteq> CLI_OK then
           rbind (shell_printf dashes [] sh) (\<lambda>sh.
           rbind (shell_printf (''error: %s'' @ crlf) [VStr (status_to_str rc)] sh) (\<lambda>sh.
           shell_printf dashes [] sh))
         else Inr sh))))
     else Inr sh)"

text \<open>An iteration of the main loop; the prompt is the format of \<open>shell_printf\<close>. \<open>Some rc\<close> is a return.\<close>

definition shell_round :: "'fs cmd_t list \<Rightarrow> 'fs shell \<Rightarrow> (int option \<times> 'fs shell) cres" where
  "shell_round tbl sh =
     rbind (c_str (prompt sh)) (\<lambda>p.
     rbind (shell_printf p [] sh) (\<lambda>sh.
     rbind (sh_read_input (zeros COMMAND_BUF_SIZE) sh) (\<lambda>(code, buf, sh).
     if code < 0 then
       rbind (shell_printf (''error! read_input error'' @ crlf) [] sh) (\<lambda>sh. Inr (None, sh))
     else if code > 0 then
       rbind (shell_printf (''read input_key_code %d'' @ crlf) [VInt (word_of_int code)] sh)
         (\<lambda>sh. Inr (Some (-1), sh))
     else rbind (run_line tbl buf sh) (\<lambda>sh. Inr (None, sh)))))"

text \<open>\<open>while (shell_should_exit == 0)\<close>, with fuel for the lines.\<close>

fun shell_loop :: "nat \<Rightarrow> 'fs cmd_t list \<Rightarrow> 'fs shell \<Rightarrow> (int \<times> 'fs shell) cres" where
  "shell_loop 0 tbl sh = Inl C_Fuel"
| "shell_loop (Suc fuel) tbl sh =
     (if shell_should_exit sh \<noteq> 0 then Inr (0, sh)
      else
        rbind (shell_round tbl sh) (\<lambda>(r, sh).
        case r of
          None \<Rightarrow> shell_loop fuel tbl sh
        | Some rc \<Rightarrow> Inr (rc, sh)))"

definition shell_execute :: "nat \<Rightarrow> 'fs cmd_t list \<Rightarrow> 'fs shell \<Rightarrow> (int \<times> 'fs shell) cres" where
  "shell_execute fuel tbl sh = rbind (shell_set_prompt (Some '''') sh) (shell_loop fuel tbl)"

text \<open>The statics before \<open>main\<close>, for a terminal that delivers \<open>keys\<close>.\<close>

definition shell_start :: "string \<Rightarrow> 'fs \<Rightarrow> 'fs shell" where
  "shell_start keys fs = \<lparr>shell_should_exit = 0,
     cmd_records = \<lparr>cmd_idx = 0, level = 0,
       cmd_buf = replicate HISTORY_MAXITEMS (zeros COMMAND_BUF_SIZE)\<rparr>,
     shell_keywords = \<lparr>keywords_cnt = 0,
       keywords_buf = replicate MAX_KEY_WORD_CNT (zeros MAX_KEY_WORD_SIZE)\<rparr>,
     prompt = zeros 255, getch_in = keys, console = [], fs_state = fs\<rparr>"

definition mysh_main :: "nat \<Rightarrow> 'fs cmd_t list \<Rightarrow> 'fs shell \<Rightarrow> (int \<times> 'fs shell) cres" where
  "mysh_main fuel fs_cmds sh =
     rbind (shell_init (cmd_tbl fs_cmds) sh) (shell_execute fuel (cmd_tbl fs_cmds))"

end
