(* ===== verification/Sh_Words.thy ===== *)
theory Sh_Words
  imports Sh_Shell
begin

text \<open>
  What \<open>parse_command\<close> makes of a line: the words between blanks that are not quoted. Then the commands: a
  table entry is found by its name.
\<close>

section \<open>Words\<close>

text \<open>The pieces between unquoted blanks, empty ones included; quotes are kept.\<close>

fun pieces :: "bool \<Rightarrow> string \<Rightarrow> string list" where
  "pieces q [] = [[]]"
| "pieces q (c # cs) =
     (if c = CHR '' '' \<and> \<not> q then [] # pieces q cs
      else let ps = pieces (if c = CHR 0x22 then \<not> q else q) cs in (c # hd ps) # tl ps)"

definition words_of :: "string \<Rightarrow> string list" where
  "words_of s = filter (\<lambda>w. w \<noteq> []) (pieces False s)"

lemma pieces_not_Nil [simp]: "pieces q s \<noteq> []"
  by (cases s) (simp_all add: Let_def)

text \<open>The words when \<open>w\<close> has been read of the next one and \<open>ds\<close> before it.\<close>

definition words_from :: "string list \<Rightarrow> string \<Rightarrow> bool \<Rightarrow> string \<Rightarrow> string list" where
  "words_from ds w q s = ds @ filter (\<lambda>w. w \<noteq> []) ((w @ hd (pieces q s)) # tl (pieces q s))"

lemma words_from_start: "words_from [] [] False s = words_of s"
  by (simp add: words_from_def words_of_def del: filter.simps)

lemma words_from_char:
  "c \<noteq> CHR '' '' \<or> q \<Longrightarrow>
    words_from ds w q (c # s) = words_from ds (w @ [c]) (if c = CHR 0x22 then \<not> q else q) s"
  by (auto simp: words_from_def Let_def)

lemma words_from_blank:
  "words_from ds w False (CHR '' '' # s) = words_from (if w = [] then ds else ds @ [w]) [] False s"
  using pieces_not_Nil [of False s] by (cases "pieces False s") (simp_all add: words_from_def)

lemma words_from_longer: "c \<noteq> CHR '' '' \<or> q \<Longrightarrow> length ds < length (words_from ds w q (c # s))"
  by (auto simp: words_from_def Let_def)

section \<open>The arrays of the arguments\<close>

definition args_hold :: "string list \<Rightarrow> string \<Rightarrow> cmd_parsed_t \<Rightarrow> bool" where
  "args_hold ds w cmd \<longleftrightarrow>
     argc cmd = int (length ds) \<and> length ds \<le> 10 \<and> argv cmd = replicate 10 None \<and>
     length (args cmd) = 10 \<and> (\<forall>row \<in> set (args cmd). length row = 2048) \<and>
     (\<forall>k < length ds. c_str (args cmd ! k) = Inr (ds ! k)) \<and>
     (w \<noteq> [] \<longrightarrow> length ds < 10 \<and> take (length w) (args cmd ! length ds) = w)"

lemma put_arg_row:
  assumes "args_hold ds w cmd" "length ds < 10" "length w < 2048"
  shows "put_arg (int (length w)) c cmd =
    Inr (cmd\<lparr>args := (args cmd)[length ds := (args cmd ! length ds)[length w := c]]\<rparr>)"
  using assms by (auto simp: put_arg_def aget_def aset_def args_hold_def)

lemma rows_set:
  assumes "\<forall>row \<in> set rows. length row = n" "length row = n"
  shows "\<forall>r \<in> set (rows[i := row]). length r = n"
  using assms set_update_subset_insert [of rows i row] by blast

lemma args_hold_row:
  assumes h: "args_hold ds w cmd" and n: "length ds < 10" and row: "length row = 2048"
  shows "take (length v) row = v \<Longrightarrow> args_hold ds v (cmd\<lparr>args := (args cmd)[length ds := row]\<rparr>)"
    and "c_str row = Inr v \<Longrightarrow>
      args_hold (ds @ [v]) [] (cmd\<lparr>args := (args cmd)[length ds := row], argc := argc cmd + 1\<rparr>)"
proof -
  have rows: "\<forall>r \<in> set ((args cmd)[length ds := row]). length r = 2048"
    using h row unfolding args_hold_def by (intro rows_set) blast+
  have l: "length (args cmd) = 10" and k: "\<forall>k < length ds. c_str (args cmd ! k) = Inr (ds ! k)"
    using h unfolding args_hold_def by blast+
  show "take (length v) row = v \<Longrightarrow> args_hold ds v (cmd\<lparr>args := (args cmd)[length ds := row]\<rparr>)"
    using h rows l k n unfolding args_hold_def by simp
  have "\<forall>k < length (ds @ [v]). c_str ((args cmd)[length ds := row] ! k) = Inr ((ds @ [v]) ! k)"
    if "c_str row = Inr v" using k l n that by (auto simp: nth_list_update nth_append less_Suc_eq)
  then show "c_str row = Inr v \<Longrightarrow>
      args_hold (ds @ [v]) [] (cmd\<lparr>args := (args cmd)[length ds := row], argc := argc cmd + 1\<rparr>)"
    using h rows l n unfolding args_hold_def by simp
qed

lemma args_hold_rowD:
  assumes "args_hold ds w cmd" "length ds < 10"
  shows "length (args cmd ! length ds) = 2048" "take (length w) (args cmd ! length ds) = w"
  using assms by (cases w; auto simp: args_hold_def)+

lemma args_hold_char:
  assumes h: "args_hold ds w cmd" and n: "length ds < 10" "length w < 2047"
  shows "\<exists>cmd'. put_arg (int (length w)) c cmd = Inr cmd' \<and> args_hold ds (w @ [c]) cmd'"
proof -
  let ?row = "args cmd ! length ds"
  have "take (length (w @ [c])) (?row[length w := c]) = w @ [c]"
    using args_hold_rowD [OF h n(1)] n by (simp add: take_Suc_conv_app_nth)
  then have "args_hold ds (w @ [c]) (cmd\<lparr>args := (args cmd)[length ds := ?row[length w := c]]\<rparr>)"
    by (intro args_hold_row [OF h n(1)]) (simp add: args_hold_rowD [OF h n(1)])
  then show ?thesis
    using put_arg_row [OF h n(1), of c] n by simp
qed

lemma args_hold_end:
  assumes h: "args_hold ds w cmd" and n: "length ds < 10" "length w < 2048" "NUL \<notin> set w"
  shows "\<exists>cmd'. end_arg (int (length w)) cmd = Inr cmd' \<and> args_hold (ds @ [w]) [] cmd'"
proof -
  let ?row = "args cmd ! length ds"
  have "?row[length w := NUL] = w @ NUL # drop (Suc (length w)) ?row"
    using args_hold_rowD [OF h n(1)] n by (simp add: upd_conv_take_nth_drop)
  then have "c_str (?row[length w := NUL]) = Inr w"
    using n by (simp add: c_str_def takeWhile_append)
  then have "args_hold (ds @ [w]) [] (cmd\<lparr>args := (args cmd)[length ds := ?row[length w := NUL]], argc := argc cmd + 1\<rparr>)"
    by (intro args_hold_row [OF h n(1)]) (simp add: args_hold_rowD [OF h n(1)])
  then show ?thesis
    using put_arg_row [OF h n(1,2), of NUL] by (simp add: end_arg_def)
qed

section \<open>The loop\<close>

definition too_many :: string where
  "too_many = ''error: too many args !'' @ [LF]"

lemma shell_printf_plain [simp]:
  "CHR ''%'' \<notin> set s \<Longrightarrow> shell_printf s va sh = Inr (sh\<lparr>console := console sh @ s\<rparr>)"
  by (simp add: shell_printf_def tfp_format_plain)

lemma shell_printf_s:
  assumes "CHR ''%'' \<notin> set a" "CHR ''%'' \<notin> set b"
  shows "shell_printf (a @ CHR ''%'' # CHR ''s'' # b) [VStr x] sh = Inr (sh\<lparr>console := console sh @ a @ x @ b\<rparr>)"
proof -
  have "tfp_format (CHR ''%'' # CHR ''s'' # b) [VStr x] = Inr (x @ b)"
    using assms(2) tfp_format_plain by (subst tfp_format_s) simp
  then show ?thesis
    using tfp_format_literal [OF assms(1), of "CHR ''%'' # CHR ''s'' # b"] by (simp add: shell_printf_def del: tfp_format.simps)
qed

lemma parse_loop_words:
  assumes "args_hold ds w cmd" "length w + length cs \<le> 2047" "NUL \<notin> set w" "NUL \<notin> set cs" "cs = [] \<longrightarrow> w = []"
  shows "if length (words_from ds w q cs) \<le> 10
    then \<exists>cmd'. parse_loop cs q (int (length w)) cmd sh = Inr (0, cmd', sh) \<and> args_hold (words_from ds w q cs) [] cmd'
    else \<exists>cmd'. parse_loop cs q (int (length w)) cmd sh = Inr (-1, cmd', sh\<lparr>console := console sh @ too_many\<rparr>)"
  using assms
proof (induction cs arbitrary: ds w q cmd)
  case Nil
  then show ?case by (simp add: words_from_def args_hold_def)
next
  case (Cons c cs)
  have w: "length w < 2047" using Cons.prems by simp
  show ?case
  proof (cases "c \<noteq> CHR '' '' \<or> q")
    case char: True
    let ?q = "if c = CHR 0x22 then \<not> q else q"
    show ?thesis
    proof (cases "length ds < 10")
      case False
      then have "length (words_from ds w q (c # cs)) > 10"
        using words_from_longer [OF char, of ds w cs] by simp
      moreover have "argc cmd = 10" using Cons.prems(1) False by (simp add: args_hold_def)
      ultimately show ?thesis
        using char w by (simp add: COMMAND_BUF_SIZE_def ARG_MAX_COUNT_def too_many_def)
    next
      case True
      then have a: "\<not> argc cmd \<ge> int ARG_MAX_COUNT" "\<not> int (length w) \<ge> int COMMAND_BUF_SIZE"
        using Cons.prems(1) w by (auto simp: args_hold_def ARG_MAX_COUNT_def COMMAND_BUF_SIZE_def)
      obtain c1 where c1: "put_arg (int (length w)) c cmd = Inr c1" "args_hold ds (w @ [c]) c1"
        using args_hold_char [OF Cons.prems(1) True w] by blast
      show ?thesis
      proof (cases "cs = []")
        case Nil: True
        obtain c2 where "end_arg (int (length (w @ [c]))) c1 = Inr c2" "args_hold (ds @ [w @ [c]]) [] c2"
          using args_hold_end [OF c1(2) True] Cons.prems w by auto
        moreover have "words_from ds w q [c] = ds @ [w @ [c]]" using char by (simp add: words_from_def)
        ultimately show ?thesis
          using char a c1 Nil True by (simp add: algebra_simps)
      next
        case False
        have "parse_loop (c # cs) q (int (length w)) cmd sh = parse_loop cs ?q (int (length (w @ [c]))) c1 sh"
          using char a c1 False by (simp add: algebra_simps Let_def)
        then show ?thesis
          using Cons.IH [OF c1(2), of ?q] Cons.prems False by (simp only: words_from_char [OF char]) simp
      qed
    qed
  next
    case False
    then have c: "c = CHR '' ''" "\<not> q" by auto
    show ?thesis
    proof (cases "w = []")
      case True
      have "parse_loop (c # cs) q (int (length w)) cmd sh = parse_loop cs False (int (length w)) cmd sh"
        using c True by simp
      then show ?thesis
        using Cons.IH [of ds w cmd False] Cons.prems c True words_from_blank [of ds w cs]
        by (simp only: if_True simp_thms) simp
    next
      case w0: False
      then have "length ds < 10" using Cons.prems(1) by (simp add: args_hold_def)
      then obtain c1 where c1: "end_arg (int (length w)) cmd = Inr c1" "args_hold (ds @ [w]) [] c1"
        using args_hold_end [OF Cons.prems(1)] Cons.prems w by auto
      have "parse_loop (c # cs) q (int (length w)) cmd sh = parse_loop cs False (int (length [])) c1 sh"
        using c w0 c1 by simp
      then show ?thesis
        using Cons.IH [OF c1(2), of False] Cons.prems c w0 words_from_blank [of ds w cs]
        by (auto split: if_splits)
    qed
  qed
qed

section \<open>The pointers\<close>

lemma link_args_all:
  "nat i + k \<le> length (argv cmd) \<Longrightarrow> 0 \<le> i \<Longrightarrow>
    link_args k i cmd = Inr (cmd\<lparr>argv := take (nat i) (argv cmd) @ map (\<lambda>j. Some (i + int j)) [0..<k] @
      drop (nat i + k) (argv cmd)\<rparr>)"
proof (induction k arbitrary: i cmd)
  case (Suc k)
  have "nat (i + 1) = Suc (nat i)" using Suc.prems by simp
  moreover have "map (\<lambda>j. Some (i + int j)) [0..<Suc k] = Some i # map (\<lambda>j. Some (i + 1 + int j)) [0..<k]"
    by (simp add: map_upt_Suc algebra_simps del: upt_Suc)
  moreover have "take (Suc (nat i)) ((argv cmd)[nat i := Some i]) = take (nat i) (argv cmd) @ [Some i]"
    using Suc.prems by (simp add: take_Suc_conv_app_nth)
  ultimately show ?case
    using Suc.prems Suc.IH [of "i + 1" "cmd\<lparr>argv := (argv cmd)[nat i := Some i]\<rparr>"]
    by (simp add: aset_def)
qed simp

text \<open>What the commands see: \<open>argc\<close> strings.\<close>

definition cmd_words :: "string list \<Rightarrow> cmd_parsed_t \<Rightarrow> bool" where
  "cmd_words ws cmd \<longleftrightarrow> argc cmd = int (length ws) \<and> (\<forall>k < length ws. arg_str cmd (int k) = Inr (ws ! k))"

lemma cmd_words_argv:
  assumes h: "args_hold ws [] cmd" and n: "length ws < 10"
  shows "cmd_words ws (cmd\<lparr>argv := (map (\<lambda>j. Some (int j)) [0..<length ws] @ replicate (10 - length ws) None)
    [length ws := None]\<rparr>)"
  unfolding cmd_words_def
proof (intro conjI allI impI)
  fix k assume k: "k < length ws"
  have "length (args cmd) = 10" "c_str (args cmd ! k) = Inr (ws ! k)" using h k unfolding args_hold_def by blast+
  then show "arg_str (cmd\<lparr>argv := (map (\<lambda>j. Some (int j)) [0..<length ws] @ replicate (10 - length ws) None)
    [length ws := None]\<rparr>) (int k) = Inr (ws ! k)"
    using k n by (simp add: arg_str_def aget_def nth_append)
qed (use h in \<open>simp add: args_hold_def\<close>)

lemma parse_command_ok:
  assumes "NUL \<notin> set s" "length s \<le> 2047" "length (words_of s) < 10"
  shows "\<exists>cmd. parse_command s cmd_parsed_zero sh = Inr (0, cmd, sh) \<and> cmd_words (words_of s) cmd"
proof -
  have "args_hold [] [] (cmd_parsed_zero\<lparr>argc := 0\<rparr>)"
    by (simp add: args_hold_def cmd_parsed_zero_def zeros_def COMMAND_BUF_SIZE_def ARG_MAX_COUNT_def)
  from parse_loop_words [OF this, of s False sh] obtain cmd where c:
      "parse_loop s False 0 (cmd_parsed_zero\<lparr>argc := 0\<rparr>) sh = Inr (0, cmd, sh)" "args_hold (words_of s) [] cmd"
    using assms by (auto simp: words_from_start)
  let ?n = "length (words_of s)"
  have a: "argc cmd = int ?n" "argv cmd = replicate 10 None" using c(2) unfolding args_hold_def by blast+
  then have "link_args (nat (argc cmd)) 0 cmd =
      Inr (cmd\<lparr>argv := map (\<lambda>j. Some (int j)) [0..<?n] @ replicate (10 - ?n) None\<rparr>)"
    using link_args_all [of 0 ?n cmd] assms by simp
  then show ?thesis
    using c(1) a cmd_words_argv [OF c(2) assms(3)] assms(3)
    by (simp add: parse_command_def aset_def)
qed

text \<open>More than ten words are an error; exactly ten write past the end of \<open>argv\<close>.\<close>

lemma parse_command_many:
  assumes "NUL \<notin> set s" "length s \<le> 2047" "length (words_of s) \<ge> 10"
  shows "if length (words_of s) = 10 then parse_command s cmd_parsed_zero sh = Inl C_Fault
    else \<exists>cmd. parse_command s cmd_parsed_zero sh = Inr (-1, cmd, sh\<lparr>console := console sh @ too_many\<rparr>)"
proof -
  have "args_hold [] [] (cmd_parsed_zero\<lparr>argc := 0\<rparr>)"
    by (simp add: args_hold_def cmd_parsed_zero_def zeros_def COMMAND_BUF_SIZE_def ARG_MAX_COUNT_def)
  from parse_loop_words [OF this, of s False sh] have c:
      "if length (words_of s) = 10
       then \<exists>cmd. parse_loop s False 0 (cmd_parsed_zero\<lparr>argc := 0\<rparr>) sh = Inr (0, cmd, sh) \<and> args_hold (words_of s) [] cmd
       else \<exists>cmd. parse_loop s False 0 (cmd_parsed_zero\<lparr>argc := 0\<rparr>) sh = Inr (-1, cmd, sh\<lparr>console := console sh @ too_many\<rparr>)"
    using assms by (auto simp: words_from_start split: if_splits)
  show ?thesis
  proof (cases "length (words_of s) = 10")
    case True
    then obtain cmd where d: "parse_loop s False 0 (cmd_parsed_zero\<lparr>argc := 0\<rparr>) sh = Inr (0, cmd, sh)"
        "args_hold (words_of s) [] cmd" using c by auto
    have a: "argc cmd = 10" "argv cmd = replicate 10 None" using d(2) True unfolding args_hold_def by auto
    then have "link_args 10 0 cmd = Inr (cmd\<lparr>argv := map (\<lambda>j. Some (int j)) [0..<10]\<rparr>)"
      using link_args_all [of 0 10 cmd] by simp
    then show ?thesis using d a True by (simp add: parse_command_def aset_def)
  qed (use c in \<open>auto simp: parse_command_def\<close>)
qed

lemma arg_strs_words:
  "cmd_words ws cmd \<Longrightarrow> i + k = length ws \<Longrightarrow> arg_strs k (int i) cmd = Inr (drop i ws)"
proof (induction k arbitrary: i)
  case (Suc k)
  then have "arg_str cmd (int i) = Inr (ws ! i)" "drop i ws = ws ! i # drop (Suc i) ws"
    by (auto simp: cmd_words_def Cons_nth_drop_Suc)
  then show ?case using Suc.IH [of "Suc i"] Suc.prems by (simp add: algebra_simps)
qed simp

section \<open>Commands\<close>

lemma match_cmd_eq [simp]: "match_cmd a b \<longleftrightarrow> a = b"
proof -
  have "list_all2 (=) a b \<longleftrightarrow> length a = length b \<and> list_all (\<lambda>(x, y). x = y) (zip a b)"
    by (simp add: list_all2_iff list_all_iff)
  then show ?thesis by (simp add: match_cmd_def list.rel_eq)
qed

text \<open>The entry of a name, and what a line does with the rest of the table out of the way.\<close>

definition find_cmd :: "'fs cmd_t list \<Rightarrow> string \<Rightarrow> 'fs cmd_t option" where
  "find_cmd tbl a = List.find (\<lambda>c. cmd_name c = a) tbl"

lemma execute_command_words:
  assumes "cmd_words (a # as) cmd" "find_cmd tbl a = Some c" "cmd_func c = Some f"
  shows "execute_command tbl cmd sh =
    rbind (f (a # as) sh) (\<lambda>(rc, sh).
      if rc = CLI_INVALID_ARGS then
        case cmd_usage c of None \<Rightarrow> Inr (rc, sh) | Some u \<Rightarrow> rbind (u sh) (\<lambda>sh. Inr (rc, sh))
      else Inr (rc, sh))"
proof -
  have a0: "arg_str cmd 0 = Inr a" using assms(1) by (auto simp: cmd_words_def)
  have as: "arg_strs (nat (argc cmd)) 0 cmd = Inr (a # as)"
    using arg_strs_words [OF assms(1), of 0 "length (a # as)"] assms(1) by (simp add: cmd_words_def nat_add_distrib)
  show ?thesis unfolding execute_command_def using assms(2)
  proof (induction tbl)
    case (Cons d tbl)
    then show ?case using a0 as assms(3) by (auto simp: find_cmd_def split: if_splits)
  qed (simp add: find_cmd_def)
qed

lemma execute_command_unknown:
  assumes "cmd_words (a # as) cmd" "find_cmd tbl a = None"
  shows "execute_command tbl cmd sh = Inr (CLI_CMD_NOT_FOUND, sh)"
proof -
  have a0: "arg_str cmd 0 = Inr a" using assms(1) by (auto simp: cmd_words_def)
  show ?thesis unfolding execute_command_def using assms(2)
    by (induction tbl) (auto simp: find_cmd_def a0 split: if_splits)
qed

end
