(* ===== verification/Sh_Session.thy ===== *)
theory Sh_Session
  imports Sh_Line Sh_Words
begin

text \<open>
  Lines through the whole shell: what the main loop does with a line that was typed, and sessions.
\<close>

section \<open>Lines without editing\<close>

text \<open>Printable characters and Enter are echoed as they are.\<close>

lemma read_key_plain:
  assumes t: "text_in (l, []) e" and c: "printable c" "length l < 2047"
  shows "\<exists>e'. read_key offset e (sh\<lparr>getch_in := c # cs\<rparr>) =
      Inr (Key_Continue, offset, e', sh\<lparr>getch_in := cs, console := console sh @ [c]\<rparr>) \<and> text_in (l @ [c], []) e'"
proof -
  let ?e = "e\<lparr>line_buf := (line_buf e)[length l := c], line_i := int (length l) + 1\<rparr>"
  have t': "text_in (l @ [c], []) ?e" using insert_text [OF t] c by simp
  then show ?thesis
    using text_inD [OF t] c printable_facts [OF c(1)] expanded_text [OF t']
    by (simp add: press_simps COMMAND_BUF_SIZE_def aset_def)
qed

lemma console_getch_in: "sh\<lparr>console := x, getch_in := y\<rparr> = sh\<lparr>getch_in := y, console := x\<rparr>"
  by simp

lemma sh_read_loop_plain:
  "text_in (l, []) e \<Longrightarrow> printable_text s \<Longrightarrow> length l + length s \<le> 2047 \<Longrightarrow>
    \<exists>e'. sh_read_loop offset e (sh\<lparr>getch_in := s @ CR # rest\<rparr>) =
      Inr (0, e', sh\<lparr>getch_in := rest, console := console sh @ s @ crlf\<rparr>) \<and> text_in (l @ s, []) e'"
proof (induction s arbitrary: l e sh)
  case Nil
  then show ?case by (subst sh_read_loop.simps) (simp add: read_key_def shell_getch_Cons)
next
  case (Cons c s)
  obtain e' where e': "read_key offset e (sh\<lparr>getch_in := c # s @ CR # rest\<rparr>) =
      Inr (Key_Continue, offset, e', sh\<lparr>getch_in := s @ CR # rest, console := console sh @ [c]\<rparr>)"
      "text_in (l @ [c], []) e'"
    using read_key_plain [OF Cons.prems(1), where c = c and offset = offset and sh = sh and cs = "s @ CR # rest"] Cons.prems by auto
  then show ?case
    using Cons.IH [OF e'(2), where sh = "sh\<lparr>console := console sh @ [c]\<rparr>"] Cons.prems
    by (subst sh_read_loop.simps) (simp add: console_getch_in)
qed

lemma read_plain_line:
  assumes s: "printable_text s" "length s \<le> 2047"
  shows "\<exists>b. sh_read_input (zeros COMMAND_BUF_SIZE) (sh\<lparr>getch_in := s @ CR # rest\<rparr>) =
      Inr (0, b, sh\<lparr>getch_in := rest, console := console sh @ s @ crlf\<rparr>) \<and>
    length b = 2048 \<and> c_str b = Inr s"
proof -
  define e where "e = \<lparr>line_buf = zeros COMMAND_BUF_SIZE, line_i = 0, expand_buf = zeros COMMAND_BUF_SIZE,
               line_ie = int COMMAND_BUF_SIZE - 2\<rparr>"
  have "text_in ([], []) e"
    by (simp add: text_in_def e_def zeros_def COMMAND_BUF_SIZE_def)
  from sh_read_loop_plain [OF this s(1), where offset = 0 and sh = sh and rest = rest] s(2) obtain e' where e':
      "sh_read_loop 0 e (sh\<lparr>getch_in := s @ CR # rest\<rparr>) =
       Inr (0, e', sh\<lparr>getch_in := rest, console := console sh @ s @ crlf\<rparr>)" "text_in (s, []) e'"
    by auto
  have b: "length (line_buf e') = 2048" "take (length s) (line_buf e') = s" "line_i e' = int (length s)"
    using e'(2) by (auto simp: text_in_def)
  have "(line_buf e')[length s := NUL] = s @ NUL # drop (Suc (length s)) (line_buf e')"
    using b s(2) by (simp add: upd_conv_take_nth_drop)
  moreover have "NUL \<notin> set s" using s(1) printable_facts(1) by (auto simp: list_all_iff)
  ultimately have "c_str ((line_buf e')[length s := NUL]) = Inr s" by (metis c_str_append)
  then show ?thesis
    using e'(1) b s(2) expanded_text [OF e'(2)] by (simp add: sh_read_input_def aset_def flip: e_def)
qed

section \<open>The history ring\<close>

text \<open>The shape of the records, and of the prompt as \<open>shell_execute\<close> sets it.\<close>

definition records_ok :: "cmd_records_t \<Rightarrow> bool" where
  "records_ok r \<longleftrightarrow> 0 \<le> cmd_idx r \<and> cmd_idx r < 50 \<and> 0 \<le> level r \<and> level r \<le> 50 \<and>
     length (cmd_buf r) = 50 \<and> (\<forall>row \<in> set (cmd_buf r). length row = 2048)"

definition push_record :: "string \<Rightarrow> cmd_records_t \<Rightarrow> cmd_records_t" where
  "push_record b r = \<lparr>cmd_idx = (if cmd_idx r = 49 then 0 else cmd_idx r + 1),
     level = min 50 (level r + 1), cmd_buf = (cmd_buf r)[nat (cmd_idx r) := b]\<rparr>"

lemma add_history_push:
  assumes r: "records_ok (cmd_records sh)" and b: "length b = 2048"
  shows "add_history b sh = Inr (sh\<lparr>cmd_records := push_record b (cmd_records sh)\<rparr>)"
    and "records_ok (push_record b (cmd_records sh))"
proof -
  let ?r = "cmd_records sh"
  have i: "0 \<le> cmd_idx ?r" "nat (cmd_idx ?r) < 50" "length (cmd_buf ?r) = 50" "level ?r \<le> 50"
    using r by (auto simp: records_ok_def)
  have row: "length (cmd_buf ?r ! nat (cmd_idx ?r)) = 2048" using r i by (auto simp: records_ok_def)
  have "(cmd_idx ?r + 1) smod 50 = (if cmd_idx ?r = 49 then 0 else cmd_idx ?r + 1)"
  proof (cases "cmd_idx ?r = 49")
    case False
    then show ?thesis using i by (simp add: smod_small)
  qed (simp add: signed_modulo_int_def)
  then show "add_history b sh = Inr (sh\<lparr>cmd_records := push_record b ?r\<rparr>)"
    using i b row sh_memcpy_all [of _ 2048 b]
    by (simp add: add_history_def Let_def aget_def aset_def COMMAND_BUF_SIZE_def HISTORY_MAXITEMS_def push_record_def)
  have "\<forall>x \<in> set ((cmd_buf ?r)[nat (cmd_idx ?r) := b]). length x = 2048"
    using r b unfolding records_ok_def by (intro rows_set) auto
  then show "records_ok (push_record b ?r)" using r by (simp add: records_ok_def push_record_def)
qed

text \<open>A history that is not full gets the new line in front.\<close>

lemma history_push:
  assumes h: "history_holds hist r" and i: "cmd_idx r < 49" and b: "length b = 2048" "c_str b = Inr s"
    and s: "printable_text s" "length s \<le> 2047"
  shows "history_holds (s # hist) (push_record b r)" and "records_ok r"
proof -
  have i0: "0 \<le> cmd_idx r" "int (length hist) \<le> cmd_idx r" "length (cmd_buf r) = 50" "level r = int (length hist)"
    using h by (auto simp: history_holds_def)
  show "records_ok r" using h i0 by (simp add: records_ok_def history_holds_def)
  have rows: "\<forall>x \<in> set ((cmd_buf r)[nat (cmd_idx r) := b]). length x = 2048"
    using h b unfolding history_holds_def by (intro rows_set) auto
  have old: "c_str (cmd_buf r ! nat (cmd_idx r - 1 - int k)) = Inr (hist ! k)" if "k < length hist" for k
    using h that unfolding history_holds_def by blast
  have new: "c_str ((cmd_buf r)[nat (cmd_idx r) := b] ! nat (cmd_idx r + 1 - 1 - int k)) = Inr ((s # hist) ! k)"
    if k: "k < Suc (length hist)" for k
  proof (cases k)
    case 0
    then show ?thesis using b i0 i by simp
  next
    case (Suc j)
    then have j: "cmd_idx r + 1 - 1 - int k = cmd_idx r - 1 - int j" "j < length hist" using k by auto
    then have "nat (cmd_idx r - 1 - int j) \<noteq> nat (cmd_idx r)" using i0 by auto
    then show ?thesis using old [OF j(2)] Suc unfolding j(1) by simp
  qed
  have "(cmd_buf r)[nat (cmd_idx r) := b] ! j = zeros 2048" if "j < 50" "cmd_idx r + 1 \<le> int j" for j
  proof -
    have "nat (cmd_idx r) \<noteq> j" "cmd_idx r \<le> int j" using that i0 by auto
    then show ?thesis using h that(1) by (simp add: history_holds_def)
  qed
  then show "history_holds (s # hist) (push_record b r)"
    using h i i0 rows new s unfolding history_holds_def push_record_def by (simp add: min_def)
qed

section \<open>A line that names a command\<close>

text \<open>What follows the call of the command: its usage and the error lines.\<close>

definition command_report :: "'fs cmd_t \<Rightarrow> cli_status_t \<Rightarrow> 'fs shell \<Rightarrow> 'fs shell cres" where
  "command_report c rc sh =
     rbind (if rc = CLI_INVALID_ARGS then case cmd_usage c of None \<Rightarrow> Inr sh | Some u \<Rightarrow> u sh else Inr sh) (\<lambda>sh.
     if rc \<noteq> CLI_OK then
       Inr (sh\<lparr>console := console sh @ dashes @ ''error: '' @ status_to_str rc @ crlf @ dashes\<rparr>)
     else Inr sh)"

lemma words_of_blank: "is_blank s \<Longrightarrow> words_of s = []"
  unfolding words_of_def is_blank_def by (induction s) simp_all

lemma run_line_command:
  assumes b: "length b = 2048" "c_str b = Inr s" and s: "length s \<le> 2047"
    and w: "words_of s = a # as" "length (a # as) < 10" and r: "records_ok (cmd_records sh)"
    and c: "find_cmd tbl a = Some c" "cmd_func c = Some f"
    and sh1: "sh1 = (if a = ''history'' then sh else sh\<lparr>cmd_records := push_record b (cmd_records sh)\<rparr>)"
  shows "run_line tbl b sh = rbind (f (a # as) sh1) (\<lambda>(rc, sh). command_report c rc sh)"
proof -
  have "\<not> is_blank s" "s \<noteq> []" using w words_of_blank [of s] by (auto simp: words_of_def)
  moreover have "NUL \<notin> set s"
    using b(2) set_takeWhileD [of NUL "\<lambda>c. c \<noteq> NUL" b] by (auto simp: c_str_def split: if_splits)
  then obtain cmd where cmd: "parse_command s cmd_parsed_zero sh = Inr (0, cmd, sh)" "cmd_words (a # as) cmd"
    using parse_command_ok [of s sh] s w by auto
  moreover have "arg_str cmd 0 = Inr a" using cmd(2) by (auto simp: cmd_words_def)
  moreover have "(if \<not> match_cmd ''history'' a then add_history b sh else Inr sh) = Inr sh1"
    using add_history_push(1) [OF r b(1)] sh1 by auto
  ultimately have "run_line tbl b sh = rbind (execute_command tbl cmd sh1) (\<lambda>(rc, sh).
      if rc \<noteq> CLI_OK then
        rbind (shell_printf dashes [] sh) (\<lambda>sh.
        rbind (shell_printf (''error: %s'' @ crlf) [VStr (status_to_str rc)] sh) (\<lambda>sh.
        shell_printf dashes [] sh))
      else Inr sh)"
    using b(2) by (simp add: run_line_def)
  also have "\<dots> = rbind (f (a # as) sh1) (\<lambda>(rc, sh). command_report c rc sh)"
  proof -
    have "shell_printf (''error: %s'' @ crlf) [VStr (status_to_str rc)] sh =
        Inr (sh\<lparr>console := console sh @ ''error: '' @ status_to_str rc @ crlf\<rparr>)" for rc and sh :: "'a shell"
      using shell_printf_s [of "''error: ''" crlf "status_to_str rc" sh] by simp
    moreover have "CHR ''%'' \<notin> set dashes" by (simp add: dashes_def)
    ultimately show ?thesis
      unfolding execute_command_words [OF cmd(2) c]
      by (cases "f (a # as) sh1") (auto simp: command_report_def rbind_assoc split: option.splits)
  qed
  finally show ?thesis .
qed

text \<open>The prompt that \<open>shell_execute\<close> sets.\<close>

definition prompt_ok :: "'fs shell \<Rightarrow> bool" where
  "prompt_ok sh \<longleftrightarrow> c_str (prompt sh) = Inr ''>>''"

lemma shell_round_edited:
  assumes ok: "all_ok (key_ok hist) (key_spec hist) ks (0, [], [])"
    and a: "specs (key_spec hist) ks (0, [], []) = (n, l, r)"
    and h: "history_holds hist (cmd_records sh)" "cmd_idx (cmd_records sh) < 49"
    and p: "prompt_ok sh"
    and inp: "getch_in sh = concat (map key_bytes ks) @ CR # rest"
    and w: "words_of (l @ r) = a # as" "length (a # as) < 10" "a \<noteq> ''history''"
    and c: "find_cmd tbl a = Some c" "cmd_func c = Some f"
  shows "\<exists>out k recs.
    shell_round tbl sh =
      rbind (f (a # as) (sh\<lparr>getch_in := rest, console := console sh @ ''>>'' @ out @ crlf, cmd_records := recs\<rparr>))
        (\<lambda>(rc, sh). rbind (command_report c rc sh) (\<lambda>sh. Inr (None, sh))) \<and>
    history_holds ((l @ r) # hist) recs \<and> screen out (''>>'', []) = (''>>'' @ l, r @ blanks k)"
proof -
  let ?sh = "sh\<lparr>console := console sh @ ''>>''\<rparr>"
  obtain b out k where b: "sh_read_input (zeros COMMAND_BUF_SIZE) ?sh =
      Inr (0, b, ?sh\<lparr>getch_in := rest, console := console ?sh @ out @ crlf\<rparr>)"
      "c_str b = Inr (l @ r)" "length b = 2048" "printable_text (l @ r)" "length (l @ r) \<le> 2047"
      "screen out (''>>'', []) = (''>>'' @ l, r @ blanks k)"
    using read_line [OF ok a, of ?sh rest "zeros COMMAND_BUF_SIZE" "''>>''"] h inp
    by (auto simp: zeros_def COMMAND_BUF_SIZE_def)
  let ?r = "cmd_records sh"
  note push = history_push [OF h(1,2) b(3,2,4,5)]
  let ?sh1 = "?sh\<lparr>getch_in := rest, console := console ?sh @ out @ crlf\<rparr>"
  have "run_line tbl b ?sh1 = rbind (f (a # as) (?sh1\<lparr>cmd_records := push_record b ?r\<rparr>)) (\<lambda>(rc, sh). command_report c rc sh)"
    by (rule run_line_command [OF b(3,2,5) w(1,2) _ c]) (use push(2) w in simp_all)
  then have "shell_round tbl sh = rbind (f (a # as) (?sh1\<lparr>cmd_records := push_record b ?r\<rparr>))
      (\<lambda>(rc, sh). rbind (command_report c rc sh) (\<lambda>sh. Inr (None, sh)))"
    using b(1) p by (simp add: shell_round_def prompt_ok_def rbind_assoc case_prod_unfold)
  moreover have "?sh1\<lparr>cmd_records := push_record b ?r\<rparr> =
      sh\<lparr>getch_in := rest, console := console sh @ ''>>'' @ out @ crlf, cmd_records := push_record b ?r\<rparr>"
    by simp
  ultimately show ?thesis using push(1) b(6) by metis
qed

lemma shell_round_plain:
  assumes s: "printable_text s" "length s \<le> 2047" and inp: "getch_in sh = s @ CR # rest"
    and p: "prompt_ok sh" and r: "records_ok (cmd_records sh)"
    and w: "words_of s = a # as" "length (a # as) < 10" "a \<noteq> ''history''"
    and c: "find_cmd tbl a = Some c" "cmd_func c = Some f"
  shows "\<exists>recs. records_ok recs \<and> shell_round tbl sh =
      rbind (f (a # as) (sh\<lparr>getch_in := rest, console := console sh @ ''>>'' @ s @ crlf, cmd_records := recs\<rparr>))
        (\<lambda>(rc, sh). rbind (command_report c rc sh) (\<lambda>sh. Inr (None, sh)))"
proof -
  let ?sh = "sh\<lparr>console := console sh @ ''>>''\<rparr>" and ?r = "cmd_records sh"
  have "?sh\<lparr>getch_in := s @ CR # rest\<rparr> = ?sh" using inp by simp
  then obtain b where b: "sh_read_input (zeros COMMAND_BUF_SIZE) ?sh =
      Inr (0, b, ?sh\<lparr>getch_in := rest, console := console ?sh @ s @ crlf\<rparr>)"
      "length b = 2048" "c_str b = Inr s"
    using read_plain_line [OF s, where sh = ?sh and rest = rest] by auto
  let ?sh1 = "?sh\<lparr>getch_in := rest, console := console ?sh @ s @ crlf\<rparr>"
  have "run_line tbl b ?sh1 = rbind (f (a # as) (?sh1\<lparr>cmd_records := push_record b ?r\<rparr>)) (\<lambda>(rc, sh). command_report c rc sh)"
    by (rule run_line_command [OF b(2,3) s(2) w(1,2) _ c]) (use r w in simp_all)
  then have "shell_round tbl sh = rbind (f (a # as) (?sh1\<lparr>cmd_records := push_record b ?r\<rparr>))
      (\<lambda>(rc, sh). rbind (command_report c rc sh) (\<lambda>sh. Inr (None, sh)))"
    using b(1) p by (simp add: shell_round_def prompt_ok_def rbind_assoc case_prod_unfold)
  moreover have "?sh1\<lparr>cmd_records := push_record b ?r\<rparr> =
      sh\<lparr>getch_in := rest, console := console sh @ ''>>'' @ s @ crlf, cmd_records := push_record b ?r\<rparr>"
    by simp
  moreover have "records_ok (push_record b ?r)" by (rule add_history_push(2) [OF r b(2)])
  ultimately show ?thesis by metis
qed

end
