(* ===== verification/Sh_Keywords.thy ===== *)
theory Sh_Keywords
  imports Sh_Session "HOL-Library.Sublist"
begin

text \<open>
  The keywords of the completion, from an empty table: adding names, starting the shell, and the completion
  of a word that starts one keyword.
\<close>

section \<open>Adding keywords\<close>

definition name_ok :: "string \<Rightarrow> bool" where
  "name_ok s \<longleftrightarrow> printable_text s \<and> length s < 32"

definition keywords_hold :: "string list \<Rightarrow> shell_keywords_t \<Rightarrow> bool" where
  "keywords_hold names kw \<longleftrightarrow>
     keywords_cnt kw = int (length names) \<and> length names \<le> 1024 \<and> length (keywords_buf kw) = 1024 \<and>
     (\<forall>k < length names. length (keywords_buf kw ! k) = 32 \<and> c_str (keywords_buf kw ! k) = Inr (names ! k) \<and>
        take (length (names ! k)) (keywords_buf kw ! k) = names ! k) \<and>
     (\<forall>k < 1024. length names \<le> k \<longrightarrow> keywords_buf kw ! k = zeros 32) \<and>
     list_all name_ok names"

lemma keywords_hold_start: "keywords_hold [] (shell_keywords (shell_start keys fs))"
  by (simp add: keywords_hold_def shell_start_def MAX_KEY_WORD_CNT_def MAX_KEY_WORD_SIZE_def)

lemma name_no_nul: "name_ok s \<Longrightarrow> NUL \<notin> set s"
  using printable_facts(1) by (auto simp: name_ok_def list_all_iff)

lemma add_keyword_hold:
  assumes k: "keywords_hold names (shell_keywords sh)" and n: "name_ok n" "length names < 1024"
  shows "\<exists>kw. shell_add_keyword n sh = Inr (sh\<lparr>shell_keywords := kw\<rparr>) \<and> keywords_hold (names @ [n]) kw"
proof -
  let ?kw = "shell_keywords sh" and ?m = "length names"
  let ?row = "n @ zeros (32 - length n)"
  let ?new = "\<lparr>keywords_cnt = int ?m + 1, keywords_buf = (keywords_buf ?kw)[?m := ?row]\<rparr>"
  have l: "length n < 32" "length (keywords_buf ?kw) = 1024" "keywords_cnt ?kw = int ?m"
    "keywords_buf ?kw ! ?m = zeros 32"
    using k n by (auto simp: name_ok_def keywords_hold_def)
  have "mem_store (zeros 32) 0 n = Inr ?row"
    using l by (simp add: mem_splice_def zeros_def)
  then have add: "shell_add_keyword n sh = Inr (sh\<lparr>shell_keywords := ?new\<rparr>)"
    using l n by (simp add: shell_add_keyword_def Let_def aget_def aset_def add.commute)
  have "?row = n @ NUL # zeros (31 - length n)"
    using l by (simp add: zeros_def Suc_diff_Suc [symmetric] flip: replicate_Suc)
  then have row: "length ?row = 32" "c_str ?row = Inr n" "take (length n) ?row = n"
    using c_str_append [OF name_no_nul [OF n(1)]] l by (simp_all add: zeros_def)
  have "keywords_hold (names @ [n]) ?new"
    using k n l row unfolding keywords_hold_def
    by (auto simp: nth_list_update nth_append less_Suc_eq)
  then show ?thesis using add by blast
qed

lemma add_keywords_hold:
  "keywords_hold names (shell_keywords sh) \<Longrightarrow> list_all (\<lambda>c. name_ok (cmd_name c)) tbl \<Longrightarrow>
    length names + length tbl \<le> 1024 \<Longrightarrow>
    \<exists>kw. add_keywords tbl sh = Inr (sh\<lparr>shell_keywords := kw\<rparr>) \<and> keywords_hold (names @ map cmd_name tbl) kw"
proof (induction tbl arbitrary: names sh)
  case Nil
  then show ?case by (intro exI [of _ "shell_keywords sh"]) simp
next
  case (Cons c tbl)
  obtain kw where kw: "shell_add_keyword (cmd_name c) sh = Inr (sh\<lparr>shell_keywords := kw\<rparr>)"
      "keywords_hold (names @ [cmd_name c]) kw"
    using add_keyword_hold [OF Cons.prems(1), of "cmd_name c"] Cons.prems by auto
  then show ?case
    using Cons.IH [of "names @ [cmd_name c]" "sh\<lparr>shell_keywords := kw\<rparr>"] Cons.prems by auto
qed

section \<open>Starting\<close>

lemma print_keywords_text:
  "keywords_hold names (shell_keywords sh) \<Longrightarrow> i + k = length names \<Longrightarrow>
    print_keywords k (int i) sh =
      Inr (sh\<lparr>console := console sh @ concat (map (\<lambda>n. n @ '' '') (drop i names))\<rparr>)"
proof (induction k arbitrary: i sh)
  case (Suc k)
  have i: "i < length names" using Suc.prems by simp
  have "length (keywords_buf (shell_keywords sh)) = 1024" "length names \<le> 1024"
    "c_str (keywords_buf (shell_keywords sh) ! i) = Inr (names ! i)"
    using Suc.prems i by (auto simp: keywords_hold_def)
  moreover have "shell_printf ''%s '' [VStr (names ! i)] sh = Inr (sh\<lparr>console := console sh @ names ! i @ '' ''\<rparr>)"
    using shell_printf_s [of "[]" "'' ''" "names ! i" sh] by simp
  moreover have "drop i names = names ! i # drop (Suc i) names" using i by (rule Cons_nth_drop_Suc [symmetric])
  ultimately show ?case
    using Suc.IH [of "sh\<lparr>console := console sh @ names ! i @ '' ''\<rparr>" "Suc i"] Suc.prems i
    by (simp add: aget_def algebra_simps)
qed simp

definition banner :: "string list \<Rightarrow> string" where
  "banner names = stars @ crlf @
     ''** this is a simple cli, type '' @ [CHR 0x27] @ ''help'' @ [CHR 0x27] @
     '' to see what cmds is supported.'' @ crlf @ stars @ crlf @
     ''all supported keywords are { '' @ concat (map (\<lambda>n. n @ '' '') names) @ ''}'' @ crlf @ crlf"

lemma shell_init_start:
  assumes "list_all (\<lambda>c. name_ok (cmd_name c)) tbl" "length tbl \<le> 1024"
  shows "\<exists>kw. shell_init tbl (shell_start keys fs) = Inr ((shell_start keys fs)
      \<lparr>shell_keywords := kw, console := banner (map cmd_name tbl)\<rparr>) \<and> keywords_hold (map cmd_name tbl) kw"
proof -
  define c1 where "c1 = stars @ crlf @ ''** this is a simple cli, type '' @ [CHR 0x27] @ ''help'' @ [CHR 0x27] @
     '' to see what cmds is supported.'' @ crlf @ stars @ crlf"
  let ?sh = "(shell_start keys fs)\<lparr>console := c1\<rparr>"
  obtain kw where kw: "add_keywords tbl ?sh = Inr (?sh\<lparr>shell_keywords := kw\<rparr>)" "keywords_hold (map cmd_name tbl) kw"
    using add_keywords_hold [of "[]" ?sh tbl] keywords_hold_start [of keys fs] assms by auto
  let ?sh2 = "?sh\<lparr>shell_keywords := kw, console := c1 @ ''all supported keywords are { ''\<rparr>"
  have pk: "print_keywords (nat (keywords_cnt kw)) 0 ?sh2 =
      Inr (?sh2\<lparr>console := console ?sh2 @ concat (map (\<lambda>n. n @ '' '') (map cmd_name tbl))\<rparr>)"
    using print_keywords_text [of "map cmd_name tbl" ?sh2 0 "length tbl"] kw(2) by (simp add: keywords_hold_def)
  have "console (shell_start keys fs) = []" by (simp add: shell_start_def)
  then have "shell_init tbl (shell_start keys fs) =
      rbind (add_keywords tbl ?sh) (\<lambda>sh.
      rbind (shell_printf ''all supported keywords are { '' [] sh) (\<lambda>sh.
      rbind (print_keywords (nat (keywords_cnt (shell_keywords sh))) 0 sh) (\<lambda>sh.
      rbind (shell_printf (''}'' @ crlf) [] sh) (\<lambda>sh. shell_printf crlf [] sh))))"
    by (simp add: shell_init_def c1_def stars_def)
  also have "\<dots> = Inr (?sh2\<lparr>console := console ?sh2 @ concat (map (\<lambda>n. n @ '' '') (map cmd_name tbl)) @ ''}'' @ crlf @ crlf\<rparr>)"
    using kw(1) pk by simp
  also have "?sh2\<lparr>console := console ?sh2 @ concat (map (\<lambda>n. n @ '' '') (map cmd_name tbl)) @ ''}'' @ crlf @ crlf\<rparr> =
      (shell_start keys fs)\<lparr>shell_keywords := kw, console := banner (map cmd_name tbl)\<rparr>"
    by (simp add: banner_def c1_def)
  finally show ?thesis using kw(2) by blast
qed

section \<open>Completion\<close>

text \<open>The word before the cursor, and the names it starts.\<close>

definition last_word :: "string \<Rightarrow> string" where
  "last_word l = rev (takeWhile (\<lambda>c. c \<noteq> CHR '' '') (rev l))"

definition candidates :: "string \<Rightarrow> string list \<Rightarrow> nat list" where
  "candidates w names = filter (\<lambda>i. prefix w (names ! i)) [0..<length names]"

lemma last_word_snoc: "last_word (l @ [c]) = (if c = CHR '' '' then [] else last_word l @ [c])"
  by (simp add: last_word_def)

lemma last_word_length: "length (last_word l) \<le> length l"
  using length_takeWhile_le [of _ "rev l"] by (simp add: last_word_def)

lemma last_word_set: "set (last_word l) \<subseteq> set l"
  by (auto simp: last_word_def dest: set_takeWhileD)

lemma last_word_loop_word:
  "p @ s = take (length p + length s) buf \<Longrightarrow> length p + length s \<le> 2047 \<Longrightarrow> length buf = 2048 \<Longrightarrow>
    length tmp = 2048 \<Longrightarrow> itmp = int (length (last_word p)) \<Longrightarrow> take (length (last_word p)) tmp = last_word p \<Longrightarrow>
    blank + 1 = int (length p - length (last_word p)) \<Longrightarrow>
    \<exists>tmp'. last_word_loop (length s) (int (length p)) buf tmp itmp blank =
        Inr (tmp', int (length (last_word (p @ s))), int (length (p @ s) - length (last_word (p @ s))) - 1) \<and>
      length tmp' = 2048 \<and> take (length (last_word (p @ s))) tmp' = last_word (p @ s)"
proof (induction s arbitrary: p tmp itmp blank)
  case Nil
  then have "blank = int (length p - length (last_word p)) - 1" by linarith
  then show ?case using Nil by simp
next
  case (Cons c s)
  let ?w = "last_word p"
  have buf: "aget buf (int (length p)) = Inr c"
  proof -
    have "buf ! length p = take (length p + length (c # s)) buf ! length p" by simp
    also have "\<dots> = c" using Cons.prems(1) by (metis nth_append_length)
    finally show ?thesis using Cons.prems by (simp add: aget_def)
  qed
  have w: "length ?w \<le> length p" by (rule last_word_length)
  have step: "(p @ [c]) @ s = take (length (p @ [c]) + length s) buf" using Cons.prems(1) by simp
  show ?case
  proof (cases "c = CHR '' ''")
    case True
    then show ?thesis
      using Cons.IH [OF step, of tmp 0 "int (length p)"] Cons.prems buf
      by (simp add: last_word_snoc algebra_simps)
  next
    case False
    let ?tmp = "tmp[length ?w := c]"
    have "take (length (last_word (p @ [c]))) ?tmp = last_word (p @ [c])"
      using False Cons.prems w by (simp add: last_word_snoc take_Suc_conv_app_nth)
    moreover have "blank + 1 = int (length (p @ [c]) - length (last_word (p @ [c])))"
      using False Cons.prems w by (simp add: last_word_snoc)
    moreover have "itmp + 1 = int (length (last_word (p @ [c])))"
      using False Cons.prems by (simp add: last_word_snoc)
    ultimately show ?thesis
      using Cons.IH [OF step, of ?tmp "itmp + 1" blank] Cons.prems buf False w
      by (simp add: aset_def algebra_simps)
  qed
qed

lemma keyword_starts_prefix:
  "NUL \<notin> set w \<Longrightarrow> keyword_starts w (n @ NUL # x) = Inr (prefix w n)"
proof (induction w arbitrary: n)
  case (Cons c w)
  then show ?case by (cases n) auto
qed simp

lemma c_str_row: "c_str row = Inr s \<Longrightarrow> \<exists>x. row = s @ NUL # x"
proof -
  assume c: "c_str row = Inr s"
  then have "NUL \<in> set row" and s: "s = takeWhile (\<lambda>c. c \<noteq> NUL) row" by (auto simp: c_str_def split: if_splits)
  then have "dropWhile (\<lambda>c. c \<noteq> NUL) row \<noteq> []" by (auto simp: dropWhile_eq_Nil_conv)
  then obtain d x where d: "dropWhile (\<lambda>c. c \<noteq> NUL) row = d # x" by (cases "dropWhile (\<lambda>c. c \<noteq> NUL) row") auto
  then have "d = NUL" using hd_dropWhile [of "\<lambda>c. c \<noteq> NUL" row] by auto
  then show ?thesis using d s takeWhile_dropWhile_id [of "\<lambda>c. c \<noteq> NUL" row] by metis
qed

lemma find_match_candidates:
  assumes "keywords_hold names kw" "NUL \<notin> set w"
  shows "i + k = length names \<Longrightarrow>
    find_match_from k (int i) w (keywords_buf kw) = Inr (map int (filter (\<lambda>i. prefix w (names ! i)) [i..<length names]))"
proof (induction k arbitrary: i)
  case (Suc k)
  then have i: "i < length names" by simp
  have "aget (keywords_buf kw) (int i) = Inr (keywords_buf kw ! i)"
    and c: "c_str (keywords_buf kw ! i) = Inr (names ! i)"
    using assms(1) i by (auto simp: keywords_hold_def aget_def)
  moreover have "keyword_starts w (keywords_buf kw ! i) = Inr (prefix w (names ! i))"
    using c_str_row [OF c] keyword_starts_prefix [OF assms(2)] by auto
  moreover have "[i..<length names] = i # [Suc i..<length names]" using i by (rule upt_conv_Cons)
  ultimately show ?case using Suc.IH [of "Suc i"] Suc.prems by (simp add: algebra_simps)
qed simp

lemma append_rest_text:
  "text_in (l, []) e \<Longrightarrow> printable_text cs \<Longrightarrow> length l + length cs \<le> 2047 \<Longrightarrow>
    \<exists>e'. append_rest cs e sh = Inr (e', sh\<lparr>console := console sh @ cs\<rparr>) \<and> text_in (l @ cs, []) e'"
proof (induction cs arbitrary: l e sh)
  case (Cons c cs)
  let ?e = "e\<lparr>line_buf := (line_buf e)[length l := c], line_i := int (length l) + 1\<rparr>"
  have "text_in (l @ [c], []) ?e" using insert_text [OF Cons.prems(1)] Cons.prems by simp
  from Cons.IH [OF this, of "sh\<lparr>console := console sh @ [c]\<rparr>"] show ?case
    using Cons.prems text_inD [OF Cons.prems(1)] by (auto simp: aset_def)
qed simp

lemma text_in_end:
  assumes "text_in (l, r) e"
  shows "text_in (l, r) (e\<lparr>line_buf := (line_buf e)[length l := NUL]\<rparr>)"
  using assms by (auto simp: text_in_def)

text \<open>The line after the completion, and what is written.\<close>

definition completed :: "string list \<Rightarrow> string \<Rightarrow> string" where
  "completed names l =
     (case candidates (last_word l) names of
        [i] \<Rightarrow> l @ drop (length (last_word l)) (names ! i)
      | _ \<Rightarrow> l)"

definition completion_output :: "string list \<Rightarrow> string \<Rightarrow> string \<Rightarrow> string" where
  "completion_output names p l =
     (case candidates (last_word l) names of
        [] \<Rightarrow> []
      | [i] \<Rightarrow> drop (length (last_word l)) (names ! i)
      | is \<Rightarrow> crlf @ concat (map (\<lambda>i. names ! i @ ''  '') is) @ crlf @ p @ l)"

lemma print_matches_text:
  "keywords_hold names (shell_keywords sh) \<Longrightarrow> \<forall>i \<in> set is. i < length names \<Longrightarrow>
    print_matches (map int is) sh = Inr (sh\<lparr>console := console sh @ concat (map (\<lambda>i. names ! i @ ''  '') is)\<rparr>)"
proof (induction "is" arbitrary: sh)
  case (Cons i "is")
  have "length (keywords_buf (shell_keywords sh)) = 1024" "length names \<le> 1024"
    "c_str (keywords_buf (shell_keywords sh) ! i) = Inr (names ! i)"
    using Cons.prems by (auto simp: keywords_hold_def)
  moreover have "shell_printf ''%s  '' [VStr (names ! i)] sh = Inr (sh\<lparr>console := console sh @ names ! i @ ''  ''\<rparr>)"
    using shell_printf_s [of "[]" "''  ''" "names ! i" sh] by simp
  ultimately show ?case
    using Cons.IH [of "sh\<lparr>console := console sh @ names ! i @ ''  ''\<rparr>"] Cons.prems by (simp add: aget_def)
qed simp

lemma shell_printf_ss:
  "shell_printf (crlf @ ''%s%s'') [VStr p, VStr b] sh = Inr (sh\<lparr>console := console sh @ crlf @ p @ b\<rparr>)"
proof -
  have "tfp_format ''%s%s'' [VStr p, VStr b] = Inr (p @ b)"
    by (subst tfp_format_s, subst tfp_format_s) simp
  moreover have "CHR ''%'' \<notin> set crlf" by simp
  ultimately show ?thesis
    using tfp_format_literal [of crlf "''%s%s''"] by (simp add: shell_printf_def del: tfp_format.simps)
qed

lemma auto_complete_text:
  assumes t: "text_in (l, []) e" and k: "keywords_hold names (shell_keywords sh)"
    and p: "c_str (prompt sh) = Inr p" and b: "c_str (line_buf e) = Inr l"
    and len: "length (completed names l) \<le> 2047"
  shows "\<exists>e'. auto_complete e sh = Inr (e', sh\<lparr>console := console sh @ completion_output names p l\<rparr>) \<and>
    text_in (completed names l, []) e'"
proof -
  let ?w = "last_word l" and ?ms = "candidates (last_word l) names"
  have w: "length ?w \<le> length l" "NUL \<notin> set ?w"
    using last_word_length last_word_set [of l] text_inD(5) [OF t] printable_facts(1)
    by (auto simp: list_all_iff)
  have "l = take (length l) (line_buf e)" using t by (simp add: text_in_def)
  then obtain tmp where tmp: "last_word_loop (length l) 0 (line_buf e) (zeros COMMAND_BUF_SIZE) 0 (-1) =
      Inr (tmp, int (length ?w), int (length l - length ?w) - 1)" "length tmp = 2048" "take (length ?w) tmp = ?w"
    using last_word_loop_word [of "[]" l "line_buf e" "zeros COMMAND_BUF_SIZE" 0 "-1"] text_inD [OF t]
    by (auto simp: last_word_def zeros_def COMMAND_BUF_SIZE_def)
  have "tmp[length ?w := NUL] = ?w @ NUL # drop (Suc (length ?w)) tmp"
    using tmp w text_inD [OF t] by (simp add: upd_conv_take_nth_drop)
  then have cs: "c_str (tmp[length ?w := NUL]) = Inr ?w" by (metis c_str_append w(2))
  have fm: "find_match ?w sh = Inr (map int ?ms)"
    using find_match_candidates [OF k w(2), of 0 "length names"] k
    by (simp add: find_match_def candidates_def keywords_hold_def)
  have i: "\<forall>i \<in> set ?ms. i < length names" by (simp add: candidates_def)
  let ?after = "\<lambda>idxs. if length idxs > 1 then
       rbind (shell_printf crlf [] sh) (\<lambda>sh. rbind (print_matches idxs sh) (\<lambda>sh.
       rbind (c_str (prompt sh)) (\<lambda>p. rbind (c_str (line_buf e)) (\<lambda>b.
       rbind (shell_printf (crlf @ ''%s%s'') [VStr p, VStr b] sh) (\<lambda>sh. Inr (e, sh))))))
     else if length idxs = 1 then
       rbind (aget (keywords_buf (shell_keywords sh)) (hd idxs)) (\<lambda>row. rbind (c_str row) (\<lambda>kw.
       rbind (append_rest (drop (length ?w) kw) e sh) (\<lambda>(e, sh).
       rbind (aset (line_buf e) (line_i e) NUL) (\<lambda>b. Inr (e\<lparr>line_buf := b\<rparr>, sh)))))
     else Inr (e, sh)"
  have ac: "auto_complete e sh = ?after (map int ?ms)"
    using tmp cs fm w text_inD [OF t] by (simp add: auto_complete_def aset_def of_nat_diff)
  show ?thesis
  proof (cases ?ms)
    case Nil
    then show ?thesis using ac t by (simp add: completed_def completion_output_def)
  next
    case (Cons j js)
    show ?thesis
    proof (cases js)
      case Nil
      let ?rest = "drop (length ?w) (names ! j)"
      have j: "j < length names" using i Cons by simp
      then have row: "aget (keywords_buf (shell_keywords sh)) (int j) = Inr (keywords_buf (shell_keywords sh) ! j)"
          "c_str (keywords_buf (shell_keywords sh) ! j) = Inr (names ! j)" and ok: "name_ok (names ! j)"
        using k by (auto simp: keywords_hold_def aget_def list_all_length)
      have "set ?rest \<subseteq> set (names ! j)" by (rule set_drop_subset)
      then have "printable_text ?rest" using ok by (auto simp: name_ok_def list_all_iff)
      moreover have c: "completed names l = l @ ?rest" using Cons Nil by (simp add: completed_def)
      moreover have "length l + length ?rest \<le> 2047" using len c by simp
      ultimately obtain e1 where e1: "append_rest ?rest e sh = Inr (e1, sh\<lparr>console := console sh @ ?rest\<rparr>)"
          "text_in (l @ ?rest, []) e1" using append_rest_text [OF t] by blast
      have "aset (line_buf e1) (line_i e1) NUL = Inr ((line_buf e1)[length (l @ ?rest) := NUL])"
        using text_inD [OF e1(2)] by (simp add: aset_def nat_add_distrib)
      then have "auto_complete e sh = Inr (e1\<lparr>line_buf := (line_buf e1)[length (l @ ?rest) := NUL]\<rparr>,
          sh\<lparr>console := console sh @ ?rest\<rparr>)"
        using ac Cons Nil row e1 by simp
      then show ?thesis
        using text_in_end [OF e1(2)] c Cons Nil by (simp add: completion_output_def)
    next
      case (Cons j2 js2)
      then have "auto_complete e sh = Inr (e, sh\<lparr>console := console sh @ completion_output names p l\<rparr>)"
        using ac \<open>?ms = j # js\<close> p b i print_matches_text [of names "sh\<lparr>console := console sh @ crlf\<rparr>" ?ms] k
        by (simp add: completion_output_def shell_printf_ss [simplified])
      then show ?thesis using t Cons \<open>?ms = j # js\<close> by (simp add: completed_def)
    qed
  qed
qed

lemma tab_key:
  assumes t: "text_in (l, []) e" and k: "keywords_hold names (shell_keywords sh)"
    and p: "c_str (prompt sh) = Inr p" and len: "length (completed names l) \<le> 2047"
  shows "\<exists>e'. read_key offset e (sh\<lparr>getch_in := CHR 0x09 # cs\<rparr>) =
      Inr (Key_Continue, offset, e', sh\<lparr>getch_in := cs, console := console sh @ completion_output names p l\<rparr>) \<and>
    text_in (completed names l, []) e'"
proof -
  let ?e = "e\<lparr>line_buf := (line_buf e)[length l := NUL]\<rparr>"
  have b: "c_str (line_buf ?e) = Inr l"
  proof -
    have "(line_buf e)[length l := NUL] = l @ NUL # drop (Suc (length l)) (line_buf e)"
      using t by (auto simp: text_in_def upd_conv_take_nth_drop)
    moreover have "NUL \<notin> set l" using text_inD(5) [OF t] printable_facts(1) by (auto simp: list_all_iff)
    ultimately show ?thesis by (simp del: append_assoc add: c_str_append)
  qed
  obtain e' where "auto_complete ?e (sh\<lparr>getch_in := cs\<rparr>) =
      Inr (e', sh\<lparr>getch_in := cs, console := console sh @ completion_output names p l\<rparr>)"
      "text_in (completed names l, []) e'"
    using auto_complete_text [OF text_in_end [OF t] _ _ b len, of "sh\<lparr>getch_in := cs\<rparr>" p] k p by auto
  then show ?thesis
    using text_inD [OF t] by (simp add: read_key_def shell_getch_Cons key_codes aset_def)
qed

end
