(* ===== verification/Sh_Properties.thy ===== *)
theory Sh_Properties
  imports Sh_Keywords
begin

text \<open>
  The properties of the shell, each with a run of it on concrete input where it has hypotheses.
\<close>

section \<open>Sessions\<close>

text \<open>A word that is one argument, and the lines that echo words.\<close>

definition echo_word :: "string \<Rightarrow> bool" where
  "echo_word w \<longleftrightarrow> w \<noteq> [] \<and> printable_text w \<and> list_all (\<lambda>c. c \<noteq> CHR '' '' \<and> c \<noteq> CHR 0x22) w \<and>
     length w \<le> 2042"

definition echo_line :: "string \<Rightarrow> string" where
  "echo_line w = ''echo '' @ w"

definition echo_output :: "string \<Rightarrow> string" where
  "echo_output w = ''>>'' @ echo_line w @ crlf @ w @ crlf"

lemma pieces_word:
  "list_all (\<lambda>c. c \<noteq> CHR '' '' \<and> c \<noteq> CHR 0x22) w \<Longrightarrow> pieces False w = [w]"
  by (induction w) auto

lemma words_of_echo: "echo_word w \<Longrightarrow> words_of (echo_line w) = [''echo'', w]"
  by (simp add: words_of_def echo_line_def echo_word_def pieces_word)

text \<open>An iteration of the main loop that goes on.\<close>

definition next_line :: "'fs cmd_t list \<Rightarrow> 'fs shell \<Rightarrow> 'fs shell cres" where
  "next_line tbl sh =
     (if shell_should_exit sh \<noteq> 0 then Inl C_Fault
      else rbind (shell_round tbl sh) (\<lambda>(r, sh). if r = None then Inr sh else Inl C_Fault))"

definition session_rel :: "'fs \<Rightarrow> string \<Rightarrow> 'fs shell \<Rightarrow> bool" where
  "session_rel fs con sh \<longleftrightarrow> console sh = con \<and> shell_should_exit sh = 0 \<and> prompt_ok sh \<and>
     records_ok (cmd_records sh) \<and> fs_state sh = fs"

lemma echo_runs:
  assumes rel: "session_rel fs con sh" and w: "echo_word w" and inp: "getch_in sh = (echo_line w @ [CR]) @ rest"
  shows "runs (next_line (cmd_tbl fs_cmds) sh)
    (\<lambda>sh'. session_rel fs (con @ echo_output w) sh' \<and> getch_in sh' = rest)"
proof -
  let ?c = "\<lparr>cmd_name = ''echo'', cmd_usage = Some echo_usage, cmd_func = Some echo_func\<rparr>"
  have c: "find_cmd (cmd_tbl fs_cmds) ''echo'' = Some ?c" by (simp add: find_cmd_def cmd_tbl_def Let_def)
  have s: "printable_text (echo_line w)" "length (echo_line w) \<le> 2047"
    using w by (simp_all add: echo_word_def echo_line_def printable_def)
  have i: "getch_in sh = echo_line w @ CR # rest" using inp by simp
  obtain recs where recs: "records_ok recs"
      "shell_round (cmd_tbl fs_cmds) sh =
        rbind (echo_func [''echo'', w] (sh\<lparr>getch_in := rest, console := console sh @ ''>>'' @ echo_line w @ crlf, cmd_records := recs\<rparr>))
        (\<lambda>(rc, sh). rbind (command_report ?c rc sh) (\<lambda>sh. Inr (None, sh)))"
    using shell_round_plain [OF s i _ _ words_of_echo [OF w] _ _ c] rel by (auto simp: session_rel_def)
  let ?sh = "sh\<lparr>getch_in := rest, console := console sh @ ''>>'' @ echo_line w @ crlf, cmd_records := recs\<rparr>"
  have "shell_printf (''%s'' @ crlf) [VStr w] ?sh = Inr (?sh\<lparr>console := console ?sh @ w @ crlf\<rparr>)"
    using shell_printf_s [of "[]" crlf w ?sh] by simp
  then have "shell_round (cmd_tbl fs_cmds) sh = Inr (None, ?sh\<lparr>console := console ?sh @ w @ crlf\<rparr>)"
    using recs(2) by (simp add: echo_func_def command_report_def)
  then show ?thesis
    using rel recs(1) by (simp add: next_line_def runs_def session_rel_def prompt_ok_def echo_output_def)
qed

interpretation echo_lines: command_reader "next_line (cmd_tbl fs_cmds)" getch_in "\<lambda>w. echo_line w @ [CR]"
    "\<lambda>w con. con @ echo_output w" "\<lambda>w con. echo_word w" "session_rel fs"
  for fs_cmds fs
  by unfold_locales (rule echo_runs)

lemma shell_loop_iterate:
  "iterate n (next_line tbl) sh = Inr sh' \<Longrightarrow> shell_loop (n + m) tbl sh = shell_loop m tbl sh'"
proof (induction n arbitrary: sh)
  case (Suc n)
  then obtain sh1 where s: "next_line tbl sh = Inr sh1" "iterate n (next_line tbl) sh1 = Inr sh'"
    by (auto simp: res_simps)
  have "shell_should_exit sh = 0" "shell_round tbl sh = Inr (None, sh1)"
    using s(1) by (auto simp: next_line_def res_simps split: if_splits)
  then show ?case using Suc.IH [OF s(2)] by simp
qed simp

lemma exit_round:
  assumes rel: "session_rel fs con sh" and inp: "getch_in sh = ''exit'' @ CR # rest"
  shows "\<exists>sh'. shell_round (cmd_tbl fs_cmds) sh = Inr (None, sh') \<and> shell_should_exit sh' = 1 \<and>
    console sh' = con @ ''>>exit'' @ crlf @ ''Bye.'' @ crlf \<and> fs_state sh' = fs"
proof -
  let ?c = "\<lparr>cmd_name = ''exit'', cmd_usage = Some exit_usage, cmd_func = Some exit_func\<rparr>"
  have c: "find_cmd (cmd_tbl fs_cmds) ''exit'' = Some ?c" by (simp add: find_cmd_def cmd_tbl_def Let_def)
  have w: "words_of ''exit'' = [''exit'']" by (simp add: words_of_def)
  have s: "printable_text ''exit''" by (simp add: printable_def)
  obtain recs where "shell_round (cmd_tbl fs_cmds) sh =
        rbind (exit_func [''exit''] (sh\<lparr>getch_in := rest, console := console sh @ ''>>'' @ ''exit'' @ crlf, cmd_records := recs\<rparr>))
        (\<lambda>(rc, sh). rbind (command_report ?c rc sh) (\<lambda>sh. Inr (None, sh)))"
    using shell_round_plain [OF s _ inp _ _ w _ _ c] rel by (auto simp: session_rel_def)
  then show ?thesis using rel by (simp add: exit_func_def command_report_def session_rel_def)
qed

lemma all_ok_echo: "list_all echo_word ws \<Longrightarrow> all_ok (\<lambda>w con. echo_word w) spec ws con"
  by (induction ws arbitrary: con) simp_all

lemma specs_echo: "specs (\<lambda>w con. con @ echo_output w) ws con = con @ concat (map echo_output ws)"
  by (induction ws arbitrary: con) simp_all

text \<open>
  C3: the program from start to exit. Typing any number of \<open>echo\<close> lines and \<open>exit\<close>, the terminal shows the
  banner with the names of the commands, every line after its prompt followed by its argument, and \<open>Bye.\<close>;
  the program returns 0, the file system untouched.
\<close>

theorem echo_session:
  assumes "list_all echo_word ws" and "list_all (\<lambda>c. name_ok (cmd_name c)) fs_cmds" and "length fs_cmds \<le> 1020"
    and "fuel > length ws + 1"
  shows "\<exists>sh. mysh_main fuel fs_cmds
      (shell_start (concat (map (\<lambda>w. echo_line w @ [CR]) ws) @ ''exit'' @ [CR]) fs) = Inr (0, sh) \<and>
    console sh = banner ([''help'', ''echo'', ''history'', ''exit''] @ map cmd_name fs_cmds) @
      concat (map echo_output ws) @ ''>>exit'' @ crlf @ ''Bye.'' @ crlf \<and> fs_state sh = fs"
proof -
  define keys where "keys = concat (map (\<lambda>w. echo_line w @ [CR]) ws) @ ''exit'' @ [CR]"
  define names where "names = [''help'', ''echo'', ''history'', ''exit''] @ map cmd_name fs_cmds"
  let ?tbl = "cmd_tbl fs_cmds"
  have "list_all (\<lambda>c. name_ok (cmd_name c)) ?tbl" "length ?tbl \<le> 1024" and n: "map cmd_name ?tbl = names"
    using assms(2,3) by (simp_all add: cmd_tbl_def Let_def name_ok_def printable_def names_def)
  then obtain kw where init: "shell_init ?tbl (shell_start keys fs) =
      Inr ((shell_start keys fs)\<lparr>shell_keywords := kw, console := banner names\<rparr>)"
    using shell_init_start [of ?tbl keys fs] by auto
  define sh0 where "sh0 = (shell_start keys fs)\<lparr>shell_keywords := kw, console := banner names,
    prompt := ''>>'' @ NUL # zeros 252\<rparr>"
  have p: "shell_set_prompt (Some '''') ((shell_start keys fs)\<lparr>shell_keywords := kw, console := banner names\<rparr>) = Inr sh0"
    by (simp add: shell_set_prompt_def shell_start_def zeros_def sh0_def mem_splice_def)
  have rel: "session_rel fs (banner names) sh0"
    using c_str_append [of "''>>''" "zeros 252"]
    by (simp add: session_rel_def sh0_def shell_start_def prompt_ok_def records_ok_def zeros_def
        COMMAND_BUF_SIZE_def HISTORY_MAXITEMS_def)
  have "getch_in sh0 = concat (map (\<lambda>w. echo_line w @ [CR]) ws) @ ''exit'' @ [CR]"
    by (simp add: sh0_def shell_start_def keys_def)
  then obtain sh1 where sh1: "iterate (length ws) (next_line ?tbl) sh0 = Inr sh1"
      "session_rel fs (banner names @ concat (map echo_output ws)) sh1" "getch_in sh1 = ''exit'' @ [CR]"
    using echo_lines.iterate_runs [OF rel all_ok_echo [OF assms(1)], of "''exit'' @ [CR]"]
    by (auto simp: runs_def specs_echo)
  obtain sh2 where sh2: "shell_round ?tbl sh1 = Inr (None, sh2)" "shell_should_exit sh2 = 1"
      "console sh2 = (banner names @ concat (map echo_output ws)) @ ''>>exit'' @ crlf @ ''Bye.'' @ crlf" "fs_state sh2 = fs"
    using exit_round [OF sh1(2), of "[]"] sh1(3) by auto
  have x: "shell_should_exit sh1 = 0" using sh1(2) by (simp add: session_rel_def)
  obtain m where m: "fuel = length ws + Suc (Suc m)"
    using assms(4) by (metis add_Suc_right less_iff_Suc_add nat_arith.suc1 plus_1_eq_Suc add.commute)
  have "mysh_main fuel fs_cmds (shell_start keys fs) = shell_loop fuel ?tbl sh0"
    using init p by (simp add: mysh_main_def shell_execute_def)
  also have "\<dots> = Inr (0, sh2)"
    unfolding m shell_loop_iterate [OF sh1(1)] using sh2 x by simp
  finally show ?thesis using sh2 by (simp add: keys_def names_def)
qed

theorem echo_session_witness:
  "\<exists>sh. mysh_main 5 [] (shell_start (''echo hi'' @ [CR] @ ''echo you'' @ [CR] @ ''exit'' @ [CR]) (0::nat)) = Inr (0, sh) \<and>
    console sh = banner [''help'', ''echo'', ''history'', ''exit''] @
      ''>>echo hi'' @ crlf @ ''hi'' @ crlf @ ''>>echo you'' @ crlf @ ''you'' @ crlf @ ''>>exit'' @ crlf @ ''Bye.'' @ crlf \<and>
    fs_state sh = 0"
  using echo_session [of "[''hi'', ''you'']" "[]" 5 "0::nat"]
  by (simp add: echo_word_def printable_def echo_line_def echo_output_def)

section \<open>The line editor\<close>


text \<open>A shell that has run one command, for the runs below.\<close>

definition shell_after_ls :: "string \<Rightarrow> nat shell" where
  "shell_after_ls keys = (let sh = shell_start keys 0 in
     sh\<lparr>cmd_records := push_record (''ls'' @ zeros 2046) (cmd_records sh), prompt := ''>>'' @ NUL # zeros 252\<rparr>)"

lemma history_after_ls: "history_holds [''ls''] (cmd_records (shell_after_ls keys))"
proof -
  have "history_holds [] (cmd_records (shell_start keys (0::nat)))"
    by (simp add: history_holds_def shell_start_def zeros_def COMMAND_BUF_SIZE_def HISTORY_MAXITEMS_def)
  then show ?thesis
    unfolding shell_after_ls_def Let_def
    by (simp, rule history_push(1))
       (simp_all add: shell_start_def zeros_def c_str_def printable_def numeral_eq_Suc)
qed

lemma shell_after_ls_fields [simp]:
  "getch_in (shell_after_ls keys) = keys" "console (shell_after_ls keys) = []"
  "cmd_idx (cmd_records (shell_after_ls keys)) = 1" "prompt_ok (shell_after_ls keys)"
  using c_str_append [of "''>>''" "zeros 252"]
  by (simp_all add: shell_after_ls_def Let_def shell_start_def push_record_def prompt_ok_def)


text \<open>
  C27: from keys to a command. With the prompt shown and fewer than 49 commands run since the start, a line
  edited by any such keys whose words name a command of the table other than \<open>history\<close>: the shell calls that
  command's function on exactly those words, reports its status, has put the line in front of the history,
  and the terminal showed the line behind the prompt.
\<close>

theorem line_executed:
  assumes "all_ok (key_ok hist) (key_spec hist) ks (0, [], [])"
    and "specs (key_spec hist) ks (0, [], []) = (n, l, r)"
    and "history_holds hist (cmd_records sh)" and "cmd_idx (cmd_records sh) < 49"
    and "prompt_ok sh" and "getch_in sh = concat (map key_bytes ks) @ CR # rest"
    and "words_of (l @ r) = a # as" and "length (a # as) < 10" and "a \<noteq> ''history''"
    and "find_cmd tbl a = Some c" and "cmd_func c = Some f"
  shows "\<exists>out k recs.
    shell_round tbl sh =
      rbind (f (a # as) (sh\<lparr>getch_in := rest, console := console sh @ ''>>'' @ out @ crlf, cmd_records := recs\<rparr>))
        (\<lambda>(rc, sh). rbind (command_report c rc sh) (\<lambda>sh. Inr (None, sh))) \<and>
    history_holds ((l @ r) # hist) recs \<and> screen out (''>>'', []) = (''>>'' @ l, r @ blanks k)"
  by (rule shell_round_edited [OF assms])

text \<open>\<open>exjt\<close> corrected to \<open>exit\<close>: the shell says goodbye and is to stop.\<close>

theorem line_executed_witness:
  "\<exists>sh out k. shell_round (cmd_tbl []) (shell_after_ls (concat (map key_bytes
      [Key_Char CHR ''e'', Key_Char CHR ''x'', Key_Char CHR ''j'', Key_Char CHR ''t'', Key_Left, Key_Backspace,
       Key_Char CHR ''i'']) @ [CR])) = Inr (None, sh) \<and>
    console sh = ''>>'' @ out @ crlf @ ''Bye.'' @ crlf \<and> shell_should_exit sh = 1 \<and>
    history_holds [''exit'', ''ls''] (cmd_records sh) \<and> screen out (''>>'', []) = (''>>exi'', ''t'' @ blanks k)"
proof -
  let ?ks = "[Key_Char CHR ''e'', Key_Char CHR ''x'', Key_Char CHR ''j'', Key_Char CHR ''t'', Key_Left, Key_Backspace,
       Key_Char CHR ''i'']"
  let ?c = "\<lparr>cmd_name = ''exit'', cmd_usage = Some exit_usage, cmd_func = Some exit_func\<rparr>"
  have ok: "all_ok (key_ok [''ls'']) (key_spec [''ls'']) ?ks (0, [], [])"
    and sp: "specs (key_spec [''ls'']) ?ks (0, [], []) = (0, ''exi'', ''t'')"
    by (simp_all add: printable_def)
  have c: "find_cmd (cmd_tbl []) ''exit'' = Some ?c" by (simp add: find_cmd_def cmd_tbl_def Let_def)
  have k: "getch_in (shell_after_ls (concat (map key_bytes ?ks) @ [CR])) = concat (map key_bytes ?ks) @ CR # []"
    by simp
  have w: "words_of (''exi'' @ ''t'') = ''exit'' # []" by (simp add: words_of_def)
  from line_executed [OF ok sp history_after_ls _ _ k w _ _ c, of exit_func] show ?thesis
    by (fastforce simp: exit_func_def command_report_def)
qed

section \<open>Words, numbers, completion\<close>

text \<open>
  C28: \<open>parse_command\<close> splits a line into its words between blanks outside quotes: with fewer than ten it
  returns 0 and \<open>argc\<close> and \<open>argv\<close> give exactly these words; with more than ten it prints the error and returns
  -1; with ten the final NULL is stored behind the end of \<open>argv\<close>.
\<close>

theorem parse_command_words:
  assumes "NUL \<notin> set s" and "length s \<le> 2047"
  shows "if length (words_of s) < 10 then
      \<exists>cmd. parse_command s cmd_parsed_zero sh = Inr (0, cmd, sh) \<and> argc cmd = int (length (words_of s)) \<and>
        arg_strs (length (words_of s)) 0 cmd = Inr (words_of s)
    else if length (words_of s) = 10 then parse_command s cmd_parsed_zero sh = Inl C_Fault
    else \<exists>cmd. parse_command s cmd_parsed_zero sh =
        Inr (-1, cmd, sh\<lparr>console := console sh @ ''error: too many args !'' @ [LF]\<rparr>)"
proof (cases "length (words_of s) < 10")
  case True
  then obtain cmd where cmd: "parse_command s cmd_parsed_zero sh = Inr (0, cmd, sh)" "cmd_words (words_of s) cmd"
    using parse_command_ok assms by blast
  have "arg_strs (length (words_of s)) 0 cmd = Inr (words_of s)"
    using arg_strs_words [OF cmd(2), of 0 "length (words_of s)"] by simp
  then show ?thesis using True cmd by (auto simp: cmd_words_def)
next
  case False
  then show ?thesis using parse_command_many [OF assms, of sh] by (auto simp: too_many_def split: if_splits)
qed

theorem parse_command_words_witness:
  "\<exists>cmd. parse_command ''echo  \"a b\" c'' cmd_parsed_zero (shell_start [] (0::nat)) = Inr (0, cmd, shell_start [] 0) \<and>
    arg_strs 3 0 cmd = Inr [''echo'', ''\"a b\"'', ''c'']"
proof -
  have "words_of ''echo  \"a b\" c'' = [''echo'', ''\"a b\"'', ''c'']" by (simp add: words_of_def Let_def)
  then show ?thesis unfolding numeral_3_eq_3 using parse_command_words [of "''echo  \"a b\" c''" "shell_start [] (0::nat)"] by auto
qed

text \<open>
  C36: decimal output with a width. For every width \<open>w > 0\<close> written in decimal and every \<open>int\<close> but the
  least, \<open>%wd\<close> writes the digits of the number, with its sign, behind as many blanks as are missing: the
  width is parsed back as it was written, the digit loop ends with no overflow and the 12 bytes of \<open>bf\<close> are
  enough; the digits are those of the number.
\<close>

theorem number_format:
  assumes "0 < w" and "w < 2 ^ 31" and "sint n \<noteq> - (2 ^ 31)"
  shows "tfp_format (''%'' @ digits_text False 10 w @ ''d'') [VInt n] =
      Inr (replicate (w - length (int_text n)) CHR '' '' @ int_text n) \<and>
    of_digits 10 (digits 10 (nat \<bar>sint n\<bar>)) = nat \<bar>sint n\<bar>"
  by (intro conjI tfp_format_width_d [OF assms] of_digits_digits)

theorem number_format_witness:
  "tfp_format ''%12d'' [VInt 2024] = Inr ''        2024'' \<and> of_digits 10 (digits 10 2024) = 2024"
proof -
  have s: "sint (2024::32 word) = 2024" by simp
  have d: "digits_text False 10 12 = ''12''" "digits_text False 10 2024 = ''2024''" by code_simp+
  have "int_text 2024 = ''2024''" using d by (simp add: int_text_def s)
  moreover have "''        2024'' = replicate (12 - length ''2024'') CHR '' '' @ ''2024''" by (simp add: numeral_eq_Suc)
  ultimately show ?thesis using number_format [of 12 2024] d s by (simp del: tfp_format.simps)
qed

text \<open>
  C37: the completion. With the cursor at the end of the line, tab looks up the word before it among the
  keywords: if it starts exactly one, the rest of that keyword is appended to the line and echoed; if it
  starts several, they are listed and prompt and line written again; otherwise nothing happens. The line
  stays the text in the arrays.
\<close>

theorem tab_completes:
  assumes "text_in (l, []) e" and "keywords_hold names (shell_keywords sh)" and "prompt_ok sh"
    and "length (completed names l) \<le> 2047"
  shows "\<exists>e'. read_key offset e (sh\<lparr>getch_in := CHR 0x09 # cs\<rparr>) =
      Inr (Key_Continue, offset, e', sh\<lparr>getch_in := cs, console := console sh @ completion_output names ''>>'' l\<rparr>) \<and>
    text_in (completed names l, []) e'"
  using assms by (intro tab_key) (simp_all add: prompt_ok_def)

text \<open>After \<open>help h\<close> with the keywords \<open>echo\<close> and \<open>history\<close>.\<close>

theorem tab_completes_witness:
  "\<exists>e sh e' sh'. read_key 0 e sh = Inr (Key_Continue, 0, e', sh' :: nat shell) \<and>
    text_in (''help h'', []) e \<and> text_in (''help history'', []) e' \<and> console sh' = console sh @ ''istory''"
proof -
  obtain k1 where k1: "keywords_hold [''echo''] k1"
    using add_keyword_hold [OF keywords_hold_start [of "[]" "0::nat"], of "''echo''"]
    by (auto simp: name_ok_def printable_def)
  obtain kw where kw: "keywords_hold [''echo'', ''history''] kw"
    using add_keyword_hold [of "[''echo'']" "(shell_after_ls [])\<lparr>shell_keywords := k1\<rparr>" "''history''"] k1
    by (auto simp: name_ok_def printable_def)
  define sh where "sh = (shell_after_ls [])\<lparr>shell_keywords := kw\<rparr>"
  define e where "e = \<lparr>line_buf = ''help h'' @ zeros 2042, line_i = 6, expand_buf = zeros 2048, line_ie = 2046\<rparr>"
  have t: "text_in (''help h'', []) e" by (simp add: text_in_def e_def zeros_def printable_def)
  have c: "candidates (last_word ''help h'') [''echo'', ''history''] = [1]"
    by (simp add: candidates_def last_word_def upt_conv_Cons)
  have "completed [''echo'', ''history''] ''help h'' = ''help history''"
    "completion_output [''echo'', ''history''] ''>>'' ''help h'' = ''istory''"
    unfolding completed_def completion_output_def c by (simp_all add: last_word_def)
  moreover have "prompt_ok (shell_after_ls [])" by simp
  then have "prompt_ok sh" by (simp add: sh_def prompt_ok_def)
  ultimately obtain e' where "read_key 0 e (sh\<lparr>getch_in := [CHR 0x09]\<rparr>) =
      Inr (Key_Continue, 0, e', sh\<lparr>getch_in := [], console := console sh @ ''istory''\<rparr>)" "text_in (''help history'', []) e'"
    using tab_completes [OF t, of "[''echo'', ''history'']" sh 0 "[]"] kw by (auto simp: sh_def)
  then show ?thesis using t
    by (intro exI [of _ e] exI [of _ "sh\<lparr>getch_in := [CHR 0x09]\<rparr>"] exI [of _ e']
        exI [of _ "sh\<lparr>getch_in := [], console := console sh @ ''istory''\<rparr>"]) simp
qed

section \<open>Where the code goes wrong\<close>

text \<open>Down in a shell that has run nothing reads row -1 of the history: \<open>%\<close> keeps the sign.\<close>

lemma down_without_history:
  assumes "text_in (l, r) e" and "cmd_idx (cmd_records sh) = 0" and "length (cmd_buf (cmd_records sh)) = 50"
  shows "read_key 0 e (sh\<lparr>getch_in := key_bytes Key_Down @ cs\<rparr>) = Inl C_Fault"
proof -
  have "(-1) smod (50::int) = -1" by (simp add: signed_modulo_int_def)
  then show ?thesis
    using assms expanded_text [OF assms(1)]
    by (simp add: press_simps history_process_def HISTORY_MAXITEMS_def aget_def)
qed

text \<open>\<open>history\<close> does not accept the digits 0 and 9: the comparisons exclude them.\<close>

lemma history_number_rejected: "string_to_int ''10'' = Inr (-1) \<and> string_to_int ''9'' = Inr (-1) \<and> string_to_int ''18'' = Inr 18"
  by (simp add: string_to_int_def schar_def c_int_def)

text \<open>
  A keyword taken away leaves its characters behind, and a shorter one put in its place is not terminated:
  after \<open>abcd\<close> went and \<open>xy\<close> came, the keyword is \<open>xycd\<close>.
\<close>

lemma keyword_leftover:
  assumes "shell_keywords sh = \<lparr>keywords_cnt = 0, keywords_buf = replicate 2 (zeros 32)\<rparr>"
  shows "rbind (shell_add_keyword ''abcd'' sh) (\<lambda>sh. rbind (shell_remove_keyword ''abcd'' sh)
      (shell_add_keyword ''xy'')) =
    Inr (sh\<lparr>shell_keywords := \<lparr>keywords_cnt = 1, keywords_buf = [''xycd'' @ zeros 28, zeros 32]\<rparr>\<rparr>)"
  by (simp add: shell_add_keyword_def shell_remove_keyword_def assms Let_def aget_def aset_def zeros_def
      numeral_eq_Suc mem_splice_def c_str_def)

end
