(* ===== verification/Fat_Cache.thy ===== *)
theory Fat_Cache
  imports C_Prelude
begin

text \<open>
  The file system of mysh, uFAT: the structs (fs/ufat.h), the block device of the shell (common/block.c and
  the device of fs/vfat.c) and the block cache (fs/ufat.c, fs/ufat_internal.h).
\<close>

section \<open>The device\<close>

text \<open>
  A device: the logarithm of its block size and its functions, on a device state. A read fills a buffer, so
  it gets the buffer's old contents; both give the return value.
\<close>

record 'd ufat_device =
  log2_block_size :: nat
  dev_read :: "u64 \<Rightarrow> u64 \<Rightarrow> bytes \<Rightarrow> 'd \<Rightarrow> int \<times> bytes \<times> 'd"
  dev_write :: "u64 \<Rightarrow> u64 \<Rightarrow> bytes \<Rightarrow> 'd \<Rightarrow> int \<times> 'd"

text \<open>
  The device of the shell is the file test.fat32, which is there and can be opened. \<open>fseek\<close> takes a
  \<open>long\<close>: a negative offset is rejected and the position stays 0. \<open>fread\<close> stops at the end of the file and
  leaves the rest of the buffer; a gap before the offset of \<open>fwrite\<close> reads as zeros.
\<close>

definition seek_pos :: "nat \<Rightarrow> u64 \<Rightarrow> nat" where
  "seek_pos lg start = (let off = unat (push_bit lg start) in if off < 2 ^ 63 then off else 0)"

definition read_sector :: "nat \<Rightarrow> u64 \<Rightarrow> u64 \<Rightarrow> bytes \<Rightarrow> bytes \<Rightarrow> int \<times> bytes \<times> bytes" where
  "read_sector lg start count buf file =
     (let got = take (unat count * 2 ^ lg) (drop (seek_pos lg start) file)
      in (0, got @ drop (length got) buf, file))"

definition write_sector :: "nat \<Rightarrow> u64 \<Rightarrow> u64 \<Rightarrow> bytes \<Rightarrow> bytes \<Rightarrow> int \<times> bytes" where
  "write_sector lg start count buf file =
     (let off = seek_pos lg start; bs = take (unat count * 2 ^ lg) buf
      in (0, take off (file @ replicate (off - length file) 0) @ bs @ drop (off + length bs) file))"

definition file_device :: "nat \<Rightarrow> bytes ufat_device" where
  "file_device lg = \<lparr>log2_block_size = lg, dev_read = read_sector lg, dev_write = write_sector lg\<rparr>"

definition ufat_dev :: "bytes ufat_device" where
  "ufat_dev = file_device 9"

section \<open>The structs\<close>

definition UFAT_CACHE_MAX_BLOCKS :: nat where "UFAT_CACHE_MAX_BLOCKS = 16"
definition UFAT_CACHE_BYTES :: nat where "UFAT_CACHE_BYTES = 8192"
definition UFAT_CACHE_FLAG_DIRTY :: u32 where "UFAT_CACHE_FLAG_DIRTY = 1"
definition UFAT_CACHE_FLAG_PRESENT :: u32 where "UFAT_CACHE_FLAG_PRESENT = 2"

definition UFAT_ERR_IO :: int where "UFAT_ERR_IO = 1"
definition UFAT_ERR_BLOCK_SIZE :: int where "UFAT_ERR_BLOCK_SIZE = 2"
definition UFAT_ERR_INVALID_BPB :: int where "UFAT_ERR_INVALID_BPB = 3"
definition UFAT_ERR_BLOCK_ALIGNMENT :: int where "UFAT_ERR_BLOCK_ALIGNMENT = 4"
definition UFAT_ERR_INVALID_CLUSTER :: int where "UFAT_ERR_INVALID_CLUSTER = 5"
definition UFAT_ERR_NO_CLUSTERS :: int where "UFAT_ERR_NO_CLUSTERS = 15"

record ufat_cache_desc =
  cache_flags :: u32
  cache_seq :: u32
  cache_index :: u64

record ufat_stat =
  stat_read :: u32
  stat_write :: u32
  stat_read_blocks :: u32
  stat_write_blocks :: u32
  stat_cache_hit :: u32
  stat_cache_miss :: u32
  stat_cache_write :: u32
  stat_cache_flush :: u32

datatype ufat_fat_type_t = UFAT_TYPE_FAT12 | UFAT_TYPE_FAT16 | UFAT_TYPE_FAT32

record ufat_bpb =
  fat_type :: ufat_fat_type_t
  log2_blocks_per_cluster :: u32
  fat_start :: u64
  fat_size :: u64
  fat_count :: u32
  cluster_start :: u64
  num_clusters :: u32
  root_start :: u64
  root_size :: u64
  root_cluster :: u32

text \<open>\<open>struct ufat\<close>, with the state of its device.\<close>

record 'd ufat =
  dev :: "'d ufat_device"
  ufat_stat :: ufat_stat
  bpb :: ufat_bpb
  next_seq :: u32
  cache_size :: nat
  alloc_ptr :: u32
  cache_desc :: "ufat_cache_desc list"
  cache_data :: bytes
  disk :: 'd

section \<open>The cache\<close>

text \<open>\<open>ufat_cache_data(uf, i)\<close> is the address \<open>cache_data + (i << log2_block_size)\<close>.\<close>

definition block_bytes :: "'d ufat \<Rightarrow> nat" where
  "block_bytes uf = 2 ^ log2_block_size (dev uf)"

definition ufat_cache_data :: "'d ufat \<Rightarrow> nat \<Rightarrow> nat" where
  "ufat_cache_data uf i = i * block_bytes uf"

definition cache_block :: "'d ufat \<Rightarrow> nat \<Rightarrow> bytes cres" where
  "cache_block uf i = mem_load (cache_data uf) (ufat_cache_data uf i) (block_bytes uf)"

text \<open>The bytes at \<open>ufat_cache_data(uf, i) + r\<close>.\<close>

definition slot_load :: "'d ufat \<Rightarrow> nat \<Rightarrow> nat \<Rightarrow> nat \<Rightarrow> bytes cres" where
  "slot_load uf i r n = mem_load (cache_data uf) (ufat_cache_data uf i + r) n"

definition slot_store :: "'d ufat \<Rightarrow> nat \<Rightarrow> nat \<Rightarrow> bytes \<Rightarrow> 'd ufat cres" where
  "slot_store uf i r bs =
     rbind (mem_store (cache_data uf) (ufat_cache_data uf i + r) bs) (\<lambda>m. Inr (uf\<lparr>cache_data := m\<rparr>))"

definition set_desc :: "'d ufat \<Rightarrow> nat \<Rightarrow> (ufat_cache_desc \<Rightarrow> ufat_cache_desc) \<Rightarrow> 'd ufat cres" where
  "set_desc uf i f =
     rbind (aget (cache_desc uf) (int i)) (\<lambda>d.
     rbind (aset (cache_desc uf) (int i) (f d)) (\<lambda>ds. Inr (uf\<lparr>cache_desc := ds\<rparr>)))"

definition ufat_cache_write :: "'d ufat \<Rightarrow> nat \<Rightarrow> 'd ufat cres" where
  "ufat_cache_write uf i =
     set_desc (uf\<lparr>ufat_stat := (ufat_stat uf)\<lparr>stat_cache_write := stat_cache_write (ufat_stat uf) + 1\<rparr>\<rparr>) i
       (\<lambda>d. d\<lparr>cache_flags := cache_flags d OR UFAT_CACHE_FLAG_DIRTY\<rparr>)"

definition count_write :: "'d ufat \<Rightarrow> 'd ufat" where
  "count_write uf = uf\<lparr>ufat_stat := (ufat_stat uf)
     \<lparr>stat_write := stat_write (ufat_stat uf) + 1, stat_write_blocks := stat_write_blocks (ufat_stat uf) + 1\<rparr>\<rparr>"

text \<open>\<open>for (i = 1; i < fat_count; i++)\<close>, with \<open>k\<close> copies left; the result of the write is not looked at.\<close>

fun mirror_loop :: "nat \<Rightarrow> u64 \<Rightarrow> bytes \<Rightarrow> 'd ufat \<Rightarrow> 'd ufat" where
  "mirror_loop 0 b bs uf = uf"
| "mirror_loop (Suc k) b bs uf =
     (let b = b + fat_size (bpb uf);
          (rc, dk) = dev_write (dev uf) b 1 bs (disk uf)
      in mirror_loop k b bs (count_write (uf\<lparr>disk := dk\<rparr>)))"

definition cache_flush :: "'d ufat \<Rightarrow> nat \<Rightarrow> (int \<times> 'd ufat) cres" where
  "cache_flush uf i =
     rbind (aget (cache_desc uf) (int i)) (\<lambda>d.
     if cache_flags d AND UFAT_CACHE_FLAG_DIRTY = 0 \<or> cache_flags d AND UFAT_CACHE_FLAG_PRESENT = 0
     then Inr (0, uf)
     else
       rbind (cache_block uf i) (\<lambda>bs.
       let (rc, dk) = dev_write (dev uf) (cache_index d) 1 bs (disk uf); uf = uf\<lparr>disk := dk\<rparr> in
       if rc < 0 then Inr (- UFAT_ERR_IO, uf)
       else
         let uf = count_write (uf\<lparr>ufat_stat := (ufat_stat uf)
               \<lparr>stat_cache_flush := stat_cache_flush (ufat_stat uf) + 1\<rparr>\<rparr>);
             p = bpb uf;
             uf = (if cache_index d \<ge> fat_start p \<and> cache_index d < fat_start p + fat_size p
                   then mirror_loop (unat (fat_count p) - 1) (cache_index d) bs uf else uf)
         in rbind (set_desc uf i (\<lambda>d. d\<lparr>cache_flags := cache_flags d AND NOT UFAT_CACHE_FLAG_DIRTY\<rparr>))
              (\<lambda>uf. Inr (0, uf))))"

text \<open>The loops of \<open>ufat_cache_evict\<close> and \<open>ufat_cache_invalidate\<close>, with \<open>k\<close> slots left.\<close>

fun evict_loop :: "nat \<Rightarrow> nat \<Rightarrow> u64 \<Rightarrow> u64 \<Rightarrow> 'd ufat \<Rightarrow> (int \<times> 'd ufat) cres" where
  "evict_loop 0 i start count uf = Inr (0, uf)"
| "evict_loop (Suc k) i start count uf =
     rbind (aget (cache_desc uf) (int i)) (\<lambda>d.
     if cache_flags d AND UFAT_CACHE_FLAG_PRESENT \<noteq> 0 \<and> cache_index d \<ge> start \<and> cache_index d < start + count then
       rbind (cache_flush uf i) (\<lambda>(err, uf).
       if err < 0 then Inr (err, uf)
       else rbind (set_desc uf i (\<lambda>d. d\<lparr>cache_flags := 0\<rparr>)) (evict_loop k (i + 1) start count))
     else evict_loop k (i + 1) start count uf)"

definition ufat_cache_evict :: "'d ufat \<Rightarrow> u64 \<Rightarrow> u64 \<Rightarrow> (int \<times> 'd ufat) cres" where
  "ufat_cache_evict uf start count = evict_loop (cache_size uf) 0 start count uf"

fun invalidate_loop :: "nat \<Rightarrow> nat \<Rightarrow> u64 \<Rightarrow> u64 \<Rightarrow> 'd ufat \<Rightarrow> 'd ufat cres" where
  "invalidate_loop 0 i start count uf = Inr uf"
| "invalidate_loop (Suc k) i start count uf =
     rbind (aget (cache_desc uf) (int i)) (\<lambda>d.
     if cache_flags d AND UFAT_CACHE_FLAG_PRESENT \<noteq> 0 \<and> cache_index d \<ge> start \<and> cache_index d < start + count
     then rbind (set_desc uf i (\<lambda>d. d\<lparr>cache_flags := 0\<rparr>)) (invalidate_loop k (i + 1) start count)
     else invalidate_loop k (i + 1) start count uf)"

definition ufat_cache_invalidate :: "'d ufat \<Rightarrow> u64 \<Rightarrow> u64 \<Rightarrow> 'd ufat cres" where
  "ufat_cache_invalidate uf start count = invalidate_loop (cache_size uf) 0 start count uf"

text \<open>The scan of \<open>ufat_cache_open\<close>: the item, or the last free slot and the oldest one.\<close>

datatype cache_scan = Cache_Hit nat | Cache_Miss "nat option" "nat option"

fun cache_scan_loop ::
    "nat \<Rightarrow> nat \<Rightarrow> u64 \<Rightarrow> nat option \<Rightarrow> nat option \<Rightarrow> u32 \<Rightarrow> 'd ufat \<Rightarrow> cache_scan cres" where
  "cache_scan_loop 0 i blk fr oldest oldest_age uf = Inr (Cache_Miss fr oldest)"
| "cache_scan_loop (Suc k) i blk fr oldest oldest_age uf =
     rbind (aget (cache_desc uf) (int i)) (\<lambda>d.
     let age = next_seq uf - cache_seq d; present = (cache_flags d AND UFAT_CACHE_FLAG_PRESENT \<noteq> 0) in
     if present \<and> cache_index d = blk then Inr (Cache_Hit i)
     else
       let fr = (if \<not> present then Some i else fr) in
       if oldest = None \<or> age > oldest_age
       then cache_scan_loop k (i + 1) blk fr (Some i) age uf
       else cache_scan_loop k (i + 1) blk fr oldest oldest_age uf)"

text \<open>The slot for a block that is not in the cache: a free one, or the oldest after writing it back.\<close>

definition cache_slot :: "nat option \<Rightarrow> nat option \<Rightarrow> 'd ufat \<Rightarrow> (int \<times> 'd ufat) cres" where
  "cache_slot fr oldest uf =
     (case fr of
        Some i \<Rightarrow> Inr (int i, uf)
      | None \<Rightarrow>
          (case oldest of
             None \<Rightarrow> Inl C_Fault
           | Some i \<Rightarrow>
               rbind (cache_flush uf i) (\<lambda>(err, uf). if err < 0 then Inr (err, uf) else Inr (int i, uf))))"

definition cache_fill :: "nat \<Rightarrow> u64 \<Rightarrow> bool \<Rightarrow> 'd ufat \<Rightarrow> (int \<times> 'd ufat) cres" where
  "cache_fill i blk skip_read uf =
     rbind (cache_block uf i) (\<lambda>old.
     let (err, bs, dk) =
       (if \<not> skip_read then dev_read (dev uf) blk 1 old (disk uf)
        else (0, replicate (block_bytes uf) 0, disk uf)) in
     rbind (mem_store (cache_data uf) (ufat_cache_data uf i) bs) (\<lambda>data.
     let uf = uf\<lparr>cache_data := data, disk := dk\<rparr> in
     if err < 0 then rbind (set_desc uf i (\<lambda>d. d\<lparr>cache_flags := 0\<rparr>)) (\<lambda>uf. Inr (err, uf))
     else
       let uf = (if \<not> skip_read then uf\<lparr>ufat_stat := (ufat_stat uf)
              \<lparr>stat_read := stat_read (ufat_stat uf) + 1, stat_read_blocks := stat_read_blocks (ufat_stat uf) + 1\<rparr>\<rparr>
              else uf) in
       rbind (set_desc uf i (\<lambda>d. \<lparr>cache_flags = UFAT_CACHE_FLAG_PRESENT, cache_seq = next_seq uf, cache_index = blk\<rparr>)) (\<lambda>uf.
       Inr (int i, uf\<lparr>next_seq := next_seq uf + 1,
         ufat_stat := (ufat_stat uf)\<lparr>stat_cache_miss := stat_cache_miss (ufat_stat uf) + 1\<rparr>\<rparr>))))"

text \<open>The result is the slot, or a negative error.\<close>

definition ufat_cache_open :: "'d ufat \<Rightarrow> u64 \<Rightarrow> bool \<Rightarrow> (int \<times> 'd ufat) cres" where
  "ufat_cache_open uf blk skip_read =
     rbind (cache_scan_loop (cache_size uf) 0 blk None None 0 uf) (\<lambda>scan.
     case scan of
       Cache_Hit i \<Rightarrow>
         rbind (set_desc uf i (\<lambda>d. d\<lparr>cache_seq := next_seq uf\<rparr>)) (\<lambda>uf.
         Inr (int i, uf\<lparr>next_seq := next_seq uf + 1,
           ufat_stat := (ufat_stat uf)\<lparr>stat_cache_hit := stat_cache_hit (ufat_stat uf) + 1\<rparr>\<rparr>))
     | Cache_Miss fr oldest \<Rightarrow>
         rbind (cache_slot fr oldest uf) (\<lambda>(i, uf).
         if i < 0 then Inr (i, uf) else cache_fill (nat i) blk skip_read uf))"

text \<open>\<open>ufat_sync\<close>: the last error wins.\<close>

fun sync_loop :: "nat \<Rightarrow> nat \<Rightarrow> int \<Rightarrow> 'd ufat \<Rightarrow> (int \<times> 'd ufat) cres" where
  "sync_loop 0 i ret uf = Inr (ret, uf)"
| "sync_loop (Suc k) i ret uf =
     rbind (cache_flush uf i) (\<lambda>(err, uf). sync_loop k (i + 1) (if err \<noteq> 0 then err else ret) uf)"

definition ufat_sync :: "'d ufat \<Rightarrow> (int \<times> 'd ufat) cres" where
  "ufat_sync uf = sync_loop (cache_size uf) 0 0 uf"

definition ufat_close :: "'d ufat \<Rightarrow> 'd ufat cres" where
  "ufat_close uf = rbind (ufat_sync uf) (\<lambda>(rc, uf). Inr uf)"

end
