(* ===== verification/Fat_Table.thy ===== *)
theory Fat_Table
  imports Fat_Cache
begin

text \<open>
  The file allocation table and its chains (fs/ufat.c, fs/ufat_internal.h). The block size is at least 512
  bytes, which opening a volume checks.
\<close>

section \<open>Bytes of an integer\<close>

definition r16 :: "bytes \<Rightarrow> u16" where
  "r16 bs = push_bit 8 (ucast (bs ! 1)) OR ucast (bs ! 0)"

definition r32 :: "bytes \<Rightarrow> u32" where
  "r32 bs = push_bit 16 (ucast (r16 (drop 2 bs))) OR ucast (r16 bs)"

definition w16 :: "u16 \<Rightarrow> bytes" where
  "w16 v = [ucast (v AND 0xff), ucast (drop_bit 8 v)]"

definition w32 :: "u32 \<Rightarrow> bytes" where
  "w32 v = w16 (ucast (v AND 0xffff)) @ w16 (ucast (drop_bit 16 v))"

section \<open>Clusters\<close>

definition UFAT_CLUSTER_FREE :: u32 where "UFAT_CLUSTER_FREE = 0"
definition UFAT_CLUSTER_RESERVED :: u32 where "UFAT_CLUSTER_RESERVED = 1"
definition UFAT_CLUSTER_BAD :: u32 where "UFAT_CLUSTER_BAD = 0xffffff7"
definition UFAT_CLUSTER_EOC :: u32 where "UFAT_CLUSTER_EOC = 0xffffff8"
definition UFAT_CLUSTER_MASK :: u32 where "UFAT_CLUSTER_MASK = 0x0fffffff"

definition UFAT_CLUSTER_IS_PTR :: "u32 \<Rightarrow> bool" where
  "UFAT_CLUSTER_IS_PTR c \<longleftrightarrow> c \<ge> 2 \<and> c < 0xffffff0"

definition cluster_to_block :: "ufat_bpb \<Rightarrow> u32 \<Rightarrow> u64" where
  "cluster_to_block p c = ucast (push_bit (unat (log2_blocks_per_cluster p)) (c - 2)) + cluster_start p"

definition block_to_cluster :: "ufat_bpb \<Rightarrow> u64 \<Rightarrow> u32" where
  "block_to_cluster p b = ucast (drop_bit (unat (log2_blocks_per_cluster p)) (b - cluster_start p) + 2)"

section \<open>Reading an entry\<close>

text \<open>A negative error, or the value that is left in \<open>*out\<close>.\<close>

type_synonym ('d, 'a) fat_read = "((int + 'a) \<times> 'd ufat) cres"

definition offset_block :: "nat \<Rightarrow> u32 \<Rightarrow> u64" where
  "offset_block shift x = ucast (drop_bit shift x)"

definition offset_rest :: "nat \<Rightarrow> u32 \<Rightarrow> nat" where
  "offset_rest shift x = unat (x AND (push_bit shift 1 - 1))"

definition read_fat_byte :: "'d ufat \<Rightarrow> u32 \<Rightarrow> ('d, u8) fat_read" where
  "read_fat_byte uf offset =
     (let lg = log2_block_size (dev uf); b = offset_block lg offset; r = offset_rest lg offset in
      rbind (ufat_cache_open uf (fat_start (bpb uf) + b) False) (\<lambda>(idx, uf).
      if idx < 0 then Inr (Inl idx, uf)
      else rbind (slot_load uf (nat idx) r 1) (\<lambda>bs. Inr (Inr (bs ! 0), uf))))"

definition decode_fat12 :: "u16 \<Rightarrow> u32" where
  "decode_fat12 raw =
     (if raw \<ge> 0xff8 \<or> raw = 0xff0 then UFAT_CLUSTER_EOC else if raw = 0xff7 then UFAT_CLUSTER_BAD else ucast raw)"

definition decode_fat16 :: "u16 \<Rightarrow> u32" where
  "decode_fat16 raw =
     (if raw \<ge> 0xfff8 then UFAT_CLUSTER_EOC else if raw = 0xfff7 then UFAT_CLUSTER_BAD else ucast raw)"

definition decode_fat32 :: "u32 \<Rightarrow> u32" where
  "decode_fat32 raw =
     (if raw \<ge> 0xffffff8 then UFAT_CLUSTER_EOC else if raw = 0xffffff7 then UFAT_CLUSTER_BAD else raw)"

definition fat12_offset :: "u32 \<Rightarrow> u32" where
  "fat12_offset index = drop_bit 1 index * 3"

definition read_fat12 :: "'d ufat \<Rightarrow> u32 \<Rightarrow> ('d, u32) fat_read" where
  "read_fat12 uf index =
     (let offset = fat12_offset index in
      rbind (read_fat_byte uf (offset + 1)) (\<lambda>(r, uf).
      case r of Inl err \<Rightarrow> Inr (Inl err, uf)
      | Inr a \<Rightarrow>
          if index AND 1 \<noteq> 0 then
            rbind (read_fat_byte uf (offset + 2)) (\<lambda>(r, uf).
            case r of Inl err \<Rightarrow> Inr (Inl err, uf)
            | Inr b \<Rightarrow> Inr (Inr (decode_fat12 (push_bit 4 (ucast b) OR drop_bit 4 (ucast a))), uf))
          else
            rbind (read_fat_byte uf offset) (\<lambda>(r, uf).
            case r of Inl err \<Rightarrow> Inr (Inl err, uf)
            | Inr b \<Rightarrow> Inr (Inr (decode_fat12 (ucast b OR push_bit 8 (ucast a AND 0xf))), uf))))"

definition read_fat16 :: "'d ufat \<Rightarrow> u32 \<Rightarrow> ('d, u32) fat_read" where
  "read_fat16 uf index =
     (let shift = log2_block_size (dev uf) - 1; b = offset_block shift index; r = offset_rest shift index in
      rbind (ufat_cache_open uf (fat_start (bpb uf) + b) False) (\<lambda>(i, uf).
      if i < 0 then Inr (Inl i, uf)
      else rbind (slot_load uf (nat i) (r * 2) 2) (\<lambda>bs. Inr (Inr (decode_fat16 (r16 bs)), uf))))"

definition read_fat32 :: "'d ufat \<Rightarrow> u32 \<Rightarrow> ('d, u32) fat_read" where
  "read_fat32 uf index =
     (let shift = log2_block_size (dev uf) - 2; b = offset_block shift index; r = offset_rest shift index in
      rbind (ufat_cache_open uf (fat_start (bpb uf) + b) False) (\<lambda>(i, uf).
      if i < 0 then Inr (Inl i, uf)
      else rbind (slot_load uf (nat i) (r * 4) 4)
        (\<lambda>bs. Inr (Inr (decode_fat32 (r32 bs AND UFAT_CLUSTER_MASK)), uf))))"

definition ufat_read_fat :: "'d ufat \<Rightarrow> u32 \<Rightarrow> ('d, u32) fat_read" where
  "ufat_read_fat uf index =
     (if index \<ge> num_clusters (bpb uf) then Inr (Inl (- UFAT_ERR_INVALID_CLUSTER), uf)
      else case fat_type (bpb uf) of
        UFAT_TYPE_FAT12 \<Rightarrow> read_fat12 uf index
      | UFAT_TYPE_FAT16 \<Rightarrow> read_fat16 uf index
      | UFAT_TYPE_FAT32 \<Rightarrow> read_fat32 uf index)"

section \<open>Writing an entry\<close>

definition write_fat_byte :: "'d ufat \<Rightarrow> u32 \<Rightarrow> u8 \<Rightarrow> u8 \<Rightarrow> (int \<times> 'd ufat) cres" where
  "write_fat_byte uf offset byte msk =
     (let lg = log2_block_size (dev uf); b = offset_block lg offset; r = offset_rest lg offset in
      rbind (ufat_cache_open uf (fat_start (bpb uf) + b) False) (\<lambda>(idx, uf).
      if idx < 0 then Inr (idx, uf)
      else
        rbind (ufat_cache_write uf (nat idx)) (\<lambda>uf.
        rbind (slot_load uf (nat idx) r 1) (\<lambda>bs.
        rbind (slot_store uf (nat idx) r [(bs ! 0 AND NOT msk) OR (byte AND msk)]) (\<lambda>uf.
        Inr (0, uf))))))"

definition write_fat12 :: "'d ufat \<Rightarrow> u32 \<Rightarrow> u32 \<Rightarrow> (int \<times> 'd ufat) cres" where
  "write_fat12 uf index in_val =
     (let offset = fat12_offset index in
      if index AND 1 \<noteq> 0 then
        rbind (write_fat_byte uf (offset + 1) (ucast (push_bit 4 (in_val AND 0xf))) 0xf0) (\<lambda>(err, uf).
        if err < 0 then Inr (err, uf)
        else write_fat_byte uf (offset + 2) (ucast (drop_bit 4 (in_val AND 0xff0))) 0xff)
      else
        rbind (write_fat_byte uf offset (ucast (in_val AND 0xff)) 0xff) (\<lambda>(err, uf).
        if err < 0 then Inr (err, uf)
        else write_fat_byte uf (offset + 1) (ucast (drop_bit 8 (in_val AND 0xf00))) 0x0f))"

definition write_fat16 :: "'d ufat \<Rightarrow> u32 \<Rightarrow> u32 \<Rightarrow> (int \<times> 'd ufat) cres" where
  "write_fat16 uf index in_val =
     (let shift = log2_block_size (dev uf) - 1; b = offset_block shift index; r = offset_rest shift index in
      rbind (ufat_cache_open uf (fat_start (bpb uf) + b) False) (\<lambda>(i, uf).
      if i < 0 then Inr (i, uf)
      else
        rbind (ufat_cache_write uf (nat i)) (\<lambda>uf.
        rbind (slot_store uf (nat i) (r * 2) (w16 (ucast (in_val AND 0xffff)))) (\<lambda>uf. Inr (0, uf)))))"

definition write_fat32 :: "'d ufat \<Rightarrow> u32 \<Rightarrow> u32 \<Rightarrow> (int \<times> 'd ufat) cres" where
  "write_fat32 uf index in_val =
     (let shift = log2_block_size (dev uf) - 2; b = offset_block shift index; r = offset_rest shift index in
      rbind (ufat_cache_open uf (fat_start (bpb uf) + b) False) (\<lambda>(i, uf).
      if i < 0 then Inr (i, uf)
      else
        rbind (ufat_cache_write uf (nat i)) (\<lambda>uf.
        rbind (slot_store uf (nat i) (r * 4) (w32 in_val)) (\<lambda>uf. Inr (0, uf)))))"

definition ufat_write_fat :: "'d ufat \<Rightarrow> u32 \<Rightarrow> u32 \<Rightarrow> (int \<times> 'd ufat) cres" where
  "ufat_write_fat uf index in_val =
     (if index \<ge> num_clusters (bpb uf) then Inr (- UFAT_ERR_INVALID_CLUSTER, uf)
      else case fat_type (bpb uf) of
        UFAT_TYPE_FAT12 \<Rightarrow> write_fat12 uf index in_val
      | UFAT_TYPE_FAT16 \<Rightarrow> write_fat16 uf index in_val
      | UFAT_TYPE_FAT32 \<Rightarrow> write_fat32 uf index in_val)"

section \<open>Chains\<close>

text \<open>
  The loop of \<open>ufat_free_chain\<close> with a bound on its steps: each step that goes on has freed a cluster that
  was in use, so there are at most as many as clusters, and one more.
\<close>

fun free_chain_loop :: "nat \<Rightarrow> u32 \<Rightarrow> 'd ufat \<Rightarrow> (int \<times> 'd ufat) cres" where
  "free_chain_loop 0 c uf = Inl C_Fuel"
| "free_chain_loop (Suc n) c uf =
     (if \<not> UFAT_CLUSTER_IS_PTR c then Inr (0, uf)
      else
        rbind (ufat_read_fat uf c) (\<lambda>(r, uf).
        case r of Inl i \<Rightarrow> Inr (i, uf)
        | Inr next_c \<Rightarrow>
            rbind (ufat_write_fat uf c UFAT_CLUSTER_FREE) (\<lambda>(i, uf).
            if i < 0 then Inr (i, uf) else free_chain_loop n next_c uf)))"

definition ufat_free_chain :: "'d ufat \<Rightarrow> u32 \<Rightarrow> (int \<times> 'd ufat) cres" where
  "ufat_free_chain uf c = free_chain_loop (unat (num_clusters (bpb uf)) + 2) c uf"

text \<open>The search of \<open>alloc_cluster\<close>, with \<open>k\<close> clusters left.\<close>

fun alloc_cluster_loop :: "nat \<Rightarrow> u32 \<Rightarrow> u32 \<Rightarrow> 'd ufat \<Rightarrow> ('d, u32) fat_read" where
  "alloc_cluster_loop 0 n_total tail uf = Inr (Inl (- UFAT_ERR_NO_CLUSTERS), uf)"
| "alloc_cluster_loop (Suc k) n_total tail uf =
     (let idx = alloc_ptr uf + 2; uf = uf\<lparr>alloc_ptr := (alloc_ptr uf + 1) mod n_total\<rparr> in
      if idx = 0xff0 \<and> fat_type (bpb uf) = UFAT_TYPE_FAT12 then alloc_cluster_loop k n_total tail uf
      else
        rbind (ufat_read_fat uf idx) (\<lambda>(r, uf).
        if r = Inr UFAT_CLUSTER_FREE then
          rbind (ufat_write_fat uf idx tail) (\<lambda>(err, uf).
          if err < 0 then Inr (Inl err, uf) else Inr (Inr idx, uf))
        else alloc_cluster_loop k n_total tail uf))"

definition alloc_cluster :: "'d ufat \<Rightarrow> u32 \<Rightarrow> ('d, u32) fat_read" where
  "alloc_cluster uf tail =
     (let n_total = num_clusters (bpb uf) - 2 in alloc_cluster_loop (unat n_total) n_total tail uf)"

fun alloc_chain_loop :: "nat \<Rightarrow> u32 \<Rightarrow> 'd ufat \<Rightarrow> ('d, u32) fat_read" where
  "alloc_chain_loop 0 chain uf = Inr (Inr chain, uf)"
| "alloc_chain_loop (Suc count) chain uf =
     rbind (alloc_cluster uf chain) (\<lambda>(r, uf).
     case r of
       Inl err \<Rightarrow> rbind (ufat_free_chain uf chain) (\<lambda>(i, uf). Inr (Inl err, uf))
     | Inr c \<Rightarrow> alloc_chain_loop count c uf)"

definition ufat_alloc_chain :: "'d ufat \<Rightarrow> u32 \<Rightarrow> ('d, u32) fat_read" where
  "ufat_alloc_chain uf count = alloc_chain_loop (unat count) UFAT_CLUSTER_EOC uf"

text \<open>The loop of \<open>ufat_count_free_clusters\<close>, with \<open>k\<close> clusters left.\<close>

fun count_free_loop :: "nat \<Rightarrow> u32 \<Rightarrow> u32 \<Rightarrow> 'd ufat \<Rightarrow> ('d, u32) fat_read" where
  "count_free_loop 0 idx found uf = Inr (Inr found, uf)"
| "count_free_loop (Suc k) idx found uf =
     (if idx = 0xff0 \<and> fat_type (bpb uf) = UFAT_TYPE_FAT12 then count_free_loop k (idx + 1) found uf
      else
        rbind (ufat_read_fat uf idx) (\<lambda>(r, uf).
        case r of Inl err \<Rightarrow> Inr (Inl err, uf)
        | Inr c \<Rightarrow> count_free_loop k (idx + 1) (if c = UFAT_CLUSTER_FREE then found + 1 else found) uf))"

definition ufat_count_free_clusters :: "'d ufat \<Rightarrow> ('d, u32) fat_read" where
  "ufat_count_free_clusters uf = count_free_loop (unat (num_clusters (bpb uf)) - 2) 2 0 uf"

end
