(* ===== verification/Fat_Open.thy ===== *)
theory Fat_Open
  imports Fat_Table
begin

text \<open>Opening a volume: its BIOS parameter block (fs/ufat.c), and the texts of the errors.\<close>

section \<open>Errors\<close>

definition UFAT_MAX_ERR :: nat where "UFAT_MAX_ERR = 16"

definition error_text :: "string list" where
  "error_text =
     [''No error'', ''IO error'', ''Invalid block size'', ''Invalid BPB'',
      ''Filesystem is not aligned for this block size'', ''Invalid cluster index'', ''Filename too long'',
      ''Not a directory'', ''Not a file'', ''Can't delete/modify this entry'', ''Directory not empty'',
      ''Illegal filename'', ''File already exists'', ''Bad encoding'', ''Directory is full'', ''No free clusters'']"

definition ufat_strerror :: "int \<Rightarrow> string cres" where
  "ufat_strerror err =
     rbind (if err < 0 then c_int (- err) else Inr err) (\<lambda>err.
     if err \<ge> int UFAT_MAX_ERR then Inr ''Invalid error code'' else aget error_text err)"

section \<open>The parameter block\<close>

definition UFAT_DIRENT_SIZE :: nat where "UFAT_DIRENT_SIZE = 32"
definition UFAT_MAX_FAT12 :: u32 where "UFAT_MAX_FAT12 = 0xff6"

function log2_loop :: "u32 \<Rightarrow> u32 \<Rightarrow> u32 option" where
  "log2_loop e count =
     (if e > 1 then (if e AND 1 \<noteq> 0 then None else log2_loop (drop_bit 1 e) (count + 1)) else Some count)"
  by pat_completeness auto
termination
proof (relation "measure (\<lambda>(e, count). unat e)", goal_cases)
  case (2 e count)
  have "unat (drop_bit 1 e) = unat e div 2" unfolding unat_drop_bit_eq by (simp add: drop_bit_eq_div)
  moreover have "1 < unat e" using 2(1) by (simp add: word_less_nat_alt)
  ultimately show ?case unfolding in_measure prod.case by simp
qed simp

declare log2_loop.simps [simp del]

definition log2_exact :: "u32 \<Rightarrow> u32 option" where
  "log2_exact e = (if e = 0 then None else log2_loop e 0)"

definition ld16 :: "bytes \<Rightarrow> nat \<Rightarrow> u16 cres" where
  "ld16 m off = rbind (mem_load m off 2) (\<lambda>bs. Inr (r16 bs))"

definition ld32 :: "bytes \<Rightarrow> nat \<Rightarrow> u32 cres" where
  "ld32 m off = rbind (mem_load m off 4) (\<lambda>bs. Inr (r32 bs))"

text \<open>\<open>Convert sectors to blocks\<close>; the fields that are set before an error stay set.\<close>

definition sectors_to_blocks ::
    "nat \<Rightarrow> ufat_bpb \<Rightarrow> u32 \<Rightarrow> u32 \<Rightarrow> u16 \<Rightarrow> u32 \<Rightarrow> u32 \<Rightarrow> int \<times> ufat_bpb" where
  "sectors_to_blocks lg p log2_bytes_per_sector log2_sectors_per_cluster reserved sectors_per_fat root_sectors =
     (if lg > unat log2_bytes_per_sector then
        (let shift = lg - unat log2_bytes_per_sector in
         if unat log2_sectors_per_cluster < shift then (- UFAT_ERR_BLOCK_ALIGNMENT, p)
         else
           let p = p\<lparr>log2_blocks_per_cluster := log2_sectors_per_cluster - of_nat shift\<rparr> in
           if (ucast reserved OR sectors_per_fat OR root_sectors) AND (push_bit shift 1 - 1) \<noteq> 0
           then (- UFAT_ERR_BLOCK_ALIGNMENT, p)
           else (0, p\<lparr>fat_start := ucast (drop_bit shift reserved), fat_size := ucast (drop_bit shift sectors_per_fat),
                  root_size := ucast (drop_bit shift root_sectors)\<rparr>))
      else
        (let shift = unat log2_bytes_per_sector - lg in
         (0, p\<lparr>log2_blocks_per_cluster := log2_sectors_per_cluster + of_nat shift,
             fat_start := ucast (push_bit shift (ucast reserved :: u32)), fat_size := ucast (push_bit shift sectors_per_fat),
             root_size := ucast (push_bit shift root_sectors)\<rparr>)))"

text \<open>The values that do not depend on the block size.\<close>

definition finish_bpb :: "ufat_bpb \<Rightarrow> u8 \<Rightarrow> u32 \<Rightarrow> u16 \<Rightarrow> u32 \<Rightarrow> u32 \<Rightarrow> u32 \<Rightarrow> u32 \<Rightarrow> int \<times> ufat_bpb" where
  "finish_bpb p number_of_fats total_logical_sectors reserved sectors_per_fat root_sectors log2_sectors_per_cluster root_clus =
     (if number_of_fats = 0 then (- UFAT_ERR_INVALID_BPB, p)
      else
        let p = p\<lparr>fat_count := ucast number_of_fats,
             num_clusters := drop_bit (unat log2_sectors_per_cluster)
               (total_logical_sectors - ucast reserved - sectors_per_fat * ucast number_of_fats - root_sectors) + 2,
             root_cluster := root_clus AND UFAT_CLUSTER_MASK\<rparr>;
            p = p\<lparr>root_start := fat_start p + fat_size p * ucast (fat_count p)\<rparr>;
            p = p\<lparr>cluster_start := root_start p + root_size p\<rparr>
        in if root_sectors = 0 then (0, p\<lparr>fat_type := UFAT_TYPE_FAT32\<rparr>)
           else
             let p = p\<lparr>root_cluster := 0\<rparr> in
             (0, p\<lparr>fat_type := (if num_clusters p \<le> UFAT_MAX_FAT12 then UFAT_TYPE_FAT12 else UFAT_TYPE_FAT16)\<rparr>))"

text \<open>
  The memory \<open>m\<close> is the buffer from the address \<open>bpb\<close> on. The division by \<open>bytes_per_sector\<close> is done
  before any check.
\<close>

definition parse_bpb :: "nat \<Rightarrow> ufat_bpb \<Rightarrow> bytes \<Rightarrow> (int \<times> ufat_bpb) cres" where
  "parse_bpb lg p m =
     rbind (ld16 m 0x00b) (\<lambda>bytes_per_sector.
     rbind (mem_load8 m 0x00d) (\<lambda>sectors_per_cluster.
     rbind (ld16 m 0x00e) (\<lambda>reserved.
     rbind (ld16 m 0x011) (\<lambda>root_entries.
     rbind (ld16 m 0x016) (\<lambda>sectors_per_fat.
     rbind (ld16 m 0x013) (\<lambda>total_logical_sectors.
     rbind (mem_load8 m 0x010) (\<lambda>number_of_fats.
     rbind (ld32 m 0x02c) (\<lambda>root_clus.
     if bytes_per_sector = 0 then Inl C_Fault
     else
       let root_sectors = of_nat ((unat root_entries * UFAT_DIRENT_SIZE + unat bytes_per_sector - 1) div
             unat bytes_per_sector) in
       if lg < 9 then Inr (- UFAT_ERR_BLOCK_SIZE, p)
       else
         rbind (if total_logical_sectors = 0 then ld32 m 0x020 else Inr (ucast total_logical_sectors)) (\<lambda>n_sectors.
         rbind (if sectors_per_fat = 0 then ld32 m 0x024 else Inr (ucast sectors_per_fat)) (\<lambda>fat_sectors.
         case log2_exact (ucast bytes_per_sector) of
           None \<Rightarrow> Inr (- UFAT_ERR_INVALID_BPB, p)
         | Some log2_bytes_per_sector \<Rightarrow>
             (case log2_exact (ucast sectors_per_cluster) of
                None \<Rightarrow> Inr (- UFAT_ERR_INVALID_BPB, p)
              | Some log2_sectors_per_cluster \<Rightarrow>
                  rbind (ld16 m 0x1fe) (\<lambda>sig.
                  if sig \<noteq> 0xaa55 then Inr (- UFAT_ERR_INVALID_BPB, p)
                  else
                    let (err, p) = sectors_to_blocks lg p log2_bytes_per_sector log2_sectors_per_cluster reserved
                          fat_sectors root_sectors in
                    if err < 0 then Inr (err, p)
                    else Inr (finish_bpb p number_of_fats n_sectors reserved fat_sectors root_sectors
                           log2_sectors_per_cluster root_clus)))))))))))))"

definition read_bpb :: "'d ufat \<Rightarrow> (int \<times> 'd ufat) cres" where
  "read_bpb uf =
     rbind (ufat_cache_open uf 0 False) (\<lambda>(idx, uf).
     if idx < 0 then Inr (idx, uf)
     else
       rbind (parse_bpb (log2_block_size (dev uf)) (bpb uf) (drop (ufat_cache_data uf (nat idx)) (cache_data uf)))
         (\<lambda>(rc, p). Inr (rc, uf\<lparr>bpb := p\<rparr>)))"

definition zero_desc :: ufat_cache_desc where
  "zero_desc = \<lparr>cache_flags = 0, cache_seq = 0, cache_index = 0\<rparr>"

definition zero_stat :: ufat_stat where
  "zero_stat = \<lparr>stat_read = 0, stat_write = 0, stat_read_blocks = 0, stat_write_blocks = 0, stat_cache_hit = 0,
     stat_cache_miss = 0, stat_cache_write = 0, stat_cache_flush = 0\<rparr>"

text \<open>\<open>ufat_open\<close> on the memory \<open>uf\<close>.\<close>

definition ufat_open :: "'d ufat \<Rightarrow> 'd ufat_device \<Rightarrow> (int \<times> 'd ufat) cres" where
  "ufat_open uf d =
     (let size = drop_bit (log2_block_size d) UFAT_CACHE_BYTES;
          size = (if size > UFAT_CACHE_MAX_BLOCKS then UFAT_CACHE_MAX_BLOCKS else size);
          uf = uf\<lparr>dev := d, next_seq := 0, cache_size := size\<rparr>
      in if size = 0 then Inr (- UFAT_ERR_BLOCK_SIZE, uf)
         else read_bpb (uf\<lparr>alloc_ptr := 0, ufat_stat := zero_stat,
                cache_desc := replicate UFAT_CACHE_MAX_BLOCKS zero_desc\<rparr>))"

end
