(* ===== verification/Fat_Layout.thy ===== *)
theory Fat_Layout
  imports Fat_Open
begin

text \<open>What the fields of a parameter block mean: the regions of the volume, in bytes.\<close>

section \<open>Powers of two\<close>

lemma log2_loop_Some: "log2_loop e c = Some k \<Longrightarrow> e \<noteq> 0 \<Longrightarrow> \<exists>n. k = c + of_nat n \<and> unat e = 2 ^ n"
proof (induction e c rule: log2_loop.induct)
  case (1 e c)
  show ?case
  proof (cases "e > 1")
    case True
    then have even: "e AND 1 = 0" and r: "log2_loop (drop_bit 1 e) (c + 1) = Some k"
      using 1(2) by (simp_all add: log2_loop.simps [of e] split: if_splits)
    have d: "unat (drop_bit 1 e) = unat e div 2" unfolding unat_drop_bit_eq by (simp add: drop_bit_eq_div)
    have e1: "1 < unat e" using True by (simp add: word_less_nat_alt)
    have "drop_bit 1 e \<noteq> 0"
    proof
      assume "drop_bit 1 e = 0"
      then have "unat e div 2 = 0" using d by (simp only: unsigned_0)
      then show False using e1 by simp
    qed
    then obtain n where n: "k = c + 1 + of_nat n" "unat e div 2 = 2 ^ n" using 1(1) [OF True _ r] even d by auto
    have "bit (unat e) 0 \<longleftrightarrow> bit e 0" by (simp only: bit_unsigned_iff possible_bit_def) simp
    then have "even (unat e)" using even by (simp add: bit_0 and_one_eq even_iff_mod_2_eq_zero)
    then have "unat e = 2 ^ Suc n" using n(2) by auto
    moreover have "k = c + of_nat (Suc n)" using n(1) by simp
    ultimately show ?thesis by blast
  next
    case False
    then have "e = 1" using 1(3) by (simp add: word_less_nat_alt word_unat_eq_iff)
    moreover have "k = c" using False 1(2) by (simp add: log2_loop.simps [of e])
    ultimately show ?thesis by (intro exI [of _ 0]) simp
  qed
qed

lemma log2_exact_Some: "log2_exact e = Some k \<Longrightarrow> unat e = 2 ^ unat k \<and> unat k < 32"
proof -
  assume e: "log2_exact e = Some k"
  then have "e \<noteq> 0" "log2_loop e 0 = Some k" by (auto simp: log2_exact_def split: if_splits)
  then obtain n where n: "k = of_nat n" "unat e = 2 ^ n" using log2_loop_Some [of e 0 k] by auto
  have "unat e < 2 ^ 32" using unsigned_less [of e] by simp
  then have "(2::nat) ^ n < 2 ^ 32" using n(2) by simp
  then have "n < 32" by (rule power_less_imp_less_exp [rotated]) simp
  then show ?thesis using n by (simp add: unat_of_nat)
qed

section \<open>The regions\<close>

lemma unat_u32_64: "unat (ucast (x::u32) :: u64) = unat x"
proof -
  have "unat x < 2 ^ 32" using unsigned_less [of x] by simp
  then show ?thesis unfolding unsigned_ucast_eq by (simp add: take_bit_nat_eq_self)
qed

lemma unat_u16_32: "unat (ucast (x::u16) :: u32) = unat x"
proof -
  have "unat x < 2 ^ 16" using unsigned_less [of x] by simp
  then show ?thesis unfolding unsigned_ucast_eq by (simp add: take_bit_nat_eq_self)
qed

lemma unat_u16_64: "unat (ucast (x::u16) :: u64) = unat x"
proof -
  have "unat x < 2 ^ 16" using unsigned_less [of x] by simp
  then show ?thesis unfolding unsigned_ucast_eq by (simp add: take_bit_nat_eq_self)
qed

lemma unat_u8_32: "unat (ucast (x::u8) :: u32) = unat x"
proof -
  have "unat x < 2 ^ 8" using unsigned_less [of x] by simp
  then show ?thesis unfolding unsigned_ucast_eq by (simp add: take_bit_nat_eq_self)
qed

lemma unat_shift_32: "unat (x::u32) * 2 ^ s < 2 ^ 32 \<Longrightarrow> unat (push_bit s x) = unat x * 2 ^ s"
  unfolding unsigned_push_bit_eq by (simp add: take_bit_nat_eq_self push_bit_eq_mult)

lemma aligned_or:
  "((x::u32) OR y OR z) AND (push_bit s 1 - 1) = 0 \<Longrightarrow> unat x mod 2 ^ s = 0 \<and> unat y mod 2 ^ s = 0 \<and> unat z mod 2 ^ s = 0"
proof -
  assume a: "(x OR y OR z) AND (push_bit s 1 - 1) = 0"
  have "push_bit s 1 - 1 = (mask s :: u32)" by (simp add: mask_eq_exp_minus_1 push_bit_of_1)
  then have "take_bit s (x OR y OR z) = 0" using a by (simp only: take_bit_eq_mask)
  then have "take_bit s x = 0" "take_bit s y = 0" "take_bit s z = 0" by (simp_all add: or_eq_0_iff)
  then have "take_bit s (unat x) = 0" "take_bit s (unat y) = 0" "take_bit s (unat z) = 0"
    by (metis unsigned_take_bit_eq unsigned_0)+
  then show ?thesis by (simp add: take_bit_eq_mod)
qed

lemma unat_drop_32: "unat (drop_bit s (x::u32)) = unat x div 2 ^ s"
  unfolding unat_drop_bit_eq by (simp add: drop_bit_eq_div)

lemma sectors_to_blocks_ok:
  assumes r: "sectors_to_blocks lg p lb ls R F Z = (0, q)"
    and T: "unat R \<le> T" "unat F \<le> T" "unat Z \<le> T" "T * 2 ^ unat lb \<le> 2 ^ 31 * 2 ^ lg"
    and l: "unat lb < 32" "unat ls < 32"
  shows "unat (fat_start q) * 2 ^ lg = unat R * 2 ^ unat lb" "unat (fat_size q) * 2 ^ lg = unat F * 2 ^ unat lb"
    "unat (root_size q) * 2 ^ lg = unat Z * 2 ^ unat lb" "unat (log2_blocks_per_cluster q) + lg = unat ls + unat lb"
proof -
  have "unat (fat_start q) * 2 ^ lg = unat R * 2 ^ unat lb \<and> unat (fat_size q) * 2 ^ lg = unat F * 2 ^ unat lb \<and>
    unat (root_size q) * 2 ^ lg = unat Z * 2 ^ unat lb \<and> unat (log2_blocks_per_cluster q) + lg = unat ls + unat lb"
  proof (cases "lg > unat lb")
    case True
    define s where "s = lg - unat lb"
    have lg: "lg = unat lb + s" using True by (simp add: s_def)
    have sl: "\<not> unat ls < s" and al: "(ucast R OR F OR Z) AND (push_bit s 1 - 1) = 0"
      and q: "q = p\<lparr>log2_blocks_per_cluster := ls - of_nat s, fat_start := ucast (drop_bit s R),
        fat_size := ucast (drop_bit s F), root_size := ucast (drop_bit s Z)\<rparr>"
      using r True by (auto simp: sectors_to_blocks_def s_def [symmetric] Let_def UFAT_ERR_BLOCK_ALIGNMENT_def split: if_splits)
    have d: "unat R mod 2 ^ s = 0" "unat F mod 2 ^ s = 0" "unat Z mod 2 ^ s = 0"
      using aligned_or [OF al] by (simp_all add: unat_u16_32)
    have e: "n div 2 ^ s * 2 ^ lg = n * 2 ^ unat lb" if "n mod 2 ^ s = 0" for n :: nat
    proof -
      have "n div 2 ^ s * 2 ^ s = n" using that by auto
      then show ?thesis unfolding lg power_add by (metis mult.assoc mult.commute)
    qed
    have "unat (drop_bit s R) = unat R div 2 ^ s" unfolding unat_drop_bit_eq by (simp add: drop_bit_eq_div)
    moreover have "unat (ls - of_nat s) = unat ls - s"
      using sl l(2) by (simp add: unat_sub word_le_nat_alt unat_of_nat)
    ultimately show ?thesis
      using e [OF d(1)] e [OF d(2)] e [OF d(3)] sl by (simp add: q unat_u32_64 unat_u16_64 unat_drop_32 lg)
  next
    case False
    define s where "s = unat lb - lg"
    have lb: "unat lb = lg + s" using False by (simp add: s_def)
    have q: "q = p\<lparr>log2_blocks_per_cluster := ls + of_nat s, fat_start := ucast (push_bit s (ucast R :: u32)),
        fat_size := ucast (push_bit s F), root_size := ucast (push_bit s Z)\<rparr>"
      using r False by (simp add: sectors_to_blocks_def s_def [symmetric] Let_def)
    have "T * 2 ^ s * 2 ^ lg \<le> 2 ^ 31 * 2 ^ lg" using T(4) unfolding lb power_add by (simp only: mult_ac)
    then have "T * 2 ^ s \<le> 2 ^ 31" by simp
    then have b: "n * 2 ^ s < 2 ^ 32" if "n \<le> T" for n
    proof -
      have "n * 2 ^ s \<le> T * 2 ^ s" by (rule mult_le_mono1 [OF that])
      also have "\<dots> < 2 ^ 32" using \<open>T * 2 ^ s \<le> 2 ^ 31\<close> by (rule le_less_trans) simp
      finally show ?thesis .
    qed
    have "unat (push_bit s (ucast R :: u32)) = unat R * 2 ^ s" "unat (push_bit s F) = unat F * 2 ^ s"
      "unat (push_bit s Z) = unat Z * 2 ^ s"
      using b [OF T(1)] b [OF T(2)] b [OF T(3)] by (simp_all only: unat_shift_32 unat_u16_32)
    moreover have "s < 32" using l(1) lb by simp
    then have "unat (ls + of_nat s) = unat ls + s" using l(2) by (simp add: unat_word_ariths unat_of_nat)
    ultimately show ?thesis by (simp add: q unat_u32_64 lb power_add)
  qed
  then show "unat (fat_start q) * 2 ^ lg = unat R * 2 ^ unat lb" "unat (fat_size q) * 2 ^ lg = unat F * 2 ^ unat lb"
    "unat (root_size q) * 2 ^ lg = unat Z * 2 ^ unat lb" "unat (log2_blocks_per_cluster q) + lg = unat ls + unat lb"
    by blast+
qed

section \<open>A boot sector\<close>

definition boot_bytes :: "bytes \<Rightarrow> nat" where
  "boot_bytes b = unat (r16 (mem_slice 0x00b 2 b))"

definition boot_reserved :: "bytes \<Rightarrow> nat" where
  "boot_reserved b = unat (r16 (mem_slice 0x00e 2 b))"

definition boot_fats :: "bytes \<Rightarrow> nat" where
  "boot_fats b = unat (b ! 0x010)"

definition boot_root :: "bytes \<Rightarrow> nat" where
  "boot_root b = (unat (r16 (mem_slice 0x011 2 b)) * 32 + boot_bytes b - 1) div boot_bytes b"

definition boot_total :: "bytes \<Rightarrow> nat" where
  "boot_total b =
     (if r16 (mem_slice 0x013 2 b) = 0 then unat (r32 (mem_slice 0x020 4 b)) else unat (r16 (mem_slice 0x013 2 b)))"

definition boot_per_fat :: "bytes \<Rightarrow> nat" where
  "boot_per_fat b =
     (if r16 (mem_slice 0x016 2 b) = 0 then unat (r32 (mem_slice 0x024 4 b)) else unat (r16 (mem_slice 0x016 2 b)))"

text \<open>The areas in front of the clusters fit into the volume, and block numbers into 32 bits.\<close>

definition boot_fits :: "nat \<Rightarrow> bytes \<Rightarrow> bool" where
  "boot_fits lg b \<longleftrightarrow> boot_reserved b + boot_per_fat b * boot_fats b + boot_root b \<le> boot_total b \<and>
     boot_total b * boot_bytes b \<le> 2 ^ 31 * 2 ^ lg"

lemma mem_load8_nth: "off < length m \<Longrightarrow> mem_load8 m off = Inr (m ! off)"
  by (simp add: mem_load8_def)

lemma ld_slice:
  "off + 2 \<le> length m \<Longrightarrow> ld16 m off = Inr (r16 (mem_slice off 2 m))"
  "off + 4 \<le> length m \<Longrightarrow> ld32 m off = Inr (r32 (mem_slice off 4 m))"
  by (simp_all add: ld16_def ld32_def)

lemma sectors_to_blocks_err: "sectors_to_blocks lg p lb ls R F Z = (e, q) \<Longrightarrow> \<not> e < 0 \<Longrightarrow> e = 0"
  by (auto simp: sectors_to_blocks_def Let_def UFAT_ERR_BLOCK_ALIGNMENT_def split: if_splits)

text \<open>What a successful run went through.\<close>

lemma parse_bpb_steps:
  assumes b: "512 \<le> length b" and r: "parse_bpb lg p b = Inr (0, q)"
  obtains lb ls F T q1 where "9 \<le> lg" "unat lb < 32" "boot_bytes b = 2 ^ unat lb" "unat ls < 32"
    "unat F = boot_per_fat b" "unat T = boot_total b" "unat (of_nat (boot_root b) :: u32) = boot_root b"
    "sectors_to_blocks lg p lb ls (r16 (mem_slice 0x00e 2 b)) F (of_nat (boot_root b)) = (0, q1)"
    "finish_bpb q1 (b ! 0x010) T (r16 (mem_slice 0x00e 2 b)) F (of_nat (boot_root b)) ls (r32 (mem_slice 0x02c 4 b)) = (0, q)"
proof -
  let ?n = "r16 (mem_slice 0x00b 2 b)"
  define F :: u32 where "F = (if r16 (mem_slice 0x016 2 b) = 0 then r32 (mem_slice 0x024 4 b) else ucast (r16 (mem_slice 0x016 2 b)))"
  define T :: u32 where "T = (if r16 (mem_slice 0x013 2 b) = 0 then r32 (mem_slice 0x020 4 b) else ucast (r16 (mem_slice 0x013 2 b)))"
  have FT: "unat F = boot_per_fat b" "unat T = boot_total b"
    by (simp_all add: F_def T_def boot_per_fat_def boot_total_def unat_u16_32)
  have lds: "(if r16 (mem_slice 0x013 2 b) = 0 then ld32 b 0x020 else Inr (ucast (r16 (mem_slice 0x013 2 b)))) = Inr T"
      "(if r16 (mem_slice 0x016 2 b) = 0 then ld32 b 0x024 else Inr (ucast (r16 (mem_slice 0x016 2 b)))) = Inr F"
    using b by (simp_all add: T_def F_def ld_slice)
  have steps: "?n \<noteq> 0 \<and> 9 \<le> lg \<and> (\<exists>lb ls q1. log2_exact (ucast ?n) = Some lb \<and> log2_exact (ucast (b ! 0x00d)) = Some ls \<and>
      sectors_to_blocks lg p lb ls (r16 (mem_slice 0x00e 2 b)) F (of_nat (boot_root b)) = (0, q1) \<and>
      finish_bpb q1 (b ! 0x010) T (r16 (mem_slice 0x00e 2 b)) F (of_nat (boot_root b)) ls (r32 (mem_slice 0x02c 4 b)) = (0, q))"
    using r b lds
    by (auto simp: parse_bpb_def ld_slice mem_load8_nth boot_root_def [unfolded boot_bytes_def] UFAT_DIRENT_SIZE_def Let_def
        UFAT_ERR_BLOCK_SIZE_def UFAT_ERR_INVALID_BPB_def dest: sectors_to_blocks_err split: if_splits option.splits prod.splits)
  then obtain lb ls q1 where l: "log2_exact (ucast ?n) = Some lb" "log2_exact (ucast (b ! 0x00d)) = Some ls"
      "sectors_to_blocks lg p lb ls (r16 (mem_slice 0x00e 2 b)) F (of_nat (boot_root b)) = (0, q1)"
      "finish_bpb q1 (b ! 0x010) T (r16 (mem_slice 0x00e 2 b)) F (of_nat (boot_root b)) ls (r32 (mem_slice 0x02c 4 b)) = (0, q)"
    by blast
  have n: "boot_bytes b = 2 ^ unat lb" "unat lb < 32" "unat ls < 32"
    using log2_exact_Some [OF l(1)] log2_exact_Some [OF l(2)] by (simp_all add: boot_bytes_def unat_u16_32)
  have "boot_root b \<le> unat (r16 (mem_slice 0x011 2 b)) * 32 + boot_bytes b" unfolding boot_root_def
    by (intro order_trans [OF div_le_dividend]) simp
  moreover have "unat (r16 (mem_slice 0x011 2 b)) < 2 ^ 16" "boot_bytes b < 2 ^ 16"
    using unsigned_less [of "r16 (mem_slice 0x011 2 b)"] unsigned_less [of ?n] by (simp_all add: boot_bytes_def)
  ultimately have "boot_root b < 2 ^ 32" by simp
  then have "unat (of_nat (boot_root b) :: u32) = boot_root b" by (simp add: unat_of_nat)
  then show thesis using that steps l(3,4) n FT by blast
qed

lemma finish_bpb_ok:
  assumes "finish_bpb q1 N T R F Z ls c = (0, q)"
  shows "0 < unat N" "fat_start q = fat_start q1" "fat_size q = fat_size q1" "root_size q = root_size q1"
    "log2_blocks_per_cluster q = log2_blocks_per_cluster q1" "unat (fat_count q) = unat N"
    "root_start q = fat_start q1 + fat_size q1 * ucast (fat_count q)" "cluster_start q = root_start q + root_size q1"
    "num_clusters q = drop_bit (unat ls) (T - ucast R - F * ucast N - Z) + 2"
    "fat_type q = UFAT_TYPE_FAT12 \<Longrightarrow> num_clusters q \<le> UFAT_MAX_FAT12"
  using assms
  by (auto simp: finish_bpb_def Let_def UFAT_ERR_INVALID_BPB_def unat_u8_32 word_less_nat_alt [of 0] word_neq_0_conv split: if_splits)

lemma scale_sum:
  fixes a b k m n :: nat
  assumes "a * k = A * m" "b * k = B * m"
  shows "(a + b * n) * k = (A + B * n) * m"
proof -
  have "(a + b * n) * k = a * k + b * k * n" by (simp add: algebra_simps)
  also have "\<dots> = (A + B * n) * m" unfolding assms by (simp add: algebra_simps)
  finally show ?thesis .
qed

lemma parse_layout:
  assumes b: "512 \<le> length b" and r: "parse_bpb lg p b = Inr (0, q)" and f: "boot_fits lg b"
  shows "unat (fat_start q) * 2 ^ lg = boot_reserved b * boot_bytes b"
    "unat (fat_size q) * 2 ^ lg = boot_per_fat b * boot_bytes b" "unat (fat_count q) = boot_fats b"
    "unat (root_start q) * 2 ^ lg = (boot_reserved b + boot_per_fat b * boot_fats b) * boot_bytes b"
    "unat (cluster_start q) * 2 ^ lg = (boot_reserved b + boot_per_fat b * boot_fats b + boot_root b) * boot_bytes b"
    "2 \<le> unat (num_clusters q)"
    "(unat (cluster_start q) + (unat (num_clusters q) - 2) * 2 ^ unat (log2_blocks_per_cluster q)) * 2 ^ lg \<le>
       boot_total b * boot_bytes b"
proof -
  obtain lb ls F T q1 where s: "9 \<le> lg" "unat lb < 32" "boot_bytes b = 2 ^ unat lb" "unat ls < 32"
    "unat F = boot_per_fat b" "unat T = boot_total b" "unat (of_nat (boot_root b) :: u32) = boot_root b"
    "sectors_to_blocks lg p lb ls (r16 (mem_slice 0x00e 2 b)) F (of_nat (boot_root b)) = (0, q1)"
    "finish_bpb q1 (b ! 0x010) T (r16 (mem_slice 0x00e 2 b)) F (of_nat (boot_root b)) ls (r32 (mem_slice 0x02c 4 b)) = (0, q)"
    by (rule parse_bpb_steps [OF b r])
  note Q = finish_bpb_ok [OF s(9)]
  let ?R = "boot_reserved b" and ?F = "boot_per_fat b" and ?N = "boot_fats b" and ?Z = "boot_root b" and ?T = "boot_total b"
    and ?a = "unat lb"
  have fit: "?R + ?F * ?N + ?Z \<le> ?T" and lim: "?T * 2 ^ ?a \<le> 2 ^ 31 * 2 ^ lg" using f s(3) by (simp_all add: boot_fits_def)
  have N: "0 < ?N" using Q(1) by (simp add: boot_fats_def)
  then have "?F * 1 \<le> ?F * ?N" by (intro mult_le_mono2) simp
  then have "?F \<le> ?T" using fit by linarith
  then have le: "unat (r16 (mem_slice 0x00e 2 b)) \<le> ?T" "unat F \<le> ?T" "unat (of_nat (boot_root b) :: u32) \<le> ?T"
    using fit s(5,7) by (simp_all add: boot_reserved_def)
  note B = sectors_to_blocks_ok [OF s(8) le lim s(2,4), unfolded s(5,7), folded boot_reserved_def]
  show fs: "unat (fat_start q) * 2 ^ lg = ?R * boot_bytes b" using B(1) Q(2) s(3) by simp
  show fz: "unat (fat_size q) * 2 ^ lg = ?F * boot_bytes b" using B(2) Q(3) s(3) by simp
  show fc: "unat (fat_count q) = ?N" using Q(6) by (simp add: boot_fats_def)
  have mono: "m * 2 ^ lg \<le> 2 ^ 31 * 2 ^ lg \<Longrightarrow> m \<le> 2 ^ 31" for m :: nat by simp
  have all: "(unat (fat_start q1) + unat (fat_size q1) * ?N + unat (root_size q1)) * 2 ^ lg = (?R + ?F * ?N + ?Z) * 2 ^ ?a"
    using scale_sum [OF B(1,2), of ?N] B(3) by (simp add: add_mult_distrib)
  have "(?R + ?F * ?N + ?Z) * 2 ^ ?a \<le> ?T * 2 ^ ?a" by (rule mult_le_mono1 [OF fit])
  then have small: "unat (fat_start q1) + unat (fat_size q1) * ?N + unat (root_size q1) \<le> 2 ^ 31"
    using lim unfolding all [symmetric] by (intro mono) linarith
  have "unat (fat_size q1 * ucast (fat_count q)) = unat (fat_size q1) * ?N"
    using small by (simp add: unat_word_ariths unat_u32_64 fc)
  then have rs: "unat (root_start q) = unat (fat_start q1) + unat (fat_size q1) * ?N"
    using small by (simp add: Q(7) unat_word_ariths)
  then have cs: "unat (cluster_start q) = unat (fat_start q1) + unat (fat_size q1) * ?N + unat (root_size q1)"
    using small by (simp add: Q(8) unat_word_ariths)
  show "unat (root_start q) * 2 ^ lg = (?R + ?F * ?N) * boot_bytes b"
    unfolding rs s(3) by (rule scale_sum [OF B(1,2)])
  show start: "unat (cluster_start q) * 2 ^ lg = (?R + ?F * ?N + ?Z) * boot_bytes b" unfolding cs s(3) by (rule all)
  let ?D = "?T - ?R - ?F * ?N - ?Z"
  have FN: "unat (F * ucast (b ! 0x010)) = ?F * ?N"
  proof -
    have "unat T < 2 ^ 32" using unsigned_less [of T] by simp
    then have "?T < 2 ^ 32" using s(6) by simp
    then have "?F * ?N < 2 ^ 32" using fit by linarith
    then show ?thesis by (simp add: unat_word_ariths unat_u8_32 s(5) boot_fats_def)
  qed
  have "unat (T - ucast (r16 (mem_slice 0x00e 2 b))) = ?T - ?R"
    using fit s(6) by (simp add: unat_sub word_le_nat_alt unat_u16_32 boot_reserved_def)
  then have "unat (T - ucast (r16 (mem_slice 0x00e 2 b)) - F * ucast (b ! 0x010)) = ?T - ?R - ?F * ?N"
    using fit FN by (simp add: unat_sub word_le_nat_alt)
  then have D: "unat (T - ucast (r16 (mem_slice 0x00e 2 b)) - F * ucast (b ! 0x010) - of_nat ?Z) = ?D"
    using fit s(7) by (simp add: unat_sub word_le_nat_alt)
  let ?X = "?D div 2 ^ unat ls" and ?c = "unat (log2_blocks_per_cluster q)"
  have XD: "?X * 2 ^ unat ls \<le> ?D" by (rule div_times_less_eq_dividend)
  have c: "?c + lg = unat ls + ?a" using B(4) Q(5) by simp
  have XA: "?X * 2 ^ ?c * 2 ^ lg \<le> ?D * 2 ^ ?a"
  proof -
    have e: "?X * 2 ^ ?c * 2 ^ lg = ?X * 2 ^ unat ls * 2 ^ ?a" using c by (simp add: mult.assoc flip: power_add)
    show ?thesis unfolding e by (rule mult_le_mono1 [OF XD])
  qed
  have "?X * 2 ^ lg \<le> ?X * 2 ^ ?c * 2 ^ lg" by simp
  also have "\<dots> \<le> ?T * 2 ^ ?a" by (rule order_trans [OF XA]) simp
  finally have X: "?X \<le> 2 ^ 31" using lim by (intro mono) linarith
  then have n: "unat (num_clusters q) = ?X + 2" by (simp add: Q(9) unat_word_ariths unat_drop_32 D)
  then show "2 \<le> unat (num_clusters q)" by simp
  have "(unat (cluster_start q) + ?X * 2 ^ ?c) * 2 ^ lg \<le> (?R + ?F * ?N + ?Z) * 2 ^ ?a + ?D * 2 ^ ?a"
    using start XA s(3) by (simp add: add_mult_distrib)
  also have "\<dots> = ?T * 2 ^ ?a" using fit unfolding add_mult_distrib [symmetric] by simp
  finally show "(unat (cluster_start q) + (unat (num_clusters q) - 2) * 2 ^ ?c) * 2 ^ lg \<le> ?T * boot_bytes b"
    using n s(3) by simp
qed

end
