(* ===== verification/Fat_View.thy ===== *)
theory Fat_View
  imports Fat_Cache
begin

text \<open>
  The block cache over a device: the laws of a device as the locale \<open>block_device\<close>, the invariant of the
  cache, and the disk as seen through it, which opening and flushing blocks leave as it is.
\<close>

section \<open>Slots\<close>

definition slot_flags :: "'d ufat \<Rightarrow> nat \<Rightarrow> u32" where
  "slot_flags uf i = cache_flags (cache_desc uf ! i)"

definition slot_present :: "'d ufat \<Rightarrow> nat \<Rightarrow> bool" where
  "slot_present uf i \<longleftrightarrow> slot_flags uf i AND UFAT_CACHE_FLAG_PRESENT \<noteq> 0"

definition slot_dirty :: "'d ufat \<Rightarrow> nat \<Rightarrow> bool" where
  "slot_dirty uf i \<longleftrightarrow> slot_present uf i \<and> slot_flags uf i AND UFAT_CACHE_FLAG_DIRTY \<noteq> 0"

definition slot_blk :: "'d ufat \<Rightarrow> nat \<Rightarrow> nat" where
  "slot_blk uf i = unat (cache_index (cache_desc uf ! i))"

definition slot_data :: "'d ufat \<Rightarrow> nat \<Rightarrow> bytes" where
  "slot_data uf i = mem_slice (ufat_cache_data uf i) (block_bytes uf) (cache_data uf)"

text \<open>The first copy of the FAT, and the blocks of the others with the block they mirror.\<close>

definition in_fat :: "ufat_bpb \<Rightarrow> nat \<Rightarrow> bool" where
  "in_fat p b \<longleftrightarrow> unat (fat_start p) \<le> b \<and> b < unat (fat_start p) + unat (fat_size p)"

definition mirrors :: "ufat_bpb \<Rightarrow> nat \<Rightarrow> nat \<Rightarrow> bool" where
  "mirrors p b c \<longleftrightarrow> in_fat p b \<and> (\<exists>k. 0 < k \<and> k < unat (fat_count p) \<and> c = b + k * unat (fat_size p))"

definition is_mirror :: "ufat_bpb \<Rightarrow> nat \<Rightarrow> bool" where
  "is_mirror p c \<longleftrightarrow> (\<exists>b. mirrors p b c)"

text \<open>The FATs lie on a device of \<open>n\<close> blocks, whose numbers the 64-bit index holds.\<close>

definition geometry_ok :: "nat \<Rightarrow> ufat_bpb \<Rightarrow> bool" where
  "geometry_ok n p \<longleftrightarrow> unat (fat_start p) + unat (fat_size p) * unat (fat_count p) \<le> n \<and>
     unat (fat_start p) + unat (fat_size p) \<le> n \<and> n < 2 ^ 64"

lemma mirror_not_fat: "in_fat p c \<Longrightarrow> \<not> is_mirror p c"
proof
  assume c: "in_fat p c" "is_mirror p c"
  then obtain b k where b: "in_fat p b" "0 < k" "c = b + k * unat (fat_size p)"
    by (auto simp: is_mirror_def mirrors_def)
  then have "unat (fat_size p) \<le> k * unat (fat_size p)" by simp
  then show False using b c(1) unfolding in_fat_def by linarith
qed

lemma mirrors_bound: "geometry_ok n p \<Longrightarrow> mirrors p b c \<Longrightarrow> c < n"
proof -
  assume g: "geometry_ok n p" and m: "mirrors p b c"
  then obtain k where k: "k < unat (fat_count p)" "c = b + k * unat (fat_size p)" "in_fat p b"
    by (auto simp: mirrors_def)
  have "Suc k * unat (fat_size p) \<le> unat (fat_count p) * unat (fat_size p)"
    using k(1) by (intro mult_le_mono1) simp
  then show "c < n" using g k by (simp add: geometry_ok_def in_fat_def mult.commute)
qed

section \<open>The laws of a device\<close>

locale block_device =
  fixes device :: "'d ufat_device"
    and blocks :: "'d \<Rightarrow> nat \<Rightarrow> bytes"
    and nblocks :: nat
    and good :: "'d \<Rightarrow> bool"
  assumes length_block: "good d \<Longrightarrow> k < nblocks \<Longrightarrow> length (blocks d k) = 2 ^ log2_block_size device"
    and read_block: "good d \<Longrightarrow> unat b < nblocks \<Longrightarrow> length buf = 2 ^ log2_block_size device \<Longrightarrow>
      \<exists>d'. dev_read device b 1 buf d = (0, blocks d (unat b), d') \<and> good d' \<and> (\<forall>k < nblocks. blocks d' k = blocks d k)"
    and write_block: "good d \<Longrightarrow> unat b < nblocks \<Longrightarrow> length bs = 2 ^ log2_block_size device \<Longrightarrow>
      \<exists>d'. dev_write device b 1 bs d = (0, d') \<and> good d' \<and>
        (\<forall>k < nblocks. blocks d' k = (if k = unat b then bs else blocks d k))"
begin

text \<open>What every operation keeps of a state, and the disk through the cache.\<close>

definition cache_ok :: "'d ufat \<Rightarrow> bool" where
  "cache_ok uf \<longleftrightarrow> dev uf = device \<and> good (disk uf) \<and> geometry_ok nblocks (bpb uf) \<and>
     length (cache_desc uf) = 16 \<and> length (cache_data uf) = 8192 \<and>
     0 < cache_size uf \<and> cache_size uf \<le> 16 \<and> cache_size uf * block_bytes uf \<le> 8192 \<and>
     (\<forall>i < cache_size uf. slot_flags uf i \<in> {0, 2, 3} \<and>
       (slot_present uf i \<longrightarrow> slot_blk uf i < nblocks \<and> \<not> is_mirror (bpb uf) (slot_blk uf i) \<and>
         (\<not> slot_dirty uf i \<longrightarrow> slot_data uf i = blocks (disk uf) (slot_blk uf i)))) \<and>
     (\<forall>i < cache_size uf. \<forall>j < cache_size uf. i \<noteq> j \<longrightarrow> slot_present uf i \<longrightarrow> slot_present uf j \<longrightarrow>
       slot_blk uf i \<noteq> slot_blk uf j)"

definition slot_of :: "'d ufat \<Rightarrow> nat \<Rightarrow> nat option" where
  "slot_of uf b = List.find (\<lambda>i. slot_present uf i \<and> slot_blk uf i = b) [0..<cache_size uf]"

definition view :: "'d ufat \<Rightarrow> nat \<Rightarrow> bytes" where
  "view uf b = (case slot_of uf b of Some i \<Rightarrow> slot_data uf i | None \<Rightarrow> blocks (disk uf) b)"

text \<open>Every copy of a FAT block that is not waiting to be written is like the first.\<close>

definition fats_equal :: "'d ufat \<Rightarrow> bool" where
  "fats_equal uf \<longleftrightarrow> (\<forall>b c. mirrors (bpb uf) b c \<longrightarrow>
     (\<forall>i < cache_size uf. slot_dirty uf i \<longrightarrow> slot_blk uf i \<noteq> b) \<longrightarrow>
     blocks (disk uf) c = blocks (disk uf) b)"

lemma cache_okD:
  assumes "cache_ok uf"
  shows "dev uf = device" "good (disk uf)" "geometry_ok nblocks (bpb uf)" "length (cache_desc uf) = 16"
    "length (cache_data uf) = 8192" "0 < cache_size uf" "cache_size uf \<le> 16" "cache_size uf * block_bytes uf \<le> 8192"
    "block_bytes uf = 2 ^ log2_block_size device"
proof -
  show d: "dev uf = device" and "good (disk uf)" "geometry_ok nblocks (bpb uf)" "length (cache_desc uf) = 16"
    "length (cache_data uf) = 8192" "0 < cache_size uf" "cache_size uf \<le> 16" "cache_size uf * block_bytes uf \<le> 8192"
    using assms unfolding cache_ok_def by blast+
  show "block_bytes uf = 2 ^ log2_block_size device" by (simp add: block_bytes_def d)
qed

lemma cache_ok_slot:
  assumes "cache_ok uf" "i < cache_size uf"
  shows "slot_flags uf i \<in> {0, 2, 3}"
    and "slot_present uf i \<Longrightarrow> slot_blk uf i < nblocks"
    and "slot_present uf i \<Longrightarrow> \<not> is_mirror (bpb uf) (slot_blk uf i)"
    and "slot_present uf i \<Longrightarrow> \<not> slot_dirty uf i \<Longrightarrow> slot_data uf i = blocks (disk uf) (slot_blk uf i)"
    and "j < cache_size uf \<Longrightarrow> slot_present uf i \<Longrightarrow> slot_present uf j \<Longrightarrow> slot_blk uf i = slot_blk uf j \<Longrightarrow> i = j"
  using assms unfolding cache_ok_def by blast+

lemma slot_bounds: "cache_ok uf \<Longrightarrow> i < cache_size uf \<Longrightarrow> ufat_cache_data uf i + block_bytes uf \<le> 8192"
proof -
  assume c: "cache_ok uf" and i: "i < cache_size uf"
  have "Suc i * block_bytes uf \<le> cache_size uf * block_bytes uf" using i by (intro mult_le_mono1) simp
  then show ?thesis using cache_okD(8) [OF c] by (simp add: ufat_cache_data_def)
qed

lemma cache_block_slot: "cache_ok uf \<Longrightarrow> i < cache_size uf \<Longrightarrow> cache_block uf i = Inr (slot_data uf i)"
  using slot_bounds cache_okD by (simp add: cache_block_def slot_data_def)

lemma length_slot_data: "cache_ok uf \<Longrightarrow> i < cache_size uf \<Longrightarrow> length (slot_data uf i) = 2 ^ log2_block_size device"
  using slot_bounds [of uf i] cache_okD [of uf] by (simp add: slot_data_def)

lemma slot_of_present:
  assumes "cache_ok uf" "i < cache_size uf" "slot_present uf i"
  shows "slot_of uf (slot_blk uf i) = Some i"
proof -
  have "slot_of uf (slot_blk uf i) \<noteq> None" using assms(2,3) by (auto simp: slot_of_def find_None_iff)
  then obtain j where j: "slot_of uf (slot_blk uf i) = Some j" by auto
  then have "j < cache_size uf" "slot_present uf j" "slot_blk uf j = slot_blk uf i"
    by (auto simp: slot_of_def find_Some_iff)
  then show ?thesis using j cache_ok_slot(5) [OF assms(1,2)] assms(3) by metis
qed

lemma slot_of_None: "slot_of uf b = None \<longleftrightarrow> (\<forall>i < cache_size uf. slot_present uf i \<longrightarrow> slot_blk uf i \<noteq> b)"
  by (auto simp: slot_of_def find_None_iff)

lemma view_present: "cache_ok uf \<Longrightarrow> i < cache_size uf \<Longrightarrow> slot_present uf i \<Longrightarrow> view uf (slot_blk uf i) = slot_data uf i"
  by (simp add: view_def slot_of_present)

lemma view_absent: "(\<forall>i < cache_size uf. slot_present uf i \<longrightarrow> slot_blk uf i \<noteq> b) \<Longrightarrow> view uf b = blocks (disk uf) b"
  using slot_of_None [of uf b] by (simp add: view_def)

lemma view_clean:
  assumes c: "cache_ok uf" and "\<forall>i < cache_size uf. slot_dirty uf i \<longrightarrow> slot_blk uf i \<noteq> b"
  shows "view uf b = blocks (disk uf) b"
proof (cases "\<exists>i < cache_size uf. slot_present uf i \<and> slot_blk uf i = b")
  case True
  then show ?thesis using assms(2) view_present [OF c] cache_ok_slot(4) [OF c] by metis
qed (auto intro: view_absent)

lemma length_view: "cache_ok uf \<Longrightarrow> b < nblocks \<Longrightarrow> length (view uf b) = 2 ^ log2_block_size device"
proof (cases "\<exists>i < cache_size uf. slot_present uf i \<and> slot_blk uf i = b")
  case True
  then show "cache_ok uf \<Longrightarrow> ?thesis" using view_present length_slot_data by metis
next
  case False
  then show "cache_ok uf \<Longrightarrow> b < nblocks \<Longrightarrow> ?thesis"
    using view_absent [of uf b] length_block cache_okD(2) by fastforce
qed

end

section \<open>The device of the shell\<close>

lemma log2_file_device [simp]: "log2_block_size (file_device lg) = lg"
  by (simp add: file_device_def)

definition file_block :: "nat \<Rightarrow> bytes \<Rightarrow> nat \<Rightarrow> bytes" where
  "file_block lg file k = mem_slice (k * 2 ^ lg) (2 ^ lg) file"

lemma block_in_file: "(k::nat) < n \<Longrightarrow> k * 2 ^ lg + 2 ^ lg \<le> n * 2 ^ lg"
proof -
  assume "k < n"
  then have "Suc k * 2 ^ lg \<le> n * 2 ^ lg" by (intro mult_le_mono1) simp
  then show ?thesis by simp
qed

lemma unat_shifted: "unat (b::u64) * 2 ^ lg < 2 ^ 64 \<Longrightarrow> unat (push_bit lg b) = unat b * 2 ^ lg"
  by (simp only: unsigned_push_bit_eq) (simp add: take_bit_nat_eq_self push_bit_eq_mult)

lemma seek_pos_ok: "unat (b::u64) * 2 ^ lg < 2 ^ 63 \<Longrightarrow> seek_pos lg b = unat b * 2 ^ lg"
  by (simp add: seek_pos_def unat_shifted Let_def)

interpretation file_dev: block_device "file_device lg" "file_block lg" n "\<lambda>f. length f = n * 2 ^ lg \<and> n * 2 ^ lg \<le> 2 ^ 63"
  for lg n
proof (unfold_locales, goal_cases)
  case (1 d k)
  then show ?case using block_in_file [of k n lg] by (simp add: file_block_def file_device_def)
next
  case (2 d b buf)
  have "unat b * 2 ^ lg + 2 ^ lg \<le> n * 2 ^ lg" using 2(2) by (rule block_in_file)
  moreover have "seek_pos lg b = unat b * 2 ^ lg"
    using calculation 2(1) zero_less_power [of "2::nat" lg] by (intro seek_pos_ok) linarith
  ultimately show ?case
    using 2 by (simp add: file_device_def read_sector_def file_block_def mem_slice_def)
next
  case (3 d b bs)
  let ?w = "mem_splice (unat b * 2 ^ lg) bs d"
  have in_file: "unat b * 2 ^ lg + 2 ^ lg \<le> n * 2 ^ lg" using 3(2) by (rule block_in_file)
  then have "seek_pos lg b = unat b * 2 ^ lg" using 3(1) zero_less_power [of "2::nat" lg] by (intro seek_pos_ok) linarith
  then have w: "dev_write (file_device lg) b 1 bs d = (0, ?w)"
    using 3 in_file by (simp add: file_device_def write_sector_def mem_splice_def Let_def)
  have "file_block lg ?w k = (if k = unat b then bs else file_block lg d k)" if "k < n" for k
  proof (cases "k = unat b")
    case True
    then show ?thesis using 3 in_file by (simp add: file_block_def file_device_def mem_simps)
  next
    case False
    have "k * 2 ^ lg + 2 ^ lg \<le> unat b * 2 ^ lg \<or> unat b * 2 ^ lg + 2 ^ lg \<le> k * 2 ^ lg"
      using False block_in_file [of k "unat b" lg] block_in_file [of "unat b" k lg] by linarith
    then show ?thesis
      using 3 in_file False block_in_file [OF that, of lg]
      by (simp add: file_block_def file_device_def mem_slice_splice_disjoint)
  qed
  then show ?case using w 3 in_file by (simp add: file_device_def)
qed

text \<open>
  Writing a slot back: the block and its mirrors get the slot's data, and neither the disk as seen through
  the cache nor the invariants change.
\<close>

lemma set_desc_ok:
  "i < length (cache_desc uf) \<Longrightarrow>
    set_desc uf i f = Inr (uf\<lparr>cache_desc := (cache_desc uf)[i := f (cache_desc uf ! i)]\<rparr>)"
  by (simp add: set_desc_def aget_def aset_def)

lemma mirror_offset: "mirrors p b c \<Longrightarrow> (c - unat (fat_start p)) mod unat (fat_size p) = b - unat (fat_start p)"
proof -
  assume m: "mirrors p b c"
  then obtain k where k: "c = b + k * unat (fat_size p)" and i: "in_fat p b" by (auto simp: mirrors_def)
  have "c - unat (fat_start p) = (b - unat (fat_start p)) + k * unat (fat_size p)"
    using i unfolding k in_fat_def by linarith
  moreover have "b - unat (fat_start p) < unat (fat_size p)" using i unfolding in_fat_def by linarith
  ultimately show ?thesis by simp
qed

lemma mirrors_unique: "mirrors p b c \<Longrightarrow> mirrors p b' c \<Longrightarrow> b = b'"
proof -
  assume m: "mirrors p b c" "mirrors p b' c"
  then have "b - unat (fat_start p) = b' - unat (fat_start p)" using mirror_offset by metis
  moreover have "unat (fat_start p) \<le> b" "unat (fat_start p) \<le> b'" using m by (auto simp: mirrors_def in_fat_def)
  ultimately show "b = b'" by linarith
qed

lemma unat_add_index:
  fixes a b :: u64
  shows "unat a + unat b < 2 ^ 64 \<Longrightarrow> unat (a + b) = unat a + unat b"
  by (simp add: unat_word_ariths)

lemma cache_flush_dirty:
  assumes "aget (cache_desc uf) (int i) = Inr d" and "cache_flags d = 3" and "cache_block uf i = Inr bs"
    and "dev_write (dev uf) (cache_index d) 1 bs (disk uf) = (0, dk)"
    and "uf1 = count_write (uf\<lparr>disk := dk, ufat_stat := (ufat_stat uf)
      \<lparr>stat_cache_flush := stat_cache_flush (ufat_stat uf) + 1\<rparr>\<rparr>)"
  shows "cache_flush uf i =
    rbind (set_desc (if cache_index d \<ge> fat_start (bpb uf) \<and> cache_index d < fat_start (bpb uf) + fat_size (bpb uf)
        then mirror_loop (unat (fat_count (bpb uf)) - 1) (cache_index d) bs uf1 else uf1) i
      (\<lambda>d. d\<lparr>cache_flags := cache_flags d AND NOT UFAT_CACHE_FLAG_DIRTY\<rparr>)) (\<lambda>uf. Inr (0, uf))"
  using assms
  by (simp add: cache_flush_def UFAT_CACHE_FLAG_DIRTY_def UFAT_CACHE_FLAG_PRESENT_def Let_def count_write_def)

context block_device
begin

lemma mirror_loop_ok:
  "dev uf = device \<Longrightarrow> good (disk uf) \<Longrightarrow> length bs = 2 ^ log2_block_size device \<Longrightarrow> nblocks < 2 ^ 64 \<Longrightarrow>
    k = 0 \<or> unat b + k * unat (fat_size (bpb uf)) < nblocks \<Longrightarrow>
    \<exists>d st. mirror_loop k b bs uf = uf\<lparr>disk := d, ufat_stat := st\<rparr> \<and> good d \<and>
      (\<forall>c < nblocks. blocks d c =
        (if \<exists>j. 0 < j \<and> j \<le> k \<and> c = unat b + j * unat (fat_size (bpb uf)) then bs else blocks (disk uf) c))"
proof (induction k arbitrary: b uf)
  case 0
  then show ?case by (intro exI [of _ "disk uf"] exI [of _ "ufat_stat uf"]) simp
next
  case (Suc k)
  let ?fs = "unat (fat_size (bpb uf))" and ?b = "b + fat_size (bpb uf)"
  have le: "unat b + Suc k * ?fs < nblocks" using Suc.prems by simp
  then have b: "unat ?b = unat b + ?fs" using Suc.prems(4) by (intro unat_add_index) simp
  then have "unat ?b < nblocks" using le by simp
  then obtain d1 where d1: "dev_write device ?b 1 bs (disk uf) = (0, d1)" "good d1"
      "\<forall>c < nblocks. blocks d1 c = (if c = unat ?b then bs else blocks (disk uf) c)"
    using write_block [OF Suc.prems(2) _ Suc.prems(3)] by blast
  let ?uf = "count_write (uf\<lparr>disk := d1\<rparr>)"
  have room: "k = 0 \<or> unat ?b + k * unat (fat_size (bpb ?uf)) < nblocks" using le b by (simp add: count_write_def)
  have u: "dev ?uf = device" "good (disk ?uf)" "bpb ?uf = bpb uf" "disk ?uf = d1"
    using Suc.prems(1) d1(2) by (simp_all add: count_write_def)
  obtain d st where d: "mirror_loop k ?b bs ?uf = ?uf\<lparr>disk := d, ufat_stat := st\<rparr>" "good d"
      "\<forall>c < nblocks. blocks d c = (if \<exists>j. 0 < j \<and> j \<le> k \<and> c = unat ?b + j * ?fs then bs else blocks d1 c)"
    using Suc.IH [OF u(1,2) Suc.prems(3,4) room] unfolding u(3,4) by blast
  have "(\<exists>j. 0 < j \<and> j \<le> Suc k \<and> c = unat b + j * ?fs) \<longleftrightarrow>
      c = unat ?b \<or> (\<exists>j. 0 < j \<and> j \<le> k \<and> c = unat ?b + j * ?fs)" for c
  proof
    assume "\<exists>j. 0 < j \<and> j \<le> Suc k \<and> c = unat b + j * ?fs"
    then obtain j where "0 < j" "j \<le> Suc k" "c = unat b + j * ?fs" by auto
    then show "c = unat ?b \<or> (\<exists>j. 0 < j \<and> j \<le> k \<and> c = unat ?b + j * ?fs)"
      using b by (cases j; cases "j = 1") (auto intro!: exI [of _ "j - 1"])
  next
    assume "c = unat ?b \<or> (\<exists>j. 0 < j \<and> j \<le> k \<and> c = unat ?b + j * ?fs)"
    then show "\<exists>j. 0 < j \<and> j \<le> Suc k \<and> c = unat b + j * ?fs"
    proof
      assume "c = unat ?b"
      then show ?thesis using b by (intro exI [of _ 1]) simp
    next
      assume "\<exists>j. 0 < j \<and> j \<le> k \<and> c = unat ?b + j * ?fs"
      then obtain j where "j \<le> k" "c = unat ?b + j * ?fs" by auto
      then show ?thesis using b by (intro exI [of _ "Suc j"]) simp
    qed
  qed
  moreover have "mirror_loop (Suc k) b bs uf = uf\<lparr>disk := d, ufat_stat := st\<rparr>"
    using d(1) d1(1) Suc.prems(1) by (simp add: Let_def count_write_def)
  ultimately show ?case using d d1(3) by (intro exI [of _ d] exI [of _ st]) auto
qed

text \<open>The state after writing slot \<open>i\<close> back.\<close>

definition flushed :: "'d ufat \<Rightarrow> nat \<Rightarrow> 'd ufat \<Rightarrow> bool" where
  "flushed uf i uf' \<longleftrightarrow> (\<exists>d st. uf' = uf\<lparr>disk := d, ufat_stat := st,
       cache_desc := (cache_desc uf)[i := (cache_desc uf ! i)
         \<lparr>cache_flags := (if slot_dirty uf i then 2 else slot_flags uf i)\<rparr>]\<rparr> \<and> good d \<and>
     (\<forall>c < nblocks. blocks d c =
       (if slot_dirty uf i \<and> (c = slot_blk uf i \<or> mirrors (bpb uf) (slot_blk uf i) c)
        then slot_data uf i else blocks (disk uf) c)))"

lemma flag_simps:
  "f \<in> {0, 2, 3} \<Longrightarrow> f AND UFAT_CACHE_FLAG_DIRTY = 0 \<longleftrightarrow> f \<noteq> 3"
  "f \<in> {0, 2, 3} \<Longrightarrow> f AND UFAT_CACHE_FLAG_PRESENT = 0 \<longleftrightarrow> f = 0"
  by (auto simp: UFAT_CACHE_FLAG_DIRTY_def UFAT_CACHE_FLAG_PRESENT_def)

lemma slot_flag_iff:
  assumes "cache_ok uf" "i < cache_size uf"
  shows "slot_present uf i \<longleftrightarrow> slot_flags uf i \<noteq> 0" "slot_dirty uf i \<longleftrightarrow> slot_flags uf i = 3"
  using flag_simps [OF cache_ok_slot(1) [OF assms]] by (auto simp: slot_present_def slot_dirty_def)

lemma cache_flush_flushed:
  assumes c: "cache_ok uf" and i: "i < cache_size uf"
  shows "\<exists>uf'. cache_flush uf i = Inr (0, uf') \<and> flushed uf i uf'"
proof -
  note D = cache_okD [OF c]
  let ?d = "cache_desc uf ! i"
  have get: "aget (cache_desc uf) (int i) = Inr ?d" using i D by (simp add: aget_def)
  show ?thesis
  proof (cases "slot_dirty uf i")
    case False
    have "(cache_desc uf)[i := ?d\<lparr>cache_flags := slot_flags uf i\<rparr>] = cache_desc uf"
      by (simp add: slot_flags_def)
    then have "flushed uf i uf"
      using D(2) False by (auto simp: flushed_def intro!: exI [of _ "disk uf"] exI [of _ "ufat_stat uf"])
    moreover have "cache_flush uf i = Inr (0, uf)"
      using False get by (auto simp: cache_flush_def slot_dirty_def slot_present_def slot_flags_def)
    ultimately show ?thesis by blast
  next
    case True
    let ?b = "cache_index ?d" and ?bs = "slot_data uf i" and ?p = "bpb uf"
    have p: "slot_present uf i" using True by (simp add: slot_dirty_def)
    have b: "unat ?b < nblocks" using cache_ok_slot(2) [OF c i p] by (simp add: slot_blk_def)
    obtain d1 where d1: "dev_write device ?b 1 ?bs (disk uf) = (0, d1)" "good d1"
        "\<forall>k < nblocks. blocks d1 k = (if k = unat ?b then ?bs else blocks (disk uf) k)"
      using write_block [OF D(2) b length_slot_data [OF c i]] by blast
    define uf1 where "uf1 = count_write (uf\<lparr>disk := d1, ufat_stat := (ufat_stat uf)
        \<lparr>stat_cache_flush := stat_cache_flush (ufat_stat uf) + 1\<rparr>\<rparr>)"
    have g: "unat (fat_start ?p) + unat (fat_size ?p) < 2 ^ 64"
      using D(3) unfolding geometry_ok_def by linarith
    have fat: "?b \<ge> fat_start ?p \<and> ?b < fat_start ?p + fat_size ?p \<longleftrightarrow> in_fat ?p (slot_blk uf i)"
      using unat_add_index [OF g] by (simp add: in_fat_def slot_blk_def word_le_nat_alt word_less_nat_alt)
    obtain d st where m: "(if ?b \<ge> fat_start ?p \<and> ?b < fat_start ?p + fat_size ?p
         then mirror_loop (unat (fat_count ?p) - 1) ?b ?bs uf1 else uf1) = uf1\<lparr>disk := d, ufat_stat := st\<rparr>"
        "good d" "\<forall>k < nblocks. blocks d k = (if mirrors ?p (slot_blk uf i) k then ?bs else blocks d1 k)"
    proof (cases "in_fat ?p (slot_blk uf i)")
      case False
      then show thesis using that [of "ufat_stat uf1" d1] fat d1(2) by (auto simp: mirrors_def uf1_def count_write_def)
    next
      case True
      have u: "dev uf1 = device" "good (disk uf1)" "bpb uf1 = ?p" "disk uf1 = d1"
        using D(1) d1(2) by (simp_all add: uf1_def count_write_def)
      have room: "unat (fat_count ?p) - 1 = 0 \<or> unat ?b + (unat (fat_count ?p) - 1) * unat (fat_size (bpb uf1)) < nblocks"
      proof (cases "unat (fat_count ?p) - 1 = 0")
        case False
        then have "mirrors ?p (slot_blk uf i) (slot_blk uf i + (unat (fat_count ?p) - 1) * unat (fat_size ?p))"
          using True by (auto simp: mirrors_def intro!: exI [of _ "unat (fat_count ?p) - 1"])
        then show ?thesis using mirrors_bound [OF D(3)] u(3) by (simp add: slot_blk_def)
      qed simp
      have n: "nblocks < 2 ^ 64" using D(3) by (simp add: geometry_ok_def)
      have iff: "(\<exists>j. 0 < j \<and> j \<le> unat (fat_count ?p) - 1 \<and> k = unat ?b + j * unat (fat_size ?p)) \<longleftrightarrow>
          mirrors ?p (slot_blk uf i) k" for k
        using True by (auto simp: mirrors_def slot_blk_def)
      show thesis
        using mirror_loop_ok [OF u(1,2) length_slot_data [OF c i] n room] fat True that u iff by auto
    qed
    define ds where "ds = (cache_desc uf)[i := ?d\<lparr>cache_flags := 2\<rparr>]"
    have fl: "slot_flags uf i = 3" using slot_flag_iff(2) [OF c i] True by simp
    then have "cache_flags ?d AND NOT UFAT_CACHE_FLAG_DIRTY = 2"
      by (simp add: slot_flags_def UFAT_CACHE_FLAG_DIRTY_def)
    then have "set_desc (uf1\<lparr>disk := d, ufat_stat := st\<rparr>) i (\<lambda>d. d\<lparr>cache_flags := cache_flags d AND NOT UFAT_CACHE_FLAG_DIRTY\<rparr>) =
        Inr (uf1\<lparr>disk := d, ufat_stat := st, cache_desc := ds\<rparr>)"
      using i D by (subst set_desc_ok) (simp_all add: uf1_def count_write_def ds_def)
    then have "cache_flush uf i = Inr (0, uf1\<lparr>disk := d, ufat_stat := st, cache_desc := ds\<rparr>)"
      using cache_flush_dirty [OF get _ cache_block_slot [OF c i] _ uf1_def] fl d1(1) m(1) D(1)
      by (simp add: slot_flags_def)
    moreover have "uf1\<lparr>disk := d, ufat_stat := st, cache_desc := ds\<rparr> = uf\<lparr>disk := d, ufat_stat := st, cache_desc := ds\<rparr>"
      by (simp add: uf1_def count_write_def)
    ultimately show ?thesis
      using True m(2,3) d1(3) by (auto simp: flushed_def ds_def slot_blk_def)
  qed
qed

end

end
