(* ===== verification/Fat_Blocks.thy ===== *)
theory Fat_Blocks
  imports Fat_View
begin

text \<open>
  Opening a block, writing into its slot and writing the whole cache back, in terms of the disk as seen
  through the cache.
\<close>

lemma slot_after_desc:
  "i < length (cache_desc uf) \<Longrightarrow> slot_flags (uf\<lparr>cache_desc := (cache_desc uf)[i := d]\<rparr>) j =
    (if j = i then cache_flags d else slot_flags uf j)"
  "i < length (cache_desc uf) \<Longrightarrow> slot_blk (uf\<lparr>cache_desc := (cache_desc uf)[i := d]\<rparr>) j =
    (if j = i then unat (cache_index d) else slot_blk uf j)"
  by (auto simp: slot_flags_def slot_blk_def)

context block_device
begin

text \<open>What the operations of the cache keep.\<close>

definition keeps :: "'d ufat \<Rightarrow> 'd ufat \<Rightarrow> bool" where
  "keeps uf uf' \<longleftrightarrow> cache_ok uf' \<and> bpb uf' = bpb uf \<and> cache_size uf' = cache_size uf \<and> alloc_ptr uf' = alloc_ptr uf \<and>
     (\<forall>b < nblocks. \<not> is_mirror (bpb uf) b \<longrightarrow> view uf' b = view uf b) \<and> (fats_equal uf \<longrightarrow> fats_equal uf')"

lemma keeps_facts:
  assumes "keeps uf uf'"
  shows "cache_ok uf'" "bpb uf' = bpb uf" "cache_size uf' = cache_size uf" "alloc_ptr uf' = alloc_ptr uf"
    "b < nblocks \<Longrightarrow> \<not> is_mirror (bpb uf) b \<Longrightarrow> view uf' b = view uf b" "fats_equal uf \<Longrightarrow> fats_equal uf'"
  using assms unfolding keeps_def by blast+

lemma keeps_refl: "cache_ok uf \<Longrightarrow> keeps uf uf"
  by (simp add: keeps_def)

lemma keeps_trans: "keeps uf uf' \<Longrightarrow> keeps uf' uf'' \<Longrightarrow> keeps uf uf''"
  by (simp add: keeps_def)

text \<open>States that agree on the slots and the disk.\<close>

lemma same_slots:
  assumes "cache_ok uf" and "dev uf' = dev uf" "bpb uf' = bpb uf" "cache_size uf' = cache_size uf"
    "cache_data uf' = cache_data uf" "disk uf' = disk uf" "length (cache_desc uf') = length (cache_desc uf)"
    and "\<And>j. slot_flags uf' j = slot_flags uf j" "\<And>j. slot_blk uf' j = slot_blk uf j"
  shows "cache_ok uf'" "view uf' = view uf" "fats_equal uf' = fats_equal uf" "slot_data uf' = slot_data uf"
proof -
  have d: "slot_data uf' = slot_data uf"
    using assms(2,5) by (simp add: fun_eq_iff slot_data_def ufat_cache_data_def block_bytes_def)
  have p: "slot_present uf' = slot_present uf" "slot_dirty uf' = slot_dirty uf" "slot_blk uf' = slot_blk uf"
    "slot_flags uf' = slot_flags uf"
    using assms(8,9) by (simp_all add: fun_eq_iff slot_present_def slot_dirty_def)
  show "slot_data uf' = slot_data uf" by (fact d)
  show "cache_ok uf'" using assms(1) unfolding cache_ok_def block_bytes_def p d assms(2-7) .
  have "slot_of uf' = slot_of uf" by (simp add: fun_eq_iff slot_of_def p assms(4))
  then show "view uf' = view uf" by (auto simp: view_def d assms(6) split: option.splits)
  show "fats_equal uf' = fats_equal uf" by (simp add: fats_equal_def p assms(3,4,6))
qed

text \<open>Writing a slot back.\<close>

lemma flushed_slots:
  assumes c: "cache_ok uf" and i: "i < cache_size uf" and f: "flushed uf i uf'"
  shows "slot_present uf' j = slot_present uf j" "slot_dirty uf' j \<longleftrightarrow> slot_dirty uf j \<and> j \<noteq> i"
    "slot_blk uf' j = slot_blk uf j" "slot_data uf' j = slot_data uf j" "slot_flags uf' j \<in> {slot_flags uf j, 2}"
    "dev uf' = dev uf" "bpb uf' = bpb uf" "cache_size uf' = cache_size uf" "alloc_ptr uf' = alloc_ptr uf"
    "length (cache_desc uf') = length (cache_desc uf)" "length (cache_data uf') = length (cache_data uf)" "good (disk uf')"
    "c < nblocks \<Longrightarrow> blocks (disk uf') c =
       (if slot_dirty uf i \<and> (c = slot_blk uf i \<or> mirrors (bpb uf) (slot_blk uf i) c)
        then slot_data uf i else blocks (disk uf) c)"
proof -
  obtain d st where u: "uf' = uf\<lparr>disk := d, ufat_stat := st,
       cache_desc := (cache_desc uf)[i := (cache_desc uf ! i)\<lparr>cache_flags := (if slot_dirty uf i then 2 else slot_flags uf i)\<rparr>]\<rparr>"
    and g: "good d" and b: "\<forall>c < nblocks. blocks d c =
       (if slot_dirty uf i \<and> (c = slot_blk uf i \<or> mirrors (bpb uf) (slot_blk uf i) c) then slot_data uf i else blocks (disk uf) c)"
    using f unfolding flushed_def by blast
  have l: "i < length (cache_desc uf)" using i cache_okD [OF c] by linarith
  have fl: "slot_flags uf' j = (if j = i \<and> slot_dirty uf i then 2 else slot_flags uf j)" for j
    using l by (auto simp: u slot_flags_def)
  show "slot_blk uf' j = slot_blk uf j" using l by (cases "j = i") (simp_all add: u slot_blk_def)
  show "slot_present uf' j = slot_present uf j"
    using fl [of j] by (auto simp: slot_present_def slot_dirty_def UFAT_CACHE_FLAG_PRESENT_def)
  then show "slot_dirty uf' j \<longleftrightarrow> slot_dirty uf j \<and> j \<noteq> i"
    using fl [of j] by (auto simp: slot_dirty_def UFAT_CACHE_FLAG_DIRTY_def)
  show "slot_flags uf' j \<in> {slot_flags uf j, 2}" using fl [of j] by simp
  show "c < nblocks \<Longrightarrow> blocks (disk uf') c =
       (if slot_dirty uf i \<and> (c = slot_blk uf i \<or> mirrors (bpb uf) (slot_blk uf i) c)
        then slot_data uf i else blocks (disk uf) c)" using b by (simp add: u)
  show "good (disk uf')" using g by (simp add: u)
qed (use f in \<open>auto simp: flushed_def slot_data_def ufat_cache_data_def block_bytes_def\<close>)

lemma flushed_keeps:
  assumes c: "cache_ok uf" and i: "i < cache_size uf" and f: "flushed uf i uf'"
  shows "keeps uf uf'"
proof -
  note S = flushed_slots [OF c i f] and D = cache_okD [OF c]
  have ib: "slot_dirty uf i \<Longrightarrow> slot_blk uf i < nblocks \<and> \<not> is_mirror (bpb uf) (slot_blk uf i)"
    using cache_ok_slot(2,3) [OF c i] by (simp add: slot_dirty_def)
  have same: "b < nblocks \<Longrightarrow> \<not> is_mirror (bpb uf) b \<Longrightarrow> b \<noteq> slot_blk uf i \<Longrightarrow> blocks (disk uf') b = blocks (disk uf) b" for b
    using S(13) [of b] by (auto simp: is_mirror_def)
  have slot: "slot_flags uf' j \<in> {0, 2, 3} \<and> (slot_present uf' j \<longrightarrow> slot_blk uf' j < nblocks \<and>
      \<not> is_mirror (bpb uf') (slot_blk uf' j) \<and> (\<not> slot_dirty uf' j \<longrightarrow> slot_data uf' j = blocks (disk uf') (slot_blk uf' j)))"
    if j: "j < cache_size uf" for j
  proof (intro conjI impI)
    show "slot_flags uf' j \<in> {0, 2, 3}" using S(5) [of j] cache_ok_slot(1) [OF c j] by auto
    assume p: "slot_present uf' j"
    then have pj: "slot_present uf j" by (simp add: S)
    show b: "slot_blk uf' j < nblocks" and m: "\<not> is_mirror (bpb uf') (slot_blk uf' j)"
      using cache_ok_slot(2,3) [OF c j pj] by (simp_all add: S)
    assume d: "\<not> slot_dirty uf' j"
    show "slot_data uf' j = blocks (disk uf') (slot_blk uf' j)"
    proof (cases "slot_dirty uf j")
      case True
      then show ?thesis using d b S(13) [of "slot_blk uf j"] by (auto simp: S)
    next
      case False
      then have "slot_data uf j = blocks (disk uf) (slot_blk uf j)" by (rule cache_ok_slot(4) [OF c j pj])
      moreover have "slot_dirty uf i \<Longrightarrow> slot_blk uf i \<noteq> slot_blk uf j"
        using False cache_ok_slot(5) [OF c i j] pj by (auto simp: slot_dirty_def)
      ultimately show ?thesis using b m S(13) [of "slot_blk uf j"] by (auto simp: S is_mirror_def)
    qed
  qed
  have uniq: "slot_blk uf' j \<noteq> slot_blk uf' k"
    if "j < cache_size uf" "k < cache_size uf" "j \<noteq> k" "slot_present uf' j" "slot_present uf' k" for j k
    using cache_ok_slot(5) [OF c that(1,2)] that(3-5) by (auto simp: S)
  have ok: "cache_ok uf'"
    unfolding cache_ok_def using slot uniq D S(6-12) by (simp add: block_bytes_def)
  have of: "slot_of uf' = slot_of uf" by (simp add: fun_eq_iff slot_of_def S)
  have v: "view uf' b = view uf b" if b: "b < nblocks" "\<not> is_mirror (bpb uf) b" for b
  proof (cases "slot_of uf b")
    case None
    then have "slot_dirty uf i \<Longrightarrow> b \<noteq> slot_blk uf i" using i by (auto simp: slot_of_None slot_dirty_def)
    then show ?thesis using b None S(13) [of b] by (auto simp: view_def of is_mirror_def)
  qed (simp add: view_def of S)
  have e: "fats_equal uf'" if e: "fats_equal uf"
    unfolding fats_equal_def
  proof (intro allI impI)
    fix b m
    assume m: "mirrors (bpb uf') b m" and nd: "\<forall>j < cache_size uf'. slot_dirty uf' j \<longrightarrow> slot_blk uf' j \<noteq> b"
    have m': "mirrors (bpb uf) b m" using m by (simp add: S)
    have n: "m < nblocks" "b < nblocks" "\<not> is_mirror (bpb uf) b" "is_mirror (bpb uf) m"
      using mirrors_bound [OF D(3) m'] m' mirror_not_fat [of "bpb uf" b] D(3)
      by (auto simp: mirrors_def is_mirror_def in_fat_def geometry_ok_def)
    show "blocks (disk uf') m = blocks (disk uf') b"
    proof (cases "slot_dirty uf i \<and> slot_blk uf i = b")
      case True
      then show ?thesis using S(13) [OF n(1)] S(13) [OF n(2)] m' by simp
    next
      case False
      then have "\<forall>j < cache_size uf. slot_dirty uf j \<longrightarrow> slot_blk uf j \<noteq> b" using nd by (auto simp: S)
      then have "blocks (disk uf) m = blocks (disk uf) b" using e m' by (simp add: fats_equal_def)
      moreover have "slot_dirty uf i \<Longrightarrow> m \<noteq> slot_blk uf i \<and> \<not> mirrors (bpb uf) (slot_blk uf i) m"
        using ib n(4) mirrors_unique [OF m'] False by auto
      moreover have "slot_dirty uf i \<Longrightarrow> b \<noteq> slot_blk uf i \<and> \<not> mirrors (bpb uf) (slot_blk uf i) b"
        using False n(3) by (auto simp: is_mirror_def)
      ultimately show ?thesis using S(13) [OF n(1)] S(13) [OF n(2)] by auto
    qed
  qed
  show ?thesis unfolding keeps_def using ok v e by (simp add: S)
qed

text \<open>The scan: the slot of the block, a free slot, or the slot that was used longest ago.\<close>

definition slot_age :: "'d ufat \<Rightarrow> nat \<Rightarrow> u32" where
  "slot_age uf i = next_seq uf - cache_seq (cache_desc uf ! i)"

definition scan_ok :: "'d ufat \<Rightarrow> nat \<Rightarrow> cache_scan \<Rightarrow> bool" where
  "scan_ok uf b r = (case r of
     Cache_Hit i \<Rightarrow> i < cache_size uf \<and> slot_present uf i \<and> slot_blk uf i = b
   | Cache_Miss fr oldest \<Rightarrow> (\<forall>i < cache_size uf. slot_present uf i \<longrightarrow> slot_blk uf i \<noteq> b) \<and>
       (case fr of
          Some i \<Rightarrow> i < cache_size uf \<and> \<not> slot_present uf i
        | None \<Rightarrow> \<exists>i. oldest = Some i \<and> i < cache_size uf \<and> (\<forall>j < cache_size uf. slot_present uf j \<and> slot_age uf j \<le> slot_age uf i)))"

lemma cache_scan_ok:
  assumes "cache_ok uf"
  shows "i + k = cache_size uf \<Longrightarrow> (\<forall>j < i. slot_present uf j \<longrightarrow> slot_blk uf j \<noteq> unat blk) \<Longrightarrow>
    (case fr of Some f \<Rightarrow> f < i \<and> \<not> slot_present uf f | None \<Rightarrow> \<forall>j < i. slot_present uf j) \<Longrightarrow>
    (case oldest of Some l \<Rightarrow> l < i \<and> slot_age uf l = age \<and> (\<forall>j < i. slot_age uf j \<le> age) | None \<Rightarrow> i = 0) \<Longrightarrow>
    runs (cache_scan_loop k i blk fr oldest age uf) (scan_ok uf (unat blk))"
proof (induction k arbitrary: i fr oldest age)
  case 0
  then have "oldest \<noteq> None" using cache_okD(6) [OF assms] by (cases oldest) auto
  then show ?case using 0 by (auto simp: scan_ok_def intro!: runs_Inr split: option.splits)
next
  case (Suc k)
  have g: "aget (cache_desc uf) (int i) = Inr (cache_desc uf ! i)"
    using Suc.prems(1) cache_okD [OF assms] by (simp add: aget_def)
  let ?hit = "slot_present uf i \<and> slot_blk uf i = unat blk"
  have hit: "cache_flags (cache_desc uf ! i) AND UFAT_CACHE_FLAG_PRESENT \<noteq> 0 \<and> cache_index (cache_desc uf ! i) = blk \<longleftrightarrow> ?hit"
    by (simp add: slot_present_def slot_flags_def slot_blk_def word_unat_eq_iff)
  let ?fr = "if \<not> slot_present uf i then Some i else fr"
  have fr: "case ?fr of Some f \<Rightarrow> f < Suc i \<and> \<not> slot_present uf f | None \<Rightarrow> \<forall>j < Suc i. slot_present uf j"
    using Suc.prems(3) by (auto simp: less_Suc_eq split: option.splits)
  have absent: "\<not> ?hit \<Longrightarrow> \<forall>j < Suc i. slot_present uf j \<longrightarrow> slot_blk uf j \<noteq> unat blk"
    using Suc.prems(2) by (auto simp: less_Suc_eq)
  show ?case
  proof (cases ?hit)
    case True
    then show ?thesis using g hit Suc.prems(1) by (auto simp: scan_ok_def Let_def intro!: runs_Inr)
  next
    case False
    have step: "runs (cache_scan_loop k (Suc i) blk ?fr (Some i) (slot_age uf i) uf) (scan_ok uf (unat blk))"
      if "oldest = None \<or> slot_age uf i > age"
      using that Suc.prems(1,4) absent [OF False] fr
      by (intro Suc.IH) (auto simp: less_Suc_eq split: option.splits)
    have keep: "runs (cache_scan_loop k (Suc i) blk ?fr oldest age uf) (scan_ok uf (unat blk))"
      if "\<not> (oldest = None \<or> slot_age uf i > age)"
      using that Suc.prems(1,4) absent [OF False] fr
      by (intro Suc.IH) (auto simp: less_Suc_eq split: option.splits)
    have nh: "\<not> (cache_flags (cache_desc uf ! i) AND UFAT_CACHE_FLAG_PRESENT \<noteq> 0 \<and> cache_index (cache_desc uf ! i) = blk)"
      using hit False by blast
    have "cache_scan_loop (Suc k) i blk fr oldest age uf =
        (if oldest = None \<or> slot_age uf i > age then cache_scan_loop k (Suc i) blk ?fr (Some i) (slot_age uf i) uf
         else cache_scan_loop k (Suc i) blk ?fr oldest age uf)"
      unfolding cache_scan_loop.simps g rbind_Inr Let_def if_not_P [OF nh]
      by (simp add: slot_present_def slot_flags_def slot_age_def)
    then show ?thesis using step keep by simp
  qed
qed

text \<open>The slot that is used for a block that is not there, and the block read into it.\<close>

lemma cache_slot_ok:
  assumes c: "cache_ok uf" and s: "scan_ok uf b (Cache_Miss fr oldest)"
  obtains i uf' where "cache_slot fr oldest uf = Inr (int i, uf')" "i < cache_size uf'" "\<not> slot_dirty uf' i" "keeps uf uf'"
    "\<forall>j < cache_size uf'. slot_present uf' j \<longrightarrow> slot_blk uf' j \<noteq> b"
proof (cases fr)
  case (Some i)
  then show thesis using that [of i uf] keeps_refl [OF c] s
    by (auto simp: cache_slot_def scan_ok_def slot_dirty_def)
next
  case None
  then obtain i where i: "oldest = Some i" "i < cache_size uf" using s by (auto simp: scan_ok_def)
  obtain uf' where f: "cache_flush uf i = Inr (0, uf')" "flushed uf i uf'"
    using cache_flush_flushed [OF c i(2)] by blast
  note S = flushed_slots [OF c i(2) f(2)]
  have "\<forall>j < cache_size uf'. slot_present uf' j \<longrightarrow> slot_blk uf' j \<noteq> b" using s by (simp add: scan_ok_def S)
  moreover have "cache_slot fr oldest uf = Inr (int i, uf')" using f(1) i(1) None by (simp add: cache_slot_def)
  ultimately show thesis using that [of i uf'] i(2) flushed_keeps [OF c i(2) f(2)] by (simp add: S)
qed

text \<open>A slot whose descriptor and data are replaced.\<close>

definition replaced :: "'d ufat \<Rightarrow> nat \<Rightarrow> ufat_cache_desc \<Rightarrow> bytes \<Rightarrow> 'd ufat \<Rightarrow> bool" where
  "replaced uf i d bs uf' \<longleftrightarrow> dev uf' = dev uf \<and> bpb uf' = bpb uf \<and> cache_size uf' = cache_size uf \<and>
     alloc_ptr uf' = alloc_ptr uf \<and> cache_desc uf' = (cache_desc uf)[i := d] \<and>
     cache_data uf' = mem_splice (ufat_cache_data uf i) bs (cache_data uf)"

lemma replaced_slots:
  assumes c: "cache_ok uf" and i: "i < cache_size uf" and b: "length bs = 2 ^ log2_block_size device"
    and r: "replaced uf i d bs uf'"
  shows "slot_flags uf' j = (if j = i then cache_flags d else slot_flags uf j)"
    "slot_blk uf' j = (if j = i then unat (cache_index d) else slot_blk uf j)"
    "j < cache_size uf \<Longrightarrow> slot_data uf' j = (if j = i then bs else slot_data uf j)"
    "j \<noteq> i \<Longrightarrow> slot_present uf' j = slot_present uf j"
    "j \<noteq> i \<Longrightarrow> slot_dirty uf' j = slot_dirty uf j"
    "length (cache_desc uf') = 16" "length (cache_data uf') = 8192"
    "dev uf' = dev uf" "bpb uf' = bpb uf" "cache_size uf' = cache_size uf" "alloc_ptr uf' = alloc_ptr uf"
    "block_bytes uf' = block_bytes uf"
proof -
  note R = r [unfolded replaced_def] and D = cache_okD [OF c]
  have l: "i < length (cache_desc uf)" using i D by linarith
  show fl: "slot_flags uf' j = (if j = i then cache_flags d else slot_flags uf j)" for j
    using R l by (simp add: slot_flags_def)
  show "slot_blk uf' j = (if j = i then unat (cache_index d) else slot_blk uf j)"
    using R l by (simp add: slot_blk_def)
  show p: "slot_present uf' j = slot_present uf j" if "j \<noteq> i" for j using fl [of j] that by (simp add: slot_present_def)
  show "slot_dirty uf' j = slot_dirty uf j" if "j \<noteq> i" for j using fl [of j] p [OF that] that by (simp add: slot_dirty_def)
  show bb: "block_bytes uf' = block_bytes uf" using R by (simp add: block_bytes_def)
  have bl: "length bs = block_bytes uf" using b D by simp
  show "length (cache_desc uf') = 16" "length (cache_data uf') = 8192"
    using R D slot_bounds [OF c i] bl by simp_all
  show "slot_data uf' j = (if j = i then bs else slot_data uf j)" if j: "j < cache_size uf"
  proof (cases "j = i")
    case True
    then show ?thesis using R bb bl slot_bounds [OF c i] D
      by (simp add: slot_data_def ufat_cache_data_def mem_simps)
  next
    case False
    then have "Suc j \<le> i \<or> Suc i \<le> j" by linarith
    then have "Suc j * block_bytes uf \<le> i * block_bytes uf \<or> Suc i * block_bytes uf \<le> j * block_bytes uf"
      using mult_le_mono1 by blast
    then have "mem_slice (j * block_bytes uf) (block_bytes uf) (mem_splice (i * block_bytes uf) bs (cache_data uf)) =
        mem_slice (j * block_bytes uf) (block_bytes uf) (cache_data uf)"
      using slot_bounds [OF c i] slot_bounds [OF c j] bl D
      by (intro mem_slice_splice_disjoint) (auto simp: ufat_cache_data_def)
    then show ?thesis using False R bb by (simp add: slot_data_def ufat_cache_data_def)
  qed
qed (use r in \<open>simp_all add: replaced_def\<close>)

text \<open>What a replacement keeps: the data of the slot is what is seen of the block, or will be written to it.\<close>

lemma replaced_ok:
  assumes c: "cache_ok uf" and i: "i < cache_size uf" and b: "length bs = 2 ^ log2_block_size device"
    and r: "replaced uf i d bs uf'"
    and f: "cache_flags d \<in> {2, 3}" and k: "unat (cache_index d) < nblocks" "\<not> is_mirror (bpb uf) (unat (cache_index d))"
    and clean: "cache_flags d = 2 \<Longrightarrow> bs = blocks (disk uf) (unat (cache_index d))"
    and other: "\<And>j. j < cache_size uf \<Longrightarrow> j \<noteq> i \<Longrightarrow> slot_present uf j \<Longrightarrow> slot_blk uf j \<noteq> unat (cache_index d)"
    and dk: "good (disk uf')" "\<And>x. x < nblocks \<Longrightarrow> blocks (disk uf') x = blocks (disk uf) x"
  shows "cache_ok uf'" and "slot_dirty uf' i \<longleftrightarrow> cache_flags d = 3" and "slot_present uf' i"
proof -
  note R = replaced_slots [OF c i b r] and D = cache_okD [OF c]
  show p: "slot_present uf' i" using f R(1) by (auto simp: slot_present_def UFAT_CACHE_FLAG_PRESENT_def)
  then show dt: "slot_dirty uf' i \<longleftrightarrow> cache_flags d = 3"
    using f R(1) by (auto simp: slot_dirty_def UFAT_CACHE_FLAG_DIRTY_def)
  have slot: "slot_flags uf' j \<in> {0, 2, 3} \<and> (slot_present uf' j \<longrightarrow> slot_blk uf' j < nblocks \<and>
      \<not> is_mirror (bpb uf') (slot_blk uf' j) \<and> (\<not> slot_dirty uf' j \<longrightarrow> slot_data uf' j = blocks (disk uf') (slot_blk uf' j)))"
    if j: "j < cache_size uf" for j
  proof (cases "j = i")
    case True
    then show ?thesis using f k clean dk(2) [OF k(1)] dt R(1-3) [of i] R(9) i by auto
  next
    case False
    then show ?thesis using cache_ok_slot(1-4) [OF c j] R(1-5) [of j] R(9) j dk(2) by auto
  qed
  have uniq: "slot_blk uf' j \<noteq> slot_blk uf' l"
    if "j < cache_size uf" "l < cache_size uf" "j \<noteq> l" "slot_present uf' j" "slot_present uf' l" for j l
    using that other [of j] other [of l] R(2,4) [of j] R(2,4) [of l] cache_ok_slot(5) [OF c that(1,2)]
    by (cases "j = i"; cases "l = i") auto
  show "cache_ok uf'"
    unfolding cache_ok_def R(6-10,12) using slot uniq D dk(1) by (simp add: R(9))
qed

text \<open>States with the same blocks waiting to be written and the same disk.\<close>

lemma same_dirty:
  assumes c: "cache_ok uf" "cache_ok uf'" and n: "cache_size uf' = cache_size uf" "bpb uf' = bpb uf"
    and d: "\<And>j. j < cache_size uf \<Longrightarrow> slot_dirty uf' j = slot_dirty uf j"
    and s: "\<And>j. j < cache_size uf \<Longrightarrow> slot_dirty uf j \<Longrightarrow> slot_blk uf' j = slot_blk uf j \<and> slot_data uf' j = slot_data uf j"
    and k: "\<And>x. x < nblocks \<Longrightarrow> blocks (disk uf') x = blocks (disk uf) x"
  shows "x < nblocks \<Longrightarrow> view uf' x = view uf x" and "fats_equal uf' = fats_equal uf"
proof -
  show "view uf' x = view uf x" if x: "x < nblocks"
  proof (cases "\<exists>j < cache_size uf. slot_dirty uf j \<and> slot_blk uf j = x")
    case True
    then obtain j where j: "j < cache_size uf" "slot_dirty uf j" "slot_blk uf j = x" by blast
    then have "view uf x = slot_data uf j" using view_present [OF c(1) j(1)] by (auto simp: slot_dirty_def)
    moreover have "view uf' x = slot_data uf' j"
      using view_present [OF c(2), of j] j n s [OF j(1,2)] d [OF j(1)] by (auto simp: slot_dirty_def)
    ultimately show ?thesis using s [OF j(1,2)] by simp
  next
    case False
    then have "view uf x = blocks (disk uf) x" by (intro view_clean [OF c(1)]) blast
    moreover have "view uf' x = blocks (disk uf') x" using False d s n by (intro view_clean [OF c(2)]) auto
    ultimately show ?thesis using k x by simp
  qed
  have w: "(\<forall>j < cache_size uf. slot_dirty uf' j \<longrightarrow> slot_blk uf' j \<noteq> b) \<longleftrightarrow> (\<forall>j < cache_size uf. slot_dirty uf j \<longrightarrow> slot_blk uf j \<noteq> b)" for b
    using d s by auto
  have m: "b < nblocks \<and> c < nblocks" if "mirrors (bpb uf) b c" for b c
    using that mirrors_bound [OF cache_okD(3) [OF c(1)] that] cache_okD(3) [OF c(1)]
    by (auto simp: mirrors_def in_fat_def geometry_ok_def)
  have "mirrors (bpb uf) b c \<Longrightarrow> blocks (disk uf') c = blocks (disk uf') b \<longleftrightarrow> blocks (disk uf) c = blocks (disk uf) b" for b c
    using m k by simp
  then show "fats_equal uf' = fats_equal uf"
    unfolding fats_equal_def n w by blast
qed

lemma cache_fill_replaced:
  assumes c: "cache_ok uf" and i: "i < cache_size uf" and b: "unat blk < nblocks"
  obtains uf' where "cache_fill i blk False uf = Inr (int i, uf')" "good (disk uf')"
    "replaced uf i \<lparr>cache_flags = 2, cache_seq = next_seq uf, cache_index = blk\<rparr> (blocks (disk uf) (unat blk)) uf'"
    "\<forall>x < nblocks. blocks (disk uf') x = blocks (disk uf) x"
proof -
  note D = cache_okD [OF c]
  obtain dk where dk: "dev_read device blk 1 (slot_data uf i) (disk uf) = (0, blocks (disk uf) (unat blk), dk)" "good dk"
      "\<forall>x < nblocks. blocks dk x = blocks (disk uf) x"
    using read_block [OF D(2) b length_slot_data [OF c i]] by blast
  have len: "ufat_cache_data uf i + length (blocks (disk uf) (unat blk)) \<le> length (cache_data uf)"
    using slot_bounds [OF c i] D length_block [OF D(2) b] by simp
  have l: "i < length (cache_desc uf)" using i D by linarith
  show thesis
    using that dk len l D(1)
    by (simp add: cache_fill_def cache_block_slot [OF c i] Let_def set_desc_ok replaced_def UFAT_CACHE_FLAG_PRESENT_def)
qed

text \<open>Opening a block: its slot holds the block as it is seen, and nothing that is seen changes.\<close>

lemma cache_open_ok:
  assumes c: "cache_ok uf" and b: "unat blk < nblocks" "\<not> is_mirror (bpb uf) (unat blk)"
  obtains i uf' where "ufat_cache_open uf blk False = Inr (int i, uf')" "i < cache_size uf'" "slot_present uf' i"
    "slot_blk uf' i = unat blk" "slot_data uf' i = view uf (unat blk)" "keeps uf uf'"
proof -
  have "runs (cache_scan_loop (cache_size uf) 0 blk None None 0 uf) (scan_ok uf (unat blk))"
    by (rule cache_scan_ok [OF c]) simp_all
  then obtain r where r: "cache_scan_loop (cache_size uf) 0 blk None None 0 uf = Inr r" "scan_ok uf (unat blk) r"
    by (auto simp: runs_def)
  show thesis
  proof (cases r)
    case (Cache_Hit i)
    then have h: "i < cache_size uf" "slot_present uf i" "slot_blk uf i = unat blk" using r(2) by (simp_all add: scan_ok_def)
    have l: "i < length (cache_desc uf)" using h cache_okD [OF c] by linarith
    define uf' where "uf' = uf\<lparr>cache_desc := (cache_desc uf)[i := (cache_desc uf ! i)\<lparr>cache_seq := next_seq uf\<rparr>],
      next_seq := next_seq uf + 1, ufat_stat := (ufat_stat uf)\<lparr>stat_cache_hit := stat_cache_hit (ufat_stat uf) + 1\<rparr>\<rparr>"
    have o: "ufat_cache_open uf blk False = Inr (int i, uf')"
      using l r(1) Cache_Hit by (simp add: ufat_cache_open_def set_desc_ok uf'_def)
    have f: "slot_flags uf' j = slot_flags uf j" "slot_blk uf' j = slot_blk uf j" for j
      using l by (cases "j = i"; simp add: uf'_def slot_flags_def slot_blk_def)+
    have p: "slot_present uf' i" using h f by (simp add: slot_present_def)
    have u: "dev uf' = dev uf" "bpb uf' = bpb uf" "cache_size uf' = cache_size uf" "cache_data uf' = cache_data uf"
        "disk uf' = disk uf" "length (cache_desc uf') = length (cache_desc uf)" "alloc_ptr uf' = alloc_ptr uf"
      by (simp_all add: uf'_def)
    note S = same_slots [OF c u(1-6) f]
    show thesis
      using that [OF o _ p] h f S u(2,3,7) view_present [OF c h(1,2)] by (simp add: keeps_def)
  next
    case (Cache_Miss fr oldest)
    obtain i uf1 where s: "cache_slot fr oldest uf = Inr (int i, uf1)" "i < cache_size uf1" "\<not> slot_dirty uf1 i" "keeps uf uf1"
        "\<forall>j < cache_size uf1. slot_present uf1 j \<longrightarrow> slot_blk uf1 j \<noteq> unat blk"
      using cache_slot_ok [OF c] r(2) Cache_Miss by blast
    note K = keeps_facts [OF s(4)]
    obtain uf2 where f: "cache_fill i blk False uf1 = Inr (int i, uf2)" "good (disk uf2)"
        "replaced uf1 i \<lparr>cache_flags = 2, cache_seq = next_seq uf1, cache_index = blk\<rparr> (blocks (disk uf1) (unat blk)) uf2"
        "\<forall>x < nblocks. blocks (disk uf2) x = blocks (disk uf1) x"
      using cache_fill_replaced [OF K(1) s(2) b(1)] by blast
    have len: "length (blocks (disk uf1) (unat blk)) = 2 ^ log2_block_size device"
      using length_block cache_okD(2) [OF K(1)] b(1) by blast
    note R = replaced_slots [OF K(1) s(2) len f(3)]
    have ok: "cache_ok uf2" "\<not> slot_dirty uf2 i" "slot_present uf2 i"
      using replaced_ok [OF K(1) s(2) len f(3)] f(2,4) b s(5) K(2) by simp_all
    have v: "view uf1 (unat blk) = blocks (disk uf1) (unat blk)" using s(5) by (rule view_absent)
    have same: "x < nblocks \<Longrightarrow> view uf2 x = view uf1 x" "fats_equal uf2 = fats_equal uf1" for x
      using same_dirty [OF K(1) ok(1)] R ok(2) s(3) f(4) by (metis (no_types, lifting))+
    have "ufat_cache_open uf blk False = Inr (int i, uf2)"
      using r(1) Cache_Miss s(1) f(1) by (simp add: ufat_cache_open_def)
    moreover have "slot_data uf2 i = view uf (unat blk)" using R(3) [OF s(2)] v K(5) [OF b] by simp
    moreover have "keeps uf uf2" using K ok(1) same R by (auto simp: keeps_def)
    ultimately show thesis using that [of i uf2] R s(2) ok(3) by simp
  qed
qed

end

end
