(* ===== verification/Fat_Sync.thy ===== *)
theory Fat_Sync
  imports Fat_Blocks
begin

text \<open>Writing into a slot and writing the cache back, in terms of the disk as seen through the cache.\<close>

lemma slice_of_splice:
  assumes "r + length xs \<le> n" and "off + n \<le> length m"
  shows "mem_splice (off + r) xs m = mem_splice off (mem_splice r xs (mem_slice off n m)) m"
  using assms by (intro nth_equalityI) (auto simp: nth_mem_splice nth_mem_slice)

lemma slice_slice: "r + k \<le> n \<Longrightarrow> off + n \<le> length m \<Longrightarrow> mem_slice r k (mem_slice off n m) = mem_slice (off + r) k m"
  by (intro nth_equalityI) (auto simp: nth_mem_slice add.assoc)

context block_device
begin

definition written :: "'d ufat \<Rightarrow> nat \<Rightarrow> bytes \<Rightarrow> 'd ufat \<Rightarrow> bool" where
  "written uf b bs uf' \<longleftrightarrow> cache_ok uf' \<and> bpb uf' = bpb uf \<and> cache_size uf' = cache_size uf \<and> alloc_ptr uf' = alloc_ptr uf \<and>
     (\<forall>x < nblocks. \<not> is_mirror (bpb uf) x \<longrightarrow> view uf' x = (if x = b then bs else view uf x)) \<and>
     (fats_equal uf \<longrightarrow> fats_equal uf')"

lemma writtenD:
  assumes "written uf b bs uf'"
  shows "cache_ok uf'" "bpb uf' = bpb uf" "cache_size uf' = cache_size uf" "alloc_ptr uf' = alloc_ptr uf"
    "x < nblocks \<Longrightarrow> \<not> is_mirror (bpb uf) x \<Longrightarrow> view uf' x = (if x = b then bs else view uf x)"
    "fats_equal uf \<Longrightarrow> fats_equal uf'"
  using assms unfolding written_def by blast+

lemma replaced_written:
  assumes c: "cache_ok uf" and i: "i < cache_size uf" and p: "slot_present uf i"
    and b: "length bs = 2 ^ log2_block_size device"
    and r: "replaced uf i d bs uf'" and dk: "disk uf' = disk uf"
    and d: "cache_flags d = 3" "unat (cache_index d) = slot_blk uf i"
  shows "written uf (slot_blk uf i) bs uf'" and "slot_present uf' i"
proof -
  note R = replaced_slots [OF c i b r]
  have other: "j < cache_size uf \<Longrightarrow> j \<noteq> i \<Longrightarrow> slot_present uf j \<Longrightarrow> slot_blk uf j \<noteq> unat (cache_index d)" for j
    using cache_ok_slot(5) [OF c i, of j] p d(2) by auto
  have ok: "cache_ok uf'" "slot_dirty uf' i" "slot_present uf' i"
    using replaced_ok [OF c i b r] cache_ok_slot(2,3) [OF c i p] d other dk cache_okD(2) [OF c] by simp_all
  show "slot_present uf' i" by (fact ok)
  have v: "view uf' x = (if x = slot_blk uf i then bs else view uf x)" for x
  proof (cases "\<exists>j < cache_size uf. slot_present uf' j \<and> slot_blk uf' j = x")
    case True
    then obtain j where j: "j < cache_size uf" "slot_present uf' j" "slot_blk uf' j = x" by blast
    then have v: "view uf' x = slot_data uf' j" using view_present [OF ok(1), of j] R(10) by simp
    show ?thesis
    proof (cases "j = i")
      case True
      then show ?thesis using v j R(2,3) [of i] d(2) i by simp
    next
      case False
      then have "view uf x = slot_data uf j" using j R(2,4) view_present [OF c j(1)] by simp
      moreover have "x \<noteq> slot_blk uf i" using False j R(2,4) other [OF j(1) False] d(2) by simp
      ultimately show ?thesis using v R(3) [OF j(1)] False by simp
    qed
  next
    case False
    then have "x \<noteq> slot_blk uf i" using ok(3) i R(2) [of i] d(2) by auto
    moreover have "view uf x = blocks (disk uf) x" using False R(2,4) p calculation by (intro view_absent) metis
    moreover have "view uf' x = blocks (disk uf') x" using False R(10) by (intro view_absent) simp
    ultimately show ?thesis using dk by simp
  qed
  have "fats_equal uf'" if e: "fats_equal uf"
    unfolding fats_equal_def
  proof (intro allI impI)
    fix b m
    assume m: "mirrors (bpb uf') b m" and nd: "\<forall>j < cache_size uf'. slot_dirty uf' j \<longrightarrow> slot_blk uf' j \<noteq> b"
    have "slot_dirty uf j \<longrightarrow> slot_blk uf j \<noteq> b" if j: "j < cache_size uf" for j
      using nd j R(10) R(2,5) [of j] R(2) [of i] ok(2) i d(2) by (cases "j = i") auto
    then have "blocks (disk uf) m = blocks (disk uf) b" using e m R(9) by (simp add: fats_equal_def)
    then show "blocks (disk uf') m = blocks (disk uf') b" using dk by simp
  qed
  then show "written uf (slot_blk uf i) bs uf'" using ok(1) v R(9-11) by (simp add: written_def)
qed

lemma slot_load_ok:
  "cache_ok uf \<Longrightarrow> i < cache_size uf \<Longrightarrow> r + n \<le> 2 ^ log2_block_size device \<Longrightarrow>
    slot_load uf i r n = Inr (mem_slice r n (slot_data uf i))"
proof -
  assume c: "cache_ok uf" and i: "i < cache_size uf" and r: "r + n \<le> 2 ^ log2_block_size device"
  have "ufat_cache_data uf i + r + n \<le> length (cache_data uf)" using slot_bounds [OF c i] cache_okD [OF c] r by linarith
  moreover have "mem_slice r n (slot_data uf i) = mem_slice (ufat_cache_data uf i + r) n (cache_data uf)"
    unfolding slot_data_def using slot_bounds [OF c i] cache_okD [OF c] r by (intro slice_slice) simp_all
  ultimately show ?thesis by (simp add: slot_load_def)
qed

text \<open>Marking a slot to be written and storing into it changes the block that is seen.\<close>

lemma cache_write_ok:
  assumes c: "cache_ok uf" and i: "i < cache_size uf" and p: "slot_present uf i"
  obtains uf' where "ufat_cache_write uf i = Inr uf'" "keeps uf uf'" "slot_dirty uf' i" "slot_blk uf' i = slot_blk uf i"
    "slot_data uf' i = slot_data uf i"
proof -
  note D = cache_okD [OF c]
  let ?d = "(cache_desc uf ! i)\<lparr>cache_flags := cache_flags (cache_desc uf ! i) OR UFAT_CACHE_FLAG_DIRTY\<rparr>"
  have l: "i < length (cache_desc uf)" using i D by linarith
  have fl: "cache_flags ?d = 3"
    using cache_ok_slot(1) [OF c i] slot_flag_iff(1) [OF c i] p by (auto simp: slot_flags_def UFAT_CACHE_FLAG_DIRTY_def)
  have len: "length (slot_data uf i) = 2 ^ log2_block_size device" by (rule length_slot_data [OF c i])
  define uf' where "uf' = uf\<lparr>ufat_stat := (ufat_stat uf)\<lparr>stat_cache_write := stat_cache_write (ufat_stat uf) + 1\<rparr>,
    cache_desc := (cache_desc uf)[i := ?d]\<rparr>"
  have w: "ufat_cache_write uf i = Inr uf'" using l by (simp add: ufat_cache_write_def set_desc_ok uf'_def)
  have "mem_splice (ufat_cache_data uf i) (slot_data uf i) (cache_data uf) = cache_data uf"
    using slot_bounds [OF c i] D by (simp add: slot_data_def mem_splice_slice_id)
  then have r: "replaced uf i ?d (slot_data uf i) uf'" and dk: "disk uf' = disk uf" by (simp_all add: replaced_def uf'_def)
  note W = replaced_written [OF c i p len r dk fl]
  note R = replaced_slots [OF c i len r]
  have s: "slot_blk uf' i = slot_blk uf i" "slot_data uf' i = slot_data uf i" using R(2,3) [of i] i by (simp_all add: slot_blk_def)
  have w1: "written uf (slot_blk uf i) (slot_data uf i) uf'" "slot_present uf' i" using W by (simp_all add: slot_blk_def)
  have "slot_dirty uf' i" using w1(2) R(1) [of i] fl by (simp add: slot_dirty_def UFAT_CACHE_FLAG_DIRTY_def)
  moreover have "keeps uf uf'"
    using writtenD [OF w1(1)] view_present [OF c i p] unfolding keeps_def by auto
  ultimately show thesis using that w s by blast
qed

lemma slot_store_ok:
  assumes c: "cache_ok uf" and i: "i < cache_size uf" and d: "slot_dirty uf i"
    and x: "r + length xs \<le> 2 ^ log2_block_size device"
  obtains uf' where "slot_store uf i r xs = Inr uf'" "written uf (slot_blk uf i) (mem_splice r xs (slot_data uf i)) uf'"
proof -
  note D = cache_okD [OF c]
  let ?o = "ufat_cache_data uf i"
  have p: "slot_present uf i" using d by (simp add: slot_dirty_def)
  have fl: "cache_flags (cache_desc uf ! i) = 3" using slot_flag_iff(2) [OF c i] d by (simp add: slot_flags_def)
  have b: "?o + r + length xs \<le> length (cache_data uf)" using slot_bounds [OF c i] D x by linarith
  have len: "length (mem_splice r xs (slot_data uf i)) = 2 ^ log2_block_size device"
    using length_slot_data [OF c i] x by simp
  define uf' where "uf' = uf\<lparr>cache_data := mem_splice (?o + r) xs (cache_data uf)\<rparr>"
  have "mem_splice (?o + r) xs (cache_data uf) = mem_splice ?o (mem_splice r xs (slot_data uf i)) (cache_data uf)"
    unfolding slot_data_def using slot_bounds [OF c i] D x by (intro slice_of_splice) simp_all
  then have r: "replaced uf i (cache_desc uf ! i) (mem_splice r xs (slot_data uf i)) uf'" and dk: "disk uf' = disk uf"
    by (simp_all add: replaced_def uf'_def)
  have "slot_store uf i r xs = Inr uf'" using b by (simp add: slot_store_def uf'_def)
  then show thesis using that replaced_written [OF c i p len r dk fl] by (simp add: slot_blk_def)
qed

text \<open>Writing everything back: the disk is what was seen, and every copy of the FAT is like the first.\<close>

lemma sync_loop_ok:
  "cache_ok uf \<Longrightarrow> i + k = cache_size uf \<Longrightarrow> \<forall>j < i. \<not> slot_dirty uf j \<Longrightarrow>
    \<exists>uf'. sync_loop k i ret uf = Inr (ret, uf') \<and> keeps uf uf' \<and> (\<forall>j < cache_size uf. \<not> slot_dirty uf' j)"
proof (induction k arbitrary: i uf)
  case 0
  then show ?case using keeps_refl by (intro exI [of _ uf]) simp
next
  case (Suc k)
  have i: "i < cache_size uf" using Suc.prems(2) by simp
  obtain uf1 where f: "cache_flush uf i = Inr (0, uf1)" "flushed uf i uf1" using cache_flush_flushed [OF Suc.prems(1) i] by blast
  note S = flushed_slots [OF Suc.prems(1) i f(2)] and K = flushed_keeps [OF Suc.prems(1) i f(2)]
  have "\<forall>j < Suc i. \<not> slot_dirty uf1 j" using Suc.prems(3) S(2) by (auto simp: less_Suc_eq)
  then obtain uf' where "sync_loop k (Suc i) ret uf1 = Inr (ret, uf')" "keeps uf1 uf'" "\<forall>j < cache_size uf1. \<not> slot_dirty uf' j"
    using Suc.IH [of uf1 "Suc i"] keeps_facts(1) [OF K] Suc.prems(2) S(8) by auto
  then show ?case using f(1) keeps_trans [OF K] S(8) by auto
qed

lemma sync_ok:
  assumes c: "cache_ok uf"
  obtains uf' where "ufat_sync uf = Inr (0, uf')" "keeps uf uf'"
    "\<forall>b < nblocks. \<not> is_mirror (bpb uf) b \<longrightarrow> blocks (disk uf') b = view uf b"
    "fats_equal uf \<longrightarrow> (\<forall>b c. mirrors (bpb uf) b c \<longrightarrow> blocks (disk uf') c = blocks (disk uf') b)"
proof -
  obtain uf' where s: "sync_loop (cache_size uf) 0 0 uf = Inr (0, uf')" "keeps uf uf'" "\<forall>j < cache_size uf. \<not> slot_dirty uf' j"
    using sync_loop_ok [OF c, of 0 "cache_size uf" 0] by auto
  note K = keeps_facts [OF s(2)]
  have "view uf' b = blocks (disk uf') b" for b using view_clean [OF K(1)] s(3) K(3) by simp
  then show thesis
    using that [of uf'] s K by (simp add: ufat_sync_def fats_equal_def)
qed

end

text \<open>Evicting a range of blocks: what is dirty in it is written first, so that nothing that is seen changes.\<close>

definition in_range :: "u64 \<Rightarrow> u64 \<Rightarrow> ufat_cache_desc \<Rightarrow> bool" where
  "in_range start count d \<longleftrightarrow> cache_index d \<ge> start \<and> cache_index d < start + count"

definition dropped :: "'d ufat \<Rightarrow> nat \<Rightarrow> 'd ufat" where
  "dropped uf i = uf\<lparr>cache_desc := (cache_desc uf)[i := (cache_desc uf ! i)\<lparr>cache_flags := 0\<rparr>]\<rparr>"

context block_device
begin

lemma dropped_slots:
  assumes "i < length (cache_desc uf)"
  shows "slot_flags (dropped uf i) j = (if j = i then 0 else slot_flags uf j)" "slot_blk (dropped uf i) j = slot_blk uf j"
    "slot_data (dropped uf i) j = slot_data uf j" "slot_present (dropped uf i) j \<longleftrightarrow> j \<noteq> i \<and> slot_present uf j"
    "slot_dirty (dropped uf i) j \<longleftrightarrow> j \<noteq> i \<and> slot_dirty uf j"
proof -
  show f: "slot_flags (dropped uf i) j = (if j = i then 0 else slot_flags uf j)" using assms by (simp add: dropped_def slot_flags_def)
  show "slot_blk (dropped uf i) j = slot_blk uf j" using assms by (cases "j = i") (simp_all add: dropped_def slot_blk_def)
  show "slot_data (dropped uf i) j = slot_data uf j" by (simp add: dropped_def slot_data_def ufat_cache_data_def block_bytes_def)
  show p: "slot_present (dropped uf i) j \<longleftrightarrow> j \<noteq> i \<and> slot_present uf j" unfolding slot_present_def f by simp
  show "slot_dirty (dropped uf i) j \<longleftrightarrow> j \<noteq> i \<and> slot_dirty uf j" unfolding slot_dirty_def f p by auto
qed

lemma dropped_keeps:
  assumes c: "cache_ok uf" and i: "i < cache_size uf" and d: "\<not> slot_dirty uf i"
  shows "keeps uf (dropped uf i)"
proof -
  note D = cache_okD [OF c]
  have l: "i < length (cache_desc uf)" using i D by linarith
  note S = dropped_slots [OF l]
  have same: "dev (dropped uf i) = dev uf" "bpb (dropped uf i) = bpb uf" "cache_size (dropped uf i) = cache_size uf"
    "alloc_ptr (dropped uf i) = alloc_ptr uf" "disk (dropped uf i) = disk uf" "length (cache_desc (dropped uf i)) = length (cache_desc uf)"
    "cache_data (dropped uf i) = cache_data uf" "block_bytes (dropped uf i) = block_bytes uf"
    by (simp_all add: dropped_def block_bytes_def)
  have ok: "cache_ok (dropped uf i)"
    unfolding cache_ok_def same S using c by (auto simp: cache_ok_def)
  have "slot_dirty (dropped uf i) j = slot_dirty uf j" for j using S(5) d by auto
  then show ?thesis
    using same_dirty [OF c ok same(3,2)] S(2,3) ok same by (simp add: keeps_def)
qed

lemma evict_loop_ok:
  "cache_ok uf \<Longrightarrow> i + k = cache_size uf \<Longrightarrow>
    \<exists>uf'. evict_loop k i start count uf = Inr (0, uf') \<and> keeps uf uf' \<and> (\<forall>j < i. cache_desc uf' ! j = cache_desc uf ! j) \<and>
      (\<forall>j. i \<le> j \<longrightarrow> j < cache_size uf \<longrightarrow> slot_present uf' j \<longrightarrow> \<not> in_range start count (cache_desc uf' ! j))"
proof (induction k arbitrary: i uf)
  case 0
  then show ?case using keeps_refl by (intro exI [of _ uf]) simp
next
  case (Suc k)
  have i: "i < cache_size uf" using Suc.prems(2) by simp
  have g: "aget (cache_desc uf) (int i) = Inr (cache_desc uf ! i)"
    using i cache_okD [OF Suc.prems(1)] by (simp add: aget_def)
  let ?hit = "slot_present uf i \<and> in_range start count (cache_desc uf ! i)"
  have go_on: ?case
    if u1: "keeps uf u1" "\<forall>j < i. cache_desc u1 ! j = cache_desc uf ! j"
      and e: "evict_loop (Suc k) i start count uf = evict_loop k (Suc i) start count u1"
      and n: "slot_present u1 i \<longrightarrow> \<not> in_range start count (cache_desc u1 ! i)" for u1
  proof -
    note K = keeps_facts [OF u1(1)]
    have "Suc i + k = cache_size u1" using Suc.prems(2) K(3) by simp
    then obtain uf' where r: "evict_loop k (Suc i) start count u1 = Inr (0, uf')" "keeps u1 uf'"
        "\<forall>j < Suc i. cache_desc uf' ! j = cache_desc u1 ! j"
        "\<forall>j. Suc i \<le> j \<longrightarrow> j < cache_size u1 \<longrightarrow> slot_present uf' j \<longrightarrow> \<not> in_range start count (cache_desc uf' ! j)"
      using Suc.IH [OF K(1)] by blast
    have "slot_present uf' i = slot_present u1 i" using r(3) by (simp add: slot_present_def slot_flags_def)
    then have "slot_present uf' j \<longrightarrow> \<not> in_range start count (cache_desc uf' ! j)" if "i \<le> j" "j < cache_size uf" for j
      using that r(3,4) n K(3) by (cases "j = i") auto
    moreover have "\<forall>j < i. cache_desc uf' ! j = cache_desc uf ! j" using r(3) u1(2) by simp
    ultimately show ?thesis using r(1) keeps_trans [OF u1(1) r(2)] e by (intro exI [of _ uf']) simp
  qed
  show ?case
  proof (cases ?hit)
    case False
    then have "evict_loop (Suc k) i start count uf = evict_loop k (Suc i) start count uf"
      using g by (auto simp: slot_present_def slot_flags_def in_range_def)
    then show ?thesis using go_on [OF keeps_refl [OF Suc.prems(1)]] False by blast
  next
    case True
    obtain u1 where f: "cache_flush uf i = Inr (0, u1)" "flushed uf i u1" using cache_flush_flushed [OF Suc.prems(1) i] by blast
    note S = flushed_slots [OF Suc.prems(1) i f(2)] and K1 = flushed_keeps [OF Suc.prems(1) i f(2)]
    note K = keeps_facts [OF K1]
    have i1: "i < cache_size u1" and l1: "i < length (cache_desc u1)" using i K(3) cache_okD [OF K(1)] by simp_all
    have "\<not> slot_dirty u1 i" using S(2) by blast
    then have k2: "keeps uf (dropped u1 i)" by (rule keeps_trans [OF K1 dropped_keeps [OF K(1) i1]])
    have "set_desc u1 i (\<lambda>d. d\<lparr>cache_flags := 0\<rparr>) = Inr (dropped u1 i)" using l1 by (simp add: set_desc_ok dropped_def)
    then have e: "evict_loop (Suc k) i start count uf = evict_loop k (Suc i) start count (dropped u1 i)"
      using True g f(1) by (simp add: slot_present_def slot_flags_def in_range_def)
    have "\<forall>j < i. cache_desc (dropped u1 i) ! j = cache_desc uf ! j" using f(2) by (auto simp: dropped_def flushed_def)
    then show ?thesis using go_on [OF k2 _ e] dropped_slots(4) [OF l1, of i] by blast
  qed
qed

lemma evict_ok:
  assumes "cache_ok uf"
  obtains uf' where "ufat_cache_evict uf start count = Inr (0, uf')" "keeps uf uf'"
    "\<forall>j < cache_size uf. slot_present uf' j \<longrightarrow> \<not> in_range start count (cache_desc uf' ! j)"
  using evict_loop_ok [OF assms, of 0 "cache_size uf" start count] that unfolding ufat_cache_evict_def by auto

end

end
