(* ===== verification/Fat_Entry.thy ===== *)
theory Fat_Entry
  imports Fat_Sync Fat_Table
begin

text \<open>
  The table as an array: its bytes as seen through the cache, the entry of a cluster, and reading and writing
  entries as reading and updating that array.
\<close>

section \<open>Offsets\<close>

lemma unat_offset_block: "unat (offset_block s x) = unat x div 2 ^ s"
proof -
  have "unat x < 2 ^ 32" using unsigned_less [of x] by simp
  then have "unat x div 2 ^ s < 2 ^ 64" by (intro le_less_trans [OF div_le_dividend]) simp
  then have "take_bit 64 (unat x div 2 ^ s) = unat x div 2 ^ s" by (simp add: take_bit_nat_eq_self)
  then show ?thesis unfolding offset_block_def unsigned_ucast_eq unat_drop_bit_eq by (simp add: drop_bit_eq_div)
qed

lemma offset_rest_mod: "offset_rest s x = unat x mod 2 ^ s"
proof -
  have "push_bit s 1 - 1 = (mask s :: u32)" by (simp add: mask_eq_exp_minus_1 push_bit_of_1)
  then have h: "x AND (push_bit s 1 - 1) = take_bit s x" by (simp only: take_bit_eq_mask)
  show ?thesis unfolding offset_rest_def h unsigned_take_bit_eq by (simp add: take_bit_eq_mod)
qed

lemma unat_fat12_offset: "unat i \<le> 0xff6 \<Longrightarrow> unat (fat12_offset i) = unat i div 2 * 3"
proof -
  assume "unat i \<le> 0xff6"
  then have "unat i div 2 \<le> 0x7fb" by simp
  then have "unat i div 2 * 3 < 2 ^ 32" by simp
  moreover have "unat (drop_bit 1 i) = unat i div 2" unfolding unat_drop_bit_eq by (simp add: drop_bit_eq_div)
  ultimately show ?thesis by (simp only: fat12_offset_def unat_word_ariths(2)) simp
qed

lemma scaled_div_mod:
  fixes i s k :: nat
  assumes "k \<le> s"
  shows "2 ^ k * i div 2 ^ s = i div 2 ^ (s - k)" "2 ^ k * i mod 2 ^ s = 2 ^ k * (i mod 2 ^ (s - k))"
proof -
  have s: "2 ^ s = 2 ^ k * (2 ^ (s - k) :: nat)" using assms by (simp flip: power_add)
  show "2 ^ k * i div 2 ^ s = i div 2 ^ (s - k)" unfolding s by simp
  show "2 ^ k * i mod 2 ^ s = 2 ^ k * (i mod 2 ^ (s - k))" unfolding s by (simp only: mult_mod_right)
qed

section \<open>Entries\<close>

definition raw12 :: "(nat \<Rightarrow> u8) \<Rightarrow> nat \<Rightarrow> u16" where
  "raw12 f i =
     (if odd i then push_bit 4 (ucast (f (i div 2 * 3 + 2))) OR drop_bit 4 (ucast (f (i div 2 * 3 + 1)))
      else ucast (f (i div 2 * 3)) OR push_bit 8 (ucast (f (i div 2 * 3 + 1)) AND 0xf))"

definition raw16 :: "(nat \<Rightarrow> u8) \<Rightarrow> nat \<Rightarrow> u16" where
  "raw16 f i = r16 [f (2 * i), f (2 * i + 1)]"

definition raw32 :: "(nat \<Rightarrow> u8) \<Rightarrow> nat \<Rightarrow> u32" where
  "raw32 f i = r32 [f (4 * i), f (4 * i + 1), f (4 * i + 2), f (4 * i + 3)]"

definition entry_of :: "ufat_fat_type_t \<Rightarrow> (nat \<Rightarrow> u8) \<Rightarrow> nat \<Rightarrow> u32" where
  "entry_of t f i =
     (case t of
        UFAT_TYPE_FAT12 \<Rightarrow> decode_fat12 (raw12 f i)
      | UFAT_TYPE_FAT16 \<Rightarrow> decode_fat16 (raw16 f i)
      | UFAT_TYPE_FAT32 \<Rightarrow> decode_fat32 (raw32 f i AND UFAT_CLUSTER_MASK))"

text \<open>Where the entry of a cluster ends, and the bytes an update of it leaves.\<close>

definition entry_end :: "ufat_fat_type_t \<Rightarrow> nat \<Rightarrow> nat" where
  "entry_end t i =
     (case t of
        UFAT_TYPE_FAT12 \<Rightarrow> i div 2 * 3 + (if odd i then 3 else 2)
      | UFAT_TYPE_FAT16 \<Rightarrow> 2 * i + 2
      | UFAT_TYPE_FAT32 \<Rightarrow> 4 * i + 4)"

definition masked :: "u8 \<Rightarrow> u8 \<Rightarrow> u8 \<Rightarrow> u8" where
  "masked m new old = (old AND NOT m) OR (new AND m)"

definition patch :: "(nat \<Rightarrow> 'a) \<Rightarrow> nat \<Rightarrow> 'a list \<Rightarrow> nat \<Rightarrow> 'a" where
  "patch f a xs i = (if a \<le> i \<and> i < a + length xs then xs ! (i - a) else f i)"

definition entry_update :: "ufat_fat_type_t \<Rightarrow> (nat \<Rightarrow> u8) \<Rightarrow> nat \<Rightarrow> u32 \<Rightarrow> nat \<Rightarrow> u8" where
  "entry_update t f i v =
     (case t of
        UFAT_TYPE_FAT12 \<Rightarrow>
          (let a = i div 2 * 3 in
           if odd i then patch f (a + 1) [masked 0xf0 (ucast (push_bit 4 (v AND 0xf))) (f (a + 1)), ucast (drop_bit 4 (v AND 0xff0))]
           else patch f a [ucast (v AND 0xff), masked 0x0f (ucast (drop_bit 8 (v AND 0xf00))) (f (a + 1))])
      | UFAT_TYPE_FAT16 \<Rightarrow> patch f (2 * i) (w16 (ucast (v AND 0xffff)))
      | UFAT_TYPE_FAT32 \<Rightarrow> patch f (4 * i) (w32 v))"

text \<open>The values an entry can hold.\<close>

definition storable :: "ufat_fat_type_t \<Rightarrow> u32 \<Rightarrow> bool" where
  "storable t v \<longleftrightarrow> v = UFAT_CLUSTER_BAD \<or> v = UFAT_CLUSTER_EOC \<or>
     (case t of
        UFAT_TYPE_FAT12 \<Rightarrow> v < 0xff7 \<and> v \<noteq> 0xff0
      | UFAT_TYPE_FAT16 \<Rightarrow> v < 0xfff7
      | UFAT_TYPE_FAT32 \<Rightarrow> v < 0xffffff7)"

lemma and_masks:
  "(x::'a::len word) AND 0xff = take_bit 8 x" "x AND 0xffff = take_bit 16 x" "x AND 0xf = take_bit 4 x"
  "x AND 0x0fffffff = take_bit 28 x"
  by (simp_all add: take_bit_eq_mask mask_eq_exp_minus_1)

lemma r16_w16 [simp]: "r16 (w16 v) = v"
  by (rule bit_word_eqI) (auto simp: r16_def w16_def and_masks bit_simps)

lemma r32_w32 [simp]: "r32 (w32 v) = v"
proof -
  have "r32 (w32 v) = push_bit 16 (ucast (r16 (w16 (ucast (drop_bit 16 v))))) OR ucast (r16 (w16 (ucast (v AND 0xffff))))"
    by (simp add: r32_def w32_def w16_def r16_def)
  also have "\<dots> = v" unfolding r16_w16 by (rule bit_word_eqI) (auto simp: and_masks bit_simps)
  finally show ?thesis .
qed

lemma patch_simps:
  "length xs = n \<Longrightarrow> k < n \<Longrightarrow> patch f a xs (a + k) = xs ! k"
  "b < a \<or> a + length xs \<le> b \<Longrightarrow> patch f a xs b = f b"
  by (auto simp: patch_def)

lemma bit_mask_numerals:
  "bit (0xf0::int) n \<longleftrightarrow> 4 \<le> n \<and> n < 8" "bit (0xff0::int) n \<longleftrightarrow> 4 \<le> n \<and> n < 12"
  "bit (0xf00::int) n \<longleftrightarrow> 8 \<le> n \<and> n < 12" "bit (0xf::int) n \<longleftrightarrow> n < 4"
proof -
  have "0xf0 = push_bit 4 (mask 4 :: int)" "0xff0 = push_bit 4 (mask 8 :: int)"
    "0xf00 = push_bit 8 (mask 4 :: int)" "0xf = (mask 4 :: int)"
    by (simp_all add: mask_eq_exp_minus_1)
  then show "bit (0xf0::int) n \<longleftrightarrow> 4 \<le> n \<and> n < 8" "bit (0xff0::int) n \<longleftrightarrow> 4 \<le> n \<and> n < 12"
    "bit (0xf00::int) n \<longleftrightarrow> 8 \<le> n \<and> n < 12" "bit (0xf::int) n \<longleftrightarrow> n < 4"
    by (auto simp only: bit_push_bit_iff bit_mask_iff) auto
qed

lemmas nibble_simps = raw12_def entry_update_def patch_def masked_def and_masks bit_mask_numerals bit_simps Let_def

lemma raw12_update_same: "raw12 (entry_update UFAT_TYPE_FAT12 f i v) i = ucast (take_bit 12 v)"
proof (cases "odd i")
  case True
  then show ?thesis
    by (intro bit_word_eqI) (auto simp: nibble_simps)
next
  case False
  then show ?thesis
    by (intro bit_word_eqI) (auto simp: nibble_simps)
qed

lemma raw12_update_other: "j \<noteq> i \<Longrightarrow> raw12 (entry_update UFAT_TYPE_FAT12 f i v) j = raw12 f j"
proof (cases "j div 2 = i div 2")
  case True
  assume "j \<noteq> i"
  then have "odd j \<longleftrightarrow> even i" using True by presburger
  then show ?thesis using True by (intro bit_word_eqI) (auto simp: nibble_simps dest: bit_imp_le_length)
next
  case False
  then have "j div 2 * 3 + 2 < i div 2 * 3 \<or> i div 2 * 3 + 2 < j div 2 * 3" by linarith
  then show ?thesis by (auto simp: raw12_def entry_update_def patch_def Let_def)
qed

lemma raw16_update: "raw16 (entry_update UFAT_TYPE_FAT16 f i v) j = (if j = i then ucast v else raw16 f j)"
proof (cases "j = i")
  case True
  have "raw16 (entry_update UFAT_TYPE_FAT16 f i v) i = r16 (w16 (ucast (v AND 0xffff)))"
    by (simp add: raw16_def entry_update_def patch_def w16_def)
  also have "\<dots> = ucast v" unfolding r16_w16 by (rule bit_word_eqI) (auto simp: and_masks bit_simps)
  finally show ?thesis using True by simp
next
  case False
  then have "2 * j + 1 < 2 * i \<or> 2 * i + 1 < 2 * j" by linarith
  then show ?thesis using False by (auto simp: raw16_def entry_update_def patch_def w16_def)
qed

lemma raw32_update: "raw32 (entry_update UFAT_TYPE_FAT32 f i v) j = (if j = i then v else raw32 f j)"
proof (cases "j = i")
  case True
  have "raw32 (entry_update UFAT_TYPE_FAT32 f i v) i = r32 (w32 v)"
    by (simp add: raw32_def entry_update_def patch_def w32_def w16_def)
  then show ?thesis using True by simp
next
  case False
  then have "4 * j + 3 < 4 * i \<or> 4 * i + 3 < 4 * j" by linarith
  then show ?thesis using False by (auto simp: raw32_def entry_update_def patch_def w32_def w16_def)
qed

lemma unat_numerals:
  "unat (v::'a::len word) < n \<Longrightarrow> n \<le> 2 ^ k \<Longrightarrow> take_bit k v = v"
  by (rule word_unat_eq_iff [THEN iffD2]) (simp add: unsigned_take_bit_eq take_bit_nat_eq_self)

lemma ucast_u16: "(ucast (ucast (v::u32) :: u16) :: u32) = take_bit 16 v"
  by (rule bit_word_eqI) (auto simp: bit_simps)

lemma decode_storable:
  "storable UFAT_TYPE_FAT12 v \<Longrightarrow> decode_fat12 (ucast (take_bit 12 v)) = v"
  "storable UFAT_TYPE_FAT16 v \<Longrightarrow> decode_fat16 (ucast v) = v"
  "storable UFAT_TYPE_FAT32 v \<Longrightarrow> decode_fat32 (v AND UFAT_CLUSTER_MASK) = v"
proof -
  assume s: "storable UFAT_TYPE_FAT12 v"
  show "decode_fat12 (ucast (take_bit 12 v)) = v"
  proof (cases "v = UFAT_CLUSTER_BAD \<or> v = UFAT_CLUSTER_EOC")
    case True
    then show ?thesis by (auto simp: decode_fat12_def UFAT_CLUSTER_BAD_def UFAT_CLUSTER_EOC_def)
  next
    case False
    then have v: "v < 0xff7" "v \<noteq> 0xff0" using s by (auto simp: storable_def)
    then have u: "unat v < 0xff7" "unat v \<noteq> 0xff0" by (auto simp: word_less_nat_alt word_unat_eq_iff)
    then have t: "take_bit 12 v = v" by (intro unat_numerals [of v "0xff7"]) simp_all
    have n: "unat (ucast v :: u16) = unat v" using u by (simp add: unsigned_ucast_eq take_bit_nat_eq_self)
    have "take_bit 16 v = v" using u by (intro unat_numerals [of v "0xff7"]) simp_all
    then have c: "(ucast (ucast v :: u16) :: u32) = v" by (simp only: ucast_u16)
    have "\<not> 0xff8 \<le> (ucast v :: u16)" "ucast v \<noteq> (0xff0 :: u16)" "ucast v \<noteq> (0xff7 :: u16)"
      using n u by (simp_all add: word_le_nat_alt word_unat_eq_iff)
    then show ?thesis using t c by (simp add: decode_fat12_def)
  qed
next
  assume s: "storable UFAT_TYPE_FAT16 v"
  show "decode_fat16 (ucast v) = v"
  proof (cases "v = UFAT_CLUSTER_BAD \<or> v = UFAT_CLUSTER_EOC")
    case True
    then show ?thesis by (auto simp: decode_fat16_def UFAT_CLUSTER_BAD_def UFAT_CLUSTER_EOC_def)
  next
    case False
    then have u: "unat v < 0xfff7" using s by (auto simp: storable_def word_less_nat_alt)
    have n: "unat (ucast v :: u16) = unat v" using u by (simp add: unsigned_ucast_eq take_bit_nat_eq_self)
    have "take_bit 16 v = v" using u by (intro unat_numerals [of v "0xfff7"]) simp_all
    then have c: "(ucast (ucast v :: u16) :: u32) = v" by (simp only: ucast_u16)
    have "\<not> 0xfff8 \<le> (ucast v :: u16)" "ucast v \<noteq> (0xfff7 :: u16)"
      using n u by (simp_all add: word_le_nat_alt word_unat_eq_iff)
    then show ?thesis using c by (simp add: decode_fat16_def)
  qed
next
  assume s: "storable UFAT_TYPE_FAT32 v"
  show "decode_fat32 (v AND UFAT_CLUSTER_MASK) = v"
  proof (cases "v = UFAT_CLUSTER_BAD \<or> v = UFAT_CLUSTER_EOC")
    case True
    then show ?thesis by (auto simp: decode_fat32_def UFAT_CLUSTER_BAD_def UFAT_CLUSTER_EOC_def UFAT_CLUSTER_MASK_def)
  next
    case False
    then have u: "unat v < 0xffffff7" using s by (auto simp: storable_def word_less_nat_alt)
    then have "v AND UFAT_CLUSTER_MASK = v"
      unfolding UFAT_CLUSTER_MASK_def and_masks by (intro unat_numerals [of v "0xffffff7"]) simp_all
    moreover have "\<not> 0xffffff8 \<le> v" "v \<noteq> 0xffffff7" using u by (simp_all add: word_le_nat_alt word_unat_eq_iff)
    ultimately show ?thesis by (simp add: decode_fat32_def)
  qed
qed

text \<open>The table as an array of entries: writing one and reading any.\<close>

lemma entry_of_update:
  "storable t v \<Longrightarrow> entry_of t (entry_update t f i v) j = (if j = i then v else entry_of t f j)"
  using decode_storable [of v] raw12_update_same [of f i v] raw12_update_other [of j i f v]
  by (cases t) (auto simp: entry_of_def raw16_update raw32_update)

lemma entry_of_cong: "(\<And>a. a < entry_end t i \<Longrightarrow> f a = g a) \<Longrightarrow> entry_of t f i = entry_of t g i"
  by (cases t) (simp_all add: entry_of_def entry_end_def raw12_def raw16_def raw32_def)

lemma entry_end_mono: "i \<le> j \<Longrightarrow> entry_end t i \<le> entry_end t j"
proof (cases t)
  case UFAT_TYPE_FAT12
  assume "i \<le> j"
  then have "i div 2 < j div 2 \<or> i div 2 = j div 2 \<and> (odd i \<longrightarrow> odd j)" by presburger
  then show ?thesis using UFAT_TYPE_FAT12 by (auto simp: entry_end_def)
qed (simp_all add: entry_end_def)

end
