(* ===== verification/Fat_Access.thy ===== *)
theory Fat_Access
  imports Fat_Entry
begin

text \<open>
  Reading and writing entries of the table over the cache: a read gives the entry of the array and a write
  updates it and nothing else that is seen.
\<close>

definition max_clusters :: "ufat_fat_type_t \<Rightarrow> nat" where
  "max_clusters t =
     (case t of UFAT_TYPE_FAT12 \<Rightarrow> 0xff6 | UFAT_TYPE_FAT16 \<Rightarrow> 0xfff7 | UFAT_TYPE_FAT32 \<Rightarrow> 0xffffff0)"

lemma shifted_range:
  "(a::nat) = m + t \<Longrightarrow> m + r \<le> a \<and> a < m + r + n \<longleftrightarrow> r \<le> t \<and> t < r + n"
  "(a::nat) = m + t \<Longrightarrow> a - (m + r) = t - r"
  by auto

context block_device
begin

abbreviation bsize :: nat where "bsize \<equiv> 2 ^ log2_block_size device"

definition fat_byte :: "'d ufat \<Rightarrow> nat \<Rightarrow> u8" where
  "fat_byte uf a = view uf (unat (fat_start (bpb uf)) + a div bsize) ! (a mod bsize)"

definition fat_len :: "ufat_bpb \<Rightarrow> nat" where
  "fat_len p = unat (fat_size p) * bsize"

definition fat_entry :: "'d ufat \<Rightarrow> nat \<Rightarrow> u32" where
  "fat_entry uf = entry_of (fat_type (bpb uf)) (fat_byte uf)"

text \<open>The table has an entry for every cluster, and its numbers are below those with a meaning of their own.\<close>

definition table_ok :: "ufat_bpb \<Rightarrow> bool" where
  "table_ok p \<longleftrightarrow> 9 \<le> log2_block_size device \<and> 2 \<le> unat (num_clusters p) \<and>
     entry_end (fat_type p) (unat (num_clusters p) - 1) \<le> fat_len p \<and> unat (num_clusters p) \<le> max_clusters (fat_type p)"

text \<open>A step that leaves everything but the table, whose bytes are then \<open>f\<close>.\<close>

definition fat_step :: "'d ufat \<Rightarrow> (nat \<Rightarrow> u8) \<Rightarrow> 'd ufat \<Rightarrow> bool" where
  "fat_step uf f uf' \<longleftrightarrow> cache_ok uf' \<and> bpb uf' = bpb uf \<and> cache_size uf' = cache_size uf \<and> alloc_ptr uf' = alloc_ptr uf \<and>
     (\<forall>x < nblocks. \<not> is_mirror (bpb uf) x \<longrightarrow> \<not> in_fat (bpb uf) x \<longrightarrow> view uf' x = view uf x) \<and>
     (\<forall>a < fat_len (bpb uf). fat_byte uf' a = f a) \<and> (fats_equal uf \<longrightarrow> fats_equal uf')"

lemma fat_stepD:
  assumes "fat_step uf f uf'"
  shows "cache_ok uf'" "bpb uf' = bpb uf" "cache_size uf' = cache_size uf" "alloc_ptr uf' = alloc_ptr uf"
    "x < nblocks \<Longrightarrow> \<not> is_mirror (bpb uf) x \<Longrightarrow> \<not> in_fat (bpb uf) x \<Longrightarrow> view uf' x = view uf x"
    "a < fat_len (bpb uf) \<Longrightarrow> fat_byte uf' a = f a" "fats_equal uf \<Longrightarrow> fats_equal uf'"
  using assms unfolding fat_step_def by blast+

lemma fat_step_trans: "fat_step uf f uf1 \<Longrightarrow> fat_step uf1 g uf2 \<Longrightarrow> fat_step uf g uf2"
  by (simp add: fat_step_def)

lemma fat_step_cong: "fat_step uf f uf' \<Longrightarrow> (\<And>a. a < fat_len (bpb uf) \<Longrightarrow> f a = g a) \<Longrightarrow> fat_step uf g uf'"
  by (simp add: fat_step_def)

text \<open>The blocks of the table.\<close>

lemma fat_block:
  assumes c: "cache_ok uf" and b: "b < unat (fat_size (bpb uf))"
  shows "unat (fat_start (bpb uf)) + b < nblocks" "in_fat (bpb uf) (unat (fat_start (bpb uf)) + b)"
    "\<not> is_mirror (bpb uf) (unat (fat_start (bpb uf)) + b)"
proof -
  show i: "in_fat (bpb uf) (unat (fat_start (bpb uf)) + b)" using b by (simp add: in_fat_def)
  show "unat (fat_start (bpb uf)) + b < nblocks" using b cache_okD(3) [OF c] by (simp add: geometry_ok_def)
  show "\<not> is_mirror (bpb uf) (unat (fat_start (bpb uf)) + b)" using i by (rule mirror_not_fat)
qed

lemma bytes_div: "a < n * bsize \<Longrightarrow> a div bsize < n"
  by (simp add: less_mult_imp_div_less)

lemma keeps_fat_step: "cache_ok uf \<Longrightarrow> keeps uf uf' \<Longrightarrow> fat_step uf (fat_byte uf) uf'"
proof -
  assume c: "cache_ok uf" and k: "keeps uf uf'"
  note K = keeps_facts [OF k]
  have "fat_byte uf' a = fat_byte uf a" if "a < fat_len (bpb uf)" for a
  proof -
    have "a div bsize < unat (fat_size (bpb uf))" using that unfolding fat_len_def by (rule bytes_div)
    then show ?thesis using fat_block [OF c] K(2,5) by (simp add: fat_byte_def)
  qed
  then show ?thesis using K by (simp add: fat_step_def)
qed

lemma block_byte:
  "r < bsize \<Longrightarrow> view uf (unat (fat_start (bpb uf)) + b) ! r = fat_byte uf (b * bsize + r)"
  by (simp add: fat_byte_def)

lemma view_slice:
  assumes c: "cache_ok uf" and b: "b < unat (fat_size (bpb uf))" and r: "r + n \<le> bsize"
  shows "mem_slice r n (view uf (unat (fat_start (bpb uf)) + b)) = map (fat_byte uf) [b * bsize + r..<b * bsize + r + n]"
proof (rule nth_equalityI)
  have l: "length (view uf (unat (fat_start (bpb uf)) + b)) = bsize" by (rule length_view [OF c fat_block(1) [OF c b]])
  show "length (mem_slice r n (view uf (unat (fat_start (bpb uf)) + b))) =
      length (map (fat_byte uf) [b * bsize + r..<b * bsize + r + n])"
    using l r by simp
  fix k
  assume "k < length (mem_slice r n (view uf (unat (fat_start (bpb uf)) + b)))"
  then have k: "k < n" using l r by simp
  then have "mem_slice r n (view uf (unat (fat_start (bpb uf)) + b)) ! k = view uf (unat (fat_start (bpb uf)) + b) ! (r + k)"
    using l r by (simp add: nth_mem_slice)
  also have "\<dots> = fat_byte uf (b * bsize + (r + k))" using k r by (intro block_byte) linarith
  finally show "mem_slice r n (view uf (unat (fat_start (bpb uf)) + b)) ! k =
      map (fat_byte uf) [b * bsize + r..<b * bsize + r + n] ! k"
    using k by (simp add: add.assoc)
qed

lemma fat_open:
  assumes c: "cache_ok uf" and b: "unat b < unat (fat_size (bpb uf))"
  obtains i uf' where "ufat_cache_open uf (fat_start (bpb uf) + b) False = Inr (int i, uf')" "i < cache_size uf'"
    "slot_present uf' i" "slot_blk uf' i = unat (fat_start (bpb uf)) + unat b"
    "slot_data uf' i = view uf (unat (fat_start (bpb uf)) + unat b)" "keeps uf uf'"
proof -
  note F = fat_block [OF c b]
  have "unat (fat_start (bpb uf)) + unat b < 2 ^ 64" using F(1) cache_okD(3) [OF c] by (simp add: geometry_ok_def)
  then have s: "unat (fat_start (bpb uf) + b) = unat (fat_start (bpb uf)) + unat b" by (rule unat_add_index)
  show thesis
    using cache_open_ok [OF c, of "fat_start (bpb uf) + b"] that F unfolding s by metis
qed

text \<open>Writing into a block of the table.\<close>

lemma written_fat_step:
  assumes c: "cache_ok uf" and b: "b < unat (fat_size (bpb uf))" and r: "r + length xs \<le> bsize"
    and w: "written uf (unat (fat_start (bpb uf)) + b) (mem_splice r xs (view uf (unat (fat_start (bpb uf)) + b))) uf'"
  shows "fat_step uf (patch (fat_byte uf) (b * bsize + r) xs) uf'"
proof -
  note W = writtenD [OF w]
  have bytes: "fat_byte uf' a = patch (fat_byte uf) (b * bsize + r) xs a" if a: "a < fat_len (bpb uf)" for a
  proof -
    let ?b = "a div bsize" and ?r = "a mod bsize"
    have n: "?b < unat (fat_size (bpb uf))" using a unfolding fat_len_def by (rule bytes_div)
    have ab: "a = ?b * bsize + ?r" "?r < bsize" by (simp_all only: div_mult_mod_eq) simp
    have l: "length (view uf (unat (fat_start (bpb uf)) + b)) = bsize" by (rule length_view [OF c fat_block(1) [OF c b]])
    show ?thesis
    proof (cases "?b = b")
      case True
      then have m: "a = b * bsize + ?r" using ab(1) by (simp only:)
      show ?thesis
        using W(2,5) fat_block [OF c n] True r l ab(2)
        unfolding patch_def shifted_range [OF m]
        by (simp add: fat_byte_def nth_mem_splice)
    next
      case False
      then have "Suc ?b \<le> b \<or> Suc b \<le> ?b" by linarith
      then have "Suc ?b * bsize \<le> b * bsize \<or> Suc b * bsize \<le> ?b * bsize" using mult_le_mono1 by blast
      then have nh: "\<not> (b * bsize + r \<le> a \<and> a < b * bsize + r + length xs)" using ab r by (simp only: mult_Suc) linarith
      then show ?thesis
        using W(2,5) fat_block [OF c n] False unfolding patch_def if_not_P [OF nh] by (simp add: fat_byte_def)
    qed
  qed
  show ?thesis
    unfolding fat_step_def
  proof (intro conjI allI impI)
    fix x
    assume x: "x < nblocks" "\<not> is_mirror (bpb uf) x" "\<not> in_fat (bpb uf) x"
    then show "view uf' x = view uf x" using W(5) [OF x(1,2)] fat_block(2) [OF c b] by auto
  qed (use W bytes in simp_all)
qed

lemma fat_store:
  assumes c: "cache_ok uf" and i: "i < cache_size uf" "slot_present uf i" and b: "b < unat (fat_size (bpb uf))"
    and s: "slot_blk uf i = unat (fat_start (bpb uf)) + b" and r: "r + length xs \<le> bsize"
  obtains uf1 uf2 where "ufat_cache_write uf i = Inr uf1" "\<forall>r n. r + n \<le> bsize \<longrightarrow> slot_load uf1 i r n = slot_load uf i r n"
    "slot_store uf1 i r xs = Inr uf2" "fat_step uf (patch (fat_byte uf) (b * bsize + r) xs) uf2"
proof -
  obtain uf1 where w: "ufat_cache_write uf i = Inr uf1" "keeps uf uf1" "slot_dirty uf1 i" "slot_blk uf1 i = slot_blk uf i"
      "slot_data uf1 i = slot_data uf i"
    using cache_write_ok [OF c i] by blast
  note K = keeps_facts [OF w(2)]
  have i1: "i < cache_size uf1" using i K by simp
  have v: "slot_data uf1 i = view uf1 (unat (fat_start (bpb uf1)) + b)"
    using view_present [OF K(1) i1] w(3,4) s K(2) by (simp add: slot_dirty_def)
  obtain uf2 where st: "slot_store uf1 i r xs = Inr uf2" "written uf1 (slot_blk uf1 i) (mem_splice r xs (slot_data uf1 i)) uf2"
    using slot_store_ok [OF K(1) i1 w(3) r] by blast
  have "fat_step uf1 (patch (fat_byte uf1) (b * bsize + r) xs) uf2"
    using st(2) v s w(4) K(2) b r by (intro written_fat_step [OF K(1)]) simp_all
  then have "fat_step uf (patch (fat_byte uf1) (b * bsize + r) xs) uf2"
    by (rule fat_step_trans [OF keeps_fat_step [OF c w(2)]])
  then have f: "fat_step uf (patch (fat_byte uf) (b * bsize + r) xs) uf2"
    by (rule fat_step_cong) (use fat_stepD(6) [OF keeps_fat_step [OF c w(2)]] in \<open>simp add: patch_def\<close>)
  have "\<forall>r n. r + n \<le> bsize \<longrightarrow> slot_load uf1 i r n = slot_load uf i r n"
    using slot_load_ok [OF c i(1)] slot_load_ok [OF K(1) i1] w(5) by simp
  then show thesis using that w(1) st(1) f by blast
qed

end

text \<open>The reads and writes of the three kinds of table.\<close>

lemma masked_all: "masked 0xff new old = new"
proof -
  have m: "(0xff::u8) = - 1" by simp
  show ?thesis unfolding masked_def m by simp
qed

context block_device
begin

lemma lg_dev: "cache_ok uf \<Longrightarrow> log2_block_size (dev uf) = log2_block_size device"
  by (simp add: cache_okD(1))

lemma read_fat_byte_ok:
  assumes c: "cache_ok uf" and a: "unat off < fat_len (bpb uf)"
  obtains uf' where "read_fat_byte uf off = Inr (Inr (fat_byte uf (unat off)), uf')" "keeps uf uf'"
proof -
  let ?lg = "log2_block_size device" and ?b = "unat off div bsize" and ?r = "unat off mod bsize"
  have b: "unat (offset_block ?lg off) < unat (fat_size (bpb uf))"
    unfolding unat_offset_block using a unfolding fat_len_def by (rule bytes_div)
  obtain i uf1 where open_: "ufat_cache_open uf (fat_start (bpb uf) + offset_block ?lg off) False = Inr (int i, uf1)"
      "i < cache_size uf1" "slot_data uf1 i = view uf (unat (fat_start (bpb uf)) + ?b)" "keeps uf uf1"
    using fat_open [OF c b] unfolding unat_offset_block by metis
  have r: "?r + 1 \<le> bsize" by (simp add: Suc_leI)
  have "mem_slice ?r 1 (slot_data uf1 i) = [fat_byte uf (unat off)]"
    unfolding open_(3) using view_slice [OF c _ r, of ?b] b unfolding unat_offset_block div_mult_mod_eq by simp
  then have "slot_load uf1 i (offset_rest ?lg off) 1 = Inr [fat_byte uf (unat off)]"
    using slot_load_ok [OF keeps_facts(1) [OF open_(4)] open_(2) r] by (simp add: offset_rest_mod)
  then show thesis
    using that [of uf1] open_ by (simp add: read_fat_byte_def Let_def lg_dev [OF c])
qed

lemma write_fat_byte_ok:
  assumes c: "cache_ok uf" and a: "unat off < fat_len (bpb uf)"
  obtains uf' where "write_fat_byte uf off byte m = Inr (0, uf')"
    "fat_step uf (patch (fat_byte uf) (unat off) [masked m byte (fat_byte uf (unat off))]) uf'"
proof -
  let ?lg = "log2_block_size device" and ?b = "unat off div bsize" and ?r = "unat off mod bsize"
  have b: "unat (offset_block ?lg off) < unat (fat_size (bpb uf))"
    unfolding unat_offset_block using a unfolding fat_len_def by (rule bytes_div)
  obtain i uf1 where open_: "ufat_cache_open uf (fat_start (bpb uf) + offset_block ?lg off) False = Inr (int i, uf1)"
      "i < cache_size uf1" "slot_present uf1 i" "slot_blk uf1 i = unat (fat_start (bpb uf)) + ?b"
      "slot_data uf1 i = view uf (unat (fat_start (bpb uf)) + ?b)" "keeps uf uf1"
    using fat_open [OF c b] unfolding unat_offset_block by metis
  note K = keeps_facts [OF open_(6)] and KF = keeps_fat_step [OF c open_(6)]
  have r: "?r + 1 \<le> bsize" by (simp add: Suc_leI)
  have ab: "?b * bsize + ?r = unat off" by (rule div_mult_mod_eq)
  have "mem_slice ?r 1 (slot_data uf1 i) = [fat_byte uf (unat off)]"
    unfolding open_(5) using view_slice [OF c _ r, of ?b] b unfolding unat_offset_block div_mult_mod_eq by simp
  then have load: "slot_load uf1 i (offset_rest ?lg off) 1 = Inr [fat_byte uf (unat off)]"
    using slot_load_ok [OF K(1) open_(2) r] by (simp add: offset_rest_mod)
  have b1: "?b < unat (fat_size (bpb uf1))" using b K(2) unfolding unat_offset_block by simp
  have s1: "slot_blk uf1 i = unat (fat_start (bpb uf1)) + ?b" using open_(4) K(2) by simp
  obtain uf2 uf3 where st: "ufat_cache_write uf1 i = Inr uf2" "\<forall>r n. r + n \<le> bsize \<longrightarrow> slot_load uf2 i r n = slot_load uf1 i r n"
      "slot_store uf2 i ?r [masked m byte (fat_byte uf (unat off))] = Inr uf3"
      "fat_step uf1 (patch (fat_byte uf1) (?b * bsize + ?r) [masked m byte (fat_byte uf (unat off))]) uf3"
    using fat_store [OF K(1) open_(2,3) b1 s1, of ?r "[masked m byte (fat_byte uf (unat off))]"] r by auto
  have "fat_step uf (patch (fat_byte uf1) (unat off) [masked m byte (fat_byte uf (unat off))]) uf3"
    using fat_step_trans [OF KF st(4)] unfolding ab .
  then have "fat_step uf (patch (fat_byte uf) (unat off) [masked m byte (fat_byte uf (unat off))]) uf3"
    by (rule fat_step_cong) (use fat_stepD(6) [OF KF] in \<open>simp add: patch_def\<close>)
  moreover have "write_fat_byte uf off byte m = Inr (0, uf3)"
    using open_(1) st(1-3) load r by (simp add: write_fat_byte_def Let_def lg_dev [OF c] offset_rest_mod masked_def)
  ultimately show thesis using that by blast
qed

text \<open>An entry of \<open>2 ^ k\<close> bytes, which lies in one block.\<close>

lemma entry_block:
  fixes i :: u32
  assumes k: "k \<le> log2_block_size device" and e: "2 ^ k * unat i < fat_len p"
  shows "unat (offset_block (log2_block_size device - k) i) < unat (fat_size p)"
    "unat (offset_block (log2_block_size device - k) i) * bsize + offset_rest (log2_block_size device - k) i * 2 ^ k = 2 ^ k * unat i"
    "offset_rest (log2_block_size device - k) i * 2 ^ k + 2 ^ k \<le> bsize"
proof -
  let ?s = "log2_block_size device - k"
  have d: "unat i div 2 ^ ?s = 2 ^ k * unat i div bsize" using scaled_div_mod(1) [OF k] by simp
  have m: "unat i mod 2 ^ ?s * 2 ^ k = 2 ^ k * unat i mod bsize" using scaled_div_mod(2) [OF k] by simp
  show "unat (offset_block ?s i) < unat (fat_size p)"
    unfolding unat_offset_block d using e unfolding fat_len_def by (rule bytes_div)
  show "unat (offset_block ?s i) * bsize + offset_rest ?s i * 2 ^ k = 2 ^ k * unat i"
    unfolding unat_offset_block offset_rest_mod d m by (rule div_mult_mod_eq)
  have "unat i mod 2 ^ ?s + 1 \<le> 2 ^ ?s" by (simp add: Suc_leI)
  then have "(unat i mod 2 ^ ?s + 1) * 2 ^ k \<le> 2 ^ ?s * 2 ^ k" by (rule mult_le_mono1)
  moreover have "2 ^ ?s * 2 ^ k = bsize" using k by (simp flip: power_add)
  ultimately show "offset_rest ?s i * 2 ^ k + 2 ^ k \<le> bsize" unfolding offset_rest_mod by (simp add: add_mult_distrib)
qed

lemma read_entry:
  assumes c: "cache_ok uf" and k: "k \<le> log2_block_size device" and e: "2 ^ k * unat i < fat_len (bpb uf)"
  obtains j uf1 where "ufat_cache_open uf (fat_start (bpb uf) + offset_block (log2_block_size device - k) i) False = Inr (int j, uf1)"
    "slot_load uf1 j (offset_rest (log2_block_size device - k) i * 2 ^ k) (2 ^ k) =
      Inr (map (fat_byte uf) [2 ^ k * unat i..<2 ^ k * unat i + 2 ^ k])"
    "keeps uf uf1"
proof -
  note E = entry_block [OF k e]
  obtain j uf1 where o1: "ufat_cache_open uf (fat_start (bpb uf) + offset_block (log2_block_size device - k) i) False = Inr (int j, uf1)"
      "j < cache_size uf1" "slot_data uf1 j = view uf (unat (fat_start (bpb uf)) + unat (offset_block (log2_block_size device - k) i))"
      "keeps uf uf1"
    using fat_open [OF c E(1)] by metis
  have "slot_load uf1 j (offset_rest (log2_block_size device - k) i * 2 ^ k) (2 ^ k) =
      Inr (map (fat_byte uf) [2 ^ k * unat i..<2 ^ k * unat i + 2 ^ k])"
    using slot_load_ok [OF keeps_facts(1) [OF o1(4)] o1(2) E(3)] view_slice [OF c E(1,3)] unfolding o1(3) E(2) by simp
  then show thesis using that o1 by blast
qed

lemma write_entry:
  assumes c: "cache_ok uf" and k: "k \<le> log2_block_size device" and e: "2 ^ k * unat i < fat_len (bpb uf)"
    and x: "length xs = 2 ^ k"
  obtains j uf1 uf2 uf3 where
    "ufat_cache_open uf (fat_start (bpb uf) + offset_block (log2_block_size device - k) i) False = Inr (int j, uf1)"
    "ufat_cache_write uf1 j = Inr uf2" "slot_store uf2 j (offset_rest (log2_block_size device - k) i * 2 ^ k) xs = Inr uf3"
    "fat_step uf (patch (fat_byte uf) (2 ^ k * unat i) xs) uf3"
proof -
  note E = entry_block [OF k e]
  let ?b = "unat (offset_block (log2_block_size device - k) i)" and ?r = "offset_rest (log2_block_size device - k) i * 2 ^ k"
  obtain j uf1 where o1: "ufat_cache_open uf (fat_start (bpb uf) + offset_block (log2_block_size device - k) i) False = Inr (int j, uf1)"
      "j < cache_size uf1" "slot_present uf1 j" "slot_blk uf1 j = unat (fat_start (bpb uf)) + ?b" "keeps uf uf1"
    using fat_open [OF c E(1)] by metis
  note K = keeps_facts [OF o1(5)] and KF = keeps_fat_step [OF c o1(5)]
  have b1: "?b < unat (fat_size (bpb uf1))" using E(1) K(2) by simp
  have s1: "slot_blk uf1 j = unat (fat_start (bpb uf1)) + ?b" using o1(4) K(2) by simp
  have x1: "?r + length xs \<le> bsize" using E(3) x by simp
  obtain uf2 uf3 where w: "ufat_cache_write uf1 j = Inr uf2"
      "\<forall>r n. r + n \<le> bsize \<longrightarrow> slot_load uf2 j r n = slot_load uf1 j r n" "slot_store uf2 j ?r xs = Inr uf3"
      "fat_step uf1 (patch (fat_byte uf1) (?b * bsize + ?r) xs) uf3"
    by (rule fat_store [OF K(1) o1(2,3) b1 s1 x1])
  have "fat_step uf (patch (fat_byte uf1) (2 ^ k * unat i) xs) uf3"
    using fat_step_trans [OF KF w(4)] unfolding E(2) .
  then have "fat_step uf (patch (fat_byte uf) (2 ^ k * unat i) xs) uf3"
    by (rule fat_step_cong) (use fat_stepD(6) [OF KF] in \<open>simp add: patch_def\<close>)
  then show thesis using that o1(1) w(1,3) by blast
qed

text \<open>The entry of a cluster.\<close>

lemma entry_in_table:
  assumes t: "table_ok p" and i: "i < unat (num_clusters p)"
  shows "entry_end (fat_type p) i \<le> fat_len p"
proof -
  have "i \<le> unat (num_clusters p) - 1" using i by simp
  then have "entry_end (fat_type p) i \<le> entry_end (fat_type p) (unat (num_clusters p) - 1)" by (rule entry_end_mono)
  then show ?thesis using t by (simp add: table_ok_def)
qed

lemma fat12_offsets:
  assumes t: "table_ok p" "fat_type p = UFAT_TYPE_FAT12" and i: "unat i < unat (num_clusters p)"
  shows "unat (fat12_offset i) = unat i div 2 * 3" "unat (fat12_offset i + 1) = unat i div 2 * 3 + 1"
    "unat (fat12_offset i + 2) = unat i div 2 * 3 + 2"
proof -
  have n: "unat i \<le> 0xff6" using i t by (simp add: table_ok_def max_clusters_def)
  show a: "unat (fat12_offset i) = unat i div 2 * 3" by (rule unat_fat12_offset [OF n])
  have "unat i div 2 \<le> 0x7fb" using n by simp
  then have "unat i div 2 * 3 + 2 < 2 ^ 32" by simp
  then show "unat (fat12_offset i + 1) = unat i div 2 * 3 + 1" "unat (fat12_offset i + 2) = unat i div 2 * 3 + 2"
    by (simp_all add: unat_word_ariths a)
qed

lemma odd_and_1: "(i::u32) AND 1 \<noteq> 0 \<longleftrightarrow> odd (unat i)"
proof -
  have "bit (unat i) 0 \<longleftrightarrow> bit i 0" by (simp only: bit_unsigned_iff possible_bit_def) simp
  then have "odd i \<longleftrightarrow> odd (unat i)" by (simp add: bit_0)
  then show ?thesis by (simp add: and_one_eq even_iff_mod_2_eq_zero)
qed

lemma read_fat12_ok:
  assumes c: "cache_ok uf" and t: "table_ok (bpb uf)" "fat_type (bpb uf) = UFAT_TYPE_FAT12"
    and i: "unat i < unat (num_clusters (bpb uf))"
  obtains uf' where "read_fat12 uf i = Inr (Inr (fat_entry uf (unat i)), uf')" "keeps uf uf'"
proof -
  note A = fat12_offsets [OF t i]
  have e: "entry_end UFAT_TYPE_FAT12 (unat i) \<le> fat_len (bpb uf)" using entry_in_table [OF t(1) i] t(2) by simp
  have "unat (fat12_offset i + 1) < fat_len (bpb uf)" using e unfolding A by (simp add: entry_end_def split: if_splits)
  then obtain uf1 where r1: "read_fat_byte uf (fat12_offset i + 1) = Inr (Inr (fat_byte uf (unat i div 2 * 3 + 1)), uf1)" "keeps uf uf1"
    using read_fat_byte_ok [OF c, of "fat12_offset i + 1"] unfolding A by blast
  note K = keeps_facts [OF r1(2)] and F = keeps_fat_step [OF c r1(2)]
  show thesis
  proof (cases "odd (unat i)")
    case True
    have a: "unat (fat12_offset i + 2) < fat_len (bpb uf)" using e True unfolding A by (simp add: entry_end_def)
    then obtain uf2 where r2: "read_fat_byte uf1 (fat12_offset i + 2) = Inr (Inr (fat_byte uf1 (unat i div 2 * 3 + 2)), uf2)" "keeps uf1 uf2"
      using read_fat_byte_ok [OF K(1), of "fat12_offset i + 2"] unfolding A K(2) by blast
    have "fat_byte uf1 (unat i div 2 * 3 + 2) = fat_byte uf (unat i div 2 * 3 + 2)" using fat_stepD(6) [OF F] a A by simp
    then have "read_fat12 uf i = Inr (Inr (fat_entry uf (unat i)), uf2)"
      using r1 r2 True t(2) by (simp add: read_fat12_def odd_and_1 Let_def fat_entry_def entry_of_def raw12_def)
    then show thesis using that keeps_trans [OF r1(2) r2(2)] by blast
  next
    case False
    have a: "unat (fat12_offset i) < fat_len (bpb uf)" using e False unfolding A by (simp add: entry_end_def)
    then obtain uf2 where r2: "read_fat_byte uf1 (fat12_offset i) = Inr (Inr (fat_byte uf1 (unat i div 2 * 3)), uf2)" "keeps uf1 uf2"
      using read_fat_byte_ok [OF K(1), of "fat12_offset i"] unfolding A K(2) by blast
    have "fat_byte uf1 (unat i div 2 * 3) = fat_byte uf (unat i div 2 * 3)" using fat_stepD(6) [OF F] a A by simp
    then have "read_fat12 uf i = Inr (Inr (fat_entry uf (unat i)), uf2)"
      using r1 r2 False t(2) by (simp add: read_fat12_def odd_and_1 Let_def fat_entry_def entry_of_def raw12_def)
    then show thesis using that keeps_trans [OF r1(2) r2(2)] by blast
  qed
qed

lemma read_fat_ok:
  assumes c: "cache_ok uf" and t: "table_ok (bpb uf)" and i: "unat i < unat (num_clusters (bpb uf))"
  obtains uf' where "ufat_read_fat uf i = Inr (Inr (fat_entry uf (unat i)), uf')" "keeps uf uf'"
proof -
  have n: "\<not> i \<ge> num_clusters (bpb uf)" using i by (simp add: word_le_nat_alt)
  have e: "entry_end (fat_type (bpb uf)) (unat i) \<le> fat_len (bpb uf)" by (rule entry_in_table [OF t i])
  have lg: "9 \<le> log2_block_size device" using t by (simp add: table_ok_def)
  show thesis
  proof (cases "fat_type (bpb uf)")
    case UFAT_TYPE_FAT12
    then show thesis using read_fat12_ok [OF c t _ i] that n by (simp add: ufat_read_fat_def) metis
  next
    case UFAT_TYPE_FAT16
    then have e1: "2 ^ 1 * unat i < fat_len (bpb uf)" using e by (simp add: entry_end_def)
    have k1: "1 \<le> log2_block_size device" using lg by simp
    obtain j uf1 where r: "ufat_cache_open uf (fat_start (bpb uf) + offset_block (log2_block_size device - 1) i) False = Inr (int j, uf1)"
        "slot_load uf1 j (offset_rest (log2_block_size device - 1) i * 2 ^ 1) (2 ^ 1) =
          Inr (map (fat_byte uf) [2 ^ 1 * unat i..<2 ^ 1 * unat i + 2 ^ 1])" "keeps uf uf1"
      by (rule read_entry [OF c k1 e1])
    then have "ufat_read_fat uf i = Inr (Inr (fat_entry uf (unat i)), uf1)"
      using n UFAT_TYPE_FAT16
      by (simp add: ufat_read_fat_def read_fat16_def Let_def lg_dev [OF c] fat_entry_def entry_of_def raw16_def)
    then show thesis using that r(3) by blast
  next
    case UFAT_TYPE_FAT32
    then have e2: "2 ^ 2 * unat i < fat_len (bpb uf)" using e by (simp add: entry_end_def)
    have k2: "2 \<le> log2_block_size device" using lg by simp
    obtain j uf1 where r: "ufat_cache_open uf (fat_start (bpb uf) + offset_block (log2_block_size device - 2) i) False = Inr (int j, uf1)"
        "slot_load uf1 j (offset_rest (log2_block_size device - 2) i * 2 ^ 2) (2 ^ 2) =
          Inr (map (fat_byte uf) [2 ^ 2 * unat i..<2 ^ 2 * unat i + 2 ^ 2])" "keeps uf uf1"
      by (rule read_entry [OF c k2 e2])
    moreover have "[4 * unat i..<4 * unat i + 4] = [4 * unat i, 4 * unat i + 1, 4 * unat i + 2, 4 * unat i + 3]"
      by (simp add: upt_rec)
    ultimately have "ufat_read_fat uf i = Inr (Inr (fat_entry uf (unat i)), uf1)"
      using n UFAT_TYPE_FAT32
      by (simp add: ufat_read_fat_def read_fat32_def Let_def lg_dev [OF c] fat_entry_def entry_of_def raw32_def)
    then show thesis using that r(3) by blast
  qed
qed

text \<open>Two writes of a byte give one update of two.\<close>

lemma write_fat12_ok:
  assumes c: "cache_ok uf" and t: "table_ok (bpb uf)" "fat_type (bpb uf) = UFAT_TYPE_FAT12"
    and i: "unat i < unat (num_clusters (bpb uf))"
  obtains uf' where "write_fat12 uf i v = Inr (0, uf')"
    "fat_step uf (entry_update UFAT_TYPE_FAT12 (fat_byte uf) (unat i) v) uf'"
proof -
  note A = fat12_offsets [OF t i]
  have e: "entry_end UFAT_TYPE_FAT12 (unat i) \<le> fat_len (bpb uf)" using entry_in_table [OF t(1) i] t(2) by simp
  have a1: "unat (fat12_offset i + 1) < fat_len (bpb uf)" using e unfolding A by (simp add: entry_end_def split: if_splits)
  show thesis
  proof (cases "odd (unat i)")
    case True
    have a2: "unat (fat12_offset i + 2) < fat_len (bpb uf)" using e True unfolding A by (simp add: entry_end_def)
    obtain uf1 where w1: "write_fat_byte uf (fat12_offset i + 1) (ucast (push_bit 4 (v AND 0xf))) 0xf0 = Inr (0, uf1)"
        "fat_step uf (patch (fat_byte uf) (unat (fat12_offset i + 1))
          [masked 0xf0 (ucast (push_bit 4 (v AND 0xf))) (fat_byte uf (unat (fat12_offset i + 1)))]) uf1"
      by (rule write_fat_byte_ok [OF c a1])
    note F = fat_stepD [OF w1(2)]
    have a3: "unat (fat12_offset i + 2) < fat_len (bpb uf1)" using a2 F(2) by simp
    obtain uf2 where w2: "write_fat_byte uf1 (fat12_offset i + 2) (ucast (drop_bit 4 (v AND 0xff0))) 0xff = Inr (0, uf2)"
        "fat_step uf1 (patch (fat_byte uf1) (unat (fat12_offset i + 2))
          [masked 0xff (ucast (drop_bit 4 (v AND 0xff0))) (fat_byte uf1 (unat (fat12_offset i + 2)))]) uf2"
      by (rule write_fat_byte_ok [OF F(1) a3])
    have "fat_step uf (entry_update UFAT_TYPE_FAT12 (fat_byte uf) (unat i) v) uf2"
    proof (rule fat_step_cong [OF fat_step_trans [OF w1(2) w2(2)]])
      fix a
      assume "a < fat_len (bpb uf)"
      then show "patch (fat_byte uf1) (unat (fat12_offset i + 2))
          [masked 0xff (ucast (drop_bit 4 (v AND 0xff0))) (fat_byte uf1 (unat (fat12_offset i + 2)))] a =
          entry_update UFAT_TYPE_FAT12 (fat_byte uf) (unat i) v a"
        using F(6) [of a] True unfolding A masked_all
        by (auto simp: patch_def entry_update_def Let_def less_Suc_eq)
    qed
    moreover have "write_fat12 uf i v = Inr (0, uf2)"
      using True w1(1) w2(1) by (simp add: write_fat12_def odd_and_1 Let_def)
    ultimately show thesis using that by blast
  next
    case False
    have a0: "unat (fat12_offset i) < fat_len (bpb uf)" using e unfolding A by (simp add: entry_end_def split: if_splits)
    obtain uf1 where w1: "write_fat_byte uf (fat12_offset i) (ucast (v AND 0xff)) 0xff = Inr (0, uf1)"
        "fat_step uf (patch (fat_byte uf) (unat (fat12_offset i))
          [masked 0xff (ucast (v AND 0xff)) (fat_byte uf (unat (fat12_offset i)))]) uf1"
      by (rule write_fat_byte_ok [OF c a0])
    note F = fat_stepD [OF w1(2)]
    have a3: "unat (fat12_offset i + 1) < fat_len (bpb uf1)" using a1 F(2) by simp
    obtain uf2 where w2: "write_fat_byte uf1 (fat12_offset i + 1) (ucast (drop_bit 8 (v AND 0xf00))) 0x0f = Inr (0, uf2)"
        "fat_step uf1 (patch (fat_byte uf1) (unat (fat12_offset i + 1))
          [masked 0x0f (ucast (drop_bit 8 (v AND 0xf00))) (fat_byte uf1 (unat (fat12_offset i + 1)))]) uf2"
      by (rule write_fat_byte_ok [OF F(1) a3])
    have "fat_step uf (entry_update UFAT_TYPE_FAT12 (fat_byte uf) (unat i) v) uf2"
    proof (rule fat_step_cong [OF fat_step_trans [OF w1(2) w2(2)]])
      fix a
      assume "a < fat_len (bpb uf)"
      then show "patch (fat_byte uf1) (unat (fat12_offset i + 1))
          [masked 0x0f (ucast (drop_bit 8 (v AND 0xf00))) (fat_byte uf1 (unat (fat12_offset i + 1)))] a =
          entry_update UFAT_TYPE_FAT12 (fat_byte uf) (unat i) v a"
        using F(6) [of a] F(6) [OF a1] False unfolding A masked_all
        by (auto simp: patch_def entry_update_def Let_def less_Suc_eq)
    qed
    moreover have "write_fat12 uf i v = Inr (0, uf2)"
      using False w1(1) w2(1) by (simp add: write_fat12_def odd_and_1 Let_def)
    ultimately show thesis using that by blast
  qed
qed

lemma write_fat_ok:
  assumes c: "cache_ok uf" and t: "table_ok (bpb uf)" and i: "unat i < unat (num_clusters (bpb uf))"
  obtains uf' where "ufat_write_fat uf i v = Inr (0, uf')"
    "fat_step uf (entry_update (fat_type (bpb uf)) (fat_byte uf) (unat i) v) uf'"
proof -
  have n: "\<not> i \<ge> num_clusters (bpb uf)" using i by (simp add: word_le_nat_alt)
  have e: "entry_end (fat_type (bpb uf)) (unat i) \<le> fat_len (bpb uf)" by (rule entry_in_table [OF t i])
  have lg: "9 \<le> log2_block_size device" using t by (simp add: table_ok_def)
  show thesis
  proof (cases "fat_type (bpb uf)")
    case UFAT_TYPE_FAT12
    obtain uf' where "write_fat12 uf i v = Inr (0, uf')" "fat_step uf (entry_update UFAT_TYPE_FAT12 (fat_byte uf) (unat i) v) uf'"
      by (rule write_fat12_ok [OF c t UFAT_TYPE_FAT12 i])
    then show thesis using that n UFAT_TYPE_FAT12 by (simp add: ufat_write_fat_def)
  next
    case UFAT_TYPE_FAT16
    then have e1: "2 ^ 1 * unat i < fat_len (bpb uf)" using e by (simp add: entry_end_def)
    have k1: "1 \<le> log2_block_size device" using lg by simp
    have x: "length (w16 (ucast (v AND 0xffff))) = 2 ^ 1" by (simp add: w16_def)
    obtain j uf1 uf2 uf3 where w:
        "ufat_cache_open uf (fat_start (bpb uf) + offset_block (log2_block_size device - 1) i) False = Inr (int j, uf1)"
        "ufat_cache_write uf1 j = Inr uf2"
        "slot_store uf2 j (offset_rest (log2_block_size device - 1) i * 2 ^ 1) (w16 (ucast (v AND 0xffff))) = Inr uf3"
        "fat_step uf (patch (fat_byte uf) (2 ^ 1 * unat i) (w16 (ucast (v AND 0xffff)))) uf3"
      by (rule write_entry [OF c k1 e1 x])
    have "ufat_write_fat uf i v = Inr (0, uf3)"
      using w(1-3) n UFAT_TYPE_FAT16 by (simp add: ufat_write_fat_def write_fat16_def Let_def lg_dev [OF c])
    then show thesis using that w(4) UFAT_TYPE_FAT16 by (simp add: entry_update_def)
  next
    case UFAT_TYPE_FAT32
    then have e2: "2 ^ 2 * unat i < fat_len (bpb uf)" using e by (simp add: entry_end_def)
    have k2: "2 \<le> log2_block_size device" using lg by simp
    have x: "length (w32 v) = 2 ^ 2" by (simp add: w32_def w16_def)
    obtain j uf1 uf2 uf3 where w:
        "ufat_cache_open uf (fat_start (bpb uf) + offset_block (log2_block_size device - 2) i) False = Inr (int j, uf1)"
        "ufat_cache_write uf1 j = Inr uf2"
        "slot_store uf2 j (offset_rest (log2_block_size device - 2) i * 2 ^ 2) (w32 v) = Inr uf3"
        "fat_step uf (patch (fat_byte uf) (2 ^ 2 * unat i) (w32 v)) uf3"
      by (rule write_entry [OF c k2 e2 x])
    have "ufat_write_fat uf i v = Inr (0, uf3)"
      using w(1-3) n UFAT_TYPE_FAT32 by (simp add: ufat_write_fat_def write_fat32_def Let_def lg_dev [OF c])
    then show thesis using that w(4) UFAT_TYPE_FAT32 by (simp add: entry_update_def)
  qed
qed

text \<open>The entries after a write.\<close>

lemma fat_step_entry:
  assumes t: "table_ok (bpb uf)" and f: "fat_step uf f uf'" and j: "j < unat (num_clusters (bpb uf))"
  shows "fat_entry uf' j = entry_of (fat_type (bpb uf)) f j"
  unfolding fat_entry_def fat_stepD(2) [OF f]
  using fat_stepD(6) [OF f] entry_in_table [OF t j] by (intro entry_of_cong) simp

lemma fat_step_update:
  assumes "table_ok (bpb uf)" "fat_step uf (entry_update (fat_type (bpb uf)) (fat_byte uf) i v) uf'"
    "storable (fat_type (bpb uf)) v" "j < unat (num_clusters (bpb uf))"
  shows "fat_entry uf' j = (if j = i then v else fat_entry uf j)"
  using fat_step_entry [OF assms(1,2,4)] entry_of_update [OF assms(3)] by (simp add: fat_entry_def)

lemma keeps_entry:
  "table_ok (bpb uf) \<Longrightarrow> cache_ok uf \<Longrightarrow> keeps uf uf' \<Longrightarrow> j < unat (num_clusters (bpb uf)) \<Longrightarrow> fat_entry uf' j = fat_entry uf j"
  using fat_step_entry [OF _ keeps_fat_step] by (simp add: fat_entry_def)

end

end
