(* ===== verification/Fat_Free.thy ===== *)
theory Fat_Free
  imports Fat_Access
begin

text \<open>Counting, freeing and allocating clusters, on the array of entries.\<close>

section \<open>Chains in an array of entries\<close>

text \<open>The clusters that are met from \<open>c\<close> on, in a table of \<open>n\<close> clusters.\<close>

inductive chained :: "(nat \<Rightarrow> u32) \<Rightarrow> nat \<Rightarrow> u32 \<Rightarrow> nat \<Rightarrow> bool" for F n where
  chained_here: "UFAT_CLUSTER_IS_PTR c \<Longrightarrow> unat c < n \<Longrightarrow> chained F n c (unat c)"
| chained_next: "UFAT_CLUSTER_IS_PTR c \<Longrightarrow> unat c < n \<Longrightarrow> chained F n (F (unat c)) j \<Longrightarrow> chained F n c j"

inductive_cases chainedE: "chained F n c j"

lemma chained_cases: "chained F n c j \<longleftrightarrow> UFAT_CLUSTER_IS_PTR c \<and> unat c < n \<and> (j = unat c \<or> chained F n (F (unat c)) j)"
  by (auto intro: chained.intros elim: chainedE)

lemma chained_bound: "chained F n c j \<Longrightarrow> j < n"
  by (induction rule: chained.induct) simp_all

lemma not_ptr_free: "\<not> UFAT_CLUSTER_IS_PTR 0"
  by (simp add: UFAT_CLUSTER_IS_PTR_def)

lemma chained_cut:
  assumes c: "UFAT_CLUSTER_IS_PTR c" "unat c < n"
  shows "chained F n c j \<longleftrightarrow> j = unat c \<or> chained (F(unat c := 0)) n (F (unat c)) j"
proof
  let ?G = "F(unat c := 0)"
  have "j = unat c \<or> chained ?G n x j \<or> chained ?G n (F (unat c)) j" if "chained F n x j" for x
    using that
  proof (induction rule: chained.induct)
    case (chained_here x)
    then show ?case using chained.chained_here by blast
  next
    case (chained_next x j)
    show ?case
    proof (cases "unat x = unat c")
      case True
      then show ?thesis using chained_next.IH by metis
    next
      case False
      then have "?G (unat x) = F (unat x)" by simp
      then show ?thesis using chained_next chained.chained_next [of x n ?G j] by metis
    qed
  qed
  then show "chained F n c j \<Longrightarrow> j = unat c \<or> chained ?G n (F (unat c)) j" using chained_cases [of F n c j] by blast
next
  let ?G = "F(unat c := 0)"
  have "j = unat c \<or> chained F n x j" if "chained ?G n x j" for x
    using that
  proof (induction rule: chained.induct)
    case (chained_here x)
    then show ?case using chained.chained_here by blast
  next
    case (chained_next x j)
    show ?case
    proof (cases "unat x = unat c")
      case True
      then show ?thesis using chained_next.hyps(3) not_ptr_free by (auto elim: chainedE)
    next
      case False
      then have "?G (unat x) = F (unat x)" by simp
      then show ?thesis using chained_next chained.chained_next [of x n F j] by metis
    qed
  qed
  then show "j = unat c \<or> chained ?G n (F (unat c)) j \<Longrightarrow> chained F n c j"
    using c chained_cases [of F n c j] by blast
qed

text \<open>A chain that leaves the volume.\<close>

definition strays :: "nat \<Rightarrow> u32 \<Rightarrow> bool" where
  "strays n c \<longleftrightarrow> UFAT_CLUSTER_IS_PTR c \<and> n \<le> unat c"

definition chain_strays :: "(nat \<Rightarrow> u32) \<Rightarrow> nat \<Rightarrow> u32 \<Rightarrow> bool" where
  "chain_strays F n c \<longleftrightarrow> strays n c \<or> (\<exists>j. chained F n c j \<and> strays n (F j))"

lemma chain_strays_cut:
  assumes c: "UFAT_CLUSTER_IS_PTR c" "unat c < n"
  shows "chain_strays F n c \<longleftrightarrow> chain_strays (F(unat c := 0)) n (F (unat c))"
proof -
  have "strays n ((F(unat c := 0)) j) \<longleftrightarrow> j \<noteq> unat c \<and> strays n (F j)" for j by (simp add: strays_def not_ptr_free)
  moreover have "\<not> strays n c" using c by (simp add: strays_def)
  ultimately show ?thesis unfolding chain_strays_def chained_cut [OF c] by blast
qed

definition in_use :: "(nat \<Rightarrow> u32) \<Rightarrow> nat \<Rightarrow> nat" where
  "in_use F n = card {j. j < n \<and> F j \<noteq> 0}"

lemma in_use_free: "c < n \<Longrightarrow> F c \<noteq> 0 \<Longrightarrow> in_use (F(c := 0)) n < in_use F n"
  unfolding in_use_def by (rule psubset_card_mono) auto

lemma in_use_bound: "in_use F n \<le> n"
proof -
  have "in_use F n \<le> card {..<n}" unfolding in_use_def by (rule card_mono) auto
  then show ?thesis by simp
qed

lemma in_use_cong: "(\<And>j. j < n \<Longrightarrow> F j = G j) \<Longrightarrow> in_use F n = in_use G n"
  unfolding in_use_def by (rule arg_cong [of _ _ card]) auto

lemma chained_cong: "(\<And>j. j < n \<Longrightarrow> F j = G j) \<Longrightarrow> chained F n c j \<Longrightarrow> chained G n c j"
  by (rotate_tac 1, induction rule: chained.induct) (auto intro: chained.intros)

lemma chained_cong_iff: "(\<And>j. j < n \<Longrightarrow> F j = G j) \<Longrightarrow> chained F n c j = chained G n c j"
  using chained_cong [of n F G] chained_cong [of n G F] by metis

lemma chain_strays_cong: "(\<And>j. j < n \<Longrightarrow> F j = G j) \<Longrightarrow> chain_strays F n c = chain_strays G n c"
  unfolding chain_strays_def using chained_cong_iff [of n F G c] chained_bound [of G n c] by metis

text \<open>A chain as the list of its clusters, up to the value \<open>e\<close> in its last entry.\<close>

fun linked :: "(nat \<Rightarrow> u32) \<Rightarrow> u32 \<Rightarrow> nat list \<Rightarrow> u32 \<Rightarrow> bool" where
  "linked F c [] e \<longleftrightarrow> c = e"
| "linked F c (j # js) e \<longleftrightarrow> unat c = j \<and> linked F (F j) js e"

lemma linked_update: "k \<notin> set js \<Longrightarrow> linked (F(k := v)) c js e = linked F c js e"
  by (induction js arbitrary: c) auto

lemma linked_cong: "(\<And>j. j \<in> set js \<Longrightarrow> F j = G j) \<Longrightarrow> linked F c js e = linked G c js e"
  by (induction js arbitrary: c) auto

lemma linked_in_use:
  "linked F c js e \<Longrightarrow> \<forall>j \<in> set js. 2 \<le> j \<Longrightarrow> e \<noteq> UFAT_CLUSTER_FREE \<Longrightarrow> \<forall>j \<in> set js. F j \<noteq> UFAT_CLUSTER_FREE"
proof (induction js arbitrary: c)
  case (Cons k js)
  have "F k \<noteq> UFAT_CLUSTER_FREE" using Cons.prems by (cases js) (auto simp: UFAT_CLUSTER_FREE_def)
  then show ?case using Cons.IH [of "F k"] Cons.prems by auto
qed simp

lemma linked_chained:
  "linked F c js e \<Longrightarrow> \<not> UFAT_CLUSTER_IS_PTR e \<Longrightarrow> \<forall>j \<in> set js. 2 \<le> j \<and> j < n \<Longrightarrow> n \<le> 0xffffff0 \<Longrightarrow>
    chained F n c j \<longleftrightarrow> j \<in> set js"
proof (induction js arbitrary: c)
  case Nil
  then show ?case by (auto elim: chainedE)
next
  case (Cons k js)
  then have c: "unat c = k" "2 \<le> k" "k < n" by auto
  then have "UFAT_CLUSTER_IS_PTR c" using Cons.prems(4) by (simp add: UFAT_CLUSTER_IS_PTR_def word_le_nat_alt word_less_nat_alt)
  then show ?case using Cons.IH [of "F k"] Cons.prems c chained_cases [of F n c j] by auto
qed

text \<open>Entries of a volume as steps on the array, and freeing a chain.\<close>

lemma storable_free: "storable t UFAT_CLUSTER_FREE"
  by (cases t) (simp_all add: storable_def UFAT_CLUSTER_FREE_def)

lemma storable_eoc: "storable t UFAT_CLUSTER_EOC"
  by (simp add: storable_def)

text \<open>A number of the volume can be stored; in FAT12, 0xff0 cannot.\<close>

definition usable :: "ufat_fat_type_t \<Rightarrow> nat \<Rightarrow> bool" where
  "usable t j \<longleftrightarrow> \<not> (t = UFAT_TYPE_FAT12 \<and> j = 0xff0)"

lemma storable_cluster: "unat c < n \<Longrightarrow> n \<le> max_clusters t \<Longrightarrow> usable t (unat c) \<Longrightarrow> storable t c"
  by (cases t) (auto simp: storable_def max_clusters_def usable_def word_less_nat_alt)

definition free_clusters :: "ufat_fat_type_t \<Rightarrow> (nat \<Rightarrow> u32) \<Rightarrow> nat \<Rightarrow> nat set" where
  "free_clusters t F n = {j. 2 \<le> j \<and> j < n \<and> usable t j \<and> F j = UFAT_CLUSTER_FREE}"

lemma finite_free_clusters [simp]: "finite (free_clusters t F n)"
  unfolding free_clusters_def by (rule finite_subset [of _ "{..<n}"]) auto

lemma free_clusters_cong: "(\<And>j. j < n \<Longrightarrow> F j = G j) \<Longrightarrow> free_clusters t F n = free_clusters t G n"
  by (auto simp: free_clusters_def)

context block_device
begin

abbreviation nclus :: "'d ufat \<Rightarrow> nat" where "nclus uf \<equiv> unat (num_clusters (bpb uf))"
abbreviation ftype :: "'d ufat \<Rightarrow> ufat_fat_type_t" where "ftype uf \<equiv> fat_type (bpb uf)"

text \<open>A step that leaves everything but the entries, which are then \<open>F\<close>.\<close>

definition table_step :: "'d ufat \<Rightarrow> (nat \<Rightarrow> u32) \<Rightarrow> 'd ufat \<Rightarrow> bool" where
  "table_step uf F uf' \<longleftrightarrow> cache_ok uf' \<and> bpb uf' = bpb uf \<and> cache_size uf' = cache_size uf \<and>
     (\<forall>x < nblocks. \<not> is_mirror (bpb uf) x \<longrightarrow> \<not> in_fat (bpb uf) x \<longrightarrow> view uf' x = view uf x) \<and>
     (\<forall>j < nclus uf. fat_entry uf' j = F j) \<and> (fats_equal uf \<longrightarrow> fats_equal uf')"

lemma table_stepD:
  assumes "table_step uf F uf'"
  shows "cache_ok uf'" "bpb uf' = bpb uf" "cache_size uf' = cache_size uf"
    "x < nblocks \<Longrightarrow> \<not> is_mirror (bpb uf) x \<Longrightarrow> \<not> in_fat (bpb uf) x \<Longrightarrow> view uf' x = view uf x"
    "j < nclus uf \<Longrightarrow> fat_entry uf' j = F j" "fats_equal uf \<Longrightarrow> fats_equal uf'"
  using assms unfolding table_step_def by blast+

lemma table_step_refl: "cache_ok uf \<Longrightarrow> table_step uf (fat_entry uf) uf"
  by (simp add: table_step_def)

lemma table_step_trans: "table_step uf F uf1 \<Longrightarrow> table_step uf1 G uf2 \<Longrightarrow> table_step uf G uf2"
  by (simp add: table_step_def)

lemma table_step_cong: "table_step uf F uf' \<Longrightarrow> (\<And>j. j < nclus uf \<Longrightarrow> F j = G j) \<Longrightarrow> table_step uf G uf'"
  by (simp add: table_step_def)

lemma table_step_upd:
  "table_step uf F uf1 \<Longrightarrow> table_step uf1 ((fat_entry uf1)(i := v)) uf2 \<Longrightarrow> table_step uf (F(i := v)) uf2"
  by (auto simp: table_step_def)

lemma read_fat_step:
  assumes "cache_ok uf" "table_ok (bpb uf)" "unat i < nclus uf"
  obtains uf' where "ufat_read_fat uf i = Inr (Inr (fat_entry uf (unat i)), uf')" "table_step uf (fat_entry uf) uf'"
    "alloc_ptr uf' = alloc_ptr uf"
proof -
  obtain uf' where r: "ufat_read_fat uf i = Inr (Inr (fat_entry uf (unat i)), uf')" "keeps uf uf'"
    by (rule read_fat_ok [OF assms])
  have "table_step uf (fat_entry uf) uf'"
    using keeps_facts [OF r(2)] keeps_entry [OF assms(2,1) r(2)] by (simp add: table_step_def)
  then show thesis using that r(1) keeps_facts(4) [OF r(2)] by blast
qed

lemma write_fat_step:
  assumes "cache_ok uf" "table_ok (bpb uf)" "unat i < nclus uf" "storable (ftype uf) v"
  obtains uf' where "ufat_write_fat uf i v = Inr (0, uf')" "table_step uf ((fat_entry uf)(unat i := v)) uf'"
    "alloc_ptr uf' = alloc_ptr uf"
proof -
  obtain uf' where w: "ufat_write_fat uf i v = Inr (0, uf')"
      "fat_step uf (entry_update (ftype uf) (fat_byte uf) (unat i) v) uf'"
    by (rule write_fat_ok [OF assms(1-3)])
  have "table_step uf ((fat_entry uf)(unat i := v)) uf'"
    using fat_stepD [OF w(2)] fat_step_update [OF assms(2) w(2) assms(4)] by (simp add: table_step_def)
  then show thesis using that w(1) fat_stepD(4) [OF w(2)] by blast
qed

section \<open>Freeing a chain\<close>

lemma free_chain_loop_ok:
  "cache_ok uf \<Longrightarrow> table_ok (bpb uf) \<Longrightarrow> in_use (fat_entry uf) (nclus uf) + 2 \<le> k \<Longrightarrow>
    \<exists>uf'. free_chain_loop k c uf =
        Inr (if chain_strays (fat_entry uf) (nclus uf) c then - UFAT_ERR_INVALID_CLUSTER else 0, uf') \<and>
      table_step uf (\<lambda>j. if chained (fat_entry uf) (nclus uf) c j then UFAT_CLUSTER_FREE else fat_entry uf j) uf' \<and>
      alloc_ptr uf' = alloc_ptr uf"
proof (induction k arbitrary: c uf)
  case 0
  then show ?case by simp
next
  case (Suc k)
  let ?F = "fat_entry uf" and ?n = "nclus uf"
  show ?case
  proof (cases "UFAT_CLUSTER_IS_PTR c \<and> unat c < ?n")
    case False
    have nc: "\<not> chained ?F ?n c j" for j using False chained_cases by blast
    have "free_chain_loop (Suc k) c uf = Inr (if chain_strays ?F ?n c then - UFAT_ERR_INVALID_CLUSTER else 0, uf)"
      using False by (auto simp: nc chain_strays_def strays_def ufat_read_fat_def word_le_nat_alt UFAT_ERR_INVALID_CLUSTER_def)
    then show ?thesis using table_step_refl [OF Suc.prems(1)] nc by auto
  next
    case True
    then have p: "UFAT_CLUSTER_IS_PTR c" "unat c < ?n" by blast+
    obtain uf1 where r: "ufat_read_fat uf c = Inr (Inr (?F (unat c)), uf1)" "table_step uf ?F uf1" "alloc_ptr uf1 = alloc_ptr uf"
      by (rule read_fat_step [OF Suc.prems(1,2) p(2)])
    note R = table_stepD [OF r(2)]
    have t1: "table_ok (bpb uf1)" "unat c < nclus uf1" using R(2) Suc.prems(2) p(2) by simp_all
    obtain uf2 where w: "ufat_write_fat uf1 c UFAT_CLUSTER_FREE = Inr (0, uf2)"
        "table_step uf1 ((fat_entry uf1)(unat c := UFAT_CLUSTER_FREE)) uf2" "alloc_ptr uf2 = alloc_ptr uf1"
      by (rule write_fat_step [OF R(1) t1 storable_free])
    let ?G = "?F(unat c := 0)"
    have s: "table_step uf ?G uf2"
      using table_step_upd [OF r(2) w(2)] by (simp add: UFAT_CLUSTER_FREE_def)
    note S = table_stepD [OF s]
    have G: "j < ?n \<Longrightarrow> fat_entry uf2 j = ?G j" for j by (rule S(5))
    have step: "free_chain_loop (Suc k) c uf = free_chain_loop k (?F (unat c)) uf2"
      using p(1) r(1) w(1) by simp
    have cut: "chained ?F ?n c j \<longleftrightarrow> j = unat c \<or> chained (fat_entry uf2) ?n (?F (unat c)) j" for j
      by (simp only: chained_cut [OF p, where F = ?F] chained_cong_iff [OF G])
    have stray: "chain_strays ?F ?n c \<longleftrightarrow> chain_strays (fat_entry uf2) ?n (?F (unat c))"
      by (simp only: chain_strays_cut [OF p, where F = ?F] chain_strays_cong [OF G])
    have res: "(\<lambda>j. if chained (fat_entry uf2) ?n (?F (unat c)) j then UFAT_CLUSTER_FREE else fat_entry uf2 j) j =
        (if chained ?F ?n c j then UFAT_CLUSTER_FREE else ?F j)" if "j < ?n" for j
      using G [OF that] cut by (auto simp: UFAT_CLUSTER_FREE_def)
    show ?thesis
    proof (cases "?F (unat c) = 0")
      case True
      obtain k' where k: "k = Suc k'" using Suc.prems(3) by (cases k) auto
      have nc: "\<not> chained (fat_entry uf2) ?n 0 j" for j using chained_cases [of _ _ 0] not_ptr_free by blast
      then have ns: "\<not> chain_strays (fat_entry uf2) ?n 0" by (simp add: chain_strays_def strays_def not_ptr_free)
      have "free_chain_loop k 0 uf2 = Inr (0, uf2)" by (simp add: k not_ptr_free)
      moreover have "table_step uf (\<lambda>j. if chained ?F ?n c j then UFAT_CLUSTER_FREE else ?F j) uf2"
        by (rule table_step_cong [OF s]) (use cut nc True in \<open>auto simp: UFAT_CLUSTER_FREE_def\<close>)
      ultimately show ?thesis using step stray ns True r(3) w(3) by auto
    next
      case False
      have "in_use (fat_entry uf2) ?n = in_use ?G ?n" by (rule in_use_cong) (rule G)
      also have "\<dots> < in_use ?F ?n" by (rule in_use_free [where F = ?F, OF p(2) False])
      finally have "in_use (fat_entry uf2) (nclus uf2) + 2 \<le> k" using Suc.prems(3) S(2) by simp
      then obtain uf3 where f: "free_chain_loop k (?F (unat c)) uf2 =
            Inr (if chain_strays (fat_entry uf2) ?n (?F (unat c)) then - UFAT_ERR_INVALID_CLUSTER else 0, uf3)"
          "table_step uf2 (\<lambda>j. if chained (fat_entry uf2) ?n (?F (unat c)) j then UFAT_CLUSTER_FREE else fat_entry uf2 j) uf3"
          "alloc_ptr uf3 = alloc_ptr uf2"
        using Suc.IH [OF S(1), of "?F (unat c)"] Suc.prems(2) unfolding S(2) by blast
      have "table_step uf (\<lambda>j. if chained ?F ?n c j then UFAT_CLUSTER_FREE else ?F j) uf3"
        by (rule table_step_cong [OF table_step_trans [OF s f(2)]]) (rule res)
      then show ?thesis using step stray f(1,3) r(3) w(3) by auto
    qed
  qed
qed

lemma free_chain_ok:
  assumes "cache_ok uf" "table_ok (bpb uf)"
  obtains uf' where "ufat_free_chain uf c =
      Inr (if chain_strays (fat_entry uf) (nclus uf) c then - UFAT_ERR_INVALID_CLUSTER else 0, uf')"
    "table_step uf (\<lambda>j. if chained (fat_entry uf) (nclus uf) c j then UFAT_CLUSTER_FREE else fat_entry uf j) uf'"
    "alloc_ptr uf' = alloc_ptr uf"
  using free_chain_loop_ok [OF assms, of "nclus uf + 2" c] in_use_bound [of "fat_entry uf" "nclus uf"] that
  unfolding ufat_free_chain_def by auto

end

end
