(* ===== verification/Fat_Alloc.thy ===== *)
theory Fat_Alloc
  imports Fat_Free
begin

text \<open>Counting and allocating clusters on a volume.\<close>

lemma mod_step: "((p + 1) mod n + m) mod n = (p + Suc m) mod (n::nat)"
  by (simp add: mod_add_left_eq)

lemma unat_next_mod: "0 < unat n \<Longrightarrow> unat (p::u32) < unat n \<Longrightarrow> unat ((p + 1) mod n) = (unat p + 1) mod unat n"
proof -
  assume n: "0 < unat n" and p: "unat p < unat n"
  have "unat n < 2 ^ 32" using unsigned_less [of n] by simp
  then have "unat p + 1 < 2 ^ 32" using p by linarith
  then have "unat (p + 1) = unat p + 1" by (simp add: unat_word_ariths)
  then show ?thesis by (simp add: unat_mod_distrib)
qed

context block_device
begin

definition free_set :: "'d ufat \<Rightarrow> nat set" where
  "free_set uf = free_clusters (ftype uf) (fat_entry uf) (nclus uf)"

text \<open>The search position is one of the clusters.\<close>

definition ptr_ok :: "'d ufat \<Rightarrow> bool" where
  "ptr_ok uf \<longleftrightarrow> nclus uf = 2 \<or> unat (alloc_ptr uf) < nclus uf - 2"

lemma free_set_step: "table_step uf (fat_entry uf) uf' \<Longrightarrow> free_set uf' = free_set uf"
  unfolding free_set_def using table_stepD(2,5) [of uf "fat_entry uf" uf'] free_clusters_cong by metis

lemma table_step_same:
  "table_step uf (fat_entry uf) uf1 \<Longrightarrow> table_step uf1 (fat_entry uf1) uf2 \<Longrightarrow> table_step uf (fat_entry uf) uf2"
  by (simp add: table_step_def)

lemma table_step_ptr: "cache_ok uf \<Longrightarrow> table_step uf (fat_entry uf) (uf\<lparr>alloc_ptr := x\<rparr>)"
proof -
  assume c: "cache_ok uf"
  let ?u = "uf\<lparr>alloc_ptr := x\<rparr>"
  have f: "slot_flags ?u j = slot_flags uf j" "slot_blk ?u j = slot_blk uf j" for j by (simp_all add: slot_flags_def slot_blk_def)
  have s: "dev ?u = dev uf" "bpb ?u = bpb uf" "cache_size ?u = cache_size uf" "cache_data ?u = cache_data uf" "disk ?u = disk uf"
    "length (cache_desc ?u) = length (cache_desc uf)" by simp_all
  note S = same_slots [OF c s f]
  have "fat_entry ?u = fat_entry uf" by (simp add: fat_entry_def fat_byte_def [abs_def] S(2))
  then show ?thesis using S by (simp add: table_step_def)
qed

lemma cyclic_index:
  "m < unat n_total \<Longrightarrow> n_total = num_clusters p - 2 \<Longrightarrow> 2 \<le> unat (num_clusters p) \<Longrightarrow> 2 + m < unat (num_clusters p)"
  by (simp add: unat_sub word_le_nat_alt)

text \<open>The search goes through the clusters in a circle and takes the first free one.\<close>

lemma alloc_cluster_loop_ok:
  assumes T: "n_total = num_clusters p - 2" "0 < unat n_total"
  shows "cache_ok uf \<Longrightarrow> table_ok p \<Longrightarrow> bpb uf = p \<Longrightarrow> unat (alloc_ptr uf) < unat n_total \<Longrightarrow> storable (fat_type p) tail \<Longrightarrow>
    \<exists>r uf'. alloc_cluster_loop k n_total tail uf = Inr (r, uf') \<and> ptr_ok uf' \<and>
      ((\<exists>m < k. r = Inr (of_nat (2 + (unat (alloc_ptr uf) + m) mod unat n_total)) \<and>
          2 + (unat (alloc_ptr uf) + m) mod unat n_total \<in> free_set uf \<and>
          (\<forall>l < m. 2 + (unat (alloc_ptr uf) + l) mod unat n_total \<notin> free_set uf) \<and>
          table_step uf ((fat_entry uf)(2 + (unat (alloc_ptr uf) + m) mod unat n_total := tail)) uf') \<or>
       r = Inl (- UFAT_ERR_NO_CLUSTERS) \<and> table_step uf (fat_entry uf) uf' \<and>
          (\<forall>l < k. 2 + (unat (alloc_ptr uf) + l) mod unat n_total \<notin> free_set uf))"
proof (induction k arbitrary: uf)
  case 0
  have "unat n_total = unat (num_clusters p) - 2"
    using T(1) 0(2) by (simp add: table_ok_def unat_sub word_le_nat_alt)
  then have "ptr_ok uf" using 0(3,4) by (simp add: ptr_ok_def)
  then show ?case using table_step_refl [OF 0(1)] by simp
next
  case (Suc k)
  note c = Suc.prems(1) and t = Suc.prems(2) and b = Suc.prems(3)
  let ?T = "unat n_total" and ?q = "unat (alloc_ptr uf)" and ?idx = "alloc_ptr uf + 2"
  have n2: "2 \<le> unat (num_clusters p)" using t by (simp add: table_ok_def)
  have q: "2 + ?q < unat (num_clusters p)" by (rule cyclic_index [OF Suc.prems(4) T(1) n2])
  moreover have "unat (num_clusters p) < 2 ^ 32" using unsigned_less [of "num_clusters p"] by simp
  ultimately have idx: "unat ?idx = 2 + ?q" by (simp add: unat_word_ariths)
  have q0: "(?q + 0) mod ?T = ?q" using Suc.prems(4) by simp
  define uf1 where "uf1 = uf\<lparr>alloc_ptr := (alloc_ptr uf + 1) mod n_total\<rparr>"
  have s1: "table_step uf (fat_entry uf) uf1" unfolding uf1_def by (rule table_step_ptr [OF c])
  note S1 = table_stepD [OF s1]
  have q1: "unat (alloc_ptr uf1) = (?q + 1) mod ?T" using unat_next_mod [OF T(2) Suc.prems(4)] by (simp add: uf1_def)
  then have q1T: "unat (alloc_ptr uf1) < ?T" using T(2) by simp
  have free_iff: "2 + ?q \<in> free_set uf \<longleftrightarrow> usable (fat_type p) (2 + ?q) \<and> fat_entry uf (2 + ?q) = UFAT_CLUSTER_FREE"
    using q b by (simp add: free_set_def free_clusters_def)
  have skip: "?idx = 0xff0 \<and> fat_type (bpb uf1) = UFAT_TYPE_FAT12 \<longleftrightarrow> \<not> usable (fat_type p) (2 + ?q)"
    using idx S1(2) b by (auto simp: usable_def word_unat_eq_iff)
  have go_on: ?case
    if s: "table_step uf (fat_entry uf) uf2" and q2: "unat (alloc_ptr uf2) = (?q + 1) mod ?T"
      and e: "alloc_cluster_loop (Suc k) n_total tail uf = alloc_cluster_loop k n_total tail uf2"
      and nf: "2 + ?q \<notin> free_set uf" for uf2
  proof -
    note S = table_stepD [OF s] and fs = free_set_step [OF s]
    have b2: "bpb uf2 = p" using S(2) b by simp
    have q2T: "unat (alloc_ptr uf2) < ?T" using q2 T(2) by simp
    have pos: "(unat (alloc_ptr uf2) + m) mod ?T = (?q + Suc m) mod ?T" for m unfolding q2 by (rule mod_step)
    have none: "\<forall>l < Suc m. 2 + (?q + l) mod ?T \<notin> free_set uf"
      if "\<forall>l < m. 2 + (?q + Suc l) mod ?T \<notin> free_set uf" for m
      using that nf q0 by (auto simp: less_Suc_eq_0_disj)
    obtain r uf' where r: "alloc_cluster_loop k n_total tail uf2 = Inr (r, uf')" "ptr_ok uf'"
      "(\<exists>m < k. r = Inr (of_nat (2 + (?q + Suc m) mod ?T)) \<and> 2 + (?q + Suc m) mod ?T \<in> free_set uf \<and>
          (\<forall>l < m. 2 + (?q + Suc l) mod ?T \<notin> free_set uf) \<and>
          table_step uf2 ((fat_entry uf2)(2 + (?q + Suc m) mod ?T := tail)) uf') \<or>
       r = Inl (- UFAT_ERR_NO_CLUSTERS) \<and> table_step uf2 (fat_entry uf2) uf' \<and>
          (\<forall>l < k. 2 + (?q + Suc l) mod ?T \<notin> free_set uf)"
      using Suc.IH [OF S(1) t b2 q2T Suc.prems(5)] unfolding pos fs by blast
    show ?thesis
      using r(3)
    proof
      assume "\<exists>m < k. r = Inr (of_nat (2 + (?q + Suc m) mod ?T)) \<and> 2 + (?q + Suc m) mod ?T \<in> free_set uf \<and>
          (\<forall>l < m. 2 + (?q + Suc l) mod ?T \<notin> free_set uf) \<and>
          table_step uf2 ((fat_entry uf2)(2 + (?q + Suc m) mod ?T := tail)) uf'"
      then obtain m where m: "m < k" "r = Inr (of_nat (2 + (?q + Suc m) mod ?T))" "2 + (?q + Suc m) mod ?T \<in> free_set uf"
          "\<forall>l < m. 2 + (?q + Suc l) mod ?T \<notin> free_set uf"
          "table_step uf2 ((fat_entry uf2)(2 + (?q + Suc m) mod ?T := tail)) uf'" by blast
      have "Suc m < Suc k" using m(1) by simp
      then show ?thesis
        using m(2,3) none [OF m(4)] table_step_upd [OF s m(5)] r(1,2) unfolding e by blast
    next
      assume "r = Inl (- UFAT_ERR_NO_CLUSTERS) \<and> table_step uf2 (fat_entry uf2) uf' \<and> (\<forall>l < k. 2 + (?q + Suc l) mod ?T \<notin> free_set uf)"
      moreover have "table_step uf2 (fat_entry uf2) uf' \<Longrightarrow> table_step uf (fat_entry uf) uf'"
        by (rule table_step_same [OF s])
      ultimately show ?thesis using none [of k] r(1,2) unfolding e by blast
    qed
  qed
  show ?case
  proof (cases "usable (fat_type p) (2 + ?q)")
    case False
    then have "alloc_cluster_loop (Suc k) n_total tail uf = alloc_cluster_loop k n_total tail uf1"
      using skip by (simp add: Let_def uf1_def)
    then show ?thesis using go_on [OF s1 q1] False free_iff by blast
  next
    case True
    have i1: "unat ?idx < nclus uf1" using S1(2) b idx q by simp
    have t1: "table_ok (bpb uf1)" using S1(2) b t by simp
    obtain uf2 where r: "ufat_read_fat uf1 ?idx = Inr (Inr (fat_entry uf1 (unat ?idx)), uf2)" "table_step uf1 (fat_entry uf1) uf2"
        "alloc_ptr uf2 = alloc_ptr uf1"
      by (rule read_fat_step [OF S1(1) t1 i1])
    have e1: "fat_entry uf1 (unat ?idx) = fat_entry uf (2 + ?q)" using S1(5) [of "2 + ?q"] idx q b by simp
    have s2: "table_step uf (fat_entry uf) uf2"
      by (rule table_step_cong [OF table_step_trans [OF s1 r(2)]]) (rule S1(5))
    note S2 = table_stepD [OF s2]
    have ns: "\<not> (?idx = 0xff0 \<and> fat_type (bpb uf1) = UFAT_TYPE_FAT12)" using skip True by blast
    have loop: "alloc_cluster_loop (Suc k) n_total tail uf =
        (if fat_entry uf (2 + ?q) = UFAT_CLUSTER_FREE
         then rbind (ufat_write_fat uf2 ?idx tail) (\<lambda>(err, uf). if err < 0 then Inr (Inl err, uf) else Inr (Inr ?idx, uf))
         else alloc_cluster_loop k n_total tail uf2)"
      unfolding alloc_cluster_loop.simps Let_def uf1_def [symmetric] if_not_P [OF ns] r(1) rbind_Inr e1 by simp
    show ?thesis
    proof (cases "fat_entry uf (2 + ?q) = UFAT_CLUSTER_FREE")
      case False
      then show ?thesis using go_on [OF s2] q1 r(3) loop free_iff by simp
    next
      case True
      have t2: "table_ok (bpb uf2)" "unat ?idx < nclus uf2" "storable (ftype uf2) tail"
        using S2(2) b t idx q Suc.prems(5) by simp_all
      obtain uf3 where w: "ufat_write_fat uf2 ?idx tail = Inr (0, uf3)"
          "table_step uf2 ((fat_entry uf2)(unat ?idx := tail)) uf3" "alloc_ptr uf3 = alloc_ptr uf2"
        by (rule write_fat_step [OF S2(1) t2])
      have s3: "table_step uf ((fat_entry uf)(2 + ?q := tail)) uf3"
        using table_step_upd [OF s2 w(2)] unfolding idx .
      have "nclus uf3 = 2 \<or> unat (alloc_ptr uf3) < nclus uf3 - 2"
        using q1T w(3) r(3) table_stepD(2) [OF s3] b T(1) n2 by (simp add: unat_sub word_le_nat_alt)
      then have p3: "ptr_ok uf3" by (simp add: ptr_ok_def)
      have "?idx = of_nat (2 + ?q)" by simp
      then have "alloc_cluster_loop (Suc k) n_total tail uf = Inr (Inr (of_nat (2 + ?q)), uf3)"
        using loop True w(1) by (simp only: if_True rbind_Inr) simp
      then show ?thesis
        using p3 s3 True \<open>usable (fat_type p) (2 + ?q)\<close> free_iff
        by (intro exI [of _ "Inr (of_nat (2 + ?q))"] exI [of _ uf3] conjI disjI1 exI [of _ 0])
          (simp_all only: q0 zero_less_Suc not_less_zero simp_thms)
    qed
  qed
qed

lemma circle_reaches: "(j::nat) < n \<Longrightarrow> q < n \<Longrightarrow> \<exists>m < n. (q + m) mod n = j"
proof -
  assume j: "j < n" and q: "q < n"
  have "(q + (if q \<le> j then j - q else n - q + j)) mod n = j" using j q by auto
  moreover have "(if q \<le> j then j - q else n - q + j) < n" using j q by auto
  ultimately show ?thesis by blast
qed

lemma alloc_cluster_ok:
  assumes c: "cache_ok uf" and t: "table_ok (bpb uf)" and p: "ptr_ok uf" and s: "storable (ftype uf) tail"
  obtains (found) c uf' where "alloc_cluster uf tail = Inr (Inr c, uf')" "unat c \<in> free_set uf"
      "table_step uf ((fat_entry uf)(unat c := tail)) uf'" "ptr_ok uf'"
  | (full) uf' where "alloc_cluster uf tail = Inr (Inl (- UFAT_ERR_NO_CLUSTERS), uf')" "free_set uf = {}"
      "table_step uf (fat_entry uf) uf'" "ptr_ok uf'"
proof -
  have n: "2 \<le> nclus uf" using t by (simp add: table_ok_def)
  then have T: "unat (num_clusters (bpb uf) - 2) = nclus uf - 2" by (simp add: unat_sub word_le_nat_alt)
  have fs: "2 \<le> j \<and> j < nclus uf" if "j \<in> free_set uf" for j using that by (simp add: free_set_def free_clusters_def)
  show thesis
  proof (cases "nclus uf = 2")
    case True
    then have "alloc_cluster uf tail = Inr (Inl (- UFAT_ERR_NO_CLUSTERS), uf)" using T by (simp add: alloc_cluster_def Let_def)
    moreover have "free_set uf = {}" using fs True by force
    ultimately show thesis using full p table_step_refl [OF c] by blast
  next
    case False
    let ?q = "unat (alloc_ptr uf)" and ?T = "nclus uf - 2"
    have T0: "0 < unat (num_clusters (bpb uf) - 2)" and q: "?q < ?T" using False n T p by (simp_all add: ptr_ok_def)
    have q': "?q < unat (num_clusters (bpb uf) - 2)" using q T by simp
    obtain r uf' where r: "alloc_cluster uf tail = Inr (r, uf')" "ptr_ok uf'"
      "(\<exists>m < ?T. r = Inr (of_nat (2 + (?q + m) mod ?T)) \<and> 2 + (?q + m) mod ?T \<in> free_set uf \<and>
          (\<forall>l < m. 2 + (?q + l) mod ?T \<notin> free_set uf) \<and> table_step uf ((fat_entry uf)(2 + (?q + m) mod ?T := tail)) uf') \<or>
       r = Inl (- UFAT_ERR_NO_CLUSTERS) \<and> table_step uf (fat_entry uf) uf' \<and> (\<forall>l < ?T. 2 + (?q + l) mod ?T \<notin> free_set uf)"
      using alloc_cluster_loop_ok [OF refl T0 c t refl q' s, of "unat (num_clusters (bpb uf) - 2)"]
      unfolding T alloc_cluster_def Let_def by blast
    show thesis
      using r(3)
    proof
      assume "\<exists>m < ?T. r = Inr (of_nat (2 + (?q + m) mod ?T)) \<and> 2 + (?q + m) mod ?T \<in> free_set uf \<and>
          (\<forall>l < m. 2 + (?q + l) mod ?T \<notin> free_set uf) \<and> table_step uf ((fat_entry uf)(2 + (?q + m) mod ?T := tail)) uf'"
      then obtain j where j: "r = Inr (of_nat j)" "j \<in> free_set uf" "table_step uf ((fat_entry uf)(j := tail)) uf'" by blast
      have "nclus uf < 2 ^ 32" using unsigned_less [of "num_clusters (bpb uf)"] by simp
      then have "j < 2 ^ 32" using fs [OF j(2)] by linarith
      then have "unat (of_nat j :: u32) = j" by (simp add: unat_of_nat)
      then show thesis using found [of "of_nat j" uf'] r(1,2) j by simp
    next
      assume e: "r = Inl (- UFAT_ERR_NO_CLUSTERS) \<and> table_step uf (fat_entry uf) uf' \<and> (\<forall>l < ?T. 2 + (?q + l) mod ?T \<notin> free_set uf)"
      have "j \<notin> free_set uf" for j
      proof
        assume j: "j \<in> free_set uf"
        then have "j - 2 < ?T" using fs [OF j] by linarith
        then obtain m where m: "m < ?T" "(?q + m) mod ?T = j - 2" using circle_reaches [OF _ q] by blast
        have "2 + (?q + m) mod ?T \<notin> free_set uf" using e m(1) by blast
        moreover have "2 + (?q + m) mod ?T = j" using fs [OF j] unfolding m(2) by linarith
        ultimately show False using j by simp
      qed
      then show thesis using full r(1,2) e by blast
    qed
  qed
qed

section \<open>Chains\<close>

text \<open>While a chain is built: its clusters \<open>js\<close>, and the volume otherwise as it was.\<close>

definition chain_inv :: "'d ufat \<Rightarrow> nat list \<Rightarrow> u32 \<Rightarrow> 'd ufat \<Rightarrow> bool" where
  "chain_inv uf0 js c uf \<longleftrightarrow> table_step uf0 (fat_entry uf) uf \<and> ptr_ok uf \<and> storable (ftype uf0) c \<and>
     distinct js \<and> set js \<subseteq> free_set uf0 \<and> linked (fat_entry uf) c js UFAT_CLUSTER_EOC \<and>
     (\<forall>j < nclus uf0. j \<notin> set js \<longrightarrow> fat_entry uf j = fat_entry uf0 j)"

lemma chain_inv_free:
  assumes "chain_inv uf0 js c uf"
  shows "free_set uf = free_set uf0 - set js"
proof -
  note I = assms [unfolded chain_inv_def]
  have b: "bpb uf = bpb uf0" using I table_stepD(2) by blast
  have js: "\<forall>j \<in> set js. 2 \<le> j" using I by (auto simp: free_set_def free_clusters_def)
  have "\<forall>j \<in> set js. fat_entry uf j \<noteq> UFAT_CLUSTER_FREE"
    using I js by (intro linked_in_use [of "fat_entry uf" c js UFAT_CLUSTER_EOC]) (auto simp: UFAT_CLUSTER_EOC_def UFAT_CLUSTER_FREE_def)
  then show ?thesis using I by (auto simp: free_set_def free_clusters_def b)
qed

lemma alloc_chain_loop_ok:
  "table_ok (bpb uf0) \<Longrightarrow> chain_inv uf0 js c uf \<Longrightarrow>
    \<exists>r uf'. alloc_chain_loop k c uf = Inr (r, uf') \<and> ptr_ok uf' \<and>
      ((\<exists>c' js'. r = Inr c' \<and> length js' = length js + k \<and> chain_inv uf0 js' c' uf') \<or>
       r = Inl (- UFAT_ERR_NO_CLUSTERS) \<and> card (free_set uf0) < length js + k \<and> table_step uf0 (fat_entry uf0) uf')"
proof (induction k arbitrary: js c uf)
  case 0
  then show ?case by (auto simp: chain_inv_def)
next
  case (Suc k)
  note t = Suc.prems(1) and I = Suc.prems(2) [unfolded chain_inv_def] and fs = chain_inv_free [OF Suc.prems(2)]
  have s: "table_step uf0 (fat_entry uf) uf" using I by blast
  note S = table_stepD [OF s]
  have t': "table_ok (bpb uf)" "storable (ftype uf) c" "ptr_ok uf" using t I S(2) by simp_all
  show ?case
  proof (cases rule: alloc_cluster_ok [OF S(1) t'(1,3,2)])
    case (1 d uf1)
    note S1 = table_stepD [OF 1(3)]
    have d: "unat d \<in> free_set uf0" "unat d \<notin> set js" using 1(2) fs by auto
    have dn: "unat d < nclus uf0" "usable (ftype uf0) (unat d)" using d(1) by (simp_all add: free_set_def free_clusters_def)
    have jn: "\<forall>j \<in> set js. j < nclus uf0" using I by (auto simp: free_set_def free_clusters_def)
    have E: "fat_entry uf1 j = ((fat_entry uf)(unat d := c)) j" if "j < nclus uf0" for j using S1(5) S(2) that by simp
    have inv: "chain_inv uf0 (unat d # js) d uf1"
      unfolding chain_inv_def
    proof (intro conjI)
      show "table_step uf0 (fat_entry uf1) uf1"
        by (rule table_step_cong [OF table_step_trans [OF s 1(3)]]) (simp only: E)
      show "storable (ftype uf0) d" using dn t unfolding table_ok_def by (intro storable_cluster [of d "nclus uf0"]) blast+
      have "linked (fat_entry uf1) c js UFAT_CLUSTER_EOC \<longleftrightarrow> linked ((fat_entry uf)(unat d := c)) c js UFAT_CLUSTER_EOC"
        using E jn by (intro linked_cong) blast
      then show "linked (fat_entry uf1) d (unat d # js) UFAT_CLUSTER_EOC"
        using I E [OF dn(1)] linked_update [OF d(2)] by simp
      show "\<forall>j < nclus uf0. j \<notin> set (unat d # js) \<longrightarrow> fat_entry uf1 j = fat_entry uf0 j" using I E by auto
    qed (use I d 1(4) in auto)
    have step: "alloc_chain_loop (Suc k) c uf = alloc_chain_loop k d uf1" using 1(1) by simp
    show ?thesis using Suc.IH [OF t inv] unfolding step by (simp only: length_Cons add_Suc add_Suc_right)
  next
    case (2 uf1)
    note S1 = table_stepD [OF 2(3)]
    have t1: "table_ok (bpb uf1)" using t S(2) S1(2) by simp
    obtain uf2 where f: "\<exists>i. ufat_free_chain uf1 c = Inr (i, uf2)"
        "table_step uf1 (\<lambda>j. if chained (fat_entry uf1) (nclus uf1) c j then UFAT_CLUSTER_FREE else fat_entry uf1 j) uf2"
        "alloc_ptr uf2 = alloc_ptr uf1"
      using free_chain_ok [OF S1(1) t1, of c] by blast
    have b: "bpb uf1 = bpb uf0" using S(2) S1(2) by simp
    have E: "fat_entry uf1 j = fat_entry uf j" if "j < nclus uf0" for j using S1(5) S(2) that by simp
    have jn: "\<forall>j \<in> set js. 2 \<le> j \<and> j < nclus uf0 \<and> fat_entry uf0 j = UFAT_CLUSTER_FREE" using I by (auto simp: free_set_def free_clusters_def)
    have n: "nclus uf0 \<le> 0xffffff0" using t by (cases "ftype uf0") (simp_all add: table_ok_def max_clusters_def)
    have "linked (fat_entry uf1) c js UFAT_CLUSTER_EOC \<longleftrightarrow> linked (fat_entry uf) c js UFAT_CLUSTER_EOC"
      using E jn by (intro linked_cong) blast
    then have "linked (fat_entry uf1) c js UFAT_CLUSTER_EOC" using I by blast
    then have ch: "chained (fat_entry uf1) (nclus uf1) c j \<longleftrightarrow> j \<in> set js" for j
      unfolding b using jn n by (intro linked_chained [where e = UFAT_CLUSTER_EOC]) (auto simp: UFAT_CLUSTER_IS_PTR_def UFAT_CLUSTER_EOC_def)
    have "table_step uf0 (fat_entry uf0) uf2"
    proof (rule table_step_cong [OF table_step_trans [OF table_step_trans [OF s 2(3)] f(2)]])
      fix j
      assume j: "j < nclus uf0"
      show "(if chained (fat_entry uf1) (nclus uf1) c j then UFAT_CLUSTER_FREE else fat_entry uf1 j) = fat_entry uf0 j"
        unfolding ch using jn E [OF j] I j by auto
    qed
    moreover have "card (free_set uf0) \<le> card (set js)" using fs 2(2) by (intro card_mono) auto
    then have "card (free_set uf0) < length js + Suc k" using card_length [of js] by linarith
    moreover have "ptr_ok uf2" using 2(4) f(3) table_stepD(2) [OF f(2)] by (simp add: ptr_ok_def)
    moreover obtain i where "ufat_free_chain uf1 c = Inr (i, uf2)" using f(1) by blast
    ultimately show ?thesis using 2(1) by (intro exI [of _ "Inl (- UFAT_ERR_NO_CLUSTERS)"] exI [of _ uf2]) simp
  qed
qed

lemma chain_inv_start:
  "cache_ok uf \<Longrightarrow> ptr_ok uf \<Longrightarrow> chain_inv uf [] UFAT_CLUSTER_EOC uf"
  by (simp add: chain_inv_def table_step_refl storable_eoc)

text \<open>A chain of \<open>count\<close> clusters when there are as many free ones; otherwise the table is as it was.\<close>

lemma alloc_chain_ok:
  assumes c: "cache_ok uf" and t: "table_ok (bpb uf)" and p: "ptr_ok uf"
  obtains (chain) d js uf' where "ufat_alloc_chain uf count = Inr (Inr d, uf')" "length js = unat count"
      "chain_inv uf js d uf'" "unat count \<le> card (free_set uf)"
  | (full) uf' where "ufat_alloc_chain uf count = Inr (Inl (- UFAT_ERR_NO_CLUSTERS), uf')"
      "card (free_set uf) < unat count" "table_step uf (fat_entry uf) uf'" "ptr_ok uf'"
proof -
  obtain r uf' where r: "ufat_alloc_chain uf count = Inr (r, uf')" "ptr_ok uf'"
    "(\<exists>d js. r = Inr d \<and> length js = unat count \<and> chain_inv uf js d uf') \<or>
      r = Inl (- UFAT_ERR_NO_CLUSTERS) \<and> card (free_set uf) < unat count \<and> table_step uf (fat_entry uf) uf'"
    using alloc_chain_loop_ok [OF t chain_inv_start [OF c p], of "unat count"] unfolding ufat_alloc_chain_def by auto
  show thesis
    using r(3)
  proof
    assume "\<exists>d js. r = Inr d \<and> length js = unat count \<and> chain_inv uf js d uf'"
    then obtain d js where j: "r = Inr d" "length js = unat count" "chain_inv uf js d uf'" by blast
    then have "distinct js" "set js \<subseteq> free_set uf" by (simp_all add: chain_inv_def)
    then have "length js \<le> card (free_set uf)"
      using card_mono [of "free_set uf" "set js"] by (simp add: distinct_card free_set_def)
    then show thesis using chain r(1) j by simp
  qed (use full r(1,2) in blast)
qed

section \<open>Counting\<close>

lemma count_free_loop_ok:
  "cache_ok uf \<Longrightarrow> table_ok (bpb uf) \<Longrightarrow> 2 \<le> unat idx \<Longrightarrow> unat idx + k = nclus uf \<Longrightarrow>
    \<exists>uf'. count_free_loop k idx found uf = Inr (Inr (found + of_nat (card (free_set uf \<inter> {unat idx..}))), uf') \<and>
      table_step uf (fat_entry uf) uf' \<and> alloc_ptr uf' = alloc_ptr uf"
proof (induction k arbitrary: idx found uf)
  case 0
  then have "free_set uf \<inter> {unat idx..} = {}" by (auto simp: free_set_def free_clusters_def)
  then show ?case using table_step_refl [OF 0(1)] by simp
next
  case (Suc k)
  have i: "unat idx < nclus uf" using Suc.prems(4) by simp
  have "nclus uf < 2 ^ 32" using unsigned_less [of "num_clusters (bpb uf)"] by simp
  then have i1: "unat (idx + 1) = Suc (unat idx)" using i by (simp add: unat_word_ariths)
  have split: "free_set uf \<inter> {unat idx..} =
      (if unat idx \<in> free_set uf then insert (unat idx) (free_set uf \<inter> {unat (idx + 1)..}) else free_set uf \<inter> {unat (idx + 1)..})"
    unfolding i1 using Suc_le_eq by (auto simp: le_less)
  have fin: "finite (free_set uf \<inter> {unat (idx + 1)..})" by (simp add: free_set_def)
  have card: "card (free_set uf \<inter> {unat idx..}) =
      (if unat idx \<in> free_set uf then 1 else 0) + card (free_set uf \<inter> {unat (idx + 1)..})"
    unfolding split using fin i1 by simp
  have fr: "unat idx \<in> free_set uf \<longleftrightarrow> usable (ftype uf) (unat idx) \<and> fat_entry uf (unat idx) = UFAT_CLUSTER_FREE"
    using i Suc.prems(3) by (simp add: free_set_def free_clusters_def)
  have us: "idx = 0xff0 \<and> ftype uf = UFAT_TYPE_FAT12 \<longleftrightarrow> \<not> usable (ftype uf) (unat idx)"
    by (auto simp: usable_def word_unat_eq_iff)
  have go_on: "\<exists>uf'. count_free_loop k (idx + 1) found' uf1 =
        Inr (Inr (found' + of_nat (card (free_set uf \<inter> {unat (idx + 1)..}))), uf') \<and>
      table_step uf (fat_entry uf) uf' \<and> alloc_ptr uf' = alloc_ptr uf"
    if s: "table_step uf (fat_entry uf) uf1" and a: "alloc_ptr uf1 = alloc_ptr uf" for uf1 found'
  proof -
    note S = table_stepD [OF s]
    have t: "table_ok (bpb uf1)" "2 \<le> unat (idx + 1)" "unat (idx + 1) + k = nclus uf1"
      using S(2) Suc.prems i1 by simp_all
    show ?thesis using Suc.IH [OF S(1) t] table_step_same [OF s] a unfolding free_set_step [OF s] by metis
  qed
  show ?case
  proof (cases "usable (ftype uf) (unat idx)")
    case False
    have "count_free_loop (Suc k) idx found uf = count_free_loop k (idx + 1) found uf"
      using us False by simp
    moreover have "card (free_set uf \<inter> {unat idx..}) = card (free_set uf \<inter> {unat (idx + 1)..})"
      using card fr False by simp
    ultimately show ?thesis using go_on [OF table_step_refl [OF Suc.prems(1)] refl] by simp
  next
    case True
    have nu: "\<not> (idx = 0xff0 \<and> ftype uf = UFAT_TYPE_FAT12)" using us True by blast
    obtain uf1 where r: "ufat_read_fat uf idx = Inr (Inr (fat_entry uf (unat idx)), uf1)" "table_step uf (fat_entry uf) uf1"
        "alloc_ptr uf1 = alloc_ptr uf"
      by (rule read_fat_step [OF Suc.prems(1,2) i])
    let ?found = "if fat_entry uf (unat idx) = UFAT_CLUSTER_FREE then found + 1 else found"
    have step: "count_free_loop (Suc k) idx found uf = count_free_loop k (idx + 1) ?found uf1"
      unfolding count_free_loop.simps if_not_P [OF nu] r(1) by simp
    have "?found + of_nat (card (free_set uf \<inter> {unat (idx + 1)..})) = found + of_nat (card (free_set uf \<inter> {unat idx..}))"
      unfolding card using fr True by (simp add: algebra_simps)
    then show ?thesis using go_on [OF r(2,3), of ?found] step by simp
  qed
qed

lemma count_free_ok:
  assumes "cache_ok uf" "table_ok (bpb uf)"
  obtains uf' n where "ufat_count_free_clusters uf = Inr (Inr n, uf')" "unat n = card (free_set uf)"
    "table_step uf (fat_entry uf) uf'" "alloc_ptr uf' = alloc_ptr uf"
proof -
  have n: "2 \<le> nclus uf" using assms(2) by (simp add: table_ok_def)
  have all: "free_set uf \<inter> {unat (2::u32)..} = free_set uf" by (auto simp: free_set_def free_clusters_def)
  have "card (free_set uf) \<le> card {..<nclus uf}" by (intro card_mono) (auto simp: free_set_def free_clusters_def)
  moreover have "nclus uf < 2 ^ 32" using unsigned_less [of "num_clusters (bpb uf)"] by simp
  ultimately have u: "unat (of_nat (card (free_set uf)) :: u32) = card (free_set uf)" by (simp add: unat_of_nat)
  have "unat (2::u32) + (nclus uf - 2) = nclus uf" using n by simp
  then obtain uf' where "ufat_count_free_clusters uf = Inr (Inr (of_nat (card (free_set uf))), uf')"
      "table_step uf (fat_entry uf) uf'" "alloc_ptr uf' = alloc_ptr uf"
    using count_free_loop_ok [OF assms, of 2 "nclus uf - 2" 0] unfolding ufat_count_free_clusters_def all by auto
  then show thesis using that u by blast
qed

end

end
