(* ===== verification/Fat_Mount.thy ===== *)
theory Fat_Mount
  imports Fat_Layout Fat_Alloc
begin

text \<open>Opening a volume gives a state of the cache that is in order, and the disk is seen as it is.\<close>

lemma cache_scan_bpb: "cache_scan_loop k i blk fr old age (uf\<lparr>bpb := p\<rparr>) = cache_scan_loop k i blk fr old age uf"
  by (induction k arbitrary: i fr old age) (simp_all add: Let_def cong: if_cong)

lemma cache_fill_bpb:
  "cache_fill i blk skip (uf\<lparr>bpb := p\<rparr>) = rbind (cache_fill i blk skip uf) (\<lambda>(r, u). Inr (r, u\<lparr>bpb := p\<rparr>))"
proof -
  have c: "cache_block (uf\<lparr>bpb := p\<rparr>) i = cache_block uf i"
    by (simp add: cache_block_def ufat_cache_data_def block_bytes_def)
  show ?thesis
    unfolding cache_fill_def c
    by (auto simp: rbind_def set_desc_def ufat_cache_data_def block_bytes_def Let_def split: sum.splits prod.splits if_splits)
qed

text \<open>The parameter block is read from the first 512 bytes.\<close>

lemma mem_load_append: "off + n \<le> length bs \<Longrightarrow> mem_load (bs @ rest) off n = mem_load bs off n"
  by (simp add: mem_load_def mem_slice_def)

lemma parse_bpb_append: "512 \<le> length bs \<Longrightarrow> parse_bpb lg p (bs @ rest) = parse_bpb lg p bs"
proof -
  assume l: "512 \<le> length bs"
  have "ld16 (bs @ rest) off = ld16 bs off" if "off \<le> 510" for off
    unfolding ld16_def using l that by (subst mem_load_append) simp_all
  moreover have "ld32 (bs @ rest) off = ld32 bs off" if "off \<le> 508" for off
    unfolding ld32_def using l that by (subst mem_load_append) simp_all
  moreover have "mem_load8 (bs @ rest) off = mem_load8 bs off" if "off \<le> 511" for off
    using l that by (simp add: mem_load8_def nth_append)
  ultimately show ?thesis unfolding parse_bpb_def by (simp cong: if_cong option.case_cong)
qed

text \<open>The areas in front of the clusters, and the blocks of a cluster.\<close>

lemma layout_order:
  assumes b: "512 \<le> length b" and r: "parse_bpb lg p b = Inr (0, q)" and f: "boot_fits lg b"
  shows "unat (root_start q) = unat (fat_start q) + unat (fat_size q) * unat (fat_count q)"
    "unat (root_start q) \<le> unat (cluster_start q)" "0 < unat (fat_count q)"
    "boot_total b * boot_bytes b \<le> n * 2 ^ lg \<Longrightarrow>
      unat (cluster_start q) + (unat (num_clusters q) - 2) * 2 ^ unat (log2_blocks_per_cluster q) \<le> n"
    "unat (cluster_start q) + (unat (num_clusters q) - 2) * 2 ^ unat (log2_blocks_per_cluster q) \<le> 2 ^ 31"
proof -
  note L = parse_layout [OF b r f]
  have "(unat (fat_start q) + unat (fat_size q) * unat (fat_count q)) * 2 ^ lg = unat (root_start q) * 2 ^ lg"
    using scale_sum [OF L(1,2)] L(4) unfolding L(3) by simp
  then show "unat (root_start q) = unat (fat_start q) + unat (fat_size q) * unat (fat_count q)" by simp
  have "unat (root_start q) * 2 ^ lg \<le> unat (cluster_start q) * 2 ^ lg" unfolding L(4,5) by (intro mult_le_mono1) simp
  then show "unat (root_start q) \<le> unat (cluster_start q)" by simp
  show "0 < unat (fat_count q)"
  proof -
    obtain lb ls F T q1 where "finish_bpb q1 (b ! 0x010) T (r16 (mem_slice 0x00e 2 b)) F (of_nat (boot_root b)) ls (r32 (mem_slice 0x02c 4 b)) = (0, q)"
      by (rule parse_bpb_steps [OF b r])
    from finish_bpb_ok(1) [OF this] show ?thesis unfolding L(3) boot_fats_def .
  qed
  have le: "m * 2 ^ lg \<le> k * 2 ^ lg \<Longrightarrow> m \<le> k" for m k :: nat by simp
  show "unat (cluster_start q) + (unat (num_clusters q) - 2) * 2 ^ unat (log2_blocks_per_cluster q) \<le> n"
    if "boot_total b * boot_bytes b \<le> n * 2 ^ lg"
    by (rule le) (rule order_trans [OF L(7) that])
  show "unat (cluster_start q) + (unat (num_clusters q) - 2) * 2 ^ unat (log2_blocks_per_cluster q) \<le> 2 ^ 31"
  proof (rule le)
    have "boot_total b * boot_bytes b \<le> 2 ^ 31 * 2 ^ lg" using f by (simp add: boot_fits_def)
    then show "(unat (cluster_start q) + (unat (num_clusters q) - 2) * 2 ^ unat (log2_blocks_per_cluster q)) * 2 ^ lg \<le> 2 ^ 31 * 2 ^ lg"
      by (rule order_trans [OF L(7)])
  qed
qed

lemma layout_geometry:
  assumes "512 \<le> length b" "parse_bpb lg p b = Inr (0, q)" "boot_fits lg b"
    and n: "boot_total b * boot_bytes b \<le> n * 2 ^ lg" "n < 2 ^ 64"
  shows "geometry_ok n q"
proof -
  note O = layout_order [OF assms(1-3)]
  have "unat (fat_size q) * 1 \<le> unat (fat_size q) * unat (fat_count q)" using O(3) by (intro mult_le_mono2) simp
  then show ?thesis using O(1,2) O(4) [OF n(1)] n(2) unfolding geometry_ok_def by linarith
qed

definition clus_block :: "ufat_bpb \<Rightarrow> nat \<Rightarrow> nat" where
  "clus_block p c = unat (cluster_start p) + (c - 2) * 2 ^ unat (log2_blocks_per_cluster p)"

text \<open>The clusters lie behind all copies of the table and inside the \<open>n\<close> blocks of the device.\<close>

definition placed :: "nat \<Rightarrow> ufat_bpb \<Rightarrow> bool" where
  "placed n p \<longleftrightarrow> unat (fat_start p) + unat (fat_size p) * unat (fat_count p) \<le> unat (cluster_start p) \<and>
     0 < unat (fat_count p) \<and>
     unat (cluster_start p) + (unat (num_clusters p) - 2) * 2 ^ unat (log2_blocks_per_cluster p) \<le> min n (2 ^ 31)"

lemma placed_bounds:
  assumes p: "placed n p" and c: "2 \<le> c" "c < unat (num_clusters p)"
  shows "clus_block p c + 2 ^ unat (log2_blocks_per_cluster p) \<le> n"
    "(c - 2) * 2 ^ unat (log2_blocks_per_cluster p) < 2 ^ 32" "clus_block p c < 2 ^ 32"
    "k < 2 ^ unat (log2_blocks_per_cluster p) \<Longrightarrow> \<not> in_fat p (clus_block p c + k) \<and> \<not> is_mirror p (clus_block p c + k)"
proof -
  let ?s = "2 ^ unat (log2_blocks_per_cluster p) :: nat"
  have "Suc (c - 2) * ?s \<le> (unat (num_clusters p) - 2) * ?s" using c by (intro mult_le_mono1) linarith
  then have m: "(c - 2) * ?s + ?s \<le> (unat (num_clusters p) - 2) * ?s" by simp
  have P: "unat (fat_start p) + unat (fat_size p) * unat (fat_count p) \<le> unat (cluster_start p)" "0 < unat (fat_count p)"
    "unat (cluster_start p) + (unat (num_clusters p) - 2) * ?s \<le> n"
    "unat (cluster_start p) + (unat (num_clusters p) - 2) * ?s \<le> 2 ^ 31"
    using p by (simp_all add: placed_def)
  show "clus_block p c + ?s \<le> n" using m P(3) unfolding clus_block_def by linarith
  have l: "unat (cluster_start p) + (c - 2) * ?s \<le> 2 ^ 31" using m P(4) by linarith
  then have "(c - 2) * ?s \<le> 2 ^ 31" by linarith
  then show "(c - 2) * ?s < 2 ^ 32" by (rule le_less_trans) simp
  show "clus_block p c < 2 ^ 32" unfolding clus_block_def using l by (rule le_less_trans) simp
  have f: "unat (fat_start p) + unat (fat_size p) * unat (fat_count p) \<le> clus_block p c + k"
    using P(1) unfolding clus_block_def by linarith
  have "unat (fat_size p) * 1 \<le> unat (fat_size p) * unat (fat_count p)" using P(2) by (intro mult_le_mono2) simp
  then have a: "\<not> in_fat p (clus_block p c + k)" using f unfolding in_fat_def by linarith
  have "\<not> is_mirror p (clus_block p c + k)"
  proof
    assume "is_mirror p (clus_block p c + k)"
    then obtain x j where x: "in_fat p x" "j < unat (fat_count p)" "clus_block p c + k = x + j * unat (fat_size p)"
      by (auto simp: is_mirror_def mirrors_def)
    have "Suc j * unat (fat_size p) \<le> unat (fat_count p) * unat (fat_size p)" using x(2) by (intro mult_le_mono1) simp
    then have "j * unat (fat_size p) + unat (fat_size p) \<le> unat (fat_size p) * unat (fat_count p)" by (simp add: mult.commute)
    then show False using f x(1,3) unfolding in_fat_def by linarith
  qed
  then show "k < ?s \<Longrightarrow> \<not> in_fat p (clus_block p c + k) \<and> \<not> is_mirror p (clus_block p c + k)" using a by blast
qed

lemma placed_block:
  assumes p: "placed n p" and c: "2 \<le> unat c" "unat c < unat (num_clusters p)"
  shows "unat (cluster_to_block p c) = clus_block p (unat c)"
proof -
  note P = placed_bounds [OF p c]
  have c2: "unat (c - 2) = unat c - 2" using c(1) by (simp add: unat_sub word_le_nat_alt)
  have "unat (push_bit (unat (log2_blocks_per_cluster p)) (c - 2)) = (unat c - 2) * 2 ^ unat (log2_blocks_per_cluster p)"
    using unat_shift_32 [of "c - 2" "unat (log2_blocks_per_cluster p)"] P(2) unfolding c2 by blast
  then have k: "unat (ucast (push_bit (unat (log2_blocks_per_cluster p)) (c - 2)) :: u64) =
      (unat c - 2) * 2 ^ unat (log2_blocks_per_cluster p)"
    unfolding unat_u32_64 .
  have "(2::nat) ^ 32 < 2 ^ 64" by simp
  then have "(unat c - 2) * 2 ^ unat (log2_blocks_per_cluster p) + unat (cluster_start p) < 2 ^ 64"
    using P(3) unfolding clus_block_def by linarith
  then have "unat (ucast (push_bit (unat (log2_blocks_per_cluster p)) (c - 2)) + cluster_start p) =
      (unat c - 2) * 2 ^ unat (log2_blocks_per_cluster p) + unat (cluster_start p)"
    unfolding k [symmetric] by (rule unat_add_index)
  then show ?thesis unfolding cluster_to_block_def clus_block_def by (simp only: add.commute)
qed

lemma layout_placed:
  assumes "512 \<le> length b" "parse_bpb lg p b = Inr (0, q)" "boot_fits lg b" and n: "boot_total b * boot_bytes b \<le> n * 2 ^ lg"
  shows "placed n q"
  using layout_order(1-3,5) [OF assms(1-3)] layout_order(4) [OF assms(1-3) n] by (simp add: placed_def)

lemma cluster_blocks:
  assumes "512 \<le> length b" "parse_bpb lg p b = Inr (0, q)" "boot_fits lg b"
    and n: "boot_total b * boot_bytes b \<le> n * 2 ^ lg"
    and c: "2 \<le> unat c" "unat c < unat (num_clusters q)" and k: "k < 2 ^ unat (log2_blocks_per_cluster q)"
  shows "unat (cluster_to_block q c) = unat (cluster_start q) + (unat c - 2) * 2 ^ unat (log2_blocks_per_cluster q)"
    "unat (cluster_to_block q c) + k < n" "\<not> in_fat q (unat (cluster_to_block q c) + k)"
    "\<not> is_mirror q (unat (cluster_to_block q c) + k)"
  using placed_bounds(1) [OF layout_placed [OF assms(1-4)] c] placed_bounds(4) [OF layout_placed [OF assms(1-4)] c k] k
  unfolding placed_block [OF layout_placed [OF assms(1-4)] c] by (simp_all add: clus_block_def)

context block_device
begin

lemma empty_cache:
  assumes "dev uf = device" "good (disk uf)" "geometry_ok nblocks (bpb uf)" "cache_desc uf = replicate 16 zero_desc"
    "length (cache_data uf) = 8192" "0 < cache_size uf" "cache_size uf \<le> 16" "cache_size uf * block_bytes uf \<le> 8192"
  shows "cache_ok uf" "view uf = blocks (disk uf)" "\<forall>i < cache_size uf. \<not> slot_present uf i"
proof -
  have f: "i < cache_size uf \<Longrightarrow> slot_flags uf i = 0" for i using assms(4,7) by (simp add: slot_flags_def zero_desc_def)
  then show p: "\<forall>i < cache_size uf. \<not> slot_present uf i" by (simp add: slot_present_def)
  show "cache_ok uf" using assms f p by (simp add: cache_ok_def)
  show "view uf = blocks (disk uf)" using p by (intro ext view_absent) simp
qed

text \<open>Nothing is written back while there is a free slot, so that what is in \<open>bpb\<close> plays no part.\<close>

lemma open_empty:
  assumes c: "cache_ok uf" and e: "\<forall>i < cache_size uf. \<not> slot_present uf i"
  shows "ufat_cache_open (uf\<lparr>bpb := p\<rparr>) blk False = rbind (ufat_cache_open uf blk False) (\<lambda>(r, u). Inr (r, u\<lparr>bpb := p\<rparr>))"
proof -
  have "runs (cache_scan_loop (cache_size uf) 0 blk None None 0 uf) (scan_ok uf (unat blk))"
    by (rule cache_scan_ok [OF c]) simp_all
  then obtain r where r: "cache_scan_loop (cache_size uf) 0 blk None None 0 uf = Inr r" "scan_ok uf (unat blk) r"
    by (auto simp: runs_def)
  obtain i old where "r = Cache_Miss (Some i) old"
    using r(2) e cache_okD(6) [OF c] by (auto simp: scan_ok_def split: cache_scan.splits option.splits)
  then show ?thesis
    using r(1) by (simp add: ufat_cache_open_def cache_scan_bpb cache_slot_def cache_fill_bpb)
qed

text \<open>The memory of an open volume.\<close>

definition opened :: "'d ufat \<Rightarrow> ufat_bpb \<Rightarrow> 'd ufat" where
  "opened uf p = uf\<lparr>dev := device, next_seq := 0, cache_size := min 16 (8192 div bsize), alloc_ptr := 0,
     ufat_stat := zero_stat, cache_desc := replicate 16 zero_desc, bpb := p\<rparr>"

lemma opened_empty:
  assumes d: "good (disk uf)" "length (cache_data uf) = 8192" "log2_block_size device \<le> 13" and g: "geometry_ok nblocks p"
  shows "cache_ok (opened uf p)" "view (opened uf p) = blocks (disk uf)" "\<forall>i < cache_size (opened uf p). \<not> slot_present (opened uf p) i"
proof -
  have "bsize \<le> (2 ^ 13 :: nat)" using d(3) by (intro power_increasing) simp_all
  then have "0 < 8192 div bsize" by (simp add: div_greater_zero_iff)
  moreover have "min 16 (8192 div bsize) * bsize \<le> 8192"
  proof -
    have "min 16 (8192 div bsize) * bsize \<le> 8192 div bsize * bsize" by (rule mult_le_mono1) simp
    also have "\<dots> \<le> 8192" by (rule div_times_less_eq_dividend)
    finally show ?thesis .
  qed
  ultimately have "dev (opened uf p) = device" "good (disk (opened uf p))" "geometry_ok nblocks (bpb (opened uf p))"
    "cache_desc (opened uf p) = replicate 16 zero_desc" "length (cache_data (opened uf p)) = 8192"
    "0 < cache_size (opened uf p)" "cache_size (opened uf p) \<le> 16"
    "cache_size (opened uf p) * block_bytes (opened uf p) \<le> 8192"
    using d g by (simp_all add: opened_def block_bytes_def)
  then show "cache_ok (opened uf p)" "view (opened uf p) = blocks (disk uf)"
    "\<forall>i < cache_size (opened uf p). \<not> slot_present (opened uf p) i"
    using empty_cache [of "opened uf p"] by (simp_all add: opened_def)
qed

lemma open_read:
  "log2_block_size device \<le> 13 \<Longrightarrow> ufat_open uf device = read_bpb (opened uf (bpb uf))"
proof -
  assume lg: "log2_block_size device \<le> 13"
  have "bsize \<le> (2 ^ 13 :: nat)" using lg by (intro power_increasing) simp_all
  then have "0 < 8192 div bsize" by (simp add: div_greater_zero_iff)
  then show ?thesis
    by (simp add: ufat_open_def opened_def UFAT_CACHE_BYTES_def UFAT_CACHE_MAX_BLOCKS_def drop_bit_eq_div Let_def min_def)
qed

lemma open_ok:
  assumes d: "good (disk uf)" "length (cache_data uf) = 8192" "9 \<le> log2_block_size device" "log2_block_size device \<le> 13"
    and n: "0 < nblocks"
    and r: "parse_bpb (log2_block_size device) (bpb uf) (blocks (disk uf) 0) = Inr (rc, p)"
    and g: "geometry_ok nblocks p"
  obtains uf' where "ufat_open uf device = Inr (rc, uf')" "bpb uf' = p" "cache_ok uf'" "alloc_ptr uf' = 0"
    "\<forall>b < nblocks. \<not> is_mirror p b \<longrightarrow> view uf' b = blocks (disk uf) b" "fats_equal (opened uf p) \<longrightarrow> fats_equal uf'"
proof -
  let ?u = "opened uf p"
  note O = opened_empty [OF d(1,2,4) g]
  have m0: "\<not> is_mirror (bpb ?u) 0" by (auto simp: is_mirror_def mirrors_def in_fat_def)
  have z: "unat (0::u64) < nblocks" "\<not> is_mirror (bpb ?u) (unat (0::u64))" using n m0 by simp_all
  obtain i u1 where o: "ufat_cache_open ?u 0 False = Inr (int i, u1)" "i < cache_size u1" "slot_present u1 i"
      "slot_blk u1 i = unat (0::u64)" "slot_data u1 i = view ?u (unat (0::u64))" "keeps ?u u1"
    by (rule cache_open_ok [OF O(1) z])
  note K = keeps_facts [OF o(6)]
  have up: "opened uf (bpb uf) = ?u\<lparr>bpb := bpb uf\<rparr>" by (simp add: opened_def)
  have o': "ufat_cache_open (opened uf (bpb uf)) 0 False = Inr (int i, u1\<lparr>bpb := bpb uf\<rparr>)"
    unfolding up open_empty [OF O(1,3)] o(1) by simp
  have data: "slot_data u1 i = blocks (disk uf) 0" using o(5) O(2) by simp
  have bb: "block_bytes u1 = bsize" and dv: "dev u1 = device" using cache_okD [OF K(1)] by simp_all
  have "drop (ufat_cache_data u1 i) (cache_data u1) = slot_data u1 i @ drop (ufat_cache_data u1 i + block_bytes u1) (cache_data u1)"
    unfolding slot_data_def mem_slice_def by (metis append_take_drop_id drop_drop add.commute)
  moreover have "ufat_cache_data (u1\<lparr>bpb := bpb uf\<rparr>) i = ufat_cache_data u1 i" by (simp add: ufat_cache_data_def block_bytes_def)
  moreover have len: "512 \<le> length (blocks (disk uf) 0)"
  proof -
    have "(2::nat) ^ 9 \<le> bsize" using d(3) by (intro power_increasing) simp_all
    then show ?thesis using length_block [OF d(1) n] by simp
  qed
  ultimately have "read_bpb (opened uf (bpb uf)) = Inr (rc, u1\<lparr>bpb := p\<rparr>)"
    using o' r dv data by (simp add: read_bpb_def parse_bpb_append)
  moreover have "u1\<lparr>bpb := p\<rparr> = u1" using K(2) by (simp add: opened_def)
  ultimately have "ufat_open uf device = Inr (rc, u1)" using open_read [OF d(4)] by simp
  moreover have "bpb u1 = p" "alloc_ptr u1 = 0" using K(2,4) by (simp_all add: opened_def)
  moreover have "\<forall>b < nblocks. \<not> is_mirror p b \<longrightarrow> view u1 b = blocks (disk uf) b"
    using K(5) O(2) by (simp add: opened_def)
  ultimately show thesis using that [of u1] K(1,6) by blast
qed

end

end
