(* ===== verification/Fat_Properties.thy ===== *)
theory Fat_Properties
  imports Fat_Mount Fat_Sync
begin

text \<open>
  The properties of uFAT on the shell's device, a file of \<open>n\<close> blocks of \<open>2 ^ lg\<close> bytes, from the facts of
  its interpretation as a block device.
\<close>

section \<open>A volume for the witnesses\<close>

text \<open>An empty FAT12 volume of eight blocks, just opened: two copies of the table in blocks 1 and 2, four clusters.\<close>

definition small_bpb :: ufat_bpb where
  "small_bpb = \<lparr>fat_type = UFAT_TYPE_FAT12, log2_blocks_per_cluster = 0, fat_start = 1, fat_size = 1, fat_count = 2,
     cluster_start = 4, num_clusters = 6, root_start = 3, root_size = 1, root_cluster = 0\<rparr>"

definition small_volume :: "bytes ufat" where
  "small_volume = \<lparr>dev = file_device 9, ufat_stat = zero_stat, bpb = small_bpb, next_seq = 0, cache_size = 16,
     alloc_ptr = 0, cache_desc = replicate 16 zero_desc, cache_data = replicate 8192 0, disk = replicate 4096 0\<rparr>"

lemma small_geometry: "geometry_ok 8 small_bpb"
  by (simp add: geometry_ok_def small_bpb_def)

lemma small_cache_ok: "file_dev.cache_ok 9 8 small_volume"
  and small_view: "file_dev.view 9 small_volume = file_block 9 (replicate 4096 0)"
  and small_empty: "\<forall>i < 16. \<not> slot_present small_volume i"
proof -
  have p: "dev small_volume = file_device 9" "length (disk small_volume) = 8 * 2 ^ 9 \<and> 8 * 2 ^ 9 \<le> (2::nat) ^ 63"
    "geometry_ok 8 (bpb small_volume)" "cache_desc small_volume = replicate 16 zero_desc"
    "length (cache_data small_volume) = 8192" "0 < cache_size small_volume" "cache_size small_volume \<le> 16"
    "cache_size small_volume * block_bytes small_volume \<le> 8192"
    using small_geometry by (simp_all add: small_volume_def block_bytes_def)
  show "file_dev.cache_ok 9 8 small_volume" by (rule file_dev.empty_cache(1) [OF p])
  show "file_dev.view 9 small_volume = file_block 9 (replicate 4096 0)"
    using file_dev.empty_cache(2) [OF p] by (simp add: small_volume_def)
  show "\<forall>i < 16. \<not> slot_present small_volume i" using file_dev.empty_cache(3) [OF p] by (simp add: small_volume_def)
qed

lemma zero_block: "k < 8 \<Longrightarrow> file_block 9 (replicate 4096 0) k = replicate 512 0"
  by (simp add: file_block_def mem_slice_def)

lemma small_table: "file_dev.table_ok 9 (bpb small_volume)" and small_ptr: "file_dev.ptr_ok small_volume"
  by (simp_all add: file_dev.table_ok_def file_dev.ptr_ok_def small_volume_def small_bpb_def entry_end_def file_dev.fat_len_def
      max_clusters_def)

lemma small_fats: "file_dev.fats_equal 9 small_volume"
proof -
  have "b < 8 \<and> c < 8" if "mirrors small_bpb b c" for b c
    using mirrors_bound [OF small_geometry that] that by (auto simp: mirrors_def in_fat_def small_bpb_def)
  then show ?thesis using zero_block by (simp add: file_dev.fats_equal_def small_volume_def)
qed

lemma small_entry: "j < 6 \<Longrightarrow> file_dev.fat_entry 9 small_volume j = 0"
proof -
  assume j: "j < 6"
  have "file_dev.fat_byte 9 small_volume a = 0" if "a < 512" for a
    using that unfolding file_dev.fat_byte_def small_view by (simp add: small_volume_def small_bpb_def zero_block)
  then show ?thesis
    using j by (simp add: file_dev.fat_entry_def entry_of_def raw12_def decode_fat12_def small_volume_def small_bpb_def)
qed

section \<open>The cache\<close>

text \<open>
  C9: opening a block gives a slot that holds the block as the device and the cached writes make it, and
  changes nothing that is seen, also when another block has to be written back for it; bytes that are then
  written into the slot change that block and no other.
\<close>

theorem cache_refines_disk:
  assumes "file_dev.cache_ok lg n uf" and "unat blk < n" and "\<not> is_mirror (bpb uf) (unat blk)"
  shows "\<exists>i uf'. ufat_cache_open uf blk False = Inr (int i, uf') \<and> i < cache_size uf' \<and>
    slot_data uf' i = file_dev.view lg uf (unat blk) \<and> file_dev.cache_ok lg n uf' \<and>
    (\<forall>b < n. \<not> is_mirror (bpb uf) b \<longrightarrow> file_dev.view lg uf' b = file_dev.view lg uf b) \<and>
    (\<forall>r xs. r + length xs \<le> 2 ^ lg \<longrightarrow>
       (\<exists>uf''. rbind (ufat_cache_write uf' i) (\<lambda>uf. slot_store uf i r xs) = Inr uf'' \<and> file_dev.cache_ok lg n uf'' \<and>
          (\<forall>b < n. \<not> is_mirror (bpb uf) b \<longrightarrow> file_dev.view lg uf'' b =
             (if b = unat blk then mem_splice r xs (file_dev.view lg uf b) else file_dev.view lg uf b))))"
proof -
  obtain i uf' where o: "ufat_cache_open uf blk False = Inr (int i, uf')" "i < cache_size uf'" "slot_present uf' i"
    "slot_blk uf' i = unat blk" "slot_data uf' i = file_dev.view lg uf (unat blk)" "file_dev.keeps lg n uf uf'"
    by (rule file_dev.cache_open_ok [OF assms])
  note K = file_dev.keeps_facts [OF o(6)]
  have w: "\<exists>uf''. rbind (ufat_cache_write uf' i) (\<lambda>uf. slot_store uf i r xs) = Inr uf'' \<and> file_dev.cache_ok lg n uf'' \<and>
      (\<forall>b < n. \<not> is_mirror (bpb uf) b \<longrightarrow> file_dev.view lg uf'' b =
         (if b = unat blk then mem_splice r xs (file_dev.view lg uf b) else file_dev.view lg uf b))"
    if x: "r + length xs \<le> 2 ^ lg" for r xs
  proof -
    obtain u1 where c: "ufat_cache_write uf' i = Inr u1" "file_dev.keeps lg n uf' u1" "slot_dirty u1 i"
        "slot_blk u1 i = slot_blk uf' i" "slot_data u1 i = slot_data uf' i"
      by (rule file_dev.cache_write_ok [OF K(1) o(2,3)])
    note K1 = file_dev.keeps_facts [OF c(2)]
    have i1: "i < cache_size u1" using o(2) K1(3) by simp
    have x1: "r + length xs \<le> 2 ^ log2_block_size (file_device lg)" using x by simp
    obtain u2 where s: "slot_store u1 i r xs = Inr u2" "file_dev.written lg n u1 (slot_blk u1 i) (mem_splice r xs (slot_data u1 i)) u2"
      by (rule file_dev.slot_store_ok [OF K1(1) i1 c(3) x1])
    note W = file_dev.writtenD [OF s(2)]
    show ?thesis
      using c(1,4,5) s(1) W(1,5) K1(2,5) K(2,5) o(4,5) by (intro exI [of _ u2]) simp
  qed
  show ?thesis using o(1,2,5) K(1,5) w by blast
qed

theorem cache_refines_disk_witness:
  "\<exists>i uf'. ufat_cache_open small_volume 3 False = Inr (int i, uf') \<and> slot_data uf' i = replicate 512 0"
  using cache_refines_disk [OF small_cache_ok, of 3] small_view zero_block [of 3]
  by (auto simp: is_mirror_def mirrors_def in_fat_def small_volume_def small_bpb_def)

text \<open>
  C31: after \<open>ufat_sync\<close> the disk is what was seen through the cache, and every copy of the table is like the
  first.
\<close>

theorem sync_writes_back:
  assumes "file_dev.cache_ok lg n uf" and "file_dev.fats_equal lg uf"
  shows "\<exists>uf'. ufat_sync uf = Inr (0, uf') \<and> file_dev.cache_ok lg n uf' \<and>
    (\<forall>b < n. \<not> is_mirror (bpb uf) b \<longrightarrow> file_block lg (disk uf') b = file_dev.view lg uf b) \<and>
    (\<forall>b c. mirrors (bpb uf) b c \<longrightarrow> file_block lg (disk uf') c = file_block lg (disk uf') b)"
proof -
  obtain uf' where s: "ufat_sync uf = Inr (0, uf')" "file_dev.keeps lg n uf uf'"
    "\<forall>b < n. \<not> is_mirror (bpb uf) b \<longrightarrow> file_block lg (disk uf') b = file_dev.view lg uf b"
    "file_dev.fats_equal lg uf \<longrightarrow> (\<forall>b c. mirrors (bpb uf) b c \<longrightarrow> file_block lg (disk uf') c = file_block lg (disk uf') b)"
    by (rule file_dev.sync_ok [OF assms(1)])
  then show ?thesis using assms(2) file_dev.keeps_facts(1) by blast
qed

theorem sync_writes_back_witness:
  "\<exists>uf'. ufat_sync small_volume = Inr (0, uf') \<and> file_block 9 (disk uf') 1 = replicate 512 0"
proof -
  have "\<not> is_mirror (bpb small_volume) 1"
    by (auto simp: is_mirror_def mirrors_def in_fat_def small_volume_def small_bpb_def)
  then show ?thesis
    using sync_writes_back [OF small_cache_ok small_fats] small_view zero_block [of 1] by force
qed

section \<open>The table\<close>

text \<open>
  C25: after a value has been written to the entry of a cluster, reading that entry gives it back and reading
  any other one gives what it gave before, in all three kinds of table, also where entries of 12 bits share a
  byte; blocks outside the table do not change.
\<close>

theorem fat_read_after_write:
  assumes c: "file_dev.cache_ok lg n uf" and t: "file_dev.table_ok lg (bpb uf)"
    and i: "unat i < unat (num_clusters (bpb uf))" and v: "storable (fat_type (bpb uf)) v"
  shows "\<exists>uf'. ufat_write_fat uf i v = Inr (0, uf') \<and> file_dev.cache_ok lg n uf' \<and>
    (\<forall>j. unat j < unat (num_clusters (bpb uf)) \<longrightarrow>
       (\<exists>x u1 u2. ufat_read_fat uf j = Inr (Inr x, u1) \<and> ufat_read_fat uf' j = Inr (Inr (if j = i then v else x), u2))) \<and>
    (\<forall>b < n. \<not> is_mirror (bpb uf) b \<longrightarrow> \<not> in_fat (bpb uf) b \<longrightarrow> file_dev.view lg uf' b = file_dev.view lg uf b)"
proof -
  obtain uf' where w: "ufat_write_fat uf i v = Inr (0, uf')"
      "file_dev.table_step lg n uf ((file_dev.fat_entry lg uf)(unat i := v)) uf'"
    by (rule file_dev.write_fat_step [OF c t i v])
  note W = file_dev.table_stepD [OF w(2)]
  have "\<exists>x u1 u2. ufat_read_fat uf j = Inr (Inr x, u1) \<and> ufat_read_fat uf' j = Inr (Inr (if j = i then v else x), u2)"
    if j: "unat j < unat (num_clusters (bpb uf))" for j
  proof -
    obtain u1 where r1: "ufat_read_fat uf j = Inr (Inr (file_dev.fat_entry lg uf (unat j)), u1)"
      by (rule file_dev.read_fat_step [OF c t j])
    have t': "file_dev.table_ok lg (bpb uf')" "unat j < unat (num_clusters (bpb uf'))" using t j W(2) by simp_all
    obtain u2 where "ufat_read_fat uf' j = Inr (Inr (file_dev.fat_entry lg uf' (unat j)), u2)"
      by (rule file_dev.read_fat_step [OF W(1) t'])
    then show ?thesis using r1 W(5) [OF j] by (auto simp: word_unat_eq_iff)
  qed
  then show ?thesis using w(1) W(1,4) by blast
qed

theorem fat_read_after_write_witness:
  "\<exists>uf' u. ufat_write_fat small_volume 3 UFAT_CLUSTER_EOC = Inr (0, uf') \<and> ufat_read_fat uf' 3 = Inr (Inr UFAT_CLUSTER_EOC, u)"
proof -
  have n: "unat (3::u32) < unat (num_clusters (bpb small_volume))" by (simp add: small_volume_def small_bpb_def)
  obtain uf' where w: "ufat_write_fat small_volume 3 UFAT_CLUSTER_EOC = Inr (0, uf')"
      "\<forall>j. unat j < unat (num_clusters (bpb small_volume)) \<longrightarrow> (\<exists>x u1 u2. ufat_read_fat small_volume j = Inr (Inr x, u1) \<and>
         ufat_read_fat uf' j = Inr (Inr (if j = 3 then UFAT_CLUSTER_EOC else x), u2))"
    using fat_read_after_write [OF small_cache_ok small_table n storable_eoc] by blast
  then show ?thesis using w(2) [THEN spec, of 3] n by auto
qed

text \<open>
  C24: freeing a chain always ends, also when the chain runs into itself; afterwards exactly the clusters that
  could be reached from its start are free, and the error is reported if and only if it left the volume.
\<close>

theorem free_chain_frees:
  assumes c: "file_dev.cache_ok lg n uf" and t: "file_dev.table_ok lg (bpb uf)"
  shows "\<exists>uf'. ufat_free_chain uf c =
      Inr (if chain_strays (file_dev.fat_entry lg uf) (unat (num_clusters (bpb uf))) c then - UFAT_ERR_INVALID_CLUSTER else 0, uf') \<and>
    file_dev.cache_ok lg n uf' \<and>
    (\<forall>j < unat (num_clusters (bpb uf)). file_dev.fat_entry lg uf' j =
       (if chained (file_dev.fat_entry lg uf) (unat (num_clusters (bpb uf))) c j then UFAT_CLUSTER_FREE
        else file_dev.fat_entry lg uf j)) \<and>
    (\<forall>b < n. \<not> is_mirror (bpb uf) b \<longrightarrow> \<not> in_fat (bpb uf) b \<longrightarrow> file_dev.view lg uf' b = file_dev.view lg uf b)"
proof -
  obtain uf' where f: "ufat_free_chain uf c =
      Inr (if chain_strays (file_dev.fat_entry lg uf) (unat (num_clusters (bpb uf))) c then - UFAT_ERR_INVALID_CLUSTER else 0, uf')"
    "file_dev.table_step lg n uf (\<lambda>j. if chained (file_dev.fat_entry lg uf) (unat (num_clusters (bpb uf))) c j
       then UFAT_CLUSTER_FREE else file_dev.fat_entry lg uf j) uf'"
    by (rule file_dev.free_chain_ok [OF c t])
  then show ?thesis using file_dev.table_stepD [OF f(2)] by blast
qed

theorem free_chain_frees_witness:
  "\<exists>uf'. ufat_free_chain small_volume 2 = Inr (0, uf') \<and> file_dev.fat_entry 9 uf' 2 = UFAT_CLUSTER_FREE"
proof -
  have n: "unat (num_clusters (bpb small_volume)) = 6" by (simp add: small_volume_def small_bpb_def)
  have "\<not> chain_strays (file_dev.fat_entry 9 small_volume) 6 2"
    using chain_strays_cong [of 6 "file_dev.fat_entry 9 small_volume" "\<lambda>_. 0" 2] small_entry
    by (auto simp: chain_strays_def strays_def not_ptr_free)
  then show ?thesis
    using free_chain_frees [OF small_cache_ok small_table, of 2] unfolding n by (auto simp: small_entry UFAT_CLUSTER_FREE_def)
qed

text \<open>
  C6: an allocation of \<open>count\<close> clusters succeeds if and only if \<open>ufat_count_free_clusters\<close> counts as many; then
  its result is the start of a chain of \<open>count\<close> different clusters that were free, ended by the end mark, and
  no other entry changes; otherwise what had been allocated is free again and the table is as it was.
\<close>

theorem alloc_chain_exact:
  assumes c: "file_dev.cache_ok lg n uf" and t: "file_dev.table_ok lg (bpb uf)" and p: "file_dev.ptr_ok uf"
  shows "\<exists>free u uf'. ufat_count_free_clusters uf = Inr (Inr free, u) \<and>
    unat free = card (free_clusters (fat_type (bpb uf)) (file_dev.fat_entry lg uf) (unat (num_clusters (bpb uf)))) \<and>
    file_dev.cache_ok lg n uf' \<and> file_dev.ptr_ok uf' \<and>
    (if count \<le> free
     then \<exists>d js. ufat_alloc_chain uf count = Inr (Inr d, uf') \<and> length js = unat count \<and> distinct js \<and>
       (\<forall>j \<in> set js. 2 \<le> j \<and> j < unat (num_clusters (bpb uf)) \<and> file_dev.fat_entry lg uf j = UFAT_CLUSTER_FREE) \<and>
       linked (file_dev.fat_entry lg uf') d js UFAT_CLUSTER_EOC \<and>
       (\<forall>j < unat (num_clusters (bpb uf)). j \<notin> set js \<longrightarrow> file_dev.fat_entry lg uf' j = file_dev.fat_entry lg uf j)
     else ufat_alloc_chain uf count = Inr (Inl (- UFAT_ERR_NO_CLUSTERS), uf') \<and>
       (\<forall>j < unat (num_clusters (bpb uf)). file_dev.fat_entry lg uf' j = file_dev.fat_entry lg uf j))"
proof -
  obtain u free where f: "ufat_count_free_clusters uf = Inr (Inr free, u)" "unat free = card (file_dev.free_set lg uf)"
    by (rule file_dev.count_free_ok [OF c t])
  note F = f(2) [unfolded file_dev.free_set_def]
  show ?thesis
  proof (rule file_dev.alloc_chain_ok [OF c t p, of count])
    fix d js uf'
    assume a: "ufat_alloc_chain uf count = Inr (Inr d, uf')" "length js = unat count" "file_dev.chain_inv lg n uf js d uf'"
      "unat count \<le> card (file_dev.free_set lg uf)"
    note I = a(3) [unfolded file_dev.chain_inv_def]
    have "count \<le> free" using a(4) f(2) by (simp add: word_le_nat_alt)
    moreover have "\<forall>j \<in> set js. 2 \<le> j \<and> j < unat (num_clusters (bpb uf)) \<and> file_dev.fat_entry lg uf j = UFAT_CLUSTER_FREE"
      using I by (auto simp: file_dev.free_set_def free_clusters_def)
    moreover have "file_dev.cache_ok lg n uf'" using I file_dev.table_stepD(1) by blast
    ultimately show ?thesis using f(1) F a(1,2) I by (intro exI [of _ free] exI [of _ u] exI [of _ uf']) auto
  next
    fix uf'
    assume a: "ufat_alloc_chain uf count = Inr (Inl (- UFAT_ERR_NO_CLUSTERS), uf')" "card (file_dev.free_set lg uf) < unat count"
      "file_dev.table_step lg n uf (file_dev.fat_entry lg uf) uf'" "file_dev.ptr_ok uf'"
    have "\<not> count \<le> free" using a(2) f(2) by (simp add: word_le_nat_alt)
    then show ?thesis
      using f(1) F a(1,4) file_dev.table_stepD [OF a(3)] by (intro exI [of _ free] exI [of _ u] exI [of _ uf']) simp
  qed
qed

theorem alloc_chain_exact_witness:
  "\<exists>d uf'. ufat_alloc_chain small_volume 2 = Inr (Inr d, uf') \<and> file_dev.cache_ok 9 8 uf'"
proof -
  have "free_clusters UFAT_TYPE_FAT12 (file_dev.fat_entry 9 small_volume) 6 = {2..<6}"
    using small_entry by (auto simp: free_clusters_def usable_def UFAT_CLUSTER_FREE_def)
  then have n: "card (free_clusters (fat_type (bpb small_volume)) (file_dev.fat_entry 9 small_volume)
      (unat (num_clusters (bpb small_volume)))) = 4"
    by (simp add: small_volume_def small_bpb_def)
  show ?thesis
    using alloc_chain_exact [OF small_cache_ok small_table small_ptr, of 2]
    unfolding n by (elim exE conjE) (simp add: word_le_nat_alt, blast)
qed

section \<open>Opening a volume\<close>

text \<open>A boot sector: eight sectors of 512 bytes, one of them reserved, two tables of one, 16 root entries.\<close>

definition small_boot :: bytes where
  "small_boot = replicate 11 0 @ [0, 2, 1, 1, 0, 2, 16, 0, 8, 0, 0, 1] @ replicate 487 0 @ [0x55, 0xaa]"

definition small_disk :: bytes where
  "small_disk = small_boot @ replicate 3584 0"

text \<open>Memory before it is opened.\<close>

definition raw_memory :: "bytes \<Rightarrow> bytes ufat" where
  "raw_memory file = small_volume\<lparr>disk := file\<rparr>"

lemma small_log2: "log2_exact 512 = Some 9" "log2_exact 1 = Some 0"
  by (simp_all add: log2_exact_def log2_loop.simps drop_bit_eq_div)

lemma small_fields:
  "length small_boot = 512" "mem_slice 11 2 small_boot = [0, 2]" "small_boot ! 13 = 1" "mem_slice 14 2 small_boot = [1, 0]"
  "mem_slice 17 2 small_boot = [16, 0]" "mem_slice 22 2 small_boot = [1, 0]" "mem_slice 19 2 small_boot = [8, 0]"
  "small_boot ! 16 = 2" "mem_slice 44 4 small_boot = [0, 0, 0, 0]" "mem_slice 510 2 small_boot = [0x55, 0xaa]"
  by (simp_all add: small_boot_def mem_slice_def numeral_eq_Suc)

lemma small_fits: "boot_fits 9 small_boot" "boot_total small_boot * boot_bytes small_boot \<le> 8 * 2 ^ 9"
  by (simp_all add: boot_fits_def boot_reserved_def boot_per_fat_def boot_fats_def boot_root_def boot_total_def boot_bytes_def
      small_fields r16_def)

lemma small_parse: "parse_bpb 9 p small_boot = Inr (0, small_bpb)"
  by (simp add: parse_bpb_def ld_slice mem_load8_nth small_fields r16_def r32_def small_log2 Let_def sectors_to_blocks_def
      finish_bpb_def UFAT_DIRENT_SIZE_def UFAT_MAX_FAT12_def UFAT_CLUSTER_MASK_def small_bpb_def)



text \<open>
  C26: opening a volume whose parameter block is accepted and fits the device succeeds and gives the state in
  which the other operations work: the cache is in order, the table has an entry for every cluster, what is
  seen is the disk, and the blocks of every cluster lie on the device and outside all copies of the table.
\<close>

theorem open_volume:
  assumes lg: "9 \<le> lg" "lg \<le> 13" and d: "length (disk uf) = n * 2 ^ lg \<and> n * 2 ^ lg \<le> 2 ^ 63" "0 < n" "length (cache_data uf) = 8192"
    and r: "parse_bpb lg (bpb uf) (file_block lg (disk uf) 0) = Inr (0, p)"
    and f: "boot_fits lg (file_block lg (disk uf) 0)"
      "boot_total (file_block lg (disk uf) 0) * boot_bytes (file_block lg (disk uf) 0) \<le> n * 2 ^ lg"
    and t: "entry_end (fat_type p) (unat (num_clusters p) - 1)
        \<le> boot_per_fat (file_block lg (disk uf) 0) * boot_bytes (file_block lg (disk uf) 0)"
      "unat (num_clusters p) \<le> max_clusters (fat_type p)"
  shows "\<exists>uf'. ufat_open uf (file_device lg) = Inr (0, uf') \<and> bpb uf' = p \<and>
    file_dev.cache_ok lg n uf' \<and> file_dev.table_ok lg p \<and> file_dev.ptr_ok uf' \<and>
    (\<forall>b < n. \<not> is_mirror p b \<longrightarrow> file_dev.view lg uf' b = file_block lg (disk uf) b) \<and>
    (\<forall>c k. 2 \<le> unat c \<longrightarrow> unat c < unat (num_clusters p) \<longrightarrow> k < 2 ^ unat (log2_blocks_per_cluster p) \<longrightarrow>
       unat (cluster_to_block p c) + k < n \<and> \<not> in_fat p (unat (cluster_to_block p c) + k) \<and>
       \<not> is_mirror p (unat (cluster_to_block p c) + k))"
proof -
  let ?b = "file_block lg (disk uf) 0"
  have "(2::nat) ^ 9 \<le> 2 ^ lg" using lg(1) by (intro power_increasing) simp_all
  moreover have "length ?b = 2 ^ lg" using file_dev.length_block [of "disk uf" n lg 0] d(1,2) by simp
  ultimately have l: "512 \<le> length ?b" by simp
  have "n * 1 \<le> n * 2 ^ lg" by (intro mult_le_mono2) simp
  then have "n \<le> 2 ^ 63" using d(1) by linarith
  then have n: "n < 2 ^ 64" by (rule le_less_trans) simp
  note L = parse_layout [OF l r f(1)]
  have g: "geometry_ok n p" by (rule layout_geometry [OF l r f n])
  have lg': "9 \<le> log2_block_size (file_device lg)" "log2_block_size (file_device lg) \<le> 13" using lg by simp_all
  have r': "parse_bpb (log2_block_size (file_device lg)) (bpb uf) ?b = Inr (0, p)" using r by simp
  obtain uf' where o: "ufat_open uf (file_device lg) = Inr (0, uf')" "bpb uf' = p" "file_dev.cache_ok lg n uf'" "alloc_ptr uf' = 0"
      "\<forall>b < n. \<not> is_mirror p b \<longrightarrow> file_dev.view lg uf' b = file_block lg (disk uf) b"
    by (rule file_dev.open_ok [OF d(1,3) lg' d(2) r' g])
  have "file_dev.table_ok lg p" using lg(1) L(2,6) t by (simp add: file_dev.table_ok_def file_dev.fat_len_def)
  moreover have "file_dev.ptr_ok uf'" using L(6) o(2,4) by (auto simp: file_dev.ptr_ok_def)
  ultimately show ?thesis
    using o cluster_blocks(2-4) [OF l r f] by (intro exI [of _ uf'] conjI allI impI) simp_all
qed

lemma small_disk_boot: "file_block 9 small_disk 0 = small_boot"
  using small_fields(1) by (simp add: file_block_def small_disk_def mem_slice_def)

theorem open_volume_witness:
  "\<exists>uf'. ufat_open (raw_memory small_disk) ufat_dev = Inr (0, uf') \<and> bpb uf' = small_bpb \<and> file_dev.cache_ok 9 8 uf'"
proof -
  have d: "length (disk (raw_memory small_disk)) = 8 * 2 ^ 9 \<and> 8 * 2 ^ 9 \<le> (2::nat) ^ 63" "0 < (8::nat)"
    "length (cache_data (raw_memory small_disk)) = 8192" "disk (raw_memory small_disk) = small_disk"
    by (simp_all add: raw_memory_def small_disk_def small_fields small_volume_def)
  have r: "parse_bpb 9 (bpb (raw_memory small_disk)) (file_block 9 (disk (raw_memory small_disk)) 0) = Inr (0, small_bpb)"
    by (simp add: d(4) small_disk_boot small_parse)
  have t: "entry_end (fat_type small_bpb) (unat (num_clusters small_bpb) - 1) \<le> boot_per_fat small_boot * boot_bytes small_boot"
    "unat (num_clusters small_bpb) \<le> max_clusters (fat_type small_bpb)"
    by (simp_all add: small_bpb_def entry_end_def max_clusters_def boot_per_fat_def boot_bytes_def small_fields r16_def)
  have "\<exists>uf'. ufat_open (raw_memory small_disk) (file_device 9) = Inr (0, uf') \<and> bpb uf' = small_bpb \<and> file_dev.cache_ok 9 8 uf'"
    using open_volume [OF _ _ d(1-3) r] small_fits t by (simp add: d(4) small_disk_boot) blast
  then show ?thesis by (simp add: ufat_dev_def)
qed

text \<open>A boot sector with no sector size divides by zero before anything is checked.\<close>

lemma zero_sector_size_faults: "512 \<le> length b \<Longrightarrow> boot_bytes b = 0 \<Longrightarrow> parse_bpb lg p b = Inl C_Fault"
proof -
  assume l: "512 \<le> length b" and z: "boot_bytes b = 0"
  have "r16 (mem_slice 11 2 b) = 0" using z by (simp add: boot_bytes_def unsigned_eq_0_iff)
  then show ?thesis using l by (simp add: parse_bpb_def ld_slice mem_load8_nth)
qed

text \<open>An entry of a FAT32 table loses its four reserved bits when it is written.\<close>

lemma fat32_reserved_bits_lost:
  "raw32 (entry_update UFAT_TYPE_FAT32 f i UFAT_CLUSTER_EOC) i AND NOT UFAT_CLUSTER_MASK = 0"
  by (simp add: raw32_update UFAT_CLUSTER_EOC_def UFAT_CLUSTER_MASK_def)

text \<open>Every error number that can be negated has a text.\<close>

lemma strerror_total: "- (2 ^ 31) < err \<Longrightarrow> \<exists>t. ufat_strerror err = Inr t"
  by (auto simp: ufat_strerror_def c_int_def aget_def error_text_def UFAT_MAX_ERR_def)

end
