(* ===== verification/Fat_Dirent.thy ===== *)
theory Fat_Dirent
  imports Fat_Open Db_Row
begin

text \<open>
  Directory entries and names of uFAT (fs/ufat_ent.c, fs/ufat.h, fs/ufat_internal.h): packing and parsing of
  the 32 bytes of an entry, long names in fragments, their two encodings and short names. An argument that is
  only read as a C string is the list of its bytes before the NUL; an array that is written is the list of all
  its elements. \<open>char\<close> is signed.
\<close>

section \<open>Structs and constants\<close>

definition UFAT_ERR_NAME_TOO_LONG :: int where "UFAT_ERR_NAME_TOO_LONG = 6"
definition UFAT_ERR_NOT_DIRECTORY :: int where "UFAT_ERR_NOT_DIRECTORY = 7"
definition UFAT_ERR_NOT_FILE :: int where "UFAT_ERR_NOT_FILE = 8"
definition UFAT_ERR_IMMUTABLE :: int where "UFAT_ERR_IMMUTABLE = 9"
definition UFAT_ERR_DIRECTORY_NOT_EMPTY :: int where "UFAT_ERR_DIRECTORY_NOT_EMPTY = 10"
definition UFAT_ERR_ILLEGAL_NAME :: int where "UFAT_ERR_ILLEGAL_NAME = 11"
definition UFAT_ERR_FILE_EXISTS :: int where "UFAT_ERR_FILE_EXISTS = 12"
definition UFAT_ERR_BAD_ENCODING :: int where "UFAT_ERR_BAD_ENCODING = 13"
definition UFAT_ERR_DIRECTORY_FULL :: int where "UFAT_ERR_DIRECTORY_FULL = 14"

definition UFAT_ATTR_DIRECTORY :: u32 where "UFAT_ATTR_DIRECTORY = 0x10"
definition UFAT_ATTR_LFN_FRAGMENT :: u32 where "UFAT_ATTR_LFN_FRAGMENT = 0x0f"
definition UFAT_ATTR_USER :: u32 where "UFAT_ATTR_USER = 0x27"
definition UFAT_BLOCK_NONE :: u64 where "UFAT_BLOCK_NONE = 0xffffffffffffffff"
definition UFAT_LFN_MAX_CHARS :: nat where "UFAT_LFN_MAX_CHARS = 255"
definition UFAT_LFN_MAX_UTF8 :: nat where "UFAT_LFN_MAX_UTF8 = 768"

text \<open>\<open>short_name\<close> has 9 elements and \<open>short_ext\<close> 4.\<close>

record ufat_dirent =
  dirent_block :: u64
  dirent_pos :: u32
  lfn_block :: u64
  lfn_pos :: u32
  short_name :: bytes
  short_ext :: bytes
  attributes :: u32
  create_date :: u16
  create_time :: u16
  modify_date :: u16
  modify_time :: u16
  access_date :: u16
  first_cluster :: u32
  file_size :: u32

text \<open>\<open>lfn_buf\<close> has \<open>UFAT_LFN_MAX_CHARS\<close> elements.\<close>

record ufat_lfn_parser =
  lfn_start_block :: u64
  lfn_start_pos :: u32
  lfn_checksum :: u8
  lfn_len :: int
  lfn_seq :: int
  lfn_buf :: "u16 list"

section \<open>Characters\<close>

text \<open>The contents of a character array; an array without a NUL is read past its end.\<close>

definition char_str :: "bytes \<Rightarrow> bytes cres" where
  "char_str a = (if 0 \<in> set a then Inr (takeWhile (\<lambda>c. c \<noteq> 0) a) else Inl C_Fault)"

text \<open>Element \<open>i\<close> of the string \<open>s\<close>.\<close>

definition str_at :: "bytes \<Rightarrow> nat \<Rightarrow> u8 cres" where
  "str_at s i = (if i < length s then Inr (s ! i) else if i = length s then Inr 0 else Inl C_Fault)"

text \<open>The index of the last \<open>c\<close> among the first \<open>k\<close> elements.\<close>

fun last_char :: "u8 \<Rightarrow> bytes \<Rightarrow> nat \<Rightarrow> int" where
  "last_char c s 0 = - 1"
| "last_char c s (Suc i) = (if i < length s \<and> s ! i = c then int i else last_char c s i)"

text \<open>\<open>isalnum\<close> and \<open>toupper\<close> of the C locale; the tables of the host have an entry for negative characters.\<close>

definition char_isalnum :: "u8 \<Rightarrow> bool" where
  "char_isalnum c \<longleftrightarrow> (0x30 \<le> c \<and> c \<le> 0x39) \<or> (0x41 \<le> c \<and> c \<le> 0x5a) \<or> (0x61 \<le> c \<and> c \<le> 0x7a)"

definition char_toupper :: "u8 \<Rightarrow> u8" where
  "char_toupper c = (if 0x61 \<le> c \<and> c \<le> 0x7a then c - 32 else c)"

section \<open>The bytes of an entry\<close>

fun sn_copy_loop :: "nat \<Rightarrow> nat \<Rightarrow> bytes \<Rightarrow> bytes \<Rightarrow> (nat \<times> bytes) cres" where
  "sn_copy_loop 0 i src dst = Inr (i, dst)"
| "sn_copy_loop (Suc k) i src dst =
     (if src ! i > 0x20 then rbind (aset dst (int i) (src ! i)) (sn_copy_loop k (i + 1) src) else Inr (i, dst))"

definition sn_copy :: "bytes \<Rightarrow> bytes \<Rightarrow> nat \<Rightarrow> bytes cres" where
  "sn_copy src dst len = rbind (sn_copy_loop len 0 src dst) (\<lambda>(i, dst). aset dst (int i) 0)"

text \<open>\<open>data\<close> has 32 bytes.\<close>

definition ufat_parse_dirent :: "ufat_fat_type_t \<Rightarrow> bytes \<Rightarrow> ufat_dirent \<Rightarrow> ufat_dirent cres" where
  "ufat_parse_dirent t data ent =
     rbind (sn_copy data (short_name ent) 8) (\<lambda>nm.
     rbind (sn_copy (drop 0x08 data) (short_ext ent) 3) (\<lambda>ext.
     Inr (ent\<lparr>short_name := nm, short_ext := ext,
       attributes := ucast (data ! 0x0b),
       create_time := r16 (drop 0x0e data),
       create_date := r16 (drop 0x10 data),
       access_date := r16 (drop 0x12 data),
       modify_time := r16 (drop 0x16 data),
       modify_date := r16 (drop 0x18 data),
       file_size := r32 (drop 0x1c data),
       first_cluster :=
         (if t = UFAT_TYPE_FAT32 then ucast (r16 (drop 0x1a data)) OR push_bit 16 (ucast (r16 (drop 0x14 data)))
          else ucast (r16 (drop 0x1a data)))\<rparr>)))"

text \<open>All 32 bytes are stored.\<close>

definition ufat_pack_dirent :: "ufat_dirent \<Rightarrow> bytes cres" where
  "ufat_pack_dirent ent =
     rbind (char_str (short_name ent)) (\<lambda>nm.
     rbind (char_str (short_ext ent)) (\<lambda>ext.
     rbind (mem_store (replicate 11 0x20) 0 nm) (\<lambda>d.
     rbind (mem_store d 0x08 ext) (\<lambda>d.
     Inr (d @ [ucast (attributes ent), 0, 0] @ w16 (create_time ent) @ w16 (create_date ent) @
       w16 (access_date ent) @ w16 (ucast (drop_bit 16 (first_cluster ent))) @ w16 (modify_time ent) @
       w16 (modify_date ent) @ w16 (ucast (first_cluster ent AND 0xffff)) @ w32 (file_size ent))))))"

section \<open>Legal names and short names\<close>

fun lfn_chars_legal :: "bytes \<Rightarrow> bool" where
  "lfn_chars_legal [] = True"
| "lfn_chars_legal (c # name) =
     (if c = 0x5c \<or> c = 0x2f \<or> sint c < 0x20 then False else lfn_chars_legal name)"

definition ufat_lfn_is_legal :: "bytes \<Rightarrow> bool" where
  "ufat_lfn_is_legal name =
     (if name = [] then False
      else if name ! 0 = 0x2e \<and> (length name = 1 \<or> name ! 1 = 0x2e \<and> length name = 2) then False
      else lfn_chars_legal name)"

definition is_legal_dos_char :: "u8 \<Rightarrow> bool" where
  "is_legal_dos_char c \<longleftrightarrow> char_isalnum c \<or> (c \<ge> 0x21 \<and> c \<le> 0x29) \<or> c = 0x2d \<or> c = 0x40 \<or>
     (c \<ge> 0x5e \<and> c \<le> 0x60) \<or> c = 0x7b \<or> c = 0x7d \<or> c = 0x7e"

fun dos_copy :: "nat \<Rightarrow> nat \<Rightarrow> bytes \<Rightarrow> bytes \<Rightarrow> (nat \<times> bytes) cres" where
  "dos_copy n j [] dst = Inr (j, dst)"
| "dos_copy n j (c # cs) dst =
     (if j < n
      then if is_legal_dos_char c then rbind (aset dst (int j) (char_toupper c)) (dos_copy n (j + 1) cs)
           else dos_copy n j cs dst
      else Inr (j, dst))"

definition ufat_short_first :: "bytes \<Rightarrow> bytes \<Rightarrow> bytes \<Rightarrow> (bytes \<times> bytes) cres" where
  "ufat_short_first long_name sn ext_text =
     (let len = length long_name;
          dot = last_char 0x2e long_name (len + 1);
          ext = (if dot > 0 then nat dot + 1 else len) in
      rbind (dos_copy 3 0 (drop ext long_name) ext_text) (\<lambda>(j, ext_text).
      rbind (aset ext_text (int j) 0) (\<lambda>ext_text.
      rbind (dos_copy 8 0 (take ext long_name) sn) (\<lambda>(j, sn).
      rbind (aset sn (int j) 0) (\<lambda>sn.
      if j = 0 then
        rbind (mem_store sn 0 (replicate 8 0x7e)) (\<lambda>sn.
        rbind (aset sn 8 0) (\<lambda>sn. Inr (sn, ext_text)))
      else Inr (sn, ext_text))))))"

text \<open>The loops of \<open>ufat_short_next\<close> go down from index \<open>i\<close>; the number is one more.\<close>

fun suffix_digits :: "nat \<Rightarrow> u32 \<Rightarrow> bytes \<Rightarrow> (nat \<times> bytes) cres" where
  "suffix_digits 0 n sn = Inr (0, sn)"
| "suffix_digits (Suc i) n sn =
     (if n = 0 then Inr (Suc i, sn)
      else rbind (aset sn (int i) (ucast (n mod 10) + 0x30)) (suffix_digits i (n div 10)))"

fun suffix_tildes :: "nat \<Rightarrow> int \<Rightarrow> bytes \<Rightarrow> bytes cres" where
  "suffix_tildes 0 tilde sn = Inr sn"
| "suffix_tildes (Suc i) tilde sn =
     (if int i \<ge> tilde then rbind (aset sn (int i) 0x7e) (suffix_tildes i tilde) else Inr sn)"

definition ufat_short_next :: "bytes \<Rightarrow> bytes cres" where
  "ufat_short_next sn =
     rbind (char_str sn) (\<lambda>s.
     let len = length s;
         t = last_char 0x7e s (len + 1);
         tilde = (if t < 0 then int len else t + 1);
         suffix_num = word_of_int (atoi (bytes_str (drop (nat tilde) sn)) + 1) in
     rbind (aset sn 8 0) (\<lambda>sn.
     rbind (suffix_digits 8 suffix_num sn) (\<lambda>(k, sn).
     case k of
       0 \<Rightarrow> Inr sn
     | Suc i \<Rightarrow> rbind (aset sn (int i) 0x7e) (suffix_tildes i tilde))))"

section \<open>Checksums\<close>

definition cksum_next :: "u8 \<Rightarrow> u8 \<Rightarrow> u8" where
  "cksum_next cur c = (push_bit 7 (cur AND 1) OR drop_bit 1 cur) + c"

definition ufat_short_checksum :: "bytes \<Rightarrow> bytes \<Rightarrow> u8" where
  "ufat_short_checksum sn ext =
     (let sum = foldl cksum_next 0 sn;
          sum = foldl cksum_next sum (replicate (8 - length sn) 0x20);
          sum = foldl cksum_next sum ext
      in foldl cksum_next sum (replicate (3 - length ext) 0x20))"

section \<open>Long names in fragments\<close>

definition ufat_lfn_reset :: "ufat_lfn_parser \<Rightarrow> ufat_lfn_parser" where
  "ufat_lfn_reset s = s\<lparr>lfn_seq := - 1\<rparr>"

definition ufat_lfn_ok :: "ufat_lfn_parser \<Rightarrow> bool" where
  "ufat_lfn_ok s \<longleftrightarrow> lfn_seq s = 0"

definition frag_data :: "bytes \<Rightarrow> u16 list" where
  "frag_data data =
     map (\<lambda>i. r16 (drop (0x01 + i * 2) data)) [0..<5] @
     map (\<lambda>i. r16 (drop (0x0e + i * 2) data)) [0..<6] @ [r16 (drop 0x1c data), r16 (drop 0x1e data)]"

fun copy_fragment :: "u16 list \<Rightarrow> int \<Rightarrow> u16 list \<Rightarrow> u16 list cres" where
  "copy_fragment [] p buf = Inr buf"
| "copy_fragment (x # xs) p buf = rbind (aset buf p x) (copy_fragment xs (p + 1))"

definition ufat_lfn_parse :: "ufat_lfn_parser \<Rightarrow> bytes \<Rightarrow> u64 \<Rightarrow> u32 \<Rightarrow> ufat_lfn_parser cres" where
  "ufat_lfn_parse s data blk pos =
     (let fr_seq = data ! 0;
          fr_pos = (uint (fr_seq AND 0x3f) - 1) * 13;
          fr_len = (if fr_pos + 13 > int UFAT_LFN_MAX_CHARS then int UFAT_LFN_MAX_CHARS - fr_pos else 13) in
      if fr_seq AND 0x40 = 0 \<and> (uint fr_seq \<noteq> lfn_seq s \<or> lfn_checksum s \<noteq> data ! 0x0d)
      then Inr (ufat_lfn_reset s)
      else
        let s = (if fr_seq AND 0x40 \<noteq> 0
                 then s\<lparr>lfn_start_block := blk, lfn_start_pos := pos, lfn_seq := uint (fr_seq AND 0x3f),
                        lfn_len := fr_pos + fr_len, lfn_checksum := data ! 0x0d\<rparr>
                 else s);
            s = s\<lparr>lfn_seq := lfn_seq s - 1\<rparr>
        in rbind (copy_fragment (take (nat fr_len) (frag_data data)) fr_pos (lfn_buf s))
             (\<lambda>buf. Inr (s\<lparr>lfn_buf := buf\<rparr>)))"

text \<open>\<open>ucs\<close> is the part of the array from the fragment on; all 32 bytes are stored.\<close>

definition ufat_lfn_pack_fragment :: "u16 list \<Rightarrow> int \<Rightarrow> bool \<Rightarrow> u8 \<Rightarrow> bytes cres" where
  "ufat_lfn_pack_fragment ucs seq is_first checksum =
     rbind (mem_load ucs 0 13) (\<lambda>f.
     Inr ([if is_first then word_of_int seq OR 0x40 else word_of_int seq] @
       concat (map (\<lambda>i. w16 (f ! i)) [0..<5]) @ [ucast UFAT_ATTR_LFN_FRAGMENT, 0, checksum] @
       concat (map (\<lambda>i. w16 (f ! (i + 5))) [0..<6]) @ [0, 0] @ w16 (f ! 11) @ w16 (f ! 12)))"

section \<open>Encodings\<close>

fun ucs2_loop :: "nat \<Rightarrow> u16 list \<Rightarrow> nat \<Rightarrow> int \<Rightarrow> bytes \<Rightarrow> (int \<times> nat \<times> bytes) cres" where
  "ucs2_loop 0 src j dst_len dst = Inr (0, j, dst)"
| "ucs2_loop (Suc k) [] j dst_len dst = Inl C_Fault"
| "ucs2_loop (Suc k) (c # src) j dst_len dst =
     (if c = 0 then Inr (0, j, dst)
      else if c \<ge> 0x800 then
        if int j + 3 \<ge> dst_len then Inr (- UFAT_ERR_BAD_ENCODING, j, dst)
        else rbind (mem_store dst j
               [ucast (0xe0 OR drop_bit 12 c), ucast (0x80 OR (drop_bit 6 c AND 0x3f)), ucast (0x80 OR (c AND 0x3f))])
             (ucs2_loop k src (j + 3) dst_len)
      else if c \<ge> 0x80 then
        if int j + 2 \<ge> dst_len then Inr (- UFAT_ERR_BAD_ENCODING, j, dst)
        else rbind (mem_store dst j [ucast (0xc0 OR drop_bit 6 c), ucast (0x80 OR (c AND 0x3f))])
             (ucs2_loop k src (j + 2) dst_len)
      else
        if int j + 1 \<ge> dst_len then Inr (- UFAT_ERR_BAD_ENCODING, j, dst)
        else rbind (mem_store dst j [ucast c]) (ucs2_loop k src (j + 1) dst_len))"

definition ufat_ucs2_to_utf8 :: "u16 list \<Rightarrow> int \<Rightarrow> bytes \<Rightarrow> int \<Rightarrow> (int \<times> bytes) cres" where
  "ufat_ucs2_to_utf8 src src_len dst dst_len =
     rbind (ucs2_loop (nat src_len) src 0 dst_len dst) (\<lambda>(err, j, dst).
     if err < 0 then Inr (err, dst)
     else if int j \<ge> dst_len then Inr (- UFAT_ERR_NAME_TOO_LONG, dst)
     else rbind (aset dst (int j) 0) (\<lambda>dst. Inr (0, dst)))"

text \<open>The end of \<open>ufat_utf8_to_ucs2\<close>: the array is filled up with zeros.\<close>

definition utf8_done :: "bytes \<Rightarrow> nat \<Rightarrow> u16 list \<Rightarrow> (int \<times> u16 list) cres" where
  "utf8_done src len dst =
     (if src \<noteq> [] then Inr (- UFAT_ERR_NAME_TOO_LONG, dst)
      else rbind (mem_store dst len (replicate (UFAT_LFN_MAX_CHARS - len) 0)) (\<lambda>dst. Inr (int len, dst)))"

function utf8_loop :: "bytes \<Rightarrow> nat \<Rightarrow> u16 list \<Rightarrow> (int \<times> u16 list) cres" where
  "utf8_loop src len dst =
     (if src = [] \<or> \<not> len < UFAT_LFN_MAX_CHARS then utf8_done src len dst
      else
        let c = scast (src ! 0) :: u32 in
        if c AND 0xf0 = 0xf0 then Inr (- UFAT_ERR_ILLEGAL_NAME, dst)
        else if c AND 0xe0 = 0xe0 then
          rbind (str_at src 1) (\<lambda>b. rbind (str_at src 2) (\<lambda>a.
          let b = scast b :: u32; a = scast a :: u32 in
          if a AND 0xc0 \<noteq> 0xc0 \<or> b AND 0xc0 \<noteq> 0xc0 then Inr (- UFAT_ERR_BAD_ENCODING, dst)
          else
            rbind (aset dst (int len)
              (ucast (push_bit 12 (c AND 0xf) OR push_bit 6 (b AND 0x3f) OR (a AND 0x3f)))) (\<lambda>dst.
            utf8_loop (drop 3 src) (len + 1) dst)))
        else if c AND 0xc0 = 0xc0 then
          rbind (str_at src 1) (\<lambda>b.
          let b = scast b :: u32 in
          if b AND 0xc0 \<noteq> 0xc0 then Inr (- UFAT_ERR_BAD_ENCODING, dst)
          else
            rbind (aset dst (int len) (ucast (push_bit 6 (c AND 0x1f) OR (b AND 0x3f)))) (\<lambda>dst.
            utf8_loop (drop 2 src) (len + 1) dst))
        else if c AND 0x80 \<noteq> 0 then Inr (- UFAT_ERR_BAD_ENCODING, dst)
        else rbind (aset dst (int len) (ucast c)) (\<lambda>dst. utf8_loop (drop 1 src) (len + 1) dst))"
  by pat_completeness auto
termination
  by (relation "measure (\<lambda>(src, _). length src)") auto

declare utf8_loop.simps [simp del]

definition ufat_utf8_to_ucs2 :: "bytes \<Rightarrow> u16 list \<Rightarrow> (int \<times> u16 list) cres" where
  "ufat_utf8_to_ucs2 src dst = utf8_loop src 0 dst"

section \<open>Printing and comparing names\<close>

fun format_put :: "bytes \<Rightarrow> nat \<Rightarrow> int \<Rightarrow> bytes \<Rightarrow> (int \<times> nat \<times> bytes) cres" where
  "format_put [] i max_len out = Inr (0, i, out)"
| "format_put (c # cs) i max_len out =
     (if int i \<ge> max_len then Inr (- UFAT_ERR_NAME_TOO_LONG, i, out)
      else rbind (aset out (int i) c) (format_put cs (i + 1) max_len))"

definition ufat_format_short :: "bytes \<Rightarrow> bytes \<Rightarrow> bytes \<Rightarrow> int \<Rightarrow> (int \<times> bytes) cres" where
  "ufat_format_short name ext out max_len =
     rbind (format_put name 0 max_len out) (\<lambda>(err, i, out).
     if err < 0 then Inr (err, out)
     else
       rbind (if ext \<noteq> [] then format_put (0x2e # ext) i max_len out else Inr (0, i, out)) (\<lambda>(err, i, out).
       if err < 0 then Inr (err, out)
       else if int i \<ge> max_len then Inr (- UFAT_ERR_NAME_TOO_LONG, out)
       else rbind (aset out (int i) 0) (\<lambda>out. Inr (0, out))))"

definition name_upcase :: "u8 \<Rightarrow> u8" where
  "name_upcase c = (if c \<ge> 0x61 \<and> c \<le> 0x7a then c - 32 else c)"

text \<open>The arguments are what is left of the names from index \<open>m\<close> on.\<close>

fun compare_loop :: "bool \<Rightarrow> int \<Rightarrow> bytes \<Rightarrow> bytes \<Rightarrow> int" where
  "compare_loop component_only m [] dir_name = (if dir_name \<noteq> [] then - 1 else m)"
| "compare_loop component_only m (sc # search_name) dir_name =
     (if component_only \<and> (sc = 0x2f \<or> sc = 0x5c) then (if dir_name \<noteq> [] then - 1 else m)
      else
        case dir_name of
          [] \<Rightarrow> - 1
        | dc # dir_name \<Rightarrow>
            if name_upcase sc \<noteq> name_upcase dc then - 1 else compare_loop component_only (m + 1) search_name dir_name)"

definition ufat_compare_name :: "bytes \<Rightarrow> bytes \<Rightarrow> bool \<Rightarrow> int" where
  "ufat_compare_name search_name dir_name component_only = compare_loop component_only 0 search_name dir_name"

end
