(* ===== verification/Fat_Short.thy ===== *)
theory Fat_Short
  imports Fat_Dirent Fat_Entry Db_Parse
begin

text \<open>
  Entries, names and their encodings: an entry that is packed is parsed again, short names are legal and
  numbered, names are compared without regard to case.
\<close>

section \<open>Packing and parsing an entry\<close>

lemma mem_splice_take_drop: "i < length m \<Longrightarrow> mem_splice i (x # xs) m = mem_splice (Suc i) xs (m[i := x])"
  by (simp add: mem_splice_def take_Suc_conv_app_nth drop_update_cancel take_update_cancel)

lemma sn_copy_loop_ok:
  "i + k \<le> length src \<Longrightarrow> i + k < length dst \<Longrightarrow>
   sn_copy_loop k i src dst =
     (let s = takeWhile (\<lambda>c. 0x20 < c) (take k (drop i src)) in Inr (i + length s, mem_splice i s dst))"
proof (induction k arbitrary: i dst)
  case 0
  then show ?case by (simp add: mem_splice_def)
next
  case (Suc k)
  have d: "take (Suc k) (drop i src) = src ! i # take k (drop (Suc i) src)"
    using Suc.prems by (simp add: Cons_nth_drop_Suc [symmetric])
  show ?case
    using Suc.prems Suc.IH [of "Suc i" "dst[i := src ! i]"] unfolding d
    by (simp add: aset_def Let_def mem_splice_take_drop) (simp add: mem_splice_def)
qed

lemma sn_copy_ok:
  assumes "len \<le> length src" "len < length dst"
  shows "sn_copy src dst len = Inr (mem_splice 0 (takeWhile (\<lambda>c. 0x20 < c) (take len src) @ [0]) dst)"
proof -
  let ?s = "takeWhile (\<lambda>c. 0x20 < c) (take len src)"
  have l: "length ?s \<le> len" using length_takeWhile_le [of _ "take len src"] assms(1) by simp
  have "(mem_splice 0 ?s dst)[length ?s := 0] = mem_splice 0 (?s @ [0]) dst"
    using l assms(2) by (intro nth_equalityI) (auto simp: nth_mem_splice nth_list_update nth_append mem_splice_def)
  then show ?thesis
    using sn_copy_loop_ok [of 0 len src dst] assms l by (simp add: sn_copy_def Let_def aset_def mem_splice_def)
qed

lemma char_str_of: "0 \<notin> set s \<Longrightarrow> char_str (s @ 0 # rest) = Inr s"
  by (induction s) (auto simp: char_str_def)

lemma char_str_no_nul: "char_str a = Inr s \<Longrightarrow> 0 \<notin> set s"
  by (auto simp: char_str_def dest: set_takeWhileD split: if_splits)

lemma char_str_length: "char_str a = Inr s \<Longrightarrow> length s < length a"
proof -
  assume "char_str a = Inr s"
  then have z: "0 \<in> set a" and s: "s = takeWhile (\<lambda>c. c \<noteq> 0) a" by (auto simp: char_str_def split: if_splits)
  have "s \<noteq> a" using z s by (metis set_takeWhileD)
  then show ?thesis using s length_takeWhile_le [of "\<lambda>c. c \<noteq> 0" a] takeWhile_eq_take [of "\<lambda>c. c \<noteq> 0" a]
    by (metis le_neq_implies_less take_all_iff order_refl)
qed

lemma char_str_elem: "char_str a = Inr s \<Longrightarrow> a = s @ 0 # drop (Suc (length s)) a"
proof -
  assume c: "char_str a = Inr s"
  then have l: "length s < length a" by (rule char_str_length)
  have s: "s = takeWhile (\<lambda>c. c \<noteq> 0) a" using c by (auto simp: char_str_def split: if_splits)
  then have "a ! length s = 0" using l nth_length_takeWhile [of "\<lambda>c. c \<noteq> 0" a] by simp
  moreover have "take (length s) a = s" using s by (metis takeWhile_eq_take)
  ultimately show ?thesis using l by (metis id_take_nth_drop)
qed

definition padded :: "nat \<Rightarrow> bytes \<Rightarrow> bytes" where
  "padded n s = s @ replicate (n - length s) 0x20"

lemma length_padded [simp]: "length s \<le> n \<Longrightarrow> length (padded n s) = n"
  by (simp add: padded_def)

lemma takeWhile_padded: "\<forall>c \<in> set s. 0x20 < c \<Longrightarrow> takeWhile (\<lambda>c::u8. 0x20 < c) (padded n s) = s"
  by (simp add: padded_def takeWhile_append2 takeWhile_replicate)

text \<open>What the code relies on for a short name: it fits, and no character is a blank or below.\<close>

definition short_ok :: "nat \<Rightarrow> bytes \<Rightarrow> bytes \<Rightarrow> bool" where
  "short_ok n a s \<longleftrightarrow> char_str a = Inr s \<and> length s \<le> n \<and> (\<forall>c \<in> set s. 0x20 < c)"

definition tail_bytes :: "ufat_dirent \<Rightarrow> bytes" where
  "tail_bytes ent = [ucast (attributes ent), 0, 0] @ w16 (create_time ent) @ w16 (create_date ent) @
       w16 (access_date ent) @ w16 (ucast (drop_bit 16 (first_cluster ent))) @ w16 (modify_time ent) @
       w16 (modify_date ent) @ w16 (ucast (first_cluster ent AND 0xffff)) @ w32 (file_size ent)"

lemma length_tail_bytes [simp]: "length (tail_bytes ent) = 21"
  by (simp add: tail_bytes_def w16_def w32_def)

lemma pack_dirent_ok:
  assumes "short_ok 8 (short_name ent) nm" "short_ok 3 (short_ext ent) ext"
  shows "ufat_pack_dirent ent = Inr (padded 8 nm @ padded 3 ext @ tail_bytes ent)"
proof -
  have n: "length nm \<le> 8" "length ext \<le> 3" using assms by (simp_all add: short_ok_def)
  have "mem_splice 8 ext (mem_splice 0 nm (replicate 11 0x20)) = padded 8 nm @ padded 3 ext"
    using n by (intro nth_equalityI) (auto simp: nth_mem_splice padded_def nth_append)
  then show ?thesis using assms n
    by (simp add: ufat_pack_dirent_def short_ok_def tail_bytes_def)
qed

lemma r16_w16_rest: "r16 (w16 v @ rest) = v"
  by (rule bit_word_eqI) (auto simp: r16_def w16_def bit_simps and_masks)

lemma r32_w32_rest: "r32 (w32 v @ rest) = v"
proof -
  have "r32 (w32 v @ rest) = r32 (w32 v)" by (simp add: r32_def r16_def w32_def w16_def)
  then show ?thesis by simp
qed

lemma length_w16 [simp]: "length (w16 v) = 2"
  by (simp add: w16_def)

lemma length_w32 [simp]: "length (w32 v) = 4"
  by (simp add: w32_def)

lemma tail_fields:
  "r16 (drop 3 (tail_bytes ent)) = create_time ent" "r16 (drop 5 (tail_bytes ent)) = create_date ent"
  "r16 (drop 7 (tail_bytes ent)) = access_date ent"
  "r16 (drop 9 (tail_bytes ent)) = ucast (drop_bit 16 (first_cluster ent))"
  "r16 (drop 11 (tail_bytes ent)) = modify_time ent" "r16 (drop 13 (tail_bytes ent)) = modify_date ent"
  "r16 (drop 15 (tail_bytes ent)) = ucast (first_cluster ent AND 0xffff)"
  "r32 (drop 17 (tail_bytes ent)) = file_size ent" "tail_bytes ent ! 0 = ucast (attributes ent)"
  by (simp_all add: tail_bytes_def r16_w16_rest)

lemma take_bit_small: "unat (w :: 'a::len word) < 2 ^ n \<Longrightarrow> take_bit n w = w"
  by (simp add: word_unat_eq_iff unsigned_take_bit_eq take_bit_nat_eq_self)

lemma cluster_halves:
  "ucast (ucast (c AND 0xffff) :: u16) OR push_bit 16 (ucast (ucast (drop_bit 16 c) :: u16)) = (c::u32)"
  "c < 0x10000 \<Longrightarrow> ucast (ucast (c AND 0xffff) :: u16) = (c::u32)"
proof -
  show "ucast (ucast (c AND 0xffff) :: u16) OR push_bit 16 (ucast (ucast (drop_bit 16 c) :: u16)) = c"
    by (rule bit_word_eqI) (auto simp: and_masks bit_simps)
  assume "c < 0x10000"
  then have "unat c < 2 ^ 16" by (simp add: word_less_nat_alt)
  then have "take_bit 16 c = c" by (rule take_bit_small)
  then show "ucast (ucast (c AND 0xffff) :: u16) = c"
    by (intro bit_word_eqI) (auto simp: and_masks bit_simps, metis bit_take_bit_iff)
qed

text \<open>An entry that is packed and parsed into any struct gives its names and members there.\<close>

lemma parse_packed:
  assumes n: "short_ok 8 (short_name ent) nm" "short_ok 3 (short_ext ent) ext"
    and a: "attributes ent < 0x100" and c: "t = UFAT_TYPE_FAT32 \<or> first_cluster ent < 0x10000"
    and l: "length (short_name e) = 9" "length (short_ext e) = 4"
  shows "ufat_parse_dirent t (padded 8 nm @ padded 3 ext @ tail_bytes ent) e =
    Inr (e\<lparr>short_name := mem_splice 0 (nm @ [0]) (short_name e), short_ext := mem_splice 0 (ext @ [0]) (short_ext e),
      attributes := attributes ent, create_time := create_time ent, create_date := create_date ent,
      access_date := access_date ent, modify_time := modify_time ent, modify_date := modify_date ent,
      file_size := file_size ent, first_cluster := first_cluster ent\<rparr>)"
proof -
  let ?d = "padded 8 nm @ padded 3 ext @ tail_bytes ent"
  have k: "length nm \<le> 8" "length ext \<le> 3" "\<forall>c \<in> set nm. 0x20 < c" "\<forall>c \<in> set ext. 0x20 < c"
    using n by (simp_all add: short_ok_def)
  have s: "sn_copy ?d (short_name e) 8 = Inr (mem_splice 0 (nm @ [0]) (short_name e))"
    "sn_copy (drop 8 ?d) (short_ext e) 3 = Inr (mem_splice 0 (ext @ [0]) (short_ext e))"
    using k l by (simp_all add: sn_copy_ok takeWhile_padded)
  have f: "r16 (drop (11 + i) ?d) = r16 (drop i (tail_bytes ent))" "r32 (drop (11 + i) ?d) = r32 (drop i (tail_bytes ent))" for i
    using k by simp_all
  note F = f(1) [of 3] f(1) [of 5] f(1) [of 7] f(1) [of 9] f(1) [of 11] f(1) [of 13] f(1) [of 15] f(2) [of 17]
  have at: "?d ! 11 = ucast (attributes ent)" using k tail_fields(9) [of ent] by (simp add: nth_append)
  have ua: "ucast (ucast (attributes ent) :: u8) = attributes ent"
  proof -
    have "unat (attributes ent) < 2 ^ 8" using a by (simp add: word_less_nat_alt)
    then have "take_bit 8 (attributes ent) = attributes ent"
      by (rule take_bit_small)
    then show ?thesis by (intro bit_word_eqI) (auto simp: bit_simps, metis bit_take_bit_iff)
  qed
  have "(if t = UFAT_TYPE_FAT32 then ucast (ucast (first_cluster ent AND 0xffff) :: u16) OR
            push_bit 16 (ucast (ucast (drop_bit 16 (first_cluster ent)) :: u16))
         else ucast (ucast (first_cluster ent AND 0xffff) :: u16)) = first_cluster ent"
    using c cluster_halves by auto
  then show ?thesis
    using F unfolding ufat_parse_dirent_def s rbind_Inr at ua by (cases t) (simp_all add: tail_fields)
qed

lemma char_str_splice: "length s < length a \<Longrightarrow> 0 \<notin> set s \<Longrightarrow> char_str (mem_splice 0 (s @ [0]) a) = Inr s"
  by (simp add: mem_splice_def char_str_of)

section \<open>Legal names\<close>

lemma lfn_chars_legal_all: "lfn_chars_legal s \<longleftrightarrow> (\<forall>c \<in> set s. c \<noteq> 0x5c \<and> c \<noteq> 0x2f \<and> 0x20 \<le> sint c)"
  by (induction s) auto

lemma signed_char: "0x20 \<le> sint (c :: u8) \<longleftrightarrow> 0x20 \<le> c \<and> c < 0x80"
proof -
  have u: "0 \<le> uint c" "uint c < 256" using uint_bounded [of c] by simp_all
  have "take_bit 8 (uint c) = uint c" using u by (simp add: take_bit_int_eq_self)
  moreover have "odd (x div 128) \<longleftrightarrow> 128 \<le> x" if "0 \<le> x" "x < 256" for x :: int using that by presburger
  then have "bit (uint c) 7 \<longleftrightarrow> 128 \<le> uint c" using u by (simp add: bit_iff_odd)
  ultimately have "sint c = uint c - (if 128 \<le> uint c then 256 else 0)"
    by (simp add: sint_uint signed_take_bit_eq_take_bit_minus)
  then show ?thesis using u by (auto simp: word_le_def word_less_def)
qed

text \<open>A legal name consists of ASCII characters only.\<close>

lemma legal_name_ascii: "ufat_lfn_is_legal s \<Longrightarrow> c \<in> set s \<Longrightarrow> 0x20 \<le> c \<and> c < 0x80"
  by (auto simp: ufat_lfn_is_legal_def lfn_chars_legal_all signed_char split: if_splits)

section \<open>Comparing names\<close>

definition component :: "bytes \<Rightarrow> bytes" where
  "component s = takeWhile (\<lambda>c. c \<noteq> 0x2f \<and> c \<noteq> 0x5c) s"

lemma compare_loop_ok:
  "0 \<le> m \<Longrightarrow> compare_loop co m s d =
    (let t = (if co then component s else s) in
     if map name_upcase t = map name_upcase d then m + int (length t) else - 1)"
proof (induction co m s d rule: compare_loop.induct)
  case (1 co m d)
  then show ?case by (auto simp: component_def)
next
  case (2 co m sc s d)
  then show ?case by (cases d) (auto simp: component_def Let_def)
qed

text \<open>Short names: what \<open>ufat_short_first\<close> makes of a long name and how \<open>ufat_short_next\<close> numbers them.\<close>

section \<open>The first short name\<close>

definition dos_chars :: "bytes \<Rightarrow> bytes" where
  "dos_chars s = map char_toupper (filter is_legal_dos_char s)"

lemma list_update_splice: "i < length m \<Longrightarrow> m[i := x] = mem_splice i [x] m"
  by (simp add: mem_splice_def upd_conv_take_nth_drop)

lemma dos_copy_ok:
  "j \<le> n \<Longrightarrow> n < length dst \<Longrightarrow>
   dos_copy n j cs dst = (let s = take (n - j) (dos_chars cs) in Inr (j + length s, mem_splice j s dst))"
proof (induction cs arbitrary: j dst)
  case Nil
  then show ?case by (simp add: dos_chars_def mem_splice_def)
next
  case (Cons c cs)
  show ?case
  proof (cases "j < n \<and> is_legal_dos_char c")
    case True
    then have "take (n - j) (dos_chars (c # cs)) = char_toupper c # take (n - Suc j) (dos_chars cs)"
      by (cases "n - j") (auto simp: dos_chars_def intro!: arg_cong [of _ _ "\<lambda>k. take k _"])
    then show ?thesis
      using Cons.IH [of "Suc j" "dst[j := char_toupper c]"] Cons.prems True
      by (simp add: aset_def Let_def mem_splice_take_drop)
  next
    case False
    then show ?thesis using Cons by (auto simp: dos_chars_def mem_splice_def Let_def)
  qed
qed

lemma splice_nul:
  "n + length s < length a \<Longrightarrow> (mem_splice n s a)[n + length s := 0] = mem_splice n (s @ [0]) a"
  by (intro nth_equalityI) (auto simp: nth_mem_splice nth_list_update nth_append)

lemma dos_char_range:
  assumes "is_legal_dos_char c"
  shows "0x20 < char_toupper c" "char_toupper c < 0x80"
  using assms
  by (auto simp: is_legal_dos_char_def char_isalnum_def char_toupper_def word_less_nat_alt word_le_nat_alt
      unat_sub_if' split: if_splits)

lemma dos_chars_ok: "c \<in> set (dos_chars s) \<Longrightarrow> 0x20 < c \<and> c < 0x80 \<and> c \<noteq> 0"
proof -
  assume "c \<in> set (dos_chars s)"
  then have "0x20 < c \<and> c < 0x80" using dos_char_range by (auto simp: dos_chars_def)
  then show ?thesis by auto
qed

text \<open>The index of the dot before the extension.\<close>

definition ext_index :: "bytes \<Rightarrow> nat" where
  "ext_index s = (let dot = last_char 0x2e s (length s + 1) in if dot > 0 then nat dot + 1 else length s)"

definition first_name :: "bytes \<Rightarrow> bytes" where
  "first_name s =
     (let b = take 8 (dos_chars (take (ext_index s) s)) in if b = [] then replicate 8 0x7e else b)"

definition first_ext :: "bytes \<Rightarrow> bytes" where
  "first_ext s = take 3 (dos_chars (drop (ext_index s) s))"

lemma dos_part:
  assumes "n < length a"
  obtains a' where "dos_copy n 0 s a = Inr (length (take n (dos_chars s)), a')"
    "aset a' (int (length (take n (dos_chars s)))) 0 = Inr (mem_splice 0 (take n (dos_chars s) @ [0]) a)"
    "short_ok n (mem_splice 0 (take n (dos_chars s) @ [0]) a) (take n (dos_chars s))"
proof -
  let ?t = "take n (dos_chars s)"
  have l: "length ?t \<le> n" by simp
  have r: "\<forall>c \<in> set ?t. 0x20 < c \<and> c \<noteq> 0" using dos_chars_ok by (meson in_set_takeD)
  then have "0 \<notin> set ?t" by blast
  then have "short_ok n (mem_splice 0 (?t @ [0]) a) ?t"
    using r l assms by (simp add: short_ok_def char_str_splice del: length_take)
  moreover have "aset (mem_splice 0 ?t a) (int (length ?t)) 0 = Inr (mem_splice 0 (?t @ [0]) a)"
    using splice_nul [of 0 ?t a] l assms by (simp add: aset_def del: length_take)
  ultimately show thesis using that [of "mem_splice 0 ?t a"] dos_copy_ok [of 0 n a s] assms by (simp add: Let_def)
qed

lemma short_first_ok:
  assumes "length sn = 9" "length ext = 4"
  obtains sn' ext' where "ufat_short_first s sn ext = Inr (sn', ext')" "length sn' = 9" "length ext' = 4"
    "short_ok 8 sn' (first_name s)" "short_ok 3 ext' (first_ext s)"
proof -
  let ?e = "ext_index s"
  let ?t = "take 8 (dos_chars (take ?e s))" and ?x = "take 3 (dos_chars (drop ?e s))"
  obtain x' where x: "dos_copy 3 0 (drop ?e s) ext = Inr (length ?x, x')"
      "aset x' (int (length ?x)) 0 = Inr (mem_splice 0 (?x @ [0]) ext)" "short_ok 3 (mem_splice 0 (?x @ [0]) ext) ?x"
    using dos_part [of 3 ext "drop ?e s"] assms by auto
  obtain t' where t: "dos_copy 8 0 (take ?e s) sn = Inr (length ?t, t')"
      "aset t' (int (length ?t)) 0 = Inr (mem_splice 0 (?t @ [0]) sn)" "short_ok 8 (mem_splice 0 (?t @ [0]) sn) ?t"
    using dos_part [of 8 sn "take ?e s"] assms by auto
  have l: "length (mem_splice 0 (?t @ [0]) sn) = 9" "length (mem_splice 0 (?x @ [0]) ext) = 4" using assms by simp_all
  have f: "ufat_short_first s sn ext =
      (if ?t = [] then rbind (mem_store (mem_splice 0 (?t @ [0]) sn) 0 (replicate 8 0x7e)) (\<lambda>sn.
         rbind (aset sn 8 0) (\<lambda>sn. Inr (sn, mem_splice 0 (?x @ [0]) ext)))
       else Inr (mem_splice 0 (?t @ [0]) sn, mem_splice 0 (?x @ [0]) ext))"
    unfolding ufat_short_first_def Let_def ext_index_def [unfolded Let_def, symmetric] x(1,2) t(1,2) rbind_Inr prod.case
    by (simp only: length_0_conv)
  show thesis
  proof (cases "?t = []")
    case True
    let ?r = "mem_splice 0 (replicate 8 0x7e @ [0]) (mem_splice 0 (?t @ [0]) sn)"
    have "char_str ?r = Inr (replicate 8 0x7e)" using l by (intro char_str_splice) simp_all
    then have "short_ok 8 ?r (first_name s)" using True by (simp add: short_ok_def first_name_def Let_def)
    moreover have "ufat_short_first s sn ext = Inr (?r, mem_splice 0 (?x @ [0]) ext)"
      using l splice_nul [of 0 "replicate 8 0x7e" "mem_splice 0 (?t @ [0]) sn"] True unfolding f
      by (simp add: aset_def)
    ultimately show thesis using that [of ?r] l x(3) by (simp add: first_ext_def)
  next
    case False
    then show thesis using that f l x(3) t(3) by (simp add: first_ext_def first_name_def Let_def)
  qed
qed

section \<open>The next short name\<close>

text \<open>A number in decimal.\<close>

definition num_bytes :: "nat \<Rightarrow> bytes" where
  "num_bytes n = str_bytes (show_nat n)"

lemma num_bytes_rec: "num_bytes n = (if n < 10 then [] else num_bytes (n div 10)) @ [of_nat (48 + n mod 10)]"
proof -
  have "(of_char (char_of (48 + n mod 10)) :: u8) = of_nat (of_char (char_of (48 + n mod 10) :: char))"
    by (simp only: of_nat_of_char)
  also have "\<dots> = of_nat (48 + n mod 10)" by (simp only: of_char_of) simp
  finally show ?thesis unfolding num_bytes_def by (subst show_nat.simps) (auto simp: str_bytes_def)
qed

lemma num_bytes_nonempty [simp]: "num_bytes n \<noteq> []"
  by (subst num_bytes_rec) simp

lemma length_num_bytes: "0 < k \<Longrightarrow> n < 10 ^ k \<Longrightarrow> length (num_bytes n) \<le> k"
proof (induction k arbitrary: n)
  case (Suc k)
  then show ?case
    using Suc.IH [of "n div 10"] by (subst num_bytes_rec) (cases k; auto)
qed simp

lemma unat_of_nat_u8: "k < 256 \<Longrightarrow> unat (of_nat k :: u8) = k"
  by (simp add: unat_of_nat)

lemma num_bytes_digits: "c \<in> set (num_bytes n) \<Longrightarrow> 0x30 \<le> c \<and> c \<le> 0x39"
proof (induction n rule: show_nat.induct)
  case (1 n)
  have "n mod 10 < 10" by simp
  then have "unat (of_nat (48 + n mod 10) :: u8) = 48 + n mod 10" by (intro unat_of_nat_u8) linarith
  then have "0x30 \<le> (of_nat (48 + n mod 10) :: u8) \<and> (of_nat (48 + n mod 10) :: u8) \<le> 0x39"
    unfolding word_le_nat_alt by simp
  then show ?case using 1 by (subst (asm) (2) num_bytes_rec) (auto simp del: of_nat_add split: if_splits)
qed

lemma digit_word:
  assumes "n < 2 ^ 32"
  shows "ucast ((of_nat n :: u32) mod 10) + 0x30 = (of_nat (48 + n mod 10) :: u8)"
    "(of_nat n :: u32) div 10 = of_nat (n div 10)"
proof -
  have u: "unat (of_nat n :: u32) = n" using assms by (simp add: unat_of_nat)
  have m: "unat ((of_nat n :: u32) mod 10) = n mod 10" by (simp add: unat_mod u)
  have "n mod 10 < 10" by simp
  then have "n mod 10 < 256" by linarith
  then have "ucast ((of_nat n :: u32) mod 10) = (of_nat (n mod 10) :: u8)"
    unfolding word_unat_eq_iff unsigned_ucast_eq m unat_of_nat_u8 [OF \<open>n mod 10 < 256\<close>] by (simp add: take_bit_nat_eq_self)
  then show "ucast ((of_nat n :: u32) mod 10) + 0x30 = (of_nat (48 + n mod 10) :: u8)" by simp
  show "(of_nat n :: u32) div 10 = of_nat (n div 10)"
    by (simp add: word_unat_eq_iff unat_div u unat_of_nat) (use assms in auto)
qed

lemma suffix_digits_ok:
  "0 < n \<Longrightarrow> n < 10 ^ k \<Longrightarrow> n < 2 ^ 32 \<Longrightarrow> k \<le> length a \<Longrightarrow>
   suffix_digits k (of_nat n) a =
     (let d = num_bytes n in Inr (k - length d, mem_splice (k - length d) d a))"
proof (induction k arbitrary: n a)
  case (Suc i)
  let ?x = "of_nat (48 + n mod 10) :: u8"
  have nz: "(of_nat n :: u32) \<noteq> 0" using Suc.prems by (simp add: word_unat_eq_iff unat_of_nat)
  have step: "suffix_digits (Suc i) (of_nat n) a = suffix_digits i (of_nat (n div 10)) (a[i := ?x])"
    using nz Suc.prems digit_word [of n] by (simp add: aset_def del: of_nat_add)
  show ?case
  proof (cases "n < 10")
    case True
    then have "suffix_digits i 0 (a[i := ?x]) = Inr (i, a[i := ?x])" by (cases i) simp_all
    then show ?thesis using step True Suc.prems
      by (simp add: num_bytes_rec [of n] Let_def list_update_splice)
  next
    case False
    let ?d = "num_bytes (n div 10)"
    have small: "n div 10 < 10 ^ i" using Suc.prems by auto
    have "0 < i" using small False by (cases i) auto
    then have l: "length ?d \<le> i" using length_num_bytes small by blast
    have d: "num_bytes n = ?d @ [?x]" using False by (subst num_bytes_rec) simp
    have "mem_splice (i - length ?d) ?d (a[i := ?x]) = mem_splice (i - length ?d) (?d @ [?x]) a"
      using l Suc.prems by (intro nth_equalityI) (auto simp: nth_mem_splice nth_list_update nth_append)
    moreover have "suffix_digits i (of_nat (n div 10)) (a[i := ?x]) =
        Inr (i - length ?d, mem_splice (i - length ?d) ?d (a[i := ?x]))"
      using Suc.IH [of "n div 10" "a[i := ?x]"] False small Suc.prems by (simp add: Let_def)
    ultimately show ?thesis using step d by (simp add: Let_def)
  qed
qed simp

lemma suffix_tildes_ok:
  "t \<le> k \<Longrightarrow> k \<le> length a \<Longrightarrow> suffix_tildes k (int t) a = Inr (mem_splice t (replicate (k - t) 0x7e) a)"
proof (induction k arbitrary: a)
  case (Suc i)
  show ?case
  proof (cases "t \<le> i")
    case True
    then have "mem_splice t (replicate (i - t) 0x7e) (a[i := 0x7e]) = mem_splice t (replicate (Suc i - t) 0x7e) a"
      using Suc.prems by (intro nth_equalityI) (auto simp: nth_mem_splice nth_list_update)
    then show ?thesis using Suc.IH [of "a[i := 0x7e]"] Suc.prems True by (simp add: aset_def)
  next
    case False
    then show ?thesis using Suc.prems by (simp add: mem_splice_def)
  qed
qed (simp add: mem_splice_def)

lemma last_char_at:
  "i < k \<Longrightarrow> i < length s \<Longrightarrow> s ! i = c \<Longrightarrow> \<forall>j. i < j \<and> j < k \<and> j < length s \<longrightarrow> s ! j \<noteq> c \<Longrightarrow>
   last_char c s k = int i"
  by (induction k) (auto simp: less_Suc_eq)

lemma last_char_hit: "c \<notin> set v \<Longrightarrow> k = length v + 1 \<Longrightarrow> last_char c (u @ c # v) (length u + k) = int (length u)"
proof -
  assume c: "c \<notin> set v" and k: "k = length v + 1"
  have "(u @ c # v) ! j \<noteq> c" if "length u < j" "j < length (u @ c # v)" for j
  proof -
    have "(u @ c # v) ! j = v ! (j - Suc (length u))" using that by (simp add: nth_append nth_Cons')
    moreover have "v ! (j - Suc (length u)) \<in> set v" using that by (intro nth_mem) auto
    ultimately show ?thesis using c by metis
  qed
  then show ?thesis using k by (intro last_char_at) (auto simp: nth_append)
qed

lemma last_char_miss: "c \<notin> set s \<Longrightarrow> last_char c s k = - 1"
  by (induction k) auto

lemma last_char_end: "last_char c s (Suc (length s)) = last_char c s (length s)"
  by simp

text \<open>Where the number of a short name begins, and the number.\<close>

definition number_index :: "bytes \<Rightarrow> nat" where
  "number_index s = (let t = last_char 0x7e s (length s + 1) in if t < 0 then length s else nat t + 1)"

definition name_number :: "bytes \<Rightarrow> int" where
  "name_number s = atoi (bytes_str (drop (number_index s) s))"

definition numbered :: "bytes \<Rightarrow> nat \<Rightarrow> bytes" where
  "numbered s n =
     (let d = num_bytes n; k = 8 - length d; t = min (number_index s) (k - 1)
      in take t s @ replicate (k - t) 0x7e @ d)"

lemma last_char_bounds: "- 1 \<le> last_char c s k \<and> last_char c s k < int (length s)"
  by (induction k) auto

lemma number_index_le: "number_index s \<le> length s"
  using last_char_bounds [of "0x7e" s "length s + 1"]
  by (simp add: number_index_def Let_def Suc_le_eq nat_less_iff del: last_char.simps)

lemma number_index_tilde: "0x7e \<notin> set d \<Longrightarrow> number_index (u @ 0x7e # d) = length u + 1"
  using last_char_hit [of "0x7e" d "length d + 1" u] by (simp add: number_index_def Let_def)

lemma number_index_none: "0x7e \<notin> set s \<Longrightarrow> number_index s = length s"
  by (simp add: number_index_def last_char_miss del: last_char.simps)

lemma bytes_str_rest: "0 \<notin> set s \<Longrightarrow> bytes_str (s @ 0 # rest) = bytes_str s"
  by (induction s) (auto simp: bytes_str_def)

lemma num_bytes_not: "0 \<notin> set (num_bytes n)" "0x7e \<notin> set (num_bytes n)"
  using num_bytes_digits [of 0 n] num_bytes_digits [of "0x7e" n] by auto

lemma atoi_num_bytes: "n < 2 ^ 31 \<Longrightarrow> atoi (bytes_str (num_bytes n)) = int n"
proof -
  assume n: "n < 2 ^ 31"
  have "CHR 0x00 \<notin> set (show_nat n)" using show_nat_digits [of "CHR 0x00" n] by (auto simp: digit_val_def)
  then have "bytes_str (num_bytes n @ [0]) = show_nat n" unfolding num_bytes_def by (rule bytes_str_str_bytes)
  then show ?thesis using bytes_str_rest [OF num_bytes_not(1)] atoi_show_nat [OF n] by simp
qed

lemma length_num_bytes_8: "n < 10 ^ 8 \<Longrightarrow> length (num_bytes n) \<le> 8"
  by (rule length_num_bytes) simp_all

lemma length_numbered: "length s \<le> 8 \<Longrightarrow> n < 10 ^ 8 \<Longrightarrow> length (numbered s n) = 8"
  using length_num_bytes_8 [of n] number_index_le [of s] by (auto simp: numbered_def Let_def min_def)

lemma numbered_nonzero: "0 \<notin> set s \<Longrightarrow> 0 \<notin> set (numbered s n)"
  using num_bytes_not by (auto simp: numbered_def Let_def dest: in_set_takeD)

lemma suffix_tildes_above: "k < t \<Longrightarrow> suffix_tildes k (int t) a = Inr a"
  by (cases k) simp_all

lemma short_next_ok:
  assumes a: "length a = 9" "char_str a = Inr s"
    and n: "0 \<le> name_number s" "nat (name_number s) + 1 < 10 ^ 8"
  shows "ufat_short_next a = Inr (numbered s (nat (name_number s) + 1) @ [0])"
proof -
  define m where "m = nat (name_number s) + 1"
  let ?d = "num_bytes m" and ?t = "number_index s"
  let ?b = "a[8 := 0]" and ?k = "8 - length ?d"
  have s: "length s \<le> 8" "0 \<notin> set s" using char_str_length [OF a(2)] a(1) char_str_no_nul [OF a(2)] by simp_all
  have t: "?t \<le> length s" by (rule number_index_le)
  have ld: "length ?d \<le> 8" using n(2) by (intro length_num_bytes_8) (simp add: m_def)
  have tk: "j \<le> length s \<Longrightarrow> take j a = take j s" for j by (subst char_str_elem [OF a(2)]) simp
  have "drop ?t a = drop ?t s @ 0 # drop (Suc (length s)) a"
    using t by (subst char_str_elem [OF a(2)]) simp
  moreover have "0 \<notin> set (drop ?t s)" using s(2) by (meson in_set_dropD)
  ultimately have num: "atoi (bytes_str (drop ?t a)) = name_number s"
    by (simp add: bytes_str_rest name_number_def)
  have w: "(word_of_int (name_number s + 1) :: u32) = of_nat m"
  proof -
    have "name_number s + 1 = int m" using n(1) by (simp add: m_def)
    then show ?thesis by simp
  qed
  have m: "0 < m" "m < 10 ^ 8" "m < 2 ^ 32" using n(2) by (simp_all add: m_def)
  have dig: "suffix_digits 8 (of_nat m) ?b = Inr (?k, mem_splice ?k ?d ?b)"
    using suffix_digits_ok [OF m, of ?b] a(1) by (simp add: Let_def)
  have tl: "(if last_char 0x7e s (length s + 1) < 0 then int (length s) else last_char 0x7e s (length s + 1) + 1) = int ?t"
    using last_char_bounds [of "0x7e" s "length s + 1"] by (simp add: number_index_def Let_def Suc_nat_eq_nat_zadd1 add.commute del: last_char.simps)
  have next_: "ufat_short_next a = (case ?k of 0 \<Rightarrow> Inr (mem_splice ?k ?d ?b)
     | Suc i \<Rightarrow> rbind (aset (mem_splice ?k ?d ?b) (int i) 0x7e) (suffix_tildes i (int ?t)))"
  proof -
    have "aset a 8 0 = Inr ?b" using a(1) by (simp add: aset_def)
    then show ?thesis unfolding ufat_short_next_def a(2) rbind_Inr Let_def tl nat_int num w
      by (simp only: rbind_Inr dig prod.case)
  qed
  have "ufat_short_next a = Inr (numbered s m @ [0])"
  proof (cases ?k)
    case 0
    then have "mem_splice 0 ?d ?b = numbered s m @ [0]"
      using a(1) ld by (intro nth_equalityI) (auto simp: nth_mem_splice nth_append numbered_def Let_def nth_list_update)
    then show ?thesis using next_ 0 by simp
  next
    case (Suc i)
    let ?c = "(mem_splice ?k ?d ?b)[i := 0x7e]"
    have c: "length ?c = 9" using a(1) ld by simp
    have "suffix_tildes i (int ?t) ?c = Inr (if ?t \<le> i then mem_splice ?t (replicate (i - ?t) 0x7e) ?c else ?c)"
      using suffix_tildes_ok [of ?t i ?c] suffix_tildes_above [of i ?t ?c] Suc c by auto
    moreover have "(if ?t \<le> i then mem_splice ?t (replicate (i - ?t) 0x7e) ?c else ?c) = numbered s m @ [0]"
    proof -
      have c': "?c = take i a @ 0x7e # ?d @ [0]"
      proof -
        have "drop 8 ?b = [0]" using a(1) by (simp add: drop_update_cancel length_Suc_conv eval_nat_numeral) auto
        moreover have "take i (take ?k ?b) = take i a" using Suc by simp
        moreover have "(take ?k ?b @ x)[i := 0x7e] = take i (take ?k ?b) @ 0x7e # x" for x
          using Suc a(1) by (simp add: list_update_append upd_conv_take_nth_drop)
        ultimately show ?thesis using ld by (simp add: mem_splice_def)
      qed
      have r: "replicate (?k - j) (0x7e::u8) = replicate (i - j) 0x7e @ [0x7e]" if "j \<le> i" for j
        using Suc that by (simp add: replicate_append_same Suc_diff_le)
      show ?thesis
      proof (cases "?t \<le> i")
        case True
        then have "numbered s m = take ?t s @ (replicate (i - ?t) 0x7e @ [0x7e]) @ ?d"
          unfolding numbered_def Let_def r [OF True, symmetric] using Suc by (simp add: min_absorb1)
        moreover have "mem_splice ?t (replicate (i - ?t) 0x7e) (take i a @ 0x7e # ?d @ [0]) =
            take ?t a @ replicate (i - ?t) 0x7e @ 0x7e # ?d @ [0]"
          using True Suc a(1) by (simp add: mem_splice_def min_absorb1)
        ultimately show ?thesis unfolding c' using True tk [OF t] by simp
      next
        case False
        then have "take i a = take i s" using t by (intro tk) simp
        moreover have "numbered s m = take i s @ (replicate (i - i) 0x7e @ [0x7e]) @ ?d"
          unfolding numbered_def Let_def r [OF order_refl, symmetric] using Suc False by (simp add: min_absorb2)
        ultimately show ?thesis unfolding c' using False by simp
      qed
    qed
    ultimately show ?thesis using next_ Suc a(1) ld by (simp add: aset_def)
  qed
  then show ?thesis by (simp add: m_def)
qed

text \<open>The name with number \<open>n\<close> ends in a tilde and \<open>n\<close> in decimal.\<close>

lemma numbered_number: "n < 10 ^ 7 \<Longrightarrow> name_number (numbered s n) = int n"
proof -
  assume n: "n < 10 ^ 7"
  let ?d = "num_bytes n" and ?k = "8 - length (num_bytes n)"
  let ?t = "min (number_index s) (?k - 1)"
  have ld: "length ?d \<le> 7" using n by (intro length_num_bytes) simp_all
  then have "replicate (?k - ?t) (0x7e::u8) = replicate (?k - ?t - 1) 0x7e @ [0x7e]"
    by (cases "?k - ?t") (auto simp: replicate_append_same)
  then have f: "numbered s n = (take ?t s @ replicate (?k - ?t - 1) 0x7e) @ 0x7e # ?d"
    by (simp add: numbered_def Let_def)
  have "drop (number_index (numbered s n)) (numbered s n) = ?d"
    unfolding f number_index_tilde [OF num_bytes_not(2)] by simp
  then show ?thesis using n by (simp add: name_number_def atoi_num_bytes)
qed

fun short_name_seq :: "bytes \<Rightarrow> nat \<Rightarrow> bytes cres" where
  "short_name_seq a 0 = Inr a"
| "short_name_seq a (Suc i) = rbind (short_name_seq a i) ufat_short_next"

lemma numbered_chars: "\<forall>c \<in> set s. 0x20 < c \<Longrightarrow> \<forall>c \<in> set (numbered s n). 0x20 < c"
proof -
  assume s: "\<forall>c \<in> set s. 0x20 < c"
  have d: "0x20 < c" if "c \<in> set (num_bytes n)" for c
    using num_bytes_digits [OF that] by (auto simp: word_le_nat_alt word_less_nat_alt)
  show ?thesis using s d by (auto simp: numbered_def Let_def dest: in_set_takeD)
qed

lemma short_name_seq_ok:
  assumes a: "length a = 9" "short_ok 8 a s" and z: "0 \<le> name_number s"
  shows "nat (name_number s) + i < 10 ^ 7 \<Longrightarrow>
    \<exists>b u. short_name_seq a i = Inr b \<and> length b = 9 \<and> short_ok 8 b u \<and> name_number u = name_number s + int i"
proof (induction i)
  case 0
  then show ?case using a by (intro exI [of _ a] exI [of _ s]) simp
next
  case (Suc i)
  then obtain b u where b: "short_name_seq a i = Inr b" "length b = 9" "short_ok 8 b u"
      "name_number u = name_number s + int i" by auto
  let ?m = "nat (name_number u) + 1"
  have m: "?m < 10 ^ 7" "int ?m = name_number s + int (Suc i)" using Suc.prems z b(4) by simp_all
  have c: "char_str b = Inr u" "length u \<le> 8" "\<forall>c \<in> set u. 0x20 < c" using b(3) by (simp_all add: short_ok_def)
  have n: "ufat_short_next b = Inr (numbered u ?m @ [0])" using z b c m by (intro short_next_ok) simp_all
  have "char_str (numbered u ?m @ [0]) = Inr (numbered u ?m)"
    by (rule char_str_of) (rule numbered_nonzero [OF char_str_no_nul [OF c(1)]])
  moreover have l: "length (numbered u ?m) = 8" using m(1) by (intro length_numbered [OF c(2)]) simp
  ultimately have "short_ok 8 (numbered u ?m @ [0]) (numbered u ?m)"
    using numbered_chars [OF c(3)] by (simp add: short_ok_def)
  moreover have "name_number (numbered u ?m) = int ?m" by (rule numbered_number [OF m(1)])
  ultimately show ?case using b(1) n l m(2)
    by (intro exI [of _ "numbered u ?m @ [0]"] exI [of _ "numbered u ?m"]) simp
qed

end
