(* ===== verification/Fat_Lfn.thy ===== *)
theory Fat_Lfn
  imports Fat_Short
begin

text \<open>
  Long names: the fragments of a name are put together again, and the two encodings.
\<close>

section \<open>One fragment\<close>

lemma fragment_bytes:
  assumes "13 \<le> length ucs"
  obtains data where "ufat_lfn_pack_fragment ucs sq first cs = Inr data" "length data = 32"
    "data ! 0 = (if first then word_of_int sq OR 0x40 else word_of_int sq)" "data ! 0x0b = 0x0f" "data ! 0x0d = cs"
    "frag_data data = take 13 ucs"
proof -
  define f where "f = mem_slice 0 13 ucs"
  define d0 :: u8 where "d0 = (if first then word_of_int sq OR 0x40 else word_of_int sq)"
  define data where "data = [d0] @ concat (map (\<lambda>i. w16 (f ! i)) [0..<5]) @ [ucast UFAT_ATTR_LFN_FRAGMENT, 0, cs] @
       concat (map (\<lambda>i. w16 (f ! (i + 5))) [0..<6]) @ [0, 0] @ w16 (f ! 11) @ w16 (f ! 12)"
  have p: "ufat_lfn_pack_fragment ucs sq first cs = Inr data"
    using assms by (simp add: ufat_lfn_pack_fragment_def data_def f_def d0_def)
  have f: "f = take 13 ucs" by (simp add: f_def mem_slice_def)
  have "length f = 13" using assms f by simp
  then obtain a0 a1 a2 a3 a4 a5 a6 a7 a8 a9 a10 a11 a12 where f': "f = [a0, a1, a2, a3, a4, a5, a6, a7, a8, a9, a10, a11, a12]"
    by (auto simp: numeral_eq_Suc length_Suc_conv)
  have fr: "frag_data data = f"
    by (simp add: frag_data_def data_def f' upt_conv_Cons w16_def r16_w16_rest [unfolded w16_def append.simps])
  show thesis
    by (rule that [OF p]) (use fr f in \<open>simp_all add: data_def d0_def upt_conv_Cons w16_def UFAT_ATTR_LFN_FRAGMENT_def\<close>)
qed

lemma copy_fragment_ok:
  "p + length xs \<le> length buf \<Longrightarrow> copy_fragment xs (int p) buf = Inr (mem_splice p xs buf)"
proof (induction xs arbitrary: p buf)
  case (Cons x xs)
  then show ?case using Cons.IH [of "Suc p" "buf[p := x]"] by (simp add: aset_def mem_splice_take_drop add.commute)
qed (simp add: mem_splice_def)

text \<open>The last fragment of a name, then each of the others.\<close>

lemma seq_byte:
  assumes "0 < k" "k \<le> 19"
  shows "((word_of_int (int k) :: u8) OR 0x40) AND 0x40 \<noteq> 0" "((word_of_int (int k) :: u8) OR 0x40) AND 0x3f = of_nat k"
    "(word_of_int (int k) :: u8) AND 0x40 = 0" "(word_of_int (int k) :: u8) AND 0x3f = of_nat k"
    "uint (of_nat k :: u8) = int k"
proof -
  have "k \<in> {1..19}" using assms by simp
  then have "k = 1 \<or> k = 2 \<or> k = 3 \<or> k = 4 \<or> k = 5 \<or> k = 6 \<or> k = 7 \<or> k = 8 \<or> k = 9 \<or> k = 10 \<or> k = 11 \<or> k = 12 \<or>
      k = 13 \<or> k = 14 \<or> k = 15 \<or> k = 16 \<or> k = 17 \<or> k = 18 \<or> k = 19"
    unfolding atLeastAtMost_iff by presburger
  then show "((word_of_int (int k) :: u8) OR 0x40) AND 0x40 \<noteq> 0" "((word_of_int (int k) :: u8) OR 0x40) AND 0x3f = of_nat k"
    "(word_of_int (int k) :: u8) AND 0x40 = 0" "(word_of_int (int k) :: u8) AND 0x3f = of_nat k"
    "uint (of_nat k :: u8) = int k"
    by (elim disjE; simp)+
qed

text \<open>The state of the parser after the fragments from the last one, \<open>n\<close>, down to \<open>k + 1\<close>.\<close>

definition lfn_state :: "u16 list \<Rightarrow> nat \<Rightarrow> u8 \<Rightarrow> u64 \<times> u32 \<Rightarrow> nat \<Rightarrow> ufat_lfn_parser \<Rightarrow> bool" where
  "lfn_state N n cs start k s \<longleftrightarrow> lfn_seq s = int k \<and> lfn_checksum s = cs \<and> lfn_len s = int (n * 13) \<and>
     (lfn_start_block s, lfn_start_pos s) = start \<and> length (lfn_buf s) = 255 \<and>
     (\<forall>i. k * 13 \<le> i \<and> i < n * 13 \<longrightarrow> lfn_buf s ! i = N ! i)"

lemma lfn_parse_first:
  assumes N: "n * 13 \<le> length N" and n: "0 < n" "n \<le> 19" and b: "length (lfn_buf s) = 255"
    and d: "ufat_lfn_pack_fragment (drop ((n - 1) * 13) N) (int n) True cs = Inr data"
  shows "\<exists>s'. ufat_lfn_parse s data blk pos = Inr s' \<and> lfn_state N n cs (blk, pos) (n - 1) s'"
proof -
  let ?p = "(n - 1) * 13"
  have l: "13 \<le> length (drop ?p N)" using N n by (simp add: diff_mult_distrib)
  obtain data' where D: "ufat_lfn_pack_fragment (drop ?p N) (int n) True cs = Inr data'"
      "data' ! 0 = word_of_int (int n) OR 0x40" "data' ! 0x0d = cs" "frag_data data' = take 13 (drop ?p N)"
    using fragment_bytes [OF l, of "int n" True cs] by auto
  have dd: "data' = data" using D(1) d by simp
  note D = D(2-4) [unfolded dd]
  note S = seq_byte [OF n]
  have p: "(int n - 1) * 13 = int ?p" "?p + 13 \<le> 255" using n by (simp_all add: of_nat_diff)
  have "length (frag_data data) = 13" using D(3) l by simp
  then have cf: "copy_fragment (take 13 (frag_data data)) (int ?p) (lfn_buf s) = Inr (mem_splice ?p (frag_data data) (lfn_buf s))"
    using copy_fragment_ok [of ?p "frag_data data" "lfn_buf s"] p(2) b by (simp del: of_nat_mult)
  define s' where "s' = s\<lparr>lfn_start_block := blk, lfn_start_pos := pos, lfn_seq := int n - 1,
      lfn_len := int ?p + 13, lfn_checksum := cs, lfn_buf := mem_splice ?p (frag_data data) (lfn_buf s)\<rparr>"
  have r: "ufat_lfn_parse s data blk pos = Inr s'"
    unfolding ufat_lfn_parse_def Let_def D(1) S(2,5) p(1) using S(1) p(2) D(2) cf
    by (simp add: UFAT_LFN_MAX_CHARS_def s'_def)
  have "lfn_buf s' ! i = N ! i" if i: "?p \<le> i" "i < n * 13" for i
  proof -
    have "i - ?p < 13" "i < ?p + 13" "i < 255" using i n by (simp_all add: diff_mult_distrib)
    then show ?thesis using i l b p(2) D(3) \<open>length (frag_data data) = 13\<close>
      by (simp add: s'_def nth_mem_splice)
  qed
  moreover have "int ?p + 13 = int (n * 13)" using n by (simp add: of_nat_diff)
  ultimately have "lfn_state N n cs (blk, pos) (n - 1) s'"
    using n b p(2) \<open>length (frag_data data) = 13\<close> by (simp add: lfn_state_def s'_def of_nat_diff)
  then show ?thesis using r by blast
qed

lemma lfn_parse_next:
  assumes N: "n * 13 \<le> length N" and k: "0 < k" "k < n" "n \<le> 19" and s: "lfn_state N n cs start k s"
    and d: "ufat_lfn_pack_fragment (drop ((k - 1) * 13) N) (int k) False cs = Inr data"
  shows "\<exists>s'. ufat_lfn_parse s data blk pos = Inr s' \<and> lfn_state N n cs start (k - 1) s'"
proof -
  let ?p = "(k - 1) * 13"
  have kn: "k * 13 \<le> n * 13" using k(2) by (intro mult_le_mono1) simp
  have l: "13 \<le> length (drop ?p N)" using N k kn by (simp add: diff_mult_distrib)
  obtain data' where D: "ufat_lfn_pack_fragment (drop ?p N) (int k) False cs = Inr data'"
      "data' ! 0 = word_of_int (int k)" "data' ! 0x0d = cs" "frag_data data' = take 13 (drop ?p N)"
    using fragment_bytes [OF l, of "int k" False cs] by auto
  have dd: "data' = data" using D(1) d by simp
  note D = D(2-4) [unfolded dd]
  have k19: "k \<le> 19" using k by simp
  note S = seq_byte [OF k(1) k19]
  have s': "lfn_seq s = int k" "lfn_checksum s = cs" "length (lfn_buf s) = 255"
    "\<forall>i. k * 13 \<le> i \<and> i < n * 13 \<longrightarrow> lfn_buf s ! i = N ! i" using s by (simp_all add: lfn_state_def)
  have p: "(int k - 1) * 13 = int ?p" "?p + 13 \<le> 255" "?p + 13 = k * 13" using k by (simp_all add: of_nat_diff)
  have lf: "length (frag_data data) = 13" using D(3) l by simp
  have cf: "copy_fragment (take 13 (frag_data data)) (int ?p) (lfn_buf s) = Inr (mem_splice ?p (frag_data data) (lfn_buf s))"
    using copy_fragment_ok [of ?p "frag_data data" "lfn_buf s"] p(2) s'(3) lf by (simp del: of_nat_mult)
  define t where "t = s\<lparr>lfn_seq := int k - 1, lfn_buf := mem_splice ?p (frag_data data) (lfn_buf s)\<rparr>"
  have u: "uint (word_of_int (int k) :: u8) = int k" using S(5) by simp
  have r: "ufat_lfn_parse s data blk pos = Inr t"
    unfolding ufat_lfn_parse_def Let_def D(1) S(3,4,5) u p(1) using p(2) D(2) s'(1,2) cf
    by (simp add: UFAT_LFN_MAX_CHARS_def t_def)
  have "lfn_buf t ! i = N ! i" if i: "?p \<le> i" "i < n * 13" for i
  proof (cases "i < k * 13")
    case True
    then have "i - ?p < 13" "i < 255" using i p(2,3) by linarith+
    then show ?thesis using i l s'(3) p(2,3) D(3) lf True
      by (simp add: t_def nth_mem_splice)
  next
    case False
    then have "lfn_buf s ! i = N ! i" using s'(4) i by simp
    moreover have "i < 255" using i k by simp
    ultimately show ?thesis using False s'(3) p(2,3) lf by (simp add: t_def nth_mem_splice)
  qed
  then have "lfn_state N n cs start (k - 1) t"
    using s s'(3) p(2) lf k by (simp add: lfn_state_def t_def of_nat_diff)
  then show ?thesis using r by blast
qed

section \<open>All fragments of a name\<close>

text \<open>The fragments in the order in which they are written, and the parser fed with entries at their places.\<close>

fun name_fragments :: "nat \<Rightarrow> bool \<Rightarrow> u16 list \<Rightarrow> u8 \<Rightarrow> bytes list cres" where
  "name_fragments 0 first N cs = Inr []"
| "name_fragments (Suc k) first N cs =
     rbind (ufat_lfn_pack_fragment (drop (k * 13) N) (int (Suc k)) first cs) (\<lambda>d.
     rbind (name_fragments k False N cs) (\<lambda>ds. Inr (d # ds)))"

fun lfn_feed :: "ufat_lfn_parser \<Rightarrow> (bytes \<times> u64 \<times> u32) list \<Rightarrow> ufat_lfn_parser cres" where
  "lfn_feed s [] = Inr s"
| "lfn_feed s ((d, blk, pos) # ds) = rbind (ufat_lfn_parse s d blk pos) (\<lambda>s. lfn_feed s ds)"

lemma name_fragments_ok:
  "k * 13 \<le> length N \<Longrightarrow> \<exists>ds. name_fragments k first N cs = Inr ds \<and> length ds = k \<and>
     (\<forall>d \<in> set ds. length d = 32 \<and> d ! 0x0b = 0x0f)"
proof (induction k arbitrary: first)
  case (Suc k)
  then obtain ds where "name_fragments k False N cs = Inr ds" "length ds = k" "\<forall>d \<in> set ds. length d = 32 \<and> d ! 0x0b = 0x0f"
    by auto
  moreover have "13 \<le> length (drop (k * 13) N)" using Suc.prems by simp
  then obtain d where "ufat_lfn_pack_fragment (drop (k * 13) N) (int (Suc k)) first cs = Inr d" "length d = 32" "d ! 0x0b = 0x0f"
    by (rule fragment_bytes)
  ultimately show ?case by simp
qed simp

lemma lfn_feed_rest:
  assumes N: "n * 13 \<le> length N" "n \<le> 19"
  shows "k < n \<Longrightarrow> lfn_state N n cs start k s \<Longrightarrow> name_fragments k False N cs = Inr ds \<Longrightarrow> length pl = k \<Longrightarrow>
    \<exists>s'. lfn_feed s (zip ds pl) = Inr s' \<and> lfn_state N n cs start 0 s'"
proof (induction k arbitrary: s ds pl)
  case (Suc k)
  obtain d ds' where d: "ufat_lfn_pack_fragment (drop (k * 13) N) (int (Suc k)) False cs = Inr d"
      "name_fragments k False N cs = Inr ds'" "ds = d # ds'"
    using Suc.prems(3) by (auto simp: rbind_eq_Inr)
  obtain blk pos pl' where pl: "pl = (blk, pos) # pl'" "length pl' = k"
    using Suc.prems(4) by (cases pl) auto
  have dk: "ufat_lfn_pack_fragment (drop ((Suc k - 1) * 13) N) (int (Suc k)) False cs = Inr d" using d(1) by simp
  obtain s' where "ufat_lfn_parse s d blk pos = Inr s'" "lfn_state N n cs start k s'"
    using lfn_parse_next [OF N(1) _ Suc.prems(1) N(2) Suc.prems(2) dk, of blk pos] by auto
  then show ?case using Suc.IH [of s' ds' pl'] Suc.prems(1) d pl by simp
qed simp

lemma lfn_feed_ok:
  assumes N: "n * 13 \<le> length N" and n: "0 < n" "n \<le> 19" and b: "length (lfn_buf s) = 255"
    and f: "name_fragments n True N cs = Inr ds" "length pl = n"
  shows "\<exists>s'. lfn_feed s (zip ds pl) = Inr s' \<and> lfn_state N n cs (hd pl) 0 s'"
proof -
  obtain k where k: "n = Suc k" using n(1) by (cases n) auto
  obtain d ds' where d: "ufat_lfn_pack_fragment (drop (k * 13) N) (int (Suc k)) True cs = Inr d"
      "name_fragments k False N cs = Inr ds'" "ds = d # ds'"
    using f(1) k by (auto simp: rbind_eq_Inr)
  obtain blk pos pl' where pl: "pl = (blk, pos) # pl'" "length pl' = k"
    using f(2) k by (cases pl) auto
  have dk: "ufat_lfn_pack_fragment (drop ((n - 1) * 13) N) (int n) True cs = Inr d" using d(1) k by simp
  obtain s' where s': "ufat_lfn_parse s d blk pos = Inr s'" "lfn_state N n cs (blk, pos) k s'"
    using lfn_parse_first [OF N n b dk, of blk pos] k by auto
  have "k < n" using k by simp
  then show ?thesis using lfn_feed_rest [OF N n(2) _ s'(2) d(2) pl(2)] s'(1) d(3) pl(1) by simp
qed

section \<open>Encodings\<close>

text \<open>The UTF-8 bytes of a character of two bytes.\<close>

definition utf8_char :: "u16 \<Rightarrow> bytes" where
  "utf8_char c =
     (if c \<ge> 0x800 then
        [ucast (0xe0 OR drop_bit 12 c), ucast (0x80 OR (drop_bit 6 c AND 0x3f)), ucast (0x80 OR (c AND 0x3f))]
      else if c \<ge> 0x80 then [ucast (0xc0 OR drop_bit 6 c), ucast (0x80 OR (c AND 0x3f))]
      else [ucast c])"

definition utf8_of :: "u16 list \<Rightarrow> bytes" where
  "utf8_of cs = concat (map utf8_char (takeWhile (\<lambda>c. c \<noteq> 0) cs))"

lemma ucs2_step:
  "c \<noteq> 0 \<Longrightarrow> ucs2_loop (Suc k) (c # src) j dst_len dst =
    (if int j + int (length (utf8_char c)) \<ge> dst_len then Inr (- UFAT_ERR_BAD_ENCODING, j, dst)
     else rbind (mem_store dst j (utf8_char c)) (ucs2_loop k src (j + length (utf8_char c)) dst_len))"
  by (simp add: utf8_char_def numeral_3_eq_3 numeral_2_eq_2)

lemma splice_append: "i + length xs \<le> length m \<Longrightarrow> mem_splice (i + length xs) ys (mem_splice i xs m) = mem_splice i (xs @ ys) m"
  by (simp add: mem_splice_def add.commute add.left_commute)

lemma utf8_of_Cons: "c \<noteq> 0 \<Longrightarrow> utf8_of (c # cs) = utf8_char c @ utf8_of cs"
  by (simp add: utf8_of_def)

lemma utf8_char_nonempty: "0 < length (utf8_char c)"
  by (simp add: utf8_char_def)

lemma ucs2_loop_fits:
  "k \<le> length src \<Longrightarrow> int (length dst) = dst_len \<Longrightarrow>
   utf8_of (take k src) = [] \<or> int j + int (length (utf8_of (take k src))) < dst_len \<Longrightarrow>
   ucs2_loop k src j dst_len dst = Inr (0, j + length (utf8_of (take k src)), mem_splice j (utf8_of (take k src)) dst)"
proof (induction k arbitrary: src j dst)
  case 0
  then show ?case by (simp add: utf8_of_def mem_splice_def)
next
  case (Suc k)
  then obtain c src' where s: "src = c # src'" "k \<le> length src'" by (cases src) auto
  show ?case
  proof (cases "c = 0")
    case True
    then show ?thesis using s by (simp add: utf8_of_def mem_splice_def)
  next
    case False
    let ?l = "length (utf8_char c)" and ?u = "utf8_of (take k src')"
    have u: "utf8_of (take (Suc k) src) = utf8_char c @ ?u" using s False by (simp add: utf8_of_Cons)
    have l: "int j + int ?l + int (length ?u) < dst_len" using Suc.prems(3) utf8_char_nonempty [of c] unfolding u by auto
    then have m: "mem_store dst j (utf8_char c) = Inr (mem_splice j (utf8_char c) dst)" "j + ?l \<le> length dst"
      using Suc.prems(2) by simp_all
    have "ucs2_loop k src' (j + ?l) dst_len (mem_splice j (utf8_char c) dst) =
        Inr (0, j + ?l + length ?u, mem_splice (j + ?l) ?u (mem_splice j (utf8_char c) dst))"
      using Suc.IH [OF s(2), of "mem_splice j (utf8_char c) dst" "j + ?l"] Suc.prems(2) l m(2) by simp
    moreover have "mem_splice (j + ?l) ?u (mem_splice j (utf8_char c) dst) = mem_splice j (utf8_char c @ ?u) dst"
      by (rule splice_append [OF m(2)])
    ultimately show ?thesis using m(1) l unfolding s(1) ucs2_step [OF False] by (simp add: utf8_of_Cons [OF False] add.assoc)
  qed
qed

lemma ucs2_loop_fails:
  "k \<le> length src \<Longrightarrow> int (length dst) = dst_len \<Longrightarrow>
   utf8_of (take k src) \<noteq> [] \<Longrightarrow> \<not> int j + int (length (utf8_of (take k src))) < dst_len \<Longrightarrow>
   \<exists>i d. ucs2_loop k src j dst_len dst = Inr (- UFAT_ERR_BAD_ENCODING, i, d) \<and> length d = length dst"
proof (induction k arbitrary: src j dst)
  case 0
  then show ?case by (simp add: utf8_of_def)
next
  case (Suc k)
  then obtain c src' where s: "src = c # src'" "k \<le> length src'" by (cases src) auto
  have c: "c \<noteq> 0" using Suc.prems(3) s by (auto simp: utf8_of_def)
  let ?l = "length (utf8_char c)" and ?u = "utf8_of (take k src')"
  have u: "utf8_of (take (Suc k) src) = utf8_char c @ ?u" using s c by (simp add: utf8_of_Cons)
  show ?case
  proof (cases "int j + int ?l < dst_len")
    case True
    then have m: "mem_store dst j (utf8_char c) = Inr (mem_splice j (utf8_char c) dst)" "j + ?l \<le> length dst"
      using Suc.prems(2) by simp_all
    have "?u \<noteq> []" "\<not> int (j + ?l) + int (length ?u) < dst_len" using Suc.prems(4) True unfolding u by auto
    then show ?thesis
      using Suc.IH [OF s(2), of "mem_splice j (utf8_char c) dst" "j + ?l"] Suc.prems(2) m True
      unfolding s(1) ucs2_step [OF c] by simp
  next
    case False
    then show ?thesis unfolding s(1) ucs2_step [OF c] by simp
  qed
qed

lemma utf8_char_no_nul: "c \<noteq> 0 \<Longrightarrow> 0 \<notin> set (utf8_char c)"
proof -
  assume c: "c \<noteq> 0"
  have b7: "x \<noteq> 0" if "bit x 7" for x :: u8 using that by auto
  have "ucast c \<noteq> (0::u8)" if "\<not> c \<ge> 0x80"
  proof -
    have "unat c < 2 ^ 8" using that by (simp add: word_le_nat_alt)
    then have "unat (ucast c :: u8) = unat c" by (simp add: unsigned_ucast_eq take_bit_nat_eq_self)
    then show ?thesis using c by (metis unsigned_eq_0_iff)
  qed
  moreover have "bit (ucast (0xe0 OR y :: u16) :: u8) 7" "bit (ucast (0x80 OR y :: u16) :: u8) 7"
    "bit (ucast (0xc0 OR y :: u16) :: u8) 7" for y
    by (simp_all add: bit_simps)
  note N = this [THEN b7, THEN not_sym]
  ultimately show ?thesis using N unfolding utf8_char_def by (simp only: list.set insert_iff empty_iff split: if_split) metis
qed

text \<open>ASCII characters are taken over.\<close>

lemma bit_of_and: "bit m n \<Longrightarrow> \<not> bit x n \<Longrightarrow> x AND m \<noteq> m" for x m :: "'a::len word"
  by (metis bit_and_iff)

lemma ascii_tests:
  fixes c :: u8
  assumes "c < 0x80"
  shows "(scast c :: u32) AND 0xf0 \<noteq> 0xf0" "(scast c :: u32) AND 0xe0 \<noteq> 0xe0" "(scast c :: u32) AND 0xc0 \<noteq> 0xc0"
    "(scast c :: u32) AND 0x80 = 0" "(ucast (scast c :: u32) :: u16) = ucast c"
proof -
  have "unat c < 2 ^ 7" using assms by (simp add: word_less_nat_alt)
  then have t: "take_bit 7 c = c" by (rule take_bit_small)
  then have b7: "\<not> bit c n" if "7 \<le> n" for n using that by (metis bit_take_bit_iff not_less)
  have s: "\<not> bit (scast c :: u32) n" if "7 \<le> n" for n using b7 [of "min n 7"] b7 [of n] that by (auto simp: bit_simps)
  show "(scast c :: u32) AND 0xf0 \<noteq> 0xf0" "(scast c :: u32) AND 0xe0 \<noteq> 0xe0" "(scast c :: u32) AND 0xc0 \<noteq> 0xc0"
    by (rule bit_of_and [OF _ s [OF order_refl]], simp)+
  have e: "(0x80 :: int) = push_bit 7 1" by simp
  have b: "bit (0x80 :: int) n \<longleftrightarrow> n = 7" for n unfolding e bit_push_bit_iff bit_1_iff by auto
  show "(scast c :: u32) AND 0x80 = 0"
    using s [OF order_refl] by (intro bit_word_eqI) (auto simp: bit_and_iff b)
  show "(ucast (scast c :: u32) :: u16) = ucast c"
    using b7 by (intro bit_word_eqI) (auto simp: bit_simps min_def)
qed

lemma utf8_loop_ascii:
  "\<forall>c \<in> set s. c < 0x80 \<Longrightarrow> len + length s \<le> 255 \<Longrightarrow> length dst = 255 \<Longrightarrow>
   utf8_loop s len dst =
     Inr (int (len + length s), mem_splice len (map ucast s @ replicate (255 - len - length s) 0) dst)"
proof (induction s arbitrary: len dst)
  case Nil
  then show ?case by (simp add: utf8_loop.simps utf8_done_def UFAT_LFN_MAX_CHARS_def)
next
  case (Cons c s)
  have "utf8_loop (c # s) len dst = utf8_loop s (len + 1) (dst[len := ucast c])"
    using Cons.prems ascii_tests [of c]
    by (subst utf8_loop.simps) (simp add: UFAT_LFN_MAX_CHARS_def Let_def aset_def)
  then show ?case using Cons by (simp add: mem_splice_take_drop)
qed

lemma utf8_ascii:
  assumes "\<forall>c \<in> set s. c < 0x80" "length s \<le> 255" "length dst = 255"
  shows "ufat_utf8_to_ucs2 s dst = Inr (int (length s), map ucast s @ replicate (255 - length s) 0)"
  using utf8_loop_ascii [of s 0 dst] assms by (simp add: ufat_utf8_to_ucs2_def mem_splice_def)

lemma utf8_of_ascii:
  assumes "\<forall>c \<in> set s. c < 0x80 \<and> c \<noteq> 0"
  shows "utf8_of (map ucast s @ 0 # rest) = s" "utf8_of (map ucast s) = s"
proof -
  have c: "(ucast c :: u16) \<noteq> 0 \<and> utf8_char (ucast c) = [c]" if "c < 0x80" "c \<noteq> 0" for c :: u8
  proof -
    have "unat c < 2 ^ 16" using that(1) by (simp add: word_less_nat_alt)
    then have u: "unat (ucast c :: u16) = unat c" by (simp add: unsigned_ucast_eq take_bit_nat_eq_self)
    then have "\<not> (ucast c :: u16) \<ge> 0x80" "\<not> (ucast c :: u16) \<ge> 0x800"
      using that(1) by (simp_all add: word_le_nat_alt word_less_nat_alt)
    moreover have "(ucast (ucast c :: u16) :: u8) = c" by (rule bit_word_eqI) (auto simp: bit_simps)
    moreover have "(ucast c :: u16) \<noteq> 0" using u that(2) by (metis unsigned_eq_0_iff)
    ultimately show ?thesis by (simp add: utf8_char_def)
  qed
  show "utf8_of (map ucast s @ 0 # rest) = s" "utf8_of (map ucast s) = s"
    using assms by (induction s) (use c in \<open>simp_all add: utf8_of_def\<close>)
qed

text \<open>Every other character in UTF-8 is rejected, because the bytes after the first one are tested wrongly.\<close>

lemma trail_byte: "(scast (ucast (0x80 OR (x AND 0x3f) :: u16) :: u8) :: u32) AND 0xc0 \<noteq> 0xc0"
  by (rule bit_of_and [of _ 6]) (simp_all add: bit_simps)

lemma lead_mask_numerals: "bit (0xe0::int) n \<longleftrightarrow> 5 \<le> n \<and> n < 8" "bit (0xc0::int) n \<longleftrightarrow> 6 \<le> n \<and> n < 8"
proof -
  have "0xe0 = push_bit 5 (mask 3 :: int)" "0xc0 = push_bit 6 (mask 2 :: int)" by (simp_all add: mask_eq_exp_minus_1)
  then show "bit (0xe0::int) n \<longleftrightarrow> 5 \<le> n \<and> n < 8" "bit (0xc0::int) n \<longleftrightarrow> 6 \<le> n \<and> n < 8"
    by (auto simp only: bit_push_bit_iff bit_mask_iff) auto
qed

lemma lead_bytes:
  fixes c :: u16
  shows "(scast (ucast (0xe0 OR drop_bit 12 c) :: u8) :: u32) AND 0xf0 \<noteq> 0xf0"
    "(scast (ucast (0xe0 OR drop_bit 12 c) :: u8) :: u32) AND 0xe0 = 0xe0"
    "c < 0x800 \<Longrightarrow> (scast (ucast (0xc0 OR drop_bit 6 c) :: u8) :: u32) AND 0xf0 \<noteq> 0xf0"
    "c < 0x800 \<Longrightarrow> (scast (ucast (0xc0 OR drop_bit 6 c) :: u8) :: u32) AND 0xe0 \<noteq> 0xe0"
    "(scast (ucast (0xc0 OR drop_bit 6 c) :: u8) :: u32) AND 0xc0 = 0xc0"
proof -
  show "(scast (ucast (0xe0 OR drop_bit 12 c) :: u8) :: u32) AND 0xf0 \<noteq> 0xf0"
    by (rule bit_of_and [of _ 4]) (auto simp: bit_simps dest: bit_imp_le_length)
  show "(scast (ucast (0xe0 OR drop_bit 12 c) :: u8) :: u32) AND 0xe0 = 0xe0"
    "(scast (ucast (0xc0 OR drop_bit 6 c) :: u8) :: u32) AND 0xc0 = 0xc0"
    by (auto intro!: bit_word_eqI simp: bit_simps lead_mask_numerals min_def)
  assume "c < 0x800"
  then have "unat c < 2 ^ 11" by (simp add: word_less_nat_alt)
  then have "take_bit 11 c = c" by (rule take_bit_small)
  then have b: "\<not> bit c 11" by (metis bit_take_bit_iff less_irrefl)
  show "(scast (ucast (0xc0 OR drop_bit 6 c) :: u8) :: u32) AND 0xf0 \<noteq> 0xf0"
    "(scast (ucast (0xc0 OR drop_bit 6 c) :: u8) :: u32) AND 0xe0 \<noteq> 0xe0"
    by (rule bit_of_and [of _ 5], use b in \<open>simp_all add: bit_simps\<close>)+
qed

lemma utf8_rejected:
  assumes "0x80 \<le> c" "len < 255"
  shows "utf8_loop (utf8_char c @ rest) len dst = Inr (- UFAT_ERR_BAD_ENCODING, dst)"
proof (cases "0x800 \<le> c")
  case True
  then show ?thesis using assms lead_bytes(1,2) [of c] trail_byte
    by (subst utf8_loop.simps) (simp add: utf8_char_def UFAT_LFN_MAX_CHARS_def Let_def str_at_def)
next
  case False
  then have "c < 0x800" by simp
  then show ?thesis using assms False lead_bytes(3-5) [of c] trail_byte
    by (subst utf8_loop.simps) (simp add: utf8_char_def UFAT_LFN_MAX_CHARS_def Let_def str_at_def)
qed

end
