(* ===== verification/Fat_Dir.thy ===== *)
theory Fat_Dir
  imports Fat_Dirent
begin

text \<open>
  The 32-byte entries of a directory through the cache (fs/ufat_ent.c). A directory is the struct with the
  volume that its member \<open>uf\<close> points to. A read gives the bytes of the entry or the return value: 1 at the
  end of the directory, an error below 0.
\<close>

record 'd ufat_directory =
  dir_uf :: "'d ufat"
  cur_pos :: u32
  cur_block :: u64
  dir_start :: u64

definition dirent_off :: "u32 \<Rightarrow> nat" where
  "dirent_off pos = unat (pos * of_nat UFAT_DIRENT_SIZE)"

definition ufat_dir_rewind :: "'d ufat_directory \<Rightarrow> 'd ufat_directory" where
  "ufat_dir_rewind dir = dir\<lparr>cur_block := dir_start dir, cur_pos := 0\<rparr>"

definition ufat_write_raw_dirent :: "'d ufat_directory \<Rightarrow> bytes \<Rightarrow> (int \<times> 'd ufat_directory) cres" where
  "ufat_write_raw_dirent dir data =
     (if cur_block dir = UFAT_BLOCK_NONE then Inr (- UFAT_ERR_IO, dir)
      else
        rbind (ufat_cache_open (dir_uf dir) (cur_block dir) False) (\<lambda>(idx, uf).
        if idx < 0 then Inr (idx, dir\<lparr>dir_uf := uf\<rparr>)
        else
          rbind (ufat_cache_write uf (nat idx)) (\<lambda>uf.
          rbind (slot_store uf (nat idx) (dirent_off (cur_pos dir)) data) (\<lambda>uf.
          Inr (0, dir\<lparr>dir_uf := uf\<rparr>)))))"

definition ufat_read_raw_dirent :: "'d ufat_directory \<Rightarrow> ((int + bytes) \<times> 'd ufat_directory) cres" where
  "ufat_read_raw_dirent dir =
     (if cur_block dir = UFAT_BLOCK_NONE then Inr (Inl 1, dir)
      else
        rbind (ufat_cache_open (dir_uf dir) (cur_block dir) False) (\<lambda>(idx, uf).
        if idx < 0 then Inr (Inl idx, dir\<lparr>dir_uf := uf\<rparr>)
        else
          rbind (slot_load uf (nat idx) (dirent_off (cur_pos dir)) UFAT_DIRENT_SIZE) (\<lambda>data.
          Inr (Inr data, dir\<lparr>dir_uf := uf\<rparr>))))"

text \<open>The blocks of a new cluster are cleared in the cache, from the last one down.\<close>

fun init_cluster_loop :: "nat \<Rightarrow> u64 \<Rightarrow> 'd ufat \<Rightarrow> (int \<times> 'd ufat) cres" where
  "init_cluster_loop 0 start uf = Inr (0, uf)"
| "init_cluster_loop (Suc i) start uf =
     rbind (ufat_cache_open uf (start + of_nat i) True) (\<lambda>(idx, uf).
     if idx < 0 then Inr (idx, uf)
     else
       rbind (ufat_cache_write uf (nat idx)) (\<lambda>uf.
       rbind (slot_store uf (nat idx) 0 (replicate (block_bytes uf) 0)) (init_cluster_loop i start)))"

definition ufat_init_dirent_cluster :: "'d ufat \<Rightarrow> u32 \<Rightarrow> (int \<times> 'd ufat) cres" where
  "ufat_init_dirent_cluster uf c =
     init_cluster_loop (2 ^ unat (log2_blocks_per_cluster (bpb uf))) (cluster_to_block (bpb uf) c) uf"

text \<open>The cluster that is added at the end of a directory; it is given back when that fails.\<close>

definition append_cluster :: "'d ufat_directory \<Rightarrow> u32 \<Rightarrow> (int \<times> 'd ufat_directory) cres" where
  "append_cluster dir cur_cluster =
     rbind (ufat_alloc_chain (dir_uf dir) 1) (\<lambda>(r, uf).
     case r of Inl err \<Rightarrow> Inr (err, dir\<lparr>dir_uf := uf\<rparr>)
     | Inr next_cluster \<Rightarrow>
         rbind (ufat_init_dirent_cluster uf next_cluster) (\<lambda>(err, uf).
         if err < 0 then rbind (ufat_free_chain uf next_cluster) (\<lambda>(_, uf). Inr (err, dir\<lparr>dir_uf := uf\<rparr>))
         else
           rbind (ufat_write_fat uf cur_cluster next_cluster) (\<lambda>(err, uf).
           if err < 0 then rbind (ufat_free_chain uf next_cluster) (\<lambda>(_, uf). Inr (err, dir\<lparr>dir_uf := uf\<rparr>))
           else Inr (0, dir\<lparr>dir_uf := uf, cur_block := cluster_to_block (bpb uf) next_cluster\<rparr>))))"

definition advance_block_in_chain :: "'d ufat_directory \<Rightarrow> bool \<Rightarrow> (int \<times> 'd ufat_directory) cres" where
  "advance_block_in_chain dir can_alloc =
     (let p = bpb (dir_uf dir);
          cur_cluster = block_to_cluster p (cur_block dir);
          next_block = cur_block dir + 1 in
      if cur_cluster = block_to_cluster p next_block then Inr (0, dir\<lparr>cur_block := next_block\<rparr>)
      else
        rbind (ufat_read_fat (dir_uf dir) cur_cluster) (\<lambda>(r, uf).
        case r of Inl err \<Rightarrow> Inr (err, dir\<lparr>dir_uf := uf\<rparr>)
        | Inr next_cluster \<Rightarrow>
            let dir = dir\<lparr>dir_uf := uf\<rparr> in
            if UFAT_CLUSTER_IS_PTR next_cluster then Inr (0, dir\<lparr>cur_block := cluster_to_block p next_cluster\<rparr>)
            else if \<not> can_alloc then Inr (0, dir\<lparr>cur_block := UFAT_BLOCK_NONE\<rparr>)
            else append_cluster dir cur_cluster))"

definition ufat_advance_raw_dirent :: "'d ufat_directory \<Rightarrow> bool \<Rightarrow> (int \<times> 'd ufat_directory) cres" where
  "ufat_advance_raw_dirent dir can_alloc =
     (let dir = dir\<lparr>cur_pos := cur_pos dir + 1\<rparr> in
      if cur_pos dir * of_nat UFAT_DIRENT_SIZE \<ge> push_bit (log2_block_size (dev (dir_uf dir))) 1 then
        let dir = dir\<lparr>cur_pos := 0\<rparr>; limit = cluster_start (bpb (dir_uf dir)) in
        if cur_block dir < limit then
          let b = cur_block dir + 1 in Inr (0, dir\<lparr>cur_block := (if b \<ge> limit then UFAT_BLOCK_NONE else b)\<rparr>)
        else advance_block_in_chain dir can_alloc
      else Inr (0, dir))"

text \<open>
  The search for a gap of \<open>count\<close> entries, with the place and the length of the last gap. A cyclic chain
  would be searched for ever; \<open>n\<close> bounds the number of entries.
\<close>

fun allocate_loop :: "nat \<Rightarrow> u32 \<Rightarrow> u64 \<Rightarrow> u32 \<Rightarrow> u32 \<Rightarrow> 'd ufat_directory \<Rightarrow> (int \<times> 'd ufat_directory) cres" where
  "allocate_loop 0 count empty_start empty_pos empty_count dir = Inl C_Fuel"
| "allocate_loop (Suc n) count empty_start empty_pos empty_count dir =
     rbind (ufat_read_raw_dirent dir) (\<lambda>(r, dir).
     case r of
       Inl err \<Rightarrow> if err < 0 then Inr (err, dir) else Inl C_Fault
     | Inr data \<Rightarrow>
         let gap = (data ! 0 = 0 \<or> data ! 0 = 0xe5);
             empty_start = (if gap \<and> empty_count = 0 then cur_block dir else empty_start);
             empty_pos = (if gap \<and> empty_count = 0 then cur_pos dir else empty_pos);
             empty_count = (if gap then empty_count + 1 else 0) in
         if empty_count \<ge> count then Inr (0, dir\<lparr>cur_block := empty_start, cur_pos := empty_pos\<rparr>)
         else
           rbind (ufat_advance_raw_dirent dir True) (\<lambda>(err, dir).
           if err < 0 then Inr (err, dir)
           else if cur_block dir = UFAT_BLOCK_NONE then Inr (- UFAT_ERR_DIRECTORY_FULL, dir)
           else allocate_loop n count empty_start empty_pos empty_count dir))"

definition ufat_allocate_raw_dirent :: "nat \<Rightarrow> 'd ufat_directory \<Rightarrow> u32 \<Rightarrow> (int \<times> 'd ufat_directory) cres" where
  "ufat_allocate_raw_dirent n dir count = allocate_loop n count UFAT_BLOCK_NONE 0 0 (ufat_dir_rewind dir)"

text \<open>The attributes and times of an entry are written back; a directory keeps its attributes.\<close>

definition merge_attributes :: "ufat_dirent \<Rightarrow> ufat_dirent \<Rightarrow> ufat_dirent" where
  "merge_attributes old ent =
     old\<lparr>attributes := (if attributes old AND UFAT_ATTR_DIRECTORY = 0
           then (attributes old AND NOT UFAT_ATTR_USER) OR (attributes ent AND UFAT_ATTR_USER) else attributes old),
         create_date := create_date ent, create_time := create_time ent, modify_date := modify_date ent,
         modify_time := modify_time ent, access_date := access_date ent\<rparr>"

text \<open>A local \<open>struct ufat_dirent\<close>: its members are assigned before they are read.\<close>

definition raw_dirent :: ufat_dirent where
  "raw_dirent = \<lparr>dirent_block = 0, dirent_pos = 0, lfn_block = 0, lfn_pos = 0, short_name = replicate 9 0,
     short_ext = replicate 4 0, attributes = 0, create_date = 0, create_time = 0, modify_date = 0, modify_time = 0,
     access_date = 0, first_cluster = 0, file_size = 0\<rparr>"

definition ufat_update_attributes :: "'d ufat \<Rightarrow> ufat_dirent \<Rightarrow> (int \<times> 'd ufat) cres" where
  "ufat_update_attributes uf ent =
     rbind (ufat_cache_open uf (dirent_block ent) False) (\<lambda>(idx, uf).
     if idx < 0 then Inr (idx, uf)
     else
       let off = dirent_off (dirent_pos ent) in
       rbind (slot_load uf (nat idx) off UFAT_DIRENT_SIZE) (\<lambda>data.
       rbind (ufat_parse_dirent (fat_type (bpb uf)) data raw_dirent) (\<lambda>old.
       rbind (ufat_cache_write uf (nat idx)) (\<lambda>uf.
       rbind (ufat_pack_dirent (merge_attributes old ent)) (\<lambda>data.
       rbind (slot_store uf (nat idx) off data) (\<lambda>uf. Inr (0, uf)))))))"

text \<open>
  Directories of uFAT (fs/ufat_dir.c, \<open>ufat_short_exists\<close> of fs/ufat_ent.c). The loops over the entries end
  when the directory does; on a cyclic chain they would not, so \<open>n\<close> bounds the number of entries.
\<close>

section \<open>Opening and reading\<close>

definition ufat_open_root :: "'d ufat \<Rightarrow> 'd ufat_directory" where
  "ufat_open_root uf =
     (let start = (if root_cluster (bpb uf) \<noteq> 0 then cluster_to_block (bpb uf) (root_cluster (bpb uf))
                   else root_start (bpb uf))
      in \<lparr>dir_uf = uf, cur_pos = 0, cur_block = start, dir_start = start\<rparr>)"

text \<open>On an error the directory keeps what it had.\<close>

definition ufat_open_subdir :: "'d ufat \<Rightarrow> ufat_dirent \<Rightarrow> int + 'd ufat_directory" where
  "ufat_open_subdir uf ent =
     (if attributes ent AND UFAT_ATTR_DIRECTORY = 0 then Inl (- UFAT_ERR_NOT_DIRECTORY)
      else if dirent_block ent = UFAT_BLOCK_NONE \<or> first_cluster ent = 0 then Inr (ufat_open_root uf)
      else
        let start = cluster_to_block (bpb uf) (first_cluster ent)
        in Inr \<lparr>dir_uf = uf, cur_pos = 0, cur_block = start, dir_start = start\<rparr>)"

definition format_name :: "ufat_lfn_parser \<Rightarrow> ufat_dirent \<Rightarrow> bytes \<Rightarrow> int \<Rightarrow> (int \<times> bytes) cres" where
  "format_name lfn ent buf max_len =
     (if ufat_lfn_ok lfn then ufat_ucs2_to_utf8 (lfn_buf lfn) (lfn_len lfn) buf max_len
      else rbind (char_str (short_name ent)) (\<lambda>nm. rbind (char_str (short_ext ent)) (\<lambda>ext.
        ufat_format_short nm ext buf max_len)))"

text \<open>A local parser after \<open>ufat_lfn_reset\<close>: its other members are assigned before they are read.\<close>

definition raw_lfn :: ufat_lfn_parser where
  "raw_lfn = \<lparr>lfn_start_block = 0, lfn_start_pos = 0, lfn_checksum = 0, lfn_len = 0, lfn_seq = - 1,
     lfn_buf = replicate UFAT_LFN_MAX_CHARS 0\<rparr>"

text \<open>What an entry that is not a fragment does to the parser and to the result.\<close>

definition take_dirent ::
    "ufat_fat_type_t \<Rightarrow> bytes \<Rightarrow> ufat_lfn_parser \<Rightarrow> ufat_dirent \<Rightarrow> (ufat_lfn_parser \<times> ufat_dirent) cres" where
  "take_dirent t data lfn ent =
     rbind (ufat_parse_dirent t data ent) (\<lambda>ent.
     rbind (char_str (short_name ent)) (\<lambda>nm. rbind (char_str (short_ext ent)) (\<lambda>ext.
     let lfn = (if ufat_short_checksum nm ext \<noteq> lfn_checksum lfn then ufat_lfn_reset lfn else lfn) in
     if attributes ent AND 0x08 \<noteq> 0 then Inr (ufat_lfn_reset lfn, ent)
     else if ufat_lfn_ok lfn then Inr (lfn, ent\<lparr>lfn_block := lfn_start_block lfn, lfn_pos := lfn_start_pos lfn\<rparr>)
     else Inr (lfn, ent\<lparr>lfn_block := UFAT_BLOCK_NONE, lfn_pos := 0\<rparr>))))"

text \<open>
  \<open>lfn_buf\<close> is \<open>None\<close> when it is NULL. The result has the return value, the entry, the buffer and the
  directory.
\<close>

type_synonym 'd dir_read = "(int \<times> ufat_dirent \<times> bytes option \<times> 'd ufat_directory) cres"

fun dir_read_loop ::
    "nat \<Rightarrow> ufat_lfn_parser \<Rightarrow> 'd ufat_directory \<Rightarrow> ufat_dirent \<Rightarrow> bytes option \<Rightarrow> int \<Rightarrow> 'd dir_read" where
  "dir_read_loop 0 lfn dir ent buf max_len = Inl C_Fuel"
| "dir_read_loop (Suc n) lfn dir ent buf max_len =
     (let ent = ent\<lparr>dirent_block := cur_block dir, dirent_pos := cur_pos dir\<rparr> in
      rbind (ufat_read_raw_dirent dir) (\<lambda>(r, dir).
      case r of Inl err \<Rightarrow> Inr (err, ent, buf, dir)
      | Inr data \<Rightarrow>
          rbind (ufat_advance_raw_dirent dir False) (\<lambda>(err, dir).
          if err \<noteq> 0 then Inr (err, ent, buf, dir)
          else if data ! 0x0b = 0x0f \<and> data ! 0 \<noteq> 0xe5 then
            rbind (ufat_lfn_parse lfn data (dirent_block ent) (dirent_pos ent)) (\<lambda>lfn.
            dir_read_loop n lfn dir ent buf max_len)
          else if data ! 0 \<noteq> 0 \<and> data ! 0 \<noteq> 0xe5 then
            rbind (take_dirent (fat_type (bpb (dir_uf dir))) data lfn ent) (\<lambda>(lfn, ent).
            if attributes ent AND 0x08 \<noteq> 0 then dir_read_loop n lfn dir ent buf max_len
            else
              case buf of None \<Rightarrow> Inr (0, ent, None, dir)
              | Some b \<Rightarrow> rbind (format_name lfn ent b max_len) (\<lambda>(rc, b). Inr (rc, ent, Some b, dir)))
          else dir_read_loop n (ufat_lfn_reset lfn) dir ent buf max_len)))"

definition ufat_dir_read :: "nat \<Rightarrow> 'd ufat_directory \<Rightarrow> ufat_dirent \<Rightarrow> bytes option \<Rightarrow> int \<Rightarrow> 'd dir_read" where
  "ufat_dir_read n dir ent buf max_len = dir_read_loop n raw_lfn dir ent buf max_len"

section \<open>Searching\<close>

text \<open>In the loops that call \<open>ufat_dir_read\<close>, \<open>k\<close> bounds the calls and \<open>n\<close> the entries of each.\<close>

fun short_exists_loop :: "nat \<Rightarrow> nat \<Rightarrow> 'd ufat_directory \<Rightarrow> ufat_dirent \<Rightarrow> bytes \<Rightarrow> bytes \<Rightarrow> (int \<times> 'd ufat_directory) cres" where
  "short_exists_loop 0 n dir ent sn ext = Inl C_Fuel"
| "short_exists_loop (Suc k) n dir ent sn ext =
     rbind (ufat_dir_read n dir ent None 0) (\<lambda>(err, ent, _, dir).
     if err < 0 then Inr (err, dir)
     else if err \<noteq> 0 then Inr (0, dir)
     else
       rbind (char_str (short_name ent)) (\<lambda>esn. rbind (char_str (short_ext ent)) (\<lambda>eext.
       if ufat_compare_name sn esn False \<ge> 0 \<and> ufat_compare_name ext eext False \<ge> 0 then Inr (1, dir)
       else short_exists_loop k n dir ent sn ext)))"

definition ufat_short_exists :: "nat \<Rightarrow> 'd ufat_directory \<Rightarrow> bytes \<Rightarrow> bytes \<Rightarrow> (int \<times> 'd ufat_directory) cres" where
  "ufat_short_exists n dir sn ext = short_exists_loop n n (ufat_dir_rewind dir) raw_dirent sn ext"

definition name_array :: bytes where
  "name_array = replicate UFAT_LFN_MAX_UTF8 0"

fun find_loop :: "nat \<Rightarrow> nat \<Rightarrow> bool \<Rightarrow> 'd ufat_directory \<Rightarrow> bytes \<Rightarrow> ufat_dirent \<Rightarrow> (int \<times> int \<times> ufat_dirent \<times> 'd ufat_directory) cres" where
  "find_loop 0 n component dir target ent = Inl C_Fuel"
| "find_loop (Suc k) n component dir target ent =
     rbind (ufat_dir_read n dir ent (Some name_array) (int UFAT_LFN_MAX_UTF8)) (\<lambda>(err, ent, buf, dir).
     if err \<noteq> 0 then Inr (err, 0, ent, dir)
     else
       rbind (char_str (case buf of Some b \<Rightarrow> b | None \<Rightarrow> [])) (\<lambda>name.
       let len = ufat_compare_name target name component in
       if len \<ge> 0 then Inr (0, len, ent, dir) else find_loop k n component dir target ent))"

definition ufat_dir_find :: "nat \<Rightarrow> 'd ufat_directory \<Rightarrow> bytes \<Rightarrow> ufat_dirent \<Rightarrow> (int \<times> ufat_dirent \<times> 'd ufat_directory) cres" where
  "ufat_dir_find n dir target ent =
     rbind (find_loop n n False (ufat_dir_rewind dir) target ent) (\<lambda>(err, _, ent, dir). Inr (err, ent, dir))"

text \<open>
  The result has the return value, the entry, the directory that was searched last and the path from the
  component on that was not found (\<open>*path_out\<close>); \<open>m\<close> bounds the characters of the path.
\<close>

definition is_slash :: "u8 \<Rightarrow> bool" where
  "is_slash c \<longleftrightarrow> c = 0x2f \<or> c = 0x5c"

fun find_path_loop ::
    "nat \<Rightarrow> nat \<Rightarrow> bool \<Rightarrow> 'd ufat_directory \<Rightarrow> bytes \<Rightarrow> ufat_dirent \<Rightarrow> (int \<times> bytes \<times> bool \<times> ufat_dirent \<times> 'd ufat_directory) cres" where
  "find_path_loop 0 n at_root dir path ent = Inl C_Fuel"
| "find_path_loop (Suc m) n at_root dir path ent =
     (case path of
        [] \<Rightarrow> Inr (0, [], at_root, ent, dir)
      | c # rest \<Rightarrow>
          if is_slash c then find_path_loop m n at_root dir rest ent
          else
            case (if at_root then Inr dir else ufat_open_subdir (dir_uf dir) ent) of
              Inl err \<Rightarrow> Inr (err, path, at_root, ent, dir)
            | Inr dir \<Rightarrow>
                rbind (find_loop n n True dir path ent) (\<lambda>(err, len, ent, dir).
                if err < 0 then Inr (err, path, at_root, ent, dir)
                else if err \<noteq> 0 then Inr (1, path, at_root, ent, dir)
                else
                  let path = drop (nat len) path; path = (if path \<noteq> [] then tl path else path)
                  in find_path_loop m n False dir path ent))"

definition root_dirent :: ufat_dirent where
  "root_dirent = raw_dirent\<lparr>dirent_block := UFAT_BLOCK_NONE, attributes := UFAT_ATTR_DIRECTORY\<rparr>"

definition ufat_dir_find_path ::
    "nat \<Rightarrow> 'd ufat_directory \<Rightarrow> bytes \<Rightarrow> ufat_dirent \<Rightarrow> (int \<times> bytes \<times> ufat_dirent \<times> 'd ufat_directory) cres" where
  "ufat_dir_find_path n dir path ent =
     rbind (find_path_loop (length path + 1) n True (ufat_dir_rewind dir) path ent) (\<lambda>(err, rest, at_root, ent, dir).
     if err \<noteq> 0 then Inr (err, rest, ent, dir)
     else if at_root then Inr (0, [], root_dirent, dir) else Inr (0, [], ent, dir))"

section \<open>Deleting\<close>

fun empty_dir_loop :: "nat \<Rightarrow> nat \<Rightarrow> 'd ufat_directory \<Rightarrow> ufat_dirent \<Rightarrow> (int \<times> 'd ufat) cres" where
  "empty_dir_loop 0 n dir e = Inl C_Fuel"
| "empty_dir_loop (Suc k) n dir e =
     rbind (ufat_dir_read n dir e None 0) (\<lambda>(err, e, _, dir).
     if err < 0 then Inr (err, dir_uf dir)
     else if err \<noteq> 0 then Inr (0, dir_uf dir)
     else if short_name e ! 0 \<noteq> 0x2e then Inr (- UFAT_ERR_DIRECTORY_NOT_EMPTY, dir_uf dir)
     else empty_dir_loop k n dir e)"

definition verify_empty_dir :: "nat \<Rightarrow> 'd ufat \<Rightarrow> ufat_dirent \<Rightarrow> (int \<times> 'd ufat) cres" where
  "verify_empty_dir n uf ent =
     (case ufat_open_subdir uf ent of
        Inl err \<Rightarrow> Inr (err, uf)
      | Inr dir \<Rightarrow> empty_dir_loop n n dir raw_dirent)"

text \<open>The struct of \<open>delete_entry\<close>, whose member \<open>start\<close> is not used.\<close>

definition entry_place :: "'d ufat \<Rightarrow> ufat_dirent \<Rightarrow> 'd ufat_directory" where
  "entry_place uf ent =
     (if lfn_block ent = UFAT_BLOCK_NONE
      then \<lparr>dir_uf = uf, cur_pos = dirent_pos ent, cur_block = dirent_block ent, dir_start = 0\<rparr>
      else \<lparr>dir_uf = uf, cur_pos = lfn_pos ent, cur_block = lfn_block ent, dir_start = 0\<rparr>)"

fun delete_loop :: "nat \<Rightarrow> 'd ufat_directory \<Rightarrow> ufat_dirent \<Rightarrow> (int \<times> 'd ufat) cres" where
  "delete_loop 0 dir ent = Inl C_Fuel"
| "delete_loop (Suc n) dir ent =
     rbind (ufat_write_raw_dirent dir [0xe5]) (\<lambda>(err, dir).
     if err < 0 then Inr (err, dir_uf dir)
     else if cur_block dir = dirent_block ent \<and> cur_pos dir = dirent_pos ent then Inr (0, dir_uf dir)
     else
       rbind (ufat_advance_raw_dirent dir False) (\<lambda>(err, dir).
       if err < 0 then Inr (err, dir_uf dir) else delete_loop n dir ent))"

definition delete_entry :: "nat \<Rightarrow> 'd ufat \<Rightarrow> ufat_dirent \<Rightarrow> (int \<times> 'd ufat) cres" where
  "delete_entry n uf ent = delete_loop n (entry_place uf ent) ent"

definition ufat_dir_delete :: "nat \<Rightarrow> 'd ufat \<Rightarrow> ufat_dirent \<Rightarrow> (int \<times> 'd ufat) cres" where
  "ufat_dir_delete n uf ent =
     (if dirent_block ent = UFAT_BLOCK_NONE \<or> short_name ent ! 0 = 0x2e then Inr (- UFAT_ERR_IMMUTABLE, uf)
      else
        rbind (if attributes ent AND UFAT_ATTR_DIRECTORY \<noteq> 0 then verify_empty_dir n uf ent else Inr (0, uf)) (\<lambda>(err, uf).
        if err < 0 then Inr (err, uf)
        else
          rbind (delete_entry n uf ent) (\<lambda>(err, uf).
          if err < 0 then Inr (err, uf) else ufat_free_chain uf (first_cluster ent))))"

section \<open>Creating\<close>

definition dot_entries :: "'d ufat_directory \<Rightarrow> u32 \<Rightarrow> ufat_dirent \<Rightarrow> ufat_dirent \<times> ufat_dirent" where
  "dot_entries parent c downptr =
     (let ent = downptr\<lparr>short_name := (short_name downptr)[0 := 0x2e, 1 := 0], short_ext := (short_ext downptr)[0 := 0],
            attributes := UFAT_ATTR_DIRECTORY, first_cluster := c, file_size := 0\<rparr>;
          p = bpb (dir_uf parent);
          up = (if dir_start parent \<ge> cluster_start p then block_to_cluster p (dir_start parent) else 0)
      in (ent, ent\<lparr>short_name := (short_name ent)[1 := 0x2e, 2 := 0], first_cluster := up\<rparr>))"

text \<open>The new cluster, or an error.\<close>

definition create_empty_dir :: "'d ufat_directory \<Rightarrow> ufat_dirent \<Rightarrow> ((int + u32) \<times> 'd ufat_directory) cres" where
  "create_empty_dir parent downptr =
     rbind (ufat_alloc_chain (dir_uf parent) 1) (\<lambda>(r, uf).
     case r of Inl err \<Rightarrow> Inr (Inl err, parent\<lparr>dir_uf := uf\<rparr>)
     | Inr c \<Rightarrow>
         rbind (ufat_init_dirent_cluster uf c) (\<lambda>(err, uf).
         if err < 0 then rbind (ufat_free_chain uf c) (\<lambda>(_, uf). Inr (Inl err, parent\<lparr>dir_uf := uf\<rparr>))
         else
           rbind (ufat_cache_open uf (cluster_to_block (bpb uf) c) False) (\<lambda>(idx, uf).
           if idx < 0 then rbind (ufat_free_chain uf c) (\<lambda>(_, uf). Inr (Inl idx, parent\<lparr>dir_uf := uf\<rparr>))
           else
             let (dot, dotdot) = dot_entries (parent\<lparr>dir_uf := uf\<rparr>) c downptr in
             rbind (ufat_cache_write uf (nat idx)) (\<lambda>uf.
             rbind (ufat_pack_dirent dot) (\<lambda>data.
             rbind (slot_store uf (nat idx) 0 data) (\<lambda>uf.
             rbind (ufat_pack_dirent dotdot) (\<lambda>data.
             rbind (slot_store uf (nat idx) UFAT_DIRENT_SIZE data) (\<lambda>uf.
             Inr (Inr c, parent\<lparr>dir_uf := uf\<rparr>)))))))))"

text \<open>The short names are tried one after the other until one is new; the result has the last one.\<close>

fun short_name_loop ::
    "nat \<Rightarrow> nat \<Rightarrow> 'd ufat_directory \<Rightarrow> bytes \<Rightarrow> bytes \<Rightarrow> (int \<times> bytes \<times> 'd ufat_directory) cres" where
  "short_name_loop 0 n dir sn ext = Inl C_Fuel"
| "short_name_loop (Suc k) n dir sn ext =
     rbind (char_str sn) (\<lambda>s. rbind (char_str ext) (\<lambda>e.
     rbind (ufat_short_exists n dir s e) (\<lambda>(err, dir).
     if err < 0 then Inr (err, sn, dir)
     else if err = 0 then Inr (0, sn, dir)
     else rbind (ufat_short_next sn) (\<lambda>sn. short_name_loop k n dir sn ext))))"

text \<open>The fragments are written from the last one, number \<open>k\<close>, down.\<close>

fun write_fragments :: "nat \<Rightarrow> bool \<Rightarrow> u16 list \<Rightarrow> u8 \<Rightarrow> 'd ufat_directory \<Rightarrow> (int \<times> 'd ufat_directory) cres" where
  "write_fragments 0 is_first ucs2_name checksum dir = Inr (0, dir)"
| "write_fragments (Suc k) is_first ucs2_name checksum dir =
     rbind (ufat_lfn_pack_fragment (drop (k * 13) ucs2_name) (int (Suc k)) is_first checksum) (\<lambda>data.
     rbind (ufat_write_raw_dirent dir data) (\<lambda>(err, dir).
     if err < 0 then Inr (err, dir)
     else
       rbind (ufat_advance_raw_dirent dir False) (\<lambda>(err, dir).
       if err < 0 then Inr (err, dir) else write_fragments k False ucs2_name checksum dir)))"

definition insert_dirent :: "nat \<Rightarrow> 'd ufat_directory \<Rightarrow> ufat_dirent \<Rightarrow> bytes \<Rightarrow> (int \<times> ufat_dirent \<times> 'd ufat_directory) cres" where
  "insert_dirent n dir ent long_name =
     rbind (ufat_utf8_to_ucs2 long_name (replicate UFAT_LFN_MAX_CHARS 0)) (\<lambda>(ucs2_len, ucs2_name).
     if ucs2_len < 0 then Inr (ucs2_len, ent, dir)
     else
       let num_lfn_frags = (nat ucs2_len + 12) div 13 in
       rbind (ufat_short_first long_name (short_name ent) (short_ext ent)) (\<lambda>(sn, ext).
       rbind (short_name_loop n n dir sn ext) (\<lambda>(err, sn, dir).
       let ent = ent\<lparr>short_name := sn, short_ext := ext\<rparr> in
       if err < 0 then Inr (err, ent, dir)
       else
         rbind (char_str sn) (\<lambda>s. rbind (char_str ext) (\<lambda>e.
         let checksum = ufat_short_checksum s e in
         rbind (ufat_allocate_raw_dirent n dir (of_nat num_lfn_frags + 1)) (\<lambda>(err, dir).
         if err < 0 then Inr (err, ent, dir)
         else
           let ent = ent\<lparr>lfn_block := cur_block dir, lfn_pos := cur_pos dir\<rparr> in
           rbind (write_fragments num_lfn_frags True ucs2_name checksum dir) (\<lambda>(err, dir).
           if err < 0 then Inr (err, ent, dir)
           else
             rbind (ufat_pack_dirent ent) (\<lambda>data.
             let ent = ent\<lparr>dirent_block := cur_block dir, dirent_pos := cur_pos dir\<rparr> in
             rbind (ufat_write_raw_dirent dir data) (\<lambda>(err, dir). Inr (err, ent, dir))))))))))"

text \<open>Only a name that is found is an error; a failed search is not.\<close>

definition ufat_dir_create :: "nat \<Rightarrow> 'd ufat_directory \<Rightarrow> ufat_dirent \<Rightarrow> bytes \<Rightarrow> (int \<times> ufat_dirent \<times> 'd ufat_directory) cres" where
  "ufat_dir_create n dir ent name =
     (if \<not> ufat_lfn_is_legal name then Inr (- UFAT_ERR_ILLEGAL_NAME, ent, dir)
      else
        rbind (ufat_dir_find n dir name raw_dirent) (\<lambda>(rc, check, dir).
        if rc = 0 then Inr (- UFAT_ERR_FILE_EXISTS, ent, dir)
        else
          rbind (create_empty_dir dir ent) (\<lambda>(r, dir).
          case r of Inl err \<Rightarrow> Inr (err, ent, dir)
          | Inr c \<Rightarrow>
              let ent = ent\<lparr>first_cluster := c, file_size := 0,
                    attributes := (attributes ent AND UFAT_ATTR_USER) OR UFAT_ATTR_DIRECTORY\<rparr> in
              rbind (insert_dirent n dir ent name) (\<lambda>(err, ent, dir).
              if err < 0 then
                rbind (ufat_free_chain (dir_uf dir) (first_cluster ent)) (\<lambda>(_, uf). Inr (err, ent, dir\<lparr>dir_uf := uf\<rparr>))
              else Inr (0, ent, dir)))))"

definition ufat_dir_mkfile :: "nat \<Rightarrow> 'd ufat_directory \<Rightarrow> ufat_dirent \<Rightarrow> bytes \<Rightarrow> (int \<times> ufat_dirent \<times> 'd ufat_directory) cres" where
  "ufat_dir_mkfile n dir ent name =
     (if \<not> ufat_lfn_is_legal name then Inr (- UFAT_ERR_ILLEGAL_NAME, ent, dir)
      else
        rbind (ufat_dir_find n dir name raw_dirent) (\<lambda>(rc, check, dir).
        if rc = 0 then Inr (- UFAT_ERR_FILE_EXISTS, ent, dir)
        else
          let ent = ent\<lparr>file_size := 0, first_cluster := 0, attributes := attributes ent AND UFAT_ATTR_USER\<rparr> in
          rbind (insert_dirent n dir ent name) (\<lambda>(err, ent, dir).
          if err < 0 then Inr (err, ent, dir) else Inr (0, ent, dir))))"

section \<open>The name of an entry and moving\<close>

fun filename_loop :: "nat \<Rightarrow> ufat_lfn_parser \<Rightarrow> 'd ufat_directory \<Rightarrow> ufat_dirent \<Rightarrow> ((int + ufat_lfn_parser) \<times> 'd ufat) cres" where
  "filename_loop 0 lfn dir ent = Inl C_Fuel"
| "filename_loop (Suc n) lfn dir ent =
     (if \<not> (cur_block dir = dirent_block ent \<and> cur_pos dir = dirent_pos ent) \<and> cur_block dir \<noteq> UFAT_BLOCK_NONE then
        rbind (ufat_read_raw_dirent dir) (\<lambda>(r, dir).
        case r of Inl err \<Rightarrow> Inr (Inl err, dir_uf dir)
        | Inr data \<Rightarrow>
            rbind (ufat_advance_raw_dirent dir False) (\<lambda>(err, dir).
            if err < 0 then Inr (Inl err, dir_uf dir)
            else
              rbind (ufat_lfn_parse lfn data (cur_block dir) (cur_pos dir)) (\<lambda>lfn. filename_loop n lfn dir ent)))
      else Inr (Inr lfn, dir_uf dir))"

definition ufat_get_filename :: "nat \<Rightarrow> 'd ufat \<Rightarrow> ufat_dirent \<Rightarrow> bytes \<Rightarrow> int \<Rightarrow> (int \<times> bytes \<times> 'd ufat) cres" where
  "ufat_get_filename n uf ent buf max_len =
     rbind (if lfn_block ent \<noteq> UFAT_BLOCK_NONE then
              filename_loop n raw_lfn
                \<lparr>dir_uf = uf, cur_pos = lfn_pos ent, cur_block = lfn_block ent, dir_start = 0\<rparr> ent
            else Inr (Inr raw_lfn, uf)) (\<lambda>(r, uf).
     case r of Inl err \<Rightarrow> Inr (err, buf, uf)
     | Inr lfn \<Rightarrow> rbind (format_name lfn ent buf max_len) (\<lambda>(rc, buf). Inr (rc, buf, uf)))"

definition ufat_move :: "nat \<Rightarrow> ufat_dirent \<Rightarrow> 'd ufat_directory \<Rightarrow> bytes \<Rightarrow> (int \<times> 'd ufat_directory) cres" where
  "ufat_move n ent dst new_name =
     (if \<not> ufat_lfn_is_legal new_name then Inr (- UFAT_ERR_ILLEGAL_NAME, dst)
      else
        rbind (ufat_dir_find n dst new_name raw_dirent) (\<lambda>(rc, new_ent, dst).
        if rc = 0 then Inr (- UFAT_ERR_FILE_EXISTS, dst)
        else if short_name ent ! 0 = 0x2e \<or> dirent_block ent = UFAT_BLOCK_NONE then Inr (- UFAT_ERR_IMMUTABLE, dst)
        else
          rbind (insert_dirent n dst ent new_name) (\<lambda>(err, new_ent, dst).
          if err < 0 then Inr (err, dst)
          else
            rbind (delete_entry n (dir_uf dst) ent) (\<lambda>(err, uf).
            if err < 0 then
              rbind (delete_entry n uf new_ent) (\<lambda>(_, uf). Inr (err, dst\<lparr>dir_uf := uf\<rparr>))
            else Inr (0, dst\<lparr>dir_uf := uf\<rparr>)))))"

end
