(* ===== verification/Fat_Entries.thy ===== *)
theory Fat_Entries
  imports Fat_Short Fat_Lfn Fat_Dir
begin

text \<open>What the entries and names of uFAT promise: round trips, numbering and comparison.\<close>

section \<open>Entries\<close>

text \<open>
  C29: an entry that is packed into 32 bytes is parsed again, into whatever struct: the names as strings, all
  other members unchanged. The names have no character up to the blank; outside FAT32 the first cluster has
  16 bits.
\<close>

theorem dirent_round_trip:
  assumes "short_ok 8 (short_name ent) nm" "short_ok 3 (short_ext ent) ext" "attributes ent < 0x100"
    and "t = UFAT_TYPE_FAT32 \<or> first_cluster ent < 0x10000" "length (short_name e) = 9" "length (short_ext e) = 4"
  shows "\<exists>data e'. ufat_pack_dirent ent = Inr data \<and> length data = 32 \<and> ufat_parse_dirent t data e = Inr e' \<and>
    char_str (short_name e') = Inr nm \<and> char_str (short_ext e') = Inr ext \<and>
    e' = ent\<lparr>dirent_block := dirent_block e, dirent_pos := dirent_pos e, lfn_block := lfn_block e, lfn_pos := lfn_pos e,
      short_name := short_name e', short_ext := short_ext e'\<rparr>"
proof -
  have l: "length nm \<le> 8" "length ext \<le> 3" "0 \<notin> set nm" "0 \<notin> set ext"
    using assms(1,2) char_str_no_nul by (auto simp: short_ok_def)
  define e' where "e' = e\<lparr>short_name := mem_splice 0 (nm @ [0]) (short_name e), short_ext := mem_splice 0 (ext @ [0]) (short_ext e),
      attributes := attributes ent, create_time := create_time ent, create_date := create_date ent,
      access_date := access_date ent, modify_time := modify_time ent, modify_date := modify_date ent,
      file_size := file_size ent, first_cluster := first_cluster ent\<rparr>"
  have "char_str (short_name e') = Inr nm" "char_str (short_ext e') = Inr ext"
    using l assms(5,6) by (simp_all add: e'_def char_str_splice)
  moreover have "e' = ent\<lparr>dirent_block := dirent_block e, dirent_pos := dirent_pos e, lfn_block := lfn_block e,
      lfn_pos := lfn_pos e, short_name := short_name e', short_ext := short_ext e'\<rparr>"
    by (simp add: e'_def)
  moreover have "ufat_parse_dirent t (padded 8 nm @ padded 3 ext @ tail_bytes ent) e = Inr e'"
    unfolding e'_def by (rule parse_packed [OF assms])
  ultimately show ?thesis using pack_dirent_ok [OF assms(1,2)] l(1,2)
    by (intro exI [of _ "padded 8 nm @ padded 3 ext @ tail_bytes ent"] exI [of _ e'] conjI) (assumption | simp)+
qed

definition sample_dirent :: ufat_dirent where
  "sample_dirent = raw_dirent\<lparr>short_name := [0x41, 0x42, 0, 0, 0, 0, 0, 0, 0], short_ext := [0x43, 0, 0, 0],
     attributes := 0x20, first_cluster := 7, file_size := 100\<rparr>"

lemma sample_short: "short_ok 8 (short_name sample_dirent) [0x41, 0x42]" "short_ok 3 (short_ext sample_dirent) [0x43]"
  by (simp_all add: sample_dirent_def short_ok_def char_str_def)

theorem dirent_round_trip_witness:
  "\<exists>data e'. ufat_pack_dirent sample_dirent = Inr data \<and> ufat_parse_dirent UFAT_TYPE_FAT16 data raw_dirent = Inr e' \<and>
    char_str (short_name e') = Inr [0x41, 0x42] \<and> first_cluster e' = 7"
proof -
  have a: "attributes sample_dirent < 0x100" "UFAT_TYPE_FAT16 = UFAT_TYPE_FAT32 \<or> first_cluster sample_dirent < 0x10000"
    "first_cluster sample_dirent = 7" "length (short_name raw_dirent) = 9" "length (short_ext raw_dirent) = 4"
    by (simp_all add: sample_dirent_def raw_dirent_def)
  obtain data e' where "ufat_pack_dirent sample_dirent = Inr data" "ufat_parse_dirent UFAT_TYPE_FAT16 data raw_dirent = Inr e'"
      "char_str (short_name e') = Inr [0x41, 0x42]"
      and e: "e' = sample_dirent\<lparr>dirent_block := dirent_block raw_dirent, dirent_pos := dirent_pos raw_dirent,
        lfn_block := lfn_block raw_dirent, lfn_pos := lfn_pos raw_dirent, short_name := short_name e', short_ext := short_ext e'\<rparr>"
    using dirent_round_trip [OF sample_short a(1,2,4,5)] by blast
  moreover have "first_cluster e' = 7" by (subst e) (simp add: a(3))
  ultimately show ?thesis by blast
qed

section \<open>Long names\<close>

text \<open>
  C8: a legal name of at most 247 characters goes through all steps unchanged: it is converted to UCS-2,
  packed into fragments, which the parser puts together from the entries of the directory, whatever it held
  before, and converted back. The parser knows the place of the first fragment and the checksum.
\<close>

theorem long_name_round_trip:
  assumes s: "ufat_lfn_is_legal s" "length s \<le> 247" and p: "length (lfn_buf p) = 255"
    and pl: "length pl = (length s + 12) div 13" and b: "length s < length buf"
  shows "\<exists>N ds p' b'. ufat_utf8_to_ucs2 s (replicate UFAT_LFN_MAX_CHARS 0) = Inr (int (length s), N) \<and>
    name_fragments ((length s + 12) div 13) True N cs = Inr ds \<and> lfn_feed p (zip ds pl) = Inr p' \<and>
    ufat_lfn_ok p' \<and> lfn_checksum p' = cs \<and> (lfn_start_block p', lfn_start_pos p') = hd pl \<and>
    ufat_ucs2_to_utf8 (lfn_buf p') (lfn_len p') buf (int (length buf)) = Inr (0, b') \<and> char_str b' = Inr s"
proof -
  define n where "n = (length s + 12) div 13"
  define N :: "u16 list" where "N = map ucast s @ replicate (255 - length s) 0"
  have a: "\<forall>c \<in> set s. c < 0x80 \<and> c \<noteq> 0" using legal_name_ascii [OF s(1)] legal_name_ascii [OF s(1), of 0] by auto
  have "s \<noteq> []" using s(1) by (auto simp: ufat_lfn_is_legal_def)
  then have "1 \<le> length s" by (cases s) simp_all
  then have "0 < n" "n \<le> 19" "length s \<le> n * 13" using s(2) unfolding n_def by linarith+
  moreover have N: "length N = 255" using s(2) by (simp add: N_def)
  ultimately have n: "0 < n" "n \<le> 19" "n * 13 \<le> length N" "length s \<le> n * 13" by linarith+
  have u: "ufat_utf8_to_ucs2 s (replicate UFAT_LFN_MAX_CHARS 0) = Inr (int (length s), N)"
    using utf8_ascii [of s "replicate UFAT_LFN_MAX_CHARS 0"] a s(2) by (simp add: UFAT_LFN_MAX_CHARS_def N_def)
  obtain ds where ds: "name_fragments n True N cs = Inr ds" using name_fragments_ok [OF n(3)] by blast
  obtain p' where p': "lfn_feed p (zip ds pl) = Inr p'" "lfn_state N n cs (hd pl) 0 p'"
    using lfn_feed_ok [OF n(3,1,2) p ds pl [folded n_def]] by blast
  note S = p'(2) [unfolded lfn_state_def]
  have t: "take (n * 13) (lfn_buf p') = take (n * 13) N" using S n(3) N by (intro nth_equalityI) auto
  have us: "utf8_of (take (nat (lfn_len p')) (lfn_buf p')) = s"
  proof -
    have "take (n * 13) N = map ucast s @ replicate (n * 13 - length s) 0" using n(2,4) by (simp add: N_def min_def)
    moreover have "utf8_of (map ucast s @ replicate k 0) = s" for k
      using utf8_of_ascii [OF a] by (cases k) simp_all
    moreover have "nat (lfn_len p') = n * 13" using S by (simp only: nat_int)
    ultimately show ?thesis using t by simp
  qed
  have l: "nat (lfn_len p') \<le> length (lfn_buf p')" using S n(2) by simp
  have "ucs2_loop (nat (lfn_len p')) (lfn_buf p') 0 (int (length buf)) buf = Inr (0, length s, mem_splice 0 s buf)"
    using ucs2_loop_fits [OF l, of buf "int (length buf)" 0] b unfolding us by simp
  then have "ufat_ucs2_to_utf8 (lfn_buf p') (lfn_len p') buf (int (length buf)) = Inr (0, mem_splice 0 (s @ [0]) buf)"
    using b splice_nul [of 0 s buf] by (simp add: ufat_ucs2_to_utf8_def aset_def)
  moreover have "char_str (mem_splice 0 (s @ [0]) buf) = Inr s" using a b by (intro char_str_splice) auto
  ultimately show ?thesis using u ds p' S unfolding n_def by (intro exI conjI) (auto simp: ufat_lfn_ok_def)
qed

definition sample_name :: bytes where
  "sample_name = [0x52, 0x65, 0x61, 0x64, 0x20, 0x6d, 0x65, 0x20, 0x66, 0x69, 0x72, 0x73, 0x74, 0x2e, 0x74, 0x78, 0x74]"

lemma sample_legal: "ufat_lfn_is_legal sample_name"
  by (simp add: ufat_lfn_is_legal_def sample_name_def)

theorem long_name_round_trip_witness:
  "\<exists>N ds p' b'. ufat_utf8_to_ucs2 sample_name (replicate UFAT_LFN_MAX_CHARS 0) = Inr (17, N) \<and>
    name_fragments 2 True N 5 = Inr ds \<and> lfn_feed raw_lfn (zip ds [(9, 3), (9, 4)]) = Inr p' \<and>
    ufat_ucs2_to_utf8 (lfn_buf p') (lfn_len p') name_array 768 = Inr (0, b') \<and> char_str b' = Inr sample_name"
proof -
  have l: "length sample_name = 17" by (simp add: sample_name_def)
  show ?thesis
    using long_name_round_trip [OF sample_legal, of raw_lfn "[(9, 3), (9, 4)]" name_array 5] l
    by (simp add: raw_lfn_def name_array_def UFAT_LFN_MAX_CHARS_def UFAT_LFN_MAX_UTF8_def) blast
qed

section \<open>Short names\<close>

text \<open>
  C30: the short name that is made of a long name, and those that \<open>ufat_short_next\<close> makes of it one after the
  other, are legal and, up to number 9999999, all different, so that the search for a new one goes on to new
  names.
\<close>

theorem short_names_distinct:
  assumes l: "length sn = 9" "length ext = 4" and z: "0 \<le> name_number (first_name s)"
    and ij: "i < j" "nat (name_number (first_name s)) + j < 10 ^ 7"
  shows "\<exists>a x b c u v. ufat_short_first s sn ext = Inr (a, x) \<and> short_ok 8 a (first_name s) \<and> short_ok 3 x (first_ext s) \<and>
    short_name_seq a i = Inr b \<and> short_ok 8 b u \<and> short_name_seq a j = Inr c \<and> short_ok 8 c v \<and> u \<noteq> v"
proof -
  obtain a x where a: "ufat_short_first s sn ext = Inr (a, x)" "length a = 9"
      "short_ok 8 a (first_name s)" "short_ok 3 x (first_ext s)"
    using short_first_ok [OF l] by blast
  obtain b u where b: "short_name_seq a i = Inr b" "short_ok 8 b u" "name_number u = name_number (first_name s) + int i"
    using short_name_seq_ok [OF a(2,3) z, of i] ij by auto
  obtain c v where c: "short_name_seq a j = Inr c" "short_ok 8 c v" "name_number v = name_number (first_name s) + int j"
    using short_name_seq_ok [OF a(2,3) z, of j] ij by auto
  have "u \<noteq> v" using b(3) c(3) ij(1) by auto
  then show ?thesis using a b c by blast
qed

lemma sample_first: "first_name sample_name = [0x52, 0x45, 0x41, 0x44, 0x4d, 0x45, 0x46, 0x49]"
  by code_simp

theorem short_names_distinct_witness:
  "\<exists>a x b c u v. ufat_short_first sample_name (replicate 9 0) (replicate 4 0) = Inr (a, x) \<and>
    short_name_seq a 0 = Inr b \<and> char_str b = Inr u \<and> short_name_seq a 12 = Inr c \<and> char_str c = Inr v \<and> u \<noteq> v"
proof -
  have "name_number (first_name sample_name) = 0"
    by (simp add: name_number_def sample_first number_index_none bytes_str_def atoi_def strtol10_def)
  then show ?thesis
    using short_names_distinct [of "replicate 9 0" "replicate 4 0" sample_name 0 12] by (auto simp: short_ok_def)
qed

section \<open>Comparing\<close>

text \<open>
  Two names match exactly if they are equal but for the case of their letters, where a search for a
  component stops at a slash or backslash; the result is the length of the match, or -1.
\<close>

theorem compare_name_iff:
  "ufat_compare_name s d co =
     (if map name_upcase (if co then component s else s) = map name_upcase d
      then int (length (if co then component s else s)) else - 1)"
  by (simp add: ufat_compare_name_def compare_loop_ok)

section \<open>Findings\<close>

text \<open>No character outside ASCII can be in a name: its UTF-8 bytes are rejected, first as illegal, then as badly encoded.\<close>

lemma non_ascii_rejected:
  "c \<in> set s \<Longrightarrow> 0x80 \<le> c \<Longrightarrow> \<not> ufat_lfn_is_legal s"
  "0x80 \<le> u \<Longrightarrow> ufat_utf8_to_ucs2 (utf8_char u) dst = Inr (- UFAT_ERR_BAD_ENCODING, dst)"
proof -
  show "c \<in> set s \<Longrightarrow> 0x80 \<le> c \<Longrightarrow> \<not> ufat_lfn_is_legal s" using legal_name_ascii [of s c] by auto
  show "0x80 \<le> u \<Longrightarrow> ufat_utf8_to_ucs2 (utf8_char u) dst = Inr (- UFAT_ERR_BAD_ENCODING, dst)"
    using utf8_rejected [of u 0 "[]" dst] by (simp add: ufat_utf8_to_ucs2_def)
qed

text \<open>A fragment with number 0 is stored before the buffer.\<close>

lemma fragment_zero_faults: "data ! 0 = 0x40 \<Longrightarrow> ufat_lfn_parse s data blk pos = Inl C_Fault"
  by (simp add: ufat_lfn_parse_def Let_def UFAT_LFN_MAX_CHARS_def frag_data_def upt_conv_Cons aset_def)

text \<open>The last fragment of a name of more than 247 characters is read past the end of the array.\<close>

lemma last_fragment_overruns: "length N = 255 \<Longrightarrow> ufat_lfn_pack_fragment (drop (19 * 13) N) 20 True cs = Inl C_Fault"
  by (simp add: ufat_lfn_pack_fragment_def mem_load_def)

end
