(* ===== verification/Fat_Many.thy ===== *)
theory Fat_Many
  imports Fat_Mount Fat_Sync
begin

text \<open>
  Transfers of several blocks past the cache: a device that does them block by block, the range of blocks that
  is read or written, and the blocks of a file's clusters as one array of bytes.
\<close>

section \<open>Slices of a list of chunks\<close>

lemma length_concat_equal: "\<forall>xs \<in> set xss. length xs = K \<Longrightarrow> length (concat xss) = length xss * K"
  by (induction xss) auto

lemma slice_concat_inside:
  assumes "\<forall>xs \<in> set xss. length xs = K" "0 < K" "p div K < length xss" "p mod K + n \<le> K"
  shows "mem_slice p n (concat xss) = mem_slice (p mod K) n (xss ! (p div K))"
  using assms
proof (induction xss arbitrary: p)
  case (Cons xs xss)
  have l: "length xs = K" using Cons.prems(1) by simp
  show ?case
  proof (cases "p < K")
    case True
    then show ?thesis using Cons.prems(4) l by (simp add: mem_slice_def)
  next
    case False
    have d: "p div K = Suc ((p - K) div K)" "p mod K = (p - K) mod K" using False Cons.prems(2) by (simp_all add: le_div_geq le_mod_geq)
    have "mem_slice p n (concat (xs # xss)) = mem_slice (p - K) n (concat xss)" using False l by (simp add: mem_slice_def)
    also have "\<dots> = mem_slice ((p - K) mod K) n (xss ! ((p - K) div K))"
      using Cons.prems d by (intro Cons.IH) auto
    finally show ?thesis using d by simp
  qed
qed simp

lemma drop_concat_chunks: "\<forall>xs \<in> set xss. length xs = K \<Longrightarrow> drop (b * K) (concat xss) = concat (drop b xss)"
proof (induction xss arbitrary: b)
  case (Cons xs xss)
  then show ?case by (cases b) simp_all
qed simp

lemma take_concat_chunks: "\<forall>xs \<in> set xss. length xs = K \<Longrightarrow> take (b * K) (concat xss) = concat (take b xss)"
proof (induction xss arbitrary: b)
  case (Cons xs xss)
  then show ?case by (cases b) simp_all
qed simp

lemma slice_concat_chunks:
  "\<forall>xs \<in> set xss. length xs = K \<Longrightarrow> mem_slice (b * K) (r * K) (concat xss) = concat (mem_slice b r xss)"
  unfolding mem_slice_def drop_concat_chunks
  by (subst take_concat_chunks) (auto dest: in_set_dropD)

lemma slice_map: "mem_slice b r (map f xs) = map f (mem_slice b r xs)"
  by (simp add: mem_slice_def take_map drop_map)

lemma slice_upt: "a + r \<le> n \<Longrightarrow> mem_slice a r [x..<x + n] = [x + a..<x + a + r]"
  by (simp add: mem_slice_def drop_upt take_upt)

lemma slice_splice_extend:
  assumes "p + k + m \<le> length C" "off + k + m \<le> length b"
  shows "mem_splice (off + k) (mem_slice (p + k) m C) (mem_splice off (mem_slice p k C) b) = mem_splice off (mem_slice p (k + m) C) b"
  using assms by (intro nth_equalityI) (auto simp: nth_mem_splice nth_mem_slice)

section \<open>Devices that move several blocks\<close>

locale multi_device = block_device device blocks nblocks good
  for device :: "'d ufat_device" and blocks :: "'d \<Rightarrow> nat \<Rightarrow> bytes" and nblocks :: nat and good :: "'d \<Rightarrow> bool" +
  assumes read_blocks_law: "good d \<Longrightarrow> unat b + unat c \<le> nblocks \<Longrightarrow> length buf = unat c * 2 ^ log2_block_size device \<Longrightarrow>
      \<exists>d'. dev_read device b c buf d = (0, concat (map (blocks d) [unat b..<unat b + unat c]), d') \<and> good d' \<and>
        (\<forall>k < nblocks. blocks d' k = blocks d k)"
    and write_blocks_law: "good d \<Longrightarrow> unat b + unat c \<le> nblocks \<Longrightarrow> length bs = unat c * 2 ^ log2_block_size device \<Longrightarrow>
      \<exists>d'. dev_write device b c bs d = (0, d') \<and> good d' \<and>
        (\<forall>k < nblocks. blocks d' k = (if unat b \<le> k \<and> k < unat b + unat c
          then mem_slice ((k - unat b) * 2 ^ log2_block_size device) (2 ^ log2_block_size device) bs else blocks d k))"

lemma chunks_of: "(b + c) * K \<le> length m \<Longrightarrow> concat (map (\<lambda>k. mem_slice (k * K) K m) [b..<b + c]) = mem_slice (b * K) (c * K) m"
proof (induction c)
  case (Suc c)
  then have "mem_slice (b * K) (Suc c * K) m = mem_slice (b * K) (c * K) m @ mem_slice ((b + c) * K) K m"
  proof -
    have "Suc c * K = c * K + K" "(b + c) * K = c * K + b * K" by (simp_all add: add_mult_distrib)
    then show ?thesis by (simp only: mem_slice_def take_add drop_drop)
  qed
  then show ?case using Suc by simp
qed (simp add: mem_slice_def)

interpretation file_many: multi_device "file_device lg" "file_block lg" n "\<lambda>f. length f = n * 2 ^ lg \<and> n * 2 ^ lg \<le> 2 ^ 63"
  for lg n
proof (unfold_locales, goal_cases)
  case (1 d b c buf)
  have K: "(unat b + unat c) * 2 ^ lg \<le> length d" using 1(1,2) mult_le_mono1 [of "unat b + unat c" n "2 ^ lg"] by simp
  have "take (unat c * 2 ^ lg) (drop (seek_pos lg b) d) = mem_slice (unat b * 2 ^ lg) (unat c * 2 ^ lg) d"
  proof (cases "unat c = 0")
    case False
    then have "unat b + 1 \<le> n" using 1(2) by simp
    then have "(unat b + 1) * 2 ^ lg \<le> n * 2 ^ lg" by (rule mult_le_mono1)
    then have "unat b * 2 ^ lg < 2 ^ 63" using 1(1) zero_less_power [of "2::nat" lg] by (simp only: add_mult_distrib) linarith
    then show ?thesis by (simp add: seek_pos_ok mem_slice_def)
  qed (simp add: mem_slice_def)
  moreover have "concat (map (file_block lg d) [unat b..<unat b + unat c]) = mem_slice (unat b * 2 ^ lg) (unat c * 2 ^ lg) d"
    using chunks_of [OF K] by (simp add: file_block_def [abs_def])
  moreover have "length (mem_slice (unat b * 2 ^ lg) (unat c * 2 ^ lg) d) = unat c * 2 ^ lg"
    using K by (simp add: add_mult_distrib)
  ultimately show ?case using 1 by (simp add: file_device_def read_sector_def Let_def)
next
  case (2 d b c bs)
  let ?K = "2 ^ lg :: nat" and ?w = "mem_splice (unat b * 2 ^ lg) bs d"
  have K: "(unat b + unat c) * ?K \<le> length d" using 2(1,2) mult_le_mono1 [of "unat b + unat c" n ?K] by simp
  have l: "length bs = unat c * ?K" using 2(3) by simp
  have in_file: "unat b * ?K + length bs \<le> length d" using K l by (simp add: add_mult_distrib)
  have w: "dev_write (file_device lg) b c bs d = (0, ?w)"
  proof (cases "unat c = 0")
    case True
    then have "bs = []" using l by simp
    moreover have "seek_pos lg b \<le> length d" using in_file 2(1,2) unat_shifted [of b lg] by (simp add: seek_pos_def Let_def)
    ultimately have "bs = []" "seek_pos lg b \<le> length d" by simp_all
    then show ?thesis using in_file by (simp add: file_device_def write_sector_def Let_def mem_splice_def)
  next
    case False
    then have "unat b + 1 \<le> n" using 2(2) by simp
    then have "(unat b + 1) * ?K \<le> n * ?K" by (rule mult_le_mono1)
    then have "unat b * ?K < 2 ^ 63" using 2(1) zero_less_power [of "2::nat" lg] by (simp only: add_mult_distrib) linarith
    then show ?thesis using in_file l by (simp add: file_device_def write_sector_def Let_def seek_pos_ok mem_splice_def)
  qed
  have "file_block lg ?w k = (if unat b \<le> k \<and> k < unat b + unat c then mem_slice ((k - unat b) * ?K) ?K bs else file_block lg d k)"
    if k: "k < n" for k
  proof (cases "unat b \<le> k \<and> k < unat b + unat c")
    case True
    then obtain j where j: "k = unat b + j" "j < unat c" using le_Suc_ex by force
    then have "Suc j * ?K \<le> unat c * ?K" by (intro mult_le_mono1) simp
    then have "mem_slice (k * ?K) ?K ?w = mem_slice (j * ?K) ?K bs"
      using in_file l j by (intro mem_slice_eqI) (auto simp: nth_mem_splice add_mult_distrib)
    then show ?thesis using j by (simp add: file_block_def)
  next
    case False
    then have "Suc k \<le> unat b \<or> unat b + unat c \<le> k" by linarith
    then have "Suc k * ?K \<le> unat b * ?K \<or> (unat b + unat c) * ?K \<le> k * ?K" using mult_le_mono1 by blast
    moreover have "k * ?K + ?K \<le> length d" using 2(1) block_in_file [OF k, of lg] by simp
    ultimately show ?thesis using False in_file l
      by (simp only: if_False file_block_def) (intro mem_slice_splice_disjoint, simp_all add: add_mult_distrib add.commute)
  qed
  then show ?case using w 2(1) in_file by auto
qed

context multi_device
begin

text \<open>Blocks read past the cache, when none of them is waiting in it.\<close>

lemma keeps_disk:
  assumes c: "cache_ok uf" and d: "good d" "\<forall>k < nblocks. blocks d k = blocks (disk uf) k"
  shows "keeps uf (uf\<lparr>disk := d, ufat_stat := st\<rparr>)"
proof -
  let ?u = "uf\<lparr>disk := d, ufat_stat := st\<rparr>"
  note D = cache_okD [OF c]
  have s: "slot_flags ?u = slot_flags uf" "slot_blk ?u = slot_blk uf" "slot_data ?u = slot_data uf"
    "slot_present ?u = slot_present uf" "slot_dirty ?u = slot_dirty uf" "block_bytes ?u = block_bytes uf"
    by (simp_all add: fun_eq_iff slot_flags_def slot_blk_def slot_data_def slot_present_def slot_dirty_def
        ufat_cache_data_def block_bytes_def)
  have "slot_present uf i \<Longrightarrow> i < cache_size uf \<Longrightarrow> blocks d (slot_blk uf i) = blocks (disk uf) (slot_blk uf i)" for i
    using d(2) cache_ok_slot(2) [OF c] by blast
  then have ok: "cache_ok ?u" using c d(1) unfolding cache_ok_def s by simp
  have "slot_of ?u = slot_of uf" by (simp add: fun_eq_iff slot_of_def s)
  then have "\<forall>b < nblocks. view ?u b = view uf b" using d(2) by (auto simp: view_def s split: option.splits)
  moreover have "fats_equal ?u" if f: "fats_equal uf"
    using f d(2) mirrors_bound [OF D(3)] D(3) unfolding fats_equal_def s
    by (auto simp: mirrors_def in_fat_def geometry_ok_def)
  ultimately show ?thesis using ok by (simp add: keeps_def)
qed

lemma read_past_cache:
  assumes c: "cache_ok uf" and b: "unat b + unat r \<le> nblocks"
    and l: "length old = unat r * 2 ^ log2_block_size device"
    and m: "\<forall>k. unat b \<le> k \<and> k < unat b + unat r \<longrightarrow> \<not> is_mirror (bpb uf) k"
  obtains uf' where "ufat_cache_evict uf b r = Inr (0, uf')" "keeps uf uf'"
    "\<And>st. \<exists>d. dev_read (dev uf') b r old (disk uf') = (0, concat (map (view uf) [unat b..<unat b + unat r]), d) \<and>
       keeps uf (uf'\<lparr>disk := d, ufat_stat := st\<rparr>)"
proof -
  obtain uf' where e: "ufat_cache_evict uf b r = Inr (0, uf')" "keeps uf uf'"
      "\<forall>j < cache_size uf. slot_present uf' j \<longrightarrow> \<not> in_range b r (cache_desc uf' ! j)"
    by (rule evict_ok [OF c])
  note K = keeps_facts [OF e(2)]
  have nb: "nblocks < 2 ^ 64" using cache_okD(3) [OF c] by (simp add: geometry_ok_def)
  have v: "view uf k = blocks (disk uf') k" if k: "unat b \<le> k" "k < unat b + unat r" for k
  proof -
    have "slot_blk uf' i \<noteq> k" if i: "i < cache_size uf'" "slot_present uf' i" for i
    proof
      assume "slot_blk uf' i = k"
      then have ck: "unat (cache_index (cache_desc uf' ! i)) = k" by (simp add: slot_blk_def)
      have "\<not> in_range b r (cache_desc uf' ! i)" using e(3) i K(3) by simp
      moreover have "b \<le> cache_index (cache_desc uf' ! i)" using ck k(1) by (simp add: word_le_nat_alt)
      moreover have "unat b + unat r < 2 ^ 64" using b nb by linarith
      then have "unat (b + r) = unat b + unat r" by (rule unat_add_index)
      then have "cache_index (cache_desc uf' ! i) < b + r" using ck k(2) by (simp add: word_less_nat_alt)
      ultimately show False by (simp add: in_range_def)
    qed
    then have "view uf' k = blocks (disk uf') k" by (intro view_absent) blast
    moreover have "view uf' k = view uf k" using K(5) k b m by simp
    ultimately show ?thesis by simp
  qed
  have dr: "\<exists>d. dev_read (dev uf') b r old (disk uf') = (0, concat (map (view uf) [unat b..<unat b + unat r]), d) \<and>
       keeps uf (uf'\<lparr>disk := d, ufat_stat := st\<rparr>)" for st
  proof -
    obtain d where d: "dev_read device b r old (disk uf') = (0, concat (map (blocks (disk uf')) [unat b..<unat b + unat r]), d)"
        "good d" "\<forall>k < nblocks. blocks d k = blocks (disk uf') k"
      using read_blocks_law [OF cache_okD(2) [OF K(1)] b l] by blast
    have vs: "map (blocks (disk uf')) [unat b..<unat b + unat r] = map (view uf) [unat b..<unat b + unat r]"
      using v by simp
    have "dev_read (dev uf') b r old (disk uf') = (0, concat (map (view uf) [unat b..<unat b + unat r]), d)"
      using d(1) unfolding vs cache_okD(1) [OF K(1)] .
    then show ?thesis using keeps_trans [OF e(2) keeps_disk [OF K(1) d(2,3)]] by (intro exI [of _ d] conjI)
  qed
  show thesis by (rule that [OF e(1,2) dr])
qed

end

end
