(* ===== verification/Fat_File.thy ===== *)
theory Fat_File
  imports Fat_Dirent
begin

text \<open>
  Files of uFAT (fs/ufat_file.c). A file is the struct with the volume that its member \<open>uf\<close> points to. A
  user's buffer is the list of its bytes, with the offset from which on it is filled or read.
\<close>

record 'd ufat_file =
  f_uf :: "'d ufat"
  f_dirent_block :: u64
  f_dirent_pos :: u32
  f_start :: u32
  f_file_size :: u32
  f_prev_cluster :: u32
  f_cur_cluster :: u32
  f_cur_pos :: u32

section \<open>The position\<close>

definition ufat_open_file :: "'d ufat \<Rightarrow> ufat_dirent \<Rightarrow> int + 'd ufat_file" where
  "ufat_open_file uf ent =
     (if attributes ent AND UFAT_ATTR_DIRECTORY \<noteq> 0 then Inl (- UFAT_ERR_NOT_FILE)
      else Inr \<lparr>f_uf = uf, f_dirent_block = dirent_block ent, f_dirent_pos = dirent_pos ent,
        f_start = first_cluster ent, f_file_size = file_size ent, f_prev_cluster = 0,
        f_cur_cluster = first_cluster ent, f_cur_pos = 0\<rparr>)"

definition ufat_file_rewind :: "'d ufat_file \<Rightarrow> 'd ufat_file" where
  "ufat_file_rewind f = f\<lparr>f_prev_cluster := 0, f_cur_cluster := f_start f, f_cur_pos := 0\<rparr>"

text \<open>The loop of \<open>advance_ptr\<close> with \<open>k\<close> clusters to go; the result is the last two, or an error.\<close>

fun advance_loop :: "nat \<Rightarrow> u32 \<Rightarrow> u32 \<Rightarrow> 'd ufat \<Rightarrow> ((int + u32 \<times> u32) \<times> 'd ufat) cres" where
  "advance_loop 0 prev c uf = Inr (Inr (prev, c), uf)"
| "advance_loop (Suc k) prev c uf =
     rbind (ufat_read_fat uf c) (\<lambda>(r, uf).
     case r of Inl err \<Rightarrow> Inr (Inl err, uf) | Inr next_c \<Rightarrow> advance_loop k c next_c uf)"

definition log2_cluster_size :: "'d ufat \<Rightarrow> nat" where
  "log2_cluster_size uf = log2_block_size (dev uf) + unat (log2_blocks_per_cluster (bpb uf))"

definition advance_ptr :: "'d ufat_file \<Rightarrow> u32 \<Rightarrow> (int \<times> 'd ufat_file) cres" where
  "advance_ptr f nbytes =
     (let lg = log2_cluster_size (f_uf f);
          end_pos = f_cur_pos f + nbytes;
          nclusters = drop_bit lg end_pos - drop_bit lg (f_cur_pos f) in
      rbind (advance_loop (unat nclusters) (f_prev_cluster f) (f_cur_cluster f) (f_uf f)) (\<lambda>(r, uf).
      case r of Inl err \<Rightarrow> Inr (err, f\<lparr>f_uf := uf\<rparr>)
      | Inr (prev, c) \<Rightarrow>
          Inr (0, f\<lparr>f_uf := uf, f_prev_cluster := prev, f_cur_cluster := c, f_cur_pos := f_cur_pos f + nbytes\<rparr>)))"

definition ufat_file_advance :: "'d ufat_file \<Rightarrow> u32 \<Rightarrow> (int \<times> 'd ufat_file) cres" where
  "ufat_file_advance f nbytes =
     advance_ptr f (if nbytes > f_file_size f - f_cur_pos f then f_file_size f - f_cur_pos f else nbytes)"

text \<open>The block of the position in its cluster, and the size of the part of a block that is moved.\<close>

definition block_in_cluster :: "'d ufat_file \<Rightarrow> u32" where
  "block_in_cluster f =
     drop_bit (log2_block_size (dev (f_uf f))) (f_cur_pos f) AND
       (push_bit (unat (log2_blocks_per_cluster (bpb (f_uf f)))) 1 - 1)"

definition current_block :: "'d ufat_file \<Rightarrow> u64" where
  "current_block f = cluster_to_block (bpb (f_uf f)) (f_cur_cluster f) + ucast (block_in_cluster f)"

definition offset_in_block :: "'d ufat_file \<Rightarrow> u32" where
  "offset_in_block f = f_cur_pos f AND (push_bit (log2_block_size (dev (f_uf f))) 1 - 1)"

definition fragment_size :: "'d ufat_file \<Rightarrow> u32 \<Rightarrow> u32" where
  "fragment_size f sz =
     (let block_size = push_bit (log2_block_size (dev (f_uf f))) 1;
          remainder = block_size - offset_in_block f
      in (if sz > remainder then remainder else sz) AND (block_size - 1))"

text \<open>The number of whole blocks that are moved at once.\<close>

definition requested_blocks :: "'d ufat_file \<Rightarrow> u32 \<Rightarrow> u32" where
  "requested_blocks f sz =
     (let block_remainder = push_bit (unat (log2_blocks_per_cluster (bpb (f_uf f)))) 1 - block_in_cluster f;
          requested = drop_bit (log2_block_size (dev (f_uf f))) sz
      in if requested > block_remainder then block_remainder else requested)"

section \<open>Reading\<close>

text \<open>The results have the return value, the buffer and the file.\<close>

definition read_block_fragment :: "'d ufat_file \<Rightarrow> bytes \<Rightarrow> nat \<Rightarrow> u32 \<Rightarrow> (int \<times> bytes \<times> 'd ufat_file) cres" where
  "read_block_fragment f buf off sz =
     (let sz = fragment_size f sz in
      if sz = 0 then Inr (0, buf, f)
      else if \<not> UFAT_CLUSTER_IS_PTR (f_cur_cluster f) then Inr (- UFAT_ERR_INVALID_CLUSTER, buf, f)
      else
        rbind (ufat_cache_open (f_uf f) (current_block f) False) (\<lambda>(i, uf).
        if i < 0 then Inr (i, buf, f\<lparr>f_uf := uf\<rparr>)
        else
          rbind (slot_load uf (nat i) (unat (offset_in_block f)) (unat sz)) (\<lambda>data.
          rbind (mem_store buf off data) (\<lambda>buf.
          rbind (advance_ptr (f\<lparr>f_uf := uf\<rparr>) sz) (\<lambda>(i, f).
          if i < 0 then Inr (i, buf, f) else Inr (int (unat sz), buf, f))))))"

definition read_blocks :: "'d ufat_file \<Rightarrow> bytes \<Rightarrow> nat \<Rightarrow> u32 \<Rightarrow> (int \<times> bytes \<times> 'd ufat_file) cres" where
  "read_blocks f buf off sz =
     (let lg = log2_block_size (dev (f_uf f)); requested = requested_blocks f sz in
      if requested = 0 then Inr (0, buf, f)
      else if \<not> UFAT_CLUSTER_IS_PTR (f_cur_cluster f) then Inr (- UFAT_ERR_INVALID_CLUSTER, buf, f)
      else
        rbind (ufat_cache_evict (f_uf f) (current_block f) (ucast requested)) (\<lambda>(i, uf).
        if i < 0 then Inr (i, buf, f\<lparr>f_uf := uf\<rparr>)
        else
          rbind (mem_load buf off (unat requested * 2 ^ lg)) (\<lambda>old.
          let (i, data, dk) = dev_read (dev uf) (current_block f) (ucast requested) old (disk uf); uf = uf\<lparr>disk := dk\<rparr> in
          rbind (mem_store buf off data) (\<lambda>buf.
          if i < 0 then Inr (- UFAT_ERR_IO, buf, f\<lparr>f_uf := uf\<rparr>)
          else
            let uf = uf\<lparr>ufat_stat := (ufat_stat uf)\<lparr>stat_read := stat_read (ufat_stat uf) + 1,
                  stat_read_blocks := stat_read_blocks (ufat_stat uf) + requested\<rparr>\<rparr> in
            rbind (advance_ptr (f\<lparr>f_uf := uf\<rparr>) (push_bit lg requested)) (\<lambda>(i, f).
            if i < 0 then Inr (i, buf, f) else Inr (sint (push_bit lg requested), buf, f))))))"

text \<open>Each step of the loop moves at least one block, so that \<open>sz\<close> steps are enough.\<close>

fun read_blocks_loop :: "nat \<Rightarrow> 'd ufat_file \<Rightarrow> bytes \<Rightarrow> nat \<Rightarrow> u32 \<Rightarrow> (int \<times> nat \<times> u32 \<times> bytes \<times> 'd ufat_file) cres" where
  "read_blocks_loop 0 f buf off sz = Inl C_Fuel"
| "read_blocks_loop (Suc n) f buf off sz =
     rbind (read_blocks f buf off sz) (\<lambda>(len, buf, f).
     if len < 0 then Inr (len, off, sz, buf, f)
     else if len = 0 then Inr (0, off, sz, buf, f)
     else read_blocks_loop n f buf (off + nat len) (sz - word_of_int len))"

definition ufat_file_read :: "'d ufat_file \<Rightarrow> bytes \<Rightarrow> u32 \<Rightarrow> (int \<times> bytes \<times> 'd ufat_file) cres" where
  "ufat_file_read f buf sz =
     (let sz = (if sz > f_file_size f - f_cur_pos f then f_file_size f - f_cur_pos f else sz);
          total_size = sz in
      rbind (read_block_fragment f buf 0 sz) (\<lambda>(len, buf, f).
      if len < 0 then Inr (len, buf, f)
      else
        rbind (read_blocks_loop (unat sz + 1) f buf (nat len) (sz - word_of_int len)) (\<lambda>(len, off, sz, buf, f).
        if len < 0 then Inr (len, buf, f)
        else
          rbind (read_block_fragment f buf off sz) (\<lambda>(len, buf, f).
          if len < 0 then Inr (len, buf, f) else Inr (sint total_size, buf, f)))))"

section \<open>The entry of the file and room for data\<close>

text \<open>The offset of a field in the entry's block.\<close>

definition file_entry_off :: "'d ufat_file \<Rightarrow> nat" where
  "file_entry_off f = unat (f_dirent_pos f * of_nat UFAT_DIRENT_SIZE)"

definition set_size :: "'d ufat_file \<Rightarrow> u32 \<Rightarrow> (int \<times> 'd ufat_file) cres" where
  "set_size f s =
     rbind (ufat_cache_open (f_uf f) (f_dirent_block f) False) (\<lambda>(idx, uf).
     if idx < 0 then Inr (idx, f\<lparr>f_uf := uf\<rparr>)
     else
       rbind (ufat_cache_write uf (nat idx)) (\<lambda>uf.
       rbind (slot_store uf (nat idx) (file_entry_off f + 0x1c) (w32 s)) (\<lambda>uf.
       Inr (0, f\<lparr>f_uf := uf, f_file_size := s\<rparr>))))"

definition set_start :: "'d ufat_file \<Rightarrow> u32 \<Rightarrow> (int \<times> 'd ufat_file) cres" where
  "set_start f s =
     rbind (ufat_cache_open (f_uf f) (f_dirent_block f) False) (\<lambda>(idx, uf).
     if idx < 0 then Inr (idx, f\<lparr>f_uf := uf\<rparr>)
     else
       rbind (ufat_cache_write uf (nat idx)) (\<lambda>uf.
       rbind (slot_store uf (nat idx) (file_entry_off f + 0x14) (w16 (ucast (drop_bit 16 s)))) (\<lambda>uf.
       rbind (slot_store uf (nat idx) (file_entry_off f + 0x1a) (w16 (ucast (s AND 0xffff)))) (\<lambda>uf.
       Inr (0, f\<lparr>f_uf := uf, f_start := s\<rparr>)))))"

definition ensure_room :: "'d ufat_file \<Rightarrow> (int \<times> 'd ufat_file) cres" where
  "ensure_room f =
     (if UFAT_CLUSTER_IS_PTR (f_cur_cluster f) then Inr (0, f)
      else
        rbind (ufat_alloc_chain (f_uf f) 1) (\<lambda>(r, uf).
        let f = f\<lparr>f_uf := uf\<rparr> in
        case r of Inl err \<Rightarrow> Inr (err, f)
        | Inr c \<Rightarrow>
            rbind (if UFAT_CLUSTER_IS_PTR (f_prev_cluster f)
                   then rbind (ufat_write_fat uf (f_prev_cluster f) c) (\<lambda>(err, uf). Inr (err, f\<lparr>f_uf := uf\<rparr>))
                   else set_start f c) (\<lambda>(err, f).
            if err < 0 then rbind (ufat_free_chain (f_uf f) c) (\<lambda>(_, uf). Inr (err, f\<lparr>f_uf := uf\<rparr>))
            else Inr (0, f\<lparr>f_cur_cluster := c\<rparr>))))"

section \<open>Writing\<close>

definition write_block_fragment :: "'d ufat_file \<Rightarrow> bytes \<Rightarrow> nat \<Rightarrow> u32 \<Rightarrow> (int \<times> 'd ufat_file) cres" where
  "write_block_fragment f buf off sz =
     (let sz = fragment_size f sz in
      if sz = 0 then Inr (0, f)
      else
        rbind (ensure_room f) (\<lambda>(i, f).
        if i < 0 then Inr (i, f)
        else
          rbind (ufat_cache_open (f_uf f) (current_block f) False) (\<lambda>(i, uf).
          if i < 0 then Inr (i, f\<lparr>f_uf := uf\<rparr>)
          else
            rbind (ufat_cache_write uf (nat i)) (\<lambda>uf.
            rbind (mem_load buf off (unat sz)) (\<lambda>data.
            rbind (slot_store uf (nat i) (unat (offset_in_block f)) data) (\<lambda>uf.
            rbind (advance_ptr (f\<lparr>f_uf := uf\<rparr>) sz) (\<lambda>(i, f).
            if i < 0 then Inr (i, f) else Inr (int (unat sz), f))))))))"

definition write_blocks :: "'d ufat_file \<Rightarrow> bytes \<Rightarrow> nat \<Rightarrow> u32 \<Rightarrow> (int \<times> 'd ufat_file) cres" where
  "write_blocks f buf off sz =
     (let lg = log2_block_size (dev (f_uf f)); requested = requested_blocks f sz in
      if requested = 0 then Inr (0, f)
      else
        rbind (ensure_room f) (\<lambda>(i, f).
        if i < 0 then Inr (i, f)
        else
          rbind (ufat_cache_invalidate (f_uf f) (current_block f) (ucast requested)) (\<lambda>uf.
          rbind (mem_load buf off (unat requested * 2 ^ lg)) (\<lambda>data.
          let (i, dk) = dev_write (dev uf) (current_block f) (ucast requested) data (disk uf); uf = uf\<lparr>disk := dk\<rparr> in
          if i < 0 then Inr (- UFAT_ERR_IO, f\<lparr>f_uf := uf\<rparr>)
          else
            let uf = uf\<lparr>ufat_stat := (ufat_stat uf)\<lparr>stat_write := stat_write (ufat_stat uf) + 1,
                  stat_write_blocks := stat_write_blocks (ufat_stat uf) + requested\<rparr>\<rparr> in
            rbind (advance_ptr (f\<lparr>f_uf := uf\<rparr>) (push_bit lg requested)) (\<lambda>(i, f).
            if i < 0 then Inr (i, f) else Inr (sint (push_bit lg requested), f))))))"

fun write_blocks_loop :: "nat \<Rightarrow> 'd ufat_file \<Rightarrow> bytes \<Rightarrow> nat \<Rightarrow> u32 \<Rightarrow> (int \<times> nat \<times> u32 \<times> 'd ufat_file) cres" where
  "write_blocks_loop 0 f buf off len = Inl C_Fuel"
| "write_blocks_loop (Suc n) f buf off len =
     rbind (write_blocks f buf off len) (\<lambda>(i, f).
     if i < 0 then Inr (i, off, len, f)
     else if i = 0 then Inr (0, off, len, f)
     else write_blocks_loop n f buf (off + nat i) (len - word_of_int i))"

definition ufat_file_write :: "'d ufat_file \<Rightarrow> bytes \<Rightarrow> u32 \<Rightarrow> (int \<times> 'd ufat_file) cres" where
  "ufat_file_write f buf len =
     (let max_write = NOT (f_cur_pos f); len = (if len > max_write then max_write else len); total_len = len in
      rbind (write_block_fragment f buf 0 len) (\<lambda>(i, f).
      if i < 0 then Inr (i, f)
      else
        rbind (write_blocks_loop (unat len + 1) f buf (nat i) (len - word_of_int i)) (\<lambda>(i, off, len, f).
        if i < 0 then Inr (i, f)
        else
          rbind (write_block_fragment f buf off len) (\<lambda>(i, f).
          if i < 0 then Inr (i, f)
          else if f_cur_pos f > f_file_size f then
            rbind (set_size f (f_cur_pos f)) (\<lambda>(i, f). if i < 0 then Inr (i, f) else Inr (sint total_len, f))
          else Inr (sint total_len, f)))))"

section \<open>Truncating\<close>

definition truncate_empty :: "'d ufat_file \<Rightarrow> (int \<times> 'd ufat_file) cres" where
  "truncate_empty f =
     (let old_start = f_start f in
      rbind (set_start f 0) (\<lambda>(err, f).
      if err < 0 then Inr (err, f)
      else
        rbind (if UFAT_CLUSTER_IS_PTR old_start then ufat_free_chain (f_uf f) old_start else Inr (0, f_uf f)) (\<lambda>(err, uf).
        if err < 0 then Inr (err, f\<lparr>f_uf := uf\<rparr>) else Inr (0, f\<lparr>f_uf := uf, f_cur_cluster := 0\<rparr>))))"

definition truncate_inside :: "'d ufat_file \<Rightarrow> (int \<times> 'd ufat_file) cres" where
  "truncate_inside f =
     rbind (ufat_read_fat (f_uf f) (f_cur_cluster f)) (\<lambda>(r, uf).
     case r of Inl err \<Rightarrow> Inr (err, f\<lparr>f_uf := uf\<rparr>)
     | Inr tail \<Rightarrow>
         rbind (ufat_write_fat uf (f_cur_cluster f) UFAT_CLUSTER_EOC) (\<lambda>(err, uf).
         if err < 0 then Inr (err, f\<lparr>f_uf := uf\<rparr>)
         else if UFAT_CLUSTER_IS_PTR tail then
           rbind (ufat_free_chain uf tail) (\<lambda>(err, uf). Inr (err, f\<lparr>f_uf := uf\<rparr>))
         else Inr (0, f\<lparr>f_uf := uf\<rparr>)))"

definition truncate_boundary :: "'d ufat_file \<Rightarrow> (int \<times> 'd ufat_file) cres" where
  "truncate_boundary f =
     (if UFAT_CLUSTER_IS_PTR (f_cur_cluster f) then
        rbind (ufat_write_fat (f_uf f) (f_prev_cluster f) UFAT_CLUSTER_EOC) (\<lambda>(err, uf).
        if err < 0 then Inr (err, f\<lparr>f_uf := uf\<rparr>)
        else rbind (ufat_free_chain uf (f_cur_cluster f)) (\<lambda>(_, uf). Inr (0, f\<lparr>f_uf := uf, f_cur_cluster := 0\<rparr>)))
      else Inr (0, f))"

definition ufat_file_truncate :: "'d ufat_file \<Rightarrow> (int \<times> 'd ufat_file) cres" where
  "ufat_file_truncate f =
     (let cluster_size = push_bit (log2_cluster_size (f_uf f)) 1 in
      rbind (set_size f (f_cur_pos f)) (\<lambda>(err, f).
      if err < 0 then Inr (err, f)
      else if f_file_size f = 0 then truncate_empty f
      else if f_file_size f AND (cluster_size - 1) \<noteq> 0 then truncate_inside f
      else truncate_boundary f))"

end
