(* ===== verification/Fat_Position.thy ===== *)
theory Fat_Position
  imports Fat_Many Fat_File
begin

text \<open>
  An open file: the blocks of its clusters as one array of bytes, and the position in it, which
  \<open>advance_ptr\<close> moves along the chain.
\<close>

section \<open>Chains as lists\<close>

definition entry_at :: "nat list \<Rightarrow> u32 \<Rightarrow> nat \<Rightarrow> u32" where
  "entry_at cs e q = (if q < length cs then of_nat (cs ! q) else e)"

lemma linked_start: "linked F c cs e \<Longrightarrow> entry_at cs e 0 = c"
  by (cases cs) (auto simp: entry_at_def)

lemma linked_nth: "linked F c cs e \<Longrightarrow> q < length cs \<Longrightarrow> F (cs ! q) = entry_at cs e (Suc q)"
proof (induction cs arbitrary: c q)
  case (Cons j js)
  then have l: "linked F (F j) js e" by simp
  show ?case
  proof (cases q)
    case 0
    then show ?thesis using linked_start [OF l] by (auto simp: entry_at_def split: if_splits)
  next
    case (Suc r)
    then show ?thesis using Cons.IH [OF l, of r] Cons.prems(2) by (simp add: entry_at_def)
  qed
qed simp

lemma linked_small: "linked F c cs e \<Longrightarrow> q < length cs \<Longrightarrow> cs ! q < 2 ^ 32"
proof (induction cs arbitrary: c q)
  case (Cons j js)
  then show ?case using unsigned_less [of c] by (cases q) auto
qed simp

lemma unat_entry_at: "linked F c cs e \<Longrightarrow> q < length cs \<Longrightarrow> unat (entry_at cs e q) = cs ! q"
  using linked_small [of F c cs e q] by (simp add: entry_at_def unat_of_nat)

section \<open>The blocks of a file\<close>

definition file_blocks :: "ufat_bpb \<Rightarrow> nat list \<Rightarrow> nat list" where
  "file_blocks p cs = concat (map (\<lambda>c. [clus_block p c..<clus_block p c + 2 ^ unat (log2_blocks_per_cluster p)]) cs)"

lemma length_file_blocks: "length (file_blocks p cs) = length cs * 2 ^ unat (log2_blocks_per_cluster p)"
  unfolding file_blocks_def by (induction cs) simp_all

lemma file_blocks_slice:
  assumes "b div 2 ^ unat (log2_blocks_per_cluster p) < length cs"
    and "b mod 2 ^ unat (log2_blocks_per_cluster p) + r \<le> 2 ^ unat (log2_blocks_per_cluster p)"
  shows "mem_slice b r (file_blocks p cs) =
    [clus_block p (cs ! (b div 2 ^ unat (log2_blocks_per_cluster p))) + b mod 2 ^ unat (log2_blocks_per_cluster p)..<
     clus_block p (cs ! (b div 2 ^ unat (log2_blocks_per_cluster p))) + b mod 2 ^ unat (log2_blocks_per_cluster p) + r]"
proof -
  let ?s = "2 ^ unat (log2_blocks_per_cluster p) :: nat" and ?xss = "map (\<lambda>c. [clus_block p c..<clus_block p c + 2 ^ unat (log2_blocks_per_cluster p)]) cs"
  have "\<forall>xs \<in> set ?xss. length xs = ?s" by auto
  then have "mem_slice b r (concat ?xss) = mem_slice (b mod ?s) r (?xss ! (b div ?s))"
    using assms by (intro slice_concat_inside) simp_all
  then show ?thesis using assms slice_upt [of "b mod ?s" r ?s] by (simp add: file_blocks_def)
qed

lemma less_iff_div: "0 < k \<Longrightarrow> (m::nat) < k \<longleftrightarrow> m div k = 0"
  by (auto simp: div_eq_0_iff)

lemma slice_one: "b < length xs \<Longrightarrow> mem_slice b 1 xs = [xs ! b]"
  by (simp add: mem_slice_def take_Suc hd_drop_conv_nth)

lemma file_blocks_nth:
  assumes "b div 2 ^ unat (log2_blocks_per_cluster p) < length cs"
  shows "file_blocks p cs ! b =
    clus_block p (cs ! (b div 2 ^ unat (log2_blocks_per_cluster p))) + b mod 2 ^ unat (log2_blocks_per_cluster p)"
proof -
  let ?s = "2 ^ unat (log2_blocks_per_cluster p) :: nat"
  have "b < length cs * ?s" using assms by (simp add: div_less_iff_less_mult)
  then have "mem_slice b 1 (file_blocks p cs) = [file_blocks p cs ! b]"
    by (intro slice_one) (simp add: length_file_blocks)
  moreover have "b mod ?s + 1 \<le> ?s" by (simp add: Suc_leI)
  ultimately show ?thesis using file_blocks_slice [OF assms, of 1] by simp
qed

lemma file_blocks_bound:
  assumes "placed n p" and "\<forall>c \<in> set cs. 2 \<le> c \<and> c < unat (num_clusters p)" and b: "b \<in> set (file_blocks p cs)"
  shows "b < n" "\<not> in_fat p b" "\<not> is_mirror p b"
proof -
  obtain c where c: "c \<in> set cs" "clus_block p c \<le> b" "b < clus_block p c + 2 ^ unat (log2_blocks_per_cluster p)"
    using b by (auto simp: file_blocks_def)
  then obtain k where "b = clus_block p c + k" "k < 2 ^ unat (log2_blocks_per_cluster p)"
    using le_Suc_ex by force
  moreover have "2 \<le> c" "c < unat (num_clusters p)" using assms(2) c(1) by blast+
  ultimately show "b < n" "\<not> in_fat p b" "\<not> is_mirror p b"
    using placed_bounds(1,4) [OF assms(1), of c] by (force, blast, blast)
qed

section \<open>The position\<close>

lemma unat_and_mask: "unat (x AND (push_bit s 1 - 1) :: u32) = unat x mod 2 ^ s"
  using offset_rest_mod [of s x] by (simp add: offset_rest_def)

lemma unat_push_one: "s < 32 \<Longrightarrow> unat (push_bit s 1 :: u32) = 2 ^ s"
proof -
  assume "s < 32"
  then have "(2::nat) ^ s < 2 ^ 32" by (intro power_strict_increasing) simp_all
  then show ?thesis using unat_shift_32 [of 1 s] by simp
qed

lemma unat_sub_32: "unat y \<le> unat x \<Longrightarrow> unat (x - y :: u32) = unat x - unat y"
  by (simp add: unat_sub word_le_nat_alt)

lemma unat_add_32: "unat x + unat y < 2 ^ 32 \<Longrightarrow> unat (x + y :: u32) = unat x + unat y"
  by (simp add: unat_word_ariths)

lemma unat_min_32: "unat (if x > y then y else x :: u32) = min (unat x) (unat y)"
  by (auto simp: word_less_nat_alt min_def)

lemma unat_fragment_size:
  assumes "log2_block_size (dev (f_uf f)) = lg" "lg < 32"
  shows "unat (fragment_size f sz) = min (unat sz) (2 ^ lg - unat (f_cur_pos f) mod 2 ^ lg) mod 2 ^ lg"
proof -
  have r: "unat (offset_in_block f) = unat (f_cur_pos f) mod 2 ^ lg"
    unfolding offset_in_block_def assms(1) unat_and_mask ..
  have "unat (offset_in_block f) \<le> unat (push_bit lg 1 :: u32)"
    unfolding r unat_push_one [OF assms(2)] by (rule less_imp_le) simp
  from unat_sub_32 [OF this] have "unat (push_bit lg 1 - offset_in_block f) = 2 ^ lg - unat (f_cur_pos f) mod 2 ^ lg"
    unfolding r unat_push_one [OF assms(2)] .
  then show ?thesis
    unfolding fragment_size_def Let_def assms(1) unat_and_mask unat_min_32 by simp
qed

lemma unat_block_in_cluster:
  assumes "log2_block_size (dev (f_uf f)) = lg"
  shows "unat (block_in_cluster f) = unat (f_cur_pos f) div 2 ^ lg mod 2 ^ unat (log2_blocks_per_cluster (bpb (f_uf f)))"
  unfolding block_in_cluster_def unat_and_mask assms unat_drop_32 ..

lemma unat_requested:
  assumes "log2_block_size (dev (f_uf f)) = lg" "unat (log2_blocks_per_cluster (bpb (f_uf f))) = l" "l < 32"
  shows "unat (requested_blocks f sz) = min (unat sz div 2 ^ lg) (2 ^ l - unat (f_cur_pos f) div 2 ^ lg mod 2 ^ l)"
proof -
  note r = unat_block_in_cluster [OF assms(1), unfolded assms(2)]
  have "unat (block_in_cluster f) \<le> unat (push_bit l 1 :: u32)"
    unfolding r unat_push_one [OF assms(3)] by (rule less_imp_le) simp
  from unat_sub_32 [OF this]
  have "unat (push_bit l 1 - block_in_cluster f) = 2 ^ l - unat (f_cur_pos f) div 2 ^ lg mod 2 ^ l"
    unfolding r unat_push_one [OF assms(3)] .
  then show ?thesis unfolding requested_blocks_def Let_def assms(1,2) unat_min_32 unat_drop_32 by simp
qed

context multi_device
begin

abbreviation blocks_per_cluster :: "'d ufat \<Rightarrow> nat" where
  "blocks_per_cluster uf \<equiv> 2 ^ unat (log2_blocks_per_cluster (bpb uf))"

abbreviation csize :: "'d ufat \<Rightarrow> nat" where
  "csize uf \<equiv> bsize * blocks_per_cluster uf"

definition file_bytes :: "'d ufat \<Rightarrow> nat list \<Rightarrow> bytes" where
  "file_bytes uf cs = concat (map (view uf) (file_blocks (bpb uf) cs))"

text \<open>A volume with a chain in it, and a position on the chain.\<close>

definition chain_ok :: "'d ufat \<Rightarrow> u32 \<Rightarrow> nat list \<Rightarrow> u32 \<Rightarrow> bool" where
  "chain_ok uf c cs e \<longleftrightarrow> cache_ok uf \<and> table_ok (bpb uf) \<and> placed nblocks (bpb uf) \<and>
     log2_block_size device + unat (log2_blocks_per_cluster (bpb uf)) < 32 \<and>
     linked (fat_entry uf) c cs e \<and> (\<forall>c \<in> set cs. 2 \<le> c \<and> c < nclus uf) \<and> \<not> UFAT_CLUSTER_IS_PTR e"

definition pos_ok :: "nat list \<Rightarrow> u32 \<Rightarrow> 'd ufat_file \<Rightarrow> bool" where
  "pos_ok cs e f \<longleftrightarrow> chain_ok (f_uf f) (f_start f) cs e \<and> unat (f_cur_pos f) \<le> length cs * csize (f_uf f) \<and>
     f_cur_cluster f = entry_at cs e (unat (f_cur_pos f) div csize (f_uf f)) \<and>
     f_prev_cluster f = (if unat (f_cur_pos f) < csize (f_uf f) then 0
       else entry_at cs e (unat (f_cur_pos f) div csize (f_uf f) - 1))"

lemma chain_okD:
  assumes "chain_ok uf c cs e"
  shows "cache_ok uf" "table_ok (bpb uf)" "placed nblocks (bpb uf)"
    "log2_block_size device + unat (log2_blocks_per_cluster (bpb uf)) < 32"
    "linked (fat_entry uf) c cs e" "j \<in> set cs \<Longrightarrow> 2 \<le> j \<and> j < nclus uf" "\<not> UFAT_CLUSTER_IS_PTR e"
  using assms unfolding chain_ok_def by blast+

lemma chain_ok_keeps:
  assumes c: "chain_ok uf c cs e" and k: "keeps uf uf'"
  shows "chain_ok uf' c cs e"
proof -
  note C = chain_okD [OF c] and K = keeps_facts [OF k]
  have "fat_entry uf' j = fat_entry uf j" if "j \<in> set cs" for j
    using keeps_entry [OF C(2,1) k] C(6) [OF that] by blast
  then have "linked (fat_entry uf') c cs e" using C(5) linked_cong [of cs "fat_entry uf'" "fat_entry uf"] by blast
  then show ?thesis using C K(1,2) unfolding chain_ok_def by simp
qed

lemma chain_blocks:
  assumes "chain_ok uf c cs e" "b \<in> set (file_blocks (bpb uf) cs)"
  shows "b < nblocks" "\<not> in_fat (bpb uf) b" "\<not> is_mirror (bpb uf) b"
  using file_blocks_bound [OF chain_okD(3) [OF assms(1)] _ assms(2)] chain_okD(6) [OF assms(1)] by blast+

lemma file_bytes_keeps: "chain_ok uf c cs e \<Longrightarrow> keeps uf uf' \<Longrightarrow> file_bytes uf' cs = file_bytes uf cs"
proof -
  assume c: "chain_ok uf c cs e" and k: "keeps uf uf'"
  have "map (view uf') (file_blocks (bpb uf) cs) = map (view uf) (file_blocks (bpb uf) cs)"
    using keeps_facts(5) [OF k] chain_blocks [OF c] by (intro map_cong) blast+
  then show ?thesis unfolding file_bytes_def keeps_facts(2) [OF k] by (rule arg_cong)
qed

lemma chain_views: "chain_ok uf c cs e \<Longrightarrow> \<forall>xs \<in> set (map (view uf) (file_blocks (bpb uf) cs)). length xs = bsize"
  using chain_blocks(1) length_view chain_okD(1) by fastforce

lemma length_file_bytes: "chain_ok uf c cs e \<Longrightarrow> length (file_bytes uf cs) = length cs * csize uf"
  unfolding file_bytes_def using length_concat_equal [OF chain_views] by (simp add: length_file_blocks mult_ac)

lemma csize_less: "chain_ok uf c cs e \<Longrightarrow> csize uf < 2 ^ 32"
  using chain_okD(4) by (metis one_less_numeral_iff power_add power_strict_increasing semiring_norm(76))

lemma advance_loop_ok:
  "chain_ok uf c cs e \<Longrightarrow> q + k \<le> length cs \<Longrightarrow>
    \<exists>uf'. advance_loop k prev (entry_at cs e q) uf =
        Inr (Inr (if k = 0 then prev else entry_at cs e (q + k - 1), entry_at cs e (q + k)), uf') \<and> keeps uf uf'"
proof (induction k arbitrary: q prev uf)
  case 0
  then show ?case using keeps_refl chain_okD(1) by auto
next
  case (Suc k)
  note C = chain_okD [OF Suc.prems(1)]
  have q: "q < length cs" using Suc.prems(2) by simp
  have u: "unat (entry_at cs e q) = cs ! q" by (rule unat_entry_at [OF C(5) q])
  have n: "unat (entry_at cs e q) < nclus uf" using C(6) [OF nth_mem [OF q]] u by simp
  obtain uf1 where r: "ufat_read_fat uf (entry_at cs e q) = Inr (Inr (entry_at cs e (Suc q)), uf1)" "keeps uf uf1"
    by (rule read_fat_ok [OF C(1,2) n]) (simp add: u linked_nth [OF C(5) q])
  obtain uf' where a: "advance_loop k (entry_at cs e q) (entry_at cs e (Suc q)) uf1 =
        Inr (Inr (if k = 0 then entry_at cs e q else entry_at cs e (Suc q + k - 1), entry_at cs e (Suc q + k)), uf')" "keeps uf1 uf'"
    using Suc.IH [OF chain_ok_keeps [OF Suc.prems(1) r(2)], of "Suc q" "entry_at cs e q"] Suc.prems(2) by auto
  then show ?case using r keeps_trans [OF r(2) a(2)] by (intro exI [of _ uf']) auto
qed

lemma advance_ptr_ok:
  assumes p: "pos_ok cs e f" and n: "unat (f_cur_pos f) + unat nb \<le> length cs * csize (f_uf f)"
    and w: "unat (f_cur_pos f) + unat nb < 2 ^ 32"
  obtains f' uf' c d where "advance_ptr f nb = Inr (0, f')" "pos_ok cs e f'" "keeps (f_uf f) uf'"
    "f' = f\<lparr>f_uf := uf', f_prev_cluster := c, f_cur_cluster := d, f_cur_pos := f_cur_pos f + nb\<rparr>"
    "unat (f_cur_pos f + nb) = unat (f_cur_pos f) + unat nb"
proof -
  let ?uf = "f_uf f" and ?q = "unat (f_cur_pos f) div csize (f_uf f)" and ?r = "(unat (f_cur_pos f) + unat nb) div csize (f_uf f)"
  have c: "chain_ok ?uf (f_start f) cs e" using p by (simp add: pos_ok_def)
  note C = chain_okD [OF c]
  have K: "0 < csize ?uf" by simp
  have lt: "m < csize ?uf \<longleftrightarrow> m div csize ?uf = 0" for m using K by (rule less_iff_div)
  have e: "unat (f_cur_pos f + nb) = unat (f_cur_pos f) + unat nb" by (rule unat_add_32 [OF w])
  have qr: "?q \<le> ?r" by (rule div_le_mono) simp
  have "?r \<le> length cs * csize ?uf div csize ?uf" by (rule div_le_mono [OF n])
  then have r: "?r \<le> length cs" using K by simp
  have lg: "(2::nat) ^ log2_cluster_size ?uf = csize ?uf"
    by (simp add: log2_cluster_size_def power_add lg_dev [OF C(1)])
  have "unat (drop_bit (log2_cluster_size ?uf) (f_cur_pos f + nb) - drop_bit (log2_cluster_size ?uf) (f_cur_pos f)) = ?r - ?q"
    using qr by (simp only: unat_sub_32 unat_drop_32 lg e)
  moreover obtain uf' where a: "advance_loop (?r - ?q) (f_prev_cluster f) (entry_at cs e ?q) ?uf =
      Inr (Inr (if ?r - ?q = 0 then f_prev_cluster f else entry_at cs e (?q + (?r - ?q) - 1), entry_at cs e (?q + (?r - ?q))), uf')"
      "keeps ?uf uf'"
    using advance_loop_ok [OF c, of ?q "?r - ?q" "f_prev_cluster f"] qr r by auto
  moreover have "?q + (?r - ?q) = ?r" using qr by simp
  moreover have "f_cur_cluster f = entry_at cs e ?q" using p by (simp add: pos_ok_def)
  ultimately have adv: "advance_ptr f nb = Inr (0, f\<lparr>f_uf := uf', f_prev_cluster := (if ?r - ?q = 0 then f_prev_cluster f
      else entry_at cs e (?r - 1)), f_cur_cluster := entry_at cs e ?r, f_cur_pos := f_cur_pos f + nb\<rparr>)" (is "_ = Inr (0, ?f')")
    by (simp add: advance_ptr_def Let_def)
  have b: "bpb uf' = bpb ?uf" by (rule keeps_facts(2) [OF a(2)])
  have "(if ?r - ?q = 0 then f_prev_cluster f else entry_at cs e (?r - 1)) =
      (if unat (f_cur_pos f) + unat nb < csize ?uf then 0 else entry_at cs e (?r - 1))"
  proof (cases "?r - ?q = 0")
    case True
    then have "?r = ?q" using qr by simp
    moreover have "f_prev_cluster f = (if unat (f_cur_pos f) < csize ?uf then 0 else entry_at cs e (?q - 1))"
      using p by (simp add: pos_ok_def)
    ultimately show ?thesis unfolding lt using True by (simp only: if_True simp_thms)
  next
    case False
    then have "?r \<noteq> 0" by linarith
    then have "\<not> unat (f_cur_pos f) + unat nb < csize ?uf" unfolding lt .
    then show ?thesis using False by simp
  qed
  moreover have "f_uf ?f' = uf'" "f_start ?f' = f_start f" "f_cur_pos ?f' = f_cur_pos f + nb"
    "f_cur_cluster ?f' = entry_at cs e ?r"
    "f_prev_cluster ?f' = (if ?r - ?q = 0 then f_prev_cluster f else entry_at cs e (?r - 1))" by simp_all
  ultimately have "pos_ok cs e ?f'" using chain_ok_keeps [OF c a(2)] n by (simp only: pos_ok_def e b)
  then show thesis using that adv a(2) e by blast
qed

end

end
