(* ===== verification/Fat_Read.thy ===== *)
theory Fat_Read
  imports Fat_Position
begin

text \<open>Reading a file: \<open>ufat_file_read\<close> copies the bytes of the file's clusters from the position on.\<close>

context multi_device
begin

lemma chain_ptr: "chain_ok uf c cs e \<Longrightarrow> q < length cs \<Longrightarrow> UFAT_CLUSTER_IS_PTR (entry_at cs e q)"
proof -
  assume c: "chain_ok uf c cs e" and q: "q < length cs"
  note C = chain_okD [OF c]
  have "2 \<le> cs ! q" "cs ! q < nclus uf" using C(6) [OF nth_mem [OF q]] by blast+
  moreover have "nclus uf \<le> 0xffffff0" using C(2) by (cases "ftype uf") (simp_all add: table_ok_def max_clusters_def)
  ultimately show ?thesis
    using unat_entry_at [OF C(5) q] by (simp add: UFAT_CLUSTER_IS_PTR_def word_le_nat_alt word_less_nat_alt)
qed

lemma pos_chain: "pos_ok cs e f \<Longrightarrow> chain_ok (f_uf f) (f_start f) cs e"
  by (simp add: pos_ok_def)

text \<open>The block at the position.\<close>

lemma current_block_ok:
  assumes p: "pos_ok cs e f" and l: "unat (f_cur_pos f) < length cs * csize (f_uf f)"
  shows "unat (f_cur_pos f) div bsize div blocks_per_cluster (f_uf f) < length cs"
    "UFAT_CLUSTER_IS_PTR (f_cur_cluster f)"
    "unat (current_block f) = file_blocks (bpb (f_uf f)) cs ! (unat (f_cur_pos f) div bsize)"
    "unat (current_block f) = clus_block (bpb (f_uf f)) (cs ! (unat (f_cur_pos f) div bsize div blocks_per_cluster (f_uf f))) +
       unat (f_cur_pos f) div bsize mod blocks_per_cluster (f_uf f)"
proof -
  let ?b = "unat (f_cur_pos f) div bsize" and ?s = "blocks_per_cluster (f_uf f)"
  have c: "chain_ok (f_uf f) (f_start f) cs e" and cur: "f_cur_cluster f = entry_at cs e (unat (f_cur_pos f) div csize (f_uf f))"
    using p by (simp_all add: pos_ok_def)
  note C = chain_okD [OF c]
  have d: "unat (f_cur_pos f) div csize (f_uf f) = ?b div ?s" by (rule div_mult2_eq)
  have "unat (f_cur_pos f) div csize (f_uf f) < length cs"
    using l by (simp add: div_less_iff_less_mult)
  then show q: "?b div ?s < length cs" unfolding d .
  show "UFAT_CLUSTER_IS_PTR (f_cur_cluster f)" unfolding cur d by (rule chain_ptr [OF c q])
  have cc: "2 \<le> cs ! (?b div ?s) \<and> cs ! (?b div ?s) < nclus (f_uf f)" by (rule C(6) [OF nth_mem [OF q]])
  have u: "unat (f_cur_cluster f) = cs ! (?b div ?s)" unfolding cur d by (rule unat_entry_at [OF C(5) q])
  have b: "unat (cluster_to_block (bpb (f_uf f)) (f_cur_cluster f)) = clus_block (bpb (f_uf f)) (cs ! (?b div ?s))"
    using placed_block [OF C(3), of "f_cur_cluster f"] cc unfolding u by blast
  have i: "unat (ucast (block_in_cluster f) :: u64) = ?b mod ?s"
    unfolding unat_u32_64 by (rule unat_block_in_cluster [OF lg_dev [OF C(1)]])
  have "clus_block (bpb (f_uf f)) (cs ! (?b div ?s)) < 2 ^ 32" using placed_bounds(3) [OF C(3)] cc by blast
  moreover have "unat (block_in_cluster f) < 2 ^ 32" using unsigned_less [of "block_in_cluster f"] by simp
  then have "?b mod ?s < 2 ^ 32" unfolding unat_block_in_cluster [OF lg_dev [OF C(1)]] .
  moreover have "(2::nat) ^ 32 + 2 ^ 32 \<le> 2 ^ 64" by simp
  ultimately have "clus_block (bpb (f_uf f)) (cs ! (?b div ?s)) + ?b mod ?s < 2 ^ 64" by linarith
  then show r: "unat (current_block f) = clus_block (bpb (f_uf f)) (cs ! (?b div ?s)) + ?b mod ?s"
    unfolding current_block_def b [symmetric] i [symmetric] by (rule unat_add_index)
  show "unat (current_block f) = file_blocks (bpb (f_uf f)) cs ! ?b" unfolding r by (rule file_blocks_nth [OF q, symmetric])
qed

text \<open>The file is the same, but for the position, which is \<open>m\<close> bytes further.\<close>

definition same_file :: "'d ufat_file \<Rightarrow> 'd ufat_file \<Rightarrow> bool" where
  "same_file f f' \<longleftrightarrow> f_start f' = f_start f \<and> f_file_size f' = f_file_size f \<and>
     f_dirent_block f' = f_dirent_block f \<and> f_dirent_pos f' = f_dirent_pos f"

definition read_on :: "nat list \<Rightarrow> u32 \<Rightarrow> 'd ufat_file \<Rightarrow> nat \<Rightarrow> 'd ufat_file \<Rightarrow> bool" where
  "read_on cs e f m f' \<longleftrightarrow> pos_ok cs e f' \<and> keeps (f_uf f) (f_uf f') \<and> same_file f f' \<and>
     unat (f_cur_pos f') = unat (f_cur_pos f) + m"

lemma read_on_trans: "read_on cs e f m f1 \<Longrightarrow> read_on cs e f1 k f2 \<Longrightarrow> read_on cs e f (m + k) f2"
  using keeps_trans unfolding read_on_def same_file_def by fastforce

lemma read_on_refl: "pos_ok cs e f \<Longrightarrow> read_on cs e f 0 f"
  using keeps_refl by (auto simp: read_on_def same_file_def pos_ok_def chain_ok_def)

lemma read_on_bytes: "pos_ok cs e f \<Longrightarrow> read_on cs e f m f' \<Longrightarrow> file_bytes (f_uf f') cs = file_bytes (f_uf f) cs"
  using file_bytes_keeps unfolding read_on_def pos_ok_def by blast

lemma pos_ok_uf:
  assumes p: "pos_ok cs e f" and k: "keeps (f_uf f) uf"
  shows "pos_ok cs e (f\<lparr>f_uf := uf\<rparr>)"
  using chain_ok_keeps [OF _ k] p keeps_facts(2) [OF k] by (simp add: pos_ok_def)

text \<open>Moving the position after the volume has been used.\<close>

lemma advance_read_on:
  assumes p: "pos_ok cs e f" and k: "keeps (f_uf f) uf"
    and n: "unat (f_cur_pos f) + unat nb \<le> length cs * csize (f_uf f)" "unat (f_cur_pos f) + unat nb < 2 ^ 32"
  obtains f' where "advance_ptr (f\<lparr>f_uf := uf\<rparr>) nb = Inr (0, f')" "read_on cs e f (unat nb) f'"
proof -
  have b: "bpb uf = bpb (f_uf f)" by (rule keeps_facts(2) [OF k])
  have n': "unat (f_cur_pos (f\<lparr>f_uf := uf\<rparr>)) + unat nb \<le> length cs * csize (f_uf (f\<lparr>f_uf := uf\<rparr>))"
    "unat (f_cur_pos (f\<lparr>f_uf := uf\<rparr>)) + unat nb < 2 ^ 32" using n by (simp_all add: b)
  obtain f' uf' c d where a: "advance_ptr (f\<lparr>f_uf := uf\<rparr>) nb = Inr (0, f')" "pos_ok cs e f'" "keeps (f_uf (f\<lparr>f_uf := uf\<rparr>)) uf'"
      "f' = f\<lparr>f_uf := uf, f_uf := uf', f_prev_cluster := c, f_cur_cluster := d, f_cur_pos := f_cur_pos (f\<lparr>f_uf := uf\<rparr>) + nb\<rparr>"
      "unat (f_cur_pos (f\<lparr>f_uf := uf\<rparr>) + nb) = unat (f_cur_pos (f\<lparr>f_uf := uf\<rparr>)) + unat nb"
    by (rule advance_ptr_ok [OF pos_ok_uf [OF p k] n'])
  have "keeps (f_uf f) (f_uf f')" using keeps_trans [OF k] a(3,4) by simp
  then show thesis using that a(1,2,4,5) by (simp add: read_on_def same_file_def)
qed

section \<open>A part of a block\<close>

lemma slice_of_block:
  assumes c: "chain_ok uf c cs e" and p: "p div bsize < length (file_blocks (bpb uf) cs)" "p mod bsize + m \<le> bsize"
  shows "mem_slice (p mod bsize) m (view uf (file_blocks (bpb uf) cs ! (p div bsize))) = mem_slice p m (file_bytes uf cs)"
  using slice_concat_inside [OF chain_views [OF c], of p m] p unfolding file_bytes_def by simp

lemma fragment_fits: "min s (K - p mod K) mod K \<le> s" "0 < K \<Longrightarrow> p mod K + min s (K - p mod K) mod K \<le> (K::nat)"
proof -
  have m: "min s (K - p mod K) mod K \<le> min s (K - p mod K)" by (rule mod_less_eq_dividend)
  show "min s (K - p mod K) mod K \<le> s" by (rule order_trans [OF m min.cobounded1])
  have "min s (K - p mod K) mod K \<le> K - p mod K" by (rule order_trans [OF m min.cobounded2])
  then show "0 < K \<Longrightarrow> p mod K + min s (K - p mod K) mod K \<le> K" using mod_less_divisor [of K p] by linarith
qed

lemma read_fragment_ok:
  assumes p: "pos_ok cs e f" and s: "unat (f_cur_pos f) + unat sz \<le> length cs * csize (f_uf f)" "unat (f_cur_pos f) + unat sz < 2 ^ 32"
    and o: "off + unat sz \<le> length buf"
    and m: "m = min (unat sz) (bsize - unat (f_cur_pos f) mod bsize) mod bsize"
  obtains f' where "read_block_fragment f buf off sz =
      Inr (int m, mem_splice off (mem_slice (unat (f_cur_pos f)) m (file_bytes (f_uf f) cs)) buf, f')" "read_on cs e f m f'"
proof -
  let ?uf = "f_uf f" and ?p = "unat (f_cur_pos f)"
  have c: "chain_ok ?uf (f_start f) cs e" using p by (simp add: pos_ok_def)
  note C = chain_okD [OF c]
  have ms: "m \<le> unat sz" "?p mod bsize + m \<le> bsize"
    unfolding m by (rule fragment_fits) (rule fragment_fits, simp)
  have lg: "log2_block_size (dev ?uf) = log2_block_size device" "log2_block_size device < 32" using lg_dev [OF C(1)] C(4) by simp_all
  have fm: "unat (fragment_size f sz) = m" unfolding unat_fragment_size [OF lg] m ..
  show thesis
  proof (cases "m = 0")
    case True
    then have "fragment_size f sz = 0" using fm by (simp add: unsigned_eq_0_iff)
    moreover have "mem_splice off (mem_slice ?p m (file_bytes ?uf cs)) buf = buf" using True by (simp add: mem_splice_def mem_slice_def)
    ultimately show thesis using that [of f] read_on_refl [OF p] True by (simp add: read_block_fragment_def)
  next
    case False
    then have nz: "fragment_size f sz \<noteq> 0" using fm by (metis unsigned_0)
    have "?p < length cs * csize ?uf" using False ms(1) s(1) by linarith
    note B = current_block_ok [OF p this]
    let ?b = "file_blocks (bpb ?uf) cs ! (?p div bsize)"
    have pl: "?p div bsize < length (file_blocks (bpb ?uf) cs)"
      using B(1) by (simp add: length_file_blocks div_less_iff_less_mult)
    note V = chain_blocks [OF c nth_mem [OF pl]]
    obtain i u1 where o1: "ufat_cache_open ?uf (current_block f) False = Inr (int i, u1)" "i < cache_size u1"
        "slot_data u1 i = view ?uf ?b" "keeps ?uf u1"
      using cache_open_ok [OF C(1), of "current_block f"] V unfolding B(3) by metis
    have r: "unat (offset_in_block f) = ?p mod bsize" unfolding offset_in_block_def lg unat_and_mask ..
    have ld: "slot_load u1 i (?p mod bsize) m = Inr (mem_slice ?p m (file_bytes ?uf cs))"
      using slot_load_ok [OF keeps_facts(1) [OF o1(4)] o1(2) ms(2)] unfolding o1(3) slice_of_block [OF c pl ms(2)] .
    have le: "length (mem_slice ?p m (file_bytes ?uf cs)) = m"
      using ms(1) s(1) length_file_bytes [OF c] by (intro length_mem_slice) linarith
    have st: "mem_store buf off (mem_slice ?p m (file_bytes ?uf cs)) = Inr (mem_splice off (mem_slice ?p m (file_bytes ?uf cs)) buf)"
      using o ms(1) by (intro mem_store_Inr) (simp add: le)
    have a: "unat (f_cur_pos f) + unat (fragment_size f sz) \<le> length cs * csize ?uf" "unat (f_cur_pos f) + unat (fragment_size f sz) < 2 ^ 32"
      unfolding fm using ms(1) s by linarith+
    obtain f' where f': "advance_ptr (f\<lparr>f_uf := u1\<rparr>) (fragment_size f sz) = Inr (0, f')" "read_on cs e f (unat (fragment_size f sz)) f'"
      by (rule advance_read_on [OF p o1(4) a])
    have "read_block_fragment f buf off sz = Inr (int m, mem_splice off (mem_slice ?p m (file_bytes ?uf cs)) buf, f')"
      using nz B(2) o1(1) ld st f'(1) by (simp add: read_block_fragment_def Let_def r fm)
    then show thesis using that f'(2) unfolding fm by blast
  qed
qed

section \<open>Whole blocks\<close>

lemma slice_of_blocks:
  assumes c: "chain_ok uf c cs e" and b: "b div blocks_per_cluster uf < length cs"
    and r: "b mod blocks_per_cluster uf + r \<le> blocks_per_cluster uf"
    and k: "k = clus_block (bpb uf) (cs ! (b div blocks_per_cluster uf)) + b mod blocks_per_cluster uf"
  shows "concat (map (view uf) [k..<k + r]) = mem_slice (b * bsize) (r * bsize) (file_bytes uf cs)"
    "\<forall>x. k \<le> x \<and> x < k + r \<longrightarrow> \<not> is_mirror (bpb uf) x" "k + r \<le> nblocks"
proof -
  let ?j = "cs ! (b div blocks_per_cluster uf)"
  have s: "mem_slice b r (file_blocks (bpb uf) cs) = [k..<k + r]" unfolding k by (rule file_blocks_slice [OF b r])
  have "mem_slice b r (map (view uf) (file_blocks (bpb uf) cs)) = map (view uf) [k..<k + r]" unfolding slice_map s ..
  then show "concat (map (view uf) [k..<k + r]) = mem_slice (b * bsize) (r * bsize) (file_bytes uf cs)"
    unfolding file_bytes_def slice_concat_chunks [OF chain_views [OF c]] by simp
  have "\<forall>x \<in> set [k..<k + r]. x \<in> set (file_blocks (bpb uf) cs)"
    unfolding s [symmetric] mem_slice_def using in_set_takeD in_set_dropD by fast
  then show "\<forall>x. k \<le> x \<and> x < k + r \<longrightarrow> \<not> is_mirror (bpb uf) x" using chain_blocks(3) [OF c] by auto
  have "clus_block (bpb uf) ?j + blocks_per_cluster uf \<le> nblocks"
    using placed_bounds(1) [OF chain_okD(3) [OF c]] chain_okD(6) [OF c nth_mem [OF b]] by blast
  then show "k + r \<le> nblocks" using r unfolding k by linarith
qed

lemma read_blocks_ok:
  assumes p: "pos_ok cs e f" and s: "unat (f_cur_pos f) + unat sz \<le> length cs * csize (f_uf f)" "unat (f_cur_pos f) + unat sz < 2 ^ 32"
    and o: "off + unat sz \<le> length buf" and small: "unat sz < 2 ^ 31"
    and al: "unat sz = 0 \<or> unat (f_cur_pos f) mod bsize = 0"
    and m: "m = min (unat sz div bsize) (blocks_per_cluster (f_uf f) - unat (f_cur_pos f) div bsize mod blocks_per_cluster (f_uf f)) * bsize"
  obtains f' where "read_blocks f buf off sz =
      Inr (int m, mem_splice off (mem_slice (unat (f_cur_pos f)) m (file_bytes (f_uf f) cs)) buf, f')" "read_on cs e f m f'"
proof -
  let ?uf = "f_uf f" and ?p = "unat (f_cur_pos f)" and ?s = "blocks_per_cluster (f_uf f)" and ?lg = "log2_block_size device"
  let ?b = "?p div bsize" and ?r = "min (unat sz div bsize) (?s - ?p div bsize mod ?s)"
  have c: "chain_ok ?uf (f_start f) cs e" using p by (simp add: pos_ok_def)
  note C = chain_okD [OF c]
  have lg: "log2_block_size (dev ?uf) = ?lg" by (rule lg_dev [OF C(1)])
  have "?r * bsize \<le> unat sz div bsize * bsize" by (intro mult_le_mono1) simp
  also have "\<dots> \<le> unat sz" by (rule div_times_less_eq_dividend)
  finally have ms: "m \<le> unat sz" unfolding m .
  have rq: "unat (requested_blocks f sz) = ?r"
    using unat_requested [OF lg refl] C(4) by simp
  show thesis
  proof (cases "?r = 0")
    case True
    then have "requested_blocks f sz = 0" using rq by (metis unsigned_eq_0_iff)
    moreover have "m = 0" using True m by simp
    moreover have "mem_splice off (mem_slice ?p 0 (file_bytes ?uf cs)) buf = buf" by (simp add: mem_splice_def mem_slice_def)
    ultimately show thesis using that [of f] read_on_refl [OF p] by (simp add: read_blocks_def)
  next
    case False
    then have nz: "requested_blocks f sz \<noteq> 0" using rq by (metis unsigned_0)
    have "0 < bsize * ?r" using False by simp
    then have m0: "0 < m" unfolding m by (simp only: mult.commute)
    then have z: "unat sz \<noteq> 0" using ms by linarith
    have pb: "?p = ?b * bsize" using al z by auto
    have "?p < length cs * csize ?uf" using m0 ms s(1) by linarith
    note B = current_block_ok [OF p this]
    have "?r \<le> ?s - ?b mod ?s" "?b mod ?s < ?s" by simp_all
    then have br: "?b mod ?s + ?r \<le> ?s" by linarith
    note S = slice_of_blocks [OF c B(1) br B(4)]
    have u: "unat (ucast (requested_blocks f sz) :: u64) = ?r" unfolding unat_u32_64 rq ..
    have kr: "unat (current_block f) + unat (ucast (requested_blocks f sz) :: u64) \<le> nblocks"
      "\<forall>x. unat (current_block f) \<le> x \<and> x < unat (current_block f) + unat (ucast (requested_blocks f sz) :: u64) \<longrightarrow> \<not> is_mirror (bpb ?uf) x"
      unfolding u by (rule S(3), rule S(2))
    have lo: "length (mem_slice off (?r * bsize) buf) = unat (ucast (requested_blocks f sz) :: u64) * bsize"
      unfolding u using o ms unfolding m by (intro length_mem_slice) linarith
    obtain u1 where ev: "ufat_cache_evict ?uf (current_block f) (ucast (requested_blocks f sz)) = Inr (0, u1)" "keeps ?uf u1"
        "\<And>st. \<exists>d. dev_read (dev u1) (current_block f) (ucast (requested_blocks f sz)) (mem_slice off (?r * bsize) buf) (disk u1) =
            (0, concat (map (view ?uf) [unat (current_block f)..<unat (current_block f) + unat (ucast (requested_blocks f sz) :: u64)]), d) \<and>
          keeps ?uf (u1\<lparr>disk := d, ufat_stat := st\<rparr>)"
      by (rule read_past_cache [OF C(1) kr(1) lo kr(2)]) blast
    define st where "st = (ufat_stat u1)\<lparr>stat_read := stat_read (ufat_stat u1) + 1,
        stat_read_blocks := stat_read_blocks (ufat_stat u1) + requested_blocks f sz\<rparr>"
    obtain d where d: "dev_read (dev u1) (current_block f) (ucast (requested_blocks f sz)) (mem_slice off (?r * bsize) buf) (disk u1) =
            (0, mem_slice ?p m (file_bytes ?uf cs), d)" "keeps ?uf (u1\<lparr>disk := d, ufat_stat := st\<rparr>)"
      using ev(3) [of st] unfolding u S(1) pb [symmetric] m by blast
    have le: "length (mem_slice ?p m (file_bytes ?uf cs)) = m"
      using ms s(1) length_file_bytes [OF c] by (intro length_mem_slice) linarith
    have ld: "mem_load buf off (?r * bsize) = Inr (mem_slice off (?r * bsize) buf)"
      using o ms unfolding m by (intro mem_load_Inr) linarith
    have sto: "mem_store buf off (mem_slice ?p m (file_bytes ?uf cs)) = Inr (mem_splice off (mem_slice ?p m (file_bytes ?uf cs)) buf)"
      using o ms by (intro mem_store_Inr) (simp only: le)
    have nb: "unat (push_bit ?lg (requested_blocks f sz)) = m"
    proof -
      have "unat (requested_blocks f sz) * bsize < 2 ^ 32" unfolding rq m [symmetric] using ms s(2) by linarith
      from unat_shift_32 [OF this] show ?thesis unfolding rq m .
    qed
    have sn: "sint (push_bit ?lg (requested_blocks f sz)) = int m"
    proof -
      have "m < 2 ^ 31" using ms small by linarith
      then show ?thesis using nb by (simp add: sint_small)
    qed
    have a: "?p + unat (push_bit ?lg (requested_blocks f sz)) \<le> length cs * csize ?uf" "?p + unat (push_bit ?lg (requested_blocks f sz)) < 2 ^ 32"
      unfolding nb using ms s by linarith+
    obtain f' where f': "advance_ptr (f\<lparr>f_uf := u1\<lparr>disk := d, ufat_stat := st\<rparr>\<rparr>) (push_bit ?lg (requested_blocks f sz)) = Inr (0, f')"
        "read_on cs e f m f'"
      using advance_read_on [OF p d(2) a] unfolding nb by blast
    have "read_blocks f buf off sz = Inr (int m, mem_splice off (mem_slice ?p m (file_bytes ?uf cs)) buf, f')"
      using nz B(2) ev(1) ld d(1) sto f'(1) by (simp add: read_blocks_def Let_def lg rq sn st_def)
    then show thesis using that f'(2) by blast
  qed
qed

section \<open>The whole request\<close>

lemma unat_less_nat: "m \<le> unat sz \<Longrightarrow> unat (sz - word_of_int (int m) :: u32) = unat sz - m"
proof -
  assume m: "m \<le> unat sz"
  have "unat sz < 2 ^ 32" using unsigned_less [of sz] by simp
  then have "m < 2 ^ 32" using m by linarith
  then have "unat (word_of_int (int m) :: u32) = m" by (simp add: unat_of_nat)
  then show ?thesis using unat_sub_32 [of "word_of_int (int m)" sz] m by simp
qed

lemma no_block_left:
  assumes "min (s div K) (S - b mod S) * K = 0" "0 < K" "0 < S"
  shows "s < (K::nat)"
proof -
  have "b mod S < S" using assms(3) by simp
  moreover have "min (s div K) (S - b mod S) = 0" using assms(1,2) by simp
  then have "s div K = 0 \<or> S - b mod S = 0" by (simp add: min_def split: if_splits)
  ultimately have "s div K = 0" by linarith
  then show ?thesis using assms(2) less_iff_div by blast
qed

lemma read_loop_ok:
  "pos_ok cs e f \<Longrightarrow> unat (f_cur_pos f) + unat sz \<le> length cs * csize (f_uf f) \<Longrightarrow> unat (f_cur_pos f) + unat sz < 2 ^ 32 \<Longrightarrow>
    off + unat sz \<le> length buf \<Longrightarrow> unat sz < 2 ^ 31 \<Longrightarrow> unat sz = 0 \<or> unat (f_cur_pos f) mod bsize = 0 \<Longrightarrow> unat sz < n \<Longrightarrow>
    \<exists>m f' sz'. read_blocks_loop n f buf off sz =
        Inr (0, off + m, sz', mem_splice off (mem_slice (unat (f_cur_pos f)) m (file_bytes (f_uf f) cs)) buf, f') \<and>
      read_on cs e f m f' \<and> m + unat sz' = unat sz \<and> unat sz' < bsize \<and> (unat sz' = 0 \<or> unat (f_cur_pos f') mod bsize = 0)"
proof (induction n arbitrary: f buf off sz)
  case (Suc n)
  let ?C = "file_bytes (f_uf f) cs" and ?p = "unat (f_cur_pos f)"
  let ?m = "min (unat sz div bsize) (blocks_per_cluster (f_uf f) - ?p div bsize mod blocks_per_cluster (f_uf f)) * bsize"
  obtain f1 where r: "read_blocks f buf off sz = Inr (int ?m, mem_splice off (mem_slice ?p ?m ?C) buf, f1)" "read_on cs e f ?m f1"
    by (rule read_blocks_ok [OF Suc.prems(1-6) refl])
  show ?case
  proof (cases "?m = 0")
    case True
    then have "unat sz < bsize" by (rule no_block_left) simp_all
    then show ?thesis
      using r Suc.prems(6) unfolding True by (intro exI [of _ 0] exI [of _ f1] exI [of _ sz]) (simp add: read_on_def)
  next
    case False
    define m where "m = ?m"
    have "m \<le> unat sz div bsize * bsize" unfolding m_def by (intro mult_le_mono1) simp
    also have "\<dots> \<le> unat sz" by (rule div_times_less_eq_dividend)
    finally have ms: "0 < m" "m \<le> unat sz" using False unfolding m_def by auto
    let ?sz = "sz - word_of_int (int m) :: u32"
    note u = unat_less_nat [OF ms(2)]
    have r1: "read_on cs e f m f1" using r(2) unfolding m_def .
    have R: "pos_ok cs e f1" "unat (f_cur_pos f1) = ?p + m" using r1 by (simp_all add: read_on_def)
    have b1: "bpb (f_uf f1) = bpb (f_uf f)" using r1 keeps_facts(2) by (simp add: read_on_def)
    have C1: "file_bytes (f_uf f1) cs = ?C" by (rule read_on_bytes [OF Suc.prems(1) r1])
    let ?buf = "mem_splice off (mem_slice ?p m ?C) buf"
    have lC: "?p + unat sz \<le> length ?C" using Suc.prems(2) unfolding length_file_bytes [OF pos_chain [OF Suc.prems(1)]] .
    have lb: "length ?buf = length buf" using Suc.prems(4) ms(2) lC by (intro length_mem_splice) simp
    have al: "unat ?sz = 0 \<or> unat (f_cur_pos f1) mod bsize = 0"
      using Suc.prems(6) ms unfolding R(2) m_def by auto
    have q: "unat (f_cur_pos f1) + unat ?sz \<le> length cs * csize (f_uf f1)" "unat (f_cur_pos f1) + unat ?sz < 2 ^ 32"
      "off + m + unat ?sz \<le> length ?buf" "unat ?sz < 2 ^ 31" "unat ?sz < n"
      using Suc.prems(2-5,7) ms unfolding R(2) u lb b1 by linarith+
    obtain m2 f2 sz2 where l: "read_blocks_loop n f1 ?buf (off + m) ?sz =
          Inr (0, off + m + m2, sz2, mem_splice (off + m) (mem_slice (?p + m) m2 ?C) ?buf, f2)"
        "read_on cs e f1 m2 f2" "m2 + unat sz2 = unat ?sz" "unat sz2 < bsize" "unat sz2 = 0 \<or> unat (f_cur_pos f2) mod bsize = 0"
      using Suc.IH [OF R(1) q(1-4) al q(5)] unfolding C1 R(2)
      by (elim exE conjE) (rule that)
    have s: "mem_splice (off + m) (mem_slice (?p + m) m2 ?C) ?buf = mem_splice off (mem_slice ?p (m + m2) ?C) buf"
      using l(3) u ms(2) lC Suc.prems(4) by (intro slice_splice_extend) linarith+
    have "read_blocks_loop (Suc n) f buf off sz = Inr (0, off + (m + m2), sz2, mem_splice off (mem_slice ?p (m + m2) ?C) buf, f2)"
      using r(1) l(1) ms(1) unfolding m_def [symmetric] s by (simp add: add.assoc)
    moreover have "m + m2 + unat sz2 = unat sz" using l(3) u ms(2) by linarith
    ultimately show ?thesis
      using read_on_trans [OF r1 l(2)] l(4,5) by (intro exI [of _ "m + m2"] exI [of _ f2] exI [of _ sz2]) simp
  qed
qed simp

lemma fragment_left:
  assumes "m = min s (K - p mod K) mod K" "0 < K"
  shows "s - m = 0 \<or> (p + m) mod K = (0::nat)"
proof (cases "s < K - p mod K")
  case True
  then have "m = s" using assms by simp
  then show ?thesis by simp
next
  case False
  have k: "p mod K < K" using assms(2) by simp
  have m: "m = (K - p mod K) mod K" using assms(1) False by (simp add: min_def)
  show ?thesis
  proof (cases "p mod K = 0")
    case True
    then show ?thesis using m by simp
  next
    case False
    then have "m = K - p mod K" using m k by simp
    moreover have "p mod K + (K - p mod K) = K" using k by simp
    then have "(p mod K + (K - p mod K)) mod K = 0" by simp
    ultimately show ?thesis by (simp only: mod_add_left_eq simp_thms)
  qed
qed

lemma file_read_ok:
  assumes p: "pos_ok cs e f" and s: "unat (f_cur_pos f) \<le> unat (f_file_size f)" "unat (f_file_size f) \<le> length cs * csize (f_uf f)"
    and m: "m = min (unat sz) (unat (f_file_size f) - unat (f_cur_pos f))" "m \<le> length buf" "m < 2 ^ 31"
  obtains f' where "ufat_file_read f buf sz =
      Inr (int m, mem_splice 0 (mem_slice (unat (f_cur_pos f)) m (file_bytes (f_uf f) cs)) buf, f')" "read_on cs e f m f'"
proof -
  let ?C = "file_bytes (f_uf f) cs" and ?p = "unat (f_cur_pos f)"
  define t where "t = (if sz > f_file_size f - f_cur_pos f then f_file_size f - f_cur_pos f else sz)"
  have ut: "unat t = m" unfolding t_def unat_min_32 unat_sub_32 [OF s(1)] m ..
  have "unat (f_file_size f) < 2 ^ 32" using unsigned_less [of "f_file_size f"] by simp
  then have a: "?p + unat t \<le> length cs * csize (f_uf f)" "?p + unat t < 2 ^ 32" "0 + unat t \<le> length buf"
    using s m unfolding ut by linarith+
  have lC: "?p + m \<le> length ?C" using a(1) unfolding ut length_file_bytes [OF pos_chain [OF p]] .
  define m1 where "m1 = min (unat t) (bsize - ?p mod bsize) mod bsize"
  obtain f1 where r1: "read_block_fragment f buf 0 t = Inr (int m1, mem_splice 0 (mem_slice ?p m1 ?C) buf, f1)" "read_on cs e f m1 f1"
    by (rule read_fragment_ok [OF p a m1_def])
  have m1: "m1 \<le> m" unfolding m1_def ut by (rule fragment_fits)
  let ?buf = "mem_splice 0 (mem_slice ?p m1 ?C) buf" and ?sz = "t - word_of_int (int m1) :: u32"
  have u1: "unat ?sz = m - m1" using unat_less_nat [of m1 t] m1 unfolding ut by blast
  have P1: "pos_ok cs e f1" "unat (f_cur_pos f1) = ?p + m1" using r1(2) by (simp_all add: read_on_def)
  have b1: "bpb (f_uf f1) = bpb (f_uf f)" using r1(2) keeps_facts(2) by (simp add: read_on_def)
  have C1: "file_bytes (f_uf f1) cs = ?C" by (rule read_on_bytes [OF p r1(2)])
  have lb: "length ?buf = length buf" using m1 m(2) lC by (intro length_mem_splice) simp
  have al: "unat ?sz = 0 \<or> unat (f_cur_pos f1) mod bsize = 0"
    unfolding u1 P1(2) using fragment_left [OF m1_def] unfolding ut by simp
  have q: "unat (f_cur_pos f1) + unat ?sz \<le> length cs * csize (f_uf f1)" "unat (f_cur_pos f1) + unat ?sz < 2 ^ 32"
    "m1 + unat ?sz \<le> length ?buf" "unat ?sz < 2 ^ 31" "unat ?sz < unat t + 1"
    using a m m1 unfolding u1 P1(2) lb b1 ut by linarith+
  obtain m2 f2 sz2 where r2: "read_blocks_loop (unat t + 1) f1 ?buf m1 ?sz =
        Inr (0, m1 + m2, sz2, mem_splice m1 (mem_slice (?p + m1) m2 ?C) ?buf, f2)"
      "read_on cs e f1 m2 f2" "m2 + unat sz2 = unat ?sz" "unat sz2 < bsize" "unat sz2 = 0 \<or> unat (f_cur_pos f2) mod bsize = 0"
    using read_loop_ok [OF P1(1) q(1-4) al q(5)] unfolding C1 P1(2)
    by (elim exE conjE) (rule that)
  have s2: "m1 + m2 + unat sz2 = m" using r2(3) m1 unfolding u1 by linarith
  have e2: "mem_splice m1 (mem_slice (?p + m1) m2 ?C) ?buf = mem_splice 0 (mem_slice ?p (m1 + m2) ?C) buf"
    using slice_splice_extend [of ?p m1 m2 ?C 0 buf] s2 lC m(2) by simp
  let ?buf2 = "mem_splice 0 (mem_slice ?p (m1 + m2) ?C) buf"
  have R2: "read_on cs e f (m1 + m2) f2" by (rule read_on_trans [OF r1(2) r2(2)])
  then have P2: "pos_ok cs e f2" "unat (f_cur_pos f2) = ?p + (m1 + m2)" by (simp_all add: read_on_def)
  have b2: "bpb (f_uf f2) = bpb (f_uf f)" using R2 keeps_facts(2) by (simp add: read_on_def)
  have C2: "file_bytes (f_uf f2) cs = ?C" by (rule read_on_bytes [OF p R2])
  have lb2: "length ?buf2 = length buf" using s2 m(2) lC by (intro length_mem_splice) simp
  have q2: "unat (f_cur_pos f2) + unat sz2 \<le> length cs * csize (f_uf f2)" "unat (f_cur_pos f2) + unat sz2 < 2 ^ 32"
    "m1 + m2 + unat sz2 \<le> length ?buf2"
    using a m s2 unfolding P2(2) lb2 b2 ut by linarith+
  have m3: "unat sz2 = min (unat sz2) (bsize - unat (f_cur_pos f2) mod bsize) mod bsize"
    using r2(4,5) by auto
  obtain f3 where r3: "read_block_fragment f2 ?buf2 (m1 + m2) sz2 =
        Inr (int (unat sz2), mem_splice (m1 + m2) (mem_slice (?p + (m1 + m2)) (unat sz2) ?C) ?buf2, f3)" "read_on cs e f2 (unat sz2) f3"
    by (rule read_fragment_ok [OF P2(1) q2 m3]) (simp only: C2 P2(2))
  have "mem_splice (m1 + m2) (mem_slice (?p + (m1 + m2)) (unat sz2) ?C) ?buf2 = mem_splice 0 (mem_slice ?p m ?C) buf"
    using slice_splice_extend [of ?p "m1 + m2" "unat sz2" ?C 0 buf] s2 lC m(2) by simp
  moreover have "sint t = int m" using m(3) ut by (simp add: sint_small)
  ultimately have "ufat_file_read f buf sz = Inr (int m, mem_splice 0 (mem_slice ?p m ?C) buf, f3)"
    using r1(1) r2(1) r3(1) unfolding e2 by (simp add: ufat_file_read_def t_def [symmetric] Let_def)
  moreover have "read_on cs e f m f3" using read_on_trans [OF R2 r3(2)] unfolding s2 .
  ultimately show thesis using that by blast
qed

end

end
