(* ===== verification/Fat_Store.thy ===== *)
theory Fat_Store
  imports Fat_Read
begin

text \<open>
  Writing blocks that are not of the table, through the cache and past it, as a new disk that is seen; and
  what that means for the bytes of a file.
\<close>

section \<open>Writes\<close>

context multi_device
begin

definition stored :: "'d ufat \<Rightarrow> (nat \<Rightarrow> bytes) \<Rightarrow> 'd ufat \<Rightarrow> bool" where
  "stored uf V uf' \<longleftrightarrow> cache_ok uf' \<and> bpb uf' = bpb uf \<and> cache_size uf' = cache_size uf \<and> alloc_ptr uf' = alloc_ptr uf \<and>
     (\<forall>x < nblocks. \<not> is_mirror (bpb uf) x \<longrightarrow> view uf' x = V x) \<and> (fats_equal uf \<longrightarrow> fats_equal uf')"

lemma storedD:
  assumes "stored uf V uf'"
  shows "cache_ok uf'" "bpb uf' = bpb uf" "cache_size uf' = cache_size uf" "alloc_ptr uf' = alloc_ptr uf"
    "x < nblocks \<Longrightarrow> \<not> is_mirror (bpb uf) x \<Longrightarrow> view uf' x = V x" "fats_equal uf \<Longrightarrow> fats_equal uf'"
  using assms unfolding stored_def by blast+

lemma keeps_stored: "keeps uf uf' \<longleftrightarrow> stored uf (view uf) uf'"
  by (simp add: keeps_def stored_def)

lemma written_stored: "written uf b bs uf' \<longleftrightarrow> stored uf ((view uf)(b := bs)) uf'"
  by (simp add: written_def stored_def)

lemma stored_trans: "keeps uf uf1 \<Longrightarrow> stored uf1 V uf2 \<Longrightarrow> stored uf V uf2"
  by (simp add: keeps_def stored_def)

lemma stored_cong:
  "stored uf V uf' \<Longrightarrow> (\<And>x. x < nblocks \<Longrightarrow> \<not> is_mirror (bpb uf) x \<Longrightarrow> V x = W x) \<Longrightarrow> stored uf W uf'"
  by (simp add: stored_def)

lemma stored_keeps: "stored uf V uf1 \<Longrightarrow> keeps uf1 uf2 \<Longrightarrow> stored uf V uf2"
  by (simp add: keeps_def stored_def)

text \<open>A slot that is marked stays so when it is stored to.\<close>

lemma slot_store_more:
  assumes c: "cache_ok uf" and i: "i < cache_size uf" and d: "slot_dirty uf i" and b: "slot_blk uf i = b" "slot_data uf i = view uf b"
    and bn: "b < nblocks" "\<not> is_mirror (bpb uf) b" and x: "r + length xs \<le> bsize"
  obtains uf' where "slot_store uf i r xs = Inr uf'" "stored uf ((view uf)(b := mem_splice r xs (view uf b))) uf'"
    "i < cache_size uf'" "slot_dirty uf' i" "slot_blk uf' i = b" "slot_data uf' i = view uf' b"
proof -
  obtain uf' where s: "slot_store uf i r xs = Inr uf'" "written uf (slot_blk uf i) (mem_splice r xs (slot_data uf i)) uf'"
    by (rule slot_store_ok [OF c i d x])
  have st: "stored uf ((view uf)(b := mem_splice r xs (view uf b))) uf'" using s(2) unfolding written_stored b .
  obtain m where u: "uf' = uf\<lparr>cache_data := m\<rparr>" using s(1) by (auto simp: slot_store_def rbind_def split: sum.splits)
  have f: "slot_dirty uf' i" "slot_blk uf' i = b" using d b(1) unfolding u
    by (simp_all add: slot_dirty_def slot_present_def slot_flags_def slot_blk_def)
  have i': "i < cache_size uf'" using i storedD(3) [OF st] by simp
  have "slot_present uf' i" using f(1) by (simp add: slot_dirty_def)
  then have "slot_data uf' i = view uf' b" using view_present [OF storedD(1) [OF st] i'] unfolding f(2) by simp
  then show thesis using that s(1) st i' f by blast
qed

lemma open_for_write:
  assumes c: "cache_ok uf" and b: "unat blk < nblocks" "\<not> is_mirror (bpb uf) (unat blk)"
  obtains i uf1 uf2 where "ufat_cache_open uf blk False = Inr (int i, uf1)" "keeps uf uf1" "ufat_cache_write uf1 i = Inr uf2"
    "keeps uf uf2" "i < cache_size uf2" "slot_dirty uf2 i" "slot_blk uf2 i = unat blk" "slot_data uf2 i = view uf2 (unat blk)"
proof -
  obtain i u1 where o1: "ufat_cache_open uf blk False = Inr (int i, u1)" "i < cache_size u1" "slot_present u1 i"
      "slot_blk u1 i = unat blk" "slot_data u1 i = view uf (unat blk)" "keeps uf u1"
    by (rule cache_open_ok [OF assms])
  note K1 = keeps_facts [OF o1(6)]
  obtain u2 where w: "ufat_cache_write u1 i = Inr u2" "keeps u1 u2" "slot_dirty u2 i" "slot_blk u2 i = slot_blk u1 i"
      "slot_data u2 i = slot_data u1 i"
    by (rule cache_write_ok [OF K1(1) o1(2,3)])
  note k2 = keeps_trans [OF o1(6) w(2)]
  have "slot_data u2 i = view u2 (unat blk)" using w(5) o1(5) keeps_facts(5) [OF k2 b] by simp
  moreover have "i < cache_size u2" using o1(2) keeps_facts(3) [OF w(2)] by simp
  ultimately show thesis using that o1(1,4,6) w(1,3,4) k2 by simp
qed

text \<open>Dropping what the cache holds of a range.\<close>

lemma dropped_forgets:
  assumes c: "cache_ok uf" and i: "i < cache_size uf" and nf: "\<not> in_fat (bpb uf) (slot_blk uf i)"
  shows "cache_ok (dropped uf i)" "x \<noteq> slot_blk uf i \<Longrightarrow> view (dropped uf i) x = view uf x" "fats_equal uf \<Longrightarrow> fats_equal (dropped uf i)"
    "bpb (dropped uf i) = bpb uf" "cache_size (dropped uf i) = cache_size uf" "alloc_ptr (dropped uf i) = alloc_ptr uf"
proof -
  note D = cache_okD [OF c]
  have l: "i < length (cache_desc uf)" using i D by linarith
  note S = dropped_slots [OF l]
  have same: "dev (dropped uf i) = dev uf" "bpb (dropped uf i) = bpb uf" "cache_size (dropped uf i) = cache_size uf"
    "alloc_ptr (dropped uf i) = alloc_ptr uf" "disk (dropped uf i) = disk uf" "length (cache_desc (dropped uf i)) = length (cache_desc uf)"
    "cache_data (dropped uf i) = cache_data uf" "block_bytes (dropped uf i) = block_bytes uf"
    by (simp_all add: dropped_def block_bytes_def)
  show "bpb (dropped uf i) = bpb uf" "cache_size (dropped uf i) = cache_size uf" "alloc_ptr (dropped uf i) = alloc_ptr uf" by (fact same)+
  show ok: "cache_ok (dropped uf i)" unfolding cache_ok_def same S using c by (auto simp: cache_ok_def)
  show "view (dropped uf i) x = view uf x" if x: "x \<noteq> slot_blk uf i"
  proof (cases "\<exists>j < cache_size uf. slot_present uf j \<and> slot_blk uf j = x")
    case True
    then obtain j where j: "j < cache_size uf" "slot_present uf j" "slot_blk uf j = x" by blast
    then have p: "slot_present (dropped uf i) j" "j < cache_size (dropped uf i)" using x S(4) same(3) by auto
    have "view (dropped uf i) x = slot_data uf j"
      using view_present [OF ok p(2,1)] unfolding S(2,3) j(3) .
    moreover have "view uf x = slot_data uf j" using view_present [OF c j(1,2)] unfolding j(3) .
    ultimately show ?thesis by simp
  next
    case False
    then have "view uf x = blocks (disk uf) x" by (intro view_absent) blast
    moreover have "view (dropped uf i) x = blocks (disk (dropped uf i)) x"
      using False S(2,4) same(3) by (intro view_absent) auto
    ultimately show ?thesis using same(5) by simp
  qed
  show "fats_equal (dropped uf i)" if f: "fats_equal uf"
    unfolding fats_equal_def same S
  proof (intro allI impI)
    fix b m
    assume m: "mirrors (bpb uf) b m" and nd: "\<forall>j < cache_size uf. j \<noteq> i \<and> slot_dirty uf j \<longrightarrow> slot_blk uf j \<noteq> b"
    have "slot_blk uf i \<noteq> b" using m nf by (auto simp: mirrors_def)
    then have "\<forall>j < cache_size uf. slot_dirty uf j \<longrightarrow> slot_blk uf j \<noteq> b" using nd by blast
    then show "blocks (disk uf) m = blocks (disk uf) b" using f m by (simp add: fats_equal_def)
  qed
qed

text \<open>The state while slots are dropped: what is seen outside the range is as it was.\<close>

definition forgets :: "u64 \<Rightarrow> u64 \<Rightarrow> 'd ufat \<Rightarrow> 'd ufat \<Rightarrow> bool" where
  "forgets b r uf uf' \<longleftrightarrow> cache_ok uf' \<and> bpb uf' = bpb uf \<and> cache_size uf' = cache_size uf \<and> alloc_ptr uf' = alloc_ptr uf \<and>
     (\<forall>x. x < unat b \<or> unat b + unat r \<le> x \<longrightarrow> view uf' x = view uf x) \<and> (fats_equal uf \<longrightarrow> fats_equal uf')"

lemma in_range_unat: "unat b + unat r < 2 ^ 64 \<Longrightarrow>
    in_range b r d \<longleftrightarrow> unat b \<le> unat (cache_index d) \<and> unat (cache_index d) < unat b + unat r"
  using unat_add_index [of b r] by (simp add: in_range_def word_le_nat_alt word_less_nat_alt)

lemma invalidate_loop_ok:
  "cache_ok uf \<Longrightarrow> i + k = cache_size uf \<Longrightarrow> unat b + unat r < 2 ^ 64 \<Longrightarrow>
    \<forall>x. unat b \<le> x \<and> x < unat b + unat r \<longrightarrow> \<not> in_fat (bpb uf) x \<Longrightarrow>
    \<exists>uf'. invalidate_loop k i b r uf = Inr uf' \<and> forgets b r uf uf' \<and> (\<forall>j < i. cache_desc uf' ! j = cache_desc uf ! j) \<and>
      (\<forall>j. i \<le> j \<longrightarrow> j < cache_size uf \<longrightarrow> slot_present uf' j \<longrightarrow> \<not> in_range b r (cache_desc uf' ! j))"
proof (induction k arbitrary: i uf)
  case 0
  then show ?case by (intro exI [of _ uf]) (simp add: forgets_def)
next
  case (Suc k)
  have i: "i < cache_size uf" using Suc.prems(2) by simp
  have g: "aget (cache_desc uf) (int i) = Inr (cache_desc uf ! i)"
    using i cache_okD [OF Suc.prems(1)] by (simp add: aget_def)
  let ?hit = "slot_present uf i \<and> in_range b r (cache_desc uf ! i)"
  define u1 where "u1 = (if ?hit then dropped uf i else uf)"
  have l: "i < length (cache_desc uf)" using i cache_okD [OF Suc.prems(1)] by linarith
  have sb: "slot_blk uf i = unat (cache_index (cache_desc uf ! i))" by (simp add: slot_blk_def)
  have f1: "forgets b r uf u1"
  proof (cases ?hit)
    case True
    then have ri: "unat b \<le> slot_blk uf i" "slot_blk uf i < unat b + unat r"
      using in_range_unat [OF Suc.prems(3)] unfolding sb by blast+
    then have "\<not> in_fat (bpb uf) (slot_blk uf i)" using Suc.prems(4) by blast
    note D = dropped_forgets [OF Suc.prems(1) i this]
    have "u1 = dropped uf i" using True by (simp add: u1_def)
    moreover have "view (dropped uf i) x = view uf x" if "x < unat b \<or> unat b + unat r \<le> x" for x
      using that ri by (intro D(2)) linarith
    ultimately show ?thesis using D(1,3-6) by (simp add: forgets_def)
  next
    case False
    then have "u1 = uf" by (auto simp: u1_def)
    then show ?thesis using Suc.prems(1) by (simp add: forgets_def)
  qed
  note F = f1 [unfolded forgets_def]
  have n: "slot_present u1 i \<longrightarrow> \<not> in_range b r (cache_desc u1 ! i)"
    using dropped_slots(4) [OF l, of i] by (auto simp: u1_def)
  have d1: "\<forall>j < i. cache_desc u1 ! j = cache_desc uf ! j" by (simp add: u1_def dropped_def)
  have sd: "set_desc uf i (\<lambda>d. d\<lparr>cache_flags := 0\<rparr>) = Inr (dropped uf i)" using l by (simp add: set_desc_ok dropped_def)
  have e: "invalidate_loop (Suc k) i b r uf = invalidate_loop k (Suc i) b r u1"
    using g sd by (simp add: u1_def slot_present_def slot_flags_def in_range_def)
  have p: "Suc i + k = cache_size u1" "\<forall>x. unat b \<le> x \<and> x < unat b + unat r \<longrightarrow> \<not> in_fat (bpb u1) x"
    using Suc.prems(2,4) F by simp_all
  obtain uf' where q: "invalidate_loop k (Suc i) b r u1 = Inr uf'" "forgets b r u1 uf'"
      "\<forall>j < Suc i. cache_desc uf' ! j = cache_desc u1 ! j"
      "\<forall>j. Suc i \<le> j \<longrightarrow> j < cache_size u1 \<longrightarrow> slot_present uf' j \<longrightarrow> \<not> in_range b r (cache_desc uf' ! j)"
    using Suc.IH [OF _ p(1) Suc.prems(3) p(2)] F by blast
  have "slot_present uf' i = slot_present u1 i" using q(3) by (simp add: slot_present_def slot_flags_def)
  then have "slot_present uf' j \<longrightarrow> \<not> in_range b r (cache_desc uf' ! j)" if "i \<le> j" "j < cache_size uf" for j
    using that q(3,4) n F by (cases "j = i") auto
  moreover have "\<forall>j < i. cache_desc uf' ! j = cache_desc uf ! j" using q(3) d1 by simp
  moreover have "forgets b r uf uf'" using F q(2) unfolding forgets_def by simp
  ultimately show ?case using q(1) e by (intro exI [of _ uf']) simp
qed

lemma write_past_cache:
  assumes c: "cache_ok uf" and b: "unat b + unat r \<le> nblocks" and l: "length bs = unat r * bsize"
    and m: "\<forall>x. unat b \<le> x \<and> x < unat b + unat r \<longrightarrow> \<not> in_fat (bpb uf) x \<and> \<not> is_mirror (bpb uf) x"
  obtains uf' where "ufat_cache_invalidate uf b r = Inr uf'"
    "\<And>st. \<exists>d. dev_write (dev uf') b r bs (disk uf') = (0, d) \<and>
       stored uf (\<lambda>x. if unat b \<le> x \<and> x < unat b + unat r then mem_slice ((x - unat b) * bsize) bsize bs else view uf x)
         (uf'\<lparr>disk := d, ufat_stat := st\<rparr>)"
proof -
  have nb: "unat b + unat r < 2 ^ 64" using b cache_okD(3) [OF c] by (simp add: geometry_ok_def)
  have nf: "\<forall>x. unat b \<le> x \<and> x < unat b + unat r \<longrightarrow> \<not> in_fat (bpb uf) x" using m by blast
  obtain uf' where e: "invalidate_loop (cache_size uf) 0 b r uf = Inr uf'" "forgets b r uf uf'"
      "\<forall>j. 0 \<le> j \<longrightarrow> j < cache_size uf \<longrightarrow> slot_present uf' j \<longrightarrow> \<not> in_range b r (cache_desc uf' ! j)"
    using invalidate_loop_ok [OF c _ nb nf, of 0 "cache_size uf"] by auto
  note F = e(2) [unfolded forgets_def]
  note D = cache_okD [OF conjunct1 [OF F]]
  have out: "slot_blk uf' j < unat b \<or> unat b + unat r \<le> slot_blk uf' j" if "j < cache_size uf'" "slot_present uf' j" for j
    using e(3) that F in_range_unat [OF nb, of "cache_desc uf' ! j"] by (auto simp: slot_blk_def)
  obtain d where d: "dev_write device b r bs (disk uf') = (0, d)" "good d"
      "\<forall>k < nblocks. blocks d k = (if unat b \<le> k \<and> k < unat b + unat r then mem_slice ((k - unat b) * bsize) bsize bs
        else blocks (disk uf') k)"
    using write_blocks_law [OF D(2) b l] by blast
  have "stored uf (\<lambda>x. if unat b \<le> x \<and> x < unat b + unat r then mem_slice ((x - unat b) * bsize) bsize bs else view uf x)
      (uf'\<lparr>disk := d, ufat_stat := st\<rparr>)" for st
  proof -
    let ?u = "uf'\<lparr>disk := d, ufat_stat := st\<rparr>"
    have s: "slot_flags ?u = slot_flags uf'" "slot_blk ?u = slot_blk uf'" "slot_data ?u = slot_data uf'"
      "slot_present ?u = slot_present uf'" "slot_dirty ?u = slot_dirty uf'" "block_bytes ?u = block_bytes uf'"
      by (simp_all add: fun_eq_iff slot_flags_def slot_blk_def slot_data_def slot_present_def slot_dirty_def
          ufat_cache_data_def block_bytes_def)
    have same: "blocks d x = blocks (disk uf') x" if "x < nblocks" "x < unat b \<or> unat b + unat r \<le> x" for x
      using d(3) that by auto
    have "slot_present uf' i \<Longrightarrow> i < cache_size uf' \<Longrightarrow> blocks d (slot_blk uf' i) = blocks (disk uf') (slot_blk uf' i)" for i
      using same out cache_ok_slot(2) [OF conjunct1 [OF F]] by blast
    then have ok: "cache_ok ?u" using conjunct1 [OF F] d(2) unfolding cache_ok_def s by simp
    have so: "slot_of ?u = slot_of uf'" by (simp add: fun_eq_iff slot_of_def s)
    have "view ?u x = (if unat b \<le> x \<and> x < unat b + unat r then mem_slice ((x - unat b) * bsize) bsize bs else view uf x)"
      if x: "x < nblocks" for x
    proof (cases "unat b \<le> x \<and> x < unat b + unat r")
      case True
      then have "slot_of uf' x = None" using out slot_of_None [of uf' x] by fastforce
      then show ?thesis using True d(3) x by (simp add: view_def so)
    next
      case False
      then have o: "x < unat b \<or> unat b + unat r \<le> x" by linarith
      then have "view ?u x = view uf' x" using same [OF x o] by (simp add: view_def so s split: option.splits)
      then show ?thesis using F o False by auto
    qed
    moreover have "fats_equal ?u" if f: "fats_equal uf"
      unfolding fats_equal_def s
    proof (intro allI impI)
      fix x y
      assume xy: "mirrors (bpb ?u) x y" and nd: "\<forall>i < cache_size ?u. slot_dirty uf' i \<longrightarrow> slot_blk uf' i \<noteq> x"
      have xy': "mirrors (bpb uf) x y" using xy F by simp
      then have "in_fat (bpb uf) x" "is_mirror (bpb uf) y" by (auto simp: mirrors_def is_mirror_def)
      then have "\<not> (unat b \<le> x \<and> x < unat b + unat r)" "\<not> (unat b \<le> y \<and> y < unat b + unat r)" using m by blast+
      then have o: "x < unat b \<or> unat b + unat r \<le> x" "y < unat b \<or> unat b + unat r \<le> y" by linarith+
      have g: "geometry_ok nblocks (bpb uf)" using cache_okD(3) [OF c] .
      have "y < nblocks" by (rule mirrors_bound [OF g xy'])
      moreover have "x < nblocks" using g xy' by (auto simp: mirrors_def in_fat_def geometry_ok_def)
      moreover have "blocks (disk uf') y = blocks (disk uf') x" using f F xy' nd by (simp add: fats_equal_def)
      ultimately show "blocks (disk ?u) y = blocks (disk ?u) x" using same o by simp
    qed
    ultimately show ?thesis using ok F by (simp add: stored_def)
  qed
  then show thesis using that e(1) d(1) D(1) unfolding ufat_cache_invalidate_def by blast
qed

section \<open>The bytes of a file\<close>

lemma chain_ok_stored:
  assumes c: "chain_ok uf c cs e" and s: "stored uf V uf'" and v: "\<And>x. in_fat (bpb uf) x \<Longrightarrow> V x = view uf x"
  shows "chain_ok uf' c cs e" "\<And>j. j < nclus uf \<Longrightarrow> fat_entry uf' j = fat_entry uf j" "free_set uf' = free_set uf"
proof -
  note C = chain_okD [OF c] and S = storedD [OF s]
  have f: "fat_byte uf' a = fat_byte uf a" if "a < fat_len (bpb uf)" for a
  proof -
    have "a div bsize < unat (fat_size (bpb uf))" using that unfolding fat_len_def by (rule bytes_div)
    then show ?thesis using fat_block [OF C(1)] S(2,5) v by (simp add: fat_byte_def)
  qed
  have e: "fat_entry uf' j = fat_entry uf j" if "j < nclus uf" for j
    unfolding fat_entry_def S(2) using f entry_in_table [OF C(2) that] by (intro entry_of_cong) simp
  then show "\<And>j. j < nclus uf \<Longrightarrow> fat_entry uf' j = fat_entry uf j" by blast
  have "linked (fat_entry uf') c cs e" using C(5) linked_cong [of cs "fat_entry uf'" "fat_entry uf"] e C(6) by blast
  then show "chain_ok uf' c cs e" using C S(1,2) unfolding chain_ok_def by simp
  show "free_set uf' = free_set uf" unfolding free_set_def S(2) using e by (rule free_clusters_cong)
qed

lemma clus_block_disjoint:
  assumes "c < d" "2 \<le> c"
  shows "clus_block p c + 2 ^ unat (log2_blocks_per_cluster p) \<le> clus_block p d"
proof -
  have "(Suc (c - 2)) * 2 ^ unat (log2_blocks_per_cluster p) \<le> (d - 2) * (2::nat) ^ unat (log2_blocks_per_cluster p)"
    using assms by (intro mult_le_mono1) linarith
  then show ?thesis unfolding clus_block_def by simp
qed

lemma distinct_file_blocks: "distinct cs \<Longrightarrow> \<forall>c \<in> set cs. 2 \<le> c \<Longrightarrow> distinct (file_blocks p cs)"
proof (induction cs)
  case (Cons c cs)
  have "b \<notin> set (file_blocks p cs)" if "b \<in> {clus_block p c..<clus_block p c + 2 ^ unat (log2_blocks_per_cluster p)}" for b
  proof
    assume "b \<in> set (file_blocks p cs)"
    then obtain d where d: "d \<in> set cs" "clus_block p d \<le> b" "b < clus_block p d + 2 ^ unat (log2_blocks_per_cluster p)"
      by (auto simp: file_blocks_def)
    have "d \<noteq> c" using d(1) Cons.prems(1) by auto
    then have "c < d \<or> d < c" by linarith
    moreover have "2 \<le> d" "2 \<le> c" using d(1) Cons.prems(2) by simp_all
    ultimately show False using that d(2,3) clus_block_disjoint [of c d p] clus_block_disjoint [of d c p] by fastforce
  qed
  then show ?case using Cons by (auto simp: file_blocks_def)
qed (simp add: file_blocks_def)

lemma concat_splice_chunks:
  assumes x: "\<forall>xs \<in> set xss. length xs = K" and y: "\<forall>xs \<in> set yss. length xs = K"
  shows "concat (mem_splice k yss xss) = mem_splice (k * K) (concat yss) (concat xss)"
proof -
  have "k * K + length (concat yss) = (k + length yss) * K"
    by (simp only: length_concat_equal [OF y] add_mult_distrib)
  then show ?thesis
    unfolding mem_splice_def by (simp only: take_concat_chunks [OF x] drop_concat_chunks [OF x] concat_append)
qed

text \<open>Storing \<open>r\<close> blocks \<open>N\<close> in a row from the file's block \<open>k\<close> on.\<close>

lemma file_bytes_stored:
  assumes c: "chain_ok uf c cs e" and d: "distinct cs" and s: "stored uf V uf'"
    and k: "mem_slice k r (file_blocks (bpb uf) cs) = [B..<B + r]" "k + r \<le> length (file_blocks (bpb uf) cs)"
    and V: "\<And>x. V x = (if B \<le> x \<and> x < B + r then N ! (x - B) else view uf x)"
    and N: "length N = r" "\<forall>xs \<in> set N. length xs = bsize"
  shows "file_bytes uf' cs = mem_splice (k * bsize) (concat N) (file_bytes uf cs)"
proof -
  let ?fb = "file_blocks (bpb uf) cs"
  have dist: "distinct ?fb" using chain_okD(6) [OF c] d by (intro distinct_file_blocks) blast+
  have at: "?fb ! (k + j) = B + j" if "j < r" for j
  proof -
    have "mem_slice k r ?fb ! j = ?fb ! (k + j)" using that k(2) by (intro nth_mem_slice)
    then show ?thesis using that unfolding k(1) by simp
  qed
  have "map (view uf') ?fb = mem_splice k N (map (view uf) ?fb)"
  proof (rule nth_equalityI)
    show "length (map (view uf') ?fb) = length (mem_splice k N (map (view uf) ?fb))" using k(2) N(1) by simp
    fix i
    assume "i < length (map (view uf') ?fb)"
    then have i: "i < length ?fb" by simp
    note B = chain_blocks [OF c nth_mem [OF i]]
    have v: "view uf' (?fb ! i) = V (?fb ! i)" using storedD(5) [OF s] B by blast
    have sp: "mem_splice k N (map (view uf) ?fb) ! i = (if k \<le> i \<and> i < k + r then N ! (i - k) else view uf (?fb ! i))"
      using nth_mem_splice [of k N "map (view uf) ?fb" i] i k(2) N(1) by simp
    have "B \<le> ?fb ! i \<and> ?fb ! i < B + r \<longleftrightarrow> k \<le> i \<and> i < k + r"
    proof
      assume a: "B \<le> ?fb ! i \<and> ?fb ! i < B + r"
      define j where "j = ?fb ! i - B"
      have j: "?fb ! i = B + j" "j < r" using a by (simp_all add: j_def less_diff_conv2)
      have "?fb ! i = ?fb ! (k + j)" using j at by simp
      then have "i = k + j" using nth_eq_iff_index_eq [OF dist i, of "k + j"] j(2) k(2) by simp
      then show "k \<le> i \<and> i < k + r" using j(2) by simp
    next
      assume a: "k \<le> i \<and> i < k + r"
      define j where "j = i - k"
      have "i = k + j" "j < r" using a by (simp_all add: j_def less_diff_conv2)
      then show "B \<le> ?fb ! i \<and> ?fb ! i < B + r" using at by simp
    qed
    moreover have "?fb ! i - B = i - k" if "k \<le> i \<and> i < k + r"
    proof -
      define j where "j = i - k"
      have "i = k + j" "j < r" using that by (simp_all add: j_def less_diff_conv2)
      then show ?thesis using at by simp
    qed
    ultimately have "V (?fb ! i) = (if k \<le> i \<and> i < k + r then N ! (i - k) else view uf (?fb ! i))" unfolding V by simp
    then show "map (view uf') ?fb ! i = mem_splice k N (map (view uf) ?fb) ! i" using v sp i by simp
  qed
  then show ?thesis
    unfolding file_bytes_def storedD(2) [OF s]
    using concat_splice_chunks [OF chain_views [OF c] N(2), of k] by simp
qed

end

end
