(* ===== verification/Fat_Write.thy ===== *)
theory Fat_Write
  imports Fat_Store
begin

text \<open>
  Writing a file: the clusters it gets, the bytes it then has and its entry. \<open>wrote\<close> says what a part of
  \<open>ufat_file_write\<close> does to the volume; the parts compose.
\<close>

lemma mem_splice_twice:
  "p + length a + length b \<le> length m \<Longrightarrow> mem_splice (p + length a) b (mem_splice p a m) = mem_splice p (a @ b) m"
  by (intro nth_equalityI) (auto simp: nth_mem_splice nth_append)

lemma mem_splice_append: "p + length a \<le> length m \<Longrightarrow> mem_splice p a (m @ m') = mem_splice p a m @ m'"
  by (simp add: mem_splice_def)

lemma mem_splice_nil [simp]: "mem_splice p [] m = m"
  by (simp add: mem_splice_def)

lemma file_blocks_append: "file_blocks p (cs @ js) = file_blocks p cs @ file_blocks p js"
  by (simp add: file_blocks_def)

lemma linked_snoc:
  "linked F c cs e \<Longrightarrow> cs \<noteq> [] \<Longrightarrow> distinct cs \<Longrightarrow> j \<notin> set cs \<Longrightarrow> unat d = j \<Longrightarrow>
    linked (F(j := x, last cs := d)) c (cs @ [j]) x"
proof (induction cs arbitrary: c)
  case (Cons k cs)
  show ?case
  proof (cases "cs = []")
    case True
    then show ?thesis using Cons.prems by auto
  next
    case False
    then have "last cs \<noteq> k" using Cons.prems(3) last_in_set [of cs] by auto
    then show ?thesis using Cons.IH [of "F k"] Cons.prems False by auto
  qed
qed simp

context multi_device
begin

lemma file_bytes_append: "file_bytes uf (cs @ js) = file_bytes uf cs @ file_bytes uf js"
  by (simp add: file_bytes_def file_blocks_append)

section \<open>The entry\<close>

abbreviation entry_block :: "'d ufat_file \<Rightarrow> nat" where
  "entry_block f \<equiv> unat (f_dirent_block f)"

text \<open>The block of the entry is outside the table and outside every cluster that belongs to the file or is free.\<close>

definition entry_apart :: "nat list \<Rightarrow> 'd ufat_file \<Rightarrow> bool" where
  "entry_apart cs f \<longleftrightarrow> entry_block f < nblocks \<and> \<not> is_mirror (bpb (f_uf f)) (entry_block f) \<and>
     \<not> in_fat (bpb (f_uf f)) (entry_block f) \<and> file_entry_off f + 32 \<le> bsize \<and>
     (\<forall>c. c \<in> set cs \<or> c \<in> free_set (f_uf f) \<longrightarrow> entry_block f \<notin> set (file_blocks (bpb (f_uf f)) [c]))"

text \<open>The entry on the disk has the start and the size of the file.\<close>

definition entry_says :: "'d ufat_file \<Rightarrow> bool" where
  "entry_says f \<longleftrightarrow> (let d = view (f_uf f) (entry_block f); off = file_entry_off f in
     mem_slice (off + 0x14) 2 d = w16 (ucast (drop_bit 16 (f_start f))) \<and>
     mem_slice (off + 0x1a) 2 d = w16 (ucast (f_start f AND 0xffff)) \<and> mem_slice (off + 0x1c) 4 d = w32 (f_file_size f))"

definition wstate :: "nat list \<Rightarrow> u32 \<Rightarrow> 'd ufat_file \<Rightarrow> bool" where
  "wstate cs e f \<longleftrightarrow> pos_ok cs e f \<and> ptr_ok (f_uf f) \<and> distinct cs \<and> (cs \<noteq> [] \<longrightarrow> e \<noteq> UFAT_CLUSTER_FREE) \<and>
     entry_apart cs f \<and> entry_says f"

lemma wstateD:
  assumes "wstate cs e f"
  shows "pos_ok cs e f" "chain_ok (f_uf f) (f_start f) cs e" "ptr_ok (f_uf f)" "distinct cs" "cs \<noteq> [] \<Longrightarrow> e \<noteq> UFAT_CLUSTER_FREE"
    "entry_apart cs f" "entry_says f"
  using assms pos_chain unfolding wstate_def by blast+

lemma apart_blocks: "entry_apart cs f \<Longrightarrow> set js \<subseteq> set cs \<union> free_set (f_uf f) \<Longrightarrow> entry_block f \<notin> set (file_blocks (bpb (f_uf f)) js)"
  unfolding entry_apart_def by (auto simp: file_blocks_def)

text \<open>The file's clusters are in use.\<close>

lemma linked_used:
  "linked F c cs e \<Longrightarrow> cs \<noteq> [] \<Longrightarrow> \<forall>j \<in> set cs. 2 \<le> j \<Longrightarrow> e \<noteq> UFAT_CLUSTER_FREE \<Longrightarrow> j \<in> set cs \<Longrightarrow> F j \<noteq> UFAT_CLUSTER_FREE"
  using linked_in_use by blast

lemma wstate_used: "wstate cs e f \<Longrightarrow> set cs \<inter> free_set (f_uf f) = {}"
proof -
  assume w: "wstate cs e f"
  note C = chain_okD [OF wstateD(2) [OF w]]
  have "j \<notin> free_set (f_uf f)" if j: "j \<in> set cs" for j
  proof -
    have "cs \<noteq> []" using j by auto
    then have "fat_entry (f_uf f) j \<noteq> UFAT_CLUSTER_FREE"
      using linked_in_use [OF C(5)] C(6) wstateD(5) [OF w] j by blast
    then show ?thesis by (simp add: free_set_def free_clusters_def)
  qed
  then show ?thesis by blast
qed

section \<open>What a write does\<close>

definition wrote_as :: "u32 \<Rightarrow> nat list \<Rightarrow> 'd ufat_file \<Rightarrow> bytes \<Rightarrow> nat list \<Rightarrow> u32 \<Rightarrow> 'd ufat_file \<Rightarrow> bool" where
  "wrote_as z cs f xs cs' e' f' \<longleftrightarrow> wstate cs' e' f' \<and> bpb (f_uf f') = bpb (f_uf f) \<and>
     f_dirent_block f' = f_dirent_block f \<and> f_dirent_pos f' = f_dirent_pos f \<and> f_file_size f' = z \<and>
     unat (f_cur_pos f') = unat (f_cur_pos f) + length xs \<and>
     (\<exists>js. cs' = cs @ js \<and> set js \<subseteq> free_set (f_uf f)) \<and> free_set (f_uf f') = free_set (f_uf f) - set cs' \<and>
     file_bytes (f_uf f') cs' = mem_splice (unat (f_cur_pos f)) xs (file_bytes (f_uf f) cs') \<and>
     (\<forall>b < nblocks. \<not> is_mirror (bpb (f_uf f)) b \<longrightarrow> \<not> in_fat (bpb (f_uf f)) b \<longrightarrow>
        b \<notin> set (file_blocks (bpb (f_uf f)) cs') \<longrightarrow> b \<noteq> entry_block f \<longrightarrow> view (f_uf f') b = view (f_uf f) b) \<and>
     (\<forall>i < bsize. i < file_entry_off f + 0x14 \<or> file_entry_off f + 0x20 \<le> i \<longrightarrow>
        view (f_uf f') (entry_block f) ! i = view (f_uf f) (entry_block f) ! i) \<and>
     (\<forall>j < nclus (f_uf f). j \<notin> set cs' \<longrightarrow> fat_entry (f_uf f') j = fat_entry (f_uf f) j) \<and>
     (fats_equal (f_uf f) \<longrightarrow> fats_equal (f_uf f'))"

abbreviation wrote :: "nat list \<Rightarrow> 'd ufat_file \<Rightarrow> bytes \<Rightarrow> nat list \<Rightarrow> u32 \<Rightarrow> 'd ufat_file \<Rightarrow> bool" where
  "wrote cs f \<equiv> wrote_as (f_file_size f) cs f"

lemma wroteD:
  assumes "wrote_as z cs f xs cs' e' f'"
  shows "wstate cs' e' f'" "bpb (f_uf f') = bpb (f_uf f)" "f_dirent_block f' = f_dirent_block f" "f_dirent_pos f' = f_dirent_pos f"
    "f_file_size f' = z" "unat (f_cur_pos f') = unat (f_cur_pos f) + length xs"
    "\<exists>js. cs' = cs @ js \<and> set js \<subseteq> free_set (f_uf f)" "free_set (f_uf f') = free_set (f_uf f) - set cs'"
    "file_bytes (f_uf f') cs' = mem_splice (unat (f_cur_pos f)) xs (file_bytes (f_uf f) cs')"
    "b < nblocks \<Longrightarrow> \<not> is_mirror (bpb (f_uf f)) b \<Longrightarrow> \<not> in_fat (bpb (f_uf f)) b \<Longrightarrow>
        b \<notin> set (file_blocks (bpb (f_uf f)) cs') \<Longrightarrow> b \<noteq> entry_block f \<Longrightarrow> view (f_uf f') b = view (f_uf f) b"
    "i < bsize \<Longrightarrow> i < file_entry_off f + 0x14 \<or> file_entry_off f + 0x20 \<le> i \<Longrightarrow>
        view (f_uf f') (entry_block f) ! i = view (f_uf f) (entry_block f) ! i"
    "j < nclus (f_uf f) \<Longrightarrow> j \<notin> set cs' \<Longrightarrow> fat_entry (f_uf f') j = fat_entry (f_uf f) j"
    "fats_equal (f_uf f) \<Longrightarrow> fats_equal (f_uf f')"
  using assms unfolding wrote_as_def by blast+

lemma file_entry_off_cong: "f_dirent_pos f' = f_dirent_pos f \<Longrightarrow> file_entry_off f' = file_entry_off f"
  by (simp add: file_entry_off_def)

lemma wrote_refl: "wstate cs e f \<Longrightarrow> wrote cs f [] cs e f"
  using wstate_used unfolding wrote_as_def by auto

lemma length_file_views:
  assumes "cache_ok uf" "\<forall>b \<in> set (file_blocks (bpb uf) cs). b < nblocks"
  shows "length (file_bytes uf cs) = length cs * csize uf"
proof -
  have "\<forall>xs \<in> set (map (view uf) (file_blocks (bpb uf) cs)). length xs = bsize" using assms length_view by auto
  from length_concat_equal [OF this] show ?thesis unfolding file_bytes_def by (simp add: length_file_blocks mult_ac)
qed

lemma wrote_trans:
  assumes c: "cache_ok (f_uf f)" and a: "wrote_as y cs f xs cs1 e1 f1" and b: "wrote_as z cs1 f1 ys cs2 e2 f2" and l: "unat (f_cur_pos f1) \<le> length cs1 * csize (f_uf f)"
    and l2: "unat (f_cur_pos f1) + length ys \<le> length cs2 * csize (f_uf f)"
  shows "wrote_as z cs f (xs @ ys) cs2 e2 f2"
proof -
  note A = wroteD [OF a] and B = wroteD [OF b]
  note o = file_entry_off_cong [OF A(4)]
  obtain js1 where j1: "cs1 = cs @ js1" "set js1 \<subseteq> free_set (f_uf f)" using A(7) by blast
  obtain js2 where j2: "cs2 = cs1 @ js2" "set js2 \<subseteq> free_set (f_uf f1)" using B(7) by blast
  note W1 = wstateD [OF A(1)] and W2 = wstateD [OF B(1)]
  have j2f: "set js2 \<subseteq> free_set (f_uf f)" using j2(2) A(8) by blast
  have fb: "file_bytes (f_uf f1) js2 = file_bytes (f_uf f) js2"
  proof -
    have "view (f_uf f1) x = view (f_uf f) x" if x: "x \<in> set (file_blocks (bpb (f_uf f)) js2)" for x
    proof -
      have x2: "x \<in> set (file_blocks (bpb (f_uf f2)) cs2)" using x unfolding j2(1) file_blocks_append B(2) A(2) by simp
      note X = chain_blocks [OF W2(2) x2, unfolded B(2) A(2)]
      have "distinct (file_blocks (bpb (f_uf f)) cs2)"
        using chain_okD(6) [OF W2(2)] W2(4) by (intro distinct_file_blocks) blast+
      then have "x \<notin> set (file_blocks (bpb (f_uf f)) cs1)" using x unfolding j2(1) file_blocks_append by auto
      moreover have "x \<noteq> entry_block f" using apart_blocks [OF W1(6), of js2] j2(2) x unfolding A(2,3) by auto
      ultimately show ?thesis using X by (intro A(10))
    qed
    then show ?thesis unfolding file_bytes_def A(2) by (intro arg_cong [of _ _ concat] map_cong refl)
  qed
  have bl: "\<forall>b \<in> set (file_blocks (bpb (f_uf f)) cs2). b < nblocks"
    using chain_blocks(1) [OF W2(2)] unfolding B(2) A(2) by blast
  then have "\<forall>b \<in> set (file_blocks (bpb (f_uf f)) cs1). b < nblocks" by (simp add: j2(1) file_blocks_append)
  note L = length_file_views [OF c this] length_file_views [OF c bl]
  have "file_bytes (f_uf f1) cs2 = mem_splice (unat (f_cur_pos f)) xs (file_bytes (f_uf f) cs1) @ file_bytes (f_uf f) js2"
    unfolding j2(1) file_bytes_append A(9) fb ..
  also have "\<dots> = mem_splice (unat (f_cur_pos f)) xs (file_bytes (f_uf f) cs2)"
    unfolding j2(1) file_bytes_append using l A(6) by (intro mem_splice_append [symmetric]) (simp only: L)
  finally have "file_bytes (f_uf f2) cs2 = mem_splice (unat (f_cur_pos f)) (xs @ ys) (file_bytes (f_uf f) cs2)"
    unfolding B(9) A(6) using l2 A(6) by (simp only: mem_splice_twice L)
  moreover have "\<exists>js. cs2 = cs @ js \<and> set js \<subseteq> free_set (f_uf f)"
    using j1 j2(1) j2f by (intro exI [of _ "js1 @ js2"]) simp
  moreover have "free_set (f_uf f2) = free_set (f_uf f) - set cs2" unfolding B(8) A(8) j2(1) by auto
  moreover have "view (f_uf f2) b = view (f_uf f) b"
    if "b < nblocks" "\<not> is_mirror (bpb (f_uf f)) b" "\<not> in_fat (bpb (f_uf f)) b" "b \<notin> set (file_blocks (bpb (f_uf f)) cs2)"
      "b \<noteq> entry_block f" for b
  proof -
    have "b \<notin> set (file_blocks (bpb (f_uf f)) cs1)" using that(4) by (simp add: j2(1) file_blocks_append)
    then show ?thesis using A(10) [of b] B(10) [of b] that unfolding A(2,3) by metis
  qed
  moreover have "fat_entry (f_uf f2) j = fat_entry (f_uf f) j" if "j < nclus (f_uf f)" "j \<notin> set cs2" for j
    using A(12) [of j] B(12) [of j] that unfolding A(2) j2(1) by simp
  moreover have "view (f_uf f2) (entry_block f) ! i = view (f_uf f) (entry_block f) ! i"
    if "i < bsize" "i < file_entry_off f + 0x14 \<or> file_entry_off f + 0x20 \<le> i" for i
    using A(11) [OF that] B(11) [OF that(1)] that(2) unfolding A(3) o by simp
  ultimately show ?thesis
    using A(2-6,13) B(1-6,13) unfolding wrote_as_def by simp
qed

section \<open>Stores into the entry\<close>

lemma entry_store:
  assumes c: "cache_ok (f_uf f)" and b: "entry_block f < nblocks" "\<not> is_mirror (bpb (f_uf f)) (entry_block f)"
    "file_entry_off f + 32 \<le> bsize"
  shows set_size_ok: "\<exists>uf'. set_size f s = Inr (0, f\<lparr>f_uf := uf', f_file_size := s\<rparr>) \<and>
      stored (f_uf f) ((view (f_uf f))(entry_block f := mem_splice (file_entry_off f + 0x1c) (w32 s) (view (f_uf f) (entry_block f)))) uf'"
    and set_start_ok: "\<exists>uf'. set_start f s = Inr (0, f\<lparr>f_uf := uf', f_start := s\<rparr>) \<and>
      stored (f_uf f) ((view (f_uf f))(entry_block f := mem_splice (file_entry_off f + 0x1a) (w16 (ucast (s AND 0xffff)))
        (mem_splice (file_entry_off f + 0x14) (w16 (ucast (drop_bit 16 s))) (view (f_uf f) (entry_block f))))) uf'"
proof -
  let ?b = "entry_block f"
  obtain i u1 u2 where o: "ufat_cache_open (f_uf f) (f_dirent_block f) False = Inr (int i, u1)" "keeps (f_uf f) u1"
      "ufat_cache_write u1 i = Inr u2" "keeps (f_uf f) u2" "i < cache_size u2" "slot_dirty u2 i" "slot_blk u2 i = ?b"
      "slot_data u2 i = view u2 ?b"
    by (rule open_for_write [OF c b(1,2)])
  note K = keeps_facts [OF o(4)]
  have v: "view u2 ?b = view (f_uf f) ?b" by (rule K(5) [OF b(1,2)])
  have m: "\<not> is_mirror (bpb u2) ?b" using b(2) K(2) by simp
  have x: "file_entry_off f + 0x1c + length (w32 s) \<le> bsize" "file_entry_off f + 0x14 + length (w16 (ucast (drop_bit 16 s))) \<le> bsize"
    "file_entry_off f + 0x1a + length (w16 (ucast (s AND 0xffff))) \<le> bsize"
    using b(3) by (simp_all add: w32_def w16_def)
  show "\<exists>uf'. set_size f s = Inr (0, f\<lparr>f_uf := uf', f_file_size := s\<rparr>) \<and>
      stored (f_uf f) ((view (f_uf f))(?b := mem_splice (file_entry_off f + 0x1c) (w32 s) (view (f_uf f) ?b))) uf'"
  proof -
    obtain u3 where u3: "slot_store u2 i (file_entry_off f + 0x1c) (w32 s) = Inr u3"
        "stored u2 ((view u2)(?b := mem_splice (file_entry_off f + 0x1c) (w32 s) (view u2 ?b))) u3"
      by (rule slot_store_more [OF K(1) o(5-8) b(1) m x(1)])
    have "stored (f_uf f) ((view (f_uf f))(?b := mem_splice (file_entry_off f + 0x1c) (w32 s) (view (f_uf f) ?b))) u3"
      by (rule stored_cong [OF stored_trans [OF o(4) u3(2)]]) (use v K(5) in auto)
    then show ?thesis using o(1,3) u3(1) by (intro exI [of _ u3]) (simp add: set_size_def)
  qed
  show "\<exists>uf'. set_start f s = Inr (0, f\<lparr>f_uf := uf', f_start := s\<rparr>) \<and>
      stored (f_uf f) ((view (f_uf f))(?b := mem_splice (file_entry_off f + 0x1a) (w16 (ucast (s AND 0xffff)))
        (mem_splice (file_entry_off f + 0x14) (w16 (ucast (drop_bit 16 s))) (view (f_uf f) ?b)))) uf'"
  proof -
    obtain u3 where u3: "slot_store u2 i (file_entry_off f + 0x14) (w16 (ucast (drop_bit 16 s))) = Inr u3"
        "stored u2 ((view u2)(?b := mem_splice (file_entry_off f + 0x14) (w16 (ucast (drop_bit 16 s))) (view u2 ?b))) u3"
        "i < cache_size u3" "slot_dirty u3 i" "slot_blk u3 i = ?b" "slot_data u3 i = view u3 ?b"
      by (rule slot_store_more [OF K(1) o(5-8) b(1) m x(2)])
    note S = storedD [OF u3(2)]
    have m3: "\<not> is_mirror (bpb u3) ?b" using m S(2) by simp
    obtain u4 where u4: "slot_store u3 i (file_entry_off f + 0x1a) (w16 (ucast (s AND 0xffff))) = Inr u4"
        "stored u3 ((view u3)(?b := mem_splice (file_entry_off f + 0x1a) (w16 (ucast (s AND 0xffff))) (view u3 ?b))) u4"
      by (rule slot_store_more [OF S(1) u3(3-6) b(1) m3 x(3)])
    have s4: "stored (f_uf f) ((view u3)(?b := mem_splice (file_entry_off f + 0x1a) (w16 (ucast (s AND 0xffff))) (view u3 ?b))) u4"
      using storedD [OF u4(2)] S(2-4,6) K(2-4,6) by (simp add: stored_def)
    have "view u3 ?b = mem_splice (file_entry_off f + 0x14) (w16 (ucast (drop_bit 16 s))) (view (f_uf f) ?b)"
      using S(5) [OF b(1) m] v by simp
    then have "stored (f_uf f) ((view (f_uf f))(?b := mem_splice (file_entry_off f + 0x1a) (w16 (ucast (s AND 0xffff)))
        (mem_splice (file_entry_off f + 0x14) (w16 (ucast (drop_bit 16 s))) (view (f_uf f) ?b)))) u4"
      using S(5) K(2,5) by (intro stored_cong [OF s4]) auto
    then show ?thesis using o(1,3) u3(1) u4(1) by (intro exI [of _ u4]) (simp add: set_start_def)
  qed
qed

section \<open>Another cluster\<close>

lemma extend_wrote:
  assumes w: "wstate cs e f" and p: "unat (f_cur_pos f) = length cs * csize (f_uf f)"
    and j: "j \<in> free_set (f_uf f)" "unat d = j"
    and u: "cache_ok u" "bpb u = bpb (f_uf f)" "ptr_ok u" "fats_equal (f_uf f) \<Longrightarrow> fats_equal u"
      "\<And>x. x < nblocks \<Longrightarrow> \<not> is_mirror (bpb (f_uf f)) x \<Longrightarrow> \<not> in_fat (bpb (f_uf f)) x \<Longrightarrow> x \<noteq> entry_block f \<Longrightarrow>
        view u x = view (f_uf f) x"
      "\<And>i. i < bsize \<Longrightarrow> i < file_entry_off f + 0x14 \<or> file_entry_off f + 0x20 \<le> i \<Longrightarrow>
        view u (entry_block f) ! i = view (f_uf f) (entry_block f) ! i"
      "\<And>k. k < nclus (f_uf f) \<Longrightarrow> fat_entry u k = (if cs = [] then (fat_entry (f_uf f))(j := UFAT_CLUSTER_EOC)
        else (fat_entry (f_uf f))(j := UFAT_CLUSTER_EOC, last cs := d)) k"
    and f': "f' = f\<lparr>f_uf := u, f_start := (if cs = [] then d else f_start f), f_cur_cluster := d\<rparr>"
    and says: "entry_says f'"
  shows "wrote cs f [] (cs @ [j]) UFAT_CLUSTER_EOC f'"
proof -
  let ?uf = "f_uf f" and ?F = "fat_entry (f_uf f)"
  let ?G = "if cs = [] then ?F(j := UFAT_CLUSTER_EOC) else ?F(j := UFAT_CLUSTER_EOC, last cs := d)"
  note W = wstateD [OF w] and used = wstate_used [OF w]
  note C = chain_okD [OF W(2)]
  have F: "f_uf f' = u" "f_start f' = (if cs = [] then d else f_start f)" "f_cur_cluster f' = d" "f_cur_pos f' = f_cur_pos f"
    "f_prev_cluster f' = f_prev_cluster f" "f_dirent_block f' = f_dirent_block f" "f_dirent_pos f' = f_dirent_pos f"
    "f_file_size f' = f_file_size f" by (simp_all add: f')
  have jn: "2 \<le> j" "j < nclus ?uf" "j \<notin> set cs" using j(1) used by (auto simp: free_set_def free_clusters_def)
  have fr: "free_set u = free_set ?uf - {j}"
  proof -
    have "fat_entry u k = UFAT_CLUSTER_FREE \<longleftrightarrow> k \<noteq> j \<and> ?F k = UFAT_CLUSTER_FREE" if k: "k < nclus ?uf" "usable (ftype ?uf) k" "2 \<le> k" for k
    proof (cases "cs \<noteq> [] \<and> k = last cs")
      case True
      then have kc: "k \<in> set cs" by auto
      then have "k \<notin> free_set ?uf" using used by blast
      then have "?F k \<noteq> UFAT_CLUSTER_FREE" using k by (simp add: free_set_def free_clusters_def)
      moreover have "fat_entry u k = d" using u(7) [OF k(1)] True by simp
      moreover have "d \<noteq> UFAT_CLUSTER_FREE" using j(2) jn(1) by (auto simp: UFAT_CLUSTER_FREE_def)
      ultimately show ?thesis by blast
    next
      case False
      then show ?thesis using u(7) [OF k(1)] by (auto simp: UFAT_CLUSTER_EOC_def UFAT_CLUSTER_FREE_def)
    qed
    then show ?thesis by (auto simp: free_set_def free_clusters_def u(2))
  qed
  have lk: "linked (fat_entry u) (f_start f') (cs @ [j]) UFAT_CLUSTER_EOC"
  proof -
    have "linked ?G (f_start f') (cs @ [j]) UFAT_CLUSTER_EOC"
    proof (cases "cs = []")
      case True
      then show ?thesis using j(2) F(2) by simp
    next
      case False
      then show ?thesis using linked_snoc [OF C(5) False W(4) jn(3) j(2), of UFAT_CLUSTER_EOC] F(2) by simp
    qed
    moreover have "fat_entry u k = ?G k" if "k \<in> set (cs @ [j])" for k
      using that C(6) jn(2) by (intro u(7)) auto
    ultimately show ?thesis using linked_cong [of "cs @ [j]" "fat_entry u" ?G] by blast
  qed
  have ch: "chain_ok u (f_start f') (cs @ [j]) UFAT_CLUSTER_EOC"
    using lk C(2-4,6) jn(1,2) u(1,2) unfolding chain_ok_def
    by (auto simp: UFAT_CLUSTER_IS_PTR_def UFAT_CLUSTER_EOC_def)
  have K: "0 < csize ?uf" by simp
  have q: "unat (f_cur_pos f) div csize ?uf = length cs" unfolding p using K by (rule div_mult_self_is_m)
  have dj: "of_nat j = d" unfolding j(2) [symmetric] by simp
  have pos: "pos_ok (cs @ [j]) UFAT_CLUSTER_EOC f'"
  proof -
    have "f_prev_cluster f = (if unat (f_cur_pos f) < csize ?uf then 0 else entry_at (cs @ [j]) UFAT_CLUSTER_EOC (length cs - 1))"
    proof (cases "cs = []")
      case True
      then show ?thesis using W(1) p by (simp add: pos_ok_def)
    next
      case False
      then have "length cs - 1 < length cs" by simp
      then have "entry_at (cs @ [j]) UFAT_CLUSTER_EOC (length cs - 1) = entry_at cs e (length cs - 1)"
        by (simp add: entry_at_def nth_append)
      then show ?thesis using W(1) unfolding pos_ok_def q by simp
    qed
    moreover have "d = entry_at (cs @ [j]) UFAT_CLUSTER_EOC (length cs)" using dj by (simp add: entry_at_def)
    moreover have "unat (f_cur_pos f) \<le> length (cs @ [j]) * csize ?uf" unfolding p by (intro mult_le_mono1) simp
    ultimately show ?thesis using ch unfolding pos_ok_def F u(2) q by blast
  qed
  have ap: "entry_apart (cs @ [j]) f'"
    using W(6) j(1) file_entry_off_cong [OF F(7)] unfolding entry_apart_def F u(2) fr by auto
  have blk: "file_bytes u (cs @ [j]) = file_bytes ?uf (cs @ [j])"
  proof -
    have "view u x = view ?uf x" if x: "x \<in> set (file_blocks (bpb ?uf) (cs @ [j]))" for x
    proof -
      note X = chain_blocks [OF ch, unfolded u(2), OF x]
      have "x \<noteq> entry_block f" using apart_blocks [OF W(6), of "cs @ [j]"] j(1) x by auto
      then show ?thesis using X by (intro u(5))
    qed
    then show ?thesis unfolding file_bytes_def u(2) by (intro arg_cong [of _ _ concat] map_cong refl)
  qed
  have en: "fat_entry u k = ?F k" if k: "k < nclus ?uf" "k \<notin> set (cs @ [j])" for k
  proof -
    have "cs \<noteq> [] \<longrightarrow> k \<noteq> last cs" using k(2) by auto
    then show ?thesis using u(7) [OF k(1)] k(2) by simp
  qed
  have ws: "wstate (cs @ [j]) UFAT_CLUSTER_EOC f'"
    using pos ap says u(3) W(4) jn(3) unfolding wstate_def F(1) by (simp add: UFAT_CLUSTER_EOC_def UFAT_CLUSTER_FREE_def)
  have "free_set u = free_set ?uf - set (cs @ [j])" using fr used by auto
  then show ?thesis
    using ws blk en u(2,4-6) j(1) unfolding wrote_as_def F by auto
qed

lemma linked_last: "linked F c cs e \<Longrightarrow> cs \<noteq> [] \<Longrightarrow> unat (entry_at cs e (length cs - 1)) = last cs"
  by (simp add: unat_entry_at last_conv_nth)

lemma entry_says_start:
  assumes s: "entry_says f" and l: "length (view (f_uf f) (entry_block f)) = bsize" "file_entry_off f + 32 \<le> bsize"
    and v: "view u (entry_block f) = mem_splice (file_entry_off f + 0x1a) (w16 (ucast (d AND 0xffff)))
      (mem_splice (file_entry_off f + 0x14) (w16 (ucast (drop_bit 16 d))) (view (f_uf f) (entry_block f)))"
  shows "entry_says (f\<lparr>f_uf := u, f_start := d, f_cur_cluster := c\<rparr>)"
    "i < file_entry_off f + 0x14 \<or> file_entry_off f + 0x20 \<le> i \<Longrightarrow> i < bsize \<Longrightarrow>
      view u (entry_block f) ! i = view (f_uf f) (entry_block f) ! i"
proof -
  let ?o = "file_entry_off f"
  have w: "length (w16 x) = 2" for x by (simp add: w16_def)
  have o: "file_entry_off (f\<lparr>f_uf := u, f_start := d, f_cur_cluster := c\<rparr>) = ?o" by (rule file_entry_off_cong) simp
  note E = s [unfolded entry_says_def Let_def]
  have "mem_slice (?o + 0x14) 2 (view u (entry_block f)) = w16 (ucast (drop_bit 16 d))"
    unfolding v using l by (simp add: mem_slice_splice_disjoint mem_slice_splice_same w)
  moreover have "mem_slice (?o + 0x1a) 2 (view u (entry_block f)) = w16 (ucast (d AND 0xffff))"
    unfolding v using l by (simp add: mem_slice_splice_same w)
  moreover have "mem_slice (?o + 0x1c) 4 (view u (entry_block f)) = w32 (f_file_size f)"
    unfolding v using l E by (simp add: mem_slice_splice_disjoint w)
  ultimately show "entry_says (f\<lparr>f_uf := u, f_start := d, f_cur_cluster := c\<rparr>)"
    unfolding entry_says_def Let_def o by simp
  show "i < ?o + 0x14 \<or> ?o + 0x20 \<le> i \<Longrightarrow> i < bsize \<Longrightarrow> view u (entry_block f) ! i = view (f_uf f) (entry_block f) ! i"
    unfolding v using l by (auto simp: nth_mem_splice w)
qed

lemma ensure_room_ok:
  assumes w: "wstate cs e f" and room: "unat (f_cur_pos f) < length cs * csize (f_uf f) \<or> free_set (f_uf f) \<noteq> {}"
  shows "\<exists>cs' e' f'. ensure_room f = Inr (0, f') \<and> wrote cs f [] cs' e' f' \<and> f_cur_pos f' = f_cur_pos f \<and>
    unat (f_cur_pos f) < length cs' * csize (f_uf f)"
proof (cases "unat (f_cur_pos f) < length cs * csize (f_uf f)")
  case True
  have "ensure_room f = Inr (0, f)"
    using current_block_ok(2) [OF wstateD(1) [OF w] True] by (simp add: ensure_room_def)
  then show ?thesis using True wrote_refl [OF w] by blast
next
  case False
  let ?uf = "f_uf f"
  note W = wstateD [OF w] and used = wstate_used [OF w]
  note C = chain_okD [OF W(2)]
  have p: "unat (f_cur_pos f) = length cs * csize ?uf" using W(1) False by (simp add: pos_ok_def)
  have q: "unat (f_cur_pos f) div csize ?uf = length cs" unfolding p by (rule div_mult_self_is_m) simp
  have cur: "f_cur_cluster f = e" using W(1) unfolding pos_ok_def q by (simp add: entry_at_def)
  note P = W(6) [unfolded entry_apart_def]
  have one: "unat (1::u32) = 1" by simp
  obtain d js u1 where a: "ufat_alloc_chain ?uf 1 = Inr (Inr d, u1)" "length js = 1" "chain_inv ?uf js d u1"
  proof (rule alloc_chain_ok [OF C(1,2) W(3), of 1])
    fix d js u1
    assume "ufat_alloc_chain ?uf 1 = Inr (Inr d, u1)" "length js = unat (1::u32)" "chain_inv ?uf js d u1"
    then show ?thesis using that unfolding one by blast
  next
    assume "card (free_set ?uf) < unat (1::u32)"
    then have "free_set ?uf = {}" by (simp add: free_set_def)
    then show ?thesis using room False by blast
  qed
  then obtain j where js: "js = [j]" by (cases js) auto
  note I = a(3) [unfolded chain_inv_def js]
  have j: "j \<in> free_set ?uf" "unat d = j" "fat_entry u1 j = UFAT_CLUSTER_EOC" using I by auto
  have T1: "table_step ?uf (fat_entry u1) u1" using I by blast
  note S1 = table_stepD [OF T1]
  have e1: "k < nclus ?uf \<Longrightarrow> fat_entry u1 k = ((fat_entry ?uf)(j := UFAT_CLUSTER_EOC)) k" for k using I j(3) by simp
  have t1: "table_ok (bpb u1)" using C(2) S1(2) by simp
  show ?thesis
  proof (cases "cs = []")
    case False
    let ?prev = "entry_at cs e (length cs - 1)"
    have l: "length cs - 1 < length cs" using False by simp
    have "\<not> unat (f_cur_pos f) < csize ?uf" using False p by (cases cs) auto
    then have prev: "f_prev_cluster f = ?prev" using W(1) unfolding pos_ok_def q by simp
    have pp: "UFAT_CLUSTER_IS_PTR ?prev" by (rule chain_ptr [OF W(2) l])
    have pu: "unat ?prev = last cs" by (rule linked_last [OF C(5) False])
    have pn: "unat ?prev < nclus u1" using pu C(6) [OF last_in_set [OF False]] S1(2) by simp
    have sd: "storable (ftype u1) d" using I S1(2) by simp
    obtain u2 where wr: "ufat_write_fat u1 ?prev d = Inr (0, u2)" "table_step u1 ((fat_entry u1)(unat ?prev := d)) u2" "alloc_ptr u2 = alloc_ptr u1"
      by (rule write_fat_step [OF S1(1) t1 pn sd])
    note S2 = table_stepD [OF wr(2)]
    define f' where "f' = f\<lparr>f_uf := u2, f_cur_cluster := d\<rparr>"
    have er: "ensure_room f = Inr (0, f')"
      using C(7) pp [folded prev] a(1) wr(1) [folded prev] unfolding ensure_room_def cur by (simp add: f'_def Let_def)
    have vw: "x < nblocks \<Longrightarrow> \<not> is_mirror (bpb ?uf) x \<Longrightarrow> \<not> in_fat (bpb ?uf) x \<Longrightarrow> view u2 x = view ?uf x" for x
      using S1(2,4) S2(4) by simp
    have vb: "view u2 (entry_block f) = view ?uf (entry_block f)" using P by (intro vw) blast+
    have "entry_says f'" using W(7) file_entry_off_cong [of f' f] vb by (simp add: f'_def entry_says_def Let_def)
    moreover have "ptr_ok u2" using I wr(3) S2(2) by (simp add: ptr_ok_def)
    moreover have "fat_entry u2 k = (if cs = [] then (fat_entry ?uf)(j := UFAT_CLUSTER_EOC)
        else (fat_entry ?uf)(j := UFAT_CLUSTER_EOC, last cs := d)) k" if "k < nclus ?uf" for k
      using S2(5) [of k] e1 [OF that] that S1(2) False unfolding pu by simp
    ultimately have "wrote cs f [] (cs @ [j]) UFAT_CLUSTER_EOC f'"
      using S1(2,6) S2(1,2,6) vw vb False
      by (intro extend_wrote [OF w p j(1,2)]) (simp_all add: f'_def)
    moreover have "unat (f_cur_pos f) < length (cs @ [j]) * csize ?uf" unfolding p by simp
    moreover have "f_cur_pos f' = f_cur_pos f" by (simp add: f'_def)
    ultimately show ?thesis using er by blast
  next
    case True
    have f0: "f_prev_cluster f = 0" using W(1) p True by (simp add: pos_ok_def)
    let ?g = "f\<lparr>f_uf := u1\<rparr>"
    have g: "cache_ok (f_uf ?g)" "entry_block ?g < nblocks" "\<not> is_mirror (bpb (f_uf ?g)) (entry_block ?g)" "file_entry_off ?g + 32 \<le> bsize"
      using S1(1,2) P file_entry_off_cong [of ?g f] by simp_all
    obtain u2 where ss: "set_start ?g d = Inr (0, ?g\<lparr>f_uf := u2, f_start := d\<rparr>)"
        "stored (f_uf ?g) ((view (f_uf ?g))(entry_block ?g := mem_splice (file_entry_off ?g + 0x1a) (w16 (ucast (d AND 0xffff)))
        (mem_splice (file_entry_off ?g + 0x14) (w16 (ucast (drop_bit 16 d))) (view (f_uf ?g) (entry_block ?g))))) u2"
      using set_start_ok [OF g, of d] by blast
    have og: "file_entry_off ?g = file_entry_off f" by (rule file_entry_off_cong) simp
    have s2: "stored u1 ((view u1)(entry_block f := mem_splice (file_entry_off f + 0x1a) (w16 (ucast (d AND 0xffff)))
        (mem_splice (file_entry_off f + 0x14) (w16 (ucast (drop_bit 16 d))) (view u1 (entry_block f))))) u2"
      using ss(2) unfolding og by simp
    note S2 = storedD [OF s2]
    have vb1: "view u1 (entry_block f) = view ?uf (entry_block f)" using P by (intro S1(4)) blast+
    have vb2: "view u2 (entry_block f) = mem_splice (file_entry_off f + 0x1a) (w16 (ucast (d AND 0xffff)))
        (mem_splice (file_entry_off f + 0x14) (w16 (ucast (drop_bit 16 d))) (view ?uf (entry_block f)))"
      using S2(5) [of "entry_block f"] P S1(2) vb1 by simp
    define f' where "f' = f\<lparr>f_uf := u2, f_start := d, f_cur_cluster := d\<rparr>"
    have er: "ensure_room f = Inr (0, f')"
      using C(7) f0 a(1) ss(1) unfolding ensure_room_def cur by (simp add: f'_def not_ptr_free Let_def)
    have ch1: "chain_ok u1 UFAT_CLUSTER_EOC [] UFAT_CLUSTER_EOC"
      using C S1(1,2) unfolding chain_ok_def by (simp add: UFAT_CLUSTER_IS_PTR_def UFAT_CLUSTER_EOC_def)
    have e2: "fat_entry u2 k = fat_entry u1 k" if "k < nclus u1" for k
      by (rule chain_ok_stored(2) [OF ch1 s2 _ that]) (use P S1(2) in auto)
    have vw: "x < nblocks \<Longrightarrow> \<not> is_mirror (bpb ?uf) x \<Longrightarrow> \<not> in_fat (bpb ?uf) x \<Longrightarrow> x \<noteq> entry_block f \<Longrightarrow> view u2 x = view ?uf x" for x
      using S1(2,4) S2(5) by simp
    have lv: "length (view ?uf (entry_block f)) = bsize" using length_view [OF C(1)] P by blast
    have o32: "file_entry_off f + 32 \<le> bsize" using P by blast
    note ES = entry_says_start [OF W(7) lv o32 vb2]
    have "entry_says f'" unfolding f'_def by (rule ES(1))
    moreover have "ptr_ok u2" using I S2(2,4) by (simp add: ptr_ok_def)
    moreover have "fat_entry u2 k = (if cs = [] then (fat_entry ?uf)(j := UFAT_CLUSTER_EOC)
        else (fat_entry ?uf)(j := UFAT_CLUSTER_EOC, last cs := d)) k" if "k < nclus ?uf" for k
      using e2 [of k] e1 [OF that] that S1(2) True by simp
    ultimately have "wrote cs f [] (cs @ [j]) UFAT_CLUSTER_EOC f'"
      using S1(2,6) S2(1,2,6) vw ES(2) True
      by (intro extend_wrote [OF w p j(1,2)]) (simp_all add: f'_def)
    moreover have "unat (f_cur_pos f) < length (cs @ [j]) * csize ?uf" unfolding p by simp
    moreover have "f_cur_pos f' = f_cur_pos f" by (simp add: f'_def)
    ultimately show ?thesis using er by blast
  qed
qed

end

end
