(* ===== verification/Fat_Written.thy ===== *)
theory Fat_Written
  imports Fat_Write
begin

text \<open>The parts of \<open>ufat_file_write\<close> and the whole.\<close>

context multi_device
begin

lemma wrote_cache: "wstate cs e f \<Longrightarrow> cache_ok (f_uf f)"
  using chain_okD(1) wstateD(2) by blast

section \<open>Storing and moving on\<close>

lemma stored_wrote:
  assumes w: "wstate cs e f" and s: "stored (f_uf f) V uf"
    and V: "\<And>x. x \<notin> set (file_blocks (bpb (f_uf f)) cs) \<Longrightarrow> V x = view (f_uf f) x"
    and fb: "file_bytes uf cs = mem_splice (unat (f_cur_pos f)) xs (file_bytes (f_uf f) cs)"
    and n: "unat nb = length xs" "unat (f_cur_pos f) + length xs \<le> length cs * csize (f_uf f)" "unat (f_cur_pos f) + length xs < 2 ^ 32"
  obtains f' where "advance_ptr (f\<lparr>f_uf := uf\<rparr>) nb = Inr (0, f')" "wrote cs f xs cs e f'"
proof -
  let ?g = "f\<lparr>f_uf := uf\<rparr>"
  note W = wstateD [OF w] and S = storedD [OF s] and used = wstate_used [OF w]
  note P = W(6) [unfolded entry_apart_def]
  have nf: "in_fat (bpb (f_uf f)) x \<Longrightarrow> V x = view (f_uf f) x" for x using chain_blocks(2) [OF W(2)] V by blast
  note CS = chain_ok_stored [OF W(2) s nf]
  have pg: "pos_ok cs e ?g" using W(1) CS(1) S(2) by (simp add: pos_ok_def)
  have ng: "unat (f_cur_pos ?g) + unat nb \<le> length cs * csize (f_uf ?g)" "unat (f_cur_pos ?g) + unat nb < 2 ^ 32"
    using n S(2) by simp_all
  obtain f' uf' c d where a: "advance_ptr ?g nb = Inr (0, f')" "pos_ok cs e f'" "keeps (f_uf ?g) uf'"
      "f' = ?g\<lparr>f_uf := uf', f_prev_cluster := c, f_cur_cluster := d, f_cur_pos := f_cur_pos ?g + nb\<rparr>"
      "unat (f_cur_pos ?g + nb) = unat (f_cur_pos ?g) + unat nb"
    by (rule advance_ptr_ok [OF pg ng])
  have k: "keeps uf uf'" using a(3) by simp
  have s': "stored (f_uf f) V uf'" by (rule stored_keeps [OF s k])
  note S' = storedD [OF s'] and CS' = chain_ok_stored [OF W(2) s' nf]
  have F: "f_uf f' = uf'" "f_start f' = f_start f" "f_dirent_block f' = f_dirent_block f" "f_dirent_pos f' = f_dirent_pos f"
    "f_file_size f' = f_file_size f" "unat (f_cur_pos f') = unat (f_cur_pos f) + length xs"
    using a(4,5) n(1) by simp_all
  note o = file_entry_off_cong [OF F(4)]
  have "entry_block f \<notin> set (file_blocks (bpb (f_uf f)) cs)" by (rule apart_blocks [OF W(6)]) simp
  then have vb: "view uf' (entry_block f) = view (f_uf f) (entry_block f)" using S'(5) [of "entry_block f"] V P by simp
  have "entry_apart cs f'" using W(6) CS'(3) S'(2) unfolding entry_apart_def F o by simp
  moreover have "entry_says f'" using W(7) vb unfolding entry_says_def F o by simp
  moreover have "ptr_ok uf'" using W(3) S'(2,4) by (simp add: ptr_ok_def)
  ultimately have "wstate cs e f'" using a(2) W(4,5) unfolding wstate_def F(1) by blast
  moreover have "file_bytes uf' cs = mem_splice (unat (f_cur_pos f)) xs (file_bytes (f_uf f) cs)"
    using file_bytes_keeps [OF CS(1) k] fb by simp
  moreover have "free_set uf' = free_set (f_uf f) - set cs" using CS'(3) used by auto
  moreover have "view uf' b = view (f_uf f) b"
    if "b < nblocks" "\<not> is_mirror (bpb (f_uf f)) b" "b \<notin> set (file_blocks (bpb (f_uf f)) cs)" for b
    using S'(5) [OF that(1,2)] V [OF that(3)] by simp
  ultimately have "wrote cs f xs cs e f'"
    using S'(2,6) CS'(2) vb unfolding wrote_as_def F by simp
  then show thesis using that a(1) by blast
qed

section \<open>A part of a block\<close>

lemma fragment_stored:
  assumes w: "wstate cs e f" and l: "unat (f_cur_pos f) < length cs * csize (f_uf f)"
    and x: "unat (f_cur_pos f) mod bsize + length xs \<le> bsize"
    and s: "stored (f_uf f) ((view (f_uf f))(unat (current_block f) := mem_splice (unat (f_cur_pos f) mod bsize) xs
      (view (f_uf f) (unat (current_block f))))) uf"
  shows "file_bytes uf cs = mem_splice (unat (f_cur_pos f)) xs (file_bytes (f_uf f) cs)"
    "unat (current_block f) \<in> set (file_blocks (bpb (f_uf f)) cs)"
proof -
  let ?uf = "f_uf f" and ?p = "unat (f_cur_pos f)" and ?B = "unat (current_block f)"
  note W = wstateD [OF w]
  note B = current_block_ok [OF W(1) l]
  have pl: "?p div bsize < length (file_blocks (bpb ?uf) cs)" using B(1) by (simp add: length_file_blocks div_less_iff_less_mult)
  then show "?B \<in> set (file_blocks (bpb ?uf) cs)" unfolding B(3) by (rule nth_mem)
  let ?N = "[mem_splice (?p mod bsize) xs (view ?uf ?B)]"
  have lv: "length (view ?uf ?B) = bsize" using chain_blocks(1) [OF W(2) nth_mem [OF pl]] length_view chain_okD(1) [OF W(2)] unfolding B(3) by blast
  have "mem_slice (?p div bsize) 1 (file_blocks (bpb ?uf) cs) = [?B..<?B + 1]" using slice_one [OF pl] B(3) by simp
  then have "file_bytes uf cs = mem_splice (?p div bsize * bsize) (concat ?N) (file_bytes ?uf cs)"
    using pl lv x by (intro file_bytes_stored [OF W(2,4) s]) auto
  also have "\<dots> = mem_splice (?p div bsize * bsize + ?p mod bsize) xs (file_bytes ?uf cs)"
  proof -
    have "mem_slice 0 bsize (view ?uf ?B) = mem_slice (?p div bsize * bsize) bsize (file_bytes ?uf cs)"
      using slice_of_block [OF W(2), of "?p div bsize * bsize" bsize] pl unfolding B(3) by simp
    moreover have "mem_slice 0 bsize (view ?uf ?B) = view ?uf ?B" using lv by (simp add: mem_slice_def)
    ultimately have v: "view ?uf ?B = mem_slice (?p div bsize * bsize) bsize (file_bytes ?uf cs)" by simp
    have "Suc (?p div bsize) * bsize \<le> length (file_blocks (bpb ?uf) cs) * bsize" using pl by (intro mult_le_mono1) simp
    then have "?p div bsize * bsize + bsize \<le> length (file_bytes ?uf cs)"
      using length_file_bytes [OF W(2)] by (simp add: length_file_blocks mult_ac)
    then show ?thesis using slice_of_splice [OF x, of "?p div bsize * bsize" "file_bytes ?uf cs"] v by simp
  qed
  finally show "file_bytes uf cs = mem_splice ?p xs (file_bytes ?uf cs)" unfolding div_mult_mod_eq .
qed

lemma room_left:
  assumes "p + s \<le> (n + card F) * K" "0 < m" "m \<le> s" "p \<le> n * (K::nat)"
  shows "p < n * K \<or> F \<noteq> {}"
proof (rule ccontr)
  assume "\<not> (p < n * K \<or> F \<noteq> {})"
  then have "F = {}" "p = n * K" using assms(4) by auto
  then show False using assms(1-3) by simp
qed

lemma write_fragment_ok:
  assumes w: "wstate cs e f" and r: "unat (f_cur_pos f) + unat sz \<le> (length cs + card (free_set (f_uf f))) * csize (f_uf f)"
    and s: "unat (f_cur_pos f) + unat sz < 2 ^ 32" and o: "off + unat sz \<le> length buf"
    and m: "m = min (unat sz) (bsize - unat (f_cur_pos f) mod bsize) mod bsize"
  shows "\<exists>cs' e' f'. write_block_fragment f buf off sz = Inr (int m, f') \<and> wrote cs f (mem_slice off m buf) cs' e' f' \<and>
    unat (f_cur_pos f) + m \<le> length cs' * csize (f_uf f)"
proof -
  let ?p = "unat (f_cur_pos f)"
  note W = wstateD [OF w]
  note C = chain_okD [OF W(2)]
  have ms: "m \<le> unat sz" "?p mod bsize + m \<le> bsize" unfolding m by (rule fragment_fits) (rule fragment_fits, simp)
  have lg: "log2_block_size (dev (f_uf f)) = log2_block_size device" "log2_block_size device < 32" using lg_dev [OF C(1)] C(4) by simp_all
  have fm: "unat (fragment_size f sz) = m" unfolding unat_fragment_size [OF lg] m ..
  have pl: "?p \<le> length cs * csize (f_uf f)" using W(1) by (simp add: pos_ok_def)
  show ?thesis
  proof (cases "m = 0")
    case True
    then have "fragment_size f sz = 0" using fm by (simp add: unsigned_eq_0_iff)
    moreover have "mem_slice off m buf = []" using True by (simp add: mem_slice_def)
    ultimately show ?thesis using wrote_refl [OF w] True pl
      by (intro exI [of _ cs] exI [of _ e] exI [of _ f]) (simp add: write_block_fragment_def)
  next
    case False
    then have nz: "fragment_size f sz \<noteq> 0" using fm by (metis unsigned_0)
    have "?p < length cs * csize (f_uf f) \<or> free_set (f_uf f) \<noteq> {}" using False by (intro room_left [OF r _ ms(1) pl]) simp
    from ensure_room_ok [OF w this] obtain cs1 e1 f1 where er: "ensure_room f = Inr (0, f1)" "wrote cs f [] cs1 e1 f1"
        "f_cur_pos f1 = f_cur_pos f" "?p < length cs1 * csize (f_uf f)" by blast
    note R = wroteD [OF er(2)]
    note W1 = wstateD [OF R(1)]
    note C1 = chain_okD [OF W1(2)]
    have l1: "unat (f_cur_pos f1) < length cs1 * csize (f_uf f1)" unfolding er(3) R(2) by (rule er(4))
    note B = current_block_ok [OF W1(1) l1]
    have bp: "unat (f_cur_pos f1) div bsize < length (file_blocks (bpb (f_uf f1)) cs1)"
      using B(1) by (simp add: length_file_blocks div_less_iff_less_mult)
    note V = chain_blocks [OF W1(2) nth_mem [OF bp], folded B(3)]
    obtain i u1 u2 where o1: "ufat_cache_open (f_uf f1) (current_block f1) False = Inr (int i, u1)"
        "ufat_cache_write u1 i = Inr u2" "keeps (f_uf f1) u2" "i < cache_size u2" "slot_dirty u2 i"
        "slot_blk u2 i = unat (current_block f1)" "slot_data u2 i = view u2 (unat (current_block f1))"
      by (rule open_for_write [OF C1(1) V(1,3)]) blast
    note K = keeps_facts [OF o1(3)]
    let ?xs = "mem_slice off m buf"
    have lx: "length ?xs = m" using o ms(1) by (intro length_mem_slice) linarith
    have m2: "\<not> is_mirror (bpb u2) (unat (current_block f1))" using V(3) K(2) by simp
    have x2: "?p mod bsize + length ?xs \<le> bsize" unfolding lx by (rule ms(2))
    obtain u3 where u3: "slot_store u2 i (?p mod bsize) ?xs = Inr u3"
        "stored u2 ((view u2)(unat (current_block f1) := mem_splice (?p mod bsize) ?xs (view u2 (unat (current_block f1))))) u3"
      by (rule slot_store_more [OF K(1) o1(4-7) V(1) m2 x2])
    have s3: "stored (f_uf f1) ((view (f_uf f1))(unat (current_block f1) := mem_splice (unat (f_cur_pos f1) mod bsize) ?xs
        (view (f_uf f1) (unat (current_block f1))))) u3"
      unfolding er(3) by (rule stored_cong [OF stored_trans [OF o1(3) u3(2)]]) (use K(5) V in auto)
    note FS = fragment_stored [OF R(1) l1 _ s3, unfolded er(3), OF x2]
    have inside: "?p + m \<le> length cs1 * csize (f_uf f)"
    proof -
      have "Suc (?p div bsize) * bsize \<le> length (file_blocks (bpb (f_uf f1)) cs1) * bsize" using bp unfolding er(3) by (intro mult_le_mono1) simp
      then have "?p div bsize * bsize + bsize \<le> length cs1 * csize (f_uf f)" by (simp add: length_file_blocks R(2) mult_ac)
      moreover have "?p + m \<le> ?p div bsize * bsize + bsize" using ms(2) div_mult_mod_eq [of ?p bsize] by linarith
      ultimately show ?thesis by linarith
    qed
    have n: "unat (fragment_size f sz) = length ?xs" "unat (f_cur_pos f1) + length ?xs \<le> length cs1 * csize (f_uf f1)"
      "unat (f_cur_pos f1) + length ?xs < 2 ^ 32"
      unfolding lx fm er(3) R(2) using inside s ms(1) by linarith+
    have fb: "file_bytes u3 cs1 = mem_splice (unat (f_cur_pos f1)) ?xs (file_bytes (f_uf f1) cs1)" unfolding er(3) by (rule FS(1))
    obtain f' where f': "advance_ptr (f1\<lparr>f_uf := u3\<rparr>) (fragment_size f sz) = Inr (0, f')" "wrote cs1 f1 ?xs cs1 e1 f'"
      by (rule stored_wrote [OF R(1) s3 _ fb n]) (use FS(2) in auto)
    have ob: "unat (offset_in_block f1) = ?p mod bsize"
      unfolding offset_in_block_def lg_dev [OF C1(1)] unat_and_mask er(3) ..
    have ld: "mem_load buf off m = Inr ?xs" using o ms(1) by (intro mem_load_Inr) linarith
    have "write_block_fragment f buf off sz = Inr (int m, f')"
      using nz er(1) o1(1,2) ld u3(1) f'(1) by (simp add: write_block_fragment_def Let_def fm ob)
    moreover have "wrote cs f ([] @ ?xs) cs1 e1 f'"
    proof -
      have "unat (f_cur_pos f1) \<le> length cs1 * csize (f_uf f)" "unat (f_cur_pos f1) + length ?xs \<le> length cs1 * csize (f_uf f)"
        using inside unfolding er(3) lx by linarith+
      from wrote_trans [OF C(1) er(2) f'(2) this] show ?thesis unfolding R(5) .
    qed
    ultimately show ?thesis using inside by (intro exI [of _ cs1] exI [of _ e1] exI [of _ f']) simp
  qed
qed

section \<open>Whole blocks\<close>

lemma blocks_stored:
  assumes w: "wstate cs e f" and l: "unat (f_cur_pos f) < length cs * csize (f_uf f)" and al: "unat (f_cur_pos f) mod bsize = 0"
    and r: "unat (f_cur_pos f) div bsize mod blocks_per_cluster (f_uf f) + r \<le> blocks_per_cluster (f_uf f)"
    and x: "length xs = r * bsize"
    and s: "stored (f_uf f) (\<lambda>x. if unat (current_block f) \<le> x \<and> x < unat (current_block f) + r
      then mem_slice ((x - unat (current_block f)) * bsize) bsize xs else view (f_uf f) x) uf"
  shows "file_bytes uf cs = mem_splice (unat (f_cur_pos f)) xs (file_bytes (f_uf f) cs)"
    "unat (current_block f) \<le> x \<Longrightarrow> x < unat (current_block f) + r \<Longrightarrow> x \<in> set (file_blocks (bpb (f_uf f)) cs)"
    "unat (f_cur_pos f) + r * bsize \<le> length cs * csize (f_uf f)"
proof -
  let ?uf = "f_uf f" and ?p = "unat (f_cur_pos f)" and ?B = "unat (current_block f)"
  let ?b = "?p div bsize" and ?s = "blocks_per_cluster (f_uf f)"
  note W = wstateD [OF w]
  note B = current_block_ok [OF W(1) l]
  have k: "mem_slice ?b r (file_blocks (bpb ?uf) cs) = [?B..<?B + r]" unfolding B(4) by (rule file_blocks_slice [OF B(1) r])
  have "x \<in> set (file_blocks (bpb ?uf) cs)" if "x \<in> set [?B..<?B + r]" for x
    using that unfolding k [symmetric] mem_slice_def using in_set_takeD in_set_dropD by fast
  then show "?B \<le> x \<Longrightarrow> x < ?B + r \<Longrightarrow> x \<in> set (file_blocks (bpb ?uf) cs)" by simp
  have "Suc (?b div ?s) * ?s \<le> length cs * ?s" using B(1) by (intro mult_le_mono1) simp
  then have kr: "?b + r \<le> length (file_blocks (bpb ?uf) cs)"
    using r div_mult_mod_eq [of ?b ?s] unfolding length_file_blocks mult_Suc by linarith
  let ?N = "map (\<lambda>j. mem_slice (j * bsize) bsize xs) [0..<r]"
  have cN: "concat ?N = xs"
    using chunks_of [of 0 r bsize xs] x by (simp add: mem_slice_def)
  have lN: "\<forall>ys \<in> set ?N. length ys = bsize"
  proof -
    have "length (mem_slice (j * bsize) bsize xs) = bsize" if "j < r" for j
    proof -
      have "Suc j * bsize \<le> r * bsize" using that by (intro mult_le_mono1) simp
      then show ?thesis using x by (intro length_mem_slice) simp
    qed
    then show ?thesis by auto
  qed
  have pb: "?b * bsize = ?p" using al by auto
  have "(if ?B \<le> x \<and> x < ?B + r then mem_slice ((x - ?B) * bsize) bsize xs else view ?uf x) =
      (if ?B \<le> x \<and> x < ?B + r then ?N ! (x - ?B) else view ?uf x)" for x
    by (auto simp: less_diff_conv2)
  then have "file_bytes uf cs = mem_splice (?b * bsize) (concat ?N) (file_bytes ?uf cs)"
    using lN by (intro file_bytes_stored [OF W(2,4) s k kr]) simp_all
  then show "file_bytes uf cs = mem_splice ?p xs (file_bytes ?uf cs)" unfolding cN pb .
  have "(?b + r) * bsize \<le> length (file_blocks (bpb ?uf) cs) * bsize" using kr by (rule mult_le_mono1)
  then show "?p + r * bsize \<le> length cs * csize ?uf" unfolding add_mult_distrib pb length_file_blocks by (simp only: mult_ac)
qed

lemma write_blocks_ok:
  assumes w: "wstate cs e f" and room: "unat (f_cur_pos f) + unat sz \<le> (length cs + card (free_set (f_uf f))) * csize (f_uf f)"
    and s: "unat (f_cur_pos f) + unat sz < 2 ^ 32" and o: "off + unat sz \<le> length buf" and small: "unat sz < 2 ^ 31"
    and al: "unat sz = 0 \<or> unat (f_cur_pos f) mod bsize = 0"
    and m: "m = min (unat sz div bsize) (blocks_per_cluster (f_uf f) - unat (f_cur_pos f) div bsize mod blocks_per_cluster (f_uf f)) * bsize"
  shows "\<exists>cs' e' f'. write_blocks f buf off sz = Inr (int m, f') \<and> wrote cs f (mem_slice off m buf) cs' e' f' \<and>
    unat (f_cur_pos f) + m \<le> length cs' * csize (f_uf f)"
proof -
  let ?p = "unat (f_cur_pos f)" and ?s = "blocks_per_cluster (f_uf f)" and ?lg = "log2_block_size device"
  let ?b = "?p div bsize" and ?r = "min (unat sz div bsize) (?s - ?p div bsize mod ?s)"
  note W = wstateD [OF w]
  note C = chain_okD [OF W(2)]
  have lg: "log2_block_size (dev (f_uf f)) = ?lg" by (rule lg_dev [OF C(1)])
  have "?r * bsize \<le> unat sz div bsize * bsize" by (intro mult_le_mono1) simp
  also have "\<dots> \<le> unat sz" by (rule div_times_less_eq_dividend)
  finally have ms: "m \<le> unat sz" unfolding m .
  have rq: "unat (requested_blocks f sz) = ?r" using unat_requested [OF lg refl] C(4) by simp
  have pl: "?p \<le> length cs * csize (f_uf f)" using W(1) by (simp add: pos_ok_def)
  show ?thesis
  proof (cases "?r = 0")
    case True
    then have "requested_blocks f sz = 0" using rq by (metis unsigned_eq_0_iff)
    moreover have m0: "m = 0" using True m by simp
    moreover have "mem_slice off 0 buf = []" by (simp add: mem_slice_def)
    ultimately show ?thesis using wrote_refl [OF w] pl
      by (intro exI [of _ cs] exI [of _ e] exI [of _ f]) (simp add: write_blocks_def)
  next
    case False
    then have nz: "requested_blocks f sz \<noteq> 0" using rq by (metis unsigned_0)
    have "0 < bsize * ?r" using False by simp
    then have m0: "0 < m" unfolding m by (simp only: mult.commute)
    then have al': "?p mod bsize = 0" using al ms by linarith
    from ensure_room_ok [OF w room_left [OF room m0 ms pl]]
    obtain cs1 e1 f1 where er: "ensure_room f = Inr (0, f1)" "wrote cs f [] cs1 e1 f1"
        "f_cur_pos f1 = f_cur_pos f" "?p < length cs1 * csize (f_uf f)" by blast
    note R = wroteD [OF er(2)]
    note W1 = wstateD [OF R(1)]
    note C1 = chain_okD [OF W1(2)]
    have l1: "unat (f_cur_pos f1) < length cs1 * csize (f_uf f1)" unfolding er(3) R(2) by (rule er(4))
    note B = current_block_ok [OF W1(1) l1]
    have "?r \<le> ?s - ?b mod ?s" "?b mod ?s < ?s" by simp_all
    then have br: "?b mod ?s + ?r \<le> ?s" by linarith
    then have br1: "unat (f_cur_pos f1) div bsize mod blocks_per_cluster (f_uf f1) + ?r \<le> blocks_per_cluster (f_uf f1)"
      unfolding er(3) R(2) .
    note S = slice_of_blocks [OF W1(2) B(1) br1 B(4)]
    have u: "unat (ucast (requested_blocks f sz) :: u64) = ?r" unfolding unat_u32_64 rq ..
    let ?xs = "mem_slice off m buf"
    have lx: "length ?xs = m" using o ms by (intro length_mem_slice) linarith
    have kr1: "unat (current_block f1) + unat (ucast (requested_blocks f sz) :: u64) \<le> nblocks" unfolding u by (rule S(3))
    have kr2: "length ?xs = unat (ucast (requested_blocks f sz) :: u64) * bsize" using lx unfolding u m .
    have nb: "\<forall>x. unat (current_block f1) \<le> x \<and> x < unat (current_block f1) + unat (ucast (requested_blocks f sz) :: u64) \<longrightarrow>
        \<not> in_fat (bpb (f_uf f1)) x \<and> \<not> is_mirror (bpb (f_uf f1)) x"
      unfolding u
    proof (intro allI impI)
      fix x
      assume "unat (current_block f1) \<le> x \<and> x < unat (current_block f1) + ?r"
      then have "x \<in> set [unat (current_block f1)..<unat (current_block f1) + ?r]" by simp
      then have "x \<in> set (mem_slice (unat (f_cur_pos f1) div bsize) ?r (file_blocks (bpb (f_uf f1)) cs1))"
        unfolding B(4) file_blocks_slice [OF B(1) br1] .
      then have "x \<in> set (file_blocks (bpb (f_uf f1)) cs1)" unfolding mem_slice_def using in_set_takeD in_set_dropD by fast
      then show "\<not> in_fat (bpb (f_uf f1)) x \<and> \<not> is_mirror (bpb (f_uf f1)) x" using chain_blocks(2,3) [OF W1(2)] by blast
    qed
    obtain u1 where iv: "ufat_cache_invalidate (f_uf f1) (current_block f1) (ucast (requested_blocks f sz)) = Inr u1"
        "\<And>st. \<exists>d. dev_write (dev u1) (current_block f1) (ucast (requested_blocks f sz)) ?xs (disk u1) = (0, d) \<and>
          stored (f_uf f1) (\<lambda>x. if unat (current_block f1) \<le> x \<and> x < unat (current_block f1) + unat (ucast (requested_blocks f sz) :: u64)
            then mem_slice ((x - unat (current_block f1)) * bsize) bsize ?xs else view (f_uf f1) x) (u1\<lparr>disk := d, ufat_stat := st\<rparr>)"
      by (rule write_past_cache [OF C1(1) kr1 kr2 nb]) blast
    define st where "st = (ufat_stat u1)\<lparr>stat_write := stat_write (ufat_stat u1) + 1,
        stat_write_blocks := stat_write_blocks (ufat_stat u1) + requested_blocks f sz\<rparr>"
    obtain d where d: "dev_write (dev u1) (current_block f1) (ucast (requested_blocks f sz)) ?xs (disk u1) = (0, d)"
        "stored (f_uf f1) (\<lambda>x. if unat (current_block f1) \<le> x \<and> x < unat (current_block f1) + ?r
            then mem_slice ((x - unat (current_block f1)) * bsize) bsize ?xs else view (f_uf f1) x) (u1\<lparr>disk := d, ufat_stat := st\<rparr>)"
      using iv(2) [of st] unfolding u by blast
    have al1: "unat (f_cur_pos f1) mod bsize = 0" unfolding er(3) by (rule al')
    have lx1: "length ?xs = ?r * bsize" using lx unfolding m .
    note BS = blocks_stored [OF R(1) l1 al1 br1 lx1 d(2)]
    have inside: "?p + m \<le> length cs1 * csize (f_uf f)" using BS(3) unfolding er(3) R(2) m .
    have nbu: "unat (push_bit ?lg (requested_blocks f sz)) = m"
    proof -
      have "unat (requested_blocks f sz) * bsize < 2 ^ 32" unfolding rq m [symmetric] using ms s by linarith
      from unat_shift_32 [OF this] show ?thesis unfolding rq m .
    qed
    have sn: "sint (push_bit ?lg (requested_blocks f sz)) = int m"
    proof -
      have "m < 2 ^ 31" using ms small by linarith
      then show ?thesis using nbu by (simp add: sint_small)
    qed
    have n: "unat (push_bit ?lg (requested_blocks f sz)) = length ?xs" "unat (f_cur_pos f1) + length ?xs \<le> length cs1 * csize (f_uf f1)"
      "unat (f_cur_pos f1) + length ?xs < 2 ^ 32"
      unfolding lx nbu er(3) R(2) using inside s ms by linarith+
    obtain f' where f': "advance_ptr (f1\<lparr>f_uf := u1\<lparr>disk := d, ufat_stat := st\<rparr>\<rparr>) (push_bit ?lg (requested_blocks f sz)) = Inr (0, f')"
        "wrote cs1 f1 ?xs cs1 e1 f'"
    proof (rule stored_wrote [OF R(1) d(2) _ BS(1) n])
      fix x
      assume "x \<notin> set (file_blocks (bpb (f_uf f1)) cs1)"
      then show "(if unat (current_block f1) \<le> x \<and> x < unat (current_block f1) + ?r
            then mem_slice ((x - unat (current_block f1)) * bsize) bsize ?xs else view (f_uf f1) x) = view (f_uf f1) x"
        using BS(2) [of x] by auto
    qed blast
    have ld: "mem_load buf off (?r * bsize) = Inr ?xs" using o ms unfolding m [symmetric] by (intro mem_load_Inr) linarith
    have "write_blocks f buf off sz = Inr (int m, f')"
      using nz er(1) iv(1) ld d(1) f'(1) by (simp add: write_blocks_def Let_def lg rq sn st_def)
    moreover have "wrote cs f ([] @ ?xs) cs1 e1 f'"
    proof -
      have "unat (f_cur_pos f1) \<le> length cs1 * csize (f_uf f)" "unat (f_cur_pos f1) + length ?xs \<le> length cs1 * csize (f_uf f)"
        using inside unfolding er(3) lx by linarith+
      from wrote_trans [OF C(1) er(2) f'(2) this] show ?thesis unfolding R(5) .
    qed
    ultimately show ?thesis using inside by (intro exI [of _ cs1] exI [of _ e1] exI [of _ f']) simp
  qed
qed

section \<open>The whole request\<close>

lemma slice_join: "mem_slice off (m + k) xs = mem_slice off m xs @ mem_slice (off + m) k xs"
  unfolding mem_slice_def take_add drop_drop add.commute [of off m] ..

lemma wrote_room:
  assumes w: "wstate cs e f" and a: "wrote cs f xs cs' e' f'"
  shows "length cs' + card (free_set (f_uf f')) = length cs + card (free_set (f_uf f))"
proof -
  note A = wroteD [OF a]
  obtain js where js: "cs' = cs @ js" "set js \<subseteq> free_set (f_uf f)" using A(7) by blast
  have d: "distinct js" using wstateD(4) [OF A(1)] js(1) by simp
  have "free_set (f_uf f') = free_set (f_uf f) - set js" using A(8) wstate_used [OF w] js(1) by auto
  then have "card (free_set (f_uf f')) = card (free_set (f_uf f)) - length js"
    using js(2) d by (simp add: card_Diff_subset distinct_card)
  moreover have "length js \<le> card (free_set (f_uf f))"
    using card_mono [OF _ js(2)] d by (simp add: distinct_card free_set_def)
  ultimately show ?thesis using js(1) by simp
qed

text \<open>A part of a request has been written: what is left of it fits as well.\<close>

lemma wrote_left:
  assumes w: "wstate cs e f" and a: "wrote cs f xs cs' e' f'"
    and r: "unat (f_cur_pos f) + unat sz \<le> (length cs + card (free_set (f_uf f))) * csize (f_uf f)"
      "unat (f_cur_pos f) + unat sz < 2 ^ 32"
    and m: "length xs \<le> unat sz" "unat sz' = unat sz - length xs"
  shows "unat (f_cur_pos f') + unat sz' \<le> (length cs' + card (free_set (f_uf f'))) * csize (f_uf f')"
    "unat (f_cur_pos f') + unat sz' < 2 ^ 32"
  using r m wroteD(6) [OF a] unfolding wrote_room [OF w a] wroteD(2) [OF a] by linarith+

lemma write_loop_ok:
  "wstate cs e f \<Longrightarrow> unat (f_cur_pos f) + unat sz \<le> (length cs + card (free_set (f_uf f))) * csize (f_uf f) \<Longrightarrow>
    unat (f_cur_pos f) + unat sz < 2 ^ 32 \<Longrightarrow> off + unat sz \<le> length buf \<Longrightarrow> unat sz < 2 ^ 31 \<Longrightarrow>
    unat sz = 0 \<or> unat (f_cur_pos f) mod bsize = 0 \<Longrightarrow> unat sz < n \<Longrightarrow>
    \<exists>m cs' e' f' sz'. write_blocks_loop n f buf off sz = Inr (0, off + m, sz', f') \<and> wrote cs f (mem_slice off m buf) cs' e' f' \<and>
      m + unat sz' = unat sz \<and> unat sz' < bsize \<and> (unat sz' = 0 \<or> unat (f_cur_pos f') mod bsize = 0) \<and>
      unat (f_cur_pos f) + m \<le> length cs' * csize (f_uf f)"
proof (induction n arbitrary: cs e f off sz)
  case (Suc n)
  let ?p = "unat (f_cur_pos f)"
  define m where "m = min (unat sz div bsize) (blocks_per_cluster (f_uf f) - ?p div bsize mod blocks_per_cluster (f_uf f)) * bsize"
  obtain cs1 e1 f1 where r: "write_blocks f buf off sz = Inr (int m, f1)" "wrote cs f (mem_slice off m buf) cs1 e1 f1"
      "?p + m \<le> length cs1 * csize (f_uf f)"
    using write_blocks_ok [OF Suc.prems(1-6) m_def] by blast
  note R = wroteD [OF r(2)]
  note W = wstateD [OF Suc.prems(1)] and W1 = wstateD [OF R(1)]
  have "m \<le> unat sz div bsize * bsize" unfolding m_def by (intro mult_le_mono1) simp
  also have "\<dots> \<le> unat sz" by (rule div_times_less_eq_dividend)
  finally have ms: "m \<le> unat sz" .
  have lx: "length (mem_slice off m buf) = m" using Suc.prems(4) ms by (intro length_mem_slice) linarith
  show ?case
  proof (cases "m = 0")
    case True
    then have "unat sz < bsize" unfolding m_def by (rule no_block_left) simp_all
    moreover have "unat (f_cur_pos f1) = ?p" using R(6) lx True by simp
    ultimately show ?thesis
      using r Suc.prems(6) unfolding True
      by (intro exI [of _ 0] exI [of _ cs1] exI [of _ e1] exI [of _ f1] exI [of _ sz]) simp
  next
    case False
    let ?sz = "sz - word_of_int (int m) :: u32"
    note u = unat_less_nat [OF ms]
    have lxs: "length (mem_slice off m buf) \<le> unat sz" "unat ?sz = unat sz - length (mem_slice off m buf)" using ms u unfolding lx by simp_all
    note L = wrote_left [OF Suc.prems(1) r(2) Suc.prems(2,3) lxs]
    have p1: "unat (f_cur_pos f1) = ?p + m" using R(6) unfolding lx .
    have "m mod bsize = 0" unfolding m_def by simp
    then have al: "unat ?sz = 0 \<or> unat (f_cur_pos f1) mod bsize = 0"
      using Suc.prems(6) False ms unfolding p1 by auto
    have q: "off + m + unat ?sz \<le> length buf" "unat ?sz < 2 ^ 31" "unat ?sz < n"
      using Suc.prems(4,5,7) ms False unfolding u by linarith+
    obtain m2 cs2 e2 f2 sz2 where l: "write_blocks_loop n f1 buf (off + m) ?sz = Inr (0, off + m + m2, sz2, f2)"
        "wrote cs1 f1 (mem_slice (off + m) m2 buf) cs2 e2 f2" "m2 + unat sz2 = unat ?sz" "unat sz2 < bsize"
        "unat sz2 = 0 \<or> unat (f_cur_pos f2) mod bsize = 0" "unat (f_cur_pos f1) + m2 \<le> length cs2 * csize (f_uf f1)"
      using Suc.IH [OF R(1) L q(1,2) al q(3)] by (elim exE conjE) (rule that)
    have lx2: "length (mem_slice (off + m) m2 buf) = m2" using q(1) l(3) by (intro length_mem_slice) linarith
    have in1: "unat (f_cur_pos f1) \<le> length cs1 * csize (f_uf f)" using r(3) unfolding p1 .
    have in2: "unat (f_cur_pos f1) + length (mem_slice (off + m) m2 buf) \<le> length cs2 * csize (f_uf f)"
      using l(6) unfolding lx2 R(2) .
    have "wrote cs f (mem_slice off (m + m2) buf) cs2 e2 f2"
      using wrote_trans [OF wrote_cache [OF Suc.prems(1)] r(2) l(2) in1 in2] unfolding slice_join R(5) .
    moreover have "write_blocks_loop (Suc n) f buf off sz = Inr (0, off + (m + m2), sz2, f2)"
      using r(1) l(1) False by (simp add: add.assoc)
    moreover have "m + m2 + unat sz2 = unat sz" using l(3) u ms by linarith
    moreover have "?p + (m + m2) \<le> length cs2 * csize (f_uf f)" using l(6) unfolding p1 R(2) by (simp add: add.assoc)
    ultimately show ?thesis
      using l(4,5) by (intro exI [of _ "m + m2"] exI [of _ cs2] exI [of _ e2] exI [of _ f2] exI [of _ sz2]) simp
  qed
qed simp

lemma write_data_ok:
  assumes w: "wstate cs e f" and r: "unat (f_cur_pos f) + unat sz \<le> (length cs + card (free_set (f_uf f))) * csize (f_uf f)"
    and s: "unat (f_cur_pos f) + unat sz < 2 ^ 32" and o: "unat sz \<le> length buf" and small: "unat sz < 2 ^ 31"
  obtains m1 f1 m2 f2 sz2 cs3 e3 f3 where "write_block_fragment f buf 0 sz = Inr (int m1, f1)"
    "write_blocks_loop (unat sz + 1) f1 buf m1 (sz - word_of_int (int m1)) = Inr (0, m1 + m2, sz2, f2)"
    "write_block_fragment f2 buf (m1 + m2) sz2 = Inr (int (unat sz2), f3)" "wrote cs f (take (unat sz) buf) cs3 e3 f3"
proof -
  let ?p = "unat (f_cur_pos f)"
  define m1 where "m1 = min (unat sz) (bsize - ?p mod bsize) mod bsize"
  have o0: "0 + unat sz \<le> length buf" using o by simp
  obtain cs1 e1 f1 where r1: "write_block_fragment f buf 0 sz = Inr (int m1, f1)" "wrote cs f (mem_slice 0 m1 buf) cs1 e1 f1"
      "?p + m1 \<le> length cs1 * csize (f_uf f)"
    using write_fragment_ok [OF w r s o0 m1_def] by blast
  note R1 = wroteD [OF r1(2)]
  have ms: "m1 \<le> unat sz" unfolding m1_def by (rule fragment_fits)
  have lx1: "length (mem_slice 0 m1 buf) = m1" using o ms by (intro length_mem_slice) linarith
  let ?sz = "sz - word_of_int (int m1) :: u32"
  note u = unat_less_nat [OF ms]
  have ls: "length (mem_slice 0 m1 buf) \<le> unat sz" "unat ?sz = unat sz - length (mem_slice 0 m1 buf)" using ms u unfolding lx1 by simp_all
  note L1 = wrote_left [OF w r1(2) r s ls]
  have p1: "unat (f_cur_pos f1) = ?p + m1" using R1(6) unfolding lx1 .
  have al: "unat ?sz = 0 \<or> unat (f_cur_pos f1) mod bsize = 0" unfolding u p1 using fragment_left [OF m1_def] by simp
  have q: "m1 + unat ?sz \<le> length buf" "unat ?sz < 2 ^ 31" "unat ?sz < unat sz + 1" using o small ms unfolding u by linarith+
  obtain m2 cs2 e2 f2 sz2 where r2: "write_blocks_loop (unat sz + 1) f1 buf m1 ?sz = Inr (0, m1 + m2, sz2, f2)"
      "wrote cs1 f1 (mem_slice m1 m2 buf) cs2 e2 f2" "m2 + unat sz2 = unat ?sz" "unat sz2 < bsize"
      "unat sz2 = 0 \<or> unat (f_cur_pos f2) mod bsize = 0" "unat (f_cur_pos f1) + m2 \<le> length cs2 * csize (f_uf f1)"
    using write_loop_ok [OF R1(1) L1 q(1,2) al q(3)] by (elim exE conjE) (rule that)
  have s2: "m1 + m2 + unat sz2 = unat sz" using r2(3) u ms by linarith
  have lx2: "length (mem_slice m1 m2 buf) = m2" using q(1) r2(3) by (intro length_mem_slice) linarith
  have in1: "unat (f_cur_pos f1) \<le> length cs1 * csize (f_uf f)" using r1(3) unfolding p1 .
  have in2: "unat (f_cur_pos f1) + length (mem_slice m1 m2 buf) \<le> length cs2 * csize (f_uf f)" using r2(6) unfolding lx2 R1(2) .
  have w12: "wrote cs f (mem_slice 0 (m1 + m2) buf) cs2 e2 f2"
    using wrote_trans [OF wrote_cache [OF w] r1(2) r2(2) in1 in2] unfolding slice_join R1(5) add_0 .
  note R12 = wroteD [OF w12]
  have lx12: "length (mem_slice 0 (m1 + m2) buf) = m1 + m2" using o s2 by (intro length_mem_slice) linarith
  have ls2: "length (mem_slice 0 (m1 + m2) buf) \<le> unat sz" "unat sz2 = unat sz - length (mem_slice 0 (m1 + m2) buf)"
    using s2 unfolding lx12 by simp_all
  note L2 = wrote_left [OF w w12 r s ls2]
  have m3: "unat sz2 = min (unat sz2) (bsize - unat (f_cur_pos f2) mod bsize) mod bsize" using r2(4,5) by auto
  have q2: "m1 + m2 + unat sz2 \<le> length buf" using s2 o by linarith
  obtain cs3 e3 f3 where r3: "write_block_fragment f2 buf (m1 + m2) sz2 = Inr (int (unat sz2), f3)"
      "wrote cs2 f2 (mem_slice (m1 + m2) (unat sz2) buf) cs3 e3 f3" "unat (f_cur_pos f2) + unat sz2 \<le> length cs3 * csize (f_uf f2)"
    using write_fragment_ok [OF R12(1) L2 q2 m3] by blast
  have lx3: "length (mem_slice (m1 + m2) (unat sz2) buf) = unat sz2" using q2 by (rule length_mem_slice)
  have in3: "unat (f_cur_pos f2) + length (mem_slice (m1 + m2) (unat sz2) buf) \<le> length cs3 * csize (f_uf f)"
    using r3(3) unfolding lx3 R12(2) .
  have in12: "unat (f_cur_pos f2) \<le> length cs2 * csize (f_uf f)"
    using wstateD(1) [OF R12(1)] unfolding pos_ok_def R12(2) by blast
  have "mem_slice 0 (m1 + m2 + unat sz2) buf = take (unat sz) buf" unfolding s2 by (simp add: mem_slice_def)
  then have "wrote cs f (take (unat sz) buf) cs3 e3 f3"
    using wrote_trans [OF wrote_cache [OF w] w12 r3(2) in12 in3] unfolding slice_join R12(5) by simp
  then show thesis using that r1(1) r2(1) r3(1) by blast
qed

section \<open>The size\<close>

lemma set_size_wrote:
  assumes w: "wstate cs e f"
  obtains f' where "set_size f z = Inr (0, f')" "wrote_as z cs f [] cs e f'"
proof -
  let ?uf = "f_uf f" and ?b = "entry_block f" and ?o = "file_entry_off f"
  note W = wstateD [OF w] and used = wstate_used [OF w]
  note C = chain_okD [OF W(2)]
  note P = W(6) [unfolded entry_apart_def]
  have b: "?b < nblocks" "\<not> is_mirror (bpb ?uf) ?b" "?o + 32 \<le> bsize" using P by blast+
  obtain u where u: "set_size f z = Inr (0, f\<lparr>f_uf := u, f_file_size := z\<rparr>)"
      "stored ?uf ((view ?uf)(?b := mem_splice (?o + 0x1c) (w32 z) (view ?uf ?b))) u"
    using set_size_ok [OF C(1) b] by blast
  note S = storedD [OF u(2)]
  have nf: "in_fat (bpb ?uf) x \<Longrightarrow> ((view ?uf)(?b := mem_splice (?o + 0x1c) (w32 z) (view ?uf ?b))) x = view ?uf x" for x
    using P by auto
  note CS = chain_ok_stored [OF W(2) u(2) nf]
  define f' where "f' = f\<lparr>f_uf := u, f_file_size := z\<rparr>"
  have F: "f_uf f' = u" "f_start f' = f_start f" "f_dirent_block f' = f_dirent_block f" "f_dirent_pos f' = f_dirent_pos f"
    "f_file_size f' = z" "f_cur_pos f' = f_cur_pos f" "f_cur_cluster f' = f_cur_cluster f" "f_prev_cluster f' = f_prev_cluster f"
    by (simp_all add: f'_def)
  note o = file_entry_off_cong [OF F(4)]
  have vb: "view u ?b = mem_splice (?o + 0x1c) (w32 z) (view ?uf ?b)" using S(5) [OF b(1,2)] by simp
  have lv: "length (view ?uf ?b) = bsize" by (rule length_view [OF C(1) b(1)])
  have lw: "length (w32 z) = 4" by (simp add: w32_def w16_def)
  note E = W(7) [unfolded entry_says_def Let_def]
  have "mem_slice (?o + 0x14) 2 (view u ?b) = mem_slice (?o + 0x14) 2 (view ?uf ?b)"
    "mem_slice (?o + 0x1a) 2 (view u ?b) = mem_slice (?o + 0x1a) 2 (view ?uf ?b)" "mem_slice (?o + 0x1c) 4 (view u ?b) = w32 z"
    unfolding vb using lv b(3) by (simp_all add: mem_slice_splice_disjoint mem_slice_splice_same lw)
  then have "entry_says f'" using E unfolding entry_says_def Let_def F o by simp
  moreover have "entry_apart cs f'" using W(6) CS(3) S(2) unfolding entry_apart_def F o by simp
  moreover have "ptr_ok u" using W(3) S(2,4) by (simp add: ptr_ok_def)
  moreover have "pos_ok cs e f'" using W(1) CS(1) S(2) unfolding pos_ok_def F by simp
  ultimately have "wstate cs e f'" using W(4,5) unfolding wstate_def F(1) by blast
  moreover have "file_bytes u cs = file_bytes ?uf cs"
  proof -
    have "view u x = view ?uf x" if x: "x \<in> set (file_blocks (bpb ?uf) cs)" for x
    proof -
      have "?b \<notin> set (file_blocks (bpb ?uf) cs)" by (rule apart_blocks [OF W(6)]) simp
      then have "x \<noteq> ?b" using x by auto
      then show ?thesis using S(5) chain_blocks [OF W(2) x] by simp
    qed
    then show ?thesis unfolding file_bytes_def S(2) by (intro arg_cong [of _ _ concat] map_cong refl)
  qed
  moreover have "free_set u = free_set ?uf - set cs" using CS(3) used by auto
  moreover have "view u ?b ! i = view ?uf ?b ! i" if "i < bsize" "i < ?o + 0x14 \<or> ?o + 0x20 \<le> i" for i
    unfolding vb using that lv b(3) by (auto simp: nth_mem_splice lw)
  ultimately have "wrote_as z cs f [] cs e f'"
    using S(2,5,6) CS(2) unfolding wrote_as_def F by auto
  then show thesis using that u(1) unfolding f'_def by blast
qed

lemma unat_not_32: "unat (NOT x :: u32) = 2 ^ 32 - 1 - unat x"
proof -
  have "unat (- 1 :: u32) = 2 ^ 32 - 1" by (simp add: unsigned_minus_1_eq_mask mask_eq_exp_minus_1)
  moreover have "unat x < 2 ^ 32" using unsigned_less [of x] by simp
  then have "unat x \<le> unat (- 1 :: u32)" unfolding calculation by linarith
  moreover have "NOT x = - 1 - x" by (simp add: not_eq_complement)
  ultimately show ?thesis using unat_sub_32 by metis
qed

lemma file_write_ok:
  assumes w: "wstate cs e f" and m: "m = min (unat len) (2 ^ 32 - 1 - unat (f_cur_pos f))" "m \<le> length buf" "m < 2 ^ 31"
    and r: "unat (f_cur_pos f) + m \<le> (length cs + card (free_set (f_uf f))) * csize (f_uf f)"
  obtains cs' e' f' z where "ufat_file_write f buf len = Inr (int m, f')" "wrote_as z cs f (take m buf) cs' e' f'"
    "unat z = max (unat (f_file_size f)) (unat (f_cur_pos f) + m)"
proof -
  let ?p = "unat (f_cur_pos f)"
  define t where "t = (if len > NOT (f_cur_pos f) then NOT (f_cur_pos f) else len)"
  have ut: "unat t = m" unfolding t_def unat_min_32 unat_not_32 m ..
  have "?p < 2 ^ 32" using unsigned_less [of "f_cur_pos f"] by simp
  then have pm: "?p + m < 2 ^ 32" using m(1) by linarith
  have a: "?p + unat t \<le> (length cs + card (free_set (f_uf f))) * csize (f_uf f)" "?p + unat t < 2 ^ 32" "unat t \<le> length buf"
    "unat t < 2 ^ 31" unfolding ut using r pm m(2,3) by auto
  obtain m1 f1 m2 f2 sz2 cs3 e3 f3 where d: "write_block_fragment f buf 0 t = Inr (int m1, f1)"
      "write_blocks_loop (unat t + 1) f1 buf m1 (t - word_of_int (int m1)) = Inr (0, m1 + m2, sz2, f2)"
      "write_block_fragment f2 buf (m1 + m2) sz2 = Inr (int (unat sz2), f3)" "wrote cs f (take (unat t) buf) cs3 e3 f3"
    by (rule write_data_ok [OF w a])
  have wm: "wrote cs f (take m buf) cs3 e3 f3" using d(4) unfolding ut .
  note R = wroteD [OF wm]
  have lt: "length (take m buf) = m" using m(2) by simp
  have p3: "unat (f_cur_pos f3) = ?p + m" using R(6) unfolding lt .
  have st: "sint t = int m" using m(3) ut by (simp add: sint_small)
  show thesis
  proof (cases "f_cur_pos f3 > f_file_size f3")
    case False
    then have "ufat_file_write f buf len = Inr (int m, f3)"
      using d(1-3) st by (simp add: ufat_file_write_def t_def [symmetric] Let_def)
    moreover have "unat (f_file_size f) = max (unat (f_file_size f)) (?p + m)"
      using False unfolding R(5) p3 [symmetric] by (simp add: word_less_nat_alt)
    ultimately show thesis using that wm by blast
  next
    case True
    obtain f4 where f4: "set_size f3 (f_cur_pos f3) = Inr (0, f4)" "wrote_as (f_cur_pos f3) cs3 f3 [] cs3 e3 f4"
      by (rule set_size_wrote [OF R(1)])
    have "ufat_file_write f buf len = Inr (int m, f4)"
      using True d(1-3) f4(1) st by (simp add: ufat_file_write_def t_def [symmetric] Let_def)
    moreover have "unat (f_cur_pos f3) = max (unat (f_file_size f)) (?p + m)"
      using True unfolding R(5) p3 [symmetric] by (simp add: word_less_nat_alt)
    moreover have "unat (f_cur_pos f3) \<le> length cs3 * csize (f_uf f)"
      using wstateD(1) [OF R(1)] unfolding pos_ok_def R(2) by blast
    then have "wrote_as (f_cur_pos f3) cs f (take m buf @ []) cs3 e3 f4"
      by (intro wrote_trans [OF wrote_cache [OF w] wm f4(2)]) simp_all
    ultimately show thesis using that by simp
  qed
qed

section \<open>Reading back\<close>

lemma rewind_ok: "pos_ok cs e f \<Longrightarrow> pos_ok cs e (ufat_file_rewind f)"
proof -
  assume p: "pos_ok cs e f"
  have "entry_at cs e 0 = f_start f" by (rule linked_start [OF chain_okD(5) [OF pos_chain [OF p]]])
  then show "pos_ok cs e (ufat_file_rewind f)" using p by (simp add: pos_ok_def ufat_file_rewind_def)
qed

lemma read_back:
  assumes w: "wstate cs e f" and m: "m = min (unat len) (2 ^ 32 - 1 - unat (f_cur_pos f))" "m \<le> length buf" "m < 2 ^ 31"
    and r: "unat (f_cur_pos f) + m \<le> (length cs + card (free_set (f_uf f))) * csize (f_uf f)"
    and z: "unat (f_cur_pos f) \<le> unat (f_file_size f)" "unat (f_file_size f) \<le> length cs * csize (f_uf f)"
  obtains f' g where "ufat_file_write f buf len = Inr (int m, f')" "ufat_file_advance (ufat_file_rewind f') (f_cur_pos f) = Inr (0, g)"
    "\<And>buf2. m \<le> length buf2 \<Longrightarrow> \<exists>h. ufat_file_read g buf2 (of_nat m) = Inr (int m, mem_splice 0 (take m buf) buf2, h)"
proof -
  let ?p = "unat (f_cur_pos f)"
  obtain cs' e' f' s where a: "ufat_file_write f buf len = Inr (int m, f')" "wrote_as s cs f (take m buf) cs' e' f'"
      "unat s = max (unat (f_file_size f)) (?p + m)"
    by (rule file_write_ok [OF w m r])
  note R = wroteD [OF a(2)]
  note W' = wstateD [OF R(1)]
  have lt: "length (take m buf) = m" using m(2) by simp
  have p': "unat (f_cur_pos f') = ?p + m" using R(6) unfolding lt .
  have inside: "?p + m \<le> length cs' * csize (f_uf f')" using W'(1) unfolding pos_ok_def p' by blast
  have "length cs * csize (f_uf f) \<le> length cs' * csize (f_uf f)" using R(7) by (intro mult_le_mono1) auto
  from order_trans [OF z(2) this] have sl: "unat s \<le> length cs' * csize (f_uf f')"
    using inside unfolding a(3) R(2) by (rule max.boundedI)
  let ?g = "ufat_file_rewind f'"
  have g: "f_uf ?g = f_uf f'" "f_file_size ?g = s" "f_cur_pos ?g = 0" using R(5) by (simp_all add: ufat_file_rewind_def)
  have n: "unat (f_cur_pos ?g) + unat (f_cur_pos f) \<le> length cs' * csize (f_uf ?g)" "unat (f_cur_pos ?g) + unat (f_cur_pos f) < 2 ^ 32"
    using inside unsigned_less [of "f_cur_pos f"] unfolding g by simp_all
  obtain h u c d where v: "advance_ptr ?g (f_cur_pos f) = Inr (0, h)" "pos_ok cs' e' h" "keeps (f_uf ?g) u"
      "h = ?g\<lparr>f_uf := u, f_prev_cluster := c, f_cur_cluster := d, f_cur_pos := f_cur_pos ?g + f_cur_pos f\<rparr>"
    by (rule advance_ptr_ok [OF rewind_ok [OF W'(1)] n])
  have "\<not> f_cur_pos f > s" using a(3) by (simp add: word_less_nat_alt)
  then have adv: "ufat_file_advance ?g (f_cur_pos f) = Inr (0, h)" using v(1) by (simp add: ufat_file_advance_def g)
  have H: "f_uf h = u" "f_file_size h = s" "f_cur_pos h = f_cur_pos f" using v(4) g by simp_all
  have k: "keeps (f_uf f') u" using v(3) unfolding g .
  have bu: "bpb u = bpb (f_uf f')" by (rule keeps_facts(2) [OF k])
  have um: "unat (of_nat m :: u32) = m" using m(3) by (simp add: unat_of_nat)
  have q: "unat (f_cur_pos h) \<le> unat (f_file_size h)" "unat (f_file_size h) \<le> length cs' * csize (f_uf h)"
    "m = min (unat (of_nat m :: u32)) (unat (f_file_size h) - unat (f_cur_pos h))"
    using sl a(3) unfolding H bu um by simp_all
  have "\<forall>b \<in> set (file_blocks (bpb (f_uf f)) cs'). b < nblocks" using chain_blocks(1) [OF W'(2)] unfolding R(2) by blast
  then have l: "length (file_bytes (f_uf f) cs') = length cs' * csize (f_uf f)" by (rule length_file_views [OF wrote_cache [OF w]])
  have c: "mem_slice ?p m (file_bytes u cs') = take m buf"
    unfolding file_bytes_keeps [OF W'(2) k] R(9)
    using inside l lt by (intro mem_slice_splice_same) (simp_all add: R(2))
  have "\<exists>x. ufat_file_read h buf2 (of_nat m) = Inr (int m, mem_splice 0 (take m buf) buf2, x)" if l2: "m \<le> length buf2" for buf2
  proof -
    obtain x where "ufat_file_read h buf2 (of_nat m) = Inr (int m, mem_splice 0 (mem_slice (unat (f_cur_pos h)) m (file_bytes (f_uf h) cs')) buf2, x)"
      by (rule file_read_ok [OF v(2) q l2 m(3)])
    then show ?thesis unfolding H c by blast
  qed
  then show thesis using that a(1) adv by blast
qed

end

end
