(* ===== verification/Fat_Files.thy ===== *)
theory Fat_Files
  imports Fat_Written Fat_Properties
begin

text \<open>What reading and writing a file promise on the shell's device.\<close>

section \<open>Reading\<close>

text \<open>
  C12: a read of \<open>sz\<close> bytes returns the number of bytes up to the end of the file that it asks for, puts exactly
  the bytes of the file's chain of clusters from the position on into the buffer, however they lie in blocks
  and clusters, moves the position behind them and changes nothing that is seen of the volume.
\<close>

theorem file_read_bytes:
  assumes p: "file_many.pos_ok lg n cs e f"
    and s: "unat (f_cur_pos f) \<le> unat (f_file_size f)"
      "unat (f_file_size f) \<le> length cs * (2 ^ lg * 2 ^ unat (log2_blocks_per_cluster (bpb (f_uf f))))"
    and m: "m = min (unat sz) (unat (f_file_size f) - unat (f_cur_pos f))" "m \<le> length buf" "m < 2 ^ 31"
  shows "\<exists>f'. ufat_file_read f buf sz =
      Inr (int m, mem_slice (unat (f_cur_pos f)) m (file_many.file_bytes lg (f_uf f) cs) @ drop m buf, f') \<and>
    file_many.pos_ok lg n cs e f' \<and> unat (f_cur_pos f') = unat (f_cur_pos f) + m \<and>
    f_start f' = f_start f \<and> f_file_size f' = f_file_size f \<and>
    (\<forall>b < n. \<not> is_mirror (bpb (f_uf f)) b \<longrightarrow> file_dev.view lg (f_uf f') b = file_dev.view lg (f_uf f) b)"
proof -
  have s2: "unat (f_file_size f) \<le> length cs * (2 ^ log2_block_size (file_device lg) * 2 ^ unat (log2_blocks_per_cluster (bpb (f_uf f))))"
    using s(2) by simp
  let ?C = "file_many.file_bytes lg (f_uf f) cs" and ?p = "unat (f_cur_pos f)"
  obtain f' where r: "ufat_file_read f buf sz = Inr (int m, mem_splice 0 (mem_slice ?p m ?C) buf, f')" "file_many.read_on lg n cs e f m f'"
    by (rule file_many.file_read_ok [OF p s(1) s2 m])
  have "?p + m \<le> length ?C"
    using s m(1) unfolding file_many.length_file_bytes [OF file_many.pos_chain [OF p]] by simp
  then have e: "mem_splice 0 (mem_slice ?p m ?C) buf = mem_slice ?p m ?C @ drop m buf" by (simp add: mem_splice_def)
  note R = r(2) [unfolded file_many.read_on_def file_many.same_file_def]
  have "\<forall>b < n. \<not> is_mirror (bpb (f_uf f)) b \<longrightarrow> file_dev.view lg (f_uf f') b = file_dev.view lg (f_uf f) b"
    using R file_dev.keeps_facts(5) by blast
  then show ?thesis using r(1) R unfolding e by blast
qed

text \<open>A file of 100 bytes on the small volume, two of which have been read.\<close>

definition small_file :: "bytes ufat_file" where
  "small_file = \<lparr>f_uf = small_volume, f_dirent_block = 3, f_dirent_pos = 0, f_start = 2, f_file_size = 100,
     f_prev_cluster = 0, f_cur_cluster = 2, f_cur_pos = 2\<rparr>"

lemma small_placed: "placed 8 (bpb small_volume)"
  by (simp add: placed_def small_volume_def small_bpb_def)

lemma small_chain: "file_many.chain_ok 9 8 small_volume 2 [2] 0"
  unfolding file_many.chain_ok_def log2_file_device using small_cache_ok small_table small_placed small_entry [of 2]
  by (simp add: small_volume_def small_bpb_def not_ptr_free)

lemma small_pos: "file_many.pos_ok 9 8 [2] 0 small_file"
  using small_chain unfolding file_many.pos_ok_def
  by (simp add: small_file_def small_volume_def small_bpb_def entry_at_def)

lemma small_bytes: "file_many.file_bytes 9 small_volume [2] = replicate 512 0"
  unfolding file_many.file_bytes_def small_view
  by (simp add: file_blocks_def clus_block_def small_volume_def small_bpb_def zero_block)

theorem file_read_bytes_witness:
  "\<exists>f'. ufat_file_read small_file (replicate 200 1) 150 = Inr (98, replicate 98 0 @ replicate 102 1, f') \<and>
    unat (f_cur_pos f') = 100"
proof -
  have m: "98 = min (unat (150::u32)) (unat (f_file_size small_file) - unat (f_cur_pos small_file))"
    "(98::nat) \<le> length (replicate 200 (1::u8))" "(98::nat) < 2 ^ 31"
    by (simp_all add: small_file_def)
  have s: "unat (f_cur_pos small_file) \<le> unat (f_file_size small_file)"
    "unat (f_file_size small_file) \<le> length [2::nat] * (2 ^ 9 * 2 ^ unat (log2_blocks_per_cluster (bpb (f_uf small_file))))"
    by (simp_all add: small_file_def small_volume_def small_bpb_def)
  have u: "f_uf small_file = small_volume" "unat (f_cur_pos small_file) = 2" by (simp_all add: small_file_def)
  have "mem_slice 2 98 (file_many.file_bytes 9 small_volume [2]) @ drop 98 (replicate 200 1) = replicate 98 0 @ replicate 102 1"
    unfolding small_bytes by (simp add: mem_slice_def)
  then show ?thesis using file_read_bytes [OF small_pos s m] unfolding u by auto
qed

section \<open>Writing\<close>

text \<open>
  C10: while there are clusters for it, a write of \<open>len\<close> bytes stores all of them (or as many as a file of 4 GiB
  has room for): the bytes of the file, in its old clusters and those that have been free and are now at the
  end of its chain, are as before but for the bytes written at the position; the entry on the disk has the
  new start and size; no other block, no other entry of the directory and no cluster of another file changes.
\<close>

theorem file_write_bytes:
  assumes w: "file_many.wstate lg n cs e f"
    and m: "m = min (unat len) (2 ^ 32 - 1 - unat (f_cur_pos f))" "m \<le> length buf" "m < 2 ^ 31"
    and r: "unat (f_cur_pos f) + m \<le>
      (length cs + card (file_dev.free_set lg (f_uf f))) * (2 ^ lg * 2 ^ unat (log2_blocks_per_cluster (bpb (f_uf f))))"
  shows "\<exists>js e' f'. ufat_file_write f buf len = Inr (int m, f') \<and> file_many.wstate lg n (cs @ js) e' f' \<and>
    set js \<subseteq> file_dev.free_set lg (f_uf f) \<and>
    file_many.file_bytes lg (f_uf f') (cs @ js) =
      mem_splice (unat (f_cur_pos f)) (take m buf) (file_many.file_bytes lg (f_uf f) (cs @ js)) \<and>
    unat (f_cur_pos f') = unat (f_cur_pos f) + m \<and>
    unat (f_file_size f') = max (unat (f_file_size f)) (unat (f_cur_pos f) + m) \<and> file_many.entry_says lg f' \<and>
    (\<forall>b < n. \<not> is_mirror (bpb (f_uf f)) b \<longrightarrow> \<not> in_fat (bpb (f_uf f)) b \<longrightarrow>
       b \<notin> set (file_blocks (bpb (f_uf f)) (cs @ js)) \<longrightarrow> b \<noteq> unat (f_dirent_block f) \<longrightarrow>
       file_dev.view lg (f_uf f') b = file_dev.view lg (f_uf f) b) \<and>
    (\<forall>i < 2 ^ lg. i < file_entry_off f + 0x14 \<or> file_entry_off f + 0x20 \<le> i \<longrightarrow>
       file_dev.view lg (f_uf f') (unat (f_dirent_block f)) ! i = file_dev.view lg (f_uf f) (unat (f_dirent_block f)) ! i) \<and>
    (\<forall>j < unat (num_clusters (bpb (f_uf f))). j \<notin> set (cs @ js) \<longrightarrow>
       file_dev.fat_entry lg (f_uf f') j = file_dev.fat_entry lg (f_uf f) j)"
proof -
  have r': "unat (f_cur_pos f) + m \<le> (length cs + card (file_dev.free_set lg (f_uf f))) *
      (2 ^ log2_block_size (file_device lg) * 2 ^ unat (log2_blocks_per_cluster (bpb (f_uf f))))"
    using r unfolding log2_file_device .
  obtain cs' e' f' z where a: "ufat_file_write f buf len = Inr (int m, f')" "file_many.wrote_as lg n z cs f (take m buf) cs' e' f'"
      "unat z = max (unat (f_file_size f)) (unat (f_cur_pos f) + m)"
    by (rule file_many.file_write_ok [OF w m r'])
  note R = file_many.wroteD [OF a(2), unfolded log2_file_device]
  obtain js where js: "cs' = cs @ js" "set js \<subseteq> file_dev.free_set lg (f_uf f)" using R(7) by blast
  have lt: "length (take m buf) = m" using m(2) by simp
  show ?thesis
    by (intro exI [of _ js] exI [of _ e'] exI [of _ f'] conjI allI impI)
      (use a(1,3) R [unfolded js(1) lt] js(2) file_many.wstateD(7) [OF R(1)] in blast)+
qed

text \<open>An empty file on the small volume, with its entry in the root directory.\<close>

definition empty_file :: "bytes ufat_file" where
  "empty_file = \<lparr>f_uf = small_volume, f_dirent_block = 3, f_dirent_pos = 0, f_start = 0, f_file_size = 0,
     f_prev_cluster = 0, f_cur_cluster = 0, f_cur_pos = 0\<rparr>"

lemma small_free: "file_dev.free_set 9 small_volume = {2..<6}"
proof -
  have n: "unat (num_clusters (bpb small_volume)) = 6" "fat_type (bpb small_volume) = UFAT_TYPE_FAT12"
    by (simp_all add: small_volume_def small_bpb_def)
  show ?thesis
    using small_entry by (auto simp: file_dev.free_set_def free_clusters_def n usable_def UFAT_CLUSTER_FREE_def)
qed

lemma empty_file_state: "file_many.wstate 9 8 [] 0 empty_file"
proof -
  have u: "f_uf empty_file = small_volume" "unat (f_dirent_block empty_file) = 3" "f_start empty_file = 0"
    "f_file_size empty_file = 0" "file_entry_off empty_file = 0"
    by (simp_all add: empty_file_def file_entry_off_def)
  have "file_many.chain_ok 9 8 small_volume 0 [] 0"
    using small_chain unfolding file_many.chain_ok_def by simp
  then have p: "file_many.pos_ok 9 8 [] 0 empty_file"
    unfolding file_many.pos_ok_def by (simp add: empty_file_def entry_at_def)
  have "3 \<notin> set (file_blocks (bpb small_volume) [c])" if "c \<in> {2..<6}" for c
    using that by (auto simp: file_blocks_def clus_block_def small_volume_def small_bpb_def)
  then have a: "file_many.entry_apart 9 8 [] empty_file"
    unfolding file_many.entry_apart_def u small_free log2_file_device
    by (auto simp: is_mirror_def mirrors_def in_fat_def small_volume_def small_bpb_def)
  have b3: "file_block 9 (replicate 4096 0) 3 = replicate 512 0" by (rule zero_block) simp
  have "file_many.entry_says 9 empty_file"
    unfolding file_many.entry_says_def u small_view b3 Let_def
    by (simp add: mem_slice_def w16_def w32_def numeral_nat)
  then show ?thesis using p a small_ptr unfolding file_many.wstate_def u by simp
qed

definition sample_data :: bytes where
  "sample_data = replicate 300 0x61 @ replicate 300 0x62"

lemma sample_facts:
  "600 = min (unat (600::u32)) (2 ^ 32 - 1 - unat (f_cur_pos empty_file))" "(600::nat) \<le> length sample_data" "(600::nat) < 2 ^ 31"
  "unat (f_cur_pos empty_file) + 600 \<le> (length ([]::nat list) + card (file_dev.free_set 9 (f_uf empty_file))) *
      (2 ^ 9 * 2 ^ unat (log2_blocks_per_cluster (bpb (f_uf empty_file))))"
proof -
  have u: "f_uf empty_file = small_volume" "f_cur_pos empty_file = 0" by (simp_all add: empty_file_def)
  show "600 = min (unat (600::u32)) (2 ^ 32 - 1 - unat (f_cur_pos empty_file))" unfolding u by simp
  show "(600::nat) \<le> length sample_data" "(600::nat) < 2 ^ 31" by (simp_all add: sample_data_def)
  show "unat (f_cur_pos empty_file) + 600 \<le> (length ([]::nat list) + card (file_dev.free_set 9 (f_uf empty_file))) *
      (2 ^ 9 * 2 ^ unat (log2_blocks_per_cluster (bpb (f_uf empty_file))))"
    unfolding u small_free by (simp add: small_volume_def small_bpb_def)
qed

theorem file_write_bytes_witness:
  "\<exists>js e' f'. ufat_file_write empty_file sample_data 600 = Inr (600, f') \<and> file_many.wstate 9 8 js e' f' \<and>
    unat (f_file_size f') = 600"
proof -
  have z: "max (unat (f_file_size empty_file)) (unat (f_cur_pos empty_file) + 600) = 600" by (simp add: empty_file_def)
  show ?thesis using file_write_bytes [OF empty_file_state sample_facts] unfolding z by auto
qed

text \<open>
  C11: what has been written is read back: after a write, going back to its position and reading as many bytes
  gives them.
\<close>

theorem file_write_read:
  assumes w: "file_many.wstate lg n cs e f"
    and m: "m = min (unat len) (2 ^ 32 - 1 - unat (f_cur_pos f))" "m \<le> length buf" "m < 2 ^ 31"
    and r: "unat (f_cur_pos f) + m \<le>
      (length cs + card (file_dev.free_set lg (f_uf f))) * (2 ^ lg * 2 ^ unat (log2_blocks_per_cluster (bpb (f_uf f))))"
    and z: "unat (f_cur_pos f) \<le> unat (f_file_size f)"
      "unat (f_file_size f) \<le> length cs * (2 ^ lg * 2 ^ unat (log2_blocks_per_cluster (bpb (f_uf f))))"
  shows "\<exists>f' g. ufat_file_write f buf len = Inr (int m, f') \<and>
    ufat_file_advance (ufat_file_rewind f') (f_cur_pos f) = Inr (0, g) \<and>
    (\<forall>old. length old = m \<longrightarrow> (\<exists>h. ufat_file_read g old (of_nat m) = Inr (int m, take m buf, h)))"
proof -
  have r': "unat (f_cur_pos f) + m \<le> (length cs + card (file_dev.free_set lg (f_uf f))) *
      (2 ^ log2_block_size (file_device lg) * 2 ^ unat (log2_blocks_per_cluster (bpb (f_uf f))))"
    using r unfolding log2_file_device .
  have z': "unat (f_file_size f) \<le> length cs * (2 ^ log2_block_size (file_device lg) * 2 ^ unat (log2_blocks_per_cluster (bpb (f_uf f))))"
    using z(2) unfolding log2_file_device .
  obtain f' g where a: "ufat_file_write f buf len = Inr (int m, f')" "ufat_file_advance (ufat_file_rewind f') (f_cur_pos f) = Inr (0, g)"
      "\<And>old. m \<le> length old \<Longrightarrow> \<exists>h. ufat_file_read g old (of_nat m) = Inr (int m, mem_splice 0 (take m buf) old, h)"
    by (rule file_many.read_back [OF w m r' z(1) z']) blast
  have "\<exists>h. ufat_file_read g old (of_nat m) = Inr (int m, take m buf, h)" if l: "length old = m" for old
  proof -
    have "mem_splice 0 (take m buf) old = take m buf" using l m(2) by (simp add: mem_splice_def)
    then show ?thesis using a(3) [of old] l by simp
  qed
  then show ?thesis using a(1,2) by blast
qed

theorem file_write_read_witness:
  "\<exists>f' g h. ufat_file_write empty_file sample_data 600 = Inr (600, f') \<and>
    ufat_file_advance (ufat_file_rewind f') 0 = Inr (0, g) \<and>
    ufat_file_read g (replicate 600 0) 600 = Inr (600, sample_data, h)"
proof -
  have z: "unat (f_cur_pos empty_file) \<le> unat (f_file_size empty_file)"
    "unat (f_file_size empty_file) \<le> length ([]::nat list) * (2 ^ 9 * 2 ^ unat (log2_blocks_per_cluster (bpb (f_uf empty_file))))"
    by (simp_all add: empty_file_def)
  have c: "f_cur_pos empty_file = 0" "take 600 sample_data = sample_data" by (simp_all add: empty_file_def sample_data_def)
  show ?thesis using file_write_read [OF empty_file_state sample_facts z] unfolding c by force
qed

end
