(* ===== verification/Fat_Mkfs.thy ===== *)
theory Fat_Mkfs
  imports Fat_Open
begin

text \<open>
  Formatting (fs/ufat_mkfs.c): the layout of a new volume, and the blocks that are written. Results have the
  state of the device; a buffer has \<open>2 ^ log2_block_size\<close> bytes, and stores behind it are faults.
\<close>

definition BACKUP_SECTOR :: nat where "BACKUP_SECTOR = 6"
definition FSINFO_SECTOR :: nat where "FSINFO_SECTOR = 1"
definition MEDIA_DISK :: u8 where "MEDIA_DISK = 0xf8"

record fs_layout =
  log2_sector_size :: nat
  log2_bpc :: nat
  reserved_blocks :: u64
  root_blocks :: u64
  fat_blocks :: u64
  logical_blocks :: u64
  clusters :: u32
  type :: ufat_fat_type_t

section \<open>The layout\<close>

definition bytes_to_blocks :: "nat \<Rightarrow> u32 \<Rightarrow> u64" where
  "bytes_to_blocks lg bytes = ucast (drop_bit lg (bytes + push_bit lg 1 - 1))"

text \<open>The loops that increase the sector size and the cluster size.\<close>

function sector_loop :: "nat \<Rightarrow> u64 \<Rightarrow> nat \<Rightarrow> nat" where
  "sector_loop lg nblk log2_bps =
     (if lg + log2_bps < 12 \<and> drop_bit log2_bps nblk > 0xffffffff then sector_loop lg nblk (log2_bps + 1) else log2_bps)"
  by pat_completeness auto
termination by (relation "measure (\<lambda>(lg, nblk, log2_bps). 12 - (lg + log2_bps))") auto

declare sector_loop.simps [simp del]

function cluster_loop :: "nat \<Rightarrow> u32 \<Rightarrow> u32 \<Rightarrow> nat \<Rightarrow> nat" where
  "cluster_loop log2_ss nsect clusters_threshold log2_spc =
     (if log2_spc < 7 \<and> log2_ss + log2_spc < 15 \<and> drop_bit log2_spc nsect > clusters_threshold
      then cluster_loop log2_ss nsect clusters_threshold (log2_spc + 1) else log2_spc)"
  by pat_completeness auto
termination by (relation "measure (\<lambda>(ss, n, t, log2_spc). 7 - log2_spc)") auto

declare cluster_loop.simps [simp del]

text \<open>The kind of table for a number of sectors, with the threshold for its clusters and the first cluster size.\<close>

definition choose_type :: "u32 \<Rightarrow> ufat_fat_type_t \<times> u32 \<times> nat" where
  "choose_type nsect =
     (if nsect < 8400 then (UFAT_TYPE_FAT12, push_bit 12 1, 1)
      else if nsect < 1048576 then (UFAT_TYPE_FAT16, push_bit 16 1, 1)
      else (UFAT_TYPE_FAT32, 2097152, 3))"

definition calculate_layout :: "u64 \<Rightarrow> nat \<Rightarrow> int + fs_layout" where
  "calculate_layout nblk lg =
     (if lg > 12 then Inl (- UFAT_ERR_BLOCK_SIZE)
      else
        let log2_bps = sector_loop lg nblk (if lg < 9 then 9 - lg else 0);
            nblk = (if drop_bit log2_bps nblk > 0xffffffff then push_bit log2_bps 0xffffffff else nblk);
            sector_size = lg + log2_bps;
            nsect = ucast (drop_bit log2_bps nblk) :: u32;
            (ty, clusters_threshold, log2_spc) = choose_type nsect;
            bpc = log2_bps + cluster_loop sector_size nsect clusters_threshold log2_spc;
            reserved = push_bit log2_bps (if ty = UFAT_TYPE_FAT32 then 32 else 1) :: u64;
            est_clusters = ucast (drop_bit bpc (nblk - reserved) + 2) :: u32;
            fat_bytes = (case ty of
                UFAT_TYPE_FAT32 \<Rightarrow> push_bit 2 est_clusters
              | UFAT_TYPE_FAT16 \<Rightarrow> push_bit 1 est_clusters
              | UFAT_TYPE_FAT12 \<Rightarrow> drop_bit 1 (est_clusters * 3 + 1));
            fat = bytes_to_blocks lg fat_bytes;
            root = (if ty \<noteq> UFAT_TYPE_FAT32 then bytes_to_blocks lg 16384 else 0);
            cl = ucast (drop_bit bpc (nblk - reserved - root - fat * 2) + 2) :: u32;
            root = (if ty \<noteq> UFAT_TYPE_FAT32 then nblk - reserved - fat * 2 - ucast (push_bit bpc (cl - 2)) else root)
        in Inr \<lparr>log2_sector_size = sector_size, log2_bpc = bpc, reserved_blocks = reserved, root_blocks = root, fat_blocks = fat,
             logical_blocks = ucast (push_bit bpc (cl - 2)) + fat * 2 + reserved + root, clusters = cl, type = ty\<rparr>)"

section \<open>Erasing\<close>

fun erase_loop :: "nat \<Rightarrow> 'd ufat_device \<Rightarrow> u64 \<Rightarrow> bytes \<Rightarrow> 'd \<Rightarrow> int \<times> 'd" where
  "erase_loop 0 d blk buf dk = (0, dk)"
| "erase_loop (Suc n) d blk buf dk =
     (let (rc, dk) = dev_write d blk 1 buf dk in
      if rc < 0 then (- UFAT_ERR_IO, dk) else erase_loop n d (blk + 1) buf dk)"

definition erase_blocks :: "'d ufat_device \<Rightarrow> u64 \<Rightarrow> u64 \<Rightarrow> 'd \<Rightarrow> int \<times> 'd" where
  "erase_blocks d start count dk = erase_loop (unat count) d start (replicate (2 ^ log2_block_size d) 0) dk"

definition erase_reserved_blocks :: "'d ufat_device \<Rightarrow> fs_layout \<Rightarrow> 'd \<Rightarrow> int \<times> 'd" where
  "erase_reserved_blocks d fl = erase_blocks d 0 (reserved_blocks fl)"

definition init_root_blocks :: "'d ufat_device \<Rightarrow> fs_layout \<Rightarrow> 'd \<Rightarrow> int \<times> 'd" where
  "init_root_blocks d fl = erase_blocks d (fat_blocks fl * 2 + reserved_blocks fl) (root_blocks fl)"

definition init_root_cluster :: "'d ufat_device \<Rightarrow> fs_layout \<Rightarrow> 'd \<Rightarrow> int \<times> 'd" where
  "init_root_cluster d fl =
     erase_blocks d (fat_blocks fl * 2 + reserved_blocks fl + root_blocks fl) (push_bit (log2_bpc fl) 1)"

section \<open>The boot sector\<close>

definition boot_header :: bytes where
  "boot_header = [0xeb, 0xfe, 0x90, 0x75, 0x66, 0x61, 0x74, 0x20, 0x20, 0x20, 0x20]"

definition type_name :: "ufat_fat_type_t \<Rightarrow> bytes" where
  "type_name t = [0x46, 0x41, 0x54] @ (case t of
       UFAT_TYPE_FAT12 \<Rightarrow> [0x31, 0x32] | UFAT_TYPE_FAT16 \<Rightarrow> [0x31, 0x36] | UFAT_TYPE_FAT32 \<Rightarrow> [0x33, 0x32]) @ [0x20, 0x20, 0x20]"

text \<open>Stores at offsets of a buffer, one after the other.\<close>

fun put_all :: "(nat \<times> bytes) list \<Rightarrow> bytes \<Rightarrow> bytes cres" where
  "put_all [] buf = Inr buf"
| "put_all ((off, bs) # ss) buf = rbind (mem_store buf off bs) (put_all ss)"

text \<open>The stores of \<open>write_bpb\<close>. The shifts of block counts go to the left, as they are written.\<close>

definition bpb_stores :: "nat \<Rightarrow> fs_layout \<Rightarrow> (nat \<times> bytes) list" where
  "bpb_stores lg fl =
     (let log2_bps = log2_sector_size fl - lg in
      [(0, boot_header), (0x1fe, [0x55]), (0x1ff, [0xaa]),
       (0x00b, w16 (push_bit (log2_sector_size fl) 1)), (0x00d, [push_bit (log2_bpc fl - log2_bps) 1]),
       (0x00e, w16 (ucast (push_bit log2_bps (reserved_blocks fl)))), (0x010, [2]),
       (0x011, w16 (ucast (push_bit (lg - 5) (root_blocks fl)))),
       (if type fl \<noteq> UFAT_TYPE_FAT32 \<and> logical_blocks fl \<le> 0xffff
        then (0x013, w16 (ucast (push_bit log2_bps (logical_blocks fl))))
        else (0x020, w32 (ucast (push_bit log2_bps (logical_blocks fl))))),
       (0x015, [MEDIA_DISK])] @
      (if type fl \<noteq> UFAT_TYPE_FAT32 then
         [(0x016, w16 (ucast (push_bit log2_bps (fat_blocks fl)))), (0x026, [0x29]),
          (0x02b, replicate 11 0x20), (0x036, type_name (type fl))]
       else
         [(0x024, w32 (ucast (push_bit log2_bps (fat_blocks fl)))), (0x02c, w32 2), (0x030, w16 1),
          (0x032, w16 (of_nat BACKUP_SECTOR)), (0x042, [0x29]), (0x047, replicate 11 0x20),
          (0x052, type_name (type fl))]))"

definition write_bpb :: "'d ufat_device \<Rightarrow> fs_layout \<Rightarrow> 'd \<Rightarrow> (int \<times> 'd) cres" where
  "write_bpb d fl dk =
     rbind (put_all (bpb_stores (log2_block_size d) fl) (replicate (2 ^ log2_block_size d) 0)) (\<lambda>buf.
     let (rc, dk) = dev_write d 0 1 buf dk in
     if rc < 0 then Inr (- UFAT_ERR_IO, dk)
     else if type fl = UFAT_TYPE_FAT32 then
       let (rc, dk) = dev_write d (of_nat (BACKUP_SECTOR div 2 ^ (log2_sector_size fl - log2_block_size d))) 1 buf dk in
       if rc < 0 then Inr (- UFAT_ERR_IO, dk) else Inr (0, dk)
     else Inr (0, dk))"

definition fsinfo_stores :: "fs_layout \<Rightarrow> (nat \<times> bytes) list" where
  "fsinfo_stores fl =
     [(0x000, w32 0x41615252), (0x1e4, w32 0x61417272), (0x1e8, w32 (clusters fl - 3)), (0x1ec, w32 2),
      (0x1fc, w32 0xaa550000)]"

definition write_fsinfo :: "'d ufat_device \<Rightarrow> fs_layout \<Rightarrow> 'd \<Rightarrow> (int \<times> 'd) cres" where
  "write_fsinfo d fl dk =
     (let log2_bps = log2_sector_size fl - log2_block_size d in
      rbind (put_all (fsinfo_stores fl) (replicate (2 ^ log2_block_size d) 0)) (\<lambda>buf.
      let (rc, dk) = dev_write d (of_nat (FSINFO_SECTOR div 2 ^ log2_bps)) 1 buf dk in
      if rc < 0 then Inr (- UFAT_ERR_IO, dk)
      else
        let (rc, dk) = dev_write d (of_nat ((FSINFO_SECTOR + BACKUP_SECTOR) div 2 ^ log2_bps)) 1 buf dk in
        if rc < 0 then Inr (- UFAT_ERR_IO, dk) else Inr (0, dk)))"

section \<open>The tables\<close>

text \<open>The bytes of a block of FAT12, with the position in the entries of the next block.\<close>

fun fill12 :: "nat \<Rightarrow> u32 \<Rightarrow> u32 \<Rightarrow> u32 \<Rightarrow> bytes \<times> u32 \<times> u32" where
  "fill12 0 cl minor_byte cluster_pair = ([], minor_byte, cluster_pair)"
| "fill12 (Suc n) cl minor_byte cluster_pair =
     (let pair_data = (if push_bit 1 cluster_pair \<ge> cl then 0xff7ff7
            else if push_bit 1 cluster_pair + 1 \<ge> cl then 0xff7000 else 0) :: u32;
          b = ucast (drop_bit (unat (push_bit 3 minor_byte)) pair_data);
          (minor_byte, cluster_pair) = (if minor_byte + 1 \<ge> 3 then (0, cluster_pair + 1) else (minor_byte + 1, cluster_pair));
          (bs, pos) = fill12 n cl minor_byte cluster_pair
      in (b # bs, pos))"

fun init_fat12_loop :: "nat \<Rightarrow> 'd ufat_device \<Rightarrow> fs_layout \<Rightarrow> u64 \<Rightarrow> u64 \<Rightarrow> u32 \<Rightarrow> u32 \<Rightarrow> 'd \<Rightarrow> (int \<times> 'd) cres" where
  "init_fat12_loop 0 d fl i blk minor_byte cluster_pair dk = Inr (0, dk)"
| "init_fat12_loop (Suc n) d fl i blk minor_byte cluster_pair dk =
     (let (blk, minor_byte, cluster_pair) = (if blk = fat_blocks fl then (0, 0, 0) else (blk, minor_byte, cluster_pair));
          (buf, minor_byte, cluster_pair) = fill12 (2 ^ log2_block_size d) (clusters fl) minor_byte cluster_pair in
      rbind (if blk = 0 then put_all [(0, [MEDIA_DISK]), (1, [0x8f]), (2, [0xff])] buf else Inr buf) (\<lambda>buf.
      let (rc, dk) = dev_write d (reserved_blocks fl + i) 1 buf dk in
      if rc < 0 then Inr (- UFAT_ERR_IO, dk)
      else init_fat12_loop n d fl (i + 1) (blk + 1) minor_byte cluster_pair dk))"

definition init_fat12 :: "'d ufat_device \<Rightarrow> fs_layout \<Rightarrow> 'd \<Rightarrow> (int \<times> 'd) cres" where
  "init_fat12 d fl = init_fat12_loop (unat (fat_blocks fl * 2)) d fl 0 0 0 0"

text \<open>The entries of a block of FAT16 or FAT32, \<open>w\<close> bytes each, that are no clusters get the value \<open>bad\<close>.\<close>

fun fill_entries :: "nat \<Rightarrow> nat \<Rightarrow> bytes \<Rightarrow> u32 \<Rightarrow> nat \<Rightarrow> u32 \<Rightarrow> bytes \<Rightarrow> (bytes \<times> u32) cres" where
  "fill_entries 0 w bad cl j c buf = Inr (buf, c)"
| "fill_entries (Suc n) w bad cl j c buf =
     rbind (if c \<ge> cl then mem_store buf j bad else Inr buf) (fill_entries n w bad cl (j + w) (c + 1))"

fun init_fat16_loop :: "nat \<Rightarrow> 'd ufat_device \<Rightarrow> fs_layout \<Rightarrow> u64 \<Rightarrow> u64 \<Rightarrow> u32 \<Rightarrow> 'd \<Rightarrow> (int \<times> 'd) cres" where
  "init_fat16_loop 0 d fl i blk c dk = Inr (0, dk)"
| "init_fat16_loop (Suc n) d fl i blk c dk =
     (let (blk, c) = (if blk = fat_blocks fl then (0, 0) else (blk, c)); size = 2 ^ log2_block_size d in
      rbind (fill_entries ((size + 1) div 2) 2 (w16 0xfff7) (clusters fl) 0 c (replicate size 0)) (\<lambda>(buf, c).
      rbind (if blk = 0 then put_all [(0, w16 (0xff00 OR ucast MEDIA_DISK)), (2, w16 0xfff8)] buf else Inr buf) (\<lambda>buf.
      let (rc, dk) = dev_write d (reserved_blocks fl + i) 1 buf dk in
      if rc < 0 then Inr (- UFAT_ERR_IO, dk) else init_fat16_loop n d fl (i + 1) (blk + 1) c dk)))"

definition init_fat16 :: "'d ufat_device \<Rightarrow> fs_layout \<Rightarrow> 'd \<Rightarrow> (int \<times> 'd) cres" where
  "init_fat16 d fl = init_fat16_loop (unat (fat_blocks fl * 2)) d fl 0 0 0"

fun init_fat32_loop :: "nat \<Rightarrow> 'd ufat_device \<Rightarrow> fs_layout \<Rightarrow> u64 \<Rightarrow> u64 \<Rightarrow> u32 \<Rightarrow> 'd \<Rightarrow> (int \<times> 'd) cres" where
  "init_fat32_loop 0 d fl i blk c dk = Inr (0, dk)"
| "init_fat32_loop (Suc n) d fl i blk c dk =
     (let (blk, c) = (if blk = fat_blocks fl then (0, 0) else (blk, c)); size = 2 ^ log2_block_size d in
      rbind (fill_entries ((size + 3) div 4) 4 (w32 0xfffffff7) (clusters fl) 0 c (replicate size 0)) (\<lambda>(buf, c).
      rbind (if blk = 0
             then put_all [(0, w32 (0xffffff00 OR ucast MEDIA_DISK)), (4, w32 0xfffffff8), (8, w32 0xfffffff8)] buf
             else Inr buf) (\<lambda>buf.
      let (rc, dk) = dev_write d (reserved_blocks fl + i) 1 buf dk in
      if rc < 0 then Inr (- UFAT_ERR_IO, dk) else init_fat32_loop n d fl (i + 1) (blk + 1) c dk)))"

definition init_fat32 :: "'d ufat_device \<Rightarrow> fs_layout \<Rightarrow> 'd \<Rightarrow> (int \<times> 'd) cres" where
  "init_fat32 d fl = init_fat32_loop (unat (fat_blocks fl * 2)) d fl 0 0 0"

section \<open>Formatting\<close>

definition ufat_mkfs :: "'d ufat_device \<Rightarrow> u64 \<Rightarrow> 'd \<Rightarrow> (int \<times> 'd) cres" where
  "ufat_mkfs d nblk dk =
     (case calculate_layout nblk (log2_block_size d) of
        Inl err \<Rightarrow> Inr (err, dk)
      | Inr fl \<Rightarrow>
          let (err, dk) = erase_reserved_blocks d fl dk in
          if err < 0 then Inr (err, dk)
          else
            rbind (case type fl of
                UFAT_TYPE_FAT12 \<Rightarrow> init_fat12 d fl dk
              | UFAT_TYPE_FAT16 \<Rightarrow> init_fat16 d fl dk
              | UFAT_TYPE_FAT32 \<Rightarrow> init_fat32 d fl dk) (\<lambda>(err, dk).
            if err < 0 then Inr (err, dk)
            else
              let (err, dk) = (if type fl = UFAT_TYPE_FAT32 then init_root_cluster d fl dk else init_root_blocks d fl dk) in
              if err < 0 then Inr (err, dk)
              else
                rbind (if type fl = UFAT_TYPE_FAT32 then write_fsinfo d fl dk else Inr (0, dk)) (\<lambda>(err, dk).
                if err < 0 then Inr (err, dk) else write_bpb d fl dk)))"

end
