(* ===== verification/Fat_Format.thy ===== *)
theory Fat_Format
  imports Fat_Mkfs Fat_Mount Fat_Access
begin

text \<open>
  Formatting: the layout of a volume of 512-byte blocks in natural numbers, and what the loops write.
\<close>

section \<open>The layout\<close>

lemma cluster_loop_ok:
  "l \<le> cluster_loop ss n t l" "l \<le> 7 \<Longrightarrow> cluster_loop ss n t l \<le> 7"
  "cluster_loop ss n t l < 7 \<Longrightarrow> ss + cluster_loop ss n t l < 15 \<Longrightarrow> drop_bit (cluster_loop ss n t l) n \<le> t"
  "ss + l \<le> 15 \<Longrightarrow> ss + cluster_loop ss n t l \<le> 15"
  "l < cluster_loop ss n t l \<Longrightarrow> t < drop_bit (cluster_loop ss n t l - 1) n"
proof (induction ss n t l rule: cluster_loop.induct)
  case (1 ss n t l)
  let ?c = "l < 7 \<and> ss + l < 15 \<and> t < drop_bit l n"
  have r: "cluster_loop ss n t l = (if ?c then cluster_loop ss n t (l + 1) else l)" by (subst cluster_loop.simps) simp
  { case 1 show ?case using r "1.IH"(1) by (cases ?c) simp_all }
  { case 2 then show ?case using r "1.IH"(2) by (cases ?c) simp_all }
  { case 3 then show ?case using r "1.IH"(3) by (cases ?c) auto }
  { case 4 then show ?case using r "1.IH"(4) by (cases ?c) simp_all }
  { case 5 show ?case
    proof (cases ?c)
      case True
      then have e: "cluster_loop ss n t l = cluster_loop ss n t (l + 1)" using r by simp
      show ?thesis
      proof (cases "l + 1 < cluster_loop ss n t (l + 1)")
        case True then show ?thesis using "1.IH"(5) \<open>?c\<close> e by simp
      next
        case False
        moreover have "l + 1 \<le> cluster_loop ss n t (l + 1)" using "1.IH"(1) True by blast
        ultimately show ?thesis using e True by simp
      qed
    qed (use r 5 in auto) }
qed

text \<open>Three sizes: the kind of table, with the logarithm \<open>s\<close> of the sectors of a cluster.\<close>

lemma drop_of_nat: "n < 2 ^ 32 \<Longrightarrow> unat (drop_bit k (of_nat n :: u32)) = n div 2 ^ k"
  by (simp add: unat_drop_32 unat_of_nat)

lemma size_class:
  assumes n: "40 \<le> n" "n \<le> 2 ^ 31" and c: "choose_type (of_nat n) = (ty, t, l)"
  defines "s \<equiv> cluster_loop 9 (of_nat n) t l"
  shows "ty = UFAT_TYPE_FAT12 \<Longrightarrow> n < 8400 \<and> (s = 1 \<and> n \<le> 8193 \<or> s = 2)"
    "ty = UFAT_TYPE_FAT16 \<Longrightarrow> 8400 \<le> n \<and> n < 1048576 \<and> n div 2 ^ s \<le> 65536 \<and>
       (s = 1 \<or> s \<in> {2..5} \<and> 65536 < n div 2 ^ (s - 1))"
    "ty = UFAT_TYPE_FAT32 \<Longrightarrow> 1048576 \<le> n \<and> s \<in> {3..6} \<and> n div 2 ^ s \<le> 33554432"
proof -
  have n32: "n < 2 ^ 32" using n(2) by simp
  note D = drop_of_nat [OF n32]
  have u: "(of_nat n :: u32) < k \<longleftrightarrow> n < unat k" for k using n32 by (simp add: word_less_nat_alt unat_of_nat)
  have c': "(ty, t, l) = (if n < 8400 then (UFAT_TYPE_FAT12, 4096, 1) else if n < 1048576 then (UFAT_TYPE_FAT16, 65536, 1)
      else (UFAT_TYPE_FAT32, 2097152, 3))"
    using c by (simp add: choose_type_def u split: if_splits)
  have C: "9 + l \<le> 15" using c by (simp add: choose_type_def split: if_splits)
  note K = cluster_loop_ok [where l = l and ss = 9 and n = "of_nat n" and t = t, folded s_def]
  have L1: "l \<le> s" by (rule K(1))
  have L3: "s \<le> 6" using K(4) [OF C] by linarith
  have L2: "s < 6 \<Longrightarrow> n div 2 ^ s \<le> unat t" using K(3) unfolding word_le_nat_alt D by linarith
  have L4: "l < s \<Longrightarrow> unat t < n div 2 ^ (s - 1)" using K(5) unfolding word_less_nat_alt D .
  note L = L1 L2 L3 L4
  show "ty = UFAT_TYPE_FAT12 \<Longrightarrow> n < 8400 \<and> (s = 1 \<and> n \<le> 8193 \<or> s = 2)"
  proof -
    assume "ty = UFAT_TYPE_FAT12"
    then have a: "n < 8400" "unat t = 4096" "l = 1" using c' by (auto split: if_splits)
    have "s \<le> 2"
    proof (rule ccontr)
      assume "\<not> s \<le> 2"
      then have "(2::nat) ^ 2 \<le> 2 ^ (s - 1)" by (intro power_increasing) simp_all
      then have "n div 2 ^ (s - 1) \<le> n div 2 ^ 2" by (intro div_le_mono2) simp_all
      then show False using L(4) a \<open>\<not> s \<le> 2\<close> by simp
    qed
    then have "s = 1 \<or> s = 2" using L(1) a(3) by linarith
    then show ?thesis using L(2) a by auto
  qed
  show "ty = UFAT_TYPE_FAT16 \<Longrightarrow> 8400 \<le> n \<and> n < 1048576 \<and> n div 2 ^ s \<le> 65536 \<and>
       (s = 1 \<or> s \<in> {2..5} \<and> 65536 < n div 2 ^ (s - 1))"
  proof -
    assume "ty = UFAT_TYPE_FAT16"
    then have a: "8400 \<le> n" "n < 1048576" "unat t = 65536" "l = 1" using c' by (auto split: if_splits)
    have "s \<noteq> 6" using L(4) a by auto
    then show ?thesis using L a by auto
  qed
  show "ty = UFAT_TYPE_FAT32 \<Longrightarrow> 1048576 \<le> n \<and> s \<in> {3..6} \<and> n div 2 ^ s \<le> 33554432"
  proof -
    assume "ty = UFAT_TYPE_FAT32"
    then have a: "1048576 \<le> n" "unat t = 2097152" "l = 3" using c' by (auto split: if_splits)
    show ?thesis using L a n(2) by (cases "s = 6") auto
  qed
qed

text \<open>The numbers of the layout: reserved blocks, blocks of a table, clusters and their blocks.\<close>

definition fresh_reserved :: "ufat_fat_type_t \<Rightarrow> nat" where
  "fresh_reserved t = (if t = UFAT_TYPE_FAT32 then 32 else 1)"

definition fresh_root :: "ufat_fat_type_t \<Rightarrow> nat" where
  "fresh_root t = (if t = UFAT_TYPE_FAT32 then 0 else 32)"

definition fresh_estimate :: "ufat_fat_type_t \<Rightarrow> nat \<Rightarrow> nat \<Rightarrow> nat" where
  "fresh_estimate t s n = (n - fresh_reserved t) div 2 ^ s + 2"

definition fresh_fat :: "ufat_fat_type_t \<Rightarrow> nat \<Rightarrow> nat \<Rightarrow> nat" where
  "fresh_fat t s n =
     ((case t of UFAT_TYPE_FAT12 \<Rightarrow> (fresh_estimate t s n * 3 + 1) div 2 | UFAT_TYPE_FAT16 \<Rightarrow> 2 * fresh_estimate t s n
        | UFAT_TYPE_FAT32 \<Rightarrow> 4 * fresh_estimate t s n) + 511) div 512"

definition fresh_clusters :: "ufat_fat_type_t \<Rightarrow> nat \<Rightarrow> nat \<Rightarrow> nat" where
  "fresh_clusters t s n = (n - fresh_reserved t - fresh_root t - fresh_fat t s n * 2) div 2 ^ s + 2"

lemmas fresh_defs = fresh_reserved_def fresh_root_def fresh_estimate_def fresh_fat_def fresh_clusters_def

definition size_ok :: "ufat_fat_type_t \<Rightarrow> nat \<Rightarrow> nat \<Rightarrow> bool" where
  "size_ok t s n \<longleftrightarrow> 40 \<le> n \<and> n \<le> 2 ^ 31 \<and>
     (case t of
        UFAT_TYPE_FAT12 \<Rightarrow> n < 8400 \<and> (s = 1 \<and> n \<le> 8193 \<or> s = 2)
      | UFAT_TYPE_FAT16 \<Rightarrow> 8400 \<le> n \<and> n < 1048576 \<and> n div 2 ^ s \<le> 65536 \<and> (s = 1 \<or> s \<in> {2..5} \<and> 65536 < n div 2 ^ (s - 1))
      | UFAT_TYPE_FAT32 \<Rightarrow> 1048576 \<le> n \<and> s \<in> {3..6} \<and> n div 2 ^ s \<le> 33554432)"

lemma div_bounds: "0 < k \<Longrightarrow> n div k * k \<le> n \<and> n < n div k * k + (k::nat)"
  using div_mult_mod_eq [of n k] mod_less_divisor [of k n] by linarith

lemma fresh_12:
  assumes "size_ok UFAT_TYPE_FAT12 s n"
  shows "33 + 2 * fresh_fat UFAT_TYPE_FAT12 s n + 4 \<le> n" "fresh_fat UFAT_TYPE_FAT12 s n \<le> 13" "0 < fresh_fat UFAT_TYPE_FAT12 s n"
    "fresh_estimate UFAT_TYPE_FAT12 s n \<le> 4098" "fresh_clusters UFAT_TYPE_FAT12 s n \<le> 0xff6" "2 ^ s \<le> (4::nat)"
    "fresh_estimate UFAT_TYPE_FAT12 s n * 3 + 1 \<le> fresh_fat UFAT_TYPE_FAT12 s n * 512 * 2 + 1"
proof -
  let ?E = "fresh_estimate UFAT_TYPE_FAT12 s n" and ?F = "fresh_fat UFAT_TYPE_FAT12 s n" and ?N = "fresh_clusters UFAT_TYPE_FAT12 s n"
  have n: "40 \<le> n" "n < 8400" and s: "s = 1 \<and> n \<le> 8193 \<or> s = 2" using assms by (auto simp: size_ok_def)
  have E: "?E = (n - 1) div 2 ^ s + 2" by (simp add: fresh_estimate_def fresh_reserved_def)
  have F: "?F = ((?E * 3 + 1) div 2 + 511) div 512" by (simp add: fresh_fat_def)
  have N: "?N = (n - 33 - ?F * 2) div 2 ^ s + 2" by (simp add: fresh_clusters_def fresh_reserved_def fresh_root_def)
  have dE: "(n - 1) div 2 ^ s * 2 ^ s \<le> n - 1" "(n - 33 - ?F * 2) div 2 ^ s * 2 ^ s \<le> n - 33 - ?F * 2"
    using div_bounds [of "2 ^ s" "n - 1"] div_bounds [of "2 ^ s" "n - 33 - ?F * 2"] by simp_all
  note dF = div_bounds [of 2 "?E * 3 + 1"] div_bounds [of 512 "(?E * 3 + 1) div 2 + 511"]
  show e: "?E \<le> 4098" using s n dE(1) E by auto
  have en: "?E * 2 \<le> n + 3" using s n dE(1) E by auto
  show "?F \<le> 13" using e dF unfolding F by linarith
  show "0 < ?F" using dF E unfolding F by linarith
  show "33 + 2 * ?F + 4 \<le> n" using en n dF unfolding F by linarith
  show "?N \<le> 0xff6" using s n dE(2) N by auto
  show "2 ^ s \<le> (4::nat)" using s by auto
  show "?E * 3 + 1 \<le> ?F * 512 * 2 + 1" using dF unfolding F by linarith
qed

lemma fresh_16:
  assumes "size_ok UFAT_TYPE_FAT16 s n"
  shows "33 + 2 * fresh_fat UFAT_TYPE_FAT16 s n + 4 \<le> n" "fresh_fat UFAT_TYPE_FAT16 s n \<le> 258" "0 < fresh_fat UFAT_TYPE_FAT16 s n"
    "fresh_estimate UFAT_TYPE_FAT16 s n \<le> 65538" "0xff6 < fresh_clusters UFAT_TYPE_FAT16 s n"
    "fresh_clusters UFAT_TYPE_FAT16 s n \<le> 65520" "2 ^ s \<le> (32::nat)"
    "fresh_estimate UFAT_TYPE_FAT16 s n * 2 \<le> fresh_fat UFAT_TYPE_FAT16 s n * 512"
proof -
  let ?E = "fresh_estimate UFAT_TYPE_FAT16 s n" and ?F = "fresh_fat UFAT_TYPE_FAT16 s n" and ?N = "fresh_clusters UFAT_TYPE_FAT16 s n"
  have n: "8400 \<le> n" "n < 1048576" "n div 2 ^ s \<le> 65536" and s: "s = 1 \<or> s \<in> {2..5} \<and> 65536 < n div 2 ^ (s - 1)"
    using assms by (auto simp: size_ok_def)
  have E: "?E = (n - 1) div 2 ^ s + 2" by (simp add: fresh_estimate_def fresh_reserved_def)
  have F: "?F = (2 * ?E + 511) div 512" by (simp add: fresh_fat_def)
  have N: "?N = (n - 33 - ?F * 2) div 2 ^ s + 2" by (simp add: fresh_clusters_def fresh_reserved_def fresh_root_def)
  note dF = div_bounds [of 512 "2 * ?E + 511", folded F]
  have "(n - 1) div 2 ^ s \<le> n div 2 ^ s" by (rule div_le_mono) simp
  then show e: "?E \<le> 65538" using n(3) unfolding E by linarith
  show f: "?F \<le> 258" using e dF by linarith
  show "0 < ?F" using dF E by linarith
  show "33 + 2 * ?F + 4 \<le> n" using f n(1) by linarith
  show "?E * 2 \<le> ?F * 512" using dF by linarith
  have k: "s = 1 \<or> s = 2 \<or> s = 3 \<or> s = 4 \<or> s = 5" using s by auto
  then show "2 ^ s \<le> (32::nat)" by auto
  have bn: "n div 2 ^ s * 2 ^ s \<le> n" "n < n div 2 ^ s * 2 ^ s + 2 ^ s" using div_bounds [of "2 ^ s" n] by simp_all
  define A where "A = n - 33 - ?F * 2"
  have A: "A + 33 + ?F * 2 = n" using f n(1) by (simp add: A_def)
  have bm: "A div 2 ^ s * 2 ^ s \<le> A" "A < A div 2 ^ s * 2 ^ s + 2 ^ s" using div_bounds [of "2 ^ s" A] by simp_all
  have NA: "?N = A div 2 ^ s + 2" using N by (simp add: A_def)
  show "0xff6 < ?N"
  proof (cases "s = 1")
    case True
    have "2 * ?E \<le> n + 3" using E div_bounds [of 2 "n - 1"] n(1) True by simp
    then have "?F * 2 \<le> 65 + n div 128" using dF by linarith
    moreover have "A < A div 2 * 2 + 2" using bm(2) True by simp
    moreover have "n div 128 * 128 \<le> n" by simp
    moreover have "?N = A div 2 + 2" using NA True by simp
    ultimately show ?thesis using A n(1) by linarith
  next
    case False
    then have "65536 < n div 2 ^ (s - 1)" using s by simp
    moreover have "n div 2 ^ (s - 1) * 2 ^ (s - 1) \<le> n" using div_bounds [of "2 ^ (s - 1)" n] by simp
    ultimately show ?thesis using k False f A bm(2) unfolding NA by (elim disjE) simp_all
  qed
  define X D where "X = A div 2 ^ s" and "D = n div 2 ^ s"
  have "n div 2 ^ s \<le> (n - 1) div 2 ^ s + 1"
    using div_bounds [of "2 ^ s" n] div_bounds [of "2 ^ s" "n - 1"] n(1) k by (elim disjE) simp_all
  then have d: "D \<le> ?E" "D \<le> 65536" using E n(3) by (simp_all add: D_def)
  have x: "X * 2 ^ s \<le> A" "n < D * 2 ^ s + 2 ^ s" "?N = X + 2" using bm bn NA by (simp_all add: X_def D_def)
  show "?N \<le> 65520" using k
  proof (elim disjE)
    assume "s = 1"
    then have "X * 2 \<le> A" "n < D * 2 + 2" using x by simp_all
    then show ?thesis using A d dF x(3) by linarith
  next
    assume "s = 2"
    then have "X * 4 \<le> A" "n < D * 4 + 4" using x by simp_all
    then show ?thesis using A d dF x(3) by linarith
  next
    assume "s = 3"
    then have "X * 8 \<le> A" "n < D * 8 + 8" using x by simp_all
    then show ?thesis using A d dF x(3) by linarith
  next
    assume "s = 4"
    then have "X * 16 \<le> A" "n < D * 16 + 16" using x by simp_all
    then show ?thesis using A d dF x(3) by linarith
  next
    assume "s = 5"
    then have "X * 32 \<le> A" using x by simp
    then show ?thesis using A n(2) x(3) by linarith
  qed
qed

lemma fresh_32:
  assumes "size_ok UFAT_TYPE_FAT32 s n"
  shows "32 + 2 * fresh_fat UFAT_TYPE_FAT32 s n + 64 \<le> n" "fresh_fat UFAT_TYPE_FAT32 s n \<le> 262145" "0 < fresh_fat UFAT_TYPE_FAT32 s n"
    "fresh_estimate UFAT_TYPE_FAT32 s n \<le> 33554434" "2 ^ s \<le> (64::nat)"
    "fresh_estimate UFAT_TYPE_FAT32 s n * 4 \<le> fresh_fat UFAT_TYPE_FAT32 s n * 512"
proof -
  let ?E = "fresh_estimate UFAT_TYPE_FAT32 s n" and ?F = "fresh_fat UFAT_TYPE_FAT32 s n"
  have n: "1048576 \<le> n" "n div 2 ^ s \<le> 33554432" and s: "s \<in> {3..6}" using assms by (auto simp: size_ok_def)
  have E: "?E = (n - 32) div 2 ^ s + 2" by (simp add: fresh_estimate_def fresh_reserved_def)
  have F: "?F = (4 * ?E + 511) div 512" by (simp add: fresh_fat_def)
  note dF = div_bounds [of 512 "4 * ?E + 511", folded F]
  have "(n - 32) div 2 ^ s \<le> n div 2 ^ s" by (rule div_le_mono) simp
  then show e: "?E \<le> 33554434" using n(2) unfolding E by linarith
  show "?F \<le> 262145" using e dF by linarith
  show "0 < ?F" using dF E by linarith
  show "?E * 4 \<le> ?F * 512" using dF by linarith
  have "(2::nat) ^ 3 \<le> 2 ^ s" using s by (intro power_increasing) simp_all
  then have "(n - 32) div 2 ^ s \<le> (n - 32) div 8" by (intro div_le_mono2) simp_all
  moreover have "(n - 32) div 8 * 8 \<le> n" by (rule order_trans [OF div_times_less_eq_dividend]) simp
  moreover have "\<And>x y. x \<le> y \<Longrightarrow> y * 8 \<le> n \<Longrightarrow> 8 * (x + 2) \<le> n + 16" by simp
  ultimately have "8 * ?E \<le> n + 16" unfolding E by blast
  then show "32 + 2 * ?F + 64 \<le> n" using dF n(1) by linarith
  have "(2::nat) ^ s \<le> 2 ^ 6" using s by (intro power_increasing) simp_all
  then show "2 ^ s \<le> (64::nat)" by simp
qed

text \<open>What holds of all three.\<close>

lemma fresh_ok:
  assumes c: "size_ok t s n"
  defines "r \<equiv> fresh_reserved t" and "R \<equiv> fresh_root t" and "F \<equiv> fresh_fat t s n" and "N \<equiv> fresh_clusters t s n"
  shows "r + R + F * 2 + 2 ^ s \<le> n" "0 < F" "t \<noteq> UFAT_TYPE_FAT32 \<Longrightarrow> F \<le> 258" "3 \<le> N" "N \<le> max_clusters t"
    "entry_end t (N - 1) \<le> F * 512" "r + R + F * 2 + (N - 2) * 2 ^ s \<le> n" "n < r + R + F * 2 + (N - 2) * 2 ^ s + 2 ^ s"
    "t = UFAT_TYPE_FAT12 \<longleftrightarrow> t \<noteq> UFAT_TYPE_FAT32 \<and> N \<le> 0xff6" "1 \<le> s" "s \<le> 6" "N \<le> fresh_estimate t s n"
proof -
  show room: "r + R + F * 2 + 2 ^ s \<le> n"
    using c fresh_12 [of s n] fresh_16 [of s n] fresh_32 [of s n] fresh_16(3) [of s n]
    by (cases t) (auto simp: r_def R_def F_def fresh_reserved_def fresh_root_def size_ok_def)
  show "0 < F" using c fresh_12(3) fresh_16(3) fresh_32(3) by (cases t) (auto simp: F_def)
  show "t \<noteq> UFAT_TYPE_FAT32 \<Longrightarrow> F \<le> 258" using c fresh_12(2) [of s n] fresh_16(2) [of s n] by (cases t) (auto simp: F_def)
  have N: "N = (n - r - R - F * 2) div 2 ^ s + 2" by (simp add: N_def r_def R_def F_def fresh_clusters_def)
  have "2 ^ s div 2 ^ s \<le> (n - r - R - F * 2) div 2 ^ s" using room by (intro div_le_mono) linarith
  then show N3: "3 \<le> N" unfolding N by simp
  have "(n - r - R - F * 2) div 2 ^ s \<le> (n - r) div 2 ^ s" by (intro div_le_mono) linarith
  then show NE: "N \<le> fresh_estimate t s n" by (simp add: N fresh_estimate_def r_def)
  then show "N \<le> max_clusters t"
    using c fresh_12(4) [of s n] fresh_12(5) [of s n] fresh_16(6) [of s n] fresh_32(4) [of s n]
    by (cases t) (auto simp: max_clusters_def N_def)
  show "entry_end t (N - 1) \<le> F * 512"
  proof (cases t)
    case UFAT_TYPE_FAT12
    have "entry_end t (N - 1) = (N - 1) div 2 * 3 + (if odd (N - 1) then 3 else 2)"
      using UFAT_TYPE_FAT12 by (simp add: entry_end_def)
    then have "entry_end t (N - 1) * 2 \<le> N * 3 + 1" using N3 by presburger
    then show ?thesis using fresh_12(7) [of s n] c NE UFAT_TYPE_FAT12 unfolding F_def by auto
  next
    case UFAT_TYPE_FAT16
    then show ?thesis using fresh_16(8) [of s n] c NE N3 by (simp add: F_def entry_end_def)
  next
    case UFAT_TYPE_FAT32
    then show ?thesis using fresh_32(6) [of s n] c NE N3 by (simp add: F_def entry_end_def)
  qed
  define A where "A = n - r - R - F * 2"
  have A: "A + (r + R + F * 2) = n" using room by (simp add: A_def)
  have e: "N - 2 = A div 2 ^ s" by (simp add: N A_def)
  have "A div 2 ^ s * 2 ^ s \<le> A" "A < A div 2 ^ s * 2 ^ s + 2 ^ s" using div_bounds [of "2 ^ s" A] by simp_all
  then show "r + R + F * 2 + (N - 2) * 2 ^ s \<le> n" "n < r + R + F * 2 + (N - 2) * 2 ^ s + 2 ^ s"
    unfolding e using A by linarith+
  show "t = UFAT_TYPE_FAT12 \<longleftrightarrow> t \<noteq> UFAT_TYPE_FAT32 \<and> N \<le> 0xff6"
    using c fresh_12(5) [of s n] fresh_16(5) [of s n] by (cases t) (auto simp: N_def)
  show "1 \<le> s" "s \<le> 6" using c by (cases t; auto simp: size_ok_def)+
qed

section \<open>The layout as the code computes it\<close>

lemma unat_cluster_count:
  "unat (x::u64) < 2 ^ 32 - 2 \<Longrightarrow> unat (ucast (drop_bit s x + 2) :: u32) = unat x div 2 ^ s + 2"
proof -
  assume x: "unat x < 2 ^ 32 - 2"
  define q where "q = unat x div 2 ^ s"
  have "q \<le> unat x" unfolding q_def by (rule div_le_dividend)
  then have q: "q < 2 ^ 32 - 2" using x by linarith
  have "unat (drop_bit s x) = q" unfolding unat_drop_bit_eq q_def by (simp add: drop_bit_eq_div)
  then have "unat (drop_bit s x + 2) = unat x div 2 ^ s + 2" "unat x div 2 ^ s + 2 < 2 ^ 32"
    using q by (simp_all add: unat_word_ariths flip: q_def)
  then show ?thesis unfolding unsigned_ucast_eq by (simp add: take_bit_nat_eq_self)
qed

lemma unat_bytes_to_blocks: "unat b + 511 < 2 ^ 32 \<Longrightarrow> unat (bytes_to_blocks 9 b) = (unat b + 511) div 512"
proof -
  assume b: "unat b + 511 < 2 ^ 32"
  have "b + push_bit 9 1 - 1 = b + 511" by (simp add: push_bit_of_1 algebra_simps)
  moreover have "unat (b + 511) = unat b + 511" using b by (simp add: unat_word_ariths)
  ultimately show ?thesis unfolding bytes_to_blocks_def unat_u32_64 unat_drop_32 by (simp only:) simp
qed

lemma unat_minus: "unat y \<le> unat (x::'a::len word) \<Longrightarrow> unat (x - y) = unat x - unat y"
  by (simp add: unat_sub word_le_nat_alt)

lemma table_bytes:
  assumes c: "size_ok t s n" and e: "unat (est::u32) = fresh_estimate t s n"
  shows "unat (bytes_to_blocks 9 (case t of UFAT_TYPE_FAT32 \<Rightarrow> push_bit 2 est | UFAT_TYPE_FAT16 \<Rightarrow> push_bit 1 est
      | UFAT_TYPE_FAT12 \<Rightarrow> drop_bit 1 (est * 3 + 1))) = fresh_fat t s n"
proof (cases t)
  case UFAT_TYPE_FAT12
  have "unat est \<le> 4098" using fresh_12(4) c UFAT_TYPE_FAT12 e by auto
  then have "unat (est * 3 + 1) = unat est * 3 + 1" by (simp add: unat_word_ariths)
  then have "unat (drop_bit 1 (est * 3 + 1)) = (unat est * 3 + 1) div 2" by (simp add: unat_drop_32)
  then show ?thesis using UFAT_TYPE_FAT12 e \<open>unat est \<le> 4098\<close> by (simp add: fresh_fat_def unat_bytes_to_blocks)
next
  case UFAT_TYPE_FAT16
  have "unat est \<le> 65538" using fresh_16(4) c UFAT_TYPE_FAT16 e by auto
  then have "unat (push_bit 1 est) = unat est * 2" using unat_shift_32 [of est 1] by simp
  then show ?thesis using UFAT_TYPE_FAT16 e \<open>unat est \<le> 65538\<close>
    by (simp only: fresh_fat_def ufat_fat_type_t.case, subst unat_bytes_to_blocks) simp_all
next
  case UFAT_TYPE_FAT32
  have "unat est \<le> 33554434" using fresh_32(4) c UFAT_TYPE_FAT32 e by auto
  then have "unat (push_bit 2 est) = unat est * 4" using unat_shift_32 [of est 2] by simp
  then show ?thesis using UFAT_TYPE_FAT32 e \<open>unat est \<le> 33554434\<close>
    by (simp only: fresh_fat_def ufat_fat_type_t.case, subst unat_bytes_to_blocks) simp_all
qed

text \<open>What \<open>calculate_layout\<close> promises for a device of \<open>n\<close> blocks.\<close>

definition layout_for :: "nat \<Rightarrow> ufat_fat_type_t \<Rightarrow> nat \<Rightarrow> fs_layout \<Rightarrow> bool" where
  "layout_for n t s fl \<longleftrightarrow> size_ok t s n \<and> type fl = t \<and> log2_sector_size fl = 9 \<and> log2_bpc fl = s \<and>
     unat (reserved_blocks fl) = fresh_reserved t \<and> unat (fat_blocks fl) = fresh_fat t s n \<and>
     unat (clusters fl) = fresh_clusters t s n \<and>
     unat (logical_blocks fl) = unat (reserved_blocks fl) + unat (fat_blocks fl) * 2 + unat (root_blocks fl) +
       (unat (clusters fl) - 2) * 2 ^ s \<and>
     (t = UFAT_TYPE_FAT32 \<longrightarrow> unat (root_blocks fl) = 0) \<and> (t \<noteq> UFAT_TYPE_FAT32 \<longrightarrow> unat (logical_blocks fl) = n)"

lemma layout_nat:
  assumes n: "40 \<le> n" "n \<le> 2 ^ 31"
  shows "\<exists>t s fl. calculate_layout (of_nat n) 9 = Inr fl \<and> layout_for n t s fl"
proof -
  obtain t thr l where c: "choose_type (of_nat n) = (t, thr, l)" by (cases "choose_type (of_nat n)")
  define s where "s = cluster_loop 9 (of_nat n) thr l"
  have ok: "size_ok t s n" unfolding size_ok_def
    using n size_class [OF n c] by (cases t) (simp_all add: s_def)
  note K = fresh_ok [OF ok]
  let ?r = "fresh_reserved t" and ?R = "fresh_root t" and ?F = "fresh_fat t s n" and ?N = "fresh_clusters t s n"
  let ?nb = "of_nat n :: u64"
  have u: "unat ?nb = n" using n(2) by (simp add: unat_of_nat)
  have un: "(ucast ?nb :: u32) = of_nat n" unfolding word_unat_eq_iff using n(2) by (simp add: unsigned_ucast_eq u take_bit_nat_eq_self unat_of_nat)
  have sl: "sector_loop 9 ?nb 0 = 0" "\<not> 0xffffffff < ?nb"
    using n(2) by (subst sector_loop.simps, simp_all add: word_less_nat_alt u)
  define res :: u64 where "res = (if t = UFAT_TYPE_FAT32 then 32 else 1)"
  define root :: u64 where "root = (if t \<noteq> UFAT_TYPE_FAT32 then bytes_to_blocks 9 16384 else 0)"
  have ur: "unat res = ?r" "unat root = ?R"
    by (simp_all add: res_def root_def fresh_reserved_def fresh_root_def unat_bytes_to_blocks)
  define est where "est = (ucast (drop_bit s (?nb - res) + 2) :: u32)"
  have "unat (?nb - res) = n - ?r" using K(1) by (simp add: unat_minus u ur)
  then have ue: "unat est = fresh_estimate t s n"
    unfolding est_def fresh_estimate_def using n(2) by (subst unat_cluster_count) simp_all
  define fat where "fat = bytes_to_blocks 9 (case t of UFAT_TYPE_FAT32 \<Rightarrow> push_bit 2 est | UFAT_TYPE_FAT16 \<Rightarrow> push_bit 1 est
      | UFAT_TYPE_FAT12 \<Rightarrow> drop_bit 1 (est * 3 + 1))"
  have uf: "unat fat = ?F" unfolding fat_def by (rule table_bytes [OF ok ue])
  have uf2: "unat (fat * 2) = ?F * 2" using K(1) n(2) by (simp add: unat_word_ariths uf)
  define cl where "cl = (ucast (drop_bit s (?nb - res - root - fat * 2) + 2) :: u32)"
  have ua: "unat (?nb - res - root - fat * 2) = n - ?r - ?R - ?F * 2"
    using K(1) by (simp add: unat_minus u ur uf2)
  then have uc: "unat cl = ?N"
    unfolding cl_def fresh_clusters_def using n(2) by (subst unat_cluster_count) simp_all
  have uc2: "unat (cl - 2) = ?N - 2" using K(4) uc by (simp add: unat_minus)
  have "(?N - 2) * 2 ^ s \<le> n" using K(7) by linarith
  then have "(?N - 2) * 2 ^ s \<le> 2 ^ 31" using n(2) by (rule order_trans)
  then have "(?N - 2) * 2 ^ s < 2 ^ 32" by (rule le_less_trans) simp
  then have up: "unat (ucast (push_bit s (cl - 2)) :: u64) = (?N - 2) * 2 ^ s"
    unfolding unat_u32_64 using unat_shift_32 [of "cl - 2" s] uc2 by simp
  define rt where "rt = (if t \<noteq> UFAT_TYPE_FAT32 then ?nb - res - fat * 2 - ucast (push_bit s (cl - 2)) else root)"
  define fl where "fl = \<lparr>log2_sector_size = 9, log2_bpc = s, reserved_blocks = res, root_blocks = rt, fat_blocks = fat,
             logical_blocks = ucast (push_bit s (cl - 2)) + fat * 2 + res + rt, clusters = cl, type = t\<rparr>"
  have e: "calculate_layout ?nb 9 = Inr fl"
    by (simp add: calculate_layout_def sl un c fl_def s_def rt_def cl_def fat_def est_def root_def res_def Let_def
        cong: ufat_fat_type_t.case_cong)
  have rt: "unat rt = (if t = UFAT_TYPE_FAT32 then 0 else n - ?r - ?F * 2 - (?N - 2) * 2 ^ s)"
    using K(7) ur by (simp add: rt_def unat_minus u uf2 up fresh_root_def)
  then have "(?N - 2) * 2 ^ s + ?F * 2 + ?r + unat rt \<le> n" using K(7) by (simp split: if_splits)
  then have lb: "unat (logical_blocks fl) = (?N - 2) * 2 ^ s + ?F * 2 + ?r + unat rt"
    using n(2) by (simp add: fl_def unat_word_ariths up uf2 [unfolded unat_word_ariths] ur uf)
  have "layout_for n t s fl"
    unfolding layout_for_def using ok lb rt K(7) by (simp add: fl_def ur uf uc)
  then show ?thesis using e by blast
qed

section \<open>The boot sector\<close>

lemma length_w: "length (w16 a) = 2" "length (w32 b) = 4" by (simp_all add: w16_def w32_def)
lemma length_bh: "length boot_header = 11" "length (type_name t) = 8" by (simp_all add: boot_header_def type_name_def split: ufat_fat_type_t.split)

text \<open>Several stores: what is read back from the last one, and what the others leave.\<close>

definition stores_fit :: "(nat \<times> bytes) list \<Rightarrow> nat \<Rightarrow> bool" where
  "stores_fit ss n \<longleftrightarrow> (\<forall>(off, bs) \<in> set ss. off + length bs \<le> n)"

lemma put_all_fit: "stores_fit ss (length buf) \<Longrightarrow> \<exists>b. put_all ss buf = Inr b \<and> length b = length buf"
proof (induction ss buf rule: put_all.induct)
  case (2 off bs ss buf)
  then have "off + length bs \<le> length buf" "stores_fit ss (length buf)" by (simp_all add: stores_fit_def)
  then show ?case using 2(1) [of "mem_splice off bs buf"] by (simp add: mem_store_def)
qed simp

lemma put_all_keeps:
  "put_all ss buf = Inr b \<Longrightarrow> off + n \<le> length buf \<Longrightarrow> \<forall>(o1, bs) \<in> set ss. o1 + length bs \<le> off \<or> off + n \<le> o1 \<Longrightarrow>
   mem_slice off n b = mem_slice off n buf"
proof (induction ss buf rule: put_all.induct)
  case (2 o1 bs ss buf)
  have f: "o1 + length bs \<le> length buf" "put_all ss (mem_splice o1 bs buf) = Inr b"
    using 2(2) by (auto simp: mem_store_def split: if_splits)
  have "mem_slice off n b = mem_slice off n (mem_splice o1 bs buf)"
    using f 2(3,4) by (intro 2(1)) (simp_all add: mem_store_def)
  also have "\<dots> = mem_slice off n buf" using f(1) 2(3,4) by (intro mem_slice_splice_disjoint) auto
  finally show ?case .
qed simp

fun store_at :: "nat \<Rightarrow> nat \<Rightarrow> (nat \<times> bytes) list \<Rightarrow> bytes option" where
  "store_at off n [] = None"
| "store_at off n ((o1, bs) # ss) =
     (case store_at off n ss of Some xs \<Rightarrow> Some xs
      | None \<Rightarrow>
          if o1 = off \<and> length bs = n \<and> list_all (\<lambda>(o2, xs). o2 + length xs \<le> off \<or> off + n \<le> o2) ss then Some bs else None)"

lemma put_all_read: "put_all ss buf = Inr b \<Longrightarrow> store_at off n ss = Some bs \<Longrightarrow> mem_slice off n b = bs"
proof (induction ss buf rule: put_all.induct)
  case (2 o1 xs ss buf)
  have f: "o1 + length xs \<le> length buf" "put_all ss (mem_splice o1 xs buf) = Inr b"
    using 2(2) by (auto simp: mem_store_def split: if_splits)
  show ?case
  proof (cases "store_at off n ss")
    case None
    then have e: "o1 = off" "length xs = n" "bs = xs" "\<forall>(o2, ys) \<in> set ss. o2 + length ys \<le> off \<or> off + n \<le> o2"
      using 2(3) by (auto simp: list_all_iff split: if_splits)
    have "mem_slice off n b = mem_slice off n (mem_splice o1 xs buf)"
      by (rule put_all_keeps [OF f(2)]) (use f e in auto)
    then show ?thesis using f(1) e by (simp add: mem_simps)
  next
    case (Some ys)
    then have "store_at off n ss = Some bs" using 2(3) by simp
    moreover have "mem_store buf o1 xs = Inr (mem_splice o1 xs buf)" using f(1) by (simp add: mem_store_def)
    ultimately show ?thesis using 2(1) f(2) by blast
  qed
qed simp

lemma bpb_fit: "stores_fit (bpb_stores 9 fl) 512"
  by (simp add: stores_fit_def bpb_stores_def Let_def length_w length_bh)

lemma put_all_zero: "put_all ss (replicate k 0) = Inr b \<Longrightarrow> off + n \<le> k \<Longrightarrow>
    list_all (\<lambda>(o1, bs). o1 + length bs \<le> off \<or> off + n \<le> o1) ss \<Longrightarrow> mem_slice off n b = replicate n 0"
  using put_all_keeps [of ss "replicate k 0" b off n] by (simp add: list_all_iff mem_slice_def)

lemmas bpb_simps = bpb_stores_def Let_def length_w length_bh push_bit_of_1

lemma bpb_read:
  assumes p: "put_all (bpb_stores 9 fl) (replicate 512 0) = Inr b" and l: "log2_sector_size fl = 9"
  shows "mem_slice 0x1fe 1 b = [0x55]" "mem_slice 0x1ff 1 b = [0xaa]" "mem_slice 0x00b 2 b = w16 512"
    "mem_slice 0x00d 1 b = [push_bit (log2_bpc fl) 1]" "mem_slice 0x00e 2 b = w16 (ucast (reserved_blocks fl))"
    "mem_slice 0x010 1 b = [2]" "mem_slice 0x011 2 b = w16 (ucast (push_bit 4 (root_blocks fl)))"
  by (rule put_all_read [OF p], simp add: bpb_simps l)+

lemma bpb_read_total:
  assumes p: "put_all (bpb_stores 9 fl) (replicate 512 0) = Inr b" and l: "log2_sector_size fl = 9"
  shows "mem_slice 0x013 2 b = (if type fl \<noteq> UFAT_TYPE_FAT32 \<and> logical_blocks fl \<le> 0xffff then w16 (ucast (logical_blocks fl)) else [0, 0])"
    "\<not> (type fl \<noteq> UFAT_TYPE_FAT32 \<and> logical_blocks fl \<le> 0xffff) \<Longrightarrow> mem_slice 0x020 4 b = w32 (ucast (logical_blocks fl))"
proof -
  have z: "mem_slice 0x013 2 b = replicate 2 0" if "\<not> (type fl \<noteq> UFAT_TYPE_FAT32 \<and> logical_blocks fl \<le> 0xffff)"
    by (rule put_all_zero [OF p]) (use that in \<open>auto simp: bpb_simps l\<close>)
  have "mem_slice 0x013 2 b = w16 (ucast (logical_blocks fl))" if "type fl \<noteq> UFAT_TYPE_FAT32 \<and> logical_blocks fl \<le> 0xffff"
    by (rule put_all_read [OF p]) (use that in \<open>simp add: bpb_simps l\<close>)
  then show "mem_slice 0x013 2 b = (if type fl \<noteq> UFAT_TYPE_FAT32 \<and> logical_blocks fl \<le> 0xffff then w16 (ucast (logical_blocks fl)) else [0, 0])"
    using z by (auto simp: numeral_2_eq_2)
  show "mem_slice 0x020 4 b = w32 (ucast (logical_blocks fl))" if "\<not> (type fl \<noteq> UFAT_TYPE_FAT32 \<and> logical_blocks fl \<le> 0xffff)"
    by (rule put_all_read [OF p]) (use that in \<open>auto simp: bpb_simps l\<close>)
qed

lemma bpb_read_fat:
  assumes p: "put_all (bpb_stores 9 fl) (replicate 512 0) = Inr b" and l: "log2_sector_size fl = 9"
  shows "mem_slice 0x016 2 b = (if type fl \<noteq> UFAT_TYPE_FAT32 then w16 (ucast (fat_blocks fl)) else [0, 0])"
    "type fl = UFAT_TYPE_FAT32 \<Longrightarrow> mem_slice 0x024 4 b = w32 (ucast (fat_blocks fl))"
    "type fl = UFAT_TYPE_FAT32 \<Longrightarrow> mem_slice 0x02c 4 b = w32 2"
proof -
  have "mem_slice 0x016 2 b = replicate 2 0" if "type fl = UFAT_TYPE_FAT32"
    by (rule put_all_zero [OF p]) (use that in \<open>simp_all add: bpb_simps l\<close>)
  moreover have "mem_slice 0x016 2 b = w16 (ucast (fat_blocks fl))" if "type fl \<noteq> UFAT_TYPE_FAT32"
    by (rule put_all_read [OF p]) (use that in \<open>simp add: bpb_simps l\<close>)
  ultimately show "mem_slice 0x016 2 b = (if type fl \<noteq> UFAT_TYPE_FAT32 then w16 (ucast (fat_blocks fl)) else [0, 0])"
    by (auto simp: numeral_2_eq_2)
  show "mem_slice 0x024 4 b = w32 (ucast (fat_blocks fl))" "mem_slice 0x02c 4 b = w32 2" if "type fl = UFAT_TYPE_FAT32"
    by (rule put_all_read [OF p], use that in \<open>simp add: bpb_simps l\<close>)+
qed

section \<open>Opening what was written\<close>

lemma log2_exact_fresh: "log2_exact 512 = Some 9" "1 \<le> s \<Longrightarrow> s \<le> 6 \<Longrightarrow> log2_exact (ucast (push_bit s 1 :: u8)) = Some (of_nat s)"
proof -
  show "log2_exact 512 = Some 9" by (simp add: log2_exact_def log2_loop.simps)
  assume "1 \<le> s" "s \<le> 6"
  then have "s = 1 \<or> s = 2 \<or> s = 3 \<or> s = 4 \<or> s = 5 \<or> s = 6" by linarith
  then show "log2_exact (ucast (push_bit s 1 :: u8)) = Some (of_nat s)"
    by (elim disjE) (simp_all add: log2_exact_def log2_loop.simps push_bit_of_1)
qed

text \<open>The parameter block of a fresh volume.\<close>

definition fresh_bpb :: "fs_layout \<Rightarrow> ufat_bpb" where
  "fresh_bpb fl = \<lparr>fat_type = type fl, log2_blocks_per_cluster = of_nat (log2_bpc fl), fat_start = reserved_blocks fl,
     fat_size = fat_blocks fl, fat_count = 2, cluster_start = reserved_blocks fl + fat_blocks fl * 2 + root_blocks fl,
     num_clusters = clusters fl, root_start = reserved_blocks fl + fat_blocks fl * 2, root_size = root_blocks fl,
     root_cluster = (if type fl = UFAT_TYPE_FAT32 then 2 else 0)\<rparr>"

lemma layout_forD:
  assumes "layout_for n t s fl"
  shows "size_ok t s n" "type fl = t" "log2_sector_size fl = 9" "log2_bpc fl = s"
    "unat (reserved_blocks fl) = fresh_reserved t" "unat (fat_blocks fl) = fresh_fat t s n"
    "unat (clusters fl) = fresh_clusters t s n"
    "unat (logical_blocks fl) = unat (reserved_blocks fl) + unat (fat_blocks fl) * 2 + unat (root_blocks fl) +
       (unat (clusters fl) - 2) * 2 ^ s"
    "t = UFAT_TYPE_FAT32 \<Longrightarrow> unat (root_blocks fl) = 0" "t \<noteq> UFAT_TYPE_FAT32 \<Longrightarrow> unat (logical_blocks fl) = n"
  using assms unfolding layout_for_def by blast+

lemma slice_one_nth: "mem_slice k 1 b = [x] \<Longrightarrow> k < length b \<Longrightarrow> b ! k = x"
  using nth_mem_slice [of 0 1 k b] by simp

lemma unat_ucast_small: "unat (x::u64) < 2 ^ LENGTH('a) \<Longrightarrow> unat (ucast x :: 'a::len word) = unat x"
  unfolding unsigned_ucast_eq by (simp add: take_bit_nat_eq_self)

lemma layout_root: "layout_for n t s fl \<Longrightarrow> unat (root_blocks fl) < 96"
proof -
  assume f: "layout_for n t s fl"
  note L = layout_forD [OF f] and K = fresh_ok [OF layout_forD(1) [OF f]]
  have "(2::nat) ^ s \<le> 2 ^ 6" using K(11) by (intro power_increasing) simp_all
  then show ?thesis
    using L(5-10) K(8) by (cases "t = UFAT_TYPE_FAT32") (simp_all add: fresh_root_def)
qed

lemma layout_small:
  assumes f: "layout_for n t s fl"
  shows "unat (logical_blocks fl) \<le> n" "40 \<le> unat (logical_blocks fl)" "n \<le> 2 ^ 31" "unat (reserved_blocks fl) \<le> 32"
    "0 < unat (reserved_blocks fl)" "unat (fat_blocks fl) \<le> 262145" "t \<noteq> UFAT_TYPE_FAT32 \<Longrightarrow> unat (fat_blocks fl) \<le> 258" "0 < unat (fat_blocks fl)"
proof -
  note L = layout_forD [OF f] and K = fresh_ok [OF layout_forD(1) [OF f]]
  have sz: "40 \<le> n" "n \<le> 2 ^ 31" using L(1) by (simp_all add: size_ok_def)
  then show "n \<le> 2 ^ 31" by simp
  show "unat (logical_blocks fl) \<le> n" using L(5-10) K(7) by (cases "t = UFAT_TYPE_FAT32") simp_all
  show "unat (reserved_blocks fl) \<le> 32" "0 < unat (reserved_blocks fl)" by (simp_all add: L fresh_reserved_def)
  show F: "t \<noteq> UFAT_TYPE_FAT32 \<Longrightarrow> unat (fat_blocks fl) \<le> 258" "0 < unat (fat_blocks fl)" using K(2,3) L(6) by simp_all
  show "unat (fat_blocks fl) \<le> 262145" using F fresh_32(2) [of s n] L(1,6) by (cases "t = UFAT_TYPE_FAT32") auto
  show "40 \<le> unat (logical_blocks fl)"
  proof (cases "t = UFAT_TYPE_FAT32")
    case True
    then have "1048576 \<le> n" "2 ^ s \<le> (64::nat)" using L(1) fresh_32(5) [of s n] by (simp_all add: size_ok_def)
    then show ?thesis using True L(5-9) K(8) by (simp add: fresh_root_def)
  qed (use L(10) sz in simp)
qed

lemma boot_words:
  assumes f: "layout_for n t s fl" and p: "put_all (bpb_stores 9 fl) (replicate 512 0) = Inr b"
  shows "length b = 512" "r16 (mem_slice 0x00b 2 b) = 512" "b ! 0x00d = push_bit s 1" "b ! 0x010 = 2"
    "r16 (mem_slice 0x1fe 2 b) = 0xaa55" "unat (r16 (mem_slice 0x00e 2 b)) = unat (reserved_blocks fl)"
    "unat (r16 (mem_slice 0x011 2 b)) = unat (root_blocks fl) * 16" "t = UFAT_TYPE_FAT32 \<Longrightarrow> r32 (mem_slice 0x02c 4 b) = 2"
    "boot_per_fat b = unat (fat_blocks fl)" "boot_total b = unat (logical_blocks fl)"
proof -
  note L = layout_forD [OF f] and S = layout_small [OF f] and R = bpb_read [OF p L(3)]
  show l: "length b = 512" using put_all_fit [of "bpb_stores 9 fl" "replicate 512 0"] bpb_fit [of fl] p by simp
  show "r16 (mem_slice 0x00b 2 b) = 512" "unat (r16 (mem_slice 0x00e 2 b)) = unat (reserved_blocks fl)"
    using R S(4) by (simp_all add: unat_ucast_small)
  show "b ! 0x00d = push_bit s 1" "b ! 0x010 = 2" using slice_one_nth [OF R(4)] slice_one_nth [OF R(6)] l L(4) by simp_all
  have "mem_slice 0x1fe 2 b = [b ! 0x1fe, b ! 0x1ff]"
    using l by (intro nth_equalityI) (auto simp: nth_mem_slice less_Suc_eq numeral_2_eq_2)
  then show "r16 (mem_slice 0x1fe 2 b) = 0xaa55" using slice_one_nth [OF R(1)] slice_one_nth [OF R(2)] l by (simp add: r16_def)
  have "unat (push_bit 4 (root_blocks fl)) = unat (root_blocks fl) * 16"
    unfolding unsigned_push_bit_eq using layout_root [OF f] by (simp add: take_bit_nat_eq_self push_bit_eq_mult)
  then show "unat (r16 (mem_slice 0x011 2 b)) = unat (root_blocks fl) * 16"
    using R(7) layout_root [OF f] by (simp add: unat_ucast_small)
  show "t = UFAT_TYPE_FAT32 \<Longrightarrow> r32 (mem_slice 0x02c 4 b) = 2" using bpb_read_fat(3) [OF p L(3)] L(2) by simp
  have z: "r16 [0, 0] = 0" by (simp add: r16_def)
  have u16: "unat x < 2 ^ 16 \<Longrightarrow> unat x \<noteq> 0 \<Longrightarrow> ucast x \<noteq> (0 :: u16)" for x :: u64
    using unat_ucast_small [of x, where 'a = 16] by (auto simp: unsigned_eq_0_iff)
  show "boot_per_fat b = unat (fat_blocks fl)"
  proof (cases "t = UFAT_TYPE_FAT32")
    case True
    then show ?thesis using bpb_read_fat(1,2) [OF p L(3)] L(2) z S(6) by (simp add: boot_per_fat_def unat_ucast_small)
  next
    case False
    then show ?thesis using bpb_read_fat(1) [OF p L(3)] L(2) S(7,8) u16 [of "fat_blocks fl"]
      by (simp add: boot_per_fat_def unat_ucast_small)
  qed
  show "boot_total b = unat (logical_blocks fl)"
  proof (cases "type fl \<noteq> UFAT_TYPE_FAT32 \<and> logical_blocks fl \<le> 0xffff")
    case True
    then have "unat (logical_blocks fl) < 2 ^ 16" by (simp add: word_le_nat_alt)
    then show ?thesis using True bpb_read_total(1) [OF p L(3)] S(2) u16 [of "logical_blocks fl"]
      by (simp add: boot_total_def unat_ucast_small)
  next
    case False
    moreover have "unat (logical_blocks fl) < 2 ^ 32" using S(1,3) by simp
    ultimately show ?thesis using bpb_read_total [OF p L(3)] z by (auto simp: boot_total_def unat_ucast_small)
  qed
qed

lemma parse_eval:
  assumes b: "length b = 512" "r16 (mem_slice 0x00b 2 b) = 512" "b ! 0x00d = push_bit s 1" "b ! 0x010 = 2"
      "r16 (mem_slice 0x1fe 2 b) = 0xaa55" and s: "1 \<le> s" "s \<le> 6"
  shows "\<exists>T F. unat T = boot_total b \<and> unat F = boot_per_fat b \<and> parse_bpb 9 p0 b =
    Inr (finish_bpb (p0\<lparr>log2_blocks_per_cluster := of_nat s, fat_start := ucast (ucast (r16 (mem_slice 0x00e 2 b)) :: u32),
        fat_size := ucast F, root_size := ucast (of_nat (boot_root b) :: u32)\<rparr>)
      2 T (r16 (mem_slice 0x00e 2 b)) F (of_nat (boot_root b)) (of_nat s) (r32 (mem_slice 0x02c 4 b)))"
proof -
  define F :: u32 where "F = (if r16 (mem_slice 0x016 2 b) = 0 then r32 (mem_slice 0x024 4 b) else ucast (r16 (mem_slice 0x016 2 b)))"
  define T :: u32 where "T = (if r16 (mem_slice 0x013 2 b) = 0 then r32 (mem_slice 0x020 4 b) else ucast (r16 (mem_slice 0x013 2 b)))"
  have FT: "unat T = boot_total b" "unat F = boot_per_fat b"
    by (simp_all add: F_def T_def boot_per_fat_def boot_total_def unat_u16_32)
  have lds: "(if r16 (mem_slice 0x013 2 b) = 0 then ld32 b 0x020 else Inr (ucast (r16 (mem_slice 0x013 2 b)))) = Inr T"
      "(if r16 (mem_slice 0x016 2 b) = 0 then ld32 b 0x024 else Inr (ucast (r16 (mem_slice 0x016 2 b)))) = Inr F"
    using b(1) by (simp_all add: T_def F_def ld_slice)
  have r: "boot_root b = (unat (r16 (mem_slice 0x011 2 b)) * UFAT_DIRENT_SIZE + unat (512::u16) - 1) div unat (512::u16)"
    by (simp add: boot_root_def boot_bytes_def b(2) UFAT_DIRENT_SIZE_def)
  have "log2_exact (ucast (512::u16)) = Some 9" using log2_exact_fresh(1) by simp
  then have "parse_bpb 9 p0 b =
    Inr (finish_bpb (p0\<lparr>log2_blocks_per_cluster := of_nat s, fat_start := ucast (ucast (r16 (mem_slice 0x00e 2 b)) :: u32),
        fat_size := ucast F, root_size := ucast (of_nat (boot_root b) :: u32)\<rparr>)
      2 T (r16 (mem_slice 0x00e 2 b)) F (of_nat (boot_root b)) (of_nat s) (r32 (mem_slice 0x02c 4 b)))"
    using lds b log2_exact_fresh(2) [OF s]
    by (simp add: parse_bpb_def ld_slice mem_load8_nth r sectors_to_blocks_def Let_def)
  then show ?thesis using FT by blast
qed

lemma parse_fresh:
  assumes f: "layout_for n t s fl" and p: "put_all (bpb_stores 9 fl) (replicate 512 0) = Inr b"
  shows "parse_bpb 9 p0 b = Inr (0, fresh_bpb fl)" "boot_fits 9 b" "boot_total b * boot_bytes b \<le> n * 2 ^ 9"
    "boot_per_fat b * boot_bytes b = unat (fat_blocks fl) * 512"
proof -
  note B = boot_words [OF f p] and L = layout_forD [OF f] and S = layout_small [OF f]
  note K = fresh_ok [OF L(1)]
  have rt: "boot_root b = unat (root_blocks fl)" by (simp add: boot_root_def boot_bytes_def B(2,7))
  have bb: "boot_bytes b = 512" by (simp add: boot_bytes_def B(2))
  show "boot_fits 9 b" using B(9,10) S(1,3) L(8) bb rt by (simp add: boot_fits_def boot_reserved_def B(6) boot_fats_def B(4))
  show "boot_total b * boot_bytes b \<le> n * 2 ^ 9" using S(1) by (simp add: B(10) bb)
  show "boot_per_fat b * boot_bytes b = unat (fat_blocks fl) * 512" by (simp add: B(9) bb)
  obtain T F where e: "unat T = boot_total b" "unat F = boot_per_fat b" "parse_bpb 9 p0 b =
    Inr (finish_bpb (p0\<lparr>log2_blocks_per_cluster := of_nat s, fat_start := ucast (ucast (r16 (mem_slice 0x00e 2 b)) :: u32),
        fat_size := ucast F, root_size := ucast (of_nat (boot_root b) :: u32)\<rparr>)
      2 T (r16 (mem_slice 0x00e 2 b)) F (of_nat (boot_root b)) (of_nat s) (r32 (mem_slice 0x02c 4 b)))"
    using parse_eval [OF B(1-5) K(10,11)] by blast
  let ?rs = "of_nat (boot_root b) :: u32"
  have ur: "unat ?rs = unat (root_blocks fl)" using layout_root [OF f] by (simp add: rt unat_ucast_small)
  have w: "ucast (ucast (r16 (mem_slice 0x00e 2 b)) :: u32) = reserved_blocks fl" "ucast F = fat_blocks fl" "ucast ?rs = root_blocks fl"
    unfolding word_unat_eq_iff unat_u32_64 by (simp_all add: unat_u16_32 B(6) e(2) B(9) ur)
  have z: "?rs = 0 \<longleftrightarrow> t = UFAT_TYPE_FAT32"
  proof -
    have "?rs = 0 \<longleftrightarrow> unat (root_blocks fl) = 0" using ur by (metis unsigned_eq_0_iff)
    moreover have "t \<noteq> UFAT_TYPE_FAT32 \<Longrightarrow> 0 < unat (root_blocks fl)"
      using L(5-8,10) K(7) by (simp add: fresh_root_def)
    ultimately show ?thesis using L(9) by (cases "t = UFAT_TYPE_FAT32") simp_all
  qed
  let ?D = "T - ucast (r16 (mem_slice 0x00e 2 b)) - F * ucast (2::u8) - ?rs"
  have FF: "unat (F * ucast (2::u8)) = unat (fat_blocks fl) * 2" using S(6) by (simp add: unat_word_ariths e(2) B(9))
  have "unat ?D = (unat (clusters fl) - 2) * 2 ^ s"
    using L(8) by (simp add: unat_minus unat_u16_32 B(6,10) e(1) FF [simplified] ur)
  then have "unat (drop_bit s ?D) = unat (clusters fl) - 2" unfolding unat_drop_32 by simp
  moreover have c3: "3 \<le> unat (clusters fl)" using K(4) L(7) by simp
  moreover have "unat (clusters fl) < 2 ^ 32" using unsigned_less [of "clusters fl"] by simp
  ultimately have nc: "drop_bit s ?D + 2 = clusters fl" unfolding word_unat_eq_iff by (simp add: unat_word_ariths)
  have us: "unat (of_nat s :: u32) = s" using K(11) by (simp add: unat_of_nat)
  have ty: "t \<noteq> UFAT_TYPE_FAT32 \<Longrightarrow> (if clusters fl \<le> UFAT_MAX_FAT12 then UFAT_TYPE_FAT12 else UFAT_TYPE_FAT16) = t"
    using K(9) L(7) by (cases t) (auto simp: word_le_nat_alt UFAT_MAX_FAT12_def)
  show "parse_bpb 9 p0 b = Inr (0, fresh_bpb fl)"
    unfolding e(3) finish_bpb_def fresh_bpb_def Let_def us nc w
    using ty z L(2,4) B(8) by (cases "t = UFAT_TYPE_FAT32") (simp_all add: UFAT_CLUSTER_MASK_def)
qed

end
