(* ===== verification/Fat_Fresh.thy ===== *)
theory Fat_Fresh
  imports Fat_Format Fat_Properties
begin

text \<open>
  What formatting leaves on the device: the tables, the cleared areas, and the boot sector; and that opening the
  volume then gives an empty one.
\<close>

section \<open>The bytes of a fresh table\<close>

definition fresh_pair :: "nat \<Rightarrow> nat \<Rightarrow> u32" where
  "fresh_pair N p = (if N \<le> 2 * p then 0xff7ff7 else if N \<le> 2 * p + 1 then 0xff7000 else 0)"

definition pair_byte :: "nat \<Rightarrow> nat \<Rightarrow> u8" where
  "pair_byte N i = ucast (drop_bit (8 * (i mod 3)) (fresh_pair N (i div 3)))"

definition entry_byte :: "nat \<Rightarrow> bytes \<Rightarrow> nat \<Rightarrow> nat \<Rightarrow> u8" where
  "entry_byte w bad N i = (if N \<le> i div w then bad ! (i mod w) else 0)"

definition fresh_byte :: "ufat_fat_type_t \<Rightarrow> nat \<Rightarrow> nat \<Rightarrow> u8" where
  "fresh_byte t N i =
     (case t of
        UFAT_TYPE_FAT12 \<Rightarrow> if i < 3 then [0xf8, 0x8f, 0xff] ! i else pair_byte N i
      | UFAT_TYPE_FAT16 \<Rightarrow> if i < 4 then w16 0xfff8 ! (i mod 2) else entry_byte 2 (w16 0xfff7) N i
      | UFAT_TYPE_FAT32 \<Rightarrow> if i < 12 then w32 0xfffffff8 ! (i mod 4) else entry_byte 4 (w32 0xfffffff7) N i)"

definition fresh_block :: "ufat_fat_type_t \<Rightarrow> nat \<Rightarrow> nat \<Rightarrow> bytes" where
  "fresh_block t N k = map (fresh_byte t N) [k * 512..<k * 512 + 512]"

section \<open>The loops over a block\<close>

lemma fill_entries_ok:
  assumes w: "0 < w" "length bad = w"
  shows "c0 + m + n < 2 ^ 32 \<Longrightarrow>
    fill_entries n w bad cl (m * w) (of_nat (c0 + m)) (map (entry_byte w bad (unat cl)) [c0 * w..<(c0 + m) * w] @ replicate (n * w) 0) =
    Inr (map (entry_byte w bad (unat cl)) [c0 * w..<(c0 + m + n) * w], of_nat (c0 + m + n))"
proof (induction n arbitrary: m)
  case (Suc n)
  let ?e = "entry_byte w bad (unat cl)"
  let ?done = "map ?e [c0 * w..<(c0 + m) * w]"
  have l: "length ?done = m * w" by (simp add: add_mult_distrib)
  have "unat (of_nat (c0 + m) :: u32) = c0 + m" unfolding unat_of_nat using Suc.prems by simp
  then have c: "cl \<le> of_nat (c0 + m) \<longleftrightarrow> unat cl \<le> c0 + m" by (simp only: word_le_nat_alt)
  have d: "((c0 + m) * w + k) div w = c0 + m" "((c0 + m) * w + k) mod w = k" if "k < w" for k
    using that w(1) by (simp_all only: div_mult_self3 [of w "c0 + m" k] mod_mult_self3 div_less mod_less add_0_right neq0_conv)
  have up: "[c0 * w..<(c0 + Suc m) * w] = [c0 * w..<(c0 + m) * w] @ [(c0 + m) * w..<(c0 + m) * w + w]"
  proof -
    have e: "(c0 + Suc m) * w = (c0 + m) * w + w" by (simp add: algebra_simps)
    have "c0 * w \<le> (c0 + m) * w" by (rule mult_le_mono1) simp
    then show ?thesis unfolding e by (rule upt_add_eq_append)
  qed
  have b: "map ?e [(c0 + m) * w..<(c0 + m) * w + w] = (if unat cl \<le> c0 + m then bad else replicate w 0)"
    by (rule nth_equalityI) (use w(2) d in \<open>auto simp: entry_byte_def\<close>)
  have st: "(if cl \<le> of_nat (c0 + m) then mem_store (?done @ replicate (Suc n * w) 0) (m * w) bad
      else Inr (?done @ replicate (Suc n * w) 0)) =
    Inr (map ?e [c0 * w..<(c0 + Suc m) * w] @ replicate (n * w) 0)"
    unfolding up map_append b c using l w(2)
    by (auto simp: mem_store_def mem_splice_def replicate_add)
  have nx: "(of_nat (c0 + m) :: u32) + 1 = of_nat (c0 + Suc m)" "m * w + w = Suc m * w" by simp_all
  have "c0 + Suc m + n < 2 ^ 32" using Suc.prems by linarith
  from Suc.IH [OF this] show ?case
    unfolding fill_entries.simps st rbind_Inr nx by (simp only: add_Suc_right add_Suc)
qed simp

lemma fill_block:
  assumes w: "0 < w" "length bad = w" "m * w = 512" and c: "k * m + m < 2 ^ 32"
  shows "fill_entries m w bad cl 0 (of_nat (k * m)) (replicate 512 0) =
    Inr (map (entry_byte w bad (unat cl)) [k * 512..<k * 512 + 512], of_nat (Suc k * m))"
proof -
  have e: "(k * m + 0 + m) * w = k * 512 + 512" "(k * m + 0) * w = k * 512" "k * m * w = k * 512"
    using w(3) by (simp_all add: add_mult_distrib mult.assoc)
  have "k * m + 0 + m = Suc k * m" by simp
  then show ?thesis using fill_entries_ok [OF w(1,2), of "k * m" 0 m cl] c unfolding e w(3) by simp
qed

lemma fill12_ok:
  "(P + n) div 3 * 2 + 2 < 2 ^ 32 \<Longrightarrow>
   fill12 n cl (of_nat (P mod 3)) (of_nat (P div 3)) =
     (map (pair_byte (unat cl)) [P..<P + n], of_nat ((P + n) mod 3), of_nat ((P + n) div 3))"
proof (induction n arbitrary: P)
  case (Suc n)
  define p :: u32 where "p = of_nat (P div 3)"
  define mb :: u32 where "mb = of_nat (P mod 3)"
  have "P div 3 \<le> (P + Suc n) div 3" by (rule div_le_mono) simp
  then have lt: "P div 3 * 2 + 2 < 2 ^ 32" using Suc.prems by linarith
  then have up: "unat p = P div 3" "unat mb = P mod 3" by (simp_all add: unat_of_nat p_def mb_def)
  have p2: "unat (push_bit 1 p) = P div 3 * 2" using unat_shift_32 [of p 1] lt by (simp add: up)
  then have p3: "unat (push_bit 1 p + 1) = P div 3 * 2 + 1" using lt by (simp add: unat_word_ariths)
  have pd: "(if cl \<le> push_bit 1 p then 0xff7ff7 else if cl \<le> push_bit 1 p + 1 then 0xff7000 else 0) = fresh_pair (unat cl) (P div 3)"
    unfolding word_le_nat_alt p2 p3 fresh_pair_def by (simp add: mult.commute)
  have m3: "P mod 3 < 3" by simp
  have sh: "unat (push_bit 3 mb) = 8 * (P mod 3)"
    using unat_shift_32 [of mb 3] m3 by (simp add: up)
  have le: "\<not> 3 \<le> (1::u32)" "\<not> 3 \<le> (2::u32)" by (simp_all add: word_le_nat_alt)
  have st: "(if 3 \<le> mb + 1 then (0, p + 1) else (mb + 1, p)) = (of_nat (Suc P mod 3), of_nat (Suc P div 3))"
  proof (cases "P mod 3 = 2")
    case True
    then have "Suc P mod 3 = 0" "Suc P div 3 = Suc (P div 3)" by presburger+
    then show ?thesis using True by (simp add: mb_def p_def)
  next
    case False
    then have "P mod 3 = 0 \<or> P mod 3 = 1" by presburger
    moreover have "Suc P mod 3 = Suc (P mod 3)" "Suc P div 3 = P div 3" using False by presburger+
    ultimately show ?thesis using le by (auto simp: mb_def p_def)
  qed
  have ih: "fill12 n cl (of_nat (Suc P mod 3)) (of_nat (Suc P div 3)) =
      (map (pair_byte (unat cl)) [Suc P..<Suc P + n], of_nat ((Suc P + n) mod 3), of_nat ((Suc P + n) div 3))"
    using Suc.prems by (intro Suc.IH) simp
  have "[P..<P + Suc n] = P # [Suc P..<Suc P + n]" by (simp add: upt_conv_Cons)
  then show ?case
    unfolding fill12.simps p_def [symmetric] mb_def [symmetric] Let_def pd sh st prod.case ih
    by (simp add: pair_byte_def del: upt_Suc)
qed simp

text \<open>The first entries are put over the first block.\<close>

lemma put_first:
  assumes "length bs \<le> 512" "\<And>i. i < 512 \<Longrightarrow> f i = (if i < length bs then bs ! i else g i)"
  shows "mem_splice 0 bs (map g [0 * 512..<0 * 512 + 512]) = map f [0 * 512..<0 * 512 + 512]"
  using assms by (intro nth_equalityI) (auto simp: nth_mem_splice simp del: upt_Suc)

lemma splice_twice: "a = length xs \<Longrightarrow> a + length ys \<le> length m \<Longrightarrow> mem_splice a ys (mem_splice 0 xs m) = mem_splice 0 (xs @ ys) m"
  by (intro nth_equalityI) (auto simp: nth_mem_splice nth_append)

lemma first_12: "put_all [(0, [MEDIA_DISK]), (1, [0x8f]), (2, [0xff])] (map (pair_byte N) [0 * 512..<0 * 512 + 512]) =
    Inr (fresh_block UFAT_TYPE_FAT12 N 0)"
proof -
  let ?m = "map (pair_byte N) [0 * 512..<0 * 512 + 512]"
  have "mem_splice 2 [0xff] (mem_splice 1 [0x8f] (mem_splice 0 [MEDIA_DISK] ?m)) = mem_splice 0 [MEDIA_DISK, 0x8f, 0xff] ?m"
    by (simp add: splice_twice del: upt_Suc)
  also have "\<dots> = fresh_block UFAT_TYPE_FAT12 N 0"
    unfolding fresh_block_def by (rule put_first) (auto simp: fresh_byte_def MEDIA_DISK_def)
  finally show ?thesis by (simp add: mem_store_def del: upt_Suc)
qed

lemma first_16: "put_all [(0, w16 (0xff00 OR ucast MEDIA_DISK)), (2, w16 0xfff8)] (map (entry_byte 2 (w16 0xfff7) N) [0 * 512..<0 * 512 + 512]) =
    Inr (fresh_block UFAT_TYPE_FAT16 N 0)"
proof -
  let ?m = "map (entry_byte 2 (w16 0xfff7) N) [0 * 512..<0 * 512 + 512]"
  have m: "(0xff00 :: u16) OR ucast MEDIA_DISK = 0xfff8" by (simp add: MEDIA_DISK_def)
  have "mem_splice 2 (w16 0xfff8) (mem_splice 0 (w16 0xfff8) ?m) = mem_splice 0 (w16 0xfff8 @ w16 0xfff8) ?m"
    by (simp add: splice_twice length_w del: upt_Suc)
  also have "\<dots> = fresh_block UFAT_TYPE_FAT16 N 0"
    unfolding fresh_block_def
  proof (rule put_first)
    fix i :: nat assume "i < 512"
    have "i < 4 \<Longrightarrow> i = 0 \<or> i = 1 \<or> i = 2 \<or> i = 3" by linarith
    then show "fresh_byte UFAT_TYPE_FAT16 N i = (if i < length (w16 0xfff8 @ w16 0xfff8) then (w16 0xfff8 @ w16 0xfff8) ! i
        else entry_byte 2 (w16 0xfff7) N i)" by (auto simp: fresh_byte_def length_w w16_def)
  qed (simp add: length_w)
  finally show ?thesis by (simp add: mem_store_def m length_w del: upt_Suc)
qed

lemma first_32: "put_all [(0, w32 (0xffffff00 OR ucast MEDIA_DISK)), (4, w32 0xfffffff8), (8, w32 0xfffffff8)]
      (map (entry_byte 4 (w32 0xfffffff7) N) [0 * 512..<0 * 512 + 512]) =
    Inr (fresh_block UFAT_TYPE_FAT32 N 0)"
proof -
  let ?m = "map (entry_byte 4 (w32 0xfffffff7) N) [0 * 512..<0 * 512 + 512]" and ?e = "w32 0xfffffff8"
  have m: "(0xffffff00 :: u32) OR ucast MEDIA_DISK = 0xfffffff8" by (simp add: MEDIA_DISK_def)
  have "mem_splice 8 ?e (mem_splice 4 ?e (mem_splice 0 ?e ?m)) = mem_splice 0 (?e @ ?e @ ?e) ?m"
    by (simp add: splice_twice length_w del: upt_Suc)
  also have "\<dots> = fresh_block UFAT_TYPE_FAT32 N 0"
    unfolding fresh_block_def
  proof (rule put_first)
    fix i :: nat assume "i < 512"
    have "i < 12 \<Longrightarrow> i = 0 \<or> i = 1 \<or> i = 2 \<or> i = 3 \<or> i = 4 \<or> i = 5 \<or> i = 6 \<or> i = 7 \<or> i = 8 \<or> i = 9 \<or> i = 10 \<or> i = 11" by presburger
    then show "fresh_byte UFAT_TYPE_FAT32 N i = (if i < length (?e @ ?e @ ?e) then (?e @ ?e @ ?e) ! i
        else entry_byte 4 (w32 0xfffffff7) N i)" by (auto simp: fresh_byte_def length_w w32_def w16_def)
  qed (simp add: length_w)
  finally show ?thesis by (simp add: mem_store_def m length_w del: upt_Suc)
qed

lemma later_block:
  assumes "0 < k"
  shows "map (pair_byte N) [k * 512..<k * 512 + 512] = fresh_block UFAT_TYPE_FAT12 N k"
    "map (entry_byte 2 (w16 0xfff7) N) [k * 512..<k * 512 + 512] = fresh_block UFAT_TYPE_FAT16 N k"
    "map (entry_byte 4 (w32 0xfffffff7) N) [k * 512..<k * 512 + 512] = fresh_block UFAT_TYPE_FAT32 N k"
proof -
  have "512 \<le> k * 512" using assms by simp
  then show "map (pair_byte N) [k * 512..<k * 512 + 512] = fresh_block UFAT_TYPE_FAT12 N k"
    "map (entry_byte 2 (w16 0xfff7) N) [k * 512..<k * 512 + 512] = fresh_block UFAT_TYPE_FAT16 N k"
    "map (entry_byte 4 (w32 0xfffffff7) N) [k * 512..<k * 512 + 512] = fresh_block UFAT_TYPE_FAT32 N k"
    by (simp_all add: fresh_block_def fresh_byte_def del: upt_Suc)
qed

section \<open>The loops over the blocks of the tables\<close>

fun write_seq :: "nat \<Rightarrow> 'd ufat_device \<Rightarrow> u64 \<Rightarrow> (nat \<Rightarrow> bytes) \<Rightarrow> nat \<Rightarrow> 'd \<Rightarrow> int \<times> 'd" where
  "write_seq 0 d start g i dk = (0, dk)"
| "write_seq (Suc n) d start g i dk =
     (let (rc, dk) = dev_write d (start + of_nat i) 1 (g i) dk in
      if rc < 0 then (- UFAT_ERR_IO, dk) else write_seq n d start g (Suc i) dk)"

lemma erase_seq: "erase_loop n d (start + of_nat i) buf dk = write_seq n d start (\<lambda>_. buf) i dk"
proof (induction n arbitrary: i dk)
  case (Suc n)
  have "start + of_nat i + 1 = start + of_nat (Suc i)" by (simp add: algebra_simps)
  then show ?case using Suc.IH [of "Suc i"] by (simp only: erase_loop.simps write_seq.simps)
qed simp

text \<open>The block of the table for step \<open>i\<close>: the second copy starts again.\<close>

lemma table_pos:
  assumes "i + Suc n = F * 2" "unat F64 = F" "unat b64 = (if i \<le> F then i else i - F)"
  shows "unat (if (b64::u64) = F64 then 0 else b64) = i mod F" "b64 = F64 \<longleftrightarrow> i = F"
    "unat ((if b64 = F64 then 0 else b64) + 1) = (if Suc i \<le> F then Suc i else Suc i - F)"
    "unat ((if b64 = F64 then 0 else b64) + 1) = Suc (i mod F)" "(if b64 = F64 then 0 else b64) = 0 \<longleftrightarrow> i mod F = 0"
proof -
  have F: "0 < F" "i < 2 * F" using assms(1) by auto
  have m: "i mod F = (if i < F then i else i - F)" using F by (simp add: mod_if)
  show e: "b64 = F64 \<longleftrightarrow> i = F" unfolding word_unat_eq_iff assms(2,3) using F by auto
  show u: "unat (if b64 = F64 then 0 else b64) = i mod F" unfolding m using e assms(2,3) F by auto
  have "unat F64 < 2 ^ 64" using unsigned_less [of F64] by simp
  then have "i mod F + 1 < 2 ^ 64 \<or> i mod F + 1 = F" using assms(2) m F by auto
  then show s: "unat ((if b64 = F64 then 0 else b64) + 1) = Suc (i mod F)"
    using \<open>unat F64 < 2 ^ 64\<close> assms(2) u by (auto simp: unat_word_ariths)
  show "(if b64 = F64 then 0 else b64) = 0 \<longleftrightarrow> i mod F = 0" unfolding u [symmetric] by (simp only: unsigned_eq_0_iff)
  show "unat ((if b64 = F64 then 0 else b64) + 1) = (if Suc i \<le> F then Suc i else Suc i - F)"
    unfolding s using m F by auto
qed

lemma fat16_loop_seq:
  assumes d: "log2_block_size d = 9" and F: "unat (fat_blocks fl) = F" "F < 2 ^ 20"
  shows "i + n = F * 2 \<Longrightarrow> unat blk = (if i \<le> F then i else i - F) \<Longrightarrow> c = of_nat (unat blk * 256) \<Longrightarrow>
    init_fat16_loop n d fl (of_nat i) blk c dk =
      Inr (write_seq n d (reserved_blocks fl) (\<lambda>i. fresh_block UFAT_TYPE_FAT16 (unat (clusters fl)) (i mod F)) i dk)"
proof (induction n arbitrary: i blk c dk)
  case (Suc n)
  note P = table_pos [OF Suc.prems(1) F(1) Suc.prems(2)]
  let ?k = "i mod F" and ?blk = "if blk = fat_blocks fl then 0 else blk" and ?N = "unat (clusters fl)"
  have c: "c = of_nat (?k * 256)" if "blk \<noteq> fat_blocks fl" using P(1) Suc.prems(3) that by (simp only: if_False)
  have "?k = 0" if "blk = fat_blocks fl" using P(2) that by simp
  then have pr: "(if blk = fat_blocks fl then (0, 0) else (blk, c)) = (?blk, of_nat (?k * 256))" using c by auto
  have "0 < F" using Suc.prems(1) by simp
  then have "?k < 2 ^ 20" using F(2) mod_less_divisor [of F i] by linarith
  then have "?k * 256 + 256 < 2 ^ 32" by simp
  then have fb: "fill_entries 256 2 (w16 0xfff7) (clusters fl) 0 (of_nat (?k * 256)) (replicate 512 0) =
      Inr (map (entry_byte 2 (w16 0xfff7) ?N) [?k * 512..<?k * 512 + 512], of_nat (Suc ?k * 256))"
    by (intro fill_block) (simp_all add: length_w)
  have bl: "(if ?blk = 0 then put_all [(0, w16 (0xff00 OR ucast MEDIA_DISK)), (2, w16 0xfff8)]
        (map (entry_byte 2 (w16 0xfff7) ?N) [?k * 512..<?k * 512 + 512])
      else Inr (map (entry_byte 2 (w16 0xfff7) ?N) [?k * 512..<?k * 512 + 512])) = Inr (fresh_block UFAT_TYPE_FAT16 ?N ?k)"
    using P(5) first_16 [of ?N] later_block(2) [of ?k ?N] by (cases "?k = 0") simp_all
  have sz: "2 ^ log2_block_size d = (512::nat)" "(512 + 1) div 2 = (256::nat)" by (simp_all add: d)
  have nx: "of_nat i + 1 = (of_nat (Suc i) :: u64)" by simp
  have ih: "init_fat16_loop n d fl (of_nat (Suc i)) (?blk + 1) (of_nat (Suc ?k * 256)) dk1 =
      Inr (write_seq n d (reserved_blocks fl) (\<lambda>i. fresh_block UFAT_TYPE_FAT16 ?N (i mod F)) (Suc i) dk1)" for dk1
    by (rule Suc.IH) (use Suc.prems(1) in simp, fact P(3), simp only: P(4))
  show ?case
    unfolding init_fat16_loop.simps Let_def pr prod.case sz fb rbind_Inr bl nx ih write_seq.simps by (simp split: prod.split)
qed simp

lemma fat32_loop_seq:
  assumes d: "log2_block_size d = 9" and F: "unat (fat_blocks fl) = F" "F < 2 ^ 20"
  shows "i + n = F * 2 \<Longrightarrow> unat blk = (if i \<le> F then i else i - F) \<Longrightarrow> c = of_nat (unat blk * 128) \<Longrightarrow>
    init_fat32_loop n d fl (of_nat i) blk c dk =
      Inr (write_seq n d (reserved_blocks fl) (\<lambda>i. fresh_block UFAT_TYPE_FAT32 (unat (clusters fl)) (i mod F)) i dk)"
proof (induction n arbitrary: i blk c dk)
  case (Suc n)
  note P = table_pos [OF Suc.prems(1) F(1) Suc.prems(2)]
  let ?k = "i mod F" and ?blk = "if blk = fat_blocks fl then 0 else blk" and ?N = "unat (clusters fl)"
  have c: "c = of_nat (?k * 128)" if "blk \<noteq> fat_blocks fl" using P(1) Suc.prems(3) that by (simp only: if_False)
  have "?k = 0" if "blk = fat_blocks fl" using P(2) that by simp
  then have pr: "(if blk = fat_blocks fl then (0, 0) else (blk, c)) = (?blk, of_nat (?k * 128))" using c by auto
  have "0 < F" using Suc.prems(1) by simp
  then have "?k < 2 ^ 20" using F(2) mod_less_divisor [of F i] by linarith
  then have "?k * 128 + 128 < 2 ^ 32" by simp
  then have fb: "fill_entries 128 4 (w32 0xfffffff7) (clusters fl) 0 (of_nat (?k * 128)) (replicate 512 0) =
      Inr (map (entry_byte 4 (w32 0xfffffff7) ?N) [?k * 512..<?k * 512 + 512], of_nat (Suc ?k * 128))"
    by (intro fill_block) (simp_all add: length_w)
  have bl: "(if ?blk = 0 then put_all [(0, w32 (0xffffff00 OR ucast MEDIA_DISK)), (4, w32 0xfffffff8), (8, w32 0xfffffff8)]
        (map (entry_byte 4 (w32 0xfffffff7) ?N) [?k * 512..<?k * 512 + 512])
      else Inr (map (entry_byte 4 (w32 0xfffffff7) ?N) [?k * 512..<?k * 512 + 512])) = Inr (fresh_block UFAT_TYPE_FAT32 ?N ?k)"
    using P(5) first_32 [of ?N] later_block(3) [of ?k ?N] by (cases "?k = 0") simp_all
  have sz: "2 ^ log2_block_size d = (512::nat)" "(512 + 3) div 4 = (128::nat)" by (simp_all add: d)
  have nx: "of_nat i + 1 = (of_nat (Suc i) :: u64)" by simp
  have ih: "init_fat32_loop n d fl (of_nat (Suc i)) (?blk + 1) (of_nat (Suc ?k * 128)) dk1 =
      Inr (write_seq n d (reserved_blocks fl) (\<lambda>i. fresh_block UFAT_TYPE_FAT32 ?N (i mod F)) (Suc i) dk1)" for dk1
    by (rule Suc.IH) (use Suc.prems(1) in simp, fact P(3), simp only: P(4))
  show ?case
    unfolding init_fat32_loop.simps Let_def pr prod.case sz fb rbind_Inr bl nx ih write_seq.simps by (simp split: prod.split)
qed simp

lemma fat12_loop_seq:
  assumes d: "log2_block_size d = 9" and F: "unat (fat_blocks fl) = F" "F < 2 ^ 20"
  shows "i + n = F * 2 \<Longrightarrow> unat blk = (if i \<le> F then i else i - F) \<Longrightarrow> mb = of_nat (unat blk * 512 mod 3) \<Longrightarrow>
    p = of_nat (unat blk * 512 div 3) \<Longrightarrow>
    init_fat12_loop n d fl (of_nat i) blk mb p dk =
      Inr (write_seq n d (reserved_blocks fl) (\<lambda>i. fresh_block UFAT_TYPE_FAT12 (unat (clusters fl)) (i mod F)) i dk)"
proof (induction n arbitrary: i blk mb p dk)
  case (Suc n)
  note P = table_pos [OF Suc.prems(1) F(1) Suc.prems(2)]
  let ?k = "i mod F" and ?blk = "if blk = fat_blocks fl then 0 else blk" and ?N = "unat (clusters fl)"
  have c: "mb = of_nat (?k * 512 mod 3)" "p = of_nat (?k * 512 div 3)" if "blk \<noteq> fat_blocks fl"
    using P(1) Suc.prems(3,4) that by (simp_all only: if_False)
  have "?k = 0" if "blk = fat_blocks fl" using P(2) that by simp
  then have pr: "(if blk = fat_blocks fl then (0, 0, 0) else (blk, mb, p)) = (?blk, of_nat (?k * 512 mod 3), of_nat (?k * 512 div 3))"
    using c by auto
  have "0 < F" using Suc.prems(1) by simp
  then have "?k < 2 ^ 20" using F(2) mod_less_divisor [of F i] by linarith
  then have k: "(?k * 512 + 512) div 3 * 2 + 2 < 2 ^ 32" by simp
  have e: "?k * 512 + 512 = Suc ?k * 512" by simp
  note fb = fill12_ok [OF k, of "clusters fl", unfolded e]
  have bl: "(if ?blk = 0 then put_all [(0, [MEDIA_DISK]), (1, [0x8f]), (2, [0xff])] (map (pair_byte ?N) [?k * 512..<Suc ?k * 512])
      else Inr (map (pair_byte ?N) [?k * 512..<Suc ?k * 512])) = Inr (fresh_block UFAT_TYPE_FAT12 ?N ?k)"
    unfolding e [symmetric] using P(5) first_12 [of ?N] later_block(1) [of ?k ?N] by (cases "?k = 0") simp_all
  have sz: "2 ^ log2_block_size d = (512::nat)" by (simp add: d)
  have nx: "of_nat i + 1 = (of_nat (Suc i) :: u64)" by simp
  have ih: "init_fat12_loop n d fl (of_nat (Suc i)) (?blk + 1) (of_nat (Suc ?k * 512 mod 3)) (of_nat (Suc ?k * 512 div 3)) dk1 =
      Inr (write_seq n d (reserved_blocks fl) (\<lambda>i. fresh_block UFAT_TYPE_FAT12 ?N (i mod F)) (Suc i) dk1)" for dk1
    by (rule Suc.IH) (use Suc.prems(1) in simp, fact P(3), simp only: P(4), simp only: P(4))
  show ?case
    unfolding init_fat12_loop.simps Let_def pr prod.case sz fb rbind_Inr bl nx ih write_seq.simps by (simp split: prod.split)
qed simp

section \<open>What formatting leaves\<close>

lemma length_fresh [simp]: "length (fresh_block t N k) = 512"
  by (simp add: fresh_block_def del: upt_Suc)

lemma fsinfo_fit: "stores_fit (fsinfo_stores fl) 512"
  by (simp add: stores_fit_def fsinfo_stores_def length_w)

text \<open>The blocks of the root directory.\<close>

definition root_range :: "nat \<Rightarrow> fs_layout \<Rightarrow> nat set" where
  "root_range s fl =
     (let a = unat (reserved_blocks fl) + unat (fat_blocks fl) * 2
      in if type fl = UFAT_TYPE_FAT32 then {a..<a + 2 ^ s} else {a..<a + unat (root_blocks fl)})"

lemma unat_exp_64: "s < 64 \<Longrightarrow> unat (push_bit s 1 :: u64) = 2 ^ s"
  unfolding unsigned_push_bit_eq by (simp add: take_bit_nat_eq_self push_bit_eq_mult)

context block_device
begin

lemma write_seq_ok:
  assumes g: "\<And>j. length (g j) = 2 ^ log2_block_size device" and n64: "nblocks < 2 ^ 64"
  shows "good d \<Longrightarrow> unat start + i + n \<le> nblocks \<Longrightarrow>
    \<exists>d'. write_seq n device start g i d = (0, d') \<and> good d' \<and>
      (\<forall>k < nblocks. blocks d' k = (if unat start + i \<le> k \<and> k < unat start + i + n then g (k - unat start) else blocks d k))"
proof (induction n arbitrary: i d)
  case (Suc n)
  have lt: "unat start + i < 2 ^ 64" using Suc.prems(2) n64 by linarith
  then have ui: "unat (of_nat i :: u64) = i" by (simp add: unat_of_nat)
  have "unat (start + of_nat i) = unat start + i" using unat_add_index [of start "of_nat i"] lt unfolding ui .
  moreover have "unat start + i < nblocks" using Suc.prems(2) by simp
  ultimately obtain d1 where d1: "dev_write device (start + of_nat i) 1 (g i) d = (0, d1)" "good d1"
      "\<forall>k < nblocks. blocks d1 k = (if k = unat start + i then g i else blocks d k)"
    using write_block [OF Suc.prems(1), of "start + of_nat i" "g i"] g by auto
  obtain d' where d': "write_seq n device start g (Suc i) d1 = (0, d')" "good d'"
      "\<forall>k < nblocks. blocks d' k = (if unat start + Suc i \<le> k \<and> k < unat start + Suc i + n then g (k - unat start) else blocks d1 k)"
    using Suc.IH [OF d1(2), of "Suc i"] Suc.prems(2) by auto
  have "blocks d' k = (if unat start + i \<le> k \<and> k < unat start + i + Suc n then g (k - unat start) else blocks d k)" if "k < nblocks" for k
    using d'(3) d1(3) that by (cases "k = unat start + i") auto
  then show ?case using d1(1) d'(1,2) by simp
qed auto

lemma erase_ok:
  assumes n64: "nblocks < 2 ^ 64" and d: "good d" "unat start + unat count \<le> nblocks"
  shows "\<exists>d'. erase_blocks device start count d = (0, d') \<and> good d' \<and>
    (\<forall>k < nblocks. blocks d' k = (if unat start \<le> k \<and> k < unat start + unat count then replicate (2 ^ log2_block_size device) 0 else blocks d k))"
  using write_seq_ok [of "\<lambda>_. replicate (2 ^ log2_block_size device) 0" d start 0 "unat count"] assms
    erase_seq [of "unat count" device start 0 "replicate (2 ^ log2_block_size device) 0" d]
  by (simp add: erase_blocks_def)

lemma table_written:
  assumes lg: "log2_block_size device = 9" and n64: "nblocks < 2 ^ 64" and f: "layout_for n t s fl" and n: "n \<le> nblocks" and d: "good d"
  shows "\<exists>d'. (case t of UFAT_TYPE_FAT12 \<Rightarrow> init_fat12 device fl d | UFAT_TYPE_FAT16 \<Rightarrow> init_fat16 device fl d
      | UFAT_TYPE_FAT32 \<Rightarrow> init_fat32 device fl d) = Inr (0, d') \<and> good d' \<and>
    (\<forall>k < nblocks. blocks d' k =
       (if unat (reserved_blocks fl) \<le> k \<and> k < unat (reserved_blocks fl) + unat (fat_blocks fl) * 2
        then fresh_block t (unat (clusters fl)) ((k - unat (reserved_blocks fl)) mod unat (fat_blocks fl)) else blocks d k))"
proof -
  let ?F = "unat (fat_blocks fl)" and ?g = "\<lambda>i. fresh_block t (unat (clusters fl)) (i mod unat (fat_blocks fl))"
  note S = layout_small [OF f] and L = layout_forD [OF f]
  have F: "?F < 2 ^ 20" using S(6) by simp
  have room: "unat (reserved_blocks fl) + ?F * 2 \<le> nblocks" using L(8) S(1) n by linarith
  have F2: "unat (fat_blocks fl * 2) = ?F * 2" using F by (simp add: unat_word_ariths)
  have "(case t of UFAT_TYPE_FAT12 \<Rightarrow> init_fat12 device fl d | UFAT_TYPE_FAT16 \<Rightarrow> init_fat16 device fl d
      | UFAT_TYPE_FAT32 \<Rightarrow> init_fat32 device fl d) = Inr (write_seq (?F * 2) device (reserved_blocks fl) ?g 0 d)"
    using fat12_loop_seq [OF lg refl F, of 0 "?F * 2" 0 0 0 d] fat16_loop_seq [OF lg refl F, of 0 "?F * 2" 0 0 d]
      fat32_loop_seq [OF lg refl F, of 0 "?F * 2" 0 0 d]
    by (cases t) (simp_all add: init_fat12_def init_fat16_def init_fat32_def F2)
  moreover obtain d' where "write_seq (?F * 2) device (reserved_blocks fl) ?g 0 d = (0, d')" "good d'"
    "\<forall>k < nblocks. blocks d' k = (if unat (reserved_blocks fl) + 0 \<le> k \<and> k < unat (reserved_blocks fl) + 0 + ?F * 2
       then ?g (k - unat (reserved_blocks fl)) else blocks d k)"
    using write_seq_ok [of ?g d "reserved_blocks fl" 0 "?F * 2"] n64 d room lg by auto
  ultimately show ?thesis by simp
qed

lemma root_written:
  assumes lg: "log2_block_size device = 9" and n64: "nblocks < 2 ^ 64" and f: "layout_for n t s fl" and n: "n \<le> nblocks" and d: "good d"
  shows "\<exists>d'. (if type fl = UFAT_TYPE_FAT32 then init_root_cluster device fl d else init_root_blocks device fl d) = (0, d') \<and> good d' \<and>
    (\<forall>k < nblocks. blocks d' k = (if k \<in> root_range s fl then replicate 512 0 else blocks d k))"
proof -
  let ?r = "unat (reserved_blocks fl)" and ?F = "unat (fat_blocks fl)" and ?R = "unat (root_blocks fl)"
  note S = layout_small [OF f] and L = layout_forD [OF f] and K = fresh_ok [OF layout_forD(1) [OF f]]
  have k512: "(2::nat) ^ 9 = 512" by simp
  note E = erase_ok [OF n64 d, unfolded lg k512]
  have small: "?r + ?F * 2 + ?R < 2 ^ 64" using S(1,3) L(8) by simp
  have a: "unat (fat_blocks fl * 2 + reserved_blocks fl) = ?r + ?F * 2"
    "unat (fat_blocks fl * 2 + reserved_blocks fl + root_blocks fl) = ?r + ?F * 2 + ?R"
    using small by (simp_all add: unat_word_ariths)
  show ?thesis
  proof (cases "t = UFAT_TYPE_FAT32")
    case True
    have "s < 64" using K(11) by simp
    then have p: "unat (push_bit (log2_bpc fl) 1 :: u64) = 2 ^ s" unfolding L(4) by (rule unat_exp_64)
    have R0: "?R = 0" by (rule L(9) [OF True])
    have "?r + ?F * 2 + 2 ^ s \<le> nblocks" using K(1) n True by (simp add: L(5,6) fresh_root_def)
    moreover have "k \<in> root_range s fl \<longleftrightarrow> ?r + ?F * 2 + 0 \<le> k \<and> k < ?r + ?F * 2 + 0 + 2 ^ s" for k
      using True by (simp add: root_range_def Let_def L(2))
    ultimately show ?thesis
      using E [of "fat_blocks fl * 2 + reserved_blocks fl + root_blocks fl" "push_bit (log2_bpc fl) 1"] True
      unfolding a p R0 by (simp only: L(2) init_root_cluster_def if_True) simp
  next
    case False
    have "?r + ?F * 2 + ?R \<le> nblocks" using L(8) S(1) n by linarith
    moreover have "k \<in> root_range s fl \<longleftrightarrow> ?r + ?F * 2 \<le> k \<and> k < ?r + ?F * 2 + ?R" for k
      using False by (simp add: root_range_def Let_def L(2))
    ultimately show ?thesis
      using E [of "fat_blocks fl * 2 + reserved_blocks fl" "root_blocks fl"] False
      unfolding a by (simp only: L(2) init_root_blocks_def if_False)
  qed
qed

text \<open>One block, in front of the tables.\<close>

lemma block_written:
  assumes d: "good d" and b: "unat b < r" "r \<le> nblocks" "length bs = 2 ^ log2_block_size device"
  shows "\<exists>d'. dev_write device b 1 bs d = (0, d') \<and> good d' \<and> (b = 0 \<longrightarrow> blocks d' 0 = bs) \<and>
    (b \<noteq> 0 \<longrightarrow> blocks d' 0 = blocks d 0) \<and> (\<forall>k < nblocks. r \<le> k \<longrightarrow> blocks d' k = blocks d k)"
proof -
  have "unat b < nblocks" using b by simp
  then obtain d' where "dev_write device b 1 bs d = (0, d')" "good d'"
      "\<forall>k < nblocks. blocks d' k = (if k = unat b then bs else blocks d k)"
    using write_block [OF d _ b(3)] by blast
  then show ?thesis using b(1,2) by (intro exI [of _ d']) (auto simp: unsigned_eq_0_iff)
qed

lemma fsinfo_written:
  assumes lg: "log2_block_size device = 9" and l: "log2_sector_size fl = 9" and d: "good d" and r: "8 \<le> r" "r \<le> nblocks"
  shows "\<exists>d'. write_fsinfo device fl d = Inr (0, d') \<and> good d' \<and> (\<forall>k < nblocks. r \<le> k \<longrightarrow> blocks d' k = blocks d k)"
proof -
  obtain b where b: "put_all (fsinfo_stores fl) (replicate 512 0) = Inr b" "length b = 512"
    using put_all_fit [of "fsinfo_stores fl" "replicate 512 0"] fsinfo_fit by auto
  have u: "unat (1::u64) < r" "unat (7::u64) < r" using r by simp_all
  obtain d1 where d1: "dev_write device 1 1 b d = (0, d1)" "good d1" "\<forall>k < nblocks. r \<le> k \<longrightarrow> blocks d1 k = blocks d k"
    using block_written [OF d u(1) r(2), of b] b lg by auto
  obtain d2 where d2: "dev_write device 7 1 b d1 = (0, d2)" "good d2" "\<forall>k < nblocks. r \<le> k \<longrightarrow> blocks d2 k = blocks d1 k"
    using block_written [OF d1(2) u(2) r(2), of b] b lg by auto
  have "write_fsinfo device fl d = Inr (0, d2)"
    using b d1(1) d2(1) by (simp add: write_fsinfo_def lg l FSINFO_SECTOR_def BACKUP_SECTOR_def)
  then show ?thesis using d1 d2 by auto
qed

lemma bpb_written:
  assumes lg: "log2_block_size device = 9" and l: "log2_sector_size fl = 9" and d: "good d" and r: "1 \<le> r" "r \<le> nblocks"
    "type fl = UFAT_TYPE_FAT32 \<Longrightarrow> 8 \<le> r" and b: "put_all (bpb_stores 9 fl) (replicate 512 0) = Inr b" "length b = 512"
  shows "\<exists>d'. write_bpb device fl d = Inr (0, d') \<and> good d' \<and> blocks d' 0 = b \<and> (\<forall>k < nblocks. r \<le> k \<longrightarrow> blocks d' k = blocks d k)"
proof -
  have u: "unat (0::u64) < r" using r by simp
  obtain d1 where d1: "dev_write device 0 1 b d = (0, d1)" "good d1" "blocks d1 0 = b" "\<forall>k < nblocks. r \<le> k \<longrightarrow> blocks d1 k = blocks d k"
    using block_written [OF d u r(2), of b] b lg by auto
  show ?thesis
  proof (cases "type fl = UFAT_TYPE_FAT32")
    case True
    then have u6: "unat (6::u64) < r" using r(3) by simp
    obtain d2 where d2: "dev_write device 6 1 b d1 = (0, d2)" "good d2" "blocks d2 0 = b" "\<forall>k < nblocks. r \<le> k \<longrightarrow> blocks d2 k = blocks d1 k"
      using block_written [OF d1(2) u6 r(2), of b] b lg d1(3) by auto
    have "write_bpb device fl d = Inr (0, d2)"
      using b d1(1) d2(1) True by (simp add: write_bpb_def lg l BACKUP_SECTOR_def)
    then show ?thesis using d1 d2 by auto
  next
    case False
    then have "write_bpb device fl d = Inr (0, d1)" using b d1(1) by (simp add: write_bpb_def lg)
    then show ?thesis using d1 by auto
  qed
qed

lemma mkfs_ok:
  assumes lg: "log2_block_size device = 9" and n64: "nblocks < 2 ^ 64" and e: "calculate_layout nblk 9 = Inr fl"
    and f: "layout_for n t s fl" and n: "n \<le> nblocks" and d: "good d"
  shows "\<exists>b d'. put_all (bpb_stores 9 fl) (replicate 512 0) = Inr b \<and> ufat_mkfs device nblk d = Inr (0, d') \<and> good d' \<and>
    blocks d' 0 = b \<and>
    (\<forall>k < unat (fat_blocks fl) * 2. blocks d' (unat (reserved_blocks fl) + k) =
       fresh_block t (unat (clusters fl)) (k mod unat (fat_blocks fl))) \<and>
    (\<forall>k \<in> root_range s fl. k < nblocks \<longrightarrow> blocks d' k = replicate 512 0) \<and>
    (\<forall>k < nblocks. unat (reserved_blocks fl) + unat (fat_blocks fl) * 2 \<le> k \<longrightarrow> k \<notin> root_range s fl \<longrightarrow> blocks d' k = blocks d k)"
proof -
  let ?r = "unat (reserved_blocks fl)" and ?F = "unat (fat_blocks fl)"
  note S = layout_small [OF f] and L = layout_forD [OF f]
  have room: "?r + ?F * 2 \<le> nblocks" using L(8) S(1) n by linarith
  have r: "1 \<le> ?r" "?r \<le> nblocks" "type fl = UFAT_TYPE_FAT32 \<Longrightarrow> 8 \<le> ?r" using S(5) room L(2,5) by (simp_all add: fresh_reserved_def)
  have "unat (0::u64) + unat (reserved_blocks fl) \<le> nblocks" using r by simp
  then obtain d1 where d1: "erase_reserved_blocks device fl d = (0, d1)" "good d1" "\<forall>k < nblocks. ?r \<le> k \<longrightarrow> blocks d1 k = blocks d k"
    using erase_ok [OF n64 d, of 0 "reserved_blocks fl"] by (auto simp: erase_reserved_blocks_def)
  obtain d2 where d2: "(case t of UFAT_TYPE_FAT12 \<Rightarrow> init_fat12 device fl d1 | UFAT_TYPE_FAT16 \<Rightarrow> init_fat16 device fl d1
      | UFAT_TYPE_FAT32 \<Rightarrow> init_fat32 device fl d1) = Inr (0, d2)" "good d2"
    "\<forall>k < nblocks. blocks d2 k = (if ?r \<le> k \<and> k < ?r + ?F * 2 then fresh_block t (unat (clusters fl)) ((k - ?r) mod ?F) else blocks d1 k)"
    using table_written [OF lg n64 f n d1(2)] by blast
  obtain d3 where d3: "(if type fl = UFAT_TYPE_FAT32 then init_root_cluster device fl d2 else init_root_blocks device fl d2) = (0, d3)"
    "good d3" "\<forall>k < nblocks. blocks d3 k = (if k \<in> root_range s fl then replicate 512 0 else blocks d2 k)"
    using root_written [OF lg n64 f n d2(2)] by blast
  obtain d4 where d4: "(if type fl = UFAT_TYPE_FAT32 then write_fsinfo device fl d3 else Inr (0, d3)) = Inr (0, d4)" "good d4"
    "\<forall>k < nblocks. ?r \<le> k \<longrightarrow> blocks d4 k = blocks d3 k"
  proof (cases "type fl = UFAT_TYPE_FAT32")
    case True
    then show thesis using fsinfo_written [OF lg L(3) d3(2) r(3) r(2)] that by auto
  next
    case False
    then show thesis using that [of d3] d3(2) by simp
  qed
  obtain b where b: "put_all (bpb_stores 9 fl) (replicate 512 0) = Inr b" "length b = 512"
    using put_all_fit [of "bpb_stores 9 fl" "replicate 512 0"] bpb_fit by auto
  obtain d5 where d5: "write_bpb device fl d4 = Inr (0, d5)" "good d5" "blocks d5 0 = b" "\<forall>k < nblocks. ?r \<le> k \<longrightarrow> blocks d5 k = blocks d4 k"
    using bpb_written [OF lg L(3) d4(2) r b] by blast
  have m: "ufat_mkfs device nblk d = Inr (0, d5)"
    unfolding ufat_mkfs_def lg e sum.case Let_def d1(1) prod.case L(2) d2(1) rbind_Inr d3(1) [unfolded L(2)] d4(1) [unfolded L(2)] d5(1)
    by simp
  have above: "?r + ?F * 2 \<le> k" if "k \<in> root_range s fl" for k using that by (auto simp: root_range_def Let_def split: if_splits)
  have k2: "blocks d5 k = blocks d3 k" if "k < nblocks" "?r \<le> k" for k using d5(4) d4(3) that by simp
  have tab: "blocks d5 (?r + k) = fresh_block t (unat (clusters fl)) (k mod ?F)" if "k < ?F * 2" for k
    using k2 [of "?r + k"] d3(3) d2(3) that room above [of "?r + k"] by auto
  have rt: "blocks d5 k = replicate 512 0" if "k \<in> root_range s fl" "k < nblocks" for k
    using k2 [of k] d3(3) that above [of k] by auto
  have rest: "blocks d5 k = blocks d k" if "k < nblocks" "?r + ?F * 2 \<le> k" "k \<notin> root_range s fl" for k
    using k2 [of k] d3(3) d2(3) d1(3) that by auto
  show ?thesis using b(1) m d5(2,3) tab rt rest by blast
qed

end

section \<open>Opening the volume\<close>

lemma fresh_entry:
  assumes "2 \<le> c" "c < N"
  shows "entry_of t (fresh_byte t N) c = (if t = UFAT_TYPE_FAT32 \<and> c = 2 then UFAT_CLUSTER_EOC else UFAT_CLUSTER_FREE)"
proof (cases t)
  case UFAT_TYPE_FAT12
  define p where "p = c div 2"
  have p: "1 \<le> p" "p * 3 div 3 = p" "(p * 3 + 1) div 3 = p" "(p * 3 + 2) div 3 = p"
    "p * 3 mod 3 = 0" "(p * 3 + 1) mod 3 = 1" "(p * 3 + 2) mod 3 = 2" using assms(1) unfolding p_def by presburger+
  have c: "c = 2 * p \<or> c = 2 * p + 1" unfolding p_def by presburger
  have b: "fresh_byte t N (p * 3 + j) = pair_byte N (p * 3 + j)" for j using p(1) UFAT_TYPE_FAT12 by (simp add: fresh_byte_def)
  have "raw12 (fresh_byte t N) c = 0"
  proof (cases "odd c")
    case True
    then have "\<not> N \<le> 2 * p" "\<not> N \<le> 2 * p + 1" using c assms(2) by auto
    then show ?thesis using True b [of 1] b [of 2] p unfolding raw12_def p_def [symmetric]
      by (simp add: pair_byte_def fresh_pair_def)
  next
    case False
    then have "\<not> N \<le> 2 * p" using c assms(2) by auto
    then show ?thesis using False b [of 0] b [of 1] p unfolding raw12_def p_def [symmetric]
      by (simp add: pair_byte_def fresh_pair_def)
  qed
  then show ?thesis using UFAT_TYPE_FAT12 by (simp add: entry_of_def decode_fat12_def UFAT_CLUSTER_FREE_def)
next
  case UFAT_TYPE_FAT16
  then show ?thesis using assms by (simp add: entry_of_def raw16_def fresh_byte_def entry_byte_def r16_def decode_fat16_def UFAT_CLUSTER_FREE_def)
next
  case UFAT_TYPE_FAT32
  show ?thesis
  proof (cases "c = 2")
    case True
    define e where "e = w32 0xfffffff8"
    have e: "[e ! 0, e ! 1, e ! 2, e ! 3] = e" by (simp add: e_def w32_def w16_def)
    have "raw32 (fresh_byte t N) c = r32 [e ! 0, e ! 1, e ! 2, e ! 3]"
      using True UFAT_TYPE_FAT32 by (simp add: raw32_def fresh_byte_def e_def)
    then have "raw32 (fresh_byte t N) c = 0xfffffff8" unfolding e by (simp add: e_def)
    then show ?thesis using True UFAT_TYPE_FAT32
      by (simp add: entry_of_def decode_fat32_def UFAT_CLUSTER_MASK_def UFAT_CLUSTER_EOC_def)
  next
    case False
    then have "\<not> 4 * c + j < 12" "\<not> N \<le> (4 * c + j) div 4" if "j < 4" for j using assms that by auto
    then have b: "fresh_byte t N (4 * c + j) = 0" if "j < 4" for j using that UFAT_TYPE_FAT32 by (simp add: fresh_byte_def entry_byte_def)
    have "raw32 (fresh_byte t N) c = 0"
      using b [of 0] b [of 1] b [of 2] b [of 3] by (simp add: raw32_def r32_def r16_def)
    then show ?thesis using UFAT_TYPE_FAT32 False by (simp add: entry_of_def decode_fat32_def UFAT_CLUSTER_FREE_def)
  qed
qed

text \<open>The blocks of the root directory of an open volume.\<close>

definition root_dir_blocks :: "ufat_bpb \<Rightarrow> nat set" where
  "root_dir_blocks p =
     (if fat_type p = UFAT_TYPE_FAT32
      then {clus_block p (unat (root_cluster p))..<clus_block p (unat (root_cluster p)) + 2 ^ unat (log2_blocks_per_cluster p)}
      else {unat (root_start p)..<unat (root_start p) + unat (root_size p)})"

lemma fresh_geometry:
  assumes f: "layout_for n t s fl"
  shows "unat (fat_start (fresh_bpb fl)) = unat (reserved_blocks fl)" "unat (fat_size (fresh_bpb fl)) = unat (fat_blocks fl)"
    "unat (root_start (fresh_bpb fl)) = unat (reserved_blocks fl) + unat (fat_blocks fl) * 2"
    "unat (cluster_start (fresh_bpb fl)) = unat (reserved_blocks fl) + unat (fat_blocks fl) * 2 + unat (root_blocks fl)"
    "unat (log2_blocks_per_cluster (fresh_bpb fl)) = s" "unat (num_clusters (fresh_bpb fl)) = fresh_clusters t s n"
    "fat_type (fresh_bpb fl) = t" "root_dir_blocks (fresh_bpb fl) = root_range s fl"
proof -
  note S = layout_small [OF f] and L = layout_forD [OF f] and K = fresh_ok [OF layout_forD(1) [OF f]]
  have small: "unat (reserved_blocks fl) + unat (fat_blocks fl) * 2 + unat (root_blocks fl) < 2 ^ 64" using S(1,3) L(8) by simp
  show "unat (fat_start (fresh_bpb fl)) = unat (reserved_blocks fl)" "unat (fat_size (fresh_bpb fl)) = unat (fat_blocks fl)"
    "unat (num_clusters (fresh_bpb fl)) = fresh_clusters t s n" "fat_type (fresh_bpb fl) = t"
    by (simp_all add: fresh_bpb_def L)
  show rs: "unat (root_start (fresh_bpb fl)) = unat (reserved_blocks fl) + unat (fat_blocks fl) * 2"
    and cs: "unat (cluster_start (fresh_bpb fl)) = unat (reserved_blocks fl) + unat (fat_blocks fl) * 2 + unat (root_blocks fl)"
    using small by (simp_all add: fresh_bpb_def unat_word_ariths)
  show lb: "unat (log2_blocks_per_cluster (fresh_bpb fl)) = s" using K(11) by (simp add: fresh_bpb_def L(4) unat_of_nat)
  show "root_dir_blocks (fresh_bpb fl) = root_range s fl"
  proof (cases "t = UFAT_TYPE_FAT32")
    case True
    then have "root_cluster (fresh_bpb fl) = 2" "fat_type (fresh_bpb fl) = UFAT_TYPE_FAT32" by (simp_all add: fresh_bpb_def L(2))
    then show ?thesis using True L(9) by (simp add: root_dir_blocks_def root_range_def Let_def L(2) clus_block_def cs lb)
  next
    case False
    have "root_size (fresh_bpb fl) = root_blocks fl" "fat_type (fresh_bpb fl) = t" by (simp_all add: fresh_bpb_def L(2))
    then show ?thesis using False by (simp add: root_dir_blocks_def root_range_def Let_def L(2) rs)
  qed
qed

text \<open>An open volume that has just been formatted.\<close>

definition fresh_volume :: "nat \<Rightarrow> bytes ufat \<Rightarrow> bool" where
  "fresh_volume n uf \<longleftrightarrow> file_dev.cache_ok 9 n uf \<and> file_dev.table_ok 9 (bpb uf) \<and>
     file_dev.ptr_ok uf \<and> file_dev.fats_equal 9 uf \<and> placed n (bpb uf) \<and> 3 \<le> unat (num_clusters (bpb uf)) \<and>
     (\<forall>c. 2 \<le> c \<longrightarrow> c < unat (num_clusters (bpb uf)) \<longrightarrow> file_dev.fat_entry 9 uf c =
        (if fat_type (bpb uf) = UFAT_TYPE_FAT32 \<and> c = 2 then UFAT_CLUSTER_EOC else UFAT_CLUSTER_FREE)) \<and>
     (\<forall>k \<in> root_dir_blocks (bpb uf). file_dev.view 9 uf k = replicate 512 0)"

lemma fresh_opened:
  assumes n: "40 \<le> n" "n \<le> 2 ^ 31" and d: "length dk = n * 512"
  shows "\<exists>dk' t s fl. ufat_mkfs (file_device 9) (of_nat n) dk = Inr (0, dk') \<and> length dk' = n * 512 \<and> layout_for n t s fl \<and>
    (\<forall>uf. disk uf = dk' \<longrightarrow> length (cache_data uf) = 8192 \<longrightarrow>
      (\<exists>uf'. ufat_open uf (file_device 9) = Inr (0, uf') \<and> bpb uf' = fresh_bpb fl \<and> fresh_volume n uf'))"
proof -
  obtain t s fl where e: "calculate_layout (of_nat n) 9 = Inr fl" and f: "layout_for n t s fl" using layout_nat [OF n] by blast
  note S = layout_small [OF f] and L = layout_forD [OF f] and G = fresh_geometry [OF f]
  note K = fresh_ok [OF L(1)]
  let ?p = "fresh_bpb fl" and ?r = "unat (reserved_blocks fl)" and ?F = "unat (fat_blocks fl)" and ?N = "fresh_clusters t s n"
  have k512: "(2::nat) ^ 9 = 512" by simp
  have lg: "log2_block_size (file_device 9) = 9" by simp
  have n64: "n < 2 ^ 64" using n(2) by (rule le_less_trans) simp
  have good: "length dk = n * 2 ^ 9 \<and> n * 2 ^ 9 \<le> 2 ^ 63" using d n(2) by simp
  obtain b dk' where M: "put_all (bpb_stores 9 fl) (replicate 512 0) = Inr b" "ufat_mkfs (file_device 9) (of_nat n) dk = Inr (0, dk')"
    "length dk' = n * 2 ^ 9 \<and> n * 2 ^ 9 \<le> 2 ^ 63" "file_block 9 dk' 0 = b"
    "\<forall>k < ?F * 2. file_block 9 dk' (?r + k) = fresh_block t (unat (clusters fl)) (k mod ?F)"
    "\<forall>k \<in> root_range s fl. k < n \<longrightarrow> file_block 9 dk' k = replicate 512 0"
    using file_dev.mkfs_ok [OF lg n64 e f order_refl good] by blast
  have bl: "512 \<le> length (file_block 9 dk' 0)" using boot_words(1) [OF f M(1)] M(4) by simp
  note P = parse_fresh [OF f M(1), folded M(4)]
  have geo: "geometry_ok n ?p" by (rule layout_geometry [OF bl P(1) P(2) P(3) n64])
  have pl: "placed n ?p" by (rule layout_placed [OF bl P(1) P(2) P(3)])
  have room: "?r + ?F * 2 + unat (root_blocks fl) + (?N - 2) * 2 ^ s \<le> n" using L(7,8) S(1) by simp
  have opn: "\<exists>uf'. ufat_open uf (file_device 9) = Inr (0, uf') \<and> bpb uf' = ?p \<and> fresh_volume n uf'"
    if u: "disk uf = dk'" "length (cache_data uf) = 8192" for uf
  proof -
    have d': "length (disk uf) = n * 2 ^ 9 \<and> n * 2 ^ 9 \<le> 2 ^ 63" using M(3) u(1) by simp
    have lg': "9 \<le> log2_block_size (file_device 9)" "log2_block_size (file_device 9) \<le> 13" by simp_all
    have pr: "parse_bpb (log2_block_size (file_device 9)) (bpb uf) (file_block 9 (disk uf) 0) = Inr (0, ?p)"
      using parse_fresh(1) [OF f M(1), of "bpb uf"] M(4) u(1) by simp
    have n0: "0 < n" using n(1) by simp
    obtain uf' where o: "ufat_open uf (file_device 9) = Inr (0, uf')" "bpb uf' = ?p" "file_dev.cache_ok 9 n uf'" "alloc_ptr uf' = 0"
        "\<forall>b < n. \<not> is_mirror ?p b \<longrightarrow> file_dev.view 9 uf' b = file_block 9 (disk uf) b"
        "file_dev.fats_equal 9 (file_dev.opened 9 uf ?p) \<longrightarrow> file_dev.fats_equal 9 uf'"
      by (rule file_dev.open_ok [OF d' u(2) lg' n0 pr geo])
    have mirror: "b < ?r + ?F \<and> ?r \<le> b \<and> c = b + ?F" if mi: "mirrors ?p b c" for b c
    proof -
      obtain k where k: "in_fat ?p b" "0 < k" "k < unat (fat_count ?p)" "c = b + k * unat (fat_size ?p)"
        using mi by (auto simp: mirrors_def)
      have "k = 1" using k(2,3) by (simp add: fresh_bpb_def)
      then show ?thesis using k(1,4) by (simp add: in_fat_def G(1,2))
    qed
    have same: "file_block 9 dk' c = file_block 9 dk' b" if "mirrors ?p b c" for b c
    proof -
      have m: "b < ?r + ?F" "?r \<le> b" "c = b + ?F" using mirror [OF that] by simp_all
      have l: "b - ?r < ?F * 2" "b - ?r + ?F < ?F * 2" "?r + (b - ?r) = b" "?r + (b - ?r + ?F) = c" using m by linarith+
      show ?thesis using M(5) [rule_format, OF l(1)] M(5) [rule_format, OF l(2)] unfolding l(3,4) by simp
    qed
    have eq: "file_dev.fats_equal 9 uf'"
      using same o(6) by (simp add: file_dev.fats_equal_def file_dev.opened_def u(1))
    have byte: "file_dev.fat_byte 9 uf' a = fresh_byte t ?N a" if a: "a < ?F * 512" for a
    proof -
      have ad: "a div 512 < ?F" using a by (simp add: less_mult_imp_div_less)
      then have "in_fat ?p (?r + a div 512)" "?r + a div 512 < n" using room by (simp_all add: in_fat_def G(1,2))
      then have "file_dev.view 9 uf' (?r + a div 512) = fresh_block t ?N (a div 512)"
        using o(5) mirror_not_fat [of ?p "?r + a div 512"] M(5) ad u(1) L(7) by simp
      moreover have "fresh_block t ?N (a div 512) ! (a mod 512) = fresh_byte t ?N a"
        by (simp add: fresh_block_def del: upt_Suc)
      ultimately show ?thesis by (simp add: file_dev.fat_byte_def o(2) G(1))
    qed
    have entry: "file_dev.fat_entry 9 uf' c = (if t = UFAT_TYPE_FAT32 \<and> c = 2 then UFAT_CLUSTER_EOC else UFAT_CLUSTER_FREE)"
      if c: "2 \<le> c" "c < ?N" for c
    proof -
      have "entry_end t c \<le> entry_end t (?N - 1)" using c by (intro entry_end_mono) simp
      then have "entry_end t c \<le> ?F * 512" using K(6) L(6) by simp
      then have "file_dev.fat_entry 9 uf' c = entry_of t (fresh_byte t ?N) c"
        unfolding file_dev.fat_entry_def o(2) G(7) by (intro entry_of_cong byte) linarith
      then show ?thesis using fresh_entry [OF c] by simp
    qed
    have root: "file_dev.view 9 uf' k = replicate 512 0" if k: "k \<in> root_range s fl" for k
    proof -
      have above: "?r + ?F * 2 \<le> k" using k by (auto simp: root_range_def Let_def split: if_splits)
      then have "\<not> is_mirror ?p k" using mirror by (fastforce simp: is_mirror_def)
      moreover have "k < n"
      proof (cases "t = UFAT_TYPE_FAT32")
        case True
        then show ?thesis using k K(1) L(2,5,6) by (simp add: root_range_def Let_def fresh_root_def)
      next
        case False
        then show ?thesis using k room L(2) by (simp add: root_range_def Let_def)
      qed
      ultimately show ?thesis using o(5) M(6) k u(1) by simp
    qed
    have "file_dev.table_ok 9 ?p"
      using K(4,5,6) by (simp add: file_dev.table_ok_def file_dev.fat_len_def G L(6) del: One_nat_def)
    moreover have "file_dev.ptr_ok uf'" using K(4) o(2,4) by (simp add: file_dev.ptr_ok_def G(6))
    ultimately show ?thesis
      using o(1-3) eq pl K(4) entry root G(6-8) by (intro exI [of _ uf']) (simp add: fresh_volume_def)
  qed
  show ?thesis using M(2,3) f opn unfolding k512 by blast
qed

text \<open>
  C7: formatting a device of 40 to 2^31 blocks of 512 bytes succeeds and writes nothing outside it; opening it then
  succeeds and gives a volume whose cache and table are in order, whose copies of the table are equal, whose
  clusters lie on the device, in which every cluster is free (in FAT32 all but the first, which holds the
  root directory), and whose root directory has no entries.
\<close>

theorem format_then_open:
  assumes n: "40 \<le> n" "n \<le> 2 ^ 31" and d: "length dk = n * 512"
  shows "\<exists>dk'. ufat_mkfs ufat_dev (of_nat n) dk = Inr (0, dk') \<and> length dk' = n * 512 \<and>
    (\<forall>uf. disk uf = dk' \<longrightarrow> length (cache_data uf) = 8192 \<longrightarrow>
      (\<exists>uf'. ufat_open uf ufat_dev = Inr (0, uf') \<and> file_dev.cache_ok 9 n uf' \<and> file_dev.table_ok 9 (bpb uf') \<and>
        file_dev.ptr_ok uf' \<and> file_dev.fats_equal 9 uf' \<and> placed n (bpb uf') \<and> 3 \<le> unat (num_clusters (bpb uf')) \<and>
        (\<forall>c. 2 \<le> c \<longrightarrow> c < unat (num_clusters (bpb uf')) \<longrightarrow> file_dev.fat_entry 9 uf' c =
           (if fat_type (bpb uf') = UFAT_TYPE_FAT32 \<and> c = 2 then UFAT_CLUSTER_EOC else UFAT_CLUSTER_FREE)) \<and>
        (\<forall>k \<in> root_dir_blocks (bpb uf'). file_dev.view 9 uf' k = replicate 512 0)))"
  using fresh_opened [OF assms] unfolding fresh_volume_def ufat_dev_def by blast

theorem format_then_open_witness:
  "\<exists>dk' uf'. ufat_mkfs ufat_dev 40 (replicate 20480 0) = Inr (0, dk') \<and> ufat_open (raw_memory dk') ufat_dev = Inr (0, uf') \<and>
     file_dev.cache_ok 9 40 uf'"
proof -
  have l: "length (replicate 20480 (0::u8)) = 40 * 512" by simp
  have n: "(40::nat) \<le> 40" "(40::nat) \<le> 2 ^ 31" by simp_all
  obtain dk' where m: "ufat_mkfs ufat_dev (of_nat 40) (replicate 20480 0) = Inr (0, dk')"
    "\<forall>uf. disk uf = dk' \<longrightarrow> length (cache_data uf) = 8192 \<longrightarrow>
      (\<exists>uf'. ufat_open uf ufat_dev = Inr (0, uf') \<and> file_dev.cache_ok 9 40 uf')"
    using format_then_open [OF n l] by blast
  have "disk (raw_memory dk') = dk'" "length (cache_data (raw_memory dk')) = 8192"
    by (simp_all add: raw_memory_def small_volume_def)
  then obtain uf' where "ufat_open (raw_memory dk') ufat_dev = Inr (0, uf')" "file_dev.cache_ok 9 40 uf'" using m(2) by blast
  then show ?thesis using m(1) by auto
qed

section \<open>Sizes that are not handled\<close>

text \<open>With blocks of 4096 bytes there are sizes for which a FAT12 table is written and a FAT16 volume is opened.\<close>

lemma fat12_too_large:
  "(case calculate_layout 8193 12 of Inl _ \<Rightarrow> False | Inr fl \<Rightarrow> type fl = UFAT_TYPE_FAT12 \<and> UFAT_MAX_FAT12 < clusters fl)"
  by code_simp

text \<open>A device that is too small is not rejected: the number of clusters wraps.\<close>

lemma too_small_wraps: "(case calculate_layout 10 9 of Inl _ \<Rightarrow> False | Inr fl \<Rightarrow> clusters fl = 0xfffffff5)"
  by code_simp

text \<open>With sectors of two blocks the block counts are doubled instead of halved.\<close>

lemma shift_wrong_way: "log2_sector_size fl = 10 \<Longrightarrow> reserved_blocks fl = 64 \<Longrightarrow> (0x00e, w16 128) \<in> set (bpb_stores 9 fl)"
  by (simp add: bpb_stores_def Let_def push_bit_eq_mult)

text \<open>The signature is stored behind a block of 256 bytes.\<close>

lemma signature_outside: "put_all (bpb_stores 8 fl) (replicate 256 0) = Inl C_Fault"
  by (simp add: bpb_stores_def Let_def mem_store_def boot_header_def)

end
