(* ===== verification/Sh_Vfat.thy ===== *)
theory Sh_Vfat
  imports Sh_Shell Fat_Dir Fat_Mkfs
begin

text \<open>
  The commands of the shell on the file system (fs/vfat.c): \<open>ufat\<close>, \<open>touch\<close>, \<open>mkdir\<close>, \<open>sync\<close>, \<open>ls\<close> and \<open>cd\<close>,
  with their entries of the table of commands.
\<close>

section \<open>The statics\<close>

text \<open>
  \<open>uf\<close>, whose member \<open>dev\<close> is not NULL after the first \<open>ufat_open\<close> (\<open>uf_dev\<close>) and whose disk is the file behind
  the device all the time; the position, the block and the start of \<open>dir\<close>, whose member \<open>uf\<close> is NULL before
  the first \<open>ufat_open_root\<close> (\<open>None\<close>); the path.
\<close>

record vfat =
  vf_uf :: "bytes ufat"
  uf_dev :: bool
  vf_dir :: "(u32 \<times> u64 \<times> u64) option"
  cur_dir_full :: string

definition FULL_PATH_LEN :: nat where "FULL_PATH_LEN = 2048"

definition get_dir :: "vfat shell \<Rightarrow> bytes ufat_directory option" where
  "get_dir sh = map_option (\<lambda>(pos, blk, start). \<lparr>dir_uf = vf_uf (fs_state sh), cur_pos = pos, cur_block = blk, dir_start = start\<rparr>)
     (vf_dir (fs_state sh))"

definition put_uf :: "bytes ufat \<Rightarrow> vfat shell \<Rightarrow> vfat shell" where
  "put_uf uf sh = sh\<lparr>fs_state := (fs_state sh)\<lparr>vf_uf := uf\<rparr>\<rparr>"

definition put_dir :: "bytes ufat_directory \<Rightarrow> vfat shell \<Rightarrow> vfat shell" where
  "put_dir dir sh = sh\<lparr>fs_state := (fs_state sh)\<lparr>vf_uf := dir_uf dir, vf_dir := Some (cur_pos dir, cur_block dir, dir_start dir)\<rparr>\<rparr>"

definition put_path :: "string \<Rightarrow> vfat shell \<Rightarrow> vfat shell" where
  "put_path p sh = sh\<lparr>fs_state := (fs_state sh)\<lparr>cur_dir_full := p\<rparr>\<rparr>"

text \<open>A use of \<open>dir\<close> that follows its pointer.\<close>

definition with_dir :: "vfat shell \<Rightarrow> (bytes ufat_directory \<Rightarrow> 'a cres) \<Rightarrow> 'a cres" where
  "with_dir sh f = (case get_dir sh of None \<Rightarrow> Inl C_Fault | Some dir \<Rightarrow> f dir)"

text \<open>A string of the shell as the bytes of uFAT, and back.\<close>

definition str_bytes :: "string \<Rightarrow> bytes" where
  "str_bytes s = map of_char s"

definition bytes_str :: "bytes \<Rightarrow> string" where
  "bytes_str bs = map (\<lambda>b. char_of (unat b)) bs"

definition CHECK_FS_OPEN :: "vfat shell \<Rightarrow> (vfat shell \<Rightarrow> (cli_status_t \<times> vfat shell) cres) \<Rightarrow> (cli_status_t \<times> vfat shell) cres" where
  "CHECK_FS_OPEN sh f =
     (if \<not> uf_dev (fs_state sh)
      then rbind (shell_printf (''ufat has not open, you should open it first!'' @ crlf) [] sh) (\<lambda>sh. Inr (CLI_EXE_ERROR, sh))
      else f sh)"

section \<open>Going through a directory\<close>

text \<open>
  The loops that read all entries from the current position on and do something with each; the result is the
  last return value. \<open>ent\<close> is what the local \<open>inf\<close> holds before the call, \<open>k\<close> and \<open>n\<close> bound the entries.
\<close>

fun dir_loop :: "nat \<Rightarrow> nat \<Rightarrow> ufat_dirent \<Rightarrow> (ufat_dirent \<Rightarrow> string \<Rightarrow> vfat shell \<Rightarrow> vfat shell cres) \<Rightarrow> vfat shell \<Rightarrow>
    (int \<times> vfat shell) cres" where
  "dir_loop 0 n ent act sh = Inl C_Fuel"
| "dir_loop (Suc k) n ent act sh =
     with_dir sh (\<lambda>dir.
     rbind (ufat_dir_read n dir ent (Some name_array) (int UFAT_LFN_MAX_UTF8)) (\<lambda>(rc, e, lfn, dir).
     let sh = put_dir dir sh in
     if rc \<noteq> 0 then Inr (rc, sh)
     else
       rbind (char_str (case lfn of Some b \<Rightarrow> b | None \<Rightarrow> [])) (\<lambda>lfn.
       rbind (act e (bytes_str lfn) sh) (dir_loop k n ent act))))"

section \<open>ufat\<close>

definition ufat_usage :: "vfat shell \<Rightarrow> vfat shell cres" where
  "ufat_usage sh =
     rbind (shell_printf (''usage: ufat <cmd>'' @ crlf) [] sh)
       (shell_printf (''<cmd> can be 1.format 2.open 3.info'' @ crlf) [])"

definition type_number :: "ufat_fat_type_t \<Rightarrow> u32" where
  "type_number t = (case t of UFAT_TYPE_FAT12 \<Rightarrow> 12 | UFAT_TYPE_FAT16 \<Rightarrow> 16 | UFAT_TYPE_FAT32 \<Rightarrow> 32)"

text \<open>The conversion \<open>%u\<close> takes the low half of a 64-bit argument.\<close>

definition ufat_info :: "ufat_bpb \<Rightarrow> vfat shell \<Rightarrow> vfat shell cres" where
  "ufat_info p sh =
     rbind (shell_printf (''Type:                       FAT%d'' @ crlf) [VInt (type_number (fat_type p))] sh) (\<lambda>sh.
     rbind (if unat (log2_blocks_per_cluster p) < 31
       then shell_printf (''Blocks per cluster:         %u'' @ crlf) [VInt (push_bit (unat (log2_blocks_per_cluster p)) 1)] sh
       else Inl C_Fault) (\<lambda>sh.
     rbind (shell_printf (''FAT size (blocks):          %u'' @ crlf) [VInt (ucast (fat_size p))] sh) (\<lambda>sh.
     rbind (shell_printf (''FAT offset (block):         %u'' @ crlf) [VInt (ucast (fat_start p))] sh) (\<lambda>sh.
     rbind (shell_printf (''FAT count:                  %u'' @ crlf) [VInt (fat_count p)] sh) (\<lambda>sh.
     rbind (shell_printf (''Cluster starting block:     %u'' @ crlf) [VInt (ucast (cluster_start p))] sh) (\<lambda>sh.
     rbind (shell_printf (''Clusters:                   %u'' @ crlf) [VInt (num_clusters p)] sh) (\<lambda>sh.
     rbind (shell_printf (''Root directory block start: %u'' @ crlf) [VInt (ucast (root_start p))] sh) (\<lambda>sh.
     rbind (shell_printf (''Root directory block count: %u'' @ crlf) [VInt (ucast (root_size p))] sh) (\<lambda>sh.
     shell_printf (''Root directory cluster:     %u'' @ crlf) [VInt (root_cluster p)] sh)))))))))"

text \<open>The file that is formatted is the disk of \<open>uf\<close>; its cache is not told.\<close>

definition ufat_func :: "nat \<Rightarrow> ufat_dirent \<Rightarrow> string list \<Rightarrow> vfat shell \<Rightarrow> (cli_status_t \<times> vfat shell) cres" where
  "ufat_func n ent as sh =
     (let uf = vf_uf (fs_state sh) in
      if length as \<noteq> 2 then Inr (CLI_INVALID_ARGS, sh)
      else if match_cmd ''format'' (as ! 1) then
        rbind (ufat_mkfs ufat_dev 2097152 (disk uf)) (\<lambda>(rc, dk).
        Inr (if rc \<noteq> 0 then CLI_EXE_ERROR else CLI_OK, put_uf (uf\<lparr>disk := dk\<rparr>) sh))
      else if match_cmd ''open'' (as ! 1) then
        rbind (ufat_open uf ufat_dev) (\<lambda>(rc, uf).
        let sh = put_uf uf (sh\<lparr>fs_state := (fs_state sh)\<lparr>uf_dev := True\<rparr>\<rparr>) in
        if rc \<noteq> 0 then Inr (CLI_EXE_ERROR, sh)
        else
          let sh = put_dir (ufat_open_root uf) sh in
          rbind (mem_store (cur_dir_full (fs_state sh)) 0 [CHR ''/'', NUL]) (\<lambda>path.
          let sh = put_path path sh in
          rbind (c_str path) (\<lambda>p.
          rbind (shell_set_prompt (Some p) sh) (\<lambda>sh.
          rbind (dir_loop n n ent (\<lambda>_. shell_add_keyword) sh) (\<lambda>(rc, sh).
          Inr (if rc < 0 then CLI_EXE_ERROR else CLI_OK, sh))))))
      else if match_cmd ''info'' (as ! 1) then
        CHECK_FS_OPEN sh (\<lambda>sh. rbind (ufat_info (bpb uf) sh) (\<lambda>sh. Inr (CLI_OK, sh)))
      else Inr (CLI_INVALID_ARGS, sh))"

section \<open>touch, mkdir and sync\<close>

definition touch_usage :: "vfat shell \<Rightarrow> vfat shell cres" where
  "touch_usage sh =
     rbind (shell_printf (''usage: touch <filname>'' @ crlf) [] sh)
       (shell_printf (''create a empty file in current dir.'' @ crlf) [])"

text \<open>A name that is not legal is rejected before \<open>dir\<close> is used; \<open>ent\<close> is the local \<open>inf\<close>, which has no value.\<close>

definition touch_func :: "nat \<Rightarrow> ufat_dirent \<Rightarrow> string list \<Rightarrow> vfat shell \<Rightarrow> (cli_status_t \<times> vfat shell) cres" where
  "touch_func n ent as sh =
     (if length as \<noteq> 2 then Inr (CLI_INVALID_ARGS, sh)
      else
        CHECK_FS_OPEN sh (\<lambda>sh.
        if vf_dir (fs_state sh) = None \<and> \<not> ufat_lfn_is_legal (str_bytes (as ! 1)) then Inr (CLI_EXE_ERROR, sh)
        else
          with_dir sh (\<lambda>dir.
          rbind (ufat_dir_mkfile n dir ent (str_bytes (as ! 1))) (\<lambda>(rc, _, dir).
          Inr (if rc \<noteq> 0 then CLI_EXE_ERROR else CLI_OK, put_dir dir sh)))))"

definition mkdir_usage :: "vfat shell \<Rightarrow> vfat shell cres" where
  "mkdir_usage sh =
     rbind (shell_printf (''usage: mkdir <dirname>'' @ crlf) [] sh)
       (shell_printf (''create a empty dir in current dir.'' @ crlf) [])"

definition mkdir_func :: "nat \<Rightarrow> ufat_dirent \<Rightarrow> string list \<Rightarrow> vfat shell \<Rightarrow> (cli_status_t \<times> vfat shell) cres" where
  "mkdir_func n ent as sh =
     (if length as \<noteq> 2 then Inr (CLI_INVALID_ARGS, sh)
      else
        CHECK_FS_OPEN sh (\<lambda>sh.
        if vf_dir (fs_state sh) = None \<and> \<not> ufat_lfn_is_legal (str_bytes (as ! 1)) then Inr (CLI_EXE_ERROR, sh)
        else
          with_dir sh (\<lambda>dir.
          rbind (ufat_dir_create n dir ent (str_bytes (as ! 1))) (\<lambda>(rc, _, dir).
          Inr (if rc \<noteq> 0 then CLI_EXE_ERROR else CLI_OK, put_dir dir sh)))))"

definition sync_usage :: "vfat shell \<Rightarrow> vfat shell cres" where
  "sync_usage sh =
     rbind (shell_printf (''usage: sync'' @ crlf) [] sh) (shell_printf (''sync ufat system.'' @ crlf) [])"

definition sync_func :: "string list \<Rightarrow> vfat shell \<Rightarrow> (cli_status_t \<times> vfat shell) cres" where
  "sync_func as sh =
     (if length as \<noteq> 1 then Inr (CLI_INVALID_ARGS, sh)
      else
        CHECK_FS_OPEN sh (\<lambda>sh.
        rbind (ufat_sync (vf_uf (fs_state sh))) (\<lambda>(rc, uf).
        Inr (if rc \<noteq> 0 then CLI_EXE_ERROR else CLI_OK, put_uf uf sh))))"

section \<open>ls\<close>

definition UFAT_ATTR_READONLY :: u32 where "UFAT_ATTR_READONLY = 0x01"
definition UFAT_ATTR_HIDDEN :: u32 where "UFAT_ATTR_HIDDEN = 0x02"
definition UFAT_ATTR_SYSTEM :: u32 where "UFAT_ATTR_SYSTEM = 0x04"
definition UFAT_ATTR_ARCHIVE :: u32 where "UFAT_ATTR_ARCHIVE = 0x20"

text \<open>The macros work on \<open>int\<close>, to which the 16-bit fields are promoted.\<close>

definition UFAT_TIME_H :: "u16 \<Rightarrow> u32" where "UFAT_TIME_H t = drop_bit 11 (ucast t) AND 0x1f"
definition UFAT_TIME_M :: "u16 \<Rightarrow> u32" where "UFAT_TIME_M t = drop_bit 5 (ucast t) AND 0x3f"
definition UFAT_TIME_S :: "u16 \<Rightarrow> u32" where "UFAT_TIME_S t = push_bit 1 (ucast t AND 0x1f)"
definition UFAT_DATE_Y :: "u16 \<Rightarrow> u32" where "UFAT_DATE_Y d = drop_bit 9 (ucast d) + 1980"
definition UFAT_DATE_M :: "u16 \<Rightarrow> u32" where "UFAT_DATE_M d = drop_bit 5 (ucast d) AND 0xf"
definition UFAT_DATE_D :: "u16 \<Rightarrow> u32" where "UFAT_DATE_D d = ucast d AND 0x1f"

definition ls_usage :: "vfat shell \<Rightarrow> vfat shell cres" where
  "ls_usage sh =
     rbind (shell_printf (''usage: ls'' @ crlf) [] sh) (shell_printf (''list all items in cur directory.'' @ crlf) [])"

definition attr_char :: "ufat_dirent \<Rightarrow> u32 \<Rightarrow> char \<Rightarrow> va_item" where
  "attr_char ent a c = VInt (word_of_int (schar (if attributes ent AND a \<noteq> 0 then c else CHR '' '')))"

text \<open>The line of an entry.\<close>

definition ls_line :: "ufat_dirent \<Rightarrow> string \<Rightarrow> vfat shell \<Rightarrow> vfat shell cres" where
  "ls_line ent lfn sh =
     rbind (shell_printf ''%04d-%02d-%02d ''
       [VInt (UFAT_DATE_Y (modify_date ent)), VInt (UFAT_DATE_M (modify_date ent)), VInt (UFAT_DATE_D (modify_date ent))] sh) (\<lambda>sh.
     rbind (shell_printf ''%2d:%02d:%02d ''
       [VInt (UFAT_TIME_H (modify_time ent)), VInt (UFAT_TIME_M (modify_time ent)), VInt (UFAT_TIME_S (modify_time ent))] sh) (\<lambda>sh.
     rbind (shell_printf ''%c%c%c%c%c ''
       [attr_char ent UFAT_ATTR_ARCHIVE (CHR ''A''), attr_char ent UFAT_ATTR_SYSTEM (CHR ''S''),
        attr_char ent UFAT_ATTR_HIDDEN (CHR ''H''), attr_char ent UFAT_ATTR_READONLY (CHR ''R''),
        attr_char ent UFAT_ATTR_DIRECTORY (CHR ''D'')] sh) (\<lambda>sh.
     rbind (shell_printf ''%9u '' [VInt (file_size ent)] sh) (\<lambda>sh.
     shell_printf (''%s'' @ crlf) [VStr lfn] sh))))"

text \<open>\<open>ufat_dir_rewind\<close> does not follow the pointer of \<open>dir\<close>.\<close>

definition rewind_dir :: "vfat shell \<Rightarrow> vfat shell" where
  "rewind_dir sh = (case get_dir sh of None \<Rightarrow> sh | Some dir \<Rightarrow> put_dir (ufat_dir_rewind dir) sh)"

definition ls_func :: "nat \<Rightarrow> ufat_dirent \<Rightarrow> string list \<Rightarrow> vfat shell \<Rightarrow> (cli_status_t \<times> vfat shell) cres" where
  "ls_func n ent as sh =
     (if length as \<noteq> 1 then Inr (CLI_INVALID_ARGS, sh)
      else
        CHECK_FS_OPEN sh (\<lambda>sh.
        rbind (dir_loop n n ent ls_line (rewind_dir sh)) (\<lambda>(rc, sh).
        Inr (if rc < 0 then CLI_EXE_ERROR else CLI_OK, sh))))"

section \<open>cd\<close>

definition cd_usage :: "vfat shell \<Rightarrow> vfat shell cres" where
  "cd_usage sh =
     rbind (shell_printf (''usage: cd <dirname>'' @ crlf) [] sh)
       (shell_printf (''enter a dir (which is in cur dir).'' @ crlf) [])"

text \<open>\<open>while (cur_dir_full[i] != '/') i--;\<close>\<close>

fun last_slash :: "string \<Rightarrow> nat \<Rightarrow> nat cres" where
  "last_slash path 0 = rbind (aget path 0) (\<lambda>c. if c \<noteq> CHR ''/'' then Inl C_Fault else Inr 0)"
| "last_slash path (Suc i) =
     rbind (aget path (int (Suc i))) (\<lambda>c. if c \<noteq> CHR ''/'' then last_slash path i else Inr (Suc i))"

text \<open>The path after a successful \<open>cd\<close>; the first result is \<open>False\<close> when it is too long.\<close>

definition cd_path :: "string \<Rightarrow> string \<Rightarrow> (bool \<times> string) cres" where
  "cd_path path name =
     rbind (c_str path) (\<lambda>p.
     if match_cmd ''..'' name then
       rbind (last_slash path (length p)) (\<lambda>i.
       rbind (aset path (if i = 0 then 1 else int i) NUL) (\<lambda>path. Inr (True, path)))
     else
       let orilen = length p; subdirlen = length name in
       if orilen + 1 + subdirlen > FULL_PATH_LEN then Inr (False, path)
       else if orilen \<noteq> 1 then
         rbind (aset path (int orilen) (CHR ''/'')) (\<lambda>path.
         rbind (mem_store path (orilen + 1) name) (\<lambda>path.
         rbind (aset path (int (orilen + 1 + subdirlen)) NUL) (\<lambda>path. Inr (True, path))))
       else
         rbind (mem_store path orilen name) (\<lambda>path.
         rbind (aset path (int (orilen + subdirlen)) NUL) (\<lambda>path. Inr (True, path))))"

definition cd_finish :: "string \<Rightarrow> vfat shell \<Rightarrow> (cli_status_t \<times> vfat shell) cres" where
  "cd_finish name sh =
     (if match_cmd ''.'' name then Inr (CLI_OK, sh)
      else
        rbind (cd_path (cur_dir_full (fs_state sh)) name) (\<lambda>(fits, path).
        if \<not> fits then
          rbind (shell_printf (''FULL_PATH_LEN limit!'' @ crlf) [] sh) (\<lambda>sh. Inr (CLI_EXE_ERROR, sh))
        else
          rbind (c_str path) (\<lambda>p.
          rbind (shell_set_prompt (Some p) (put_path path sh)) (\<lambda>sh. Inr (CLI_OK, sh)))))"

definition say_removing :: "ufat_dirent \<Rightarrow> string \<Rightarrow> vfat shell \<Rightarrow> vfat shell cres" where
  "say_removing ent lfn sh = shell_printf (''removing %s'' @ crlf) [VStr lfn] sh"

definition say_adding :: "ufat_dirent \<Rightarrow> string \<Rightarrow> vfat shell \<Rightarrow> vfat shell cres" where
  "say_adding ent lfn sh =
     (if match_cmd ''.'' lfn \<or> match_cmd ''..'' lfn then Inr sh
      else shell_printf (''adding %s'' @ crlf) [VStr lfn] sh)"

definition cd_func :: "nat \<Rightarrow> ufat_dirent \<Rightarrow> string list \<Rightarrow> vfat shell \<Rightarrow> (cli_status_t \<times> vfat shell) cres" where
  "cd_func n ent as sh =
     (if length as \<noteq> 2 then Inr (CLI_INVALID_ARGS, sh)
      else
        CHECK_FS_OPEN sh (\<lambda>sh.
        with_dir sh (\<lambda>dir.
        rbind (ufat_dir_find n dir (str_bytes (as ! 1)) ent) (\<lambda>(rc, found, dir).
        let sh = put_dir dir sh in
        if rc \<noteq> 0 then
          rbind (shell_printf (''cannot find this dir.'' @ crlf) [] sh) (\<lambda>sh. Inr (CLI_EXE_ERROR, sh))
        else
          rbind (dir_loop n n ent say_removing sh) (\<lambda>(rc, sh).
          if rc < 0 then Inr (CLI_EXE_ERROR, sh)
          else
            case ufat_open_subdir (vf_uf (fs_state sh)) found of
              Inl err \<Rightarrow> Inr (CLI_EXE_ERROR, sh)
            | Inr dir \<Rightarrow>
                rbind (dir_loop n n ent say_adding (put_dir dir sh)) (\<lambda>(rc, sh).
                if rc < 0 then Inr (CLI_EXE_ERROR, sh) else cd_finish (as ! 1) sh))))))"

section \<open>The table\<close>

definition vfat_cmds :: "nat \<Rightarrow> ufat_dirent \<Rightarrow> vfat cmd_t list" where
  "vfat_cmds n ent =
     [\<lparr>cmd_name = ''ufat'', cmd_usage = Some ufat_usage, cmd_func = Some (ufat_func n ent)\<rparr>,
      \<lparr>cmd_name = ''touch'', cmd_usage = Some touch_usage, cmd_func = Some (touch_func n ent)\<rparr>,
      \<lparr>cmd_name = ''mkdir'', cmd_usage = Some mkdir_usage, cmd_func = Some (mkdir_func n ent)\<rparr>,
      \<lparr>cmd_name = ''sync'', cmd_usage = Some sync_usage, cmd_func = Some sync_func\<rparr>,
      \<lparr>cmd_name = ''ls'', cmd_usage = Some ls_usage, cmd_func = Some (ls_func n ent)\<rparr>,
      \<lparr>cmd_name = ''cd'', cmd_usage = Some cd_usage, cmd_func = Some (cd_func n ent)\<rparr>]"

end
