(* ===== verification/Sh_Files.thy ===== *)
theory Sh_Files
  imports Sh_Vfat Sh_Words Fat_Fresh
begin

text \<open>
  The commands on the file system: reading a directory whose blocks are clear, a session that formats and opens
  the device, and the path that \<open>cd\<close> keeps.
\<close>

section \<open>Reading an empty directory\<close>

lemma unat_block_to_cluster:
  "unat (cluster_start p) \<le> unat b \<Longrightarrow> unat b < 2 ^ 32 - 2 \<Longrightarrow>
    unat (block_to_cluster p b) = (unat b - unat (cluster_start p)) div 2 ^ unat (log2_blocks_per_cluster p) + 2"
  unfolding block_to_cluster_def by (subst unat_cluster_count) (simp_all add: unat_minus)

context block_device
begin

text \<open>The end of a directory: the end of the root area, or of a cluster with no successor.\<close>

definition dir_end :: "'d ufat \<Rightarrow> nat \<Rightarrow> nat \<Rightarrow> bool" where
  "dir_end uf a e \<longleftrightarrow>
     e = unat (cluster_start (bpb uf)) \<or>
     (\<exists>c. 2 \<le> c \<and> c < nclus uf \<and> a = clus_block (bpb uf) c \<and>
       e = a + 2 ^ unat (log2_blocks_per_cluster (bpb uf)) \<and> \<not> UFAT_CLUSTER_IS_PTR (fat_entry uf c))"

definition clear_range :: "'d ufat \<Rightarrow> nat \<Rightarrow> nat \<Rightarrow> bool" where
  "clear_range uf a e \<longleftrightarrow> e \<le> nblocks \<and> e < 2 ^ 32 - 2 \<and>
     (\<forall>k. a \<le> k \<longrightarrow> k < e \<longrightarrow> \<not> is_mirror (bpb uf) k \<and> view uf k = replicate bsize 0)"

lemma clear_keeps: "clear_range uf a e \<Longrightarrow> keeps uf uf' \<Longrightarrow> clear_range uf' a e"
  using keeps_facts [of uf uf'] by (simp add: clear_range_def)

lemma end_keeps: "dir_end uf a e \<Longrightarrow> cache_ok uf \<Longrightarrow> table_ok (bpb uf) \<Longrightarrow> keeps uf uf' \<Longrightarrow> dir_end uf' a e"
  unfolding dir_end_def using keeps_facts(2) [of uf uf'] keeps_entry [of uf uf'] by auto

text \<open>Advancing over one entry.\<close>

lemma advance_ok:
  assumes c: "cache_ok uf" and t: "table_ok (bpb uf)" and lg: "log2_block_size device = 9"
    and d: "dir_uf dir = uf" "unat (cur_pos dir) = q" "q < 16" "unat (cur_block dir) = b"
    and r: "dir_end uf a e" "a \<le> b" "b < e" "e < 2 ^ 32 - 2"
  shows "\<exists>dir'. ufat_advance_raw_dirent dir False = Inr (0, dir') \<and> keeps uf (dir_uf dir') \<and> dir_start dir' = dir_start dir \<and>
    (if q + 1 < 16 then unat (cur_pos dir') = q + 1 \<and> cur_block dir' = cur_block dir
     else unat (cur_pos dir') = 0 \<and> (if b + 1 < e then unat (cur_block dir') = b + 1 else cur_block dir' = UFAT_BLOCK_NONE))"
proof -
  have dv: "log2_block_size (dev (dir_uf dir)) = 9" using lg lg_dev [OF c] d(1) by simp
  have p1: "unat (cur_pos dir + 1) = q + 1" using d(2,3) by (simp add: unat_word_ariths)
  then have p32: "unat ((cur_pos dir + 1) * of_nat UFAT_DIRENT_SIZE) = (q + 1) * 32"
    unfolding unat_word_ariths(2) using d(3) by (simp add: UFAT_DIRENT_SIZE_def)
  have "push_bit 9 (1::u32) = 512" by (simp add: push_bit_of_1)
  then have ge: "push_bit 9 1 \<le> (cur_pos dir + 1) * of_nat UFAT_DIRENT_SIZE \<longleftrightarrow> \<not> q + 1 < 16"
    unfolding word_le_nat_alt p32 by auto
  show ?thesis
  proof (cases "q + 1 < 16")
    case True
    then show ?thesis using ge dv p1 d(1) keeps_refl [OF c] by (simp add: ufat_advance_raw_dirent_def)
  next
    case False
    have b1: "unat (cur_block dir + 1) = b + 1" using d(4) r(3,4) by (simp add: unat_word_ariths)
    let ?cs = "unat (cluster_start (bpb uf))" and ?s = "2 ^ unat (log2_blocks_per_cluster (bpb uf)) :: nat"
    let ?dir = "dir\<lparr>cur_pos := 0\<rparr>"
    have adv: "ufat_advance_raw_dirent dir False =
        (if cur_block dir < cluster_start (bpb uf)
         then Inr (0, ?dir\<lparr>cur_block := (if cluster_start (bpb uf) \<le> cur_block dir + 1 then UFAT_BLOCK_NONE else cur_block dir + 1)\<rparr>)
         else advance_block_in_chain ?dir False)"
      using ge False dv d(1) by (simp add: ufat_advance_raw_dirent_def Let_def)
    show ?thesis
    proof (cases "b < ?cs")
      case True
      have "e = ?cs"
        using r(1) True r(2) unfolding dir_end_def clus_block_def by auto
      then show ?thesis
        using adv True False b1 d(1,4) keeps_refl [OF c] by (simp add: word_less_nat_alt word_le_nat_alt)
    next
      case high: False
      then obtain cl where cl: "2 \<le> cl" "cl < nclus uf" "a = clus_block (bpb uf) cl" "e = a + ?s" "\<not> UFAT_CLUSTER_IS_PTR (fat_entry uf cl)"
        using r(1,3) by (auto simp: dir_end_def)
      have au: "a = ?cs + (cl - 2) * ?s" using cl(3) by (simp add: clus_block_def)
      have num: "unat (block_to_cluster (bpb uf) x) = (unat x - ?cs) div ?s + 2" if "?cs \<le> unat x" "unat x \<le> e" for x
        using unat_block_to_cluster [of "bpb uf" x] that r(4) by simp
      have c0: "unat (block_to_cluster (bpb uf) (cur_block dir)) = cl"
      proof -
        have "b - ?cs = (b - a) + (cl - 2) * ?s" "b - a < ?s" using au r(2,3) cl(4) by linarith+
        then have "(b - ?cs) div ?s = cl - 2" by simp
        then show ?thesis using num [of "cur_block dir"] d(4) r(3) high cl(1) by simp
      qed
      have c1: "unat (block_to_cluster (bpb uf) (cur_block dir + 1)) = (if b + 1 < e then cl else cl + 1)"
      proof (cases "b + 1 < e")
        case True
        have "b + 1 - ?cs = (b + 1 - a) + (cl - 2) * ?s" "b + 1 - a < ?s" using au r(2) True cl(4) by linarith+
        then have "(b + 1 - ?cs) div ?s = cl - 2" by simp
        then show ?thesis using num [of "cur_block dir + 1"] b1 True high cl(1) by simp
      next
        case last: False
        have "b + 1 - ?cs = (cl - 2 + 1) * ?s" using au r(3) last cl(4) by (simp add: add_mult_distrib)
        then have "(b + 1 - ?cs) div ?s = cl - 2 + 1" by simp
        then show ?thesis using num [of "cur_block dir + 1"] b1 last r(3) high cl(1) by simp
      qed
      have eq: "block_to_cluster (bpb uf) (cur_block dir) = block_to_cluster (bpb uf) (cur_block dir + 1) \<longleftrightarrow> b + 1 < e"
        unfolding word_unat_eq_iff c0 c1 by simp
      have nl: "\<not> cur_block dir < cluster_start (bpb uf)" using high d(4) by (simp add: word_less_nat_alt)
      show ?thesis
      proof (cases "b + 1 < e")
        case True
        then show ?thesis
          using adv nl eq False b1 d(1) keeps_refl [OF c] by (simp add: advance_block_in_chain_def Let_def)
      next
        case last: False
        have cb: "unat (block_to_cluster (bpb uf) (cur_block dir)) < nclus uf" using c0 cl(2) by simp
        obtain uf' where rd: "ufat_read_fat uf (block_to_cluster (bpb uf) (cur_block dir)) = Inr (Inr (fat_entry uf cl), uf')" "keeps uf uf'"
          using read_fat_ok [OF c t cb] unfolding c0 by blast
        then show ?thesis
          using adv nl eq last False d(1) cl(5) by (simp add: advance_block_in_chain_def Let_def)
      qed
    qed
  qed
qed

text \<open>All entries are passed over, to the end.\<close>

lemma read_clear:
  assumes lg: "log2_block_size device = 9"
  shows "cache_ok uf \<Longrightarrow> table_ok (bpb uf) \<Longrightarrow> dir_uf dir = uf \<Longrightarrow> dir_end uf a e \<Longrightarrow> clear_range uf a e \<Longrightarrow>
    a \<le> unat (cur_block dir) \<Longrightarrow> unat (cur_block dir) < e \<Longrightarrow> unat (cur_pos dir) < 16 \<Longrightarrow>
    (e - unat (cur_block dir)) * 16 - unat (cur_pos dir) < n \<Longrightarrow>
    \<exists>ent' dir'. dir_read_loop n lfn dir ent buf m = Inr (1, ent', buf, dir') \<and> keeps uf (dir_uf dir') \<and>
      cur_block dir' = UFAT_BLOCK_NONE \<and> dir_start dir' = dir_start dir"
proof (induction n arbitrary: uf dir lfn ent)
  case (Suc n)
  note c = Suc.prems(1) and t = Suc.prems(2) and R = Suc.prems(5) [unfolded clear_range_def]
  let ?b = "unat (cur_block dir)" and ?q = "unat (cur_pos dir)"
  let ?ent = "ent\<lparr>dirent_block := cur_block dir, dirent_pos := cur_pos dir\<rparr>"
  have bk: "?b < nblocks" "\<not> is_mirror (bpb uf) ?b" "view uf ?b = replicate bsize 0" using R Suc.prems(6,7) by auto
  have nn: "cur_block dir \<noteq> UFAT_BLOCK_NONE"
  proof
    assume "cur_block dir = UFAT_BLOCK_NONE"
    then have "?b = 2 ^ 64 - 1" by (simp add: UFAT_BLOCK_NONE_def)
    then show False using R Suc.prems(7) by simp
  qed
  obtain i u1 where o: "ufat_cache_open uf (cur_block dir) False = Inr (int i, u1)" "i < cache_size u1"
      "slot_data u1 i = view uf ?b" "keeps uf u1"
    using cache_open_ok [OF c bk(1,2)] by blast
  note K = keeps_facts [OF o(4)]
  have off: "dirent_off (cur_pos dir) = ?q * 32"
    using Suc.prems(8) by (simp add: dirent_off_def UFAT_DIRENT_SIZE_def unat_word_ariths)
  have "dirent_off (cur_pos dir) + 32 \<le> bsize" using Suc.prems(8) lg by (simp add: off)
  then have ld: "slot_load u1 i (dirent_off (cur_pos dir)) UFAT_DIRENT_SIZE = Inr (replicate 32 0)"
    using slot_load_ok [OF K(1) o(2), of "dirent_off (cur_pos dir)" 32] o(3) bk(3)
    by (simp add: UFAT_DIRENT_SIZE_def mem_slice_def)
  let ?d1 = "dir\<lparr>dir_uf := u1\<rparr>"
  have rr: "ufat_read_raw_dirent dir = Inr (Inr (replicate 32 0), ?d1)"
    using nn o(1) ld Suc.prems(3) by (simp add: ufat_read_raw_dirent_def)
  have T1: "table_ok (bpb u1)" using t K(2) by simp
  have E1: "dir_end u1 a e" by (rule end_keeps [OF Suc.prems(4) c t o(4)])
  have C1: "clear_range u1 a e" by (rule clear_keeps [OF Suc.prems(5) o(4)])
  have e32: "e < 2 ^ 32 - 2" using R by simp
  obtain d2 where d2: "ufat_advance_raw_dirent ?d1 False = Inr (0, d2)" "keeps u1 (dir_uf d2)" "dir_start d2 = dir_start dir"
      "if ?q + 1 < 16 then unat (cur_pos d2) = ?q + 1 \<and> cur_block d2 = cur_block dir
       else unat (cur_pos d2) = 0 \<and> (if ?b + 1 < e then unat (cur_block d2) = ?b + 1 else cur_block d2 = UFAT_BLOCK_NONE)"
    using advance_ok [OF K(1) T1 lg, of ?d1 ?q ?b a e] Suc.prems(6,7,8) E1 e32 by auto
  note K2 = keeps_facts [OF d2(2)]
  have k2: "keeps uf (dir_uf d2)" by (rule keeps_trans [OF o(4) d2(2)])
  have step: "dir_read_loop (Suc n) lfn dir ent buf m = dir_read_loop n (ufat_lfn_reset lfn) d2 ?ent buf m"
    using rr d2(1) by (simp add: Let_def)
  show ?case
  proof (cases "?q + 1 < 16 \<or> ?b + 1 < e")
    case True
    have T2: "table_ok (bpb (dir_uf d2))" using T1 K2(2) by simp
    have E2: "dir_end (dir_uf d2) a e" by (rule end_keeps [OF E1 K(1) T1 d2(2)])
    have C2: "clear_range (dir_uf d2) a e" by (rule clear_keeps [OF C1 d2(2)])
    have pos: "a \<le> unat (cur_block d2)" "unat (cur_block d2) < e" "unat (cur_pos d2) < 16"
        "(e - unat (cur_block d2)) * 16 - unat (cur_pos d2) < n"
      using d2(4) True Suc.prems(6-9) by (auto split: if_splits)
    obtain ent' dir' where i: "dir_read_loop n (ufat_lfn_reset lfn) d2 ?ent buf m = Inr (1, ent', buf, dir')"
        "keeps (dir_uf d2) (dir_uf dir')" "cur_block dir' = UFAT_BLOCK_NONE" "dir_start dir' = dir_start d2"
      using Suc.IH [OF K2(1) T2 refl E2 C2 pos] by blast
    then show ?thesis using step keeps_trans [OF k2 i(2)] d2(3) by auto
  next
    case False
    then have z: "cur_block d2 = UFAT_BLOCK_NONE" using d2(4) by (auto split: if_splits)
    have "(e - ?b) * 16 - ?q < Suc n" "?b < e" "?q < 16" using Suc.prems(7-9) by simp_all
    then have "n \<noteq> 0" using False by auto
    then obtain n' where n': "n = Suc n'" by (cases n) auto
    have "ufat_read_raw_dirent d2 = Inr (Inl 1, d2)" using z by (simp add: ufat_read_raw_dirent_def)
    then have "dir_read_loop n (ufat_lfn_reset lfn) d2 ?ent buf m =
        Inr (1, ?ent\<lparr>dirent_block := cur_block d2, dirent_pos := cur_pos d2\<rparr>, buf, d2)"
      by (simp add: n' Let_def)
    then show ?thesis using step k2 d2(3) z by auto
  qed
qed simp

end

section \<open>The root directory of a fresh volume\<close>

lemma eoc_no_ptr: "\<not> UFAT_CLUSTER_IS_PTR UFAT_CLUSTER_EOC"
  by (simp add: UFAT_CLUSTER_IS_PTR_def UFAT_CLUSTER_EOC_def)

lemma fresh_root:
  assumes f: "layout_for n t s fl" and p: "bpb uf = fresh_bpb fl" and v: "fresh_volume n uf"
  defines "a \<equiv> unat (dir_start (ufat_open_root uf))"
  shows "\<exists>e. file_dev.dir_end 9 uf a e \<and> file_dev.clear_range 9 n uf a e \<and> a < e \<and> e \<le> a + 96"
proof -
  note S = layout_small [OF f] and L = layout_forD [OF f] and G = fresh_geometry [OF f]
  note K = fresh_ok [OF L(1)]
  have V: "placed n (bpb uf)" "3 \<le> unat (num_clusters (bpb uf))" "file_dev.table_ok 9 (bpb uf)"
    "\<forall>c. 2 \<le> c \<longrightarrow> c < unat (num_clusters (bpb uf)) \<longrightarrow> file_dev.fat_entry 9 uf c =
        (if fat_type (bpb uf) = UFAT_TYPE_FAT32 \<and> c = 2 then UFAT_CLUSTER_EOC else UFAT_CLUSTER_FREE)"
    "\<forall>k \<in> root_dir_blocks (bpb uf). file_dev.view 9 uf k = replicate 512 0"
    using v unfolding fresh_volume_def by blast+
  let ?e = "if t = UFAT_TYPE_FAT32 then a + 2 ^ s else a + unat (root_blocks fl)"
  have room: "unat (reserved_blocks fl) + unat (fat_blocks fl) * 2 + unat (root_blocks fl) + (fresh_clusters t s n - 2) * 2 ^ s \<le> n"
    using L(7,8) S(1) by simp
  have start: "a = unat (reserved_blocks fl) + unat (fat_blocks fl) * 2"
  proof (cases "t = UFAT_TYPE_FAT32")
    case True
    have rc: "root_cluster (bpb uf) = 2" using True by (simp add: p fresh_bpb_def L(2))
    have "unat (cluster_to_block (bpb uf) 2) = clus_block (bpb uf) 2" using placed_block [OF V(1), of 2] V(2) by simp
    then show ?thesis using rc L(9) [OF True] by (simp add: a_def ufat_open_root_def Let_def clus_block_def p G(4))
  next
    case False
    then have "root_cluster (bpb uf) = 0" by (simp add: p fresh_bpb_def L(2))
    then show ?thesis by (simp add: a_def ufat_open_root_def Let_def p G(3))
  qed
  have range: "root_dir_blocks (bpb uf) = {a..<?e}"
    unfolding p G(8) by (simp add: root_range_def L(2) start Let_def)
  have "(2::nat) ^ s \<le> 2 ^ 6" using K(11) by (intro power_increasing) simp_all
  then have len: "?e \<le> a + 96" using layout_root [OF f] by simp
  have le: "?e \<le> n" using K(1) room by (cases "t = UFAT_TYPE_FAT32") (simp_all add: start L(5,6) fresh_root_def)
  have less: "a < ?e" using L(5-8,10) K(7) by (cases "t = UFAT_TYPE_FAT32") (simp_all add: fresh_root_def)
  have mirror: "\<not> is_mirror (bpb uf) k" if k: "a \<le> k" for k
  proof
    assume "is_mirror (bpb uf) k"
    then obtain b j where j: "in_fat (bpb uf) b" "0 < j" "j < unat (fat_count (bpb uf))" "k = b + j * unat (fat_size (bpb uf))"
      by (auto simp: is_mirror_def mirrors_def)
    have "j = 1" using j(2,3) by (simp add: p fresh_bpb_def)
    then show False using j(1,4) k by (simp add: in_fat_def p G(1,2) start)
  qed
  have "?e < 2 ^ 32 - 2" using le S(3) by simp
  then have cl: "file_dev.clear_range 9 n uf a ?e"
    using le mirror V(5) unfolding range file_dev.clear_range_def by simp
  have "file_dev.dir_end 9 uf a ?e"
  proof (cases "t = UFAT_TYPE_FAT32")
    case True
    have "file_dev.fat_entry 9 uf 2 = UFAT_CLUSTER_EOC" using V(2,4) True by (simp add: p G(7))
    then show ?thesis
      using True V(2) eoc_no_ptr L(9) [OF True] unfolding file_dev.dir_end_def
      by (intro disjI2 exI [of _ 2]) (simp add: clus_block_def p G(4,5) start)
  next
    case False
    then show ?thesis by (simp add: file_dev.dir_end_def p G(4) start)
  qed
  then show ?thesis using cl len less by blast
qed

text \<open>From the start of the root directory, in a state that keeps what is seen: no entry.\<close>

lemma fresh_root_read:
  assumes f: "layout_for n t s fl" and p: "bpb uf = fresh_bpb fl" and v: "fresh_volume n uf" and k: "file_dev.keeps 9 n uf u"
    and m: "1536 < m"
  shows "\<exists>ent' dir'. ufat_dir_read m \<lparr>dir_uf = u, cur_pos = 0, cur_block = dir_start (ufat_open_root uf), dir_start = dir_start (ufat_open_root uf)\<rparr>
      ent buf len = Inr (1, ent', buf, dir') \<and> file_dev.keeps 9 n uf (dir_uf dir') \<and> dir_start dir' = dir_start (ufat_open_root uf)"
proof -
  let ?st = "dir_start (ufat_open_root uf)"
  obtain e where e: "file_dev.dir_end 9 uf (unat ?st) e" "file_dev.clear_range 9 n uf (unat ?st) e" "unat ?st < e" "e \<le> unat ?st + 96"
    using fresh_root [OF f p v] by blast
  have V: "file_dev.cache_ok 9 n uf" "file_dev.table_ok 9 (bpb uf)" using v unfolding fresh_volume_def by blast+
  note K = file_dev.keeps_facts [OF k]
  have T: "file_dev.table_ok 9 (bpb u)" using V(2) K(2) by simp
  have E: "file_dev.dir_end 9 u (unat ?st) e" by (rule file_dev.end_keeps [OF e(1) V k])
  have C: "file_dev.clear_range 9 n u (unat ?st) e" by (rule file_dev.clear_keeps [OF e(2) k])
  have lg: "log2_block_size (file_device 9) = 9" by simp
  let ?dir = "\<lparr>dir_uf = u, cur_pos = 0, cur_block = ?st, dir_start = ?st\<rparr>"
  have q: "unat ?st \<le> unat (cur_block ?dir)" "unat (cur_block ?dir) < e" "unat (cur_pos ?dir) < 16"
      "(e - unat (cur_block ?dir)) * 16 - unat (cur_pos ?dir) < m" using e(3,4) m by simp_all
  have du: "dir_uf ?dir = u" by simp
  obtain ent' dir' where r: "dir_read_loop m raw_lfn ?dir ent buf len = Inr (1, ent', buf, dir')" "file_dev.keeps 9 n u (dir_uf dir')"
      "dir_start dir' = dir_start ?dir"
    using file_dev.read_clear [OF lg K(1) T du E C q] by blast
  then show ?thesis using file_dev.keeps_trans [OF k r(2)] by (simp add: ufat_dir_read_def)
qed

section \<open>Formatting, opening and listing\<close>

text \<open>A loop over a directory without entries.\<close>

lemma dir_loop_end:
  assumes "get_dir sh = Some dir" "ufat_dir_read n dir ent (Some name_array) (int UFAT_LFN_MAX_UTF8) = Inr (1, e, b, dir')" "0 < k"
  shows "dir_loop k n ent act sh = Inr (1, put_dir dir' sh)"
  using assms by (cases k) (simp_all add: with_dir_def Let_def)

lemma prompt_ok:
  assumes "length (prompt sh) = 255" "length s \<le> 252" "NUL \<notin> set s"
  shows "\<exists>p. shell_set_prompt (Some s) sh = Inr (sh\<lparr>prompt := p\<rparr>) \<and> length p = 255 \<and> c_str p = Inr (s @ ''>>'')"
proof -
  let ?p = "mem_splice (length s) (''>>'' @ [NUL]) (mem_splice 0 s (prompt sh))"
  have e: "?p = (s @ ''>>'') @ NUL # drop (length s + 3) (prompt sh)" using assms(1,2) by (simp add: mem_splice_def add.commute)
  have nul: "\<forall>c \<in> set (s @ ''>>''). c \<noteq> NUL" using assms(3) by auto
  have "takeWhile (\<lambda>c. c \<noteq> NUL) ?p = s @ ''>>''"
    unfolding e by (subst takeWhile_append2) (use nul in auto)
  moreover have "NUL \<in> set ?p" unfolding e by simp
  ultimately have "c_str ?p = Inr (s @ ''>>'')" by (simp add: c_str_def)
  moreover have "shell_set_prompt (Some s) sh = Inr (sh\<lparr>prompt := ?p\<rparr>)"
    using assms(1,2) by (simp add: shell_set_prompt_def mem_store_def)
  moreover have "length ?p = 255" using assms(1,2) by simp
  ultimately show ?thesis by blast
qed

text \<open>
  C18: on a terminal whose device file has the 2097152 blocks that the command formats, \<open>ufat format\<close> and then
  \<open>ufat open\<close> succeed; the path is the root, the prompt shows it, no keyword is added; \<open>ls\<close> succeeds and
  prints nothing.
\<close>

theorem format_open_list:
  assumes d: "length (disk (vf_uf (fs_state sh))) = 2097152 * 512" "length (cache_data (vf_uf (fs_state sh))) = 8192"
    and p: "length (prompt sh) = 255" "length (cur_dir_full (fs_state sh)) = 2048" and n: "1536 < n"
  shows "\<exists>sh1 sh2 sh3. ufat_func n ent [''ufat'', ''format''] sh = Inr (CLI_OK, sh1) \<and>
    ufat_func n ent [''ufat'', ''open''] sh1 = Inr (CLI_OK, sh2) \<and>
    c_str (cur_dir_full (fs_state sh2)) = Inr ''/'' \<and> c_str (prompt sh2) = Inr ''/>>'' \<and> shell_keywords sh2 = shell_keywords sh \<and>
    ls_func n ent [''ls''] sh2 = Inr (CLI_OK, sh3) \<and> console sh3 = console sh"
proof -
  let ?uf = "vf_uf (fs_state sh)"
  have sz: "(40::nat) \<le> 2097152" "(2097152::nat) \<le> 2 ^ 31" by simp_all
  obtain dk' t s fl where M: "ufat_mkfs (file_device 9) (of_nat 2097152) (disk ?uf) = Inr (0, dk')" "layout_for 2097152 t s fl"
      "\<forall>uf. disk uf = dk' \<longrightarrow> length (cache_data uf) = 8192 \<longrightarrow>
        (\<exists>uf'. ufat_open uf (file_device 9) = Inr (0, uf') \<and> bpb uf' = fresh_bpb fl \<and> fresh_volume 2097152 uf')"
    using fresh_opened [OF sz d(1)] by blast
  define sh1 where "sh1 = put_uf (?uf\<lparr>disk := dk'\<rparr>) sh"
  have f: "ufat_func n ent [''ufat'', ''format''] sh = Inr (CLI_OK, sh1)"
    using M(1) by (simp add: ufat_func_def match_cmd_def ufat_dev_def sh1_def Let_def)
  have u1: "vf_uf (fs_state sh1) = ?uf\<lparr>disk := dk'\<rparr>" by (simp add: sh1_def put_uf_def)
  obtain uf' where o: "ufat_open (?uf\<lparr>disk := dk'\<rparr>) (file_device 9) = Inr (0, uf')" "bpb uf' = fresh_bpb fl" "fresh_volume 2097152 uf'"
    using M(3) [rule_format, of "?uf\<lparr>disk := dk'\<rparr>"] d(2) by auto
  let ?root = "ufat_open_root uf'"
  have rt: "?root = \<lparr>dir_uf = uf', cur_pos = 0, cur_block = dir_start ?root, dir_start = dir_start ?root\<rparr>"
    by (simp add: ufat_open_root_def Let_def)
  have "file_dev.cache_ok 9 2097152 uf'" using o(3) unfolding fresh_volume_def by blast
  then have k0: "file_dev.keeps 9 2097152 uf' uf'" by (rule file_dev.keeps_refl)
  obtain e1 b1 where r1: "ufat_dir_read n ?root ent (Some name_array) (int UFAT_LFN_MAX_UTF8) = Inr (1, e1, Some name_array, b1)"
      "file_dev.keeps 9 2097152 uf' (dir_uf b1)" "dir_start b1 = dir_start ?root"
    using fresh_root_read [OF M(2) o(2,3) k0 n, of ent "Some name_array" "int UFAT_LFN_MAX_UTF8"] rt by auto
  let ?path = "mem_splice 0 [CHR ''/'', NUL] (cur_dir_full (fs_state sh))"
  let ?p1 = "put_path ?path (put_dir ?root (put_uf uf' (sh1\<lparr>fs_state := (fs_state sh1)\<lparr>uf_dev := True\<rparr>\<rparr>)))"
  have path: "mem_store (cur_dir_full (fs_state sh)) 0 [CHR ''/'', NUL] = Inr ?path" using p(2) by (simp add: mem_store_def)
  have cp: "c_str ?path = Inr ''/''" by (simp add: c_str_def mem_splice_def)
  have "length (prompt ?p1) = 255" using p(1) by (simp add: put_path_def put_dir_def put_uf_def sh1_def)
  then obtain q where q: "shell_set_prompt (Some ''/'') ?p1 = Inr (?p1\<lparr>prompt := q\<rparr>)" "c_str q = Inr (''/'' @ ''>>'')"
    using prompt_ok [of ?p1 "''/''"] by auto
  have g1: "get_dir (?p1\<lparr>prompt := q\<rparr>) = Some ?root"
    by (subst (2) rt) (simp add: get_dir_def put_path_def put_dir_def ufat_open_root_def Let_def)
  have n0: "0 < n" using n by simp
  define sh2 where "sh2 = put_dir b1 (?p1\<lparr>prompt := q\<rparr>)"
  have l1: "dir_loop n n ent (\<lambda>_. shell_add_keyword) (?p1\<lparr>prompt := q\<rparr>) = Inr (1, sh2)"
    unfolding sh2_def by (rule dir_loop_end [OF g1 r1(1) n0])
  have op: "ufat_func n ent [''ufat'', ''open''] sh1 = Inr (CLI_OK, sh2)"
    using o(1) path cp q(1) l1
    by (simp add: ufat_func_def match_cmd_def ufat_dev_def u1 Let_def) (simp add: sh1_def put_path_def put_dir_def put_uf_def)
  have F2: "cur_dir_full (fs_state sh2) = ?path" "prompt sh2 = q" "shell_keywords sh2 = shell_keywords sh" "uf_dev (fs_state sh2)"
      "console sh2 = console sh" "vf_uf (fs_state sh2) = dir_uf b1"
    by (simp_all add: sh2_def put_dir_def put_path_def put_uf_def sh1_def)
  let ?d2 = "\<lparr>dir_uf = dir_uf b1, cur_pos = 0, cur_block = dir_start ?root, dir_start = dir_start ?root\<rparr>"
  have g2: "get_dir (rewind_dir sh2) = Some ?d2"
    using r1(3) by (simp add: sh2_def rewind_dir_def get_dir_def put_dir_def ufat_dir_rewind_def)
  obtain e2 b2 where r2: "ufat_dir_read n ?d2 ent (Some name_array) (int UFAT_LFN_MAX_UTF8) = Inr (1, e2, Some name_array, b2)"
    using fresh_root_read [OF M(2) o(2,3) r1(2) n] by blast
  have l2: "dir_loop n n ent ls_line (rewind_dir sh2) = Inr (1, put_dir b2 (rewind_dir sh2))"
    by (rule dir_loop_end [OF g2 r2 n0])
  have ls: "ls_func n ent [''ls''] sh2 = Inr (CLI_OK, put_dir b2 (rewind_dir sh2))"
    using l2 F2(4) by (simp add: ls_func_def CHECK_FS_OPEN_def)
  have "console (put_dir b2 (rewind_dir sh2)) = console sh"
    using F2(5) by (simp add: put_dir_def rewind_dir_def split: option.split)
  then show ?thesis using f op ls F2(1-3) cp q(2) by (intro exI conjI) (assumption | simp)+
qed

text \<open>The statics before \<open>main\<close>, for a device file.\<close>

definition vfat_start :: "bytes \<Rightarrow> vfat" where
  "vfat_start file = \<lparr>vf_uf = raw_memory file, uf_dev = False, vf_dir = None, cur_dir_full = zeros FULL_PATH_LEN\<rparr>"

theorem format_open_list_witness:
  "\<exists>sh1 sh2. ufat_func 2000 raw_dirent [''ufat'', ''format''] (shell_start [] (vfat_start (replicate 1073741824 0))) = Inr (CLI_OK, sh1) \<and>
     ufat_func 2000 raw_dirent [''ufat'', ''open''] sh1 = Inr (CLI_OK, sh2) \<and> c_str (prompt sh2) = Inr ''/>>''"
proof -
  let ?sh = "shell_start [] (vfat_start (replicate 1073741824 0))"
  have h: "length (disk (vf_uf (fs_state ?sh))) = 2097152 * 512" "length (cache_data (vf_uf (fs_state ?sh))) = 8192"
    "length (prompt ?sh) = 255" "length (cur_dir_full (fs_state ?sh)) = 2048" "(1536::nat) < 2000"
    by (simp_all add: shell_start_def vfat_start_def raw_memory_def small_volume_def zeros_def FULL_PATH_LEN_def)
  show ?thesis using format_open_list [OF h, of raw_dirent] by blast
qed

section \<open>The path\<close>

text \<open>The text of a path with these components.\<close>

definition path_text :: "string list \<Rightarrow> string" where
  "path_text cs = (if cs = [] then ''/'' else concat (map (\<lambda>c. CHR ''/'' # c) cs))"

lemma c_str_split: "c_str path = Inr p \<longleftrightarrow> NUL \<notin> set p \<and> (\<exists>rest. path = p @ NUL # rest)"
proof
  assume c: "c_str path = Inr p"
  then have n: "NUL \<in> set path" "p = takeWhile (\<lambda>c. c \<noteq> NUL) path" by (auto simp: c_str_def split: if_splits)
  then have "dropWhile (\<lambda>c. c \<noteq> NUL) path \<noteq> []" by (simp add: dropWhile_eq_Nil_conv)
  then obtain x rest where d: "dropWhile (\<lambda>c. c \<noteq> NUL) path = x # rest" by (cases "dropWhile (\<lambda>c. c \<noteq> NUL) path") auto
  then have "x = NUL" using hd_dropWhile [of "\<lambda>c. c \<noteq> NUL" path] by simp
  then have "path = p @ NUL # rest" using takeWhile_dropWhile_id [of "\<lambda>c. c \<noteq> NUL" path] n(2) d by simp
  moreover have "NUL \<notin> set p" using n(2) by (auto dest: set_takeWhileD)
  ultimately show "NUL \<notin> set p \<and> (\<exists>rest. path = p @ NUL # rest)" by blast
next
  assume "NUL \<notin> set p \<and> (\<exists>rest. path = p @ NUL # rest)"
  then obtain rest where "path = p @ NUL # rest" "\<forall>c \<in> set p. c \<noteq> NUL" by auto
  then show "c_str path = Inr p" by (simp add: c_str_def takeWhile_append2)
qed

lemma last_slash_ok:
  assumes "path = a @ CHR ''/'' # b @ NUL # rest" and b: "CHR ''/'' \<notin> set b"
  shows "length a \<le> j \<Longrightarrow> j \<le> length a + 1 + length b \<Longrightarrow> last_slash path j = Inr (length a)"
proof (induction j)
  case 0
  then show ?case using assms(1) by (simp add: aget_def)
next
  case (Suc j)
  have l: "Suc j < length path" using Suc.prems(2) assms(1) by simp
  show ?case
  proof (cases "Suc j = length a")
    case True
    then have "path ! Suc j = CHR ''/''" using assms(1) by (simp add: nth_append)
    then show ?thesis using l True [symmetric] by (simp add: aget_def del: of_nat_Suc)
  next
    case False
    then have le: "length a \<le> j" using Suc.prems(1) by simp
    then have m: "Suc j = length a + Suc (j - length a)" "j - length a \<le> length b" using Suc.prems(2) by simp_all
    have "path ! (length a + Suc (j - length a)) = (b @ [NUL]) ! (j - length a)" using assms(1) m(2) by (simp add: nth_append)
    then have "path ! Suc j = (b @ [NUL]) ! (j - length a)" unfolding m(1) [symmetric] .
    moreover have "(b @ [NUL]) ! (j - length a) \<in> set (b @ [NUL])" using m(2) by (intro nth_mem) simp
    ultimately have "path ! Suc j \<noteq> CHR ''/''" using b by auto
    then show ?thesis using l Suc.IH [OF le] Suc.prems(2) by (simp add: aget_def del: of_nat_Suc)
  qed
qed

lemma cut_path: "path = p @ NUL # rest \<Longrightarrow> NUL \<notin> set p \<Longrightarrow> i \<le> length p \<Longrightarrow> c_str (path[i := NUL]) = Inr (take i p)"
proof -
  assume p: "path = p @ NUL # rest" "NUL \<notin> set p" "i \<le> length p"
  have "path[i := NUL] = take i path @ NUL # drop (Suc i) path" using p by (simp add: upd_conv_take_nth_drop)
  then have "path[i := NUL] = take i p @ NUL # drop (Suc i) path" using p by simp
  moreover have "NUL \<notin> set (take i p)" using p(2) by (auto dest: in_set_takeD)
  ultimately show ?thesis unfolding c_str_split by blast
qed

lemma path_text_snoc: "cs \<noteq> [] \<Longrightarrow> path_text (cs @ [c]) = path_text cs @ CHR ''/'' # c" "path_text [c] = CHR ''/'' # c"
  by (simp_all add: path_text_def)

lemma nat_succ: "nat (1 + int k) = Suc k"
  by (metis nat_int of_nat_Suc)

lemma nat_succ_add: "nat (1 + (int k + int m)) = Suc (k + m)"
  by (metis nat_succ of_nat_add)

lemma path_text_length: "\<forall>c \<in> set cs. c \<noteq> [] \<Longrightarrow> length (path_text cs) = 1 \<longleftrightarrow> cs = []"
  by (cases cs) (auto simp: path_text_def)

text \<open>
  C38: the path that \<open>cd\<close> keeps is the text of a list of names: \<open>cd ..\<close> takes the last one off and leaves the root
  as it is, \<open>cd name\<close> appends the name; a path that is too long is refused, but one of exactly 2048
  characters is written with its NUL behind the array.
\<close>

theorem cd_path_components:
  assumes l: "length path = 2048" and c: "c_str path = Inr (path_text cs)" and cs: "\<forall>c \<in> set cs. c \<noteq> [] \<and> CHR ''/'' \<notin> set c"
    and name: "NUL \<notin> set name"
  defines "len \<equiv> length (path_text cs) + 1 + length name"
  shows "if name \<noteq> ''..'' \<and> 2048 < len then cd_path path name = Inr (False, path)
     else if name \<noteq> ''..'' \<and> len = 2048 \<and> cs \<noteq> [] then cd_path path name = Inl C_Fault
     else \<exists>path'. cd_path path name = Inr (True, path') \<and> length path' = 2048 \<and>
       c_str path' = Inr (path_text (if name = ''..'' then butlast cs else cs @ [name]))"
proof (cases "name = ''..''")
  case True
  obtain rest where p: "path = path_text cs @ NUL # rest" and n: "NUL \<notin> set (path_text cs)" using c unfolding c_str_split by blast
  define pre where "pre = concat (map (\<lambda>c. CHR ''/'' # c) (butlast cs))"
  define x where "x = (if cs = [] then [] else last cs)"
  have t: "path_text cs = pre @ CHR ''/'' # x"
    by (cases cs rule: rev_cases) (simp_all add: path_text_def pre_def x_def)
  have x: "CHR ''/'' \<notin> set x" using cs by (simp add: x_def)
  have s: "last_slash path (length (path_text cs)) = Inr (length pre)"
    by (rule last_slash_ok [of path pre x rest]) (use p t x in simp_all)
  let ?i = "if length pre = 0 then 1 else length pre"
  have i: "?i \<le> length (path_text cs)" using t by simp
  have lt: "length (path_text cs) < length path" using p by simp
  have "aset path (if length pre = 0 then 1 else int (length pre)) NUL = Inr (path[?i := NUL])"
    using i lt l by (auto simp: aset_def)
  moreover have "c_str (path[?i := NUL]) = Inr (take ?i (path_text cs))" by (rule cut_path [OF p n i])
  moreover have "take ?i (path_text cs) = path_text (butlast cs)"
  proof (cases "butlast cs = []")
    case True
    then show ?thesis using t by (simp add: pre_def path_text_def)
  next
    case False
    then have "pre \<noteq> []" by (simp add: pre_def)
    then show ?thesis using t False by (simp add: path_text_def pre_def)
  qed
  ultimately show ?thesis using True c s l by (simp add: cd_path_def match_cmd_def)
next
  case False
  obtain rest where p: "path = path_text cs @ NUL # rest" and n: "NUL \<notin> set (path_text cs)" using c unfolding c_str_split by blast
  have m: "\<not> match_cmd ''..'' name" using False by simp
  show ?thesis
  proof (cases "2048 < len")
    case True
    then show ?thesis using False c m by (simp add: cd_path_def len_def FULL_PATH_LEN_def)
  next
    case fits: False
    let ?p = "path_text cs"
    show ?thesis
    proof (cases "cs = []")
      case True
      then have r: "?p = ''/''" by (simp add: path_text_def)
      have ln: "length name < 2047" using fits r by (simp add: len_def)
      let ?q = "mem_splice 1 name path"
      have q: "?q[Suc (length name) := NUL] = (CHR ''/'' # name) @ NUL # drop (length name + 2) path"
        using l ln p r by (simp add: mem_splice_def list_update_append upd_conv_take_nth_drop)
      have "c_str (?q[Suc (length name) := NUL]) = Inr (CHR ''/'' # name)"
        unfolding q c_str_split using name by auto
      then show ?thesis
        using False m c r True fits l ln
        by (simp add: cd_path_def len_def FULL_PATH_LEN_def mem_store_def aset_def path_text_snoc(2) Let_def nat_succ)
    next
      case ne: False
      have o: "length ?p \<noteq> 1" using path_text_length [of cs] cs ne by auto
      let ?k = "length ?p"
      have lt: "?k < 2048" using p l by simp
      let ?q = "mem_splice (?k + 1) name (path[?k := CHR ''/''])"
      show ?thesis
      proof (cases "len = 2048")
        case True
        then show ?thesis
          using False m c o ne l lt
          by (simp add: cd_path_def len_def FULL_PATH_LEN_def mem_store_def aset_def Let_def)
      next
        case lt2: False
        then have ln: "?k + 1 + length name < 2048" using fits by (simp add: len_def)
        have s1: "path[?k := CHR ''/''] = ?p @ CHR ''/'' # rest" using p by (metis list_update_length)
        have lr: "length name < length rest" using p l ln by simp
        then obtain z where z: "drop (length name) rest = z # drop (Suc (length name)) rest" by (metis Cons_nth_drop_Suc)
        have "?q = (?p @ CHR ''/'' # name) @ drop (length name) rest" unfolding s1 by (simp add: mem_splice_def)
        then have "?q = (?p @ CHR ''/'' # name) @ z # drop (Suc (length name)) rest" unfolding z .
        then have q: "?q[?k + 1 + length name := NUL] = (?p @ CHR ''/'' # name) @ NUL # drop (Suc (length name)) rest"
          using list_update_length [of "?p @ CHR ''/'' # name" z "drop (Suc (length name)) rest" NUL] by simp
        have "c_str (?q[?k + 1 + length name := NUL]) = Inr (?p @ CHR ''/'' # name)"
          unfolding q c_str_split using name n by auto
        then show ?thesis
          using False m c o ne l ln lt lt2 fits
          by (simp add: cd_path_def len_def FULL_PATH_LEN_def mem_store_def aset_def path_text_snoc(1) Let_def nat_succ_add)
      qed
    qed
  qed
qed

theorem cd_path_components_witness:
  "\<exists>path'. cd_path (''/usr'' @ replicate 2044 NUL) ''lib'' = Inr (True, path') \<and> c_str path' = Inr ''/usr/lib''"
proof -
  let ?path = "''/usr'' @ replicate 2044 NUL"
  have t: "path_text [''usr''] = ''/usr''" "path_text ([''usr''] @ [''lib'']) = ''/usr/lib''" by (simp_all add: path_text_def)
  have r: "replicate 2044 NUL = NUL # replicate 2043 NUL" using replicate_Suc [of 2043 NUL] by simp
  have c: "c_str ?path = Inr (path_text [''usr''])" unfolding t(1) c_str_split r by auto
  have l: "length ?path = 2048" by simp
  have cs: "\<forall>c \<in> set [''usr'']. c \<noteq> [] \<and> CHR ''/'' \<notin> set c" "NUL \<notin> set ''lib''" by simp_all
  show ?thesis using cd_path_components [OF l c cs] t by auto
qed

text \<open>After an \<open>ufat open\<close> that failed, \<open>uf.dev\<close> is set and \<open>dir.uf\<close> is NULL: \<open>ls\<close> follows it.\<close>

lemma list_without_directory:
  "uf_dev (fs_state sh) \<Longrightarrow> vf_dir (fs_state sh) = None \<Longrightarrow> 0 < n \<Longrightarrow> ls_func n ent [''ls''] sh = Inl C_Fault"
  by (cases n) (simp_all add: ls_func_def CHECK_FS_OPEN_def rewind_dir_def get_dir_def with_dir_def)

text \<open>A name of more than 32 characters is written behind the row of its keyword.\<close>

lemma long_keyword_faults:
  "0 \<le> keywords_cnt (shell_keywords sh) \<Longrightarrow> nat (keywords_cnt (shell_keywords sh)) < length (keywords_buf (shell_keywords sh)) \<Longrightarrow>
    length (keywords_buf (shell_keywords sh) ! nat (keywords_cnt (shell_keywords sh))) = 32 \<Longrightarrow> 32 < length name \<Longrightarrow>
    shell_add_keyword name sh = Inl C_Fault"
  by (simp add: shell_add_keyword_def aget_def mem_store_def Let_def)

end
