(* ===== verification/Spec2Isabelle.thy ===== *)
theory Spec2Isabelle
  imports Db_Properties Net_Properties Work_Properties H264_Properties Sh_Properties Fat_Properties Fat_Entries Fat_Files Fat_Fresh
    Sh_Files
begin

text \<open>
  \<^bold>\<open>A verification of the C programs of my-exercise\<close>

  The repository collects independent C programs. This development models, from their sources under
  src/, the following ones.

  \<^bold>\<open>simpledb\<close>, a database of one table in a B-tree of 4096-byte pages:
  \<^item> \<open>Db_Row\<close>: rows and their serialisation (row.h, row.c), with the parts of the C library they use
    (atoi, strcpy, decimal output).
  \<^item> \<open>Db_Pager\<close>: the page cache over the database file (config.h, pager.h, pager.c). The file system's
    answers are fields of the pager's state. The locale \<open>page_cache\<close> states what the tree layer relies
    on and is interpreted on \<open>pager_get_page\<close>.
  \<^item> \<open>Db_Node\<close>: offsets and accessors of leaf and internal nodes over the bytes of a page (node.h,
    node.c).
  \<^item> \<open>Db_Leaf\<close>, \<open>Db_Btree\<close>: searching, inserting, splitting (node_btree.c), the cursor and opening and
    closing (table.c). The locale \<open>sorted_keys\<close> carries the binary search and is interpreted on the
    keys of a leaf.
  \<^item> \<open>Db_Statement\<close>: input lines, parsing, execution, meta commands and the main loop (inputs.c,
    statement.c, meta.c, main.c).
  \<^item> \<open>Db_Leaf_Insert\<close>, \<open>Db_Leaf_Split\<close>, \<open>Db_Table_Ops\<close>, \<open>Db_Table_Split\<close>, \<open>Db_Runs\<close>,
    \<open>Db_Sessions\<close>, \<open>Db_Parse\<close>, \<open>Db_Repl\<close>: the lemmas, from one page to whole runs of the
    program; \<open>Db_Properties\<close> states the properties.

  \<^bold>\<open>tcpip\<close>, a user-space network stack on a tap device:
  \<^item> \<open>Linked_List\<close>, \<open>Net_Utils\<close>: the intrusive lists and the Internet checksum (utils.h, utils.c). The
    locale \<open>linked_queue\<close> is the contract of a list with insertion at both ends and removal.
  \<^item> \<open>Net_Core\<close>: the structs of the stack, its global state \<open>net\<close>, and packet buffers (skbuff.c).
    Buffers and devices live in stores by number, a dangling pointer is a missing entry.
  \<^item> \<open>Net_Arp\<close>: the ARP cache and its timer (arp_cache.c, \<open>arp_request\<close> of arp.c). Transmission is an
    argument \<open>tx\<close>, since \<open>net_tx\<close> and the ARP functions call each other.
  \<^item> \<open>Net_Dev\<close>: ARP reception, the device layer and the two devices (arp.c, netdev.c, loop_if.c,
    tap_if.c), where \<open>net_tx\<close> ties that knot with fuel: one unit for each nested transmission.
  \<^item> \<open>Net_Route\<close>, \<open>Net_Ip\<close>: the routing table and IP input and forwarding (route.c, ip.c).
  \<^item> \<open>Net_Main\<close>: start-up, the receive thread and the signal handler (main.c, tap_if.c).
  \<^item> \<open>Net_Reply\<close>, \<open>Net_Properties\<close>: the ARP exchange byte by byte, and the properties.

  \<^bold>\<open>workthread\<close>, threads that can be paused with a signal:
  \<^item> \<open>Work_List\<close>: the intrusive lists of list.h, a second interpretation of \<open>linked_queue\<close>.
  \<^item> \<open>Work_Thread\<close>: the semaphore (bsem.h), the workers and the signal handler (workThread.c) and the calls
    of main.c, as the events of a step relation \<open>work_runs\<close> in which the threads interleave.
  \<^item> \<open>Work_Safety\<close>: the invariant \<open>work_ok\<close> and its preservation by every event; \<open>Work_Properties\<close> states
    the properties.

  \<^bold>\<open>h264\<close>, an analyser of H.264 byte streams:
  \<^item> \<open>H264_Bits\<close>: the bit reader and the Exp-Golomb codes (bs.h), against the list of bits left.
  \<^item> \<open>H264_Nalu\<close>: units in the stream, emulation prevention, trailing bits (nalu.c).
  \<^item> \<open>H264_Parset\<close>, \<open>H264_Header\<close>: C arrays with bounds and the statements the parsers consist of, as functions
    on the structure being filled and the reader; the parameter sets and the slice header, statement by statement
    (parset.c, header.c, slice.c).
  \<^item> \<open>H264_Decode\<close>: the dispatch on the unit type and the main loop (nalu.c, stream.c, decode.c), which ends
    because every unit found moves the search on.
  \<^item> \<open>H264_Encode\<close>, \<open>H264_Sps\<close>: which bits a statement of a parser consumes, and an encoder
    of sequence parameter sets that the parser inverts, scaling lists and VUI parameters included.
  \<^item> \<open>H264_State\<close>: what every statement keeps of the structures, and the invariant of the received sets.
  \<^item> \<open>H264_Properties\<close>: the properties.

  \<^bold>\<open>mysh\<close>, a command line shell for micro-controllers:
  \<^item> \<open>Sh_Printf\<close>: the formatted output (common/printf.c), and that the digits written are those of the number.
  \<^item> \<open>Sh_Edit\<close>: the terminal, the line editor with its keys, history and completion (common/uart.c,
    common/lib_mem.c, shell/shell.c). The editor ends: at the end of the input every iteration makes the line
    longer.
  \<^item> \<open>Sh_Shell\<close>: parsing, the table of commands and the commands of shell/shell_cmd_tbl.c, prompt, keywords and
    the main loop (shell/shell.c, main.c). The entries of the table that fs/vfat.c provides are a parameter, see \<open>Sh_Vfat\<close>.
  \<^item> \<open>Sh_Line\<close>: the two arrays of the editor against a text with a cursor, and what the terminal shows. The locale
    \<open>command_reader\<close> is the contract of a loop that reads commands from its input; it is interpreted on the
    keys of a line here and on the lines of a session in \<open>Sh_Properties\<close>.
  \<^item> \<open>Sh_Words\<close>, \<open>Sh_Session\<close>, \<open>Sh_Keywords\<close>: parsing against the words of a line, lines through the main loop, the
    keywords from the start of the shell and the completion; \<open>Sh_Properties\<close> states the properties.

  \<^bold>\<open>uFAT\<close>, the FAT file system of mysh (mysh/fs), on the block device of mysh/common/block.c:
  \<^item> \<open>Fat_Cache\<close>: the device, the structs and the block cache (ufat.h, ufat.c). \<open>'d ufat\<close> is \<open>struct ufat\<close>
    with the state \<open>'d\<close> of its device; a slot is its number, its data a part of \<open>cache_data\<close>.
  \<^item> \<open>Fat_Table\<close>: entries of FAT12, FAT16 and FAT32, free chains and allocation (ufat.c). The loop of
    \<open>ufat_free_chain\<close> has fuel for one step more than there are clusters, which is always enough: a step
    that goes on has freed a cluster that was in use.
  \<^item> \<open>Fat_Open\<close>: the BIOS parameter block, opening and error texts (ufat.c).
  \<^item> \<open>Fat_View\<close>: the locale \<open>block_device\<close> with the laws of a device, interpreted on the shell's file; the
    invariant of the cache and the disk as seen through it. \<open>Fat_Blocks\<close> and \<open>Fat_Sync\<close> show that the operations of
    the cache refine that disk and keep the copies of the FAT equal.
  \<^item> \<open>Fat_Entry\<close>, \<open>Fat_Access\<close>: the table as an array of entries, and its operations as reads and
    updates of that array; \<open>Fat_Free\<close>, \<open>Fat_Alloc\<close>: chains in it.
  \<^item> \<open>Fat_Layout\<close>, \<open>Fat_Mount\<close>: the areas of a volume and opening one; \<open>Fat_Properties\<close> states the properties.
  \<^item> \<open>Fat_Dirent\<close>: directory entries, short names, checksums, long names and their fragments, encodings and
    the comparison of names (ufat_ent.c). \<open>Fat_Short\<close> and \<open>Fat_Lfn\<close> have the lemmas, \<open>Fat_Entries\<close>
    the properties: what is packed is parsed again, and the short names that are tried are all different.
  \<^item> \<open>Fat_Dir\<close>: entries on the volume (ufat_ent.c) and directories (ufat_dir.c): reading, creating, deleting,
    finding and moving. The loops over the entries of a directory end only on a directory that ends; their
    bound is a parameter.
  \<^item> \<open>Fat_File\<close>: files (ufat_file.c): position, reading, writing, truncating. \<open>'d ufat_file\<close> holds the volume
    that the member \<open>uf\<close> points to.
  \<^item> \<open>Fat_Many\<close>: the locale \<open>multi_device\<close>, a device that moves several blocks at once, interpreted on the
    shell's file; \<open>Fat_Position\<close>: the bytes of a chain of clusters and the position in them; \<open>Fat_Read\<close>,
    \<open>Fat_Store\<close>, \<open>Fat_Write\<close>, \<open>Fat_Written\<close>: reading and writing as slices and updates of these bytes, block
    by block through the cache and past it; \<open>Fat_Files\<close> states the properties. The fuel of the loops is one
    more than the bytes of the request, and each step moves at least a block.
  \<^item> \<open>Fat_Mkfs\<close>: formatting (ufat_mkfs.c): the layout of a volume and the blocks that are written.
    \<open>Fat_Format\<close> gives the layout of a device of 512-byte blocks in natural numbers and shows that the boot
    sector is parsed back; \<open>Fat_Fresh\<close> shows what the loops leave on a device, from 40 to 2^31 blocks, and
    that opening it gives an empty volume.
  \<^item> \<open>Sh_Vfat\<close>: the commands over uFAT (vfat.c), which instantiate the parameter of the shell's table;
    \<open>Sh_Files\<close>: reading a clear directory ends after its entries, the session that formats, opens and
    lists, and the path of \<open>cd\<close> as a list of names. A bound of more than 1536 entries is enough for the root
    directory of a fresh volume, which has at most 96 blocks.

  \<^bold>\<open>Conventions\<close> (\<open>C_Prelude\<close>). An operation returns \<open>c_error + 'a\<close>: \<open>C_Exit\<close> with the message is the
  program calling \<open>exit\<close>, \<open>C_Fault\<close> an access outside the memory it may touch, \<open>C_Fuel\<close> that the fuel of a
  loop ran out. Memory is a list of bytes, read and written with \<open>mem_load\<close> and \<open>mem_store\<close>, which check
  the bounds; machine integers are words. Loops that are not structural take fuel: the searches get one
  unit for each bit of a 32-bit index and more, and \<open>leaf_find_terminates\<close> shows that this is enough on
  every page; \<open>select_fuel\<close> and \<open>tree_fuel\<close> bound the loops over the pages of a table, and
  \<open>select_prints_chain\<close> shows that they end on every chain of leaves.

  \<^bold>\<open>Not modelled\<close>: code that only calls the operating system (\<open>tap_alloc\<close>, \<open>run_cmd\<close>), whose results are
  parameters of the state; debug output; the scheduling of the threads of tcpip; ICMP, whose file is
  commented out; the FAT32 library of fat32, which is third-party code.
\<close>

end
